(* ===== verification/Prelude.thy ===== *)
theory Prelude
  imports Main "HOL-Library.Word" "HOL-Library.Multiset"
begin

text \<open>
  Shared vocabulary of the development: machine integers and addresses, the memory the
  C code runs on, run-time faults as values, linked chains in memory, and the generic
  argument that an invariant kept by every step holds in every reachable state.

  Memory is a function from the base address of an object and a byte offset inside the
  object to the 64-bit word stored there.  Two C views of the same slot (a free list
  header and the object that later occupies it) therefore alias exactly where their
  fields have the same offset, which is what the pool allocator relies on.
\<close>

unbundle bit_operations_syntax

section \<open>Machine integers, addresses and memory\<close>

type_synonym u8 = "8 word"
type_synonym u16 = "16 word"
type_synonym u32 = "32 word"
type_synonym u64 = "64 word"
type_synonym addr = u64
type_synonym heap = "addr \<Rightarrow> nat \<Rightarrow> u64"

abbreviation NULL :: addr where
  "NULL \<equiv> 0"

text \<open>The store \<open>*(p + off) = v\<close>.\<close>

definition hwrite :: "heap \<Rightarrow> addr \<Rightarrow> nat \<Rightarrow> u64 \<Rightarrow> heap" where
  "hwrite h p off v = h(p := (h p)(off := v))"

lemma hwrite_same [simp]: "hwrite h p off v p off = v"
  by (simp add: hwrite_def)

lemma hwrite_other_obj [simp]: "q \<noteq> p \<Longrightarrow> hwrite h p off v q = h q"
  by (simp add: hwrite_def)

lemma hwrite_other_off [simp]: "o' \<noteq> off \<Longrightarrow> hwrite h p off v q o' = h q o'"
  by (simp add: hwrite_def)

section \<open>Low bits of a word\<close>

lemma and_not_mask_eq: "x AND NOT (mask n) = x - take_bit n x" for x :: "'a::len word"
proof -
  have "(x AND NOT (mask n)) AND take_bit n x = 0"
    by (rule bit_word_eqI) (auto simp: bit_simps)
  then have "(x AND NOT (mask n)) + take_bit n x = (x AND NOT (mask n)) OR take_bit n x"
    by (rule disjunctive_add_eq_or)
  also have "\<dots> = x"
    by (rule bit_word_eqI) (auto simp: bit_simps)
  finally show ?thesis by (simp add: eq_diff_eq)
qed

lemma take_bit_word_add:
  "take_bit n (a + b) = take_bit n (take_bit n a + take_bit n b)" for a b :: "'a::len word"
proof (cases "n \<le> LENGTH('a)")
  case True
  have "take_bit n (uint (a + b)) = take_bit n (take_bit n (uint a) + take_bit n (uint b))"
    using True by (simp add: uint_word_ariths take_bit_add flip: take_bit_eq_mod)
  moreover have "take_bit n (uint (take_bit n a + take_bit n b)) = take_bit n (take_bit n (uint a) + take_bit n (uint b))"
    using True by (simp add: uint_word_ariths take_bit_add unsigned_take_bit_eq flip: take_bit_eq_mod)
  ultimately have "uint (take_bit n (a + b)) = uint (take_bit n (take_bit n a + take_bit n b))"
    by (simp add: unsigned_take_bit_eq)
  then show ?thesis by (rule word_uint_eqI)
next
  case False
  then show ?thesis by (simp add: take_bit_word_eq_self)
qed

lemma unat_of_nat64: "n < 2 ^ 64 \<Longrightarrow> unat (of_nat n :: u64) = n"
  by (simp add: unsigned_of_nat take_bit_nat_eq_self)

lemma sint_small: "unat x < 2147483648 \<Longrightarrow> sint x = int (unat x)" for x :: u32
proof -
  assume "unat x < 2147483648"
  then have u: "uint x < 2147483648" unfolding uint_nat by linarith
  have "sint x = signed_take_bit 31 (uint x)" by (simp add: sint_uint)
  also have "\<dots> = uint x" by (rule signed_take_bit_int_eq_self) (use u uint_ge_0 [of x] in \<open>simp_all, linarith\<close>)
  finally show ?thesis by (simp only: uint_nat)
qed

section \<open>Faults as values\<close>

text \<open>
  The binary is built without \<open>NDEBUG\<close>, so a failing \<open>assert\<close> and \<open>panic\<close>
  abort the run; an access through a null pointer or outside an array is undefined.
  Each of them is a value of its own, never an unspecified result.
\<close>

datatype fault = Assert_failed | Panic | Null_deref | Out_of_bounds | Exit_called | Double_free | Div_by_zero | Bad_shift | Bad_conversion

type_synonym 'a res = "fault + 'a"

definition bindE :: "'a res \<Rightarrow> ('a \<Rightarrow> 'b res) \<Rightarrow> 'b res" where
  "bindE r f = (case r of Inl e \<Rightarrow> Inl e | Inr x \<Rightarrow> f x)"

lemma bindE_Inr [simp]: "bindE (Inr x) f = f x"
  by (simp add: bindE_def)

lemma bindE_Inl [simp]: "bindE (Inl e) f = Inl e"
  by (simp add: bindE_def)

lemma bindE_eq_Inr: "bindE r f = Inr y \<longleftrightarrow> (\<exists>x. r = Inr x \<and> f x = Inr y)"
  by (cases r) auto

text \<open>\<open>assert(b)\<close> and a dereference of \<open>p\<close>.\<close>

definition assertE :: "bool \<Rightarrow> unit res" where
  "assertE b = (if b then Inr () else Inl Assert_failed)"

definition derefE :: "addr \<Rightarrow> unit res" where
  "derefE p = (if p = NULL then Inl Null_deref else Inr ())"

lemma assertE_True [simp]: "assertE True = Inr ()" and assertE_False [simp]: "assertE False = Inl Assert_failed"
  by (simp_all add: assertE_def)

lemma derefE_nonnull [simp]: "p \<noteq> NULL \<Longrightarrow> derefE p = Inr ()" and derefE_null [simp]: "derefE NULL = Inl Null_deref"
  by (simp_all add: derefE_def)

section \<open>Chains of pointers\<close>

text \<open>
  \<open>chain h off p xs\<close>: following the link field at offset \<open>off\<close> from \<open>p\<close>
  visits exactly the objects \<open>xs\<close> and ends at \<open>NULL\<close>.
\<close>

primrec chain :: "heap \<Rightarrow> nat \<Rightarrow> addr \<Rightarrow> addr list \<Rightarrow> bool" where
  "chain h off p [] \<longleftrightarrow> p = NULL"
| "chain h off p (x # xs) \<longleftrightarrow> p = x \<and> x \<noteq> NULL \<and> chain h off (h x off) xs"

lemma chain_NULL [simp]: "chain h off NULL xs \<longleftrightarrow> xs = []"
  by (cases xs) auto

lemma chain_nonnull: "p \<noteq> NULL \<Longrightarrow> chain h off p xs \<longleftrightarrow> (\<exists>ys. xs = p # ys \<and> chain h off (h p off) ys)"
  by (cases xs) auto

lemma chain_cong:
  "(\<And>x. x \<in> set xs \<Longrightarrow> h' x off = h x off) \<Longrightarrow> chain h' off p xs = chain h off p xs"
  by (induction xs arbitrary: p) auto

lemma chain_not_NULL: "chain h off p xs \<Longrightarrow> NULL \<notin> set xs"
  by (induction xs arbitrary: p) auto

lemma chain_hwrite_fresh [simp]:
  "q \<notin> set xs \<Longrightarrow> chain (hwrite h q o' v) off p xs = chain h off p xs"
  by (rule chain_cong) (auto simp: hwrite_def)

lemma chain_hwrite_field [simp]:
  "o' \<noteq> off \<Longrightarrow> chain (hwrite h q o' v) off p xs = chain h off p xs"
  by (rule chain_cong) auto

lemma chain_unique: "chain h off p xs \<Longrightarrow> chain h off p ys \<Longrightarrow> xs = ys"
proof (induction xs arbitrary: p ys)
  case Nil
  then show ?case by simp
next
  case (Cons x xs)
  then show ?case by (cases ys) auto
qed

text \<open>The segment version: \<open>xs\<close> leads from \<open>p\<close> to \<open>q\<close>.\<close>

primrec seg :: "heap \<Rightarrow> nat \<Rightarrow> addr \<Rightarrow> addr list \<Rightarrow> addr \<Rightarrow> bool" where
  "seg h off p [] q \<longleftrightarrow> p = q"
| "seg h off p (x # xs) q \<longleftrightarrow> p = x \<and> x \<noteq> NULL \<and> seg h off (h x off) xs q"

lemma seg_cong:
  "(\<And>x. x \<in> set xs \<Longrightarrow> h' x off = h x off) \<Longrightarrow> seg h' off p xs q = seg h off p xs q"
  by (induction xs arbitrary: p) auto

lemma chain_append: "chain h off p (xs @ ys) \<longleftrightarrow> (\<exists>q. seg h off p xs q \<and> chain h off q ys)"
  by (induction xs arbitrary: p) auto

lemma chain_snoc_write:
  assumes "chain h off p (xs @ [l])" and "distinct (xs @ [l])" and "n \<notin> set (xs @ [l])" and "n \<noteq> NULL"
    and "h' l off = n" and "h' n off = NULL" and "\<And>x. x \<in> set xs \<Longrightarrow> h' x off = h x off"
  shows "chain h' off p (xs @ [l, n])"
proof -
  from assms(1) obtain q where q: "seg h off p xs q" "q = l" "l \<noteq> NULL"
    by (auto simp: chain_append)
  have "seg h' off p xs l"
    using q seg_cong [of xs h' off h p l] assms(7) by simp
  then show ?thesis
    using q assms by (auto simp: chain_append intro!: exI [of _ l])
qed

section \<open>Reachable states and invariants\<close>

inductive reach :: "('s \<Rightarrow> bool) \<Rightarrow> ('s \<Rightarrow> 's \<Rightarrow> bool) \<Rightarrow> 's \<Rightarrow> bool"
  for start :: "'s \<Rightarrow> bool" and step :: "'s \<Rightarrow> 's \<Rightarrow> bool" where
  reach_start: "start s \<Longrightarrow> reach start step s"
| reach_step: "reach start step s \<Longrightarrow> step s t \<Longrightarrow> reach start step t"

text \<open>
  The contract of a state machine with an inductive invariant; every component that runs
  as a sequence of steps is an instance.
\<close>

locale invariant_machine =
  fixes start :: "'s \<Rightarrow> bool" and step :: "'s \<Rightarrow> 's \<Rightarrow> bool" and inv :: "'s \<Rightarrow> bool"
  assumes inv_start: "start s \<Longrightarrow> inv s"
    and inv_step: "inv s \<Longrightarrow> step s t \<Longrightarrow> inv t"
begin

lemma reach_inv: "reach start step s \<Longrightarrow> inv s"
  by (induction rule: reach.induct) (auto intro: inv_start inv_step)

lemma reach_step_inv: "reach start step s \<Longrightarrow> step s t \<Longrightarrow> inv s \<and> inv t"
  using reach_inv inv_step by blast

end

end
