(* ===== verification/Pool_Interface.thy ===== *)
theory Pool_Interface
  imports Prelude
begin

text \<open>
  What the clients of a memory pool (task queues, buffer queues, contexts) rely on: the
  contract of \<open>mempool_alloc\<close> and \<open>mempool_free\<close> of \<open>inc/ix/mempool.h\<close>, and what
  follows from it for any client that touches only objects it holds.
\<close>

section \<open>Clients of a pool\<close>

text \<open>
  A client holds the objects \<open>L\<close>.  It may allocate, release an object it holds, and
  overwrite an object it holds in any way.
\<close>

inductive pool_client ::
  "(heap \<Rightarrow> 'p \<Rightarrow> (addr \<times> 'p) res) \<Rightarrow> (heap \<Rightarrow> 'p \<Rightarrow> addr \<Rightarrow> (heap \<times> 'p) res) \<Rightarrow>
     heap \<times> 'p \<times> addr set \<Rightarrow> heap \<times> 'p \<times> addr set \<Rightarrow> bool"
  for alloc :: "heap \<Rightarrow> 'p \<Rightarrow> (addr \<times> 'p) res"
    and free :: "heap \<Rightarrow> 'p \<Rightarrow> addr \<Rightarrow> (heap \<times> 'p) res" where
  client_alloc: "alloc h p = Inr (x, p') \<Longrightarrow> x \<noteq> NULL \<Longrightarrow>
     pool_client alloc free (h, p, L) (h, p', insert x L)"
| client_fail: "alloc h p = Inr (NULL, p') \<Longrightarrow> pool_client alloc free (h, p, L) (h, p', L)"
| client_free: "x \<in> L \<Longrightarrow> free h p x = Inr (h', p') \<Longrightarrow>
     pool_client alloc free (h, p, L) (h', p', L - {x})"
| client_write: "x \<in> L \<Longrightarrow> pool_client alloc free (h, p, L) (h(x := c), p, L)"

section \<open>The contract\<close>

text \<open>
  \<open>ok h p F L\<close>: in memory \<open>h\<close> the pool \<open>p\<close> is well formed, \<open>F\<close> is free and \<open>L\<close> is live.
  The release law says that only the first word of the released object changes: code that
  reads another field just after the release still sees its old value.
\<close>

locale pool_provider =
  fixes alloc :: "heap \<Rightarrow> 'p \<Rightarrow> (addr \<times> 'p) res"
    and free :: "heap \<Rightarrow> 'p \<Rightarrow> addr \<Rightarrow> (heap \<times> 'p) res"
    and ok :: "heap \<Rightarrow> 'p \<Rightarrow> addr set \<Rightarrow> addr set \<Rightarrow> bool"
  assumes ok_sets: "ok h p F L \<Longrightarrow> F \<inter> L = {} \<and> NULL \<notin> F \<and> NULL \<notin> L"
    and alloc_none: "ok h p {} L \<Longrightarrow> alloc h p = Inr (NULL, p)"
    and alloc_some: "ok h p F L \<Longrightarrow> F \<noteq> {} \<Longrightarrow>
      \<exists>x p'. alloc h p = Inr (x, p') \<and> x \<in> F \<and> ok h p' (F - {x}) (insert x L)"
    and free_live: "ok h p F L \<Longrightarrow> x \<in> L \<Longrightarrow>
      \<exists>h' p'. free h p x = Inr (h', p') \<and> ok h' p' (insert x F) (L - {x}) \<and>
        (\<forall>y. y \<notin> insert x F \<longrightarrow> h' y = h y) \<and> (\<forall>off. off \<noteq> 0 \<longrightarrow> h' x off = h x off)"
    and ok_frame: "ok h p F L \<Longrightarrow> (\<And>x. x \<in> F \<Longrightarrow> h' x = h x) \<Longrightarrow> ok h' p F L"
begin

lemma alloc_cases:
  assumes "ok h p F L"
  obtains (none) "F = {}" "alloc h p = Inr (NULL, p)"
  | (some) x p' where "alloc h p = Inr (x, p')" "x \<in> F" "x \<notin> L" "x \<noteq> NULL"
      "ok h p' (F - {x}) (insert x L)"
proof (cases "F = {}")
  case True
  then show ?thesis using none alloc_none assms by blast
next
  case False
  then show ?thesis using some alloc_some [OF assms] ok_sets [OF assms] by blast
qed

lemma alloc_null_iff: "ok h p F L \<Longrightarrow> (\<exists>p'. alloc h p = Inr (NULL, p')) \<longleftrightarrow> F = {}"
  by (cases rule: alloc_cases) auto

lemma ok_write_live:
  assumes "ok h p F L" and "x \<in> L"
  shows "ok (h(x := c)) p F L"
proof (rule ok_frame [OF assms(1)])
  fix y
  assume "y \<in> F"
  then show "(h(x := c)) y = h y"
    using ok_sets [OF assms(1)] assms(2) by auto
qed

lemma client_step_ok:
  assumes "pool_client alloc free s t"
    and "case s of (h, p, L) \<Rightarrow> ok h p (U - L) L \<and> L \<subseteq> U"
  shows "case t of (h, p, L) \<Rightarrow> ok h p (U - L) L \<and> L \<subseteq> U"
  using assms
proof (induction rule: pool_client.induct)
  case (client_alloc h p x p' L)
  then have "ok h p (U - L) L" by simp
  then have "x \<in> U - L" "ok h p' (U - L - {x}) (insert x L)"
    by (cases rule: alloc_cases; use client_alloc in simp)+
  moreover have "U - L - {x} = U - insert x L" by blast
  ultimately show ?case
    using client_alloc by auto
next
  case (client_fail h p p' L)
  then have "ok h p (U - L) L" by simp
  then show ?case
    by (cases rule: alloc_cases) (use client_fail in auto)
next
  case (client_free x L h p h' p')
  then have "insert x (U - L) = U - (L - {x})" by auto
  with client_free free_live [of h p "U - L" L x] show ?case
    by auto
next
  case (client_write x L h p c)
  then show ?case
    by (auto intro: ok_write_live)
qed

lemma client_reach_ok:
  assumes "reach (\<lambda>s. s = (h\<^sub>0, p\<^sub>0, {})) (pool_client alloc free) s" and "ok h\<^sub>0 p\<^sub>0 U {}"
  shows "case s of (h, p, L) \<Rightarrow> ok h p (U - L) L \<and> L \<subseteq> U"
  using assms
proof (induction rule: reach.induct)
  case (reach_start s)
  then show ?case by simp
next
  case (reach_step s t)
  then show ?case
    using client_step_ok [of s t U] by simp
qed

text \<open>A pool of \<open>U\<close> never faults a disciplined client, and refuses only when all of \<open>U\<close> is out.\<close>

lemma client_reach_no_fault:
  assumes "reach (\<lambda>s. s = (h\<^sub>0, p\<^sub>0, {})) (pool_client alloc free) (h, p, L)" and "ok h\<^sub>0 p\<^sub>0 U {}"
  shows "(\<exists>x p'. alloc h p = Inr (x, p') \<and> (x = NULL \<longleftrightarrow> L = U) \<and> (x \<noteq> NULL \<longrightarrow> x \<in> U - L))"
    and "x \<in> L \<Longrightarrow> \<exists>h' p'. free h p x = Inr (h', p')"
proof -
  have inv: "ok h p (U - L) L" "L \<subseteq> U"
    using client_reach_ok [OF assms] by auto
  from inv(1) show "\<exists>x p'. alloc h p = Inr (x, p') \<and> (x = NULL \<longleftrightarrow> L = U) \<and> (x \<noteq> NULL \<longrightarrow> x \<in> U - L)"
    using inv(2) by (cases rule: alloc_cases) auto
  show "x \<in> L \<Longrightarrow> \<exists>h' p'. free h p x = Inr (h', p')"
    using free_live [OF inv(1)] by blast
qed

end

end
