(* ===== verification/Mempool.thy ===== *)
theory Mempool
  imports Pool_Interface
begin

text \<open>
  The fixed-size memory pools of \<open>inc/ix/mempool.h\<close> and \<open>dp/core/mempool.c\<close>: the
  two-level free list (a hot list, a private chunk, and the chunk list of the shared
  datastore), allocation and release on both paths, and the creation of pools.
  The lock of a datastore is held for one critical section at a time, so a critical
  section is one atomic update here.
\<close>

section \<open>Data\<close>

definition MEMPOOL_MAGIC :: u64 where
  "MEMPOOL_MAGIC = 0x12911776"

definition MEMPOOL_DEFAULT_CHUNKSIZE :: int where
  "MEMPOOL_DEFAULT_CHUNKSIZE = 128"

text \<open>The offsets of \<open>next\<close> and \<open>next_chunk\<close> in the packed \<open>struct mempool_hdr\<close>.\<close>

abbreviation HDR_NEXT :: nat where
  "HDR_NEXT \<equiv> 0"

abbreviation HDR_NEXT_CHUNK :: nat where
  "HDR_NEXT_CHUNK \<equiv> 8"

record mempool_datastore =
  ds_magic :: u64
  ds_chunk_head :: addr
  ds_buf :: addr
  ds_nr_pages :: int
  ds_nr_elems :: u32
  ds_elem_len :: u64
  ds_nostraddle :: int
  ds_chunk_size :: int
  ds_num_chunks :: int
  ds_free_chunks :: int
  ds_num_locks :: int
  ds_prettyname :: string
  ds_iomap_addr :: addr
  ds_iomap_offset :: u64

record mempool =
  mp_head :: addr
  mp_num_free :: int
  mp_elem_len :: u64
  mp_magic :: u64
  mp_buf :: addr
  mp_datastore :: addr
  mp_private_chunk :: addr
  mp_sanity :: int
  mp_nr_elems :: u32
  mp_nostraddle :: int
  mp_chunk_size :: int
  mp_iomap_addr :: addr
  mp_iomap_offset :: u64

section \<open>Allocation and release\<close>

definition mempool_alloc_2 ::
  "heap \<Rightarrow> mempool \<Rightarrow> mempool_datastore \<Rightarrow> (addr \<times> mempool \<times> mempool_datastore) res" where
  "mempool_alloc_2 h m mds =
     bindE (assertE (mp_magic m = MEMPOOL_MAGIC)) (\<lambda>_.
     bindE (assertE (mp_head m = NULL)) (\<lambda>_.
     if mp_private_chunk m \<noteq> NULL then
       (let e = mp_private_chunk m
        in Inr (e, m\<lparr>mp_head := h e HDR_NEXT, mp_private_chunk := NULL\<rparr>, mds))
     else
       bindE (assertE (mp_datastore m \<noteq> NULL)) (\<lambda>_.
       let e = ds_chunk_head mds
       in if e \<noteq> NULL
          then Inr (e, m\<lparr>mp_head := h e HDR_NEXT\<rparr>,
                    mds\<lparr>ds_chunk_head := h e HDR_NEXT_CHUNK,
                        ds_free_chunks := ds_free_chunks mds - 1,
                        ds_num_locks := ds_num_locks mds + 1\<rparr>)
          else Inr (e, m, mds))))"

definition mempool_alloc ::
  "heap \<Rightarrow> mempool \<Rightarrow> mempool_datastore \<Rightarrow> (addr \<times> mempool \<times> mempool_datastore) res" where
  "mempool_alloc h m mds =
     (let e = mp_head m
      in if e \<noteq> NULL
         then Inr (e, m\<lparr>mp_head := h e HDR_NEXT, mp_num_free := mp_num_free m - 1\<rparr>, mds)
         else mempool_alloc_2 h m mds)"

definition mempool_free_2 ::
  "heap \<Rightarrow> mempool \<Rightarrow> mempool_datastore \<Rightarrow> addr \<Rightarrow> (heap \<times> mempool \<times> mempool_datastore) res" where
  "mempool_free_2 h m mds ptr =
     bindE (assertE (mp_num_free m = mp_chunk_size m)) (\<lambda>_.
     bindE (derefE ptr) (\<lambda>_.
     let h1 = hwrite h ptr HDR_NEXT NULL;
         (h2, mds2) =
           (if mp_private_chunk m \<noteq> NULL
            then (hwrite h1 (mp_private_chunk m) HDR_NEXT_CHUNK (ds_chunk_head mds),
                  mds\<lparr>ds_chunk_head := mp_private_chunk m,
                      ds_free_chunks := ds_free_chunks mds + 1,
                      ds_num_locks := ds_num_locks mds + 1\<rparr>)
            else (h1, mds))
     in Inr (h2, m\<lparr>mp_private_chunk := mp_head m, mp_head := ptr, mp_num_free := 1\<rparr>, mds2)))"

definition mempool_free ::
  "heap \<Rightarrow> mempool \<Rightarrow> mempool_datastore \<Rightarrow> addr \<Rightarrow> (heap \<times> mempool \<times> mempool_datastore) res" where
  "mempool_free h m mds ptr =
     (if mp_num_free m < mp_chunk_size m
      then bindE (derefE ptr) (\<lambda>_.
             Inr (hwrite h ptr HDR_NEXT (mp_head m),
                  m\<lparr>mp_num_free := mp_num_free m + 1, mp_head := ptr\<rparr>, mds))
      else mempool_free_2 h m mds ptr)"

section \<open>Well-formed pools\<close>

text \<open>
  The chunk list of a datastore: the first element of every chunk links to the next chunk
  at offset 8, the elements of a chunk link to each other at offset 0.
\<close>

primrec chunk_chain :: "heap \<Rightarrow> addr \<Rightarrow> addr list list \<Rightarrow> bool" where
  "chunk_chain h p [] \<longleftrightarrow> p = NULL"
| "chunk_chain h p (c # cs) \<longleftrightarrow>
     c \<noteq> [] \<and> p \<noteq> NULL \<and> chain h HDR_NEXT p c \<and> chunk_chain h (h p HDR_NEXT_CHUNK) cs"

lemma chunk_chain_NULL [simp]: "chunk_chain h NULL css \<longleftrightarrow> css = []"
  by (cases css) auto

lemma chunk_chain_nonnull:
  "p \<noteq> NULL \<Longrightarrow> chunk_chain h p css \<longleftrightarrow>
     (\<exists>xs cs. css = (p # xs) # cs \<and> chain h HDR_NEXT (h p HDR_NEXT) xs \<and>
       chunk_chain h (h p HDR_NEXT_CHUNK) cs)"
proof (cases css)
  case (Cons c cs)
  then show "p \<noteq> NULL \<Longrightarrow> ?thesis" by (cases c) auto
qed simp

lemma chunk_chain_cong:
  "(\<And>x. x \<in> set (concat css) \<Longrightarrow> h' x = h x) \<Longrightarrow> chunk_chain h' p css = chunk_chain h p css"
proof (induction css arbitrary: p)
  case (Cons c cs)
  have "chain h' HDR_NEXT p c = chain h HDR_NEXT p c"
    by (rule chain_cong) (simp add: Cons.prems)
  moreover have "c \<noteq> [] \<Longrightarrow> chain h HDR_NEXT p c \<Longrightarrow> h' p = h p"
    using Cons.prems by (cases c) auto
  ultimately show ?case
    using Cons by (auto simp del: set_concat)
qed simp

lemma chunk_chain_hwrite [simp]:
  "x \<notin> set (concat css) \<Longrightarrow> chunk_chain (hwrite h x off v) p css = chunk_chain h p css"
  by (rule chunk_chain_cong) (auto simp: hwrite_def)

lemma chunk_chain_not_NULL: "chunk_chain h p css \<Longrightarrow> NULL \<notin> set (concat css)"
  by (induction css arbitrary: p) (auto dest: chain_not_NULL)

text \<open>
  \<open>mempool_rep h m d hs ps css\<close>: in memory \<open>h\<close> the hot list holds \<open>hs\<close>, the private
  chunk \<open>ps\<close> and the datastore the chunks \<open>css\<close>, without sharing.
\<close>

definition mempool_rep ::
  "heap \<Rightarrow> mempool \<Rightarrow> mempool_datastore \<Rightarrow> addr list \<Rightarrow> addr list \<Rightarrow> addr list list \<Rightarrow> bool" where
  "mempool_rep h m d hs ps css \<longleftrightarrow>
     mp_magic m = MEMPOOL_MAGIC \<and> mp_datastore m \<noteq> NULL \<and> 0 < mp_chunk_size m \<and>
     mp_num_free m \<le> mp_chunk_size m \<and> mp_num_free m \<le> int (length hs) \<and>
     chain h HDR_NEXT (mp_head m) hs \<and> chain h HDR_NEXT (mp_private_chunk m) ps \<and>
     chunk_chain h (ds_chunk_head d) css \<and> distinct (hs @ ps @ concat css) \<and>
     ds_free_chunks d = int (length css)"

definition rep_free :: "addr list \<Rightarrow> addr list \<Rightarrow> addr list list \<Rightarrow> addr set" where
  "rep_free hs ps css = set hs \<union> set ps \<union> set (concat css)"

text \<open>
  The pool seen from outside: \<open>F\<close> is free, \<open>L\<close> is out with clients.  The cached counter
  \<open>num_free\<close> never exceeds a chunk and never falls below minus the number of live
  elements, so it fits the C type \<open>int\<close>.
\<close>

definition mempool_ok :: "heap \<Rightarrow> mempool \<times> mempool_datastore \<Rightarrow> addr set \<Rightarrow> addr set \<Rightarrow> bool" where
  "mempool_ok h p F L \<longleftrightarrow>
     (\<exists>hs ps css. mempool_rep h (fst p) (snd p) hs ps css \<and> F = rep_free hs ps css) \<and>
     finite L \<and> F \<inter> L = {} \<and> NULL \<notin> L \<and> - int (card L) \<le> mp_num_free (fst p)"

lemmas mempool_ok_defs = mempool_ok_def mempool_rep_def rep_free_def

lemma mempool_rep_cong:
  assumes "\<And>x. x \<in> rep_free hs ps css \<Longrightarrow> h' x = h x"
  shows "mempool_rep h' m d hs ps css = mempool_rep h m d hs ps css"
proof -
  have "chain h' HDR_NEXT (mp_head m) hs = chain h HDR_NEXT (mp_head m) hs"
    and "chain h' HDR_NEXT (mp_private_chunk m) ps = chain h HDR_NEXT (mp_private_chunk m) ps"
    and "chunk_chain h' (ds_chunk_head d) css = chunk_chain h (ds_chunk_head d) css"
    using assms by (auto simp: rep_free_def intro!: chain_cong chunk_chain_cong)
  then show ?thesis by (simp add: mempool_rep_def)
qed

lemma mempool_rep_hwrite [simp]:
  "x \<notin> rep_free hs ps css \<Longrightarrow>
     mempool_rep (hwrite h x off v) m d hs ps css = mempool_rep h m d hs ps css"
  by (rule mempool_rep_cong) (auto simp: hwrite_def)

lemma mempool_rep_not_NULL: "mempool_rep h m d hs ps css \<Longrightarrow> NULL \<notin> rep_free hs ps css"
  by (auto simp: mempool_rep_def rep_free_def dest: chain_not_NULL chunk_chain_not_NULL)

section \<open>Each path, on the representation\<close>

lemma mempool_alloc_hot:
  assumes "mempool_rep h m d (x # hs) ps css"
  shows "mempool_alloc h m d = Inr (x, m\<lparr>mp_head := h x HDR_NEXT, mp_num_free := mp_num_free m - 1\<rparr>, d)"
    and "mempool_rep h (m\<lparr>mp_head := h x HDR_NEXT, mp_num_free := mp_num_free m - 1\<rparr>) d hs ps css"
  using assms by (auto simp: mempool_rep_def mempool_alloc_def)

lemma mempool_alloc_private:
  assumes "mempool_rep h m d [] (x # ps) css"
  shows "mempool_alloc h m d = Inr (x, m\<lparr>mp_head := h x HDR_NEXT, mp_private_chunk := NULL\<rparr>, d)"
    and "mempool_rep h (m\<lparr>mp_head := h x HDR_NEXT, mp_private_chunk := NULL\<rparr>) d ps [] css"
  using assms by (auto simp: mempool_rep_def mempool_alloc_def mempool_alloc_2_def)

lemma mempool_alloc_chunk:
  assumes "mempool_rep h m d [] [] ((x # xs) # css)"
  defines "m' \<equiv> m\<lparr>mp_head := h x HDR_NEXT\<rparr>"
    and "d' \<equiv> d\<lparr>ds_chunk_head := h x HDR_NEXT_CHUNK, ds_free_chunks := ds_free_chunks d - 1,
                ds_num_locks := ds_num_locks d + 1\<rparr>"
  shows "mempool_alloc h m d = Inr (x, m', d')" and "mempool_rep h m' d' xs [] css"
  using assms by (auto simp: mempool_rep_def mempool_alloc_def mempool_alloc_2_def)

lemma mempool_alloc_empty:
  assumes "mempool_rep h m d [] [] []"
  shows "mempool_alloc h m d = Inr (NULL, m, d)"
  using assms by (auto simp: mempool_rep_def mempool_alloc_def mempool_alloc_2_def)

lemma mempool_free_fast:
  assumes "mempool_rep h m d hs ps css" and "x \<notin> rep_free hs ps css" and "x \<noteq> NULL"
    and "mp_num_free m < mp_chunk_size m"
  defines "m' \<equiv> m\<lparr>mp_num_free := mp_num_free m + 1, mp_head := x\<rparr>"
    and "h' \<equiv> hwrite h x HDR_NEXT (mp_head m)"
  shows "mempool_free h m d x = Inr (h', m', d)" and "mempool_rep h' m' d (x # hs) ps css"
proof -
  show "mempool_free h m d x = Inr (h', m', d)"
    using assms by (simp add: mempool_free_def)
  have "mempool_rep h' m d hs ps css"
    using assms(1,2) by (simp add: h'_def)
  then show "mempool_rep h' m' d (x # hs) ps css"
    using assms(2-4) by (auto simp: mempool_rep_def rep_free_def m'_def h'_def)
qed

lemma mempool_free_slow:
  assumes "mempool_rep h m d hs ps css" and "x \<notin> rep_free hs ps css" and "x \<noteq> NULL"
    and "\<not> mp_num_free m < mp_chunk_size m"
  shows "\<exists>h' m' d'. mempool_free h m d x = Inr (h', m', d') \<and> mp_num_free m' = 1 \<and>
           mempool_rep h' m' d' [x] hs (if ps = [] then css else ps # css) \<and>
           (\<forall>y. y \<notin> insert x (rep_free hs ps css) \<longrightarrow> h' y = h y) \<and>
           (\<forall>off. off \<noteq> HDR_NEXT \<longrightarrow> h' x off = h x off)"
proof (cases ps)
  case Nil
  define h' where "h' = hwrite h x HDR_NEXT NULL"
  define m' where "m' = m\<lparr>mp_private_chunk := mp_head m, mp_head := x, mp_num_free := 1\<rparr>"
  have "mempool_free h m d x = Inr (h', m', d)"
    using assms Nil by (auto simp: mempool_free_def mempool_free_2_def mempool_rep_def h'_def m'_def)
  moreover have "mempool_rep h' m d hs ps css"
    using assms(1,2) by (simp add: h'_def)
  then have "mempool_rep h' m' d [x] hs css"
    using assms Nil by (auto simp: mempool_rep_def rep_free_def m'_def h'_def)
  ultimately show ?thesis
    using Nil by (auto simp: h'_def m'_def hwrite_def)
next
  case (Cons c ps')
  define h1 where "h1 = hwrite h x HDR_NEXT NULL"
  define h' where "h' = hwrite h1 c HDR_NEXT_CHUNK (ds_chunk_head d)"
  define m' where "m' = m\<lparr>mp_private_chunk := mp_head m, mp_head := x, mp_num_free := 1\<rparr>"
  define d' where "d' = d\<lparr>ds_chunk_head := c, ds_free_chunks := ds_free_chunks d + 1,
                          ds_num_locks := ds_num_locks d + 1\<rparr>"
  have c: "mp_private_chunk m = c" "c \<noteq> NULL"
    using assms(1) Cons by (auto simp: mempool_rep_def)
  have call: "mempool_free h m d x = Inr (h', m', d')"
    using assms c by (auto simp: mempool_free_def mempool_free_2_def mempool_rep_def h'_def h1_def m'_def d'_def)
  have h1: "mempool_rep h1 m d hs ps css"
    using assms(1,2) by (simp add: h1_def)
  have xs: "x \<notin> set hs" "x \<notin> set ps" "x \<notin> set (concat css)" "c \<notin> set (concat css)" "x \<noteq> c"
    using assms(1,2) Cons by (auto simp: mempool_rep_def rep_free_def)
  have "chunk_chain h' (ds_chunk_head d) css"
    using h1 xs(4) by (simp add: h'_def mempool_rep_def del: set_concat)
  then have "chunk_chain h' c (ps # css)"
    using h1 c Cons by (auto simp: mempool_rep_def h'_def)
  moreover have "chain h' HDR_NEXT x [x]"
    using assms(3) xs by (simp add: h'_def h1_def)
  moreover have "chain h' HDR_NEXT (mp_head m) hs"
    using h1 by (simp add: h'_def mempool_rep_def)
  ultimately have "mempool_rep h' m' d' [x] hs (ps # css)"
    using h1 xs assms(3,4) by (auto simp: mempool_rep_def m'_def d'_def)
  then show ?thesis
    using call Cons xs by (auto simp: h'_def h1_def hwrite_def m'_def rep_free_def)
qed

section \<open>The contract holds\<close>

text \<open>The calls as the clients make them: a pool together with its datastore.\<close>

definition pool_alloc ::
  "heap \<Rightarrow> mempool \<times> mempool_datastore \<Rightarrow> (addr \<times> mempool \<times> mempool_datastore) res" where
  "pool_alloc h p = mempool_alloc h (fst p) (snd p)"

definition pool_free ::
  "heap \<Rightarrow> mempool \<times> mempool_datastore \<Rightarrow> addr \<Rightarrow> (heap \<times> mempool \<times> mempool_datastore) res" where
  "pool_free h p x = mempool_free h (fst p) (snd p) x"

lemma mempool_okE:
  assumes "mempool_ok h p F L"
  obtains hs ps css where "mempool_rep h (fst p) (snd p) hs ps css" "F = rep_free hs ps css"
    "finite L" "F \<inter> L = {}" "NULL \<notin> L" "- int (card L) \<le> mp_num_free (fst p)"
  using assms by (auto simp: mempool_ok_def)

lemma mempool_okI:
  "mempool_rep h m d hs ps css \<Longrightarrow> F = rep_free hs ps css \<Longrightarrow> finite L \<Longrightarrow> F \<inter> L = {} \<Longrightarrow>
   NULL \<notin> L \<Longrightarrow> - int (card L) \<le> mp_num_free m \<Longrightarrow> mempool_ok h (m, d) F L"
  by (auto simp: mempool_ok_def)

lemma pool_alloc_takes:
  assumes ok: "mempool_ok h p F L" and call: "mempool_alloc h (fst p) (snd p) = Inr (x, m', d')"
    and rep: "mempool_rep h m' d' hs ps css" and F: "F = insert x (rep_free hs ps css)"
    and x: "x \<notin> rep_free hs ps css" and nf: "mp_num_free (fst p) - 1 \<le> mp_num_free m'"
  shows "\<exists>x p'. pool_alloc h p = Inr (x, p') \<and> x \<in> F \<and> mempool_ok h p' (F - {x}) (insert x L)"
proof -
  have L: "finite L" "F \<inter> L = {}" "NULL \<notin> L" "- int (card L) \<le> mp_num_free (fst p)" "NULL \<notin> F"
    using ok by (auto simp: mempool_ok_def dest: mempool_rep_not_NULL)
  have "F - {x} = rep_free hs ps css" "x \<notin> L" "x \<noteq> NULL"
    using F x L by auto
  then have "mempool_ok h (m', d') (F - {x}) (insert x L)"
    using rep nf L by (intro mempool_okI [OF rep]) auto
  then show ?thesis
    using call F by (auto simp: pool_alloc_def)
qed

lemma pool_alloc_some:
  assumes ok: "mempool_ok h p F L" and ne: "F \<noteq> {}"
  shows "\<exists>x p'. pool_alloc h p = Inr (x, p') \<and> x \<in> F \<and> mempool_ok h p' (F - {x}) (insert x L)"
proof -
  obtain hs ps css where r: "mempool_rep h (fst p) (snd p) hs ps css" and F: "F = rep_free hs ps css"
    using ok by (rule mempool_okE)
  have dist: "distinct (hs @ ps @ concat css)" and cc: "chunk_chain h (ds_chunk_head (snd p)) css"
    using r by (simp_all add: mempool_rep_def)
  consider (hot) x xs where "hs = x # xs" | (priv) x xs where "hs = []" "ps = x # xs"
    | (chunk) x xs cs where "hs = []" "ps = []" "css = (x # xs) # cs"
    using F ne cc by (cases hs; cases ps; cases css) (auto simp: rep_free_def neq_Nil_conv)
  then show ?thesis
  proof cases
    case (hot x xs)
    note a = mempool_alloc_hot [OF r [unfolded hot]]
    show ?thesis
      by (rule pool_alloc_takes [OF ok a]) (use F dist hot in \<open>auto simp: rep_free_def\<close>)
  next
    case (priv x xs)
    note a = mempool_alloc_private [OF r [unfolded priv]]
    show ?thesis
      by (rule pool_alloc_takes [OF ok a]) (use F dist priv in \<open>auto simp: rep_free_def\<close>)
  next
    case (chunk x xs cs)
    note a = mempool_alloc_chunk [OF r [unfolded chunk]]
    show ?thesis
      by (rule pool_alloc_takes [OF ok a]) (use F dist chunk in \<open>auto simp: rep_free_def\<close>)
  qed
qed

lemma pool_free_live:
  assumes ok: "mempool_ok h p F L" and x: "x \<in> L"
  shows "\<exists>h' p'. pool_free h p x = Inr (h', p') \<and> mempool_ok h' p' (insert x F) (L - {x}) \<and>
           (\<forall>y. y \<notin> insert x F \<longrightarrow> h' y = h y) \<and> (\<forall>off. off \<noteq> 0 \<longrightarrow> h' x off = h x off)"
proof -
  obtain hs ps css where r: "mempool_rep h (fst p) (snd p) hs ps css" and F: "F = rep_free hs ps css"
    and L: "finite L" "F \<inter> L = {}" "NULL \<notin> L" "- int (card L) \<le> mp_num_free (fst p)"
    using ok by (rule mempool_okE)
  have xF: "x \<notin> rep_free hs ps css" "x \<noteq> NULL" using F L x by auto
  have card: "card (L - {x}) = card L - 1" "0 < card L"
    using L(1) x by (auto simp: card_gt_0_iff)
  show ?thesis
  proof (cases "mp_num_free (fst p) < mp_chunk_size (fst p)")
    case True
    note a = mempool_free_fast [OF r xF True]
    have "insert x F = rep_free (x # hs) ps css" using F by (simp add: rep_free_def)
    then have "mempool_ok (hwrite h x HDR_NEXT (mp_head (fst p)))
        ((fst p)\<lparr>mp_num_free := mp_num_free (fst p) + 1, mp_head := x\<rparr>, snd p) (insert x F) (L - {x})"
      using L card by (intro mempool_okI [OF a(2)]) auto
    then show ?thesis
      using a(1) by (auto simp: pool_free_def)
  next
    case False
    obtain h' m' d' where call: "mempool_free h (fst p) (snd p) x = Inr (h', m', d')" "mp_num_free m' = 1"
      and rep: "mempool_rep h' m' d' [x] hs (if ps = [] then css else ps # css)"
      and frame: "\<forall>y. y \<notin> insert x (rep_free hs ps css) \<longrightarrow> h' y = h y" "\<forall>off. off \<noteq> HDR_NEXT \<longrightarrow> h' x off = h x off"
      using mempool_free_slow [OF r xF False] by blast
    have "insert x F = rep_free [x] hs (if ps = [] then css else ps # css)"
      using F by (auto simp: rep_free_def)
    then have "mempool_ok h' (m', d') (insert x F) (L - {x})"
      using L call by (intro mempool_okI [OF rep]) auto
    then show ?thesis
      using F call frame by (auto simp: pool_free_def)
  qed
qed

interpretation mp: pool_provider pool_alloc pool_free mempool_ok
proof unfold_locales
  fix h p F L
  assume "mempool_ok h p F L"
  then show "F \<inter> L = {} \<and> NULL \<notin> F \<and> NULL \<notin> L"
    by (auto simp: mempool_ok_def dest: mempool_rep_not_NULL)
next
  fix h p L
  assume "mempool_ok h p {} L"
  then obtain hs ps css where "mempool_rep h (fst p) (snd p) hs ps css" "{} = rep_free hs ps css"
    by (auto elim!: mempool_okE)
  moreover from this have "hs = []" "ps = []" "css = []"
    by (cases css; simp add: rep_free_def mempool_rep_def)+
  ultimately show "pool_alloc h p = Inr (NULL, p)"
    using mempool_alloc_empty by (simp add: pool_alloc_def)
next
  fix h p F L h'
  assume ok: "mempool_ok h p F L" and eq: "\<And>x. x \<in> F \<Longrightarrow> h' x = h x"
  obtain hs ps css where "mempool_rep h (fst p) (snd p) hs ps css" and F: "F = rep_free hs ps css"
    using ok by (rule mempool_okE)
  then have "mempool_rep h' (fst p) (snd p) hs ps css"
    using mempool_rep_cong [of hs ps css h' h] eq by simp
  then show "mempool_ok h' p F L"
    using ok F by (auto simp: mempool_ok_def)
qed (rule pool_alloc_some pool_free_live; assumption)+

end
