(* ===== verification/Fifo_Interface.thy ===== *)
theory Fifo_Interface
  imports Prelude "HOL-Library.Sublist"
begin

text \<open>
  The contract of a FIFO queue that may refuse an element when its backing store is full,
  shared by the task queues of the dispatcher and the receive queues of the network side.
\<close>

primrec enq_all :: "('a \<Rightarrow> 's \<Rightarrow> 's res) \<Rightarrow> 'a list \<Rightarrow> 's \<Rightarrow> 's res" where
  "enq_all enq [] s = Inr s"
| "enq_all enq (x # xs) s = bindE (enq x s) (enq_all enq xs)"

primrec deq_n :: "('s \<Rightarrow> ('a option \<times> 's) res) \<Rightarrow> nat \<Rightarrow> 's \<Rightarrow> ('a option list \<times> 's) res" where
  "deq_n deq 0 s = Inr ([], s)"
| "deq_n deq (Suc n) s =
     bindE (deq s) (\<lambda>(r, s1). bindE (deq_n deq n s1) (\<lambda>(rs, s2). Inr (r # rs, s2)))"

text \<open>\<open>adm xs s\<close>: the elements \<open>xs\<close> may be offered, in this order, from state \<open>s\<close> on.\<close>

locale fifo =
  fixes rep :: "'s \<Rightarrow> 'a list \<Rightarrow> bool"
    and enq :: "'a \<Rightarrow> 's \<Rightarrow> 's res"
    and deq :: "'s \<Rightarrow> ('a option \<times> 's) res"
    and full :: "'s \<Rightarrow> bool"
    and adm :: "'a list \<Rightarrow> 's \<Rightarrow> bool"
  assumes enq_room: "rep s q \<Longrightarrow> adm (x # xs) s \<Longrightarrow> \<not> full s \<Longrightarrow>
      \<exists>s'. enq x s = Inr s' \<and> rep s' (q @ [x]) \<and> adm xs s'"
    and enq_full: "rep s q \<Longrightarrow> adm (x # xs) s \<Longrightarrow> full s \<Longrightarrow>
      \<exists>s'. enq x s = Inr s' \<and> rep s' q \<and> adm xs s'"
    and deq_empty: "rep s [] \<Longrightarrow> deq s = Inr (None, s)"
    and deq_some: "rep s (x # q) \<Longrightarrow> \<exists>s'. deq s = Inr (Some x, s') \<and> rep s' q"
begin

text \<open>Whatever is offered, the queue keeps a subsequence of it, in order, behind what it held.\<close>

lemma enq_all_subseq:
  "rep s q \<Longrightarrow> adm xs s \<Longrightarrow> \<exists>s' ys. enq_all enq xs s = Inr s' \<and> subseq ys xs \<and> rep s' (q @ ys)"
proof (induction xs arbitrary: s q)
  case Nil
  then show ?case by auto
next
  case (Cons x xs)
  show ?case
  proof (cases "full s")
    case True
    then obtain s1 where "enq x s = Inr s1" "rep s1 q" "adm xs s1"
      using Cons.prems enq_full by blast
    then show ?thesis using Cons.IH [of s1 q] by auto
  next
    case False
    then obtain s1 where "enq x s = Inr s1" "rep s1 (q @ [x])" "adm xs s1"
      using Cons.prems enq_room by blast
    then obtain s' ys where "enq_all enq (x # xs) s = Inr s'" "subseq ys xs" "rep s' (q @ x # ys)"
      using Cons.IH [of s1 "q @ [x]"] by auto
    then show ?thesis by (metis subseq_Cons2)
  qed
qed

text \<open>Draining returns every element once, oldest first.\<close>

lemma deq_n_drains: "rep s q \<Longrightarrow> \<exists>s'. deq_n deq (length q) s = Inr (map Some q, s') \<and> rep s' []"
proof (induction q arbitrary: s)
  case (Cons x q)
  then obtain s1 where s1: "deq s = Inr (Some x, s1)" "rep s1 q"
    using deq_some by blast
  then obtain s' where "deq_n deq (length q) s1 = Inr (map Some q, s')" "rep s' []"
    using Cons.IH by blast
  with s1 show ?case by auto
qed auto

lemma fifo_order:
  "rep s q \<Longrightarrow> adm xs s \<Longrightarrow> \<exists>s1 ys s2. enq_all enq xs s = Inr s1 \<and> subseq ys xs \<and>
     deq_n deq (length (q @ ys)) s1 = Inr (map Some (q @ ys), s2) \<and> rep s2 []"
  using enq_all_subseq deq_n_drains by blast

end

end
