(* ===== verification/Tskq.thy ===== *)
theory Tskq
  imports Mempool Fifo_Interface
begin

text \<open>
  The task queues and the buffer queue of \<open>inc/ix/dispatch.h\<close>: singly linked lists whose
  cells come from the pools \<open>task_mempool\<close> and \<open>mcell_mempool\<close>.  The operations are
  modelled on memory, cell by cell, and shown to implement a FIFO queue of tasks and a
  stack of buffers.
\<close>

type_synonym pool = "mempool \<times> mempool_datastore"

section \<open>Layout of the cells\<close>

text \<open>Byte offsets of \<open>struct task\<close>.\<close>

abbreviation TASK_RUNNABLE :: nat where "TASK_RUNNABLE \<equiv> 0"
abbreviation TASK_MBUF :: nat where "TASK_MBUF \<equiv> 8"
abbreviation TASK_TYPE :: nat where "TASK_TYPE \<equiv> 16"
abbreviation TASK_CATEGORY :: nat where "TASK_CATEGORY \<equiv> 17"
abbreviation TASK_TIMESTAMP :: nat where "TASK_TIMESTAMP \<equiv> 24"
abbreviation TASK_NEXT :: nat where "TASK_NEXT \<equiv> 32"

text \<open>Byte offsets of \<open>struct mbuf_cell\<close>.\<close>

abbreviation MCELL_BUFFER :: nat where "MCELL_BUFFER \<equiv> 0"
abbreviation MCELL_NEXT :: nat where "MCELL_NEXT \<equiv> 8"

text \<open>What a task carries: the parameters of \<open>tskq_enqueue_tail\<close>, the results of \<open>tskq_dequeue\<close>.\<close>

record task =
  tsk_runnable :: addr
  tsk_mbuf :: addr
  tsk_type :: u8
  tsk_category :: u8
  tsk_timestamp :: u64

record task_queue =
  tq_head :: addr
  tq_tail :: addr

text \<open>The five stores that fill a fresh cell, and the loads that read it back.\<close>

definition task_store :: "heap \<Rightarrow> addr \<Rightarrow> task \<Rightarrow> heap" where
  "task_store h p t =
     hwrite (hwrite (hwrite (hwrite (hwrite h
       p TASK_RUNNABLE (tsk_runnable t))
       p TASK_MBUF (tsk_mbuf t))
       p TASK_TYPE (ucast (tsk_type t)))
       p TASK_CATEGORY (ucast (tsk_category t)))
       p TASK_TIMESTAMP (tsk_timestamp t)"

definition task_load :: "heap \<Rightarrow> addr \<Rightarrow> task" where
  "task_load h p =
     \<lparr>tsk_runnable = h p TASK_RUNNABLE, tsk_mbuf = h p TASK_MBUF,
      tsk_type = ucast (h p TASK_TYPE), tsk_category = ucast (h p TASK_CATEGORY),
      tsk_timestamp = h p TASK_TIMESTAMP\<rparr>"

section \<open>Operations\<close>

definition tskq_enqueue_head ::
  "heap \<Rightarrow> pool \<Rightarrow> task_queue \<Rightarrow> task \<Rightarrow> (heap \<times> pool \<times> task_queue) res" where
  "tskq_enqueue_head h tp tq t =
     bindE (pool_alloc h tp) (\<lambda>(tsk, tp1).
     bindE (derefE tsk) (\<lambda>_.
     let h1 = task_store h tsk t
     in if tq_head tq \<noteq> NULL
        then Inr (hwrite h1 tsk TASK_NEXT (tq_head tq), tp1, tq\<lparr>tq_head := tsk\<rparr>)
        else Inr (hwrite h1 tsk TASK_NEXT NULL, tp1, tq\<lparr>tq_head := tsk, tq_tail := tsk\<rparr>)))"

definition tskq_enqueue_tail ::
  "heap \<Rightarrow> pool \<Rightarrow> task_queue \<Rightarrow> task \<Rightarrow> (heap \<times> pool \<times> task_queue) res" where
  "tskq_enqueue_tail h tp tq t =
     bindE (pool_alloc h tp) (\<lambda>(tsk, tp1).
     if tsk = NULL then Inr (h, tp1, tq)
     else
       let h1 = task_store h tsk t
       in if tq_head tq \<noteq> NULL
          then bindE (derefE (tq_tail tq)) (\<lambda>_.
                 Inr (hwrite (hwrite h1 (tq_tail tq) TASK_NEXT tsk) tsk TASK_NEXT NULL, tp1,
                      tq\<lparr>tq_tail := tsk\<rparr>))
          else Inr (hwrite h1 tsk TASK_NEXT NULL, tp1, tq\<lparr>tq_head := tsk, tq_tail := tsk\<rparr>))"

text \<open>\<open>None\<close> is the return value \<open>-1\<close>.\<close>

definition tskq_dequeue ::
  "heap \<Rightarrow> pool \<Rightarrow> task_queue \<Rightarrow> (task option \<times> heap \<times> pool \<times> task_queue) res" where
  "tskq_dequeue h tp tq =
     (if tq_head tq = NULL then Inr (None, h, tp, tq)
      else
        let t = task_load h (tq_head tq);
            tsk = tq_head tq;
            tq1 = tq\<lparr>tq_head := h tsk TASK_NEXT\<rparr>
        in bindE (pool_free h tp tsk) (\<lambda>(h1, tp1).
           Inr (Some t, h1, tp1,
                if tq_head tq1 = NULL then tq1\<lparr>tq_tail := NULL\<rparr> else tq1)))"

definition get_queue_timestamp :: "heap \<Rightarrow> task_queue \<Rightarrow> u64 option" where
  "get_queue_timestamp h tq =
     (if tq_head tq = NULL then None else Some (h (tq_head tq) TASK_TIMESTAMP))"

text \<open>
  The buffer queue.  \<open>mbuf_dequeue\<close> returns the cell to its pool before it reads the
  \<open>next\<close> field of that cell, exactly as the source does.
\<close>

definition mbuf_dequeue :: "heap \<Rightarrow> pool \<Rightarrow> addr \<Rightarrow> (addr \<times> heap \<times> pool \<times> addr) res" where
  "mbuf_dequeue h mp mq =
     (if mq = NULL then Inr (NULL, h, mp, mq)
      else
        let buf = h mq MCELL_BUFFER
        in bindE (pool_free h mp mq) (\<lambda>(h1, mp1).
           Inr (buf, h1, mp1, h1 mq MCELL_NEXT)))"

definition mbuf_enqueue :: "heap \<Rightarrow> pool \<Rightarrow> addr \<Rightarrow> addr \<Rightarrow> (heap \<times> pool \<times> addr) res" where
  "mbuf_enqueue h mp mq buf =
     (if buf = NULL then Inr (h, mp, mq)
      else
        bindE (pool_alloc h mp) (\<lambda>(mcell, mp1).
        bindE (derefE mcell) (\<lambda>_.
        Inr (hwrite (hwrite h mcell MCELL_BUFFER buf) mcell MCELL_NEXT mq, mp1, mcell))))"

section \<open>Representation\<close>

text \<open>\<open>tskq_rep h tq xs\<close>: the cells of the queue are \<open>xs\<close>, in order, and \<open>tail\<close> is the last one.\<close>

definition tskq_rep :: "heap \<Rightarrow> task_queue \<Rightarrow> addr list \<Rightarrow> bool" where
  "tskq_rep h tq xs \<longleftrightarrow>
     chain h TASK_NEXT (tq_head tq) xs \<and> distinct xs \<and> (xs \<noteq> [] \<longrightarrow> tq_tail tq = last xs)"

definition tskq_abs :: "heap \<Rightarrow> addr list \<Rightarrow> task list" where
  "tskq_abs h xs = map (task_load h) xs"

definition mq_rep :: "heap \<Rightarrow> addr \<Rightarrow> addr list \<Rightarrow> bool" where
  "mq_rep h mq cs \<longleftrightarrow> chain h MCELL_NEXT mq cs \<and> distinct cs"

definition mq_abs :: "heap \<Rightarrow> addr list \<Rightarrow> addr list" where
  "mq_abs h cs = map (\<lambda>c. h c MCELL_BUFFER) cs"

lemma ucast_u8_u64 [simp]: "ucast (ucast (x :: u8) :: u64) = x"
  by (rule bit_word_eqI) (simp add: bit_simps)

lemma task_load_store [simp]: "task_load (hwrite (task_store h p t) p TASK_NEXT v) p = t"
  by (simp add: task_load_def task_store_def hwrite_def)

lemma task_load_store_same [simp]: "task_load (task_store h p t) p = t"
  by (simp add: task_load_def task_store_def hwrite_def)

lemma task_store_other [simp]: "q \<noteq> p \<Longrightarrow> task_store h p t q = h q"
  by (simp add: task_store_def hwrite_def)

lemma task_store_next [simp]: "task_store h p t q TASK_NEXT = h q TASK_NEXT"
  by (simp add: task_store_def)

lemma task_load_cong: "h' p = h p \<Longrightarrow> task_load h' p = task_load h p"
  by (simp add: task_load_def)

lemma task_load_next [simp]: "task_load (hwrite h q TASK_NEXT v) p = task_load h p"
  by (simp add: task_load_def)

lemma tskq_rep_cong:
  "(\<And>x. x \<in> set xs \<Longrightarrow> h' x = h x) \<Longrightarrow> tskq_rep h' tq xs = tskq_rep h tq xs"
  unfolding tskq_rep_def using chain_cong [of xs h' TASK_NEXT h] by auto

lemma tskq_abs_cong: "(\<And>x. x \<in> set xs \<Longrightarrow> h' x = h x) \<Longrightarrow> tskq_abs h' xs = tskq_abs h xs"
  by (simp add: tskq_abs_def task_load_def)

lemma mq_rep_cong: "(\<And>x. x \<in> set cs \<Longrightarrow> h' x = h x) \<Longrightarrow> mq_rep h' mq cs = mq_rep h mq cs"
  unfolding mq_rep_def using chain_cong [of cs h' MCELL_NEXT h] by auto

lemma mq_abs_cong: "(\<And>x. x \<in> set cs \<Longrightarrow> h' x = h x) \<Longrightarrow> mq_abs h' cs = mq_abs h cs"
  by (simp add: mq_abs_def)

lemma tskq_rep_head: "tskq_rep h tq xs \<Longrightarrow> tq_head tq = NULL \<longleftrightarrow> xs = []"
  by (cases xs) (auto simp: tskq_rep_def)

section \<open>Refinement of the task queue\<close>

text \<open>A queue whose cells are live in its pool, and the queue as its clients see it.\<close>

definition tskq_ok :: "heap \<Rightarrow> pool \<Rightarrow> addr set \<Rightarrow> addr set \<Rightarrow> task_queue \<Rightarrow> addr list \<Rightarrow> bool" where
  "tskq_ok h tp F L tq xs \<longleftrightarrow> mempool_ok h tp F L \<and> tskq_rep h tq xs \<and> set xs \<subseteq> L"

lemma tskq_enqueue_tail_room:
  assumes ok: "tskq_ok h tp F L tq xs" and "F \<noteq> {}"
  shows "\<exists>n h' tp' tq'. tskq_enqueue_tail h tp tq t = Inr (h', tp', tq') \<and> n \<in> F \<and>
    tskq_ok h' tp' (F - {n}) (insert n L) tq' (xs @ [n]) \<and>
    tskq_abs h' (xs @ [n]) = tskq_abs h xs @ [t] \<and> (\<forall>y. y \<notin> insert n (set xs) \<longrightarrow> h' y = h y)"
proof -
  have mok: "mempool_ok h tp F L" and rep: "tskq_rep h tq xs" and xs: "set xs \<subseteq> L"
    using ok by (simp_all add: tskq_ok_def)
  obtain n tp' where al: "pool_alloc h tp = Inr (n, tp')" and n: "n \<in> F" "n \<notin> L" "n \<noteq> NULL"
    and mok': "mempool_ok h tp' (F - {n}) (insert n L)"
    using mok assms(2) by (cases rule: mp.alloc_cases) auto
  have nx: "n \<notin> set xs" using n xs by blast
  define h' where "h' = (if xs = [] then hwrite (task_store h n t) n TASK_NEXT NULL
     else hwrite (hwrite (task_store h n t) (last xs) TASK_NEXT n) n TASK_NEXT NULL)"
  define tq' where "tq' = (if xs = [] then tq\<lparr>tq_head := n, tq_tail := n\<rparr> else tq\<lparr>tq_tail := n\<rparr>)"
  have lastx: "xs \<noteq> [] \<Longrightarrow> last xs \<in> set xs \<and> last xs \<noteq> NULL \<and> last xs \<noteq> n"
    using rep nx chain_not_NULL [of h TASK_NEXT "tq_head tq" xs] last_in_set [of xs]
    by (metis tskq_rep_def)
  have call: "tskq_enqueue_tail h tp tq t = Inr (h', tp', tq')"
    using al n rep lastx tskq_rep_head [OF rep]
    by (auto simp: tskq_enqueue_tail_def h'_def tq'_def tskq_rep_def Let_def)
  have frame: "\<forall>y. y \<notin> insert n (set xs) \<longrightarrow> h' y = h y"
    using lastx by (auto simp: h'_def hwrite_def)
  have "mempool_ok h' tp' (F - {n}) (insert n L)"
    by (rule mp.ok_frame [OF mok']) (use frame xs mp.ok_sets [OF mok] in blast)
  moreover have "tskq_rep h' tq' (xs @ [n])"
  proof (cases xs rule: rev_cases)
    case Nil
    then show ?thesis using n by (simp add: tskq_rep_def h'_def tq'_def)
  next
    case (snoc ys l)
    have "chain h' TASK_NEXT (tq_head tq) (ys @ [l, n])"
      by (rule chain_snoc_write [of h])
        (use snoc rep nx n in \<open>auto simp: tskq_rep_def h'_def hwrite_def\<close>)
    then show ?thesis using snoc rep nx by (auto simp: tskq_rep_def tq'_def)
  qed
  moreover have "tskq_abs h' (xs @ [n]) = tskq_abs h xs @ [t]"
    using nx by (auto simp: tskq_abs_def h'_def task_load_def task_store_def hwrite_def)
  ultimately show ?thesis
    using call n frame xs by (auto simp: tskq_ok_def intro!: exI [of _ n] exI [of _ h'] exI [of _ tp'] exI [of _ tq'])
qed

lemma tskq_enqueue_tail_full:
  "tskq_ok h tp {} L tq xs \<Longrightarrow> tskq_enqueue_tail h tp tq t = Inr (h, tp, tq)"
  using mp.alloc_none [of h tp L] by (simp add: tskq_ok_def tskq_enqueue_tail_def)

lemma tskq_dequeue_empty: "tskq_rep h tq [] \<Longrightarrow> tskq_dequeue h tp tq = Inr (None, h, tp, tq)"
  by (simp add: tskq_rep_def tskq_dequeue_def)

lemma tskq_dequeue_some:
  assumes ok: "tskq_ok h tp F L tq (x # xs)"
  shows "\<exists>h' tp' tq'. tskq_dequeue h tp tq = Inr (Some (task_load h x), h', tp', tq') \<and>
    tskq_ok h' tp' (insert x F) (L - {x}) tq' xs \<and> tskq_abs h' xs = tskq_abs h xs \<and>
    (\<forall>y. y \<notin> insert x F \<longrightarrow> h' y = h y)"
proof -
  have mok: "mempool_ok h tp F L" and rep: "tskq_rep h tq (x # xs)" and xs: "set (x # xs) \<subseteq> L"
    using ok by (simp_all add: tskq_ok_def)
  obtain h' tp' where fr: "pool_free h tp x = Inr (h', tp')" and mok': "mempool_ok h' tp' (insert x F) (L - {x})"
    and frame: "\<forall>y. y \<notin> insert x F \<longrightarrow> h' y = h y"
    using mp.free_live [OF mok, of x] xs by auto
  define tq' where "tq' = (if xs = [] then tq\<lparr>tq_head := NULL, tq_tail := NULL\<rparr> else tq\<lparr>tq_head := h x TASK_NEXT\<rparr>)"
  have hd: "tq_head tq = x" "x \<noteq> NULL" and ch: "chain h TASK_NEXT (h x TASK_NEXT) xs" and d: "distinct (x # xs)"
    using rep by (auto simp: tskq_rep_def)
  have nl: "h x TASK_NEXT = NULL \<longleftrightarrow> xs = []"
    using ch by (cases xs) auto
  have call: "tskq_dequeue h tp tq = Inr (Some (task_load h x), h', tp', tq')"
    using hd fr nl by (simp add: tskq_dequeue_def tq'_def Let_def)
  have same: "\<And>y. y \<in> set xs \<Longrightarrow> h' y = h y"
    using frame xs d mp.ok_sets [OF mok] by auto
  have "tskq_rep h tq' xs"
    using rep ch nl d by (auto simp: tskq_rep_def tq'_def)
  then have "tskq_rep h' tq' xs"
    using tskq_rep_cong [of xs h' h] same by simp
  then show ?thesis
    using call mok' xs d frame tskq_abs_cong [of xs h' h] same by (auto simp: tskq_ok_def)
qed

section \<open>The task queue is a FIFO queue\<close>

type_synonym tskq_state = "heap \<times> pool \<times> task_queue"

definition tskq_holds :: "tskq_state \<Rightarrow> task list \<Rightarrow> bool" where
  "tskq_holds s q \<longleftrightarrow> (case s of (h, tp, tq) \<Rightarrow>
     \<exists>F L xs. tskq_ok h tp F L tq xs \<and> q = tskq_abs h xs)"

definition tskq_enq :: "task \<Rightarrow> tskq_state \<Rightarrow> tskq_state res" where
  "tskq_enq t s = (case s of (h, tp, tq) \<Rightarrow> tskq_enqueue_tail h tp tq t)"

definition tskq_deq :: "tskq_state \<Rightarrow> (task option \<times> tskq_state) res" where
  "tskq_deq s = (case s of (h, tp, tq) \<Rightarrow> tskq_dequeue h tp tq)"

definition pool_exhausted :: "heap \<Rightarrow> pool \<Rightarrow> bool" where
  "pool_exhausted h p = (case pool_alloc h p of Inl _ \<Rightarrow> False | Inr (x, _) \<Rightarrow> x = NULL)"

lemma pool_exhausted_iff: "mempool_ok h p F L \<Longrightarrow> pool_exhausted h p \<longleftrightarrow> F = {}"
  by (cases rule: mp.alloc_cases) (auto simp: pool_exhausted_def)

lemma tskq_holdsE:
  assumes "tskq_holds s q"
  obtains h tp tq F L xs where "s = (h, tp, tq)" "tskq_ok h tp F L tq xs" "q = tskq_abs h xs"
    "pool_exhausted h tp \<longleftrightarrow> F = {}"
  using assms pool_exhausted_iff by (auto simp: tskq_holds_def tskq_ok_def)

interpretation tq: fifo tskq_holds tskq_enq tskq_deq "\<lambda>(h, tp, tq). pool_exhausted h tp" "\<lambda>_ _. True"
proof unfold_locales
  fix s q and x :: task
  assume s: "tskq_holds s q" and "\<not> (case s of (h, tp, tq) \<Rightarrow> pool_exhausted h tp)"
  from s obtain h tp tq F L xs where "s = (h, tp, tq)" "tskq_ok h tp F L tq xs" "q = tskq_abs h xs"
    "pool_exhausted h tp \<longleftrightarrow> F = {}"
    by (rule tskq_holdsE)
  with \<open>\<not> _\<close> show "\<exists>s'. tskq_enq x s = Inr s' \<and> tskq_holds s' (q @ [x]) \<and> True"
    using tskq_enqueue_tail_room [of h tp F L tq xs x] by (fastforce simp: tskq_enq_def tskq_holds_def)
next
  fix s q and x :: task
  assume s: "tskq_holds s q" and f: "case s of (h, tp, tq) \<Rightarrow> pool_exhausted h tp"
  from s obtain h tp tq F L xs where "s = (h, tp, tq)" "tskq_ok h tp F L tq xs" "q = tskq_abs h xs"
    "pool_exhausted h tp \<longleftrightarrow> F = {}"
    by (rule tskq_holdsE)
  with f show "\<exists>s'. tskq_enq x s = Inr s' \<and> tskq_holds s' q \<and> True"
    using tskq_enqueue_tail_full [of h tp L tq xs x] by (fastforce simp: tskq_enq_def tskq_holds_def)
next
  fix s
  assume "tskq_holds s []"
  then show "tskq_deq s = Inr (None, s)"
    by (auto simp: tskq_holds_def tskq_deq_def tskq_ok_def tskq_abs_def tskq_dequeue_empty)
next
  fix s q and x :: task
  assume "tskq_holds s (x # q)"
  then obtain h tp tq F L y ys where s: "s = (h, tp, tq)" "tskq_ok h tp F L tq (y # ys)"
    "x = task_load h y" "q = tskq_abs h ys"
    by (auto simp: tskq_holds_def tskq_abs_def Cons_eq_map_conv)
  then show "\<exists>s'. tskq_deq s = Inr (Some x, s') \<and> tskq_holds s' q"
    using tskq_dequeue_some [of h tp F L tq y ys] by (fastforce simp: tskq_deq_def tskq_holds_def)
qed

section \<open>Pushing a task in front\<close>

lemma tskq_enqueue_head_room:
  assumes ok: "tskq_ok h tp F L tq xs" and "F \<noteq> {}"
  shows "\<exists>n h' tp' tq'. tskq_enqueue_head h tp tq t = Inr (h', tp', tq') \<and> n \<in> F \<and>
    tskq_ok h' tp' (F - {n}) (insert n L) tq' (n # xs) \<and>
    tskq_abs h' (n # xs) = t # tskq_abs h xs \<and> (\<forall>y. y \<noteq> n \<longrightarrow> h' y = h y)"
proof -
  have mok: "mempool_ok h tp F L" and rep: "tskq_rep h tq xs" and xs: "set xs \<subseteq> L"
    using ok by (simp_all add: tskq_ok_def)
  obtain n tp' where al: "pool_alloc h tp = Inr (n, tp')" and n: "n \<in> F" "n \<notin> L" "n \<noteq> NULL"
    and mok': "mempool_ok h tp' (F - {n}) (insert n L)"
    using mok assms(2) by (cases rule: mp.alloc_cases) auto
  have nx: "n \<notin> set xs" using n xs by blast
  define h' where "h' = hwrite (task_store h n t) n TASK_NEXT (tq_head tq)"
  define tq' where "tq' = (if xs = [] then tq\<lparr>tq_head := n, tq_tail := n\<rparr> else tq\<lparr>tq_head := n\<rparr>)"
  have call: "tskq_enqueue_head h tp tq t = Inr (h', tp', tq')"
    using al n rep tskq_rep_head [OF rep]
    by (auto simp: tskq_enqueue_head_def h'_def tq'_def tskq_rep_def Let_def)
  have frame: "\<forall>y. y \<noteq> n \<longrightarrow> h' y = h y"
    by (auto simp: h'_def)
  have "mempool_ok h' tp' (F - {n}) (insert n L)"
    by (rule mp.ok_frame [OF mok']) (use frame in blast)
  moreover have "chain h' TASK_NEXT (tq_head tq) xs"
    using rep nx by (simp add: tskq_rep_def h'_def task_store_def)
  then have "tskq_rep h' tq' (n # xs)"
    using rep n nx by (auto simp: tskq_rep_def tq'_def h'_def)
  moreover have "tskq_abs h' (n # xs) = t # tskq_abs h xs"
    using nx by (auto simp: tskq_abs_def h'_def task_load_def task_store_def hwrite_def)
  ultimately show ?thesis
    using call n frame xs
    by (auto simp: tskq_ok_def intro!: exI [of _ n] exI [of _ h'] exI [of _ tp'] exI [of _ tq'])
qed

lemma tskq_enqueue_head_exhausted:
  "tskq_ok h tp {} L tq xs \<Longrightarrow> tskq_enqueue_head h tp tq t = Inl Null_deref"
  using mp.alloc_none [of h tp L] by (simp add: tskq_ok_def tskq_enqueue_head_def)

section \<open>The buffer queue is a stack\<close>

definition mq_ok :: "heap \<Rightarrow> pool \<Rightarrow> addr set \<Rightarrow> addr set \<Rightarrow> addr \<Rightarrow> addr list \<Rightarrow> bool" where
  "mq_ok h mp F L mq cs \<longleftrightarrow>
     mempool_ok h mp F L \<and> mq_rep h mq cs \<and> set cs \<subseteq> L \<and> NULL \<notin> set (mq_abs h cs)"

lemma mbuf_enqueue_null: "mbuf_enqueue h mp mq NULL = Inr (h, mp, mq)"
  by (simp add: mbuf_enqueue_def)

lemma mbuf_enqueue_room:
  assumes ok: "mq_ok h mp F L mq cs" and "F \<noteq> {}" and buf: "buf \<noteq> NULL"
  shows "\<exists>n h' mp'. mbuf_enqueue h mp mq buf = Inr (h', mp', n) \<and> n \<in> F \<and>
    mq_ok h' mp' (F - {n}) (insert n L) n (n # cs) \<and> mq_abs h' (n # cs) = buf # mq_abs h cs \<and>
    (\<forall>y. y \<noteq> n \<longrightarrow> h' y = h y)"
proof -
  have mok: "mempool_ok h mp F L" and rep: "mq_rep h mq cs" and cs: "set cs \<subseteq> L"
    and nn: "NULL \<notin> set (mq_abs h cs)"
    using ok by (simp_all add: mq_ok_def)
  obtain n mp' where al: "pool_alloc h mp = Inr (n, mp')" and n: "n \<in> F" "n \<notin> L" "n \<noteq> NULL"
    and mok': "mempool_ok h mp' (F - {n}) (insert n L)"
    using mok assms(2) by (cases rule: mp.alloc_cases) auto
  have nx: "n \<notin> set cs" using n cs by blast
  define h' where "h' = hwrite (hwrite h n MCELL_BUFFER buf) n MCELL_NEXT mq"
  have call: "mbuf_enqueue h mp mq buf = Inr (h', mp', n)"
    using al n buf by (simp add: mbuf_enqueue_def h'_def)
  have frame: "\<forall>y. y \<noteq> n \<longrightarrow> h' y = h y"
    by (auto simp: h'_def)
  have "mempool_ok h' mp' (F - {n}) (insert n L)"
    by (rule mp.ok_frame [OF mok']) (use frame in blast)
  moreover have "chain h' MCELL_NEXT mq cs"
    using rep nx by (simp add: mq_rep_def h'_def)
  then have "mq_rep h' n (n # cs)"
    using rep n nx by (auto simp: mq_rep_def h'_def)
  moreover have "mq_abs h' (n # cs) = buf # mq_abs h cs"
    using nx by (auto simp: mq_abs_def h'_def hwrite_def)
  ultimately show ?thesis
    using call n frame cs nn buf by (auto simp: mq_ok_def)
qed

lemma mbuf_enqueue_exhausted:
  "mq_ok h mp {} L mq cs \<Longrightarrow> buf \<noteq> NULL \<Longrightarrow> mbuf_enqueue h mp mq buf = Inl Null_deref"
  using mp.alloc_none [of h mp L] by (simp add: mq_ok_def mbuf_enqueue_def)

lemma mbuf_dequeue_empty: "mq_rep h mq [] \<Longrightarrow> mbuf_dequeue h mp mq = Inr (NULL, h, mp, mq)"
  by (simp add: mq_rep_def mbuf_dequeue_def)

text \<open>
  The read of \<open>next\<close> after the cell was released still returns the old link: the pool
  only overwrites the word at offset 0 of a released cell, which held \<open>buffer\<close>.
\<close>

lemma mbuf_dequeue_some:
  assumes ok: "mq_ok h mp F L mq (c # cs)"
  shows "\<exists>h' mp' mq'. mbuf_dequeue h mp mq = Inr (h c MCELL_BUFFER, h', mp', mq') \<and>
    mq_ok h' mp' (insert c F) (L - {c}) mq' cs \<and> mq_abs h' cs = mq_abs h cs \<and>
    (\<forall>y. y \<notin> insert c F \<longrightarrow> h' y = h y)"
proof -
  have mok: "mempool_ok h mp F L" and rep: "mq_rep h mq (c # cs)" and cs: "set (c # cs) \<subseteq> L"
    and nn: "NULL \<notin> set (mq_abs h (c # cs))"
    using ok by (simp_all add: mq_ok_def)
  obtain h' mp' where fr: "pool_free h mp c = Inr (h', mp')"
    and mok': "mempool_ok h' mp' (insert c F) (L - {c})"
    and frame: "\<forall>y. y \<notin> insert c F \<longrightarrow> h' y = h y" and next': "h' c MCELL_NEXT = h c MCELL_NEXT"
    using mp.free_live [OF mok, of c] cs by auto
  have mq: "mq = c" "c \<noteq> NULL" and ch: "chain h MCELL_NEXT (h c MCELL_NEXT) cs" and d: "distinct (c # cs)"
    using rep by (auto simp: mq_rep_def)
  have call: "mbuf_dequeue h mp mq = Inr (h c MCELL_BUFFER, h', mp', h c MCELL_NEXT)"
    using mq fr next' by (simp add: mbuf_dequeue_def)
  have same: "\<And>y. y \<in> set cs \<Longrightarrow> h' y = h y"
    using frame cs d mp.ok_sets [OF mok] by auto
  have "mq_rep h' (h c MCELL_NEXT) cs"
    using mq_rep_cong [of cs h' h] same ch d by (simp add: mq_rep_def)
  then show ?thesis
    using call mok' cs d nn frame mq_abs_cong [of cs h' h] same by (auto simp: mq_ok_def mq_abs_def)
qed

end
