(* ===== verification/Context.thy ===== *)
theory Context
  imports Tskq
begin

text \<open>
  Execution contexts (\<open>inc/ix/context.h\<close>): a \<open>ucontext_t\<close> from \<open>context_pool\<close> and its
  stack from \<open>stack_pool\<close>.  The invariant is that the live contexts and the live stacks
  are in one-to-one correspondence through the field \<open>uc_stack.ss_sp\<close>.
\<close>

section \<open>Operations\<close>

text \<open>Offsets of the fields of \<open>ucontext_t\<close> (x86-64) that the code touches.\<close>

abbreviation UC_LINK :: nat where "UC_LINK \<equiv> 8"
abbreviation UC_SS_SP :: nat where "UC_SS_SP \<equiv> 16"
abbreviation UC_SS_SIZE :: nat where "UC_SS_SIZE \<equiv> 32"

definition STACK_SIZE :: u64 where
  "STACK_SIZE = 2048"

text \<open>\<open>None\<close> is the return value \<open>-1\<close>; the stored size is \<open>sizeof(stack)\<close>, the size of a pointer.\<close>

definition context_alloc ::
  "heap \<Rightarrow> pool \<Rightarrow> pool \<Rightarrow> (addr option \<times> heap \<times> pool \<times> pool) res" where
  "context_alloc h cp sp =
     bindE (pool_alloc h cp) (\<lambda>(c, cp1).
     if c = NULL then Inr (None, h, cp1, sp)
     else
       bindE (pool_alloc h sp) (\<lambda>(stack, sp1).
       if stack = NULL
       then bindE (pool_free h cp1 c) (\<lambda>(h1, cp2). Inr (None, h1, cp2, sp1))
       else Inr (Some c, hwrite (hwrite h c UC_SS_SP stack) c UC_SS_SIZE 8, cp1, sp1)))"

definition context_free :: "heap \<Rightarrow> pool \<Rightarrow> pool \<Rightarrow> addr \<Rightarrow> (heap \<times> pool \<times> pool) res" where
  "context_free h cp sp c =
     bindE (derefE c) (\<lambda>_.
     bindE (pool_free h sp (h c UC_SS_SP)) (\<lambda>(h1, sp1).
     bindE (pool_free h1 cp c) (\<lambda>(h2, cp1).
     Inr (h2, cp1, sp1))))"

text \<open>
  Where \<open>set_context_link\<close> stores the return context: \<open>ss_sp\<close> is advanced by \<open>ss_size\<close>
  machine words (pointer arithmetic on \<open>uintptr_t *\<close>), one word back, rounded down to 16
  bytes, minus 8; the link goes into the second word from there.
\<close>

definition link_addr :: "u64 \<Rightarrow> u64 \<Rightarrow> u64" where
  "link_addr ss_sp ss_size =
     (let sp = ss_sp + 8 * ss_size;
          sp = sp - 8;
          sp = (sp AND (- 16)) - 8
      in sp + 8)"

definition set_context_link :: "heap \<Rightarrow> addr \<Rightarrow> addr \<Rightarrow> heap res" where
  "set_context_link h c uc_link =
     bindE (derefE c) (\<lambda>_.
     let stack = h c UC_SS_SP;
         a = link_addr stack (h c UC_SS_SIZE);
         h1 = hwrite h c UC_LINK uc_link
     in Inr (hwrite h1 stack (unat (a - stack)) uc_link))"

section \<open>Contexts and their stacks\<close>

definition ctx_ok :: "heap \<Rightarrow> pool \<Rightarrow> pool \<Rightarrow> addr set \<Rightarrow> addr set \<Rightarrow> addr set \<Rightarrow> addr set \<Rightarrow> bool" where
  "ctx_ok h cp sp Fc Lc Fs Ls \<longleftrightarrow>
     mempool_ok h cp Fc Lc \<and> mempool_ok h sp Fs Ls \<and> (Fc \<union> Lc) \<inter> (Fs \<union> Ls) = {} \<and>
     bij_betw (\<lambda>c. h c UC_SS_SP) Lc Ls"

lemma ctx_ok_parts:
  assumes "ctx_ok h cp sp Fc Lc Fs Ls"
  shows "mempool_ok h cp Fc Lc" "mempool_ok h sp Fs Ls" "(Fc \<union> Lc) \<inter> (Fs \<union> Ls) = {}"
    "bij_betw (\<lambda>c. h c UC_SS_SP) Lc Ls"
  using assms by (simp_all add: ctx_ok_def)

lemma ctx_ok_frame:
  assumes "ctx_ok h cp sp Fc Lc Fs Ls" and "\<And>x. x \<in> Fc \<union> Fs \<Longrightarrow> h' x = h x"
    and "\<And>c. c \<in> Lc \<Longrightarrow> h' c UC_SS_SP = h c UC_SS_SP"
  shows "ctx_ok h' cp sp Fc Lc Fs Ls"
proof -
  note p = ctx_ok_parts [OF assms(1)]
  have "mempool_ok h' cp Fc Lc" "mempool_ok h' sp Fs Ls"
    using mp.ok_frame [OF p(1)] mp.ok_frame [OF p(2)] assms(2) by auto
  moreover have "bij_betw (\<lambda>c. h' c UC_SS_SP) Lc Ls"
    using p(4) bij_betw_cong [of Lc "\<lambda>c. h' c UC_SS_SP" "\<lambda>c. h c UC_SS_SP" Ls] assms(3) by blast
  ultimately show ?thesis
    using p(3) by (simp add: ctx_ok_def)
qed

text \<open>Allocation either returns a fresh context bound to a fresh stack, or changes nothing but the free lists.\<close>

lemma context_alloc_some:
  assumes ok: "ctx_ok h cp sp Fc Lc Fs Ls" and "Fc \<noteq> {}" and "Fs \<noteq> {}"
  shows "\<exists>c st h' cp' sp'. context_alloc h cp sp = Inr (Some c, h', cp', sp') \<and> c \<in> Fc \<and> st \<in> Fs \<and>
    c \<noteq> NULL \<and> ctx_ok h' cp' sp' (Fc - {c}) (insert c Lc) (Fs - {st}) (insert st Ls) \<and>
    h' c UC_SS_SP = st \<and> h' c UC_SS_SIZE = 8 \<and> (\<forall>y. y \<noteq> c \<longrightarrow> h' y = h y)"
proof -
  note p = ctx_ok_parts [OF ok]
  obtain c cp' where c: "pool_alloc h cp = Inr (c, cp')" "c \<in> Fc" "c \<notin> Lc" "c \<noteq> NULL"
    and cok: "mempool_ok h cp' (Fc - {c}) (insert c Lc)"
    using p(1) assms(2) by (cases rule: mp.alloc_cases) auto
  obtain st sp' where st: "pool_alloc h sp = Inr (st, sp')" "st \<in> Fs" "st \<notin> Ls" "st \<noteq> NULL"
    and sok: "mempool_ok h sp' (Fs - {st}) (insert st Ls)"
    using p(2) assms(3) by (cases rule: mp.alloc_cases) auto
  define h' where "h' = hwrite (hwrite h c UC_SS_SP st) c UC_SS_SIZE 8"
  have frame: "\<And>y. y \<noteq> c \<Longrightarrow> h' y = h y" by (simp add: h'_def)
  have "mempool_ok h' cp' (Fc - {c}) (insert c Lc)"
    by (rule mp.ok_frame [OF cok]) (auto intro: frame)
  moreover have "mempool_ok h' sp' (Fs - {st}) (insert st Ls)"
    by (rule mp.ok_frame [OF sok]) (use c p(3) in \<open>auto intro: frame\<close>)
  moreover have "bij_betw (\<lambda>c. h' c UC_SS_SP) Lc Ls"
    using p(4) bij_betw_cong [of Lc "\<lambda>c. h' c UC_SS_SP" "\<lambda>c. h c UC_SS_SP" Ls] frame c(3) by metis
  then have "bij_betw (\<lambda>c. h' c UC_SS_SP) (insert c Lc) (insert st Ls)"
    using c(3) st(3) notIn_Un_bij_betw3 [of c Lc "\<lambda>c. h' c UC_SS_SP" Ls] by (simp add: h'_def)
  moreover have "Fc - {c} \<union> insert c Lc = Fc \<union> Lc" "Fs - {st} \<union> insert st Ls = Fs \<union> Ls"
    using c(2) st(2) by auto
  ultimately have "ctx_ok h' cp' sp' (Fc - {c}) (insert c Lc) (Fs - {st}) (insert st Ls)"
    unfolding ctx_ok_def using p(3) by simp
  moreover have "context_alloc h cp sp = Inr (Some c, h', cp', sp')"
    using c st by (simp add: context_alloc_def h'_def)
  moreover have "h' c UC_SS_SP = st" "h' c UC_SS_SIZE = 8"
    by (simp_all add: h'_def)
  ultimately show ?thesis
    using c st frame by blast
qed

lemma context_alloc_none:
  assumes ok: "ctx_ok h cp sp Fc Lc Fs Ls" and "Fc = {} \<or> Fs = {}"
  shows "\<exists>h' cp' sp'. context_alloc h cp sp = Inr (None, h', cp', sp') \<and>
    ctx_ok h' cp' sp' Fc Lc Fs Ls \<and> (\<forall>y. y \<notin> Fc \<longrightarrow> h' y = h y)"
proof (cases "Fc = {}")
  case True
  then have "context_alloc h cp sp = Inr (None, h, cp, sp)"
    using mp.alloc_none [of h cp Lc] ctx_ok_parts(1) [OF ok] by (simp add: context_alloc_def)
  then show ?thesis using ok by auto
next
  case False
  note p = ctx_ok_parts [OF ok]
  obtain c cp1 where c: "pool_alloc h cp = Inr (c, cp1)" "c \<in> Fc" "c \<notin> Lc" "c \<noteq> NULL"
    and cok: "mempool_ok h cp1 (Fc - {c}) (insert c Lc)"
    using p(1) False by (cases rule: mp.alloc_cases) auto
  have st: "pool_alloc h sp = Inr (NULL, sp)"
    using mp.alloc_none [of h sp Ls] p(2) assms(2) False by simp
  obtain h' cp2 where fr: "pool_free h cp1 c = Inr (h', cp2)"
    and ok2: "mempool_ok h' cp2 (insert c (Fc - {c})) (insert c Lc - {c})"
    and frame: "\<forall>y. y \<notin> insert c (Fc - {c}) \<longrightarrow> h' y = h y"
    using mp.free_live [OF cok, of c] by auto
  have eq: "insert c (Fc - {c}) = Fc" "insert c Lc - {c} = Lc"
    using c by auto
  have same: "\<And>y. y \<notin> Fc \<Longrightarrow> h' y = h y" using frame eq by auto
  have "mempool_ok h' sp Fs Ls"
    by (rule mp.ok_frame [OF p(2)]) (use p(3) in \<open>auto intro: same\<close>)
  moreover have "Fc \<inter> Lc = {}" using mp.ok_sets [OF p(1)] by blast
  then have "bij_betw (\<lambda>c. h' c UC_SS_SP) Lc Ls"
    using p(4) bij_betw_cong [of Lc "\<lambda>c. h' c UC_SS_SP" "\<lambda>c. h c UC_SS_SP" Ls] same by (metis disjoint_iff)
  ultimately have "ctx_ok h' cp2 sp Fc Lc Fs Ls"
    using ok2 p(3) unfolding eq by (simp add: ctx_ok_def)
  then show ?thesis
    using c st fr same by (auto simp: context_alloc_def)
qed

text \<open>Freeing a live context frees exactly the stack bound to it.\<close>

lemma context_free_live:
  assumes ok: "ctx_ok h cp sp Fc Lc Fs Ls" and c: "c \<in> Lc"
  defines "st \<equiv> h c UC_SS_SP"
  shows "\<exists>h' cp' sp'. context_free h cp sp c = Inr (h', cp', sp') \<and> st \<in> Ls \<and>
    ctx_ok h' cp' sp' (insert c Fc) (Lc - {c}) (insert st Fs) (Ls - {st}) \<and>
    (\<forall>y. y \<notin> insert c Fc \<union> insert st Fs \<longrightarrow> h' y = h y)"
proof -
  note p = ctx_ok_parts [OF ok]
  have nn: "c \<noteq> NULL" using mp.ok_sets [OF p(1)] c by auto
  have stL: "st \<in> Ls" using p(4) c by (auto simp: bij_betw_def st_def)
  obtain h1 sp1 where f1: "pool_free h sp st = Inr (h1, sp1)"
    and s1: "mempool_ok h1 sp1 (insert st Fs) (Ls - {st})"
    and fr1: "\<forall>y. y \<notin> insert st Fs \<longrightarrow> h1 y = h y"
    using mp.free_live [OF p(2) stL] by auto
  have "mempool_ok h1 cp Fc Lc"
    by (rule mp.ok_frame [OF p(1)]) (use p(3) stL fr1 in auto)
  then obtain h2 cp1 where f2: "pool_free h1 cp c = Inr (h2, cp1)"
    and c2: "mempool_ok h2 cp1 (insert c Fc) (Lc - {c})"
    and fr2: "\<forall>y. y \<notin> insert c Fc \<longrightarrow> h2 y = h1 y"
    using mp.free_live [of h1 cp Fc Lc c] c by auto
  have s2: "mempool_ok h2 sp1 (insert st Fs) (Ls - {st})"
    by (rule mp.ok_frame [OF s1]) (use p(3) c stL fr2 in auto)
  have "bij_betw (\<lambda>c. h c UC_SS_SP) (Lc - {c}) (Ls - {st})"
    using p(4) c stL bij_betw_DiffI [of "\<lambda>c. h c UC_SS_SP" Lc Ls "{c}" "{st}"] by (simp add: st_def)
  moreover have "\<And>d. d \<in> Lc - {c} \<Longrightarrow> h2 d = h d"
  proof -
    fix d
    assume d: "d \<in> Lc - {c}"
    then have "d \<notin> insert c Fc" "d \<notin> insert st Fs"
      using p(3) stL mp.ok_sets [OF p(1)] by auto
    then show "h2 d = h d" using fr1 fr2 by simp
  qed
  ultimately have "bij_betw (\<lambda>c. h2 c UC_SS_SP) (Lc - {c}) (Ls - {st})"
    using bij_betw_cong [of "Lc - {c}" "\<lambda>c. h2 c UC_SS_SP" "\<lambda>c. h c UC_SS_SP"] by metis
  moreover have "insert c Fc \<union> (Lc - {c}) = Fc \<union> Lc" "insert st Fs \<union> (Ls - {st}) = Fs \<union> Ls"
    using c stL by auto
  ultimately have "ctx_ok h2 cp1 sp1 (insert c Fc) (Lc - {c}) (insert st Fs) (Ls - {st})"
    using c2 s2 p(3) by (simp add: ctx_ok_def)
  then show ?thesis
    using nn stL f1 f2 fr1 fr2 by (auto simp: context_free_def st_def)
qed

section \<open>The return link\<close>

text \<open>
  With the stored size of 8 the link lands 48 bytes into a 16-byte aligned stack, inside
  the element; with the real stack size it would land eight stacks further on.
\<close>

lemma link_addr_stored_size:
  assumes "stack AND 15 = 0"
  shows "link_addr stack 8 = stack + 48"
proof -
  have m: "(- 16 :: u64) = NOT (mask 4)"
    by (simp add: mask_eq_exp_minus_1 not_eq_complement)
  have "take_bit 4 stack = 0"
    using assms by (simp add: take_bit_eq_mask mask_eq_exp_minus_1)
  then have "take_bit 4 (stack + 56) = 8"
    using take_bit_word_add [of 4 stack 56] by simp
  then have "(stack + 56) AND (- 16) = stack + 48"
    by (simp add: m and_not_mask_eq)
  then show ?thesis by (simp add: link_addr_def Let_def add.commute)
qed

lemma set_context_link_stack:
  assumes "c \<noteq> NULL" and "h c UC_SS_SIZE = 8" and "h c UC_SS_SP AND 15 = 0"
  shows "set_context_link h c l =
    Inr (hwrite (hwrite h c UC_LINK l) (h c UC_SS_SP) 48 l)"
  using assms by (simp add: set_context_link_def link_addr_stored_size)

end
