(* ===== verification/Byteorder.thy ===== *)
theory Byteorder
  imports Prelude
begin

text \<open>
  Byte order conversion (\<open>inc/ix/byteorder.h\<close>) and the little-endian loads and stores of
  packet fields on the x86 machine the program runs on.
\<close>

section \<open>Swaps\<close>

definition bswap16 :: "u16 \<Rightarrow> u16" where
  "bswap16 val = push_bit 8 (val AND 0x00ff) OR drop_bit 8 (val AND 0xff00)"

definition bswap32 :: "u32 \<Rightarrow> u32" where
  "bswap32 val =
     push_bit 24 (val AND 0x000000ff) OR push_bit 8 (val AND 0x0000ff00) OR
     drop_bit 8 (val AND 0x00ff0000) OR drop_bit 24 (val AND 0xff000000)"

definition bswap64 :: "u64 \<Rightarrow> u64" where
  "bswap64 val =
     push_bit 56 (val AND 0x00000000000000ff) OR push_bit 40 (val AND 0x000000000000ff00) OR
     push_bit 24 (val AND 0x0000000000ff0000) OR push_bit 8 (val AND 0x00000000ff000000) OR
     drop_bit 8 (val AND 0x000000ff00000000) OR drop_bit 24 (val AND 0x0000ff0000000000) OR
     drop_bit 40 (val AND 0x00ff000000000000) OR drop_bit 56 (val AND 0xff00000000000000)"

abbreviation ntoh16 :: "u16 \<Rightarrow> u16" where "ntoh16 \<equiv> bswap16"
abbreviation hton16 :: "u16 \<Rightarrow> u16" where "hton16 \<equiv> bswap16"
abbreviation ntoh32 :: "u32 \<Rightarrow> u32" where "ntoh32 \<equiv> bswap32"
abbreviation hton32 :: "u32 \<Rightarrow> u32" where "hton32 \<equiv> bswap32"

text \<open>Byte \<open>i\<close> of a word; a word is determined by its bytes.\<close>

definition byte_at :: "'a::len word \<Rightarrow> nat \<Rightarrow> u8" where
  "byte_at w i = ucast (drop_bit (8 * i) w)"

lemma bit_byte_at: "bit (byte_at w i) n \<longleftrightarrow> n < 8 \<and> bit w (8 * i + n)"
  by (auto simp: byte_at_def bit_simps dest: bit_imp_le_length)

lemma word_eq_bytes:
  fixes v w :: "'a::len word"
  assumes "\<And>i. 8 * i < LENGTH('a) \<Longrightarrow> byte_at v i = byte_at w i"
  shows "v = w"
proof (rule bit_word_eqI)
  fix n
  assume n: "n < LENGTH('a)"
  have split: "n = 8 * (n div 8) + n mod 8" by simp
  then have "8 * (n div 8) < LENGTH('a)" using n by linarith
  then have "bit (byte_at v (n div 8)) (n mod 8) = bit (byte_at w (n div 8)) (n mod 8)"
    using assms by simp
  then show "bit v n = bit w n" by (simp add: bit_byte_at)
qed

lemma byte_mask: "(0xff :: 'a::len word) = mask 8"
  by (simp add: mask_eq_exp_minus_1)

lemma byte_masks:
  "(0xff00 :: 'a::len word) = push_bit 8 (mask 8)" "(0xff0000 :: 'a::len word) = push_bit 16 (mask 8)"
  "(0xff000000 :: 'a::len word) = push_bit 24 (mask 8)" "(0xff00000000 :: 'a::len word) = push_bit 32 (mask 8)"
  "(0xff0000000000 :: 'a::len word) = push_bit 40 (mask 8)" "(0xff000000000000 :: 'a::len word) = push_bit 48 (mask 8)"
  "(0xff00000000000000 :: 'a::len word) = push_bit 56 (mask 8)"
  by (simp_all add: mask_eq_exp_minus_1 push_bit_eq_mult)

lemma byte_swap16: "i < 2 \<Longrightarrow> byte_at (bswap16 v) i = byte_at v (1 - i)"
  unfolding bswap16_def byte_mask byte_masks
  by (rule bit_word_eqI) (auto simp: bit_byte_at bit_simps less_2_cases_iff)

lemma bswap16_swap: "bswap16 (bswap16 v) = v"
  by (rule word_eq_bytes) (simp add: byte_swap16)

lemma less_4_cases: "(i::nat) < 4 \<longleftrightarrow> i = 0 \<or> i = 1 \<or> i = 2 \<or> i = 3"
  by auto

lemma less_8_cases: "(i::nat) < 8 \<longleftrightarrow> i = 0 \<or> i = 1 \<or> i = 2 \<or> i = 3 \<or> i = 4 \<or> i = 5 \<or> i = 6 \<or> i = 7"
  by auto

lemma byte_or: "byte_at (a OR b) i = byte_at a i OR byte_at b i"
  by (rule bit_word_eqI) (simp add: bit_byte_at bit_simps)

text \<open>One byte of a word, moved up or down by whole bytes.\<close>

lemma byte_push:
  "byte_at (push_bit (8 * k) (v AND push_bit (8 * j) (mask 8))) i = (if i = j + k then byte_at v j else 0)"
  if "8 * (j + k + 1) \<le> LENGTH('a)" for v :: "'a::len word"
proof (rule bit_word_eqI)
  fix n :: nat
  assume n: "n < LENGTH(8)"
  have "8 * i + n - 8 * k < 8 * j + 8 \<longleftrightarrow> i \<le> j + k" "8 * k \<le> 8 * i + n \<Longrightarrow> 8 * j \<le> 8 * i + n - 8 * k \<longleftrightarrow> j + k \<le> i"
    "8 * k \<le> 8 * i + n \<longleftrightarrow> k \<le> i"
    using n by auto
  then show "bit (byte_at (push_bit (8 * k) (v AND push_bit (8 * j) (mask 8))) i) n =
      bit (if i = j + k then byte_at v j else 0) n"
    using n that by (auto simp: bit_byte_at bit_simps)
qed

lemma byte_drop:
  "byte_at (drop_bit (8 * k) (v AND push_bit (8 * j) (mask 8))) i = (if i + k = j then byte_at v j else 0)"
  if "k \<le> j" "8 * (j + 1) \<le> LENGTH('a)" for v :: "'a::len word"
proof (rule bit_word_eqI)
  fix n :: nat
  assume n: "n < LENGTH(8)"
  have "8 * k + (8 * i + n) < 8 * j + 8 \<longleftrightarrow> i + k \<le> j" "8 * j \<le> 8 * k + (8 * i + n) \<longleftrightarrow> j \<le> i + k"
    using n by auto
  then show "bit (byte_at (drop_bit (8 * k) (v AND push_bit (8 * j) (mask 8))) i) n =
      bit (if i + k = j then byte_at v j else 0) n"
    using n that by (auto simp: bit_byte_at bit_simps ac_simps)
qed

lemma byte_swap32: "i < 4 \<Longrightarrow> byte_at (bswap32 v) i = byte_at v (3 - i)"
  unfolding bswap32_def byte_mask byte_masks
  using byte_push [of 0 3 v i] byte_push [of 1 1 v i] byte_drop [of 1 2 v i] byte_drop [of 3 3 v i]
  by (auto simp: byte_or less_4_cases)

lemma byte_swap64: "i < 8 \<Longrightarrow> byte_at (bswap64 v) i = byte_at v (7 - i)"
  unfolding bswap64_def byte_mask byte_masks
  using byte_push [of 0 7 v i] byte_push [of 1 5 v i] byte_push [of 2 3 v i] byte_push [of 3 1 v i]
    byte_drop [of 1 4 v i] byte_drop [of 3 5 v i] byte_drop [of 5 6 v i] byte_drop [of 7 7 v i]
  by (auto simp: byte_or less_8_cases)

lemma bswap32_swap: "bswap32 (bswap32 v) = v"
  by (rule word_eq_bytes) (simp add: byte_swap32)

lemma bswap64_swap: "bswap64 (bswap64 v) = v"
  by (rule word_eq_bytes) (simp add: byte_swap64)

section \<open>Packet bytes\<close>

text \<open>The data of a packet buffer, by offset from its first data byte.\<close>

type_synonym bytes = "nat \<Rightarrow> u8"

definition ld16 :: "bytes \<Rightarrow> nat \<Rightarrow> u16" where
  "ld16 d off = ucast (d off) OR push_bit 8 (ucast (d (off + 1)))"

definition ld32 :: "bytes \<Rightarrow> nat \<Rightarrow> u32" where
  "ld32 d off = ucast (d off) OR push_bit 8 (ucast (d (off + 1))) OR
     push_bit 16 (ucast (d (off + 2))) OR push_bit 24 (ucast (d (off + 3)))"

definition st16 :: "bytes \<Rightarrow> nat \<Rightarrow> u16 \<Rightarrow> bytes" where
  "st16 d off v = d(off := byte_at v 0, off + 1 := byte_at v 1)"

definition st32 :: "bytes \<Rightarrow> nat \<Rightarrow> u32 \<Rightarrow> bytes" where
  "st32 d off v = d(off := byte_at v 0, off + 1 := byte_at v 1, off + 2 := byte_at v 2, off + 3 := byte_at v 3)"

lemma byte_ld16: "i < 2 \<Longrightarrow> byte_at (ld16 d off) i = d (off + i)"
  by (rule bit_word_eqI) (auto simp: ld16_def bit_byte_at bit_simps less_2_cases_iff dest: bit_imp_le_length)

lemma byte_ld32: "i < 4 \<Longrightarrow> byte_at (ld32 d off) i = d (off + i)"
  by (rule bit_word_eqI) (auto simp: ld32_def bit_byte_at bit_simps less_4_cases dest: bit_imp_le_length)

lemma ld16_cong: "d' off = d off \<Longrightarrow> d' (Suc off) = d (Suc off) \<Longrightarrow> ld16 d' off = ld16 d off"
  by (simp add: ld16_def)

lemma ld32_cong: "(\<And>i. i < 4 \<Longrightarrow> d' (off + i) = d (off + i)) \<Longrightarrow> ld32 d' off = ld32 d off"
  by (rule word_eq_bytes) (simp add: byte_ld32)

lemma ld16_st16 [simp]: "ld16 (st16 d off v) off = v"
  by (rule word_eq_bytes) (auto simp: byte_ld16 st16_def less_2_cases_iff)

lemma ld32_st32 [simp]: "ld32 (st32 d off v) off = v"
  by (rule word_eq_bytes) (auto simp: byte_ld32 st32_def less_4_cases)

lemma st16_other: "x < off \<or> off + 2 \<le> x \<Longrightarrow> st16 d off v x = d x"
  by (auto simp: st16_def)

lemma st32_other: "x < off \<or> off + 4 \<le> x \<Longrightarrow> st32 d off v x = d x"
  by (auto simp: st32_def)

text \<open>Reading a field in network order: the most significant byte comes first.\<close>

lemma uint_bytes2: "unat w = unat (byte_at w 0) + 256 * unat (byte_at w 1)" for w :: u16
proof -
  have "w = ucast (byte_at w 0) OR push_bit 8 (ucast (byte_at w 1))"
    by (rule word_eq_bytes) (auto simp: ld16_def [of "byte_at w" 0, simplified, symmetric] byte_ld16)
  also have "\<dots> = ucast (byte_at w 0) + push_bit 8 (ucast (byte_at w 1))"
    by (rule disjunctive_add_eq_or [symmetric], rule bit_word_eqI) (auto simp: bit_simps dest: bit_imp_le_length)
  finally have "w = ucast (byte_at w 0) + push_bit 8 (ucast (byte_at w 1))" .
  moreover have "unat (ucast a + push_bit 8 (ucast b) :: u16) = unat a + 256 * unat b" for a b :: u8
  proof -
    have ab: "unat a < 256" "unat b < 256"
      using unsigned_less [of a] unsigned_less [of b] by simp_all
    then show ?thesis
      by (simp add: unat_word_ariths push_bit_eq_mult unsigned_ucast_eq take_bit_nat_eq_self)
  qed
  ultimately show ?thesis by metis
qed

lemma ntoh16_ld16: "unat (ntoh16 (ld16 d off)) = 256 * unat (d off) + unat (d (off + 1))"
  by (simp add: uint_bytes2 byte_swap16 byte_ld16)

end
