(* ===== verification/Ieee.thy ===== *)
theory Ieee
  imports Complex_Main Prelude "HOL-Library.Log_Nat"
begin

text \<open>
  The part of IEEE 754 arithmetic the scheduler uses: rounding to nearest, ties to even, to
  a precision of \<open>p\<close> significant bits (24 for \<open>float\<close>, 53 for \<open>double\<close>), and division.
  Every operand is an integer of at most 64 bits or a small constant, so exponents stay
  far from the overflow and underflow limits and only the precision matters.
\<close>

section \<open>Rounding\<close>

definition ilog2 :: "rat \<Rightarrow> int" where
  "ilog2 x =
     (let (n, d) = quotient_of x;
          e = int (floorlog 2 (nat n)) - int (floorlog 2 (nat d))
      in if 2 powi e \<le> x then e else e - 1)"

definition round_half_even :: "rat \<Rightarrow> int" where
  "round_half_even m =
     (let f = \<lfloor>m\<rfloor>; r = m - of_int f
      in if r < 1 / 2 then f else if 1 / 2 < r then f + 1 else if even f then f else f + 1)"

definition rnd :: "nat \<Rightarrow> rat \<Rightarrow> rat" where
  "rnd p x =
     (if x = 0 then 0
      else let y = \<bar>x\<bar>; e = ilog2 y - (int p - 1)
           in sgn x * (of_int (round_half_even (y / 2 powi e)) * 2 powi e))"

lemma floorlog_2_bounds: "0 < n \<Longrightarrow> 2 ^ (floorlog 2 n - 1) \<le> n \<and> n < 2 ^ floorlog 2 n"
  using floorlog_bounds [of n 2] by simp

lemma floorlog_2_pos: "0 < n \<Longrightarrow> 0 < floorlog 2 n"
  by (simp add: floorlog_def)

lemma floorlog_2_rat:
  assumes "0 < n"
  shows "(2::rat) ^ (floorlog 2 (nat n) - 1) \<le> of_int n" and "of_int n < (2::rat) ^ floorlog 2 (nat n)"
proof -
  have n: "(of_int n :: rat) = of_nat (nat n)" using assms by simp
  have "2 ^ (floorlog 2 (nat n) - 1) \<le> nat n" "nat n < 2 ^ floorlog 2 (nat n)"
    using floorlog_2_bounds [of "nat n"] assms by simp_all
  then show "(2::rat) ^ (floorlog 2 (nat n) - 1) \<le> of_int n" "of_int n < (2::rat) ^ floorlog 2 (nat n)"
    unfolding n by (metis of_nat_le_iff of_nat_less_iff of_nat_numeral of_nat_power)+
qed

lemma ilog2_bounds:
  assumes "0 < x"
  shows "2 powi (ilog2 x) \<le> x" and "x < 2 powi (ilog2 x + 1)"
proof -
  obtain n d where q: "quotient_of x = (n, d)" by force
  have d: "0 < d" using q quotient_of_denom_pos by blast
  have x: "x = of_int n / of_int d" using q quotient_of_div by blast
  have n: "0 < n" using assms x d by (simp add: zero_less_divide_iff)
  define a where "a = floorlog 2 (nat n)"
  define b where "b = floorlog 2 (nat d)"
  have "0 < a" "0 < b" using n d by (auto simp: a_def b_def intro: floorlog_2_pos)
  note nb = floorlog_2_rat [OF n, folded a_def]
  note db = floorlog_2_rat [OF d, folded b_def]
  have pow: "(2::rat) powi (int a - int b) = 2 ^ a / 2 ^ b"
    by (simp add: power_int_diff)
  have pa: "(2::rat) ^ a = 2 * 2 ^ (a - 1)" and pb: "(2::rat) ^ b = 2 * 2 ^ (b - 1)"
    using \<open>0 < a\<close> \<open>0 < b\<close> by (simp_all flip: power_Suc)
  have up: "x < 2 * (2 ^ a / 2 ^ b)"
  proof -
    have "x \<le> of_int n / 2 ^ (b - 1)"
      unfolding x using db n d by (intro divide_left_mono) auto
    also have "\<dots> < 2 ^ a / 2 ^ (b - 1)"
      using nb by (intro divide_strict_right_mono) auto
    also have "\<dots> = 2 * (2 ^ a / 2 ^ b)"
      unfolding pb by simp
    finally show ?thesis .
  qed
  have lo: "2 ^ a / 2 ^ b / 2 < x"
  proof -
    have "(2::rat) ^ a / 2 ^ b / 2 = 2 ^ (a - 1) / 2 ^ b"
      unfolding pa by simp
    also have "\<dots> \<le> of_int n / 2 ^ b"
      using nb by (intro divide_right_mono) auto
    also have "\<dots> < x"
      unfolding x using db n d by (intro divide_strict_left_mono) auto
    finally show ?thesis .
  qed
  have e: "ilog2 x = (if 2 powi (int a - int b) \<le> x then int a - int b else int a - int b - 1)"
    using q by (simp add: ilog2_def a_def b_def)
  have half: "(2::rat) powi (int a - int b - 1) = 2 ^ a / 2 ^ b / 2"
    by (subst power_int_diff) (simp_all add: pow)
  have dbl: "(2::rat) powi (int a - int b + 1) = 2 * (2 ^ a / 2 ^ b)"
    by (subst power_int_add) (simp_all add: pow)
  show "2 powi (ilog2 x) \<le> x"
    using lo by (simp add: e pow half del: of_nat_diff)
  show "x < 2 powi (ilog2 x + 1)"
    using up by (simp add: e pow dbl del: of_nat_diff)
qed

lemma round_half_even_error: "\<bar>of_int (round_half_even m) - m\<bar> \<le> 1 / 2"
  using floor_correct [of m]
  by (auto simp: round_half_even_def Let_def abs_if) (use floor_correct [of m] in linarith)

lemma round_half_even_int [simp]: "round_half_even (of_int k) = k"
  by (simp add: round_half_even_def)

lemma rnd_zero [simp]: "rnd p 0 = 0"
  by (simp add: rnd_def)

lemma rnd_pos:
  assumes "0 < x"
  shows "rnd p x = of_int (round_half_even (x / 2 powi (ilog2 x - (int p - 1)))) * 2 powi (ilog2 x - (int p - 1))"
  using assms by (simp add: rnd_def Let_def)

text \<open>The relative error of one rounding is at most half a unit in the last place.\<close>

lemma rnd_rel_error:
  assumes "0 < x"
  shows "\<bar>rnd p x - x\<bar> \<le> x * 2 powi (- int p)"
proof -
  let ?e = "ilog2 x - (int p - 1)"
  have pos: "(0::rat) < 2 powi ?e" by simp
  have "rnd p x - x = (of_int (round_half_even (x / 2 powi ?e)) - x / 2 powi ?e) * 2 powi ?e"
    using assms by (simp add: rnd_pos algebra_simps)
  then have "\<bar>rnd p x - x\<bar> = \<bar>of_int (round_half_even (x / 2 powi ?e)) - x / 2 powi ?e\<bar> * 2 powi ?e"
    by (simp add: abs_mult)
  also have "\<dots> \<le> 1 / 2 * 2 powi ?e"
    using round_half_even_error pos by (intro mult_right_mono) auto
  also have "\<dots> = 2 powi (ilog2 x) * 2 powi (- int p)"
    by (simp add: power_int_diff power_int_minus power_int_add field_simps)
  also have "\<dots> \<le> x * 2 powi (- int p)"
    using ilog2_bounds(1) [OF assms] by (intro mult_right_mono) auto
  finally show ?thesis .
qed

text \<open>Integers that fit the precision are exact.\<close>

lemma ilog2_less: "0 < x \<Longrightarrow> x < 2 powi k \<Longrightarrow> ilog2 x < k"
  using ilog2_bounds(1) [of x] power_int_increasing [of k "ilog2 x" "2::rat"] by force

lemma rnd_int_exact:
  assumes "\<bar>k\<bar> < 2 ^ p"
  shows "rnd p (of_int k) = of_int k"
proof (cases "k = 0")
  case False
  let ?y = "of_int \<bar>k\<bar> :: rat"
  let ?e = "ilog2 ?y - (int p - 1)"
  have "?y < 2 ^ p" using assms by (metis of_int_less_iff of_int_numeral of_int_power)
  then have "ilog2 ?y < int p" using False by (intro ilog2_less) auto
  then have "?e = - int (nat (- ?e))" by simp
  then obtain m where m: "?e = - int m" by blast
  have "?y / 2 powi ?e = of_int (\<bar>k\<bar> * 2 ^ m)"
    unfolding m by (simp add: power_int_minus field_simps)
  then have "round_half_even (?y / 2 powi ?e) = \<bar>k\<bar> * 2 ^ m"
    by (simp only: round_half_even_int)
  then have "rnd p (of_int k) = sgn (of_int k) * (of_int (\<bar>k\<bar> * 2 ^ m) * 2 powi ?e)"
    using False by (simp add: rnd_def Let_def flip: of_int_abs)
  also have "\<dots> = sgn (of_int k) * of_int \<bar>k\<bar>"
    unfolding m by (simp add: power_int_minus)
  also have "\<dots> = of_int k"
    by (simp add: sgn_mult_abs)
  finally show ?thesis .
qed simp

section \<open>Values of a floating point type\<close>

datatype fl = Fin rat | PInf | NInf | NaN

text \<open>Division of a value by a value, in precision \<open>p\<close>; zero divisors are positive zero.\<close>

definition fl_div :: "nat \<Rightarrow> rat \<Rightarrow> rat \<Rightarrow> fl" where
  "fl_div p a b =
     (if b = 0 then (if a = 0 then NaN else if 0 < a then PInf else NInf)
      else Fin (rnd p (a / b)))"

fun fl_gt :: "fl \<Rightarrow> fl \<Rightarrow> bool" where
  "fl_gt (Fin a) (Fin b) = (b < a)"
| "fl_gt (Fin a) NInf = True"
| "fl_gt PInf (Fin b) = True"
| "fl_gt PInf NInf = True"
| "fl_gt _ _ = False"

lemma fl_gt_trans: "fl_gt a b \<Longrightarrow> fl_gt b c \<Longrightarrow> fl_gt a c"
  by (cases a; cases b; cases c) auto

lemma fl_gt_irrefl [simp]: "\<not> fl_gt a a"
  by (cases a) auto

lemma fl_gt_not_gt_trans: "fl_gt a b \<Longrightarrow> \<not> fl_gt c b \<Longrightarrow> c \<noteq> NaN \<Longrightarrow> fl_gt a c"
  by (cases a; cases b; cases c) auto

end
