(* ===== verification/Smart_Tskq.thy ===== *)
theory Smart_Tskq
  imports Tskq Ieee
begin

text \<open>
  The scheduling decision of the dispatcher (\<open>inc/ix/dispatch.h\<close>): among the per-port task
  queues, \<open>smart_tskq_dequeue\<close> takes from the one whose oldest task has waited longest
  relative to its service level objective; \<open>naive_tskq_dequeue\<close> takes from the first
  queue that is not empty.  The parameters come from \<open>struct cfg_parameters\<close>.
\<close>

section \<open>Configuration\<close>

definition CFG_MAX_PORTS :: nat where "CFG_MAX_PORTS = 16"
definition CFG_MAX_CPU :: nat where "CFG_MAX_CPU = 128"
definition CFG_MAX_ETHDEV :: nat where "CFG_MAX_ETHDEV = 16"

text \<open>\<open>slos\<close> holds the values of the C \<open>float\<close> array, as exact rationals.\<close>

record pci_addr =
  pci_domain :: u16
  pci_bus :: u8
  pci_slot :: u8
  pci_func :: u8

record cfg_parameters =
  host_addr :: u32
  broadcast_addr :: u32
  gateway_addr :: u32
  cfg_mask :: u32
  cfg_mac :: "u8 list"
  num_cpus :: int
  cfg_cpu :: "u32 list"
  num_ethdev :: int
  cfg_ethdev :: "pci_addr list"
  num_ports :: int
  cfg_ports :: "u16 list"
  num_slos :: int
  cfg_slos :: "rat list"
  loader_path :: string

section \<open>Selection\<close>

text \<open>
  \<open>diff / CFG.slos[i]\<close>: the signed 64-bit waiting time is converted to \<open>float\<close> and divided
  in \<open>float\<close>; the widening to \<open>double\<close> is exact.
\<close>

definition queue_score :: "cfg_parameters \<Rightarrow> nat \<Rightarrow> u64 \<Rightarrow> u64 \<Rightarrow> fl" where
  "queue_score cfg i cur_time queue_stamp =
     (let diff = sint (cur_time - queue_stamp)
      in fl_div 24 (rnd 24 (of_int diff)) (cfg_slos cfg ! i))"

definition smart_step ::
  "cfg_parameters \<Rightarrow> heap \<Rightarrow> task_queue list \<Rightarrow> u64 \<Rightarrow> nat \<Rightarrow> fl \<times> nat option \<Rightarrow> fl \<times> nat option" where
  "smart_step cfg h tqs cur_time i st =
     (case st of (mx, index) \<Rightarrow>
       case get_queue_timestamp h (tqs ! i) of
         None \<Rightarrow> (mx, index)
       | Some queue_stamp \<Rightarrow>
           let current = queue_score cfg i cur_time queue_stamp
           in if fl_gt current mx then (current, Some i) else (mx, index))"

definition smart_scan ::
  "cfg_parameters \<Rightarrow> heap \<Rightarrow> task_queue list \<Rightarrow> u64 \<Rightarrow> nat \<Rightarrow> fl \<times> nat option" where
  "smart_scan cfg h tqs cur_time n = fold (smart_step cfg h tqs cur_time) [0..<n] (Fin 0, None)"

definition smart_tskq_dequeue ::
  "cfg_parameters \<Rightarrow> heap \<Rightarrow> pool \<Rightarrow> task_queue list \<Rightarrow> u64 \<Rightarrow>
     (task option \<times> heap \<times> pool \<times> task_queue list) res" where
  "smart_tskq_dequeue cfg h tp tqs cur_time =
     (if nat (num_ports cfg) > length tqs then Inl Out_of_bounds
      else case snd (smart_scan cfg h tqs cur_time (nat (num_ports cfg))) of
        None \<Rightarrow> Inr (None, h, tp, tqs)
      | Some index \<Rightarrow>
          bindE (tskq_dequeue h tp (tqs ! index)) (\<lambda>(r, h1, tp1, tq1).
          Inr (r, h1, tp1, tqs[index := tq1])))"

primrec naive_scan ::
  "heap \<Rightarrow> pool \<Rightarrow> task_queue list \<Rightarrow> nat list \<Rightarrow> (task option \<times> heap \<times> pool \<times> task_queue list) res" where
  "naive_scan h tp tqs [] = Inr (None, h, tp, tqs)"
| "naive_scan h tp tqs (i # is) =
     bindE (tskq_dequeue h tp (tqs ! i)) (\<lambda>(r, h1, tp1, tq1).
     if r \<noteq> None then Inr (r, h1, tp1, tqs[i := tq1])
     else naive_scan h1 tp1 (tqs[i := tq1]) is)"

definition naive_tskq_dequeue ::
  "cfg_parameters \<Rightarrow> heap \<Rightarrow> pool \<Rightarrow> task_queue list \<Rightarrow>
     (task option \<times> heap \<times> pool \<times> task_queue list) res" where
  "naive_tskq_dequeue cfg h tp tqs =
     (if nat (num_ports cfg) > length tqs then Inl Out_of_bounds
      else naive_scan h tp tqs [0..<nat (num_ports cfg)])"

section \<open>What the scan computes\<close>

text \<open>The score of a queue: that of its oldest task, if it has one.\<close>

definition head_score :: "cfg_parameters \<Rightarrow> heap \<Rightarrow> task_queue list \<Rightarrow> u64 \<Rightarrow> nat \<Rightarrow> fl option" where
  "head_score cfg h tqs cur_time i =
     map_option (queue_score cfg i cur_time) (get_queue_timestamp h (tqs ! i))"

definition scan_none :: "cfg_parameters \<Rightarrow> heap \<Rightarrow> task_queue list \<Rightarrow> u64 \<Rightarrow> nat \<Rightarrow> bool" where
  "scan_none cfg h tqs cur_time n \<longleftrightarrow>
     (\<forall>j<n. \<forall>c. head_score cfg h tqs cur_time j = Some c \<longrightarrow> \<not> fl_gt c (Fin 0))"

definition scan_best :: "cfg_parameters \<Rightarrow> heap \<Rightarrow> task_queue list \<Rightarrow> u64 \<Rightarrow> nat \<Rightarrow> nat \<Rightarrow> fl \<Rightarrow> bool" where
  "scan_best cfg h tqs cur_time n k mx \<longleftrightarrow>
     k < n \<and> head_score cfg h tqs cur_time k = Some mx \<and> fl_gt mx (Fin 0) \<and>
     (\<forall>j<n. \<forall>c. head_score cfg h tqs cur_time j = Some c \<longrightarrow> \<not> fl_gt c mx) \<and>
     (\<forall>j<k. \<forall>c. head_score cfg h tqs cur_time j = Some c \<longrightarrow> c \<noteq> NaN \<longrightarrow> fl_gt mx c)"

lemma smart_step_score:
  "smart_step cfg h tqs cur i (mx, index) =
     (case head_score cfg h tqs cur i of
        None \<Rightarrow> (mx, index)
      | Some c \<Rightarrow> if fl_gt c mx then (c, Some i) else (mx, index))"
  by (simp add: smart_step_def head_score_def Let_def split: option.splits)

lemma smart_scan_Suc:
  "smart_scan cfg h tqs cur (Suc n) = smart_step cfg h tqs cur n (smart_scan cfg h tqs cur n)"
  by (simp add: smart_scan_def)

lemma smart_scan_spec:
  "case smart_scan cfg h tqs cur n of
     (mx, None) \<Rightarrow> mx = Fin 0 \<and> scan_none cfg h tqs cur n
   | (mx, Some k) \<Rightarrow> scan_best cfg h tqs cur n k mx"
proof (induction n)
  case 0
  then show ?case by (simp add: smart_scan_def scan_none_def)
next
  case (Suc n)
  obtain mx index where sc: "smart_scan cfg h tqs cur n = (mx, index)" by force
  show ?case
  proof (cases "head_score cfg h tqs cur n")
    case None
    then show ?thesis
      using Suc sc by (auto simp: smart_scan_Suc smart_step_score scan_none_def scan_best_def
        less_Suc_eq split: option.splits)
  next
    case (Some c)
    show ?thesis
    proof (cases "fl_gt c mx")
      case True
      have old: "\<not> fl_gt d mx" if "j < n" "head_score cfg h tqs cur j = Some d" for j d
        using Suc sc that by (auto simp: scan_none_def scan_best_def split: option.splits)
      have "mx = Fin 0 \<or> fl_gt mx (Fin 0)"
        using Suc sc by (auto simp: scan_best_def split: option.splits)
      then have pos: "fl_gt c (Fin 0)"
        using True fl_gt_trans by blast
      have "\<not> fl_gt d c" if "j < Suc n" "head_score cfg h tqs cur j = Some d" for j d
      proof (cases "j = n")
        case False
        then have "j < n" using that(1) by simp
        then have "\<not> fl_gt d mx" using that(2) by (rule old)
        then show ?thesis using True fl_gt_trans by blast
      qed (use that Some in simp)
      moreover have "fl_gt c d" if "j < n" "head_score cfg h tqs cur j = Some d" "d \<noteq> NaN" for j d
        using fl_gt_not_gt_trans [OF True old] that by blast
      ultimately have "scan_best cfg h tqs cur (Suc n) n c"
        unfolding scan_best_def using Some pos by blast
      then show ?thesis
        using Some sc True by (simp add: smart_scan_Suc smart_step_score)
    next
      case False
      then show ?thesis
        using Some Suc sc by (auto simp: smart_scan_Suc smart_step_score scan_none_def scan_best_def
          less_Suc_eq split: option.splits)
    qed
  qed
qed

section \<open>An array of queues over one pool\<close>

text \<open>\<open>xs i\<close> are the cells of queue \<open>i\<close>; the queues share the pool, not their cells.\<close>

definition tskqs_ok ::
  "heap \<Rightarrow> pool \<Rightarrow> addr set \<Rightarrow> addr set \<Rightarrow> task_queue list \<Rightarrow> (nat \<Rightarrow> addr list) \<Rightarrow> bool" where
  "tskqs_ok h tp F L tqs xs \<longleftrightarrow>
     mempool_ok h tp F L \<and>
     (\<forall>i<length tqs. tskq_rep h (tqs ! i) (xs i) \<and> set (xs i) \<subseteq> L) \<and>
     (\<forall>i<length tqs. \<forall>j<length tqs. i \<noteq> j \<longrightarrow> set (xs i) \<inter> set (xs j) = {})"

lemma tskqs_ok_one: "tskqs_ok h tp F L tqs xs \<Longrightarrow> k < length tqs \<Longrightarrow> tskq_ok h tp F L (tqs ! k) (xs k)"
  by (simp add: tskqs_ok_def tskq_ok_def)

lemma tskqs_ok_update:
  assumes ok: "tskqs_ok h tp F L tqs xs" and k: "k < length tqs"
    and one: "tskq_ok h' tp' F' L' tq' ys"
    and others: "\<And>i. i < length tqs \<Longrightarrow> i \<noteq> k \<Longrightarrow> set (xs i) \<subseteq> L' \<and> set (xs i) \<inter> set ys = {} \<and>
        (\<forall>x\<in>set (xs i). h' x = h x)"
  shows "tskqs_ok h' tp' F' L' (tqs[k := tq']) (xs(k := ys))"
proof -
  have "tskq_rep h' (tqs ! i) (xs i)" if "i < length tqs" "i \<noteq> k" for i
    using ok others [OF that] that tskq_rep_cong [of "xs i" h' h] by (simp add: tskqs_ok_def)
  moreover have "set (xs i) \<inter> set (xs j) = {}"
    if "i < length tqs" "j < length tqs" "i \<noteq> j" for i j
    using ok that by (simp add: tskqs_ok_def)
  moreover have "set ys \<inter> set (xs i) = {}" if "i < length tqs" "i \<noteq> k" for i
    using others [OF that] by blast
  moreover have "set (xs i) \<subseteq> L'" if "i < length tqs" "i \<noteq> k" for i
    using others [OF that] by simp
  moreover have "mempool_ok h' tp' F' L'" "tskq_rep h' tq' ys" "set ys \<subseteq> L'"
    using one by (simp_all add: tskq_ok_def)
  ultimately show ?thesis
    using k by (simp add: tskqs_ok_def nth_list_update Int_commute)
qed

lemma tskqs_enqueue_tail:
  assumes ok: "tskqs_ok h tp F L tqs xs" and k: "k < length tqs" and ne: "F \<noteq> {}"
  shows "\<exists>n h' tp' tq'. tskq_enqueue_tail h tp (tqs ! k) t = Inr (h', tp', tq') \<and> n \<in> F \<and>
    tskqs_ok h' tp' (F - {n}) (insert n L) (tqs[k := tq']) (xs(k := xs k @ [n])) \<and>
    tskq_abs h' (xs k @ [n]) = tskq_abs h (xs k) @ [t] \<and>
    (\<forall>i<length tqs. i \<noteq> k \<longrightarrow> tskq_abs h' (xs i) = tskq_abs h (xs i)) \<and>
    (\<forall>y. y \<notin> insert n (set (xs k)) \<longrightarrow> h' y = h y)"
proof -
  obtain n h' tp' tq' where
    call: "tskq_enqueue_tail h tp (tqs ! k) t = Inr (h', tp', tq')" and n: "n \<in> F"
    and one: "tskq_ok h' tp' (F - {n}) (insert n L) tq' (xs k @ [n])"
    and abs: "tskq_abs h' (xs k @ [n]) = tskq_abs h (xs k) @ [t]"
    and fr: "\<forall>y. y \<notin> insert n (set (xs k)) \<longrightarrow> h' y = h y"
    using tskq_enqueue_tail_room [OF tskqs_ok_one [OF ok k] ne] by blast
  have nL: "n \<notin> L" using ok n mp.ok_sets [of h tp F L] by (auto simp: tskqs_ok_def)
  have oth: "set (xs i) \<subseteq> insert n L \<and> set (xs i) \<inter> set (xs k @ [n]) = {} \<and> (\<forall>x\<in>set (xs i). h' x = h x)"
    if i: "i < length tqs" "i \<noteq> k" for i
  proof -
    have "set (xs i) \<subseteq> L" "set (xs i) \<inter> set (xs k) = {}"
      using ok i k by (simp_all add: tskqs_ok_def)
    then show ?thesis using nL fr by auto
  qed
  have "tskqs_ok h' tp' (F - {n}) (insert n L) (tqs[k := tq']) (xs(k := xs k @ [n]))"
    by (rule tskqs_ok_update [OF ok k one]) (rule oth)
  moreover have "\<forall>i<length tqs. i \<noteq> k \<longrightarrow> tskq_abs h' (xs i) = tskq_abs h (xs i)"
    using oth by (metis tskq_abs_cong)
  ultimately show ?thesis
    using call n abs fr by (intro exI [of _ n] exI [of _ h'] exI [of _ tp'] exI [of _ tq'] conjI)
qed

lemma tskqs_dequeue:
  assumes ok: "tskqs_ok h tp F L tqs xs" and k: "k < length tqs" and x: "xs k = x # ys"
  shows "\<exists>h' tp' tq'. tskq_dequeue h tp (tqs ! k) = Inr (Some (task_load h x), h', tp', tq') \<and>
    tskqs_ok h' tp' (insert x F) (L - {x}) (tqs[k := tq']) (xs(k := ys)) \<and>
    tskq_abs h' ys = tskq_abs h ys \<and>
    (\<forall>i<length tqs. i \<noteq> k \<longrightarrow> tskq_abs h' (xs i) = tskq_abs h (xs i)) \<and>
    (\<forall>y. y \<notin> insert x F \<longrightarrow> h' y = h y)"
proof -
  have okk: "tskq_ok h tp F L (tqs ! k) (x # ys)"
    using tskqs_ok_one [OF ok k] x by simp
  obtain h' tp' tq' where
    call: "tskq_dequeue h tp (tqs ! k) = Inr (Some (task_load h x), h', tp', tq')"
    and one: "tskq_ok h' tp' (insert x F) (L - {x}) tq' ys"
    and abs: "tskq_abs h' ys = tskq_abs h ys" and fr: "\<forall>y. y \<notin> insert x F \<longrightarrow> h' y = h y"
    using tskq_dequeue_some [OF okk] by blast
  have FL: "F \<inter> L = {}" using ok mp.ok_sets [of h tp F L] by (simp add: tskqs_ok_def)
  have oth: "set (xs i) \<subseteq> L - {x} \<and> set (xs i) \<inter> set ys = {} \<and> (\<forall>y\<in>set (xs i). h' y = h y)"
    if i: "i < length tqs" "i \<noteq> k" for i
  proof -
    have "set (xs i) \<subseteq> L" "set (xs i) \<inter> set (x # ys) = {}"
      using ok i k unfolding x [symmetric] by (simp_all add: tskqs_ok_def)
    then show ?thesis using FL fr by auto
  qed
  have "tskqs_ok h' tp' (insert x F) (L - {x}) (tqs[k := tq']) (xs(k := ys))"
    by (rule tskqs_ok_update [OF ok k one]) (rule oth)
  moreover have "\<forall>i<length tqs. i \<noteq> k \<longrightarrow> tskq_abs h' (xs i) = tskq_abs h (xs i)"
    using oth by (metis tskq_abs_cong)
  ultimately show ?thesis
    using call abs fr by (intro exI [of _ h'] exI [of _ tp'] exI [of _ tq'] conjI)
qed

end
