(* ===== verification/Net_Input.thy ===== *)
theory Net_Input
  imports Byteorder Smart_Tskq
begin

text \<open>
  Reception: \<open>eth_input\<close> and \<open>ip_input\<close> of \<open>dp/net/ip.c\<close>, \<open>udp_input\<close> of \<open>dp/net/udp.c\<close>, and the
  unchecked second parse of the same bytes by a worker, \<open>parse_packet\<close> of \<open>dp/core/worker.c\<close>.
  Positions are offsets from the first data byte of the buffer.
\<close>

section \<open>Packet buffers\<close>

text \<open>\<open>struct mbuf\<close> of \<open>inc/ix/mbuf.h\<close> with the data that follows its header.\<close>

record mbuf =
  mb_len :: u64
  mb_next :: addr
  mb_iovs :: addr
  mb_nr_iov :: u32
  mb_fg_id :: u16
  mb_ol_flags :: u16
  mb_done :: addr
  mb_done_data :: u64
  mb_timestamp :: u64
  mb_networker_cy :: u64
  mb_data :: bytes

definition MBUF_HEADER_LEN :: nat where "MBUF_HEADER_LEN = 64"
definition MBUF_DATA_LEN :: nat where "MBUF_DATA_LEN = 2048"
definition MBUF_LEN :: nat where "MBUF_LEN = MBUF_HEADER_LEN + MBUF_DATA_LEN"

definition mbuf_enough_space :: "mbuf \<Rightarrow> nat \<Rightarrow> nat \<Rightarrow> bool" where
  "mbuf_enough_space m pos sz \<longleftrightarrow> (of_nat pos + of_nat sz :: u64) \<le> mb_len m"

text \<open>Sizes of the headers and offsets of their fields.\<close>

abbreviation ETH_HDR_LEN :: nat where "ETH_HDR_LEN \<equiv> 14"
abbreviation IP_HDR_LEN :: nat where "IP_HDR_LEN \<equiv> 20"
abbreviation UDP_HDR_LEN :: nat where "UDP_HDR_LEN \<equiv> 8"

definition ETHTYPE_IP :: u16 where "ETHTYPE_IP = 0x0800"
definition IP_MF :: u16 where "IP_MF = 0x2000"
definition IP_OFFMASK :: u16 where "IP_OFFMASK = 0x1fff"
definition IPPROTO_UDP :: u8 where "IPPROTO_UDP = 17"
definition IPPROTO_TCP :: u8 where "IPPROTO_TCP = 6"
definition IPPROTO_ICMP :: u8 where "IPPROTO_ICMP = 1"

text \<open>Fields of \<open>struct ip_hdr\<close> at position \<open>p\<close>: the first byte holds the header length and the version.\<close>

definition ip_header_len :: "bytes \<Rightarrow> nat \<Rightarrow> nat" where "ip_header_len d p = unat (d p AND 0x0f)"
definition ip_version :: "bytes \<Rightarrow> nat \<Rightarrow> nat" where "ip_version d p = unat (drop_bit 4 (d p))"
definition ip_len :: "bytes \<Rightarrow> nat \<Rightarrow> u16" where "ip_len d p = ld16 d (p + 2)"
definition ip_off :: "bytes \<Rightarrow> nat \<Rightarrow> u16" where "ip_off d p = ld16 d (p + 6)"
definition ip_proto :: "bytes \<Rightarrow> nat \<Rightarrow> u8" where "ip_proto d p = d (p + 9)"
definition ip_src :: "bytes \<Rightarrow> nat \<Rightarrow> u32" where "ip_src d p = ld32 d (p + 12)"
definition ip_dst :: "bytes \<Rightarrow> nat \<Rightarrow> u32" where "ip_dst d p = ld32 d (p + 16)"

text \<open>Fields of \<open>struct udp_hdr\<close> at position \<open>p\<close>.\<close>

definition udp_src_port :: "bytes \<Rightarrow> nat \<Rightarrow> u16" where "udp_src_port d p = ld16 d p"
definition udp_dst_port :: "bytes \<Rightarrow> nat \<Rightarrow> u16" where "udp_dst_port d p = ld16 d (p + 2)"
definition udp_len :: "bytes \<Rightarrow> nat \<Rightarrow> u16" where "udp_len d p = ld16 d (p + 4)"

lemmas header_field_defs = ip_header_len_def ip_version_def ip_len_def ip_off_def ip_proto_def ip_src_def
  ip_dst_def udp_src_port_def udp_dst_port_def udp_len_def

section \<open>Reception\<close>

text \<open>
  What a handler returns, and how often it called \<open>mbuf_free\<close> on the packet.
\<close>

record rx_result =
  rx_ret :: int
  rx_frees :: nat

definition drop_packet :: "rx_result res" where
  "drop_packet = Inr \<lparr>rx_ret = -1, rx_frees = 1\<rparr>"

primrec find_port :: "u16 list \<Rightarrow> u16 \<Rightarrow> nat list \<Rightarrow> nat option" where
  "find_port ports dst_port [] = None"
| "find_port ports dst_port (i # is) = (if dst_port = ports ! i then Some i else find_port ports dst_port is)"

definition udp_input :: "cfg_parameters \<Rightarrow> mbuf \<Rightarrow> nat \<Rightarrow> rx_result res" where
  "udp_input cfg pkt udphdr =
     (let len = unat (ntoh16 (udp_len (mb_data pkt) udphdr))
      in if \<not> mbuf_enough_space pkt udphdr len then Inr \<lparr>rx_ret = -1, rx_frees = 1\<rparr>
      else if nat (num_ports cfg) > length (cfg_ports cfg) then Inl Out_of_bounds
      else let dst_port = ntoh16 (udp_dst_port (mb_data pkt) udphdr)
      in case find_port (cfg_ports cfg) dst_port [0..<nat (num_ports cfg)] of
           Some i \<Rightarrow> Inr \<lparr>rx_ret = int i, rx_frees = 0\<rparr>
         | None \<Rightarrow> if dst_port = 6666 then Inl Exit_called else Inr \<lparr>rx_ret = -1, rx_frees = 0\<rparr>)"

text \<open>The label \<open>out\<close> of \<open>ip_input\<close> frees the packet once more, whatever was done before.\<close>

definition ip_input :: "cfg_parameters \<Rightarrow> mbuf \<Rightarrow> nat \<Rightarrow> rx_result res" where
  "ip_input cfg pkt hdr =
     (let d = mb_data pkt
      in if \<not> mbuf_enough_space pkt hdr IP_HDR_LEN then drop_packet
      else if ip_version d hdr \<noteq> 4 then drop_packet
      else if ip_header_len d hdr < 5 then drop_packet
      else if ntoh16 (ip_off d hdr) AND (IP_OFFMASK OR IP_MF) \<noteq> 0 then drop_packet
      else
        let hdrlen = ip_header_len d hdr * 4;
            pktlen = unat (ntoh16 (ip_len d hdr))
        in if pktlen < hdrlen then drop_packet
        else if \<not> mbuf_enough_space pkt hdr pktlen then drop_packet
        else if ip_proto d hdr = IPPROTO_TCP then drop_packet
        else if ip_proto d hdr = IPPROTO_UDP then
          bindE (udp_input cfg pkt (hdr + hdrlen)) (\<lambda>r.
          if rx_ret r < 0 then Inr \<lparr>rx_ret = -1, rx_frees = rx_frees r + 1\<rparr> else Inr r)
        else drop_packet)"

definition eth_input :: "cfg_parameters \<Rightarrow> mbuf \<Rightarrow> rx_result res" where
  "eth_input cfg pkt =
     (if ld16 (mb_data pkt) 12 = hton16 ETHTYPE_IP then ip_input cfg pkt ETH_HDR_LEN else drop_packet)"

section \<open>The parse of the worker\<close>

record ip_tuple =
  src_ip :: u32
  dst_ip :: u32
  src_port :: u16
  dst_port :: u16

definition store_ip_tuple :: "bytes \<Rightarrow> ip_tuple \<Rightarrow> bytes" where
  "store_ip_tuple d t = st16 (st16 (st32 (st32 d 0 (src_ip t)) 4 (dst_ip t)) 8 (src_port t)) 10 (dst_port t)"

definition load_ip_tuple :: "bytes \<Rightarrow> ip_tuple" where
  "load_ip_tuple d = \<lparr>src_ip = ld32 d 0, dst_ip = ld32 d 4, src_port = ld16 d 8, dst_port = ld16 d 10\<rparr>"

text \<open>
  \<open>None\<close> when the buffer is too short (\<open>*data_ptr\<close> is \<open>NULL\<close>); otherwise the position of the
  payload, the receive time stamp, and the buffer in which the four addresses now occupy the
  first bytes of the Ethernet header.  The stores are made one at a time, in the order of the
  source, while the headers are still being read.
\<close>

definition parse_packet :: "mbuf \<Rightarrow> (nat \<times> u64) option \<times> mbuf" where
  "parse_packet pkt =
     (let d = mb_data pkt;
          iphdr = ETH_HDR_LEN;
          hdrlen = ip_header_len d iphdr * 4;
          udphdr = iphdr + hdrlen;
          data = udphdr + UDP_HDR_LEN;
          len = unat (ntoh16 (udp_len d udphdr))
      in if \<not> mbuf_enough_space pkt udphdr len then (None, pkt)
      else
        let d1 = st32 d 0 (ntoh32 (ip_src d iphdr));
            d2 = st32 d1 4 (ntoh32 (ip_dst d1 iphdr));
            d3 = st16 d2 8 (ntoh16 (udp_src_port d2 udphdr));
            d4 = st16 d3 10 (ntoh16 (udp_dst_port d3 udphdr))
        in (Some (data, mb_timestamp pkt), pkt\<lparr>mb_data := d4, mb_done := 0xDEADBEEF\<rparr>))"

section \<open>What reception guarantees\<close>

lemma find_port_find: "find_port ports p is = find (\<lambda>i. p = ports ! i) is"
  by (induction "is") auto

lemma find_port_Some:
  "find_port ports p [0..<n] = Some i \<longleftrightarrow> i < n \<and> ports ! i = p \<and> (\<forall>j<i. ports ! j \<noteq> p)"
proof -
  have "(\<exists>k<n. p = ports ! ([0..<n] ! k) \<and> i = [0..<n] ! k \<and> (\<forall>j<k. p \<noteq> ports ! ([0..<n] ! j))) \<longleftrightarrow>
      (\<exists>k<n. p = ports ! k \<and> i = k \<and> (\<forall>j<k. p \<noteq> ports ! j))"
    by (intro ex_cong1 conj_cong refl all_cong) auto
  then show ?thesis
    by (auto simp: find_port_find find_Some_iff)
qed

lemma find_port_None: "find_port ports p [0..<n] = None \<longleftrightarrow> (\<forall>j<n. ports ! j \<noteq> p)"
  by (auto simp: find_port_find find_None_iff)

text \<open>A well-formed UDP datagram in an Ethernet frame, as the checks of \<open>ip_input\<close> put it.\<close>

definition ip_checks :: "mbuf \<Rightarrow> bool" where
  "ip_checks pkt \<longleftrightarrow> (let d = mb_data pkt; hdr = ETH_HDR_LEN in
     ld16 d 12 = hton16 ETHTYPE_IP \<and> mbuf_enough_space pkt hdr IP_HDR_LEN \<and> ip_version d hdr = 4 \<and>
     5 \<le> ip_header_len d hdr \<and> ntoh16 (ip_off d hdr) AND (IP_OFFMASK OR IP_MF) = 0 \<and>
     ip_header_len d hdr * 4 \<le> unat (ntoh16 (ip_len d hdr)) \<and>
     mbuf_enough_space pkt hdr (unat (ntoh16 (ip_len d hdr))) \<and> ip_proto d hdr = IPPROTO_UDP)"

definition udp_pos :: "mbuf \<Rightarrow> nat" where
  "udp_pos pkt = ETH_HDR_LEN + ip_header_len (mb_data pkt) ETH_HDR_LEN * 4"

definition udp_fits :: "mbuf \<Rightarrow> bool" where
  "udp_fits pkt \<longleftrightarrow> mbuf_enough_space pkt (udp_pos pkt) (unat (ntoh16 (udp_len (mb_data pkt) (udp_pos pkt))))"

lemma eth_input_cases:
  "eth_input cfg pkt =
     (if ip_checks pkt
      then bindE (udp_input cfg pkt (udp_pos pkt)) (\<lambda>r.
             if rx_ret r < 0 then Inr \<lparr>rx_ret = -1, rx_frees = rx_frees r + 1\<rparr> else Inr r)
      else drop_packet)"
  by (auto simp: eth_input_def ip_input_def ip_checks_def udp_pos_def Let_def IPPROTO_UDP_def IPPROTO_TCP_def)

lemma eth_input_accepts:
  assumes n: "nat (num_ports cfg) \<le> length (cfg_ports cfg)"
  shows "(\<exists>r. eth_input cfg pkt = Inr r \<and> rx_ret r = int i) \<longleftrightarrow>
    ip_checks pkt \<and> udp_fits pkt \<and> i < nat (num_ports cfg) \<and>
    cfg_ports cfg ! i = ntoh16 (udp_dst_port (mb_data pkt) (udp_pos pkt)) \<and>
    (\<forall>j<i. cfg_ports cfg ! j \<noteq> ntoh16 (udp_dst_port (mb_data pkt) (udp_pos pkt)))"
proof -
  let ?p = "ntoh16 (udp_dst_port (mb_data pkt) (udp_pos pkt))"
  have "(\<exists>r. eth_input cfg pkt = Inr r \<and> rx_ret r = int i) \<longleftrightarrow>
      ip_checks pkt \<and> udp_fits pkt \<and> find_port (cfg_ports cfg) ?p [0..<nat (num_ports cfg)] = Some i"
    using n by (auto simp: eth_input_cases drop_packet_def udp_input_def udp_fits_def Let_def split: option.splits)
  then show ?thesis by (simp add: find_port_Some)
qed

lemma eth_input_frees:
  assumes "eth_input cfg pkt = Inr r"
  shows "rx_frees r = (if 0 \<le> rx_ret r then 0 else if ip_checks pkt \<and> \<not> udp_fits pkt then 2 else 1)"
  using assms by (auto simp: eth_input_cases drop_packet_def udp_input_def udp_fits_def Let_def
      split: option.splits if_splits)

text \<open>The position of the payload, and the bytes the worker may overwrite before it reads them.\<close>

lemma ip_header_len_bound: "ip_header_len d p \<le> 15"
proof -
  have "d p AND 0x0f = take_bit 4 (d p)"
    by (simp add: take_bit_eq_mask mask_eq_exp_minus_1 and.commute)
  then have "unat (d p AND 0x0f) < 2 ^ 4"
    by (metis (no_types, opaque_lifting) take_bit_nat_less_exp unsigned_take_bit_eq)
  then show ?thesis by (simp add: ip_header_len_def)
qed

lemma store_ip_tuple_other: "12 \<le> x \<Longrightarrow> store_ip_tuple d t x = d x"
  by (simp add: store_ip_tuple_def st16_other st32_other)

lemma ld16_store_other: "12 \<le> p \<Longrightarrow> ld16 (st32 d 0 v) p = ld16 d p" "12 \<le> p \<Longrightarrow> ld16 (st32 d 4 v) p = ld16 d p"
    "12 \<le> p \<Longrightarrow> ld16 (st16 d 8 w) p = ld16 d p"
  by (rule ld16_cong; simp add: st16_other st32_other)+

lemma ld32_store_other: "12 \<le> p \<Longrightarrow> ld32 (st32 d 0 v) p = ld32 d p"
  by (rule ld32_cong) (simp add: st32_other)

lemma parse_packet_fits:
  assumes "udp_fits pkt"
  defines "d \<equiv> mb_data pkt"
  shows "parse_packet pkt = (Some (udp_pos pkt + UDP_HDR_LEN, mb_timestamp pkt),
    pkt\<lparr>mb_data := store_ip_tuple d
       \<lparr>src_ip = ntoh32 (ip_src d ETH_HDR_LEN), dst_ip = ntoh32 (ip_dst d ETH_HDR_LEN),
        src_port = ntoh16 (udp_src_port d (udp_pos pkt)), dst_port = ntoh16 (udp_dst_port d (udp_pos pkt))\<rparr>,
     mb_done := 0xDEADBEEF\<rparr>)"
  using assms by (simp add: parse_packet_def udp_fits_def udp_pos_def Let_def store_ip_tuple_def
      ip_src_def ip_dst_def udp_src_port_def udp_dst_port_def ld32_store_other ld16_store_other)

lemma parse_packet_short: "\<not> udp_fits pkt \<Longrightarrow> parse_packet pkt = (None, pkt)"
  by (simp add: parse_packet_def udp_fits_def udp_pos_def Let_def)

lemma load_store_ip_tuple: "load_ip_tuple (store_ip_tuple d t) = t"
proof -
  have "ld32 (store_ip_tuple d t) 0 = ld32 (st32 d 0 (src_ip t)) 0"
    by (rule ld32_cong) (simp add: store_ip_tuple_def st16_other st32_other)
  moreover have "ld32 (store_ip_tuple d t) 4 = ld32 (st32 (st32 d 0 (src_ip t)) 4 (dst_ip t)) 4"
    by (rule ld32_cong) (simp add: store_ip_tuple_def st16_other)
  moreover have "ld16 (store_ip_tuple d t) 8 = ld16 (st16 (st32 (st32 d 0 (src_ip t)) 4 (dst_ip t)) 8 (src_port t)) 8"
    by (rule ld16_cong) (simp_all add: store_ip_tuple_def st16_other)
  moreover have "ld16 (store_ip_tuple d t) 10 = dst_port t"
    by (simp add: store_ip_tuple_def)
  ultimately show ?thesis by (simp add: load_ip_tuple_def)
qed

end
