(* ===== verification/Ethqueue.thy ===== *)
theory Ethqueue
  imports Net_Input Fifo_Interface
begin

text \<open>
  Receive and transmit queues (\<open>inc/ix/ethqueue.h\<close>, \<open>dp/core/ethqueue.c\<close>).  The packet buffers
  live in a store from addresses to buffers; a receive queue is a list linked through
  \<open>mbuf.next\<close>.  The device driver's \<open>poll\<close>, \<open>xmit\<close> and \<open>reclaim\<close> are called through function
  pointers and are parameters here.
\<close>

section \<open>Receive queues\<close>

definition ETH_RX_MAX_DEPTH :: int where "ETH_RX_MAX_DEPTH = 32768"
definition ETH_RX_MAX_BATCH :: nat where "ETH_RX_MAX_BATCH = 6"

definition EBUSY :: int where "EBUSY = 16"
definition EAGAIN :: int where "EAGAIN = 35"

type_synonym mstore = "addr \<Rightarrow> mbuf"

record eth_rx_queue =
  rq_head :: addr
  rq_tail :: addr
  rq_len :: int

definition set_mb_next :: "mstore \<Rightarrow> addr \<Rightarrow> addr \<Rightarrow> mstore" where
  "set_mb_next ms p v = ms(p := (ms p)\<lparr>mb_next := v\<rparr>)"

definition eth_recv :: "eth_rx_queue \<Rightarrow> mstore \<Rightarrow> addr \<Rightarrow> (int \<times> eth_rx_queue \<times> mstore) res" where
  "eth_recv rxq ms mbuf =
     (if rq_len rxq \<ge> ETH_RX_MAX_DEPTH then Inr (- EBUSY, rxq, ms)
      else
        let ms1 = set_mb_next ms mbuf NULL
        in if rq_head rxq = NULL
           then Inr (0, rxq\<lparr>rq_head := mbuf, rq_tail := mbuf, rq_len := rq_len rxq + 1\<rparr>, ms1)
           else bindE (derefE (rq_tail rxq)) (\<lambda>_.
                Inr (0, rxq\<lparr>rq_tail := mbuf, rq_len := rq_len rxq + 1\<rparr>, set_mb_next ms1 (rq_tail rxq) mbuf)))"

text \<open>The part of \<open>eth_process_recv_queue\<close> that unlinks the first packet.\<close>

definition rx_pop :: "eth_rx_queue \<Rightarrow> mstore \<Rightarrow> addr option \<times> eth_rx_queue" where
  "rx_pop rxq ms =
     (if rq_head rxq = NULL then (None, rxq)
      else (Some (rq_head rxq), rxq\<lparr>rq_head := mb_next (ms (rq_head rxq)), rq_len := rq_len rxq - 1\<rparr>))"

text \<open>
  State of the receive side: the queues, the buffers, the batch arrays, and the log of the
  buffers passed to \<open>mbuf_free\<close>, latest first.
\<close>

record rx_state =
  eth_rxqs :: "eth_rx_queue list"
  rx_store :: mstore
  recv_mbufs :: "addr list"
  recv_type :: "int list"
  rx_freed :: "addr list"

definition eth_process_recv_queue ::
  "cfg_parameters \<Rightarrow> nat \<Rightarrow> rx_state \<Rightarrow> (int \<times> addr \<times> rx_state) res" where
  "eth_process_recv_queue cfg i s =
     (case rx_pop (eth_rxqs s ! i) (rx_store s) of
        (None, _) \<Rightarrow> Inr (- EAGAIN, NULL, s)
      | (Some pos, rxq) \<Rightarrow>
          bindE (eth_input cfg (rx_store s pos)) (\<lambda>r.
          Inr (rx_ret r, pos, s\<lparr>eth_rxqs := (eth_rxqs s)[i := rxq],
                                rx_freed := replicate (rx_frees r) pos @ rx_freed s\<rparr>)))"

text \<open>One pass over the queues: the \<open>for\<close> loop inside \<open>eth_process_recv\<close>.\<close>

primrec recv_pass ::
  "cfg_parameters \<Rightarrow> nat list \<Rightarrow> nat \<Rightarrow> bool \<Rightarrow> rx_state \<Rightarrow> (nat \<times> bool \<times> rx_state) res" where
  "recv_pass cfg [] cnt emp s = Inr (cnt, emp, s)"
| "recv_pass cfg (i # is) cnt emp s =
     (if i \<ge> length (eth_rxqs s) then Inl Out_of_bounds
      else bindE (eth_process_recv_queue cfg i s) (\<lambda>(type, pos, s1).
        if type \<ge> 0 then
          (if cnt < length (recv_mbufs s1) then
             recv_pass cfg is (cnt + 1) False
               (s1\<lparr>recv_mbufs := (recv_mbufs s1)[cnt := pos], recv_type := (recv_type s1)[cnt := type]\<rparr>)
           else Inl Out_of_bounds)
        else recv_pass cfg is cnt emp s1))"

lemma bindE_cong [fundef_cong]:
  "r = r' \<Longrightarrow> (\<And>x. r' = Inr x \<Longrightarrow> f x = g x) \<Longrightarrow> bindE r f = bindE r' g"
  by (cases r') auto

lemma recv_pass_progress:
  "recv_pass cfg is cnt emp s = Inr (cnt', emp', s') \<Longrightarrow>
     cnt \<le> cnt' \<and> (\<not> emp' \<longrightarrow> \<not> emp \<or> cnt < cnt')"
proof (induction "is" arbitrary: cnt emp s)
  case (Cons i "is")
  then show ?case
    by (fastforce simp: bindE_eq_Inr split: if_splits dest: Cons.IH)
qed simp

text \<open>
  The \<open>do ... while\<close> loop.  It ends because a pass that is not empty has delivered a packet.
\<close>

function recv_loop :: "cfg_parameters \<Rightarrow> nat \<Rightarrow> nat \<Rightarrow> rx_state \<Rightarrow> (nat \<times> rx_state) res" where
  "recv_loop cfg nq cnt s =
     bindE (recv_pass cfg [0..<nq] cnt True s) (\<lambda>r.
     if \<not> fst (snd r) \<and> fst r < ETH_RX_MAX_BATCH
     then recv_loop cfg nq (fst r) (snd (snd r)) else Inr (fst r, snd (snd r)))"
  by pat_completeness auto
termination
proof (relation "measure (\<lambda>(cfg, nq, cnt, s). ETH_RX_MAX_BATCH - cnt)")
  fix cfg nq cnt s r
  assume r: "recv_pass cfg [0..<nq] cnt True s = Inr r" and go: "\<not> fst (snd r) \<and> fst r < ETH_RX_MAX_BATCH"
  have "recv_pass cfg [0..<nq] cnt True s = Inr (fst r, fst (snd r), snd (snd r))" using r by simp
  from recv_pass_progress [OF this] go
  show "((cfg, nq, fst r, snd (snd r)), cfg, nq, cnt, s) \<in> measure (\<lambda>(cfg, nq, cnt, s). ETH_RX_MAX_BATCH - cnt)"
    by auto
qed simp

declare recv_loop.simps [simp del]

definition eth_process_recv :: "cfg_parameters \<Rightarrow> nat \<Rightarrow> rx_state \<Rightarrow> (nat \<times> rx_state) res" where
  "eth_process_recv cfg nq s = recv_loop cfg nq 0 s"

text \<open>\<open>eth_process_poll\<close>: every queue is polled once; \<open>poll\<close> is the driver's.\<close>

primrec eth_process_poll ::
  "(nat \<Rightarrow> rx_state \<Rightarrow> int \<times> rx_state) \<Rightarrow> nat list \<Rightarrow> int \<Rightarrow> rx_state \<Rightarrow> int \<times> rx_state" where
  "eth_process_poll poll [] cnt s = (cnt, s)"
| "eth_process_poll poll (i # is) cnt s =
     (case poll i s of (n, s1) \<Rightarrow> eth_process_poll poll is (cnt + n) s1)"

section \<open>Transmit queues\<close>

record eth_tx_queue =
  tx_cap :: int
  tx_len :: nat
  tx_bufs :: "addr list"

definition eth_send :: "eth_tx_queue \<Rightarrow> mstore \<Rightarrow> addr \<Rightarrow> (int \<times> eth_tx_queue) res" where
  "eth_send txq ms mbuf =
     (let nr = sint (1 + mb_nr_iov (ms mbuf))
      in if nr > tx_cap txq then Inr (- EBUSY, txq)
      else if tx_len txq \<ge> length (tx_bufs txq) then Inl Out_of_bounds
      else Inr (0, txq\<lparr>tx_bufs := (tx_bufs txq)[tx_len txq := mbuf], tx_len := tx_len txq + 1,
                       tx_cap := tx_cap txq - nr\<rparr>))"

definition eth_send_one ::
  "eth_tx_queue \<Rightarrow> mstore \<Rightarrow> addr \<Rightarrow> u64 \<Rightarrow> (int \<times> eth_tx_queue \<times> mstore) res" where
  "eth_send_one txq ms mbuf len =
     (let ms1 = ms(mbuf := (ms mbuf)\<lparr>mb_len := len, mb_nr_iov := 0\<rparr>)
      in bindE (eth_send txq ms1 mbuf) (\<lambda>(ret, txq1). Inr (ret, txq1, ms1)))"

text \<open>
  \<open>xmit\<close> and \<open>reclaim\<close> are the driver's: the number of buffers it accepted, and the number of free
  descriptors.
\<close>

primrec eth_process_send ::
  "(eth_tx_queue \<Rightarrow> addr list \<Rightarrow> int) \<Rightarrow> nat list \<Rightarrow> eth_tx_queue list \<Rightarrow> eth_tx_queue list res" where
  "eth_process_send xmit [] txqs = Inr txqs"
| "eth_process_send xmit (i # is) txqs =
     (if i \<ge> length txqs then Inl Out_of_bounds
      else let txq = txqs ! i
      in if xmit txq (take (tx_len txq) (tx_bufs txq)) \<noteq> int (tx_len txq) then Inl Panic
      else eth_process_send xmit is (txqs[i := txq\<lparr>tx_len := 0\<rparr>]))"

primrec eth_process_reclaim ::
  "(eth_tx_queue \<Rightarrow> int) \<Rightarrow> nat list \<Rightarrow> eth_tx_queue list \<Rightarrow> eth_tx_queue list res" where
  "eth_process_reclaim reclaim [] txqs = Inr txqs"
| "eth_process_reclaim reclaim (i # is) txqs =
     (if i \<ge> length txqs then Inl Out_of_bounds
      else eth_process_reclaim reclaim is (txqs[i := (txqs ! i)\<lparr>tx_cap := reclaim (txqs ! i)\<rparr>]))"

section \<open>A receive queue is a FIFO queue\<close>

text \<open>The link fields of the buffers, as a memory with one field per object.\<close>

definition mlinks :: "mstore \<Rightarrow> heap" where
  "mlinks ms = (\<lambda>p _. mb_next (ms p))"

definition rxq_rep :: "eth_rx_queue \<Rightarrow> mstore \<Rightarrow> addr list \<Rightarrow> bool" where
  "rxq_rep rxq ms q \<longleftrightarrow>
     chain (mlinks ms) 0 (rq_head rxq) q \<and> distinct q \<and> (q \<noteq> [] \<longrightarrow> rq_tail rxq = last q) \<and> rq_len rxq = int (length q)"

lemma rxq_rep_unique: "rxq_rep rxq ms q \<Longrightarrow> rxq_rep rxq ms q' \<Longrightarrow> q = q'"
  using chain_unique by (auto simp: rxq_rep_def)

lemma eth_recv_room:
  assumes rep: "rxq_rep rxq ms q" and m: "m \<notin> set q" "m \<noteq> NULL" and room: "rq_len rxq < ETH_RX_MAX_DEPTH"
  shows "\<exists>rxq' ms'. eth_recv rxq ms m = Inr (0, rxq', ms') \<and> rxq_rep rxq' ms' (q @ [m]) \<and>
    (\<forall>p. (ms' p)\<lparr>mb_next := NULL\<rparr> = (ms p)\<lparr>mb_next := NULL\<rparr>) \<and> (\<forall>p. p \<notin> insert m (set q) \<longrightarrow> ms' p = ms p)"
proof (cases q rule: rev_cases)
  case Nil
  then have "rq_head rxq = NULL" using rep by (simp add: rxq_rep_def)
  then show ?thesis
    using Nil rep m room by (auto simp: eth_recv_def rxq_rep_def set_mb_next_def mlinks_def)
next
  case (snoc q0 l)
  then have l: "rq_tail rxq = l" "l \<noteq> m" "l \<notin> set q0" and h: "rq_head rxq \<noteq> NULL" "l \<noteq> NULL"
    using rep m chain_not_NULL [of "mlinks ms" 0 "rq_head rxq" q] by (auto simp: rxq_rep_def)
  define ms' where "ms' = set_mb_next (set_mb_next ms m NULL) l m"
  define rxq' where "rxq' = rxq\<lparr>rq_tail := m, rq_len := rq_len rxq + 1\<rparr>"
  have call: "eth_recv rxq ms m = Inr (0, rxq', ms')"
    using l h room by (simp add: eth_recv_def ms'_def rxq'_def Let_def)
  have "chain (mlinks ms') 0 (rq_head rxq) (q0 @ [l, m])"
    by (rule chain_snoc_write [of "mlinks ms"])
      (use snoc rep m l in \<open>auto simp: rxq_rep_def ms'_def mlinks_def set_mb_next_def\<close>)
  then have "rxq_rep rxq' ms' (q @ [m])"
    using rep m snoc by (auto simp: rxq_rep_def rxq'_def)
  then show ?thesis
    using call snoc by (auto simp: ms'_def set_mb_next_def)
qed

lemma eth_recv_full:
  "ETH_RX_MAX_DEPTH \<le> rq_len rxq \<Longrightarrow> eth_recv rxq ms m = Inr (- EBUSY, rxq, ms)"
  by (simp add: eth_recv_def)

lemma rx_pop_empty: "rxq_rep rxq ms [] \<Longrightarrow> rx_pop rxq ms = (None, rxq)"
  by (simp add: rxq_rep_def rx_pop_def)

lemma rx_pop_some:
  assumes "rxq_rep rxq ms (p # q)"
  shows "\<exists>rxq'. rx_pop rxq ms = (Some p, rxq') \<and> rxq_rep rxq' ms q"
  using assms by (auto simp: rxq_rep_def rx_pop_def mlinks_def)

definition rxq_holds :: "eth_rx_queue \<times> mstore \<Rightarrow> addr list \<Rightarrow> bool" where
  "rxq_holds s q \<longleftrightarrow> rxq_rep (fst s) (snd s) q"

definition rxq_enq :: "addr \<Rightarrow> eth_rx_queue \<times> mstore \<Rightarrow> (eth_rx_queue \<times> mstore) res" where
  "rxq_enq m s = bindE (eth_recv (fst s) (snd s) m) (\<lambda>(ret, rxq, ms). Inr (rxq, ms))"

definition rxq_deq :: "eth_rx_queue \<times> mstore \<Rightarrow> (addr option \<times> eth_rx_queue \<times> mstore) res" where
  "rxq_deq s = (case rx_pop (fst s) (snd s) of (r, rxq) \<Rightarrow> Inr (r, rxq, snd s))"

definition rxq_full :: "eth_rx_queue \<times> mstore \<Rightarrow> bool" where
  "rxq_full s \<longleftrightarrow> ETH_RX_MAX_DEPTH \<le> rq_len (fst s)"

text \<open>Buffers may be offered that are not in the queue already.\<close>

definition rxq_adm :: "addr list \<Rightarrow> eth_rx_queue \<times> mstore \<Rightarrow> bool" where
  "rxq_adm xs s \<longleftrightarrow> distinct xs \<and> NULL \<notin> set xs \<and> (\<forall>q. rxq_holds s q \<longrightarrow> set xs \<inter> set q = {})"

interpretation rq: fifo rxq_holds rxq_enq rxq_deq rxq_full rxq_adm
proof unfold_locales
  fix s q x xs
  assume s: "rxq_holds s q" and a: "rxq_adm (x # xs) s" and r: "\<not> rxq_full s"
  have x: "x \<notin> set q" "x \<noteq> NULL" using s a by (auto simp: rxq_adm_def)
  obtain rxq' ms' where call: "eth_recv (fst s) (snd s) x = Inr (0, rxq', ms')" and rep: "rxq_rep rxq' ms' (q @ [x])"
    using eth_recv_room [of "fst s" "snd s" q x] s x r by (auto simp: rxq_holds_def rxq_full_def)
  have "set xs \<inter> set q' = {}" if "rxq_rep rxq' ms' q'" for q'
  proof -
    have "set (x # xs) \<inter> set q = {}" "x \<notin> set xs" using a s unfolding rxq_adm_def by auto
    then show ?thesis using rxq_rep_unique [OF rep that] by auto
  qed
  then have "rxq_adm xs (rxq', ms')" using a by (simp add: rxq_adm_def rxq_holds_def)
  then show "\<exists>s'. rxq_enq x s = Inr s' \<and> rxq_holds s' (q @ [x]) \<and> rxq_adm xs s'"
    using call rep by (simp add: rxq_enq_def rxq_holds_def)
next
  fix s q x xs
  assume "rxq_holds s q" "rxq_adm (x # xs) s" "rxq_full s"
  then show "\<exists>s'. rxq_enq x s = Inr s' \<and> rxq_holds s' q \<and> rxq_adm xs s'"
    by (auto simp: rxq_enq_def rxq_full_def eth_recv_full rxq_adm_def)
next
  fix s
  assume "rxq_holds s []"
  then show "rxq_deq s = Inr (None, s)" by (simp add: rxq_deq_def rxq_holds_def rx_pop_empty)
next
  fix s x q
  assume "rxq_holds s (x # q)"
  then show "\<exists>s'. rxq_deq s = Inr (Some x, s') \<and> rxq_holds s' q"
    using rx_pop_some [of "fst s" "snd s" x q] by (auto simp: rxq_deq_def rxq_holds_def)
qed

section \<open>Reception from one queue\<close>

text \<open>The packets \<open>eth_input\<close> accepts, and the type it gives them.\<close>

definition accepts :: "cfg_parameters \<Rightarrow> mstore \<Rightarrow> addr \<Rightarrow> bool" where
  "accepts cfg ms p = (case eth_input cfg (ms p) of Inl _ \<Rightarrow> False | Inr r \<Rightarrow> 0 \<le> rx_ret r)"

definition type_of :: "cfg_parameters \<Rightarrow> mstore \<Rightarrow> addr \<Rightarrow> int" where
  "type_of cfg ms p = (case eth_input cfg (ms p) of Inl _ \<Rightarrow> -1 | Inr r \<Rightarrow> rx_ret r)"

definition frees_of :: "cfg_parameters \<Rightarrow> mstore \<Rightarrow> addr \<Rightarrow> nat" where
  "frees_of cfg ms p = (case eth_input cfg (ms p) of Inl _ \<Rightarrow> 0 | Inr r \<Rightarrow> rx_frees r)"

lemma recv_queue_accept:
  assumes "eth_rxqs s = [rxq]" and "rxq_rep rxq (rx_store s) (p # q)" and "accepts cfg (rx_store s) p"
  shows "\<exists>rxq'. eth_process_recv_queue cfg 0 s = Inr (type_of cfg (rx_store s) p, p, s\<lparr>eth_rxqs := [rxq']\<rparr>) \<and>
    rxq_rep rxq' (rx_store s) q \<and> 0 \<le> type_of cfg (rx_store s) p"
  using assms rx_pop_some [OF assms(2)] eth_input_frees [of cfg "rx_store s p"]
  by (auto simp: eth_process_recv_queue_def accepts_def type_of_def split: sum.splits)

lemma recv_queue_reject:
  assumes "eth_rxqs s = [rxq]" and "rxq_rep rxq (rx_store s) (p # q)" and "\<exists>r. eth_input cfg (rx_store s p) = Inr r"
    and "\<not> accepts cfg (rx_store s) p"
  shows "\<exists>rxq' t. eth_process_recv_queue cfg 0 s =
      Inr (t, p, s\<lparr>eth_rxqs := [rxq'], rx_freed := replicate (frees_of cfg (rx_store s) p) p @ rx_freed s\<rparr>) \<and>
    rxq_rep rxq' (rx_store s) q \<and> t < 0"
proof -
  obtain r where r: "eth_input cfg (rx_store s p) = Inr r" "rx_ret r < 0"
    using assms(3,4) by (auto simp: accepts_def)
  obtain rxq' where "rx_pop rxq (rx_store s) = (Some p, rxq')" "rxq_rep rxq' (rx_store s) q"
    using rx_pop_some [OF assms(2)] by blast
  then show ?thesis
    using assms(1) r
    by (intro exI [of _ rxq'] exI [of _ "rx_ret r"]) (simp add: eth_process_recv_queue_def frees_of_def)
qed

lemma recv_queue_fault:
  assumes "eth_rxqs s = [rxq]" and "rxq_rep rxq (rx_store s) (p # q)" and "eth_input cfg (rx_store s p) = Inl e"
  shows "eth_process_recv_queue cfg 0 s = Inl e"
  using assms rx_pop_some [OF assms(2)] by (auto simp: eth_process_recv_queue_def)

lemma recv_queue_none:
  "eth_rxqs s = [rxq] \<Longrightarrow> rxq_rep rxq (rx_store s) [] \<Longrightarrow> eth_process_recv_queue cfg 0 s = Inr (- EAGAIN, NULL, s)"
  by (simp add: eth_process_recv_queue_def rx_pop_empty)

lemma recv_loop_1:
  "recv_loop cfg 1 c s = bindE (recv_pass cfg [0] c True s) (\<lambda>r.
     if \<not> fst (snd r) \<and> fst r < ETH_RX_MAX_BATCH
     then recv_loop cfg 1 (fst r) (snd (snd r)) else Inr (fst r, snd (snd r)))"
  by (subst recv_loop.simps) simp

lemma recv_loop_accept:
  assumes "eth_rxqs s = [rxq]" and "rxq_rep rxq (rx_store s) (p # q)" and "accepts cfg (rx_store s) p"
    and "length (recv_mbufs s) = ETH_RX_MAX_BATCH" and "c < ETH_RX_MAX_BATCH"
  shows "\<exists>s1 rxq'. recv_loop cfg 1 c s = (if Suc c < ETH_RX_MAX_BATCH then recv_loop cfg 1 (Suc c) s1 else Inr (Suc c, s1)) \<and>
    eth_rxqs s1 = [rxq'] \<and> rx_store s1 = rx_store s \<and> rxq_rep rxq' (rx_store s) q \<and>
    recv_mbufs s1 = (recv_mbufs s)[c := p] \<and> recv_type s1 = (recv_type s)[c := type_of cfg (rx_store s) p] \<and>
    rx_freed s1 = rx_freed s"
proof -
  obtain rxq' where "eth_process_recv_queue cfg 0 s = Inr (type_of cfg (rx_store s) p, p, s\<lparr>eth_rxqs := [rxq']\<rparr>)"
    "rxq_rep rxq' (rx_store s) q" "0 \<le> type_of cfg (rx_store s) p"
    using recv_queue_accept [OF assms(1-3)] by blast
  then show ?thesis
    using assms(1,4,5) recv_loop_1 [of cfg c s]
    by (intro exI [of _ "s\<lparr>eth_rxqs := [rxq'], recv_mbufs := (recv_mbufs s)[c := p],
          recv_type := (recv_type s)[c := type_of cfg (rx_store s) p]\<rparr>"] exI [of _ rxq'])
      simp
qed

lemma recv_loop_stop:
  assumes "eth_rxqs s = [rxq]" and "rxq_rep rxq (rx_store s) q" and "q \<noteq> [] \<Longrightarrow> \<exists>r. eth_input cfg (rx_store s (hd q)) = Inr r"
    and "q \<noteq> [] \<Longrightarrow> \<not> accepts cfg (rx_store s) (hd q)"
  shows "\<exists>s1 rxq'. recv_loop cfg 1 c s = Inr (c, s1) \<and> eth_rxqs s1 = [rxq'] \<and> rx_store s1 = rx_store s \<and>
    rxq_rep rxq' (rx_store s) (tl q) \<and> recv_mbufs s1 = recv_mbufs s \<and> recv_type s1 = recv_type s \<and>
    rx_freed s1 = (if q = [] then [] else replicate (frees_of cfg (rx_store s) (hd q)) (hd q)) @ rx_freed s"
proof (cases q)
  case Nil
  then show ?thesis
    using assms recv_queue_none [of s rxq cfg] recv_loop_1 [of cfg c s] by (simp add: EAGAIN_def)
next
  case (Cons p q')
  obtain rxq' t where "eth_process_recv_queue cfg 0 s =
      Inr (t, p, s\<lparr>eth_rxqs := [rxq'], rx_freed := replicate (frees_of cfg (rx_store s) p) p @ rx_freed s\<rparr>)"
    "rxq_rep rxq' (rx_store s) q'" "t < 0"
    using recv_queue_reject [of s rxq p q' cfg] assms Cons by auto
  then show ?thesis
    using assms(1) Cons recv_loop_1 [of cfg c s] by simp
qed

text \<open>
  From one queue the batch is the longest run of acceptable packets at its front, at most the
  batch size; the packet that ends the run, if any, is dropped and freed.
\<close>

definition batch :: "cfg_parameters \<Rightarrow> mstore \<Rightarrow> addr list \<Rightarrow> nat \<Rightarrow> addr list" where
  "batch cfg ms q n = takeWhile (accepts cfg ms) (take n q)"

definition unread :: "cfg_parameters \<Rightarrow> mstore \<Rightarrow> addr list \<Rightarrow> nat \<Rightarrow> addr list" where
  "unread cfg ms q n = drop (length (batch cfg ms q n) + (if length (batch cfg ms q n) < n then 1 else 0)) q"

definition dropped :: "cfg_parameters \<Rightarrow> mstore \<Rightarrow> addr list \<Rightarrow> nat \<Rightarrow> addr list" where
  "dropped cfg ms q n = (let k = length (batch cfg ms q n) in
     if k < n \<and> k < length q then replicate (frees_of cfg ms (q ! k)) (q ! k) else [])"

text \<open>The packet that ends the run.\<close>

definition stopper :: "cfg_parameters \<Rightarrow> mstore \<Rightarrow> addr list \<Rightarrow> nat \<Rightarrow> addr option" where
  "stopper cfg ms q n = (let k = length (batch cfg ms q n) in if k < n \<and> k < length q then Some (q ! k) else None)"

lemma batch_Cons:
  "accepts cfg ms p \<Longrightarrow> batch cfg ms (p # q) (Suc n) = p # batch cfg ms q n"
  "\<not> accepts cfg ms p \<Longrightarrow> batch cfg ms (p # q) (Suc n) = []"
  "batch cfg ms [] n = []" "batch cfg ms q 0 = []"
  by (simp_all add: batch_def)

text \<open>What is found at position \<open>c\<close> of the batch arrays once packets from there on were stored.\<close>

definition stored :: "nat \<Rightarrow> 'a list \<Rightarrow> 'a list \<Rightarrow> 'a list \<Rightarrow> bool" where
  "stored c xs old new \<longleftrightarrow> length new = length old \<and> take c new = take c old \<and> take (length xs) (drop c new) = xs"

lemma stored_Nil: "stored c [] xs xs"
  by (simp add: stored_def)

lemma stored_Cons:
  assumes "stored (Suc c) xs (old[c := x]) new" and "c < length old"
  shows "stored c (x # xs) old new"
proof -
  have "length new = length old" "take (Suc c) new = take (Suc c) (old[c := x])" "take (length xs) (drop (Suc c) new) = xs"
    using assms by (simp_all add: stored_def)
  then have "new ! c = x" "take c new = take c old"
    using assms(2) by (simp_all add: take_Suc_conv_app_nth)
  then show ?thesis
    using assms \<open>length new = length old\<close> \<open>take (length xs) (drop (Suc c) new) = xs\<close>
    by (simp add: stored_def Cons_nth_drop_Suc [symmetric])
qed

lemma unread_Cons:
  "accepts cfg ms p \<Longrightarrow> unread cfg ms (p # q) (Suc n) = unread cfg ms q n"
  "q = [] \<or> \<not> accepts cfg ms (hd q) \<Longrightarrow> unread cfg ms q (Suc n) = tl q"
  "unread cfg ms q 0 = q"
  by (cases q; auto simp: unread_def batch_Cons)+

lemma dropped_Cons:
  "accepts cfg ms p \<Longrightarrow> dropped cfg ms (p # q) (Suc n) = dropped cfg ms q n"
  "q = [] \<or> \<not> accepts cfg ms (hd q) \<Longrightarrow>
     dropped cfg ms q (Suc n) = (if q = [] then [] else replicate (frees_of cfg ms (hd q)) (hd q))"
  "dropped cfg ms q 0 = []"
proof -
  show "accepts cfg ms p \<Longrightarrow> dropped cfg ms (p # q) (Suc n) = dropped cfg ms q n"
    by (simp add: dropped_def batch_Cons Let_def)
  show "q = [] \<or> \<not> accepts cfg ms (hd q) \<Longrightarrow>
      dropped cfg ms q (Suc n) = (if q = [] then [] else replicate (frees_of cfg ms (hd q)) (hd q))"
    by (cases q) (simp_all add: dropped_def batch_Cons)
  show "dropped cfg ms q 0 = []" by (simp add: dropped_def)
qed

lemma stopper_Cons:
  "accepts cfg ms p \<Longrightarrow> stopper cfg ms (p # q) (Suc n) = stopper cfg ms q n"
  "q = [] \<or> \<not> accepts cfg ms (hd q) \<Longrightarrow> stopper cfg ms q (Suc n) = (if q = [] then None else Some (hd q))"
  "stopper cfg ms q 0 = None"
proof -
  show "accepts cfg ms p \<Longrightarrow> stopper cfg ms (p # q) (Suc n) = stopper cfg ms q n"
    by (simp add: stopper_def batch_Cons Let_def)
  show "q = [] \<or> \<not> accepts cfg ms (hd q) \<Longrightarrow> stopper cfg ms q (Suc n) = (if q = [] then None else Some (hd q))"
    by (cases q) (simp_all add: stopper_def batch_Cons)
  show "stopper cfg ms q 0 = None" by (simp add: stopper_def)
qed

text \<open>The packet that ends the run is one of the queue that is not accepted.\<close>

lemma stopper_Some:
  assumes "stopper cfg ms q n = Some p"
  shows "p \<in> set q" "\<not> accepts cfg ms p" "dropped cfg ms q n = replicate (frees_of cfg ms p) p"
proof -
  let ?k = "length (batch cfg ms q n)"
  have k: "?k < n" "?k < length q" "p = q ! ?k" using assms by (simp_all add: stopper_def Let_def split: if_split_asm)
  then show "p \<in> set q" "dropped cfg ms q n = replicate (frees_of cfg ms p) p" by (simp_all add: dropped_def Let_def)
  have "\<not> accepts cfg ms (take n q ! ?k)"
    using nth_length_takeWhile [of "accepts cfg ms" "take n q"] k by (simp add: batch_def)
  then show "\<not> accepts cfg ms p" using k by simp
qed

lemma recv_loop_one:
  assumes "eth_rxqs s = [rxq]" and "rxq_rep rxq (rx_store s) q"
    and "\<And>p. stopper cfg (rx_store s) q n = Some p \<Longrightarrow> \<exists>r. eth_input cfg (rx_store s p) = Inr r"
    and "length (recv_mbufs s) = ETH_RX_MAX_BATCH" "length (recv_type s) = ETH_RX_MAX_BATCH"
    and "c + n = ETH_RX_MAX_BATCH"
  shows "\<exists>s' rxq'. (if n = 0 then Inr (c, s) else recv_loop cfg 1 c s) = Inr (c + length (batch cfg (rx_store s) q n), s') \<and>
    eth_rxqs s' = [rxq'] \<and> rx_store s' = rx_store s \<and> rxq_rep rxq' (rx_store s) (unread cfg (rx_store s) q n) \<and>
    stored c (batch cfg (rx_store s) q n) (recv_mbufs s) (recv_mbufs s') \<and>
    stored c (map (type_of cfg (rx_store s)) (batch cfg (rx_store s) q n)) (recv_type s) (recv_type s') \<and>
    rx_freed s' = dropped cfg (rx_store s) q n @ rx_freed s"
  using assms
proof (induction n arbitrary: c s rxq q)
  case 0
  then show ?case by (simp add: batch_Cons unread_Cons dropped_Cons stored_Nil)
next
  case (Suc n)
  show ?case
  proof (cases "q \<noteq> [] \<and> accepts cfg (rx_store s) (hd q)")
    case True
    then obtain p q' where q: "q = p # q'" "accepts cfg (rx_store s) p" by (cases q) auto
    have c: "c < ETH_RX_MAX_BATCH" using Suc.prems by simp
    have lt: "Suc c < ETH_RX_MAX_BATCH \<longleftrightarrow> n \<noteq> 0" using Suc.prems(6) by auto
    obtain s1 rxq1 where s1: "recv_loop cfg 1 c s = (if n \<noteq> 0 then recv_loop cfg 1 (Suc c) s1 else Inr (Suc c, s1))"
      "eth_rxqs s1 = [rxq1]" "rx_store s1 = rx_store s" "rxq_rep rxq1 (rx_store s) q'"
      "recv_mbufs s1 = (recv_mbufs s)[c := p]" "recv_type s1 = (recv_type s)[c := type_of cfg (rx_store s) p]"
      "rx_freed s1 = rx_freed s"
      using recv_loop_accept [OF Suc.prems(1) Suc.prems(2) [unfolded q(1)] q(2) Suc.prems(4) c] unfolding lt by blast
    from s1 Suc.prems q have "\<exists>s' rxq'. (if n = 0 then Inr (Suc c, s1) else recv_loop cfg 1 (Suc c) s1) =
        Inr (Suc c + length (batch cfg (rx_store s1) q' n), s') \<and> eth_rxqs s' = [rxq'] \<and> rx_store s' = rx_store s1 \<and>
        rxq_rep rxq' (rx_store s1) (unread cfg (rx_store s1) q' n) \<and>
        stored (Suc c) (batch cfg (rx_store s1) q' n) (recv_mbufs s1) (recv_mbufs s') \<and>
        stored (Suc c) (map (type_of cfg (rx_store s1)) (batch cfg (rx_store s1) q' n)) (recv_type s1) (recv_type s') \<and>
        rx_freed s' = dropped cfg (rx_store s1) q' n @ rx_freed s1"
      by (intro Suc.IH) (auto simp: stopper_Cons)
    then show ?thesis
      using s1 q Suc.prems c by (auto simp: batch_Cons unread_Cons dropped_Cons intro!: stored_Cons)
  next
    case False
    have "\<exists>s1 rxq'. recv_loop cfg 1 c s = Inr (c, s1) \<and> eth_rxqs s1 = [rxq'] \<and> rx_store s1 = rx_store s \<and>
      rxq_rep rxq' (rx_store s) (tl q) \<and> recv_mbufs s1 = recv_mbufs s \<and> recv_type s1 = recv_type s \<and>
      rx_freed s1 = (if q = [] then [] else replicate (frees_of cfg (rx_store s) (hd q)) (hd q)) @ rx_freed s"
      by (rule recv_loop_stop [OF Suc.prems(1,2)]) (use False Suc.prems(3) in \<open>auto simp: stopper_Cons\<close>)
    moreover have "batch cfg (rx_store s) q (Suc n) = []" using False by (cases q) (auto simp: batch_Cons)
    ultimately show ?thesis using False by (auto simp: unread_Cons dropped_Cons stored_Nil)
  qed
qed

text \<open>If that packet makes reception fault, the whole call does.\<close>

lemma recv_loop_fault:
  assumes "eth_rxqs s = [rxq]" and "rxq_rep rxq (rx_store s) q" and "stopper cfg (rx_store s) q n = Some p"
    and "eth_input cfg (rx_store s p) = Inl e" and "length (recv_mbufs s) = ETH_RX_MAX_BATCH" and "c + n = ETH_RX_MAX_BATCH"
  shows "recv_loop cfg 1 c s = Inl e"
  using assms
proof (induction n arbitrary: c s rxq q)
  case 0
  then show ?case by (simp add: stopper_Cons)
next
  case (Suc n)
  obtain x q' where q: "q = x # q'" using Suc.prems(3) by (cases q) (auto simp: stopper_Cons)
  show ?case
  proof (cases "accepts cfg (rx_store s) x")
    case True
    have c: "c < ETH_RX_MAX_BATCH" using Suc.prems by simp
    obtain s1 rxq1 where s1: "recv_loop cfg 1 c s = (if Suc c < ETH_RX_MAX_BATCH then recv_loop cfg 1 (Suc c) s1 else Inr (Suc c, s1))"
      "eth_rxqs s1 = [rxq1]" "rx_store s1 = rx_store s" "rxq_rep rxq1 (rx_store s) q'" "recv_mbufs s1 = (recv_mbufs s)[c := x]"
      using recv_loop_accept [OF Suc.prems(1) Suc.prems(2) [unfolded q] True Suc.prems(5) c] by blast
    have st: "stopper cfg (rx_store s1) q' n = Some p" using Suc.prems(3) True q s1(3) by (simp add: stopper_Cons)
    then have "n \<noteq> 0" by (cases n) (simp_all add: stopper_Cons)
    moreover have "recv_loop cfg 1 (Suc c) s1 = Inl e"
      by (rule Suc.IH [OF s1(2)]) (use s1 st Suc.prems in simp_all)
    ultimately show ?thesis using s1(1) Suc.prems(6) by simp
  next
    case False
    then have "p = x" using Suc.prems(3) q by (simp add: stopper_Cons)
    then have "eth_process_recv_queue cfg 0 s = Inl e" using recv_queue_fault [OF Suc.prems(1)] Suc.prems(2,4) q by simp
    then show ?thesis using recv_loop_1 [of cfg c s] Suc.prems(1) by simp
  qed
qed

end
