(* ===== verification/Dispatcher.thy ===== *)
theory Dispatcher
  imports Context Ethqueue
begin

text \<open>
  The dispatcher core (\<open>dp/core/dispatcher.c\<close>) over the shared memory declared in
  \<open>inc/ix/dispatch.h\<close>: the per-worker request and response slots, the batch exchanged with
  the networking core, the task queues and the queue of buffers on their way back.
\<close>

section \<open>Shared memory\<close>

definition MAX_WORKERS :: nat where "MAX_WORKERS = 24"

definition WAITING :: u64 where "WAITING = 0"
definition ACTIVE :: u64 where "ACTIVE = 1"

definition RUNNING :: u64 where "RUNNING = 0"
definition FINISHED :: u64 where "FINISHED = 1"
definition PREEMPTED :: u64 where "PREEMPTED = 2"
definition PROCESSED :: u64 where "PROCESSED = 3"

definition PACKET :: u8 where "PACKET = 1"
definition CONTEXT :: u8 where "CONTEXT = 2"

definition PREEMPT_VECTOR :: u8 where "PREEMPT_VECTOR = 0xf2"
definition PREEMPTION_DELAY :: rat where "PREEMPTION_DELAY = 5000"

lemmas flag_defs = WAITING_def ACTIVE_def RUNNING_def FINISHED_def PREEMPTED_def PROCESSED_def

record worker_response =
  wr_flag :: u64
  wr_rnbl :: addr
  wr_mbuf :: addr
  wr_timestamp :: u64
  wr_type :: u8
  wr_category :: u8

record dispatcher_request =
  dr_flag :: u64
  dr_rnbl :: addr
  dr_mbuf :: addr
  dr_type :: u8
  dr_category :: u8
  dr_timestamp :: u64
  dr_dispatcher_cy :: u64

record networker_pointers_t =
  np_cnt :: u8
  np_free_cnt :: u8
  np_types :: "u8 list"
  np_pkts :: "addr list"

text \<open>
  All of it, with the memory and the pools behind it.  \<open>d_ipis\<close> records the calls of
  \<open>dune_apic_send_posted_ipi\<close>, latest first: vector and destination core.
\<close>

record dp_state =
  d_heap :: heap
  task_mempool :: pool
  mcell_mempool :: pool
  context_pool :: pool
  stack_pool :: pool
  mqueue :: addr
  tskq :: "task_queue list"
  timestamps :: "u64 list"
  preempt_check :: "bool list"
  networker_pointers :: networker_pointers_t
  worker_responses :: "worker_response list"
  dispatcher_requests :: "dispatcher_request list"
  d_ipis :: "(u8 \<times> u32) list"

section \<open>Operations\<close>

definition timestamp_init :: "int \<Rightarrow> dp_state \<Rightarrow> dp_state res" where
  "timestamp_init num_workers s =
     (if nat num_workers > length (timestamps s) then Inl Out_of_bounds
      else Inr (s\<lparr>timestamps := fold (\<lambda>i ts. ts[i := 0xFFFFFFFFFFFFFFFF]) [0..<nat num_workers] (timestamps s)\<rparr>))"

definition preempt_check_init :: "int \<Rightarrow> dp_state \<Rightarrow> dp_state res" where
  "preempt_check_init num_workers s =
     (if nat num_workers > length (preempt_check s) then Inl Out_of_bounds
      else Inr (s\<lparr>preempt_check := fold (\<lambda>i cs. cs[i := False]) [0..<nat num_workers] (preempt_check s)\<rparr>))"

text \<open>The store \<open>worker_responses[i].flag = v\<close> and its companions.\<close>

definition set_wr_flag :: "nat \<Rightarrow> u64 \<Rightarrow> dp_state \<Rightarrow> dp_state" where
  "set_wr_flag i v s = s\<lparr>worker_responses := (worker_responses s)[i := (worker_responses s ! i)\<lparr>wr_flag := v\<rparr>]\<rparr>"

definition set_dr_flag :: "nat \<Rightarrow> u64 \<Rightarrow> dp_state \<Rightarrow> dp_state" where
  "set_dr_flag i v s = s\<lparr>dispatcher_requests := (dispatcher_requests s)[i := (dispatcher_requests s ! i)\<lparr>dr_flag := v\<rparr>]\<rparr>"

definition set_preempt_check :: "nat \<Rightarrow> bool \<Rightarrow> dp_state \<Rightarrow> dp_state" where
  "set_preempt_check i b s = s\<lparr>preempt_check := (preempt_check s)[i := b]\<rparr>"

text \<open>Calls on the global pools and queues.\<close>

definition free_context :: "addr \<Rightarrow> dp_state \<Rightarrow> dp_state res" where
  "free_context c s =
     bindE (context_free (d_heap s) (context_pool s) (stack_pool s) c) (\<lambda>(h, cp, sp).
     Inr (s\<lparr>d_heap := h, context_pool := cp, stack_pool := sp\<rparr>))"

definition alloc_context :: "dp_state \<Rightarrow> (addr option \<times> dp_state) res" where
  "alloc_context s =
     bindE (context_alloc (d_heap s) (context_pool s) (stack_pool s)) (\<lambda>(c, h, cp, sp).
     Inr (c, s\<lparr>d_heap := h, context_pool := cp, stack_pool := sp\<rparr>))"

definition push_mbuf :: "addr \<Rightarrow> dp_state \<Rightarrow> dp_state res" where
  "push_mbuf buf s =
     bindE (mbuf_enqueue (d_heap s) (mcell_mempool s) (mqueue s) buf) (\<lambda>(h, mp, mq).
     Inr (s\<lparr>d_heap := h, mcell_mempool := mp, mqueue := mq\<rparr>))"

definition pop_mbuf :: "dp_state \<Rightarrow> (addr \<times> dp_state) res" where
  "pop_mbuf s =
     bindE (mbuf_dequeue (d_heap s) (mcell_mempool s) (mqueue s)) (\<lambda>(buf, h, mp, mq).
     Inr (buf, s\<lparr>d_heap := h, mcell_mempool := mp, mqueue := mq\<rparr>))"

definition enqueue_task :: "u8 \<Rightarrow> task \<Rightarrow> dp_state \<Rightarrow> dp_state res" where
  "enqueue_task type t s =
     (if unat type \<ge> length (tskq s) then Inl Out_of_bounds
      else bindE (tskq_enqueue_tail (d_heap s) (task_mempool s) (tskq s ! unat type) t) (\<lambda>(h, tp, tq).
           Inr (s\<lparr>d_heap := h, task_mempool := tp, tskq := (tskq s)[unat type := tq]\<rparr>)))"

definition pick_task :: "cfg_parameters \<Rightarrow> u64 \<Rightarrow> dp_state \<Rightarrow> (task option \<times> dp_state) res" where
  "pick_task cfg cur_time s =
     bindE (smart_tskq_dequeue cfg (d_heap s) (task_mempool s) (tskq s) cur_time) (\<lambda>(r, h, tp, tqs).
     Inr (r, s\<lparr>d_heap := h, task_mempool := tp, tskq := tqs\<rparr>))"

text \<open>The handlers.\<close>

definition handle_finished :: "nat \<Rightarrow> dp_state \<Rightarrow> dp_state res" where
  "handle_finished i s =
     bindE (free_context (wr_rnbl (worker_responses s ! i)) s) (\<lambda>s1.
     bindE (push_mbuf (wr_mbuf (worker_responses s1 ! i)) s1) (\<lambda>s2.
     Inr (set_wr_flag i PROCESSED (set_preempt_check i False s2))))"

definition handle_preempted :: "nat \<Rightarrow> dp_state \<Rightarrow> dp_state res" where
  "handle_preempted i s =
     (let r = worker_responses s ! i;
          t = \<lparr>tsk_runnable = wr_rnbl r, tsk_mbuf = wr_mbuf r, tsk_type = wr_type r,
               tsk_category = wr_category r, tsk_timestamp = wr_timestamp r\<rparr>
      in bindE (enqueue_task (wr_type r) t s) (\<lambda>s1.
         Inr (set_wr_flag i PROCESSED (set_preempt_check i False s1))))"

text \<open>
  The stores of \<open>dispatch_request\<close> up to the last one; the request becomes visible to the
  worker only with the store of \<open>ACTIVE\<close> that follows.
\<close>

definition fill_request :: "nat \<Rightarrow> task \<Rightarrow> u64 \<Rightarrow> dp_state \<Rightarrow> dp_state" where
  "fill_request i t cur_time s =
     (let s1 = set_wr_flag i RUNNING s;
          r = (dispatcher_requests s1 ! i)\<lparr>dr_rnbl := tsk_runnable t, dr_mbuf := tsk_mbuf t,
                dr_type := tsk_type t, dr_category := tsk_category t, dr_timestamp := tsk_timestamp t,
                dr_dispatcher_cy := if tsk_category t = PACKET then cur_time - tsk_timestamp t else 0\<rparr>
      in s1\<lparr>dispatcher_requests := (dispatcher_requests s1)[i := r],
            timestamps := (timestamps s1)[i := cur_time],
            preempt_check := (preempt_check s1)[i := True]\<rparr>)"

definition prepare_request :: "cfg_parameters \<Rightarrow> nat \<Rightarrow> u64 \<Rightarrow> dp_state \<Rightarrow> (bool \<times> dp_state) res" where
  "prepare_request cfg i cur_time s =
     bindE (pick_task cfg cur_time s) (\<lambda>(r, s1).
     case r of None \<Rightarrow> Inr (False, s1) | Some t \<Rightarrow> Inr (True, fill_request i t cur_time s1))"

definition dispatch_request :: "cfg_parameters \<Rightarrow> nat \<Rightarrow> u64 \<Rightarrow> dp_state \<Rightarrow> dp_state res" where
  "dispatch_request cfg i cur_time s =
     bindE (prepare_request cfg i cur_time s) (\<lambda>(filled, s1).
     if filled then Inr (set_dr_flag i ACTIVE s1) else Inr s1)"

text \<open>
  \<open>(cur_time - timestamps[i]) / 2.79998 > PREEMPTION_DELAY\<close> in \<open>double\<close>: the unsigned
  difference and the literal are rounded to 53 bits, and so is the quotient.
\<close>

definition preempt_due :: "u64 \<Rightarrow> bool" where
  "preempt_due d = fl_gt (fl_div 53 (rnd 53 (of_int (uint d))) (rnd 53 (279998 / 100000))) (Fin PREEMPTION_DELAY)"

definition preempt_worker :: "cfg_parameters \<Rightarrow> nat \<Rightarrow> u64 \<Rightarrow> dp_state \<Rightarrow> dp_state res" where
  "preempt_worker cfg i cur_time s =
     (if preempt_check s ! i \<and> preempt_due (cur_time - timestamps s ! i)
      then let s1 = set_preempt_check i False s
           in if i + 2 < length (cfg_cpu cfg)
              then Inr (s1\<lparr>d_ipis := (PREEMPT_VECTOR, cfg_cpu cfg ! (i + 2)) # d_ipis s1\<rparr>)
              else Inl Out_of_bounds
      else Inr s)"

text \<open>What \<open>handle_worker\<close> does with a response before it looks for the next task.\<close>

definition handle_response :: "nat \<Rightarrow> dp_state \<Rightarrow> dp_state res" where
  "handle_response i s =
     (if wr_flag (worker_responses s ! i) = FINISHED then handle_finished i s
      else if wr_flag (worker_responses s ! i) = PREEMPTED then handle_preempted i s
      else Inr s)"

definition handle_worker :: "cfg_parameters \<Rightarrow> nat \<Rightarrow> u64 \<Rightarrow> dp_state \<Rightarrow> dp_state res" where
  "handle_worker cfg i cur_time s =
     (if i \<ge> length (worker_responses s) then Inl Out_of_bounds
      else if wr_flag (worker_responses s ! i) \<noteq> RUNNING
      then bindE (handle_response i s) (dispatch_request cfg i cur_time)
      else preempt_worker cfg i cur_time s)"

definition intake_packet :: "u64 \<Rightarrow> nat \<Rightarrow> dp_state \<Rightarrow> dp_state res" where
  "intake_packet cur_time i s =
     (if i \<ge> length (np_pkts (networker_pointers s)) then Inl Out_of_bounds
      else bindE (alloc_context s) (\<lambda>(c, s1).
      case c of
        None \<Rightarrow> push_mbuf (np_pkts (networker_pointers s1) ! i) s1
      | Some cont \<Rightarrow>
          let type = np_types (networker_pointers s1) ! i
          in enqueue_task type
               \<lparr>tsk_runnable = cont, tsk_mbuf = np_pkts (networker_pointers s1) ! i, tsk_type = type,
                tsk_category = PACKET, tsk_timestamp = cur_time\<rparr> s1))"

primrec intake_loop :: "u64 \<Rightarrow> nat list \<Rightarrow> dp_state \<Rightarrow> dp_state res" where
  "intake_loop cur_time [] s = Inr s"
| "intake_loop cur_time (i # is) s = bindE (intake_packet cur_time i s) (intake_loop cur_time is)"

text \<open>The loop that hands finished buffers back; it ends at the first empty answer.\<close>

primrec return_loop :: "nat list \<Rightarrow> dp_state \<Rightarrow> dp_state res" where
  "return_loop [] s = Inr s"
| "return_loop (i # is) s =
     bindE (pop_mbuf s) (\<lambda>(buf, s1).
     if buf = NULL then Inr s1
     else let np = networker_pointers s1
          in return_loop is
               (s1\<lparr>networker_pointers := np\<lparr>np_pkts := (np_pkts np)[i := buf], np_free_cnt := np_free_cnt np + 1\<rparr>\<rparr>))"

definition handle_networker :: "u64 \<Rightarrow> dp_state \<Rightarrow> dp_state res" where
  "handle_networker cur_time s =
     (if np_cnt (networker_pointers s) \<noteq> 0
      then bindE (intake_loop cur_time [0..<unat (np_cnt (networker_pointers s))] s) (\<lambda>s1.
           bindE (return_loop [0..<ETH_RX_MAX_BATCH] s1) (\<lambda>s2.
           Inr (s2\<lparr>networker_pointers := (networker_pointers s2)\<lparr>np_cnt := 0\<rparr>\<rparr>)))
      else Inr s)"

primrec worker_loop :: "cfg_parameters \<Rightarrow> u64 \<Rightarrow> nat list \<Rightarrow> dp_state \<Rightarrow> dp_state res" where
  "worker_loop cfg cur_time [] s = Inr s"
| "worker_loop cfg cur_time (i # is) s = bindE (handle_worker cfg i cur_time s) (worker_loop cfg cur_time is)"

text \<open>
  \<open>do_dispatching\<close> is an endless loop; \<open>dispatch_rounds\<close> is its behaviour over the successive
  values that \<open>rdtsc\<close> returns.
\<close>

definition dispatch_round :: "cfg_parameters \<Rightarrow> int \<Rightarrow> u64 \<Rightarrow> dp_state \<Rightarrow> dp_state res" where
  "dispatch_round cfg ncpus cur_time s =
     bindE (worker_loop cfg cur_time [0..<nat (ncpus - 2)] s) (handle_networker cur_time)"

primrec dispatch_rounds :: "cfg_parameters \<Rightarrow> int \<Rightarrow> u64 list \<Rightarrow> dp_state \<Rightarrow> dp_state res" where
  "dispatch_rounds cfg ncpus [] s = Inr s"
| "dispatch_rounds cfg ncpus (now # nows) s =
     bindE (dispatch_round cfg ncpus now s) (dispatch_rounds cfg ncpus nows)"

definition do_dispatching :: "cfg_parameters \<Rightarrow> int \<Rightarrow> u64 list \<Rightarrow> dp_state \<Rightarrow> dp_state res" where
  "do_dispatching cfg ncpus nows s =
     bindE (preempt_check_init (ncpus - 2) s) (\<lambda>s1.
     bindE (timestamp_init (ncpus - 2) s1) (dispatch_rounds cfg ncpus nows))"

section \<open>When a worker is preempted\<close>

text \<open>Two roundings cannot move a value across a gap that is wide relative to the precision.\<close>

lemma rnd_bounds:
  assumes "0 < x"
  shows "x * (1 - 1 / 2 ^ 53) \<le> rnd 53 x" and "rnd 53 x \<le> x * (1 + 1 / 2 ^ 53)"
proof -
  have "(2::rat) powi (- int 53) = 1 / 2 ^ 53" by (simp only: power_int_minus power_int_of_nat inverse_eq_divide)
  then have "\<bar>rnd 53 x - x\<bar> \<le> x * (1 / 2 ^ 53)" using rnd_rel_error [OF assms, of 53] by simp
  then have "rnd 53 x - x \<le> x * (1 / 2 ^ 53)" "x - rnd 53 x \<le> x * (1 / 2 ^ 53)" by (simp_all only: abs_le_iff minus_diff_eq)
  then show "x * (1 - 1 / 2 ^ 53) \<le> rnd 53 x" "rnd 53 x \<le> x * (1 + 1 / 2 ^ 53)"
    by (simp_all only: right_diff_distrib distrib_left)
qed

lemma clock_rate_bounds:
  "27999799 / 10000000 \<le> rnd 53 (279998 / 100000)" "rnd 53 (279998 / 100000) \<le> 27999801 / 10000000"
  using rnd_bounds [of "279998 / 100000"] by simp_all

lemma quotient_above:
  assumes "(14000::rat) \<le> x"
  shows "5000 < rnd 53 (rnd 53 x / rnd 53 (279998 / 100000))"
proof -
  let ?c = "rnd 53 (279998 / 100000)" and ?d = "rnd 53 x"
  have c: "0 < ?c" "?c \<le> 27999801 / 10000000" using clock_rate_bounds by simp_all
  have "13999999 / 1000 \<le> x * (1 - 1 / 2 ^ 53)" using assms by simp
  then have d: "13999999 / 1000 \<le> ?d" using rnd_bounds(1) [of x] assms by linarith
  then have "5000 + 1 / 100 \<le> ?d / ?c" using c by (simp add: pos_le_divide_eq)
  moreover have "5000 < q * (1 - 1 / 2 ^ 53)" if "5000 + 1 / 100 \<le> q" for q :: rat using that by simp
  moreover have "0 < ?d / ?c" using c(1) d by simp
  ultimately show ?thesis using rnd_bounds(1) [of "?d / ?c"] by (meson less_le_trans)
qed

lemma quotient_below:
  assumes "0 \<le> k" and "k \<le> 13999"
  shows "rnd 53 (rnd 53 (of_int k) / rnd 53 (279998 / 100000)) \<le> 5000"
proof (cases "k = 0")
  case False
  let ?c = "rnd 53 (279998 / 100000)"
  have c: "27999799 / 10000000 \<le> ?c" using clock_rate_bounds by simp
  have k: "rnd 53 (of_int k) = of_int k" using assms by (intro rnd_int_exact) simp
  have k': "(of_int k :: rat) \<le> 13999" "0 < (of_int k :: rat)" using assms False by simp_all
  have "of_int k \<le> (49998 / 10) * ?c" using k' c by linarith
  then have "of_int k / ?c \<le> 49998 / 10" using c by (simp add: pos_divide_le_eq)
  moreover have "q * (1 + 1 / 2 ^ 53) \<le> 5000" if "q \<le> 49998 / 10" for q :: rat using that by simp
  ultimately show ?thesis
    using rnd_bounds(2) [of "of_int k / ?c"] k k'(2) c by (simp add: order_trans)
qed simp

text \<open>The test is an integer comparison, for every value of the 64-bit difference.\<close>

lemma preempt_due_iff [code]: "preempt_due d \<longleftrightarrow> 14000 \<le> unat d"
proof -
  have pos: "rnd 53 (279998 / 100000) \<noteq> 0" using clock_rate_bounds by force
  have eq: "preempt_due d \<longleftrightarrow> 5000 < rnd 53 (rnd 53 (of_int (uint d)) / rnd 53 (279998 / 100000))"
    using pos by (simp add: preempt_due_def fl_div_def PREEMPTION_DELAY_def)
  show ?thesis
  proof (cases "14000 \<le> unat d")
    case True
    then have "(14000::int) \<le> uint d" unfolding uint_nat by linarith
    then have "of_int 14000 \<le> (of_int (uint d) :: rat)" by (simp only: of_int_le_iff)
    then have "(14000::rat) \<le> of_int (uint d)" by (simp only: of_int_numeral)
    then show ?thesis using eq quotient_above True by blast
  next
    case False
    then have "uint d \<le> 13999" unfolding uint_nat by linarith
    then show ?thesis using eq quotient_below [of "uint d"] False by fastforce
  qed
qed

end
