(* ===== verification/Dispatch_Refine.thy ===== *)
theory Dispatch_Refine
  imports Dispatcher
begin

text \<open>
  The dispatcher's memory as its clients see it: the tasks waiting per port, the buffers on
  their way back to the networking core and the set of contexts in use.  Every operation of
  \<open>Dispatcher\<close> on memory refines an operation on these three.
\<close>

section \<open>The abstract view\<close>

text \<open>The elements each of the four pools was created with.\<close>

record universe =
  u_task :: "addr set"
  u_mcell :: "addr set"
  u_ctx :: "addr set"
  u_stack :: "addr set"

definition universe_ok :: "universe \<Rightarrow> bool" where
  "universe_ok U \<longleftrightarrow>
     finite (u_task U) \<and> finite (u_mcell U) \<and> finite (u_ctx U) \<and> finite (u_stack U) \<and>
     u_task U \<inter> u_mcell U = {} \<and> u_task U \<inter> u_ctx U = {} \<and> u_task U \<inter> u_stack U = {} \<and>
     u_mcell U \<inter> u_ctx U = {} \<and> u_mcell U \<inter> u_stack U = {} \<and> u_ctx U \<inter> u_stack U = {}"

definition task_cells :: "task_queue list \<Rightarrow> (nat \<Rightarrow> addr list) \<Rightarrow> addr set" where
  "task_cells tqs xs = (\<Union>i<length tqs. set (xs i))"

text \<open>
  \<open>disp_mem U s xs cs Lc Ls\<close>: the cells of the task queues are \<open>xs\<close>, those of the buffer queue
  \<open>cs\<close>, and they are all the cells that are out; the contexts \<open>Lc\<close> and stacks \<open>Ls\<close> are in use.
\<close>

definition disp_mem :: "universe \<Rightarrow> dp_state \<Rightarrow> (nat \<Rightarrow> addr list) \<Rightarrow> addr list \<Rightarrow> addr set \<Rightarrow> addr set \<Rightarrow> bool" where
  "disp_mem U s xs cs Lc Ls \<longleftrightarrow>
     universe_ok U \<and> task_cells (tskq s) xs \<subseteq> u_task U \<and> set cs \<subseteq> u_mcell U \<and> Lc \<subseteq> u_ctx U \<and> Ls \<subseteq> u_stack U \<and>
     tskqs_ok (d_heap s) (task_mempool s) (u_task U - task_cells (tskq s) xs) (task_cells (tskq s) xs) (tskq s) xs \<and>
     mq_ok (d_heap s) (mcell_mempool s) (u_mcell U - set cs) (set cs) (mqueue s) cs \<and>
     ctx_ok (d_heap s) (context_pool s) (stack_pool s) (u_ctx U - Lc) Lc (u_stack U - Ls) Ls"

definition disp_rep :: "universe \<Rightarrow> dp_state \<Rightarrow> (nat \<Rightarrow> task list) \<Rightarrow> addr list \<Rightarrow> addr set \<Rightarrow> bool" where
  "disp_rep U s qs bs Lc \<longleftrightarrow>
     (\<exists>xs cs Ls. disp_mem U s xs cs Lc Ls \<and>
       (\<forall>i<length (tskq s). qs i = tskq_abs (d_heap s) (xs i)) \<and> bs = mq_abs (d_heap s) cs)"

text \<open>The part of the state that is not behind the abstract view.\<close>

definition slots :: "dp_state \<Rightarrow> u64 list \<times> bool list \<times> networker_pointers_t \<times> worker_response list \<times>
    dispatcher_request list \<times> (u8 \<times> u32) list \<times> nat" where
  "slots s = (timestamps s, preempt_check s, networker_pointers s, worker_responses s,
     dispatcher_requests s, d_ipis s, length (tskq s))"

lemma slots_eq_iff:
  "slots s' = slots s \<longleftrightarrow>
     timestamps s' = timestamps s \<and> preempt_check s' = preempt_check s \<and>
     networker_pointers s' = networker_pointers s \<and> worker_responses s' = worker_responses s \<and>
     dispatcher_requests s' = dispatcher_requests s \<and> d_ipis s' = d_ipis s \<and>
     length (tskq s') = length (tskq s)"
  by (simp add: slots_def)

definition queued :: "dp_state \<Rightarrow> (nat \<Rightarrow> task list) \<Rightarrow> nat" where
  "queued s qs = (\<Sum>i<length (tskq s). length (qs i))"

lemma task_cells_split:
  "k < length tqs \<Longrightarrow> task_cells tqs xs = set (xs k) \<union> (\<Union>i\<in>{..<length tqs} - {k}. set (xs i))"
  by (auto simp: task_cells_def)

lemma task_cells_upd:
  "k < length tqs \<Longrightarrow>
     task_cells (tqs[k := tq]) (xs(k := ys)) = set ys \<union> (\<Union>i\<in>{..<length tqs} - {k}. set (xs i))"
  by (auto simp: task_cells_def split: if_splits)

lemma card_task_cells:
  assumes "tskqs_ok h tp F L tqs xs"
  shows "card (task_cells tqs xs) = (\<Sum>i<length tqs. length (xs i))"
proof -
  have "card (\<Union>i\<in>{..<length tqs}. set (xs i)) = (\<Sum>i<length tqs. card (set (xs i)))"
    by (rule card_UN_disjoint) (use assms in \<open>auto simp: tskqs_ok_def\<close>)
  also have "\<dots> = (\<Sum>i<length tqs. length (xs i))"
    by (rule sum.cong) (use assms in \<open>auto simp: tskqs_ok_def tskq_rep_def distinct_card\<close>)
  finally show ?thesis by (simp add: task_cells_def)
qed

text \<open>A frame rule: a memory that agrees on the elements outside a client's own pool.\<close>

lemma tskqs_ok_frame:
  assumes "tskqs_ok h tp F L tqs xs" and "\<And>x. x \<in> F \<union> task_cells tqs xs \<Longrightarrow> h' x = h x"
  shows "tskqs_ok h' tp F L tqs xs"
proof -
  have "mempool_ok h' tp F L"
    using assms mp.ok_frame [of h tp F L h'] by (simp add: tskqs_ok_def)
  moreover have "tskq_rep h' (tqs ! i) (xs i) = tskq_rep h (tqs ! i) (xs i)" if "i < length tqs" for i
    by (rule tskq_rep_cong) (use assms(2) that in \<open>auto simp: task_cells_def\<close>)
  ultimately show ?thesis using assms(1) by (simp add: tskqs_ok_def)
qed

lemma mq_ok_frame:
  assumes "mq_ok h mp F L mq cs" and "\<And>x. x \<in> F \<union> set cs \<Longrightarrow> h' x = h x"
  shows "mq_ok h' mp F L mq cs"
  using assms mp.ok_frame [of h mp F L h'] mq_rep_cong [of cs h' h] mq_abs_cong [of cs h' h]
  by (simp add: mq_ok_def)


lemma disp_repE:
  assumes "disp_rep U s qs bs Lc"
  obtains xs cs Ls where "disp_mem U s xs cs Lc Ls"
    "\<forall>i<length (tskq s). qs i = tskq_abs (d_heap s) (xs i)" "bs = mq_abs (d_heap s) cs"
  using assms by (auto simp: disp_rep_def)

lemma disp_memD:
  assumes "disp_mem U s xs cs Lc Ls"
  shows "universe_ok U" "task_cells (tskq s) xs \<subseteq> u_task U" "set cs \<subseteq> u_mcell U" "Lc \<subseteq> u_ctx U" "Ls \<subseteq> u_stack U"
    "tskqs_ok (d_heap s) (task_mempool s) (u_task U - task_cells (tskq s) xs) (task_cells (tskq s) xs) (tskq s) xs"
    "mq_ok (d_heap s) (mcell_mempool s) (u_mcell U - set cs) (set cs) (mqueue s) cs"
    "ctx_ok (d_heap s) (context_pool s) (stack_pool s) (u_ctx U - Lc) Lc (u_stack U - Ls) Ls"
  using assms by (simp_all add: disp_mem_def)

lemma universe_disjoint:
  assumes "universe_ok U"
  shows "x \<in> u_mcell U \<Longrightarrow> x \<notin> u_task U" "x \<in> u_ctx U \<Longrightarrow> x \<notin> u_task U" "x \<in> u_stack U \<Longrightarrow> x \<notin> u_task U"
    "x \<in> u_ctx U \<Longrightarrow> x \<notin> u_mcell U" "x \<in> u_stack U \<Longrightarrow> x \<notin> u_mcell U" "x \<in> u_stack U \<Longrightarrow> x \<notin> u_ctx U"
  using assms by (auto simp: universe_ok_def)

lemma queued_cells:
  assumes "disp_mem U s xs cs Lc Ls" and "\<forall>i<length (tskq s). qs i = tskq_abs (d_heap s) (xs i)"
  shows "queued s qs = card (task_cells (tskq s) xs)"
  using card_task_cells [OF disp_memD(6) [OF assms(1)]] assms(2) by (simp add: queued_def tskq_abs_def)

text \<open>Memory outside one pool is untouched: what the other three views keep.\<close>

lemma frame_outside_task:
  assumes m: "disp_mem U s xs cs Lc Ls" and fr: "\<And>y. y \<notin> u_task U \<Longrightarrow> h' y = d_heap s y"
  shows "mq_ok h' (mcell_mempool s) (u_mcell U - set cs) (set cs) (mqueue s) cs"
    "mq_abs h' cs = mq_abs (d_heap s) cs"
    "ctx_ok h' (context_pool s) (stack_pool s) (u_ctx U - Lc) Lc (u_stack U - Ls) Ls"
proof -
  note d = disp_memD [OF m] and u = universe_disjoint [OF disp_memD(1) [OF m]]
  show "mq_ok h' (mcell_mempool s) (u_mcell U - set cs) (set cs) (mqueue s) cs"
    by (rule mq_ok_frame [OF d(7)], rule fr) (use d(3) u(1) in auto)
  show "mq_abs h' cs = mq_abs (d_heap s) cs"
    by (rule mq_abs_cong, rule fr) (use d(3) u(1) in auto)
  have same: "h' x = d_heap s x" if "x \<in> u_ctx U \<union> u_stack U" for x
    by (rule fr) (use that u(2,3) in auto)
  show "ctx_ok h' (context_pool s) (stack_pool s) (u_ctx U - Lc) Lc (u_stack U - Ls) Ls"
    by (rule ctx_ok_frame [OF d(8)]) (use same d(4) in auto)
qed

lemma frame_outside_mcell:
  assumes m: "disp_mem U s xs cs Lc Ls" and fr: "\<And>y. y \<notin> u_mcell U \<Longrightarrow> h' y = d_heap s y"
  shows "tskqs_ok h' (task_mempool s) (u_task U - task_cells (tskq s) xs) (task_cells (tskq s) xs) (tskq s) xs"
    "i < length (tskq s) \<Longrightarrow> tskq_abs h' (xs i) = tskq_abs (d_heap s) (xs i)"
    "ctx_ok h' (context_pool s) (stack_pool s) (u_ctx U - Lc) Lc (u_stack U - Ls) Ls"
proof -
  note d = disp_memD [OF m] and u = universe_disjoint [OF disp_memD(1) [OF m]]
  have t: "h' x = d_heap s x" if "x \<in> u_task U" for x
    by (rule fr) (use that u(1) in auto)
  show "tskqs_ok h' (task_mempool s) (u_task U - task_cells (tskq s) xs) (task_cells (tskq s) xs) (tskq s) xs"
    by (rule tskqs_ok_frame [OF d(6)], rule t) (use d(2) in auto)
  show "i < length (tskq s) \<Longrightarrow> tskq_abs h' (xs i) = tskq_abs (d_heap s) (xs i)"
    by (rule tskq_abs_cong, rule t) (use d(2) in \<open>auto simp: task_cells_def\<close>)
  have same: "h' x = d_heap s x" if "x \<in> u_ctx U \<union> u_stack U" for x
    by (rule fr) (use that u(4,5) in auto)
  show "ctx_ok h' (context_pool s) (stack_pool s) (u_ctx U - Lc) Lc (u_stack U - Ls) Ls"
    by (rule ctx_ok_frame [OF d(8)]) (use same d(4) in auto)
qed

lemma frame_outside_ctx:
  assumes m: "disp_mem U s xs cs Lc Ls" and fr: "\<And>y. y \<notin> u_ctx U \<union> u_stack U \<Longrightarrow> h' y = d_heap s y"
  shows "tskqs_ok h' (task_mempool s) (u_task U - task_cells (tskq s) xs) (task_cells (tskq s) xs) (tskq s) xs"
    "i < length (tskq s) \<Longrightarrow> tskq_abs h' (xs i) = tskq_abs (d_heap s) (xs i)"
    "mq_ok h' (mcell_mempool s) (u_mcell U - set cs) (set cs) (mqueue s) cs"
    "mq_abs h' cs = mq_abs (d_heap s) cs"
proof -
  note d = disp_memD [OF m] and u = universe_disjoint [OF disp_memD(1) [OF m]]
  have t: "h' x = d_heap s x" if "x \<in> u_task U" for x
    by (rule fr) (use that u(2,3) in auto)
  have mc: "h' x = d_heap s x" if "x \<in> u_mcell U" for x
    by (rule fr) (use that u(4,5) in auto)
  show "tskqs_ok h' (task_mempool s) (u_task U - task_cells (tskq s) xs) (task_cells (tskq s) xs) (tskq s) xs"
    by (rule tskqs_ok_frame [OF d(6)], rule t) (use d(2) in auto)
  show "i < length (tskq s) \<Longrightarrow> tskq_abs h' (xs i) = tskq_abs (d_heap s) (xs i)"
    by (rule tskq_abs_cong, rule t) (use d(2) in \<open>auto simp: task_cells_def\<close>)
  show "mq_ok h' (mcell_mempool s) (u_mcell U - set cs) (set cs) (mqueue s) cs"
    by (rule mq_ok_frame [OF d(7)], rule mc) (use d(3) in auto)
  show "mq_abs h' cs = mq_abs (d_heap s) cs"
    by (rule mq_abs_cong, rule mc) (use d(3) in auto)
qed

section \<open>Task queues\<close>

lemma enqueue_task_refines:
  assumes rep: "disp_rep U s qs bs Lc" and k: "unat type < length (tskq s)"
    and room: "queued s qs < card (u_task U)"
  shows "\<exists>s'. enqueue_task type t s = Inr s' \<and> slots s' = slots s \<and>
    disp_rep U s' (qs(unat type := qs (unat type) @ [t])) bs Lc"
proof -
  obtain xs cs Ls where m: "disp_mem U s xs cs Lc Ls"
    and qs: "\<forall>i<length (tskq s). qs i = tskq_abs (d_heap s) (xs i)" and bs: "bs = mq_abs (d_heap s) cs"
    using rep by (rule disp_repE)
  note d = disp_memD [OF m]
  have "finite (task_cells (tskq s) xs)" by (simp add: task_cells_def)
  then have ne: "u_task U - task_cells (tskq s) xs \<noteq> {}"
    using room queued_cells [OF m qs] card_mono [of "task_cells (tskq s) xs" "u_task U"] by auto
  obtain n h' tp' tq' where call: "tskq_enqueue_tail (d_heap s) (task_mempool s) (tskq s ! unat type) t = Inr (h', tp', tq')"
    and n: "n \<in> u_task U - task_cells (tskq s) xs"
    and ok: "tskqs_ok h' tp' (u_task U - task_cells (tskq s) xs - {n}) (insert n (task_cells (tskq s) xs))
       ((tskq s)[unat type := tq']) (xs(unat type := xs (unat type) @ [n]))"
    and ab: "tskq_abs h' (xs (unat type) @ [n]) = tskq_abs (d_heap s) (xs (unat type)) @ [t]"
      "\<forall>i<length (tskq s). i \<noteq> unat type \<longrightarrow> tskq_abs h' (xs i) = tskq_abs (d_heap s) (xs i)"
    and fr: "\<forall>y. y \<notin> insert n (set (xs (unat type))) \<longrightarrow> h' y = d_heap s y"
    using tskqs_enqueue_tail [OF d(6) k ne, of t] by auto
  define s' where "s' = s\<lparr>d_heap := h', task_mempool := tp', tskq := (tskq s)[unat type := tq']\<rparr>"
  have "set (xs (unat type)) \<subseteq> u_task U" using d(2) k by (auto simp: task_cells_def)
  then have fr': "h' y = d_heap s y" if "y \<notin> u_task U" for y
    using fr n that by auto
  note f = frame_outside_task [OF m fr']
  have cells: "task_cells (tskq s') (xs(unat type := xs (unat type) @ [n])) = insert n (task_cells (tskq s) xs)"
    using k by (simp add: s'_def task_cells_upd task_cells_split)
  have eq: "u_task U - task_cells (tskq s) xs - {n} = u_task U - insert n (task_cells (tskq s) xs)"
    by blast
  have "disp_mem U s' (xs(unat type := xs (unat type) @ [n])) cs Lc Ls"
    unfolding disp_mem_def cells using d(1-5) n f ok [unfolded eq] by (simp add: s'_def)
  then have "disp_rep U s' (qs(unat type := qs (unat type) @ [t])) bs Lc"
    unfolding disp_rep_def
    by (intro exI [of _ "xs(unat type := xs (unat type) @ [n])"] exI [of _ cs] exI [of _ Ls])
      (use qs ab bs f k in \<open>auto simp: s'_def\<close>)
  moreover have "enqueue_task type t s = Inr s'" using call k by (simp add: enqueue_task_def s'_def)
  ultimately show ?thesis by (auto simp: s'_def slots_def)
qed

lemma enqueue_task_dropped:
  assumes rep: "disp_rep U s qs bs Lc" and k: "unat type < length (tskq s)"
    and full: "queued s qs = card (u_task U)"
  shows "enqueue_task type t s = Inr s"
proof -
  obtain xs cs Ls where m: "disp_mem U s xs cs Lc Ls"
    and qs: "\<forall>i<length (tskq s). qs i = tskq_abs (d_heap s) (xs i)"
    using rep by (rule disp_repE)
  note d = disp_memD [OF m]
  have "u_task U = task_cells (tskq s) xs"
    using full queued_cells [OF m qs] card_subset_eq [OF _ d(2)] d(1) by (simp add: universe_ok_def)
  then have "tskq_ok (d_heap s) (task_mempool s) {} (task_cells (tskq s) xs) (tskq s ! unat type) (xs (unat type))"
    using tskqs_ok_one [OF d(6) k] by simp
  then have "tskq_enqueue_tail (d_heap s) (task_mempool s) (tskq s ! unat type) t =
      Inr (d_heap s, task_mempool s, tskq s ! unat type)"
    by (rule tskq_enqueue_tail_full)
  then show ?thesis using k by (simp add: enqueue_task_def)
qed

text \<open>Taking the oldest task of queue \<open>k\<close>.\<close>

lemma dequeue_task_refines:
  assumes rep: "disp_rep U s qs bs Lc" and k: "k < length (tskq s)" and q: "qs k = t # q"
  shows "\<exists>h' tp' tq'. tskq_dequeue (d_heap s) (task_mempool s) (tskq s ! k) = Inr (Some t, h', tp', tq') \<and>
    disp_rep U (s\<lparr>d_heap := h', task_mempool := tp', tskq := (tskq s)[k := tq']\<rparr>) (qs(k := q)) bs Lc"
proof -
  obtain xs cs Ls where m: "disp_mem U s xs cs Lc Ls"
    and qs: "\<forall>i<length (tskq s). qs i = tskq_abs (d_heap s) (xs i)" and bs: "bs = mq_abs (d_heap s) cs"
    using rep by (rule disp_repE)
  note d = disp_memD [OF m]
  obtain x ys where x: "xs k = x # ys" "t = task_load (d_heap s) x" "q = tskq_abs (d_heap s) ys"
    using qs k q by (fastforce simp: tskq_abs_def Cons_eq_map_conv)
  obtain h' tp' tq' where call: "tskq_dequeue (d_heap s) (task_mempool s) (tskq s ! k) = Inr (Some t, h', tp', tq')"
    and ok: "tskqs_ok h' tp' (insert x (u_task U - task_cells (tskq s) xs)) (task_cells (tskq s) xs - {x})
       ((tskq s)[k := tq']) (xs(k := ys))"
    and ab: "tskq_abs h' ys = tskq_abs (d_heap s) ys"
      "\<forall>i<length (tskq s). i \<noteq> k \<longrightarrow> tskq_abs h' (xs i) = tskq_abs (d_heap s) (xs i)"
    and fr: "\<forall>y. y \<notin> insert x (u_task U - task_cells (tskq s) xs) \<longrightarrow> h' y = d_heap s y"
    using tskqs_dequeue [OF d(6) k x(1)] x(2) by auto
  define s' where "s' = s\<lparr>d_heap := h', task_mempool := tp', tskq := (tskq s)[k := tq']\<rparr>"
  have xc: "x \<in> task_cells (tskq s) xs" using k x(1) by (force simp: task_cells_def)
  then have fr': "h' y = d_heap s y" if "y \<notin> u_task U" for y
    using fr that d(2) by auto
  note f = frame_outside_task [OF m fr']
  have "x \<notin> set ys" "\<And>i. i < length (tskq s) \<Longrightarrow> i \<noteq> k \<Longrightarrow> x \<notin> set (xs i)"
    using d(6) k x(1) by (auto simp: tskqs_ok_def tskq_rep_def)
  then have cells: "task_cells (tskq s') (xs(k := ys)) = task_cells (tskq s) xs - {x}"
    using k x(1) by (auto simp: s'_def task_cells_upd task_cells_split)
  have eq: "insert x (u_task U - task_cells (tskq s) xs) = u_task U - (task_cells (tskq s) xs - {x})"
    using xc d(2) by auto
  have "disp_mem U s' (xs(k := ys)) cs Lc Ls"
    unfolding disp_mem_def cells using d(1-5) f ok [unfolded eq] by (auto simp: s'_def)
  then have "disp_rep U s' (qs(k := q)) bs Lc"
    unfolding disp_rep_def
    by (intro exI [of _ "xs(k := ys)"] exI [of _ cs] exI [of _ Ls]) (use qs ab bs f k x in \<open>auto simp: s'_def\<close>)
  then show ?thesis using call by (auto simp: s'_def)
qed

text \<open>
  The choice among the queues, on the abstract view: \<open>wins cfg cur qs n k\<close> says that queue \<open>k\<close>
  is the first one whose oldest task has the largest positive score.
\<close>

definition front_score :: "cfg_parameters \<Rightarrow> u64 \<Rightarrow> (nat \<Rightarrow> task list) \<Rightarrow> nat \<Rightarrow> fl option" where
  "front_score cfg cur qs i =
     (case qs i of [] \<Rightarrow> None | t # _ \<Rightarrow> Some (queue_score cfg i cur (tsk_timestamp t)))"

definition wins :: "cfg_parameters \<Rightarrow> u64 \<Rightarrow> (nat \<Rightarrow> task list) \<Rightarrow> nat \<Rightarrow> nat \<Rightarrow> bool" where
  "wins cfg cur qs n k \<longleftrightarrow> k < n \<and> (\<exists>m. front_score cfg cur qs k = Some m \<and> fl_gt m (Fin 0) \<and>
     (\<forall>j<n. \<forall>c. front_score cfg cur qs j = Some c \<longrightarrow> \<not> fl_gt c m) \<and>
     (\<forall>j<k. \<forall>c. front_score cfg cur qs j = Some c \<longrightarrow> c \<noteq> NaN \<longrightarrow> fl_gt m c))"

definition none_due :: "cfg_parameters \<Rightarrow> u64 \<Rightarrow> (nat \<Rightarrow> task list) \<Rightarrow> nat \<Rightarrow> bool" where
  "none_due cfg cur qs n \<longleftrightarrow>
     (\<forall>j<n. \<forall>c. front_score cfg cur qs j = Some c \<longrightarrow> \<not> fl_gt c (Fin 0))"

lemma head_score_front:
  assumes "disp_rep U s qs bs Lc" and "i < length (tskq s)"
  shows "head_score cfg (d_heap s) (tskq s) cur i = front_score cfg cur qs i"
proof -
  obtain xs cs Ls where m: "disp_mem U s xs cs Lc Ls"
    and qs: "\<forall>i<length (tskq s). qs i = tskq_abs (d_heap s) (xs i)"
    using assms(1) by (rule disp_repE)
  have rep: "tskq_rep (d_heap s) (tskq s ! i) (xs i)"
    using disp_memD(6) [OF m] assms(2) by (simp add: tskqs_ok_def)
  show ?thesis
    using rep qs assms(2)
    by (cases "xs i")
      (auto simp: head_score_def front_score_def get_queue_timestamp_def tskq_rep_def tskq_abs_def task_load_def)
qed

lemma pick_task_refines:
  assumes rep: "disp_rep U s qs bs Lc" and n: "nat (num_ports cfg) \<le> length (tskq s)"
  shows "(\<exists>k t q s'. wins cfg cur qs (nat (num_ports cfg)) k \<and> qs k = t # q \<and>
      pick_task cfg cur s = Inr (Some t, s') \<and> slots s' = slots s \<and> disp_rep U s' (qs(k := q)) bs Lc) \<or>
    (none_due cfg cur qs (nat (num_ports cfg)) \<and> pick_task cfg cur s = Inr (None, s))"
proof -
  let ?n = "nat (num_ports cfg)"
  have fs: "head_score cfg (d_heap s) (tskq s) cur j = front_score cfg cur qs j" if "j < ?n" for j
    using head_score_front [OF rep] that n by simp
  obtain mx index where sc: "smart_scan cfg (d_heap s) (tskq s) cur ?n = (mx, index)" by force
  note spec = smart_scan_spec [of cfg "d_heap s" "tskq s" cur ?n, unfolded sc, simplified]
  show ?thesis
  proof (cases index)
    case None
    then have "none_due cfg cur qs ?n"
      using spec fs by (simp add: scan_none_def none_due_def)
    moreover have "pick_task cfg cur s = Inr (None, s)"
      using sc None n by (simp add: pick_task_def smart_tskq_dequeue_def)
    ultimately show ?thesis by simp
  next
    case (Some k)
    have best: "scan_best cfg (d_heap s) (tskq s) cur ?n k mx" using spec Some by simp
    have k: "k < ?n" using best by (simp add: scan_best_def)
    have fk: "front_score cfg cur qs k = Some mx" using best fs [OF k] by (simp add: scan_best_def)
    then obtain t q where q: "qs k = t # q" by (auto simp: front_score_def split: list.splits)
    have w: "wins cfg cur qs ?n k"
      unfolding wins_def using best fs k fk by (auto simp: scan_best_def)
    obtain h' tp' tq' where call: "tskq_dequeue (d_heap s) (task_mempool s) (tskq s ! k) = Inr (Some t, h', tp', tq')"
      and rep': "disp_rep U (s\<lparr>d_heap := h', task_mempool := tp', tskq := (tskq s)[k := tq']\<rparr>) (qs(k := q)) bs Lc"
      using dequeue_task_refines [OF rep _ q] k n by auto
    have "pick_task cfg cur s = Inr (Some t, s\<lparr>d_heap := h', task_mempool := tp', tskq := (tskq s)[k := tq']\<rparr>)"
      using sc Some n call by (simp add: pick_task_def smart_tskq_dequeue_def)
    then show ?thesis
      using w q rep' by (intro disjI1 exI conjI) (auto simp: slots_def)
  qed
qed

section \<open>The buffer queue\<close>

lemma push_mbuf_refines:
  assumes rep: "disp_rep U s qs bs Lc" and buf: "buf \<noteq> NULL" and room: "length bs < card (u_mcell U)"
  shows "\<exists>s'. push_mbuf buf s = Inr s' \<and> slots s' = slots s \<and> disp_rep U s' qs (buf # bs) Lc"
proof -
  obtain xs cs Ls where m: "disp_mem U s xs cs Lc Ls"
    and qs: "\<forall>i<length (tskq s). qs i = tskq_abs (d_heap s) (xs i)" and bs: "bs = mq_abs (d_heap s) cs"
    using rep by (rule disp_repE)
  note d = disp_memD [OF m]
  have "card (set cs) \<le> length bs" using bs by (simp add: mq_abs_def card_length)
  then have ne: "u_mcell U - set cs \<noteq> {}"
    using room card_mono [of "set cs" "u_mcell U"] by auto
  obtain n h' mp' where call: "mbuf_enqueue (d_heap s) (mcell_mempool s) (mqueue s) buf = Inr (h', mp', n)"
    and n: "n \<in> u_mcell U - set cs"
    and ok: "mq_ok h' mp' (u_mcell U - set cs - {n}) (insert n (set cs)) n (n # cs)"
    and ab: "mq_abs h' (n # cs) = buf # mq_abs (d_heap s) cs"
    and fr: "\<forall>y. y \<noteq> n \<longrightarrow> h' y = d_heap s y"
    using mbuf_enqueue_room [OF d(7) ne buf] by auto
  define s' where "s' = s\<lparr>d_heap := h', mcell_mempool := mp', mqueue := n\<rparr>"
  have fr': "h' y = d_heap s y" if "y \<notin> u_mcell U" for y
    using fr n that by auto
  note f = frame_outside_mcell [OF m fr']
  have eq: "u_mcell U - set cs - {n} = u_mcell U - set (n # cs)" by auto
  have "disp_mem U s' xs (n # cs) Lc Ls"
    unfolding disp_mem_def using d(1-5) n f ok [unfolded eq] by (simp add: s'_def)
  then have "disp_rep U s' qs (buf # bs) Lc"
    unfolding disp_rep_def
    by (intro exI [of _ xs] exI [of _ "n # cs"] exI [of _ Ls]) (use qs ab bs f in \<open>auto simp: s'_def\<close>)
  moreover have "push_mbuf buf s = Inr s'" using call by (simp add: push_mbuf_def s'_def)
  ultimately show ?thesis by (auto simp: s'_def slots_def)
qed

lemma pop_mbuf_empty: "disp_rep U s qs [] Lc \<Longrightarrow> pop_mbuf s = Inr (NULL, s)"
  by (auto elim!: disp_repE simp: disp_mem_def mq_ok_def mq_abs_def pop_mbuf_def mbuf_dequeue_empty)

lemma pop_mbuf_refines:
  assumes rep: "disp_rep U s qs (b # bs) Lc"
  shows "\<exists>s'. pop_mbuf s = Inr (b, s') \<and> b \<noteq> NULL \<and> slots s' = slots s \<and> disp_rep U s' qs bs Lc"
proof -
  obtain xs cs' Ls where m: "disp_mem U s xs cs' Lc Ls"
    and qs: "\<forall>i<length (tskq s). qs i = tskq_abs (d_heap s) (xs i)" and bs: "b # bs = mq_abs (d_heap s) cs'"
    using rep by (rule disp_repE)
  then obtain c cs where c: "cs' = c # cs" "b = d_heap s c MCELL_BUFFER" "bs = mq_abs (d_heap s) cs"
    by (auto simp: mq_abs_def Cons_eq_map_conv)
  note m = m [unfolded c(1)]
  note d = disp_memD [OF m]
  have b: "b \<noteq> NULL" using d(7) c by (auto simp: mq_ok_def mq_abs_def)
  have dc: "c \<notin> set cs" using d(7) by (simp add: mq_ok_def mq_rep_def)
  obtain h' mp' mq' where call: "mbuf_dequeue (d_heap s) (mcell_mempool s) (mqueue s) = Inr (b, h', mp', mq')"
    and ok: "mq_ok h' mp' (insert c (u_mcell U - set (c # cs))) (set (c # cs) - {c}) mq' cs"
    and ab: "mq_abs h' cs = mq_abs (d_heap s) cs"
    and fr: "\<forall>y. y \<notin> insert c (u_mcell U - set (c # cs)) \<longrightarrow> h' y = d_heap s y"
    using mbuf_dequeue_some [OF d(7)] c(2) by auto
  define s' where "s' = s\<lparr>d_heap := h', mcell_mempool := mp', mqueue := mq'\<rparr>"
  have cU: "c \<in> u_mcell U" using d(3) by simp
  then have fr': "h' y = d_heap s y" if "y \<notin> u_mcell U" for y
    using fr that by auto
  note f = frame_outside_mcell [OF m fr']
  have eq: "insert c (u_mcell U - set (c # cs)) = u_mcell U - set cs" "set (c # cs) - {c} = set cs"
    using cU dc by auto
  have "disp_mem U s' xs cs Lc Ls"
    unfolding disp_mem_def using d(1-5) f ok [unfolded eq] by (simp add: s'_def)
  then have "disp_rep U s' qs bs Lc"
    unfolding disp_rep_def
    by (intro exI [of _ xs] exI [of _ cs] exI [of _ Ls]) (use qs ab c f in \<open>auto simp: s'_def\<close>)
  moreover have "pop_mbuf s = Inr (b, s')" using call by (simp add: pop_mbuf_def s'_def)
  ultimately show ?thesis using b by (auto simp: s'_def slots_def)
qed

section \<open>Contexts\<close>

definition ctx_capacity :: "universe \<Rightarrow> nat" where
  "ctx_capacity U = min (card (u_ctx U)) (card (u_stack U))"

lemma disp_mem_ctx:
  assumes m: "disp_mem U s xs cs Lc Ls"
    and eq: "\<And>y. y \<notin> u_ctx U \<union> u_stack U \<Longrightarrow> h' y = d_heap s y"
    and ok: "ctx_ok h' cp' sp' (u_ctx U - Lc') Lc' (u_stack U - Ls') Ls'" "Lc' \<subseteq> u_ctx U" "Ls' \<subseteq> u_stack U"
  shows "disp_mem U (s\<lparr>d_heap := h', context_pool := cp', stack_pool := sp'\<rparr>) xs cs Lc' Ls'"
  using disp_memD [OF m] frame_outside_ctx [OF m eq] ok by (simp add: disp_mem_def)

lemma disp_rep_ctx:
  assumes m: "disp_mem U s xs cs Lc Ls" and qs: "\<forall>i<length (tskq s). qs i = tskq_abs (d_heap s) (xs i)"
    and bs: "bs = mq_abs (d_heap s) cs"
    and eq: "\<And>y. y \<notin> u_ctx U \<union> u_stack U \<Longrightarrow> h' y = d_heap s y"
    and ok: "ctx_ok h' cp' sp' (u_ctx U - Lc') Lc' (u_stack U - Ls') Ls'" "Lc' \<subseteq> u_ctx U" "Ls' \<subseteq> u_stack U"
  shows "disp_rep U (s\<lparr>d_heap := h', context_pool := cp', stack_pool := sp'\<rparr>) qs bs Lc'"
  unfolding disp_rep_def
  by (intro exI [of _ xs] exI [of _ cs] exI [of _ Ls'] conjI disp_mem_ctx [OF m eq ok])
    (use frame_outside_ctx [OF m eq] qs bs in auto)

lemma alloc_context_refines:
  assumes rep: "disp_rep U s qs bs Lc" and room: "card Lc < ctx_capacity U"
  shows "\<exists>c s'. alloc_context s = Inr (Some c, s') \<and> c \<notin> Lc \<and> c \<noteq> NULL \<and> slots s' = slots s \<and>
    disp_rep U s' qs bs (insert c Lc)"
proof -
  obtain xs cs Ls where m: "disp_mem U s xs cs Lc Ls"
    and qs: "\<forall>i<length (tskq s). qs i = tskq_abs (d_heap s) (xs i)" and bs: "bs = mq_abs (d_heap s) cs"
    using rep by (rule disp_repE)
  note d = disp_memD [OF m]
  have "card Lc = card Ls"
    using d(8) bij_betw_same_card by (auto simp: ctx_ok_def)
  then have ne: "u_ctx U - Lc \<noteq> {}" "u_stack U - Ls \<noteq> {}"
    using room d(1,4,5) by (auto simp: ctx_capacity_def)
  obtain c st h' cp' sp' where
    call: "context_alloc (d_heap s) (context_pool s) (stack_pool s) = Inr (Some c, h', cp', sp')"
    and c: "c \<in> u_ctx U - Lc" "st \<in> u_stack U - Ls" "c \<noteq> NULL"
    and ok: "ctx_ok h' cp' sp' (u_ctx U - Lc - {c}) (insert c Lc) (u_stack U - Ls - {st}) (insert st Ls)"
    and fr: "\<forall>y. y \<noteq> c \<longrightarrow> h' y = d_heap s y"
    using context_alloc_some [OF d(8) ne] by auto
  have eq: "u_ctx U - Lc - {c} = u_ctx U - insert c Lc" "u_stack U - Ls - {st} = u_stack U - insert st Ls"
    by auto
  have "disp_rep U (s\<lparr>d_heap := h', context_pool := cp', stack_pool := sp'\<rparr>) qs bs (insert c Lc)"
    by (rule disp_rep_ctx [OF m qs bs _ ok [unfolded eq]]) (use fr c d(4,5) in auto)
  then show ?thesis
    using call c by (auto simp: alloc_context_def slots_def)
qed

lemma alloc_context_refused:
  assumes rep: "disp_rep U s qs bs Lc" and full: "ctx_capacity U \<le> card Lc"
  shows "\<exists>s'. alloc_context s = Inr (None, s') \<and> slots s' = slots s \<and> disp_rep U s' qs bs Lc"
proof -
  obtain xs cs Ls where m: "disp_mem U s xs cs Lc Ls"
    and qs: "\<forall>i<length (tskq s). qs i = tskq_abs (d_heap s) (xs i)" and bs: "bs = mq_abs (d_heap s) cs"
    using rep by (rule disp_repE)
  note d = disp_memD [OF m]
  have "card Lc = card Ls"
    using d(8) bij_betw_same_card by (auto simp: ctx_ok_def)
  moreover have "finite (u_ctx U)" "finite (u_stack U)" using d(1) by (simp_all add: universe_ok_def)
  ultimately have "Lc = u_ctx U \<or> Ls = u_stack U"
    using full d(4,5) card_subset_eq [of "u_ctx U" Lc] card_subset_eq [of "u_stack U" Ls]
      card_mono [of "u_ctx U" Lc] card_mono [of "u_stack U" Ls]
    by (simp add: ctx_capacity_def) linarith
  then obtain h' cp' sp' where
    call: "context_alloc (d_heap s) (context_pool s) (stack_pool s) = Inr (None, h', cp', sp')"
    and ok: "ctx_ok h' cp' sp' (u_ctx U - Lc) Lc (u_stack U - Ls) Ls"
    and fr: "\<forall>y. y \<notin> u_ctx U - Lc \<longrightarrow> h' y = d_heap s y"
    using context_alloc_none [OF d(8)] by auto
  have "disp_rep U (s\<lparr>d_heap := h', context_pool := cp', stack_pool := sp'\<rparr>) qs bs Lc"
    by (rule disp_rep_ctx [OF m qs bs _ ok d(4,5)]) (use fr in auto)
  then show ?thesis
    using call by (auto simp: alloc_context_def slots_def)
qed

lemma free_context_refines:
  assumes rep: "disp_rep U s qs bs Lc" and c: "c \<in> Lc"
  shows "\<exists>s'. free_context c s = Inr s' \<and> slots s' = slots s \<and> disp_rep U s' qs bs (Lc - {c})"
proof -
  obtain xs cs Ls where m: "disp_mem U s xs cs Lc Ls"
    and qs: "\<forall>i<length (tskq s). qs i = tskq_abs (d_heap s) (xs i)" and bs: "bs = mq_abs (d_heap s) cs"
    using rep by (rule disp_repE)
  note d = disp_memD [OF m]
  obtain st where st: "st = d_heap s c UC_SS_SP" by simp
  obtain h' cp' sp' where call: "context_free (d_heap s) (context_pool s) (stack_pool s) c = Inr (h', cp', sp')"
    and stL: "st \<in> Ls"
    and ok: "ctx_ok h' cp' sp' (insert c (u_ctx U - Lc)) (Lc - {c}) (insert st (u_stack U - Ls)) (Ls - {st})"
    and fr: "\<forall>y. y \<notin> insert c (u_ctx U - Lc) \<union> insert st (u_stack U - Ls) \<longrightarrow> h' y = d_heap s y"
    using context_free_live [OF d(8) c] st by auto
  have eq: "insert c (u_ctx U - Lc) = u_ctx U - (Lc - {c})" "insert st (u_stack U - Ls) = u_stack U - (Ls - {st})"
    using c stL d(4,5) by auto
  have "disp_rep U (s\<lparr>d_heap := h', context_pool := cp', stack_pool := sp'\<rparr>) qs bs (Lc - {c})"
    by (rule disp_rep_ctx [OF m qs bs _ ok [unfolded eq]]) (use fr [unfolded eq] d(4,5) in auto)
  then show ?thesis
    using call by (auto simp: free_context_def slots_def)
qed

section \<open>Updates of the slots keep the view\<close>

lemma disp_rep_slots [simp]:
  "disp_rep U (s\<lparr>timestamps := a\<rparr>) = disp_rep U s" "disp_rep U (s\<lparr>preempt_check := b\<rparr>) = disp_rep U s"
  "disp_rep U (s\<lparr>networker_pointers := n\<rparr>) = disp_rep U s" "disp_rep U (s\<lparr>worker_responses := w\<rparr>) = disp_rep U s"
  "disp_rep U (s\<lparr>dispatcher_requests := r\<rparr>) = disp_rep U s" "disp_rep U (s\<lparr>d_ipis := z\<rparr>) = disp_rep U s"
  by (simp_all add: disp_rep_def [abs_def] disp_mem_def)

lemma disp_rep_setters [simp]:
  "disp_rep U (set_wr_flag i v s) = disp_rep U s" "disp_rep U (set_dr_flag i v s) = disp_rep U s"
  "disp_rep U (set_preempt_check i b s) = disp_rep U s" "disp_rep U (fill_request i t cur s) = disp_rep U s"
  by (simp_all add: set_wr_flag_def set_dr_flag_def set_preempt_check_def fill_request_def Let_def)

section \<open>Handlers\<close>

definition response_task :: "worker_response \<Rightarrow> task" where
  "response_task r = \<lparr>tsk_runnable = wr_rnbl r, tsk_mbuf = wr_mbuf r, tsk_type = wr_type r,
     tsk_category = wr_category r, tsk_timestamp = wr_timestamp r\<rparr>"

definition request_task :: "dispatcher_request \<Rightarrow> task" where
  "request_task r = \<lparr>tsk_runnable = dr_rnbl r, tsk_mbuf = dr_mbuf r, tsk_type = dr_type r,
     tsk_category = dr_category r, tsk_timestamp = dr_timestamp r\<rparr>"

text \<open>Marking a response as processed.\<close>

definition mark_processed :: "nat \<Rightarrow> dp_state \<Rightarrow> dp_state" where
  "mark_processed i s = set_wr_flag i PROCESSED (set_preempt_check i False s)"

lemma mark_processed_slots: "slots s' = slots s \<Longrightarrow> slots (mark_processed i s') = slots (mark_processed i s)"
  by (simp add: slots_def mark_processed_def set_wr_flag_def set_preempt_check_def)

lemma mark_processed_rep [simp]: "disp_rep U (mark_processed i s) = disp_rep U s"
  by (simp add: mark_processed_def)

lemma handle_finished_refines:
  assumes rep: "disp_rep U s qs bs Lc" and c: "wr_rnbl (worker_responses s ! i) \<in> Lc"
    and b: "wr_mbuf (worker_responses s ! i) \<noteq> NULL" and room: "length bs < card (u_mcell U)"
  shows "\<exists>s'. handle_finished i s = Inr s' \<and> slots s' = slots (mark_processed i s) \<and>
    disp_rep U s' qs (wr_mbuf (worker_responses s ! i) # bs) (Lc - {wr_rnbl (worker_responses s ! i)})"
proof -
  obtain s1 where s1: "free_context (wr_rnbl (worker_responses s ! i)) s = Inr s1" "slots s1 = slots s"
    and r1: "disp_rep U s1 qs bs (Lc - {wr_rnbl (worker_responses s ! i)})"
    using free_context_refines [OF rep c] by auto
  have wr: "worker_responses s1 = worker_responses s" using s1(2) by (simp add: slots_eq_iff)
  obtain s2 where s2: "push_mbuf (wr_mbuf (worker_responses s ! i)) s1 = Inr s2" "slots s2 = slots s1"
    and r2: "disp_rep U s2 qs (wr_mbuf (worker_responses s ! i) # bs) (Lc - {wr_rnbl (worker_responses s ! i)})"
    using push_mbuf_refines [OF r1 b room] by auto
  have "handle_finished i s = Inr (mark_processed i s2)"
    using s1 s2 by (simp add: handle_finished_def wr mark_processed_def)
  then show ?thesis using r2 s1 s2 mark_processed_slots [of s2 s i] by simp
qed

lemma handle_preempted_refines:
  assumes rep: "disp_rep U s qs bs Lc" and k: "unat (wr_type (worker_responses s ! i)) < length (tskq s)"
    and room: "queued s qs < card (u_task U)"
  defines "k \<equiv> unat (wr_type (worker_responses s ! i))"
  shows "\<exists>s'. handle_preempted i s = Inr s' \<and> slots s' = slots (mark_processed i s) \<and>
    disp_rep U s' (qs(k := qs k @ [response_task (worker_responses s ! i)])) bs Lc"
proof -
  obtain s1 where s1: "enqueue_task (wr_type (worker_responses s ! i)) (response_task (worker_responses s ! i)) s = Inr s1"
    "slots s1 = slots s" and r1: "disp_rep U s1 (qs(k := qs k @ [response_task (worker_responses s ! i)])) bs Lc"
    using enqueue_task_refines [OF rep k room] by (auto simp: k_def)
  have "handle_preempted i s = Inr (mark_processed i s1)"
    using s1 by (simp add: handle_preempted_def response_task_def mark_processed_def Let_def)
  then show ?thesis using r1 s1 mark_processed_slots [of s1 s i] by simp
qed

lemma fill_request_slots: "slots s' = slots s \<Longrightarrow> slots (fill_request i t cur s') = slots (fill_request i t cur s)"
  by (simp add: slots_def fill_request_def set_wr_flag_def Let_def)

lemma prepare_request_refines:
  assumes rep: "disp_rep U s qs bs Lc" and n: "nat (num_ports cfg) \<le> length (tskq s)"
  shows "(\<exists>k t q s'. wins cfg cur qs (nat (num_ports cfg)) k \<and> qs k = t # q \<and>
      prepare_request cfg i cur s = Inr (True, s') \<and> slots s' = slots (fill_request i t cur s) \<and>
      disp_rep U s' (qs(k := q)) bs Lc) \<or>
    (none_due cfg cur qs (nat (num_ports cfg)) \<and> prepare_request cfg i cur s = Inr (False, s))"
  using pick_task_refines [OF rep n, of cur]
proof (elim disjE exE conjE)
  fix k t q s'
  assume w: "wins cfg cur qs (nat (num_ports cfg)) k" "qs k = t # q"
    and p: "pick_task cfg cur s = Inr (Some t, s')" "slots s' = slots s" and r: "disp_rep U s' (qs(k := q)) bs Lc"
  then have "prepare_request cfg i cur s = Inr (True, fill_request i t cur s')"
    by (simp add: prepare_request_def)
  then show ?thesis
    using w r fill_request_slots [OF p(2), of i t cur]
    by (intro disjI1 exI [of _ k] exI [of _ t] exI [of _ q] exI [of _ "fill_request i t cur s'"]) simp
qed (simp add: prepare_request_def)

section \<open>Exchange with the networking core\<close>

definition waiting :: "nat \<Rightarrow> (nat \<Rightarrow> task list) \<Rightarrow> task multiset" where
  "waiting n qs = (\<Sum>i<n. mset (qs i))"

lemma waiting_upd: "k < n \<Longrightarrow> waiting n (qs(k := q)) + mset (qs k) = waiting n qs + mset q"
proof -
  assume k: "k < n"
  have *: "(\<Sum>i<n. mset (f i)) = mset (f k) + (\<Sum>i\<in>{..<n} - {k}. mset (f i))" for f :: "nat \<Rightarrow> task list"
    using k by (simp add: sum.remove)
  have "(\<Sum>i\<in>{..<n} - {k}. mset ((qs(k := q)) i)) = (\<Sum>i\<in>{..<n} - {k}. mset (qs i))"
    by (rule sum.cong) auto
  then show ?thesis
    using * [of qs] * [of "qs(k := q)"] by (simp add: waiting_def)
qed

lemma waiting_enq: "k < n \<Longrightarrow> waiting n (qs(k := qs k @ [t])) = add_mset t (waiting n qs)"
  using waiting_upd [of k n qs "qs k @ [t]"] by (simp add: union_commute)

lemma waiting_deq: "k < n \<Longrightarrow> qs k = t # q \<Longrightarrow> waiting n qs = add_mset t (waiting n (qs(k := q)))"
  using waiting_upd [of k n qs q] by simp

lemma queued_waiting: "queued s qs = size (waiting (length (tskq s)) qs)"
  by (simp add: queued_def waiting_def size_multiset_sum)

lemma disp_rep_finite:
  assumes "disp_rep U s qs bs Lc"
  shows "finite Lc" "Lc \<subseteq> u_ctx U" "NULL \<notin> Lc"
proof -
  obtain xs cs Ls where m: "disp_mem U s xs cs Lc Ls" using assms by (rule disp_repE)
  note d = disp_memD [OF m]
  show "Lc \<subseteq> u_ctx U" by (rule d(4))
  then show "finite Lc" using d(1) by (auto simp: universe_ok_def intro: finite_subset)
  show "NULL \<notin> Lc" using mp.ok_sets [OF ctx_ok_parts(1) [OF d(8)]] by simp
qed

text \<open>The task made of a received packet.\<close>

definition packet_task :: "addr \<Rightarrow> addr \<Rightarrow> u8 \<Rightarrow> u64 \<Rightarrow> task" where
  "packet_task c p type cur = \<lparr>tsk_runnable = c, tsk_mbuf = p, tsk_type = type, tsk_category = PACKET, tsk_timestamp = cur\<rparr>"

lemma intake_packet_refines:
  assumes rep: "disp_rep U s qs bs Lc"
    and i: "i < length (np_pkts (networker_pointers s))"
    and k: "unat (np_types (networker_pointers s) ! i) < length (tskq s)"
    and p: "np_pkts (networker_pointers s) ! i \<noteq> NULL"
    and few: "queued s qs \<le> card Lc" "ctx_capacity U \<le> card (u_task U)"
    and room: "ctx_capacity U \<le> card Lc \<Longrightarrow> length bs < card (u_mcell U)"
  defines "p \<equiv> np_pkts (networker_pointers s) ! i" and "ty \<equiv> np_types (networker_pointers s) ! i"
  shows "\<exists>s'. intake_packet cur i s = Inr s' \<and> slots s' = slots s \<and>
    ((card Lc < ctx_capacity U \<and> (\<exists>c. c \<notin> Lc \<and>
        disp_rep U s' (qs(unat ty := qs (unat ty) @ [packet_task c p ty cur])) bs (insert c Lc))) \<or>
     (ctx_capacity U \<le> card Lc \<and> disp_rep U s' qs (p # bs) Lc))"
proof (cases "card Lc < ctx_capacity U")
  case True
  obtain c s1 where a: "alloc_context s = Inr (Some c, s1)" "c \<notin> Lc" "slots s1 = slots s"
    and r1: "disp_rep U s1 qs bs (insert c Lc)"
    using alloc_context_refines [OF rep True] by auto
  have np: "networker_pointers s1 = networker_pointers s" and len: "length (tskq s1) = length (tskq s)"
    using a(3) by (simp_all add: slots_eq_iff)
  have "queued s1 qs < card (u_task U)"
    using few True len by (simp add: queued_def)
  then obtain s2 where e: "enqueue_task ty (packet_task c p ty cur) s1 = Inr s2" "slots s2 = slots s1"
    and r2: "disp_rep U s2 (qs(unat ty := qs (unat ty) @ [packet_task c p ty cur])) bs (insert c Lc)"
    using enqueue_task_refines [OF r1, of ty "packet_task c p ty cur"] k len by (auto simp: ty_def)
  have "intake_packet cur i s = Inr s2"
    using a(1) e(1) i np by (simp add: intake_packet_def packet_task_def p_def ty_def Let_def)
  then show ?thesis using True a e r2 by auto
next
  case False
  obtain s1 where a: "alloc_context s = Inr (None, s1)" "slots s1 = slots s" and r1: "disp_rep U s1 qs bs Lc"
    using alloc_context_refused [OF rep] False by auto
  have np: "networker_pointers s1 = networker_pointers s" using a(2) by (simp add: slots_eq_iff)
  obtain s2 where e: "push_mbuf p s1 = Inr s2" "slots s2 = slots s1" and r2: "disp_rep U s2 qs (p # bs) Lc"
    using push_mbuf_refines [OF r1, of p] assms(4) room False by (auto simp: p_def)
  have "intake_packet cur i s = Inr s2"
    using a(1) e(1) i np by (simp add: intake_packet_def p_def)
  then show ?thesis using False a e r2 by auto
qed

text \<open>
  \<open>absorbed n ps v v'\<close> accounts for a batch \<open>ps\<close>: every buffer is either waiting in a task or in
  the queue of returned buffers, and every new context belongs to exactly one new task.
\<close>

definition absorbed ::
  "nat \<Rightarrow> addr list \<Rightarrow> (nat \<Rightarrow> task list) \<times> addr list \<times> addr set \<Rightarrow> (nat \<Rightarrow> task list) \<times> addr list \<times> addr set \<Rightarrow> bool" where
  "absorbed n ps v v' \<longleftrightarrow> (case v of (qs, bs, Lc) \<Rightarrow> case v' of (qs', bs', Lc') \<Rightarrow>
     image_mset tsk_mbuf (waiting n qs') + mset bs' = image_mset tsk_mbuf (waiting n qs) + mset bs + mset ps \<and>
     image_mset tsk_runnable (waiting n qs') + mset_set Lc = image_mset tsk_runnable (waiting n qs) + mset_set Lc' \<and>
     Lc \<subseteq> Lc' \<and> finite Lc' \<and> length bs' + card Lc' = length bs + card Lc + length ps \<and>
     (\<forall>t\<in>#waiting n qs'. t \<in># waiting n qs \<or> unat (tsk_type t) < n \<and> tsk_mbuf t \<in> set ps))"

lemma absorbed_refl: "finite Lc \<Longrightarrow> absorbed n [] (qs, bs, Lc) (qs, bs, Lc)"
  by (simp add: absorbed_def)

lemma absorbed_step:
  assumes "absorbed n [p] (qs, bs, Lc) v1" and "absorbed n ps v1 v2"
  shows "absorbed n (p # ps) (qs, bs, Lc) v2"
proof -
  obtain qs1 bs1 Lc1 qs2 bs2 Lc2 where v: "v1 = (qs1, bs1, Lc1)" "v2 = (qs2, bs2, Lc2)"
    by (metis prod_cases3)
  have "image_mset tsk_runnable (waiting n qs2) + mset_set Lc = image_mset tsk_runnable (waiting n qs) + mset_set Lc2"
    if "image_mset tsk_runnable (waiting n qs2) + mset_set Lc1 = image_mset tsk_runnable (waiting n qs1) + mset_set Lc2"
      "image_mset tsk_runnable (waiting n qs1) + mset_set Lc = image_mset tsk_runnable (waiting n qs) + mset_set Lc1"
  proof (rule multiset_eqI)
    show "count (image_mset tsk_runnable (waiting n qs2) + mset_set Lc) x =
        count (image_mset tsk_runnable (waiting n qs) + mset_set Lc2) x" for x
      using arg_cong [OF that(1), of "\<lambda>M. count M x"] arg_cong [OF that(2), of "\<lambda>M. count M x"] by simp
  qed
  then show ?thesis
    using assms unfolding v absorbed_def prod.case by auto
qed

lemma absorbed_intake:
  assumes "c \<notin> Lc" and "finite Lc" and "unat ty < n"
  shows "absorbed n [p] (qs, bs, Lc) (qs(unat ty := qs (unat ty) @ [packet_task c p ty cur]), bs, insert c Lc)"
  using assms by (auto simp: absorbed_def waiting_enq packet_task_def)

lemma absorbed_push: "finite Lc \<Longrightarrow> absorbed n [p] (qs, bs, Lc) (qs, p # bs, Lc)"
  by (simp add: absorbed_def)

lemma absorbed_queued:
  assumes "absorbed n ps (qs, bs, Lc) (qs', bs', Lc')" and "size (waiting n qs) \<le> card Lc"
  shows "size (waiting n qs') \<le> card Lc'"
proof -
  have "image_mset tsk_runnable (waiting n qs') + mset_set Lc = image_mset tsk_runnable (waiting n qs) + mset_set Lc'"
    using assms(1) by (simp add: absorbed_def)
  from arg_cong [OF this, of size] show ?thesis using assms(2) by simp
qed

lemma intake_loop_refines:
  assumes "disp_rep U s qs bs Lc"
    and "\<forall>i\<in>set is. i < length (np_pkts (networker_pointers s)) \<and>
      unat (np_types (networker_pointers s) ! i) < length (tskq s) \<and> np_pkts (networker_pointers s) ! i \<noteq> NULL"
    and "size (waiting (length (tskq s)) qs) \<le> card Lc" "ctx_capacity U \<le> card (u_task U)"
    and "length bs + card Lc + length is \<le> ctx_capacity U + card (u_mcell U)"
  shows "\<exists>s' qs' bs' Lc'. intake_loop cur is s = Inr s' \<and> slots s' = slots s \<and> disp_rep U s' qs' bs' Lc' \<and>
    absorbed (length (tskq s)) (map (\<lambda>i. np_pkts (networker_pointers s) ! i) is) (qs, bs, Lc) (qs', bs', Lc')"
  using assms
proof (induction "is" arbitrary: s qs bs Lc)
  case Nil
  then show ?case using absorbed_refl disp_rep_finite(1) by fastforce
next
  case (Cons i "is")
  let ?n = "length (tskq s)" and ?p = "np_pkts (networker_pointers s) ! i" and ?ty = "np_types (networker_pointers s) ! i"
  have fin: "finite Lc" using Cons.prems(1) by (rule disp_rep_finite)
  have k: "unat ?ty < ?n" using Cons.prems(2) by simp
  obtain s1 where s1: "intake_packet cur i s = Inr s1" "slots s1 = slots s"
    and alt: "(card Lc < ctx_capacity U \<and> (\<exists>c. c \<notin> Lc \<and>
        disp_rep U s1 (qs(unat ?ty := qs (unat ?ty) @ [packet_task c ?p ?ty cur])) bs (insert c Lc))) \<or>
     (ctx_capacity U \<le> card Lc \<and> disp_rep U s1 qs (?p # bs) Lc)"
    using intake_packet_refines [OF Cons.prems(1), of i cur] Cons.prems(2-5)
    by (auto simp: queued_waiting)
  obtain qs1 bs1 Lc1 where r1: "disp_rep U s1 qs1 bs1 Lc1" and a1: "absorbed ?n [?p] (qs, bs, Lc) (qs1, bs1, Lc1)"
    using alt absorbed_intake [OF _ fin k] absorbed_push [OF fin] by blast
  have eq: "length (tskq s1) = ?n" "networker_pointers s1 = networker_pointers s"
    using s1(2) by (simp_all add: slots_eq_iff)
  have "length bs1 + card Lc1 = length bs + card Lc + 1"
    using a1 by (simp add: absorbed_def)
  then obtain s' qs' bs' Lc' where s': "intake_loop cur is s1 = Inr s'" "slots s' = slots s1" "disp_rep U s' qs' bs' Lc'"
    and a2: "absorbed ?n (map (\<lambda>i. np_pkts (networker_pointers s) ! i) is) (qs1, bs1, Lc1) (qs', bs', Lc')"
    using Cons.IH [OF r1] Cons.prems(2-5) absorbed_queued [OF a1] unfolding eq by auto
  have "absorbed ?n (map (\<lambda>i. np_pkts (networker_pointers s) ! i) (i # is)) (qs, bs, Lc) (qs', bs', Lc')"
    using absorbed_step [OF a1 a2] by simp
  moreover have "intake_loop cur (i # is) s = Inr s'" using s1 s' by simp
  ultimately show ?case using s1(2) s'(2,3) by auto
qed

definition returned :: "nat \<Rightarrow> addr list \<Rightarrow> nat \<Rightarrow> networker_pointers_t \<Rightarrow> networker_pointers_t" where
  "returned k bs m np = np\<lparr>np_pkts := take k (np_pkts np) @ take m bs @ drop (k + m) (np_pkts np),
     np_free_cnt := np_free_cnt np + of_nat m\<rparr>"

lemma returned_Suc:
  assumes "k < length (np_pkts np)"
  shows "returned (Suc k) bs m (np\<lparr>np_pkts := (np_pkts np)[k := b], np_free_cnt := np_free_cnt np + 1\<rparr>) =
    returned k (b # bs) (Suc m) np"
  using assms by (simp add: returned_def take_Suc_conv_app_nth add.assoc)

lemma return_loop_refines:
  assumes "disp_rep U s qs bs Lc" and "n \<le> length (np_pkts (networker_pointers s))" and "k \<le> n"
  shows "\<exists>s'. return_loop [k..<n] s = Inr s' \<and> disp_rep U s' qs (drop (min (n - k) (length bs)) bs) Lc \<and>
    slots s' = slots (s\<lparr>networker_pointers := returned k bs (min (n - k) (length bs)) (networker_pointers s)\<rparr>)"
  using assms
proof (induction "n - k" arbitrary: k s bs)
  case 0
  then show ?case by (simp add: returned_def slots_def)
next
  case (Suc d)
  let ?np = "networker_pointers s"
  have kn: "[k..<n] = k # [Suc k..<n]" using Suc.hyps(2) by (simp add: upt_conv_Cons)
  show ?case
  proof (cases bs)
    case Nil
    then have "return_loop [k..<n] s = Inr s" using pop_mbuf_empty Suc.prems(1) by (simp add: kn)
    then show ?thesis using Suc.prems Nil by (simp add: returned_def slots_def)
  next
    case (Cons b bs1)
    obtain s1 where s1: "pop_mbuf s = Inr (b, s1)" "b \<noteq> NULL" "slots s1 = slots s" and r1: "disp_rep U s1 qs bs1 Lc"
      using pop_mbuf_refines Suc.prems(1) Cons by blast
    have np: "networker_pointers s1 = ?np" using s1(3) by (simp add: slots_eq_iff)
    define np2 where "np2 = ?np\<lparr>np_pkts := (np_pkts ?np)[k := b], np_free_cnt := np_free_cnt ?np + 1\<rparr>"
    define s2 where "s2 = s1\<lparr>networker_pointers := np2\<rparr>"
    have r2: "disp_rep U s2 qs bs1 Lc" using r1 by (simp add: s2_def)
    have call: "return_loop [k..<n] s = return_loop [Suc k..<n] s2"
      using s1 np by (simp add: kn s2_def np2_def Let_def)
    have "n \<le> length (np_pkts (networker_pointers s2))" "Suc k \<le> n" "d = n - Suc k"
      using Suc.prems(2) Suc.hyps(2) by (simp_all add: s2_def np2_def)
    then obtain s' where s': "return_loop [Suc k..<n] s2 = Inr s'" "disp_rep U s' qs (drop (min (n - Suc k) (length bs1)) bs1) Lc"
      "slots s' = slots (s2\<lparr>networker_pointers := returned (Suc k) bs1 (min (n - Suc k) (length bs1)) (networker_pointers s2)\<rparr>)"
      using Suc.hyps(1) [OF _ r2] by blast
    have m: "min (n - k) (length bs) = Suc (min (n - Suc k) (length bs1))"
      using Cons Suc.hyps(2) by simp
    have "returned (Suc k) bs1 (min (n - Suc k) (length bs1)) np2 = returned k bs (min (n - k) (length bs)) ?np"
      using returned_Suc [of k ?np bs1 "min (n - Suc k) (length bs1)" b] m Cons Suc.prems(2) Suc.hyps(2)
      by (simp add: np2_def)
    then have "slots s' = slots (s\<lparr>networker_pointers := returned k bs (min (n - k) (length bs)) ?np\<rparr>)"
      using s'(3) s1(3) by (simp add: s2_def slots_def)
    then show ?thesis using call s' m Cons by simp
  qed
qed

text \<open>
  One exchange.  The number of buffers that are held for a context or on their way back does
  not grow beyond the context capacity, because either a full batch is handed back or the
  queue of returned buffers is emptied.
\<close>

lemma handle_networker_refines:
  assumes rep: "disp_rep U s qs bs Lc" and cnt: "np_cnt (networker_pointers s) \<noteq> 0"
    and bounds: "unat (np_cnt (networker_pointers s)) \<le> ETH_RX_MAX_BATCH"
      "length (np_pkts (networker_pointers s)) = ETH_RX_MAX_BATCH" "np_free_cnt (networker_pointers s) = 0"
    and pk: "\<forall>i<unat (np_cnt (networker_pointers s)).
      unat (np_types (networker_pointers s) ! i) < length (tskq s) \<and> np_pkts (networker_pointers s) ! i \<noteq> NULL"
    and cap: "size (waiting (length (tskq s)) qs) \<le> card Lc" "ctx_capacity U \<le> card (u_task U)"
      "length bs + card Lc \<le> ctx_capacity U" "ETH_RX_MAX_BATCH \<le> card (u_mcell U)"
  shows "\<exists>s' qs' bs' back Lc'. handle_networker cur s = Inr s' \<and> disp_rep U s' qs' bs' Lc' \<and>
    absorbed (length (tskq s)) (take (unat (np_cnt (networker_pointers s))) (np_pkts (networker_pointers s)))
      (qs, bs, Lc) (qs', back @ bs', Lc') \<and>
    length bs' + card Lc' \<le> ctx_capacity U \<and> length back \<le> ETH_RX_MAX_BATCH \<and>
    slots s' = slots (s\<lparr>networker_pointers := (networker_pointers s)
      \<lparr>np_pkts := back @ drop (length back) (np_pkts (networker_pointers s)),
       np_free_cnt := of_nat (length back), np_cnt := 0\<rparr>\<rparr>)"
proof -
  let ?np = "networker_pointers s" and ?n = "length (tskq s)" and ?c = "unat (np_cnt (networker_pointers s))"
  have ps: "map (\<lambda>i. np_pkts ?np ! i) [0..<?c] = take ?c (np_pkts ?np)"
    using bounds by (simp add: list_eq_iff_nth_eq)
  obtain s1 qs' bs1 Lc' where s1: "intake_loop cur [0..<?c] s = Inr s1" "slots s1 = slots s" "disp_rep U s1 qs' bs1 Lc'"
    and ab: "absorbed ?n (take ?c (np_pkts ?np)) (qs, bs, Lc) (qs', bs1, Lc')"
    using intake_loop_refines [OF rep, of "[0..<?c]" cur] pk bounds cap unfolding ps by auto
  have np1: "networker_pointers s1 = ?np" using s1(2) by (simp add: slots_eq_iff)
  define m where "m = min ETH_RX_MAX_BATCH (length bs1)"
  obtain s2 where s2: "return_loop [0..<ETH_RX_MAX_BATCH] s1 = Inr s2" "disp_rep U s2 qs' (drop m bs1) Lc'"
    "slots s2 = slots (s1\<lparr>networker_pointers := returned 0 bs1 m ?np\<rparr>)"
    using return_loop_refines [OF s1(3), of ETH_RX_MAX_BATCH 0] bounds np1 by (auto simp: m_def)
  define s' where "s' = s2\<lparr>networker_pointers := (networker_pointers s2)\<lparr>np_cnt := 0\<rparr>\<rparr>"
  have call: "handle_networker cur s = Inr s'"
    using cnt s1 s2 by (simp add: handle_networker_def s'_def)
  have len: "length bs1 + card Lc' = length bs + card Lc + ?c"
    using ab bounds by (simp add: absorbed_def)
  have "card Lc' \<le> ctx_capacity U"
  proof -
    obtain xs cs Ls where mm: "disp_mem U s1 xs cs Lc' Ls" using s1(3) by (rule disp_repE)
    note d = disp_memD [OF mm]
    have "card Lc' = card Ls" using d(8) bij_betw_same_card by (auto simp: ctx_ok_def)
    then show ?thesis using d(1,4,5) card_mono [of "u_ctx U" Lc'] card_mono [of "u_stack U" Ls]
      by (simp add: ctx_capacity_def universe_ok_def)
  qed
  then have "length (drop m bs1) + card Lc' \<le> ctx_capacity U"
    using len cap(3) bounds(1) by (auto simp: m_def min_def)
  moreover have "slots s' = slots (s\<lparr>networker_pointers := ?np
      \<lparr>np_pkts := take m bs1 @ drop (length (take m bs1)) (np_pkts ?np),
       np_free_cnt := of_nat (length (take m bs1)), np_cnt := 0\<rparr>\<rparr>)"
    using s1(2) s2(3) bounds(3) by (simp add: s'_def slots_def returned_def m_def min_def)
  ultimately show ?thesis
    using call s2(2) ab
    by (intro exI [of _ s'] exI [of _ qs'] exI [of _ "drop m bs1"] exI [of _ "take m bs1"] exI [of _ Lc'])
      (simp add: s'_def m_def)
qed

end
