(* ===== verification/Context_Switch.thy ===== *)
theory Context_Switch
  imports Context
begin

text \<open>
  The context switch routines of \<open>dp/core/context_fast.S\<close> on a small model of the processor:
  the registers they touch, the x87 environment and MXCSR, the saved contexts in memory and the
  stack.  A routine starts just after its call instruction (the return address is on top of
  the stack) and ends with the \<open>ret\<close> that resumes the other context.
\<close>

section \<open>The processor\<close>

text \<open>The 28-byte image that \<open>fnstenv\<close> writes: three words and the low half of a fourth.\<close>

record fpenv =
  fe_0 :: u64
  fe_1 :: u64
  fe_2 :: u64
  fe_3 :: u32

record machine =
  rax :: u64
  rbx :: u64
  rbp :: u64
  r12 :: u64
  r13 :: u64
  r14 :: u64
  r15 :: u64
  rdi :: u64
  rsi :: u64
  rdx :: u64
  rcx :: u64
  r8 :: u64
  r9 :: u64
  rsp :: u64
  rip :: u64
  x87 :: fpenv
  mxcsr :: u32
  ctxmem :: heap
  stk :: "u64 \<Rightarrow> u64"

abbreviation oRBX :: nat where "oRBX \<equiv> 0x80"
abbreviation oRBP :: nat where "oRBP \<equiv> 0x78"
abbreviation oR12 :: nat where "oR12 \<equiv> 0x48"
abbreviation oR13 :: nat where "oR13 \<equiv> 0x50"
abbreviation oR14 :: nat where "oR14 \<equiv> 0x58"
abbreviation oR15 :: nat where "oR15 \<equiv> 0x60"
abbreviation oRDI :: nat where "oRDI \<equiv> 0x68"
abbreviation oRSI :: nat where "oRSI \<equiv> 0x70"
abbreviation oRDX :: nat where "oRDX \<equiv> 0x88"
abbreviation oRCX :: nat where "oRCX \<equiv> 0x98"
abbreviation oR8 :: nat where "oR8 \<equiv> 0x28"
abbreviation oR9 :: nat where "oR9 \<equiv> 0x30"
abbreviation oRIP :: nat where "oRIP \<equiv> 0xa8"
abbreviation oRSP :: nat where "oRSP \<equiv> 0xa0"
abbreviation oFPREGSMEM :: nat where "oFPREGSMEM \<equiv> 0x1a8"
abbreviation oFPREGS :: nat where "oFPREGS \<equiv> 0xe0"
abbreviation oMXCSR :: nat where "oMXCSR \<equiv> 0x1c0"

text \<open>Stores through \<open>%rdi\<close> and loads through \<open>%rsi\<close>.\<close>

definition store_rdi :: "nat \<Rightarrow> u64 \<Rightarrow> machine \<Rightarrow> machine" where
  "store_rdi off v m = m\<lparr>ctxmem := hwrite (ctxmem m) (rdi m) off v\<rparr>"

definition load_rsi :: "nat \<Rightarrow> machine \<Rightarrow> u64" where
  "load_rsi off m = ctxmem m (rsi m) off"

text \<open>
  \<open>fnstenv\<close>, \<open>fldenv\<close>, \<open>stmxcsr\<close> and \<open>ldmxcsr\<close> on the save area of a context.  The last four
  bytes of the environment image and MXCSR share a location.
\<close>

definition set_low32 :: "u64 \<Rightarrow> u32 \<Rightarrow> u64" where
  "set_low32 w v = (w AND NOT (mask 32)) OR ucast v"

definition fnstenv :: "addr \<Rightarrow> machine \<Rightarrow> machine" where
  "fnstenv c m =
     (let h = ctxmem m;
          h = hwrite h c oFPREGSMEM (fe_0 (x87 m));
          h = hwrite h c (oFPREGSMEM + 8) (fe_1 (x87 m));
          h = hwrite h c (oFPREGSMEM + 16) (fe_2 (x87 m));
          h = hwrite h c (oFPREGSMEM + 24) (set_low32 (h c (oFPREGSMEM + 24)) (fe_3 (x87 m)))
      in m\<lparr>ctxmem := h\<rparr>)"

definition fldenv :: "addr \<Rightarrow> machine \<Rightarrow> machine" where
  "fldenv c m =
     m\<lparr>x87 := \<lparr>fe_0 = ctxmem m c oFPREGSMEM, fe_1 = ctxmem m c (oFPREGSMEM + 8),
               fe_2 = ctxmem m c (oFPREGSMEM + 16), fe_3 = ucast (ctxmem m c (oFPREGSMEM + 24))\<rparr>\<rparr>"

definition stmxcsr :: "addr \<Rightarrow> machine \<Rightarrow> machine" where
  "stmxcsr c m = m\<lparr>ctxmem := hwrite (ctxmem m) c oMXCSR (set_low32 (ctxmem m c oMXCSR) (mxcsr m))\<rparr>"

definition ldmxcsr :: "addr \<Rightarrow> machine \<Rightarrow> machine" where
  "ldmxcsr c m = m\<lparr>mxcsr := ucast (ctxmem m c oMXCSR)\<rparr>"

definition pushq :: "u64 \<Rightarrow> machine \<Rightarrow> machine" where
  "pushq v m = m\<lparr>rsp := rsp m - 8, stk := (stk m)(rsp m - 8 := v)\<rparr>"

definition retq :: "machine \<Rightarrow> machine" where
  "retq m = m\<lparr>rip := stk m (rsp m), rsp := rsp m + 8\<rparr>"

section \<open>The routines\<close>

text \<open>
  The stores every routine starts with: the preserved registers, the argument registers, the
  return address, the stack pointer without it, and the link to the floating-point area.
\<close>

definition save_context :: "machine \<Rightarrow> machine" where
  "save_context m =
     (let m = store_rdi oRBX (rbx m) m;
          m = store_rdi oRBP (rbp m) m;
          m = store_rdi oR12 (r12 m) m;
          m = store_rdi oR13 (r13 m) m;
          m = store_rdi oR14 (r14 m) m;
          m = store_rdi oR15 (r15 m) m;
          m = store_rdi oRDI (rdi m) m;
          m = store_rdi oRSI (rsi m) m;
          m = store_rdi oRDX (rdx m) m;
          m = store_rdi oRCX (rcx m) m;
          m = store_rdi oR8 (r8 m) m;
          m = store_rdi oR9 (r9 m) m;
          m = m\<lparr>rcx := stk m (rsp m)\<rparr>;
          m = store_rdi oRIP (rcx m) m;
          m = m\<lparr>rcx := rsp m + 8\<rparr>;
          m = store_rdi oRSP (rcx m) m;
          m = m\<lparr>rcx := rdi m + of_nat oFPREGSMEM\<rparr>;
          m = store_rdi oFPREGS (rcx m) m
      in m)"

text \<open>The loads every switch ends with.\<close>

definition restore_context :: "machine \<Rightarrow> machine" where
  "restore_context m =
     (let m = m\<lparr>rsp := load_rsi oRSP m\<rparr>;
          m = m\<lparr>rbx := load_rsi oRBX m\<rparr>;
          m = m\<lparr>rbp := load_rsi oRBP m\<rparr>;
          m = m\<lparr>r12 := load_rsi oR12 m\<rparr>;
          m = m\<lparr>r13 := load_rsi oR13 m\<rparr>;
          m = m\<lparr>r14 := load_rsi oR14 m\<rparr>;
          m = m\<lparr>r15 := load_rsi oR15 m\<rparr>;
          m = m\<lparr>rcx := load_rsi oRIP m\<rparr>;
          m = pushq (rcx m) m;
          m = m\<lparr>rdi := load_rsi oRDI m\<rparr>;
          m = m\<lparr>rdx := load_rsi oRDX m\<rparr>;
          m = m\<lparr>rcx := load_rsi oRCX m\<rparr>;
          m = m\<lparr>r8 := load_rsi oR8 m\<rparr>;
          m = m\<lparr>r9 := load_rsi oR9 m\<rparr>;
          m = m\<lparr>rsi := load_rsi oRSI m\<rparr>;
          m = m\<lparr>rax := 0\<rparr>
      in retq m)"

definition swapcontext_fast_to_control :: "machine \<Rightarrow> machine" where
  "swapcontext_fast_to_control m =
     (let m = save_context m;
          m = fnstenv (rdi m) m;
          m = stmxcsr (rdi m) m;
          m = m\<lparr>rcx := load_rsi oFPREGS m\<rparr>
      in restore_context m)"

text \<open>
  \<open>fldenv (%rcx)\<close> reads through the link stored in the context, which every save sets to the
  context's own area.
\<close>

definition swapcontext_fast :: "machine \<Rightarrow> machine" where
  "swapcontext_fast m =
     (let m = save_context m;
          m = m\<lparr>rcx := load_rsi oFPREGS m\<rparr>;
          m = fldenv (rcx m - of_nat oFPREGSMEM) m;
          m = ldmxcsr (rsi m) m
      in restore_context m)"

definition swapcontext_very_fast :: "machine \<Rightarrow> machine" where
  "swapcontext_very_fast m =
     (let m = save_context m;
          m = m\<lparr>rcx := load_rsi oFPREGS m\<rparr>
      in restore_context m)"

definition getcontext_fast :: "machine \<Rightarrow> machine" where
  "getcontext_fast m =
     (let m = save_context m;
          m = fnstenv (rdi m) m;
          m = fldenv (rdi m) m;
          m = stmxcsr (rdi m) m;
          m = m\<lparr>rax := 0\<rparr>
      in retq m)"

section \<open>What a saved context holds\<close>

definition holds_regs :: "heap \<Rightarrow> addr \<Rightarrow> machine \<Rightarrow> bool" where
  "holds_regs h c m \<longleftrightarrow>
     h c oRBX = rbx m \<and> h c oRBP = rbp m \<and> h c oR12 = r12 m \<and> h c oR13 = r13 m \<and> h c oR14 = r14 m \<and>
     h c oR15 = r15 m \<and> h c oRSP = rsp m + 8 \<and> h c oRIP = stk m (rsp m) \<and> h c oFPREGS = c + of_nat oFPREGSMEM"

lemma save_context_holds: "holds_regs (ctxmem (save_context m)) (rdi m) m"
  by (simp add: save_context_def store_rdi_def holds_regs_def Let_def)

lemma save_context_keeps:
  "rdi (save_context m) = rdi m" "rsi (save_context m) = rsi m" "stk (save_context m) = stk m" "rsp (save_context m) = rsp m"
  "x87 (save_context m) = x87 m" "mxcsr (save_context m) = mxcsr m"
  "p \<noteq> rdi m \<Longrightarrow> ctxmem (save_context m) p = ctxmem m p"
  "ctxmem (save_context m) p UC_LINK = ctxmem m p UC_LINK" "ctxmem (save_context m) p UC_SS_SP = ctxmem m p UC_SS_SP"
  "ctxmem (save_context m) p UC_SS_SIZE = ctxmem m p UC_SS_SIZE"
  by (simp_all add: save_context_def store_rdi_def Let_def)

text \<open>The same for the two instructions that save the floating-point state.\<close>

lemma fp_save_keeps:
  "rdi (fnstenv c m) = rdi m" "rsi (fnstenv c m) = rsi m" "stk (fnstenv c m) = stk m" "rsp (fnstenv c m) = rsp m"
  "x87 (fnstenv c m) = x87 m" "mxcsr (fnstenv c m) = mxcsr m"
  "p \<noteq> c \<Longrightarrow> ctxmem (fnstenv c m) p = ctxmem m p" "off < oFPREGSMEM \<Longrightarrow> ctxmem (fnstenv c m) p off = ctxmem m p off"
  "rdi (stmxcsr c m) = rdi m" "rsi (stmxcsr c m) = rsi m" "stk (stmxcsr c m) = stk m" "rsp (stmxcsr c m) = rsp m"
  "x87 (stmxcsr c m) = x87 m" "mxcsr (stmxcsr c m) = mxcsr m"
  "p \<noteq> c \<Longrightarrow> ctxmem (stmxcsr c m) p = ctxmem m p" "off < oFPREGSMEM \<Longrightarrow> ctxmem (stmxcsr c m) p off = ctxmem m p off"
  by (simp_all add: fnstenv_def stmxcsr_def Let_def)

lemma holds_regs_cong: "(\<And>off. off < oFPREGSMEM \<Longrightarrow> h' c off = h c off) \<Longrightarrow> holds_regs h' c m = holds_regs h c m"
  by (simp add: holds_regs_def)

section \<open>Switching away and back\<close>

text \<open>A switch resumes what the target context holds, with a zero result.\<close>

definition resumes :: "machine \<Rightarrow> machine \<Rightarrow> bool" where
  "resumes m m' \<longleftrightarrow>
     rbx m' = rbx m \<and> rbp m' = rbp m \<and> r12 m' = r12 m \<and> r13 m' = r13 m \<and> r14 m' = r14 m \<and> r15 m' = r15 m \<and>
     rsp m' = rsp m + 8 \<and> rip m' = stk m (rsp m) \<and> rax m' = 0"

lemma restore_context_resumes:
  assumes "holds_regs (ctxmem m2) (rsi m2) m"
  shows "resumes m (restore_context m2)" "stk (restore_context m2) = (stk m2)(rsp m := stk m (rsp m))"
    "ctxmem (restore_context m2) = ctxmem m2" "x87 (restore_context m2) = x87 m2" "mxcsr (restore_context m2) = mxcsr m2"
  using assms
  by (simp_all add: restore_context_def load_rsi_def pushq_def retq_def holds_regs_def resumes_def Let_def)

text \<open>The memory of the contexts after each routine.\<close>

definition save_fp :: "machine \<Rightarrow> machine" where
  "save_fp m = stmxcsr (rdi m) (fnstenv (rdi m) m)"

lemma switch_ctxmem:
  "ctxmem (swapcontext_fast_to_control m) = ctxmem (save_fp (save_context m))"
  "ctxmem (swapcontext_fast m) = ctxmem (save_context m)"
  "ctxmem (swapcontext_very_fast m) = ctxmem (save_context m)"
  "ctxmem (getcontext_fast m) = ctxmem (save_fp (save_context m))"
proof -
  have r: "ctxmem (restore_context m') = ctxmem m'" for m'
    by (simp add: restore_context_def load_rsi_def pushq_def retq_def Let_def)
  show "ctxmem (swapcontext_fast_to_control m) = ctxmem (save_fp (save_context m))"
    "ctxmem (swapcontext_fast m) = ctxmem (save_context m)" "ctxmem (swapcontext_very_fast m) = ctxmem (save_context m)"
    by (simp_all add: swapcontext_fast_to_control_def swapcontext_fast_def swapcontext_very_fast_def save_fp_def r Let_def
        fldenv_def ldmxcsr_def fp_save_keeps)
  show "ctxmem (getcontext_fast m) = ctxmem (save_fp (save_context m))"
    by (simp add: getcontext_fast_def save_fp_def Let_def fldenv_def retq_def fp_save_keeps stmxcsr_def)
qed

lemma save_fp_keeps:
  "p \<noteq> rdi m \<Longrightarrow> ctxmem (save_fp m) p = ctxmem m p" "off < oFPREGSMEM \<Longrightarrow> ctxmem (save_fp m) p off = ctxmem m p off"
  by (simp_all add: save_fp_def fp_save_keeps)

lemma holds_regs_save_fp: "holds_regs (ctxmem (save_fp m')) c m = holds_regs (ctxmem m') c m"
  by (rule holds_regs_cong) (simp add: save_fp_keeps)

lemma switch_saves:
  "holds_regs (ctxmem (swapcontext_fast_to_control m)) (rdi m) m"
  "holds_regs (ctxmem (swapcontext_fast m)) (rdi m) m"
  "holds_regs (ctxmem (swapcontext_very_fast m)) (rdi m) m"
  "holds_regs (ctxmem (getcontext_fast m)) (rdi m) m"
  by (simp_all add: switch_ctxmem holds_regs_save_fp save_context_holds)

lemma switch_resumes:
  assumes "holds_regs (ctxmem m2) (rsi m2) m" and "rsi m2 \<noteq> rdi m2"
  shows "resumes m (swapcontext_fast_to_control m2)" "resumes m (swapcontext_fast m2)" "resumes m (swapcontext_very_fast m2)"
proof -
  have h: "holds_regs (ctxmem (save_context m2)) (rsi m2) m"
    using assms holds_regs_cong [of "ctxmem (save_context m2)" "rsi m2" "ctxmem m2" m] by (simp add: save_context_keeps)
  have h2: "holds_regs (ctxmem (stmxcsr (rdi m2) (fnstenv (rdi m2) (save_context m2)))) (rsi m2) m"
    using h holds_regs_save_fp [of "save_context m2"] by (simp add: save_fp_def save_context_keeps)
  show "resumes m (swapcontext_fast_to_control m2)" "resumes m (swapcontext_fast m2)" "resumes m (swapcontext_very_fast m2)"
    unfolding swapcontext_fast_to_control_def swapcontext_fast_def swapcontext_very_fast_def Let_def
    by (rule restore_context_resumes(1);
        use h h2 in \<open>simp add: fp_save_keeps save_context_keeps fldenv_def ldmxcsr_def\<close>)+
qed

section \<open>The floating-point state\<close>

lemma low32_set [simp]: "ucast (set_low32 w v) = v"
  by (rule bit_word_eqI) (auto simp: set_low32_def bit_simps)

definition holds_fp :: "heap \<Rightarrow> addr \<Rightarrow> machine \<Rightarrow> bool" where
  "holds_fp h c m \<longleftrightarrow> h c oFPREGSMEM = fe_0 (x87 m) \<and> h c (oFPREGSMEM + 8) = fe_1 (x87 m) \<and>
     h c (oFPREGSMEM + 16) = fe_2 (x87 m) \<and> ucast (h c oMXCSR) = mxcsr m"

lemma preemption_saves_fp: "holds_fp (ctxmem (swapcontext_fast_to_control m)) (rdi m) m"
  by (simp add: swapcontext_fast_to_control_def restore_context_def load_rsi_def pushq_def retq_def Let_def
      holds_fp_def fnstenv_def stmxcsr_def save_context_keeps)

lemma resume_restores_fp:
  assumes "holds_regs (ctxmem m2) (rsi m2) m" and "holds_fp (ctxmem m2) (rsi m2) m" and "rsi m2 \<noteq> rdi m2"
  shows "mxcsr (swapcontext_fast m2) = mxcsr m"
    "x87 (swapcontext_fast m2) = (x87 m)\<lparr>fe_3 := mxcsr m\<rparr>"
proof -
  have same: "ctxmem (save_context m2) (rsi m2) = ctxmem m2 (rsi m2)"
    using assms(3) by (simp add: save_context_keeps)
  have fpr: "ctxmem m2 (rsi m2) oFPREGS = rsi m2 + of_nat oFPREGSMEM"
    using assms(1) by (simp add: holds_regs_def)
  show "mxcsr (swapcontext_fast m2) = mxcsr m" "x87 (swapcontext_fast m2) = (x87 m)\<lparr>fe_3 := mxcsr m\<rparr>"
    using assms(2) fpr same
    by (simp_all add: swapcontext_fast_def restore_context_def load_rsi_def pushq_def retq_def Let_def
        fldenv_def ldmxcsr_def holds_fp_def save_context_keeps)
qed

section \<open>What a switch leaves alone\<close>

lemma switch_frame:
  assumes "m' \<in> {swapcontext_fast_to_control m, swapcontext_fast m, swapcontext_very_fast m, getcontext_fast m}"
  shows "p \<noteq> rdi m \<Longrightarrow> ctxmem m' p = ctxmem m p"
    and "off \<in> {UC_LINK, UC_SS_SP, UC_SS_SIZE} \<Longrightarrow> ctxmem m' p off = ctxmem m p off"
  using assms by (auto simp: switch_ctxmem save_fp_keeps save_context_keeps)

end
