(* ===== verification/Worker.thy ===== *)
theory Worker
  imports Dispatcher Context_Switch
begin

text \<open>
  The worker cores (\<open>dp/core/worker.c\<close>): polling for a request, starting or resuming its
  context, and answering the dispatcher.  The run of a context between two switches, the C
  library's \<open>makecontext\<close> and the device driver are parameters.
\<close>

section \<open>State\<close>

record worker_tls =
  cont :: addr
  my_cpu_nr :: nat
  finished :: bool
  tls_networker_cy :: u64
  tls_dispatcher_cy :: u64

text \<open>What a worker core sees: the shared memory, its thread-local variables, the packet buffers, its transmit queues.\<close>

record wstate =
  w_dp :: dp_state
  w_tls :: worker_tls
  w_store :: mstore
  w_txqs :: "eth_tx_queue list"

definition tsc_hz :: u64 where "tsc_hz = 2799980000"

definition cycles_to_ns :: "u64 \<Rightarrow> u64" where
  "cycles_to_ns cycles = cycles * 1000000000 div tsc_hz"

section \<open>Passing pointers through 32-bit arguments\<close>

definition msw :: "u64 \<Rightarrow> u32" where
  "msw x = ucast (drop_bit 32 (x AND 0xFFFFFFFF00000000))"

definition lsw :: "u64 \<Rightarrow> u32" where
  "lsw x = ucast (x AND 0x00000000FFFFFFFF)"

text \<open>How \<open>generic_work\<close> puts the halves together again.\<close>

definition join_words :: "u32 \<Rightarrow> u32 \<Rightarrow> u64" where
  "join_words hi lo = push_bit 32 (ucast hi) OR ucast lo"

section \<open>Handling a request\<close>

text \<open>\<open>mbuf_mtod\<close>: the address of data at a given position of a buffer.\<close>

definition mbuf_addr :: "addr \<Rightarrow> nat \<Rightarrow> u64" where
  "mbuf_addr m pos = m + of_nat MBUF_HEADER_LEN + of_nat pos"

definition init_worker :: "(eth_tx_queue \<Rightarrow> int) \<Rightarrow> nat \<Rightarrow> int \<Rightarrow> wstate \<Rightarrow> wstate res" where
  "init_worker reclaim nq cpu_nr s =
     (let nr = cpu_nr - 2
      in if nr < 0 \<or> nat nr \<ge> length (worker_responses (w_dp s)) then Inl Out_of_bounds
      else let s1 = s\<lparr>w_tls := (w_tls s)\<lparr>my_cpu_nr := nat nr\<rparr>, w_dp := set_wr_flag (nat nr) PROCESSED (w_dp s)\<rparr>
      in bindE (eth_process_reclaim reclaim [0..<nq] (w_txqs s1)) (\<lambda>txqs. Inr (s1\<lparr>w_txqs := txqs\<rparr>)))"

text \<open>
  \<open>handle_new_packet\<close> up to the switch into the new context; the result is \<open>False\<close> when the packet
  has no data and there is nothing to switch to.  \<open>mach\<close> holds the registers at the call of
  \<open>getcontext_fast\<close>, \<open>main\<close> is the address of \<open>uctx_main\<close>.
\<close>

definition begin_new_packet ::
  "(addr \<Rightarrow> u32 list \<Rightarrow> heap \<Rightarrow> heap) \<Rightarrow> machine \<Rightarrow> addr \<Rightarrow> wstate \<Rightarrow> (bool \<times> wstate) res" where
  "begin_new_packet makecontext mach main s =
     (let r = dispatcher_requests (w_dp s) ! my_cpu_nr (w_tls s);
          pkt = dr_mbuf r
      in bindE (derefE pkt) (\<lambda>_.
         case parse_packet (w_store s pkt) of (res, pk) \<Rightarrow>
         let tls = (w_tls s)\<lparr>tls_networker_cy := mb_networker_cy pk, tls_dispatcher_cy := dr_dispatcher_cy r\<rparr>;
             s1 = s\<lparr>w_store := (w_store s)(pkt := pk)\<rparr>
         in case res of
              None \<Rightarrow> Inr (False, s1\<lparr>w_tls := tls\<lparr>finished := True\<rparr>\<rparr>)
            | Some (data_pos, recv_cycles) \<Rightarrow>
                let data = mbuf_addr pkt data_pos; ident = mbuf_addr pkt 0; c = dr_rnbl r
                in bindE (derefE c) (\<lambda>_.
                   let h1 = ctxmem (getcontext_fast (mach\<lparr>rdi := c, ctxmem := d_heap (w_dp s1)\<rparr>))
                   in bindE (set_context_link h1 c main) (\<lambda>h2.
                      let h3 = makecontext c [msw data, lsw data, msw ident, lsw ident, msw recv_cycles, lsw recv_cycles] h2
                      in Inr (True, s1\<lparr>w_dp := (w_dp s1)\<lparr>d_heap := h3\<rparr>, w_tls := tls\<lparr>cont := c, finished := False\<rparr>\<rparr>)))))"

definition handle_new_packet ::
  "(addr \<Rightarrow> u32 list \<Rightarrow> heap \<Rightarrow> heap) \<Rightarrow> machine \<Rightarrow> addr \<Rightarrow> (wstate \<Rightarrow> int \<times> wstate) \<Rightarrow> wstate \<Rightarrow> wstate res" where
  "handle_new_packet makecontext mach main run s =
     bindE (begin_new_packet makecontext mach main s) (\<lambda>(go, s1).
     if go then (case run s1 of (ret, s2) \<Rightarrow> if ret \<noteq> 0 then Inl Exit_called else Inr s2) else Inr s1)"

definition begin_context :: "addr \<Rightarrow> wstate \<Rightarrow> wstate res" where
  "begin_context main s =
     (let r = dispatcher_requests (w_dp s) ! my_cpu_nr (w_tls s);
          pkt = dr_mbuf r;
          tls = (w_tls s)\<lparr>tls_networker_cy := if pkt \<noteq> NULL then mb_networker_cy (w_store s pkt) else 0,
                          tls_dispatcher_cy := dr_dispatcher_cy r, finished := False, cont := dr_rnbl r\<rparr>
      in bindE (set_context_link (d_heap (w_dp s)) (dr_rnbl r) main) (\<lambda>h.
         Inr (s\<lparr>w_dp := (w_dp s)\<lparr>d_heap := h\<rparr>, w_tls := tls\<rparr>)))"

definition handle_context :: "addr \<Rightarrow> (wstate \<Rightarrow> int \<times> wstate) \<Rightarrow> wstate \<Rightarrow> wstate res" where
  "handle_context main run s =
     bindE (begin_context main s) (\<lambda>s1.
     case run s1 of (ret, s2) \<Rightarrow> if ret \<noteq> 0 then Inl Exit_called else Inr s2)"

text \<open>\<open>None\<close>: the loop that waits for a request is still spinning.\<close>

definition handle_request ::
  "(addr \<Rightarrow> u32 list \<Rightarrow> heap \<Rightarrow> heap) \<Rightarrow> machine \<Rightarrow> addr \<Rightarrow> (wstate \<Rightarrow> int \<times> wstate) \<Rightarrow> wstate \<Rightarrow> wstate option res" where
  "handle_request makecontext mach main run s =
     (let i = my_cpu_nr (w_tls s)
      in if dr_flag (dispatcher_requests (w_dp s) ! i) = WAITING then Inr None
      else let s1 = s\<lparr>w_dp := set_dr_flag i WAITING (w_dp s)\<rparr>
      in bindE (if dr_category (dispatcher_requests (w_dp s1) ! i) = PACKET
                then handle_new_packet makecontext mach main run s1
                else handle_context main run s1) (\<lambda>s2. Inr (Some s2)))"

text \<open>\<open>finish_request\<close> up to its last store, and that store.\<close>

definition fill_response :: "wstate \<Rightarrow> wstate" where
  "fill_response s =
     (let i = my_cpu_nr (w_tls s);
          q = dispatcher_requests (w_dp s) ! i;
          r = (worker_responses (w_dp s) ! i)\<lparr>wr_timestamp := dr_timestamp q, wr_type := dr_type q, wr_mbuf := dr_mbuf q,
                wr_rnbl := cont (w_tls s), wr_category := CONTEXT\<rparr>
      in s\<lparr>w_dp := (w_dp s)\<lparr>worker_responses := (worker_responses (w_dp s))[i := r]\<rparr>\<rparr>)"

definition finish_request :: "wstate \<Rightarrow> wstate" where
  "finish_request s =
     (let s1 = fill_response s
      in s1\<lparr>w_dp := set_wr_flag (my_cpu_nr (w_tls s1)) (if finished (w_tls s1) then FINISHED else PREEMPTED) (w_dp s1)\<rparr>)"

text \<open>One iteration of the loop of \<open>do_work\<close>.\<close>

definition work_iteration ::
  "(eth_tx_queue \<Rightarrow> int) \<Rightarrow> (eth_tx_queue \<Rightarrow> addr list \<Rightarrow> int) \<Rightarrow> nat \<Rightarrow> (addr \<Rightarrow> u32 list \<Rightarrow> heap \<Rightarrow> heap) \<Rightarrow> machine \<Rightarrow>
     addr \<Rightarrow> (wstate \<Rightarrow> int \<times> wstate) \<Rightarrow> wstate \<Rightarrow> wstate option res" where
  "work_iteration reclaim xmit nq makecontext mach main run s =
     bindE (eth_process_reclaim reclaim [0..<nq] (w_txqs s)) (\<lambda>txqs1.
     bindE (eth_process_send xmit [0..<nq] txqs1) (\<lambda>txqs2.
     bindE (handle_request makecontext mach main run (s\<lparr>w_txqs := txqs2\<rparr>)) (\<lambda>r.
     Inr (map_option finish_request r))))"

section \<open>Facts\<close>

lemma join_split: "join_words (msw x) (lsw x) = x"
proof -
  have m: "(0xFFFFFFFF00000000 :: u64) = push_bit 32 (mask 32)" "(0xFFFFFFFF :: u64) = mask 32"
    by (simp_all add: mask_eq_exp_minus_1 push_bit_eq_mult)
  show ?thesis
    unfolding join_words_def msw_def lsw_def m
    by (rule bit_word_eqI) (auto simp: bit_simps)
qed

end
