(* ===== verification/Networker.thy ===== *)
theory Networker
  imports Dispatcher
begin

text \<open>
  The networking core (\<open>dp/core/networker.c\<close>): it frees the buffers the dispatcher handed back,
  copies the received batch into the shared structure and publishes it through \<open>cnt\<close>.
\<close>

text \<open>The loop that frees returned buffers: every call of \<open>mbuf_free\<close> is recorded in \<open>rx_freed\<close>.\<close>

definition free_returned :: "networker_pointers_t \<Rightarrow> rx_state \<Rightarrow> (networker_pointers_t \<times> rx_state) res" where
  "free_returned np rx =
     (if unat (np_free_cnt np) > length (np_pkts np) then Inl Out_of_bounds
      else Inr (np\<lparr>np_free_cnt := 0\<rparr>, rx\<lparr>rx_freed := rev (take (unat (np_free_cnt np)) (np_pkts np)) @ rx_freed rx\<rparr>))"

primrec fill_batch :: "u64 \<Rightarrow> nat list \<Rightarrow> networker_pointers_t \<Rightarrow> rx_state \<Rightarrow> (networker_pointers_t \<times> rx_state) res" where
  "fill_batch networker_cy [] np rx = Inr (np, rx)"
| "fill_batch networker_cy (i # is) np rx =
     (if i \<ge> length (recv_mbufs rx) \<or> i \<ge> length (np_pkts np) then Inl Out_of_bounds
      else
        let m = recv_mbufs rx ! i;
            rx1 = rx\<lparr>rx_store := (rx_store rx)(m := (rx_store rx m)\<lparr>mb_networker_cy := networker_cy\<rparr>)\<rparr>;
            np1 = np\<lparr>np_pkts := (np_pkts np)[i := m], np_types := (np_types np)[i := of_int (recv_type rx ! i)]\<rparr>
        in fill_batch networker_cy is np1 rx1)"

text \<open>Everything before the store of \<open>cnt\<close> that makes the batch visible.\<close>

definition stage_batch :: "u64 \<Rightarrow> nat \<Rightarrow> networker_pointers_t \<Rightarrow> rx_state \<Rightarrow> (networker_pointers_t \<times> rx_state) res" where
  "stage_batch networker_cy num_recv np rx =
     bindE (free_returned np rx) (\<lambda>(np1, rx1). fill_batch networker_cy [0..<num_recv] np1 rx1)"

text \<open>
  One iteration after \<open>eth_process_recv\<close> returned \<open>num_recv\<close>.  \<open>None\<close>: the core still waits for the
  dispatcher to take the previous batch.
\<close>

definition hand_over ::
  "u64 \<Rightarrow> nat \<Rightarrow> networker_pointers_t \<Rightarrow> rx_state \<Rightarrow> (networker_pointers_t \<times> rx_state) option res" where
  "hand_over networker_cy num_recv np rx =
     (if num_recv = 0 then Inr (Some (np, rx))
      else if np_cnt np \<noteq> 0 then Inr None
      else bindE (stage_batch networker_cy num_recv np rx) (\<lambda>(np1, rx1).
           Inr (Some (np1\<lparr>np_cnt := of_nat num_recv\<rparr>, rx1))))"

definition networking_round ::
  "cfg_parameters \<Rightarrow> (nat \<Rightarrow> rx_state \<Rightarrow> int \<times> rx_state) \<Rightarrow> nat \<Rightarrow> u64 \<Rightarrow> networker_pointers_t \<Rightarrow> rx_state \<Rightarrow>
     (networker_pointers_t \<times> rx_state) option res" where
  "networking_round cfg poll nq networker_cy np rx =
     (case eth_process_poll poll [0..<nq] 0 rx of (_, rx1) \<Rightarrow>
      bindE (eth_process_recv cfg nq rx1) (\<lambda>(num_recv, rx2).
      hand_over networker_cy num_recv np rx2))"

section \<open>What is handed over\<close>

definition stamp :: "u64 \<Rightarrow> addr set \<Rightarrow> mstore \<Rightarrow> mstore" where
  "stamp cy A ms = (\<lambda>p. if p \<in> A then (ms p)\<lparr>mb_networker_cy := cy\<rparr> else ms p)"

lemma stamp_insert: "stamp cy A (ms(m := (ms m)\<lparr>mb_networker_cy := cy\<rparr>)) = stamp cy (insert m A) ms"
  by (auto simp: stamp_def fun_eq_iff)

definition same_counts :: "networker_pointers_t \<Rightarrow> networker_pointers_t \<Rightarrow> bool" where
  "same_counts np np' \<longleftrightarrow> np_cnt np' = np_cnt np \<and> np_free_cnt np' = np_free_cnt np \<and>
     length (np_pkts np') = length (np_pkts np) \<and> length (np_types np') = length (np_types np)"

lemma fill_batch_result:
  assumes "n \<le> length (recv_mbufs rx)" and "n \<le> length (np_pkts np)" and "n \<le> length (np_types np)" and "k \<le> n"
  shows "\<exists>np'. fill_batch cy [k..<n] np rx =
      Inr (np', rx\<lparr>rx_store := stamp cy ((!) (recv_mbufs rx) ` {k..<n}) (rx_store rx)\<rparr>) \<and> same_counts np np' \<and>
    (\<forall>i. np_pkts np' ! i = (if k \<le> i \<and> i < n then recv_mbufs rx ! i else np_pkts np ! i)) \<and>
    (\<forall>i. np_types np' ! i = (if k \<le> i \<and> i < n then of_int (recv_type rx ! i) else np_types np ! i))"
  using assms
proof (induction "n - k" arbitrary: k np rx)
  case 0
  then show ?case by (auto simp: stamp_def same_counts_def)
next
  case (Suc d)
  have kn: "[k..<n] = k # [Suc k..<n]" "k < n" "{k..<n} = insert k {Suc k..<n}"
    using Suc.hyps(2) by (auto simp: upt_conv_Cons)
  define rx1 where "rx1 = rx\<lparr>rx_store := (rx_store rx)(recv_mbufs rx ! k := (rx_store rx (recv_mbufs rx ! k))\<lparr>mb_networker_cy := cy\<rparr>)\<rparr>"
  define np1 where "np1 = np\<lparr>np_pkts := (np_pkts np)[k := recv_mbufs rx ! k], np_types := (np_types np)[k := of_int (recv_type rx ! k)]\<rparr>"
  have call: "fill_batch cy [k..<n] np rx = fill_batch cy [Suc k..<n] np1 rx1"
    using Suc.prems kn by (simp add: rx1_def np1_def Let_def)
  have "\<exists>np'. fill_batch cy [Suc k..<n] np1 rx1 =
      Inr (np', rx1\<lparr>rx_store := stamp cy ((!) (recv_mbufs rx1) ` {Suc k..<n}) (rx_store rx1)\<rparr>) \<and> same_counts np1 np' \<and>
    (\<forall>i. np_pkts np' ! i = (if Suc k \<le> i \<and> i < n then recv_mbufs rx1 ! i else np_pkts np1 ! i)) \<and>
    (\<forall>i. np_types np' ! i = (if Suc k \<le> i \<and> i < n then of_int (recv_type rx1 ! i) else np_types np1 ! i))"
    by (rule Suc.hyps(1)) (use Suc.hyps(2) Suc.prems kn(2) in \<open>auto simp: rx1_def np1_def\<close>)
  then obtain np' where np': "fill_batch cy [k..<n] np rx =
      Inr (np', rx1\<lparr>rx_store := stamp cy ((!) (recv_mbufs rx1) ` {Suc k..<n}) (rx_store rx1)\<rparr>)" "same_counts np1 np'"
    and p: "\<forall>i. np_pkts np' ! i = (if Suc k \<le> i \<and> i < n then recv_mbufs rx1 ! i else np_pkts np1 ! i)"
    and t: "\<forall>i. np_types np' ! i = (if Suc k \<le> i \<and> i < n then of_int (recv_type rx1 ! i) else np_types np1 ! i)"
    using call by auto
  have "same_counts np np'" using np'(2) by (simp add: same_counts_def np1_def)
  moreover have "rx1\<lparr>rx_store := stamp cy ((!) (recv_mbufs rx1) ` {Suc k..<n}) (rx_store rx1)\<rparr> =
      rx\<lparr>rx_store := stamp cy ((!) (recv_mbufs rx) ` {k..<n}) (rx_store rx)\<rparr>"
    by (simp add: rx1_def stamp_insert kn(3))
  moreover have "np_pkts np' ! i = (if k \<le> i \<and> i < n then recv_mbufs rx ! i else np_pkts np ! i)" for i
    using p kn(2) Suc.prems(2) by (cases "i = k") (auto simp: rx1_def np1_def)
  moreover have "np_types np' ! i = (if k \<le> i \<and> i < n then of_int (recv_type rx ! i) else np_types np ! i)" for i
    using t kn(2) Suc.prems(3) by (cases "i = k") (auto simp: rx1_def np1_def)
  ultimately show ?case using np'(1) by simp
qed

lemma stage_batch_result:
  assumes n: "0 < n" "n \<le> ETH_RX_MAX_BATCH"
    and len: "length (recv_mbufs rx) = ETH_RX_MAX_BATCH" "length (np_pkts np) = ETH_RX_MAX_BATCH" "length (np_types np) = ETH_RX_MAX_BATCH"
    and free: "unat (np_free_cnt np) \<le> ETH_RX_MAX_BATCH"
  shows "\<exists>np' rx'. stage_batch cy n np rx = Inr (np', rx') \<and> np_cnt np' = np_cnt np \<and> np_free_cnt np' = 0 \<and>
    length (np_pkts np') = ETH_RX_MAX_BATCH \<and> length (np_types np') = ETH_RX_MAX_BATCH \<and>
    take n (np_pkts np') = take n (recv_mbufs rx) \<and> (\<forall>i<n. np_types np' ! i = of_int (recv_type rx ! i)) \<and>
    rx' = rx\<lparr>rx_store := stamp cy (set (take n (recv_mbufs rx))) (rx_store rx),
             rx_freed := rev (take (unat (np_free_cnt np)) (np_pkts np)) @ rx_freed rx\<rparr>"
proof -
  define np1 where "np1 = np\<lparr>np_free_cnt := 0\<rparr>"
  define rx1 where "rx1 = rx\<lparr>rx_freed := rev (take (unat (np_free_cnt np)) (np_pkts np)) @ rx_freed rx\<rparr>"
  have f: "free_returned np rx = Inr (np1, rx1)"
    using free len by (simp add: free_returned_def np1_def rx1_def)
  obtain np2 where np2: "fill_batch cy [0..<n] np1 rx1 =
      Inr (np2, rx1\<lparr>rx_store := stamp cy ((!) (recv_mbufs rx1) ` {0..<n}) (rx_store rx1)\<rparr>)" "same_counts np1 np2"
    "\<forall>i. np_pkts np2 ! i = (if 0 \<le> i \<and> i < n then recv_mbufs rx1 ! i else np_pkts np1 ! i)"
    "\<forall>i. np_types np2 ! i = (if 0 \<le> i \<and> i < n then of_int (recv_type rx1 ! i) else np_types np1 ! i)"
    using fill_batch_result [of n rx1 np1 0 cy] n len by (auto simp: np1_def rx1_def)
  have "(!) (recv_mbufs rx) ` {0..<n} = set (take n (recv_mbufs rx))"
    using n len by (simp add: nth_image)
  then have call: "stage_batch cy n np rx = Inr (np2, rx1\<lparr>rx_store := stamp cy (set (take n (recv_mbufs rx))) (rx_store rx1)\<rparr>)"
    using f np2(1) n by (simp add: stage_batch_def rx1_def)
  have "take n (np_pkts np2) = take n (recv_mbufs rx)"
    using np2(2,3) n len by (simp add: same_counts_def np1_def rx1_def list_eq_iff_nth_eq)
  then show ?thesis
    using call np2(2,4) len by (simp add: same_counts_def np1_def rx1_def)
qed

end
