(* ===== verification/System.thy ===== *)
theory System
  imports Dispatch_Refine Worker Networker
begin

text \<open>
  The program as a whole: the dispatcher, the workers and the networking core as concurrent
  threads over the shared memory, interleaved at the stores through which they synchronise
  (\<open>dispatcher_requests[i].flag\<close>, \<open>worker_responses[i].flag\<close>, \<open>networker_pointers.cnt\<close>).
\<close>

section \<open>Threads\<close>

datatype wpc = W_boot | W_loop | W_poll | W_start | W_run | W_respond | W_publish
datatype dpc = D_worker nat u64 | D_dispatch nat u64 | D_publish nat u64
datatype npc = N_recv | N_wait | N_publish

text \<open>
  \<open>s_live\<close> is the set of buffers that are out of the buffer pool on the receive side;
  \<open>s_nrecv\<close> the result of the last \<open>eth_process_recv\<close>; \<open>s_txqs\<close> the transmit queues of each worker's core.
\<close>

record sys =
  s_dp :: dp_state
  s_rx :: rx_state
  s_tls :: "worker_tls list"
  s_wpc :: "wpc list"
  s_dpc :: dpc
  s_npc :: npc
  s_nrecv :: nat
  s_live :: "addr set"
  s_txqs :: "eth_tx_queue list list"

datatype outcome = Run sys | Crash fault

definition outcome_of :: "('a \<Rightarrow> sys) \<Rightarrow> 'a res \<Rightarrow> outcome" where
  "outcome_of f r = (case r of Inl e \<Rightarrow> Crash e | Inr x \<Rightarrow> Run (f x))"

lemma outcome_of_simps [simp]: "outcome_of f (Inr x) = Run (f x)" "outcome_of f (Inl e) = Crash e"
  by (simp_all add: outcome_of_def)

definition wview :: "nat \<Rightarrow> sys \<Rightarrow> wstate" where
  "wview i s = \<lparr>w_dp = s_dp s, w_tls = s_tls s ! i, w_store = rx_store (s_rx s), w_txqs = s_txqs s ! i\<rparr>"

definition wput :: "nat \<Rightarrow> wpc \<Rightarrow> wstate \<Rightarrow> sys \<Rightarrow> sys" where
  "wput i pc w s = s\<lparr>s_dp := w_dp w, s_tls := (s_tls s)[i := w_tls w], s_rx := (s_rx s)\<lparr>rx_store := w_store w\<rparr>,
     s_txqs := (s_txqs s)[i := w_txqs w], s_wpc := (s_wpc s)[i := pc]\<rparr>"

text \<open>Returning buffers to the pool; a buffer that is not out is a double free.\<close>

primrec release :: "addr list \<Rightarrow> addr set \<Rightarrow> addr set res" where
  "release [] L = Inr L"
| "release (b # bs) L = (if b \<in> L then release bs (L - {b}) else Inl Double_free)"

definition newly_freed :: "rx_state \<Rightarrow> rx_state \<Rightarrow> addr list" where
  "newly_freed rx rx' = take (length (rx_freed rx') - length (rx_freed rx)) (rx_freed rx')"

section \<open>The environment\<close>

text \<open>
  What the program runs in: the configuration, the C library's \<open>makecontext\<close>, the address of each worker's \<open>uctx_main\<close>, the packets that
  may arrive, the results that the driver's \<open>xmit\<close> may give for a batch, and the faults that the work of a request may itself
  raise (\<open>generic_work\<close> with everything it calls, which is the subject of \<open>Transmit\<close> and \<open>Request_Answer\<close>).
\<close>

record sys_env =
  e_cfg :: cfg_parameters
  e_makecontext :: "addr \<Rightarrow> u32 list \<Rightarrow> heap \<Rightarrow> heap"
  e_main :: "nat \<Rightarrow> addr"
  e_arrives :: "mbuf \<Rightarrow> bool"
  e_xmit :: "addr list \<Rightarrow> int \<Rightarrow> bool"
  e_faults :: "fault set"

text \<open>\<open>makecontext\<close> writes to the context and to its stack only, and does not move the stack.\<close>

definition mk_frame :: "(addr \<Rightarrow> u32 list \<Rightarrow> heap \<Rightarrow> heap) \<Rightarrow> bool" where
  "mk_frame makecontext \<longleftrightarrow> (\<forall>c args h.
     (\<forall>p. p \<noteq> c \<longrightarrow> p \<noteq> h c UC_SS_SP \<longrightarrow> makecontext c args h p = h p) \<and>
     makecontext c args h c UC_SS_SP = h c UC_SS_SP)"

text \<open>A running context writes to its own save area and stack only.\<close>

definition ctx_writes :: "addr \<Rightarrow> heap \<Rightarrow> heap \<Rightarrow> bool" where
  "ctx_writes c h h' \<longleftrightarrow> (\<forall>p. p \<noteq> c \<longrightarrow> p \<noteq> h c UC_SS_SP \<longrightarrow> h' p = h p) \<and> h' c UC_SS_SP = h c UC_SS_SP"

text \<open>The entries of a transmit queue that are in use lie within its array.\<close>

definition txqs_ok :: "eth_tx_queue list \<Rightarrow> bool" where
  "txqs_ok qs \<longleftrightarrow> (\<forall>q\<in>set qs. tx_len q \<le> length (tx_bufs q))"

section \<open>Steps\<close>

text \<open>
  The loop of \<open>do_work\<close> is \<open>w_send\<close> (\<open>eth_process_reclaim\<close> and \<open>eth_process_send\<close>, which touch the core's own queues only), then \<open>w_take\<close>,
  \<open>w_new\<close> or \<open>w_resume\<close> (\<open>handle_request\<close>), and \<open>w_fill\<close> and \<open>w_publish\<close> (\<open>finish_request\<close>).  While a request runs, \<open>w_run\<close> lets it write, any
  number of times, to its stack and save area, to buffers that are not out on the receive side and to the transmit queues of
  its core; \<open>w_fault\<close> is a fault of its own; \<open>w_end\<close> is its end or its preemption.  \<open>n_poll\<close> puts any packet that may arrive into any
  buffer that is not out.
\<close>

inductive sys_step :: "sys_env \<Rightarrow> nat \<Rightarrow> outcome \<Rightarrow> outcome \<Rightarrow> bool"
  for E :: sys_env and n :: nat where
  d_respond: "s_dpc s = D_worker i cur \<Longrightarrow> i < n \<Longrightarrow> wr_flag (worker_responses (s_dp s) ! i) \<noteq> RUNNING \<Longrightarrow>
     sys_step E n (Run s)
       (outcome_of (\<lambda>dp. s\<lparr>s_dp := dp, s_dpc := D_dispatch i cur\<rparr>) (handle_response i (s_dp s)))"
| d_preempt: "s_dpc s = D_worker i cur \<Longrightarrow> i < n \<Longrightarrow> wr_flag (worker_responses (s_dp s) ! i) = RUNNING \<Longrightarrow>
     sys_step E n (Run s)
       (outcome_of (\<lambda>dp. s\<lparr>s_dp := dp, s_dpc := D_worker (Suc i) cur\<rparr>) (preempt_worker (e_cfg E) i cur (s_dp s)))"
| d_prepare: "s_dpc s = D_dispatch i cur \<Longrightarrow>
     sys_step E n (Run s)
       (outcome_of (\<lambda>r. s\<lparr>s_dp := snd r, s_dpc := if fst r then D_publish i cur else D_worker (Suc i) cur\<rparr>)
          (prepare_request (e_cfg E) i cur (s_dp s)))"
| d_publish: "s_dpc s = D_publish i cur \<Longrightarrow>
     sys_step E n (Run s) (Run (s\<lparr>s_dp := set_dr_flag i ACTIVE (s_dp s), s_dpc := D_worker (Suc i) cur\<rparr>))"
| d_net: "s_dpc s = D_worker i cur \<Longrightarrow> n \<le> i \<Longrightarrow>
     sys_step E n (Run s)
       (outcome_of (\<lambda>dp. s\<lparr>s_dp := dp, s_dpc := D_worker 0 cur'\<rparr>) (handle_networker cur (s_dp s)))"
| w_boot: "i < n \<Longrightarrow> s_wpc s ! i = W_boot \<Longrightarrow>
     sys_step E n (Run s)
       (outcome_of (\<lambda>w. wput i W_loop w s) (init_worker reclaim (length (s_txqs s ! i)) (int i + 2) (wview i s)))"
| w_send: "i < n \<Longrightarrow> s_wpc s ! i = W_loop \<Longrightarrow> (\<And>txq bs. e_xmit E bs (xmit txq bs)) \<Longrightarrow>
     sys_step E n (Run s)
       (outcome_of (\<lambda>txqs. s\<lparr>s_txqs := (s_txqs s)[i := txqs], s_wpc := (s_wpc s)[i := W_poll]\<rparr>)
          (bindE (eth_process_reclaim reclaim [0..<length (s_txqs s ! i)] (s_txqs s ! i))
             (eth_process_send xmit [0..<length (s_txqs s ! i)])))"
| w_take: "i < n \<Longrightarrow> s_wpc s ! i = W_poll \<Longrightarrow> dr_flag (dispatcher_requests (s_dp s) ! i) \<noteq> WAITING \<Longrightarrow>
     sys_step E n (Run s)
       (Run (s\<lparr>s_dp := set_dr_flag i WAITING (s_dp s), s_wpc := (s_wpc s)[i := W_start]\<rparr>))"
| w_new: "i < n \<Longrightarrow> s_wpc s ! i = W_start \<Longrightarrow> dr_category (dispatcher_requests (s_dp s) ! i) = PACKET \<Longrightarrow>
     sys_step E n (Run s)
       (outcome_of (\<lambda>r. wput i (if fst r then W_run else W_respond) (snd r) s)
          (begin_new_packet (e_makecontext E) mach (e_main E i) (wview i s)))"
| w_resume: "i < n \<Longrightarrow> s_wpc s ! i = W_start \<Longrightarrow> dr_category (dispatcher_requests (s_dp s) ! i) \<noteq> PACKET \<Longrightarrow>
     sys_step E n (Run s) (outcome_of (\<lambda>w. wput i W_run w s) (begin_context (e_main E i) (wview i s)))"
| w_run: "i < n \<Longrightarrow> s_wpc s ! i = W_run \<Longrightarrow> ctx_writes (cont (s_tls s ! i)) (d_heap (s_dp s)) h' \<Longrightarrow>
     (\<And>p. p \<in> s_live s \<Longrightarrow> ms' p = rx_store (s_rx s) p) \<Longrightarrow> length txqs' = length (s_txqs s ! i) \<Longrightarrow> txqs_ok txqs' \<Longrightarrow>
     sys_step E n (Run s)
       (Run (s\<lparr>s_dp := (s_dp s)\<lparr>d_heap := h'\<rparr>, s_rx := (s_rx s)\<lparr>rx_store := ms'\<rparr>, s_txqs := (s_txqs s)[i := txqs']\<rparr>))"
| w_fault: "i < n \<Longrightarrow> s_wpc s ! i = W_run \<Longrightarrow> e \<in> e_faults E \<Longrightarrow> sys_step E n (Run s) (Crash e)"
| w_end: "i < n \<Longrightarrow> s_wpc s ! i = W_run \<Longrightarrow>
     sys_step E n (Run s)
       (Run (s\<lparr>s_tls := (s_tls s)[i := (s_tls s ! i)\<lparr>finished := b\<rparr>], s_wpc := (s_wpc s)[i := W_respond]\<rparr>))"
| w_fill: "i < n \<Longrightarrow> s_wpc s ! i = W_respond \<Longrightarrow>
     sys_step E n (Run s) (Run (wput i W_publish (fill_response (wview i s)) s))"
| w_publish: "i < n \<Longrightarrow> s_wpc s ! i = W_publish \<Longrightarrow>
     sys_step E n (Run s)
       (Run (s\<lparr>s_dp := set_wr_flag i (if finished (s_tls s ! i) then FINISHED else PREEMPTED) (s_dp s),
               s_wpc := (s_wpc s)[i := W_loop]\<rparr>))"
| n_poll: "s_npc s = N_recv \<Longrightarrow> m \<notin> s_live s \<Longrightarrow> m \<noteq> NULL \<Longrightarrow> e_arrives E pk \<Longrightarrow>
     sys_step E n (Run s)
       (outcome_of (\<lambda>(ret, rxq, ms). s\<lparr>s_rx := (s_rx s)\<lparr>eth_rxqs := [rxq], rx_store := ms\<rparr>,
            s_live := if ret = 0 then insert m (s_live s) else s_live s\<rparr>)
          (eth_recv (hd (eth_rxqs (s_rx s))) ((rx_store (s_rx s))(m := pk)) m))"
| n_recv: "s_npc s = N_recv \<Longrightarrow>
     sys_step E n (Run s)
       (outcome_of (\<lambda>(k, rx, L). s\<lparr>s_rx := rx, s_nrecv := k, s_live := L, s_npc := if k = 0 then N_recv else N_wait\<rparr>)
          (bindE (eth_process_recv (e_cfg E) 1 (s_rx s)) (\<lambda>(k, rx).
           bindE (release (newly_freed (s_rx s) rx) (s_live s)) (\<lambda>L. Inr (k, rx, L)))))"
| n_stage: "s_npc s = N_wait \<Longrightarrow> np_cnt (networker_pointers (s_dp s)) = 0 \<Longrightarrow>
     sys_step E n (Run s)
       (outcome_of (\<lambda>(np, rx, L). s\<lparr>s_dp := (s_dp s)\<lparr>networker_pointers := np\<rparr>, s_rx := rx, s_live := L, s_npc := N_publish\<rparr>)
          (bindE (stage_batch cy (s_nrecv s) (networker_pointers (s_dp s)) (s_rx s)) (\<lambda>(np, rx).
           bindE (release (newly_freed (s_rx s) rx) (s_live s)) (\<lambda>L. Inr (np, rx, L)))))"
| n_publish: "s_npc s = N_publish \<Longrightarrow>
     sys_step E n (Run s)
       (Run (s\<lparr>s_dp := (s_dp s)\<lparr>networker_pointers := (networker_pointers (s_dp s))\<lparr>np_cnt := of_nat (s_nrecv s)\<rparr>\<rparr>,
               s_npc := N_recv\<rparr>))"

end
