(* ===== verification/System_Inv.thy ===== *)
theory System_Inv
  imports System
begin

text \<open>
  The invariant of the whole program.  Control: each request and response slot goes through a
  fixed handshake.  Ownership: every context in use and every buffer that is out belongs to
  exactly one task, queue, slot or batch.  Together they exclude every fault of the
  threads themselves.
\<close>

section \<open>Tasks held by the slots\<close>

definition slot_of :: "worker_response \<Rightarrow> dispatcher_request \<Rightarrow> wpc \<Rightarrow> task list" where
  "slot_of w r pc =
     (if wr_flag w = RUNNING then (if pc = W_boot then [] else [request_task r])
      else if wr_flag w = PROCESSED then [] else [response_task w])"

definition slot_list :: "sys \<Rightarrow> nat \<Rightarrow> task list" where
  "slot_list s i = slot_of (worker_responses (s_dp s) ! i) (dispatcher_requests (s_dp s) ! i) (s_wpc s ! i)"

definition tasks_of :: "nat \<Rightarrow> nat \<Rightarrow> sys \<Rightarrow> (nat \<Rightarrow> task list) \<Rightarrow> task multiset" where
  "tasks_of m n s qs = waiting m qs + waiting n (slot_list s)"

section \<open>Control\<close>

text \<open>Between two requests: at the head of the loop, or waiting for a request.\<close>

definition between :: "wpc \<Rightarrow> bool" where
  "between pc \<longleftrightarrow> pc = W_loop \<or> pc = W_poll"

lemma between_simps [simp]: "between W_loop" "between W_poll" "\<not> between W_boot" "\<not> between W_start" "\<not> between W_run"
    "\<not> between W_respond" "\<not> between W_publish"
  by (simp_all add: between_def)

lemma between_not: "between pc \<Longrightarrow> pc \<noteq> W_boot \<and> pc \<noteq> W_start \<and> pc \<noteq> W_run \<and> pc \<noteq> W_respond \<and> pc \<noteq> W_publish"
  by (auto simp: between_def)

definition slot_inv :: "sys \<Rightarrow> nat \<Rightarrow> bool" where
  "slot_inv s i \<longleftrightarrow> (let w = worker_responses (s_dp s) ! i; r = dispatcher_requests (s_dp s) ! i;
       pc = s_wpc s ! i; tls = s_tls s ! i in
     wr_flag w \<in> {RUNNING, FINISHED, PREEMPTED, PROCESSED} \<and> dr_flag r \<in> {WAITING, ACTIVE} \<and>
     (pc = W_boot \<longrightarrow> wr_flag w = RUNNING \<and> dr_flag r = WAITING) \<and>
     (pc \<noteq> W_boot \<longrightarrow> my_cpu_nr tls = i) \<and>
     (wr_flag w \<noteq> RUNNING \<longrightarrow> between pc \<and> dr_flag r = WAITING) \<and>
     (pc \<in> {W_start, W_run, W_respond, W_publish} \<longrightarrow> dr_flag r = WAITING) \<and>
     (pc \<in> {W_run, W_respond, W_publish} \<longrightarrow> cont tls = dr_rnbl r) \<and>
     (pc = W_publish \<longrightarrow> response_task w = (request_task r)\<lparr>tsk_category := CONTEXT\<rparr>) \<and>
     (\<forall>cur. s_dpc s = D_publish i cur \<longrightarrow> wr_flag w = RUNNING \<and> between pc \<and> dr_flag r = WAITING) \<and>
     (\<forall>cur. s_dpc s = D_dispatch i cur \<longrightarrow> wr_flag w = PROCESSED))"

definition shape :: "nat \<Rightarrow> nat \<Rightarrow> sys \<Rightarrow> bool" where
  "shape m n s \<longleftrightarrow> n \<le> MAX_WORKERS \<and>
     length (worker_responses (s_dp s)) = MAX_WORKERS \<and> length (dispatcher_requests (s_dp s)) = MAX_WORKERS \<and>
     length (timestamps (s_dp s)) = MAX_WORKERS \<and> length (preempt_check (s_dp s)) = MAX_WORKERS \<and>
     length (tskq (s_dp s)) = m \<and> length (s_tls s) = n \<and> length (s_wpc s) = n \<and> length (s_txqs s) = n \<and> (\<forall>i<n. txqs_ok (s_txqs s ! i)) \<and>
     (\<forall>i cur. s_dpc s = D_dispatch i cur \<or> s_dpc s = D_publish i cur \<longrightarrow> i < n)"

definition control :: "nat \<Rightarrow> nat \<Rightarrow> sys \<Rightarrow> bool" where
  "control m n s \<longleftrightarrow> shape m n s \<and> (\<forall>i<n. slot_inv s i)"

section \<open>The network side\<close>

text \<open>Buffers in the structure shared with the networking core: inbound while \<open>cnt\<close> is set, else on their way back.\<close>

definition np_bufs :: "networker_pointers_t \<Rightarrow> addr list" where
  "np_bufs np = (if np_cnt np \<noteq> 0 then take (unat (np_cnt np)) (np_pkts np) else take (unat (np_free_cnt np)) (np_pkts np))"

definition batch_of :: "sys \<Rightarrow> addr list" where
  "batch_of s = (if s_npc s = N_recv then [] else take (s_nrecv s) (recv_mbufs (s_rx s)))"

definition np_inv :: "nat \<Rightarrow> mstore \<Rightarrow> networker_pointers_t \<Rightarrow> bool" where
  "np_inv m ms np \<longleftrightarrow>
     length (np_pkts np) = ETH_RX_MAX_BATCH \<and> length (np_types np) = ETH_RX_MAX_BATCH \<and>
     unat (np_cnt np) \<le> ETH_RX_MAX_BATCH \<and> unat (np_free_cnt np) \<le> ETH_RX_MAX_BATCH \<and>
     (np_cnt np \<noteq> 0 \<longrightarrow> np_free_cnt np = 0 \<and>
        (\<forall>i<unat (np_cnt np). unat (np_types np ! i) < m \<and> udp_fits (ms (np_pkts np ! i))))"

definition batch_inv :: "nat \<Rightarrow> sys \<Rightarrow> bool" where
  "batch_inv m s \<longleftrightarrow>
     length (recv_mbufs (s_rx s)) = ETH_RX_MAX_BATCH \<and> length (recv_type (s_rx s)) = ETH_RX_MAX_BATCH \<and>
     (s_npc s \<noteq> N_recv \<longrightarrow> 0 < s_nrecv s \<and> s_nrecv s \<le> ETH_RX_MAX_BATCH \<and>
        (\<forall>i < s_nrecv s. 0 \<le> recv_type (s_rx s) ! i \<and> recv_type (s_rx s) ! i < int m \<and>
           udp_fits (rx_store (s_rx s) (recv_mbufs (s_rx s) ! i)))) \<and>
     (s_npc s = N_publish \<longrightarrow> np_cnt (networker_pointers (s_dp s)) = 0 \<and> np_free_cnt (networker_pointers (s_dp s)) = 0 \<and>
        take (s_nrecv s) (np_pkts (networker_pointers (s_dp s))) = take (s_nrecv s) (recv_mbufs (s_rx s)) \<and>
        (\<forall>i < s_nrecv s. np_types (networker_pointers (s_dp s)) ! i = of_int (recv_type (s_rx s) ! i)))"

text \<open>Two buffers that agree in length and from byte 12 on are treated alike by reception.\<close>

definition same_rx :: "mbuf \<Rightarrow> mbuf \<Rightarrow> bool" where
  "same_rx a b \<longleftrightarrow> mb_len a = mb_len b \<and> (\<forall>x\<ge>12. mb_data a x = mb_data b x)"

text \<open>What is in a buffer of the receive queue arrived from the network.\<close>

definition arrived :: "(mbuf \<Rightarrow> bool) \<Rightarrow> mbuf \<Rightarrow> bool" where
  "arrived A b \<longleftrightarrow> (\<exists>pk. A pk \<and> same_rx b pk)"

definition rxq_inv :: "(mbuf \<Rightarrow> bool) \<Rightarrow> sys \<Rightarrow> addr list \<Rightarrow> bool" where
  "rxq_inv A s q \<longleftrightarrow> (\<exists>rxq. eth_rxqs (s_rx s) = [rxq] \<and> rxq_rep rxq (rx_store (s_rx s)) q) \<and>
     (\<forall>p\<in>set q. arrived A (rx_store (s_rx s) p))"

definition network :: "(mbuf \<Rightarrow> bool) \<Rightarrow> nat \<Rightarrow> sys \<Rightarrow> addr list \<Rightarrow> bool" where
  "network A m s q \<longleftrightarrow> np_inv m (rx_store (s_rx s)) (networker_pointers (s_dp s)) \<and> batch_inv m s \<and> rxq_inv A s q"

section \<open>Ownership\<close>

definition task_ok :: "nat \<Rightarrow> mstore \<Rightarrow> task \<Rightarrow> bool" where
  "task_ok m ms t \<longleftrightarrow> unat (tsk_type t) < m \<and> (tsk_category t = PACKET \<longrightarrow> udp_fits (ms (tsk_mbuf t)))"

definition owned :: "universe \<Rightarrow> nat \<Rightarrow> nat \<Rightarrow> sys \<Rightarrow> (nat \<Rightarrow> task list) \<Rightarrow> addr list \<Rightarrow> addr set \<Rightarrow> addr list \<Rightarrow> bool" where
  "owned U m n s qs bs Lc q \<longleftrightarrow>
     disp_rep U (s_dp s) qs bs Lc \<and>
     image_mset tsk_runnable (tasks_of m n s qs) = mset_set Lc \<and>
     image_mset tsk_mbuf (tasks_of m n s qs) + mset bs + mset (np_bufs (networker_pointers (s_dp s))) + mset q +
       mset (batch_of s) = mset_set (s_live s) \<and>
     finite (s_live s) \<and> NULL \<notin> s_live s \<and>
     (\<forall>t\<in>#tasks_of m n s qs. task_ok m (rx_store (s_rx s)) t) \<and>
     length bs + card Lc \<le> ctx_capacity U"

text \<open>What is assumed of the configuration and of the sizes of the pools.\<close>

definition sized :: "cfg_parameters \<Rightarrow> universe \<Rightarrow> nat \<Rightarrow> nat \<Rightarrow> bool" where
  "sized cfg U m n \<longleftrightarrow>
     ctx_capacity U \<le> card (u_task U) \<and> ctx_capacity U \<le> card (u_mcell U) \<and> ETH_RX_MAX_BATCH \<le> card (u_mcell U) \<and>
     nat (num_ports cfg) \<le> m \<and> m \<le> 256 \<and> nat (num_ports cfg) \<le> length (cfg_ports cfg) \<and> n + 2 \<le> length (cfg_cpu cfg)"

definition sys_inv :: "(mbuf \<Rightarrow> bool) \<Rightarrow> universe \<Rightarrow> nat \<Rightarrow> nat \<Rightarrow> sys \<Rightarrow> bool" where
  "sys_inv A U m n s \<longleftrightarrow> control m n s \<and> (\<exists>qs bs Lc q. owned U m n s qs bs Lc q \<and> network A m s q)"

section \<open>Accounting\<close>

lemma waiting_cong: "(\<And>j. j < n \<Longrightarrow> f j = g j) \<Longrightarrow> waiting n f = waiting n g"
  by (simp add: waiting_def)

lemma waiting_change:
  assumes "i < n" and "\<And>j. j < n \<Longrightarrow> j \<noteq> i \<Longrightarrow> g j = f j"
  shows "waiting n g + mset (f i) = waiting n f + mset (g i)"
  using waiting_upd [OF assms(1), of f "g i"] waiting_cong [of n "f(i := g i)" g] assms(2) by simp

lemma tasks_of_slots:
  assumes "i < n" and "\<And>j. j < n \<Longrightarrow> j \<noteq> i \<Longrightarrow> slot_list s' j = slot_list s j"
  shows "tasks_of m n s' qs + mset (slot_list s i) = tasks_of m n s qs + mset (slot_list s' i)"
  using waiting_change [OF assms] by (simp add: tasks_of_def)

lemma tasks_of_cong:
  assumes "\<And>j. j < n \<Longrightarrow> slot_list s' j = slot_list s j"
  shows "tasks_of m n s' qs = tasks_of m n s qs"
  using waiting_cong [of n "slot_list s'" "slot_list s", OF assms] by (simp add: tasks_of_def)

lemma slot_in_tasks: "i < n \<Longrightarrow> t \<in> set (slot_list s i) \<Longrightarrow> t \<in># tasks_of m n s qs"
  using waiting_upd [of i n "slot_list s" "[]"] by (simp add: tasks_of_def) (metis UnI2 set_mset_mset set_mset_union)

text \<open>What a task in the system gives: its context is in use, its buffer is out.\<close>

lemma owned_task:
  assumes "owned U m n s qs bs Lc q" and "t \<in># tasks_of m n s qs"
  shows "tsk_runnable t \<in> Lc" "tsk_mbuf t \<in> s_live s" "tsk_mbuf t \<noteq> NULL" "task_ok m (rx_store (s_rx s)) t" "tsk_runnable t \<noteq> NULL"
proof -
  have rep: "disp_rep U (s_dp s) qs bs Lc" and run: "image_mset tsk_runnable (tasks_of m n s qs) = mset_set Lc"
    and buf: "image_mset tsk_mbuf (tasks_of m n s qs) + mset bs + mset (np_bufs (networker_pointers (s_dp s))) + mset q +
       mset (batch_of s) = mset_set (s_live s)" and fin: "finite (s_live s)" "NULL \<notin> s_live s"
    using assms(1) by (simp_all add: owned_def)
  have fc: "finite Lc" "NULL \<notin> Lc" using disp_rep_finite [OF rep] by auto
  have "tsk_runnable t \<in># mset_set Lc" using assms(2) run by (metis image_eqI set_image_mset)
  then show r: "tsk_runnable t \<in> Lc" using fc by simp
  then show "tsk_runnable t \<noteq> NULL" using fc by auto
  have "tsk_mbuf t \<in># image_mset tsk_mbuf (tasks_of m n s qs)" using assms(2) by simp
  then have "tsk_mbuf t \<in># mset_set (s_live s)" unfolding buf [symmetric] by simp
  then show "tsk_mbuf t \<in> s_live s" using fin by simp
  then show "tsk_mbuf t \<noteq> NULL" using fin by auto
  show "task_ok m (rx_store (s_rx s)) t" using assms by (simp add: owned_def)
qed

section \<open>Steps of the dispatcher\<close>

definition same_net :: "sys \<Rightarrow> sys \<Rightarrow> bool" where
  "same_net s s' \<longleftrightarrow> s_rx s' = s_rx s \<and> s_npc s' = s_npc s \<and> s_nrecv s' = s_nrecv s \<and> s_live s' = s_live s \<and>
     networker_pointers (s_dp s') = networker_pointers (s_dp s)"

lemma network_same: "same_net s s' \<Longrightarrow> network A m s' q = network A m s q"
  by (simp add: same_net_def network_def batch_inv_def rxq_inv_def)

lemma owned_same_net:
  assumes "owned U m n s qs bs Lc q" and "same_net s s'" and "disp_rep U (s_dp s') qs' bs' Lc'"
    and "image_mset tsk_runnable (tasks_of m n s' qs') = mset_set Lc'"
    and "image_mset tsk_mbuf (tasks_of m n s' qs') + mset bs' = image_mset tsk_mbuf (tasks_of m n s qs) + mset bs"
    and "\<And>t. t \<in># tasks_of m n s' qs' \<Longrightarrow> task_ok m (rx_store (s_rx s)) t"
    and "length bs' + card Lc' \<le> ctx_capacity U"
  shows "owned U m n s' qs' bs' Lc' q"
proof -
  have "batch_of s' = batch_of s" using assms(2) by (simp add: same_net_def batch_of_def)
  then show ?thesis using assms by (simp add: owned_def same_net_def)
qed

text \<open>A step that changes neither tasks nor buffers nor contexts.\<close>

lemma owned_quiet:
  assumes own: "owned U m n s qs bs Lc q" and net: "same_net s s'"
    and rep: "disp_rep U (s_dp s') qs bs Lc" and sl: "\<And>j. j < n \<Longrightarrow> slot_list s' j = slot_list s j"
  shows "owned U m n s' qs bs Lc q"
  by (rule owned_same_net [OF own net rep]) (use own tasks_of_cong [of n s' s m qs, OF sl] in \<open>auto simp: owned_def\<close>)

lemma mark_processed_wr:
  "slots dp' = slots (mark_processed i dp) \<Longrightarrow>
     worker_responses dp' = (worker_responses dp)[i := (worker_responses dp ! i)\<lparr>wr_flag := PROCESSED\<rparr>] \<and>
     dispatcher_requests dp' = dispatcher_requests dp \<and> networker_pointers dp' = networker_pointers dp \<and>
     timestamps dp' = timestamps dp \<and> length (preempt_check dp') = length (preempt_check dp) \<and>
     length (tskq dp') = length (tskq dp)"
  by (simp add: slots_eq_iff mark_processed_def set_wr_flag_def set_preempt_check_def)

lemma control_processed:
  assumes c: "control m n s" and dpc: "s_dpc s = D_worker i cur" and i: "i < n"
    and fl: "wr_flag (worker_responses (s_dp s) ! i) \<noteq> RUNNING" and dp': "slots dp' = slots (mark_processed i (s_dp s))"
  defines "s' \<equiv> s\<lparr>s_dp := dp', s_dpc := D_dispatch i cur\<rparr>"
  shows "control m n s'" "slot_list s' i = []" "j < n \<Longrightarrow> j \<noteq> i \<Longrightarrow> slot_list s' j = slot_list s j" "same_net s s'"
proof -
  note w = mark_processed_wr [OF dp']
  have sh: "shape m n s" and sl: "\<And>j. j < n \<Longrightarrow> slot_inv s j" using c by (simp_all add: control_def)
  have iw: "i < length (worker_responses (s_dp s))" using sh i by (simp add: shape_def)
  show "slot_list s' i = []" using w iw by (simp add: slot_list_def slot_of_def s'_def flag_defs)
  show "j < n \<Longrightarrow> j \<noteq> i \<Longrightarrow> slot_list s' j = slot_list s j" using w by (simp add: slot_list_def s'_def)
  show "same_net s s'" using w by (simp add: same_net_def s'_def)
  have "slot_inv s' j" if j: "j < n" for j
    using sl [OF j] sl [OF i] w iw fl dpc by (cases "j = i") (auto simp: slot_inv_def s'_def Let_def)
  moreover have "shape m n s'" using sh w i by (simp add: shape_def s'_def)
  ultimately show "control m n s'" by (simp add: control_def)
qed

lemma step_finished:
  assumes c: "control m n s" and own: "owned U m n s qs bs Lc q" and net: "network A m s q" and sz: "sized cfg U m n"
    and dpc: "s_dpc s = D_worker i cur" and i: "i < n" and fl: "wr_flag (worker_responses (s_dp s) ! i) = FINISHED"
  shows "\<exists>dp'. handle_response i (s_dp s) = Inr dp' \<and> sys_inv A U m n (s\<lparr>s_dp := dp', s_dpc := D_dispatch i cur\<rparr>)"
proof -
  let ?w = "worker_responses (s_dp s) ! i"
  have sl: "slot_list s i = [response_task ?w]" using fl by (simp add: slot_list_def slot_of_def flag_defs)
  then have t: "response_task ?w \<in># tasks_of m n s qs" using slot_in_tasks [OF i, of "response_task ?w" s] by simp
  note o = owned_task [OF own t]
  have cL: "wr_rnbl ?w \<in> Lc" and b: "wr_mbuf ?w \<noteq> NULL" using o by (simp_all add: response_task_def)
  have rep: "disp_rep U (s_dp s) qs bs Lc" and cap: "length bs + card Lc \<le> ctx_capacity U" using own by (simp_all add: owned_def)
  have fin: "finite Lc" by (rule disp_rep_finite [OF rep])
  then have card: "0 < card Lc" "card (Lc - {wr_rnbl ?w}) = card Lc - 1" using cL by (auto simp: card_gt_0_iff)
  then have room: "length bs < card (u_mcell U)" using cap sz by (simp add: sized_def)
  obtain dp' where call: "handle_finished i (s_dp s) = Inr dp'" and dp': "slots dp' = slots (mark_processed i (s_dp s))"
    and rep': "disp_rep U dp' qs (wr_mbuf ?w # bs) (Lc - {wr_rnbl ?w})"
    using handle_finished_refines [OF rep cL b room] by auto
  define s' where "s' = s\<lparr>s_dp := dp', s_dpc := D_dispatch i cur\<rparr>"
  have fl': "wr_flag ?w \<noteq> RUNNING" using fl by (simp add: flag_defs)
  note cp = control_processed [OF c dpc i fl' dp', folded s'_def]
  have T: "add_mset (response_task ?w) (tasks_of m n s' qs) = tasks_of m n s qs"
    using tasks_of_slots [OF i, of s' s m qs] cp(2,3) sl by simp
  have run: "image_mset tsk_runnable (tasks_of m n s qs) = mset_set Lc" using own by (simp add: owned_def)
  then have "add_mset (wr_rnbl ?w) (image_mset tsk_runnable (tasks_of m n s' qs)) = mset_set Lc"
    using arg_cong [OF T, of "image_mset tsk_runnable"] by (simp add: response_task_def)
  moreover have "mset_set Lc = add_mset (wr_rnbl ?w) (mset_set (Lc - {wr_rnbl ?w}))"
    using fin cL by (simp add: mset_set.remove)
  ultimately have run': "image_mset tsk_runnable (tasks_of m n s' qs) = mset_set (Lc - {wr_rnbl ?w})"
    by simp
  have "owned U m n s' qs (wr_mbuf ?w # bs) (Lc - {wr_rnbl ?w}) q"
  proof (rule owned_same_net [OF own cp(4)])
    show "disp_rep U (s_dp s') qs (wr_mbuf ?w # bs) (Lc - {wr_rnbl ?w})" using rep' by (simp add: s'_def)
    show "image_mset tsk_mbuf (tasks_of m n s' qs) + mset (wr_mbuf ?w # bs) = image_mset tsk_mbuf (tasks_of m n s qs) + mset bs"
      unfolding T [symmetric] by (simp add: response_task_def)
    show "task_ok m (rx_store (s_rx s)) t" if "t \<in># tasks_of m n s' qs" for t
      using that own unfolding owned_def T [symmetric] by simp
    show "length (wr_mbuf ?w # bs) + card (Lc - {wr_rnbl ?w}) \<le> ctx_capacity U" using cap card by simp
  qed (rule run')
  then have "sys_inv A U m n s'"
    using cp(1) net network_same [OF cp(4)] by (auto simp: sys_inv_def)
  then show ?thesis using call fl by (simp add: handle_response_def s'_def)
qed

lemma size_tasks: "owned U m n s qs bs Lc q \<Longrightarrow> size (tasks_of m n s qs) = card Lc"
  by (metis owned_def size_image_mset size_mset_set)

lemma step_preempted:
  assumes c: "control m n s" and own: "owned U m n s qs bs Lc q" and net: "network A m s q" and sz: "sized cfg U m n"
    and dpc: "s_dpc s = D_worker i cur" and i: "i < n" and fl: "wr_flag (worker_responses (s_dp s) ! i) = PREEMPTED"
  shows "\<exists>dp'. handle_response i (s_dp s) = Inr dp' \<and> sys_inv A U m n (s\<lparr>s_dp := dp', s_dpc := D_dispatch i cur\<rparr>)"
proof -
  let ?w = "worker_responses (s_dp s) ! i"
  let ?t = "response_task ?w" and ?k = "unat (wr_type ?w)"
  have sl: "slot_list s i = [?t]" using fl by (simp add: slot_list_def slot_of_def flag_defs)
  then have t: "?t \<in># tasks_of m n s qs" using slot_in_tasks [OF i, of ?t s] by simp
  have m: "length (tskq (s_dp s)) = m" using c by (simp add: control_def shape_def)
  have k: "?k < m" using owned_task(4) [OF own t] by (simp add: task_ok_def response_task_def)
  have rep: "disp_rep U (s_dp s) qs bs Lc" and cap: "length bs + card Lc \<le> ctx_capacity U" using own by (simp_all add: owned_def)
  have "waiting n (slot_list s) = add_mset ?t (waiting n ((slot_list s)(i := [])))"
    using waiting_upd [OF i, of "slot_list s" "[]"] sl by simp
  then have "size (waiting m qs) < size (tasks_of m n s qs)"
    by (simp add: tasks_of_def)
  then have room: "queued (s_dp s) qs < card (u_task U)"
    using size_tasks [OF own] cap sz m by (simp add: queued_waiting sized_def)
  obtain dp' where call: "handle_preempted i (s_dp s) = Inr dp'" and dp': "slots dp' = slots (mark_processed i (s_dp s))"
    and rep': "disp_rep U dp' (qs(?k := qs ?k @ [?t])) bs Lc"
    using handle_preempted_refines [OF rep _ room, of i] k m by auto
  define s' where "s' = s\<lparr>s_dp := dp', s_dpc := D_dispatch i cur\<rparr>"
  have fl': "wr_flag ?w \<noteq> RUNNING" using fl by (simp add: flag_defs)
  note cp = control_processed [OF c dpc i fl' dp', folded s'_def]
  have "add_mset ?t (tasks_of m n s' qs) = tasks_of m n s qs"
    using tasks_of_slots [OF i, of s' s m qs] cp(2,3) sl by simp
  then have T: "tasks_of m n s' (qs(?k := qs ?k @ [?t])) = tasks_of m n s qs"
    using waiting_enq [OF k, of qs ?t] by (simp add: tasks_of_def)
  have "owned U m n s' (qs(?k := qs ?k @ [?t])) bs Lc q"
    by (rule owned_same_net [OF own cp(4)]) (use rep' own cap T in \<open>auto simp: s'_def owned_def\<close>)
  then have "sys_inv A U m n s'"
    using cp(1) net network_same [OF cp(4)] by (auto simp: sys_inv_def)
  then show ?thesis using call fl by (simp add: handle_response_def s'_def flag_defs)
qed

lemma step_respond:
  assumes inv: "sys_inv A U m n s" and sz: "sized cfg U m n" and dpc: "s_dpc s = D_worker i cur" and i: "i < n"
    and fl: "wr_flag (worker_responses (s_dp s) ! i) \<noteq> RUNNING"
  shows "\<exists>dp'. handle_response i (s_dp s) = Inr dp' \<and> sys_inv A U m n (s\<lparr>s_dp := dp', s_dpc := D_dispatch i cur\<rparr>)"
proof -
  obtain qs bs Lc q where c: "control m n s" and own: "owned U m n s qs bs Lc q" and net: "network A m s q"
    using inv by (auto simp: sys_inv_def)
  have "wr_flag (worker_responses (s_dp s) ! i) \<in> {FINISHED, PREEMPTED, PROCESSED}"
    using c i fl by (auto simp: control_def slot_inv_def Let_def)
  then consider "wr_flag (worker_responses (s_dp s) ! i) = FINISHED" | "wr_flag (worker_responses (s_dp s) ! i) = PREEMPTED"
    | (proc) "wr_flag (worker_responses (s_dp s) ! i) = PROCESSED" by auto
  then show ?thesis
  proof cases
    case proc
    define s' where "s' = s\<lparr>s_dpc := D_dispatch i cur\<rparr>"
    have sl: "slot_list s' j = slot_list s j" for j by (simp add: s'_def slot_list_def)
    have sn: "same_net s s'" by (simp add: s'_def same_net_def)
    have "slot_inv s' j" if "j < n" for j
      using c that proc dpc by (auto simp: control_def slot_inv_def s'_def Let_def)
    then have "control m n s'" using c i by (auto simp: control_def shape_def s'_def)
    moreover have "owned U m n s' qs bs Lc q"
      by (rule owned_quiet [OF own sn]) (use own sl in \<open>auto simp: owned_def s'_def\<close>)
    ultimately have "sys_inv A U m n s'"
      using net network_same [OF sn] by (auto simp: sys_inv_def)
    then show ?thesis using proc by (simp add: handle_response_def s'_def flag_defs)
  qed (use step_finished [OF c own net sz dpc i] step_preempted [OF c own net sz dpc i] in blast)+
qed

lemma step_preempt:
  assumes inv: "sys_inv A U m n s" and sz: "sized cfg U m n" and dpc: "s_dpc s = D_worker i cur" and i: "i < n"
  shows "\<exists>dp'. preempt_worker cfg i cur (s_dp s) = Inr dp' \<and> sys_inv A U m n (s\<lparr>s_dp := dp', s_dpc := D_worker (Suc i) cur\<rparr>)"
proof -
  obtain qs bs Lc q where c: "control m n s" and own: "owned U m n s qs bs Lc q" and net: "network A m s q"
    using inv by (auto simp: sys_inv_def)
  have "\<exists>pc ip. preempt_worker cfg i cur (s_dp s) = Inr ((s_dp s)\<lparr>preempt_check := pc, d_ipis := ip\<rparr>) \<and>
      length pc = length (preempt_check (s_dp s))"
  proof (cases "preempt_check (s_dp s) ! i \<and> preempt_due (cur - timestamps (s_dp s) ! i)")
    case True
    then show ?thesis
      using sz i by (intro exI [of _ "(preempt_check (s_dp s))[i := False]"]
          exI [of _ "(PREEMPT_VECTOR, cfg_cpu cfg ! (i + 2)) # d_ipis (s_dp s)"])
        (simp add: preempt_worker_def sized_def set_preempt_check_def)
  next
    case False
    then show ?thesis
      by (intro exI [of _ "preempt_check (s_dp s)"] exI [of _ "d_ipis (s_dp s)"]) (auto simp: preempt_worker_def)
  qed
  then obtain pc ip where call: "preempt_worker cfg i cur (s_dp s) = Inr ((s_dp s)\<lparr>preempt_check := pc, d_ipis := ip\<rparr>)"
    and len: "length pc = length (preempt_check (s_dp s))" by blast
  define s' where "s' = s\<lparr>s_dp := (s_dp s)\<lparr>preempt_check := pc, d_ipis := ip\<rparr>, s_dpc := D_worker (Suc i) cur\<rparr>"
  have sl: "slot_list s' j = slot_list s j" for j by (simp add: s'_def slot_list_def)
  have sn: "same_net s s'" by (simp add: s'_def same_net_def)
  have "slot_inv s' j" if "j < n" for j
    using c that dpc by (auto simp: control_def slot_inv_def s'_def Let_def)
  then have "control m n s'" using c len by (auto simp: control_def shape_def s'_def)
  moreover have "owned U m n s' qs bs Lc q"
    by (rule owned_quiet [OF own sn]) (use own sl in \<open>auto simp: owned_def s'_def\<close>)
  ultimately have "sys_inv A U m n s'"
    using net network_same [OF sn] by (auto simp: sys_inv_def)
  then show ?thesis using call by (simp add: s'_def)
qed

text \<open>A slot keeps its invariant when none of its parts changes and the dispatcher is elsewhere.\<close>

lemma slot_inv_other:
  assumes "slot_inv s j" and "worker_responses (s_dp s') ! j = worker_responses (s_dp s) ! j"
    and "dispatcher_requests (s_dp s') ! j = dispatcher_requests (s_dp s) ! j"
    and "s_wpc s' ! j = s_wpc s ! j" and "s_tls s' ! j = s_tls s ! j"
    and "s_dpc s' = s_dpc s \<or> (\<forall>cur. s_dpc s' \<noteq> D_publish j cur \<and> s_dpc s' \<noteq> D_dispatch j cur)"
  shows "slot_inv s' j"
  using assms(1,6) unfolding slot_inv_def Let_def assms(2-5) by (elim disjE) simp_all

lemma fill_request_slot:
  assumes "slots dp' = slots (fill_request i t cur dp)"
  shows "worker_responses dp' = (worker_responses dp)[i := (worker_responses dp ! i)\<lparr>wr_flag := RUNNING\<rparr>]"
    "\<exists>cy. dispatcher_requests dp' = (dispatcher_requests dp)[i := (dispatcher_requests dp ! i)\<lparr>dr_rnbl := tsk_runnable t, dr_mbuf := tsk_mbuf t,
       dr_type := tsk_type t, dr_category := tsk_category t, dr_timestamp := tsk_timestamp t, dr_dispatcher_cy := cy\<rparr>]"
    "networker_pointers dp' = networker_pointers dp" "length (timestamps dp') = length (timestamps dp)"
    "length (preempt_check dp') = length (preempt_check dp)" "length (tskq dp') = length (tskq dp)"
  using assms by (auto simp: slots_eq_iff fill_request_def set_wr_flag_def Let_def)

lemma step_prepare:
  assumes inv: "sys_inv A U m n s" and sz: "sized cfg U m n" and dpc: "s_dpc s = D_dispatch i cur"
  shows "\<exists>b dp'. prepare_request cfg i cur (s_dp s) = Inr (b, dp') \<and>
    sys_inv A U m n (s\<lparr>s_dp := dp', s_dpc := if b then D_publish i cur else D_worker (Suc i) cur\<rparr>)"
proof -
  obtain qs bs Lc q where c: "control m n s" and own: "owned U m n s qs bs Lc q" and net: "network A m s q"
    using inv by (auto simp: sys_inv_def)
  have i: "i < n" using c dpc by (auto simp: control_def shape_def)
  have rep: "disp_rep U (s_dp s) qs bs Lc" using own by (simp add: owned_def)
  have m: "length (tskq (s_dp s)) = m" and iw: "i < length (worker_responses (s_dp s))" "i < length (dispatcher_requests (s_dp s))"
    using c i by (auto simp: control_def shape_def)
  have si: "slot_inv s i" using c i by (simp add: control_def)
  then have pr: "wr_flag (worker_responses (s_dp s) ! i) = PROCESSED" "between (s_wpc s ! i)"
    "dr_flag (dispatcher_requests (s_dp s) ! i) = WAITING"
    using dpc by (auto simp: slot_inv_def Let_def flag_defs)
  have np: "nat (num_ports cfg) \<le> length (tskq (s_dp s))" using sz m by (simp add: sized_def)
  from prepare_request_refines [OF rep np, of cur i] show ?thesis
  proof (elim disjE exE conjE)
    fix k t qk dp'
    assume w: "wins cfg cur qs (nat (num_ports cfg)) k" and qk: "qs k = t # qk"
      and call: "prepare_request cfg i cur (s_dp s) = Inr (True, dp')" and dp': "slots dp' = slots (fill_request i t cur (s_dp s))"
      and rep': "disp_rep U dp' (qs(k := qk)) bs Lc"
    define s' where "s' = s\<lparr>s_dp := dp', s_dpc := D_publish i cur\<rparr>"
    note f = fill_request_slot [OF dp']
    obtain cy where dr: "dispatcher_requests dp' = (dispatcher_requests (s_dp s))[i := (dispatcher_requests (s_dp s) ! i)
       \<lparr>dr_rnbl := tsk_runnable t, dr_mbuf := tsk_mbuf t, dr_type := tsk_type t, dr_category := tsk_category t,
        dr_timestamp := tsk_timestamp t, dr_dispatcher_cy := cy\<rparr>]" using f(2) by blast
    have k: "k < m" using w sz by (simp add: wins_def sized_def)
    have sli: "slot_list s i = []" "slot_list s' i = [t]"
      using pr between_not [OF pr(2)] f(1) dr iw by (simp_all add: slot_list_def slot_of_def s'_def request_task_def flag_defs)
    have slj: "j < n \<Longrightarrow> j \<noteq> i \<Longrightarrow> slot_list s' j = slot_list s j" for j
      using f(1) dr by (simp add: slot_list_def s'_def)
    have T: "tasks_of m n s' (qs(k := qk)) = tasks_of m n s qs"
      using tasks_of_slots [OF i, of s' s m qs] slj sli waiting_deq [of k m qs t qk] k qk by (simp add: tasks_of_def)
    have sn: "same_net s s'" using f(3) by (simp add: same_net_def s'_def)
    have "slot_inv s' i"
      using pr between_not [OF pr(2)] f(1) dr iw si by (simp add: slot_inv_def s'_def Let_def flag_defs)
    moreover have "slot_inv s' j" if j: "j < n" "j \<noteq> i" for j
      by (rule slot_inv_other [of s]) (use c j f(1) dr in \<open>auto simp: control_def s'_def\<close>)
    ultimately have "slot_inv s' j" if "j < n" for j using that by blast
    then have "control m n s'" using c f dr i by (auto simp: control_def shape_def s'_def)
    moreover have "owned U m n s' (qs(k := qk)) bs Lc q"
      by (rule owned_same_net [OF own sn]) (use rep' own T in \<open>auto simp: s'_def owned_def\<close>)
    ultimately have "sys_inv A U m n s'"
      using net network_same [OF sn] by (auto simp: sys_inv_def)
    then show ?thesis using call by (intro exI [of _ True] exI [of _ dp']) (simp add: s'_def)
  next
    assume call: "prepare_request cfg i cur (s_dp s) = Inr (False, s_dp s)"
    define s' where "s' = s\<lparr>s_dpc := D_worker (Suc i) cur\<rparr>"
    have sl: "slot_list s' j = slot_list s j" for j by (simp add: s'_def slot_list_def)
    have sn: "same_net s s'" by (simp add: s'_def same_net_def)
    have "slot_inv s' j" if "j < n" for j
      using c that by (auto simp: control_def slot_inv_def s'_def Let_def)
    then have "control m n s'" using c by (auto simp: control_def shape_def s'_def)
    moreover have "owned U m n s' qs bs Lc q"
      by (rule owned_quiet [OF own sn]) (use own sl in \<open>auto simp: owned_def s'_def\<close>)
    ultimately have "sys_inv A U m n s'"
      using net network_same [OF sn] by (auto simp: sys_inv_def)
    then show ?thesis using call by (intro exI [of _ False] exI [of _ "s_dp s"]) (simp add: s'_def)
  qed
qed

lemma step_publish:
  assumes inv: "sys_inv A U m n s" and dpc: "s_dpc s = D_publish i cur"
  shows "sys_inv A U m n (s\<lparr>s_dp := set_dr_flag i ACTIVE (s_dp s), s_dpc := D_worker (Suc i) cur\<rparr>)"
proof -
  obtain qs bs Lc q where c: "control m n s" and own: "owned U m n s qs bs Lc q" and net: "network A m s q"
    using inv by (auto simp: sys_inv_def)
  define s' where "s' = s\<lparr>s_dp := set_dr_flag i ACTIVE (s_dp s), s_dpc := D_worker (Suc i) cur\<rparr>"
  have i: "i < n" using c dpc by (auto simp: control_def shape_def)
  have iw: "i < length (dispatcher_requests (s_dp s))" using c i by (auto simp: control_def shape_def)
  have sl: "slot_list s' j = slot_list s j" for j
    using iw by (cases "j = i") (auto simp: s'_def slot_list_def slot_of_def set_dr_flag_def request_task_def)
  have sn: "same_net s s'" by (simp add: s'_def same_net_def set_dr_flag_def)
  have si: "slot_inv s i" using c i by (simp add: control_def)
  then have "between (s_wpc s ! i)" using dpc by (simp add: slot_inv_def Let_def)
  from si between_not [OF this] have "slot_inv s' i"
    using iw dpc by (simp add: slot_inv_def s'_def set_dr_flag_def Let_def flag_defs)
  moreover have "slot_inv s' j" if j: "j < n" "j \<noteq> i" for j
    by (rule slot_inv_other [of s]) (use c j in \<open>auto simp: control_def s'_def set_dr_flag_def\<close>)
  ultimately have "slot_inv s' j" if "j < n" for j using that by blast
  then have "control m n s'" using c by (auto simp: control_def shape_def s'_def set_dr_flag_def)
  moreover have "owned U m n s' qs bs Lc q"
    by (rule owned_quiet [OF own sn]) (use own sl in \<open>auto simp: owned_def s'_def\<close>)
  ultimately have "sys_inv A U m n s'"
    using net network_same [OF sn] by (auto simp: sys_inv_def)
  then show ?thesis by (simp add: s'_def)
qed

lemma control_slots:
  assumes "control m n s" and "worker_responses dp' = worker_responses (s_dp s)"
    and "dispatcher_requests dp' = dispatcher_requests (s_dp s)" and "timestamps dp' = timestamps (s_dp s)"
    and "preempt_check dp' = preempt_check (s_dp s)" and "length (tskq dp') = length (tskq (s_dp s))"
  shows "control m n (s\<lparr>s_dp := dp', s_dpc := D_worker i cur\<rparr>)" "slot_list (s\<lparr>s_dp := dp', s_dpc := D_worker i cur\<rparr>) = slot_list s"
proof -
  have "slot_inv (s\<lparr>s_dp := dp', s_dpc := D_worker i cur\<rparr>) j" if "j < n" for j
    by (rule slot_inv_other [of s]) (use assms that in \<open>auto simp: control_def\<close>)
  then show "control m n (s\<lparr>s_dp := dp', s_dpc := D_worker i cur\<rparr>)"
    using assms by (simp add: control_def shape_def)
  show "slot_list (s\<lparr>s_dp := dp', s_dpc := D_worker i cur\<rparr>) = slot_list s"
    using assms by (simp add: slot_list_def fun_eq_iff)
qed

lemma np_bufs_live:
  assumes "owned U m n s qs bs Lc q" and "p \<in> set (np_bufs (networker_pointers (s_dp s)))"
  shows "p \<in> s_live s" "p \<noteq> NULL"
proof -
  have e: "image_mset tsk_mbuf (tasks_of m n s qs) + mset bs + mset (np_bufs (networker_pointers (s_dp s))) + mset q +
       mset (batch_of s) = mset_set (s_live s)" and f: "finite (s_live s)" "NULL \<notin> s_live s"
    using assms(1) by (simp_all add: owned_def)
  have "p \<in># mset_set (s_live s)" unfolding e [symmetric] using assms(2) by simp
  then show "p \<in> s_live s" using f by simp
  then show "p \<noteq> NULL" using f by auto
qed

lemma mset_in_live:
  assumes "mset bs \<subseteq># mset_set L" and "finite L"
  shows "distinct bs" "set bs \<subseteq> L"
proof -
  have c: "count (mset bs) x \<le> (if x \<in> L then 1 else 0)" for x
    using mset_subset_eq_count [OF assms(1), of x] assms(2) by (simp add: count_mset_set')
  have "count (mset bs) x = (if x \<in> set bs then 1 else 0)" for x
  proof (cases "x \<in> set bs")
    case True
    then have "0 < count (mset bs) x" by (simp add: count_greater_zero_iff)
    moreover have "count (mset bs) x \<le> 1" by (rule order_trans [OF c]) simp
    ultimately have "count (mset bs) x = 1" by linarith
    then show ?thesis using True by simp
  qed (simp add: not_in_iff [symmetric])
  then show "distinct bs" by (metis distinct_count_atmost_1)
  show "set bs \<subseteq> L" using mset_subset_eqD [OF assms(1)] assms(2) by auto
qed

text \<open>The lists of buffers that the invariant accounts for are disjoint parts of the live set.\<close>

lemma owned_parts:
  assumes "owned U m n s qs bs Lc q"
  shows "mset q \<subseteq># mset_set (s_live s)" "mset (np_bufs (networker_pointers (s_dp s))) \<subseteq># mset_set (s_live s)"
    "mset (batch_of s) \<subseteq># mset_set (s_live s)" "finite (s_live s)"
proof -
  have e: "mset_set (s_live s) = image_mset tsk_mbuf (tasks_of m n s qs) + mset bs + mset (np_bufs (networker_pointers (s_dp s))) +
       mset q + mset (batch_of s)"
    using assms by (simp add: owned_def)
  show "mset q \<subseteq># mset_set (s_live s)" "mset (np_bufs (networker_pointers (s_dp s))) \<subseteq># mset_set (s_live s)"
    "mset (batch_of s) \<subseteq># mset_set (s_live s)"
    unfolding e by (auto simp: subset_mset.le_iff_add ac_simps)
  show "finite (s_live s)" using assms by (simp add: owned_def)
qed

lemma owned_absorbed:
  assumes own: "owned U m n s qs bs Lc q" and net: "network A m s q" and cnt: "np_cnt (networker_pointers (s_dp s)) \<noteq> 0"
    and ab: "absorbed m (np_bufs (networker_pointers (s_dp s))) (qs, bs, Lc) (qs', rt @ bs', Lc')"
    and rep: "disp_rep U (s_dp s') qs' bs' Lc'" and cap: "length bs' + card Lc' \<le> ctx_capacity U"
    and sl: "slot_list s' = slot_list s" and np: "np_bufs (networker_pointers (s_dp s')) = rt"
    and rest: "s_rx s' = s_rx s" "s_npc s' = s_npc s" "s_nrecv s' = s_nrecv s" "s_live s' = s_live s"
  shows "owned U m n s' qs' bs' Lc' q"
proof -
  let ?ps = "np_bufs (networker_pointers (s_dp s))" and ?S = "waiting n (slot_list s)"
  have run: "image_mset tsk_runnable (waiting m qs) + image_mset tsk_runnable ?S = mset_set Lc"
    and buf: "image_mset tsk_mbuf (waiting m qs) + image_mset tsk_mbuf ?S + mset bs + mset ?ps + mset q + mset (batch_of s) = mset_set (s_live s)"
    using own by (simp_all add: owned_def tasks_of_def)
  have ab1: "image_mset tsk_mbuf (waiting m qs') + mset rt + mset bs' = image_mset tsk_mbuf (waiting m qs) + mset bs + mset ?ps"
    and ab2: "image_mset tsk_runnable (waiting m qs') + mset_set Lc = image_mset tsk_runnable (waiting m qs) + mset_set Lc'"
    and ab3: "\<forall>t\<in>#waiting m qs'. t \<in># waiting m qs \<or> unat (tsk_type t) < m \<and> tsk_mbuf t \<in> set ?ps"
    using ab by (simp_all add: absorbed_def add.assoc)
  have run': "image_mset tsk_runnable (waiting m qs') + image_mset tsk_runnable ?S = mset_set Lc'"
    using ab2 unfolding run [symmetric] by (simp add: ac_simps)
  have bt: "batch_of s' = batch_of s" using rest by (simp add: batch_of_def)
  have buf': "image_mset tsk_mbuf (waiting m qs') + image_mset tsk_mbuf ?S + mset bs' + mset rt + mset q + mset (batch_of s) = mset_set (s_live s)"
  proof (rule multiset_eqI)
    show "count (image_mset tsk_mbuf (waiting m qs') + image_mset tsk_mbuf ?S + mset bs' + mset rt + mset q + mset (batch_of s)) x =
        count (mset_set (s_live s)) x" for x
      using arg_cong [OF ab1, of "\<lambda>M. count M x"] arg_cong [OF buf, of "\<lambda>M. count M x"] by simp
  qed
  have ok: "task_ok m (rx_store (s_rx s)) t" if t: "t \<in># tasks_of m n s' qs'" for t
  proof (cases "t \<in># tasks_of m n s qs")
    case True
    then show ?thesis using own by (simp add: owned_def)
  next
    case False
    then have "unat (tsk_type t) < m" "tsk_mbuf t \<in> set ?ps"
      using t ab3 sl by (auto simp: tasks_of_def)
    then show ?thesis
      using net cnt by (auto simp: task_ok_def network_def np_inv_def np_bufs_def in_set_conv_nth)
  qed
  show ?thesis
    unfolding owned_def tasks_of_def sl bt np rest using rep run' buf' own ok cap
    by (simp add: owned_def tasks_of_def sl)
qed

lemma step_net:
  assumes inv: "sys_inv A U m n s" and sz: "sized cfg U m n" and dpc: "s_dpc s = D_worker i cur"
  shows "\<exists>dp'. handle_networker cur (s_dp s) = Inr dp' \<and> sys_inv A U m n (s\<lparr>s_dp := dp', s_dpc := D_worker 0 cur'\<rparr>)"
proof -
  let ?np = "networker_pointers (s_dp s)"
  obtain qs bs Lc q where c: "control m n s" and own: "owned U m n s qs bs Lc q" and net: "network A m s q"
    using inv by (auto simp: sys_inv_def)
  have rep: "disp_rep U (s_dp s) qs bs Lc" and cap: "length bs + card Lc \<le> ctx_capacity U" using own by (simp_all add: owned_def)
  have m: "length (tskq (s_dp s)) = m" using c by (simp add: control_def shape_def)
  show ?thesis
  proof (cases "np_cnt ?np = 0")
    case True
    define s' where "s' = s\<lparr>s_dp := s_dp s, s_dpc := D_worker 0 cur'\<rparr>"
    note cs = control_slots [OF c refl refl refl refl refl, of 0 cur', folded s'_def]
    have sn: "same_net s s'" by (simp add: s'_def same_net_def)
    have "owned U m n s' qs bs Lc q"
      by (rule owned_quiet [OF own sn]) (use rep cs(2) in \<open>auto simp: s'_def\<close>)
    then have "sys_inv A U m n s'" using cs(1) net network_same [OF sn] by (auto simp: sys_inv_def)
    then show ?thesis using True by (intro exI [of _ "s_dp s"]) (simp add: handle_networker_def s'_def)
  next
    case False
    have npi: "np_inv m (rx_store (s_rx s)) ?np" using net by (simp add: network_def)
    have ps: "np_bufs ?np = take (unat (np_cnt ?np)) (np_pkts ?np)" using False by (simp add: np_bufs_def)
    have nn: "np_pkts ?np ! j \<noteq> NULL" if "j < unat (np_cnt ?np)" for j
      by (rule np_bufs_live(2) [OF own]) (use that npi ps in \<open>auto simp: np_inv_def in_set_conv_nth\<close>)
    have q1: "size (waiting (length (tskq (s_dp s))) qs) \<le> card Lc" using size_tasks [OF own] m by (simp add: tasks_of_def)
    have b: "unat (np_cnt ?np) \<le> ETH_RX_MAX_BATCH" "length (np_pkts ?np) = ETH_RX_MAX_BATCH" "np_free_cnt ?np = 0"
      and ty: "\<forall>i<unat (np_cnt ?np). unat (np_types ?np ! i) < length (tskq (s_dp s)) \<and> np_pkts ?np ! i \<noteq> NULL"
      using npi False nn m by (auto simp: np_inv_def)
    have q2: "ctx_capacity U \<le> card (u_task U)" "ETH_RX_MAX_BATCH \<le> card (u_mcell U)" using sz by (simp_all add: sized_def)
    obtain dp' qs' bs' rt Lc' where call: "handle_networker cur (s_dp s) = Inr dp'" and rep': "disp_rep U dp' qs' bs' Lc'"
      and ab: "absorbed m (np_bufs ?np) (qs, bs, Lc) (qs', rt @ bs', Lc')" and cap': "length bs' + card Lc' \<le> ctx_capacity U"
      and rt: "length rt \<le> ETH_RX_MAX_BATCH"
      and dp': "slots dp' = slots ((s_dp s)\<lparr>networker_pointers := ?np\<lparr>np_pkts := rt @ drop (length rt) (np_pkts ?np),
         np_free_cnt := of_nat (length rt), np_cnt := 0\<rparr>\<rparr>)"
      using handle_networker_refines [OF rep False b ty q1 q2(1) cap q2(2), of cur] unfolding ps m by blast
    define s' where "s' = s\<lparr>s_dp := dp', s_dpc := D_worker 0 cur'\<rparr>"
    have un: "unat (of_nat (length rt) :: u8) = length rt"
      using rt by (simp add: ETH_RX_MAX_BATCH_def take_bit_nat_eq_self unsigned_of_nat)
    have np': "networker_pointers dp' = ?np\<lparr>np_pkts := rt @ drop (length rt) (np_pkts ?np),
         np_free_cnt := of_nat (length rt), np_cnt := 0\<rparr>" using dp' by (simp add: slots_eq_iff)
    have "worker_responses dp' = worker_responses (s_dp s)" "dispatcher_requests dp' = dispatcher_requests (s_dp s)"
      "timestamps dp' = timestamps (s_dp s)" "preempt_check dp' = preempt_check (s_dp s)" "length (tskq dp') = length (tskq (s_dp s))"
      using dp' by (simp_all add: slots_eq_iff)
    note cs = control_slots [OF c this, of 0 cur', folded s'_def]
    have "owned U m n s' qs' bs' Lc' q"
      by (rule owned_absorbed [OF own net False ab])
        (use rep' cap' cs(2) np' un in \<open>auto simp: s'_def np_bufs_def\<close>)
    moreover have "network A m s' q"
      using net npi rt False np' un by (auto simp: network_def np_inv_def batch_inv_def rxq_inv_def s'_def)
    ultimately have "sys_inv A U m n s'" using cs(1) by (auto simp: sys_inv_def)
    then show ?thesis using call by (auto simp: s'_def)
  qed
qed

end
