(* ===== verification/System_Worker.thy ===== *)
theory System_Worker
  imports System_Inv
begin

text \<open>The steps of the worker threads keep the invariant and do not fault.\<close>

section \<open>What reception reads of a packet\<close>

lemma same_rx_fields:
  assumes "same_rx a b" and "12 \<le> p"
  shows "ld16 (mb_data a) p = ld16 (mb_data b) p" "ip_header_len (mb_data a) p = ip_header_len (mb_data b) p"
    "ip_version (mb_data a) p = ip_version (mb_data b) p" "ip_len (mb_data a) p = ip_len (mb_data b) p"
    "ip_off (mb_data a) p = ip_off (mb_data b) p" "ip_proto (mb_data a) p = ip_proto (mb_data b) p"
    "udp_len (mb_data a) p = udp_len (mb_data b) p" "udp_dst_port (mb_data a) p = udp_dst_port (mb_data b) p"
  using assms by (simp_all add: same_rx_def header_field_defs ld16_def)

lemma same_rx_input:
  assumes "same_rx a b"
  shows "ip_checks a = ip_checks b" "udp_pos a = udp_pos b" "udp_fits a = udp_fits b" "eth_input cfg a = eth_input cfg b"
    "arrived A a = arrived A b"
proof -
  note f = same_rx_fields [OF assms]
  have space: "mbuf_enough_space a p z = mbuf_enough_space b p z" for p z
    using assms by (simp add: same_rx_def mbuf_enough_space_def)
  show c: "ip_checks a = ip_checks b" using space by (simp add: ip_checks_def f Let_def)
  show p: "udp_pos a = udp_pos b" by (simp add: udp_pos_def f)
  have ge: "12 \<le> udp_pos b" by (simp add: udp_pos_def)
  show u: "udp_fits a = udp_fits b" using space ge by (simp add: udp_fits_def p f)
  show e: "eth_input cfg a = eth_input cfg b"
    using space ge by (simp add: eth_input_cases udp_input_def c p f Let_def)
  show "arrived A a = arrived A b" using assms by (simp add: arrived_def same_rx_def)
qed

lemma same_rx_refl [simp]: "same_rx a a"
  by (simp add: same_rx_def)

lemma same_rx_parse: "same_rx (snd (parse_packet pk)) pk" "mb_next (snd (parse_packet pk)) = mb_next pk"
  by (cases "udp_fits pk"; simp add: parse_packet_fits parse_packet_short same_rx_def store_ip_tuple_other)+

text \<open>Replacing the store by one that reception cannot tell apart.\<close>

definition same_store :: "mstore \<Rightarrow> mstore \<Rightarrow> bool" where
  "same_store ms ms' \<longleftrightarrow> (\<forall>p. same_rx (ms' p) (ms p) \<and> mb_next (ms' p) = mb_next (ms p))"

lemma same_store_rep:
  assumes "same_store ms ms'"
  shows "rxq_rep rxq ms' q = rxq_rep rxq ms q" "udp_fits (ms' p) = udp_fits (ms p)" "arrived A (ms' p) = arrived A (ms p)"
    "task_ok m ms' t = task_ok m ms t"
proof -
  have s: "same_rx (ms' p) (ms p)" "mb_next (ms' p) = mb_next (ms p)" for p using assms by (simp_all add: same_store_def)
  then have "mlinks ms' = mlinks ms" by (simp add: mlinks_def)
  then show "rxq_rep rxq ms' q = rxq_rep rxq ms q" by (simp add: rxq_rep_def)
  show u: "udp_fits (ms' p) = udp_fits (ms p)" for p using same_rx_input(3) s by blast
  show "arrived A (ms' p) = arrived A (ms p)" using same_rx_input(5) s by blast
  show "task_ok m ms' t = task_ok m ms t" by (simp add: task_ok_def u)
qed

text \<open>The same for the buffers that are out on the receive side; the others do not matter.\<close>

definition same_on :: "addr set \<Rightarrow> mstore \<Rightarrow> mstore \<Rightarrow> bool" where
  "same_on L ms ms' \<longleftrightarrow> (\<forall>p\<in>L. same_rx (ms' p) (ms p) \<and> mb_next (ms' p) = mb_next (ms p))"

lemma same_store_on: "same_store ms ms' \<Longrightarrow> same_on L ms ms'"
  by (simp add: same_store_def same_on_def)

lemma same_on_rep:
  assumes "same_on L ms ms'" and "p \<in> L"
  shows "udp_fits (ms' p) = udp_fits (ms p)" "arrived A (ms' p) = arrived A (ms p)" "mb_next (ms' p) = mb_next (ms p)"
proof -
  have s: "same_rx (ms' p) (ms p)" and "mb_next (ms' p) = mb_next (ms p)" using assms by (simp_all add: same_on_def)
  then show "mb_next (ms' p) = mb_next (ms p)" by simp
  show "udp_fits (ms' p) = udp_fits (ms p)" "arrived A (ms' p) = arrived A (ms p)" by (fact same_rx_input(3,5) [OF s])+
qed

lemma same_on_rxq:
  assumes "same_on L ms ms'" and "set q \<subseteq> L" and "rxq_rep rxq ms q"
  shows "rxq_rep rxq ms' q"
proof -
  have "chain (mlinks ms') 0 (rq_head rxq) q = chain (mlinks ms) 0 (rq_head rxq) q"
    by (rule chain_cong) (use same_on_rep(3) [OF assms(1)] assms(2) in \<open>auto simp: mlinks_def\<close>)
  then show ?thesis using assms(3) by (simp add: rxq_rep_def)
qed

lemma network_kept:
  assumes own: "owned U m n s qs bs Lc q" and net: "network A m s q"
    and ss: "same_on (s_live s) (rx_store (s_rx s)) (rx_store (s_rx s'))" and rx: "s_rx s' = (s_rx s)\<lparr>rx_store := rx_store (s_rx s')\<rparr>"
    and rest: "networker_pointers (s_dp s') = networker_pointers (s_dp s)" "s_npc s' = s_npc s" "s_nrecv s' = s_nrecv s"
  shows "network A m s' q"
proof -
  let ?np = "networker_pointers (s_dp s)" and ?ms = "rx_store (s_rx s)" and ?ms' = "rx_store (s_rx s')"
  have e: "recv_mbufs (s_rx s') = recv_mbufs (s_rx s)" "recv_type (s_rx s') = recv_type (s_rx s)" "eth_rxqs (s_rx s') = eth_rxqs (s_rx s)"
    by (subst rx, simp)+
  note op = owned_parts [OF own] and fits = same_on_rep(1) [OF ss]
  have np: "np_inv m ?ms ?np" and bi: "batch_inv m s" and rq: "rxq_inv A s q" using net by (simp_all add: network_def)
  have "udp_fits (?ms' (np_pkts ?np ! i))" if "np_cnt ?np \<noteq> 0" "i < unat (np_cnt ?np)" for i
  proof -
    have "np_pkts ?np ! i \<in> set (np_bufs ?np)" using that np by (auto simp: np_bufs_def np_inv_def in_set_conv_nth)
    then have "np_pkts ?np ! i \<in> s_live s" using np_bufs_live(1) [OF own] by blast
    then show ?thesis using fits that np by (simp add: np_inv_def)
  qed
  then have "np_inv m ?ms' ?np" using np by (simp add: np_inv_def)
  moreover have "udp_fits (?ms' (recv_mbufs (s_rx s) ! i))" if "s_npc s \<noteq> N_recv" "i < s_nrecv s" for i
  proof -
    have "recv_mbufs (s_rx s) ! i \<in> set (batch_of s)" using that bi by (auto simp: batch_of_def batch_inv_def in_set_conv_nth)
    then have "recv_mbufs (s_rx s) ! i \<in> s_live s" using mset_in_live(2) [OF op(3,4)] by blast
    then show ?thesis using fits that bi by (simp add: batch_inv_def)
  qed
  then have "batch_inv m s'" using bi e rest by (simp add: batch_inv_def)
  moreover have "rxq_inv A s' q"
    using rq mset_in_live(2) [OF op(1,4)] same_on_rxq [OF ss] same_on_rep(2) [OF ss] by (auto simp: rxq_inv_def e subset_iff)
  ultimately show ?thesis by (simp add: network_def rest)
qed

section \<open>A context writes into itself\<close>

lemma disp_rep_ctx_writes:
  assumes rep: "disp_rep U s qs bs Lc" and c: "c \<in> Lc" and w: "ctx_writes c (d_heap s) h'"
  shows "disp_rep U (s\<lparr>d_heap := h'\<rparr>) qs bs Lc"
proof -
  obtain xs cs Ls where m: "disp_mem U s xs cs Lc Ls"
    and qs: "\<forall>i<length (tskq s). qs i = tskq_abs (d_heap s) (xs i)" and bs: "bs = mq_abs (d_heap s) cs"
    using rep by (rule disp_repE)
  note d = disp_memD [OF m] and u = universe_disjoint [OF disp_memD(1) [OF m]]
  have st: "d_heap s c UC_SS_SP \<in> Ls" using d(8) c by (auto simp: ctx_ok_def bij_betw_def)
  have same: "h' y = d_heap s y" if "y \<noteq> c" "y \<noteq> d_heap s c UC_SS_SP" for y
    using w that by (simp add: ctx_writes_def)
  have out: "h' y = d_heap s y" if "y \<notin> u_ctx U \<union> u_stack U" for y
    by (rule same) (use that c st d(4,5) in auto)
  have "ctx_ok h' (context_pool s) (stack_pool s) (u_ctx U - Lc) Lc (u_stack U - Ls) Ls"
  proof (rule ctx_ok_frame [OF d(8)])
    show "h' x = d_heap s x" if "x \<in> (u_ctx U - Lc) \<union> (u_stack U - Ls)" for x
      by (rule same) (use that c st d(4,5) u in auto)
    show "h' c' UC_SS_SP = d_heap s c' UC_SS_SP" if "c' \<in> Lc" for c'
    proof (cases "c' = c")
      case True
      then show ?thesis using w by (simp add: ctx_writes_def)
    next
      case False
      then have "h' c' = d_heap s c'" by (rule same) (use that st d(4,5) u(6) in blast)
      then show ?thesis by simp
    qed
  qed
  from disp_rep_ctx [OF m qs bs out this d(4,5)] show ?thesis by simp
qed

lemma disp_rep_stack_apart:
  assumes "disp_rep U s qs bs Lc" and "c \<in> Lc"
  shows "d_heap s c UC_SS_SP \<noteq> c"
proof -
  obtain xs cs Ls where m: "disp_mem U s xs cs Lc Ls" using assms(1) by (rule disp_repE)
  note d = disp_memD [OF m]
  have "d_heap s c UC_SS_SP \<in> Ls" using d(8) assms(2) by (auto simp: ctx_ok_def bij_betw_def)
  then show ?thesis using universe_disjoint(6) [OF d(1)] d(4,5) assms(2) by force
qed

lemma ctx_writes_link:
  assumes "c \<noteq> NULL" and "set_context_link h c l = Inr h'" and "h c UC_SS_SP \<noteq> c"
  shows "ctx_writes c h h'"
  using assms by (auto simp: set_context_link_def ctx_writes_def Let_def hwrite_def)

lemma ctx_writes_trans: "ctx_writes c h1 h2 \<Longrightarrow> ctx_writes c h2 h3 \<Longrightarrow> ctx_writes c h1 h3"
  by (simp add: ctx_writes_def)

lemma ctx_writes_getcontext: "ctx_writes c h (ctxmem (getcontext_fast (mach\<lparr>rdi := c, ctxmem := h\<rparr>)))"
  using switch_frame [of "getcontext_fast (mach\<lparr>rdi := c, ctxmem := h\<rparr>)" "mach\<lparr>rdi := c, ctxmem := h\<rparr>"]
  by (simp add: ctx_writes_def)

lemma ctx_writes_mk: "mk_frame mk \<Longrightarrow> ctx_writes c h (mk c args h)"
  by (simp add: mk_frame_def ctx_writes_def)

lemma set_context_link_ok: "c \<noteq> NULL \<Longrightarrow> \<exists>h'. set_context_link h c l = Inr h'"
  by (simp add: set_context_link_def Let_def)

section \<open>Steps\<close>

text \<open>
  A worker step: only slot \<open>i\<close>, the memory of its context and the store change.  It is enough to
  look at that slot and at the task it holds.
\<close>

definition worker_step :: "nat \<Rightarrow> sys \<Rightarrow> sys \<Rightarrow> bool" where
  "worker_step i s s' \<longleftrightarrow>
     (\<forall>j. j \<noteq> i \<longrightarrow> worker_responses (s_dp s') ! j = worker_responses (s_dp s) ! j \<and>
        dispatcher_requests (s_dp s') ! j = dispatcher_requests (s_dp s) ! j \<and>
        s_wpc s' ! j = s_wpc s ! j \<and> s_tls s' ! j = s_tls s ! j \<and> s_txqs s' ! j = s_txqs s ! j) \<and>
     length (s_txqs s') = length (s_txqs s) \<and> (i < length (s_txqs s) \<longrightarrow> txqs_ok (s_txqs s ! i) \<longrightarrow> txqs_ok (s_txqs s' ! i)) \<and>
     length (worker_responses (s_dp s')) = length (worker_responses (s_dp s)) \<and>
     length (dispatcher_requests (s_dp s')) = length (dispatcher_requests (s_dp s)) \<and>
     timestamps (s_dp s') = timestamps (s_dp s) \<and> preempt_check (s_dp s') = preempt_check (s_dp s) \<and>
     length (tskq (s_dp s')) = length (tskq (s_dp s)) \<and>
     length (s_wpc s') = length (s_wpc s) \<and> length (s_tls s') = length (s_tls s) \<and>
     networker_pointers (s_dp s') = networker_pointers (s_dp s) \<and> s_dpc s' = s_dpc s \<and> s_npc s' = s_npc s \<and>
     s_nrecv s' = s_nrecv s \<and> s_live s' = s_live s \<and>
     same_on (s_live s) (rx_store (s_rx s)) (rx_store (s_rx s')) \<and>
     s_rx s' = (s_rx s)\<lparr>rx_store := rx_store (s_rx s')\<rparr>"

lemma worker_step_control:
  assumes "worker_step i s s'" and "control m n s" and "i < n" and "slot_inv s' i"
  shows "control m n s'" "\<And>j. j < n \<Longrightarrow> j \<noteq> i \<Longrightarrow> slot_list s' j = slot_list s j"
proof -
  have "slot_inv s' j" if "j < n" "j \<noteq> i" for j
    by (rule slot_inv_other [of s]) (use assms that in \<open>auto simp: control_def worker_step_def\<close>)
  then show "control m n s'"
    using assms by (auto simp: control_def shape_def worker_step_def) (metis (no_types))
  show "\<And>j. j < n \<Longrightarrow> j \<noteq> i \<Longrightarrow> slot_list s' j = slot_list s j"
    using assms(1) by (simp add: slot_list_def worker_step_def)
qed

text \<open>The task in the slot may change its category to that of a preempted context, nothing else.\<close>

lemma worker_step_inv:
  assumes inv: "sys_inv A U m n s" and st: "worker_step i s s'" and i: "i < n" and si: "slot_inv s' i"
    and sl: "slot_list s' i = slot_list s i \<or> (\<exists>t. slot_list s i = [t] \<and> slot_list s' i = [t\<lparr>tsk_category := CONTEXT\<rparr>])"
    and rep: "\<And>qs bs Lc. disp_rep U (s_dp s) qs bs Lc \<Longrightarrow> (\<forall>t\<in>set (slot_list s i). tsk_runnable t \<in> Lc) \<Longrightarrow> disp_rep U (s_dp s') qs bs Lc"
  shows "sys_inv A U m n s'"
proof -
  obtain qs bs Lc q where c: "control m n s" and own: "owned U m n s qs bs Lc q" and net: "network A m s q"
    using inv by (auto simp: sys_inv_def)
  note cs = worker_step_control [OF st c i si]
  have ch: "tasks_of m n s' qs + mset (slot_list s i) = tasks_of m n s qs + mset (slot_list s' i)"
    by (rule tasks_of_slots [OF i cs(2)])
  have im: "image_mset f (tasks_of m n s' qs) = image_mset f (tasks_of m n s qs)"
    if f: "\<And>t. f (t\<lparr>tsk_category := CONTEXT\<rparr>) = f t" for f :: "task \<Rightarrow> addr"
  proof -
    have "image_mset f (mset (slot_list s' i)) = image_mset f (mset (slot_list s i))" using sl f by auto
    then show ?thesis using arg_cong [OF ch, of "image_mset f"] by simp
  qed
  have ss: "same_on (s_live s) (rx_store (s_rx s)) (rx_store (s_rx s'))" using st by (simp add: worker_step_def)
  have bufs: "image_mset tsk_mbuf (tasks_of m n s' qs) = image_mset tsk_mbuf (tasks_of m n s qs)" by (rule im) simp
  have ok: "task_ok m (rx_store (s_rx s')) t" if t: "t \<in># tasks_of m n s' qs" for t
  proof -
    have "tsk_mbuf t \<in># image_mset tsk_mbuf (tasks_of m n s qs)" using t unfolding bufs [symmetric] by simp
    then have L: "tsk_mbuf t \<in> s_live s" using owned_task(2) [OF own] by auto
    have mem: "t0 \<in> set (slot_list s i) \<Longrightarrow> task_ok m (rx_store (s_rx s)) t0" for t0
      using owned_task(4) [OF own slot_in_tasks [OF i]] by blast
    have "t \<in># tasks_of m n s qs + mset (slot_list s' i)" using t ch by (metis union_iff)
    then have "t \<in># tasks_of m n s qs \<or> t \<in> set (slot_list s' i)" by simp
    then have "task_ok m (rx_store (s_rx s)) t"
    proof
      assume "t \<in> set (slot_list s' i)"
      then show ?thesis using sl mem by (auto simp: task_ok_def CONTEXT_def PACKET_def)
    qed (rule owned_task(4) [OF own])
    then show ?thesis using same_on_rep(1) [OF ss L] by (simp add: task_ok_def)
  qed
  have "\<forall>t\<in>set (slot_list s i). tsk_runnable t \<in> Lc"
    using owned_task(1) [OF own] slot_in_tasks [OF i] by blast
  then have rep': "disp_rep U (s_dp s') qs bs Lc" using rep own by (simp add: owned_def)
  have bt: "batch_of s' = batch_of s"
  proof -
    have rx: "s_rx s' = (s_rx s)\<lparr>rx_store := rx_store (s_rx s')\<rparr>" using st by (simp add: worker_step_def)
    have "recv_mbufs (s_rx s') = recv_mbufs (s_rx s)" by (subst rx, simp)
    then show ?thesis using st by (simp add: batch_of_def worker_step_def)
  qed
  have "owned U m n s' qs bs Lc q"
    using own rep' ok im [of tsk_runnable] bufs bt st by (simp add: owned_def worker_step_def)
  then show ?thesis
    using cs(1) network_kept [OF own net ss] st by (auto simp: sys_inv_def worker_step_def)
qed

text \<open>The bounds that hold for the slot of a worker.\<close>

lemma slot_bounds:
  assumes "sys_inv A U m n s" and "i < n"
  shows "i < length (worker_responses (s_dp s))" "i < length (dispatcher_requests (s_dp s))" "i < length (s_wpc s)"
    "i < length (s_tls s)" "slot_inv s i"
  using assms by (auto simp: sys_inv_def control_def shape_def)

lemma same_store_refl [simp]: "same_store ms ms" "same_on L ms ms"
  by (simp_all add: same_store_def same_on_def)

text \<open>The transmit queues of a core: taking back capacity never faults, sending faults only when the driver takes less than it is given.\<close>

lemma txqs_ok_update: "txqs_ok qs \<Longrightarrow> tx_len q \<le> length (tx_bufs q) \<Longrightarrow> txqs_ok (qs[i := q])"
  using set_update_subset_insert [of qs i q] by (auto simp: txqs_ok_def)

lemma reclaim_ok:
  assumes "set is \<subseteq> {..<length qs}"
  shows "\<exists>qs'. eth_process_reclaim reclaim is qs = Inr qs' \<and> length qs' = length qs \<and> (txqs_ok qs \<longrightarrow> txqs_ok qs')"
  using assms
proof (induction "is" arbitrary: qs)
  case (Cons i "is")
  let ?qs = "qs[i := (qs ! i)\<lparr>tx_cap := reclaim (qs ! i)\<rparr>]"
  have i: "i < length qs" using Cons.prems by simp
  have "txqs_ok ?qs" if "txqs_ok qs" using that i by (intro txqs_ok_update) (simp_all add: txqs_ok_def)
  moreover have "\<exists>qs'. eth_process_reclaim reclaim is ?qs = Inr qs' \<and> length qs' = length ?qs \<and> (txqs_ok ?qs \<longrightarrow> txqs_ok qs')"
    by (rule Cons.IH) (use Cons.prems in simp)
  ultimately show ?case using i by auto
qed simp

lemma send_ok:
  assumes "set is \<subseteq> {..<length qs}" and "txqs_ok qs" and "\<And>txq bs. X bs (xmit txq bs)"
  shows "(\<exists>qs'. eth_process_send xmit is qs = Inr qs' \<and> length qs' = length qs \<and> txqs_ok qs') \<or>
    (eth_process_send xmit is qs = Inl Panic \<and> (\<exists>bs k. X bs k \<and> k \<noteq> int (length bs)))"
  using assms(1,2)
proof (induction "is" arbitrary: qs)
  case (Cons i "is")
  let ?q = "qs ! i" and ?qs = "qs[i := (qs ! i)\<lparr>tx_len := 0\<rparr>]"
  have i: "i < length qs" using Cons.prems by simp
  have len: "length (take (tx_len ?q) (tx_bufs ?q)) = tx_len ?q" using Cons.prems i by (simp add: txqs_ok_def)
  have "txqs_ok ?qs" by (rule txqs_ok_update [OF Cons.prems(2)]) simp
  then have rest: "(\<exists>qs'. eth_process_send xmit is ?qs = Inr qs' \<and> length qs' = length ?qs \<and> txqs_ok qs') \<or>
      (eth_process_send xmit is ?qs = Inl Panic \<and> (\<exists>bs k. X bs k \<and> k \<noteq> int (length bs)))"
    by (intro Cons.IH) (use Cons.prems in simp_all)
  show ?case
  proof (cases "xmit ?q (take (tx_len ?q) (tx_bufs ?q)) = int (tx_len ?q)")
    case True
    then show ?thesis using rest i by (simp add: Let_def)
  next
    case False
    then have "\<exists>bs k. X bs k \<and> k \<noteq> int (length bs)" using assms(3) len by metis
    then show ?thesis using False i by (simp add: Let_def)
  qed
qed simp

lemma step_boot:
  assumes inv: "sys_inv A U m n s" and i: "i < n" and pc: "s_wpc s ! i = W_boot"
  shows "\<exists>w. init_worker reclaim (length (s_txqs s ! i)) (int i + 2) (wview i s) = Inr w \<and> sys_inv A U m n (wput i W_loop w s)"
proof -
  note b = slot_bounds [OF inv i]
  obtain qs where qs: "eth_process_reclaim reclaim [0..<length (s_txqs s ! i)] (s_txqs s ! i) = Inr qs"
    "txqs_ok (s_txqs s ! i) \<longrightarrow> txqs_ok qs"
    using reclaim_ok [of "[0..<length (s_txqs s ! i)]" "s_txqs s ! i" reclaim] by (auto simp: lessThan_atLeast0)
  define w where "w = (wview i s)\<lparr>w_tls := (s_tls s ! i)\<lparr>my_cpu_nr := i\<rparr>, w_dp := set_wr_flag i PROCESSED (s_dp s), w_txqs := qs\<rparr>"
  have call: "init_worker reclaim (length (s_txqs s ! i)) (int i + 2) (wview i s) = Inr w"
    using b(1) qs(1) by (simp add: init_worker_def w_def wview_def Let_def)
  define s' where "s' = wput i W_loop w s"
  have fl: "wr_flag (worker_responses (s_dp s) ! i) = RUNNING" "dr_flag (dispatcher_requests (s_dp s) ! i) = WAITING"
    and nd: "\<And>cur. s_dpc s \<noteq> D_publish i cur" "\<And>cur. s_dpc s \<noteq> D_dispatch i cur"
    using b(5) pc by (auto simp: slot_inv_def Let_def flag_defs)
  have "sys_inv A U m n s'"
  proof (rule worker_step_inv [OF inv _ i])
    show "worker_step i s s'" using qs(2) by (auto simp: worker_step_def s'_def wput_def w_def wview_def set_wr_flag_def)
    show "slot_inv s' i"
      using b fl nd by (simp add: slot_inv_def s'_def wput_def w_def wview_def set_wr_flag_def Let_def)
    show "slot_list s' i = slot_list s i \<or> (\<exists>t. slot_list s i = [t] \<and> slot_list s' i = [t\<lparr>tsk_category := CONTEXT\<rparr>])"
      using b fl pc by (simp add: slot_list_def slot_of_def s'_def wput_def w_def wview_def set_wr_flag_def flag_defs)
  qed (simp add: s'_def wput_def w_def wview_def)
  then show ?thesis using call by (simp add: s'_def)
qed

lemma step_send:
  assumes inv: "sys_inv A U m n s" and i: "i < n" and pc: "s_wpc s ! i = W_loop" and X: "\<And>txq bs. X bs (xmit txq bs)"
    and call_def: "call = bindE (eth_process_reclaim reclaim [0..<length (s_txqs s ! i)] (s_txqs s ! i))
     (eth_process_send xmit [0..<length (s_txqs s ! i)])"
  shows "(\<exists>qs. call = Inr qs \<and> sys_inv A U m n (s\<lparr>s_txqs := (s_txqs s)[i := qs], s_wpc := (s_wpc s)[i := W_poll]\<rparr>)) \<or>
    (call = Inl Panic \<and> (\<exists>bs k. X bs k \<and> k \<noteq> int (length bs)))"
proof -
  let ?is = "[0..<length (s_txqs s ! i)]"
  note b = slot_bounds [OF inv i]
  have sub: "set ?is \<subseteq> {..<length (s_txqs s ! i)}" by (auto simp: lessThan_atLeast0)
  have ok: "txqs_ok (s_txqs s ! i)" using inv i by (simp add: sys_inv_def control_def shape_def)
  obtain qs where qs: "eth_process_reclaim reclaim ?is (s_txqs s ! i) = Inr qs" "length qs = length (s_txqs s ! i)" "txqs_ok qs"
    using reclaim_ok [OF sub, of reclaim] ok by blast
  have call: "call = eth_process_send xmit ?is qs" by (simp add: call_def qs(1))
  have keep: "sys_inv A U m n (s\<lparr>s_txqs := (s_txqs s)[i := qs'], s_wpc := (s_wpc s)[i := W_poll]\<rparr>)" (is "sys_inv _ _ _ _ ?s'") if "txqs_ok qs'" for qs'
  proof (rule worker_step_inv [OF inv _ i])
    show "worker_step i s ?s'" using that by (simp add: worker_step_def same_on_def)
    show "slot_inv ?s' i" using b pc by (simp add: slot_inv_def Let_def)
    show "slot_list ?s' i = slot_list s i \<or> (\<exists>t. slot_list s i = [t] \<and> slot_list ?s' i = [t\<lparr>tsk_category := CONTEXT\<rparr>])"
      using b pc by (simp add: slot_list_def slot_of_def)
  qed simp
  have "set ?is \<subseteq> {..<length qs}" using sub qs(2) by simp
  from send_ok [where X = X and xmit = xmit, OF this qs(3) X] keep show ?thesis unfolding call by blast
qed

lemma step_take:
  assumes inv: "sys_inv A U m n s" and i: "i < n" and pc: "s_wpc s ! i = W_poll"
    and fl: "dr_flag (dispatcher_requests (s_dp s) ! i) \<noteq> WAITING"
  shows "sys_inv A U m n (s\<lparr>s_dp := set_dr_flag i WAITING (s_dp s), s_wpc := (s_wpc s)[i := W_start]\<rparr>)" (is "sys_inv _ _ _ _ ?s'")
proof (rule worker_step_inv [OF inv _ i])
  note b = slot_bounds [OF inv i]
  have wr: "wr_flag (worker_responses (s_dp s) ! i) = RUNNING" and nd: "\<And>cur. s_dpc s \<noteq> D_publish i cur" "\<And>cur. s_dpc s \<noteq> D_dispatch i cur"
    and cpu: "my_cpu_nr (s_tls s ! i) = i"
    using b(5) pc fl by (auto simp: slot_inv_def Let_def flag_defs)
  show "worker_step i s ?s'" by (auto simp: worker_step_def set_dr_flag_def)
  show "slot_inv ?s' i" using b wr nd cpu by (simp add: slot_inv_def set_dr_flag_def Let_def)
  show "slot_list ?s' i = slot_list s i \<or> (\<exists>t. slot_list s i = [t] \<and> slot_list ?s' i = [t\<lparr>tsk_category := CONTEXT\<rparr>])"
    using b wr pc by (simp add: slot_list_def slot_of_def set_dr_flag_def request_task_def)
qed simp

text \<open>From the start of a request to the end of its answer the slot holds the request.\<close>

lemma busy_slot:
  assumes "slot_inv s i" and "s_wpc s ! i \<in> {W_start, W_run, W_respond, W_publish}"
  shows "wr_flag (worker_responses (s_dp s) ! i) = RUNNING" "dr_flag (dispatcher_requests (s_dp s) ! i) = WAITING"
    "my_cpu_nr (s_tls s ! i) = i" "s_dpc s \<noteq> D_publish i cur" "s_dpc s \<noteq> D_dispatch i cur"
    "slot_list s i = [request_task (dispatcher_requests (s_dp s) ! i)]"
proof -
  have ne: "\<not> between (s_wpc s ! i)" "s_wpc s ! i \<noteq> W_boot" using assms(2) by auto
  show wr: "wr_flag (worker_responses (s_dp s) ! i) = RUNNING"
    using assms(1) ne(1) by (simp add: slot_inv_def Let_def)
  show "dr_flag (dispatcher_requests (s_dp s) ! i) = WAITING"
    using assms unfolding slot_inv_def Let_def by (elim conjE) (rule mp)
  show "my_cpu_nr (s_tls s ! i) = i" "s_dpc s \<noteq> D_publish i cur"
    using assms(1) ne by (simp_all add: slot_inv_def Let_def)
  have "RUNNING \<noteq> PROCESSED" by (simp add: flag_defs)
  then show "s_dpc s \<noteq> D_dispatch i cur" using assms(1) wr by (simp add: slot_inv_def Let_def)
  show "slot_list s i = [request_task (dispatcher_requests (s_dp s) ! i)]"
    using wr ne by (simp add: slot_list_def slot_of_def)
qed

lemma step_resume:
  assumes inv: "sys_inv A U m n s" and i: "i < n" and pc: "s_wpc s ! i = W_start"
  shows "\<exists>w. begin_context l (wview i s) = Inr w \<and> sys_inv A U m n (wput i W_run w s)"
proof -
  let ?r = "dispatcher_requests (s_dp s) ! i"
  note b = slot_bounds [OF inv i]
  have "s_wpc s ! i \<in> {W_start, W_run, W_respond, W_publish}" using pc by simp
  note bs = busy_slot [OF b(5) this]
  obtain qs bs' Lc q where own: "owned U m n s qs bs' Lc q" using inv by (auto simp: sys_inv_def)
  have "request_task ?r \<in># tasks_of m n s qs" by (rule slot_in_tasks [OF i]) (simp add: bs(6))
  from owned_task(5) [OF own this] have nn: "dr_rnbl ?r \<noteq> NULL" by (simp add: request_task_def)
  then obtain h' where link: "set_context_link (d_heap (s_dp s)) (dr_rnbl ?r) l = Inr h'"
    using set_context_link_ok by blast
  define w where "w = (wview i s)\<lparr>w_dp := (s_dp s)\<lparr>d_heap := h'\<rparr>, w_tls := (s_tls s ! i)\<lparr>tls_networker_cy :=
       (if dr_mbuf ?r \<noteq> NULL then mb_networker_cy (rx_store (s_rx s) (dr_mbuf ?r)) else 0),
     tls_dispatcher_cy := dr_dispatcher_cy ?r, finished := False, cont := dr_rnbl ?r\<rparr>\<rparr>"
  have call: "begin_context l (wview i s) = Inr w"
    using link bs(3) by (simp add: begin_context_def wview_def w_def Let_def)
  define s' where "s' = wput i W_run w s"
  have "sys_inv A U m n s'"
  proof (rule worker_step_inv [OF inv _ i])
    show "worker_step i s s'" by (auto simp: worker_step_def s'_def wput_def w_def wview_def)
    show "slot_inv s' i" using b bs by (simp add: slot_inv_def s'_def wput_def w_def wview_def Let_def)
    show "slot_list s' i = slot_list s i \<or> (\<exists>t. slot_list s i = [t] \<and> slot_list s' i = [t\<lparr>tsk_category := CONTEXT\<rparr>])"
      using b bs by (simp add: slot_list_def slot_of_def s'_def wput_def w_def wview_def)
    fix qs bs1 Lc
    assume rep: "disp_rep U (s_dp s) qs bs1 Lc" and "\<forall>t\<in>set (slot_list s i). tsk_runnable t \<in> Lc"
    then have c: "dr_rnbl ?r \<in> Lc" using bs(6) by (simp add: request_task_def)
    have "d_heap (s_dp s) (dr_rnbl ?r) UC_SS_SP \<noteq> dr_rnbl ?r" by (rule disp_rep_stack_apart [OF rep c])
    then have "ctx_writes (dr_rnbl ?r) (d_heap (s_dp s)) h'"
      using ctx_writes_link [OF nn link] by blast
    from disp_rep_ctx_writes [OF rep c this] show "disp_rep U (s_dp s') qs bs1 Lc"
      by (simp add: s'_def wput_def w_def)
  qed
  then show ?thesis using call by (simp add: s'_def)
qed

lemma step_new:
  assumes inv: "sys_inv A U m n s" and mk: "mk_frame mk" and i: "i < n" and pc: "s_wpc s ! i = W_start"
    and cat: "dr_category (dispatcher_requests (s_dp s) ! i) = PACKET"
  shows "\<exists>w. begin_new_packet mk mach l (wview i s) = Inr (True, w) \<and> sys_inv A U m n (wput i W_run w s)"
proof -
  let ?r = "dispatcher_requests (s_dp s) ! i" and ?ms = "rx_store (s_rx s)" and ?h = "d_heap (s_dp s)"
  let ?p = "dr_mbuf ?r" and ?c = "dr_rnbl ?r"
  note b = slot_bounds [OF inv i]
  have "s_wpc s ! i \<in> {W_start, W_run, W_respond, W_publish}" using pc by simp
  note bs = busy_slot [OF b(5) this]
  obtain qs bs' Lc q where own: "owned U m n s qs bs' Lc q" using inv by (auto simp: sys_inv_def)
  have "request_task ?r \<in># tasks_of m n s qs" by (rule slot_in_tasks [OF i]) (simp add: bs(6))
  note o = owned_task [OF own this]
  have nn: "?c \<noteq> NULL" "?p \<noteq> NULL" and fits: "udp_fits (?ms ?p)"
    using o cat by (simp_all add: request_task_def task_ok_def)
  define pk where "pk = snd (parse_packet (?ms ?p))"
  obtain pos ts where parse: "parse_packet (?ms ?p) = (Some (pos, ts), pk)"
    using parse_packet_fits [OF fits] by (simp add: pk_def)
  define h1 where "h1 = ctxmem (getcontext_fast (mach\<lparr>rdi := ?c, ctxmem := ?h\<rparr>))"
  obtain h2 where h2: "set_context_link h1 ?c l = Inr h2" using set_context_link_ok [OF nn(1)] by blast
  define args where "args = [msw (mbuf_addr ?p pos), lsw (mbuf_addr ?p pos), msw (mbuf_addr ?p 0), lsw (mbuf_addr ?p 0), msw ts, lsw ts]"
  define h3 where "h3 = mk ?c args h2"
  define w where "w = (wview i s)\<lparr>w_store := ?ms(?p := pk), w_dp := (s_dp s)\<lparr>d_heap := h3\<rparr>,
     w_tls := (s_tls s ! i)\<lparr>tls_networker_cy := mb_networker_cy pk, tls_dispatcher_cy := dr_dispatcher_cy ?r, cont := ?c, finished := False\<rparr>\<rparr>"
  have call: "begin_new_packet mk mach l (wview i s) = Inr (True, w)"
    using nn parse h2 bs(3) by (simp add: begin_new_packet_def wview_def w_def h1_def h3_def args_def Let_def)
  define s' where "s' = wput i W_run w s"
  have ss: "same_store ?ms (?ms(?p := pk))"
    using same_rx_parse [of "?ms ?p"] by (simp add: same_store_def pk_def)
  have "sys_inv A U m n s'"
  proof (rule worker_step_inv [OF inv _ i])
    show "worker_step i s s'" using same_store_on [OF ss] by (auto simp: worker_step_def s'_def wput_def w_def wview_def)
    show "slot_inv s' i" using b bs by (simp add: slot_inv_def s'_def wput_def w_def wview_def Let_def)
    show "slot_list s' i = slot_list s i \<or> (\<exists>t. slot_list s i = [t] \<and> slot_list s' i = [t\<lparr>tsk_category := CONTEXT\<rparr>])"
      using b bs by (simp add: slot_list_def slot_of_def s'_def wput_def w_def wview_def)
    fix qs bs1 Lc
    assume rep: "disp_rep U (s_dp s) qs bs1 Lc" and "\<forall>t\<in>set (slot_list s i). tsk_runnable t \<in> Lc"
    then have c: "?c \<in> Lc" using bs(6) by (simp add: request_task_def)
    have w1: "ctx_writes ?c ?h h1" unfolding h1_def by (rule ctx_writes_getcontext)
    then have "h1 ?c UC_SS_SP \<noteq> ?c" using disp_rep_stack_apart [OF rep c] by (simp add: ctx_writes_def)
    then have "ctx_writes ?c h1 h2" using ctx_writes_link [OF nn(1) h2] by blast
    then have "ctx_writes ?c ?h h3"
      using w1 ctx_writes_mk [OF mk, of ?c h2 args] ctx_writes_trans unfolding h3_def by blast
    from disp_rep_ctx_writes [OF rep c this] show "disp_rep U (s_dp s') qs bs1 Lc"
      by (simp add: s'_def wput_def w_def)
  qed
  then show ?thesis using call by (simp add: s'_def)
qed

lemma step_run:
  assumes inv: "sys_inv A U m n s" and i: "i < n" and pc: "s_wpc s ! i = W_run"
    and w: "ctx_writes (cont (s_tls s ! i)) (d_heap (s_dp s)) h'" and ms: "\<And>p. p \<in> s_live s \<Longrightarrow> ms' p = rx_store (s_rx s) p"
    and tx: "txqs_ok txqs'"
  shows "sys_inv A U m n (s\<lparr>s_dp := (s_dp s)\<lparr>d_heap := h'\<rparr>, s_rx := (s_rx s)\<lparr>rx_store := ms'\<rparr>, s_txqs := (s_txqs s)[i := txqs']\<rparr>)"
    (is "sys_inv _ _ _ _ ?s'")
proof (rule worker_step_inv [OF inv _ i])
  note b = slot_bounds [OF inv i]
  have "s_wpc s ! i \<in> {W_start, W_run, W_respond, W_publish}" using pc by simp
  note bs = busy_slot [OF b(5) this]
  show "worker_step i s ?s'" using ms tx by (simp add: worker_step_def same_on_def)
  show "slot_inv ?s' i" by (rule slot_inv_other [OF b(5)]) simp_all
  show "slot_list ?s' i = slot_list s i \<or> (\<exists>t. slot_list s i = [t] \<and> slot_list ?s' i = [t\<lparr>tsk_category := CONTEXT\<rparr>])"
    by (simp add: slot_list_def)
  fix qs bs1 Lc
  assume rep: "disp_rep U (s_dp s) qs bs1 Lc" and "\<forall>t\<in>set (slot_list s i). tsk_runnable t \<in> Lc"
  then have "dr_rnbl (dispatcher_requests (s_dp s) ! i) \<in> Lc" using bs(6) by (simp add: request_task_def)
  moreover have "cont (s_tls s ! i) = dr_rnbl (dispatcher_requests (s_dp s) ! i)"
    using b(5) pc by (simp add: slot_inv_def Let_def)
  ultimately show "disp_rep U (s_dp ?s') qs bs1 Lc"
    using disp_rep_ctx_writes [OF rep] w by simp
qed

lemma step_end:
  assumes inv: "sys_inv A U m n s" and i: "i < n" and pc: "s_wpc s ! i = W_run"
  shows "sys_inv A U m n (s\<lparr>s_tls := (s_tls s)[i := (s_tls s ! i)\<lparr>finished := f\<rparr>], s_wpc := (s_wpc s)[i := W_respond]\<rparr>)"
    (is "sys_inv _ _ _ _ ?s'")
proof (rule worker_step_inv [OF inv _ i])
  note b = slot_bounds [OF inv i]
  have "s_wpc s ! i \<in> {W_start, W_run, W_respond, W_publish}" using pc by simp
  note bs = busy_slot [OF b(5) this]
  have ct: "cont (s_tls s ! i) = dr_rnbl (dispatcher_requests (s_dp s) ! i)"
    using b(5) pc by (simp add: slot_inv_def Let_def)
  show "worker_step i s ?s'" by (simp add: worker_step_def)
  show "slot_inv ?s' i" using b bs ct by (simp add: slot_inv_def Let_def)
  show "slot_list ?s' i = slot_list s i \<or> (\<exists>t. slot_list s i = [t] \<and> slot_list ?s' i = [t\<lparr>tsk_category := CONTEXT\<rparr>])"
    using b bs by (simp add: slot_list_def slot_of_def)
qed simp

lemma step_fill:
  assumes inv: "sys_inv A U m n s" and i: "i < n" and pc: "s_wpc s ! i = W_respond"
  shows "sys_inv A U m n (wput i W_publish (fill_response (wview i s)) s)" (is "sys_inv _ _ _ _ ?s'")
proof (rule worker_step_inv [OF inv _ i])
  note b = slot_bounds [OF inv i]
  have "s_wpc s ! i \<in> {W_start, W_run, W_respond, W_publish}" using pc by simp
  note bs = busy_slot [OF b(5) this]
  have ct: "cont (s_tls s ! i) = dr_rnbl (dispatcher_requests (s_dp s) ! i)"
    using b(5) pc by (simp add: slot_inv_def Let_def)
  show "worker_step i s ?s'"
    using bs(3) by (simp add: worker_step_def wput_def wview_def fill_response_def Let_def)
  show "slot_inv ?s' i"
    using b bs ct by (simp add: slot_inv_def wput_def wview_def fill_response_def Let_def response_task_def request_task_def)
  show "slot_list ?s' i = slot_list s i \<or> (\<exists>t. slot_list s i = [t] \<and> slot_list ?s' i = [t\<lparr>tsk_category := CONTEXT\<rparr>])"
    using b bs by (simp add: slot_list_def slot_of_def wput_def wview_def fill_response_def Let_def)
qed (simp add: wput_def wview_def fill_response_def Let_def)

lemma step_wpublish:
  assumes inv: "sys_inv A U m n s" and i: "i < n" and pc: "s_wpc s ! i = W_publish" and v: "v = FINISHED \<or> v = PREEMPTED"
  shows "sys_inv A U m n (s\<lparr>s_dp := set_wr_flag i v (s_dp s), s_wpc := (s_wpc s)[i := W_loop]\<rparr>)" (is "sys_inv _ _ _ _ ?s'")
proof (rule worker_step_inv [OF inv _ i])
  note b = slot_bounds [OF inv i]
  have "s_wpc s ! i \<in> {W_start, W_run, W_respond, W_publish}" using pc by simp
  note bs = busy_slot [OF b(5) this]
  have rt: "response_task (worker_responses (s_dp s) ! i) = (request_task (dispatcher_requests (s_dp s) ! i))\<lparr>tsk_category := CONTEXT\<rparr>"
    using b(5) pc by (simp add: slot_inv_def Let_def)
  have nv: "v \<noteq> RUNNING" "v \<noteq> PROCESSED" using v by (auto simp: flag_defs)
  show "worker_step i s ?s'" by (simp add: worker_step_def set_wr_flag_def)
  show "slot_inv ?s' i" using b bs v nv by (auto simp: slot_inv_def set_wr_flag_def Let_def)
  have "slot_list ?s' i = [(request_task (dispatcher_requests (s_dp s) ! i))\<lparr>tsk_category := CONTEXT\<rparr>]"
    using b nv rt by (simp add: slot_list_def slot_of_def set_wr_flag_def response_task_def)
  then show "slot_list ?s' i = slot_list s i \<or> (\<exists>t. slot_list s i = [t] \<and> slot_list ?s' i = [t\<lparr>tsk_category := CONTEXT\<rparr>])"
    using bs(6) by simp
qed simp

end
