(* ===== verification/System_Net.thy ===== *)
theory System_Net
  imports System_Worker
begin

text \<open>The steps of the networking core keep the invariant; they fault only on a truncated datagram and on the request to exit.\<close>

section \<open>Buffers and the pool\<close>

lemma release_ok: "distinct bs \<Longrightarrow> set bs \<subseteq> L \<Longrightarrow> release bs L = Inr (L - set bs)"
proof (induction bs arbitrary: L)
  case (Cons b bs)
  have "release bs (L - {b}) = Inr (L - {b} - set bs)"
    by (rule Cons.IH) (use Cons.prems in auto)
  moreover have "L - {b} - set bs = L - set (b # bs)" by auto
  ultimately show ?case using Cons.prems by simp
qed simp

lemma mset_set_minus_list:
  "finite L \<Longrightarrow> distinct bs \<Longrightarrow> set bs \<subseteq> L \<Longrightarrow> mset_set (L - set bs) + mset bs = mset_set L"
  using subset_imp_msubset_mset_set [of "set bs" L] subset_mset.diff_add [of "mset_set (set bs)" "mset_set L"]
  by (simp add: mset_set_Diff mset_set_set)

text \<open>A step of the networking core: the dispatcher and the workers are where they were.\<close>

definition net_step :: "sys \<Rightarrow> sys \<Rightarrow> bool" where
  "net_step s s' \<longleftrightarrow> (\<exists>np. s_dp s' = (s_dp s)\<lparr>networker_pointers := np\<rparr>) \<and> s_tls s' = s_tls s \<and> s_wpc s' = s_wpc s \<and>
     s_dpc s' = s_dpc s \<and> s_txqs s' = s_txqs s"

lemma net_step_control:
  assumes "net_step s s'" and "control m n s"
  shows "control m n s'" "slot_list s' = slot_list s" "tasks_of m n s' qs = tasks_of m n s qs"
    "disp_rep U (s_dp s') = disp_rep U (s_dp s)"
proof -
  have "slot_inv s' j" if "j < n" for j
    by (rule slot_inv_other [of s]) (use assms that in \<open>auto simp: control_def net_step_def\<close>)
  then show "control m n s'" using assms by (auto simp: control_def shape_def net_step_def)
  show sl: "slot_list s' = slot_list s" using assms(1) by (auto simp: slot_list_def net_step_def fun_eq_iff)
  show "tasks_of m n s' qs = tasks_of m n s qs" by (simp add: tasks_of_def sl)
  show "disp_rep U (s_dp s') = disp_rep U (s_dp s)" using assms(1) by (auto simp: net_step_def)
qed

lemma owned_net:
  assumes own: "owned U m n s qs bs Lc q" and c: "control m n s" and st: "net_step s s'"
    and live: "finite (s_live s')" "NULL \<notin> s_live s'"
    and bufs: "mset (np_bufs (networker_pointers (s_dp s'))) + mset q' + mset (batch_of s') + mset_set (s_live s) =
      mset (np_bufs (networker_pointers (s_dp s))) + mset q + mset (batch_of s) + mset_set (s_live s')"
    and store: "\<And>t. t \<in># tasks_of m n s qs \<Longrightarrow> task_ok m (rx_store (s_rx s)) t \<Longrightarrow> task_ok m (rx_store (s_rx s')) t"
  shows "owned U m n s' qs bs Lc q'"
proof -
  note nc = net_step_control [OF st c]
  let ?A = "image_mset tsk_mbuf (tasks_of m n s qs) + mset bs"
  have old: "?A + mset (np_bufs (networker_pointers (s_dp s))) + mset q + mset (batch_of s) = mset_set (s_live s)"
    using own by (simp add: owned_def)
  have "?A + mset (np_bufs (networker_pointers (s_dp s'))) + mset q' + mset (batch_of s') = mset_set (s_live s')"
  proof (rule multiset_eqI)
    show "count (?A + mset (np_bufs (networker_pointers (s_dp s'))) + mset q' + mset (batch_of s')) x = count (mset_set (s_live s')) x" for x
      using arg_cong [OF bufs, of "\<lambda>M. count M x"] arg_cong [OF old, of "\<lambda>M. count M x"] by simp
  qed
  then show ?thesis using own live nc(3,4) store by (simp add: owned_def)
qed

section \<open>Delivery by the driver\<close>

lemma step_poll:
  assumes inv: "sys_inv A U m n s" and pc: "s_npc s = N_recv" and mb: "mb \<notin> s_live s" "mb \<noteq> NULL" and pk: "A pk"
  shows "\<exists>ret rxq ms. eth_recv (hd (eth_rxqs (s_rx s))) ((rx_store (s_rx s))(mb := pk)) mb = Inr (ret, rxq, ms) \<and>
    sys_inv A U m n (s\<lparr>s_rx := (s_rx s)\<lparr>eth_rxqs := [rxq], rx_store := ms\<rparr>,
      s_live := if ret = 0 then insert mb (s_live s) else s_live s\<rparr>)"
proof -
  let ?ms = "rx_store (s_rx s)"
  obtain qs bs Lc q where c: "control m n s" and own: "owned U m n s qs bs Lc q" and net: "network A m s q"
    using inv by (auto simp: sys_inv_def)
  obtain rxq0 where rq: "eth_rxqs (s_rx s) = [rxq0]" and rep0: "rxq_rep rxq0 ?ms q" and bq: "\<forall>p\<in>set q. arrived A (?ms p)"
    using net by (auto simp: network_def rxq_inv_def)
  note op = owned_parts [OF own]
  have qL: "distinct q" "set q \<subseteq> s_live s" using mset_in_live [OF op(1) op(4)] by auto
  then have mq: "mb \<notin> set q" using mb by auto
  have "chain (mlinks (?ms(mb := pk))) 0 (rq_head rxq0) q = chain (mlinks ?ms) 0 (rq_head rxq0) q"
    by (rule chain_cong) (use mq in \<open>auto simp: mlinks_def\<close>)
  then have rep1: "rxq_rep rxq0 (?ms(mb := pk)) q" using rep0 by (simp add: rxq_rep_def)
  text \<open>Whatever the new buffer does to the store, buffers that are out keep their contents.\<close>
  have fin: "sys_inv A U m n s'"
    if s': "s' = s\<lparr>s_rx := (s_rx s)\<lparr>eth_rxqs := [rxq], rx_store := ms'\<rparr>, s_live := L'\<rparr>"
      and keep: "\<And>p. p \<in> s_live s \<Longrightarrow> same_rx (ms' p) (?ms p)" and rep': "rxq_rep rxq ms' q'"
      and ben: "\<And>p. p \<in> set q' \<Longrightarrow> arrived A (ms' p)" and L': "finite L'" "NULL \<notin> L'" "mset q' + mset_set (s_live s) = mset q + mset_set L'"
    for s' rxq ms' q' L'
  proof -
    have st: "net_step s s'" by (auto simp: net_step_def s' intro!: exI [of _ "networker_pointers (s_dp s)"])
    have "task_ok m ms' t" if "t \<in># tasks_of m n s qs" "task_ok m ?ms t" for t
      using that keep [OF owned_task(2) [OF own that(1)]] same_rx_input(3) by (auto simp: task_ok_def)
    then have "owned U m n s' qs bs Lc q'"
      by (intro owned_net [OF own c st]) (use L' pc in \<open>auto simp: s' batch_of_def ac_simps\<close>)
    moreover have "np_inv m ms' (networker_pointers (s_dp s))"
    proof -
      let ?np = "networker_pointers (s_dp s)"
      have np: "np_inv m ?ms ?np" using net by (simp add: network_def)
      have "udp_fits (ms' (np_pkts ?np ! i))" if "np_cnt ?np \<noteq> 0" "i < unat (np_cnt ?np)" for i
      proof -
        have "np_pkts ?np ! i \<in> set (np_bufs ?np)" using that np by (auto simp: np_bufs_def np_inv_def in_set_conv_nth)
        then have "np_pkts ?np ! i \<in> s_live s" using np_bufs_live(1) [OF own] by blast
        then show ?thesis using keep same_rx_input(3) that np by (auto simp: np_inv_def)
      qed
      then show ?thesis using np by (auto simp: np_inv_def)
    qed
    then have "network A m s' q'"
      using net pc rep' ben by (auto simp: network_def batch_inv_def rxq_inv_def s')
    ultimately show ?thesis using net_step_control(1) [OF st c] by (auto simp: sys_inv_def)
  qed
  have NL: "NULL \<notin> s_live s" using own by (simp add: owned_def)
  show ?thesis
  proof (cases "rq_len rxq0 < ETH_RX_MAX_DEPTH")
    case True
    obtain rxq' ms' where call: "eth_recv rxq0 (?ms(mb := pk)) mb = Inr (0, rxq', ms')" and rep': "rxq_rep rxq' ms' (q @ [mb])"
      and cont: "\<forall>p. (ms' p)\<lparr>mb_next := NULL\<rparr> = ((?ms(mb := pk)) p)\<lparr>mb_next := NULL\<rparr>"
      using eth_recv_room [OF rep1 mq mb(2) True] by blast
    have sr: "same_rx (ms' p) ((?ms(mb := pk)) p)" for p
      using arg_cong [OF spec [OF cont, of p], of mb_len] arg_cong [OF spec [OF cont, of p], of mb_data]
      by (simp add: same_rx_def)
    have keep: "same_rx (ms' p) (?ms p)" if "p \<in> s_live s" for p using sr [of p] that mb(1) by (metis fun_upd_other)
    have apk: "arrived A pk" using pk same_rx_refl by (auto simp: arrived_def)
    have ben: "arrived A (ms' p)" if "p \<in> set (q @ [mb])" for p
      using same_rx_input(5) [OF sr [of p], of A] that bq apk mq by auto
    have "sys_inv A U m n (s\<lparr>s_rx := (s_rx s)\<lparr>eth_rxqs := [rxq'], rx_store := ms'\<rparr>, s_live := insert mb (s_live s)\<rparr>)"
      by (rule fin [OF refl keep rep' ben]) (use op(4) NL mb in auto)
    then show ?thesis using call rq by (intro exI [of _ 0] exI [of _ rxq'] exI [of _ ms']) simp
  next
    case False
    then have call: "eth_recv rxq0 (?ms(mb := pk)) mb = Inr (- EBUSY, rxq0, ?ms(mb := pk))"
      by (simp add: eth_recv_full)
    have "sys_inv A U m n (s\<lparr>s_rx := (s_rx s)\<lparr>eth_rxqs := [rxq0], rx_store := ?ms(mb := pk)\<rparr>, s_live := s_live s\<rparr>)"
      by (rule fin [OF refl _ rep1]) (use op(4) NL mb mq bq in auto)
    then show ?thesis using call rq by (intro exI [of _ "- EBUSY"] exI [of _ rxq0] exI [of _ "?ms(mb := pk)"]) (simp add: EBUSY_def)
  qed
qed

section \<open>Reception of a batch\<close>

text \<open>A datagram shorter than its UDP header says, and the request to exit.\<close>

definition truncated :: "mbuf \<Rightarrow> bool" where
  "truncated pk \<longleftrightarrow> ip_checks pk \<and> \<not> udp_fits pk"

definition asks_exit :: "mbuf \<Rightarrow> bool" where
  "asks_exit pk \<longleftrightarrow> ip_checks pk \<and> udp_fits pk \<and> ntoh16 (udp_dst_port (mb_data pk) (udp_pos pk)) = 6666"

lemma eth_input_fault:
  assumes "nat (num_ports cfg) \<le> length (cfg_ports cfg)" and "eth_input cfg pk = Inl e"
  shows "e = Exit_called" "asks_exit pk"
  using assms by (auto simp: eth_input_cases udp_input_def asks_exit_def udp_fits_def drop_packet_def Let_def split: if_splits option.splits)

lemma arrived_as:
  assumes "arrived A b" and "truncated b \<or> asks_exit b"
  shows "truncated b \<Longrightarrow> \<exists>pk. A pk \<and> truncated pk" "asks_exit b \<Longrightarrow> \<exists>pk. A pk \<and> asks_exit pk"
proof -
  obtain pk where pk: "A pk" "same_rx b pk" using assms(1) by (auto simp: arrived_def)
  note i = same_rx_input [OF pk(2)]
  have "12 \<le> udp_pos pk" by (simp add: udp_pos_def)
  then have "udp_dst_port (mb_data b) (udp_pos pk) = udp_dst_port (mb_data pk) (udp_pos pk)" by (rule same_rx_fields(8) [OF pk(2)])
  then show "truncated b \<Longrightarrow> \<exists>pk. A pk \<and> truncated pk" "asks_exit b \<Longrightarrow> \<exists>pk. A pk \<and> asks_exit pk"
    using pk(1) i by (auto simp: truncated_def asks_exit_def)
qed

lemma split_queue:
  assumes "\<And>p. stopper cfg ms q n = Some p \<Longrightarrow> frees_of cfg ms p = 1"
  shows "batch cfg ms q n @ dropped cfg ms q n @ unread cfg ms q n = q"
proof -
  let ?k = "length (batch cfg ms q n)"
  have b: "batch cfg ms q n = take ?k q"
  proof -
    have "?k \<le> n" using length_takeWhile_le [of "accepts cfg ms" "take n q"] by (simp add: batch_def)
    then show ?thesis using takeWhile_eq_take [of "accepts cfg ms" "take n q"] by (simp add: batch_def)
  qed
  show ?thesis
  proof (cases "?k < n \<and> ?k < length q")
    case True
    then have "stopper cfg ms q n = Some (q ! ?k)" by (simp add: stopper_def)
    then have "dropped cfg ms q n = [q ! ?k]" "unread cfg ms q n = drop (Suc ?k) q"
      using True assms by (simp_all add: dropped_def unread_def)
    moreover have "take ?k q @ [q ! ?k] @ drop (Suc ?k) q = q"
      using True by (simp add: Cons_nth_drop_Suc)
    ultimately show ?thesis using b by simp
  next
    case False
    then have "dropped cfg ms q n = []" "unread cfg ms q n = drop ?k q"
      by (auto simp: dropped_def unread_def)
    moreover have "take ?k q @ drop ?k q = q" by simp
    ultimately show ?thesis using b by simp
  qed
qed

text \<open>The packet that ends a batch is freed once; only a truncated datagram is freed twice.\<close>

lemma stopper_frees:
  assumes "stopper cfg ms q n = Some p" and "eth_input cfg (ms p) = Inr r"
  shows "frees_of cfg ms p = (if truncated (ms p) then 2 else 1)"
proof -
  have "rx_ret r < 0" using stopper_Some(2) [OF assms(1)] assms(2) by (simp add: accepts_def)
  then show ?thesis using eth_input_frees [OF assms(2)] assms(2) by (simp add: frees_of_def truncated_def)
qed

lemma accepts_type:
  assumes "accepts cfg ms p" and "nat (num_ports cfg) \<le> length (cfg_ports cfg)" and "nat (num_ports cfg) \<le> m"
  shows "0 \<le> type_of cfg ms p" "type_of cfg ms p < int m" "udp_fits (ms p)"
proof -
  obtain r where r: "eth_input cfg (ms p) = Inr r" "0 \<le> rx_ret r" using assms(1) by (auto simp: accepts_def split: sum.splits)
  then have "\<exists>r. eth_input cfg (ms p) = Inr r \<and> rx_ret r = int (nat (rx_ret r))" by simp
  from r have "\<exists>r'. eth_input cfg (ms p) = Inr r' \<and> rx_ret r' = int (nat (rx_ret r))" by simp
  from this [unfolded eth_input_accepts [OF assms(2)]] have "udp_fits (ms p)" "nat (rx_ret r) < nat (num_ports cfg)" by auto
  then show "udp_fits (ms p)" "0 \<le> type_of cfg ms p" "type_of cfg ms p < int m" using r assms(3) by (auto simp: type_of_def)
qed

lemma step_recv_ok:
  assumes inv: "sys_inv A U m n s" and sz: "sized cfg U m n" and pc: "s_npc s = N_recv"
    and own: "owned U m n s qs bs Lc q" and net: "network A m s q"
    and st0: "\<And>p. stopper cfg (rx_store (s_rx s)) q ETH_RX_MAX_BATCH = Some p \<Longrightarrow>
      frees_of cfg (rx_store (s_rx s)) p = 1 \<and> (\<exists>r. eth_input cfg (rx_store (s_rx s) p) = Inr r)"
  shows "\<exists>k rx L. eth_process_recv cfg 1 (s_rx s) = Inr (k, rx) \<and> release (newly_freed (s_rx s) rx) (s_live s) = Inr L \<and>
    sys_inv A U m n (s\<lparr>s_rx := rx, s_nrecv := k, s_live := L, s_npc := if k = 0 then N_recv else N_wait\<rparr>)"
proof -
  let ?ms = "rx_store (s_rx s)"
  have c: "control m n s" using inv by (auto simp: sys_inv_def)
  obtain rxq0 where rq: "eth_rxqs (s_rx s) = [rxq0]" and rep0: "rxq_rep rxq0 ?ms q" and bq: "\<forall>p\<in>set q. arrived A (?ms p)"
    using net by (auto simp: network_def rxq_inv_def)
  have len: "length (recv_mbufs (s_rx s)) = ETH_RX_MAX_BATCH" "length (recv_type (s_rx s)) = ETH_RX_MAX_BATCH"
    using net by (simp_all add: network_def batch_inv_def)
  define ps where "ps = batch cfg ?ms q ETH_RX_MAX_BATCH"
  define fr where "fr = dropped cfg ?ms q ETH_RX_MAX_BATCH"
  define q' where "q' = unread cfg ?ms q ETH_RX_MAX_BATCH"
  obtain rx rxq' where call: "recv_loop cfg 1 0 (s_rx s) = Inr (length ps, rx)" and rx: "eth_rxqs rx = [rxq']" "rx_store rx = ?ms"
    and rep': "rxq_rep rxq' ?ms q'" and st: "stored 0 ps (recv_mbufs (s_rx s)) (recv_mbufs rx)"
    "stored 0 (map (type_of cfg ?ms) ps) (recv_type (s_rx s)) (recv_type rx)" and fr': "rx_freed rx = fr @ rx_freed (s_rx s)"
    using recv_loop_one [OF rq rep0 _ len, of cfg ETH_RX_MAX_BATCH 0] st0 by (auto simp: ps_def fr_def q'_def ETH_RX_MAX_BATCH_def)
  have split: "ps @ fr @ q' = q"
    unfolding ps_def fr_def q'_def by (rule split_queue) (use st0 in blast)
  have nf: "newly_freed (s_rx s) rx = fr" using fr' by (simp add: newly_freed_def)
  note op = owned_parts [OF own]
  have qL: "distinct q" "set q \<subseteq> s_live s" using mset_in_live [OF op(1) op(4)] by auto
  then have frL: "distinct fr" "set fr \<subseteq> s_live s" "distinct ps" using split by auto
  then have rel: "release (newly_freed (s_rx s) rx) (s_live s) = Inr (s_live s - set fr)" using nf release_ok by simp
  define s' where "s' = s\<lparr>s_rx := rx, s_nrecv := length ps, s_live := s_live s - set fr,
     s_npc := if length ps = 0 then N_recv else N_wait\<rparr>"
  have bt: "batch_of s' = ps" using st by (auto simp: batch_of_def s'_def stored_def)
  have stp: "net_step s s'" by (auto simp: net_step_def s'_def intro!: exI [of _ "networker_pointers (s_dp s)"])
  have ms: "mset_set (s_live s - set fr) + mset fr = mset_set (s_live s)"
    by (rule mset_set_minus_list [OF op(4) frL(1,2)])
  have own': "owned U m n s' qs bs Lc q'"
  proof (rule owned_net [OF own c stp])
    show "mset (np_bufs (networker_pointers (s_dp s'))) + mset q' + mset (batch_of s') + mset_set (s_live s) =
      mset (np_bufs (networker_pointers (s_dp s))) + mset q + mset (batch_of s) + mset_set (s_live s')"
      unfolding bt ms [symmetric] split [symmetric] using pc by (simp add: s'_def batch_of_def ac_simps)
  qed (use own op(4) rx in \<open>auto simp: s'_def owned_def\<close>)
  have len': "length ps \<le> ETH_RX_MAX_BATCH"
    unfolding ps_def batch_def using length_takeWhile_le [of "accepts cfg ?ms" "take ETH_RX_MAX_BATCH q"] by (auto intro: order_trans)
  have acc: "accepts cfg ?ms p" if "p \<in> set ps" for p using that by (auto simp: ps_def batch_def dest: set_takeWhileD)
  have elems: "recv_mbufs rx ! i = ps ! i" "recv_type rx ! i = type_of cfg ?ms (ps ! i)" if "i < length ps" for i
  proof -
    have e: "take (length ps) (recv_mbufs rx) = ps" "take (length ps) (recv_type rx) = map (type_of cfg ?ms) ps"
      using st by (simp_all add: stored_def)
    show "recv_mbufs rx ! i = ps ! i" using arg_cong [OF e(1), of "\<lambda>xs. xs ! i"] that by simp
    show "recv_type rx ! i = type_of cfg ?ms (ps ! i)" using arg_cong [OF e(2), of "\<lambda>xs. xs ! i"] that by simp
  qed
  have ports: "nat (num_ports cfg) \<le> length (cfg_ports cfg)" "nat (num_ports cfg) \<le> m" using sz by (simp_all add: sized_def)
  have "batch_inv m s'"
    using net st len' elems acc accepts_type [OF _ ports] rx
    by (auto simp: network_def batch_inv_def s'_def stored_def)
  moreover have "np_inv m (rx_store (s_rx s')) (networker_pointers (s_dp s'))" using net rx by (simp add: network_def s'_def)
  moreover have "rxq_inv A s' q'" using rx rep' bq split by (auto simp: rxq_inv_def s'_def)
  ultimately have "sys_inv A U m n s'"
    using own' net_step_control(1) [OF stp c] by (auto simp: sys_inv_def network_def)
  then show ?thesis using call rel by (auto simp: s'_def eth_process_recv_def)
qed

text \<open>The call returns a batch, or it meets the request to exit, or it frees a truncated datagram twice.\<close>

lemma step_recv:
  assumes inv: "sys_inv A U m n s" and sz: "sized cfg U m n" and pc: "s_npc s = N_recv"
  shows "(\<exists>k rx L. eth_process_recv cfg 1 (s_rx s) = Inr (k, rx) \<and> release (newly_freed (s_rx s) rx) (s_live s) = Inr L \<and>
      sys_inv A U m n (s\<lparr>s_rx := rx, s_nrecv := k, s_live := L, s_npc := if k = 0 then N_recv else N_wait\<rparr>)) \<or>
    (eth_process_recv cfg 1 (s_rx s) = Inl Exit_called \<and> (\<exists>pk. A pk \<and> asks_exit pk)) \<or>
    (\<exists>k rx. eth_process_recv cfg 1 (s_rx s) = Inr (k, rx) \<and> release (newly_freed (s_rx s) rx) (s_live s) = Inl Double_free \<and>
      (\<exists>pk. A pk \<and> truncated pk))"
proof -
  let ?ms = "rx_store (s_rx s)" and ?N = ETH_RX_MAX_BATCH
  obtain qs bs Lc q where own: "owned U m n s qs bs Lc q" and net: "network A m s q" using inv by (auto simp: sys_inv_def)
  obtain rxq0 where rq: "eth_rxqs (s_rx s) = [rxq0]" and rep0: "rxq_rep rxq0 ?ms q" and bq: "\<forall>p\<in>set q. arrived A (?ms p)"
    using net by (auto simp: network_def rxq_inv_def)
  have len: "length (recv_mbufs (s_rx s)) = ?N" "length (recv_type (s_rx s)) = ?N"
    using net by (simp_all add: network_def batch_inv_def)
  have ports: "nat (num_ports cfg) \<le> length (cfg_ports cfg)" using sz by (simp add: sized_def)
  consider (ok) "\<And>p. stopper cfg ?ms q ?N = Some p \<Longrightarrow> frees_of cfg ?ms p = 1 \<and> (\<exists>r. eth_input cfg (?ms p) = Inr r)"
    | (exit) p e where "stopper cfg ?ms q ?N = Some p" "eth_input cfg (?ms p) = Inl e"
    | (trunc) p r where "stopper cfg ?ms q ?N = Some p" "eth_input cfg (?ms p) = Inr r" "frees_of cfg ?ms p \<noteq> 1"
    by (metis sum.exhaust)
  then show ?thesis
  proof cases
    case ok
    then show ?thesis using step_recv_ok [OF inv sz pc own net] by blast
  next
    case exit
    have a: "arrived A (?ms p)" using bq stopper_Some(1) [OF exit(1)] by blast
    note f = eth_input_fault [OF ports exit(2)]
    have "eth_process_recv cfg 1 (s_rx s) = Inl Exit_called"
      using recv_loop_fault [OF rq rep0 exit len(1), of 0] f(1) by (simp add: eth_process_recv_def)
    then show ?thesis using arrived_as(2) [OF a] f(2) by blast
  next
    case trunc
    have a: "arrived A (?ms p)" using bq stopper_Some(1) [OF trunc(1)] by blast
    have t: "truncated (?ms p)" "frees_of cfg ?ms p = 2" using stopper_frees [OF trunc(1,2)] trunc(3) by (auto split: if_splits)
    obtain k rx where call: "eth_process_recv cfg 1 (s_rx s) = Inr (k, rx)" and fr: "rx_freed rx = dropped cfg ?ms q ?N @ rx_freed (s_rx s)"
      using recv_loop_one [OF rq rep0 _ len, of cfg ?N 0] trunc(1,2) by (auto simp: eth_process_recv_def ETH_RX_MAX_BATCH_def)
    have "newly_freed (s_rx s) rx = [p, p]"
      using fr stopper_Some(3) [OF trunc(1)] t(2) by (simp add: newly_freed_def numeral_2_eq_2)
    then show ?thesis using call arrived_as(1) [OF a] t(1) by simp
  qed
qed

section \<open>Handing the batch over\<close>

lemma same_store_stamp: "same_store ms (stamp cy A ms)"
  by (simp add: same_store_def stamp_def same_rx_def)

lemma step_stage:
  assumes inv: "sys_inv A U m n s" and pc: "s_npc s = N_wait" and cnt: "np_cnt (networker_pointers (s_dp s)) = 0"
  shows "\<exists>np rx L. stage_batch cy (s_nrecv s) (networker_pointers (s_dp s)) (s_rx s) = Inr (np, rx) \<and>
    release (newly_freed (s_rx s) rx) (s_live s) = Inr L \<and>
    sys_inv A U m n (s\<lparr>s_dp := (s_dp s)\<lparr>networker_pointers := np\<rparr>, s_rx := rx, s_live := L, s_npc := N_publish\<rparr>)"
proof -
  let ?np = "networker_pointers (s_dp s)" and ?k = "s_nrecv s" and ?rx = "s_rx s"
  obtain qs bs Lc q where c: "control m n s" and own: "owned U m n s qs bs Lc q" and net: "network A m s q"
    using inv by (auto simp: sys_inv_def)
  have npi: "np_inv m (rx_store ?rx) ?np" and bi: "batch_inv m s" using net by (simp_all add: network_def)
  have k: "0 < ?k" "?k \<le> ETH_RX_MAX_BATCH" and len: "length (recv_mbufs ?rx) = ETH_RX_MAX_BATCH"
    "length (np_pkts ?np) = ETH_RX_MAX_BATCH" "length (np_types ?np) = ETH_RX_MAX_BATCH" "unat (np_free_cnt ?np) \<le> ETH_RX_MAX_BATCH"
    using npi bi pc by (simp_all add: np_inv_def batch_inv_def)
  define C where "C = set (take ?k (recv_mbufs ?rx))"
  define fr where "fr = rev (take (unat (np_free_cnt ?np)) (np_pkts ?np))"
  define rx where "rx = ?rx\<lparr>rx_store := stamp cy C (rx_store ?rx), rx_freed := fr @ rx_freed ?rx\<rparr>"
  obtain np where call: "stage_batch cy ?k ?np ?rx = Inr (np, rx)" and np: "np_cnt np = 0" "np_free_cnt np = 0"
    "length (np_pkts np) = ETH_RX_MAX_BATCH" "length (np_types np) = ETH_RX_MAX_BATCH"
    "take ?k (np_pkts np) = take ?k (recv_mbufs ?rx)" "\<forall>i<?k. np_types np ! i = of_int (recv_type ?rx ! i)"
    using stage_batch_result [OF k len, of cy] cnt by (auto simp: rx_def C_def fr_def)
  have nf: "newly_freed ?rx rx = fr" by (simp add: newly_freed_def rx_def)
  note op = owned_parts [OF own]
  have npb: "np_bufs ?np = rev fr" using cnt by (simp add: np_bufs_def fr_def)
  have frL: "distinct fr" "set fr \<subseteq> s_live s" using mset_in_live [OF op(2) op(4)] npb by auto
  then have rel: "release (newly_freed ?rx rx) (s_live s) = Inr (s_live s - set fr)" using nf release_ok by simp
  define s' where "s' = s\<lparr>s_dp := (s_dp s)\<lparr>networker_pointers := np\<rparr>, s_rx := rx, s_live := s_live s - set fr, s_npc := N_publish\<rparr>"
  have stp: "net_step s s'" by (auto simp: net_step_def s'_def)
  have ms: "mset_set (s_live s - set fr) + mset fr = mset_set (s_live s)"
    by (rule mset_set_minus_list [OF op(4) frL])
  have ss: "same_store (rx_store ?rx) (rx_store (s_rx s'))" by (simp add: s'_def rx_def same_store_stamp)
  note r = same_store_rep [OF ss]
  have own': "owned U m n s' qs bs Lc q"
  proof (rule owned_net [OF own c stp])
    show "mset (np_bufs (networker_pointers (s_dp s'))) + mset q + mset (batch_of s') + mset_set (s_live s) =
      mset (np_bufs ?np) + mset q + mset (batch_of s) + mset_set (s_live s')"
      unfolding ms [symmetric] npb using np pc by (simp add: s'_def batch_of_def np_bufs_def rx_def ac_simps)
  qed (use own op(4) r(4) in \<open>auto simp: s'_def owned_def\<close>)
  have "network A m s' q"
    using net np pc r by (auto simp: network_def np_inv_def batch_inv_def rxq_inv_def s'_def rx_def)
  then have "sys_inv A U m n s'"
    using own' net_step_control(1) [OF stp c] by (auto simp: sys_inv_def)
  then show ?thesis using call rel by (auto simp: s'_def)
qed

lemma step_npublish:
  assumes inv: "sys_inv A U m n s" and sz: "sized cfg U m n" and pc: "s_npc s = N_publish"
  shows "sys_inv A U m n (s\<lparr>s_dp := (s_dp s)\<lparr>networker_pointers := (networker_pointers (s_dp s))\<lparr>np_cnt := of_nat (s_nrecv s)\<rparr>\<rparr>,
     s_npc := N_recv\<rparr>)" (is "sys_inv _ _ _ _ ?s'")
proof -
  let ?np = "networker_pointers (s_dp s)" and ?k = "s_nrecv s" and ?rx = "s_rx s"
  obtain qs bs Lc q where c: "control m n s" and own: "owned U m n s qs bs Lc q" and net: "network A m s q"
    using inv by (auto simp: sys_inv_def)
  have bi: "batch_inv m s" and npi: "np_inv m (rx_store ?rx) ?np" using net by (simp_all add: network_def)
  have k: "0 < ?k" "?k \<le> ETH_RX_MAX_BATCH" and np: "np_cnt ?np = 0" "np_free_cnt ?np = 0"
    "take ?k (np_pkts ?np) = take ?k (recv_mbufs ?rx)" "\<forall>i<?k. np_types ?np ! i = of_int (recv_type ?rx ! i)"
    and ok: "\<forall>i<?k. 0 \<le> recv_type ?rx ! i \<and> recv_type ?rx ! i < int m \<and> udp_fits (rx_store ?rx (recv_mbufs ?rx ! i))"
    using bi pc by (simp_all add: batch_inv_def)
  have un: "unat (of_nat ?k :: u8) = ?k"
    using k by (simp add: ETH_RX_MAX_BATCH_def unsigned_of_nat take_bit_nat_eq_self)
  then have nz: "(of_nat ?k :: u8) \<noteq> 0" using k by (metis less_numeral_extra(3) unsigned_0)
  have ty: "unat (np_types ?np ! i) < m" "np_pkts ?np ! i = recv_mbufs ?rx ! i" if i: "i < ?k" for i
  proof -
    have t: "0 \<le> recv_type ?rx ! i" "recv_type ?rx ! i < int m" "int m \<le> 256" using ok i sz by (auto simp: sized_def)
    have "unat (of_int (recv_type ?rx ! i) :: u8) = nat (recv_type ?rx ! i)"
      using t by (simp add: unsigned_of_int take_bit_int_eq_self nat_take_bit_eq)
    then show "unat (np_types ?np ! i) < m" using np(4) t i by simp
    show "np_pkts ?np ! i = recv_mbufs ?rx ! i" using arg_cong [OF np(3), of "\<lambda>xs. xs ! i"] i by simp
  qed
  have stp: "net_step s ?s'" by (auto simp: net_step_def)
  have own': "owned U m n ?s' qs bs Lc q"
  proof (rule owned_net [OF own c stp])
    show "mset (np_bufs (networker_pointers (s_dp ?s'))) + mset q + mset (batch_of ?s') + mset_set (s_live s) =
      mset (np_bufs ?np) + mset q + mset (batch_of s) + mset_set (s_live ?s')"
      using np pc un nz by (simp add: batch_of_def np_bufs_def)
  qed (use own in \<open>auto simp: owned_def\<close>)
  have "network A m ?s' q"
    using net np un nz k ty ok by (auto simp: network_def np_inv_def batch_inv_def rxq_inv_def)
  then show ?thesis
    using own' net_step_control(1) [OF stp c] by (auto simp: sys_inv_def)
qed

end
