(* ===== verification/Sample.thy ===== *)
theory Sample
  imports Dispatch_Refine
begin

text \<open>
  Small concrete states of the dispatcher's memory, used to show that the hypotheses of
  the general results can be met: \<open>idle_dp\<close> right after initialisation, and \<open>busy_dp\<close> with a
  task waiting, a finished request in slot 0, a buffer on its way back and a received batch.
\<close>

definition sample_cfg :: cfg_parameters where
  "sample_cfg = \<lparr>host_addr = 0x0A000001, broadcast_addr = 0x0A0000FF, gateway_addr = 0x0A000002, cfg_mask = 0xFFFFFF00,
     cfg_mac = [2, 0, 0, 0, 0, 1], num_cpus = 4, cfg_cpu = [0, 1, 2, 3], num_ethdev = 0, cfg_ethdev = [],
     num_ports = 1, cfg_ports = [8000], num_slos = 1, cfg_slos = [500], loader_path = ''''\<rparr>"

definition sample_pool :: "addr \<Rightarrow> int \<Rightarrow> pool" where
  "sample_pool a k =
     (\<lparr>mp_head = a, mp_num_free = k, mp_elem_len = 64, mp_magic = MEMPOOL_MAGIC, mp_buf = 0x100, mp_datastore = 1,
       mp_private_chunk = NULL, mp_sanity = 0, mp_nr_elems = 8, mp_nostraddle = 1, mp_chunk_size = 8,
       mp_iomap_addr = NULL, mp_iomap_offset = 0\<rparr>,
      \<lparr>ds_magic = MEMPOOL_MAGIC, ds_chunk_head = NULL, ds_buf = 0x100, ds_nr_pages = 1, ds_nr_elems = 8, ds_elem_len = 64,
       ds_nostraddle = 1, ds_chunk_size = 8, ds_num_chunks = 1, ds_free_chunks = 0, ds_num_locks = 1,
       ds_prettyname = ''sample'', ds_iomap_addr = NULL, ds_iomap_offset = 0\<rparr>)"

lemma sample_pool_ok:
  assumes "chain h HDR_NEXT a xs" "distinct xs" "0 \<le> k" "k \<le> 8" "k \<le> int (length xs)"
    and "finite L" "set xs \<inter> L = {}" "NULL \<notin> L"
  shows "mempool_ok h (sample_pool a k) (set xs) L"
proof -
  have "mempool_rep h (fst (sample_pool a k)) (snd (sample_pool a k)) xs [] [] \<and> set xs = rep_free xs [] []"
    using assms by (simp add: sample_pool_def mempool_rep_def rep_free_def)
  then show ?thesis using assms unfolding mempool_ok_def by (simp add: sample_pool_def) blast
qed

text \<open>Memory from a list of stores.\<close>

definition stores :: "(addr \<times> nat \<times> u64) list \<Rightarrow> heap \<Rightarrow> heap" where
  "stores ws h = fold (\<lambda>(p, off, v) h. hwrite h p off v) ws h"

definition links :: "addr list \<Rightarrow> (addr \<times> nat \<times> u64) list" where
  "links xs = map (\<lambda>(p, q). (p, HDR_NEXT, q)) (zip xs (tl xs @ [NULL]))"

definition mcells :: "addr list" where
  "mcells = [0x410, 0x420, 0x430, 0x440, 0x450, 0x460]"

definition sample_universe :: universe where
  "sample_universe = \<lparr>u_task = {0x100, 0x140, 0x180}, u_mcell = {0x400, 0x410, 0x420, 0x430, 0x440, 0x450, 0x460},
     u_ctx = {0x1000, 0x1400, 0x1800}, u_stack = {0x8000, 0x9000, 0xA000}\<rparr>"

definition idle_response :: worker_response where
  "idle_response = \<lparr>wr_flag = RUNNING, wr_rnbl = 0, wr_mbuf = 0, wr_timestamp = 0, wr_type = 0, wr_category = 0\<rparr>"

definition idle_request :: dispatcher_request where
  "idle_request = \<lparr>dr_flag = WAITING, dr_rnbl = 0, dr_mbuf = 0, dr_type = 0, dr_category = 0, dr_timestamp = 0, dr_dispatcher_cy = 0\<rparr>"

definition idle_dp :: dp_state where
  "idle_dp = \<lparr>d_heap = stores (links [0x100, 0x140, 0x180] @ links (0x400 # mcells) @ links [0x1000, 0x1400, 0x1800] @
       links [0x8000, 0x9000, 0xA000]) (\<lambda>_ _. 0),
     task_mempool = sample_pool 0x100 3, mcell_mempool = sample_pool 0x400 7, context_pool = sample_pool 0x1000 3,
     stack_pool = sample_pool 0x8000 3, mqueue = NULL, tskq = [\<lparr>tq_head = NULL, tq_tail = NULL\<rparr>],
     timestamps = replicate MAX_WORKERS 0, preempt_check = replicate MAX_WORKERS False,
     networker_pointers = \<lparr>np_cnt = 0, np_free_cnt = 0, np_types = replicate 6 0, np_pkts = replicate 6 NULL\<rparr>,
     worker_responses = replicate MAX_WORKERS idle_response, dispatcher_requests = replicate MAX_WORKERS idle_request,
     d_ipis = []\<rparr>"

definition waiting_task :: task where
  "waiting_task = \<lparr>tsk_runnable = 0x1000, tsk_mbuf = 0x20000, tsk_type = 0, tsk_category = PACKET, tsk_timestamp = 100\<rparr>"

definition done_response :: worker_response where
  "done_response = \<lparr>wr_flag = FINISHED, wr_rnbl = 0x1400, wr_mbuf = 0x30000, wr_timestamp = 50, wr_type = 0, wr_category = CONTEXT\<rparr>"

definition busy_dp :: dp_state where
  "busy_dp = \<lparr>d_heap = task_store (stores (links [0x140, 0x180] @ links mcells @
       [(0x400, MCELL_BUFFER, 0x40000), (0x1000, UC_SS_SP, 0x8000), (0x1400, UC_SS_SP, 0x9000)]) (\<lambda>_ _. 0)) 0x100 waiting_task,
     task_mempool = sample_pool 0x140 2, mcell_mempool = sample_pool 0x410 6, context_pool = sample_pool 0x1800 1,
     stack_pool = sample_pool 0xA000 1, mqueue = 0x400, tskq = [\<lparr>tq_head = 0x100, tq_tail = 0x100\<rparr>],
     timestamps = replicate MAX_WORKERS 0, preempt_check = replicate MAX_WORKERS False,
     networker_pointers = \<lparr>np_cnt = 1, np_free_cnt = 0, np_types = replicate 6 0, np_pkts = 0x50000 # replicate 5 NULL\<rparr>,
     worker_responses = done_response # replicate 23 idle_response, dispatcher_requests = replicate MAX_WORKERS idle_request,
     d_ipis = []\<rparr>"

lemmas sample_defs = sample_universe_def stores_def links_def mcells_def waiting_task_def

lemma idle_rep: "disp_rep sample_universe idle_dp (\<lambda>_. []) [] {}"
proof -
  have u: "universe_ok sample_universe" by (simp add: universe_ok_def sample_universe_def)
  have t: "mempool_ok (d_heap idle_dp) (sample_pool 0x100 3) (set [0x100, 0x140, 0x180]) {}"
    by (rule sample_pool_ok) (simp_all add: idle_dp_def sample_defs hwrite_def)
  have m: "mempool_ok (d_heap idle_dp) (sample_pool 0x400 7) (set (0x400 # mcells)) {}"
    by (rule sample_pool_ok) (simp_all add: idle_dp_def sample_defs hwrite_def)
  have c: "mempool_ok (d_heap idle_dp) (sample_pool 0x1000 3) (set [0x1000, 0x1400, 0x1800]) {}"
    by (rule sample_pool_ok) (simp_all add: idle_dp_def sample_defs hwrite_def)
  have st: "mempool_ok (d_heap idle_dp) (sample_pool 0x8000 3) (set [0x8000, 0x9000, 0xA000]) {}"
    by (rule sample_pool_ok) (simp_all add: idle_dp_def sample_defs hwrite_def)
  have p: "task_mempool idle_dp = sample_pool 0x100 3" "mcell_mempool idle_dp = sample_pool 0x400 7"
    "context_pool idle_dp = sample_pool 0x1000 3" "stack_pool idle_dp = sample_pool 0x8000 3" "mqueue idle_dp = NULL"
    "tskq idle_dp = [\<lparr>tq_head = NULL, tq_tail = NULL\<rparr>]" by (simp_all add: idle_dp_def)
  have "disp_mem sample_universe idle_dp (\<lambda>_. []) [] {} {}"
    using u t m c st by (simp add: disp_mem_def p task_cells_def tskqs_ok_def mq_ok_def ctx_ok_def tskq_rep_def mq_rep_def
        mq_abs_def bij_betw_def sample_universe_def mcells_def)
  then show ?thesis
    unfolding disp_rep_def by (intro exI [of _ "\<lambda>_. []"] exI [of _ "[]"] exI [of _ "{}"]) (simp add: tskq_abs_def mq_abs_def)
qed

lemma busy_rep: "disp_rep sample_universe busy_dp (\<lambda>_. [waiting_task]) [0x40000] {0x1000, 0x1400}"
proof -
  have u: "universe_ok sample_universe" by (simp add: universe_ok_def sample_universe_def)
  have t: "mempool_ok (d_heap busy_dp) (sample_pool 0x140 2) (set [0x140, 0x180]) {0x100}"
    by (rule sample_pool_ok) (simp_all add: busy_dp_def sample_defs hwrite_def task_store_def)
  have m: "mempool_ok (d_heap busy_dp) (sample_pool 0x410 6) (set mcells) {0x400}"
    by (rule sample_pool_ok) (simp_all add: busy_dp_def sample_defs hwrite_def task_store_def)
  have c: "mempool_ok (d_heap busy_dp) (sample_pool 0x1800 1) (set [0x1800]) {0x1000, 0x1400}"
    by (rule sample_pool_ok) (simp_all add: busy_dp_def sample_defs hwrite_def task_store_def)
  have st: "mempool_ok (d_heap busy_dp) (sample_pool 0xA000 1) (set [0xA000]) {0x8000, 0x9000}"
    by (rule sample_pool_ok) (simp_all add: busy_dp_def sample_defs hwrite_def task_store_def)
  have p: "task_mempool busy_dp = sample_pool 0x140 2" "mcell_mempool busy_dp = sample_pool 0x410 6"
    "context_pool busy_dp = sample_pool 0x1800 1" "stack_pool busy_dp = sample_pool 0xA000 1" "mqueue busy_dp = 0x400"
    "tskq busy_dp = [\<lparr>tq_head = 0x100, tq_tail = 0x100\<rparr>]" by (simp_all add: busy_dp_def)
  have h: "d_heap busy_dp 0x100 TASK_NEXT = NULL" "d_heap busy_dp 0x400 MCELL_NEXT = NULL" "d_heap busy_dp 0x400 MCELL_BUFFER = 0x40000"
    "d_heap busy_dp 0x1000 UC_SS_SP = 0x8000" "d_heap busy_dp 0x1400 UC_SS_SP = 0x9000"
    by (simp_all add: busy_dp_def sample_defs hwrite_def task_store_def)
  have q: "tskq_rep (d_heap busy_dp) \<lparr>tq_head = 0x100, tq_tail = 0x100\<rparr> [0x100]" "mq_rep (d_heap busy_dp) 0x400 [0x400]"
    using h by (simp_all add: tskq_rep_def mq_rep_def)
  have b: "bij_betw (\<lambda>c. d_heap busy_dp c UC_SS_SP) {0x1000, 0x1400} {0x8000, 0x9000}"
    using h by (simp add: bij_betw_def)
  have e: "{0x100, 0x140, 0x180} - {0x100} = ({0x140, 0x180} :: addr set)" "{0x1000, 0x1400, 0x1800} - {0x1000, 0x1400} = ({0x1800} :: addr set)"
    "{0x8000, 0x9000, 0xA000} - {0x8000, 0x9000} = ({0xA000} :: addr set)"
    "{0x400, 0x410, 0x420, 0x430, 0x440, 0x450, 0x460} - {0x400} = ({0x410, 0x420, 0x430, 0x440, 0x450, 0x460} :: addr set)" by auto
  have "disp_mem sample_universe busy_dp (\<lambda>_. [0x100]) [0x400] {0x1000, 0x1400} {0x8000, 0x9000}"
    using u t m c st q b h by (simp add: disp_mem_def p task_cells_def tskqs_ok_def mq_ok_def ctx_ok_def
        mq_abs_def sample_universe_def mcells_def e lessThan_Suc)
  moreover have "tskq_abs (d_heap busy_dp) [0x100] = [waiting_task]" by (simp add: busy_dp_def tskq_abs_def)
  ultimately show ?thesis
    unfolding disp_rep_def using h
    by (intro exI [of _ "\<lambda>_. [0x100]"] exI [of _ "[0x400]"] exI [of _ "{0x8000, 0x9000}"]) (simp add: mq_abs_def)
qed

end
