(* ===== verification/System_Safe.thy ===== *)
theory System_Safe
  imports System_Worker System_Net Sample
begin

text \<open>
  Every step of every thread keeps the invariant of \<open>System_Inv\<close>, and the faults that can be reached are those that the
  packets, the driver or the work of a request provoke; hence the ownership discipline holds in every reachable state.
\<close>

section \<open>Start\<close>

text \<open>
  The static arrays are zeroed, no thread has started, the pools are complete and every
  queue is empty.
\<close>

definition sys_start :: "universe \<Rightarrow> nat \<Rightarrow> nat \<Rightarrow> sys \<Rightarrow> bool" where
  "sys_start U m n s \<longleftrightarrow> shape m n s \<and>
     (\<forall>i<n. wr_flag (worker_responses (s_dp s) ! i) = RUNNING \<and> dr_flag (dispatcher_requests (s_dp s) ! i) = WAITING \<and>
        s_wpc s ! i = W_boot) \<and>
     (\<exists>cur. s_dpc s = D_worker 0 cur) \<and> s_npc s = N_recv \<and> s_live s = {} \<and>
     disp_rep U (s_dp s) (\<lambda>_. []) [] {} \<and>
     length (np_pkts (networker_pointers (s_dp s))) = ETH_RX_MAX_BATCH \<and>
     length (np_types (networker_pointers (s_dp s))) = ETH_RX_MAX_BATCH \<and>
     np_cnt (networker_pointers (s_dp s)) = 0 \<and> np_free_cnt (networker_pointers (s_dp s)) = 0 \<and>
     length (recv_mbufs (s_rx s)) = ETH_RX_MAX_BATCH \<and> length (recv_type (s_rx s)) = ETH_RX_MAX_BATCH \<and>
     (\<exists>rxq. eth_rxqs (s_rx s) = [rxq] \<and> rxq_rep rxq (rx_store (s_rx s)) [])"

lemma start_inv:
  assumes st: "sys_start U m n s"
  shows "sys_inv A U m n s"
proof -
  have c: "control m n s" using st by (auto simp: sys_start_def control_def slot_inv_def Let_def flag_defs)
  have "slot_list s i = []" if "i < n" for i using st that by (simp add: sys_start_def slot_list_def slot_of_def)
  then have t: "tasks_of m n s (\<lambda>_. []) = {#}" by (simp add: tasks_of_def waiting_def)
  have "owned U m n s (\<lambda>_. []) [] {} []"
    using st t by (auto simp: owned_def sys_start_def batch_of_def np_bufs_def)
  moreover have "network A m s []"
    using st by (auto simp: network_def sys_start_def np_inv_def batch_inv_def rxq_inv_def)
  ultimately show ?thesis using c by (auto simp: sys_inv_def)
qed

section \<open>Preservation\<close>

text \<open>
  The faults that the environment can provoke: freeing a truncated datagram twice (\<open>udp_input\<close> and \<open>ip_input\<close> both free it), the exit
  that a datagram to port 6666 asks for, the panic of \<open>eth_process_send\<close> when the driver takes less than the batch it is given, and a fault of the
  work of a request.
\<close>

definition provoked :: "sys_env \<Rightarrow> fault \<Rightarrow> bool" where
  "provoked E e \<longleftrightarrow>
     e = Double_free \<and> (\<exists>pk. e_arrives E pk \<and> truncated pk) \<or>
     e = Exit_called \<and> (\<exists>pk. e_arrives E pk \<and> asks_exit pk) \<or>
     e = Panic \<and> (\<exists>bs k. e_xmit E bs k \<and> k \<noteq> int (length bs)) \<or>
     e \<in> e_faults E"

definition safe :: "sys_env \<Rightarrow> universe \<Rightarrow> nat \<Rightarrow> nat \<Rightarrow> outcome \<Rightarrow> bool" where
  "safe E U m n out = (case out of Run s \<Rightarrow> sys_inv (e_arrives E) U m n s | Crash e \<Rightarrow> provoked E e)"

lemma safe_Run [simp]: "safe E U m n (Run s) \<longleftrightarrow> sys_inv (e_arrives E) U m n s"
  and safe_Crash [simp]: "safe E U m n (Crash e) \<longleftrightarrow> provoked E e"
  by (simp_all add: safe_def)

lemma safe_step:
  assumes sz: "sized (e_cfg E) U m n" (is "sized ?cfg _ _ _") and mk: "mk_frame (e_makecontext E)" and st: "sys_step E n a b" and a: "safe E U m n a"
  shows "safe E U m n b"
  using st a
proof (induction rule: sys_step.induct)
  case (d_respond s i cur)
  then obtain dp' where "handle_response i (s_dp s) = Inr dp'" "sys_inv (e_arrives E) U m n (s\<lparr>s_dp := dp', s_dpc := D_dispatch i cur\<rparr>)"
    using step_respond [of "e_arrives E" U m n s ?cfg i cur] sz by auto
  then show ?case by simp
next
  case (d_preempt s i cur)
  then obtain dp' where "preempt_worker ?cfg i cur (s_dp s) = Inr dp'" "sys_inv (e_arrives E) U m n (s\<lparr>s_dp := dp', s_dpc := D_worker (Suc i) cur\<rparr>)"
    using step_preempt [of "e_arrives E" U m n s ?cfg i cur] sz by auto
  then show ?case by simp
next
  case (d_prepare s i cur)
  then obtain b dp' where "prepare_request ?cfg i cur (s_dp s) = Inr (b, dp')"
    "sys_inv (e_arrives E) U m n (s\<lparr>s_dp := dp', s_dpc := if b then D_publish i cur else D_worker (Suc i) cur\<rparr>)"
    using step_prepare [of "e_arrives E" U m n s ?cfg i cur] sz by auto
  then show ?case by simp
next
  case (d_publish s i cur)
  then show ?case using step_publish [of "e_arrives E" U m n s i cur] by simp
next
  case (d_net s i cur cur')
  then obtain dp' where "handle_networker cur (s_dp s) = Inr dp'" "sys_inv (e_arrives E) U m n (s\<lparr>s_dp := dp', s_dpc := D_worker 0 cur'\<rparr>)"
    using step_net [of "e_arrives E" U m n s ?cfg i cur cur'] sz by auto
  then show ?case by simp
next
  case (w_boot i s reclaim)
  then obtain w where "init_worker reclaim (length (s_txqs s ! i)) (int i + 2) (wview i s) = Inr w" "sys_inv (e_arrives E) U m n (wput i W_loop w s)"
    using step_boot [of "e_arrives E" U m n s i reclaim] by auto
  then show ?case by simp
next
  case (w_send i s xmit reclaim)
  have "sys_inv (e_arrives E) U m n s" using w_send.prems by simp
  from step_send [where X = "e_xmit E" and xmit = xmit, OF this w_send(1-3) refl, of reclaim]
  show ?case by (elim disjE exE conjE) (simp_all add: provoked_def, blast)
next
  case (w_take i s)
  then show ?case using step_take [of "e_arrives E" U m n s i] by simp
next
  case (w_new i s mach)
  then obtain w where "begin_new_packet (e_makecontext E) mach (e_main E i) (wview i s) = Inr (True, w)" "sys_inv (e_arrives E) U m n (wput i W_run w s)"
    using step_new [of "e_arrives E" U m n s "e_makecontext E" i mach "e_main E i"] mk by auto
  then show ?case by simp
next
  case (w_resume i s)
  then obtain w where "begin_context (e_main E i) (wview i s) = Inr w" "sys_inv (e_arrives E) U m n (wput i W_run w s)"
    using step_resume [of "e_arrives E" U m n s i "e_main E i"] by auto
  then show ?case by simp
next
  case (w_run i s h' ms' txqs')
  then show ?case using step_run [of "e_arrives E" U m n s i h' ms' txqs'] by simp
next
  case (w_fault i s e)
  then show ?case by (simp add: provoked_def)
next
  case (w_end i s b)
  then show ?case using step_end [of "e_arrives E" U m n s i b] by simp
next
  case (w_fill i s)
  then show ?case using step_fill [of "e_arrives E" U m n s i] by simp
next
  case (w_publish i s)
  then show ?case using step_wpublish [of "e_arrives E" U m n s i "if finished (s_tls s ! i) then FINISHED else PREEMPTED"] by simp
next
  case (n_poll s mb pk)
  then obtain ret rxq ms where "eth_recv (hd (eth_rxqs (s_rx s))) ((rx_store (s_rx s))(mb := pk)) mb = Inr (ret, rxq, ms)"
    "sys_inv (e_arrives E) U m n (s\<lparr>s_rx := (s_rx s)\<lparr>eth_rxqs := [rxq], rx_store := ms\<rparr>,
      s_live := if ret = 0 then insert mb (s_live s) else s_live s\<rparr>)"
    using step_poll [of "e_arrives E" U m n s mb pk] by auto
  then show ?case by simp
next
  case (n_recv s)
  have "sys_inv (e_arrives E) U m n s" using n_recv.prems by simp
  from step_recv [OF this sz n_recv(1)] show ?case by (elim disjE exE conjE) (simp_all add: provoked_def, blast+)
next
  case (n_stage s cy)
  then obtain np rx L where "stage_batch cy (s_nrecv s) (networker_pointers (s_dp s)) (s_rx s) = Inr (np, rx)"
    "release (newly_freed (s_rx s) rx) (s_live s) = Inr L"
    "sys_inv (e_arrives E) U m n (s\<lparr>s_dp := (s_dp s)\<lparr>networker_pointers := np\<rparr>, s_rx := rx, s_live := L, s_npc := N_publish\<rparr>)"
    using step_stage [of "e_arrives E" U m n s cy] by auto
  then show ?case by simp
next
  case (n_publish s)
  then show ?case using step_npublish [of "e_arrives E" U m n s] sz by simp
qed

section \<open>The program as an invariant machine\<close>

text \<open>What the program is run on; the laws hold for every such environment.\<close>

definition env_ok :: "sys_env \<Rightarrow> universe \<Rightarrow> nat \<Rightarrow> nat \<Rightarrow> bool" where
  "env_ok E U m n \<longleftrightarrow> sized (e_cfg E) U m n \<and> mk_frame (e_makecontext E)"

definition run_start :: "sys_env \<Rightarrow> universe \<Rightarrow> nat \<Rightarrow> nat \<Rightarrow> outcome \<Rightarrow> bool" where
  "run_start E U m n out \<longleftrightarrow> env_ok E U m n \<and> (\<exists>s. out = Run s \<and> sys_start U m n s)"

interpretation run: invariant_machine "run_start E U m n" "sys_step E n" "\<lambda>out. env_ok E U m n \<and> safe E U m n out"
  for E U m n
proof unfold_locales
  fix s
  assume "run_start E U m n s"
  then show "env_ok E U m n \<and> safe E U m n s"
    by (auto simp: run_start_def dest: start_inv)
next
  fix s t
  assume "env_ok E U m n \<and> safe E U m n s" "sys_step E n s t"
  then show "env_ok E U m n \<and> safe E U m n t"
    using safe_step by (auto simp: env_ok_def)
qed

abbreviation runs :: "sys_env \<Rightarrow> universe \<Rightarrow> nat \<Rightarrow> nat \<Rightarrow> outcome \<Rightarrow> bool" where
  "runs E U m n \<equiv> reach (run_start E U m n) (sys_step E n)"

lemma runs_safe: "runs E U m n out \<Longrightarrow> safe E U m n out"
  using run.reach_inv by blast

lemma runs_inv:
  assumes "runs E U m n (Run s)"
  shows "sys_inv (e_arrives E) U m n s" "sized (e_cfg E) U m n" "mk_frame (e_makecontext E)"
  using run.reach_inv [OF assms] by (simp_all add: env_ok_def)

section \<open>Consequences\<close>

definition busy :: "sys \<Rightarrow> nat \<Rightarrow> bool" where
  "busy s i \<longleftrightarrow> s_wpc s ! i \<in> {W_start, W_run, W_respond, W_publish}"

lemma waiting_two:
  assumes "i < n" "j < n" "i \<noteq> j"
  shows "mset (f i) + mset (f j) \<subseteq># waiting n f"
proof -
  have "waiting n f = mset (f i) + mset (f j) + (\<Sum>k\<in>{..<n} - {i} - {j}. mset (f k))"
    using assms by (simp add: waiting_def sum.remove [of "{..<n}" i] sum.remove [of "{..<n} - {i}" j])
  then show ?thesis by simp
qed

text \<open>No value occurs twice in the image of the tasks when that image is a set.\<close>

lemma task_image_distinct:
  assumes "image_mset f T \<subseteq># mset_set A" and "{#t#} + {#t'#} \<subseteq># T"
  shows "f t \<noteq> f t'"
proof
  assume eq: "f t = f t'"
  have "{#f t#} + {#f t'#} \<subseteq># mset_set A"
    using image_mset_subseteq_mono [OF assms(2), of f] assms(1) by simp
  then have "2 \<le> Multiset.count (mset_set A) (f t)"
    using eq mset_subset_eq_count [of "{#f t#} + {#f t'#}" "mset_set A" "f t"] by simp
  then show False by (simp add: count_mset_set' split: if_splits)
qed

lemma busy_request:
  assumes "sys_inv A U m n s" "i < n" "busy s i"
  shows "slot_list s i = [request_task (dispatcher_requests (s_dp s) ! i)]"
  using busy_slot(6) [OF slot_bounds(5) [OF assms(1,2)]] assms(3) by (simp add: busy_def)

lemma busy_disjoint:
  assumes inv: "sys_inv A U m n s" and ij: "i < n" "j < n" "i \<noteq> j" and b: "busy s i" "busy s j"
  shows "dr_rnbl (dispatcher_requests (s_dp s) ! i) \<noteq> dr_rnbl (dispatcher_requests (s_dp s) ! j) \<and>
    dr_mbuf (dispatcher_requests (s_dp s) ! i) \<noteq> dr_mbuf (dispatcher_requests (s_dp s) ! j)"
proof -
  let ?t = "\<lambda>k. request_task (dispatcher_requests (s_dp s) ! k)"
  obtain qs bs Lc q where own: "owned U m n s qs bs Lc q" using inv by (auto simp: sys_inv_def)
  have two: "{#?t i#} + {#?t j#} \<subseteq># tasks_of m n s qs"
    using waiting_two [OF ij, of "slot_list s"] busy_request [OF inv ij(1) b(1)] busy_request [OF inv ij(2) b(2)]
    by (simp add: tasks_of_def subset_mset.add_increasing)
  have r: "image_mset tsk_runnable (tasks_of m n s qs) \<subseteq># mset_set Lc" using own by (simp add: owned_def)
  have "image_mset tsk_mbuf (tasks_of m n s qs) \<subseteq># image_mset tsk_mbuf (tasks_of m n s qs) + mset bs +
      mset (np_bufs (networker_pointers (s_dp s))) + mset q + mset (batch_of s)" by (simp add: ac_simps)
  also have "\<dots> = mset_set (s_live s)" using own by (simp add: owned_def)
  finally have "image_mset tsk_mbuf (tasks_of m n s qs) \<subseteq># mset_set (s_live s)" .
  from task_image_distinct [OF r two] task_image_distinct [OF this two]
  show ?thesis by (simp add: request_task_def)
qed

text \<open>Which operations touch the request slots.\<close>

lemma keeps_requests:
  "free_context c dp = Inr dp' \<Longrightarrow> dispatcher_requests dp' = dispatcher_requests dp"
  "push_mbuf b dp = Inr dp' \<Longrightarrow> dispatcher_requests dp' = dispatcher_requests dp"
  "pop_mbuf dp = Inr (b, dp') \<Longrightarrow> dispatcher_requests dp' = dispatcher_requests dp"
  "alloc_context dp = Inr (co, dp') \<Longrightarrow> dispatcher_requests dp' = dispatcher_requests dp"
  "enqueue_task ty t dp = Inr dp' \<Longrightarrow> dispatcher_requests dp' = dispatcher_requests dp"
  "pick_task cfg cur dp = Inr (r, dp') \<Longrightarrow> dispatcher_requests dp' = dispatcher_requests dp"
  by (auto simp: free_context_def push_mbuf_def pop_mbuf_def alloc_context_def enqueue_task_def pick_task_def bindE_eq_Inr
      split: prod.splits if_splits)

lemma handle_response_requests: "handle_response i dp = Inr dp' \<Longrightarrow> dispatcher_requests dp' = dispatcher_requests dp"
  by (auto simp: handle_response_def handle_finished_def handle_preempted_def Let_def bindE_eq_Inr set_wr_flag_def
      set_preempt_check_def keeps_requests(1,2,5) split: if_splits)

lemma preempt_worker_requests: "preempt_worker cfg i cur dp = Inr dp' \<Longrightarrow> dispatcher_requests dp' = dispatcher_requests dp"
  by (auto simp: preempt_worker_def set_preempt_check_def Let_def split: if_splits)

lemma prepare_request_requests:
  "prepare_request cfg i cur dp = Inr (b, dp') \<Longrightarrow> j \<noteq> i \<Longrightarrow> dispatcher_requests dp' ! j = dispatcher_requests dp ! j"
  by (auto simp: prepare_request_def bindE_eq_Inr fill_request_def set_wr_flag_def Let_def keeps_requests(6) split: option.splits)

lemma intake_packet_requests: "intake_packet cur i dp = Inr dp' \<Longrightarrow> dispatcher_requests dp' = dispatcher_requests dp"
  by (auto simp: intake_packet_def bindE_eq_Inr Let_def keeps_requests(2,4,5) split: option.splits if_splits)

lemma intake_loop_requests: "intake_loop cur is dp = Inr dp' \<Longrightarrow> dispatcher_requests dp' = dispatcher_requests dp"
  by (induction "is" arbitrary: dp) (auto simp: bindE_eq_Inr dest!: intake_packet_requests)

lemma return_loop_requests: "return_loop is dp = Inr dp' \<Longrightarrow> dispatcher_requests dp' = dispatcher_requests dp"
proof (induction "is" arbitrary: dp)
  case (Cons i "is")
  from Cons.prems obtain b dp1 where p: "pop_mbuf dp = Inr (b, dp1)" by (auto simp: bindE_eq_Inr)
  show ?case
    using Cons p keeps_requests(3) [OF p] by (auto simp: Let_def split: if_splits dest!: Cons.IH)
qed simp

lemma handle_networker_requests: "handle_networker cur dp = Inr dp' \<Longrightarrow> dispatcher_requests dp' = dispatcher_requests dp"
  by (auto simp: handle_networker_def bindE_eq_Inr dest!: intake_loop_requests return_loop_requests split: if_splits)

lemma init_worker_requests: "init_worker rc nq c w = Inr w' \<Longrightarrow> dispatcher_requests (w_dp w') = dispatcher_requests (w_dp w)"
  by (auto simp: init_worker_def bindE_eq_Inr Let_def set_wr_flag_def split: if_splits)

lemma begin_new_packet_requests:
  "begin_new_packet mk mach l w = Inr (b, w') \<Longrightarrow> dispatcher_requests (w_dp w') = dispatcher_requests (w_dp w)"
  by (auto simp: begin_new_packet_def bindE_eq_Inr Let_def split: if_splits option.splits prod.splits)

lemma begin_context_requests: "begin_context l w = Inr w' \<Longrightarrow> dispatcher_requests (w_dp w') = dispatcher_requests (w_dp w)"
  by (auto simp: begin_context_def bindE_eq_Inr Let_def)

lemma outcome_of_Run:
  "outcome_of f r = Run t \<longleftrightarrow> (\<exists>x. r = Inr x \<and> t = f x)" "Run t = outcome_of f r \<longleftrightarrow> (\<exists>x. r = Inr x \<and> t = f x)"
  by (cases r; auto)+

lemma busy_flags:
  assumes "sys_inv A U m n s" "i < n" "busy s i"
  shows "wr_flag (worker_responses (s_dp s) ! i) = RUNNING" "dr_flag (dispatcher_requests (s_dp s) ! i) = WAITING"
    "s_dpc s \<noteq> D_dispatch i cur" "s_dpc s \<noteq> D_publish i cur" "s_wpc s ! i \<noteq> W_boot" "s_wpc s ! i \<noteq> W_poll"
proof -
  have b: "s_wpc s ! i \<in> {W_start, W_run, W_respond, W_publish}" using assms(3) by (simp add: busy_def)
  note bs = busy_slot [OF slot_bounds(5) [OF assms(1,2)] b]
  show "wr_flag (worker_responses (s_dp s) ! i) = RUNNING" "dr_flag (dispatcher_requests (s_dp s) ! i) = WAITING"
    "s_dpc s \<noteq> D_dispatch i cur" "s_dpc s \<noteq> D_publish i cur" by (fact bs)+
  show "s_wpc s ! i \<noteq> W_boot" "s_wpc s ! i \<noteq> W_poll" using b by auto
qed

lemma request_stable_step:
  assumes st: "sys_step E n a b" and "a = Run s" "b = Run t" and inv: "sys_inv A U m n s" and i: "i < n" and bu: "busy s i"
  shows "dispatcher_requests (s_dp t) ! i = dispatcher_requests (s_dp s) ! i"
  using st assms(2,3)
proof (cases rule: sys_step.cases)
  case (d_prepare s0 k cur)
  then have "k \<noteq> i" using busy_flags(3) [OF inv i bu] assms(2) by auto
  then show ?thesis using d_prepare assms(2,3) by (auto simp: outcome_of_Run dest!: prepare_request_requests [of _ _ _ _ _ _ i])
next
  case (d_publish s0 k cur)
  then have "k \<noteq> i" using busy_flags(4) [OF inv i bu] assms(2) by auto
  then show ?thesis using d_publish assms(2,3) by (auto simp: set_dr_flag_def)
next
  case (w_take k s0)
  then have "k \<noteq> i" using busy_flags(6) [OF inv i bu] assms(2) by auto
  then show ?thesis using w_take assms(2,3) by (auto simp: set_dr_flag_def)
next
  case (w_fill k s0)
  then show ?thesis using assms(2,3) by (auto simp: wput_def wview_def fill_response_def Let_def)
next
  case (n_recv s0)
  then show ?thesis using assms(2,3) by (auto simp: outcome_of_Run split: prod.splits)
qed (use assms(2,3) in \<open>auto simp: outcome_of_Run wput_def wview_def set_wr_flag_def
    dest!: handle_response_requests preempt_worker_requests handle_networker_requests init_worker_requests
      begin_new_packet_requests begin_context_requests\<close>)

end
