(* ===== verification/System_Run.thy ===== *)
theory System_Run
  imports System_Safe
begin

text \<open>
  An executable scheduler for the threads of \<open>System\<close>: a list of choices (which thread moves
  next, which packet arrives) determines a run.  Every run it produces is a run of
  \<open>sys_step\<close>; a concrete one, in which two workers serve two packets at the same time, shows
  that the results about reachable states speak about states that are reached.
\<close>

section \<open>Scheduler\<close>

datatype label = Dispatch u64 | Work nat bool | Poll addr mbuf | Net u64

definition sample_machine :: machine where
  "sample_machine = \<lparr>rax = 0, rbx = 0, rbp = 0, r12 = 0, r13 = 0, r14 = 0, r15 = 0, rdi = 0, rsi = 0, rdx = 0, rcx = 0, r8 = 0,
     r9 = 0, rsp = 0x7000, rip = 0, x87 = \<lparr>fe_0 = 0, fe_1 = 0, fe_2 = 0, fe_3 = 0\<rparr>, mxcsr = 0, ctxmem = (\<lambda>_ _. 0), stk = (\<lambda>_. 0)\<rparr>"

definition no_makecontext :: "addr \<Rightarrow> u32 list \<Rightarrow> heap \<Rightarrow> heap" where
  "no_makecontext c args h = h"

definition sample_main :: "nat \<Rightarrow> addr" where
  "sample_main i = 0x70000 + of_nat i"

text \<open>An environment in which any packet may arrive and the driver takes every batch.\<close>

definition sample_world :: sys_env where
  "sample_world = \<lparr>e_cfg = sample_cfg, e_makecontext = no_makecontext, e_main = sample_main, e_arrives = (\<lambda>_. True),
     e_xmit = (\<lambda>bs k. k = int (length bs)), e_faults = {}\<rparr>"

definition dispatch_step :: "nat \<Rightarrow> u64 \<Rightarrow> sys \<Rightarrow> outcome" where
  "dispatch_step n cur' s =
     (case s_dpc s of
        D_worker i cur \<Rightarrow>
          if i < n then
            if wr_flag (worker_responses (s_dp s) ! i) \<noteq> RUNNING
            then outcome_of (\<lambda>dp. s\<lparr>s_dp := dp, s_dpc := D_dispatch i cur\<rparr>) (handle_response i (s_dp s))
            else outcome_of (\<lambda>dp. s\<lparr>s_dp := dp, s_dpc := D_worker (Suc i) cur\<rparr>) (preempt_worker sample_cfg i cur (s_dp s))
          else outcome_of (\<lambda>dp. s\<lparr>s_dp := dp, s_dpc := D_worker 0 cur'\<rparr>) (handle_networker cur (s_dp s))
      | D_dispatch i cur \<Rightarrow>
          outcome_of (\<lambda>r. s\<lparr>s_dp := snd r, s_dpc := if fst r then D_publish i cur else D_worker (Suc i) cur\<rparr>)
            (prepare_request sample_cfg i cur (s_dp s))
      | D_publish i cur \<Rightarrow> Run (s\<lparr>s_dp := set_dr_flag i ACTIVE (s_dp s), s_dpc := D_worker (Suc i) cur\<rparr>))"

definition work_step :: "nat \<Rightarrow> bool \<Rightarrow> sys \<Rightarrow> outcome option" where
  "work_step i b s =
     (case s_wpc s ! i of
        W_boot \<Rightarrow> Some (outcome_of (\<lambda>w. wput i W_loop w s) (init_worker (\<lambda>_. 64) (length (s_txqs s ! i)) (int i + 2) (wview i s)))
      | W_loop \<Rightarrow>
          Some (outcome_of (\<lambda>txqs. s\<lparr>s_txqs := (s_txqs s)[i := txqs], s_wpc := (s_wpc s)[i := W_poll]\<rparr>)
            (bindE (eth_process_reclaim (\<lambda>_. 64) [0..<length (s_txqs s ! i)] (s_txqs s ! i))
               (eth_process_send (\<lambda>_ bs. int (length bs)) [0..<length (s_txqs s ! i)])))
      | W_poll \<Rightarrow>
          if dr_flag (dispatcher_requests (s_dp s) ! i) \<noteq> WAITING
          then Some (Run (s\<lparr>s_dp := set_dr_flag i WAITING (s_dp s), s_wpc := (s_wpc s)[i := W_start]\<rparr>)) else None
      | W_start \<Rightarrow>
          if dr_category (dispatcher_requests (s_dp s) ! i) = PACKET
          then Some (outcome_of (\<lambda>r. wput i (if fst r then W_run else W_respond) (snd r) s)
                 (begin_new_packet no_makecontext sample_machine (sample_main i) (wview i s)))
          else Some (outcome_of (\<lambda>w. wput i W_run w s) (begin_context (sample_main i) (wview i s)))
      | W_run \<Rightarrow> Some (Run (s\<lparr>s_tls := (s_tls s)[i := (s_tls s ! i)\<lparr>finished := b\<rparr>], s_wpc := (s_wpc s)[i := W_respond]\<rparr>))
      | W_respond \<Rightarrow> Some (Run (wput i W_publish (fill_response (wview i s)) s))
      | W_publish \<Rightarrow>
          Some (Run (s\<lparr>s_dp := set_wr_flag i (if finished (s_tls s ! i) then FINISHED else PREEMPTED) (s_dp s),
                       s_wpc := (s_wpc s)[i := W_loop]\<rparr>)))"

definition net_step_of :: "u64 \<Rightarrow> sys \<Rightarrow> outcome option" where
  "net_step_of cy s =
     (case s_npc s of
        N_recv \<Rightarrow>
          Some (outcome_of (\<lambda>(k, rx, L). s\<lparr>s_rx := rx, s_nrecv := k, s_live := L, s_npc := if k = 0 then N_recv else N_wait\<rparr>)
            (bindE (eth_process_recv sample_cfg 1 (s_rx s)) (\<lambda>(k, rx).
             bindE (release (newly_freed (s_rx s) rx) (s_live s)) (\<lambda>L. Inr (k, rx, L)))))
      | N_wait \<Rightarrow>
          if np_cnt (networker_pointers (s_dp s)) = 0
          then Some (outcome_of (\<lambda>(np, rx, L). s\<lparr>s_dp := (s_dp s)\<lparr>networker_pointers := np\<rparr>, s_rx := rx, s_live := L, s_npc := N_publish\<rparr>)
            (bindE (stage_batch cy (s_nrecv s) (networker_pointers (s_dp s)) (s_rx s)) (\<lambda>(np, rx).
             bindE (release (newly_freed (s_rx s) rx) (s_live s)) (\<lambda>L. Inr (np, rx, L))))) else None
      | N_publish \<Rightarrow>
          Some (Run (s\<lparr>s_dp := (s_dp s)\<lparr>networker_pointers := (networker_pointers (s_dp s))\<lparr>np_cnt := of_nat (s_nrecv s)\<rparr>\<rparr>,
                       s_npc := N_recv\<rparr>)))"

definition poll_step :: "addr \<Rightarrow> mbuf \<Rightarrow> sys \<Rightarrow> outcome option" where
  "poll_step m pk s =
     (if s_npc s = N_recv \<and> m \<notin> s_live s \<and> m \<noteq> NULL
      then Some (outcome_of (\<lambda>(ret, rxq, ms). s\<lparr>s_rx := (s_rx s)\<lparr>eth_rxqs := [rxq], rx_store := ms\<rparr>,
                   s_live := if ret = 0 then insert m (s_live s) else s_live s\<rparr>)
             (eth_recv (hd (eth_rxqs (s_rx s))) ((rx_store (s_rx s))(m := pk)) m))
      else None)"

fun do_step :: "nat \<Rightarrow> label \<Rightarrow> sys \<Rightarrow> outcome option" where
  "do_step n (Dispatch cur') s = Some (dispatch_step n cur' s)"
| "do_step n (Work i b) s = (if i < n then work_step i b s else None)"
| "do_step n (Poll m pk) s = poll_step m pk s"
| "do_step n (Net cy) s = net_step_of cy s"

fun exec :: "nat \<Rightarrow> label list \<Rightarrow> outcome \<Rightarrow> outcome option" where
  "exec n [] out = Some out"
| "exec n (l # ls) (Run s) = (case do_step n l s of None \<Rightarrow> None | Some out \<Rightarrow> exec n ls out)"
| "exec n (l # ls) (Crash e) = None"

section \<open>Soundness\<close>

lemma world_simps [simp]: "e_cfg sample_world = sample_cfg" "e_makecontext sample_world = no_makecontext" "e_main sample_world = sample_main"
    "e_arrives sample_world pk" "e_xmit sample_world bs k \<longleftrightarrow> k = int (length bs)" "e_faults sample_world = {}"
  by (simp_all add: sample_world_def)

lemma do_step_sound:
  assumes "do_step n l s = Some out"
  shows "sys_step sample_world n (Run s) out"
proof (cases l)
  case (Dispatch cur')
  with assms show ?thesis
    using sys_step.d_respond [where E = sample_world] sys_step.d_preempt [where E = sample_world] sys_step.d_net [where E = sample_world]
      sys_step.d_prepare [where E = sample_world] sys_step.d_publish [where E = sample_world]
    by (auto simp: dispatch_step_def split: dpc.splits if_splits)
next
  case (Work i b)
  with assms have i: "i < n" and st: "work_step i b s = Some out" by (auto split: if_splits)
  note ws = sys_step.w_boot [where E = sample_world, OF i] sys_step.w_take [where E = sample_world, OF i]
    sys_step.w_new [where E = sample_world, OF i] sys_step.w_resume [where E = sample_world, OF i] sys_step.w_end [where E = sample_world, OF i]
    sys_step.w_fill [where E = sample_world, OF i] sys_step.w_publish [where E = sample_world, OF i]
    sys_step.w_send [where E = sample_world and xmit = "\<lambda>_ bs. int (length bs)", OF i]
  show ?thesis
    using st unfolding work_step_def
    by (cases "s_wpc s ! i"; cases "dr_flag (dispatcher_requests (s_dp s) ! i) = WAITING";
        cases "dr_category (dispatcher_requests (s_dp s) ! i) = PACKET")
      (simp_all split del: if_split, auto intro: ws [simplified] split del: if_split)
next
  case (Poll m pk)
  have g: "s_npc s = N_recv" "m \<notin> s_live s" "m \<noteq> NULL"
    and eq: "out = outcome_of (\<lambda>(ret, rxq, ms). s\<lparr>s_rx := (s_rx s)\<lparr>eth_rxqs := [rxq], rx_store := ms\<rparr>,
          s_live := if ret = 0 then insert m (s_live s) else s_live s\<rparr>)
        (eth_recv (hd (eth_rxqs (s_rx s))) ((rx_store (s_rx s))(m := pk)) m)"
    using Poll assms by (simp_all add: poll_step_def split: if_split_asm)
  show ?thesis unfolding eq by (rule sys_step.n_poll) (use g in simp_all)
next
  case (Net cy)
  with assms have st: "net_step_of cy s = Some out" by simp
  have out: "out = the (net_step_of cy s)" by (simp only: st option.sel)
  show ?thesis
  proof (cases "s_npc s")
    case N_recv
    show ?thesis unfolding out net_step_of_def N_recv npc.case option.sel
      using sys_step.n_recv [where E = sample_world, OF N_recv] by simp
  next
    case N_wait
    then have c: "np_cnt (networker_pointers (s_dp s)) = 0" using st by (simp add: net_step_of_def split: if_split_asm)
    show ?thesis unfolding out net_step_of_def N_wait npc.case c simp_thms if_True option.sel
      by (rule sys_step.n_stage) (fact N_wait c)+
  next
    case N_publish
    show ?thesis unfolding out net_step_of_def N_publish npc.case option.sel by (rule sys_step.n_publish) (fact N_publish)
  qed
qed

lemma exec_sound:
  "exec n ls out = Some out' \<Longrightarrow> runs sample_world U m n out \<Longrightarrow> runs sample_world U m n out'"
proof (induction ls arbitrary: out)
  case (Cons l ls)
  then obtain s o1 where "out = Run s" "do_step n l s = Some o1" "exec n ls o1 = Some out'"
    by (cases out) (auto split: option.splits)
  then show ?case using Cons.IH Cons.prems(2) do_step_sound reach.reach_step by metis
qed simp

section \<open>A concrete start\<close>

text \<open>A UDP datagram with a payload of 16 bytes to port 8000.\<close>

definition sample_bytes :: bytes where
  "sample_bytes i = (if i = 12 then 0x08 else if i = 14 then 0x45 else if i = 17 then 44 else if i = 23 then 17
     else if i = 36 then 0x1F else if i = 37 then 0x40 else if i = 39 then 24 else 0)"

definition sample_packet :: mbuf where
  "sample_packet = \<lparr>mb_len = 58, mb_next = NULL, mb_iovs = NULL, mb_nr_iov = 0, mb_fg_id = 0, mb_ol_flags = 0, mb_done = NULL,
     mb_done_data = 0, mb_timestamp = 90, mb_networker_cy = 0, mb_data = sample_bytes\<rparr>"

definition sample_tls :: worker_tls where
  "sample_tls = \<lparr>cont = NULL, my_cpu_nr = 0, finished = False, tls_networker_cy = 0, tls_dispatcher_cy = 0\<rparr>"

definition sample_sys :: sys where
  "sample_sys = \<lparr>s_dp = idle_dp,
     s_rx = \<lparr>eth_rxqs = [\<lparr>rq_head = NULL, rq_tail = NULL, rq_len = 0\<rparr>], rx_store = (\<lambda>_. sample_packet), recv_mbufs = replicate 6 NULL,
             recv_type = replicate 6 0, rx_freed = []\<rparr>,
     s_tls = [sample_tls, sample_tls], s_wpc = [W_boot, W_boot], s_dpc = D_worker 0 100, s_npc = N_recv, s_nrecv = 0, s_live = {},
     s_txqs = [[\<lparr>tx_cap = 64, tx_len = 0, tx_bufs = [NULL, NULL]\<rparr>], [\<lparr>tx_cap = 64, tx_len = 0, tx_bufs = [NULL, NULL]\<rparr>]]\<rparr>"

lemma sample_runs: "runs sample_world sample_universe 1 2 (Run sample_sys)"
proof -
  have "sys_start sample_universe 1 2 sample_sys"
    using idle_rep by (auto simp: sys_start_def shape_def sample_sys_def idle_dp_def idle_response_def idle_request_def MAX_WORKERS_def
        ETH_RX_MAX_BATCH_def rxq_rep_def less_2_cases_iff txqs_ok_def)
  moreover have "env_ok sample_world sample_universe 1 2"
    by (simp add: env_ok_def sized_def sample_universe_def ctx_capacity_def sample_cfg_def ETH_RX_MAX_BATCH_def mk_frame_def no_makecontext_def)
  ultimately show ?thesis by (auto simp: run_start_def intro!: reach.reach_start)
qed

section \<open>Two requests at the same time\<close>

lemma exec_trans: "exec n ls out = Some out' \<Longrightarrow> exec n ls' out' = r \<Longrightarrow> exec n (ls @ ls') out = r"
proof (induction ls arbitrary: out)
  case (Cons l ls)
  then show ?case by (cases out) (auto split: option.splits)
qed simp

definition ready :: worker_response where
  "ready = idle_response\<lparr>wr_flag := PROCESSED\<rparr>"

definition ready_dp :: dp_state where
  "ready_dp = idle_dp\<lparr>worker_responses := [ready, ready] @ replicate 22 idle_response\<rparr>"

definition ready_sys :: sys where
  "ready_sys = sample_sys\<lparr>s_dp := ready_dp, s_tls := [sample_tls, sample_tls\<lparr>my_cpu_nr := 1\<rparr>], s_wpc := [W_poll, W_poll]\<rparr>"

lemma replicate_6: "replicate 6 x = [x, x, x, x, x, x]" and replicate_2: "replicate 2 x = [x, x]"
  by (simp_all add: numeral_eq_Suc)

lemma boot_run: "exec 2 [Work 0 False, Work 1 False, Work 0 False, Work 1 False] (Run sample_sys) = Some (Run ready_sys)"
proof -
  have wr: "worker_responses idle_dp = idle_response # idle_response # replicate 22 idle_response"
    by (simp add: idle_dp_def MAX_WORKERS_def numeral_eq_Suc)
  show ?thesis
    by (simp add: work_step_def sample_sys_def init_worker_def wview_def wput_def set_wr_flag_def wr ready_def sample_tls_def Let_def
        ready_sys_def ready_dp_def upt_rec)
qed

text \<open>Two packets arrive, are received as a batch, and the batch is handed over.\<close>

definition two_links :: mstore where
  "two_links = (\<lambda>_. sample_packet)(0x20000 := sample_packet\<lparr>mb_next := 0x30000\<rparr>)"

definition two_stamped :: mstore where
  "two_stamped = two_links(0x20000 := sample_packet\<lparr>mb_next := 0x30000, mb_networker_cy := 7\<rparr>, 0x30000 := sample_packet\<lparr>mb_networker_cy := 7\<rparr>)"

definition arrived_rx :: "mstore \<Rightarrow> rx_state" where
  "arrived_rx ms = \<lparr>eth_rxqs = [\<lparr>rq_head = NULL, rq_tail = 0x30000, rq_len = 0\<rparr>], rx_store = ms, recv_mbufs = [0x20000, 0x30000, 0, 0, 0, 0],
     recv_type = [0, 0, 0, 0, 0, 0], rx_freed = []\<rparr>"

definition batch_np :: "u8 \<Rightarrow> networker_pointers_t" where
  "batch_np k = \<lparr>np_cnt = k, np_free_cnt = 0, np_types = [0, 0, 0, 0, 0, 0], np_pkts = [0x20000, 0x30000, 0, 0, 0, 0]\<rparr>"

definition offered_sys :: sys where
  "offered_sys = ready_sys\<lparr>s_dp := ready_dp\<lparr>networker_pointers := batch_np 2\<rparr>, s_rx := arrived_rx two_stamped, s_nrecv := 2,
     s_live := {0x20000, 0x30000}\<rparr>"

lemma sample_next: "mb_next sample_packet = NULL"
  by (simp add: sample_packet_def)

lemma sample_accepted: "eth_input sample_cfg sample_packet = Inr \<lparr>rx_ret = 0, rx_frees = 0\<rparr>"
  "eth_input sample_cfg (sample_packet\<lparr>mb_next := p\<rparr>) = Inr \<lparr>rx_ret = 0, rx_frees = 0\<rparr>"
proof -
  show a: "eth_input sample_cfg sample_packet = Inr \<lparr>rx_ret = 0, rx_frees = 0\<rparr>" by code_simp
  show "eth_input sample_cfg (sample_packet\<lparr>mb_next := p\<rparr>) = Inr \<lparr>rx_ret = 0, rx_frees = 0\<rparr>"
    using same_rx_input(4) [of "sample_packet\<lparr>mb_next := p\<rparr>" sample_packet sample_cfg] a by (simp add: same_rx_def)
qed

lemma offer_run:
  "exec 2 [Poll 0x20000 sample_packet, Poll 0x30000 sample_packet, Net 7, Net 7, Net 7] (Run ready_sys) = Some (Run offered_sys)"
proof -
  define s2 where "s2 = ready_sys\<lparr>s_rx := (s_rx ready_sys)\<lparr>eth_rxqs := [\<lparr>rq_head = 0x20000, rq_tail = 0x30000, rq_len = 2\<rparr>], rx_store := two_links\<rparr>,
    s_live := {0x20000, 0x30000}\<rparr>"
  define s3 where "s3 = s2\<lparr>s_rx := arrived_rx two_links, s_nrecv := 2, s_npc := N_wait\<rparr>"
  have 1: "exec 2 [Poll 0x20000 sample_packet, Poll 0x30000 sample_packet] (Run ready_sys) = Some (Run s2)"
    by (simp add: poll_step_def ready_sys_def sample_sys_def eth_recv_def set_mb_next_def ETH_RX_MAX_DEPTH_def s2_def two_links_def sample_packet_def
       insert_commute fun_eq_iff)
  have 2: "do_step 2 (Net 7) s2 = Some (Run s3)"
    by (simp add: net_step_of_def s2_def s3_def ready_sys_def sample_sys_def eth_process_recv_def recv_loop.simps [of sample_cfg "Suc 0"] eth_process_recv_queue_def rx_pop_def
       two_links_def sample_accepted replicate_6 newly_freed_def arrived_rx_def EAGAIN_def ETH_RX_MAX_BATCH_def sample_next)
  have 3: "exec 2 [Net 7, Net 7] (Run s3) = Some (Run offered_sys)"
    by (simp add: net_step_of_def s3_def s2_def ready_sys_def ready_dp_def sample_sys_def offered_sys_def idle_dp_def stage_batch_def free_returned_def batch_np_def arrived_rx_def
      newly_freed_def replicate_6 upt_rec two_links_def two_stamped_def Let_def)
  have "exec 2 (Net 7 # [Net 7, Net 7]) (Run s2) = Some (Run offered_sys)" using exec_trans [of 2 "[Net 7]" "Run s2", OF _ 3] 2 by simp
  from exec_trans [OF 1 this] show ?thesis by simp
qed

text \<open>The dispatcher finds both workers idle and nothing to do, then takes the batch.\<close>

lemma idle_links:
  "d_heap idle_dp 0x100 HDR_NEXT = 0x140" "d_heap idle_dp 0x140 HDR_NEXT = 0x180"
  "d_heap idle_dp 0x1000 HDR_NEXT = 0x1400" "d_heap idle_dp 0x1400 HDR_NEXT = 0x1800"
  "d_heap idle_dp 0x8000 HDR_NEXT = 0x9000" "d_heap idle_dp 0x9000 HDR_NEXT = 0xA000"
  by (simp_all add: idle_dp_def stores_def links_def mcells_def hwrite_def)

lemma idle_pools: "task_mempool idle_dp = sample_pool 0x100 3" "context_pool idle_dp = sample_pool 0x1000 3" "stack_pool idle_dp = sample_pool 0x8000 3"
  "mqueue idle_dp = NULL" "tskq idle_dp = [\<lparr>tq_head = NULL, tq_tail = NULL\<rparr>]"
  by (simp_all add: idle_dp_def)

lemma sample_pool_alloc: "a \<noteq> NULL \<Longrightarrow> pool_alloc h (sample_pool a k) = Inr (a, sample_pool (h a HDR_NEXT) (k - 1))"
  by (simp add: pool_alloc_def mempool_alloc_def sample_pool_def)

lemma sample_pool_free: "k < 8 \<Longrightarrow> x \<noteq> NULL \<Longrightarrow> pool_free h (sample_pool a k) x = Inr (hwrite h x HDR_NEXT a, sample_pool x (k + 1))"
  by (simp add: pool_free_def mempool_free_def sample_pool_def)

definition taken_heap :: heap where
  "taken_heap = (d_heap idle_dp)
     (0x1000 := (d_heap idle_dp 0x1000)(UC_SS_SP := 0x8000, UC_SS_SIZE := 8), 0x1400 := (d_heap idle_dp 0x1400)(UC_SS_SP := 0x9000, UC_SS_SIZE := 8),
      0x100 := (d_heap idle_dp 0x100)(TASK_RUNNABLE := 0x1000, TASK_MBUF := 0x20000, TASK_TYPE := 0, TASK_CATEGORY := 1, TASK_TIMESTAMP := 100, TASK_NEXT := 0x140),
      0x140 := (d_heap idle_dp 0x140)(TASK_RUNNABLE := 0x1400, TASK_MBUF := 0x30000, TASK_TYPE := 0, TASK_CATEGORY := 1, TASK_TIMESTAMP := 100, TASK_NEXT := 0))"

definition taken_dp :: dp_state where
  "taken_dp = ready_dp\<lparr>d_heap := taken_heap, context_pool := sample_pool 0x1800 1, stack_pool := sample_pool 0xA000 1,
     task_mempool := sample_pool 0x180 1, tskq := [\<lparr>tq_head = 0x100, tq_tail = 0x140\<rparr>], networker_pointers := batch_np 0\<rparr>"

definition taken_sys :: sys where
  "taken_sys = offered_sys\<lparr>s_dp := taken_dp, s_dpc := D_worker 0 20100\<rparr>"

lemma ready_flags: "wr_flag (worker_responses ready_dp ! 0) = PROCESSED" "wr_flag (worker_responses ready_dp ! 1) = PROCESSED"
  "wr_flag (worker_responses ready_dp ! Suc 0) = PROCESSED"
  by (simp_all add: ready_dp_def ready_def)

lemma take_run: "exec 2 [Dispatch 0, Dispatch 0, Dispatch 0, Dispatch 0, Dispatch 20100] (Run offered_sys) = Some (Run taken_sys)"
proof -
  let ?dp = "ready_dp\<lparr>networker_pointers := batch_np 2\<rparr>"
  have dp: "d_heap ready_dp = d_heap idle_dp" "task_mempool ready_dp = sample_pool 0x100 3" "context_pool ready_dp = sample_pool 0x1000 3"
   "stack_pool ready_dp = sample_pool 0x8000 3" "mqueue ready_dp = NULL" "tskq ready_dp = [\<lparr>tq_head = NULL, tq_tail = NULL\<rparr>]"
    by (simp_all add: ready_dp_def idle_pools)
  have 1: "handle_networker 100 ?dp = Inr taken_dp"
    using idle_links
    by (simp add: handle_networker_def batch_np_def dp intake_packet_def alloc_context_def context_alloc_def sample_pool_alloc upt_rec hwrite_def
       enqueue_task_def tskq_enqueue_tail_def task_store_def pop_mbuf_def mbuf_dequeue_def ETH_RX_MAX_BATCH_def Let_def taken_dp_def taken_heap_def PACKET_def)
  have 2: "prepare_request sample_cfg i 100 ?dp = Inr (False, ?dp)" for i
    by (simp add: prepare_request_def pick_task_def smart_tskq_dequeue_def smart_scan_def smart_step_def get_queue_timestamp_def dp sample_cfg_def)
  show ?thesis
    by (simp add: dispatch_step_def offered_sys_def ready_sys_def sample_sys_def ready_flags flag_defs handle_response_def 1 2 taken_sys_def)
qed

text \<open>It gives one task to each worker, and both workers take theirs.\<close>

definition asked :: "u64 \<Rightarrow> addr \<Rightarrow> addr \<Rightarrow> dispatcher_request" where
  "asked v c b = \<lparr>dr_flag = v, dr_rnbl = c, dr_mbuf = b, dr_type = 0, dr_category = PACKET, dr_timestamp = 100, dr_dispatcher_cy = 20000\<rparr>"

definition given_heap :: heap where
  "given_heap = hwrite (hwrite taken_heap 0x100 HDR_NEXT 0x180) 0x140 HDR_NEXT 0x100"

definition two_dp :: dp_state where
  "two_dp = taken_dp\<lparr>d_heap := given_heap, task_mempool := sample_pool 0x140 3, tskq := [\<lparr>tq_head = NULL, tq_tail = NULL\<rparr>],
     worker_responses := [idle_response, idle_response] @ replicate 22 idle_response,
     dispatcher_requests := [asked WAITING 0x1000 0x20000, asked WAITING 0x1400 0x30000] @ replicate 22 idle_request,
     timestamps := [20100, 20100] @ replicate 22 0, preempt_check := [True, True] @ replicate 22 False\<rparr>"

definition two_sys :: sys where
  "two_sys = taken_sys\<lparr>s_dp := two_dp, s_dpc := D_worker 2 20100, s_wpc := [W_start, W_start]\<rparr>"

lemma sample_score: "fl_gt (queue_score sample_cfg 0 20100 100) (Fin 0)"
proof -
  have "rnd 24 20000 = 20000" "rnd 24 40 = 40" using rnd_int_exact [of 20000 24] rnd_int_exact [of 40 24] by simp_all
  then show ?thesis by (simp add: queue_score_def sample_cfg_def fl_div_def)
qed

lemma give_run: "exec 2 [Dispatch 0, Dispatch 0, Dispatch 0, Dispatch 0, Dispatch 0, Dispatch 0, Work 0 False, Work 1 False] (Run taken_sys) = Some (Run two_sys)"
proof -
  define t where "t = (\<lambda>c b. \<lparr>tsk_runnable = c, tsk_mbuf = b, tsk_type = 0, tsk_category = PACKET, tsk_timestamp = 100\<rparr>)"
  define dp1 where "dp1 = taken_dp\<lparr>d_heap := hwrite taken_heap 0x100 HDR_NEXT 0x180, task_mempool := sample_pool 0x100 2, tskq := [\<lparr>tq_head = 0x140, tq_tail = 0x140\<rparr>]\<rparr>"
  have t0: "tskq taken_dp = [\<lparr>tq_head = 0x100, tq_tail = 0x140\<rparr>]" "d_heap taken_dp = taken_heap" "task_mempool taken_dp = sample_pool 0x180 1"
    by (simp_all add: taken_dp_def)
  have 1: "pick_task sample_cfg 20100 taken_dp = Inr (Some (t 0x1000 0x20000), dp1)"
    using sample_score
    by (simp add: pick_task_def smart_tskq_dequeue_def smart_scan_def smart_step_def get_queue_timestamp_def t0 taken_heap_def sample_cfg_def
      tskq_dequeue_def sample_pool_free task_load_def t_def dp1_def PACKET_def Let_def)
  define dp2 where "dp2 = fill_request 0 (t 0x1000 0x20000) 20100 dp1"
  define dp3 where "dp3 = set_dr_flag 0 ACTIVE dp2"
  define dp4 where "dp4 = dp3\<lparr>d_heap := given_heap, task_mempool := sample_pool 0x140 3, tskq := [\<lparr>tq_head = NULL, tq_tail = NULL\<rparr>]\<rparr>"
  define dp5 where "dp5 = set_dr_flag 1 ACTIVE (fill_request 1 (t 0x1400 0x30000) 20100 dp4)"
  have t1: "tskq dp3 = [\<lparr>tq_head = 0x140, tq_tail = 0x140\<rparr>]" "d_heap dp3 = hwrite taken_heap 0x100 HDR_NEXT 0x180" "task_mempool dp3 = sample_pool 0x100 2"
    by (simp_all add: dp3_def dp2_def dp1_def set_dr_flag_def set_wr_flag_def fill_request_def Let_def)
  have 2: "pick_task sample_cfg 20100 dp3 = Inr (Some (t 0x1400 0x30000), dp4)"
    using sample_score
    by (simp add: pick_task_def smart_tskq_dequeue_def smart_scan_def smart_step_def get_queue_timestamp_def t1 taken_heap_def given_heap_def sample_cfg_def
      tskq_dequeue_def sample_pool_free task_load_def t_def dp4_def PACKET_def hwrite_def Let_def)
  have fl: "wr_flag (worker_responses taken_dp ! 0) = PROCESSED" "wr_flag (worker_responses dp3 ! 1) = PROCESSED"
    using ready_flags by (simp_all add: taken_dp_def dp3_def dp2_def dp1_def set_dr_flag_def set_wr_flag_def fill_request_def Let_def)
  define s1 where "s1 = taken_sys\<lparr>s_dp := dp3, s_dpc := D_worker 1 20100\<rparr>"
  define s2 where "s2 = taken_sys\<lparr>s_dp := dp5, s_dpc := D_worker 2 20100\<rparr>"
  have a: "exec 2 [Dispatch 0, Dispatch 0, Dispatch 0] (Run taken_sys) = Some (Run s1)"
    using fl(1) by (simp add: dispatch_step_def taken_sys_def handle_response_def flag_defs prepare_request_def 1 s1_def dp3_def dp2_def)
  have b: "exec 2 [Dispatch 0, Dispatch 0, Dispatch 0] (Run s1) = Some (Run s2)"
    using fl(2) by (simp add: dispatch_step_def s1_def handle_response_def flag_defs prepare_request_def 2 s2_def dp5_def)
  have lists: "worker_responses idle_dp = idle_response # idle_response # replicate 22 idle_response"
    "dispatcher_requests idle_dp = idle_request # idle_request # replicate 22 idle_request" "timestamps idle_dp = 0 # 0 # replicate 22 0"
    "preempt_check idle_dp = False # False # replicate 22 False"
    by (simp_all add: idle_dp_def MAX_WORKERS_def numeral_eq_Suc)
  have dp5: "dp5 = two_dp\<lparr>dispatcher_requests := [asked ACTIVE 0x1000 0x20000, asked ACTIVE 0x1400 0x30000] @ replicate 22 idle_request\<rparr>"
    by (simp add: dp5_def dp4_def dp3_def dp2_def dp1_def taken_dp_def ready_dp_def two_dp_def fill_request_def set_dr_flag_def set_wr_flag_def lists t_def asked_def
        ready_def idle_response_def idle_request_def Let_def)
  have c: "exec 2 [Work 0 False, Work 1 False] (Run s2) = Some (Run two_sys)"
    by (simp add: work_step_def s2_def dp5 two_sys_def set_dr_flag_def asked_def flag_defs taken_sys_def offered_sys_def ready_sys_def two_dp_def)
  show ?thesis using exec_trans [OF a exec_trans [OF b c]] by simp
qed

definition two_labels :: "label list" where
  "two_labels = [Work 0 False, Work 1 False, Work 0 False, Work 1 False] @
     [Poll 0x20000 sample_packet, Poll 0x30000 sample_packet, Net 7, Net 7, Net 7] @
     [Dispatch 0, Dispatch 0, Dispatch 0, Dispatch 0, Dispatch 20100] @
     [Dispatch 0, Dispatch 0, Dispatch 0, Dispatch 0, Dispatch 0, Dispatch 0, Work 0 False, Work 1 False]"

lemma two_run: "exec 2 two_labels (Run sample_sys) = Some (Run two_sys)"
  unfolding two_labels_def by (rule exec_trans [OF boot_run exec_trans [OF offer_run exec_trans [OF take_run give_run]]])

text \<open>The other end of a run: a datagram that claims more bytes than it has is freed twice.\<close>

definition short_packet :: mbuf where
  "short_packet = sample_packet\<lparr>mb_data := sample_bytes(39 := 25)\<rparr>"

lemma truncated_run: "exec 2 [Poll 0x20000 short_packet, Net 7] (Run sample_sys) = Some (Crash Double_free)"
proof -
  have e: "eth_input sample_cfg short_packet = Inr \<lparr>rx_ret = -1, rx_frees = 2\<rparr>" by code_simp
  have n: "short_packet\<lparr>mb_next := NULL\<rparr> = short_packet" by (simp add: short_packet_def sample_packet_def)
  show ?thesis
    by (simp add: poll_step_def net_step_of_def sample_sys_def eth_recv_def set_mb_next_def ETH_RX_MAX_DEPTH_def eth_process_recv_def
        recv_loop.simps [of sample_cfg "Suc 0"] eth_process_recv_queue_def rx_pop_def e n newly_freed_def replicate_2)
qed

section \<open>Properties of the whole program\<close>



text \<open>
  C2: In every reachable state, two workers that serve requests at the same time share neither a context, hence no stack, nor a packet
  buffer, and the buffer each of them works on has not been returned to the pool.
\<close>

theorem workers_disjoint:
  assumes "runs E U m n (Run s)" and "i < n" "j < n" "i \<noteq> j" and "busy s i" "busy s j"
  shows "dr_rnbl (dispatcher_requests (s_dp s) ! i) \<noteq> dr_rnbl (dispatcher_requests (s_dp s) ! j) \<and>
    dr_mbuf (dispatcher_requests (s_dp s) ! i) \<noteq> dr_mbuf (dispatcher_requests (s_dp s) ! j) \<and>
    dr_mbuf (dispatcher_requests (s_dp s) ! i) \<in> s_live s"
proof -
  note inv = runs_inv(1) [OF assms(1)]
  obtain qs bs Lc q where own: "owned U m n s qs bs Lc q" using inv by (auto simp: sys_inv_def)
  have "request_task (dispatcher_requests (s_dp s) ! i) \<in># tasks_of m n s qs"
    by (rule slot_in_tasks [OF assms(2)]) (simp add: busy_request [OF inv assms(2,5)])
  from owned_task(2) [OF own this] show ?thesis
    using busy_disjoint [OF inv assms(2-6)] by (simp add: request_task_def)
qed

theorem workers_disjoint_witness:
  "exec 2 two_labels (Run sample_sys) = Some (Run two_sys) \<and> busy two_sys 0 \<and> busy two_sys 1 \<and>
   dr_rnbl (dispatcher_requests (s_dp two_sys) ! 0) \<noteq> dr_rnbl (dispatcher_requests (s_dp two_sys) ! 1) \<and>
   dr_mbuf (dispatcher_requests (s_dp two_sys) ! 0) \<in> s_live two_sys"
proof -
  have b: "busy two_sys 0" "busy two_sys 1" by (simp_all add: busy_def two_sys_def)
  show ?thesis using b two_run workers_disjoint [OF exec_sound [OF two_run sample_runs] _ _ _ b] by simp
qed

text \<open>
  C3: The fields of a request cannot change under the worker that serves it: in every reachable state, from the moment the worker
  has taken the request until it has published its response, no step of any thread modifies any field of its request slot.
\<close>

theorem request_stable:
  assumes "runs E U m n (Run s)" and "sys_step E n (Run s) (Run t)" and "i < n" and "busy s i"
  shows "dispatcher_requests (s_dp t) ! i = dispatcher_requests (s_dp s) ! i"
  by (rule request_stable_step [OF assms(2) refl refl runs_inv(1) [OF assms(1)] assms(3,4)])

theorem request_stable_witness:
  "\<exists>t. sys_step sample_world 2 (Run two_sys) (Run t) \<and> s_dpc t \<noteq> s_dpc two_sys \<and> dr_mbuf (dispatcher_requests (s_dp t) ! 0) = 0x20000"
proof -
  have r: "runs sample_world sample_universe 1 2 (Run two_sys)" by (rule exec_sound [OF two_run sample_runs])
  have "handle_networker 20100 two_dp = Inr two_dp"
    by (simp add: handle_networker_def two_dp_def taken_dp_def batch_np_def)
  then have "do_step 2 (Dispatch 30000) two_sys = Some (Run (two_sys\<lparr>s_dpc := D_worker 0 30000\<rparr>))"
    by (simp add: dispatch_step_def two_sys_def)
  from do_step_sound [OF this] have st: "sys_step sample_world 2 (Run two_sys) (Run (two_sys\<lparr>s_dpc := D_worker 0 30000\<rparr>))" .
  have "busy two_sys 0" by (simp add: busy_def two_sys_def)
  from request_stable [OF r st _ this] st show ?thesis
    by (intro exI [of _ "two_sys\<lparr>s_dpc := D_worker 0 30000\<rparr>"]) (simp add: two_sys_def two_dp_def asked_def)
qed

text \<open>
  C4: No packet buffer is lost or duplicated: in every reachable state the buffers that are out of the pool are, each
  exactly once, the buffers of the tasks (waiting in a queue or held by a slot), those on their way back, those in the
  structure shared with the networking core, those in the receive queue and those of the batch being handed over; and
  the contexts in use are exactly those of the tasks.
\<close>

theorem buffers_conserved:
  assumes "runs E U m n (Run s)"
  shows "\<exists>qs bs Lc rxq q. disp_rep U (s_dp s) qs bs Lc \<and> eth_rxqs (s_rx s) = [rxq] \<and> rxq_rep rxq (rx_store (s_rx s)) q \<and>
    image_mset tsk_runnable (tasks_of m n s qs) = mset_set Lc \<and>
    image_mset tsk_mbuf (tasks_of m n s qs) + mset bs + mset (np_bufs (networker_pointers (s_dp s))) + mset q + mset (batch_of s) =
      mset_set (s_live s)"
  using runs_inv(1) [OF assms] by (fastforce simp: sys_inv_def owned_def network_def rxq_inv_def)

theorem buffers_conserved_witness:
  "\<exists>qs bs Lc q. disp_rep sample_universe (s_dp two_sys) qs bs Lc \<and>
    image_mset tsk_mbuf (tasks_of 1 2 two_sys qs) + mset bs + mset (np_bufs (networker_pointers (s_dp two_sys))) + mset q +
      mset (batch_of two_sys) = {#0x20000, 0x30000#}"
proof -
  have "s_live two_sys = {0x20000, 0x30000}" by (simp add: two_sys_def taken_sys_def offered_sys_def)
  then show ?thesis using buffers_conserved [OF exec_sound [OF two_run sample_runs]] by fastforce
qed

text \<open>
  C5: The dispatcher never blocks and never faults: in every reachable state it has a next step, which moves its program
  counter, whatever the other threads do.
\<close>

theorem dispatcher_progress:
  assumes "runs E U m n (Run s)"
  shows "\<exists>t. sys_step E n (Run s) (Run t) \<and> s_dpc t \<noteq> s_dpc s"
proof -
  note inv = runs_inv(1) [OF assms] and sz = runs_inv(2) [OF assms]
  show ?thesis
  proof (cases "s_dpc s")
    case (D_worker i cur)
    consider "n \<le> i" | "i < n" "wr_flag (worker_responses (s_dp s) ! i) \<noteq> RUNNING" | "i < n" "wr_flag (worker_responses (s_dp s) ! i) = RUNNING"
      by force
    then show ?thesis
    proof cases
      case 1
      obtain dp where "handle_networker cur (s_dp s) = Inr dp" using step_net [OF inv sz D_worker, of 0] by auto
      then show ?thesis
        using sys_step.d_net [OF D_worker 1, of E "cur + 1"] D_worker by fastforce
    next
      case 2
      obtain dp where "handle_response i (s_dp s) = Inr dp" using step_respond [OF inv sz D_worker 2] by auto
      then show ?thesis using sys_step.d_respond [OF D_worker 2, of E] D_worker by fastforce
    next
      case 3
      obtain dp where "preempt_worker (e_cfg E) i cur (s_dp s) = Inr dp" using step_preempt [OF inv sz D_worker 3(1)] by auto
      then show ?thesis using sys_step.d_preempt [OF D_worker 3, of E] D_worker by fastforce
    qed
  next
    case (D_dispatch i cur)
    obtain b dp where "prepare_request (e_cfg E) i cur (s_dp s) = Inr (b, dp)" using step_prepare [OF inv sz D_dispatch] by auto
    then show ?thesis using sys_step.d_prepare [OF D_dispatch, of E n] D_dispatch by (cases b) fastforce+
  next
    case (D_publish i cur)
    then show ?thesis using sys_step.d_publish [OF D_publish, of E n] by fastforce
  qed
qed

theorem dispatcher_progress_witness:
  "\<exists>t. sys_step sample_world 2 (Run two_sys) (Run t) \<and> s_dpc t \<noteq> D_worker 2 20100"
  using dispatcher_progress [OF exec_sound [OF two_run sample_runs]] by (simp add: two_sys_def)

end
