(* ===== verification/Sched_Properties.thy ===== *)
theory Sched_Properties
  imports Sample
begin

text \<open>What each handler of the dispatcher does, in terms of the waiting tasks, the returning buffers and the contexts in use.\<close>

section \<open>Urgency\<close>

text \<open>How long the task has waited, in cycles, relative to the target latency of queue \<open>i\<close>: the exact quotient.\<close>

definition waited :: "u64 \<Rightarrow> task \<Rightarrow> int" where
  "waited cur t = sint (cur - tsk_timestamp t)"

definition urgency :: "cfg_parameters \<Rightarrow> u64 \<Rightarrow> nat \<Rightarrow> task \<Rightarrow> rat" where
  "urgency cfg cur i t = of_int (waited cur t) / cfg_slos cfg ! i"

lemma rnd_minus: "rnd p (- x) = - rnd p x"
  by (simp add: rnd_def Let_def)

lemma rnd_near:
  assumes "0 < x"
  shows "(1 - 1 / 2 ^ 24) * x \<le> rnd 24 x" "rnd 24 x \<le> (1 + 1 / 2 ^ 24) * x"
proof -
  have "\<bar>rnd 24 x - x\<bar> \<le> x * (1 / 2 ^ 24)" using rnd_rel_error [OF assms, of 24] by (simp add: power_int_minus field_simps)
  then have "rnd 24 x - x \<le> x * (1 / 2 ^ 24)" "x - rnd 24 x \<le> x * (1 / 2 ^ 24)" by (simp_all only: abs_le_iff) simp
  then show "(1 - 1 / 2 ^ 24) * x \<le> rnd 24 x" "rnd 24 x \<le> (1 + 1 / 2 ^ 24) * x" by (simp_all add: field_simps)
qed

lemma rnd_gt_0:
  assumes "0 < x"
  shows "0 < rnd 24 x"
proof -
  have "0 < (1 - 1 / 2 ^ 24) * x" using assms by (intro mult_pos_pos) simp_all
  then show ?thesis using rnd_near(1) [OF assms] by (rule less_le_trans)
qed

text \<open>The score in \<open>float\<close>: two roundings away from the exact quotient.\<close>

lemma score_near:
  assumes "0 < w" "0 < (l :: rat)"
  shows "\<exists>c. fl_div 24 (rnd 24 (of_int w)) l = Fin c \<and> (1 - 1 / 2 ^ 24) ^ 2 * (of_int w / l) \<le> c \<and> c \<le> (1 + 1 / 2 ^ 24) ^ 2 * (of_int w / l)"
proof -
  let ?a = "rnd 24 (of_int w)"
  have a: "(1 - 1 / 2 ^ 24) * of_int w \<le> ?a" "?a \<le> (1 + 1 / 2 ^ 24) * of_int w" "0 < ?a"
    using rnd_near [of "of_int w"] rnd_gt_0 [of "of_int w"] assms(1) by simp_all
  then have q: "(1 - 1 / 2 ^ 24) * (of_int w / l) \<le> ?a / l" "?a / l \<le> (1 + 1 / 2 ^ 24) * (of_int w / l)" "0 < ?a / l"
    using assms(2) unfolding times_divide_eq_right by (auto intro: divide_right_mono simp del: power_numeral)
  have "(1 - 1 / 2 ^ 24) * ((1 - 1 / 2 ^ 24) * (of_int w / l)) \<le> (1 - 1 / 2 ^ 24) * (?a / l)" using q(1) by (intro mult_left_mono) simp_all
  moreover have "(1 + 1 / 2 ^ 24) * (?a / l) \<le> (1 + 1 / 2 ^ 24) * ((1 + 1 / 2 ^ 24) * (of_int w / l))" using q(2) by (intro mult_left_mono) simp_all
  ultimately have "(1 - 1 / 2 ^ 24) ^ 2 * (of_int w / l) \<le> rnd 24 (?a / l)" "rnd 24 (?a / l) \<le> (1 + 1 / 2 ^ 24) ^ 2 * (of_int w / l)"
    using rnd_near [OF q(3)] unfolding power2_eq_square mult.assoc by linarith+
  then show ?thesis using assms(2) by (simp add: fl_div_def)
qed

lemma score_not_pos:
  assumes "w \<le> 0" "0 < (l :: rat)"
  shows "\<exists>c. fl_div 24 (rnd 24 (of_int w)) l = Fin c \<and> c \<le> 0"
proof -
  have neg: "rnd 24 x \<le> 0" if "x \<le> 0" for x :: rat
    using that rnd_gt_0 [of "- x"] rnd_minus [of 24 x] by (cases "x = 0") auto
  show ?thesis using assms neg by (simp add: fl_div_def divide_nonpos_pos)
qed

text \<open>Scores that compare one way belong to quotients that do, up to the roundings.\<close>

lemma score_order:
  assumes "0 < l" "0 < l'" "0 < w" "\<not> fl_gt (fl_div 24 (rnd 24 (of_int w')) l') (fl_div 24 (rnd 24 (of_int w)) l)"
  shows "of_int w' / l' \<le> (1 + 1 / 2 ^ 21) * (of_int w / l)"
proof (cases "0 < w'")
  case True
  obtain c c' where "fl_div 24 (rnd 24 (of_int w)) l = Fin c" "c \<le> (1 + 1 / 2 ^ 24) ^ 2 * (of_int w / l)"
    "fl_div 24 (rnd 24 (of_int w')) l' = Fin c'" "(1 - 1 / 2 ^ 24) ^ 2 * (of_int w' / l') \<le> c'"
    using score_near [OF assms(3,1)] score_near [OF True assms(2)] by blast
  then have "(1 - 1 / 2 ^ 24) ^ 2 * (of_int w' / l') \<le> (1 + 1 / 2 ^ 24) ^ 2 * (of_int w / l)" using assms(4) by simp
  moreover have "(1 + 1 / 2 ^ 24) ^ 2 * (of_int w / l) \<le> (1 - 1 / 2 ^ 24) ^ 2 * ((1 + 1 / 2 ^ 21) * (of_int w / l))"
    using assms(1,3) unfolding mult.assoc [symmetric] by (intro mult_right_mono) (simp_all add: power2_eq_square)
  ultimately have "(1 - 1 / 2 ^ 24) ^ 2 * (of_int w' / l') \<le> (1 - 1 / 2 ^ 24) ^ 2 * ((1 + 1 / 2 ^ 21) * (of_int w / l))" by linarith
  moreover have "(0 :: rat) < (1 - 1 / 2 ^ 24) ^ 2" by simp
  ultimately show ?thesis by (rule mult_left_le_imp_le)
next
  case False
  then have "of_int w' / l' \<le> 0" "0 \<le> (1 + 1 / 2 ^ 21) * (of_int w / l)" using assms(1-3) by (simp_all add: divide_nonpos_pos)
  then show ?thesis by linarith
qed

lemma front_urgency: "qs j = t # q \<Longrightarrow> front_score cfg cur qs j = Some (fl_div 24 (rnd 24 (of_int (waited cur t))) (cfg_slos cfg ! j))"
  by (simp add: front_score_def queue_score_def waited_def Let_def)

lemma wins_urgency:
  assumes slos: "\<And>j. j < n \<Longrightarrow> 0 < cfg_slos cfg ! j" and w: "wins cfg cur qs n k" and k: "qs k = t # q"
  shows "k < n" "0 < waited cur t" "j < n \<Longrightarrow> qs j = t' # q' \<Longrightarrow> urgency cfg cur j t' \<le> (1 + 1 / 2 ^ 21) * urgency cfg cur k t"
    "j < k \<Longrightarrow> qs j = t' # q' \<Longrightarrow> waited cur t' = waited cur t \<Longrightarrow> cfg_slos cfg ! j \<noteq> cfg_slos cfg ! k"
proof -
  let ?m = "fl_div 24 (rnd 24 (of_int (waited cur t))) (cfg_slos cfg ! k)"
  have m: "k < n" "fl_gt ?m (Fin 0)" "\<And>j c. j < n \<Longrightarrow> front_score cfg cur qs j = Some c \<Longrightarrow> \<not> fl_gt c ?m"
    "\<And>j c. j < k \<Longrightarrow> front_score cfg cur qs j = Some c \<Longrightarrow> c \<noteq> NaN \<Longrightarrow> fl_gt ?m c"
    using w front_urgency [of qs k t q cfg cur] k by (auto simp: wins_def)
  show "k < n" by (rule m(1))
  show pos: "0 < waited cur t" using m(2) score_not_pos [OF _ slos [OF m(1)], of "waited cur t"] by (cases "0 < waited cur t") auto
  show "urgency cfg cur j t' \<le> (1 + 1 / 2 ^ 21) * urgency cfg cur k t" if j: "j < n" "qs j = t' # q'"
    unfolding urgency_def using m(3) [OF j(1) front_urgency [of qs j, OF j(2)]] by (rule score_order [OF slos [OF m(1)] slos [OF j(1)] pos])
  show "cfg_slos cfg ! j \<noteq> cfg_slos cfg ! k" if j: "j < k" "qs j = t' # q'" "waited cur t' = waited cur t"
  proof
    assume "cfg_slos cfg ! j = cfg_slos cfg ! k"
    then have "front_score cfg cur qs j = Some ?m" using front_urgency [of qs j, OF j(2), of cfg cur] j(3) by simp
    moreover have "?m \<noteq> NaN" using m(2) by auto
    ultimately show False using m(4) [OF j(1)] by fastforce
  qed
qed

text \<open>
  C7: Dispatching takes the oldest task of the most urgent queue: \<open>dispatch_request\<close> dequeues the head of a queue that has waited for some time, such
  that no queue has waited longer relative to its own target latency but for the error of the roundings to \<open>float\<close>, less than one in two million, and of
  queues with the same target and waiting time the one with the lowest index.  It records the context, the buffer, the type, the category, the arrival and the time in the
  queue in the worker's slot with the flag \<open>ACTIVE\<close>, marks the worker's answer as running, notes the time of the dispatch and that the worker may be preempted, and leaves
  every other slot and queue, the returning buffers and the contexts alone; it does nothing just if no queue has waited.
\<close>

theorem dispatch_most_urgent:
  assumes "disp_rep U s qs bs Lc" and "nat (num_ports cfg) \<le> length (tskq s)" and "\<And>j. j < nat (num_ports cfg) \<Longrightarrow> 0 < cfg_slos cfg ! j"
  shows "(\<exists>k t q s'. k < nat (num_ports cfg) \<and> qs k = t # q \<and> 0 < waited cur t \<and>
      (\<forall>j t' q'. j < nat (num_ports cfg) \<and> qs j = t' # q' \<longrightarrow> urgency cfg cur j t' \<le> (1 + 1 / 2 ^ 21) * urgency cfg cur k t) \<and>
      (\<forall>j t' q'. j < k \<and> qs j = t' # q' \<and> waited cur t' = waited cur t \<longrightarrow> cfg_slos cfg ! j \<noteq> cfg_slos cfg ! k) \<and>
      dispatch_request cfg i cur s = Inr s' \<and> disp_rep U s' (qs(k := q)) bs Lc \<and>
      dispatcher_requests s' = (dispatcher_requests s)[i := \<lparr>dr_flag = ACTIVE, dr_rnbl = tsk_runnable t, dr_mbuf = tsk_mbuf t, dr_type = tsk_type t,
        dr_category = tsk_category t, dr_timestamp = tsk_timestamp t, dr_dispatcher_cy = if tsk_category t = PACKET then cur - tsk_timestamp t else 0\<rparr>] \<and>
      worker_responses s' = (worker_responses s)[i := (worker_responses s ! i)\<lparr>wr_flag := RUNNING\<rparr>] \<and> timestamps s' = (timestamps s)[i := cur] \<and>
      preempt_check s' = (preempt_check s)[i := True] \<and> networker_pointers s' = networker_pointers s \<and> d_ipis s' = d_ipis s) \<or>
    ((\<forall>j t' q'. j < nat (num_ports cfg) \<and> qs j = t' # q' \<longrightarrow> waited cur t' \<le> 0) \<and> dispatch_request cfg i cur s = Inr s)"
  using prepare_request_refines [OF assms(1,2), of cur i]
proof (elim disjE exE conjE)
  fix k t q s'
  assume w: "wins cfg cur qs (nat (num_ports cfg)) k" and k: "qs k = t # q" and p: "prepare_request cfg i cur s = Inr (True, s')"
    and sl: "slots s' = slots (fill_request i t cur s)" and r: "disp_rep U s' (qs(k := q)) bs Lc"
  note u = wins_urgency [OF assms(3) w k]
  have d: "dispatch_request cfg i cur s = Inr (set_dr_flag i ACTIVE s')" using p by (simp add: dispatch_request_def)
  have old: "x[i := f (x[i := y] ! i)] = x[i := f y]" for x :: "'z list" and f y by (cases "i < length x") (simp_all add: list_update_beyond)
  have full: "x\<lparr>dr_rnbl := a, dr_mbuf := b, dr_type := c, dr_category := e, dr_timestamp := f, dr_dispatcher_cy := g, dr_flag := h\<rparr> =
      \<lparr>dr_flag = h, dr_rnbl = a, dr_mbuf = b, dr_type = c, dr_category = e, dr_timestamp = f, dr_dispatcher_cy = g\<rparr>" for x :: dispatcher_request and a b c e f g h
    by (cases x) simp
  show ?thesis using u k r d sl
    by (intro disjI1 exI [of _ k] exI [of _ t] exI [of _ q] exI [of _ "set_dr_flag i ACTIVE s'"])
      (auto simp: slots_eq_iff fill_request_def set_wr_flag_def set_dr_flag_def Let_def old full)
next
  assume n: "none_due cfg cur qs (nat (num_ports cfg))" and p: "prepare_request cfg i cur s = Inr (False, s)"
  have "waited cur t' \<le> 0" if j: "j < nat (num_ports cfg)" "qs j = t' # q'" for j t' q'
  proof (rule ccontr)
    assume "\<not> waited cur t' \<le> 0"
    then have w: "0 < waited cur t'" by simp
    obtain c where c: "fl_div 24 (rnd 24 (of_int (waited cur t'))) (cfg_slos cfg ! j) = Fin c"
      "(1 - 1 / 2 ^ 24) ^ 2 * (of_int (waited cur t') / cfg_slos cfg ! j) \<le> c" using score_near [OF w assms(3) [OF j(1)]] by blast
    have "0 < (1 - 1 / 2 ^ 24) ^ 2 * (of_int (waited cur t') / cfg_slos cfg ! j)" using w assms(3) [OF j(1)] by simp
    then show False using n j c front_urgency [of qs j, OF j(2), of cfg cur] unfolding none_due_def by fastforce
  qed
  then show ?thesis using p by (auto simp: dispatch_request_def)
qed

theorem dispatch_most_urgent_witness:
  "\<exists>s'. dispatch_request sample_cfg 1 20100 busy_dp = Inr s' \<and> dr_mbuf (dispatcher_requests s' ! 1) = 0x20000 \<and>
     dr_dispatcher_cy (dispatcher_requests s' ! 1) = 20000 \<and> disp_rep sample_universe s' ((\<lambda>_. [waiting_task])(0 := [])) [0x40000] {0x1000, 0x1400}"
proof -
  have n: "nat (num_ports sample_cfg) = 1" "nat (num_ports sample_cfg) \<le> length (tskq busy_dp)" by (simp_all add: sample_cfg_def busy_dp_def)
  have w: "waited 20100 waiting_task = 20000" "length (dispatcher_requests busy_dp) = 24"
    by (simp_all add: waited_def waiting_task_def busy_dp_def MAX_WORKERS_def)
  have "\<And>j. j < nat (num_ports sample_cfg) \<Longrightarrow> 0 < cfg_slos sample_cfg ! j" by (simp add: sample_cfg_def)
  note dispatch_most_urgent [OF busy_rep n(2) this, of 20100 1, unfolded n(1)]
  then obtain k t q s' where "k < (1 :: nat)" "[waiting_task] = t # q" "dispatch_request sample_cfg 1 20100 busy_dp = Inr s'"
      "disp_rep sample_universe s' ((\<lambda>_. [waiting_task])(k := q)) [0x40000] {0x1000, 0x1400}"
      "dispatcher_requests s' = (dispatcher_requests busy_dp)[1 := \<lparr>dr_flag = ACTIVE, dr_rnbl = tsk_runnable t, dr_mbuf = tsk_mbuf t, dr_type = tsk_type t,
        dr_category = tsk_category t, dr_timestamp = tsk_timestamp t, dr_dispatcher_cy = if tsk_category t = PACKET then 20100 - tsk_timestamp t else 0\<rparr>]"
    using w(1) by fastforce
  then show ?thesis using w(2) by (intro exI [of _ s']) (auto simp: waiting_task_def)
qed

text \<open>
  C8: A finished request gives its context, with its stack, back to the pools and puts its packet buffer in front of the
  buffers that return to the networking core; the waiting tasks are untouched and the slot is marked processed.
\<close>

theorem finished_request_released:
  assumes "disp_rep U s qs bs Lc" and "wr_rnbl (worker_responses s ! i) \<in> Lc"
    and "wr_mbuf (worker_responses s ! i) \<noteq> NULL" and "length bs < card (u_mcell U)"
  shows "\<exists>s'. handle_finished i s = Inr s' \<and> slots s' = slots (mark_processed i s) \<and>
    disp_rep U s' qs (wr_mbuf (worker_responses s ! i) # bs) (Lc - {wr_rnbl (worker_responses s ! i)})"
  by (rule handle_finished_refines [OF assms])

theorem finished_request_released_witness:
  "\<exists>s'. handle_finished 0 busy_dp = Inr s' \<and> disp_rep sample_universe s' (\<lambda>_. [waiting_task]) [0x30000, 0x40000] {0x1000}"
proof -
  have w: "worker_responses busy_dp ! 0 = done_response" by (simp add: busy_dp_def)
  have "{0x1000, 0x1400} - {0x1400 :: addr} = {0x1000}" by auto
  then show ?thesis
    using finished_request_released [OF busy_rep, of 0] by (auto simp: w done_response_def sample_universe_def)
qed

text \<open>
  C9: A preempted request goes to the tail of the queue of its type, with the context that was interrupted, its packet
  buffer and its original arrival time, as a task to be resumed; nothing is released.
\<close>

theorem preempted_request_requeued:
  assumes "disp_rep U s qs bs Lc" and "unat (wr_type (worker_responses s ! i)) < length (tskq s)"
    and "queued s qs < card (u_task U)"
  shows "\<exists>s'. handle_preempted i s = Inr s' \<and> slots s' = slots (mark_processed i s) \<and>
    disp_rep U s' (qs(unat (wr_type (worker_responses s ! i)) :=
      qs (unat (wr_type (worker_responses s ! i))) @ [response_task (worker_responses s ! i)])) bs Lc"
  by (rule handle_preempted_refines [OF assms])

theorem preempted_request_requeued_witness:
  "\<exists>s'. handle_preempted 0 busy_dp = Inr s' \<and>
     disp_rep sample_universe s' ((\<lambda>_. [waiting_task])(0 := [waiting_task, response_task done_response])) [0x40000] {0x1000, 0x1400}"
proof -
  have w: "worker_responses busy_dp ! 0 = done_response" "length (tskq busy_dp) = 1" by (simp_all add: busy_dp_def)
  have "queued busy_dp (\<lambda>_. [waiting_task]) = 1" by (simp add: queued_def w)
  then show ?thesis
    using preempted_request_requeued [OF busy_rep, of 0] by (auto simp: w done_response_def sample_universe_def)
qed

text \<open>
  C10: Taking a batch: every packet of the batch becomes a waiting task with a fresh context of its own or, when contexts
  have run out, goes straight back; up to \<open>ETH_RX_MAX_BATCH\<close> returning buffers are handed to the networking core in the
  same exchange, and the batch is acknowledged. No buffer is lost in the exchange.
\<close>

theorem batch_absorbed:
  assumes "disp_rep U s qs bs Lc" and "np_cnt (networker_pointers s) \<noteq> 0"
    and "unat (np_cnt (networker_pointers s)) \<le> ETH_RX_MAX_BATCH"
      "length (np_pkts (networker_pointers s)) = ETH_RX_MAX_BATCH" "np_free_cnt (networker_pointers s) = 0"
    and "\<forall>i<unat (np_cnt (networker_pointers s)).
      unat (np_types (networker_pointers s) ! i) < length (tskq s) \<and> np_pkts (networker_pointers s) ! i \<noteq> NULL"
    and "size (waiting (length (tskq s)) qs) \<le> card Lc" "ctx_capacity U \<le> card (u_task U)"
      "length bs + card Lc \<le> ctx_capacity U" "ETH_RX_MAX_BATCH \<le> card (u_mcell U)"
  shows "\<exists>s' qs' bs' back Lc'. handle_networker cur s = Inr s' \<and> disp_rep U s' qs' bs' Lc' \<and>
    absorbed (length (tskq s)) (take (unat (np_cnt (networker_pointers s))) (np_pkts (networker_pointers s)))
      (qs, bs, Lc) (qs', back @ bs', Lc') \<and>
    length bs' + card Lc' \<le> ctx_capacity U \<and> length back \<le> ETH_RX_MAX_BATCH \<and>
    slots s' = slots (s\<lparr>networker_pointers := (networker_pointers s)
      \<lparr>np_pkts := back @ drop (length back) (np_pkts (networker_pointers s)),
       np_free_cnt := of_nat (length back), np_cnt := 0\<rparr>\<rparr>)"
  by (rule handle_networker_refines [OF assms])

theorem batch_absorbed_witness:
  "\<exists>s' qs' bs' back Lc'. handle_networker 500 busy_dp = Inr s' \<and> disp_rep sample_universe s' qs' bs' Lc' \<and>
     absorbed 1 [0x50000] (\<lambda>_. [waiting_task], [0x40000], {0x1000, 0x1400}) (qs', back @ bs', Lc')"
proof -
  have w: "networker_pointers busy_dp = \<lparr>np_cnt = 1, np_free_cnt = 0, np_types = replicate 6 0, np_pkts = 0x50000 # replicate 5 NULL\<rparr>"
    "length (tskq busy_dp) = 1" by (simp_all add: busy_dp_def)
  have c: "ctx_capacity sample_universe = 3" "card (u_task sample_universe) = 3" "card (u_mcell sample_universe) = 7"
    "ETH_RX_MAX_BATCH = 6" by (simp_all add: ctx_capacity_def sample_universe_def ETH_RX_MAX_BATCH_def)
  have "size (waiting 1 (\<lambda>_. [waiting_task])) = 1" by (simp add: waiting_def)
  then show ?thesis
    using batch_absorbed [OF busy_rep, of 500] by (simp add: w c) blast
qed

text \<open>
  C27: \<open>preempt_worker\<close> sends the preemption interrupt to the core of worker \<open>i\<close> exactly when the worker has an
  unanswered request that was dispatched at least 14000 cycles ago (5000 ns at 2.79998 GHz; the test is computed in
  \<open>double\<close>), it sends it once per dispatched request, and it changes nothing else.
\<close>

theorem preempt_worker_interrupts:
  assumes "i + 2 < length (cfg_cpu cfg)" and "i < length (preempt_check s)"
  shows "if preempt_check s ! i \<and> 14000 \<le> unat (cur - timestamps s ! i)
    then \<exists>s'. preempt_worker cfg i cur s = Inr s' \<and> d_ipis s' = (PREEMPT_VECTOR, cfg_cpu cfg ! (i + 2)) # d_ipis s \<and>
      s'\<lparr>d_ipis := d_ipis s, preempt_check := (preempt_check s')[i := True]\<rparr> = s \<and> (\<forall>later. preempt_worker cfg i later s' = Inr s')
    else preempt_worker cfg i cur s = Inr s"
  using assms by (auto simp: preempt_worker_def preempt_due_iff set_preempt_check_def Let_def list_update_same_conv)

definition late_dp :: dp_state where
  "late_dp = idle_dp\<lparr>preempt_check := [True, True], timestamps := [100, 200]\<rparr>"

theorem preempt_worker_interrupts_witness:
  "\<exists>s'. preempt_worker sample_cfg 1 14200 late_dp = Inr s' \<and> d_ipis s' = [(0xf2, 3)]"
  using preempt_worker_interrupts [of 1 sample_cfg late_dp 14200]
  by (auto simp: late_dp_def idle_dp_def sample_cfg_def PREEMPT_VECTOR_def)

text \<open>
  A task that arrives when the task pool is exhausted is silently discarded: \<open>tskq_enqueue_tail\<close> returns without an
  error and the queues are unchanged, so the context and the buffer of the task would be lost to the program.
\<close>

theorem task_dropped_when_full:
  assumes "disp_rep U s qs bs Lc" and "unat type < length (tskq s)" and "queued s qs = card (u_task U)"
  shows "enqueue_task type t s = Inr s"
  by (rule enqueue_task_dropped [OF assms])

theorem task_dropped_when_full_witness: "\<exists>(U :: universe) (s :: dp_state). u_task U = {} \<and> enqueue_task 0 waiting_task s = Inr s"
proof -
  define s where "s = idle_dp\<lparr>task_mempool := sample_pool NULL 0\<rparr>"
  define U where "U = sample_universe\<lparr>u_task := {}\<rparr>"
  obtain xs cs Ls where m: "disp_mem sample_universe idle_dp xs cs {} Ls" "xs 0 = []" "cs = []"
    using idle_rep by (auto simp: disp_rep_def tskq_abs_def mq_abs_def idle_dp_def)
  have "mempool_ok (d_heap s) (sample_pool NULL 0) (set []) {}" by (rule sample_pool_ok) simp_all
  then have "disp_mem U s xs cs {} Ls"
    using m by (auto simp: disp_mem_def U_def s_def universe_ok_def task_cells_def tskqs_ok_def idle_dp_def lessThan_Suc)
  then have "disp_rep U s (\<lambda>_. []) [] {}"
    unfolding disp_rep_def using m by (intro exI [of _ xs] exI [of _ cs] exI [of _ Ls]) (auto simp: s_def idle_dp_def tskq_abs_def mq_abs_def)
  from task_dropped_when_full [OF this, of 0 waiting_task] have "enqueue_task 0 waiting_task s = Inr s"
    by (simp add: U_def s_def idle_dp_def queued_def)
  moreover have "u_task U = {}" by (simp add: U_def)
  ultimately show ?thesis by blast
qed

end
