(* ===== verification/Mem.thy ===== *)
theory Mem
  imports Prelude
begin

text \<open>
  Page-level memory management: \<open>inc/ix/mem.h\<close>, \<open>dp/core/mem.c\<close>, \<open>dp/core/vm.c\<close>,
  \<open>inc/ix/page.h\<close>, \<open>dp/core/page.c\<close> and the rounding macros of \<open>inc/ix/stddef.h\<close>.
  The operating system and libdune are parameters, collected in the record \<open>os\<close>; what the
  code relies on of them is stated as \<open>mmap_fixed\<close> and \<open>pagemap_present\<close>.
\<close>

section \<open>Rounding\<close>

text \<open>Arithmetic at the C type \<open>int\<close>, with the wrap-around of the target.\<close>

definition s32 :: "int \<Rightarrow> int" where
  "s32 k = signed_take_bit 31 k"

lemma s32_id [simp]: "- 2147483648 \<le> k \<Longrightarrow> k < 2147483648 \<Longrightarrow> s32 k = k"
  by (simp add: s32_def signed_take_bit_int_eq_self)

definition align_up :: "u64 \<Rightarrow> u64 \<Rightarrow> u64" where
  "align_up x a = ((x - 1) OR (a - 1)) + 1"

definition align_down :: "u64 \<Rightarrow> u64 \<Rightarrow> u64" where
  "align_down x a = x AND NOT (a - 1)"

section \<open>Pages\<close>

definition PGSIZE_4KB :: int where "PGSIZE_4KB = 4096"
definition PGSIZE_2MB :: int where "PGSIZE_2MB = 2097152"
definition PGSIZE_1GB :: int where "PGSIZE_1GB = 1073741824"

lemmas page_sizes = PGSIZE_4KB_def PGSIZE_2MB_def PGSIZE_1GB_def

definition PGN_2MB :: "u64 \<Rightarrow> u64" where "PGN_2MB la = drop_bit 21 la"
definition PGOFF_2MB :: "u64 \<Rightarrow> u64" where "PGOFF_2MB la = la AND of_int (PGSIZE_2MB - 1)"
definition PGADDR_2MB :: "u64 \<Rightarrow> u64" where "PGADDR_2MB la = la AND NOT (of_int (PGSIZE_2MB - 1))"

definition MEM_PHYS_BASE_ADDR :: u64 where "MEM_PHYS_BASE_ADDR = 0x4000000000"
definition MEM_USER_START :: u64 where "MEM_USER_START = 0x7000000000"
definition MEM_USER_IOMAPK_BASE_ADDR :: u64 where "MEM_USER_IOMAPK_BASE_ADDR = 0x100000000000"
definition MAP_FAILED :: addr where "MAP_FAILED = - 1"

lemmas mem_map = MEM_PHYS_BASE_ADDR_def MEM_USER_START_def MEM_USER_IOMAPK_BASE_ADDR_def MAP_FAILED_def

definition EIO :: int where "EIO = 5"
definition ENOMEM :: int where "ENOMEM = 12"
definition ENODEV :: int where "ENODEV = 19"
definition EINVAL :: int where "EINVAL = 22"

lemmas errnos = EIO_def ENOMEM_def ENODEV_def EINVAL_def

text \<open>\<open>struct page_ent\<close> and the memory manager's variables; the page table maps the address of a page to its entry.\<close>

record page_ent =
  maddr :: u64
  refcnt :: int
  pg_flags :: u32

record mm =
  mm_heap :: heap
  mem_pos :: addr
  page_pos :: addr
  page_tbl :: "page_ent list"
  page_refs :: "int list"
  pgroot :: "addr \<Rightarrow> u64"
  vm_iomapk_pos :: addr

definition NUM_PAGES :: nat where
  "NUM_PAGES = unat (PGN_2MB (MEM_USER_START - MEM_PHYS_BASE_ADDR))"

section \<open>The operating system and libdune\<close>

record os =
  os_mmap :: "addr \<Rightarrow> u64 \<Rightarrow> u64 \<Rightarrow> heap \<Rightarrow> addr \<times> heap"
  os_munmap :: "addr \<Rightarrow> u64 \<Rightarrow> heap \<Rightarrow> heap"
  os_mbind :: "addr \<Rightarrow> u64 \<Rightarrow> int \<Rightarrow> nat list \<Rightarrow> int"
  os_pagemap_open :: bool
  os_pagemap_read :: "u64 \<Rightarrow> u64 option"
  dune_vm_page_walk :: "addr \<Rightarrow> addr \<Rightarrow> (addr \<Rightarrow> u64) \<Rightarrow> int \<Rightarrow> (addr \<Rightarrow> u64) \<Rightarrow> int \<times> (addr \<Rightarrow> u64)"
  dune_vm_unmap :: "addr \<Rightarrow> u64 \<Rightarrow> (addr \<Rightarrow> u64) \<Rightarrow> (addr \<Rightarrow> u64)"

section \<open>Virtual memory: \<open>dp/core/vm.c\<close>\<close>

definition VM_PERM_R :: u32 where "VM_PERM_R = 1"
definition VM_PERM_W :: u32 where "VM_PERM_W = 2"
definition VM_PERM_X :: u32 where "VM_PERM_X = 4"
definition VM_PERM_U :: u32 where "VM_PERM_U = 8"

definition PTE_P :: u64 where "PTE_P = 0x1"
definition PTE_W :: u64 where "PTE_W = 0x2"
definition PTE_U :: u64 where "PTE_U = 0x4"
definition PTE_PS :: u64 where "PTE_PS = 0x80"
definition PTE_NX :: u64 where "PTE_NX = 0x8000000000000000"
definition PTE_ADDR :: "u64 \<Rightarrow> u64" where "PTE_ADDR pte = pte AND 0xffffffffff000"

definition CREATE_NORMAL :: int where "CREATE_NORMAL = 1"
definition CREATE_BIG :: int where "CREATE_BIG = 2"
definition CREATE_BIG_1GB :: int where "CREATE_BIG_1GB = 3"

lemmas vm_defs = VM_PERM_R_def VM_PERM_W_def VM_PERM_X_def VM_PERM_U_def PTE_P_def PTE_W_def PTE_U_def PTE_PS_def PTE_NX_def
  CREATE_NORMAL_def CREATE_BIG_def CREATE_BIG_1GB_def

definition vm_unmap :: "os \<Rightarrow> addr \<Rightarrow> int \<Rightarrow> int \<Rightarrow> mm \<Rightarrow> mm" where
  "vm_unmap os ad nr sz s = s\<lparr>pgroot := dune_vm_unmap os ad (of_int nr * of_int sz) (pgroot s)\<rparr>"

definition vm_map_phys_helper :: "u64 \<Rightarrow> u64 \<Rightarrow> u64 \<Rightarrow> addr \<Rightarrow> u64" where
  "vm_map_phys_helper pa va perm a = PTE_ADDR (pa + (a - va)) OR perm"

text \<open>The page-size part of \<open>args.perm\<close> and the \<open>create\<close> argument of the walk.\<close>

definition vm_size_class :: "int \<Rightarrow> (u64 \<times> int) option" where
  "vm_size_class sz =
     (if sz = PGSIZE_4KB then Some (PTE_P, CREATE_NORMAL)
      else if sz = PGSIZE_2MB then Some (PTE_P OR PTE_PS, CREATE_BIG)
      else if sz = PGSIZE_1GB then Some (PTE_P OR PTE_PS, CREATE_BIG_1GB)
      else None)"

definition vm_pte_perm :: "u64 \<Rightarrow> u32 \<Rightarrow> u64" where
  "vm_pte_perm p perm = p OR (if perm AND VM_PERM_W \<noteq> 0 then PTE_W else 0)
     OR (if perm AND VM_PERM_X = 0 then PTE_NX else 0) OR (if perm AND VM_PERM_U \<noteq> 0 then PTE_U else 0)"

definition vm_map_phys :: "os \<Rightarrow> u64 \<Rightarrow> u64 \<Rightarrow> int \<Rightarrow> int \<Rightarrow> u32 \<Rightarrow> mm \<Rightarrow> int \<times> mm" where
  "vm_map_phys os pa va nr sz perm s =
     (let len = of_int (s32 (nr * sz)) :: u64
      in if perm AND VM_PERM_R = 0 then (- EINVAL, s)
         else case vm_size_class sz of
           None \<Rightarrow> (- EINVAL, s)
         | Some (p, create) \<Rightarrow>
             (let (ret, pt) = dune_vm_page_walk os va (va + len - 1) (vm_map_phys_helper pa va (vm_pte_perm p perm)) create (pgroot s);
                  s1 = s\<lparr>pgroot := pt\<rparr>
              in if ret \<noteq> 0 then (ret, vm_unmap os va nr (s32 (uint len)) s1) else (ret, s1)))"

definition vm_map_to_user :: "os \<Rightarrow> addr \<Rightarrow> int \<Rightarrow> int \<Rightarrow> u32 \<Rightarrow> mm \<Rightarrow> addr \<times> mm" where
  "vm_map_to_user os kern_addr nr sz perm s =
     (let va = align_up (vm_iomapk_pos s) (of_int sz);
          (ret, s1) = vm_map_phys os kern_addr va nr sz (perm OR VM_PERM_U) s
      in if ret \<noteq> 0 then (NULL, s1)
         else (va, s1\<lparr>vm_iomapk_pos := va + of_int (s32 (sz * nr))\<rparr>))"

section \<open>Pages from the operating system: \<open>dp/core/mem.c\<close>\<close>

definition MAP_PRIVATE :: u64 where "MAP_PRIVATE = 0x2"
definition MAP_FIXED :: u64 where "MAP_FIXED = 0x10"
definition MAP_ANONYMOUS :: u64 where "MAP_ANONYMOUS = 0x20"
definition MAP_HUGETLB :: u64 where "MAP_HUGETLB = 0x40000"
definition MAP_HUGE_2MB :: u64 where "MAP_HUGE_2MB = push_bit 26 21"
definition MAP_HUGE_1GB :: u64 where "MAP_HUGE_1GB = push_bit 26 30"

definition MPOL_BIND :: int where "MPOL_BIND = 2"
definition MPOL_PREFERRED :: int where "MPOL_PREFERRED = 1"

definition mmap_flags :: "int \<Rightarrow> u64 option" where
  "mmap_flags sz =
     (let flags = MAP_PRIVATE OR MAP_ANONYMOUS
      in if sz = PGSIZE_4KB then Some flags
         else if sz = PGSIZE_2MB then Some (flags OR (MAP_HUGETLB OR MAP_FIXED) OR MAP_HUGE_2MB)
         else if sz = PGSIZE_1GB then Some (flags OR (MAP_HUGETLB OR MAP_HUGE_1GB OR MAP_FIXED))
         else None)"

definition mem_alloc_pages_at :: "os \<Rightarrow> addr \<Rightarrow> int \<Rightarrow> int \<Rightarrow> nat list \<Rightarrow> int \<Rightarrow> mm \<Rightarrow> addr \<times> mm" where
  "mem_alloc_pages_at os base nr sz msk numa_policy s =
     (let len = of_int (s32 (nr * sz)) :: u64
      in case mmap_flags sz of
        None \<Rightarrow> (MAP_FAILED, s)
      | Some flags \<Rightarrow>
          (let (vaddr, h) = os_mmap os base len flags (mm_heap s); s1 = s\<lparr>mm_heap := h\<rparr>
           in if vaddr = MAP_FAILED then (MAP_FAILED, s1)
              else if os_mbind os vaddr len numa_policy msk \<noteq> 0
                then (MAP_FAILED, s1\<lparr>mm_heap := os_munmap os vaddr len (mm_heap s1)\<rparr>)
              else (let (ret, s2) = vm_map_phys os vaddr vaddr nr sz (VM_PERM_R OR VM_PERM_W) s1
                    in if ret \<noteq> 0 then (MAP_FAILED, s2\<lparr>mm_heap := os_munmap os vaddr len (mm_heap s2)\<rparr>)
                       else (vaddr, s2\<lparr>mm_heap := hwrite (mm_heap s2) vaddr 0 0\<rparr>))))"

definition mem_alloc_pages_at_onnode :: "os \<Rightarrow> addr \<Rightarrow> int \<Rightarrow> int \<Rightarrow> nat \<Rightarrow> mm \<Rightarrow> addr \<times> mm" where
  "mem_alloc_pages_at_onnode os base nr sz node s = mem_alloc_pages_at os base nr sz [node] MPOL_BIND s"

definition mem_alloc_pages :: "os \<Rightarrow> int \<Rightarrow> int \<Rightarrow> nat list \<Rightarrow> int \<Rightarrow> mm \<Rightarrow> addr \<times> mm" where
  "mem_alloc_pages os nr sz msk numa_policy s =
     (if sz = PGSIZE_4KB \<or> sz = PGSIZE_2MB
      then (let s1 = s\<lparr>mem_pos := mem_pos s - of_int (s32 (PGSIZE_2MB * nr))\<rparr>
            in mem_alloc_pages_at os (mem_pos s1) nr sz msk numa_policy s1)
      else if sz = PGSIZE_1GB
      then (let s1 = s\<lparr>mem_pos := align_down (mem_pos s - of_int (s32 (PGSIZE_1GB * nr))) (of_int PGSIZE_1GB)\<rparr>
            in mem_alloc_pages_at os (mem_pos s1) nr sz msk numa_policy s1)
      else (MAP_FAILED, s))"

definition mem_alloc_pages_onnode :: "os \<Rightarrow> int \<Rightarrow> int \<Rightarrow> nat \<Rightarrow> int \<Rightarrow> mm \<Rightarrow> addr \<times> mm" where
  "mem_alloc_pages_onnode os nr sz node numa_policy s = mem_alloc_pages os nr sz [node] numa_policy s"

definition mem_free_pages :: "os \<Rightarrow> addr \<Rightarrow> int \<Rightarrow> int \<Rightarrow> mm \<Rightarrow> mm" where
  "mem_free_pages os ad nr sz s =
     (let s1 = vm_unmap os ad nr sz s in s1\<lparr>mm_heap := os_munmap os ad (of_int (s32 (nr * sz))) (mm_heap s1)\<rparr>)"

definition PAGEMAP_PGN_MASK :: u64 where "PAGEMAP_PGN_MASK = 0x7fffffffffffff"
definition PAGEMAP_FLAG_PRESENT :: u64 where "PAGEMAP_FLAG_PRESENT = push_bit 63 1"

text \<open>The loop over the pages, from page \<open>i\<close> with \<open>k\<close> pages left; a failing \<open>lseek\<close> or \<open>read\<close> is \<open>None\<close>.\<close>

primrec lookup_machine_addrs :: "os \<Rightarrow> addr \<Rightarrow> int \<Rightarrow> int \<Rightarrow> nat \<Rightarrow> u64 list \<Rightarrow> int \<times> u64 list" where
  "lookup_machine_addrs os ad sz i 0 maddrs = (0, maddrs)"
| "lookup_machine_addrs os ad sz i (Suc k) maddrs =
     (case os_pagemap_read os ((ad + of_int (s32 (i * sz))) div of_int PGSIZE_4KB * 8) of
        None \<Rightarrow> (- EIO, maddrs)
      | Some tmp \<Rightarrow>
          if tmp AND PAGEMAP_FLAG_PRESENT = 0 then (- ENODEV, maddrs)
          else lookup_machine_addrs os ad sz (i + 1) k
                 (maddrs[nat i := (tmp AND PAGEMAP_PGN_MASK) * of_int PGSIZE_4KB]))"

definition mem_lookup_page_machine_addrs :: "os \<Rightarrow> addr \<Rightarrow> int \<Rightarrow> int \<Rightarrow> u64 list \<Rightarrow> int \<times> u64 list" where
  "mem_lookup_page_machine_addrs os ad nr sz maddrs =
     (if sz = PGSIZE_4KB then (- EINVAL, maddrs)
      else if \<not> os_pagemap_open os then (- EIO, maddrs)
      else lookup_machine_addrs os ad sz 0 (nat nr) maddrs)"

text \<open>One page: \<open>inc/ix/mem.h\<close>.\<close>

definition mem_alloc_page :: "os \<Rightarrow> int \<Rightarrow> nat \<Rightarrow> int \<Rightarrow> mm \<Rightarrow> addr \<times> mm" where
  "mem_alloc_page os sz numa_node numa_policy s = mem_alloc_pages_onnode os 1 sz numa_node numa_policy s"

definition mem_alloc_page_local :: "os \<Rightarrow> int \<Rightarrow> mm \<Rightarrow> addr \<times> mm" where
  "mem_alloc_page_local os sz s = mem_alloc_pages os 1 sz [] MPOL_PREFERRED s"

definition mem_free_page :: "os \<Rightarrow> addr \<Rightarrow> int \<Rightarrow> mm \<Rightarrow> mm" where
  "mem_free_page os ad sz s = mem_free_pages os ad 1 sz s"

definition mem_lookup_page_machine_addr :: "os \<Rightarrow> addr \<Rightarrow> int \<Rightarrow> u64 \<Rightarrow> int \<times> u64" where
  "mem_lookup_page_machine_addr os ad sz m =
     (let (ret, ms) = mem_lookup_page_machine_addrs os ad 1 sz [m] in (ret, ms ! 0))"

section \<open>Rounding up\<close>

lemma or_mask_eq: "x OR mask n = x - take_bit n x + mask n" for x :: "'a::len word"
proof -
  have "(x AND NOT (mask n)) AND mask n = 0" by (rule bit_word_eqI) (auto simp: bit_simps)
  then have "(x AND NOT (mask n)) + mask n = (x AND NOT (mask n)) OR mask n" by (rule disjunctive_add_eq_or)
  also have "\<dots> = x OR mask n" by (rule bit_word_eqI) (auto simp: bit_simps)
  finally show ?thesis by (simp add: and_not_mask_eq)
qed

lemma align_up_8:
  assumes "0 < unat x" "unat x < 2 ^ 32"
  shows "unat (align_up x 8) = (unat x - 1) div 8 * 8 + 8"
proof -
  have m: "(7 :: u64) = mask 3" by (simp add: mask_eq_exp_minus_1)
  let ?y = "x - 1"
  have "align_up x 8 = ?y - take_bit 3 ?y + 8"
    unfolding align_up_def by (simp add: m or_mask_eq)
  moreover have "unat ?y = unat x - 1" using assms(1) by (metis less_numeral_extra(3) unat_minus_one unsigned_0)
  moreover have "unat (?y - take_bit 3 ?y) = unat ?y - unat ?y mod 8"
  proof -
    have t: "unat (take_bit 3 ?y) = unat ?y mod 8" by (simp only: unsigned_take_bit_eq) (simp add: take_bit_eq_mod)
    then have "take_bit 3 ?y \<le> ?y" unfolding word_le_nat_alt by simp
    then show ?thesis by (simp only: unat_sub t)
  qed
  moreover have "unat ?y - unat ?y mod 8 = unat ?y div 8 * 8" by (simp add: minus_mod_eq_div_mult)
  moreover have "unat ?y div 8 * 8 + 8 < 2 ^ 64" using assms calculation(2) by (simp add: le_less_trans [OF div_times_less_eq_dividend])
  ultimately have "unat (align_up x 8) = unat ?y div 8 * 8 + 8 \<and> unat ?y = unat x - 1" by (simp only: unat_word_ariths) simp
  then show ?thesis by simp
qed

end
