(* ===== verification/Page.thy ===== *)
theory Page
  imports Mem
begin

text \<open>
  The page allocator: \<open>inc/ix/page.h\<close> and \<open>dp/core/page.c\<close>.  An access to \<open>page_tbl\<close> or \<open>page_refs\<close>
  outside the table is a fault.
\<close>

section \<open>Operations\<close>

definition PAGE_FLAG_WILL_FREE :: u32 where "PAGE_FLAG_WILL_FREE = 0x1"
definition PAGE_FLAG_CAN_FREE :: u32 where "PAGE_FLAG_CAN_FREE = 0x2"

definition PAGE_NUM :: "addr \<Rightarrow> u64" where
  "PAGE_NUM a = PGN_2MB (a - MEM_PHYS_BASE_ADDR)"

definition is_page :: "addr \<Rightarrow> bool" where
  "is_page a \<longleftrightarrow> a \<ge> MEM_PHYS_BASE_ADDR \<and> a < MEM_USER_START"

definition is_page_region :: "addr \<Rightarrow> u64 \<Rightarrow> bool" where
  "is_page_region a len =
     (if len > MEM_USER_START - MEM_PHYS_BASE_ADDR \<or> a < MEM_PHYS_BASE_ADDR \<or> a + len > MEM_USER_START
      then False else True)"

text \<open>\<open>addr_to_page_ent\<close> with its bounds, and the update of an entry.\<close>

definition page_ent_of :: "addr \<Rightarrow> mm \<Rightarrow> page_ent res" where
  "page_ent_of a s =
     (if unat (PAGE_NUM a) < length (page_tbl s) then Inr (page_tbl s ! unat (PAGE_NUM a)) else Inl Out_of_bounds)"

definition set_page_ent :: "addr \<Rightarrow> page_ent \<Rightarrow> mm \<Rightarrow> mm" where
  "set_page_ent a e s = s\<lparr>page_tbl := (page_tbl s)[unat (PAGE_NUM a) := e]\<rparr>"

definition add_page_ref :: "addr \<Rightarrow> int \<Rightarrow> mm \<Rightarrow> mm res" where
  "add_page_ref a k s =
     (if unat (PAGE_NUM a) < length (page_refs s)
      then Inr (s\<lparr>page_refs := (page_refs s)[unat (PAGE_NUM a) := s32 (page_refs s ! unat (PAGE_NUM a) + k)]\<rparr>)
      else Inl Out_of_bounds)"

definition page_machaddr :: "addr \<Rightarrow> mm \<Rightarrow> u64 res" where
  "page_machaddr a s = bindE (page_ent_of a s) (\<lambda>e. Inr (maddr e + PGOFF_2MB a))"

definition page_get :: "addr \<Rightarrow> mm \<Rightarrow> (u64 \<times> mm) res" where
  "page_get a s =
     bindE (page_ent_of a s) (\<lambda>e.
     if pg_flags e AND PAGE_FLAG_WILL_FREE \<noteq> 0
     then Inr (maddr e + PGOFF_2MB a, set_page_ent a (e\<lparr>refcnt := s32 (refcnt e + 1)\<rparr>) s)
     else bindE (add_page_ref a 1 s) (\<lambda>s1. Inr (maddr e + PGOFF_2MB a, s1)))"

definition page_put_slow :: "os \<Rightarrow> addr \<Rightarrow> mm \<Rightarrow> mm res" where
  "page_put_slow os a s =
     bindE (page_ent_of a s) (\<lambda>e.
     let e1 = e\<lparr>refcnt := s32 (refcnt e - 1)\<rparr>; s1 = set_page_ent a e1 s
     in if refcnt e1 \<noteq> 0 \<or> pg_flags e1 AND PAGE_FLAG_CAN_FREE = 0 then Inr s1
        else Inr (mem_free_pages os (PGADDR_2MB a) 1 PGSIZE_2MB s1))"

definition page_put :: "os \<Rightarrow> addr \<Rightarrow> mm \<Rightarrow> mm res" where
  "page_put os a s =
     bindE (page_ent_of a s) (\<lambda>e.
     if pg_flags e AND PAGE_FLAG_WILL_FREE \<noteq> 0 then page_put_slow os a s else add_page_ref a (- 1) s)"

text \<open>
  The loop that touches every page and looks up its machine address, from page \<open>i\<close> with \<open>k\<close> pages left;
  the result is whether all of them were found.  The store through an \<open>int\<close> pointer clears the low half of a word;
  through \<open>MAP_FAILED\<close> it is a fault.
\<close>

primrec page_fault_in :: "os \<Rightarrow> addr \<Rightarrow> int \<Rightarrow> nat \<Rightarrow> mm \<Rightarrow> (bool \<times> mm) res" where
  "page_fault_in os base i 0 s = Inr (True, s)"
| "page_fault_in os base i (Suc k) s =
     (let pos = base + of_int (s32 (i * PGSIZE_2MB))
      in if pos = MAP_FAILED then Inl Out_of_bounds
      else let s1 = s\<lparr>mm_heap := hwrite (mm_heap s) pos 0 (mm_heap s pos 0 AND NOT (mask 32))\<rparr>;
               (ret, ms) = mem_lookup_page_machine_addrs os pos 1 PGSIZE_2MB [0]
      in if ret \<noteq> 0 then Inr (False, s1)
      else bindE (page_ent_of pos s1) (\<lambda>e. page_fault_in os base (i + 1) k (set_page_ent pos (e\<lparr>maddr := hd ms\<rparr>) s1)))"

definition page_alloc_contig_on_node :: "os \<Rightarrow> u32 \<Rightarrow> nat \<Rightarrow> mm \<Rightarrow> (addr \<times> mm) res" where
  "page_alloc_contig_on_node os nr numa_node s =
     (let base = page_pos s;
          s1 = s\<lparr>page_pos := page_pos s + ucast (nr * of_int PGSIZE_2MB)\<rparr>
      in if base \<ge> MEM_USER_START then Inr (NULL, s1)
         else let (base1, s2) = mem_alloc_pages_at_onnode os base (sint nr) PGSIZE_2MB numa_node s1
         in if base1 = NULL then Inr (NULL, s2)
         else bindE (page_fault_in os base1 0 (unat nr) s2) (\<lambda>(ok, s3).
              if ok then Inr (base1, s3) else Inr (NULL, mem_free_pages os base1 (sint nr) PGSIZE_2MB s3)))"

definition page_alloc_contig :: "os \<Rightarrow> nat \<Rightarrow> u32 \<Rightarrow> mm \<Rightarrow> (addr \<times> mm) res" where
  "page_alloc_contig os cpu_numa_node nr s = page_alloc_contig_on_node os nr cpu_numa_node s"

definition page_alloc_on_node :: "os \<Rightarrow> nat \<Rightarrow> mm \<Rightarrow> (addr \<times> mm) res" where
  "page_alloc_on_node os numa_node s = page_alloc_contig_on_node os 1 numa_node s"

definition page_alloc :: "os \<Rightarrow> nat \<Rightarrow> mm \<Rightarrow> (addr \<times> mm) res" where
  "page_alloc os cpu_numa_node s = page_alloc_contig_on_node os 1 cpu_numa_node s"

definition page_free :: "addr \<Rightarrow> mm \<Rightarrow> mm res" where
  "page_free a s = bindE (page_ent_of a s) (\<lambda>e. Inr (set_page_ent a (e\<lparr>pg_flags := pg_flags e OR PAGE_FLAG_WILL_FREE\<rparr>) s))"

primrec page_free_contig :: "addr \<Rightarrow> nat list \<Rightarrow> mm \<Rightarrow> mm res" where
  "page_free_contig a [] s = Inr s"
| "page_free_contig a (i # is) s =
     bindE (page_free (a + of_int (s32 (PGSIZE_2MB * int i))) s) (page_free_contig a is)"

section \<open>What is relied on of the operating system\<close>

definition in_region :: "addr \<Rightarrow> u64 \<Rightarrow> addr \<Rightarrow> bool" where
  "in_region base len a \<longleftrightarrow> a - base < len"

text \<open>
  The system has the memory: a fixed mapping is placed where asked for and its memory is zero, the policy and the page
  table can be set, and every page is resident.
\<close>

definition os_grants :: "os \<Rightarrow> bool" where
  "os_grants os \<longleftrightarrow>
     (\<forall>base len fl h. \<exists>h'. os_mmap os base len fl h = (base, h') \<and>
        (\<forall>a. h' a = (if in_region base len a then (\<lambda>_. 0) else h a))) \<and>
     (\<forall>a len pol msk. os_mbind os a len pol msk = 0) \<and>
     (\<forall>a b f c pt. fst (dune_vm_page_walk os a b f c pt) = 0) \<and>
     os_pagemap_open os \<and> (\<forall>off. \<exists>v. os_pagemap_read os off = Some v \<and> v AND PAGEMAP_FLAG_PRESENT \<noteq> 0)"

text \<open>
  What is relied on of Dune's walk of the page table for pages of 2 MB.  There is one entry per page, as \<open>vm_lookup_phys\<close> reads it, here at the
  address of the first byte of the page.  The walk calls the callback once for every page that meets the range, from the page of the first byte
  to that of the last, with the address of the page, and no other entry changes.
\<close>

definition os_walks :: "os \<Rightarrow> bool" where
  "os_walks os \<longleftrightarrow> (\<forall>a b f pt v. snd (dune_vm_page_walk os a b f CREATE_BIG pt) v =
     (if PGOFF_2MB v = 0 \<and> PGADDR_2MB a \<le> v \<and> v \<le> b then f v else pt v))"

section \<open>Allocation succeeds\<close>

definition pages_kept :: "os \<Rightarrow> addr \<Rightarrow> u64 \<Rightarrow> (addr \<Rightarrow> u64) \<Rightarrow> (addr \<Rightarrow> u64) \<Rightarrow> bool" where
  "pages_kept os base len pt pt' \<longleftrightarrow> (os_walks os \<longrightarrow> (\<forall>v. PGADDR_2MB base \<le> v \<and> v \<le> base + len - 1 \<or> pt' v = pt v))"

lemma vm_map_phys_granted:
  assumes "os_grants os"
  shows "\<exists>pt. vm_map_phys os pa va nr PGSIZE_2MB (VM_PERM_R OR VM_PERM_W) s = (0, s\<lparr>pgroot := pt\<rparr>) \<and>
    pages_kept os va (of_int (s32 (nr * PGSIZE_2MB))) (pgroot s) pt"
proof -
  let ?f = "vm_map_phys_helper pa va (vm_pte_perm (PTE_P OR PTE_PS) (VM_PERM_R OR VM_PERM_W))"
  let ?pt = "snd (dune_vm_page_walk os va (va + of_int (s32 (nr * PGSIZE_2MB)) - 1) ?f CREATE_BIG (pgroot s))"
  have "fst (dune_vm_page_walk os a b f c pt) = 0" for a b f c pt using assms by (simp add: os_grants_def)
  then have "vm_map_phys os pa va nr PGSIZE_2MB (VM_PERM_R OR VM_PERM_W) s = (0, s\<lparr>pgroot := ?pt\<rparr>)"
    by (simp add: vm_map_phys_def vm_size_class_def page_sizes vm_defs Let_def prod.case_eq_if)
  moreover have "pages_kept os va (of_int (s32 (nr * PGSIZE_2MB))) (pgroot s) ?pt" by (auto simp: pages_kept_def os_walks_def)
  ultimately show ?thesis by blast
qed

definition zeroed :: "addr \<Rightarrow> u64 \<Rightarrow> heap \<Rightarrow> heap" where
  "zeroed base len h = (\<lambda>a. if in_region base len a then (\<lambda>_. 0) else h a)"

lemma mem_alloc_granted:
  assumes "os_grants os" "base \<noteq> MAP_FAILED" "s32 (nr * PGSIZE_2MB) = k" "of_int k \<noteq> (0 :: u64)"
  shows "\<exists>pt. mem_alloc_pages_at_onnode os base nr PGSIZE_2MB node s =
    (base, s\<lparr>mm_heap := zeroed base (of_int k) (mm_heap s), pgroot := pt\<rparr>) \<and> pages_kept os base (of_int k) (pgroot s) pt"
proof -
  let ?len = "of_int k :: u64"
  obtain fl where fl: "mmap_flags PGSIZE_2MB = Some fl" by (simp add: mmap_flags_def page_sizes Let_def)
  obtain h' where h': "os_mmap os base ?len fl (mm_heap s) = (base, h')"
    "\<forall>a. h' a = (if in_region base ?len a then (\<lambda>_. 0) else mm_heap s a)"
    using assms(1) unfolding os_grants_def by blast
  have mb: "os_mbind os base ?len MPOL_BIND [node] = 0" using assms(1) by (simp add: os_grants_def)
  obtain pt where vm: "vm_map_phys os base base nr PGSIZE_2MB (VM_PERM_R OR VM_PERM_W) (s\<lparr>mm_heap := h'\<rparr>) = (0, s\<lparr>mm_heap := h', pgroot := pt\<rparr>)"
    "pages_kept os base ?len (pgroot s) pt"
    using vm_map_phys_granted [OF assms(1), of base base nr "s\<lparr>mm_heap := h'\<rparr>"] assms(3) by auto
  have "in_region base ?len base" using assms(4) by (simp add: in_region_def word_neq_0_conv)
  then have "hwrite h' base 0 0 = zeroed base ?len (mm_heap s)" using h'(2) by (auto simp: zeroed_def hwrite_def fun_eq_iff)
  moreover have "mem_alloc_pages_at_onnode os base nr PGSIZE_2MB node s = (base, s\<lparr>mm_heap := hwrite h' base 0 0, pgroot := pt\<rparr>)"
    using assms(2) by (simp add: mem_alloc_pages_at_onnode_def mem_alloc_pages_at_def fl assms(3) h'(1) mb vm(1) Let_def)
  ultimately show ?thesis using vm(2) by auto
qed

text \<open>The page table entries are in range for addresses in page memory.\<close>

lemma page_num_bound:
  assumes "MEM_PHYS_BASE_ADDR \<le> a" "a < MEM_USER_START"
  shows "unat (PAGE_NUM a) < NUM_PAGES"
proof -
  have "a - MEM_PHYS_BASE_ADDR < MEM_USER_START - MEM_PHYS_BASE_ADDR"
    using assms by (simp add: word_less_nat_alt word_le_nat_alt unat_sub mem_map)
  then have "unat (a - MEM_PHYS_BASE_ADDR) < 98304 * 2 ^ 21" by (simp add: word_less_nat_alt mem_map)
  then have "unat (a - MEM_PHYS_BASE_ADDR) div 2 ^ 21 < 98304" by (simp add: less_mult_imp_div_less)
  moreover have "NUM_PAGES = 98304" by (simp add: NUM_PAGES_def PGN_2MB_def mem_map drop_bit_eq_div)
  ultimately show ?thesis by (simp add: PAGE_NUM_def PGN_2MB_def unat_drop_bit_eq drop_bit_eq_div unat_div)
qed

lemma lookup_granted:
  assumes "os_grants os"
  shows "\<exists>m. mem_lookup_page_machine_addrs os a 1 PGSIZE_2MB [x] = (0, [m])"
proof -
  obtain v where "os_pagemap_read os ((a + of_int (s32 (0 * PGSIZE_2MB))) div of_int PGSIZE_4KB * 8) = Some v" "v AND PAGEMAP_FLAG_PRESENT \<noteq> 0"
    using assms unfolding os_grants_def by blast
  then show ?thesis using assms by (simp add: mem_lookup_page_machine_addrs_def os_grants_def page_sizes)
qed

text \<open>Page \<open>i\<close> of a block of fewer than 1024 pages, the most whose size fits the C type \<open>int\<close>.\<close>

lemma page_addr:
  assumes "unat base + n * 2 ^ 21 \<le> unat MEM_USER_START" "MEM_PHYS_BASE_ADDR \<le> base" "n < 1024" "i < n"
  defines "pos \<equiv> base + of_int (s32 (int i * PGSIZE_2MB))"
  shows "unat pos = unat base + i * 2 ^ 21" "MEM_PHYS_BASE_ADDR \<le> pos" "pos < MEM_USER_START" "pos \<noteq> MAP_FAILED"
    "in_region base (of_nat (n * 2 ^ 21)) pos"
proof -
  have i: "i * 2 ^ 21 < n * 2 ^ 21" "n * 2 ^ 21 < 2 ^ 31" using assms(3,4) by simp_all
  have u: "unat MEM_USER_START = 0x7000000000" "unat MEM_PHYS_BASE_ADDR = 0x4000000000" by (simp_all add: mem_map)
  have "s32 (int i * PGSIZE_2MB) = int (i * 2 ^ 21)" using assms(3,4) by (simp add: page_sizes)
  then have pos: "pos = base + of_nat (i * 2 ^ 21)" by (simp add: pos_def)
  have k: "unat (of_nat (i * 2 ^ 21) :: u64) = i * 2 ^ 21" "unat (of_nat (n * 2 ^ 21) :: u64) = n * 2 ^ 21"
    using i by (intro unat_of_nat64; simp)+
  have "unat base + unat (of_nat (i * 2 ^ 21) :: u64) < 2 ^ LENGTH(64)" using assms(1) i u k by simp
  then have "unat pos = unat base + unat (of_nat (i * 2 ^ 21) :: u64)" unfolding pos by (rule unat_plus_if' [THEN trans, OF if_P])
  then show un: "unat pos = unat base + i * 2 ^ 21" using k by simp
  then show "MEM_PHYS_BASE_ADDR \<le> pos" "pos < MEM_USER_START"
    using assms(1,2) i by (simp_all add: word_le_nat_alt word_less_nat_alt)
  then show "pos \<noteq> MAP_FAILED" by (auto simp: mem_map)
  show "in_region base (of_nat (n * 2 ^ 21)) pos"
    using k i unfolding in_region_def pos word_less_nat_alt by simp
qed

lemma page_fault_in_granted:
  assumes os: "os_grants os" and reg: "unat base + n * 2 ^ 21 \<le> unat MEM_USER_START" "MEM_PHYS_BASE_ADDR \<le> base" "n < 1024"
    and "i + k = n" and "length (page_tbl s) = NUM_PAGES" and "\<And>a. in_region base (of_nat (n * 2 ^ 21)) a \<Longrightarrow> mm_heap s a = (\<lambda>_. 0)"
  shows "\<exists>tbl. page_fault_in os base (int i) k s = Inr (True, s\<lparr>page_tbl := tbl\<rparr>) \<and> length tbl = NUM_PAGES"
  using assms(5-7)
proof (induction k arbitrary: i s)
  case 0
  then show ?case by (intro exI [of _ "page_tbl s"]) simp
next
  case (Suc k)
  define pos where "pos = base + of_int (s32 (int i * PGSIZE_2MB))"
  have i: "i < n" using Suc.prems by simp
  note p = page_addr [OF reg i, folded pos_def]
  obtain m where m: "mem_lookup_page_machine_addrs os pos 1 PGSIZE_2MB [0] = (0, [m])" using lookup_granted [OF os] by blast
  have h: "hwrite (mm_heap s) pos 0 (mm_heap s pos 0 AND NOT (mask 32)) = mm_heap s"
    using Suc.prems(3) [OF p(5)] by (auto simp: hwrite_def fun_eq_iff)
  have e: "page_ent_of pos s = Inr (page_tbl s ! unat (PAGE_NUM pos))"
    using page_num_bound [OF p(2,3)] Suc.prems(2) by (simp add: page_ent_of_def)
  define s' where "s' = set_page_ent pos ((page_tbl s ! unat (PAGE_NUM pos))\<lparr>maddr := m\<rparr>) s"
  have "page_fault_in os base (int i) (Suc k) s = page_fault_in os base (int (Suc i)) k s'"
    using p(4) m h e by (simp add: pos_def s'_def Let_def ac_simps)
  moreover have "\<exists>tbl. page_fault_in os base (int (Suc i)) k s' = Inr (True, s'\<lparr>page_tbl := tbl\<rparr>) \<and> length tbl = NUM_PAGES"
    by (rule Suc.IH) (use Suc.prems in \<open>simp_all add: s'_def set_page_ent_def\<close>)
  ultimately show ?case by (auto simp: s'_def set_page_ent_def)
qed

lemma page_alloc_granted:
  assumes os: "os_grants os" and nr: "0 < unat nr" "unat nr < 1024"
    and reg: "MEM_PHYS_BASE_ADDR \<le> page_pos s" "unat (page_pos s) + unat nr * 2 ^ 21 \<le> unat MEM_USER_START"
    and tbl: "length (page_tbl s) = NUM_PAGES"
  shows "\<exists>pt tbl. page_alloc_contig os node nr s = Inr (page_pos s,
      s\<lparr>mm_heap := zeroed (page_pos s) (of_nat (unat nr * 2 ^ 21)) (mm_heap s), page_pos := page_pos s + of_nat (unat nr * 2 ^ 21),
        pgroot := pt, page_tbl := tbl\<rparr>) \<and> length tbl = NUM_PAGES \<and> pages_kept os (page_pos s) (of_nat (unat nr * 2 ^ 21)) (pgroot s) pt"
proof -
  let ?base = "page_pos s" and ?k = "unat nr * 2 ^ 21"
  have u: "unat MEM_USER_START = 0x7000000000" "unat MEM_PHYS_BASE_ADDR = 0x4000000000" by (simp_all add: mem_map)
  have b: "\<not> MEM_USER_START \<le> ?base" using reg nr u by (simp add: word_le_nat_alt)
  have b': "?base \<noteq> NULL" "?base \<noteq> MAP_FAILED"
  proof -
    show "?base \<noteq> NULL" using reg(1) by (auto simp: mem_map)
    show "?base \<noteq> MAP_FAILED" using b by (auto simp: mem_map)
  qed
  have sn: "sint nr = int (unat nr)" using nr by (intro sint_small) simp
  have s: "s32 (sint nr * PGSIZE_2MB) = int ?k" 
  proof -
    have "0 \<le> int (unat nr) * 2097152" "int (unat nr) * 2097152 < 2147483648" using nr(2) by linarith+
    then have "s32 (int (unat nr) * 2097152) = int (unat nr) * 2097152" by (intro s32_id; linarith)
    then show ?thesis unfolding sn by (simp add: page_sizes)
  qed
  have ku: "unat (of_nat ?k :: u64) = ?k" using nr by (intro unat_of_nat64) simp
  have nz: "of_int (int ?k) \<noteq> (0 :: u64)"
  proof
    assume "of_int (int ?k) = (0 :: u64)"
    then have "unat (of_nat ?k :: u64) = 0" by (simp only: of_int_of_nat_eq unsigned_0)
    then show False using ku nr(1) by simp
  qed
  have mul: "ucast (nr * of_int PGSIZE_2MB) = (of_nat ?k :: u64)"
  proof -
    have "unat (nr * of_int PGSIZE_2MB) = ?k" using nr by (simp add: unat_word_ariths page_sizes)
    then show ?thesis by (metis of_nat_unat)
  qed
  define s1 where "s1 = s\<lparr>page_pos := ?base + of_nat ?k\<rparr>"
  obtain pt where al: "mem_alloc_pages_at_onnode os ?base (sint nr) PGSIZE_2MB node s1 =
      (?base, s1\<lparr>mm_heap := zeroed ?base (of_nat ?k) (mm_heap s1), pgroot := pt\<rparr>)" "pages_kept os ?base (of_nat ?k) (pgroot s) pt"
    using mem_alloc_granted [OF os b'(2) s nz, of node s1] by (auto simp: s1_def)
  define s2 where "s2 = s1\<lparr>mm_heap := zeroed ?base (of_nat ?k) (mm_heap s1), pgroot := pt\<rparr>"
  obtain tb where "page_fault_in os ?base (int 0) (unat nr) s2 = Inr (True, s2\<lparr>page_tbl := tb\<rparr>)" "length tb = NUM_PAGES"
    using page_fault_in_granted [OF os reg(2,1) nr(2), of 0 "unat nr" s2] tbl by (auto simp: s2_def s1_def zeroed_def)
  then show ?thesis
    using b b' al mul by (intro exI [of _ pt] exI [of _ tb])
      (simp add: page_alloc_contig_def page_alloc_contig_on_node_def Let_def s2_def s1_def)
qed

lemma regions_disjoint:
  assumes "unat base + m + n < 2 ^ 64" "in_region base (of_nat m) a"
  shows "\<not> in_region (base + of_nat m) (of_nat n) a"
proof
  assume "in_region (base + of_nat m) (of_nat n) a"
  have k: "unat (of_nat m :: u64) = m" "unat (of_nat n :: u64) = n" using assms(1) by (simp_all add: unat_of_nat64)
  let ?d = "a - base"
  have d: "unat ?d < m" using assms(2) k unfolding in_region_def word_less_nat_alt by simp
  have eq: "a - (base + of_nat m) = ?d - of_nat m" by (rule diff_diff_eq [symmetric])
  have "unat (?d - of_nat m) = 2 ^ 64 + unat ?d - m"
  proof -
    have "unat (?d - of_nat m) + m = 2 ^ 64 + unat ?d"
      using d k unat_sub_if' [of ?d "of_nat m"] assms(1) by simp
    then show ?thesis by simp
  qed
  then have "2 ^ 64 + unat ?d - m < n"
    using \<open>in_region (base + of_nat m) (of_nat n) a\<close> k(2) unfolding in_region_def word_less_nat_alt eq by simp
  then show False using assms(1) by simp
qed

section \<open>A system that grants every request\<close>

definition granting_os :: os where
  "granting_os = \<lparr>os_mmap = (\<lambda>base len fl h. (base, zeroed base len h)), os_munmap = (\<lambda>a len h. h), os_mbind = (\<lambda>a len pol msk. 0),
     os_pagemap_open = True, os_pagemap_read = (\<lambda>off. Some (PAGEMAP_FLAG_PRESENT OR off)),
     dune_vm_page_walk = (\<lambda>a b f c pt. (0, \<lambda>v. if PGOFF_2MB v = 0 \<and> PGADDR_2MB a \<le> v \<and> v \<le> b then f v else pt v)),
     dune_vm_unmap = (\<lambda>a len pt. pt)\<rparr>"

lemma granting_os_grants: "os_grants granting_os"
proof -
  have "(PAGEMAP_FLAG_PRESENT OR off) AND PAGEMAP_FLAG_PRESENT \<noteq> 0" for off
  proof -
    have b: "bit ((PAGEMAP_FLAG_PRESENT OR off) AND PAGEMAP_FLAG_PRESENT) 63" by (simp add: PAGEMAP_FLAG_PRESENT_def bit_simps)
    then show "(PAGEMAP_FLAG_PRESENT OR off) AND PAGEMAP_FLAG_PRESENT \<noteq> 0" by auto
  qed
  then show ?thesis by (auto simp: os_grants_def granting_os_def zeroed_def)
qed

lemma granting_os_walks: "os_walks granting_os"
  by (simp add: os_walks_def granting_os_def)

definition boot_mm :: mm where
  "boot_mm = \<lparr>mm_heap = (\<lambda>_ _. 0xFF), mem_pos = MEM_PHYS_BASE_ADDR, page_pos = MEM_PHYS_BASE_ADDR,
     page_tbl = replicate NUM_PAGES \<lparr>maddr = 0, refcnt = 0, pg_flags = 0\<rparr>, page_refs = replicate NUM_PAGES 0, pgroot = (\<lambda>_. 0),
     vm_iomapk_pos = MEM_USER_IOMAPK_BASE_ADDR\<rparr>"

section \<open>Properties\<close>

text \<open>
  When the system grants the memory, two consecutive calls of \<open>page_alloc_contig\<close> return consecutive blocks of page
  memory that are zeroed and do not overlap, and the rest of memory is untouched.
\<close>

theorem page_alloc_twice:
  assumes "os_grants os" and "0 < unat n1" "unat n1 < 1024" "0 < unat n2" "unat n2 < 1024"
    and "MEM_PHYS_BASE_ADDR \<le> page_pos s" "unat (page_pos s) + (unat n1 + unat n2) * 2 ^ 21 \<le> unat MEM_USER_START"
    and "length (page_tbl s) = NUM_PAGES"
  shows "\<exists>s1 s2 b2. page_alloc_contig os node n1 s = Inr (page_pos s, s1) \<and> page_alloc_contig os node n2 s1 = Inr (b2, s2) \<and>
    b2 = page_pos s + of_nat (unat n1 * 2 ^ 21) \<and>
    (\<forall>a. \<not> (in_region (page_pos s) (of_nat (unat n1 * 2 ^ 21)) a \<and> in_region b2 (of_nat (unat n2 * 2 ^ 21)) a)) \<and>
    (\<forall>a. mm_heap s2 a = (if in_region (page_pos s) (of_nat (unat n1 * 2 ^ 21)) a \<or> in_region b2 (of_nat (unat n2 * 2 ^ 21)) a
       then \<lambda>_. 0 else mm_heap s a))"
proof -
  let ?k1 = "unat n1 * 2 ^ 21" and ?k2 = "unat n2 * 2 ^ 21" and ?b = "page_pos s"
  have u: "unat MEM_USER_START = 0x7000000000" by (simp add: mem_map)
  have "unat ?b + ?k1 \<le> unat MEM_USER_START" using assms(7) by (simp add: algebra_simps)
  then obtain pt tb where a1: "page_alloc_contig os node n1 s = Inr (?b, s\<lparr>mm_heap := zeroed ?b (of_nat ?k1) (mm_heap s),
      page_pos := ?b + of_nat ?k1, pgroot := pt, page_tbl := tb\<rparr>)" "length tb = NUM_PAGES"
    using page_alloc_granted [OF assms(1-3,6) _ assms(8), of node] by blast
  define s1 where "s1 = s\<lparr>mm_heap := zeroed ?b (of_nat ?k1) (mm_heap s), page_pos := ?b + of_nat ?k1, pgroot := pt, page_tbl := tb\<rparr>"
  have k: "unat (of_nat ?k1 :: u64) = ?k1" using assms(3) by (intro unat_of_nat64) simp
  have "unat ?b + ?k1 < 2 ^ LENGTH(64)" using assms(7) u by simp
  then have b1: "unat (?b + of_nat ?k1) = unat ?b + ?k1" using k unat_add_lem [of ?b "of_nat ?k1"] by metis
  have pp: "page_pos s1 = ?b + of_nat ?k1" by (simp add: s1_def)
  have "MEM_PHYS_BASE_ADDR \<le> page_pos s1" unfolding pp word_le_nat_alt b1 using assms(6) by (simp add: word_le_nat_alt)
  moreover have "unat (page_pos s1) + ?k2 \<le> unat MEM_USER_START" unfolding pp b1 using assms(7) by (simp add: algebra_simps)
  ultimately obtain pt2 tb2 where a2: "page_alloc_contig os node n2 s1 = Inr (page_pos s1,
      s1\<lparr>mm_heap := zeroed (page_pos s1) (of_nat ?k2) (mm_heap s1), page_pos := page_pos s1 + of_nat ?k2, pgroot := pt2, page_tbl := tb2\<rparr>)"
    using page_alloc_granted [OF assms(1,4,5), of s1 node] a1(2) by (auto simp: s1_def)
  have dis: "\<not> (in_region ?b (of_nat ?k1) a \<and> in_region (?b + of_nat ?k1) (of_nat ?k2) a)" for a
    using regions_disjoint [of ?b ?k1 ?k2 a] assms(7) u by simp
  have h: "zeroed (?b + of_nat ?k1) (of_nat ?k2) (zeroed ?b (of_nat ?k1) (mm_heap s)) a =
      (if in_region ?b (of_nat ?k1) a \<or> in_region (?b + of_nat ?k1) (of_nat ?k2) a then \<lambda>_. 0 else mm_heap s a)" for a
    by (simp add: zeroed_def)
  show ?thesis
    by (rule exI [of _ s1], rule exI, rule exI [of _ "?b + of_nat ?k1"], intro conjI)
      (fact a1(1) [folded s1_def], fact a2 [unfolded pp], simp, use dis in blast, use h in \<open>simp add: s1_def\<close>)
qed

theorem page_alloc_twice_witness:
  "\<exists>s1 s2. page_alloc_contig granting_os 0 3 boot_mm = Inr (0x4000000000, s1) \<and> page_alloc_contig granting_os 0 5 s1 = Inr (0x4000600000, s2)"
proof -
  have "page_pos boot_mm = MEM_PHYS_BASE_ADDR" "length (page_tbl boot_mm) = NUM_PAGES" by (simp_all add: boot_mm_def)
  then show ?thesis
    using page_alloc_twice [OF granting_os_grants, of 3 5 boot_mm 0] by (auto simp: mem_map)
qed

text \<open>
  When \<open>mmap\<close> fails, \<open>page_alloc_contig_on_node\<close> does not return \<open>NULL\<close> as documented: \<open>__mem_alloc_pages\<close> reports
  failure as \<open>MAP_FAILED\<close>, the test against \<open>NULL\<close> misses it, and the first page is written through \<open>MAP_FAILED\<close>.
\<close>

theorem page_alloc_failure_faults:
  assumes "\<And>base len fl h. fst (os_mmap os base len fl h) = MAP_FAILED" and "nr \<noteq> 0" and "page_pos s < MEM_USER_START"
  shows "page_alloc_contig_on_node os nr node s = Inl Out_of_bounds"
proof -
  obtain fl where fl: "mmap_flags PGSIZE_2MB = Some fl" by (simp add: mmap_flags_def page_sizes Let_def)
  have m: "fst (mem_alloc_pages_at_onnode os base k PGSIZE_2MB node t) = MAP_FAILED" for base k t
    using assms(1) by (simp add: mem_alloc_pages_at_onnode_def mem_alloc_pages_at_def fl Let_def prod.case_eq_if)
  obtain t where t: "mem_alloc_pages_at_onnode os (page_pos s) (sint nr) PGSIZE_2MB node
      (s\<lparr>page_pos := page_pos s + ucast (nr * of_int PGSIZE_2MB)\<rparr>) = (MAP_FAILED, t)"
    using m by (metis prod.collapse)
  obtain k where k: "unat nr = Suc k" using assms(2) by (metis not0_implies_Suc unat_eq_zero)
  have "s32 0 = 0" by simp
  then show ?thesis
    using assms(3) t k by (simp add: page_alloc_contig_on_node_def Let_def not_le) (simp add: MAP_FAILED_def)
qed

theorem page_alloc_failure_faults_witness:
  "page_alloc_contig_on_node (granting_os\<lparr>os_mmap := \<lambda>base len fl h. (MAP_FAILED, h)\<rparr>) 1 0 boot_mm = Inl Out_of_bounds"
  by (rule page_alloc_failure_faults) (simp_all add: boot_mm_def mem_map)

text \<open>
  \<open>is_page_region\<close> accepts a range exactly when each of its bytes is page memory, provided the range does not wrap
  around the address space; the sum \<open>addr + len\<close> is computed modulo \<open>2^64\<close>, and a range that wraps is accepted.
\<close>

theorem is_page_region_correct:
  assumes "0 < len" and "unat a + unat len < 2 ^ 64"
  shows "is_page_region a len \<longleftrightarrow> (\<forall>k<len. is_page (a + k))"
proof -
  have u: "unat MEM_USER_START = 0x7000000000" "unat MEM_PHYS_BASE_ADDR = 0x4000000000" "unat (MEM_USER_START - MEM_PHYS_BASE_ADDR) = 0x3000000000"
    by (simp_all add: mem_map)
  have add: "unat (a + k) = unat a + unat k" if "k \<le> len" for k
    using that assms(2) unat_add_lem [of a k] by (simp add: word_le_nat_alt)
  show ?thesis
  proof
    assume "is_page_region a len"
    then have r: "unat MEM_PHYS_BASE_ADDR \<le> unat a" "unat a + unat len \<le> unat MEM_USER_START"
      using add [of len] by (auto simp: is_page_region_def word_less_nat_alt split: if_splits)
    then show "\<forall>k<len. is_page (a + k)"
      using add by (auto simp: is_page_def word_less_nat_alt word_le_nat_alt)
  next
    assume all: "\<forall>k<len. is_page (a + k)"
    have lo: "unat MEM_PHYS_BASE_ADDR \<le> unat a" using all assms(1) by (auto simp: is_page_def word_le_nat_alt dest: spec [of _ 0])
    have l1: "len - 1 < len" "unat (len - 1) = unat len - 1"
      using assms(1) by (auto simp: word_less_nat_alt unat_minus_one word_neq_0_conv)
    have "len - 1 \<le> len" using l1(1) by simp
    from add [OF this] l1(2) have "unat (a + (len - 1)) = unat a + (unat len - 1)" by (simp only:)
    moreover have "is_page (a + (len - 1))" using all l1(1) by blast
    ultimately have "unat a + (unat len - 1) < unat MEM_USER_START" unfolding is_page_def word_less_nat_alt by simp
    moreover have "0 < unat len" using assms(1) by (simp add: word_less_nat_alt)
    ultimately show "is_page_region a len"
      using add [of len] lo u by (simp add: is_page_region_def word_less_nat_alt) linarith
  qed
qed

theorem is_page_region_correct_witness:
  "is_page_region 0x4000000000 0x1000 \<and> is_page (0x4000000000 + 5) \<and> is_page_region 0xFFFFFFFFFFFFFFFF 2 \<and> \<not> is_page 0xFFFFFFFFFFFFFFFF"
proof -
  have "is_page_region 0x4000000000 0x1000" "is_page_region 0xFFFFFFFFFFFFFFFF 2" "\<not> is_page 0xFFFFFFFFFFFFFFFF"
    by (simp_all add: is_page_region_def is_page_def mem_map)
  moreover from this(1) have "\<forall>k<0x1000. is_page (0x4000000000 + k)"
    using is_page_region_correct [of "0x1000" "0x4000000000"] by simp
  from spec [OF this, of 5] have "is_page (0x4000000000 + 5)" by simp
  ultimately show ?thesis by simp
qed

text \<open>
  Pinning a page and unpinning it leaves the reference counts and the page table as they were, and \<open>page_get\<close> returns
  the machine address of the page plus the offset, as \<open>page_machaddr\<close> does.
\<close>

theorem page_get_put:
  assumes "is_page a" and "length (page_tbl s) = NUM_PAGES" "length (page_refs s) = NUM_PAGES"
    and "pg_flags (page_tbl s ! unat (PAGE_NUM a)) AND PAGE_FLAG_WILL_FREE = 0"
    and "s32 (page_refs s ! unat (PAGE_NUM a)) = page_refs s ! unat (PAGE_NUM a)"
  shows "\<exists>m s1. page_get a s = Inr (m, s1) \<and> page_machaddr a s = Inr m \<and> page_put os a s1 = Inr s"
proof -
  have i: "unat (PAGE_NUM a) < NUM_PAGES" using assms(1) by (simp add: is_page_def page_num_bound)
  have inv: "s32 (s32 (k + 1) - 1) = s32 k" for k
    by (simp add: s32_def signed_take_bit_eq_take_bit_shift take_bit_eq_mod mod_simps ac_simps)
  show ?thesis
    using i assms(2-5) inv by (simp add: page_get_def page_machaddr_def page_put_def page_ent_of_def add_page_ref_def list_update_same_conv)
qed

theorem page_get_put_witness: "\<exists>m s1. page_get 0x4000000010 boot_mm = Inr (m, s1) \<and> page_put granting_os 0x4000000010 s1 = Inr boot_mm"
proof -
  have p: "is_page 0x4000000010" by (simp add: is_page_def mem_map)
  have n: "PAGE_NUM 0x4000000010 = 0" by (simp add: PAGE_NUM_def PGN_2MB_def mem_map drop_bit_eq_div)
  have "0 < NUM_PAGES" by (simp add: NUM_PAGES_def PGN_2MB_def mem_map drop_bit_eq_div)
  then show ?thesis
    using page_get_put [OF p, of boot_mm granting_os] by (auto simp: n boot_mm_def)
qed

end
