(* ===== verification/Mempool_Create.thy ===== *)
theory Mempool_Create
  imports Mempool Page "HOL-Library.Signed_Division"
begin

text \<open>
  The creation of memory pools in \<open>dp/core/mempool.c\<close>: carving pages into elements, linking them
  into chunks, and the conversions between indices, pointers and user mappings of \<open>inc/ix/mempool.h\<close>.
  A created pool satisfies \<open>mempool_ok\<close> with all its elements free.
\<close>

section \<open>Carving pages into chunks\<close>

text \<open>The local variables of \<open>mempool_init_buf_with_pages\<close>: memory, datastore, \<open>head\<close>, \<open>prev\<close>, \<open>chunk_count\<close>.\<close>

type_synonym init_st = "heap \<times> mempool_datastore \<times> addr \<times> addr \<times> int"

definition init_elem :: "addr \<Rightarrow> init_st \<Rightarrow> init_st" where
  "init_elem cur st =
     (case st of (h, mds, head, prev, chunk_count) \<Rightarrow>
       let (h1, head1) = (if prev = NULL then (h, cur) else (hwrite h prev HDR_NEXT cur, head))
       in if chunk_count + 1 = ds_chunk_size mds
          then (if ds_chunk_head mds = NULL then h1 else hwrite h1 head1 HDR_NEXT_CHUNK (ds_chunk_head mds),
                mds\<lparr>ds_chunk_head := head1, ds_num_chunks := ds_num_chunks mds + 1, ds_free_chunks := ds_free_chunks mds + 1\<rparr>,
                NULL, NULL, 0)
          else (h1, mds, head1, cur, chunk_count + 1))"

text \<open>The inner loop with \<open>j\<close> elements left, and the outer loop from page \<open>i\<close> with \<open>k\<close> pages left.\<close>

primrec init_page :: "u64 \<Rightarrow> nat \<Rightarrow> addr \<Rightarrow> init_st \<Rightarrow> init_st" where
  "init_page elem_len 0 cur st = st"
| "init_page elem_len (Suc j) cur st = init_page elem_len j (cur + elem_len) (init_elem cur st)"

primrec init_pages :: "addr \<Rightarrow> nat \<Rightarrow> u64 \<Rightarrow> int \<Rightarrow> nat \<Rightarrow> init_st \<Rightarrow> init_st" where
  "init_pages buf elems_per_page elem_len i 0 st = st"
| "init_pages buf elems_per_page elem_len i (Suc k) st =
     init_pages buf elems_per_page elem_len (i + 1) k
       (init_page elem_len elems_per_page (buf + of_int (s32 (i * PGSIZE_2MB))) st)"

definition mempool_init_buf_with_pages ::
  "mempool_datastore \<Rightarrow> int \<Rightarrow> int \<Rightarrow> u64 \<Rightarrow> heap \<Rightarrow> mempool_datastore \<times> heap" where
  "mempool_init_buf_with_pages mds elems_per_page nr_pages elem_len h =
     (case init_pages (ds_buf mds) (nat elems_per_page) elem_len 0 (nat nr_pages) (h, mds, NULL, NULL, 0) of
        (h1, mds1, _) \<Rightarrow> (mds1, h1))"

section \<open>Creation\<close>

definition mempool_create_datastore ::
  "os \<Rightarrow> nat \<Rightarrow> mempool_datastore \<Rightarrow> int \<Rightarrow> u64 \<Rightarrow> int \<Rightarrow> int \<Rightarrow> string \<Rightarrow> mm \<Rightarrow> (int \<times> mempool_datastore \<times> mm) res" where
  "mempool_create_datastore os node mds nr_elems elem_len nostraddle chunk_size nm s =
     bindE (assertE (ds_magic mds = 0)) (\<lambda>_.
     bindE (assertE (chunk_size AND (chunk_size - 1) = 0)) (\<lambda>_.
     if chunk_size = 0 then Inl Div_by_zero else
     bindE (assertE (nr_elems sdiv chunk_size * chunk_size = nr_elems)) (\<lambda>_.
     if elem_len = 0 \<or> nr_elems = 0 then Inr (- EINVAL, mds, s)
     else
       let mds1 = mds\<lparr>ds_magic := MEMPOOL_MAGIC, ds_prettyname := nm\<rparr>;
           el = align_up elem_len 8;
           elems_per_page = s32 (uint (of_int PGSIZE_2MB div el))
       in bindE
         (if nostraddle \<noteq> 0 then
            if elems_per_page = 0 then Inl Div_by_zero
            else let nr_pages = s32 (nr_elems + elems_per_page - 1) sdiv elems_per_page
                 in bindE (page_alloc_contig os node (of_int nr_pages) s) (\<lambda>(buf, s1).
                    bindE (assertE (buf \<noteq> NULL)) (\<lambda>_. Inr (nr_pages, nr_elems, buf, s1)))
          else let nr_pages = s32 (uint (PGN_2MB (of_int nr_elems * el + of_int (PGSIZE_2MB - 1))));
                   (buf, s1) = mem_alloc_pages os nr_pages PGSIZE_2MB [] MPOL_PREFERRED s
               in Inr (nr_pages, s32 (uint ((of_int (s32 (nr_pages * PGSIZE_2MB)) :: u64) div el)), buf, s1))
         (\<lambda>(nr_pages, nr_elems1, buf, s1).
          let mds2 = mds1\<lparr>ds_buf := buf, ds_nr_pages := nr_pages, ds_nr_elems := of_int nr_elems1, ds_elem_len := el,
                 ds_chunk_size := chunk_size, ds_nostraddle := nostraddle\<rparr>
          in if buf = MAP_FAILED \<or> buf = NULL then Inl Panic
             else let (mds3, h) = (if nostraddle \<noteq> 0
                    then mempool_init_buf_with_pages mds2 elems_per_page nr_pages el (mm_heap s1)
                    else mempool_init_buf_with_pages mds2 nr_elems1 1 el (mm_heap s1))
                  in Inr (0, mds3, s1\<lparr>mm_heap := h\<rparr>)))))"

definition mempool_create :: "mempool \<Rightarrow> addr \<Rightarrow> mempool_datastore \<Rightarrow> u16 \<Rightarrow> u16 \<Rightarrow> (int \<times> mempool) res" where
  "mempool_create m mdsp mds sanity_type sanity_id =
     (if ds_magic mds \<noteq> MEMPOOL_MAGIC then Inl Panic
      else if mp_magic m \<noteq> 0 then Inl Panic
      else Inr (0, m\<lparr>mp_magic := MEMPOOL_MAGIC, mp_buf := ds_buf mds, mp_datastore := mdsp, mp_head := NULL,
             mp_sanity := s32 (push_bit 16 (sint sanity_type)) OR sint sanity_id, mp_nr_elems := ds_nr_elems mds,
             mp_elem_len := ds_elem_len mds, mp_nostraddle := ds_nostraddle mds, mp_chunk_size := ds_chunk_size mds,
             mp_iomap_addr := ds_iomap_addr mds, mp_iomap_offset := ds_iomap_offset mds\<rparr>))"

definition mempool_destroy_datastore :: "os \<Rightarrow> mempool_datastore \<Rightarrow> mm \<Rightarrow> mempool_datastore \<times> mm" where
  "mempool_destroy_datastore os mds s =
     (mds\<lparr>ds_buf := NULL, ds_chunk_head := NULL, ds_magic := 0\<rparr>, mem_free_pages os (ds_buf mds) (ds_nr_pages mds) PGSIZE_2MB s)"

definition mempool_pagemem_map_to_user :: "os \<Rightarrow> mempool_datastore \<Rightarrow> mm \<Rightarrow> int \<times> mempool_datastore \<times> mm" where
  "mempool_pagemem_map_to_user os m s =
     (let (a, s1) = vm_map_to_user os (ds_buf m) (ds_nr_pages m) PGSIZE_2MB (VM_PERM_R OR VM_PERM_W) s;
          m1 = m\<lparr>ds_iomap_addr := a\<rparr>
      in if a = NULL then (- ENOMEM, m1, s1) else (0, m1\<lparr>ds_iomap_offset := a - ds_buf m1\<rparr>, s1))"

definition mempool_pagemem_destroy :: "os \<Rightarrow> mempool_datastore \<Rightarrow> mm \<Rightarrow> (mempool_datastore \<times> mm) res" where
  "mempool_pagemem_destroy os m s =
     (let (m1, s1) = (if ds_iomap_addr m \<noteq> NULL
            then (m\<lparr>ds_iomap_addr := NULL\<rparr>, vm_unmap os (ds_iomap_addr m) (ds_nr_pages m) PGSIZE_2MB s) else (m, s))
      in bindE (page_free_contig (ds_buf m1) [0..<nat (ds_nr_pages m1)] s1) (\<lambda>s2.
         Inr (m1\<lparr>ds_buf := NULL, ds_chunk_head := NULL\<rparr>, s2)))"

section \<open>Indices and user mappings\<close>

definition mempool_idx_to_ptr :: "mempool \<Rightarrow> u32 \<Rightarrow> u32 \<Rightarrow> addr res" where
  "mempool_idx_to_ptr m idx elem_len =
     bindE (assertE (idx < mp_nr_elems m)) (\<lambda>_.
     bindE (assertE (mp_nostraddle m = 0)) (\<lambda>_. Inr (mp_buf m + ucast (elem_len * idx))))"

definition mempool_ptr_to_idx :: "mempool \<Rightarrow> addr \<Rightarrow> u32 \<Rightarrow> u64 res" where
  "mempool_ptr_to_idx m p elem_len =
     (if elem_len = 0 then Inl Div_by_zero
      else let x = (p - mp_buf m) div scast elem_len
           in bindE (assertE (x < ucast (mp_nr_elems m))) (\<lambda>_. Inr x))"

definition mempool_pagemem_to_iomap :: "mempool \<Rightarrow> addr \<Rightarrow> addr res" where
  "mempool_pagemem_to_iomap m ptr = bindE (assertE (mp_iomap_offset m \<noteq> 0)) (\<lambda>_. Inr (ptr + mp_iomap_offset m))"

definition mempool_iomap_to_ptr :: "mempool \<Rightarrow> addr \<Rightarrow> addr res" where
  "mempool_iomap_to_ptr m ioptr = bindE (assertE (mp_iomap_offset m \<noteq> 0)) (\<lambda>_. Inr (ioptr - mp_iomap_offset m))"

section \<open>The chunks of a created pool\<close>

definition page_elems :: "addr \<Rightarrow> u64 \<Rightarrow> nat \<Rightarrow> addr list" where
  "page_elems base el n = map (\<lambda>j. base + of_nat j * el) [0..<n]"

definition pool_elems :: "addr \<Rightarrow> u64 \<Rightarrow> nat \<Rightarrow> nat \<Rightarrow> addr list" where
  "pool_elems buf el epp n = concat (map (\<lambda>i. page_elems (buf + of_int (s32 (int i * PGSIZE_2MB))) el epp) [0..<n])"

lemma page_elems_Suc: "page_elems base el (Suc n) = base # page_elems (base + el) el n"
proof -
  have "page_elems base el (Suc n) = map (\<lambda>j. base + of_nat j * el) (0 # map Suc [0..<n])"
    unfolding page_elems_def map_Suc_upt by (simp add: upt_conv_Cons del: upt_Suc)
  then show ?thesis by (simp add: page_elems_def algebra_simps)
qed

lemma init_page_fold: "init_page el n cur st = fold init_elem (page_elems cur el n) st"
  by (induction n arbitrary: cur st) (simp_all add: page_elems_Suc, simp add: page_elems_def)

lemma init_pages_fold:
  "init_pages buf epp el (int i) k st =
     fold init_elem (concat (map (\<lambda>i. page_elems (buf + of_int (s32 (int i * PGSIZE_2MB))) el epp) [i..<i + k])) st"
proof (induction k arbitrary: i st)
  case (Suc k)
  have "[i..<i + Suc k] = i # [Suc i..<Suc i + k]" by (simp add: upt_conv_Cons)
  then show ?case using Suc [of "Suc i"] by (simp add: init_page_fold add.commute)
qed simp

text \<open>
  What the loop has built after the elements \<open>xs\<close>: the chunks \<open>css\<close>, the latest first, and the elements \<open>part\<close> of the
  chunk under construction, in memory that is still zero where no element has been linked.
\<close>

definition frame :: "mempool_datastore \<Rightarrow> mempool_datastore" where
  "frame m = m\<lparr>ds_chunk_head := NULL, ds_num_chunks := 0, ds_free_chunks := 0\<rparr>"

lemma frame_size: "frame m = frame m' \<Longrightarrow> ds_chunk_size m = ds_chunk_size m'"
  by (cases m; cases m') (simp add: frame_def)

lemma frame_fields:
  assumes "frame m = frame m'"
  shows "ds_magic m = ds_magic m'" "ds_chunk_size m = ds_chunk_size m'" "ds_buf m = ds_buf m'"
  using assms by (cases m, cases m', simp add: frame_def)+

definition init_inv :: "mempool_datastore \<Rightarrow> heap \<Rightarrow> nat \<Rightarrow> addr list \<Rightarrow> addr list list \<Rightarrow> addr list \<Rightarrow> init_st \<Rightarrow> bool" where
  "init_inv m0 h0 k xs css part st \<longleftrightarrow> (case st of (h, mds, head, prev, n) \<Rightarrow>
     xs = concat (rev css) @ part \<and> (\<forall>c\<in>set css. length c = k) \<and> n = int (length part) \<and> length part < k \<and>
     frame mds = frame m0 \<and> ds_num_chunks mds = int (length css) \<and> ds_free_chunks mds = int (length css) \<and>
     chunk_chain h (ds_chunk_head mds) css \<and> chain h HDR_NEXT head part \<and>
     prev = (if part = [] then NULL else last part) \<and> (part \<noteq> [] \<longrightarrow> head = hd part) \<and>
     (\<forall>x\<in>set part. h x HDR_NEXT_CHUNK = NULL) \<and> (\<forall>x. x \<notin> set xs \<longrightarrow> h x = h0 x))"

lemma chain_extend:
  assumes c: "chain h HDR_NEXT p part" and ne: "part \<noteq> []" and d: "distinct part" and x: "x \<notin> set part" "x \<noteq> NULL" "h x HDR_NEXT = NULL"
  shows "chain (hwrite h (last part) HDR_NEXT x) HDR_NEXT p (part @ [x])"
proof -
  obtain ys l where eq: "part = ys @ [l]" using ne by (metis append_butlast_last_id)
  have "chain (hwrite h l HDR_NEXT x) HDR_NEXT p (ys @ [l, x])"
    by (rule chain_snoc_write [of h HDR_NEXT p ys l x]) (use c d x eq in \<open>auto simp: hwrite_def\<close>)
  then show ?thesis by (simp add: eq)
qed

lemma init_elem_inv:
  assumes inv: "init_inv m0 h0 k xs css part st" and x: "x \<notin> set xs" "x \<noteq> NULL" "h0 x HDR_NEXT = NULL" "h0 x HDR_NEXT_CHUNK = NULL"
    and d: "distinct xs" and k: "ds_chunk_size m0 = int k"
  shows "\<exists>css' part'. init_inv m0 h0 k (xs @ [x]) css' part' (init_elem x st)"
proof -
  obtain h mds hd0 prev n where st: "st = (h, mds, hd0, prev, n)" by (cases st) auto
  from inv have xs: "xs = concat (rev css) @ part" and len: "\<forall>c\<in>set css. length c = k" "n = int (length part)" "length part < k"
    and fr: "frame mds = frame m0" "ds_num_chunks mds = int (length css)" "ds_free_chunks mds = int (length css)"
    and cc0: "chunk_chain h (ds_chunk_head mds) css" and ch0: "chain h HDR_NEXT hd0 part"
    and prev: "prev = (if part = [] then NULL else last part)" and hd0: "part \<noteq> [] \<longrightarrow> hd0 = hd part"
    and nc0: "\<forall>x\<in>set part. h x HDR_NEXT_CHUNK = NULL" and out0: "\<forall>x. x \<notin> set xs \<longrightarrow> h x = h0 x"
    by (simp_all add: init_inv_def st)
  define h1 where "h1 = (if prev = NULL then h else hwrite h prev HDR_NEXT x)"
  define hd1 where "hd1 = (if prev = NULL then x else hd0)"
  have dp: "distinct part" and dc: "set part \<inter> set (concat css) = {}" "x \<notin> set part" "x \<notin> set (concat css)"
    using xs d x(1) by auto
  have hx: "h x HDR_NEXT = NULL" "h x HDR_NEXT_CHUNK = NULL" using out0 x by auto
  have nn: "NULL \<notin> set part" using ch0 by (rule chain_not_NULL)
  have pn: "prev = NULL \<longleftrightarrow> part = []" using prev nn by (metis last_in_set)
  have ch: "chain h1 HDR_NEXT hd1 (part @ [x])"
  proof (cases "part = []")
    case True
    then show ?thesis using pn x(2) hx by (simp add: h1_def hd1_def)
  next
    case False
    then have "h1 = hwrite h (last part) HDR_NEXT x" "hd1 = hd0" using prev pn by (simp_all add: h1_def hd1_def)
    then show ?thesis using chain_extend [OF ch0 False dp dc(2) x(2) hx(1)] by simp
  qed
  have pr: "prev \<in> set part \<or> prev = NULL" using prev by auto
  have cc: "chunk_chain h1 (ds_chunk_head mds) css"
  proof (cases "prev = NULL")
    case False
    then have "prev \<notin> set (concat css)" using pr dc(1) by blast
    then show ?thesis using cc0 by (simp add: h1_def)
  qed (simp add: h1_def cc0)
  have nc: "\<forall>y\<in>set (part @ [x]). h1 y HDR_NEXT_CHUNK = NULL" using nc0 hx by (auto simp: h1_def)
  have out: "\<forall>y. y \<notin> set (xs @ [x]) \<longrightarrow> h1 y = h0 y" using out0 pr xs by (auto simp: h1_def hwrite_def)
  have hd1: "hd1 = hd (part @ [x])" using hd0 pn by (simp add: hd1_def hd_append)
  have step: "init_elem x st = (if n + 1 = int k then
      (if ds_chunk_head mds = NULL then h1 else hwrite h1 hd1 HDR_NEXT_CHUNK (ds_chunk_head mds),
       mds\<lparr>ds_chunk_head := hd1, ds_num_chunks := ds_num_chunks mds + 1, ds_free_chunks := ds_free_chunks mds + 1\<rparr>, NULL, NULL, 0)
      else (h1, mds, hd1, x, n + 1))"
    using frame_size [OF fr(1)] k by (simp add: init_elem_def st h1_def hd1_def Let_def)
  show ?thesis
  proof (cases "n + 1 = int k")
    case False
    then have "length (part @ [x]) < k" using len by simp
    then have "init_inv m0 h0 k (xs @ [x]) css (part @ [x]) (init_elem x st)"
      using False xs len fr cc ch nc out hd1 by (simp add: step init_inv_def)
    then show ?thesis by blast
  next
    case True
    define h2 where "h2 = (if ds_chunk_head mds = NULL then h1 else hwrite h1 hd1 HDR_NEXT_CHUNK (ds_chunk_head mds))"
    have hin: "hd1 \<in> set (part @ [x])" "hd1 \<notin> set (concat css)" using hd1 dc by (auto simp: hd_append dest: hd_in_set)
    then have "hd1 \<noteq> NULL" using nn x(2) by auto
    have nx: "h2 hd1 HDR_NEXT_CHUNK = ds_chunk_head mds" using bspec [OF nc hin(1)] by (simp add: h2_def)
    have c1: "chain h2 HDR_NEXT hd1 (part @ [x])" using ch by (simp add: h2_def)
    have c2: "chunk_chain h2 (ds_chunk_head mds) css"
      using cc hin(2) by (cases "ds_chunk_head mds = NULL") (simp_all add: h2_def del: set_concat)
    have "chunk_chain h2 hd1 ((part @ [x]) # css)" using \<open>hd1 \<noteq> NULL\<close> c1 c2 nx by simp
    moreover have "\<forall>y. y \<notin> set (xs @ [x]) \<longrightarrow> h2 y = h0 y" using out hin(1) xs by (auto simp: h2_def hwrite_def)
    moreover have "length (part @ [x]) = k" using True len by simp
    moreover have "0 < k" using len(3) by simp
    ultimately have "init_inv m0 h0 k (xs @ [x]) ((part @ [x]) # css) [] (init_elem x st)"
      using True xs len(1) fr by (simp add: step init_inv_def h2_def [symmetric] frame_def)
    then show ?thesis by blast
  qed
qed

lemma fold_init_inv:
  assumes "init_inv m0 h0 k xs css part st" and "distinct (xs @ ys)" and "NULL \<notin> set ys"
    and "\<forall>y\<in>set ys. h0 y HDR_NEXT = NULL \<and> h0 y HDR_NEXT_CHUNK = NULL" and "ds_chunk_size m0 = int k"
  shows "\<exists>css' part'. init_inv m0 h0 k (xs @ ys) css' part' (fold init_elem ys st)"
  using assms(1-4)
proof (induction ys arbitrary: xs css part st)
  case (Cons y ys)
  obtain css' part' where "init_inv m0 h0 k (xs @ [y]) css' part' (init_elem y st)"
    using init_elem_inv [OF Cons.prems(1), of y] Cons.prems(2-4) assms(5) by auto
  from Cons.IH [OF this] Cons.prems(2-4) show ?case by simp
qed auto

text \<open>All elements that fill complete chunks are free in the pool; the rest of memory is untouched.\<close>

lemma init_buf_spec:
  assumes "distinct xs" and "NULL \<notin> set xs" and "\<forall>x\<in>set xs. h x = (\<lambda>_. 0)"
    and "ds_chunk_size mds = int k" "0 < k" and "ds_chunk_head mds = NULL" "ds_num_chunks mds = 0" "ds_free_chunks mds = 0"
    and "xs = pool_elems (ds_buf mds) el (nat epp) (nat n)"
  shows "\<exists>h' mds' css part. mempool_init_buf_with_pages mds epp n el h = (mds', h') \<and> xs = concat (rev css) @ part \<and>
    (\<forall>c\<in>set css. length c = k) \<and> length part < k \<and> chunk_chain h' (ds_chunk_head mds') css \<and> frame mds' = frame mds \<and>
    ds_free_chunks mds' = int (length css) \<and> (\<forall>x. x \<notin> set xs \<longrightarrow> h' x = h x)"
proof -
  have i0: "init_inv mds h k [] [] [] (h, mds, NULL, NULL, 0)" using assms(5-8) by (simp add: init_inv_def)
  obtain css part where "init_inv mds h k ([] @ xs) css part (fold init_elem xs (h, mds, NULL, NULL, 0))"
    using fold_init_inv [OF i0, of xs] assms(1-4) by auto
  moreover have "init_pages (ds_buf mds) (nat epp) el 0 (nat n) (h, mds, NULL, NULL, 0) = fold init_elem xs (h, mds, NULL, NULL, 0)"
    using init_pages_fold [of "ds_buf mds" "nat epp" el 0 "nat n"] assms(9) by (simp add: pool_elems_def)
  moreover obtain h' mds' a b c where "fold init_elem xs (h, mds, NULL, NULL, 0) = (h', mds', a, b, c)" by (metis prod_cases5)
  ultimately show ?thesis by (auto simp: init_inv_def mempool_init_buf_with_pages_def)
qed

lemma concat_length: "(\<forall>c\<in>set css. length c = k) \<Longrightarrow> length (concat css) = k * length css"
  by (induction css) auto

lemma chunk_take:
  assumes "xs = concat (rev css) @ part" "\<forall>c\<in>set css. length c = k" "length part < k"
  shows "set (concat css) = set (take (length xs div k * k) xs)" "length css = length xs div k"
proof -
  have l: "length (concat (rev css)) = k * length css" using concat_length [of "rev css" k] assms(2) by simp
  then have len: "length xs = k * length css + length part" using assms(1) by simp
  then show n: "length css = length xs div k" using assms(3) by simp
  have "take (k * length css) xs = concat (rev css)" using assms(1) l by simp
  then show "set (concat css) = set (take (length xs div k * k) xs)" using n by (simp add: mult.commute)
qed

lemma fresh_pool_ok:
  assumes "chunk_chain h (ds_chunk_head d) css" "distinct (concat css)" "ds_free_chunks d = int (length css)"
    and "mp_magic m = MEMPOOL_MAGIC" "mp_datastore m \<noteq> NULL" "0 < mp_chunk_size m" "mp_num_free m = 0" "mp_head m = NULL" "mp_private_chunk m = NULL"
  shows "mempool_ok h (m, d) (set (concat css)) {}"
proof -
  have "mempool_rep h m d [] [] css \<and> set (concat css) = rep_free [] [] css"
    using assms by (simp add: mempool_rep_def rep_free_def)
  then show ?thesis using assms(7) unfolding mempool_ok_def by (simp del: set_concat) blast
qed

section \<open>Where the elements lie\<close>

lemma pool_elems_product:
  "pool_elems buf el epp n = map (\<lambda>(i, j). buf + of_int (s32 (int i * PGSIZE_2MB)) + of_nat j * el) (List.product [0..<n] [0..<epp])"
  by (simp add: pool_elems_def page_elems_def product_concat_map map_concat comp_def)

lemma length_pool_elems [simp]: "length (pool_elems buf el epp n) = n * epp"
  by (simp add: pool_elems_product)

lemma elem_addr:
  assumes reg: "unat buf + n * 2 ^ 21 \<le> unat MEM_USER_START" "MEM_PHYS_BASE_ADDR \<le> buf" "n < 1024" and i: "i < n"
    and j: "j < epp" and el: "epp * unat el \<le> 2 ^ 21" "0 < unat el"
  shows "unat (buf + of_int (s32 (int i * PGSIZE_2MB)) + of_nat j * el) = unat buf + (i * 2 ^ 21 + j * unat el)"
    "j * unat el + unat el \<le> 2 ^ 21"
proof -
  let ?p = "buf + of_int (s32 (int i * PGSIZE_2MB))"
  note p = page_addr(1) [OF reg i]
  have u: "unat MEM_USER_START = 0x7000000000" by (simp add: mem_map)
  have "(j + 1) * unat el \<le> epp * unat el" using j by (intro mult_right_mono) simp_all
  then show je: "j * unat el + unat el \<le> 2 ^ 21" using el(1) by simp
  have "epp \<le> 2 ^ 21" using el by (metis le_trans mult.right_neutral mult_le_mono2 Suc_leI One_nat_def)
  then have "unat (of_nat j :: u64) = j" using j by (intro unat_of_nat64) simp
  then have e: "unat (of_nat j * el) = j * unat el" using je by (simp add: unat_word_ariths)
  have "(i + 1) * 2 ^ 21 \<le> n * (2 ^ 21 :: nat)" using i by (intro mult_right_mono) simp_all
  then have "unat ?p + unat (of_nat j * el) < 2 ^ LENGTH(64)" using p e je reg(1) u by simp
  then have "unat (?p + of_nat j * el) = unat ?p + unat (of_nat j * el)" by (simp only: unat_add_lem)
  then show "unat (?p + of_nat j * el) = unat buf + (i * 2 ^ 21 + j * unat el)" using p e by simp
qed

lemma pool_elems_ok:
  assumes reg: "unat buf + n * 2 ^ 21 \<le> unat MEM_USER_START" "MEM_PHYS_BASE_ADDR \<le> buf" "n < 1024"
    and el: "epp * unat el \<le> 2 ^ 21" "0 < unat el"
  shows "distinct (pool_elems buf el epp n)" "NULL \<notin> set (pool_elems buf el epp n)"
    "\<forall>x\<in>set (pool_elems buf el epp n). in_region buf (of_nat (n * 2 ^ 21)) x"
proof -
  let ?f = "\<lambda>(i, j). buf + of_int (s32 (int i * PGSIZE_2MB)) + of_nat j * el"
  have ad: "unat (?f (i, j)) = unat buf + (i * 2 ^ 21 + j * unat el)" "j * unat el + unat el \<le> 2 ^ 21" if "i < n" "j < epp" for i j
    using elem_addr [OF reg that(1) that(2) el] by simp_all
  have "inj_on ?f (set (List.product [0..<n] [0..<epp]))"
  proof (rule inj_onI, clarsimp simp del: of_int_mult)
    fix i j i' j'
    assume ij: "i < n" "j < epp" "i' < n" "j' < epp" and eq: "of_int (s32 (int i * PGSIZE_2MB)) + of_nat j * el = of_int (s32 (int i' * PGSIZE_2MB)) + of_nat j' * el"
    have "unat (?f (i, j)) = unat (?f (i', j'))" using eq by (simp add: add.assoc)
    then have e: "i * 2 ^ 21 + j * unat el = i' * 2 ^ 21 + j' * unat el"
      unfolding ad(1) [OF ij(1,2)] ad(1) [OF ij(3,4)] by (rule add_left_imp_eq)
    have lt: "j * unat el < 2 ^ 21" "j' * unat el < 2 ^ 21" using ad(2) [OF ij(1,2)] ad(2) [OF ij(3,4)] el(2) by simp_all
    have "i = (i * 2 ^ 21 + j * unat el) div 2 ^ 21" "i' = (i' * 2 ^ 21 + j' * unat el) div 2 ^ 21" using lt by simp_all
    then have "i = i'" using e by metis
    then show "i = i' \<and> j = j'" using e el(2) by simp
  qed
  then show "distinct (pool_elems buf el epp n)" by (simp add: pool_elems_product distinct_map distinct_product)
  have u: "0 < unat buf" using reg(2) by (simp add: word_le_nat_alt mem_map)
  have k: "unat (of_nat (n * 2 ^ 21) :: u64) = n * 2 ^ 21" using reg(3) by (intro unat_of_nat64) simp
  have all: "x \<noteq> NULL \<and> in_region buf (of_nat (n * 2 ^ 21)) x" if x: "x \<in> set (pool_elems buf el epp n)" for x
  proof -
    obtain i j where ij: "i < n" "j < epp" "x = ?f (i, j)" using x by (auto simp: pool_elems_product)
    have ux: "unat x = unat buf + (i * 2 ^ 21 + j * unat el)" using ad(1) [OF ij(1,2)] ij(3) by simp
    have "(i + 1) * 2 ^ 21 \<le> n * (2 ^ 21 :: nat)" using ij(1) by (intro mult_right_mono) simp_all
    then have "i * 2 ^ 21 + j * unat el < n * 2 ^ 21" using ad(2) [OF ij(1,2)] el(2) by simp
    moreover have "unat (x - buf) = i * 2 ^ 21 + j * unat el" using ux by (simp add: unat_sub word_le_nat_alt)
    ultimately have "in_region buf (of_nat (n * 2 ^ 21)) x" using k unfolding in_region_def word_less_nat_alt by simp
    moreover have "x \<noteq> NULL" using ux u by auto
    ultimately show ?thesis by simp
  qed
  show "NULL \<notin> set (pool_elems buf el epp n)" "\<forall>x\<in>set (pool_elems buf el epp n). in_region buf (of_nat (n * 2 ^ 21)) x"
    using all by blast+
qed

section \<open>Creating a datastore\<close>

definition fresh_datastore :: "mempool_datastore \<Rightarrow> bool" where
  "fresh_datastore d \<longleftrightarrow> ds_magic d = 0 \<and> ds_chunk_head d = NULL \<and> ds_num_chunks d = 0 \<and> ds_free_chunks d = 0"

text \<open>The sizes for which the C arithmetic is exact: fewer than 1024 pages, and elements that fit a page.\<close>

definition pool_pages :: "nat \<Rightarrow> nat \<Rightarrow> nat" where
  "pool_pages nr el = (nr + 2 ^ 21 div el - 1) div (2 ^ 21 div el)"

definition sizes_ok :: "nat \<Rightarrow> nat \<Rightarrow> nat \<Rightarrow> bool" where
  "sizes_ok nr el k \<longleftrightarrow> 0 < nr \<and> nr < 2 ^ 30 \<and> 0 < k \<and> int k AND (int k - 1) = 0 \<and> k dvd nr \<and> 0 < el \<and> el \<le> 2 ^ 21 \<and> pool_pages nr el < 1024"

lemma pool_pages_enough:
  assumes "0 < nr" "0 < el" "el \<le> 2 ^ 21"
  shows "nr \<le> pool_pages nr el * (2 ^ 21 div el)" "0 < pool_pages nr el"
proof -
  let ?e = "2 ^ 21 div el"
  have e: "0 < ?e" using assms by (simp add: div_greater_zero_iff)
  have "nr + ?e - 1 = pool_pages nr el * ?e + (nr + ?e - 1) mod ?e"
    unfolding pool_pages_def by (rule div_mult_mod_eq [symmetric])
  moreover have "(nr + ?e - 1) mod ?e < ?e" using e by simp
  ultimately show "nr \<le> pool_pages nr el * ?e" by linarith
  then show "0 < pool_pages nr el" using assms(1) by (metis bot_nat_0.not_eq_extremum leD mult_zero_left)
qed

lemma s32_small: "n \<le> 2 ^ 21 \<Longrightarrow> s32 (int n) = int n"
  by simp

lemma s32_round:
  assumes "0 < nr" "nr < 2 ^ 30" "0 < e" "e \<le> 2 ^ 21"
  shows "s32 (int nr + int e - 1) = int (nr + e - 1)"
  using assms by (subst s32_id) (simp_all add: of_nat_diff)

lemma sdiv_int: "int a sdiv int b = int (a div b)"
  by (cases "a = 0"; cases "b = 0") (simp_all add: signed_divide_int_def of_nat_div)

lemma create_datastore_ok:
  assumes os: "os_grants os" and fd: "fresh_datastore d" and al: "unat (align_up elem_len 8) = el" "elem_len \<noteq> 0"
    and sz: "sizes_ok nr el k" and pp: "MEM_PHYS_BASE_ADDR \<le> page_pos s"
      "unat (page_pos s) + pool_pages nr el * 2 ^ 21 \<le> unat MEM_USER_START" and tbl: "length (page_tbl s) = NUM_PAGES"
  shows "\<exists>d' s' css. mempool_create_datastore os node d (int nr) elem_len 1 (int k) nm s = Inr (0, d', s') \<and>
    ds_magic d' = MEMPOOL_MAGIC \<and> ds_chunk_size d' = int k \<and> ds_buf d' = page_pos s \<and>
    chunk_chain (mm_heap s') (ds_chunk_head d') css \<and> distinct (concat css) \<and> ds_free_chunks d' = int (length css) \<and>
    nr \<le> length (concat css) \<and>
    (\<forall>x\<in>set (concat css). in_region (page_pos s) (of_nat (pool_pages nr el * 2 ^ 21)) x) \<and>
    (\<forall>x. \<not> in_region (page_pos s) (of_nat (pool_pages nr el * 2 ^ 21)) x \<longrightarrow> mm_heap s' x = mm_heap s x) \<and>
    page_pos s' = page_pos s + of_nat (pool_pages nr el * 2 ^ 21) \<and> length (page_tbl s') = NUM_PAGES"
proof -
  let ?buf = "page_pos s" and ?el = "align_up elem_len 8" and ?n = "pool_pages nr el" and ?e = "2 ^ 21 div el"
  from sz have nr: "0 < nr" "nr < 2 ^ 30" and k: "0 < k" "int k AND (int k - 1) = 0" "k dvd nr" and el: "0 < el" "el \<le> 2 ^ 21"
    and n: "?n < 1024" by (simp_all add: sizes_ok_def)
  have e0: "0 < ?e" "?e \<le> 2 ^ 21" using el by (simp_all add: div_greater_zero_iff)
  note enough = pool_pages_enough [OF nr(1) el]
  have ep: "s32 (uint (of_int PGSIZE_2MB div ?el)) = int ?e"
  proof -
    have "unat (of_int PGSIZE_2MB div ?el) = ?e" by (simp add: unat_div al(1) page_sizes)
    then have "uint (of_int PGSIZE_2MB div ?el) = int ?e" by (metis uint_nat)
    then show ?thesis using e0 by (metis s32_small)
  qed
  have dv: "int nr sdiv int k * int k = int nr" using k by (simp add: signed_divide_int_def flip: of_nat_div of_nat_mult)
  have pg: "s32 (int nr + int ?e - 1) sdiv int ?e = int ?n"
  proof -
    have "s32 (int nr + int ?e - 1) = int (nr + ?e - 1)" using nr e0 by (rule s32_round)
    then have "s32 (int nr + int ?e - 1) sdiv int ?e = int (nr + ?e - 1) sdiv int ?e" by (rule arg_cong)
    then show ?thesis by (simp only: sdiv_int pool_pages_def)
  qed
  have un: "unat (of_int (int ?n) :: u32) = ?n" using n by (simp add: unsigned_of_nat take_bit_nat_eq_self)
  have uc: "(ucast (of_int (int ?n) :: u32) :: u64) = of_nat ?n" using un by (metis of_nat_unat)
  obtain pt tb where pa: "page_alloc_contig os node (of_int (int ?n)) s = Inr (?buf,
      s\<lparr>mm_heap := zeroed ?buf (of_nat (?n * 2 ^ 21)) (mm_heap s), page_pos := ?buf + of_nat (?n * 2 ^ 21), pgroot := pt, page_tbl := tb\<rparr>)"
    "length tb = NUM_PAGES"
    using page_alloc_granted [OF os, of "of_int (int ?n)" s node] un uc n enough(2) pp tbl by auto
  define s1 where "s1 = s\<lparr>mm_heap := zeroed ?buf (of_nat (?n * 2 ^ 21)) (mm_heap s), page_pos := ?buf + of_nat (?n * 2 ^ 21), pgroot := pt, page_tbl := tb\<rparr>"
  have b: "?buf \<noteq> NULL" "?buf \<noteq> MAP_FAILED"
  proof -
    show "?buf \<noteq> NULL" using pp(1) by (auto simp: mem_map)
    have "\<not> MEM_USER_START \<le> ?buf" using pp(2) enough(2) by (simp add: word_le_nat_alt)
    then show "?buf \<noteq> MAP_FAILED" by (auto simp: mem_map)
  qed
  define d2 where "d2 = d\<lparr>ds_magic := MEMPOOL_MAGIC, ds_prettyname := nm, ds_buf := ?buf, ds_nr_pages := int ?n, ds_nr_elems := of_int (int nr),
    ds_elem_len := ?el, ds_chunk_size := int k, ds_nostraddle := 1\<rparr>"
  define xs where "xs = pool_elems ?buf ?el ?e ?n"
  have ee: "?e * unat ?el \<le> 2 ^ 21" unfolding al(1) by (rule div_times_less_eq_dividend)
  note pe = pool_elems_ok [OF pp(2,1) n ee, unfolded al(1), OF el(1), folded xs_def]
  have z: "\<forall>x\<in>set xs. mm_heap s1 x = (\<lambda>_. 0)" using pe(3) by (simp add: s1_def zeroed_def)
  obtain h' d' css part where ib: "mempool_init_buf_with_pages d2 (int ?e) (int ?n) ?el (mm_heap s1) = (d', h')"
    and sp: "xs = concat (rev css) @ part" "\<forall>c\<in>set css. length c = k" "length part < k" "chunk_chain h' (ds_chunk_head d') css"
      "frame d' = frame d2" "ds_free_chunks d' = int (length css)" "\<forall>x. x \<notin> set xs \<longrightarrow> h' x = mm_heap s1 x"
    using init_buf_spec [OF pe(1,2) z, of d2 k ?el "int ?e" "int ?n"] k(1) fd
    by (auto simp: d2_def fresh_datastore_def xs_def nat_div_distrib nat_power_eq)
  have call: "mempool_create_datastore os node d (int nr) elem_len 1 (int k) nm s = Inr (0, d', s1\<lparr>mm_heap := h'\<rparr>)"
    using fd k dv al(2) nr(1) ep pg pa(1) b e0(1) ib
    by (simp add: mempool_create_datastore_def Let_def fresh_datastore_def s1_def d2_def del: of_int_of_nat_eq)
  have dc: "distinct (concat css)" using pe(1) sp(1) by (simp add: distinct_concat_iff removeAll_filter_not_eq rev_filter [symmetric])
  have lc: "nr \<le> length (concat css)"
  proof -
    have "length (concat css) = k * (length xs div k)" using concat_length [OF sp(2)] chunk_take(2) [OF sp(1-3)] by simp
    moreover have "nr \<le> length xs" using enough(1) by (simp add: xs_def)
    moreover have "nr = k * (nr div k)" using k(3) by simp
    ultimately show ?thesis by (metis div_le_mono mult_le_mono2)
  qed
  have sub: "set (concat css) \<subseteq> set xs" using sp(1) by auto
  have fd': "ds_magic d' = MEMPOOL_MAGIC" "ds_chunk_size d' = int k" "ds_buf d' = ?buf"
    using frame_fields [OF sp(5)] by (simp_all add: d2_def)
  have out: "\<forall>x. \<not> in_region ?buf (of_nat (?n * 2 ^ 21)) x \<longrightarrow> h' x = mm_heap s x"
    using sp(7) pe(3) by (auto simp: s1_def zeroed_def)
  show ?thesis
    by (rule exI [of _ d'], rule exI [of _ "s1\<lparr>mm_heap := h'\<rparr>"], rule exI [of _ css])
      (use call fd' sp(4,6) dc lc sub pe(3) out pa(2) in \<open>auto simp: s1_def\<close>)
qed

section \<open>Conversions\<close>

lemma unat_ucast_u32: "unat (ucast (x :: u32) :: u64) = unat x"
proof -
  have "unat x < 2 ^ 32" using unsigned_less [of x] by simp
  then have "unat x < 2 ^ 64" by simp
  then show ?thesis by (simp only: unsigned_ucast_eq) (simp add: take_bit_nat_eq_self)
qed

text \<open>
  In a pool whose elements are contiguous, \<open>mempool_ptr_to_idx\<close> inverts \<open>mempool_idx_to_ptr\<close> as long as the
  pool is smaller than 2 GB, and the two translations of user mappings are inverse to each other.
\<close>

theorem mempool_conversions:
  assumes "idx < mp_nr_elems m" "mp_nostraddle m = 0" "0 < unat len" "unat len * unat (mp_nr_elems m) \<le> 2147483647" "mp_iomap_offset m \<noteq> 0"
  shows "bindE (mempool_idx_to_ptr m idx len) (\<lambda>p. mempool_ptr_to_idx m p len) = Inr (ucast idx) \<and>
    bindE (mempool_pagemem_to_iomap m p) (mempool_iomap_to_ptr m) = Inr p"
proof
  show "bindE (mempool_pagemem_to_iomap m p) (mempool_iomap_to_ptr m) = Inr p"
    using assms(5) by (simp add: mempool_pagemem_to_iomap_def mempool_iomap_to_ptr_def)
  have i: "unat idx < unat (mp_nr_elems m)" using assms(1) by (simp add: word_less_nat_alt)
  then have "unat len * unat idx \<le> unat len * unat (mp_nr_elems m)" by simp
  then have le: "unat len * unat idx \<le> 2147483647" using assms(4) by linarith
  have "unat len \<le> unat len * unat (mp_nr_elems m)" using i by (cases "unat (mp_nr_elems m)") simp_all
  then have "unat len < 2147483648" using assms(4) by linarith
  then have l: "(scast len :: u64) = of_nat (unat len)"
    using sint_small [of len] by (metis of_int_of_nat_eq of_int_sint)
  then have ul: "unat (scast len :: u64) = unat len" using \<open>unat len < 2147483648\<close> by (simp add: unat_ucast_u32)
  have um: "unat (ucast (len * idx) :: u64) = unat len * unat idx"
    using le by (simp only: unat_ucast_u32 unat_word_ariths) simp
  have "unat ((ucast (len * idx) :: u64) div scast len) = unat idx"
    unfolding unat_div um ul using assms(3) by simp
  then have q: "(ucast (len * idx) :: u64) div scast len = ucast idx"
    by (metis of_nat_unat ucast_id)
  have "(ucast idx :: u64) < ucast (mp_nr_elems m)"
    using i by (simp add: word_less_nat_alt unat_ucast_u32)
  then show "bindE (mempool_idx_to_ptr m idx len) (\<lambda>p. mempool_ptr_to_idx m p len) = Inr (ucast idx)"
    using assms(1-3) q by (auto simp: mempool_idx_to_ptr_def mempool_ptr_to_idx_def Let_def)
qed

theorem mempool_conversions_witness:
  "\<exists>m :: mempool. bindE (mempool_idx_to_ptr m 7 48) (\<lambda>p. mempool_ptr_to_idx m p 48) = Inr 7 \<and>
     bindE (mempool_pagemem_to_iomap m 0x4000000030) (mempool_iomap_to_ptr m) = Inr 0x4000000030"
proof -
  define m where "m = \<lparr>mp_head = NULL, mp_num_free = 0, mp_elem_len = 48, mp_magic = MEMPOOL_MAGIC, mp_buf = 0x4000000000, mp_datastore = 0x1000,
    mp_private_chunk = NULL, mp_sanity = 0, mp_nr_elems = 1024, mp_nostraddle = 0, mp_chunk_size = 128, mp_iomap_addr = 0x70000000000, mp_iomap_offset = 0x6C000000000\<rparr>"
  have "bindE (mempool_idx_to_ptr m 7 48) (\<lambda>p. mempool_ptr_to_idx m p 48) = Inr (ucast (7 :: u32))"
    "bindE (mempool_pagemem_to_iomap m 0x4000000030) (mempool_iomap_to_ptr m) = Inr 0x4000000030"
    using mempool_conversions [of 7 m 48 "0x4000000030"] by (simp_all add: m_def)
  then show ?thesis by (intro exI [of _ m]) simp
qed

end
