(* ===== verification/Pool_Setup.thy ===== *)
theory Pool_Setup
  imports Mempool_Create Dispatch_Refine
begin

text \<open>
  The pools that the program creates at start: tasks and buffer cells (\<open>dp/core/taskqueue.c\<close>), contexts and stacks
  (\<open>dp/core/context.c\<close>), packet buffers (\<open>dp/core/mbuf.c\<close>) and responses (\<open>dp/core/worker.c\<close>).  They are
  disjoint, hold what their capacity says, and are the state in which the dispatcher starts.
\<close>

section \<open>Operations\<close>

definition TASK_CAPACITY :: int where
  "TASK_CAPACITY = 768 * 1024"

definition MCELL_CAPACITY :: int where
  "MCELL_CAPACITY = 768 * 1024"

definition CONTEXT_CAPACITY :: int where
  "CONTEXT_CAPACITY = 768 * 1024"

definition STACK_CAPACITY :: int where
  "STACK_CAPACITY = 768 * 1024"

definition MBUF_CAPACITY :: int where
  "MBUF_CAPACITY = 844 * 1024"

definition MEMPOOL_SANITY_GLOBAL :: u16 where
  "MEMPOOL_SANITY_GLOBAL = 0"

definition MEMPOOL_SANITY_PERCPU :: u16 where
  "MEMPOOL_SANITY_PERCPU = 1"

text \<open>
  The sizes of \<open>struct task\<close>, \<open>struct mbuf_cell\<close> and \<open>struct response\<close>; that of \<open>ucontext_t\<close> belongs to the C
  library and is a parameter, as are the addresses of the static datastores.
\<close>

abbreviation sizeof_task :: u64 where "sizeof_task \<equiv> 40"
abbreviation sizeof_mbuf_cell :: u64 where "sizeof_mbuf_cell \<equiv> 16"
abbreviation sizeof_response :: u64 where "sizeof_response \<equiv> 48"

record boot =
  b_mm :: mm
  b_task :: pool
  b_mcell :: pool
  b_context :: pool
  b_stack :: pool
  mbuf_datastore :: mempool_datastore
  response_datastore :: mempool_datastore

text \<open>A datastore of elements that do not straddle pages, and the pool over it; a nonzero result is an error code.\<close>

definition init_datastore :: "os \<Rightarrow> nat \<Rightarrow> mempool_datastore \<Rightarrow> int \<Rightarrow> u64 \<Rightarrow> string \<Rightarrow> mm \<Rightarrow> (int \<times> mempool_datastore \<times> mm) res" where
  "init_datastore os node d nr len nm s = mempool_create_datastore os node d nr len 1 MEMPOOL_DEFAULT_CHUNKSIZE nm s"

definition init_pool :: "os \<Rightarrow> nat \<Rightarrow> addr \<Rightarrow> pool \<Rightarrow> int \<Rightarrow> u64 \<Rightarrow> string \<Rightarrow> mm \<Rightarrow> (int \<times> pool \<times> mm) res" where
  "init_pool os node dsp p nr len nm s =
     bindE (init_datastore os node (snd p) nr len nm s) (\<lambda>(ret, d, s1).
     if ret \<noteq> 0 then Inr (ret, (fst p, d), s1)
     else bindE (mempool_create (fst p) dsp d MEMPOOL_SANITY_GLOBAL 0) (\<lambda>(ret, m). Inr (ret, (m, d), s1)))"

definition taskqueue_init :: "os \<Rightarrow> nat \<Rightarrow> addr \<Rightarrow> addr \<Rightarrow> boot \<Rightarrow> (int \<times> boot) res" where
  "taskqueue_init os node tds mds b =
     bindE (init_pool os node tds (b_task b) TASK_CAPACITY sizeof_task ''task'' (b_mm b)) (\<lambda>(ret, p, s).
     let b1 = b\<lparr>b_task := p, b_mm := s\<rparr>
     in if ret \<noteq> 0 then Inr (ret, b1)
        else bindE (init_pool os node mds (b_mcell b1) MCELL_CAPACITY sizeof_mbuf_cell ''mcell'' (b_mm b1)) (\<lambda>(ret, p, s).
             Inr (ret, b1\<lparr>b_mcell := p, b_mm := s\<rparr>)))"

definition context_init :: "os \<Rightarrow> nat \<Rightarrow> u64 \<Rightarrow> addr \<Rightarrow> addr \<Rightarrow> boot \<Rightarrow> (int \<times> boot) res" where
  "context_init os node sizeof_ucontext cds sds b =
     bindE (init_pool os node cds (b_context b) CONTEXT_CAPACITY sizeof_ucontext ''context'' (b_mm b)) (\<lambda>(ret, p, s).
     let b1 = b\<lparr>b_context := p, b_mm := s\<rparr>
     in if ret \<noteq> 0 then Inr (ret, b1)
        else bindE (init_pool os node sds (b_stack b1) STACK_CAPACITY STACK_SIZE ''stack'' (b_mm b1)) (\<lambda>(ret, p, s).
             Inr (ret, b1\<lparr>b_stack := p, b_mm := s\<rparr>)))"

text \<open>Both failures of \<open>mbuf_init\<close> hit \<open>assert(0)\<close>.\<close>

definition mbuf_init :: "os \<Rightarrow> nat \<Rightarrow> u64 \<Rightarrow> boot \<Rightarrow> (int \<times> boot) res" where
  "mbuf_init os node mbuf_len b =
     bindE (init_datastore os node (mbuf_datastore b) MBUF_CAPACITY mbuf_len ''mbuf'' (b_mm b)) (\<lambda>(ret, d, s).
     if ret \<noteq> 0 then Inl Assert_failed
     else let (ret, d1, s1) = mempool_pagemem_map_to_user os d s
          in if ret \<noteq> 0 then Inl Assert_failed else Inr (0, b\<lparr>mbuf_datastore := d1, b_mm := s1\<rparr>))"

definition mbuf_init_cpu :: "addr \<Rightarrow> u16 \<Rightarrow> boot \<Rightarrow> mempool \<Rightarrow> (int \<times> mempool) res" where
  "mbuf_init_cpu dsp cpu_id b m = mempool_create m dsp (mbuf_datastore b) MEMPOOL_SANITY_PERCPU cpu_id"

definition mbuf_exit_cpu :: "os \<Rightarrow> boot \<Rightarrow> boot res" where
  "mbuf_exit_cpu os b = bindE (mempool_pagemem_destroy os (mbuf_datastore b) (b_mm b)) (\<lambda>(d, s). Inr (b\<lparr>mbuf_datastore := d, b_mm := s\<rparr>))"

definition response_init :: "os \<Rightarrow> nat \<Rightarrow> boot \<Rightarrow> (int \<times> boot) res" where
  "response_init os node b =
     bindE (init_datastore os node (response_datastore b) 128000 sizeof_response ''response'' (b_mm b)) (\<lambda>(ret, d, s).
     Inr (ret, b\<lparr>response_datastore := d, b_mm := s\<rparr>))"

definition response_init_cpu :: "addr \<Rightarrow> u16 \<Rightarrow> boot \<Rightarrow> mempool \<Rightarrow> (int \<times> mempool) res" where
  "response_init_cpu dsp cpu_id b m = mempool_create m dsp (response_datastore b) MEMPOOL_SANITY_PERCPU cpu_id"

section \<open>A single pool\<close>

definition fresh_pool :: "pool \<Rightarrow> bool" where
  "fresh_pool p \<longleftrightarrow> fresh_datastore (snd p) \<and> mp_magic (fst p) = 0 \<and> mp_num_free (fst p) = 0 \<and> mp_private_chunk (fst p) = NULL"

definition mm_room :: "mm \<Rightarrow> nat \<Rightarrow> bool" where
  "mm_room s n \<longleftrightarrow> MEM_PHYS_BASE_ADDR \<le> page_pos s \<and> unat (page_pos s) + n * 2 ^ 21 \<le> unat MEM_USER_START \<and>
     length (page_tbl s) = NUM_PAGES"

definition grown :: "mm \<Rightarrow> mm \<Rightarrow> bool" where
  "grown s s' \<longleftrightarrow> unat (page_pos s) \<le> unat (page_pos s') \<and> (\<forall>x. unat x < unat (page_pos s) \<longrightarrow> mm_heap s' x = mm_heap s x)"

text \<open>A pool whose \<open>N\<close> or more elements, all free, lie in the pages handed out between two positions.\<close>

definition pool_between :: "nat \<Rightarrow> mm \<Rightarrow> pool \<Rightarrow> nat \<Rightarrow> addr set \<Rightarrow> bool" where
  "pool_between lo s p N F \<longleftrightarrow> mempool_ok (mm_heap s) p F {} \<and> N \<le> card F \<and> finite F \<and> (\<forall>x\<in>F. lo \<le> unat x \<and> unat x < unat (page_pos s))"

lemma mempool_ok_frame:
  assumes "mempool_ok h p F L" and "\<And>x. x \<in> F \<Longrightarrow> h' x = h x"
  shows "mempool_ok h' p F L"
  using assms mempool_rep_cong [of _ _ _ h' h] unfolding mempool_ok_def by metis

lemma pool_between_grown:
  "pool_between lo s p N F \<Longrightarrow> grown s s' \<Longrightarrow> pool_between lo s' p N F"
  by (auto simp: pool_between_def grown_def intro: mempool_ok_frame)

lemma in_region_below:
  assumes "unat a + n * 2 ^ 21 \<le> unat MEM_USER_START" and "n < 1024"
  shows "in_region a (of_nat (n * 2 ^ 21)) x \<longleftrightarrow> unat a \<le> unat x \<and> unat x < unat a + n * 2 ^ 21"
proof -
  have k: "unat (of_nat (n * 2 ^ 21) :: u64) = n * 2 ^ 21" using assms(2) by (intro unat_of_nat64) simp
  have u: "unat MEM_USER_START = 0x7000000000" by (simp add: mem_map)
  show ?thesis
  proof (cases "unat a \<le> unat x")
    case True
    then have "unat (x - a) = unat x - unat a" by (simp add: unat_sub word_le_nat_alt)
    then show ?thesis using True k by (simp add: in_region_def word_less_nat_alt) linarith
  next
    case False
    then have "unat (x - a) = 2 ^ 64 + unat x - unat a" by (simp add: unat_sub_if' word_le_nat_alt)
    then show ?thesis using False k u assms by (simp add: in_region_def word_less_nat_alt)
  qed
qed

lemma init_datastore_ok:
  assumes os: "os_grants os" and fd: "fresh_datastore d" and al: "unat (align_up len 8) = el" "len \<noteq> 0"
    and sz: "sizes_ok nr el 128" and room: "mm_room s (pool_pages nr el + r)"
  shows "\<exists>d' s' css. init_datastore os node d (int nr) len nm s = Inr (0, d', s') \<and>
    ds_magic d' = MEMPOOL_MAGIC \<and> ds_chunk_size d' = 128 \<and> chunk_chain (mm_heap s') (ds_chunk_head d') css \<and>
    distinct (concat css) \<and> ds_free_chunks d' = int (length css) \<and> nr \<le> length (concat css) \<and>
    (\<forall>x\<in>set (concat css). unat (page_pos s) \<le> unat x \<and> unat x < unat (page_pos s')) \<and> grown s s' \<and> mm_room s' r"
proof -
  let ?n = "pool_pages nr el"
  have pp: "MEM_PHYS_BASE_ADDR \<le> page_pos s" "unat (page_pos s) + ?n * 2 ^ 21 \<le> unat MEM_USER_START" "length (page_tbl s) = NUM_PAGES"
    and all: "unat (page_pos s) + (?n + r) * 2 ^ 21 \<le> unat MEM_USER_START"
    using room by (auto simp: mm_room_def algebra_simps)
  have n: "?n < 1024" using sz by (simp add: sizes_ok_def)
  have c: "MEMPOOL_DEFAULT_CHUNKSIZE = int 128" by (simp add: MEMPOOL_DEFAULT_CHUNKSIZE_def)
  note reg = in_region_below [OF pp(2) n]
  obtain d' s' css where call: "mempool_create_datastore os node d (int nr) len 1 (int 128) nm s = Inr (0, d', s')"
    and d': "ds_magic d' = MEMPOOL_MAGIC" "ds_chunk_size d' = int 128" "chunk_chain (mm_heap s') (ds_chunk_head d') css"
      "distinct (concat css)" "ds_free_chunks d' = int (length css)" "nr \<le> length (concat css)"
    and els: "\<forall>x\<in>set (concat css). in_region (page_pos s) (of_nat (?n * 2 ^ 21)) x"
    and out: "\<forall>x. \<not> in_region (page_pos s) (of_nat (?n * 2 ^ 21)) x \<longrightarrow> mm_heap s' x = mm_heap s x"
    and pos: "page_pos s' = page_pos s + of_nat (?n * 2 ^ 21)" and tbl: "length (page_tbl s') = NUM_PAGES"
    using create_datastore_ok [OF os fd al sz pp, of node nm] by metis
  have k: "unat (of_nat (?n * 2 ^ 21) :: u64) = ?n * 2 ^ 21" using n by (intro unat_of_nat64) simp
  have "unat MEM_USER_START < 2 ^ LENGTH(64)" by (simp add: mem_map)
  then have "unat (page_pos s) + unat (of_nat (?n * 2 ^ 21) :: u64) < 2 ^ LENGTH(64)" using pp(2) k by linarith
  from iffD1 [OF unat_add_lem this] have pos': "unat (page_pos s') = unat (page_pos s) + ?n * 2 ^ 21" unfolding pos k .
  have "mm_room s' r" using pp(1) all tbl pos' by (simp add: mm_room_def word_le_nat_alt algebra_simps)
  moreover have "grown s s'" using out pos' unfolding grown_def reg by auto
  moreover have "\<forall>x\<in>set (concat css). unat (page_pos s) \<le> unat x \<and> unat x < unat (page_pos s')"
    using els unfolding reg pos' .
  moreover have "ds_chunk_size d' = 128" using d'(2) by simp
  ultimately show ?thesis using call d' unfolding init_datastore_def c by metis
qed

lemma init_pool_ok:
  assumes os: "os_grants os" and fp: "fresh_pool p" and al: "unat (align_up len 8) = el" "len \<noteq> 0"
    and sz: "sizes_ok nr el 128" and room: "mm_room s (pool_pages nr el + r)" and dsp: "dsp \<noteq> NULL"
  shows "\<exists>p' s' F. init_pool os node dsp p (int nr) len nm s = Inr (0, p', s') \<and>
    pool_between (unat (page_pos s)) s' p' nr F \<and> grown s s' \<and> mm_room s' r"
proof -
  have fd: "fresh_datastore (snd p)" using fp by (simp add: fresh_pool_def)
  obtain d' s' css where call: "init_datastore os node (snd p) (int nr) len nm s = Inr (0, d', s')"
    and d': "ds_magic d' = MEMPOOL_MAGIC" "ds_chunk_size d' = 128" "chunk_chain (mm_heap s') (ds_chunk_head d') css"
      "distinct (concat css)" "ds_free_chunks d' = int (length css)" "nr \<le> length (concat css)"
    and els: "\<forall>x\<in>set (concat css). unat (page_pos s) \<le> unat x \<and> unat x < unat (page_pos s')"
    and gr: "grown s s'" "mm_room s' r"
    using init_datastore_ok [OF os fd al sz room, of node nm] by metis
  obtain m' where mc: "mempool_create (fst p) dsp d' MEMPOOL_SANITY_GLOBAL 0 = Inr (0, m')"
    and m': "mp_magic m' = MEMPOOL_MAGIC" "mp_datastore m' \<noteq> NULL" "0 < mp_chunk_size m'" "mp_num_free m' = 0" "mp_head m' = NULL" "mp_private_chunk m' = NULL"
    using fp d'(1,2) dsp by (simp add: mempool_create_def fresh_pool_def)
  have "mempool_ok (mm_heap s') (m', d') (set (concat css)) {}" by (rule fresh_pool_ok [OF d'(3-5) m'])
  moreover have "card (set (concat css)) = length (concat css)" using d'(4) by (rule distinct_card)
  ultimately have "pool_between (unat (page_pos s)) s' (m', d') nr (set (concat css))"
    using d'(6) els unfolding pool_between_def by (metis List.finite_set)
  then show ?thesis using call mc gr by (auto simp: init_pool_def)
qed

section \<open>All pools\<close>

text \<open>What the four pools of the dispatcher look like once both initialisers have run.\<close>

definition pools_ready :: "boot \<Rightarrow> universe \<Rightarrow> bool" where
  "pools_ready b U \<longleftrightarrow>
     mempool_ok (mm_heap (b_mm b)) (b_task b) (u_task U) {} \<and> mempool_ok (mm_heap (b_mm b)) (b_mcell b) (u_mcell U) {} \<and>
     mempool_ok (mm_heap (b_mm b)) (b_context b) (u_ctx U) {} \<and> mempool_ok (mm_heap (b_mm b)) (b_stack b) (u_stack U) {} \<and>
     universe_ok U \<and> TASK_CAPACITY \<le> int (card (u_task U)) \<and> MCELL_CAPACITY \<le> int (card (u_mcell U)) \<and>
     CONTEXT_CAPACITY \<le> int (card (u_ctx U)) \<and> STACK_CAPACITY \<le> int (card (u_stack U))"

lemma ready_disp_rep:
  assumes "pools_ready b U" and "mqueue dp = NULL" and "\<forall>tq\<in>set (tskq dp). tq_head tq = NULL \<and> tq_tail tq = NULL"
  shows "disp_rep U (dp\<lparr>d_heap := mm_heap (b_mm b), task_mempool := b_task b, mcell_mempool := b_mcell b,
     context_pool := b_context b, stack_pool := b_stack b\<rparr>) (\<lambda>_. []) [] {}"
proof -
  let ?h = "mm_heap (b_mm b)"
  have q: "\<forall>i<length (tskq dp). tskq_rep ?h (tskq dp ! i) []" using assms(3) by (auto simp: tskq_rep_def)
  have "disp_mem U (dp\<lparr>d_heap := ?h, task_mempool := b_task b, mcell_mempool := b_mcell b,
     context_pool := b_context b, stack_pool := b_stack b\<rparr>) (\<lambda>_. []) [] {} {}"
    using assms(1,2) q by (simp add: disp_mem_def pools_ready_def task_cells_def tskqs_ok_def mq_ok_def ctx_ok_def mq_rep_def mq_abs_def universe_ok_def bij_betw_def)
  then show ?thesis unfolding disp_rep_def
    by (intro exI [of _ "\<lambda>_. []"] exI [of _ "[]"] exI [of _ "{}"]) (simp add: tskq_abs_def mq_abs_def)
qed

lemma mm_room_mono: "mm_room s n \<Longrightarrow> k \<le> n \<Longrightarrow> mm_room s k"
proof -
  assume a: "mm_room s n" "k \<le> n"
  have "k * 2 ^ 21 \<le> n * (2 ^ 21 :: nat)" using a(2) by simp
  then show ?thesis using a(1) unfolding mm_room_def by linarith
qed

lemma pool_pages_small:
  assumes "0 < el" "el \<le> 2048"
  shows "pool_pages 786432 el \<le> 768" "sizes_ok 786432 el 128"
proof -
  let ?e = "2 ^ 21 div el"
  have "2 ^ 21 div 2048 \<le> ?e" using assms by (intro div_le_mono2)
  then have e: "1024 \<le> ?e" by simp
  have "786432 + ?e - 1 < 769 * ?e" using e by linarith
  then have "(786432 + ?e - 1) div ?e < 769" using e by (simp add: less_mult_imp_div_less)
  then show p: "pool_pages 786432 el \<le> 768" by (simp add: pool_pages_def)
  then show "sizes_ok 786432 el 128" using assms by (simp add: sizes_ok_def)
qed

definition boot_fresh :: "boot \<Rightarrow> bool" where
  "boot_fresh b \<longleftrightarrow> fresh_pool (b_task b) \<and> fresh_pool (b_mcell b) \<and> fresh_pool (b_context b) \<and> fresh_pool (b_stack b)"

lemma between_disjoint:
  "pool_between lo s p N F \<Longrightarrow> pool_between lo' s' p' N' F' \<Longrightarrow> unat (page_pos s) \<le> lo' \<Longrightarrow> F \<inter> F' = {}"
  unfolding pool_between_def by (metis disjoint_iff leD le_trans)

text \<open>Two pools of 768 * 1024 elements of at most 2048 bytes, one after the other.\<close>

lemma init_two_pools:
  assumes os: "os_grants os" and f: "fresh_pool p" "fresh_pool q" and ds: "dp \<noteq> NULL" "dq \<noteq> NULL"
    and sz: "0 < unat a" "unat a \<le> 2048" "0 < unat b" "unat b \<le> 2048" and room: "mm_room s (pool_pages 786432 (unat (align_up a 8)) + (768 + r))"
  shows "\<exists>p' q' s1 s2 F G. init_pool os node dp p (int 786432) a nm s = Inr (0, p', s1) \<and> init_pool os node dq q (int 786432) b nm' s1 = Inr (0, q', s2) \<and>
    pool_between (unat (page_pos s)) s2 p' 786432 F \<and> pool_between (unat (page_pos s)) s2 q' 786432 G \<and> F \<inter> G = {} \<and> grown s s2 \<and> mm_room s2 r"
proof -
  have el: "0 < unat (align_up a 8)" "unat (align_up a 8) \<le> 2048" "0 < unat (align_up b 8)" "unat (align_up b 8) \<le> 2048" and nz: "a \<noteq> 0" "b \<noteq> 0"
    using align_up_8 [of a] align_up_8 [of b] sz by auto
  obtain p' s1 F where t: "init_pool os node dp p (int 786432) a nm s = Inr (0, p', s1)"
    "pool_between (unat (page_pos s)) s1 p' 786432 F" "grown s s1" "mm_room s1 (768 + r)"
    using init_pool_ok [OF os f(1) refl nz(1) pool_pages_small(2) [OF el(1,2)] room ds(1)] by blast
  have room': "mm_room s1 (pool_pages 786432 (unat (align_up b 8)) + r)"
    using pool_pages_small(1) [OF el(3,4)] by (intro mm_room_mono [OF t(4)]) simp
  obtain q' s2 G where m: "init_pool os node dq q (int 786432) b nm' s1 = Inr (0, q', s2)"
    "pool_between (unat (page_pos s1)) s2 q' 786432 G" "grown s1 s2" "mm_room s2 r"
    using init_pool_ok [OF os f(2) refl nz(2) pool_pages_small(2) [OF el(3,4)] room' ds(2)] by blast
  have "pool_between (unat (page_pos s)) s2 q' 786432 G" using m(2) t(3) by (auto simp: pool_between_def grown_def)
  moreover have "grown s s2" using t(3) m(3) by (auto simp: grown_def)
  moreover have "F \<inter> G = {}" using between_disjoint [OF t(2) m(2)] by simp
  moreover have "pool_between (unat (page_pos s)) s2 p' 786432 F" by (rule pool_between_grown [OF t(2) m(3)])
  ultimately show ?thesis using t(1) m(1,4) by blast
qed

text \<open>
  C11: On a system that grants the memory, \<open>taskqueue_init\<close> and \<open>context_init\<close> succeed, the four pools they create
  are disjoint, hold at least 768 * 1024 free elements each, and with empty queues they represent the empty scheduler
  state from which the dispatcher starts.
\<close>

theorem boot_pools_ready:
  assumes os: "os_grants os" and b: "boot_fresh b" and room: "mm_room (b_mm b) 2320"
    and sz: "0 < unat sz" "unat sz \<le> 2040" and ds: "tds \<noteq> NULL" "mds \<noteq> NULL" "cds \<noteq> NULL" "sds \<noteq> NULL"
  shows "\<exists>b1 b2 U. taskqueue_init os node tds mds b = Inr (0, b1) \<and> context_init os node sz cds sds b1 = Inr (0, b2) \<and>
    pools_ready b2 U \<and>
    (\<forall>dp. mqueue dp = NULL \<and> (\<forall>tq\<in>set (tskq dp). tq_head tq = NULL \<and> tq_tail tq = NULL) \<longrightarrow>
       disp_rep U (dp\<lparr>d_heap := mm_heap (b_mm b2), task_mempool := b_task b2, mcell_mempool := b_mcell b2,
         context_pool := b_context b2, stack_pool := b_stack b2\<rparr>) (\<lambda>_. []) [] {})"
proof -
  from b have f: "fresh_pool (b_task b)" "fresh_pool (b_mcell b)" "fresh_pool (b_context b)" "fresh_pool (b_stack b)"
    by (simp_all add: boot_fresh_def)
  have cap: "TASK_CAPACITY = int 786432" "MCELL_CAPACITY = int 786432" "CONTEXT_CAPACITY = int 786432" "STACK_CAPACITY = int 786432"
    by (simp_all add: TASK_CAPACITY_def MCELL_CAPACITY_def CONTEXT_CAPACITY_def STACK_CAPACITY_def)
  have st: "0 < unat STACK_SIZE" "unat STACK_SIZE \<le> 2048" by (simp_all add: STACK_SIZE_def)
  have "unat (align_up 40 8) = 40" "0 < unat (align_up sz 8)" "unat (align_up sz 8) \<le> 2048"
    using align_up_8 [of 40] align_up_8 [of sz] sz by simp_all
  then have n: "pool_pages 786432 (unat (align_up 40 8)) \<le> 16" "pool_pages 786432 (unat (align_up sz 8)) \<le> 768"
    using pool_pages_small(1) [of "unat (align_up sz 8)"] by (simp_all add: pool_pages_def)
  have r1: "mm_room (b_mm b) (pool_pages 786432 (unat (align_up 40 8)) + (768 + 1536))" using n(1) by (intro mm_room_mono [OF room]) simp
  obtain pt pm s1 s2 Ft Fm where t: "init_pool os node tds (b_task b) (int 786432) 40 ''task'' (b_mm b) = Inr (0, pt, s1)"
      "init_pool os node mds (b_mcell b) (int 786432) 16 ''mcell'' s1 = Inr (0, pm, s2)"
    and tp: "pool_between (unat (page_pos (b_mm b))) s2 pt 786432 Ft" "pool_between (unat (page_pos (b_mm b))) s2 pm 786432 Fm"
      "Ft \<inter> Fm = {}" and r: "mm_room s2 1536"
    using init_two_pools [OF os f(1,2) ds(1,2) _ _ _ _ r1, of 16 node "''task''" "''mcell''"] by fastforce
  have r2: "mm_room s2 (pool_pages 786432 (unat (align_up sz 8)) + (768 + 0))" using n(2) by (intro mm_room_mono [OF r]) simp
  obtain pc ps s3 s4 Fc Fs where c: "init_pool os node cds (b_context b) (int 786432) sz ''context'' s2 = Inr (0, pc, s3)"
      "init_pool os node sds (b_stack b) (int 786432) STACK_SIZE ''stack'' s3 = Inr (0, ps, s4)"
    and cp: "pool_between (unat (page_pos s2)) s4 pc 786432 Fc" "pool_between (unat (page_pos s2)) s4 ps 786432 Fs" "Fc \<inter> Fs = {}"
    and g: "grown s2 s4"
    using init_two_pools [OF os f(3,4) ds(3,4) sz(1) _ st r2, of node "''context''" "''stack''"] sz(2) by fastforce
  define U where "U = \<lparr>u_task = Ft, u_mcell = Fm, u_ctx = Fc, u_stack = Fs\<rparr>"
  define b1 where "b1 = b\<lparr>b_task := pt, b_mcell := pm, b_mm := s2\<rparr>"
  define b2 where "b2 = b1\<lparr>b_context := pc, b_stack := ps, b_mm := s4\<rparr>"
  have i1: "taskqueue_init os node tds mds b = Inr (0, b1)" using t by (simp add: taskqueue_init_def b1_def cap)
  have i2: "context_init os node sz cds sds b1 = Inr (0, b2)" using c by (simp add: context_init_def b1_def b2_def cap)
  note disj = between_disjoint [OF tp(1) cp(1) order.refl] between_disjoint [OF tp(1) cp(2) order.refl]
    between_disjoint [OF tp(2) cp(1) order.refl] between_disjoint [OF tp(2) cp(2) order.refl] tp(3) cp(3)
  note all = pool_between_grown [OF tp(1) g] pool_between_grown [OF tp(2) g] cp(1,2)
  have ready: "pools_ready b2 U"
    using disj all by (simp add: pools_ready_def pool_between_def universe_ok_def U_def b1_def b2_def cap)
  then show ?thesis using i1 i2 ready_disp_rep [OF ready] by blast
qed

theorem boot_pools_ready_witness:
  "\<exists>(p :: pool) b1 b2 U. taskqueue_init granting_os 0 0x1000 0x2000 \<lparr>b_mm = boot_mm, b_task = p, b_mcell = p, b_context = p, b_stack = p,
       mbuf_datastore = snd p, response_datastore = snd p\<rparr> = Inr (0, b1) \<and>
     context_init granting_os 0 968 0x3000 0x4000 b1 = Inr (0, b2) \<and> pools_ready b2 U"
proof -
  define d where "d = \<lparr>ds_magic = 0, ds_chunk_head = NULL, ds_buf = NULL, ds_nr_pages = 0, ds_nr_elems = 0, ds_elem_len = 0, ds_nostraddle = 0,
    ds_chunk_size = 0, ds_num_chunks = 0, ds_free_chunks = 0, ds_num_locks = 0, ds_prettyname = [], ds_iomap_addr = NULL, ds_iomap_offset = 0\<rparr>"
  define m where "m = \<lparr>mp_head = NULL, mp_num_free = 0, mp_elem_len = 0, mp_magic = 0, mp_buf = NULL, mp_datastore = NULL, mp_private_chunk = NULL,
    mp_sanity = 0, mp_nr_elems = 0, mp_nostraddle = 0, mp_chunk_size = 0, mp_iomap_addr = NULL, mp_iomap_offset = 0\<rparr>"
  define b where "b = \<lparr>b_mm = boot_mm, b_task = (m, d), b_mcell = (m, d), b_context = (m, d), b_stack = (m, d),
    mbuf_datastore = snd (m, d), response_datastore = snd (m, d)\<rparr>"
  have "boot_fresh b" by (simp add: boot_fresh_def b_def fresh_pool_def fresh_datastore_def d_def m_def)
  moreover have "mm_room (b_mm b) 2320" by (simp add: b_def mm_room_def boot_mm_def mem_map)
  ultimately obtain b1 b2 U where "taskqueue_init granting_os 0 0x1000 0x2000 b = Inr (0, b1)"
    "context_init granting_os 0 968 0x3000 0x4000 b1 = Inr (0, b2)" "pools_ready b2 U"
    using boot_pools_ready [OF granting_os_grants, of b 968 "0x1000" "0x2000" "0x3000" "0x4000" 0] by fastforce
  then show ?thesis unfolding b_def by blast
qed

end
