(* ===== verification/Linked_Lists.thy ===== *)
theory Linked_Lists
  imports Fifo_Interface
begin

text \<open>
  The intrusive lists of \<open>inc/ix/list.h\<close>: circular doubly linked lists with a head node, singly linked lists, and the
  doubly linked lists with a single head pointer that hash tables and timer wheels use.  A node is addressed by its own
  address; the enclosing structure starts \<open>off\<close> bytes before it.  The debugging checks of \<open>CCAN_LIST_DEBUG\<close> are off.
\<close>

abbreviation NODE_NEXT :: nat where "NODE_NEXT \<equiv> 0"
abbreviation NODE_PREV :: nat where "NODE_PREV \<equiv> 8"

section \<open>Circular lists\<close>

definition list_head_init :: "addr \<Rightarrow> heap \<Rightarrow> heap" where
  "list_head_init p h = hwrite (hwrite h p NODE_PREV p) p NODE_NEXT p"

definition list_add :: "addr \<Rightarrow> addr \<Rightarrow> heap \<Rightarrow> heap" where
  "list_add p n h =
     (let h1 = hwrite h n NODE_NEXT (h p NODE_NEXT);
          h2 = hwrite h1 n NODE_PREV p;
          h3 = hwrite h2 (h2 p NODE_NEXT) NODE_PREV n
      in hwrite h3 p NODE_NEXT n)"

definition list_add_tail :: "addr \<Rightarrow> addr \<Rightarrow> heap \<Rightarrow> heap" where
  "list_add_tail p n h =
     (let h1 = hwrite h n NODE_NEXT p;
          h2 = hwrite h1 n NODE_PREV (h1 p NODE_PREV);
          h3 = hwrite h2 (h2 p NODE_PREV) NODE_NEXT n
      in hwrite h3 p NODE_PREV n)"

definition list_empty :: "addr \<Rightarrow> heap \<Rightarrow> bool" where
  "list_empty p h \<longleftrightarrow> h p NODE_NEXT = p"

definition list_del :: "addr \<Rightarrow> heap \<Rightarrow> heap" where
  "list_del n h =
     (let h1 = hwrite h (h n NODE_NEXT) NODE_PREV (h n NODE_PREV)
      in hwrite h1 (h1 n NODE_PREV) NODE_NEXT (h1 n NODE_NEXT))"

definition list_del_from :: "addr \<Rightarrow> addr \<Rightarrow> heap \<Rightarrow> heap" where
  "list_del_from p n h = list_del n h"

definition list_top :: "addr \<Rightarrow> u64 \<Rightarrow> heap \<Rightarrow> addr" where
  "list_top p off h = (if list_empty p h then NULL else h p NODE_NEXT - off)"

definition list_pop :: "addr \<Rightarrow> u64 \<Rightarrow> heap \<Rightarrow> addr \<times> heap" where
  "list_pop p off h =
     (if list_empty p h then (NULL, h)
      else let n = h p NODE_NEXT in (n - off, list_del n h))"

definition list_tail :: "addr \<Rightarrow> u64 \<Rightarrow> heap \<Rightarrow> addr" where
  "list_tail p off h = (if list_empty p h then NULL else h p NODE_PREV - off)"

definition list_node_to_off :: "addr \<Rightarrow> u64 \<Rightarrow> addr" where
  "list_node_to_off node off = node - off"

definition list_node_from_off :: "addr \<Rightarrow> u64 \<Rightarrow> addr" where
  "list_node_from_off p off = p + off"

definition list_entry_or_null :: "addr \<Rightarrow> addr \<Rightarrow> u64 \<Rightarrow> addr" where
  "list_entry_or_null p n off = (if n = p then NULL else n - off)"

definition list_next :: "addr \<Rightarrow> addr \<Rightarrow> u64 \<Rightarrow> heap \<Rightarrow> addr" where
  "list_next p i off h = list_entry_or_null p (h (i + off) NODE_NEXT) off"

definition list_prev :: "addr \<Rightarrow> addr \<Rightarrow> u64 \<Rightarrow> heap \<Rightarrow> addr" where
  "list_prev p i off h = list_entry_or_null p (h (i + off) NODE_PREV) off"

definition list_append_list :: "addr \<Rightarrow> addr \<Rightarrow> heap \<Rightarrow> heap" where
  "list_append_list to from h =
     (let from_tail = h from NODE_PREV;
          to_tail = h to NODE_PREV;
          h1 = hwrite h to NODE_PREV from_tail;
          h2 = hwrite h1 from_tail NODE_NEXT to;
          h3 = hwrite h2 to_tail NODE_NEXT from;
          h4 = hwrite h3 from NODE_PREV to_tail
      in list_head_init from (list_del from h4))"

definition list_prepend_list :: "addr \<Rightarrow> addr \<Rightarrow> heap \<Rightarrow> heap" where
  "list_prepend_list to from h =
     (let from_tail = h from NODE_PREV;
          to_head = h to NODE_NEXT;
          h1 = hwrite h to NODE_NEXT from;
          h2 = hwrite h1 from NODE_PREV to;
          h3 = hwrite h2 to_head NODE_PREV from_tail;
          h4 = hwrite h3 from_tail NODE_NEXT to_head
      in list_head_init from (list_del from h4))"

text \<open>The structures visited by \<open>list_for_each\<close> and \<open>list_for_each_rev\<close>, starting at node \<open>n\<close>; on a broken list they may not end.\<close>

partial_function (option) list_for_each_off :: "addr \<Rightarrow> u64 \<Rightarrow> addr \<Rightarrow> heap \<Rightarrow> addr list option" where
  "list_for_each_off p off n h =
     (if list_node_from_off (list_node_to_off n off) off = p then Some []
      else Option.bind (list_for_each_off p off (h n NODE_NEXT) h) (\<lambda>xs. Some (list_node_to_off n off # xs)))"

partial_function (option) list_for_each_rev :: "addr \<Rightarrow> u64 \<Rightarrow> addr \<Rightarrow> heap \<Rightarrow> addr list option" where
  "list_for_each_rev p off n h =
     (if n = p then Some [] else Option.bind (list_for_each_rev p off (h n NODE_PREV) h) (\<lambda>xs. Some ((n - off) # xs)))"

section \<open>Singly linked lists\<close>

definition slist_init_head :: "addr \<Rightarrow> heap \<Rightarrow> heap" where
  "slist_init_head p h = hwrite h p NODE_NEXT NULL"

definition slist_add_head :: "addr \<Rightarrow> addr \<Rightarrow> heap \<Rightarrow> heap" where
  "slist_add_head p n h = (let h1 = hwrite h n NODE_NEXT (h p NODE_NEXT) in hwrite h1 p NODE_NEXT n)"

definition slist_del_head :: "addr \<Rightarrow> heap \<Rightarrow> heap res" where
  "slist_del_head p h = bindE (derefE (h p NODE_NEXT)) (\<lambda>_. Inr (hwrite h p NODE_NEXT (h (h p NODE_NEXT) NODE_NEXT)))"

definition slist_del :: "addr \<Rightarrow> addr \<Rightarrow> heap \<Rightarrow> heap" where
  "slist_del prev n h = hwrite h prev NODE_NEXT (h n NODE_NEXT)"

definition slist_empty :: "addr \<Rightarrow> heap \<Rightarrow> bool" where
  "slist_empty p h \<longleftrightarrow> h p NODE_NEXT = NULL"

section \<open>Lists with a single head pointer\<close>

text \<open>The field \<open>head\<close> of a \<open>hlist_head\<close> lines up with \<open>next\<close> of a node.\<close>

definition hlist_init_head :: "addr \<Rightarrow> heap \<Rightarrow> heap" where
  "hlist_init_head p h = hwrite h p NODE_NEXT NULL"

definition hlist_add_head :: "addr \<Rightarrow> addr \<Rightarrow> heap \<Rightarrow> heap" where
  "hlist_add_head p n h =
     (let h1 = hwrite h n NODE_NEXT (h p NODE_NEXT);
          h2 = hwrite h1 n NODE_PREV p;
          h3 = (if h2 n NODE_NEXT \<noteq> NULL then hwrite h2 (h2 n NODE_NEXT) NODE_PREV n else h2)
      in hwrite h3 p NODE_NEXT n)"

definition hlist_del_head :: "addr \<Rightarrow> heap \<Rightarrow> heap res" where
  "hlist_del_head p h =
     bindE (derefE (h p NODE_NEXT)) (\<lambda>_.
     let h1 = hwrite h p NODE_NEXT (h (h p NODE_NEXT) NODE_NEXT)
     in Inr (if h1 p NODE_NEXT \<noteq> NULL then hwrite h1 (h1 p NODE_NEXT) NODE_PREV p else h1))"

definition hlist_del :: "addr \<Rightarrow> heap \<Rightarrow> heap res" where
  "hlist_del n h =
     bindE (derefE (h n NODE_PREV)) (\<lambda>_.
     let h1 = hwrite h (h n NODE_PREV) NODE_NEXT (h n NODE_NEXT)
     in Inr (if h1 n NODE_NEXT \<noteq> NULL then hwrite h1 (h1 n NODE_NEXT) NODE_PREV (h1 n NODE_PREV) else h1))"

definition hlist_empty :: "addr \<Rightarrow> heap \<Rightarrow> bool" where
  "hlist_empty p h \<longleftrightarrow> h p NODE_NEXT = NULL"

partial_function (option) hlist_for_each :: "addr \<Rightarrow> heap \<Rightarrow> addr list option" where
  "hlist_for_each n h = (if n = NULL then Some [] else Option.bind (hlist_for_each (h n NODE_NEXT) h) (\<lambda>xs. Some (n # xs)))"

section \<open>What a circular list holds\<close>

text \<open>\<open>dseg h a xs b\<close>: the nodes \<open>xs\<close> are linked both ways between the nodes \<open>a\<close> and \<open>b\<close>.\<close>

primrec dseg :: "heap \<Rightarrow> addr \<Rightarrow> addr list \<Rightarrow> addr \<Rightarrow> bool" where
  "dseg h a [] b \<longleftrightarrow> h a NODE_NEXT = b \<and> h b NODE_PREV = a"
| "dseg h a (x # xs) b \<longleftrightarrow> h a NODE_NEXT = x \<and> h x NODE_PREV = a \<and> dseg h x xs b"

definition list_rep :: "heap \<Rightarrow> addr \<Rightarrow> addr list \<Rightarrow> bool" where
  "list_rep h p xs \<longleftrightarrow> dseg h p xs p \<and> distinct (p # xs)"

lemma dseg_append: "dseg h a (xs @ y # ys) b \<longleftrightarrow> dseg h a xs y \<and> dseg h y ys b"
  by (induction xs arbitrary: a) auto

lemma dseg_snoc: "dseg h a (xs @ [y]) b \<longleftrightarrow> dseg h a xs y \<and> h y NODE_NEXT = b \<and> h b NODE_PREV = y"
  by (simp add: dseg_append)

lemma dseg_cong:
  "\<forall>x\<in>set (a # xs). h' x NODE_NEXT = h x NODE_NEXT \<Longrightarrow> \<forall>x\<in>set (b # xs). h' x NODE_PREV = h x NODE_PREV \<Longrightarrow>
   dseg h' a xs b = dseg h a xs b"
  by (induction xs arbitrary: a) auto

lemma dseg_write_next [simp]: "q \<notin> set (a # xs) \<Longrightarrow> dseg (hwrite h q NODE_NEXT v) a xs b = dseg h a xs b"
  by (rule dseg_cong) (auto simp: hwrite_def)

lemma dseg_write_prev [simp]: "q \<notin> set (b # xs) \<Longrightarrow> dseg (hwrite h q NODE_PREV v) a xs b = dseg h a xs b"
  by (rule dseg_cong) (auto simp: hwrite_def)

text \<open>Re-linking the first and the last node of a segment.\<close>

lemma dseg_new_start:
  assumes "dseg h a xs b" "h' c NODE_NEXT = hd (xs @ [b])" "h' (hd (xs @ [b])) NODE_PREV = c" "distinct (b # xs)"
    and "\<forall>x\<in>set xs. h' x NODE_NEXT = h x NODE_NEXT" "\<forall>x\<in>set (tl (xs @ [b])). h' x NODE_PREV = h x NODE_PREV"
  shows "dseg h' c xs b"
proof (cases xs)
  case (Cons y ys)
  then have "dseg h' y ys b = dseg h y ys b" using assms(4-6) by (intro dseg_cong) auto
  then show ?thesis using assms Cons by simp
qed (use assms in simp)

lemma dseg_new_end:
  assumes "dseg h a xs b" "h' c NODE_PREV = last (a # xs)" "h' (last (a # xs)) NODE_NEXT = c" "distinct (a # xs)"
    and "\<forall>x\<in>set (butlast (a # xs)). h' x NODE_NEXT = h x NODE_NEXT" "\<forall>x\<in>set xs. h' x NODE_PREV = h x NODE_PREV"
  shows "dseg h' a xs c"
proof (cases xs rule: rev_cases)
  case (snoc ys y)
  have "dseg h a ys y" using assms(1) snoc by (simp add: dseg_snoc)
  moreover have "dseg h' a ys y = dseg h a ys y"
    using assms(4-6) snoc by (intro dseg_cong) (auto simp: butlast_append)
  ultimately show ?thesis using assms(2,3) snoc by (simp add: dseg_snoc)
qed (use assms in simp)

lemma dseg_first: "dseg h a xs b \<Longrightarrow> h a NODE_NEXT = hd (xs @ [b]) \<and> h (hd (xs @ [b])) NODE_PREV = a"
  by (cases xs) auto

lemma dseg_last: "dseg h a xs b \<Longrightarrow> h b NODE_PREV = last (a # xs) \<and> h (last (a # xs)) NODE_NEXT = b"
  by (cases xs rule: rev_cases) (auto simp: dseg_snoc)

lemma list_rep_ends:
  assumes "list_rep h p xs"
  shows "h p NODE_NEXT = hd (xs @ [p])" "h p NODE_PREV = last (p # xs)"
  using assms dseg_first [of h p xs p] dseg_last [of h p xs p] by (simp_all add: list_rep_def)

lemma list_empty_iff: "list_rep h p xs \<Longrightarrow> list_empty p h \<longleftrightarrow> xs = []"
  by (cases xs) (auto simp: list_rep_def list_empty_def)

lemma list_head_init_rep: "list_rep (list_head_init p h) p []"
  by (simp add: list_rep_def list_head_init_def)

lemma list_rep_cong: "(\<And>x. x \<in> set (p # xs) \<Longrightarrow> h' x = h x) \<Longrightarrow> list_rep h' p xs = list_rep h p xs"
  unfolding list_rep_def by (subst dseg_cong [of p xs h' h p]) auto

lemma last_notin_butlast: "distinct xs \<Longrightarrow> xs \<noteq> [] \<Longrightarrow> last xs \<notin> set (butlast xs)"
  by (cases xs rule: rev_cases) auto

lemma list_add_rep:
  assumes rep: "list_rep h p xs" and n: "n \<notin> set (p # xs)"
  shows "list_rep (list_add p n h) p (n # xs)"
proof -
  let ?h = "list_add p n h" and ?f = "hd (xs @ [p])"
  have s: "dseg h p xs p" "distinct (p # xs)" using rep by (auto simp: list_rep_def)
  note e = list_rep_ends(1) [OF rep]
  have f: "?f \<noteq> n" and np: "p \<noteq> n" using n by (cases xs; auto)+
  have eq: "?h = hwrite (hwrite (hwrite (hwrite h n NODE_NEXT ?f) n NODE_PREV p) ?f NODE_PREV n) p NODE_NEXT n"
    using np e by (simp add: list_add_def Let_def)
  have t: "x \<noteq> ?f \<and> x \<noteq> n" if "x \<in> set (tl (xs @ [p]))" for x
    using that s(2) n by (cases xs) auto
  have "dseg ?h n xs p"
    by (rule dseg_new_start [OF s(1)]) (use s(2) n f t in \<open>auto simp: eq hwrite_def\<close>)
  then show ?thesis using n f s(2) by (auto simp: list_rep_def eq hwrite_def)
qed

lemma list_add_tail_rep:
  assumes rep: "list_rep h p xs" and n: "n \<notin> set (p # xs)"
  shows "list_rep (list_add_tail p n h) p (xs @ [n])"
proof -
  let ?h = "list_add_tail p n h" and ?l = "last (p # xs)"
  have s: "dseg h p xs p" "distinct (p # xs)" using rep by (auto simp: list_rep_def)
  note e = list_rep_ends(2) [OF rep]
  have l: "?l \<noteq> n" using n by (metis last_in_set list.distinct(1))
  have np: "p \<noteq> n" using n by auto
  have eq: "?h = hwrite (hwrite (hwrite (hwrite h n NODE_NEXT p) n NODE_PREV ?l) ?l NODE_NEXT n) p NODE_PREV n"
    using np e by (simp add: list_add_tail_def Let_def)
  note t = last_notin_butlast [OF s(2), simplified]
  have b: "x \<noteq> n" if "x \<in> set (butlast (p # xs))" for x using that n by (metis in_set_butlastD)
  have "dseg ?h p xs n"
    by (rule dseg_new_end [OF s(1)]) (use s(2) n l t b in \<open>auto simp: eq hwrite_def last_notin_butlast split: if_splits\<close>)
  then show ?thesis using n l s(2) by (auto simp: list_rep_def dseg_snoc eq hwrite_def)
qed

text \<open>Unlinking a node, also when it is the head node of another list.\<close>

lemma dseg_del:
  assumes s: "dseg h a (xs @ n # ys) b" and d: "distinct (a # xs @ n # ys)" "distinct (xs @ n # ys @ [b])"
  shows "dseg (list_del n h) a (xs @ ys) b" "\<And>x. x \<notin> set (a # b # xs @ ys) \<Longrightarrow> list_del n h x = h x"
proof -
  let ?l = "last (a # xs)" and ?f = "hd (ys @ [b])"
  have s1: "dseg h a xs n" "dseg h n ys b" using s by (simp_all add: dseg_append)
  have e: "h n NODE_NEXT = ?f" "h n NODE_PREV = ?l" using dseg_first [OF s1(2)] dseg_last [OF s1(1)] by simp_all
  have ln: "?l \<in> set (a # xs)" "?l \<noteq> n" using d(1) last_in_set [of "a # xs"] by auto
  have fn: "?f \<in> set (ys @ [b])" "?f \<noteq> n" using d(2) by (cases ys; auto)+
  have eq: "list_del n h = hwrite (hwrite h ?f NODE_PREV ?l) ?l NODE_NEXT ?f"
    using fn(2) e by (simp add: list_del_def Let_def)
  show "\<And>x. x \<notin> set (a # b # xs @ ys) \<Longrightarrow> list_del n h x = h x" using ln(1) fn(1) by (auto simp: eq hwrite_def)
  show "dseg (list_del n h) a (xs @ ys) b"
  proof (cases ys)
    case Nil
    have "dseg (list_del n h) a xs b"
      by (rule dseg_new_end [OF s1(1)]) (use d Nil in \<open>auto simp: eq hwrite_def last_notin_butlast dest: in_set_butlastD\<close>)
    then show ?thesis using Nil by simp
  next
    case (Cons y zs)
    have 1: "dseg (list_del n h) a xs y"
      by (rule dseg_new_end [OF s1(1)]) (use d Cons in \<open>auto simp: eq hwrite_def last_notin_butlast dest: in_set_butlastD\<close>)
    have "dseg (list_del n h) y zs b = dseg h y zs b"
      by (rule dseg_cong) (use d Cons ln(1) in \<open>auto simp: eq hwrite_def\<close>)
    then show ?thesis using 1 s1(2) Cons by (simp add: dseg_append)
  qed
qed

lemma list_del_rep: "list_rep h p (xs @ n # ys) \<Longrightarrow> list_rep (list_del n h) p (xs @ ys)"
  using dseg_del(1) [of h p xs n ys p] by (auto simp: list_rep_def)

lemma list_pop_rep:
  assumes "list_rep h p (n # xs)"
  shows "list_pop p off h = (n - off, list_del n h)" "list_rep (list_del n h) p xs"
  using assms list_empty_iff [OF assms] list_rep_ends(1) [OF assms] list_del_rep [of h p "[]" n xs] by (simp_all add: list_pop_def)

text \<open>Both ways of emptying one list into another first link its head node in and then take it out again.\<close>

lemma list_unlink_head:
  assumes "dseg h to (xs @ from # ys) to" and "distinct (to # xs @ from # ys)"
  shows "list_rep (list_head_init from (list_del from h)) to (xs @ ys)" "list_rep (list_head_init from (list_del from h)) from []"
proof -
  have "list_rep (list_del from h) to (xs @ ys)"
    using dseg_del(1) [OF assms(1)] assms(2) by (auto simp: list_rep_def)
  moreover have "from \<notin> set (to # xs @ ys)" using assms(2) by auto
  ultimately show "list_rep (list_head_init from (list_del from h)) to (xs @ ys)"
    by (subst list_rep_cong [of to "xs @ ys" _ "list_del from h"]) (auto simp: list_head_init_def hwrite_def)
qed (rule list_head_init_rep)

lemma list_append_list_rep:
  assumes t: "list_rep h to xs" and f: "list_rep h from ys" and d: "distinct (to # xs @ from # ys)"
  shows "list_rep (list_append_list to from h) to (xs @ ys)" "list_rep (list_append_list to from h) from []"
proof -
  define ft tt where "ft = last (from # ys)" and "tt = last (to # xs)"
  define h' where "h' = hwrite (hwrite (hwrite (hwrite h to NODE_PREV ft) ft NODE_NEXT to) tt NODE_NEXT from) from NODE_PREV tt"
  have eq: "list_append_list to from h = list_head_init from (list_del from h')"
    unfolding list_append_list_def Let_def list_rep_ends(2) [OF t] list_rep_ends(2) [OF f] h'_def ft_def tt_def ..
  have s: "dseg h to xs to" "dseg h from ys from" using t f by (simp_all add: list_rep_def)
  have m: "ft \<in> set (from # ys)" "tt \<in> set (to # xs)" unfolding ft_def tt_def by (rule last_in_set, simp)+
  have disj: "set (to # xs) \<inter> set (from # ys) = {}" and dd: "distinct (to # xs)" "distinct (from # ys)" using d by auto
  have bl: "set (butlast (to # xs)) \<subseteq> set (to # xs) - {tt}" "set (butlast (from # ys)) \<subseteq> set (from # ys) - {ft}"
    using last_notin_butlast [OF dd(1)] last_notin_butlast [OF dd(2)] by (auto simp only: ft_def tt_def dest: in_set_butlastD)
  have nx: "h' x NODE_NEXT = (if x = tt then from else if x = ft then to else h x NODE_NEXT)" for x by (simp add: h'_def hwrite_def)
  have pv: "h' x NODE_PREV = (if x = from then tt else if x = to then ft else h x NODE_PREV)" for x by (simp add: h'_def hwrite_def)
  have ne: "tt \<noteq> ft" "from \<noteq> to" using m disj by auto
  have "dseg h' to xs from"
  proof (rule dseg_new_end [OF s(1)])
    show "\<forall>x\<in>set (butlast (to # xs)). h' x NODE_NEXT = h x NODE_NEXT" using bl(1) m(1) disj unfolding nx by auto
    show "\<forall>x\<in>set xs. h' x NODE_PREV = h x NODE_PREV" using d unfolding pv by auto
  qed (use dd in \<open>simp_all only: nx pv flip: tt_def, simp_all\<close>)
  moreover have "dseg h' from ys to"
  proof (rule dseg_new_end [OF s(2)])
    show "\<forall>x\<in>set (butlast (from # ys)). h' x NODE_NEXT = h x NODE_NEXT" using bl(2) m(2) disj unfolding nx by auto
    show "\<forall>x\<in>set ys. h' x NODE_PREV = h x NODE_PREV" using d unfolding pv by auto
  qed (use dd ne in \<open>simp_all only: nx pv flip: ft_def, simp_all\<close>)
  ultimately have "dseg h' to (xs @ from # ys) to" by (simp add: dseg_append)
  from list_unlink_head [OF this d] show "list_rep (list_append_list to from h) to (xs @ ys)" "list_rep (list_append_list to from h) from []"
    by (simp_all only: eq)
qed

lemma list_prepend_list_rep:
  assumes t: "list_rep h to xs" and f: "list_rep h from ys" and d: "distinct (to # xs @ from # ys)"
  shows "list_rep (list_prepend_list to from h) to (ys @ xs)" "list_rep (list_prepend_list to from h) from []"
proof -
  define ft th where "ft = last (from # ys)" and "th = hd (xs @ [to])"
  define h' where "h' = hwrite (hwrite (hwrite (hwrite h to NODE_NEXT from) from NODE_PREV to) th NODE_PREV ft) ft NODE_NEXT th"
  have eq: "list_prepend_list to from h = list_head_init from (list_del from h')"
    unfolding list_prepend_list_def Let_def list_rep_ends(1) [OF t] list_rep_ends(2) [OF f] h'_def ft_def th_def ..
  have s: "dseg h to xs to" "dseg h from ys from" using t f by (simp_all add: list_rep_def)
  have m: "ft \<in> set (from # ys)" "th \<in> set (xs @ [to])" unfolding ft_def th_def by (rule last_in_set hd_in_set, simp)+
  have disj: "set (xs @ [to]) \<inter> set (from # ys) = {}" and dd: "distinct (to # xs)" "distinct (from # ys)" using d by auto
  have bl: "set (butlast (from # ys)) \<subseteq> set (from # ys) - {ft}"
    using last_notin_butlast [OF dd(2)] by (auto simp only: ft_def dest: in_set_butlastD)
  have nx: "h' x NODE_NEXT = (if x = ft then th else if x = to then from else h x NODE_NEXT)" for x by (simp add: h'_def hwrite_def)
  have pv: "h' x NODE_PREV = (if x = th then ft else if x = from then to else h x NODE_PREV)" for x by (simp add: h'_def hwrite_def)
  have ne: "to \<noteq> ft" "from \<noteq> th" using m disj by auto
  have 1: "dseg h' from ys th"
  proof (rule dseg_new_end [OF s(2)])
    show "\<forall>x\<in>set (butlast (from # ys)). h' x NODE_NEXT = h x NODE_NEXT" using bl m disj unfolding nx by auto
    show "\<forall>x\<in>set ys. h' x NODE_PREV = h x NODE_PREV" using d m(2) disj unfolding pv by auto
  qed (use dd in \<open>simp_all only: nx pv flip: ft_def, simp_all\<close>)
  have 2: "h' to NODE_NEXT = from" "h' from NODE_PREV = to" using ne by (simp_all add: nx pv)
  have "dseg h' to (from # ys @ xs) to"
  proof (cases xs)
    case (Cons x zs)
    then have th: "th = x" by (simp add: th_def)
    have "dseg h' x zs to = dseg h x zs to"
    proof (rule dseg_cong)
      show "\<forall>y\<in>set (x # zs). h' y NODE_NEXT = h y NODE_NEXT" using d m(1) disj Cons unfolding nx by auto
      show "\<forall>y\<in>set (to # zs). h' y NODE_PREV = h y NODE_PREV" using d Cons unfolding pv th by auto
    qed
    then show ?thesis using 1 2 s(1) Cons th by (simp add: dseg_append)
  qed (use 1 2 in \<open>simp add: th_def\<close>)
  then have "dseg h' to ([] @ from # (ys @ xs)) to" by simp
  moreover have "distinct (to # [] @ from # (ys @ xs))" using d by auto
  ultimately show "list_rep (list_prepend_list to from h) to (ys @ xs)" "list_rep (list_prepend_list to from h) from []"
    using list_unlink_head [of h' to "[]" "from" "ys @ xs"] by (simp_all only: eq append_Nil)
qed

text \<open>The loops over a list end, and visit each structure once, in order.\<close>

lemma for_each_dseg: "dseg h a xs p \<Longrightarrow> p \<notin> set xs \<Longrightarrow> list_for_each_off p off (h a NODE_NEXT) h = Some (map (\<lambda>x. x - off) xs)"
proof (induction xs arbitrary: a)
  case Nil
  then show ?case by (subst list_for_each_off.simps) (simp add: list_node_to_off_def list_node_from_off_def)
next
  case (Cons x xs)
  then show ?case by (subst list_for_each_off.simps) (auto simp: list_node_to_off_def list_node_from_off_def)
qed

lemma for_each_rev_dseg: "dseg h p xs b \<Longrightarrow> p \<notin> set xs \<Longrightarrow> list_for_each_rev p off (h b NODE_PREV) h = Some (map (\<lambda>x. x - off) (rev xs))"
proof (induction xs arbitrary: b rule: rev_induct)
  case Nil
  then show ?case by (subst list_for_each_rev.simps) simp
next
  case (snoc x xs)
  then show ?case by (subst list_for_each_rev.simps) (auto simp: dseg_snoc)
qed

lemma list_for_each_rep:
  assumes "list_rep h p xs"
  shows "list_for_each_off p off (h p NODE_NEXT) h = Some (map (\<lambda>x. x - off) xs)"
    "list_for_each_rev p off (h p NODE_PREV) h = Some (map (\<lambda>x. x - off) (rev xs))"
  using assms for_each_dseg [of h p xs p] for_each_rev_dseg [of h p xs p] by (simp_all add: list_rep_def)

text \<open>Queues kept in a circular list: \<open>list_add_tail\<close> and \<open>list_pop\<close> on nodes.\<close>

definition list_holds :: "addr \<times> heap \<Rightarrow> addr list \<Rightarrow> bool" where
  "list_holds s xs \<longleftrightarrow> list_rep (snd s) (fst s) xs \<and> NULL \<notin> set xs"

definition list_put :: "addr \<Rightarrow> addr \<times> heap \<Rightarrow> (addr \<times> heap) res" where
  "list_put n s = Inr (fst s, list_add_tail (fst s) n (snd s))"

definition list_take :: "addr \<times> heap \<Rightarrow> (addr option \<times> addr \<times> heap) res" where
  "list_take s = (let (n, h) = list_pop (fst s) 0 (snd s) in Inr (if n = NULL then None else Some n, fst s, h))"

definition list_admits :: "addr list \<Rightarrow> addr \<times> heap \<Rightarrow> bool" where
  "list_admits ns s \<longleftrightarrow> distinct ns \<and> NULL \<notin> set ns \<and> (\<forall>xs. list_rep (snd s) (fst s) xs \<longrightarrow> set ns \<inter> set (fst s # xs) = {})"

lemma dseg_unique: "dseg h a xs p \<Longrightarrow> dseg h a ys p \<Longrightarrow> p \<notin> set xs \<Longrightarrow> p \<notin> set ys \<Longrightarrow> xs = ys"
proof (induction xs arbitrary: a ys)
  case Nil
  then show ?case by (cases ys) auto
next
  case (Cons x xs)
  then show ?case by (cases ys) auto
qed

lemma list_rep_unique: "list_rep h p xs \<Longrightarrow> list_rep h p ys \<Longrightarrow> xs = ys"
  using dseg_unique [of h p xs p ys] by (auto simp: list_rep_def)

interpretation ln: fifo list_holds list_put list_take "\<lambda>_. False" list_admits
proof unfold_locales
  fix s q x xs
  assume r: "list_holds s q" and a: "list_admits (x # xs) s"
  have n: "x \<notin> set (fst s # q)" "x \<noteq> NULL" using r a by (auto simp: list_holds_def list_admits_def)
  have r': "list_rep (list_add_tail (fst s) x (snd s)) (fst s) (q @ [x])"
    using list_add_tail_rep n r by (simp add: list_holds_def)
  have "distinct (x # xs)" "NULL \<notin> set xs" "set (x # xs) \<inter> set (fst s # q) = {}"
    using a r by (auto simp: list_admits_def list_holds_def)
  then have "list_admits xs (fst s, list_add_tail (fst s) x (snd s))"
    using list_rep_unique [OF r'] by (fastforce simp: list_admits_def)
  then show "\<exists>s'. list_put x s = Inr s' \<and> list_holds s' (q @ [x]) \<and> list_admits xs s'"
    using r r' n by (auto simp: list_put_def list_holds_def)
next
  fix s
  assume "list_holds s []"
  then show "list_take s = Inr (None, s)"
    using list_empty_iff [of "snd s" "fst s" "[]"] by (simp add: list_holds_def list_take_def list_pop_def)
next
  fix s x q
  assume "list_holds s (x # q)"
  then show "\<exists>s'. list_take s = Inr (Some x, s') \<and> list_holds s' q"
    using list_pop_rep(1) [of "snd s" "fst s" x q 0] list_pop_rep(2) [of "snd s" "fst s" x q] by (auto simp: list_holds_def list_take_def)
qed auto

section \<open>What the other lists hold\<close>

primrec hseg :: "heap \<Rightarrow> addr \<Rightarrow> addr list \<Rightarrow> bool" where
  "hseg h p [] \<longleftrightarrow> h p NODE_NEXT = NULL"
| "hseg h p (x # xs) \<longleftrightarrow> h p NODE_NEXT = x \<and> x \<noteq> NULL \<and> h x NODE_PREV = p \<and> hseg h x xs"

definition hlist_rep :: "heap \<Rightarrow> addr \<Rightarrow> addr list \<Rightarrow> bool" where
  "hlist_rep h p xs \<longleftrightarrow> hseg h p xs \<and> distinct (p # xs) \<and> p \<noteq> NULL"

definition slist_rep :: "heap \<Rightarrow> addr \<Rightarrow> addr list \<Rightarrow> bool" where
  "slist_rep h p xs \<longleftrightarrow> chain h NODE_NEXT (h p NODE_NEXT) xs \<and> distinct (p # xs)"

lemma hseg_cong:
  "\<forall>x\<in>set (p # xs). h' x NODE_NEXT = h x NODE_NEXT \<Longrightarrow> \<forall>x\<in>set xs. h' x NODE_PREV = h x NODE_PREV \<Longrightarrow> hseg h' p xs = hseg h p xs"
  by (induction xs arbitrary: p) auto

lemma hlist_rep_cong:
  "(\<And>x. x \<in> set (p # xs) \<Longrightarrow> h' x NODE_NEXT = h x NODE_NEXT) \<Longrightarrow> (\<And>x. x \<in> set xs \<Longrightarrow> h' x NODE_PREV = h x NODE_PREV) \<Longrightarrow>
   hlist_rep h' p xs = hlist_rep h p xs"
  using hseg_cong [of p xs h' h] unfolding hlist_rep_def by blast

lemma hlist_rep_not_NULL: "hlist_rep h p xs \<Longrightarrow> NULL \<notin> set (p # xs)"
proof -
  have "hseg h q ys \<Longrightarrow> NULL \<notin> set ys" for q ys by (induction ys arbitrary: q) auto
  then show "hlist_rep h p xs \<Longrightarrow> NULL \<notin> set (p # xs)" by (auto simp: hlist_rep_def)
qed

lemma hlist_empty_iff: "hlist_rep h p xs \<Longrightarrow> hlist_empty p h \<longleftrightarrow> xs = []"
  by (cases xs) (auto simp: hlist_rep_def hlist_empty_def)

lemma hlist_prev_nonnull: "hlist_rep h p xs \<Longrightarrow> n \<in> set xs \<Longrightarrow> h n NODE_PREV \<noteq> NULL"
proof -
  have "hseg h q ys \<Longrightarrow> q \<noteq> NULL \<Longrightarrow> n \<in> set ys \<Longrightarrow> h n NODE_PREV \<noteq> NULL" for q ys by (induction ys arbitrary: q) auto
  then show "hlist_rep h p xs \<Longrightarrow> n \<in> set xs \<Longrightarrow> h n NODE_PREV \<noteq> NULL" by (auto simp: hlist_rep_def)
qed

lemma hlist_add_head_frame:
  "hlist_rep h p xs \<Longrightarrow> x \<notin> set (p # n # xs) \<Longrightarrow> p \<noteq> n \<Longrightarrow> hlist_add_head p n h x = h x"
  by (cases xs) (auto simp: hlist_add_head_def hlist_rep_def hwrite_def Let_def)

lemma hlist_add_head_off: "off \<noteq> NODE_NEXT \<Longrightarrow> off \<noteq> NODE_PREV \<Longrightarrow> hlist_add_head p n h x off = h x off"
  by (simp add: hlist_add_head_def Let_def)

lemma hlist_add_head_rep:
  assumes r: "hlist_rep h p xs" and n: "n \<notin> set (p # xs)" "n \<noteq> NULL"
  shows "hlist_rep (hlist_add_head p n h) p (n # xs)"
proof (cases xs)
  case Nil
  then show ?thesis using r n by (auto simp: hlist_rep_def hlist_add_head_def Let_def hwrite_def)
next
  case (Cons y ys)
  have e: "h p NODE_NEXT = y" "y \<noteq> NULL" "y \<noteq> n" "p \<noteq> n" "p \<noteq> y" using r n Cons by (auto simp: hlist_rep_def)
  have eq: "hlist_add_head p n h = hwrite (hwrite (hwrite (hwrite h n NODE_NEXT y) n NODE_PREV p) y NODE_PREV n) p NODE_NEXT n"
    using e by (simp add: hlist_add_head_def Let_def)
  have "hseg (hlist_add_head p n h) y ys = hseg h y ys"
    by (rule hseg_cong) (use r n Cons in \<open>auto simp: eq hwrite_def hlist_rep_def\<close>)
  then show ?thesis using r n Cons e by (auto simp: eq hwrite_def hlist_rep_def)
qed

text \<open>Removal needs no access to the head: the node before it is written through \<open>prev\<close>.\<close>

lemma hseg_append: "hseg h p (xs @ n # ys) \<longleftrightarrow> hseg (\<lambda>x off. if x = last (p # xs) \<and> off = NODE_NEXT then NULL else h x off) p xs \<and>
    h (last (p # xs)) NODE_NEXT = n \<and> n \<noteq> NULL \<and> h n NODE_PREV = last (p # xs) \<and> hseg h n ys"
  if "distinct (p # xs)"
  using that
proof (induction xs arbitrary: p)
  case (Cons x xs)
  then have "hseg (\<lambda>y off. if y = last (p # x # xs) \<and> off = NODE_NEXT then NULL else h y off) p (x # xs) \<longleftrightarrow>
      h p NODE_NEXT = x \<and> x \<noteq> NULL \<and> h x NODE_PREV = p \<and> hseg (\<lambda>y off. if y = last (x # xs) \<and> off = NODE_NEXT then NULL else h y off) x xs"
    using last_in_set [of "x # xs"] by auto
  moreover have "distinct (x # xs)" using Cons.prems by simp
  ultimately show ?case using Cons.IH [of x] by auto
qed simp

lemma hlist_del_rep:
  assumes r: "hlist_rep h p (xs @ n # ys)"
  shows "\<exists>h'. hlist_del n h = Inr h' \<and> hlist_rep h' p (xs @ ys) \<and> (\<forall>x. x \<notin> set (p # xs @ ys) \<longrightarrow> h' x = h x) \<and>
    (\<forall>x off. off \<noteq> NODE_NEXT \<longrightarrow> off \<noteq> NODE_PREV \<longrightarrow> h' x off = h x off)"
proof -
  define l where "l = last (p # xs)"
  have d: "distinct (p # xs @ n # ys)" "p \<noteq> NULL" using r by (auto simp: hlist_rep_def)
  have dp: "distinct (p # xs)" and lx: "l \<in> set (p # xs)" using d last_in_set [of "p # xs"] by (auto simp: l_def)
  have s: "hseg (\<lambda>x off. if x = l \<and> off = NODE_NEXT then NULL else h x off) p xs" "h l NODE_NEXT = n" "n \<noteq> NULL" "h n NODE_PREV = l" "hseg h n ys"
    using r hseg_append [OF dp] by (auto simp only: hlist_rep_def l_def)
  have ln: "l \<noteq> NULL" "l \<noteq> n" "l \<notin> set ys" using lx d r hlist_rep_not_NULL [OF r] by auto
  define h' where "h' = (if ys = [] then hwrite h l NODE_NEXT NULL else hwrite (hwrite h l NODE_NEXT (hd ys)) (hd ys) NODE_PREV l)"
  have nx: "h n NODE_NEXT = (if ys = [] then NULL else hd ys)" and hy: "ys \<noteq> [] \<Longrightarrow> hd ys \<noteq> NULL \<and> hd ys \<in> set ys"
    using s(5) by (cases ys; auto)+
  have call: "hlist_del n h = Inr h'" using s(4) ln nx hy by (auto simp: hlist_del_def h'_def Let_def hwrite_def)
  have pre: "hseg (\<lambda>x off. if x = l \<and> off = NODE_NEXT then NULL else h' x off) p xs"
    using s(1) by (subst hseg_cong [of p xs _ "\<lambda>x off. if x = l \<and> off = NODE_NEXT then NULL else h x off"])
      (use d lx hy in \<open>auto simp: h'_def hwrite_def\<close>)
  have "hseg h' p (xs @ ys)"
  proof (cases ys)
    case Nil
    then have "hseg h' p xs" using pre by (subst hseg_cong [of p xs h' "\<lambda>x off. if x = l \<and> off = NODE_NEXT then NULL else h' x off"]) (auto simp: h'_def hwrite_def)
    then show ?thesis using Nil by simp
  next
    case (Cons y zs)
    have "hseg h' y zs = hseg h y zs" by (rule hseg_cong) (use d ln Cons in \<open>auto simp: h'_def hwrite_def\<close>)
    moreover have "h' l NODE_NEXT = y" "h' y NODE_PREV = l" using ln Cons by (auto simp: h'_def hwrite_def)
    ultimately show ?thesis unfolding Cons hseg_append [OF dp] l_def [symmetric] using pre s(5) Cons by simp
  qed
  then have "hlist_rep h' p (xs @ ys)" using d by (auto simp: hlist_rep_def)
  moreover have "h' x = h x" if "x \<notin> set (p # xs @ ys)" for x
  proof -
    have "x \<noteq> l" "ys \<noteq> [] \<Longrightarrow> x \<noteq> hd ys" using that lx hy by auto
    then show ?thesis by (simp add: h'_def)
  qed
  moreover have "h' x off = h x off" if "off \<noteq> NODE_NEXT" "off \<noteq> NODE_PREV" for x off using that by (simp add: h'_def)
  ultimately show ?thesis using call by (intro exI [of _ h']) simp
qed

lemma hlist_for_each_hseg: "hseg h p xs \<Longrightarrow> hlist_for_each (h p NODE_NEXT) h = Some xs"
proof (induction xs arbitrary: p)
  case Nil
  then show ?case by (subst hlist_for_each.simps) simp
next
  case (Cons x xs)
  then show ?case by (subst hlist_for_each.simps) auto
qed

lemma slist_add_head_rep:
  "slist_rep h p xs \<Longrightarrow> n \<notin> set (p # xs) \<Longrightarrow> n \<noteq> NULL \<Longrightarrow> slist_rep (slist_add_head p n h) p (n # xs)"
  by (auto simp: slist_rep_def slist_add_head_def Let_def)

lemma slist_del_head_rep:
  assumes "slist_rep h p (n # xs)"
  shows "\<exists>h'. slist_del_head p h = Inr h' \<and> slist_rep h' p xs"
  using assms by (auto simp: slist_rep_def slist_del_head_def)

lemma slist_del_head_empty: "slist_rep h p [] \<Longrightarrow> slist_del_head p h = Inl Null_deref"
  by (simp add: slist_rep_def slist_del_head_def)

section \<open>Properties\<close>

text \<open>
  Emptying one circular list into another with \<open>list_append_list\<close> leaves the source empty and the target with both
  sequences in order, whichever of them is empty; a loop over the target ends and visits exactly these entries, and a
  loop backwards visits them in reverse.
\<close>

theorem list_append_visits:
  assumes "list_rep h to xs" "list_rep h from ys" "distinct (to # xs @ from # ys)"
  shows "(let h' = list_append_list to from h in
     list_for_each_off to off (h' to NODE_NEXT) h' = Some (map (\<lambda>x. x - off) (xs @ ys)) \<and>
     list_for_each_rev to off (h' to NODE_PREV) h' = Some (map (\<lambda>x. x - off) (rev (xs @ ys))) \<and>
     list_empty from h')"
  using list_for_each_rep [OF list_append_list_rep(1) [OF assms], of off] list_empty_iff [OF list_append_list_rep(2) [OF assms]]
  by (simp only: Let_def simp_thms)

theorem list_append_visits_witness:
  "(let h = list_add_tail 0x20 0x400 (list_add_tail 0x10 0x300 (list_add_tail 0x10 0x200 (list_head_init 0x20 (list_head_init 0x10 (\<lambda>_ _. 0)))));
        h' = list_append_list 0x10 0x20 h
    in list_for_each_off 0x10 8 (h' 0x10 NODE_NEXT) h' = Some [0x1F8, 0x2F8, 0x3F8] \<and> list_empty 0x20 h')"
proof -
  let ?h0 = "list_head_init 0x20 (list_head_init 0x10 (\<lambda>_ _. 0))"
  have r0: "list_rep ?h0 0x10 []" "list_rep ?h0 0x20 []" by (simp_all add: list_rep_def list_head_init_def hwrite_def)
  let ?h1 = "list_add_tail 0x10 0x200 ?h0" and ?h2 = "list_add_tail 0x10 0x300 (list_add_tail 0x10 0x200 ?h0)"
  have r2: "list_rep ?h2 0x10 [0x200, 0x300]"
    using list_add_tail_rep [OF list_add_tail_rep [OF r0(1), of "0x200"], of "0x300"] by simp
  have "list_rep ?h2 0x20 []" by (simp add: list_rep_def list_add_tail_def Let_def hwrite_def list_head_init_def)
  then have r3: "list_rep (list_add_tail 0x20 0x400 ?h2) 0x20 [0x400]" using list_add_tail_rep [of ?h2 "0x20" "[]" "0x400"] by simp
  have "list_rep (list_add_tail 0x20 0x400 ?h2) 0x10 [0x200, 0x300]"
    using r2 by (subst list_rep_cong [of _ _ _ ?h2]) (auto simp: list_add_tail_def Let_def hwrite_def list_head_init_def)
  from list_append_visits [OF this r3, of 8] show ?thesis by (simp add: Let_def)
qed

text \<open>
  Entries appended with \<open>list_add_tail\<close> leave a circular list through \<open>list_pop\<close> in the order in which they were
  added, after those the list held, and none is lost.
\<close>

theorem list_queue_order:
  assumes "list_rep h p q" "NULL \<notin> set q" "distinct xs" "NULL \<notin> set xs" "set xs \<inter> set (p # q) = {}"
  shows "\<exists>s1 s2. enq_all list_put xs (p, h) = Inr s1 \<and> deq_n list_take (length (q @ xs)) s1 = Inr (map Some (q @ xs), s2) \<and>
    list_rep (snd s2) (fst s2) []"
proof -
  have r: "list_holds (p, h) q" using assms by (simp add: list_holds_def)
  have "\<forall>ys. list_rep h p ys \<longrightarrow> ys = q" using list_rep_unique [OF assms(1)] by blast
  then have a: "list_admits xs (p, h)" using assms(3-5) by (fastforce simp: list_admits_def)
  obtain s1 where s1: "enq_all list_put xs (p, h) = Inr s1" "list_holds s1 (q @ xs)"
    using r a
  proof (induction xs arbitrary: q h thesis)
    case (Cons x xs)
    obtain s' where s': "list_put x (p, h) = Inr s'" "list_holds s' (q @ [x])" "list_admits xs s'"
      using ln.enq_room [OF Cons.prems(2,3)] by auto
    have "fst s' = p" using s'(1) by (auto simp: list_put_def)
    then obtain h' where "s' = (p, h')" by (cases s') auto
    then show ?case using Cons.IH [of h' "q @ [x]"] Cons.prems(1) s' by auto
  qed simp
  then obtain s2 where "deq_n list_take (length (q @ xs)) s1 = Inr (map Some (q @ xs), s2)" "list_holds s2 []"
    using ln.deq_n_drains [OF s1(2)] by blast
  then show ?thesis using s1(1) unfolding list_holds_def by blast
qed

theorem list_queue_order_witness:
  "\<exists>s1 s2. enq_all list_put [0x300, 0x200] (0x10, list_head_init 0x10 (\<lambda>_ _. 0)) = Inr s1 \<and> deq_n list_take 2 s1 = Inr ([Some 0x300, Some 0x200], s2)"
proof -
  have p: "NULL \<notin> set []" "distinct [0x300 :: addr, 0x200]" "NULL \<notin> set [0x300 :: addr, 0x200]" "set [0x300 :: addr, 0x200] \<inter> set [0x10] = {}" by simp_all
  obtain s1 s2 where "enq_all list_put [0x300, 0x200] (0x10, list_head_init 0x10 (\<lambda>_ _. 0)) = Inr s1"
    "deq_n list_take (length ([] @ [0x300 :: addr, 0x200])) s1 = Inr (map Some ([] @ [0x300, 0x200]), s2)"
    using list_queue_order [OF list_head_init_rep p] by blast
  then show ?thesis by (intro exI [of _ s1] exI [of _ s2] conjI) (simp_all add: numeral_2_eq_2)
qed

text \<open>
  \<open>hlist_del\<close> takes a node out of the list it is on without being told which list that is, whether it is the first,
  the last or in between; the loop over the list then ends and visits the others in order, and other memory is untouched.
\<close>

theorem hlist_del_visits:
  assumes "hlist_rep h p (xs @ n # ys)"
  shows "\<exists>h'. hlist_del n h = Inr h' \<and> hlist_for_each (h' p NODE_NEXT) h' = Some (xs @ ys) \<and> (\<forall>x. x \<notin> set (p # xs @ ys) \<longrightarrow> h' x = h x)"
proof -
  obtain h' where "hlist_del n h = Inr h'" "hlist_rep h' p (xs @ ys)" "\<forall>x. x \<notin> set (p # xs @ ys) \<longrightarrow> h' x = h x"
    using hlist_del_rep [OF assms] by metis
  moreover from this(2) have "hlist_for_each (h' p NODE_NEXT) h' = Some (xs @ ys)" by (simp add: hlist_rep_def hlist_for_each_hseg)
  ultimately show ?thesis by (intro exI [of _ h']) simp
qed

theorem hlist_del_visits_witness:
  "\<exists>h'. hlist_del 0x200 (hlist_add_head 0x10 0x300 (hlist_add_head 0x10 0x200 (hlist_add_head 0x10 0x100 (\<lambda>_ _. 0)))) = Inr h' \<and>
     hlist_for_each (h' 0x10 NODE_NEXT) h' = Some [0x300, 0x100]"
proof -
  have "hlist_rep (\<lambda>_ _. 0) 0x10 []" by (simp add: hlist_rep_def)
  from hlist_add_head_rep [OF hlist_add_head_rep [OF hlist_add_head_rep [OF this, of "0x100"], of "0x200"], of "0x300"]
  have "hlist_rep (hlist_add_head 0x10 0x300 (hlist_add_head 0x10 0x200 (hlist_add_head 0x10 0x100 (\<lambda>_ _. 0)))) 0x10 ([0x300] @ 0x200 # [0x100])" by simp
  from hlist_del_visits [OF this] obtain h' where "hlist_del 0x200 (hlist_add_head 0x10 0x300 (hlist_add_head 0x10 0x200 (hlist_add_head 0x10 0x100 (\<lambda>_ _. 0)))) = Inr h'"
    "hlist_for_each (h' 0x10 NODE_NEXT) h' = Some ([0x300] @ [0x100])" by blast
  then show ?thesis by (intro exI [of _ h'] conjI) simp_all
qed

end
