(* ===== verification/Timer.thy ===== *)
theory Timer
  imports Linked_Lists Mem
begin

text \<open>
  The hierarchical timing wheels of \<open>dp/core/timer.c\<close> and \<open>inc/ix/timer.h\<close>: three wheels of 256 buckets with a
  resolution of 16 microseconds, 4 milliseconds and 1 second, every bucket a list of \<open>list.h\<close> in memory.  The time
  stamp counter is an argument of the operations that read it; the timer handlers are a parameter.
\<close>

section \<open>Data\<close>

definition WHEEL_SHIFT_LOG2 :: nat where
  "WHEEL_SHIFT_LOG2 = 3"

definition WHEEL_SHIFT :: nat where
  "WHEEL_SHIFT = push_bit WHEEL_SHIFT_LOG2 1"

definition WHEEL_SIZE :: nat where
  "WHEEL_SIZE = push_bit WHEEL_SHIFT 1"

definition WHEEL_MASK :: u64 where
  "WHEEL_MASK = of_nat (WHEEL_SIZE - 1)"

definition WHEEL_COUNT :: nat where
  "WHEEL_COUNT = 3"

definition ONE_SECOND :: u64 where
  "ONE_SECOND = 1000000"

definition MIN_DELAY_SHIFT :: nat where
  "MIN_DELAY_SHIFT = 4"

definition MIN_DELAY_US :: u64 where
  "MIN_DELAY_US = push_bit MIN_DELAY_SHIFT 1"

definition MAX_DELAY_US :: u64 where
  "MAX_DELAY_US = MIN_DELAY_US * push_bit (WHEEL_COUNT * WHEEL_SHIFT) 1"

definition WHEEL_IDX_TO_SHIFT :: "nat \<Rightarrow> nat" where
  "WHEEL_IDX_TO_SHIFT idx = idx * WHEEL_SHIFT + MIN_DELAY_SHIFT"

definition WHEEL_OFFSET :: "u64 \<Rightarrow> nat \<Rightarrow> nat" where
  "WHEEL_OFFSET val idx = unat (drop_bit (WHEEL_IDX_TO_SHIFT idx) val AND WHEEL_MASK)"

lemmas wheel_consts = WHEEL_SHIFT_LOG2_def WHEEL_SHIFT_def WHEEL_SIZE_def WHEEL_MASK_def WHEEL_COUNT_def MIN_DELAY_SHIFT_def
  MIN_DELAY_US_def MAX_DELAY_US_def WHEEL_IDX_TO_SHIFT_def

text \<open>Fields of \<open>struct timer\<close>, whose \<open>link\<close> comes first, and of the flow group it belongs to.\<close>

abbreviation TIMER_HANDLER :: nat where "TIMER_HANDLER \<equiv> 16"
abbreviation TIMER_EXPIRES :: nat where "TIMER_EXPIRES \<equiv> 24"
abbreviation TIMER_FG_ID :: nat where "TIMER_FG_ID \<equiv> 32"
abbreviation FG_FG_ID :: nat where "FG_FG_ID \<equiv> 0"
abbreviation FG_CUR_CPU :: nat where "FG_CUR_CPU \<equiv> 4"

text \<open>
  The wheel of a core with the memory its buckets and timers are in.  \<open>tw_calls\<close> records the calls of handlers: the timer
  and the flow group passed to it.
\<close>

record timerwheel =
  now_us :: u64
  timer_pos :: u64
  tw_wheels :: addr
  tw_mem :: heap
  tw_calls :: "(addr \<times> addr) list"

text \<open>The array of flow groups, also outside its bounds, the number of this core, and the code of the handlers.\<close>

record timer_env =
  te_fgs :: "int \<Rightarrow> addr"
  te_cpu :: u64
  te_run :: "u64 \<Rightarrow> addr \<Rightarrow> addr \<Rightarrow> timerwheel \<Rightarrow> timerwheel res"

abbreviation tread :: "timerwheel \<Rightarrow> addr \<Rightarrow> nat \<Rightarrow> u64" where
  "tread s t off \<equiv> tw_mem s t off"

definition timer_fg :: "timerwheel \<Rightarrow> addr \<Rightarrow> int" where
  "timer_fg s t = sint (ucast (tread s t TIMER_FG_ID) :: u32)"

definition bucket :: "timerwheel \<Rightarrow> nat \<Rightarrow> nat \<Rightarrow> addr" where
  "bucket s idx off = tw_wheels s + of_nat (8 * (WHEEL_SIZE * idx + off))"

section \<open>Operations\<close>

definition timer_init_entry :: "addr \<Rightarrow> u64 \<Rightarrow> timerwheel \<Rightarrow> timerwheel" where
  "timer_init_entry t handler s = s\<lparr>tw_mem := hwrite (hwrite (tw_mem s) t NODE_PREV NULL) t TIMER_HANDLER handler\<rparr>"

definition timer_pending :: "addr \<Rightarrow> timerwheel \<Rightarrow> bool" where
  "timer_pending t s \<longleftrightarrow> tread s t NODE_PREV \<noteq> NULL"

definition timer_expired :: "timerwheel \<Rightarrow> addr \<Rightarrow> bool" where
  "timer_expired s t \<longleftrightarrow> tread s t TIMER_EXPIRES \<le> now_us s"

text \<open>The number of leading zeros; the compiler intrinsic is undefined for zero.\<close>

fun nbits :: "nat \<Rightarrow> nat" where
  "nbits n = (if n = 0 then 0 else Suc (nbits (n div 2)))"

declare nbits.simps [simp del]

definition clz64 :: "u64 \<Rightarrow> int" where
  "clz64 x = 64 - int (nbits (unat x))"

definition wheel_index :: "u64 \<Rightarrow> int" where
  "wheel_index delay_us = drop_bit WHEEL_SHIFT_LOG2 (63 - clz64 delay_us - int MIN_DELAY_SHIFT)"

definition timer_insert :: "addr \<Rightarrow> addr \<Rightarrow> timerwheel \<Rightarrow> timerwheel res" where
  "timer_insert cur_fg t s =
     (let expire_us = tread s t TIMER_EXPIRES + MIN_DELAY_US;
          delay_us = expire_us - now_us s;
          index = wheel_index delay_us
      in if delay_us = 0 \<or> index < 0 \<or> int WHEEL_COUNT \<le> index then Inl Out_of_bounds
         else let b = bucket s (nat index) (WHEEL_OFFSET expire_us (nat index));
                  h = hlist_add_head b t (tw_mem s);
                  fg = (if cur_fg \<noteq> NULL then ucast (ucast (h cur_fg FG_FG_ID) :: u16) else ucast (- 1 :: u32))
              in Inr (s\<lparr>tw_mem := hwrite h t TIMER_FG_ID fg\<rparr>))"

definition timer_now :: "u64 \<Rightarrow> u32 \<Rightarrow> u64 res" where
  "timer_now tsc cycles_per_us = (if cycles_per_us = 0 then Inl Div_by_zero else Inr (tsc div scast cycles_per_us))"

definition timer_add_on :: "u64 \<Rightarrow> u32 \<Rightarrow> addr \<Rightarrow> addr \<Rightarrow> u64 \<Rightarrow> timerwheel \<Rightarrow> timerwheel res" where
  "timer_add_on tsc cyc cur_fg t delay_us s =
     bindE (assertE (delay_us > 0)) (\<lambda>_.
     if delay_us \<ge> MAX_DELAY_US then Inl Panic
     else bindE (timer_now tsc cyc) (\<lambda>now.
          timer_insert cur_fg t (s\<lparr>tw_mem := hwrite (tw_mem s) t TIMER_EXPIRES (now + delay_us)\<rparr>)))"

definition timer_add :: "u64 \<Rightarrow> u32 \<Rightarrow> addr \<Rightarrow> addr \<Rightarrow> u64 \<Rightarrow> timerwheel \<Rightarrow> timerwheel res" where
  "timer_add tsc cyc t cur_fg usecs s = timer_add_on tsc cyc cur_fg t usecs s"

definition timer_add_abs :: "addr \<Rightarrow> addr \<Rightarrow> u64 \<Rightarrow> timerwheel \<Rightarrow> timerwheel res" where
  "timer_add_abs t cur_fg abs_usecs s =
     bindE (assertE (abs_usecs > timer_pos s)) (\<lambda>_.
     bindE (assertE (\<not> timer_pending t s)) (\<lambda>_.
     timer_insert cur_fg t (s\<lparr>tw_mem := hwrite (tw_mem s) t TIMER_EXPIRES abs_usecs\<rparr>)))"

definition timer_add_for_next_tick :: "addr \<Rightarrow> addr \<Rightarrow> timerwheel \<Rightarrow> timerwheel res" where
  "timer_add_for_next_tick t cur_fg s =
     timer_insert cur_fg t (s\<lparr>tw_mem := hwrite (tw_mem s) t TIMER_EXPIRES (now_us s + MIN_DELAY_US)\<rparr>)"

definition timer_del_raw :: "addr \<Rightarrow> timerwheel \<Rightarrow> timerwheel res" where
  "timer_del_raw t s = bindE (hlist_del t (tw_mem s)) (\<lambda>h. Inr (s\<lparr>tw_mem := hwrite h t NODE_PREV NULL\<rparr>))"

definition timer_mod :: "u64 \<Rightarrow> u32 \<Rightarrow> addr \<Rightarrow> addr \<Rightarrow> u64 \<Rightarrow> timerwheel \<Rightarrow> timerwheel res" where
  "timer_mod tsc cyc t cur_fg usecs s =
     bindE (if timer_pending t s then timer_del_raw t s else Inr s) (timer_add tsc cyc t cur_fg usecs)"

definition timer_del :: "addr \<Rightarrow> timerwheel \<Rightarrow> timerwheel res" where
  "timer_del t s = (if timer_pending t s then timer_del_raw t s else Inr s)"

text \<open>Running an expired timer: the flow group \<open>fgs[-1]\<close> is passed when the timer has none.\<close>

definition timer_call :: "timer_env \<Rightarrow> addr \<Rightarrow> timerwheel \<Rightarrow> timerwheel res" where
  "timer_call env t s =
     (let fg = te_fgs env (timer_fg s t)
      in bindE (if timer_fg s t \<ge> 0 then assertE (tread s fg FG_CUR_CPU = te_cpu env) else Inr ()) (\<lambda>_.
         te_run env (tread s t TIMER_HANDLER) t fg (s\<lparr>tw_calls := tw_calls s @ [(t, fg)]\<rparr>)))"

partial_function (option) run_bucket_loop :: "timer_env \<Rightarrow> addr \<Rightarrow> timerwheel \<Rightarrow> timerwheel res option" where
  "run_bucket_loop env n s =
     (if n = NULL then Some (Inr s)
      else case bindE (timer_del_raw n s) (timer_call env n) of
             Inl e \<Rightarrow> Some (Inl e)
           | Inr s1 \<Rightarrow> run_bucket_loop env (tread s n NODE_NEXT) s1)"

definition timer_run_bucket :: "timer_env \<Rightarrow> addr \<Rightarrow> timerwheel \<Rightarrow> timerwheel res option" where
  "timer_run_bucket env b s =
     Option.bind (run_bucket_loop env (tread s b NODE_NEXT) s) (\<lambda>r.
     Some (bindE r (\<lambda>s1. Inr (s1\<lparr>tw_mem := hwrite (tw_mem s1) b NODE_NEXT NULL\<rparr>))))"

definition get_ethfg_from_id :: "timer_env \<Rightarrow> int \<Rightarrow> addr" where
  "get_ethfg_from_id env fg_id = (if fg_id < 0 then NULL else te_fgs env fg_id)"

definition reinsert_timer :: "timer_env \<Rightarrow> addr \<Rightarrow> timerwheel \<Rightarrow> timerwheel res" where
  "reinsert_timer env t s =
     bindE (timer_del_raw t s) (\<lambda>s1.
     if timer_expired s1 t then timer_call env t s1
     else timer_insert (get_ethfg_from_id env (timer_fg s1 t)) t s1)"

partial_function (option) reinsert_loop :: "timer_env \<Rightarrow> addr \<Rightarrow> int \<Rightarrow> timerwheel \<Rightarrow> (int \<times> timerwheel) res option" where
  "reinsert_loop env x n s =
     (if x = NULL then Some (Inr (n, s))
      else case reinsert_timer env x s of
             Inl e \<Rightarrow> Some (Inl e)
           | Inr s1 \<Rightarrow> reinsert_loop env (tread s x NODE_NEXT) (n + 1) s1)"

definition timer_reinsert_bucket :: "timer_env \<Rightarrow> addr \<Rightarrow> timerwheel \<Rightarrow> (int \<times> timerwheel) res option" where
  "timer_reinsert_bucket env b s = reinsert_loop env (tread s b NODE_NEXT) 0 s"

definition timer_collapse :: "timer_env \<Rightarrow> u64 \<Rightarrow> timerwheel \<Rightarrow> (int \<times> timerwheel) res option" where
  "timer_collapse env pos s =
     Option.bind (timer_reinsert_bucket env (bucket s 1 (WHEEL_OFFSET pos 1)) s) (\<lambda>r.
     case r of
       Inl e \<Rightarrow> Some (Inl e)
     | Inr (n, s1) \<Rightarrow>
         if WHEEL_OFFSET pos 1 \<noteq> 0 then Some (Inr (n, s1))
         else timer_reinsert_bucket env (bucket s1 2 (WHEEL_OFFSET pos 2)) s1)"

definition timer_tick :: "timer_env \<Rightarrow> u64 \<Rightarrow> timerwheel \<Rightarrow> timerwheel res option" where
  "timer_tick env pos s =
     Option.bind (if WHEEL_OFFSET pos 0 = 0 then Option.bind (timer_collapse env pos s) (\<lambda>r. Some (bindE r (\<lambda>(n, s1). Inr s1)))
                  else Some (Inr s)) (\<lambda>r.
     case r of Inl e \<Rightarrow> Some (Inl e) | Inr s1 \<Rightarrow> timer_run_bucket env (bucket s1 0 (WHEEL_OFFSET pos 0)) s1)"

partial_function (option) timer_run_loop :: "timer_env \<Rightarrow> u64 \<Rightarrow> timerwheel \<Rightarrow> timerwheel res option" where
  "timer_run_loop env pos s =
     (if pos \<le> now_us s
      then Option.bind (timer_tick env pos s) (\<lambda>r.
           case r of Inl e \<Rightarrow> Some (Inl e) | Inr s1 \<Rightarrow> timer_run_loop env (pos + MIN_DELAY_US) s1)
      else Some (Inr (s\<lparr>timer_pos := pos\<rparr>)))"

definition timer_run :: "timer_env \<Rightarrow> u64 \<Rightarrow> u32 \<Rightarrow> timerwheel \<Rightarrow> timerwheel res option" where
  "timer_run env tsc cyc s =
     (case timer_now tsc cyc of
        Inl e \<Rightarrow> Some (Inl e)
      | Inr now \<Rightarrow> timer_run_loop env (timer_pos s) (s\<lparr>now_us := now\<rparr>))"

text \<open>The bucket positions \<open>start + 1, \<dots>, end\<close> are below \<open>2^60\<close>, so the loop counter does not wrap.\<close>

definition deadline_scan :: "timerwheel \<Rightarrow> nat \<Rightarrow> nat \<Rightarrow> nat \<Rightarrow> nat option" where
  "deadline_scan s idx start e = find (\<lambda>k. \<not> hlist_empty (bucket s idx (unat ((of_nat k :: u64) AND WHEEL_MASK))) (tw_mem s)) [start + 1..<e + 1]"

primrec deadline_loop :: "u64 \<Rightarrow> u32 \<Rightarrow> u64 \<Rightarrow> nat list \<Rightarrow> timerwheel \<Rightarrow> u64 res" where
  "deadline_loop tsc cyc max_deadline_us [] s = Inr max_deadline_us"
| "deadline_loop tsc cyc max_deadline_us (idx # idxs) s =
     (let start = drop_bit (WHEEL_IDX_TO_SHIFT idx) (now_us s);
          e = drop_bit (WHEEL_IDX_TO_SHIFT idx) (now_us s + max_deadline_us)
      in if start = e then Inr max_deadline_us
         else case deadline_scan s idx (unat start) (unat (min e (start + of_nat WHEEL_SIZE))) of
                Some k \<Rightarrow>
                  (let deadline_us = push_bit (WHEEL_IDX_TO_SHIFT idx) (of_nat k)
                   in bindE (timer_now tsc cyc) (\<lambda>tsc_us. Inr (if deadline_us \<le> tsc_us then 0 else deadline_us - tsc_us)))
              | None \<Rightarrow> deadline_loop tsc cyc max_deadline_us idxs s)"

definition timer_deadline :: "u64 \<Rightarrow> u32 \<Rightarrow> u64 \<Rightarrow> timerwheel \<Rightarrow> u64 res" where
  "timer_deadline tsc cyc max_deadline_us s = deadline_loop tsc cyc max_deadline_us [0..<WHEEL_COUNT] s"

text \<open>Moving the timers of some flow groups to another core: collected on one wheel, re-injected on the other.\<close>

partial_function (option) collect_loop :: "(int \<Rightarrow> bool) \<Rightarrow> addr \<Rightarrow> addr \<Rightarrow> int \<Rightarrow> timerwheel \<Rightarrow> (int \<times> timerwheel) res option" where
  "collect_loop fg_vector l x n s =
     (if x = NULL then Some (Inr (n, s))
      else if timer_fg s x \<ge> 0 \<and> fg_vector (timer_fg s x)
      then case hlist_del x (tw_mem s) of
             Inl e \<Rightarrow> Some (Inl e)
           | Inr h \<Rightarrow> collect_loop fg_vector l (tread s x NODE_NEXT) (n + 1) (s\<lparr>tw_mem := hlist_add_head l x h\<rparr>)
      else collect_loop fg_vector l (tread s x NODE_NEXT) n s)"

primrec collect_buckets :: "(int \<Rightarrow> bool) \<Rightarrow> addr \<Rightarrow> (nat \<times> nat) list \<Rightarrow> int \<Rightarrow> timerwheel \<Rightarrow> (int \<times> timerwheel) res option" where
  "collect_buckets fg_vector l [] n s = Some (Inr (n, s))"
| "collect_buckets fg_vector l (b # bs) n s =
     Option.bind (collect_loop fg_vector l (tread s (bucket s (fst b) (snd b)) NODE_NEXT) n s) (\<lambda>r.
     case r of Inl e \<Rightarrow> Some (Inl e) | Inr (n1, s1) \<Rightarrow> collect_buckets fg_vector l bs n1 s1)"

definition timer_collect_fgs :: "(int \<Rightarrow> bool) \<Rightarrow> addr \<Rightarrow> timerwheel \<Rightarrow> u64 \<times> (int \<times> timerwheel) res option" where
  "timer_collect_fgs fg_vector l s =
     (timer_pos s, collect_buckets fg_vector l (List.product [0..<WHEEL_COUNT] [0..<WHEEL_SIZE]) 0 s)"

partial_function (option) reinject_loop :: "timer_env \<Rightarrow> u64 \<Rightarrow> u32 \<Rightarrow> u64 \<Rightarrow> addr \<Rightarrow> timerwheel \<Rightarrow> timerwheel res option" where
  "reinject_loop env tsc cyc t_base x s =
     (if x = NULL then Some (Inr s)
      else case bindE (assertE (timer_fg s x \<ge> 0)) (\<lambda>_.
             let fg = te_fgs env (timer_fg s x); delay = sint (tread s x TIMER_EXPIRES - t_base)
             in if delay \<le> 0 then timer_add_for_next_tick x fg s else timer_add_on tsc cyc fg x (of_int delay) s) of
             Inl e \<Rightarrow> Some (Inl e)
           | Inr s1 \<Rightarrow> reinject_loop env tsc cyc t_base (tread s x NODE_NEXT) s1)"

definition timer_reinject_fgs :: "timer_env \<Rightarrow> u64 \<Rightarrow> u32 \<Rightarrow> addr \<Rightarrow> u64 \<Rightarrow> timerwheel \<Rightarrow> timerwheel res option" where
  "timer_reinject_fgs env tsc cyc l tpos s =
     reinject_loop env tsc cyc (if tpos \<ge> timer_pos s then timer_pos s else tpos) (tread s l NODE_NEXT) s"

definition timer_init_cpu :: "u64 \<Rightarrow> u32 \<Rightarrow> timerwheel \<Rightarrow> timerwheel res" where
  "timer_init_cpu tsc cyc s = bindE (timer_now tsc cyc) (\<lambda>now. Inr (s\<lparr>now_us := now, timer_pos := now\<rparr>))"

text \<open>
  The timers of user processes (\<open>dp/core/utimer.c\<close>): an array of 32, handed out in order by a counter.  The index given to
  \<open>utimer_arm\<close> is used as it is.
\<close>

definition UTIMER_COUNT :: int where
  "UTIMER_COUNT = 32"

abbreviation UTIMER_COOKIE :: nat where "UTIMER_COOKIE \<equiv> 40"

definition utimer_at :: "addr \<Rightarrow> int \<Rightarrow> addr" where
  "utimer_at ul i = ul + of_int (48 * i)"

definition find_available :: "int \<Rightarrow> int \<times> int" where
  "find_available nxt = (if nxt \<ge> UTIMER_COUNT then (- 1, nxt) else (nxt, nxt + 1))"

definition utimer_init :: "addr \<Rightarrow> u64 \<Rightarrow> u64 \<Rightarrow> int \<times> timerwheel \<Rightarrow> int \<times> int \<times> timerwheel" where
  "utimer_init ul udata generic_handler st =
     (let (index, nxt) = find_available (fst st); s = snd st
      in if index < 0 then (- 1, nxt, s)
         else let ut = utimer_at ul index
              in (index, nxt, timer_init_entry ut generic_handler (s\<lparr>tw_mem := hwrite (tw_mem s) ut UTIMER_COOKIE udata\<rparr>)))"

definition utimer_arm :: "u64 \<Rightarrow> u32 \<Rightarrow> addr \<Rightarrow> int \<Rightarrow> u64 \<Rightarrow> timerwheel \<Rightarrow> timerwheel res" where
  "utimer_arm tsc cyc ul timer_id delay s =
     (if timer_id < 0 \<or> UTIMER_COUNT \<le> timer_id then Inl Out_of_bounds
      else timer_add tsc cyc (utimer_at ul timer_id) NULL delay s)"

section \<open>Which wheel a timer is put on\<close>

lemma nbits_le_iff: "nbits n \<le> k \<longleftrightarrow> n < 2 ^ k"
proof (induction n arbitrary: k rule: nbits.induct)
  case (1 n)
  show ?case
  proof (cases "n = 0")
    case False
    show ?thesis
    proof (cases k)
      case 0
      then show ?thesis using False by (simp add: nbits.simps [of n])
    next
      case (Suc j)
      have "nbits n \<le> k \<longleftrightarrow> nbits (n div 2) \<le> j" using False Suc by (simp add: nbits.simps [of n])
      also have "\<dots> \<longleftrightarrow> n div 2 < 2 ^ j" using 1 False by simp
      also have "\<dots> \<longleftrightarrow> n < 2 ^ k" using Suc by (simp add: less_mult_imp_div_less div_less_iff_less_mult mult.commute)
      finally show ?thesis .
    qed
  qed (simp add: nbits.simps)
qed

lemma wheel_index_le_iff:
  "wheel_index d \<le> int k \<longleftrightarrow> unat d < 2 ^ (8 * k + 12)"
proof -
  have "wheel_index d = (int (nbits (unat d)) - 5) div 8" by (simp add: wheel_index_def clz64_def wheel_consts drop_bit_eq_div)
  then have "wheel_index d \<le> int k \<longleftrightarrow> nbits (unat d) \<le> 8 * k + 12" by linarith
  then show ?thesis by (simp add: nbits_le_iff)
qed

lemma wheel_index_nonneg_iff: "0 \<le> wheel_index d \<longleftrightarrow> 16 \<le> unat d"
proof -
  have "wheel_index d = (int (nbits (unat d)) - 5) div 8" by (simp add: wheel_index_def clz64_def wheel_consts drop_bit_eq_div)
  then have "0 \<le> wheel_index d \<longleftrightarrow> \<not> nbits (unat d) \<le> 4" by linarith
  then show ?thesis by (simp add: nbits_le_iff not_less)
qed

lemma wheel_index_range: "0 \<le> wheel_index d \<and> wheel_index d < int WHEEL_COUNT \<longleftrightarrow> 16 \<le> unat d \<and> unat d < 2 ^ 28"
  using wheel_index_nonneg_iff [of d] wheel_index_le_iff [of d 2] by (auto simp: WHEEL_COUNT_def)

section \<open>What the wheels hold\<close>

type_synonym wheels = "nat \<Rightarrow> nat \<Rightarrow> addr list"

definition wheel_heads :: "timerwheel \<Rightarrow> addr set" where
  "wheel_heads s = (\<lambda>(i, off). bucket s i off) ` ({..<3} \<times> {..<256})"

definition timers_of :: "wheels \<Rightarrow> addr set" where
  "timers_of W = (\<Union>i<3. \<Union>off<256. set (W i off))"

definition put_bucket :: "wheels \<Rightarrow> nat \<Rightarrow> nat \<Rightarrow> addr list \<Rightarrow> wheels" where
  "put_bucket W i off xs = W(i := (W i)(off := xs))"

definition wheel_rep :: "timerwheel \<Rightarrow> wheels \<Rightarrow> bool" where
  "wheel_rep s W \<longleftrightarrow> tw_wheels s \<noteq> NULL \<and> unat (tw_wheels s) + 8 * 768 < 2 ^ 64 \<and>
     (\<forall>i<3. \<forall>off<256. hlist_rep (tw_mem s) (bucket s i off) (W i off)) \<and> timers_of W \<inter> wheel_heads s = {} \<and>
     (\<forall>i<3. \<forall>off<256. \<forall>j<3. \<forall>off'<256. (i, off) \<noteq> (j, off') \<longrightarrow> set (W i off) \<inter> set (W j off') = {})"

lemma put_bucket_same [simp]: "put_bucket W i off xs i off = xs"
  by (simp add: put_bucket_def)

lemma put_bucket_other: "(j, off') \<noteq> (i, off) \<Longrightarrow> put_bucket W i off xs j off' = W j off'"
  by (auto simp: put_bucket_def)

lemma bucket_unat:
  assumes w: "unat (tw_wheels s) + 8 * 768 < 2 ^ 64" and "i < 3" "off < 256"
  shows "unat (bucket s i off) = unat (tw_wheels s) + 8 * (256 * i + off)"
proof -
  have "256 * i + off < 768" using assms(2,3) by linarith
  then have lt: "8 * (256 * i + off) < 8 * 768" by simp
  then have "unat (of_nat (8 * (256 * i + off)) :: u64) = 8 * (256 * i + off)" by (intro unat_of_nat64) simp
  moreover have "unat (tw_wheels s) + 8 * (256 * i + off) < 2 ^ LENGTH(64)" using lt w by simp
  ultimately show ?thesis unfolding bucket_def WHEEL_SIZE_def WHEEL_SHIFT_def WHEEL_SHIFT_LOG2_def
    using unat_add_lem [of "tw_wheels s" "of_nat (8 * (256 * i + off))"] by simp
qed

lemma bucket_inj:
  assumes w: "unat (tw_wheels s) + 8 * 768 < 2 ^ 64" and "i < 3" "j < 3" "off < 256" "off' < 256"
  shows "bucket s i off = bucket s j off' \<longleftrightarrow> (i, off) = (j, off')"
proof -
  have "unat (bucket s i off) = unat (bucket s j off') \<Longrightarrow> 256 * i + off = 256 * j + off'"
    unfolding bucket_unat [OF w assms(2,4)] bucket_unat [OF w assms(3,5)] by simp
  moreover have "i = j \<and> off = off'" if "256 * i + off = 256 * j + off'"
  proof -
    have "i = (256 * i + off) div 256" "j = (256 * j + off') div 256" using assms(4,5) by simp_all
    then have "i = j" using that by metis
    then show ?thesis using that by simp
  qed
  ultimately show ?thesis by auto
qed

lemma wheel_repD:
  assumes "wheel_rep s W" "i < 3" "off < 256"
  shows "hlist_rep (tw_mem s) (bucket s i off) (W i off)" "bucket s i off \<in> wheel_heads s" "set (W i off) \<subseteq> timers_of W"
  using assms by (auto simp: wheel_rep_def wheel_heads_def timers_of_def)

lemma wheel_rep_disjoint:
  "wheel_rep s W \<Longrightarrow> i < 3 \<Longrightarrow> off < 256 \<Longrightarrow> j < 3 \<Longrightarrow> off' < 256 \<Longrightarrow> (i, off) \<noteq> (j, off') \<Longrightarrow> set (W i off) \<inter> set (W j off') = {}"
  by (simp add: wheel_rep_def)

text \<open>Changing the links of one bucket, and of nothing else on the wheels.\<close>

lemma wheel_rep_update:
  assumes rep: "wheel_rep s W" and i: "i < 3" "off < 256" and new: "hlist_rep h' (bucket s i off) xs"
    and fresh: "set xs \<inter> wheel_heads s = {}" "\<And>x. x \<in> set xs \<Longrightarrow> x \<in> set (W i off) \<or> x \<notin> timers_of W"
    and same: "\<And>x f. x \<notin> set (bucket s i off # W i off @ xs) \<Longrightarrow> f = NODE_NEXT \<or> f = NODE_PREV \<Longrightarrow> h' x f = tw_mem s x f"
  shows "wheel_rep (s\<lparr>tw_mem := h'\<rparr>) (put_bucket W i off xs)"
proof -
  from rep have w: "tw_wheels s \<noteq> NULL" "unat (tw_wheels s) + 8 * 768 < 2 ^ 64"
    and hl: "\<And>i off. i < 3 \<Longrightarrow> off < 256 \<Longrightarrow> hlist_rep (tw_mem s) (bucket s i off) (W i off)"
    and th: "timers_of W \<inter> wheel_heads s = {}"
    and dj: "\<And>i off j off'. i < 3 \<Longrightarrow> off < 256 \<Longrightarrow> j < 3 \<Longrightarrow> off' < 256 \<Longrightarrow> (i, off) \<noteq> (j, off') \<Longrightarrow> set (W i off) \<inter> set (W j off') = {}"
    by (simp_all add: wheel_rep_def)
  have b: "bucket (s\<lparr>tw_mem := h'\<rparr>) = bucket s" by (simp add: bucket_def fun_eq_iff)
  have hd: "wheel_heads (s\<lparr>tw_mem := h'\<rparr>) = wheel_heads s" by (simp add: wheel_heads_def b)
  have other: "set xs \<inter> set (W j off') = {}" if "j < 3" "off' < 256" "(j, off') \<noteq> (i, off)" for j off'
  proof -
    have "set (W j off') \<subseteq> timers_of W" using wheel_repD(3) [OF rep that(1,2)] .
    moreover have "set (W i off) \<inter> set (W j off') = {}" using dj [OF i that(1,2)] that(3) by auto
    ultimately show ?thesis using fresh(2) by blast
  qed
  have "hlist_rep h' (bucket s j off') (put_bucket W i off xs j off')" if j: "j < 3" "off' < 256" for j off'
  proof (cases "(j, off') = (i, off)")
    case False
    have m: "bucket s j off' \<noteq> bucket s i off" using bucket_inj [OF w(2) j(1) i(1) j(2) i(2)] False by auto
    have ts: "x \<noteq> bucket s i off" "x \<notin> set (W i off)" "x \<notin> set xs" if "x \<in> set (W j off')" for x
    proof -
      show "x \<noteq> bucket s i off" using that th wheel_repD(3) [OF rep j] wheel_repD(2) [OF rep i] by blast
      show "x \<notin> set (W i off)" using that dj [OF i j] False by auto
      show "x \<notin> set xs" using that other [OF j False] by auto
    qed
    have bs: "bucket s j off' \<notin> set (W i off)" "bucket s j off' \<notin> set xs"
      using th fresh(1) wheel_repD(2) [OF rep j] wheel_repD(3) [OF rep i] by blast+
    have "hlist_rep h' (bucket s j off') (W j off')"
      using hl [OF j] same ts m bs by (subst hlist_rep_cong [of _ _ h' "tw_mem s"]) auto
    then show ?thesis using False by (simp add: put_bucket_other)
  qed (use new in simp)
  moreover have "timers_of (put_bucket W i off xs) \<inter> wheel_heads s = {}"
  proof -
    have "timers_of (put_bucket W i off xs) \<subseteq> timers_of W \<union> set xs"
      unfolding timers_of_def put_bucket_def by (auto split: if_splits) blast+
    then show ?thesis using th fresh(1) by blast
  qed
  moreover have "set (put_bucket W i off xs k a) \<inter> set (put_bucket W i off xs j c) = {}"
    if "k < 3" "a < 256" "j < 3" "c < 256" "(k, a) \<noteq> (j, c)" for k a j c
  proof (cases "(k, a) = (i, off)")
    case True
    then show ?thesis using other [OF that(3,4)] that(5) by (auto simp: put_bucket_def split: if_splits)
  next
    case False
    then show ?thesis using other [OF that(1,2) False] dj [OF that] by (auto simp: put_bucket_def split: if_splits)
  qed
  ultimately show ?thesis using w by (simp add: wheel_rep_def b hd)
qed

lemma wheel_offset_eq: "WHEEL_OFFSET val idx = unat val div 2 ^ (8 * idx + 4) mod 256"
proof -
  have "WHEEL_MASK = mask 8" "WHEEL_IDX_TO_SHIFT idx = 8 * idx + 4" by (simp_all add: wheel_consts mask_eq_exp_minus_1)
  then have "WHEEL_OFFSET val idx = unat (take_bit 8 (drop_bit (8 * idx + 4) val))"
    by (simp only: WHEEL_OFFSET_def take_bit_eq_mask)
  also have "\<dots> = take_bit 8 (drop_bit (8 * idx + 4) (unat val))" 
  proof -
    have "unat val < 2 ^ LENGTH(64)" by (rule unsigned_less)
    then show ?thesis by (simp only: unsigned_take_bit_eq unsigned_drop_bit_eq) (simp add: take_bit_nat_eq_self)
  qed
  also have "\<dots> = unat val div 2 ^ (8 * idx + 4) mod 256" by (simp add: take_bit_eq_mod drop_bit_eq_div)
  finally show ?thesis .
qed

lemma wheel_offset_less [simp]: "WHEEL_OFFSET val idx < 256"
  by (simp add: wheel_offset_eq)

text \<open>What the operations leave alone: everything but the links of the wheels and the flow group of the timer.\<close>

definition tw_frame :: "timerwheel \<Rightarrow> timerwheel \<Rightarrow> bool" where
  "tw_frame s s' \<longleftrightarrow> now_us s' = now_us s \<and> timer_pos s' = timer_pos s \<and> tw_wheels s' = tw_wheels s \<and>
     (\<forall>x f. f \<noteq> NODE_NEXT \<longrightarrow> f \<noteq> NODE_PREV \<longrightarrow> f \<noteq> TIMER_FG_ID \<longrightarrow> tread s' x f = tread s x f)"

lemma tw_frame_refl [simp]: "tw_frame s s"
  and tw_frame_trans: "tw_frame s s' \<Longrightarrow> tw_frame s' s'' \<Longrightarrow> tw_frame s s''"
  by (simp_all add: tw_frame_def)

lemma tw_frame_bucket: "tw_frame s s' \<Longrightarrow> bucket s' = bucket s" "tw_frame s s' \<Longrightarrow> wheel_heads s' = wheel_heads s"
proof -
  show b: "tw_frame s s' \<Longrightarrow> bucket s' = bucket s" by (simp add: tw_frame_def bucket_def fun_eq_iff)
  then show "tw_frame s s' \<Longrightarrow> wheel_heads s' = wheel_heads s" by (simp add: wheel_heads_def)
qed

lemma timer_insert_rep:
  assumes rep: "wheel_rep s W" and t: "t \<noteq> NULL" "t \<notin> timers_of W" "t \<notin> wheel_heads s"
    and d: "16 \<le> unat (tread s t TIMER_EXPIRES + MIN_DELAY_US - now_us s)" "unat (tread s t TIMER_EXPIRES + MIN_DELAY_US - now_us s) < 2 ^ 28"
  defines "i \<equiv> nat (wheel_index (tread s t TIMER_EXPIRES + MIN_DELAY_US - now_us s))"
  defines "off \<equiv> WHEEL_OFFSET (tread s t TIMER_EXPIRES + MIN_DELAY_US) i"
  shows "\<exists>s'. timer_insert fg t s = Inr s' \<and> wheel_rep s' (put_bucket W i off (t # W i off)) \<and> tw_frame s s' \<and> tw_calls s' = tw_calls s \<and>
     timer_pending t s'"
proof -
  let ?d = "tread s t TIMER_EXPIRES + MIN_DELAY_US - now_us s"
  have r: "0 \<le> wheel_index ?d" "wheel_index ?d < int WHEEL_COUNT" using wheel_index_range [of ?d] d by auto
  have i: "i < 3" "off < 256" using r by (auto simp: i_def off_def WHEEL_COUNT_def)
  have d0: "?d \<noteq> 0" using d(1) by auto
  let ?b = "bucket s i off" let ?h = "hlist_add_head ?b t (tw_mem s)"
  define h where "h = hwrite ?h t TIMER_FG_ID (if fg \<noteq> NULL then ucast (ucast (?h fg FG_FG_ID) :: u16) else ucast (- 1 :: u32))"
  have call: "timer_insert fg t s = Inr (s\<lparr>tw_mem := h\<rparr>)"
    unfolding timer_insert_def Let_def h_def off_def i_def using r d0 by simp
  note bk = wheel_repD [OF rep i]
  have tb: "t \<notin> set (?b # W i off)" "?b \<noteq> t" using t bk by auto
  have rh: "hlist_rep ?h ?b (t # W i off)" by (rule hlist_add_head_rep [OF bk(1) tb(1) t(1)])
  have new: "hlist_rep h ?b (t # W i off)" using rh by (subst hlist_rep_cong [of _ _ h ?h]) (simp_all add: h_def)
  have "wheel_rep (s\<lparr>tw_mem := h\<rparr>) (put_bucket W i off (t # W i off))"
  proof (rule wheel_rep_update [OF rep i new])
    show "set (t # W i off) \<inter> wheel_heads s = {}" using t(3) bk(3) rep by (auto simp: wheel_rep_def)
    show "\<And>x. x \<in> set (t # W i off) \<Longrightarrow> x \<in> set (W i off) \<or> x \<notin> timers_of W" using t(2) by auto
    show "h x f = tread s x f" if "x \<notin> set (?b # W i off @ t # W i off)" for x f
    proof -
      have "x \<notin> set (?b # t # W i off)" "x \<noteq> t" using that by auto
      then show ?thesis using hlist_add_head_frame [OF bk(1) _ tb(2), of x] by (simp add: h_def)
    qed
  qed
  moreover have "tw_frame s (s\<lparr>tw_mem := h\<rparr>)" by (auto simp: tw_frame_def h_def hlist_add_head_off)
  moreover have "timer_pending t (s\<lparr>tw_mem := h\<rparr>)" using hlist_prev_nonnull [OF new] by (simp add: timer_pending_def)
  ultimately show ?thesis using call by simp
qed

lemma timer_del_rep:
  assumes rep: "wheel_rep s W" and i: "i < 3" "off < 256" and w: "W i off = xs @ t # ys"
  shows "\<exists>s'. timer_del_raw t s = Inr s' \<and> wheel_rep s' (put_bucket W i off (xs @ ys)) \<and> tw_frame s s' \<and> tw_calls s' = tw_calls s \<and>
     (\<forall>x. tread s' x TIMER_FG_ID = tread s x TIMER_FG_ID) \<and> \<not> timer_pending t s'"
proof -
  let ?b = "bucket s i off"
  note bk = wheel_repD [OF rep i, unfolded w]
  obtain h where h: "hlist_del t (tw_mem s) = Inr h" "hlist_rep h ?b (xs @ ys)" "\<forall>x. x \<notin> set (?b # xs @ ys) \<longrightarrow> h x = tw_mem s x"
    "\<forall>x off. off \<noteq> NODE_NEXT \<longrightarrow> off \<noteq> NODE_PREV \<longrightarrow> h x off = tw_mem s x off"
    using hlist_del_rep [OF bk(1)] by metis
  have d: "t \<notin> set (?b # xs @ ys)" using bk(1) by (auto simp: hlist_rep_def)
  let ?h = "hwrite h t NODE_PREV NULL"
  have new: "hlist_rep ?h ?b (xs @ ys)"
    using h(2) d by (subst hlist_rep_cong [of _ _ ?h h]) (auto simp: hwrite_def)
  have "wheel_rep (s\<lparr>tw_mem := ?h\<rparr>) (put_bucket W i off (xs @ ys))"
  proof (rule wheel_rep_update [OF rep i new])
    show "set (xs @ ys) \<inter> wheel_heads s = {}" using bk(3) rep by (auto simp: wheel_rep_def)
    show "\<And>x. x \<in> set (xs @ ys) \<Longrightarrow> x \<in> set (W i off) \<or> x \<notin> timers_of W" using w by auto
    show "?h x f = tread s x f" if "x \<notin> set (?b # W i off @ xs @ ys)" for x f
    proof -
      have "x \<notin> set (?b # xs @ ys)" "x \<noteq> t" using that w by auto
      then show ?thesis using h(3) by simp
    qed
  qed
  then show ?thesis using h(1,4) by (simp add: timer_del_raw_def tw_frame_def timer_pending_def)
qed

section \<open>Running the buckets\<close>

text \<open>
  The handlers relied on leave the timers alone, and the flow groups of the timers belong to this core, as
  \<open>eth_fg_set_current\<close> asserts.
\<close>

definition quiet :: "timer_env \<Rightarrow> bool" where
  "quiet env \<longleftrightarrow> (\<forall>f t fg s. te_run env f t fg s = Inr s)"

definition fgs_here :: "timer_env \<Rightarrow> timerwheel \<Rightarrow> bool" where
  "fgs_here env s \<longleftrightarrow> (\<forall>i\<ge>0. tread s (te_fgs env i) FG_CUR_CPU = te_cpu env)"

definition fired :: "timerwheel \<Rightarrow> addr list" where
  "fired s = map fst (tw_calls s)"

lemma fgs_here_frame: "fgs_here env s \<Longrightarrow> tw_frame s s' \<Longrightarrow> fgs_here env s'"
  by (simp add: fgs_here_def tw_frame_def)

lemma wheel_rep_calls [simp]: "wheel_rep (s\<lparr>tw_calls := c\<rparr>) W = wheel_rep s W"
  by (simp add: wheel_rep_def wheel_heads_def bucket_def)

lemma timer_call_quiet:
  assumes "quiet env" "fgs_here env s"
  shows "\<exists>c. timer_call env t s = Inr (s\<lparr>tw_calls := tw_calls s @ [(t, c)]\<rparr>)"
  using assms by (auto simp: timer_call_def quiet_def fgs_here_def Let_def)

definition first_of :: "addr list \<Rightarrow> addr" where
  "first_of xs = (case xs of [] \<Rightarrow> NULL | x # _ \<Rightarrow> x)"

lemma hlist_first: "hlist_rep h p xs \<Longrightarrow> h p NODE_NEXT = first_of xs"
  by (cases xs) (auto simp: hlist_rep_def first_of_def)

lemma hlist_second: "hlist_rep h p (x # xs) \<Longrightarrow> h x NODE_NEXT = first_of xs \<and> x \<noteq> NULL"
  by (cases xs) (auto simp: hlist_rep_def first_of_def)

lemma put_bucket_twice [simp]: "put_bucket (put_bucket W i off xs) i off ys = put_bucket W i off ys"
  by (simp add: put_bucket_def)

lemma run_bucket_loop_rep:
  assumes env: "quiet env" and i: "i < 3" "off < 256"
  shows "wheel_rep s W \<Longrightarrow> fgs_here env s \<Longrightarrow> W i off = xs \<Longrightarrow>
    \<exists>s'. run_bucket_loop env (first_of xs) s = Some (Inr s') \<and> wheel_rep s' (put_bucket W i off []) \<and> tw_frame s s' \<and> fired s' = fired s @ xs"
proof (induction xs arbitrary: s W)
  case Nil
  then have "put_bucket W i off [] = W" by (auto simp: put_bucket_def fun_eq_iff)
  then show ?case using Nil by (subst run_bucket_loop.simps) (simp add: first_of_def)
next
  case (Cons t ys)
  obtain s1 where s1: "timer_del_raw t s = Inr s1" "wheel_rep s1 (put_bucket W i off ys)" "tw_frame s s1" "tw_calls s1 = tw_calls s"
    using timer_del_rep [OF Cons.prems(1) i, of "[]" t ys] Cons.prems(3) by auto
  obtain c where c: "timer_call env t s1 = Inr (s1\<lparr>tw_calls := tw_calls s1 @ [(t, c)]\<rparr>)"
    using timer_call_quiet [OF env fgs_here_frame [OF Cons.prems(2) s1(3)]] by blast
  define s2 where "s2 = s1\<lparr>tw_calls := tw_calls s1 @ [(t, c)]\<rparr>"
  have s2: "wheel_rep s2 (put_bucket W i off ys)" "tw_frame s s2" "fired s2 = fired s @ [t]"
    using s1 by (simp_all add: s2_def tw_frame_def fired_def)
  have nx: "tread s t NODE_NEXT = first_of ys" "t \<noteq> NULL"
    using hlist_second wheel_repD(1) [OF Cons.prems(1) i] Cons.prems(3) by metis+
  obtain s' where s': "run_bucket_loop env (first_of ys) s2 = Some (Inr s')" "wheel_rep s' (put_bucket W i off [])" "tw_frame s2 s'" "fired s' = fired s2 @ ys"
    using Cons.IH [OF s2(1) fgs_here_frame [OF Cons.prems(2) s2(2)] put_bucket_same] by auto
  have "run_bucket_loop env (first_of (t # ys)) s = Some (Inr s')"
    using nx s1(1) c s'(1) by (subst run_bucket_loop.simps) (simp add: first_of_def [of "t # ys"] s2_def)
  then show ?case using s' s2 tw_frame_trans [OF s2(2) s'(3)] by simp
qed

lemma timer_run_bucket_rep:
  assumes "quiet env" "i < 3" "off < 256" "wheel_rep s W" "fgs_here env s"
  shows "\<exists>s'. timer_run_bucket env (bucket s i off) s = Some (Inr s') \<and> wheel_rep s' (put_bucket W i off []) \<and> tw_frame s s' \<and>
    fired s' = fired s @ W i off"
proof -
  obtain s' where s': "run_bucket_loop env (first_of (W i off)) s = Some (Inr s')" "wheel_rep s' (put_bucket W i off [])"
    "tw_frame s s'" "fired s' = fired s @ W i off"
    using run_bucket_loop_rep [OF assms(1-5) refl] by blast
  have "hlist_rep (tw_mem s') (bucket s i off) []"
    using wheel_repD(1) [OF s'(2) assms(2,3)] tw_frame_bucket(1) [OF s'(3)] by simp
  then have "tw_mem s' (bucket s i off) NODE_NEXT = NULL" using hlist_first by (fastforce simp: first_of_def)
  then have h: "hwrite (tw_mem s') (bucket s i off) NODE_NEXT NULL = tw_mem s'" by (simp add: hwrite_def fun_upd_idem)
  have "tread s (bucket s i off) NODE_NEXT = first_of (W i off)" using hlist_first [OF wheel_repD(1) [OF assms(4,2,3)]] .
  then show ?thesis using s' h by (simp add: timer_run_bucket_def)
qed

definition expiry :: "timerwheel \<Rightarrow> addr \<Rightarrow> nat" where
  "expiry s t = unat (tread s t TIMER_EXPIRES)"

lemma expiry_frame: "tw_frame s s' \<Longrightarrow> expiry s' = expiry s \<and> now_us s' = now_us s"
  by (simp add: tw_frame_def expiry_def fun_eq_iff)

lemma timer_expired_iff: "timer_expired s t \<longleftrightarrow> expiry s t \<le> unat (now_us s)"
  by (simp add: timer_expired_def expiry_def word_le_nat_alt)

lemma expire_us_unat: "expiry s t + 16 < 2 ^ 64 \<Longrightarrow> unat (tread s t TIMER_EXPIRES + MIN_DELAY_US) = expiry s t + 16"
  unfolding expiry_def by (simp add: wheel_consts unat_word_ariths)

lemma delay_us_unat:
  assumes "expiry s t + 16 < 2 ^ 64" "unat (now_us s) \<le> expiry s t + 16"
  shows "unat (tread s t TIMER_EXPIRES + MIN_DELAY_US - now_us s) = expiry s t + 16 - unat (now_us s)"
  using expire_us_unat [OF assms(1)] assms(2) by (simp add: unat_sub word_le_nat_alt)

text \<open>The bucket of the fine wheel for a delay below 4096 microseconds.\<close>

definition fine_slot :: "timerwheel \<Rightarrow> addr \<Rightarrow> nat" where
  "fine_slot s t = (expiry s t + 16) div 16 mod 256"

lemma fine_slot_less [simp]: "fine_slot s t < 256"
  by (simp add: fine_slot_def)

lemma insert_fine:
  assumes rep: "wheel_rep s W" and t: "t \<noteq> NULL" "t \<notin> timers_of W" "t \<notin> wheel_heads s"
    and e: "expiry s t + 16 < 2 ^ 64" "unat (now_us s) \<le> expiry s t" "expiry s t + 16 < unat (now_us s) + 4096"
  shows "\<exists>s'. timer_insert fg t s = Inr s' \<and> wheel_rep s' (put_bucket W 0 (fine_slot s t) (t # W 0 (fine_slot s t))) \<and> tw_frame s s' \<and>
    tw_calls s' = tw_calls s \<and> timer_pending t s'"
proof -
  let ?d = "tread s t TIMER_EXPIRES + MIN_DELAY_US - now_us s"
  have d: "unat ?d = expiry s t + 16 - unat (now_us s)" using delay_us_unat [OF e(1)] e(2) by simp
  then have b: "16 \<le> unat ?d" "unat ?d < 4096" using e(2,3) by linarith+
  have "wheel_index ?d = 0" using wheel_index_le_iff [of ?d 0] wheel_index_nonneg_iff [of ?d] b by simp
  moreover have "WHEEL_OFFSET (tread s t TIMER_EXPIRES + MIN_DELAY_US) 0 = fine_slot s t"
    using expire_us_unat [OF e(1)] by (simp add: wheel_offset_eq fine_slot_def)
  ultimately show ?thesis using timer_insert_rep [OF rep t, of fg] b by simp
qed

lemma timers_of_put: "i < 3 \<Longrightarrow> off < 256 \<Longrightarrow> wheel_rep s W \<Longrightarrow> timers_of (put_bucket W i off xs) = timers_of W - set (W i off) \<union> set xs"
proof -
  assume a: "i < 3" "off < 256" "wheel_rep s W"
  have "x \<notin> set (W i off)" if "x \<in> set (W j off')" "j < 3" "off' < 256" "(j, off') \<noteq> (i, off)" for x j off'
    using wheel_rep_disjoint [OF a(3) that(2,3) a(1,2) that(4)] that(1) by auto
  note other = this
  have mem: "x \<in> timers_of V \<longleftrightarrow> (\<exists>j off'. j < 3 \<and> off' < 256 \<and> x \<in> set (V j off'))" for x and V :: wheels
    by (auto simp: timers_of_def)
  show ?thesis
  proof (intro set_eqI iffI)
    fix x
    assume "x \<in> timers_of (put_bucket W i off xs)"
    then obtain j off' where j: "j < 3" "off' < 256" "x \<in> set (put_bucket W i off xs j off')" unfolding mem by blast
    show "x \<in> timers_of W - set (W i off) \<union> set xs"
    proof (cases "(j, off') = (i, off)")
      case False
      then have "x \<in> set (W j off')" using j(3) by (simp add: put_bucket_other)
      then show ?thesis using other [of x j off'] False j mem [of x W] by blast
    qed (use j in auto)
  next
    fix x
    assume "x \<in> timers_of W - set (W i off) \<union> set xs"
    then consider "x \<in> set xs" | j off' where "j < 3" "off' < 256" "x \<in> set (W j off')" "(j, off') \<noteq> (i, off)"
      using mem [of x W] by (auto simp del: prod.inject)
    then show "x \<in> timers_of (put_bucket W i off xs)"
    proof cases
      case 1
      then show ?thesis unfolding mem by (intro exI [of _ i] exI [of _ off]) (simp add: a)
    next
      case 2
      then show ?thesis unfolding mem by (intro exI [of _ j] exI [of _ off']) (simp add: put_bucket_other)
    qed
  qed
qed

lemma reinsert_timer_rep:
  assumes env: "quiet env" "fgs_here env s" and rep: "wheel_rep s W" and q: "q < 256" and w: "W 1 q = t # ys"
    and e: "expiry s t + 16 < 2 ^ 64" "expiry s t + 16 < unat (now_us s) + 4096"
  shows "\<exists>s' W'. reinsert_timer env t s = Inr s' \<and> wheel_rep s' W' \<and> tw_frame s s' \<and>
    fired s' = fired s @ (if expiry s t \<le> unat (now_us s) then [t] else []) \<and> W' 1 q = ys \<and>
    (\<forall>i off. i \<noteq> 0 \<longrightarrow> (i, off) \<noteq> (1, q) \<longrightarrow> W' i off = W i off) \<and>
    (\<forall>off. set (W' 0 off) = set (W 0 off) \<union> {x. x = t \<and> unat (now_us s) < expiry s t \<and> fine_slot s t = off})"
proof -
  have q3: "1 < (3 :: nat)" by simp
  obtain s1 where s1: "timer_del_raw t s = Inr s1" "wheel_rep s1 (put_bucket W 1 q ys)" "tw_frame s s1" "tw_calls s1 = tw_calls s"
    using timer_del_rep [OF rep q3 q, of "[]" t ys] w by auto
  note fr = expiry_frame [OF s1(3)]
  show ?thesis
  proof (cases "expiry s t \<le> unat (now_us s)")
    case True
    obtain c where c: "timer_call env t s1 = Inr (s1\<lparr>tw_calls := tw_calls s1 @ [(t, c)]\<rparr>)"
      using timer_call_quiet [OF env(1) fgs_here_frame [OF env(2) s1(3)]] by blast
    have "tw_frame s (s1\<lparr>tw_calls := tw_calls s1 @ [(t, c)]\<rparr>)" using s1(3) by (simp add: tw_frame_def)
    then show ?thesis using True s1 c fr
      by (intro exI [of _ "s1\<lparr>tw_calls := tw_calls s1 @ [(t, c)]\<rparr>"] exI [of _ "put_bucket W 1 q ys"])
        (auto simp: reinsert_timer_def timer_expired_iff fired_def put_bucket_other)
  next
    case False
    let ?W = "put_bucket W 1 q ys"
    have t: "t \<noteq> NULL" "t \<in> set (W 1 q)" "t \<notin> set ys" using wheel_repD(1) [OF rep q3 q] w by (auto simp: hlist_rep_def)
    have tn: "t \<notin> timers_of ?W" using timers_of_put [OF q3 q rep] t by auto
    have th: "t \<notin> wheel_heads s1" using rep wheel_repD(3) [OF rep q3 q] t(2) tw_frame_bucket(2) [OF s1(3)] by (auto simp: wheel_rep_def)
    have fs: "fine_slot s1 t = fine_slot s t" using fr by (simp add: fine_slot_def)
    obtain s2 where s2: "timer_insert (get_ethfg_from_id env (timer_fg s1 t)) t s1 = Inr s2"
      "wheel_rep s2 (put_bucket ?W 0 (fine_slot s t) (t # ?W 0 (fine_slot s t)))" "tw_frame s1 s2" "tw_calls s2 = tw_calls s1"
      using insert_fine [OF s1(2) t(1) tn th] fr e False fs by auto
    show ?thesis
      by (rule exI [of _ s2], rule exI [of _ "put_bucket ?W 0 (fine_slot s t) (t # ?W 0 (fine_slot s t))"])
        (use False s1 s2 fr tw_frame_trans [OF s1(3) s2(3)] in \<open>auto simp: reinsert_timer_def timer_expired_iff fired_def put_bucket_def\<close>)
  qed
qed

lemma reinsert_loop_rep:
  assumes env: "quiet env" and q: "q < 256"
  shows "wheel_rep s W \<Longrightarrow> fgs_here env s \<Longrightarrow> W 1 q = xs \<Longrightarrow>
    \<forall>t\<in>set xs. expiry s t + 16 < 2 ^ 64 \<and> expiry s t + 16 < unat (now_us s) + 4096 \<Longrightarrow>
    \<exists>s' W' n'. reinsert_loop env (first_of xs) n s = Some (Inr (n', s')) \<and> wheel_rep s' W' \<and> tw_frame s s' \<and>
      fired s' = fired s @ filter (\<lambda>t. expiry s t \<le> unat (now_us s)) xs \<and> W' 1 q = [] \<and>
      (\<forall>i off. i \<noteq> 0 \<longrightarrow> (i, off) \<noteq> (1, q) \<longrightarrow> W' i off = W i off) \<and>
      (\<forall>off. set (W' 0 off) = set (W 0 off) \<union> {t \<in> set xs. unat (now_us s) < expiry s t \<and> fine_slot s t = off})"
proof (induction xs arbitrary: s W n)
  case Nil
  then show ?case
    by (subst reinsert_loop.simps) (auto simp: first_of_def intro!: exI [of _ s] exI [of _ W])
next
  case (Cons t ys)
  have q3: "1 < (3 :: nat)" by simp
  have et: "expiry s t + 16 < 2 ^ 64" "expiry s t + 16 < unat (now_us s) + 4096" using Cons.prems(4) by auto
  obtain s1 W1 where r: "reinsert_timer env t s = Inr s1" and s1: "wheel_rep s1 W1" "tw_frame s s1"
      "fired s1 = fired s @ (if expiry s t \<le> unat (now_us s) then [t] else [])"
    and w1: "W1 1 q = ys" "\<forall>i off. i \<noteq> 0 \<longrightarrow> (i, off) \<noteq> (1, q) \<longrightarrow> W1 i off = W i off"
      "\<forall>off. set (W1 0 off) = set (W 0 off) \<union> {x. x = t \<and> unat (now_us s) < expiry s t \<and> fine_slot s t = off}"
    using reinsert_timer_rep [OF env Cons.prems(2,1) q Cons.prems(3) et] by metis
  note fr = expiry_frame [OF s1(2)]
  have fs: "fine_slot s1 = fine_slot s" using fr by (simp add: fine_slot_def fun_eq_iff)
  have ey: "\<forall>t\<in>set ys. expiry s1 t + 16 < 2 ^ 64 \<and> expiry s1 t + 16 < unat (now_us s1) + 4096" using Cons.prems(4) fr by simp
  obtain s' W' n' where s': "reinsert_loop env (first_of ys) (n + 1) s1 = Some (Inr (n', s'))" "wheel_rep s' W'" "tw_frame s1 s'"
      "fired s' = fired s1 @ filter (\<lambda>t. expiry s1 t \<le> unat (now_us s1)) ys"
    and w': "W' 1 q = []" "\<forall>i off. i \<noteq> 0 \<longrightarrow> (i, off) \<noteq> (1, q) \<longrightarrow> W' i off = W1 i off"
      "\<forall>off. set (W' 0 off) = set (W1 0 off) \<union> {t \<in> set ys. unat (now_us s1) < expiry s1 t \<and> fine_slot s1 t = off}"
    using Cons.IH [OF s1(1) fgs_here_frame [OF Cons.prems(2) s1(2)] w1(1) ey, of "n + 1"] by metis
  have nx: "tread s t NODE_NEXT = first_of ys" "t \<noteq> NULL"
    using hlist_second wheel_repD(1) [OF Cons.prems(1) q3 q] Cons.prems(3) by metis+
  have "reinsert_loop env (first_of (t # ys)) n s = Some (Inr (n', s'))"
    using nx r s'(1) by (subst reinsert_loop.simps) (simp add: first_of_def [of "t # ys"])
  moreover have "fired s' = fired s @ filter (\<lambda>t. expiry s t \<le> unat (now_us s)) (t # ys)" using s'(4) s1(3) fr by simp
  moreover have "\<forall>off. set (W' 0 off) = set (W 0 off) \<union> {x \<in> set (t # ys). unat (now_us s) < expiry s x \<and> fine_slot s x = off}"
    using w'(3) w1(3) fr fs by auto
  moreover have "\<forall>i off. i \<noteq> 0 \<longrightarrow> (i, off) \<noteq> (1, q) \<longrightarrow> W' i off = W i off" using w'(2) w1(2) by metis
  ultimately show ?case using s'(2) w'(1) tw_frame_trans [OF s1(2) s'(3)] by blast
qed

section \<open>A pass over the wheels\<close>

text \<open>
  Where the timers have to be for the wheels to be correct when the next tick to run is \<open>p\<close>, counted in steps of 16
  microseconds: within one turn of their wheel.  The coarsest wheel is empty.
\<close>

definition placed :: "timerwheel \<Rightarrow> nat \<Rightarrow> wheels \<Rightarrow> bool" where
  "placed s p W \<longleftrightarrow>
     (\<forall>off<256. \<forall>t\<in>set (W 0 off). fine_slot s t = off \<and> p \<le> (expiry s t + 16) div 16 \<and> (expiry s t + 16) div 16 < p + 256) \<and>
     (\<forall>off<256. \<forall>t\<in>set (W 1 off). (expiry s t + 16) div 4096 mod 256 = off \<and> p \<le> 256 * ((expiry s t + 16) div 4096) \<and>
        256 * ((expiry s t + 16) div 4096) < p + 65536) \<and>
     (\<forall>off<256. W 2 off = []) \<and> (\<forall>t\<in>timers_of W. expiry s t + 16 < 2 ^ 64)"

lemma placed_frame: "tw_frame s s' \<Longrightarrow> placed s' p W = placed s p W"
  using expiry_frame [of s s'] by (simp add: placed_def fine_slot_def)

lemma placed_fine:
  "placed s p W \<Longrightarrow> off < 256 \<Longrightarrow> t \<in> set (W 0 off) \<Longrightarrow>
   (expiry s t + 16) div 16 mod 256 = off \<and> p \<le> (expiry s t + 16) div 16 \<and> (expiry s t + 16) div 16 < p + 256"
  by (simp add: placed_def fine_slot_def)

lemma placed_medium:
  "placed s p W \<Longrightarrow> off < 256 \<Longrightarrow> t \<in> set (W 1 off) \<Longrightarrow>
   (expiry s t + 16) div 4096 mod 256 = off \<and> p \<le> 256 * ((expiry s t + 16) div 4096) \<and> 256 * ((expiry s t + 16) div 4096) < p + 65536"
  by (simp add: placed_def)

lemma window_eq: "a mod 256 = b mod 256 \<Longrightarrow> b \<le> a \<Longrightarrow> a < b + 256 \<Longrightarrow> a = b" for a b :: nat
proof -
  assume a: "a mod 256 = b mod 256" "b \<le> a" "a < b + 256"
  have "256 dvd a - b" using a(1,2) by (metis mod_eq_dvd_iff_nat)
  then have "\<not> (0 < a - b \<and> a - b < 256)" using nat_dvd_not_less by blast
  then show "a = b" using a(2,3) by linarith
qed

text \<open>How emptying bucket \<open>q\<close> of the medium wheel changes the wheels: what has not expired goes to the fine wheel.\<close>

definition collapsed :: "timerwheel \<Rightarrow> nat \<Rightarrow> wheels \<Rightarrow> wheels \<Rightarrow> bool" where
  "collapsed s q W W' \<longleftrightarrow> W' 1 q = [] \<and> (\<forall>i off. i \<noteq> 0 \<longrightarrow> (i, off) \<noteq> (1, q) \<longrightarrow> W' i off = W i off) \<and>
     (\<forall>off. set (W' 0 off) = set (W 0 off) \<union> {t \<in> set (W 1 q). unat (now_us s) < expiry s t \<and> fine_slot s t = off})"

lemma collapsed_medium:
  assumes "collapsed s q W W'" and "t \<in> set (W' 1 off)"
  shows "off \<noteq> q" "t \<in> set (W 1 off)"
  using assms by (cases "off = q"; simp add: collapsed_def)+

lemma mem_timers_of: "x \<in> timers_of W \<longleftrightarrow> (\<exists>j off. j < 3 \<and> off < 256 \<and> x \<in> set (W j off))"
  by (auto simp: timers_of_def)

lemma collapsed_timers:
  assumes rep: "wheel_rep s W" and q: "q < 256" and c: "collapsed s q W W'"
  shows "timers_of W' = timers_of W - set (filter (\<lambda>t. expiry s t \<le> unat (now_us s)) (W 1 q))"
proof (intro equalityI subsetI)
  let ?F = "filter (\<lambda>t. expiry s t \<le> unat (now_us s)) (W 1 q)"
  have q3: "1 < (3 :: nat)" "0 < (3 :: nat)" by simp_all
  fix x assume "x \<in> timers_of W'"
  then obtain j off where j: "j < 3" "off < 256" "x \<in> set (W' j off)" unfolding mem_timers_of by blast
  show "x \<in> timers_of W - set ?F"
  proof (cases "x \<in> set (W 1 q)")
    case True
    have jq: "(j, off) \<noteq> (1, q)" using c j(3) by (auto simp: collapsed_def)
    have "j = 0"
    proof (rule ccontr)
      assume "j \<noteq> 0"
      then have "x \<in> set (W j off)" using c j(3) jq by (simp add: collapsed_def)
      then show False using wheel_rep_disjoint [OF rep j(1,2) q3(1) q jq] True by auto
    qed
    then have "x \<in> set (W 0 off) \<or> unat (now_us s) < expiry s x" using c j(3) by (auto simp: collapsed_def)
    moreover have "x \<notin> set (W 0 off)" using wheel_rep_disjoint [OF rep q3(2) j(2) q3(1) q] True by auto
    ultimately show ?thesis using True wheel_repD(3) [OF rep q3(1) q] by auto
  next
    case False
    then have "x \<in> set (W j off)" using c j(3) by (cases "j = 0"; cases "(j, off) = (1, q)") (auto simp: collapsed_def)
    then show ?thesis using False j(1,2) by (auto simp: mem_timers_of)
  qed
next
  fix x assume x: "x \<in> timers_of W - set (filter (\<lambda>t. expiry s t \<le> unat (now_us s)) (W 1 q))"
  then obtain j off where j: "j < 3" "off < 256" "x \<in> set (W j off)" by (auto simp: mem_timers_of)
  have "\<exists>i k. i < 3 \<and> k < 256 \<and> x \<in> set (W' i k)"
  proof (cases "(j, off) = (1, q)")
    case True
    then have "x \<in> set (W' 0 (fine_slot s x))" using j(3) x c by (auto simp: collapsed_def not_le)
    then show ?thesis using fine_slot_less by (metis zero_less_numeral)
  next
    case False
    then have "x \<in> set (W' j off)" using j(3) c by (cases "j = 0") (auto simp: collapsed_def)
    then show ?thesis using j(1,2) by blast
  qed
  then show "x \<in> timers_of W'" unfolding mem_timers_of .
qed

lemma collapsed_placed:
  assumes pl: "placed s p W" and c: "collapsed s q W W'" and sub: "timers_of W' \<subseteq> timers_of W" and p: "p mod 256 = 0"
    and due: "\<And>t. t \<in> set (W 1 q) \<Longrightarrow> (expiry s t + 16) div 4096 = p div 256"
  shows "placed s p W'"
  unfolding placed_def
proof (intro conjI allI impI ballI)
  let ?e = "\<lambda>t. expiry s t + 16"
  fix off t assume o: "off < 256" "t \<in> set (W' 0 off)"
  have "fine_slot s t = off \<and> p \<le> ?e t div 16 \<and> ?e t div 16 < p + 256"
  proof (cases "t \<in> set (W 0 off)")
    case True
    then show ?thesis using placed_fine [OF pl o(1)] by (simp add: fine_slot_def)
  next
    case False
    then have t: "t \<in> set (W 1 q)" "fine_slot s t = off" using o(2) c by (auto simp: collapsed_def)
    have "?e t div 16 div 256 = p div 256" using due [OF t(1)] div_mult2_eq [of "?e t" 16 256] by simp
    moreover have "p = 256 * (p div 256)" using p by auto
    moreover have "256 * (?e t div 16 div 256) \<le> ?e t div 16" "?e t div 16 < 256 * (?e t div 16 div 256) + 256" by linarith+
    ultimately show ?thesis using t(2) by linarith
  qed
  then show "fine_slot s t = off" "p \<le> ?e t div 16" "?e t div 16 < p + 256" by auto
next
  fix off t assume o: "off < 256" "t \<in> set (W' 1 off)"
  show "(expiry s t + 16) div 4096 mod 256 = off" "p \<le> 256 * ((expiry s t + 16) div 4096)" "256 * ((expiry s t + 16) div 4096) < p + 65536"
    using placed_medium [OF pl o(1) collapsed_medium(2) [OF c o(2)]] by auto
qed (use pl c sub in \<open>auto simp: placed_def collapsed_def\<close>)

lemma collapse_rep:
  assumes env: "quiet env" "fgs_here env s" and rep: "wheel_rep s W" and pl: "placed s p W" and p: "unat pos div 16 = p" "p mod 256 = 0"
    and now: "pos \<le> now_us s"
  shows "\<exists>s' W' n. timer_collapse env pos s = Some (Inr (n, s')) \<and> wheel_rep s' W' \<and> tw_frame s s' \<and> placed s' p W' \<and>
    (\<forall>off<256. \<forall>t\<in>set (W' 1 off). Suc p \<le> 256 * ((expiry s t + 16) div 4096)) \<and>
    (\<exists>F. fired s' = fired s @ F \<and> distinct F \<and> (\<forall>t\<in>set F. expiry s t \<le> unat (now_us s)) \<and> set F \<inter> timers_of W' = {} \<and> set F \<union> timers_of W' = timers_of W)"
proof -
  define q where "q = p div 256 mod 256"
  have "unat pos div 4096 = p div 256" using div_mult2_eq [of "unat pos" 16 256] p(1) by simp
  then have q: "q < 256" "WHEEL_OFFSET pos 1 = q" by (simp_all add: q_def wheel_offset_eq)
  let ?e = "\<lambda>t. expiry s t + 16" and ?xs = "W 1 q" let ?F = "filter (\<lambda>t. expiry s t \<le> unat (now_us s)) ?xs"
  have q3: "1 < (3 :: nat)" "2 < (3 :: nat)" by simp_all
  have sub: "set ?xs \<subseteq> timers_of W" by (rule wheel_repD(3) [OF rep q3(1) q(1)])
  have pp: "p = 256 * (p div 256)" using p(2) by auto
  have due: "?e t div 4096 = p div 256" if "t \<in> set ?xs" for t
    by (rule window_eq) (use placed_medium [OF pl q(1) that] pp q_def in linarith)+
  have lim: "\<forall>t\<in>set ?xs. ?e t < 2 ^ 64 \<and> ?e t < unat (now_us s) + 4096"
  proof
    fix t assume t: "t \<in> set ?xs"
    have "?e t < 4096 * (?e t div 4096) + 4096" by (simp add: dividend_less_times_div)
    moreover have "16 * p \<le> unat (now_us s)" using p(1) now by (auto simp: word_le_nat_alt)
    moreover have "?e t < 2 ^ 64" using pl sub t unfolding placed_def by blast
    ultimately show "?e t < 2 ^ 64 \<and> ?e t < unat (now_us s) + 4096" using due [OF t] pp by linarith
  qed
  obtain s' W' n where r: "reinsert_loop env (first_of ?xs) 0 s = Some (Inr (n, s'))" and s': "wheel_rep s' W'" "tw_frame s s'"
      "fired s' = fired s @ ?F" and c: "collapsed s q W W'"
    using reinsert_loop_rep [OF env(1) q(1) rep env(2) refl lim, of 0] unfolding collapsed_def by metis
  have call: "timer_collapse env pos s = Some (Inr (if q = 0 then 0 else n, s'))"
  proof -
    have "timer_reinsert_bucket env (bucket s 1 q) s = Some (Inr (n, s'))"
      using r hlist_first [OF wheel_repD(1) [OF rep q3(1) q(1)]] by (simp add: timer_reinsert_bucket_def)
    moreover have "W' 2 (WHEEL_OFFSET pos 2) = []" using c pl by (simp add: placed_def collapsed_def)
    then have "timer_reinsert_bucket env (bucket s' 2 (WHEEL_OFFSET pos 2)) s' = Some (Inr (0, s'))"
      using hlist_first [OF wheel_repD(1) [OF s'(1) q3(2) wheel_offset_less, of pos 2]]
      by (simp add: timer_reinsert_bucket_def reinsert_loop.simps first_of_def)
    ultimately show ?thesis unfolding timer_collapse_def q(2) by simp
  qed
  note acc = collapsed_timers [OF rep q(1) c]
  have "placed s p W'" by (rule collapsed_placed [OF pl c _ p(2) due]) (use acc in auto)
  then have "placed s' p W'" using placed_frame [OF s'(2)] by simp
  moreover have "\<forall>off<256. \<forall>t\<in>set (W' 1 off). Suc p \<le> 256 * (?e t div 4096)"
  proof (intro allI impI ballI)
    fix off t assume o: "off < 256" "t \<in> set (W' 1 off)"
    have w: "?e t div 4096 mod 256 = off" "p \<le> 256 * (?e t div 4096)" using placed_medium [OF pl o(1) collapsed_medium(2) [OF c o(2)]] by auto
    have "?e t div 4096 \<noteq> p div 256" using w(1) collapsed_medium(1) [OF c o(2)] q_def by auto
    then show "Suc p \<le> 256 * (?e t div 4096)" using w(2) pp by linarith
  qed
  moreover have "distinct ?F" using wheel_repD(1) [OF rep q3(1) q(1)] by (simp add: hlist_rep_def)
  ultimately show ?thesis using call s' acc sub by (intro exI [of _ s'] exI [of _ W'] exI [of _ "if q = 0 then 0 else n"] conjI exI [of _ ?F]) auto
qed

text \<open>The timers \<open>F\<close> have been fired between two states, none of them early, and the others are still on the wheels.\<close>

definition fires :: "timerwheel \<Rightarrow> wheels \<Rightarrow> timerwheel \<Rightarrow> wheels \<Rightarrow> addr list \<Rightarrow> bool" where
  "fires s W s' W' F \<longleftrightarrow> fired s' = fired s @ F \<and> distinct F \<and> (\<forall>t\<in>set F. expiry s t \<le> unat (now_us s)) \<and>
     set F \<inter> timers_of W' = {} \<and> set F \<union> timers_of W' = timers_of W \<and> expiry s' = expiry s \<and> now_us s' = now_us s"

lemma fires_trans: "fires s W s1 W1 F \<Longrightarrow> fires s1 W1 s2 W2 G \<Longrightarrow> fires s W s2 W2 (F @ G)"
  unfolding fires_def by (simp only: distinct_append set_append append_assoc) blast

lemma tick_bucket_rep:
  assumes env: "quiet env" "fgs_here env s" and rep: "wheel_rep s W" and pl: "placed s p W" and p: "unat pos div 16 = p"
    and now: "pos \<le> now_us s" and up: "\<forall>off<256. \<forall>t\<in>set (W 1 off). Suc p \<le> 256 * ((expiry s t + 16) div 4096)"
  shows "\<exists>s' W' F. timer_run_bucket env (bucket s 0 (WHEEL_OFFSET pos 0)) s = Some (Inr s') \<and> wheel_rep s' W' \<and> tw_frame s s' \<and>
    placed s' (Suc p) W' \<and> fires s W s' W' F"
proof -
  define q where "q = p mod 256"
  have q: "q < 256" "WHEEL_OFFSET pos 0 = q" "0 < (3 :: nat)" using p by (simp_all add: q_def wheel_offset_eq)
  let ?e = "\<lambda>t. expiry s t + 16" and ?W = "put_bucket W 0 q []"
  obtain s' where s': "timer_run_bucket env (bucket s 0 q) s = Some (Inr s')" "wheel_rep s' ?W" "tw_frame s s'" "fired s' = fired s @ W 0 q"
    using timer_run_bucket_rep [OF env(1) q(3,1) rep env(2)] by metis
  have nw: "16 * p \<le> unat (now_us s)" using p now by (auto simp: word_le_nat_alt)
  have due: "?e t div 16 = p" if "t \<in> set (W 0 q)" for t
    by (rule window_eq) (use placed_fine [OF pl q(1) that] in \<open>simp_all add: q_def\<close>)
  have early: "\<forall>t\<in>set (W 0 q). expiry s t \<le> unat (now_us s)"
  proof
    fix t assume "t \<in> set (W 0 q)"
    then have "?e t < 16 * p + 16" using due [of t] by auto
    then show "expiry s t \<le> unat (now_us s)" using nw by linarith
  qed
  have acc: "timers_of ?W = timers_of W - set (W 0 q)" using timers_of_put [OF q(3,1) rep, of "[]"] by simp
  have "placed s (Suc p) ?W"
    unfolding placed_def
  proof (intro conjI allI impI ballI)
    fix off t assume o: "off < 256" "t \<in> set (?W 0 off)"
    then have t: "off \<noteq> q" "t \<in> set (W 0 off)" by (auto simp: put_bucket_def split: if_splits)
    then have w: "fine_slot s t = off" "p \<le> ?e t div 16" "?e t div 16 < p + 256" using pl o(1) by (auto simp: placed_def)
    then have "?e t div 16 \<noteq> p" using t(1) by (auto simp: fine_slot_def q_def)
    then show "fine_slot s t = off" "Suc p \<le> ?e t div 16" "?e t div 16 < Suc p + 256" using w by auto
  next
    fix off t assume o: "off < 256" "t \<in> set (?W 1 off)"
    then have t: "t \<in> set (W 1 off)" by (simp add: put_bucket_def)
    show "?e t div 4096 mod 256 = off" "256 * (?e t div 4096) < Suc p + 65536" using placed_medium [OF pl o(1) t] by linarith+
    show "Suc p \<le> 256 * (?e t div 4096)" using up o(1) t by blast
  qed (use acc pl in \<open>auto simp: placed_def put_bucket_def\<close>)
  moreover have "distinct (W 0 q)" using wheel_repD(1) [OF rep q(3,1)] by (simp add: hlist_rep_def)
  moreover have "set (W 0 q) \<subseteq> timers_of W" by (rule wheel_repD(3) [OF rep q(3,1)])
  ultimately have "placed s' (Suc p) ?W \<and> fires s W s' ?W (W 0 q)"
    using acc s' early placed_frame [OF s'(3)] expiry_frame [OF s'(3)] by (auto simp: fires_def)
  then show ?thesis using s' q(2) by auto
qed

lemma tick_rep:
  assumes env: "quiet env" "fgs_here env s" and rep: "wheel_rep s W" and pl: "placed s p W" and p: "unat pos div 16 = p"
    and now: "pos \<le> now_us s"
  shows "\<exists>s' W' F. timer_tick env pos s = Some (Inr s') \<and> wheel_rep s' W' \<and> tw_frame s s' \<and> placed s' (Suc p) W' \<and> fires s W s' W' F"
proof (cases "p mod 256 = 0")
  case True
  obtain s1 W1 n F where c: "timer_collapse env pos s = Some (Inr (n, s1))" "wheel_rep s1 W1" "tw_frame s s1" "placed s1 p W1"
    "\<forall>off<256. \<forall>t\<in>set (W1 1 off). Suc p \<le> 256 * ((expiry s t + 16) div 4096)"
    "fired s1 = fired s @ F" "distinct F" "\<forall>t\<in>set F. expiry s t \<le> unat (now_us s)" "set F \<inter> timers_of W1 = {}" "set F \<union> timers_of W1 = timers_of W"
    using collapse_rep [OF env rep pl p True now] by metis
  note fr = expiry_frame [OF c(3)]
  have f1: "fires s W s1 W1 F" using c(6-10) fr by (simp add: fires_def)
  obtain s2 W2 G where r: "timer_run_bucket env (bucket s1 0 (WHEEL_OFFSET pos 0)) s1 = Some (Inr s2)" "wheel_rep s2 W2" "tw_frame s1 s2"
    "placed s2 (Suc p) W2" "fires s1 W1 s2 W2 G"
    using tick_bucket_rep [OF env(1) fgs_here_frame [OF env(2) c(3)] c(2,4) p] c(5) now fr by auto
  have "timer_tick env pos s = Some (Inr s2)" using c(1) r(1) True p by (simp add: timer_tick_def wheel_offset_eq)
  then show ?thesis using r tw_frame_trans [OF c(3) r(3)] fires_trans [OF f1 r(5)] by blast
next
  case False
  have "\<forall>off<256. \<forall>t\<in>set (W 1 off). Suc p \<le> 256 * ((expiry s t + 16) div 4096)"
  proof (intro allI impI ballI)
    fix off t assume "off < 256" "t \<in> set (W 1 off)"
    then have "p \<le> 256 * ((expiry s t + 16) div 4096)" using pl by (simp add: placed_def)
    moreover have "p \<noteq> 256 * ((expiry s t + 16) div 4096)" using False by auto
    ultimately show "Suc p \<le> 256 * ((expiry s t + 16) div 4096)" by linarith
  qed
  from tick_bucket_rep [OF env rep pl p now this] show ?thesis using False p by (auto simp: timer_tick_def wheel_offset_eq)
qed

lemma timer_run_loop_rep:
  assumes env: "quiet env"
  shows "fgs_here env s \<Longrightarrow> wheel_rep s W \<Longrightarrow> placed s (unat pos div 16) W \<Longrightarrow> unat (now_us s) + 16 < 2 ^ 64 \<Longrightarrow> unat pos \<le> unat (now_us s) + 16 \<Longrightarrow>
    \<exists>s' W' F. timer_run_loop env pos s = Some (Inr s') \<and> wheel_rep s' W' \<and> fires s W s' W' F \<and>
      placed s' (unat (timer_pos s') div 16) W' \<and> now_us s' < timer_pos s' \<and> unat (timer_pos s') \<le> unat (now_us s') + 16 \<and>
      take_bit 4 (timer_pos s') = take_bit 4 pos"
proof (induction "unat (now_us s) + 16 - unat pos" arbitrary: s W pos rule: less_induct)
  case less
  show ?case
  proof (cases "pos \<le> now_us s")
    case False
    then have "timer_run_loop env pos s = Some (Inr (s\<lparr>timer_pos := pos\<rparr>))" by (subst timer_run_loop.simps) simp
    moreover have "wheel_rep (s\<lparr>timer_pos := pos\<rparr>) W" using less.prems(2) by (simp add: wheel_rep_def wheel_heads_def bucket_def)
    moreover have "placed (s\<lparr>timer_pos := pos\<rparr>) (unat pos div 16) W" using less.prems(3) by (simp add: placed_def expiry_def fine_slot_def)
    ultimately show ?thesis using less.prems(5) False
      by (intro exI [of _ "s\<lparr>timer_pos := pos\<rparr>"] exI [of _ W] exI [of _ "[]"]) (simp add: fires_def fired_def expiry_def fun_eq_iff)
  next
    case True
    obtain s1 W1 F where s1: "timer_tick env pos s = Some (Inr s1)" "wheel_rep s1 W1" "tw_frame s s1" "placed s1 (Suc (unat pos div 16)) W1" "fires s W s1 W1 F"
      using tick_rep [OF env less.prems(1-3) refl True] by metis
    have fr: "now_us s1 = now_us s" using s1(3) by (simp add: tw_frame_def)
    have le: "unat pos \<le> unat (now_us s)" using True by (simp add: word_le_nat_alt)
    have "unat (16 :: u64) = 16" by simp
    then have u: "unat (pos + MIN_DELAY_US) = unat pos + 16" using le less.prems(4) by (simp add: wheel_consts unat_word_ariths)
    have tk: "take_bit 4 (pos + MIN_DELAY_US) = take_bit 4 pos"
    proof -
      have "MIN_DELAY_US = 16" by (simp add: wheel_consts)
      moreover have "take_bit 4 (16 :: u64) = 0" by simp
      ultimately show ?thesis using take_bit_word_add [of 4 pos 16] by simp
    qed
    have "unat (pos + MIN_DELAY_US) div 16 = Suc (unat pos div 16)" unfolding u by simp
    then have pl1: "placed s1 (unat (pos + MIN_DELAY_US) div 16) W1" using s1(4) by (simp only:)
    have lim: "unat (now_us s1) + 16 < 2 ^ 64" "unat (pos + MIN_DELAY_US) \<le> unat (now_us s1) + 16" using u le fr less.prems(4) by simp_all
    have dec: "unat (now_us s1) + 16 - unat (pos + MIN_DELAY_US) < unat (now_us s) + 16 - unat pos" using u le fr by simp
    obtain s' W' G where s': "timer_run_loop env (pos + MIN_DELAY_US) s1 = Some (Inr s')" "wheel_rep s' W'" "fires s1 W1 s' W' G"
      "placed s' (unat (timer_pos s') div 16) W'" "now_us s' < timer_pos s'" "unat (timer_pos s') \<le> unat (now_us s') + 16"
      "take_bit 4 (timer_pos s') = take_bit 4 (pos + MIN_DELAY_US)"
      using less.hyps [OF dec fgs_here_frame [OF less.prems(1) s1(3)] s1(2) pl1 lim(1,2)] by metis
    have "timer_run_loop env pos s = Some (Inr s')" using True s1(1) s'(1) by (subst timer_run_loop.simps) simp
    then show ?thesis using s' fires_trans [OF s1(5) s'(3)] tk by auto
  qed
qed

lemma placed_late:
  assumes "placed s p W" "t \<in> timers_of W"
  shows "16 * p \<le> expiry s t + 16"
proof -
  obtain i off where i: "i < 3" "off < 256" "t \<in> set (W i off)" using assms(2) by (auto simp: timers_of_def)
  consider "i = 0" | "i = 1" | "i = 2" using i(1) by linarith
  then show ?thesis
  proof cases
    case 1
    then have "p \<le> (expiry s t + 16) div 16" using placed_fine [OF assms(1) i(2)] i(3) by blast
    then show ?thesis by linarith
  next
    case 2
    then have "p \<le> 256 * ((expiry s t + 16) div 4096)" using placed_medium [OF assms(1) i(2)] i(3) by blast
    then show ?thesis by linarith
  next
    case 3
    then show ?thesis using assms(1) i by (simp add: placed_def)
  qed
qed

lemma placed_cong:
  assumes pl: "placed s p W" and eq: "\<And>t. t \<in> timers_of W \<Longrightarrow> expiry s' t = expiry s t"
  shows "placed s' p W"
proof -
  have i: "expiry s' t = expiry s t" if "off < 256" "t \<in> set (W j off)" "j = 0 \<or> j = 1" for j t off
  proof (rule eq)
    have "j < 3" using that(3) by auto
    then show "t \<in> timers_of W" unfolding timers_of_def using that(1,2) by blast
  qed
  show ?thesis
    unfolding placed_def
  proof (intro conjI allI impI ballI)
    fix off t assume o: "off < 256" "t \<in> set (W 0 off)"
    show "fine_slot s' t = off" "p \<le> (expiry s' t + 16) div 16" "(expiry s' t + 16) div 16 < p + 256"
      using placed_fine [OF pl o] i [OF o] by (simp_all add: fine_slot_def)
  next
    fix off t assume o: "off < 256" "t \<in> set (W 1 off)"
    show "(expiry s' t + 16) div 4096 mod 256 = off" "p \<le> 256 * ((expiry s' t + 16) div 4096)" "256 * ((expiry s' t + 16) div 4096) < p + 65536"
      using placed_medium [OF pl o] i [OF o] by simp_all
  qed (use pl eq in \<open>simp_all add: placed_def\<close>)
qed

section \<open>Adding a timer\<close>

definition medium_slot :: "timerwheel \<Rightarrow> addr \<Rightarrow> nat" where
  "medium_slot s t = (expiry s t + 16) div 4096 mod 256"

lemma insert_placed:
  assumes rep: "wheel_rep s W" and pl: "placed s p W" and t: "t \<noteq> NULL" "t \<notin> timers_of W" "t \<notin> wheel_heads s"
    and al: "unat (timer_pos s) = 16 * p" and pos: "unat (now_us s) < 16 * p" "16 * p \<le> unat (now_us s) + 16"
    and e: "expiry s t + 16 < 2 ^ 64" "unat (now_us s) < expiry s t" "expiry s t + 16 < unat (now_us s) + 2 ^ 20"
  shows "\<exists>s' W'. timer_insert fg t s = Inr s' \<and> wheel_rep s' W' \<and> placed s' p W' \<and> timers_of W' = insert t (timers_of W) \<and>
    tw_frame s s' \<and> tw_calls s' = tw_calls s \<and> timer_pending t s'"
proof -
  let ?e = "expiry s t + 16" and ?d = "tread s t TIMER_EXPIRES + MIN_DELAY_US - now_us s"
  have d: "unat ?d = ?e - unat (now_us s)" using delay_us_unat [OF e(1)] e(2) by simp
  have far: "16 * p \<le> ?e" using pos(2) e(2) by linarith
  define i off where "i = (if unat ?d < 4096 then 0 else 1 :: nat)" and "off = ?e div (if unat ?d < 4096 then 16 else 4096) mod 256"
  have i: "i < 3" "off < 256" by (simp_all add: i_def off_def)
  have "wheel_index ?d = int i"
    using wheel_index_le_iff [of ?d 0] wheel_index_le_iff [of ?d 1] wheel_index_nonneg_iff [of ?d] d e(2,3) by (auto simp: i_def)
  moreover have "WHEEL_OFFSET (tread s t TIMER_EXPIRES + MIN_DELAY_US) i = off"
    using expire_us_unat [OF e(1)] by (simp add: wheel_offset_eq i_def off_def)
  moreover have "16 \<le> unat ?d" "unat ?d < 2 ^ 28" using d e(2,3) by simp_all
  ultimately obtain s' where s': "timer_insert fg t s = Inr s'" "wheel_rep s' (put_bucket W i off (t # W i off))" "tw_frame s s'"
      "tw_calls s' = tw_calls s" "timer_pending t s'"
    using timer_insert_rep [OF rep t, of fg] by (simp only: nat_int) blast
  have tm: "timers_of (put_bucket W i off (t # W i off)) = insert t (timers_of W)"
    using timers_of_put [OF i rep] wheel_repD(3) [OF rep i] by auto
  have new: "(i = 0 \<and> ?e div 16 mod 256 = off \<and> p \<le> ?e div 16 \<and> ?e div 16 < p + 256) \<or>
      (i = 1 \<and> ?e div 4096 mod 256 = off \<and> p \<le> 256 * (?e div 4096) \<and> 256 * (?e div 4096) < p + 65536)"
  proof (cases "unat ?d < 4096")
    case True
    then have "?e < 16 * p + 4096" using d pos(1) e(2) by linarith
    then have "p \<le> ?e div 16" "?e div 16 < p + 256" using far by linarith+
    then show ?thesis using True by (simp add: i_def off_def)
  next
    case False
    then have "16 * p + 4096 \<le> ?e + 16" using d pos(2) e(2) by linarith
    moreover have "?e < 4096 * (?e div 4096) + 4096" by (simp add: dividend_less_times_div)
    ultimately have "p \<le> 256 * (?e div 4096)" by linarith
    moreover have "256 * (?e div 4096) < p + 65536" using e(3) pos(1) by simp
    ultimately show ?thesis using False by (simp add: i_def off_def)
  qed
  have "placed s p (put_bucket W i off (t # W i off))"
    unfolding placed_def
  proof (intro conjI allI impI ballI)
    fix off' x assume o: "off' < 256" "x \<in> set (put_bucket W i off (t # W i off) 0 off')"
    then have "x \<in> set (W 0 off') \<or> x = t \<and> i = 0 \<and> off' = off" by (auto simp: put_bucket_def split: if_splits)
    then have "(expiry s x + 16) div 16 mod 256 = off' \<and> p \<le> (expiry s x + 16) div 16 \<and> (expiry s x + 16) div 16 < p + 256"
      using placed_fine [OF pl o(1)] new by auto
    then show "fine_slot s x = off'" "p \<le> (expiry s x + 16) div 16" "(expiry s x + 16) div 16 < p + 256" by (simp_all add: fine_slot_def)
  next
    fix off' x assume o: "off' < 256" "x \<in> set (put_bucket W i off (t # W i off) 1 off')"
    then have "x \<in> set (W 1 off') \<or> x = t \<and> i = 1 \<and> off' = off" by (auto simp: put_bucket_def split: if_splits)
    then show "(expiry s x + 16) div 4096 mod 256 = off'" "p \<le> 256 * ((expiry s x + 16) div 4096)" "256 * ((expiry s x + 16) div 4096) < p + 65536"
      using placed_medium [OF pl o(1)] new by auto
  next
    fix off' :: nat assume "off' < 256"
    then show "put_bucket W i off (t # W i off) 2 off' = []" using pl by (simp add: put_bucket_def i_def placed_def)
  qed (use tm pl e(1) in \<open>auto simp: placed_def\<close>)
  then show ?thesis using s' tm placed_frame [OF s'(3)] by auto
qed

lemma timer_add_rep:
  assumes "wheel_rep s W" "placed s p W" "t \<noteq> NULL" "t \<notin> timers_of W" "t \<notin> wheel_heads s"
    and "unat (timer_pos s) = 16 * p" "unat (now_us s) < 16 * p" "16 * p \<le> unat (now_us s) + 16"
    and "cyc \<noteq> 0" "0 < delay" "now_us s \<le> tsc div scast cyc"
    and "unat (tsc div scast cyc) + unat delay + 16 < 2 ^ 64" "unat (tsc div scast cyc) + unat delay + 16 < unat (now_us s) + 2 ^ 20"
  shows "\<exists>s' W'. timer_add tsc cyc t fg delay s = Inr s' \<and> wheel_rep s' W' \<and> placed s' p W' \<and> timers_of W' = insert t (timers_of W) \<and>
    expiry s' t = unat (tsc div scast cyc) + unat delay \<and> tw_calls s' = tw_calls s \<and> timer_pending t s' \<and>
    timer_pos s' = timer_pos s \<and> (fgs_here env s \<longrightarrow> fgs_here env s')"
proof -
  let ?s = "s\<lparr>tw_mem := hwrite (tw_mem s) t TIMER_EXPIRES (tsc div scast cyc + delay)\<rparr>"
  have u: "unat (tsc div scast cyc + delay) = unat (tsc div scast cyc) + unat delay"
    using assms(12) unat_add_lem [of "tsc div scast cyc" delay] by simp
  have mx: "unat MAX_DELAY_US = 268435456" by (simp add: wheel_consts)
  have "unat (now_us s) \<le> unat (tsc div scast cyc)" using assms(11) by (simp add: word_le_nat_alt)
  then have "unat delay < 268435456" and now: "unat (now_us s) < unat (tsc div scast cyc) + unat delay"
    using assms(10,13) by (simp_all add: word_less_nat_alt)
  then have dl: "\<not> delay \<ge> MAX_DELAY_US" by (simp add: word_le_nat_alt mx)
  have et: "expiry ?s t = unat (tsc div scast cyc) + unat delay" by (simp add: expiry_def u)
  have eo: "expiry ?s x = expiry s x" if "x \<noteq> t" for x using that by (simp add: expiry_def)
  have r: "wheel_rep ?s W"
  proof -
    have "hlist_rep (hwrite (tw_mem s) t TIMER_EXPIRES v) b xs = hlist_rep (tw_mem s) b xs" for b xs v
      by (rule hlist_rep_cong) simp_all
    then show ?thesis using assms(1) by (simp add: wheel_rep_def wheel_heads_def bucket_def)
  qed
  have pl: "placed ?s p W" by (rule placed_cong [OF assms(2)]) (use assms(4) eo in metis)
  have "wheel_heads ?s = wheel_heads s" by (simp add: wheel_heads_def bucket_def)
  then obtain s' W' where s': "timer_insert fg t ?s = Inr s'" "wheel_rep s' W'" "placed s' p W'" "timers_of W' = insert t (timers_of W)"
      "tw_frame ?s s'" "tw_calls s' = tw_calls s" "timer_pending t s'"
    using insert_placed [OF r pl assms(3,4), of fg] assms(5-8,12,13) now et by auto
  have "timer_add tsc cyc t fg delay s = Inr s'"
    using s'(1) dl assms(9,10) by (simp add: timer_add_def timer_add_on_def timer_now_def)
  moreover have "expiry s' t = unat (tsc div scast cyc) + unat delay" using expiry_frame [OF s'(5)] et by simp
  moreover have "timer_pos s' = timer_pos s" "fgs_here env s \<longrightarrow> fgs_here env s'"
    using s'(5) by (simp_all add: tw_frame_def fgs_here_def)
  ultimately show ?thesis using s' by blast
qed

section \<open>A wheel without timers\<close>

definition quiet_env :: timer_env where
  "quiet_env = \<lparr>te_fgs = (\<lambda>_. NULL), te_cpu = 0, te_run = (\<lambda>f t fg s. Inr s)\<rparr>"

definition new_wheel :: "u64 \<Rightarrow> u64 \<Rightarrow> timerwheel" where
  "new_wheel now pos = \<lparr>now_us = now, timer_pos = pos, tw_wheels = 0x100000, tw_mem = (\<lambda>_ _. 0), tw_calls = []\<rparr>"

lemma quiet_env_ok [simp]: "quiet quiet_env" "fgs_here quiet_env (new_wheel now pos)"
  by (simp_all add: quiet_def quiet_env_def fgs_here_def new_wheel_def)

lemma new_wheel_simps [simp]:
  "now_us (new_wheel now pos) = now" "timer_pos (new_wheel now pos) = pos" "tw_calls (new_wheel now pos) = []" "tw_mem (new_wheel now pos) = (\<lambda>_ _. 0)"
  by (simp_all add: new_wheel_def)

lemma new_wheel_unat: "i < 3 \<Longrightarrow> off < 256 \<Longrightarrow> unat (bucket (new_wheel now pos) i off) = 0x100000 + 8 * (256 * i + off)"
  using bucket_unat [of "new_wheel now pos" i off] by (simp add: new_wheel_def)

lemma new_wheel_rep: "wheel_rep (new_wheel now pos) (\<lambda>_ _. [])"
proof -
  have "bucket (new_wheel now pos) i off \<noteq> NULL" if "i < 3" "off < 256" for i off
    using new_wheel_unat [OF that, of now pos] by (metis add_is_0 unsigned_0 zero_neq_numeral)
  then show ?thesis by (simp add: wheel_rep_def timers_of_def hlist_rep_def) (simp add: new_wheel_def)
qed

lemma new_wheel_heads: "t \<in> wheel_heads (new_wheel now pos) \<Longrightarrow> 0x100000 \<le> unat t"
  using new_wheel_unat by (fastforce simp: wheel_heads_def)

lemma new_wheel_placed: "placed s p (\<lambda>_ _. [])"
  by (simp add: placed_def timers_of_def)

section \<open>Properties\<close>





text \<open>
  When the wheel position is not a multiple of 16, as \<open>timer_init_cpu\<close> leaves it unless the clock happens to be, a
  timer can fire a whole turn of the fine wheel early: here one with a delay of 4079 microseconds one microsecond later.
\<close>

theorem timer_fires_early:
  "\<exists>s s'. timer_add 30 1 0x5000 NULL 4079 (new_wheel 30 31) = Inr s \<and> expiry s 0x5000 = 4109 \<and>
     timer_run quiet_env 31 1 s = Some (Inr s') \<and> fired s' = [0x5000]"
proof -
  let ?s = "(new_wheel 30 31)\<lparr>tw_mem := hwrite (tw_mem (new_wheel 30 31)) 0x5000 TIMER_EXPIRES 4109\<rparr>" and ?t = "0x5000 :: addr"
  have h: "wheel_heads ?s = wheel_heads (new_wheel 30 31)" "bucket ?s = bucket (new_wheel 30 31)"
    by (simp_all add: wheel_heads_def bucket_def fun_eq_iff)
  have t: "?t \<noteq> NULL" "?t \<notin> timers_of (\<lambda>_ _. [])" "?t \<notin> wheel_heads ?s"
    using new_wheel_heads [of ?t 30 31] h by (auto simp: timers_of_def)
  have r: "wheel_rep ?s (\<lambda>_ _. [])"
  proof -
    have "hlist_rep (hwrite h ?t TIMER_EXPIRES v) b xs = hlist_rep h b xs" for h b xs v by (rule hlist_rep_cong) simp_all
    then show ?thesis using new_wheel_rep [of 30 31] h by (simp add: wheel_rep_def)
  qed
  have e: "expiry ?s ?t = 4109" by (simp add: expiry_def)
  then have slot: "fine_slot ?s ?t = 1" by (simp add: fine_slot_def)
  obtain s where s: "timer_insert NULL ?t ?s = Inr s" "wheel_rep s (put_bucket (\<lambda>_ _. []) 0 1 [?t])" "tw_frame ?s s" "tw_calls s = []"
    using insert_fine [OF r t, of NULL] e slot by auto
  have call: "timer_add 30 1 ?t NULL 4079 (new_wheel 30 31) = Inr s"
    using s(1) by (simp add: timer_add_def timer_add_on_def timer_now_def wheel_consts)
  have fr: "now_us s = 30" "timer_pos s = 31" "expiry s ?t = 4109" using s(3) e expiry_frame [OF s(3)] by (auto simp: tw_frame_def)
  let ?s1 = "s\<lparr>now_us := 31\<rparr>"
  have r1: "wheel_rep ?s1 (put_bucket (\<lambda>_ _. []) 0 1 [?t])" using s(2) by (simp add: wheel_rep_def wheel_heads_def bucket_def)
  have f1: "fgs_here quiet_env ?s1" using s(3) by (simp add: fgs_here_def quiet_env_def tw_frame_def new_wheel_def)
  obtain s2 where s2: "timer_run_bucket quiet_env (bucket ?s1 0 1) ?s1 = Some (Inr s2)" "tw_frame ?s1 s2" "fired s2 = [?t]"
    using timer_run_bucket_rep [OF quiet_env_ok(1) _ _ r1 f1, of 0 1] s(4) by (auto simp: fired_def)
  have o: "WHEEL_OFFSET 31 0 = 1" by (simp add: wheel_offset_eq)
  have "now_us s2 = 31" using s2(2) by (simp add: tw_frame_def)
  then have l: "timer_run_loop quiet_env 47 s2 = Some (Inr (s2\<lparr>timer_pos := 47\<rparr>))" by (subst timer_run_loop.simps) simp
  have m: "31 + MIN_DELAY_US = 47" "timer_tick quiet_env 31 ?s1 = Some (Inr s2)" using s2(1) by (simp_all add: wheel_consts timer_tick_def o)
  have "timer_run_loop quiet_env 31 ?s1 = Some (Inr (s2\<lparr>timer_pos := 47\<rparr>))"
    unfolding timer_run_loop.simps [of quiet_env 31 ?s1] m(2) by (simp only: bind.simps sum.case m(1) l) simp
  then have "timer_run quiet_env 31 1 s = Some (Inr (s2\<lparr>timer_pos := 47\<rparr>))" using fr(2) by (simp add: timer_run_def timer_now_def)
  then show ?thesis using call fr(3) s2(3) by (auto simp: fired_def)
qed

text \<open>
  A delay accepted by the range check of \<open>timer_add\<close> can still be too long for the wheels: within 16 microseconds of
  the limit the rounding up selects a fourth wheel, which does not exist.
\<close>

theorem timer_add_out_of_range:
  assumes "cyc \<noteq> 0" "now_us s = tsc div scast cyc" "MAX_DELAY_US - MIN_DELAY_US \<le> delay" "delay < MAX_DELAY_US"
    and "unat (tsc div scast cyc) + 2 ^ 29 < 2 ^ 64"
  shows "timer_add tsc cyc t fg delay s = Inl Out_of_bounds"
proof -
  have c: "MAX_DELAY_US = 268435456" "MIN_DELAY_US = 16" by (simp_all add: wheel_consts)
  have d: "268435440 \<le> unat delay" "unat delay < 268435456" using assms(3,4) by (simp_all add: c word_le_nat_alt word_less_nat_alt)
  let ?n = "tsc div scast cyc" and ?d = "delay + 16"
  have u: "unat ?d = unat delay + 16" using d by (simp add: unat_word_ariths)
  have "\<not> wheel_index ?d \<le> int 2" using wheel_index_le_iff [of ?d 2] u d by simp
  then have i: "int WHEEL_COUNT \<le> wheel_index ?d" by (simp add: WHEEL_COUNT_def)
  have "?n + delay + MIN_DELAY_US - ?n = ?d" by (simp add: c)
  moreover have "0 < delay" using d by (simp add: word_less_nat_alt)
  ultimately show ?thesis using assms(1,2,4) i
    by (simp add: timer_add_def timer_add_on_def timer_now_def timer_insert_def Let_def not_le)
qed

theorem timer_add_out_of_range_witness: "timer_add 5 1 0x5000 NULL 268435450 (new_wheel 5 16) = Inl Out_of_bounds"
  by (rule timer_add_out_of_range) (simp_all add: wheel_consts)

end
