(* ===== verification/Chksum.thy ===== *)
theory Chksum
  imports Prelude
begin

text \<open>
  The Internet checksum of \<open>inc/asm/chksum.h\<close>, an assembly routine that adds eight bytes at a time with the carry flag
  and folds the result.  It is equivalent to the definition of RFC 1071: the one's complement of the one's complement sum
  of the 16-bit words of the buffer.
\<close>

section \<open>The routine\<close>

text \<open>Addition with carry in and out, at any operand size.\<close>

definition adc :: "'a::len word \<Rightarrow> 'a word \<Rightarrow> bool \<Rightarrow> 'a word \<times> bool" where
  "adc x y c = (x + y + of_bool c, 2 ^ LENGTH('a) \<le> unat x + unat y + of_bool c)"

text \<open>The little-endian value of the bytes, as the loads read them.\<close>

primrec le_value :: "u8 list \<Rightarrow> nat" where
  "le_value [] = 0"
| "le_value (b # bs) = unat b + 256 * le_value bs"

primrec chunk_loop :: "nat \<Rightarrow> u8 list \<Rightarrow> u64 \<times> bool \<Rightarrow> u8 list \<times> u64 \<times> bool" where
  "chunk_loop 0 bs st = (bs, st)"
| "chunk_loop (Suc n) bs st = (case st of (acc, cf) \<Rightarrow> chunk_loop n (drop 8 bs) (adc acc (of_nat (le_value (take 8 bs))) cf))"

text \<open>Adding the next \<open>n\<close> bytes if bit \<open>n\<close> of the length is set: \<open>addq\<close> and \<open>adcq $0\<close>.\<close>

definition add_part :: "nat \<Rightarrow> nat \<Rightarrow> u8 list \<times> u64 \<Rightarrow> u8 list \<times> u64" where
  "add_part len n st =
     (case st of (bs, acc) \<Rightarrow>
        if and len n = 0 then (bs, acc)
        else let (s1, c) = adc acc (of_nat (le_value (take n bs))) False in (drop n bs, fst (adc s1 0 c)))"

definition fold32 :: "u64 \<Rightarrow> u32" where
  "fold32 acc = (let (s1, c) = adc (ucast (drop_bit 32 acc)) (ucast acc) False in fst (adc s1 0 c))"

definition fold16 :: "u32 \<Rightarrow> u16" where
  "fold16 acc = (let (s1, c) = adc (ucast (drop_bit 16 acc)) (ucast acc) False in fst (adc s1 0 c))"

definition add_chunks :: "u8 list \<Rightarrow> u8 list \<times> u64" where
  "add_chunks bs =
     (if length bs div 8 = 0 then (bs, 0)
      else case chunk_loop (length bs div 8) bs (0, False) of (bs1, acc, cf) \<Rightarrow> (bs1, fst (adc acc 0 cf)))"

definition chksum_internet :: "u8 list \<Rightarrow> u16" where
  "chksum_internet bs =
     (let len = length bs;
          (bs4, acc) = add_part len 1 (add_part len 2 (add_part len 4 (add_chunks bs)))
      in NOT (fold16 (fold32 acc)))"

section \<open>The definition of RFC 1071\<close>

fun words16 :: "u8 list \<Rightarrow> nat list" where
  "words16 [] = []"
| "words16 [b] = [unat b]"
| "words16 (b # c # bs) = (unat b + 256 * unat c) # words16 bs"

text \<open>The one's complement sum of 16-bit words, in the representation in which only the sum of zeros is zero.\<close>

definition ones_sum :: "nat \<Rightarrow> nat" where
  "ones_sum n = (if n = 0 then 0 else (n - 1) mod 65535 + 1)"

section \<open>End-around carry\<close>

text \<open>\<open>same_sum m n\<close>: the numbers have the same one's complement sum.\<close>

definition same_sum :: "nat \<Rightarrow> nat \<Rightarrow> bool" where
  "same_sum m n \<longleftrightarrow> m mod 65535 = n mod 65535 \<and> (m = 0 \<longleftrightarrow> n = 0)"

lemma same_sum_refl [simp]: "same_sum n n"
  and same_sum_trans: "same_sum m n \<Longrightarrow> same_sum n k \<Longrightarrow> same_sum m k"
  and same_sum_sym: "same_sum m n \<Longrightarrow> same_sum n m"
  by (auto simp: same_sum_def)

lemma same_sum_add: "same_sum m n \<Longrightarrow> same_sum m' n' \<Longrightarrow> same_sum (m + m') (n + n')"
  by (auto simp: same_sum_def intro: mod_add_cong)

lemma pow_mod: "2 ^ (16 * k) mod 65535 = (1 :: nat)"
proof (induction k)
  case (Suc k)
  have "2 ^ (16 * Suc k) mod 65535 = (65536 * 2 ^ (16 * k)) mod (65535 :: nat)" by (simp add: power_add)
  also have "\<dots> = (65536 mod 65535 * (2 ^ (16 * k) mod 65535)) mod 65535" by (rule mod_mult_eq [symmetric])
  finally show ?case using Suc by simp
qed simp

lemma same_sum_shift: "same_sum (a + 2 ^ (16 * k) * b) (a + b)"
proof -
  have "(2 ^ (16 * k) * b) mod 65535 = (2 ^ (16 * k) mod 65535 * b) mod 65535" by (metis mod_mult_left_eq)
  then have "(2 ^ (16 * k) * b) mod 65535 = b mod 65535" by (simp add: pow_mod)
  then have "(a + 2 ^ (16 * k) * b) mod 65535 = (a + b) mod 65535" by (metis mod_add_right_eq)
  then show ?thesis by (simp add: same_sum_def)
qed

lemma ones_sum_unique:
  assumes "same_sum m n" "m \<le> 65535"
  shows "m = ones_sum n"
proof (cases "n = 0")
  case False
  then have "m \<noteq> 0" using assms(1) by (auto simp: same_sum_def)
  then have "m - 1 < 65535" using assms(2) by linarith
  have "(m - 1) mod 65535 = (n - 1) mod 65535"
  proof -
    have "m + 65534 = m - 1 + 65535" "n + 65534 = n - 1 + 65535" using False \<open>m \<noteq> 0\<close> by linarith+
    moreover have "(m + 65534) mod 65535 = (n + 65534) mod 65535" using assms(1) by (intro mod_add_cong) (simp_all add: same_sum_def)
    ultimately show ?thesis by (metis mod_add_self2)
  qed
  then show ?thesis using False \<open>m \<noteq> 0\<close> \<open>m - 1 < 65535\<close> by (simp add: ones_sum_def)
qed (use assms in \<open>simp add: same_sum_def ones_sum_def\<close>)

lemma unat_less: "unat w < 2 ^ LENGTH('a)" for w :: "'a::len word"
  by (rule unsigned_less)

lemma adc_value:
  fixes x y :: "'a::len word"
  assumes "adc x y c = (r, d)"
  shows "unat r + 2 ^ LENGTH('a) * of_bool d = unat x + unat y + of_bool c"
proof -
  let ?n = "unat x + unat y + of_bool c :: nat"
  have "unat x < 2 ^ LENGTH('a)" "unat y < 2 ^ LENGTH('a)" by (rule unsigned_less)+
  moreover have "of_bool c \<le> (1 :: nat)" by simp
  ultimately have lt: "?n < 2 * 2 ^ LENGTH('a)" by linarith
  have "x + y + of_bool c = of_nat ?n" by simp
  then have "r = of_nat ?n" and d: "d \<longleftrightarrow> 2 ^ LENGTH('a) \<le> ?n" using assms unfolding adc_def by auto
  then have r: "unat r = ?n mod 2 ^ LENGTH('a)" by (simp only: unsigned_of_nat take_bit_eq_mod) simp
  show ?thesis
  proof (cases d)
    case True
    then have "?n mod 2 ^ LENGTH('a) = ?n - 2 ^ LENGTH('a)" using d lt by (simp add: le_mod_geq)
    then show ?thesis using r d True by simp
  qed (use r d in simp)
qed

text \<open>The pair \<open>add\<close>, \<open>adc $0\<close> is addition with end-around carry, as long as the carry cannot overflow again.\<close>

lemma end_around:
  fixes x y :: "'a::len word"
  assumes a: "adc x y c = (r, d)" and len: "LENGTH('a) = 16 * k" and lim: "unat x + of_bool c < 2 ^ LENGTH('a)"
  shows "unat r + of_bool d < 2 ^ LENGTH('a)" "same_sum (unat r + of_bool d) (unat x + of_bool c + unat y)"
proof -
  note v = adc_value [OF a]
  have y: "unat y < 2 ^ LENGTH('a)" by (rule unsigned_less)
  show "unat r + of_bool d < 2 ^ LENGTH('a)"
  proof (cases d)
    case True
    then have "unat r + 2 ^ LENGTH('a) = unat x + unat y + of_bool c" using v by simp
    then have "unat r + 1 < 2 ^ LENGTH('a)" using lim y by linarith
    then show ?thesis using True by simp
  qed simp
  have "same_sum (unat r + of_bool d) (unat r + 2 ^ LENGTH('a) * of_bool d)"
    unfolding len by (rule same_sum_sym [OF same_sum_shift])
  then show "same_sum (unat r + of_bool d) (unat x + of_bool c + unat y)" unfolding v by (simp add: ac_simps)
qed

lemma adc_carry: "unat x + of_bool c < 2 ^ LENGTH('a) \<Longrightarrow> unat (fst (adc x 0 c)) = unat x + of_bool c" for x :: "'a::len word"
proof -
  assume a: "unat x + of_bool c < 2 ^ LENGTH('a)"
  obtain r d where r: "adc x 0 c = (r, d)" by fastforce
  have "d \<longleftrightarrow> 2 ^ LENGTH('a) \<le> unat x + of_bool c" using r by (auto simp: adc_def)
  then have "\<not> d" using a by simp
  then show ?thesis using adc_value [OF r] r by simp
qed

section \<open>Correctness\<close>

lemma le_value_append: "le_value (xs @ ys) = le_value xs + 256 ^ length xs * le_value ys"
  by (induction xs) (simp_all add: algebra_simps)

lemma le_value_less: "le_value xs < 256 ^ length xs"
proof (induction xs)
  case (Cons b bs)
  have "unat b < 256" using unsigned_less [of b] by simp
  then show ?case using Cons by simp
qed simp

lemma le_value_split: "even n \<Longrightarrow> n \<le> length xs \<Longrightarrow> same_sum (le_value xs) (le_value (take n xs) + le_value (drop n xs))"
proof -
  assume n: "even n" "n \<le> length xs"
  then obtain k where "n = 2 * k" by (auto elim: evenE)
  then have "(256 :: nat) ^ n = 2 ^ (16 * k)" by (simp add: power_mult)
  moreover have "le_value xs = le_value (take n xs) + 256 ^ n * le_value (drop n xs)"
    using le_value_append [of "take n xs" "drop n xs"] n(2) by simp
  ultimately show ?thesis by (simp only: same_sum_shift)
qed

lemma chunk_loop_sum:
  assumes "chunk_loop n bs (a, c) = (bs', r, d)" "8 * n \<le> length bs" "unat a + of_bool c < 2 ^ 64"
  shows "bs' = drop (8 * n) bs \<and> unat r + of_bool d < 2 ^ 64 \<and> same_sum (unat r + of_bool d) (unat a + of_bool c + le_value (take (8 * n) bs))"
  using assms
proof (induction n arbitrary: bs a c)
  case (Suc n)
  let ?x = "of_nat (le_value (take 8 bs)) :: u64"
  obtain a1 c1 where a1: "adc a ?x c = (a1, c1)" by fastforce
  have "le_value (take 8 bs) < 256 ^ 8" using le_value_less [of "take 8 bs"] Suc.prems(2) by simp
  then have x: "unat ?x = le_value (take 8 bs)" by (intro unat_of_nat64) simp
  have e: "unat a1 + of_bool c1 < 2 ^ 64" "same_sum (unat a1 + of_bool c1) (unat a + of_bool c + le_value (take 8 bs))"
    using end_around [OF a1, of 4] Suc.prems(3) x by simp_all
  have "chunk_loop n (drop 8 bs) (a1, c1) = (bs', r, d)" "8 * n \<le> length (drop 8 bs)" using Suc.prems(1,2) a1 by simp_all
  from Suc.IH [OF this e(1)] have ih: "bs' = drop (8 * Suc n) bs" "unat r + of_bool d < 2 ^ 64"
      "same_sum (unat r + of_bool d) (unat a1 + of_bool c1 + le_value (take (8 * n) (drop 8 bs)))"
    by (simp_all add: add.commute)
  have "take 8 (take (8 * Suc n) bs) = take 8 bs" "drop 8 (take (8 * Suc n) bs) = take (8 * n) (drop 8 bs)"
    by (simp_all add: drop_take)
  then have "same_sum (le_value (take (8 * Suc n) bs)) (le_value (take 8 bs) + le_value (take (8 * n) (drop 8 bs)))"
    using le_value_split [of 8 "take (8 * Suc n) bs"] Suc.prems(2) by simp
  then have "same_sum (unat a + of_bool c + le_value (take (8 * Suc n) bs)) (unat a + of_bool c + le_value (take 8 bs) + le_value (take (8 * n) (drop 8 bs)))"
    using same_sum_add [OF same_sum_refl] by (simp only: add.assoc)
  moreover have "same_sum (unat r + of_bool d) (unat a + of_bool c + le_value (take 8 bs) + le_value (take (8 * n) (drop 8 bs)))"
    by (rule same_sum_trans [OF ih(3) same_sum_add [OF e(2) same_sum_refl]])
  ultimately show ?case using ih(1,2) same_sum_trans same_sum_sym by blast
qed simp

lemma add_part_sum:
  assumes "add_part len n (bs, a) = (bs', a')" and n: "and len n \<noteq> 0 \<Longrightarrow> n \<le> length bs \<and> (even n \<or> n = length bs)" "n \<le> 8"
  shows "bs' = (if and len n = 0 then bs else drop n bs)" "same_sum (unat a' + le_value bs') (unat a + le_value bs)"
proof -
  show bs': "bs' = (if and len n = 0 then bs else drop n bs)" using assms(1) by (auto simp: add_part_def split: prod.splits)
  show "same_sum (unat a' + le_value bs') (unat a + le_value bs)"
  proof (cases "and len n = 0")
    case False
    let ?x = "of_nat (le_value (take n bs)) :: u64"
    obtain r d where r: "adc a ?x False = (r, d)" by fastforce
    have "le_value (take n bs) < 256 ^ n" using le_value_less [of "take n bs"] n(1) [OF False] by simp
    also have "\<dots> \<le> 256 ^ 8" using n(2) by (intro power_increasing) auto
    finally have x: "unat ?x = le_value (take n bs)" by (intro unat_of_nat64) simp
    have e: "unat r + of_bool d < 2 ^ 64" "same_sum (unat r + of_bool d) (unat a + le_value (take n bs))"
      using end_around [OF r, of 4] unat_less [of a] x by simp_all
    have a': "unat a' = unat r + of_bool d" using assms(1) False r adc_carry [of r d] e(1) by (simp add: add_part_def)
    have "same_sum (le_value bs) (le_value (take n bs) + le_value (drop n bs))"
      using le_value_split [of n bs] n(1) [OF False] by auto
    then have 1: "same_sum (unat a + le_value bs) (unat a + le_value (take n bs) + le_value (drop n bs))"
      using same_sum_add [OF same_sum_refl] by (simp only: add.assoc)
    have "same_sum (unat a' + le_value bs') (unat a + le_value (take n bs) + le_value (drop n bs))"
      using same_sum_add [OF e(2) same_sum_refl] a' bs' False by simp
    then show ?thesis by (rule same_sum_trans [OF _ same_sum_sym [OF 1]])
  qed (use assms(1) in \<open>auto simp: add_part_def\<close>)
qed

lemma fold32_sum: "same_sum (unat (fold32 a)) (unat a)"
proof -
  let ?hi = "ucast (drop_bit 32 a) :: u32" and ?lo = "ucast a :: u32"
  obtain r d where r: "adc ?hi ?lo False = (r, d)" by fastforce
  have lt: "unat a < 2 ^ 64" using unat_less [of a] by simp
  then have "unat a div 2 ^ 32 < 2 ^ 32" by (simp add: less_mult_imp_div_less)
  then have u: "unat ?hi = unat a div 2 ^ 32" "unat ?lo = unat a mod 2 ^ 32"
    by (simp_all add: unsigned_ucast_eq unat_div take_bit_eq_mod drop_bit_eq_div)
  have e: "unat r + of_bool d < 2 ^ 32" "same_sum (unat r + of_bool d) (unat ?hi + unat ?lo)"
    using end_around [OF r, of 2] unat_less [of ?hi] by simp_all
  have "unat (fold32 a) = unat r + of_bool d" using r adc_carry [of r d] e(1) by (simp add: fold32_def)
  moreover have "unat ?lo + 2 ^ (16 * 2) * unat ?hi = unat a" using u by simp
  then have "same_sum (unat a) (unat ?hi + unat ?lo)" using same_sum_shift [of "unat ?lo" 2 "unat ?hi"] by (simp only: add.commute)
  from same_sum_trans [OF e(2) same_sum_sym [OF this]] have "same_sum (unat r + of_bool d) (unat a)" .
  ultimately show ?thesis by simp
qed

lemma fold16_sum: "same_sum (unat (fold16 a)) (unat a)"
proof -
  let ?hi = "ucast (drop_bit 16 a) :: u16" and ?lo = "ucast a :: u16"
  obtain r d where r: "adc ?hi ?lo False = (r, d)" by fastforce
  have lt: "unat a < 2 ^ 32" using unat_less [of a] by simp
  then have "unat a div 2 ^ 16 < 2 ^ 16" by (simp add: less_mult_imp_div_less)
  then have u: "unat ?hi = unat a div 2 ^ 16" "unat ?lo = unat a mod 2 ^ 16"
    by (simp_all add: unsigned_ucast_eq unat_div take_bit_eq_mod drop_bit_eq_div)
  have e: "unat r + of_bool d < 2 ^ 16" "same_sum (unat r + of_bool d) (unat ?hi + unat ?lo)"
    using end_around [OF r, of 1] unat_less [of ?hi] by simp_all
  have "unat (fold16 a) = unat r + of_bool d" using r adc_carry [of r d] e(1) by (simp add: fold16_def)
  moreover have "unat ?lo + 2 ^ (16 * 1) * unat ?hi = unat a" using u by simp
  then have "same_sum (unat a) (unat ?hi + unat ?lo)" using same_sum_shift [of "unat ?lo" 1 "unat ?hi"] by (simp only: add.commute)
  from same_sum_trans [OF e(2) same_sum_sym [OF this]] have "same_sum (unat r + of_bool d) (unat a)" .
  ultimately show ?thesis by simp
qed

lemma words16_sum: "same_sum (sum_list (words16 bs)) (le_value bs)"
proof (induction bs rule: words16.induct)
  case (3 b c bs)
  have "le_value (b # c # bs) = unat b + 256 * unat c + 2 ^ (16 * 1) * le_value bs" by simp
  then have "same_sum (le_value (b # c # bs)) (unat b + 256 * unat c + le_value bs)" by (simp only: same_sum_shift)
  moreover have "same_sum (sum_list (words16 (b # c # bs))) (unat b + 256 * unat c + le_value bs)"
    using same_sum_add [OF same_sum_refl 3] by simp
  ultimately show ?case using same_sum_trans same_sum_sym by blast
qed simp_all

text \<open>Which parts are left after the eight byte chunks, from the bits of the length.\<close>

lemma and_bit: "and n 4 = 0 \<longleftrightarrow> even (n div 4)" "and n 2 = 0 \<longleftrightarrow> even (n div 2)" "and n 1 = 0 \<longleftrightarrow> even n" for n :: nat
  using and_exp_eq_0_iff_not_bit [of n 2] and_exp_eq_0_iff_not_bit [of n 1] and_exp_eq_0_iff_not_bit [of n 0] by (simp_all add: bit_iff_odd)

lemma half_mod:
  fixes n :: nat
  assumes "0 < k"
  shows "odd (n div k) \<longleftrightarrow> k \<le> n mod (2 * k)" "n mod (2 * k) = n mod k + (if odd (n div k) then k else 0)"
proof -
  have e: "n mod (2 * k) = k * (n div k mod 2) + n mod k" using mod_mult2_eq [of n k 2] by (simp add: mult.commute)
  have l: "n mod k < k" using assms by simp
  show "n mod (2 * k) = n mod k + (if odd (n div k) then k else 0)" using e by (simp add: odd_iff_mod_2_eq_one)
  then show "odd (n div k) \<longleftrightarrow> k \<le> n mod (2 * k)" using l by (auto split: if_splits)
qed

lemma add_chunks_sum:
  assumes "add_chunks bs = (b1, a1)"
  shows "length b1 = length bs mod 8 \<and> same_sum (unat a1 + le_value b1) (le_value bs)"
proof (cases "length bs div 8 = 0")
  case False
  let ?k = "8 * (length bs div 8)"
  obtain s c where l: "chunk_loop (length bs div 8) bs (0, False) = (b1, s, c)" "a1 = fst (adc s 0 c)"
    using assms False by (auto simp: add_chunks_def split: prod.splits)
  have k: "?k \<le> length bs" by simp
  note r = chunk_loop_sum [OF l(1) k]
  have "unat a1 = unat s + of_bool c" using r l(2) adc_carry [of s c] by simp
  then have "same_sum (unat a1 + le_value b1) (le_value (take ?k bs) + le_value b1)"
    using r same_sum_add [of "unat s + of_bool c" "le_value (take ?k bs)" "le_value b1" "le_value b1"] by simp
  moreover have "same_sum (le_value bs) (le_value (take ?k bs) + le_value b1)" using le_value_split [of ?k bs] k r by simp
  ultimately have "same_sum (unat a1 + le_value b1) (le_value bs)" by (rule same_sum_trans [OF _ same_sum_sym])
  then show ?thesis using r by (simp add: minus_mult_div_eq_mod)
qed (use assms in \<open>simp add: add_chunks_def\<close>)

lemma chksum_sum: "\<exists>a. chksum_internet bs = NOT (fold16 (fold32 a)) \<and> same_sum (unat a) (le_value bs)"
proof -
  define n where "n = length bs"
  obtain b1 a1 where 1: "add_chunks bs = (b1, a1)" by fastforce
  obtain b2 a2 where 2: "add_part n 4 (b1, a1) = (b2, a2)" by fastforce
  obtain b3 a3 where 3: "add_part n 2 (b2, a2) = (b3, a3)" by fastforce
  obtain b4 a4 where 4: "add_part n 1 (b3, a3) = (b4, a4)" by fastforce
  have call: "chksum_internet bs = NOT (fold16 (fold32 a4))"
    unfolding chksum_internet_def Let_def n_def [symmetric] 1 2 3 4 by simp
  have l1: "length b1 = n mod 8" and s1: "same_sum (unat a1 + le_value b1) (le_value bs)" using add_chunks_sum [OF 1] by (simp_all add: n_def)
  note p4 = half_mod [of 4 n, simplified] and p2 = half_mod [of 2 n, simplified]
  have c4: "and n 4 \<noteq> 0 \<Longrightarrow> 4 \<le> length b1" using p4(1) l1 by (simp add: and_bit)
  have s2: "b2 = (if and n 4 = 0 then b1 else drop 4 b1)" "same_sum (unat a2 + le_value b2) (unat a1 + le_value b1)"
    by (rule add_part_sum [OF 2], use c4 in simp_all)+
  have l2: "length b2 = n mod 4" using l1 p4(2) s2(1) by (simp add: and_bit split: if_splits)
  have c2: "and n 2 \<noteq> 0 \<Longrightarrow> 2 \<le> length b2" using p2(1) l2 by (simp add: and_bit)
  have s3: "b3 = (if and n 2 = 0 then b2 else drop 2 b2)" "same_sum (unat a3 + le_value b3) (unat a2 + le_value b2)"
    by (rule add_part_sum [OF 3], use c2 in simp_all)+
  have l3: "length b3 = n mod 2" using l2 p2(2) s3(1) by (simp add: and_bit split: if_splits)
  have c1: "and n 1 \<noteq> 0 \<longleftrightarrow> length b3 = 1" using l3 by (simp only: and_bit odd_iff_mod_2_eq_one)
  have s4: "b4 = (if and n 1 = 0 then b3 else drop 1 b3)" "same_sum (unat a4 + le_value b4) (unat a3 + le_value b3)"
    by (rule add_part_sum [OF 4], use c1 in simp_all)+
  have "length b3 = 0 \<or> length b3 = 1" using l3 by linarith
  then have "length b4 = 0" using s4(1) c1 by auto
  then have "same_sum (unat a4) (le_value bs)"
    using same_sum_trans [OF s4(2) same_sum_trans [OF s3(2) same_sum_trans [OF s2(2) s1]]] by simp
  then show ?thesis using call by blast
qed

lemma chksum_eq: "chksum_internet bs = NOT (of_nat (ones_sum (sum_list (words16 bs))))"
proof -
  obtain a where a: "chksum_internet bs = NOT (fold16 (fold32 a))" "same_sum (unat a) (le_value bs)" using chksum_sum by blast
  have "same_sum (unat (fold16 (fold32 a))) (sum_list (words16 bs))"
    by (rule same_sum_trans [OF fold16_sum same_sum_trans [OF fold32_sum same_sum_trans [OF a(2) same_sum_sym [OF words16_sum]]]])
  moreover have "unat (fold16 (fold32 a)) \<le> 65535" using unat_less [of "fold16 (fold32 a)"] by simp
  ultimately have "unat (fold16 (fold32 a)) = ones_sum (sum_list (words16 bs))" by (rule ones_sum_unique)
  then show ?thesis using a(1) by (metis of_nat_unat ucast_id)
qed

section \<open>Properties\<close>

text \<open>
  C26: The assembly routine computes the Internet checksum of RFC 1071 for a buffer of any length and content: the one's
  complement of the one's complement sum of its 16-bit words, the last byte of an odd length padded with zero.
\<close>

theorem chksum_rfc1071: "chksum_internet bs = NOT (of_nat (ones_sum (sum_list (words16 bs))))"
  by (rule chksum_eq)

lemma ones_sum_same: "same_sum (ones_sum m) m" and ones_sum_le: "ones_sum m \<le> 65535"
proof -
  show "same_sum (ones_sum m) m"
  proof (cases "m = 0")
    case False
    have "((m - 1) mod 65535 + 1) mod 65535 = (m - 1 + 1) mod 65535" by (rule mod_add_left_eq)
    then show ?thesis using False by (simp add: same_sum_def ones_sum_def)
  qed (simp add: ones_sum_def)
  have "(m - 1) mod 65535 < 65535" "ones_sum m = 0 \<or> ones_sum m = (m - 1) mod 65535 + 1" by (simp_all add: ones_sum_def)
  then show "ones_sum m \<le> 65535" by linarith
qed

lemma ones_sum_cong: "same_sum m n \<Longrightarrow> ones_sum m = ones_sum n"
  by (rule ones_sum_unique [OF same_sum_trans [OF ones_sum_same] ones_sum_le])

lemma words16_insert:
  assumes "even (length xs)"
  shows "same_sum (sum_list (words16 (xs @ [b, c] @ ys))) (le_value xs + (unat b + 256 * unat c) + le_value ys)"
proof -
  let ?l = "length xs"
  have "le_value (xs @ [b, c] @ ys) = le_value xs + 256 ^ ?l * (unat b + 256 * unat c + 256 ^ 2 * le_value ys)"
    by (simp add: le_value_append power2_eq_square)
  moreover obtain k where "?l = 2 * k" using assms by (auto elim: evenE)
  then have "(256 :: nat) ^ ?l = 2 ^ (16 * k)" by (simp add: power_mult)
  ultimately have 1: "same_sum (le_value (xs @ [b, c] @ ys)) (le_value xs + (unat b + 256 * unat c + 2 ^ (16 * 1) * le_value ys))"
    using same_sum_shift [of "le_value xs" k "unat b + 256 * unat c + 256 ^ 2 * le_value ys"] by simp
  have "same_sum (unat b + 256 * unat c + 2 ^ (16 * 1) * le_value ys) (unat b + 256 * unat c + le_value ys)" by (rule same_sum_shift)
  then have 2: "same_sum (le_value xs + (unat b + 256 * unat c + 2 ^ (16 * 1) * le_value ys)) (le_value xs + (unat b + 256 * unat c) + le_value ys)"
    using same_sum_add [OF same_sum_refl, of _ _ "le_value xs"] by (simp only: add.assoc)
  show ?thesis by (rule same_sum_trans [OF words16_sum same_sum_trans [OF 1 2]])
qed

lemma u16_bytes: "unat (ucast c :: u8) + 256 * unat (ucast (drop_bit 8 c) :: u8) = unat c" for c :: u16
proof -
  have "unat c < 65536" using unat_less [of c] by simp
  then have "unat c div 256 < 256" by (simp add: less_mult_imp_div_less)
  then show ?thesis by (simp add: unsigned_ucast_eq unat_div take_bit_eq_mod drop_bit_eq_div)
qed

lemma not_of_nat: "n \<le> 65535 \<Longrightarrow> unat (NOT (of_nat n :: u16)) = 65535 - n"
proof -
  assume a: "n \<le> 65535"
  then have n: "unat (of_nat n :: u16) = n" by (simp add: unsigned_of_nat take_bit_nat_eq_self)
  have "NOT (of_nat n :: u16) = 65535 - of_nat n" by (simp add: not_eq_complement)
  moreover have "of_nat n \<le> (65535 :: u16)" using a n by (simp add: word_le_nat_alt)
  ultimately show ?thesis using n by (simp add: unat_sub)
qed

lemma chksum_inserted:
  assumes "even (length xs)"
  shows "(let c = chksum_internet (xs @ [0, 0] @ ys) in chksum_internet (xs @ [ucast c, ucast (drop_bit 8 c)] @ ys)) = 0"
proof -
  let ?S = "le_value xs + le_value ys" let ?s = "ones_sum ?S"
  define c where "c = chksum_internet (xs @ [0, 0] @ ys)"
  have "ones_sum (sum_list (words16 (xs @ [0, 0] @ ys))) = ?s" using ones_sum_cong [OF words16_insert [OF assms, of 0 0 ys]] by simp
  then have c: "unat c = 65535 - ?s" unfolding c_def chksum_eq using not_of_nat [OF ones_sum_le] by metis
  let ?T = "le_value xs + (unat (ucast c :: u8) + 256 * unat (ucast (drop_bit 8 c) :: u8)) + le_value ys"
  have T: "?T + ?s = ?S + 65535" unfolding u16_bytes c using ones_sum_le [of ?S] by linarith
  have "same_sum ?T 65535"
  proof -
    have "(?T + ?s) mod 65535 = ?S mod 65535" unfolding T by simp
    also have "\<dots> = ?s mod 65535" using ones_sum_same [of ?S] by (simp add: same_sum_def)
    finally have "65535 dvd ?T + ?s - ?s" by (subst mod_eq_dvd_iff_nat [symmetric]) (rule le_add2)
    then have "65535 dvd ?T" by simp
    moreover have "?T \<noteq> 0" using T ones_sum_le [of ?S] ones_sum_same [of ?S] by (auto simp: same_sum_def ones_sum_def)
    ultimately show ?thesis by (auto simp: same_sum_def)
  qed
  then have "ones_sum (sum_list (words16 (xs @ [ucast c, ucast (drop_bit 8 c)] @ ys))) = ones_sum 65535"
    by (rule ones_sum_cong [OF same_sum_trans [OF words16_insert [OF assms]]])
  then have "chksum_internet (xs @ [ucast c, ucast (drop_bit 8 c)] @ ys) = NOT (of_nat 65535)" unfolding chksum_eq by (simp add: ones_sum_def)
  then show ?thesis unfolding c_def by (simp add: Let_def)
qed

text \<open>
  A header sent with the checksum that \<open>chksum_internet\<close> computed while the checksum field was zero passes the check of
  the receiver, who computes the checksum over the whole header and expects zero.
\<close>

theorem chksum_verifies:
  assumes "even (length xs)"
  shows "(let c = chksum_internet (xs @ [0, 0] @ ys) in chksum_internet (xs @ [ucast c, ucast (drop_bit 8 c)] @ ys)) = 0"
  using assms by (rule chksum_inserted)

theorem chksum_verifies_witness: "chksum_internet [0x45, 0, 0xFA, 0x56, 192, 168] = 0"
proof -
  have "chksum_internet ([0x45, 0] @ [0, 0] @ [192, 168]) = 0x56FA"
    by (simp add: chksum_eq ones_sum_def)
  then have "chksum_internet ([0x45, 0] @ [ucast (0x56FA :: u16), ucast (drop_bit 8 (0x56FA :: u16))] @ [192, 168]) = 0"
    using chksum_verifies [of "[0x45, 0]" "[192, 168]"] by (simp only: Let_def) simp
  moreover have "ucast (0x56FA :: u16) = (0xFA :: u8)" "ucast (drop_bit 8 (0x56FA :: u16)) = (0x56 :: u8)" by simp_all
  ultimately show ?thesis by (simp only: append.simps)
qed

end
