(* ===== verification/Addr_Text.thy ===== *)
theory Addr_Text
  imports Smart_Tskq Byteorder Mem
begin

text \<open>
  Addresses as text: the scanning functions of the C library as the configuration uses them, \<open>str_to_ip_addr\<close> and
  \<open>str_to_eth_addr\<close> of \<open>dp/core/cfg.c\<close>, \<open>pci_str_to_addr\<close> of \<open>dp/core/pci.c\<close>, and \<open>ip_addr_to_str\<close> of \<open>dp/net/ip.c\<close>.
\<close>

section \<open>Numbers\<close>

definition char_code :: "char \<Rightarrow> nat" where
  "char_code c = of_char c"

definition isspace :: "char \<Rightarrow> bool" where
  "isspace c \<longleftrightarrow> (let k = char_code c in k = 32 \<or> 9 \<le> k \<and> k \<le> 13)"

definition digit_val :: "nat \<Rightarrow> char \<Rightarrow> nat option" where
  "digit_val base c =
     (let k = char_code c;
          d = (if 48 \<le> k \<and> k \<le> 57 then k - 48 else if 97 \<le> k \<and> k \<le> 122 then k - 87 else if 65 \<le> k \<and> k \<le> 90 then k - 55 else 99)
      in if d < base then Some d else None)"

fun digits :: "nat \<Rightarrow> nat \<Rightarrow> string \<Rightarrow> nat \<times> string" where
  "digits base acc [] = (acc, [])"
| "digits base acc (c # cs) = (case digit_val base c of None \<Rightarrow> (acc, c # cs) | Some d \<Rightarrow> digits base (acc * base + d) cs)"

definition sign :: "string \<Rightarrow> bool \<times> string" where
  "sign s = (case s of [] \<Rightarrow> (False, s) | c # cs \<Rightarrow> if c = CHR ''-'' then (True, cs) else if c = CHR ''+'' then (False, cs) else (False, s))"

text \<open>\<open>strtol\<close> and \<open>strtoul\<close> saturate; \<open>strtoul\<close> negates in 64 bits.\<close>

definition to_long :: "bool \<Rightarrow> nat \<Rightarrow> int" where
  "to_long neg v = (if neg then max (- (2 ^ 63)) (- int v) else min (2 ^ 63 - 1) (int v))"

definition to_ulong :: "bool \<Rightarrow> nat \<Rightarrow> int" where
  "to_ulong neg v = (if v \<ge> 2 ^ 64 then 2 ^ 64 - 1 else if neg then (- int v) mod 2 ^ 64 else int v)"

text \<open>
  A conversion of \<open>sscanf\<close>: base, greatest field width, and whether it is signed.  Blanks before a number are skipped and a
  number in base 16 may start with \<open>0x\<close>; characters of the format have to match.
\<close>

datatype conv = Conv nat "nat option" bool | Lit char

definition hex_prefix :: "nat \<Rightarrow> string \<Rightarrow> bool" where
  "hex_prefix base s \<longleftrightarrow> base = 16 \<and> 2 \<le> length s \<and> s ! 0 = CHR ''0'' \<and> (s ! 1 = CHR ''x'' \<or> s ! 1 = CHR ''X'')"

definition scan_num :: "nat \<Rightarrow> nat option \<Rightarrow> bool \<Rightarrow> string \<Rightarrow> (int \<times> string) option" where
  "scan_num base w sg s =
     (let s1 = dropWhile isspace s;
          (fld, after) = (case w of None \<Rightarrow> (s1, []) | Some n \<Rightarrow> (take n s1, drop n s1));
          (neg, f1) = sign fld;
          pre = hex_prefix base f1;
          f2 = (if pre then drop 2 f1 else f1)
      in if \<not> pre \<and> (f2 = [] \<or> digit_val base (f2 ! 0) = None) then None
         else let (v, r) = digits base 0 f2 in Some (if sg then to_long neg v else to_ulong neg v, r @ after))"

fun sscanf :: "conv list \<Rightarrow> string \<Rightarrow> int list" where
  "sscanf [] s = []"
| "sscanf (Lit c # fs) s = (case s of [] \<Rightarrow> [] | x # xs \<Rightarrow> if x = c then sscanf fs xs else [])"
| "sscanf (Conv base w sg # fs) s = (case scan_num base w sg s of None \<Rightarrow> [] | Some (v, r) \<Rightarrow> v # sscanf fs r)"

text \<open>\<open>atoi\<close> is zero when there is no number; the result is cut to 32 bits.\<close>

definition atoi :: "string \<Rightarrow> int" where
  "atoi s = (let (neg, s1) = sign (dropWhile isspace s) in s32 (to_long neg (fst (digits 10 0 s1))))"

text \<open>
  The two calls of \<open>strtok\<close>: the first token before a slash with the text after it, and then all that is left, if anything.
\<close>

definition strtok_slash :: "string \<Rightarrow> (string \<times> string) option" where
  "strtok_slash s =
     (let t = dropWhile ((=) (CHR ''/'')) s
      in if t = [] then None else Some (takeWhile ((\<noteq>) (CHR ''/'')) t, drop 1 (dropWhile ((\<noteq>) (CHR ''/'')) t)))"

definition strtok_rest :: "string \<Rightarrow> string option" where
  "strtok_rest s = (if s = [] then None else Some s)"

section \<open>Addresses\<close>

definition MAKE_IP_ADDR :: "u8 \<Rightarrow> u8 \<Rightarrow> u8 \<Rightarrow> u8 \<Rightarrow> u32" where
  "MAKE_IP_ADDR a b c d = push_bit 24 (ucast a) OR push_bit 16 (ucast b) OR push_bit 8 (ucast c) OR ucast d"

text \<open>\<open>Inl\<close>: the error code.\<close>

definition str_to_ip_addr :: "string \<Rightarrow> int + u32" where
  "str_to_ip_addr src =
     (let dec = Conv 10 None False; dot = Lit (CHR ''.'')
      in case sscanf [dec, dot, dec, dot, dec, dot, dec] src of
           [a, b, c, d] \<Rightarrow> Inr (MAKE_IP_ADDR (of_int a) (of_int b) (of_int c) (of_int d))
         | _ \<Rightarrow> Inl (- EINVAL))"

definition str_to_eth_addr :: "string \<Rightarrow> int + u8 list" where
  "str_to_eth_addr src =
     (let hex = Conv 16 None False; colon = Lit (CHR '':'');
          vs = sscanf [hex, colon, hex, colon, hex, colon, hex, colon, hex, colon, hex] src
      in if length vs \<noteq> 6 then Inl (- EINVAL) else Inr (map of_int vs))"

definition pci_str_to_addr :: "string \<Rightarrow> int + pci_addr" where
  "pci_str_to_addr str =
     (case sscanf [Conv 16 (Some 4) False, Lit (CHR '':''), Conv 16 (Some 2) False, Lit (CHR '':''), Conv 16 (Some 2) False,
                   Lit (CHR ''.''), Conv 10 None True] str of
        [a, b, c, d] \<Rightarrow> Inr \<lparr>pci_domain = of_int a, pci_bus = of_int b, pci_slot = of_int c, pci_func = of_int d\<rparr>
      | _ \<Rightarrow> Inl (- EINVAL))"

text \<open>The conversion \<open>%d\<close> of a number that is not negative.\<close>

definition digit_char :: "nat \<Rightarrow> char" where
  "digit_char d = char_of (48 + d)"

fun dec_digits :: "nat \<Rightarrow> string" where
  "dec_digits n = (if n < 10 then [digit_char n] else dec_digits (n div 10) @ [digit_char (n mod 10)])"

declare dec_digits.simps [simp del]

definition IP_ADDR_STR_LEN :: nat where "IP_ADDR_STR_LEN = 16"

definition ip_addr_to_str :: "u32 \<Rightarrow> string" where
  "ip_addr_to_str a =
     take (IP_ADDR_STR_LEN - 1)
       (dec_digits (unat (drop_bit 24 a AND 0xff)) @ ''.'' @ dec_digits (unat (drop_bit 16 a AND 0xff)) @ ''.'' @
        dec_digits (unat (drop_bit 8 a AND 0xff)) @ ''.'' @ dec_digits (unat (a AND 0xff)))"

section \<open>Reading back what was printed\<close>

lemma digit_val_char: "d < 10 \<Longrightarrow> digit_val 10 (digit_char d) = Some d"
  by (simp add: digit_val_def digit_char_def char_code_def Let_def)

lemma digit_char_cases:
  assumes "d < 10"
  shows "\<not> isspace (digit_char d) \<and> digit_char d \<noteq> CHR ''-'' \<and> digit_char d \<noteq> CHR ''+''"
proof -
  have k: "char_code (digit_char d) = 48 + d" using assms by (simp add: digit_char_def char_code_def)
  moreover have "char_code (CHR ''-'') = 45" "char_code (CHR ''+'') = 43" by (simp_all add: char_code_def)
  ultimately show ?thesis by (auto simp: isspace_def)
qed

lemma dec_digits_nonempty: "dec_digits n \<noteq> []"
  by (subst dec_digits.simps) simp

lemma dec_digits_first: "\<exists>d<10. dec_digits n ! 0 = digit_char d"
proof (induction n rule: dec_digits.induct)
  case (1 n)
  show ?case
  proof (cases "n < 10")
    case True
    then show ?thesis by (subst dec_digits.simps) auto
  next
    case False
    then obtain d where "d < 10" "dec_digits (n div 10) ! 0 = digit_char d" using 1 by blast
    then show ?thesis using False dec_digits_nonempty [of "n div 10"] by (subst dec_digits.simps) (auto simp: nth_append)
  qed
qed

lemma digits_append:
  assumes "\<And>c. c \<in> set xs \<Longrightarrow> digit_val b c \<noteq> None"
  shows "digits b acc (xs @ ys) = digits b (fst (digits b acc xs)) ys"
  using assms
proof (induction xs arbitrary: acc)
  case (Cons c xs)
  then obtain d where "digit_val b c = Some d" by fastforce
  then show ?case using Cons by simp
qed simp

lemma dec_digits_digit: "c \<in> set (dec_digits n) \<Longrightarrow> digit_val 10 c \<noteq> None"
proof (induction n arbitrary: c rule: dec_digits.induct)
  case (1 n)
  then show ?case by (cases "n < 10") (auto simp: dec_digits.simps [of n] digit_val_char)
qed

lemma digits_dec: "digits 10 0 (dec_digits n) = (n, [])"
proof (induction n rule: dec_digits.induct)
  case (1 n)
  show ?case
  proof (cases "n < 10")
    case True
    then show ?thesis by (subst dec_digits.simps) (simp add: digit_val_char)
  next
    case False
    then have "digits 10 0 (dec_digits n) = digits 10 (fst (digits 10 0 (dec_digits (n div 10)))) [digit_char (n mod 10)]"
      by (subst dec_digits.simps) (simp add: digits_append dec_digits_digit)
    then show ?thesis using 1 False by (simp add: digit_val_char)
  qed
qed

definition stops :: "string \<Rightarrow> bool" where
  "stops r \<longleftrightarrow> r = [] \<or> digit_val 10 (r ! 0) = None"

lemma digits_stops: "stops r \<Longrightarrow> digits 10 v r = (v, r)"
  by (cases r) (auto simp: stops_def)

lemma scan_dec:
  assumes n: "n < 2 ^ 64" and r: "stops r"
  shows "scan_num 10 None False (dec_digits n @ r) = Some (int n, r)"
proof -
  obtain c cs where c: "dec_digits n = c # cs" using dec_digits_nonempty [of n] by (cases "dec_digits n") auto
  obtain d where d: "d < 10" "c = digit_char d" using dec_digits_first [of n] c by auto
  have "digits 10 0 (dec_digits n @ r) = (n, r)"
    using digits_append [of "dec_digits n" 10 0 r] dec_digits_digit digits_dec [of n] digits_stops [OF r] by simp
  then have "digits 10 0 (c # cs @ r) = (n, r)" using c by simp
  moreover have "dropWhile isspace (c # cs @ r) = c # cs @ r" using digit_char_cases [OF d(1)] d(2) by simp
  moreover have "sign (c # cs @ r) = (False, c # cs @ r)" using digit_char_cases [OF d(1)] d(2) by (simp add: sign_def)
  moreover have "digit_val 10 c = Some d" using d digit_val_char by simp
  ultimately show ?thesis using n c by (simp add: scan_num_def Let_def hex_prefix_def to_ulong_def del: digits.simps)
qed

lemma dec_digits_length: "n < 10 ^ k \<Longrightarrow> 0 < k \<Longrightarrow> length (dec_digits n) \<le> k"
proof (induction k arbitrary: n)
  case (Suc k)
  show ?case
  proof (cases "n < 10")
    case True
    then show ?thesis by (subst dec_digits.simps) simp
  next
    case False
    then have "0 < k" using Suc.prems by (cases k) auto
    moreover have "n div 10 < 10 ^ k" using Suc.prems by (simp add: less_mult_imp_div_less)
    ultimately have "length (dec_digits (n div 10)) \<le> k" using Suc.IH by blast
    then show ?thesis using False by (subst dec_digits.simps) simp
  qed
qed simp

lemma ip_addr_to_str_bytes:
  "ip_addr_to_str a =
     dec_digits (unat (drop_bit 24 a AND 0xff)) @ ''.'' @ dec_digits (unat (drop_bit 16 a AND 0xff)) @ ''.'' @
     dec_digits (unat (drop_bit 8 a AND 0xff)) @ ''.'' @ dec_digits (unat (a AND 0xff))"
proof -
  have "unat (w AND 0xff :: u32) < 10 ^ 3" for w
  proof -
    have "w AND 0xff \<le> (0xff :: u32)" by (rule word_and_le1)
    then have "unat (w AND 0xff) \<le> unat (0xff :: u32)" by (rule word_le_nat_alt [THEN iffD1])
    then show ?thesis by simp
  qed
  then have "length (dec_digits (unat (w AND 0xff :: u32))) \<le> 3" for w by (rule dec_digits_length) simp
  note l = this [of "drop_bit 24 a"] this [of "drop_bit 16 a"] this [of "drop_bit 8 a"] this [of a]
  show ?thesis unfolding ip_addr_to_str_def IP_ADDR_STR_LEN_def by (rule take_all) (use l in simp)
qed

lemma make_ip_ld32: "MAKE_IP_ADDR a b c d = ld32 ((\<lambda>_. 0)(0 := d, 1 := c, 2 := b, 3 := a)) 0"
  by (simp add: MAKE_IP_ADDR_def ld32_def ac_simps)

lemma byte_at_and: "of_nat (unat (drop_bit (8 * i) a AND 0xff)) = byte_at a i" for a :: u32
proof -
  have m: "(0xff :: u32) = mask 8" by (simp add: mask_eq_exp_minus_1)
  have "(ucast (drop_bit (8 * i) a AND 0xff) :: u8) = byte_at a i"
    unfolding m by (rule bit_word_eqI) (auto simp: bit_simps byte_at_def)
  then show ?thesis by simp
qed

lemma make_ip_bytes: "MAKE_IP_ADDR (byte_at a 3) (byte_at a 2) (byte_at a 1) (byte_at a 0) = a"
  by (rule word_eq_bytes) (auto simp: make_ip_ld32 byte_ld32 less_4_cases)

lemma read_ip_addr: "str_to_ip_addr (ip_addr_to_str a) = Inr a"
proof -
  have dot: "stops (CHR ''.'' # r)" for r by (simp add: stops_def digit_val_def char_code_def Let_def)
  have "unat w < 2 ^ 64" for w :: u32
  proof -
    have "unat w < 2 ^ LENGTH(32)" by (rule unsigned_less)
    then show ?thesis by simp
  qed
  note sc = scan_dec [OF this dot] scan_dec [OF this, of "[]", simplified]
  show ?thesis
    unfolding str_to_ip_addr_def Let_def ip_addr_to_str_bytes
    using make_ip_bytes [of a] byte_at_and [of 3 a] byte_at_and [of 2 a] byte_at_and [of 1 a] byte_at_and [of 0 a]
    by (simp add: sc stops_def)
qed

lemma dec_digits_no_slash: "CHR ''/'' \<notin> set (dec_digits n)"
  using dec_digits_digit [of "CHR ''/''" n] by (auto simp: digit_val_def char_code_def Let_def)

lemma ip_addr_no_slash: "CHR ''/'' \<notin> set (ip_addr_to_str a)"
  by (simp add: ip_addr_to_str_bytes dec_digits_no_slash)

lemma ip_addr_to_str_nonempty: "ip_addr_to_str a \<noteq> []"
  by (simp add: ip_addr_to_str_bytes)

lemma strtok_address:
  assumes "CHR ''/'' \<notin> set ip" "ip \<noteq> []"
  shows "strtok_slash (ip @ CHR ''/'' # r) = Some (ip, r)"
proof -
  obtain c cs where c: "ip = c # cs" "c \<noteq> CHR ''/''" using assms by (cases ip) auto
  have "takeWhile ((\<noteq>) (CHR ''/'')) (ip @ CHR ''/'' # r) = ip" "dropWhile ((\<noteq>) (CHR ''/'')) (ip @ CHR ''/'' # r) = CHR ''/'' # r"
    using assms(1) by (induction ip) auto
  then show ?thesis using c by (simp add: strtok_slash_def Let_def)
qed

lemma atoi_dec:
  assumes "n < 2 ^ 31"
  shows "atoi (dec_digits n) = int n"
proof -
  obtain c cs where c: "dec_digits n = c # cs" using dec_digits_nonempty [of n] by (cases "dec_digits n") auto
  obtain d where d: "d < 10" "c = digit_char d" using dec_digits_first [of n] c by auto
  have "dropWhile isspace (dec_digits n) = dec_digits n" "sign (dec_digits n) = (False, dec_digits n)"
    using digit_char_cases [OF d(1)] d(2) c by (simp_all add: sign_def)
  moreover have "s32 (int n) = int n" using assms by simp
  ultimately show ?thesis using assms by (simp add: atoi_def digits_dec to_long_def)
qed

section \<open>Property\<close>

text \<open>
  Reading back a printed network address gives the address: \<open>ip_addr_to_str\<close> never truncates, and
  \<open>str_to_ip_addr\<close> accepts what it prints.
\<close>

theorem ip_addr_text: "str_to_ip_addr (ip_addr_to_str a) = Inr a \<and> length (ip_addr_to_str a) < IP_ADDR_STR_LEN"
  using read_ip_addr [of a] by (simp add: ip_addr_to_str_def IP_ADDR_STR_LEN_def)

end
