(* ===== verification/Net_State.thy ===== *)
theory Net_State
  imports Timer Worker Page Chksum
begin

text \<open>
  What the network code of a core works on: memory with its pools, the timer wheel, the packet buffers, the transmit queues,
  the spin locks of \<open>inc/ix/lock.h\<close> and the run lists of \<open>dp/core/cpu.c\<close>; with the buffer operations of \<open>inc/ix/mbuf.h\<close>.
\<close>

section \<open>Code that may fault or not return\<close>

text \<open>\<open>None\<close>: the code does not return; otherwise a fault or a result.\<close>

definition bindR :: "'a res option \<Rightarrow> ('a \<Rightarrow> 'b res option) \<Rightarrow> 'b res option" where
  "bindR r f = Option.bind r (\<lambda>v. case v of Inl e \<Rightarrow> Some (Inl e) | Inr x \<Rightarrow> f x)"

lemma bindR_simps [simp]:
  "bindR None f = None" "bindR (Some (Inl e)) f = Some (Inl e)" "bindR (Some (Inr x)) f = f x"
  by (simp_all add: bindR_def)

lemma bindR_eq_Inr: "bindR r f = Some (Inr y) \<longleftrightarrow> (\<exists>x. r = Some (Inr x) \<and> f x = Some (Inr y))"
  by (cases r) (auto simp: bindR_def split: sum.splits)

section \<open>State\<close>

text \<open>The nodes of a run list are private to \<open>cpu.c\<close>: a list of functions and arguments, the next one to run first.\<close>

record cpu_runlist =
  rl_lock :: bool
  rl_runners :: "(u64 \<times> u64) list"

text \<open>
  What does not change while the code runs: the configuration, the operating system, the number of this core and of all cores and
  devices, and where the linker put the ARP table and the functions whose addresses are stored.
\<close>

record net_env =
  ne_cfg :: cfg_parameters
  ne_os :: os
  ne_cpu_id :: u32
  ne_cpu_count :: u32
  ne_eth_dev_count :: int
  ne_arp_tbl :: addr
  ne_arp_timer_handler :: u64
  ne_send_pending_pkt :: u64
  ne_mbuf_default_done :: u64
  ne_udp_mbuf_done :: u64

text \<open>
  The memory of \<open>ns_tw\<close> holds the objects of the pools; the content of packet buffers is in \<open>ns_store\<close>; \<open>ns_mm\<close> has the reference
  counts of pages.
\<close>

record net_state =
  ns_tw :: timerwheel
  ns_mm :: mm
  ns_store :: mstore
  ns_mbufs :: pool
  ns_responses :: pool
  ns_arp_entries :: pool
  ns_pending :: pool
  ns_txqs :: "eth_tx_queue list"
  ns_arp_lock :: bool
  ns_pending_lock :: bool
  ns_send_lock :: bool
  ns_runlists :: "u32 \<Rightarrow> cpu_runlist option"

abbreviation ns_heap :: "net_state \<Rightarrow> heap" where
  "ns_heap s \<equiv> tw_mem (ns_tw s)"

definition set_heap :: "heap \<Rightarrow> net_state \<Rightarrow> net_state" where
  "set_heap h s = s\<lparr>ns_tw := (ns_tw s)\<lparr>tw_mem := h\<rparr>\<rparr>"

section \<open>Spin locks\<close>

text \<open>A lock that is held makes \<open>spin_lock\<close> wait; nothing but another core can end the wait.\<close>

definition spin_lock_init :: bool where
  "spin_lock_init = False"

definition spin_lock :: "bool \<Rightarrow> bool res option" where
  "spin_lock locked = (if locked then None else Some (Inr True))"

definition spin_try_lock :: "bool \<Rightarrow> bool \<times> bool" where
  "spin_try_lock locked = (\<not> locked, True)"

definition spin_unlock :: "bool \<Rightarrow> bool" where
  "spin_unlock locked = False"

lemmas spin_defs = spin_lock_init_def spin_lock_def spin_try_lock_def spin_unlock_def

section \<open>Running functions on other cores\<close>

text \<open>The run list of a core that was never started is reached through a null offset.\<close>

definition cpu_run_on_one :: "net_env \<Rightarrow> bool \<Rightarrow> u64 \<Rightarrow> u64 \<Rightarrow> u32 \<Rightarrow> net_state \<Rightarrow> (int \<times> net_state) res option" where
  "cpu_run_on_one env malloc_ok func data cpu s =
     (if cpu \<ge> ne_cpu_count env then Some (Inr (- EINVAL, s))
      else if \<not> malloc_ok then Some (Inr (- ENOMEM, s))
      else case ns_runlists s cpu of
             None \<Rightarrow> Some (Inl Null_deref)
           | Some rlist \<Rightarrow>
               bindR (spin_lock (rl_lock rlist)) (\<lambda>l.
               let rlist1 = rlist\<lparr>rl_lock := spin_unlock l, rl_runners := (func, data) # rl_runners rlist\<rparr>
               in Some (Inr (0, s\<lparr>ns_runlists := (ns_runlists s)(cpu := Some rlist1)\<rparr>))))"

primrec run_runners :: "(u64 \<Rightarrow> u64 \<Rightarrow> net_state \<Rightarrow> net_state res option) \<Rightarrow> (u64 \<times> u64) list \<Rightarrow> net_state \<Rightarrow> net_state res option" where
  "run_runners call [] s = Some (Inr s)"
| "run_runners call (r # rs) s = bindR (call (fst r) (snd r) s) (run_runners call rs)"

definition cpu_do_bookkeeping ::
  "net_env \<Rightarrow> (u64 \<Rightarrow> u64 \<Rightarrow> net_state \<Rightarrow> net_state res option) \<Rightarrow> net_state \<Rightarrow> net_state res option" where
  "cpu_do_bookkeeping env call s =
     (case ns_runlists s (ne_cpu_id env) of
        None \<Rightarrow> Some (Inl Null_deref)
      | Some rlist \<Rightarrow>
          if rl_runners rlist = [] then Some (Inr s)
          else bindR (spin_lock (rl_lock rlist)) (\<lambda>l.
               let rlist1 = rlist\<lparr>rl_lock := spin_unlock l, rl_runners := []\<rparr>
               in run_runners call (rl_runners rlist) (s\<lparr>ns_runlists := (ns_runlists s)(ne_cpu_id env := Some rlist1)\<rparr>)))"

section \<open>Packet buffers\<close>

text \<open>
  An element of the pool keeps the link of the free list in its first word, the field \<open>len\<close> of the buffer; the second word, the
  field \<open>next\<close>, is cleared.
\<close>

definition mbuf_alloc :: "net_env \<Rightarrow> heap \<Rightarrow> pool \<Rightarrow> mstore \<Rightarrow> (addr \<times> pool \<times> mstore) res" where
  "mbuf_alloc env h p ms =
     bindE (pool_alloc h p) (\<lambda>(m, p1).
     if m = NULL then Inr (NULL, p1, ms)
     else Inr (m, p1, ms(m := (ms m)\<lparr>mb_len := h m HDR_NEXT, mb_next := NULL, mb_done := ne_mbuf_default_done env\<rparr>)))"

definition mbuf_alloc_local :: "net_env \<Rightarrow> net_state \<Rightarrow> (addr \<times> net_state) res" where
  "mbuf_alloc_local env s =
     bindE (mbuf_alloc env (ns_heap s) (ns_mbufs s) (ns_store s)) (\<lambda>(m, p, ms).
     Inr (m, s\<lparr>ns_mbufs := p, ns_store := ms\<rparr>))"

definition mbuf_free :: "addr \<Rightarrow> net_state \<Rightarrow> net_state res" where
  "mbuf_free m s = bindE (pool_free (ns_heap s) (ns_mbufs s) m) (\<lambda>(h, p). Inr (set_heap h (s\<lparr>ns_mbufs := p\<rparr>)))"

definition mbuf_default_done :: "addr \<Rightarrow> net_state \<Rightarrow> net_state res" where
  "mbuf_default_done m s = mbuf_free m s"

definition mbuf_get_data_machaddr :: "addr \<Rightarrow> net_state \<Rightarrow> u64 res" where
  "mbuf_get_data_machaddr m s = page_machaddr (mbuf_addr m 0) (ns_mm s)"

text \<open>Changing the data of a buffer, and the other fields.\<close>

definition upd_mbuf :: "addr \<Rightarrow> (mbuf \<Rightarrow> mbuf) \<Rightarrow> net_state \<Rightarrow> net_state" where
  "upd_mbuf m f s = s\<lparr>ns_store := (ns_store s)(m := f (ns_store s m))\<rparr>"

definition upd_data :: "addr \<Rightarrow> (bytes \<Rightarrow> bytes) \<Rightarrow> net_state \<Rightarrow> net_state" where
  "upd_data m f s = upd_mbuf m (\<lambda>b. b\<lparr>mb_data := f (mb_data b)\<rparr>) s"

section \<open>Scatter-gather vectors\<close>

definition ld64 :: "bytes \<Rightarrow> nat \<Rightarrow> u64" where
  "ld64 d off = ucast (ld32 d off) OR push_bit 32 (ucast (ld32 d (off + 4)))"

definition st64 :: "bytes \<Rightarrow> nat \<Rightarrow> u64 \<Rightarrow> bytes" where
  "st64 d off v = st32 (st32 d off (ucast v)) (off + 4) (ucast (drop_bit 32 v))"

record mbuf_iov =
  iov_base :: addr
  iov_maddr :: u64
  iov_len :: u64

definition ld_iov :: "bytes \<Rightarrow> nat \<Rightarrow> mbuf_iov" where
  "ld_iov d off = \<lparr>iov_base = ld64 d off, iov_maddr = ld64 d (off + 8), iov_len = ld64 d (off + 16)\<rparr>"

definition st_iov :: "bytes \<Rightarrow> nat \<Rightarrow> mbuf_iov \<Rightarrow> bytes" where
  "st_iov d off v = st64 (st64 (st64 d off (iov_base v)) (off + 8) (iov_maddr v)) (off + 16) (iov_len v)"

definition mbuf_iov_create :: "addr \<Rightarrow> u64 \<Rightarrow> mm \<Rightarrow> (mbuf_iov \<times> mm) res" where
  "mbuf_iov_create base n s =
     (let k = min n (of_int PGSIZE_2MB - PGOFF_2MB base)
      in bindE (page_get base s) (\<lambda>(m, s1). Inr (\<lparr>iov_base = base, iov_maddr = m, iov_len = k\<rparr>, s1)))"

definition mbuf_iov_free :: "os \<Rightarrow> mbuf_iov \<Rightarrow> mm \<Rightarrow> mm res" where
  "mbuf_iov_free os v s = page_put os (iov_base v) s"

end
