(* ===== verification/Hash.thy ===== *)
theory Hash
  imports Prelude
begin

text \<open>
  The hash functions of \<open>inc/ix/hash.h\<close>.  The table of network addresses is indexed with the CRC-32C instruction of the
  processor, written out here bit by bit; the subset of CityHash is 64-bit arithmetic.
\<close>

section \<open>CRC-32C\<close>

text \<open>
  \<open>crc32q\<close>: the low half of the accumulator is added to the operand, and the 64 bits, least significant first, are divided by
  the reflected Castagnoli polynomial.
\<close>

definition CRC32C_POLY :: u64 where
  "CRC32C_POLY = 0x82F63B78"

definition crc32_step :: "u64 \<Rightarrow> u64" where
  "crc32_step x = (if bit x 0 then drop_bit 1 x XOR CRC32C_POLY else drop_bit 1 x)"

primrec crc32_steps :: "nat \<Rightarrow> u64 \<Rightarrow> u64" where
  "crc32_steps 0 x = x"
| "crc32_steps (Suc n) x = crc32_steps n (crc32_step x)"

definition mm_crc32_u64 :: "u64 \<Rightarrow> u64 \<Rightarrow> u64" where
  "mm_crc32_u64 crc val = crc32_steps 64 (take_bit 32 crc XOR val)"

definition hash_crc32c_one :: "u32 \<Rightarrow> u64 \<Rightarrow> u32" where
  "hash_crc32c_one seed val = ucast (mm_crc32_u64 (ucast seed) val)"

definition hash_crc32c_two :: "u32 \<Rightarrow> u64 \<Rightarrow> u64 \<Rightarrow> u32" where
  "hash_crc32c_two seed a b =
     (let seed1 = ucast (mm_crc32_u64 (ucast seed) a) :: u32 in ucast (mm_crc32_u64 (ucast seed1) b))"

section \<open>CityHash\<close>

definition HASH_CITY_K2 :: u64 where
  "HASH_CITY_K2 = 0x9ae16a3b2f90404f"

definition hash_city_len16 :: "u64 \<Rightarrow> u64 \<Rightarrow> u64 \<Rightarrow> u64" where
  "hash_city_len16 u v mul =
     (let a = (u XOR v) * mul;
          a1 = a XOR drop_bit 47 a;
          b = (v XOR a1) * mul;
          b1 = b XOR drop_bit 47 b
      in b1 * mul)"

definition hash_city_rotate :: "u64 \<Rightarrow> nat \<Rightarrow> u64" where
  "hash_city_rotate val shift = drop_bit shift val OR push_bit (64 - shift) val"

definition hash_city_one :: "u64 \<Rightarrow> u64" where
  "hash_city_one val =
     (let mul = HASH_CITY_K2 + 16;
          a = val + HASH_CITY_K2;
          b = val;
          c = hash_city_rotate b 37 * mul + a;
          d = (hash_city_rotate a 25 + b) * mul
      in hash_city_len16 c d mul)"

definition hash_city_two :: "u64 \<Rightarrow> u64 \<Rightarrow> u64" where
  "hash_city_two val_a val_b =
     (let mul = HASH_CITY_K2 + 32;
          a = val_a + HASH_CITY_K2;
          b = val_b;
          c = hash_city_rotate b 37 * mul + a;
          d = (hash_city_rotate a 25 + b) * mul
      in hash_city_len16 c d mul)"

section \<open>Linearity\<close>

text \<open>The checksum is linear over the field of two elements: each bit of the input flips a fixed set of bits of the result.\<close>

lemma crc32_step_xor: "crc32_step (x XOR y) = crc32_step x XOR crc32_step y"
  by (rule bit_word_eqI) (auto simp: crc32_step_def bit_simps)

lemma crc32_steps_xor: "crc32_steps n (x XOR y) = crc32_steps n x XOR crc32_steps n y"
  by (induction n arbitrary: x y) (simp_all add: crc32_step_xor)

lemma ucast_xor: "(ucast (x XOR y :: u64) :: u32) = ucast x XOR ucast y"
  by (rule bit_word_eqI) (auto simp: bit_simps)

lemma hash_crc32c_one_xor: "hash_crc32c_one seed (a XOR b) = hash_crc32c_one seed a XOR ucast (crc32_steps 64 b)"
  by (simp add: hash_crc32c_one_def mm_crc32_u64_def crc32_steps_xor ucast_xor flip: xor.assoc)

end
