(* ===== verification/Arp.thy ===== *)
theory Arp
  imports Net_State Hash Pool_Setup
begin

text \<open>
  The address resolution protocol of \<open>dp/net/arp.c\<close>: a hash table of entries in memory, each with a timer and the packets that
  wait for the answer; requests, replies and their handling.
\<close>

section \<open>Data\<close>

text \<open>Hardware addresses are lists of six bytes.\<close>

definition ETH_ADDR_LEN :: nat where "ETH_ADDR_LEN = 6"
definition ETH_ADDR_GROUP :: u8 where "ETH_ADDR_GROUP = 0x01"
definition ETH_ADDR_BROADCAST :: "u8 list" where "ETH_ADDR_BROADCAST = [0xFF, 0xFF, 0xFF, 0xFF, 0xFF, 0xFF]"

definition ld_mac :: "bytes \<Rightarrow> nat \<Rightarrow> u8 list" where
  "ld_mac d off = map d [off..<off + 6]"

definition st_mac :: "bytes \<Rightarrow> nat \<Rightarrow> u8 list \<Rightarrow> bytes" where
  "st_mac d off mac = (\<lambda>x. if off \<le> x \<and> x < off + 6 then mac ! (x - off) else d x)"

definition eth_addr_is_multicast :: "u8 list \<Rightarrow> bool" where
  "eth_addr_is_multicast mac \<longleftrightarrow> mac ! 0 AND ETH_ADDR_GROUP \<noteq> 0"

definition eth_addr_is_zero :: "u8 list \<Rightarrow> bool" where
  "eth_addr_is_zero mac \<longleftrightarrow> list_all (\<lambda>i. mac ! i = 0) [0..<ETH_ADDR_LEN]"

definition ETHTYPE_ARP :: u16 where "ETHTYPE_ARP = 0x0806"
definition ARP_HTYPE_ETHER :: u16 where "ARP_HTYPE_ETHER = 1"
definition ARP_OP_REQUEST :: u16 where "ARP_OP_REQUEST = 1"
definition ARP_OP_REPLY :: u16 where "ARP_OP_REPLY = 2"

abbreviation ARP_HDR_LEN :: nat where "ARP_HDR_LEN \<equiv> 8"
abbreviation ARP_ETHIP_LEN :: nat where "ARP_ETHIP_LEN \<equiv> 20"
definition ARP_PKT_SIZE :: u64 where "ARP_PKT_SIZE = of_nat (ETH_HDR_LEN + ARP_HDR_LEN + ARP_ETHIP_LEN)"

definition ARP_FLAG_RESOLVING :: u64 where "ARP_FLAG_RESOLVING = 0x1"
definition ARP_FLAG_VALID :: u64 where "ARP_FLAG_VALID = 0x2"
definition ARP_FLAG_STATIC :: u64 where "ARP_FLAG_STATIC = 0x4"

definition ARP_REFRESH_TIMEOUT :: u64 where "ARP_REFRESH_TIMEOUT = 10 * ONE_SECOND"
definition ARP_RESOLVE_TIMEOUT :: u64 where "ARP_RESOLVE_TIMEOUT = 1 * ONE_SECOND"
definition ARP_RETRY_TIMEOUT :: u64 where "ARP_RETRY_TIMEOUT = 1 * ONE_SECOND"
definition ARP_MAX_ATTEMPTS :: u8 where "ARP_MAX_ATTEMPTS = 3"
definition ARP_MAX_ENTRIES :: nat where "ARP_MAX_ENTRIES = 65536"
definition ARP_HASH_SEED :: u32 where "ARP_HASH_SEED = 0xa36bdcbe"
definition MAX_PENDING_PKTS :: int where "MAX_PENDING_PKTS = 1024"
definition ENOENT :: int where "ENOENT = 2"

lemmas arp_consts = ETH_ADDR_LEN_def ETH_ADDR_GROUP_def ETHTYPE_ARP_def ARP_HTYPE_ETHER_def ARP_OP_REQUEST_def ARP_OP_REPLY_def
  ARP_PKT_SIZE_def ARP_FLAG_RESOLVING_def ARP_FLAG_VALID_def ARP_FLAG_STATIC_def ONE_SECOND_def ARP_REFRESH_TIMEOUT_def
  ARP_RESOLVE_TIMEOUT_def ARP_RETRY_TIMEOUT_def ARP_MAX_ATTEMPTS_def ARP_MAX_ENTRIES_def ARP_HASH_SEED_def

text \<open>
  Fields of \<open>struct arp_entry\<close>: the bytes of the hardware address are words of their own; \<open>timer\<close>, \<open>link\<close> and \<open>pending_pkts\<close>
  are used through their addresses.  Fields of \<open>struct pending_pkt\<close>, whose \<open>link\<close> comes first.
\<close>

abbreviation ARP_ADDR :: nat where "ARP_ADDR \<equiv> 0"
abbreviation ARP_MAC :: nat where "ARP_MAC \<equiv> 4"
abbreviation ARP_FLAGS :: nat where "ARP_FLAGS \<equiv> 10"
abbreviation ARP_RETRIES :: nat where "ARP_RETRIES \<equiv> 11"
definition ARP_TIMER :: addr where "ARP_TIMER = 16"
definition ARP_LINK :: addr where "ARP_LINK = 56"
definition ARP_PENDING :: addr where "ARP_PENDING = 72"

abbreviation PP_DST_ADDR :: nat where "PP_DST_ADDR \<equiv> 16"
abbreviation PP_FG :: nat where "PP_FG \<equiv> 24"
abbreviation PP_MBUF :: nat where "PP_MBUF \<equiv> 32"
abbreviation PP_LEN :: nat where "PP_LEN \<equiv> 40"
abbreviation PP_CPU :: nat where "PP_CPU \<equiv> 44"
abbreviation PP_DISPATCHED :: nat where "PP_DISPATCHED \<equiv> 48"

abbreviation FG_DEV_IDX :: nat where "FG_DEV_IDX \<equiv> 20"

definition entry_mac :: "heap \<Rightarrow> addr \<Rightarrow> u8 list" where
  "entry_mac h e = map (\<lambda>i. ucast (h e (ARP_MAC + i))) [0..<6]"

definition set_entry_mac :: "heap \<Rightarrow> addr \<Rightarrow> u8 list \<Rightarrow> heap" where
  "set_entry_mac h e mac = h(e := (\<lambda>off. if ARP_MAC \<le> off \<and> off < ARP_MAC + 6 then ucast (mac ! (off - ARP_MAC)) else h e off))"

section \<open>The table\<close>

definition arp_ip_to_idx :: "u32 \<Rightarrow> nat" where
  "arp_ip_to_idx a = unat (hash_crc32c_one ARP_HASH_SEED (ucast a) AND of_nat (ARP_MAX_ENTRIES - 1))"

definition arp_bucket :: "net_env \<Rightarrow> u32 \<Rightarrow> addr" where
  "arp_bucket env a = ne_arp_tbl env + of_nat (8 * arp_ip_to_idx a)"

partial_function (option) arp_search :: "heap \<Rightarrow> u32 \<Rightarrow> addr \<Rightarrow> addr res option" where
  "arp_search h a pos =
     (if pos = NULL then Some (Inr NULL)
      else if ucast (h (pos - ARP_LINK) ARP_ADDR) = a then Some (Inr (pos - ARP_LINK))
      else arp_search h a (h pos NODE_NEXT))"

definition arp_lookup_raw :: "heap \<Rightarrow> addr \<Rightarrow> u32 \<Rightarrow> addr res option" where
  "arp_lookup_raw h b a = arp_search h a (h b NODE_NEXT)"

text \<open>A new entry, linked into its bucket; \<open>pending_pkts\<close> keeps what the memory holds.\<close>

definition arp_new_entry :: "net_env \<Rightarrow> u32 \<Rightarrow> u64 \<Rightarrow> u64 \<Rightarrow> addr \<Rightarrow> net_state \<Rightarrow> net_state" where
  "arp_new_entry env a flags handler e s =
     (let s1 = set_heap (hwrite (hwrite (hwrite (ns_heap s) e ARP_ADDR (ucast a)) e ARP_FLAGS flags) e ARP_RETRIES 0) s;
          s2 = s1\<lparr>ns_tw := timer_init_entry (e + ARP_TIMER) handler (ns_tw s1)\<rparr>
      in set_heap (hlist_add_head (arp_bucket env a) (e + ARP_LINK) (ns_heap s2)) s2)"

text \<open>When the pool is exhausted the lock is not released.\<close>

definition arp_lookup :: "net_env \<Rightarrow> u32 \<Rightarrow> bool \<Rightarrow> net_state \<Rightarrow> (addr \<times> net_state) res option" where
  "arp_lookup env a create_okay s =
     bindR (arp_lookup_raw (ns_heap s) (arp_bucket env a) a) (\<lambda>e.
     if e \<noteq> NULL then Some (Inr (e, s))
     else if \<not> create_okay then Some (Inr (NULL, s))
     else bindR (spin_lock (ns_arp_lock s)) (\<lambda>l.
          let s1 = s\<lparr>ns_arp_lock := l\<rparr>
          in bindR (arp_lookup_raw (ns_heap s1) (arp_bucket env a) a) (\<lambda>e.
             if e \<noteq> NULL then Some (Inr (e, s1\<lparr>ns_arp_lock := spin_unlock l\<rparr>))
             else bindR (Some (pool_alloc (ns_heap s1) (ns_arp_entries s1))) (\<lambda>(e, p).
                  let s2 = s1\<lparr>ns_arp_entries := p\<rparr>
                  in if e = NULL then Some (Inr (NULL, s2))
                     else Some (Inr (e, (arp_new_entry env a 0 (ne_arp_timer_handler env) e s2)\<lparr>ns_arp_lock := spin_unlock l\<rparr>))))))"

section \<open>Packets\<close>

text \<open>\<open>eth_send_one\<close> on a transmit queue of this core.\<close>

definition send_one_on :: "nat \<Rightarrow> addr \<Rightarrow> u64 \<Rightarrow> net_state \<Rightarrow> (int \<times> net_state) res" where
  "send_one_on i pkt n s =
     (if i \<ge> length (ns_txqs s) then Inl Out_of_bounds
      else bindE (eth_send_one (ns_txqs s ! i) (ns_store s) pkt n) (\<lambda>(ret, txq, ms).
           Inr (ret, s\<lparr>ns_txqs := (ns_txqs s)[i := txq], ns_store := ms\<rparr>)))"

text \<open>The headers of an ARP packet: Ethernet at 0, ARP at 14, the addresses at 22.\<close>

definition arp_fill :: "cfg_parameters \<Rightarrow> u16 \<Rightarrow> u32 \<Rightarrow> u8 list \<Rightarrow> bytes \<Rightarrow> bytes" where
  "arp_fill cfg op target_ip target_mac d =
     (let d1 = st_mac d 0 target_mac;
          d2 = st_mac d1 6 (cfg_mac cfg);
          d3 = st16 d2 12 (hton16 ETHTYPE_ARP);
          d4 = st16 d3 14 (hton16 ARP_HTYPE_ETHER);
          d5 = st16 d4 16 (hton16 ETHTYPE_IP);
          d6 = d5(18 := 6, 19 := 4);
          d7 = st16 d6 20 (hton16 op);
          d8 = st_mac d7 22 (cfg_mac cfg);
          d9 = st32 d8 28 (hton32 (host_addr cfg));
          d10 = st_mac d9 32 target_mac
      in st32 d10 38 (hton32 target_ip))"

definition arp_send_pkt :: "net_env \<Rightarrow> u16 \<Rightarrow> u32 \<Rightarrow> u8 list \<Rightarrow> net_state \<Rightarrow> (int \<times> net_state) res" where
  "arp_send_pkt env op target_ip target_mac s =
     bindE (mbuf_alloc_local env s) (\<lambda>(pkt, s1).
     if pkt = NULL then Inr (- ENOMEM, s1)
     else let s2 = upd_mbuf pkt (\<lambda>b. b\<lparr>mb_ol_flags := 0\<rparr>) (upd_data pkt (arp_fill (ne_cfg env) op target_ip target_mac) s1)
          in bindE (send_one_on 0 pkt ARP_PKT_SIZE s2) (\<lambda>(ret, s3).
             if ret \<noteq> 0 then bindE (mbuf_free pkt s3) (\<lambda>s4. Inr (- EIO, s4)) else Inr (0, s3)))"

text \<open>The reply is written over the request: the ARP header is at position \<open>hdr\<close>, the addresses at \<open>ethip\<close>.\<close>

definition arp_reply :: "cfg_parameters \<Rightarrow> nat \<Rightarrow> nat \<Rightarrow> bytes \<Rightarrow> bytes" where
  "arp_reply cfg hdr ethip d =
     (let d1 = st_mac d 0 (ld_mac d 6);
          d2 = st16 d1 (hdr + 6) (hton16 ARP_OP_REPLY);
          d3 = st_mac d2 (ethip + 10) (ld_mac d2 ethip);
          d4 = st32 d3 (ethip + 16) (ld32 d3 (ethip + 6));
          d5 = st_mac d4 6 (cfg_mac cfg);
          d6 = st32 d5 (ethip + 6) (hton32 (host_addr cfg))
      in st_mac d6 ethip (cfg_mac cfg))"

definition arp_send_response_reuse :: "net_env \<Rightarrow> addr \<Rightarrow> nat \<Rightarrow> nat \<Rightarrow> net_state \<Rightarrow> (int \<times> net_state) res" where
  "arp_send_response_reuse env pkt arphdr ethip s =
     (let s1 = upd_mbuf pkt (\<lambda>b. b\<lparr>mb_ol_flags := 0\<rparr>) (upd_data pkt (arp_reply (ne_cfg env) arphdr ethip) s)
      in bindE (send_one_on 0 pkt ARP_PKT_SIZE s1) (\<lambda>(ret, s2).
         if ret \<noteq> 0 then bindE (mbuf_free pkt s2) (\<lambda>s3. Inr (- EIO, s3)) else Inr (0, s2)))"

section \<open>Learning addresses\<close>

text \<open>The loop of \<open>arp_update_mac\<close> over the waiting packets; \<open>malloc_ok\<close> says for which of them the run list gets memory.\<close>

partial_function (option) dispatch_pending ::
  "net_env \<Rightarrow> (addr \<Rightarrow> bool) \<Rightarrow> addr \<Rightarrow> net_state \<Rightarrow> net_state res option" where
  "dispatch_pending env malloc_ok n s =
     (if n = NULL then Some (Inr s)
      else if ns_heap s n PP_DISPATCHED = 0
      then case cpu_run_on_one env (malloc_ok n) (ne_send_pending_pkt env) n (ucast (ns_heap s n PP_CPU)) s of
             None \<Rightarrow> None
           | Some (Inl f) \<Rightarrow> Some (Inl f)
           | Some (Inr (ret, s1)) \<Rightarrow>
               dispatch_pending env malloc_ok (ns_heap s1 n NODE_NEXT) (set_heap (hwrite (ns_heap s1) n PP_DISPATCHED 1) s1)
      else dispatch_pending env malloc_ok (ns_heap s n NODE_NEXT) s)"

definition arp_update_mac ::
  "net_env \<Rightarrow> (addr \<Rightarrow> bool) \<Rightarrow> u64 \<Rightarrow> u32 \<Rightarrow> u32 \<Rightarrow> u8 list \<Rightarrow> bool \<Rightarrow> net_state \<Rightarrow> (int \<times> net_state) res option" where
  "arp_update_mac env malloc_ok tsc cyc a mac create_okay s =
     bindR (arp_lookup env a create_okay s) (\<lambda>(e, s1).
     if e = NULL then Some (Inr (- ENOMEM, s1))
     else if ns_heap s1 e ARP_FLAGS AND ARP_FLAG_STATIC \<noteq> 0 then Some (Inr (0, s1))
     else let h = hwrite (hwrite (set_entry_mac (ns_heap s1) e mac) e ARP_FLAGS ARP_FLAG_VALID) e ARP_RETRIES 0;
              s2 = set_heap h s1
          in bindR (Some (timer_mod tsc cyc (e + ARP_TIMER) NULL ARP_REFRESH_TIMEOUT (ns_tw s2))) (\<lambda>tw.
             bindR (spin_lock (ns_pending_lock s2)) (\<lambda>l.
             let s3 = s2\<lparr>ns_tw := tw, ns_pending_lock := l\<rparr>
             in bindR (dispatch_pending env malloc_ok (ns_heap s3 (e + ARP_PENDING) NODE_NEXT) s3) (\<lambda>s4.
                Some (Inr (0, s4\<lparr>ns_pending_lock := spin_unlock (ns_pending_lock s4)\<rparr>))))))"

text \<open>
  The checks of \<open>arp_input\<close> on a packet whose ARP header is at position \<open>hdr\<close>, in the order of the source.
\<close>

definition arp_valid :: "mbuf \<Rightarrow> nat \<Rightarrow> bool" where
  "arp_valid pkt hdr \<longleftrightarrow>
     (let d = mb_data pkt; ethip = hdr + ARP_HDR_LEN in
        mbuf_enough_space pkt hdr ARP_HDR_LEN \<and>
        ntoh16 (ld16 d hdr) = ARP_HTYPE_ETHER \<and> ntoh16 (ld16 d (hdr + 2)) = ETHTYPE_IP \<and> d (hdr + 4) = 6 \<and> d (hdr + 5) = 4 \<and>
        mbuf_enough_space pkt ethip ARP_ETHIP_LEN \<and> \<not> eth_addr_is_multicast (ld_mac d ethip))"

definition arp_input ::
  "net_env \<Rightarrow> (addr \<Rightarrow> bool) \<Rightarrow> u64 \<Rightarrow> u32 \<Rightarrow> addr \<Rightarrow> nat \<Rightarrow> net_state \<Rightarrow> net_state res option" where
  "arp_input env malloc_ok tsc cyc pkt hdr s =
     (let b = ns_store s pkt; d = mb_data b; ethip = hdr + ARP_HDR_LEN
      in if \<not> arp_valid b hdr then Some (mbuf_free pkt s)
         else let op = ntoh16 (ld16 d (hdr + 6));
                  sender_ip = ntoh32 (ld32 d (ethip + 6));
                  target_ip = ntoh32 (ld32 d (ethip + 16));
                  am_target = (host_addr (ne_cfg env) = target_ip)
              in bindR (arp_update_mac env malloc_ok tsc cyc sender_ip (ld_mac d ethip) am_target s) (\<lambda>(ret, s1).
                 if am_target \<and> op = ARP_OP_REQUEST
                 then bindR (Some (arp_send_response_reuse env pkt hdr ethip s1)) (\<lambda>(ret, s2). Some (Inr s2))
                 else Some (mbuf_free pkt s1)))"

section \<open>Resolving addresses\<close>

text \<open>The result and, when it is zero, the hardware address.\<close>

definition arp_lookup_mac :: "net_env \<Rightarrow> u64 \<Rightarrow> u32 \<Rightarrow> u32 \<Rightarrow> net_state \<Rightarrow> (int \<times> u8 list \<times> net_state) res option" where
  "arp_lookup_mac env tsc cyc a s =
     bindR (arp_lookup env a True s) (\<lambda>(e, s1).
     if e = NULL then Some (Inr (- ENOENT, [], s1))
     else if ns_heap s1 e ARP_FLAGS AND ARP_FLAG_VALID = 0
     then bindR (spin_lock (ns_send_lock s1)) (\<lambda>l.
          let s2 = s1\<lparr>ns_send_lock := l\<rparr>
          in bindR (if timer_pending (e + ARP_TIMER) (ns_tw s2) then Some (Inr s2)
                    else let s3 = set_heap (hwrite (ns_heap s2) e ARP_FLAGS (ns_heap s2 e ARP_FLAGS OR ARP_FLAG_RESOLVING)) s2
                         in bindR (Some (arp_send_pkt env ARP_OP_REQUEST a ETH_ADDR_BROADCAST s3)) (\<lambda>(ret, s4).
                            bindR (Some (timer_add tsc cyc (e + ARP_TIMER) NULL ARP_RESOLVE_TIMEOUT (ns_tw s4))) (\<lambda>tw.
                            Some (Inr (s4\<lparr>ns_tw := tw\<rparr>))))) (\<lambda>s5.
             Some (Inr (- EAGAIN, [], s5\<lparr>ns_send_lock := spin_unlock (ns_send_lock s5)\<rparr>))))
     else Some (Inr (0, entry_mac (ns_heap s1) e, s1)))"

text \<open>The flags of an entry that exists already are not changed.\<close>

definition arp_insert :: "net_env \<Rightarrow> u32 \<Rightarrow> u8 list \<Rightarrow> net_state \<Rightarrow> (int \<times> net_state) res option" where
  "arp_insert env a mac s =
     bindR (arp_lookup env a False s) (\<lambda>(e, s1).
     bindR (if e \<noteq> NULL then Some (Inr (e, s1))
            else bindR (Some (pool_alloc (ns_heap s1) (ns_arp_entries s1))) (\<lambda>(e, p).
                 let s2 = s1\<lparr>ns_arp_entries := p\<rparr>
                 in Some (Inr (e, if e = NULL then s2 else arp_new_entry env a (ARP_FLAG_VALID OR ARP_FLAG_STATIC) NULL e s2)))) (\<lambda>(e, s2).
     if e = NULL then Some (Inr (- ENOMEM, s2))
     else bindR (Some (timer_del (e + ARP_TIMER) (ns_tw s2))) (\<lambda>tw.
          let s3 = s2\<lparr>ns_tw := tw\<rparr> in Some (Inr (0, set_heap (set_entry_mac (ns_heap s3) e mac) s3)))))"

text \<open>The packets that wait for an address that did not answer are dropped.\<close>

partial_function (option) drop_pending :: "addr \<Rightarrow> net_state \<Rightarrow> net_state res option" where
  "drop_pending n s =
     (if n = NULL then Some (Inr s)
      else case bindE (mbuf_free (ns_heap s n PP_MBUF) s) (\<lambda>s1.
             bindE (hlist_del n (ns_heap s1)) (\<lambda>h.
             bindE (pool_free h (ns_pending s1) n) (\<lambda>(h2, p). Inr (set_heap h2 (s1\<lparr>ns_pending := p\<rparr>))))) of
             Inl f \<Rightarrow> Some (Inl f)
           | Inr s2 \<Rightarrow> drop_pending (ns_heap s n NODE_NEXT) s2)"

definition arp_timer_handler :: "net_env \<Rightarrow> u64 \<Rightarrow> u32 \<Rightarrow> addr \<Rightarrow> addr \<Rightarrow> net_state \<Rightarrow> net_state res option" where
  "arp_timer_handler env tsc cyc t cur_fg s =
     (let e = t - ARP_TIMER
      in bindR (Some (assertE (cur_fg = NULL))) (\<lambda>_.
         let r = (ucast (ns_heap s e ARP_RETRIES) :: u8) + 1;
             s1 = set_heap (hwrite (ns_heap s) e ARP_RETRIES (ucast r)) s
         in if r \<ge> ARP_MAX_ATTEMPTS
            then bindR (spin_lock (ns_pending_lock s1)) (\<lambda>l.
                 bindR (drop_pending (ns_heap s1 (e + ARP_PENDING) NODE_NEXT) (s1\<lparr>ns_pending_lock := l\<rparr>)) (\<lambda>s2.
                 let s3 = s2\<lparr>ns_pending_lock := spin_unlock (ns_pending_lock s2)\<rparr>
                 in Some (bindE (hlist_del (e + ARP_LINK) (ns_heap s3)) (\<lambda>h.
                    bindE (pool_free h (ns_arp_entries s3) e) (\<lambda>(h2, p). Inr (set_heap h2 (s3\<lparr>ns_arp_entries := p\<rparr>)))))))
            else let s2 = set_heap (hwrite (ns_heap s1) e ARP_FLAGS (ns_heap s1 e ARP_FLAGS OR ARP_FLAG_RESOLVING)) s1;
                     target = (if ns_heap s2 e ARP_FLAGS AND ARP_FLAG_VALID \<noteq> 0 then entry_mac (ns_heap s2) e else ETH_ADDR_BROADCAST)
                 in bindR (Some (arp_send_pkt env ARP_OP_REQUEST (ucast (ns_heap s2 e ARP_ADDR)) target s2)) (\<lambda>(ret, s3).
                    bindR (Some (timer_add tsc cyc t NULL ARP_RETRY_TIMEOUT (ns_tw s3))) (\<lambda>tw. Some (Inr (s3\<lparr>ns_tw := tw\<rparr>))))))"

definition arp_add_pending_pkt :: "net_env \<Rightarrow> u32 \<Rightarrow> addr \<Rightarrow> addr \<Rightarrow> u64 \<Rightarrow> net_state \<Rightarrow> (int \<times> net_state) res option" where
  "arp_add_pending_pkt env dst_addr fg mbuf n s =
     bindR (arp_lookup env dst_addr False s) (\<lambda>(e, s1).
     if e = NULL then Some (Inr (- ENOENT, s1))
     else bindR (spin_lock (ns_pending_lock s1)) (\<lambda>l.
          let s2 = s1\<lparr>ns_pending_lock := l\<rparr>
          in bindR (Some (pool_alloc (ns_heap s2) (ns_pending s2))) (\<lambda>(pkt, p).
             let s3 = s2\<lparr>ns_pending := p\<rparr>
             in if pkt = NULL then Some (Inr (- ENOMEM, s3\<lparr>ns_pending_lock := spin_unlock l\<rparr>))
                else let h = hwrite (hwrite (hwrite (hwrite (hwrite (hwrite (ns_heap s3) pkt PP_DST_ADDR (ucast dst_addr))
                           pkt PP_FG fg) pkt PP_MBUF mbuf) pkt PP_LEN (ucast (ucast n :: u32))) pkt PP_CPU (ucast (ne_cpu_id env)))
                           pkt PP_DISPATCHED 0;
                         h2 = hlist_add_head (e + ARP_PENDING) pkt h
                     in Some (Inr (0, (set_heap h2 s3)\<lparr>ns_pending_lock := spin_unlock l\<rparr>)))))"

text \<open>The pools, whose elements may straddle pages.\<close>

abbreviation sizeof_pending_pkt :: u64 where "sizeof_pending_pkt \<equiv> 56"
abbreviation sizeof_arp_entry :: u64 where "sizeof_arp_entry \<equiv> 80"

definition arp_init :: "os \<Rightarrow> nat \<Rightarrow> addr \<Rightarrow> addr \<Rightarrow> pool \<Rightarrow> pool \<Rightarrow> mm \<Rightarrow> (int \<times> pool \<times> pool \<times> mm) res" where
  "arp_init os node pds ads pp ap s =
     bindE (mempool_create_datastore os node (snd pp) MAX_PENDING_PKTS sizeof_pending_pkt 0 MEMPOOL_DEFAULT_CHUNKSIZE ''pending_pkt'' s) (\<lambda>(ret, d, s1).
     if ret \<noteq> 0 then Inr (ret, (fst pp, d), ap, s1)
     else bindE (mempool_create (fst pp) pds d MEMPOOL_SANITY_GLOBAL 0) (\<lambda>(ret, m).
     if ret \<noteq> 0 then Inr (ret, (m, d), ap, s1)
     else bindE (mempool_create_datastore os node (snd ap) (int ARP_MAX_ENTRIES) sizeof_arp_entry 0 MEMPOOL_DEFAULT_CHUNKSIZE ''arp'' s1) (\<lambda>(ret, d2, s2).
     if ret \<noteq> 0 then Inr (ret, (m, d), (fst ap, d2), s2)
     else bindE (mempool_create (fst ap) ads d2 MEMPOOL_SANITY_GLOBAL 0) (\<lambda>(ret, m2). Inr (ret, (m, d), (m2, d2), s2)))))"

end
