(* ===== verification/Cfg.thy ===== *)
theory Cfg
  imports Addr_Text Arp
begin

text \<open>
  The configuration (\<open>dp/core/cfg.c\<close>): the parsers of the parameters, in the order of \<open>config_tbl\<close>, the options of the command
  line, and \<open>cfg_init\<close>.  The library that reads the configuration file is a parameter.
\<close>

section \<open>The configuration library\<close>

text \<open>
  The calls of libconfig the parsers make, on an opened file; \<open>None\<close> is a null pointer.  A number is zero when the setting has
  another type.
\<close>

record 's config_api =
  config_lookup :: "string \<Rightarrow> 's option"
  config_lookup_string :: "string \<Rightarrow> string option"
  config_setting_length :: "'s \<Rightarrow> int"
  config_setting_get_elem :: "'s \<Rightarrow> nat \<Rightarrow> 's option"
  config_setting_get_int :: "'s \<Rightarrow> int"
  config_setting_get_int_elem :: "'s \<Rightarrow> int \<Rightarrow> int"
  config_setting_get_string :: "'s \<Rightarrow> string option"
  config_setting_get_string_elem :: "'s \<Rightarrow> nat \<Rightarrow> string option"
  config_setting_lookup_string :: "'s \<Rightarrow> string \<Rightarrow> string option"

text \<open>The parameters and the network state the static ARP entries go to.\<close>

record cfg_state =
  cs_cfg :: cfg_parameters
  cs_net :: net_state

type_synonym parse = "cfg_state \<Rightarrow> (int \<times> cfg_state) res option"

definition E2BIG :: int where "E2BIG = 7"

definition upd_cfg :: "(cfg_parameters \<Rightarrow> cfg_parameters) \<Rightarrow> cfg_state \<Rightarrow> cfg_state" where
  "upd_cfg f s = s\<lparr>cs_cfg := f (cs_cfg s)\<rparr>"

section \<open>Parsers\<close>

text \<open>A null element of the list is passed to the library, which does not accept it.\<close>

primrec parse_arp_loop :: "'s config_api \<Rightarrow> net_env \<Rightarrow> 's \<Rightarrow> nat list \<Rightarrow> parse" where
  "parse_arp_loop api env arp [] s = Some (Inr (0, s))"
| "parse_arp_loop api env arp (i # is) s =
     (case config_setting_get_elem api arp i of
        None \<Rightarrow> Some (Inl Null_deref)
      | Some entry \<Rightarrow>
        (case (config_setting_lookup_string api entry ''ip'', config_setting_lookup_string api entry ''mac'') of
           (Some ip, Some mac) \<Rightarrow>
             (case str_to_ip_addr ip of
                Inl _ \<Rightarrow> Some (Inr (- EINVAL, s))
              | Inr ipaddr \<Rightarrow>
                (case str_to_eth_addr mac of
                   Inl _ \<Rightarrow> Some (Inr (- EINVAL, s))
                 | Inr macaddr \<Rightarrow>
                     bindR (arp_insert env ipaddr macaddr (cs_net s)) (\<lambda>(ret, ns).
                     let s1 = s\<lparr>cs_net := ns\<rparr>
                     in if ret \<noteq> 0 then Some (Inr (ret, s1)) else parse_arp_loop api env arp is s1)))
         | _ \<Rightarrow> Some (Inr (- EINVAL, s))))"

definition parse_arp :: "'s config_api \<Rightarrow> net_env \<Rightarrow> parse" where
  "parse_arp api env s =
     (case config_lookup api ''arp'' of
        None \<Rightarrow> Some (Inr (0, s))
      | Some arp \<Rightarrow> parse_arp_loop api env arp [0..<nat (config_setting_length api arp)] s)"

definition parse_gateway_addr :: "'s config_api \<Rightarrow> parse" where
  "parse_gateway_addr api s =
     (case config_lookup_string api ''gateway_addr'' of
        None \<Rightarrow> Some (Inr (- EINVAL, s))
      | Some parsed \<Rightarrow>
        (case str_to_ip_addr parsed of
           Inl _ \<Rightarrow> Some (Inr (- EINVAL, s))
         | Inr a \<Rightarrow> Some (Inr (0, upd_cfg (\<lambda>c. c\<lparr>gateway_addr := a\<rparr>) s))))"

definition add_port :: "int \<Rightarrow> cfg_parameters \<Rightarrow> (int \<times> cfg_parameters) res" where
  "add_port port c =
     (if port \<le> 0 \<or> port > 65534 then Inr (- EINVAL, c)
      else if num_ports c < 0 \<or> nat (num_ports c) \<ge> length (cfg_ports c) then Inl Out_of_bounds
      else Inr (0, c\<lparr>cfg_ports := (cfg_ports c)[nat (num_ports c) := of_int port], num_ports := num_ports c + 1\<rparr>))"

lemma add_port_num: "add_port p c = Inr (0, c') \<Longrightarrow> num_ports c' = num_ports c + 1"
  by (auto simp: add_port_def EINVAL_def split: if_splits)

function parse_port_loop :: "'s config_api \<Rightarrow> 's \<Rightarrow> cfg_parameters \<Rightarrow> (int \<times> cfg_parameters) res" where
  "parse_port_loop api ports c =
     (if num_ports c < int CFG_MAX_PORTS \<and> num_ports c < config_setting_length api ports
      then case add_port (config_setting_get_int_elem api ports (num_ports c)) c of
             Inl f \<Rightarrow> Inl f
           | Inr (ret, c1) \<Rightarrow> if ret \<noteq> 0 then Inr (ret, c1) else parse_port_loop api ports c1
      else Inr (0, c))"
  by pat_completeness auto
termination
  by (relation "measure (\<lambda>(api, ports, c). nat (int CFG_MAX_PORTS - num_ports c))") (auto dest: add_port_num)

declare parse_port_loop.simps [simp del]

definition lift_cfg :: "(int \<times> cfg_parameters) res \<Rightarrow> cfg_state \<Rightarrow> (int \<times> cfg_state) res option" where
  "lift_cfg r s = Some (bindE r (\<lambda>(ret, c). Inr (ret, s\<lparr>cs_cfg := c\<rparr>)))"

text \<open>A single port is stored at the current count; a list starts the count again.\<close>

definition parse_port :: "'s config_api \<Rightarrow> parse" where
  "parse_port api s =
     (case config_lookup api ''port'' of
        None \<Rightarrow> Some (Inr (- EINVAL, s))
      | Some ports \<Rightarrow>
          let port = config_setting_get_int api ports
          in if port \<noteq> 0 then lift_cfg (add_port port (cs_cfg s)) s
             else lift_cfg (parse_port_loop api ports ((cs_cfg s)\<lparr>num_ports := 0\<rparr>)) s)"

text \<open>The product is computed in double precision and stored as a \<open>float\<close>.\<close>

definition add_slo :: "int \<Rightarrow> cfg_parameters \<Rightarrow> (int \<times> cfg_parameters) res" where
  "add_slo slo c =
     (if num_slos c < 0 \<or> nat (num_slos c) \<ge> length (cfg_slos c) then Inl Out_of_bounds
      else Inr (0, c\<lparr>cfg_slos := (cfg_slos c)[nat (num_slos c) := rnd 24 (rnd 53 (5 / 2 * of_int slo))], num_slos := num_slos c + 1\<rparr>))"

lemma add_slo_num: "add_slo p c = Inr (r, c') \<Longrightarrow> r = 0 \<and> num_slos c' = num_slos c + 1"
  by (auto simp: add_slo_def split: if_splits)

function parse_slo_loop :: "'s config_api \<Rightarrow> 's \<Rightarrow> cfg_parameters \<Rightarrow> (int \<times> cfg_parameters) res" where
  "parse_slo_loop api slos c =
     (if num_slos c < int CFG_MAX_PORTS \<and> num_slos c < config_setting_length api slos
      then case add_slo (config_setting_get_int_elem api slos (num_slos c)) c of
             Inl f \<Rightarrow> Inl f
           | Inr (ret, c1) \<Rightarrow> if ret \<noteq> 0 then Inr (ret, c1) else parse_slo_loop api slos c1
      else Inr (0, c))"
  by pat_completeness auto
termination
  by (relation "measure (\<lambda>(api, slos, c). nat (int CFG_MAX_PORTS - num_slos c))") (auto dest: add_slo_num)

declare parse_slo_loop.simps [simp del]

definition parse_slo :: "'s config_api \<Rightarrow> parse" where
  "parse_slo api s =
     (case config_lookup api ''slo'' of
        None \<Rightarrow> Some (Inr (- EINVAL, s))
      | Some slos \<Rightarrow>
          let slo = config_setting_get_int api slos
          in if slo \<noteq> 0 then lift_cfg (add_slo slo (cs_cfg s)) s
             else lift_cfg (parse_slo_loop api slos ((cs_cfg s)\<lparr>num_slos := 0\<rparr>)) s)"

text \<open>Shifting a 32-bit word by its width or more, or by a negative amount, is undefined.\<close>

definition netmask :: "int \<Rightarrow> u32 res" where
  "netmask bits = (if bits < 0 \<or> bits \<ge> 32 then Inl Bad_shift else Inr (NOT (drop_bit (nat bits) 0xFFFFFFFF)))"

definition parse_host_addr :: "'s config_api \<Rightarrow> parse" where
  "parse_host_addr api s =
     (case config_lookup_string api ''host_addr'' of
        None \<Rightarrow> Some (Inr (- EINVAL, s))
      | Some parsed \<Rightarrow>
        (case strtok_slash parsed of
           None \<Rightarrow> Some (Inr (- EINVAL, s))
         | Some (ip, left) \<Rightarrow>
           (case str_to_ip_addr ip of
              Inl _ \<Rightarrow> Some (Inr (- EINVAL, s))
            | Inr a \<Rightarrow>
              let s1 = upd_cfg (\<lambda>c. c\<lparr>host_addr := a\<rparr>) s
              in case strtok_rest left of
                   None \<Rightarrow> Some (Inr (- EINVAL, s1))
                 | Some bitmask \<Rightarrow>
                   if atoi bitmask = 0 then Some (Inr (- EINVAL, s1))
                   else bindR (Some (netmask (atoi bitmask))) (\<lambda>m.
                        Some (Inr (0, upd_cfg (\<lambda>c. c\<lparr>cfg_mask := m, broadcast_addr := host_addr c OR NOT m\<rparr>) s1))))))"

definition add_dev :: "string option \<Rightarrow> cfg_parameters \<Rightarrow> (int \<times> cfg_parameters) res" where
  "add_dev dev c =
     (case dev of
        None \<Rightarrow> Inl Null_deref
      | Some str \<Rightarrow>
        (case pci_str_to_addr str of
           Inl e \<Rightarrow> Inr (e, c)
         | Inr a \<Rightarrow>
           if a \<in> set (take (nat (num_ethdev c)) (cfg_ethdev c)) then Inr (0, c)
           else if num_ethdev c \<ge> int CFG_MAX_ETHDEV then Inr (- E2BIG, c)
           else if num_ethdev c < 0 \<or> nat (num_ethdev c) \<ge> length (cfg_ethdev c) then Inl Out_of_bounds
           else Inr (0, c\<lparr>cfg_ethdev := (cfg_ethdev c)[nat (num_ethdev c) := a], num_ethdev := num_ethdev c + 1\<rparr>)))"

primrec parse_devices_loop :: "'s config_api \<Rightarrow> 's \<Rightarrow> nat list \<Rightarrow> cfg_parameters \<Rightarrow> (int \<times> cfg_parameters) res" where
  "parse_devices_loop api devs [] c = Inr (0, c)"
| "parse_devices_loop api devs (i # is) c =
     bindE (add_dev (config_setting_get_string_elem api devs i) c) (\<lambda>(ret, c1).
     if ret \<noteq> 0 then Inr (ret, c1) else parse_devices_loop api devs is c1)"

definition parse_devices :: "'s config_api \<Rightarrow> parse" where
  "parse_devices api s =
     (case config_lookup api ''devices'' of
        None \<Rightarrow> Some (Inr (- EINVAL, s))
      | Some devs \<Rightarrow>
        (case config_setting_get_string api devs of
           Some dev \<Rightarrow> lift_cfg (add_dev (Some dev) (cs_cfg s)) s
         | None \<Rightarrow> lift_cfg (parse_devices_loop api devs [0..<nat (config_setting_length api devs)] (cs_cfg s)) s))"

definition add_cpu :: "int \<Rightarrow> int \<Rightarrow> cfg_parameters \<Rightarrow> (int \<times> cfg_parameters) res" where
  "add_cpu cpu_count cpu c =
     (if cpu < 0 \<or> cpu \<ge> cpu_count then Inr (- EINVAL, c)
      else if of_int cpu \<in> set (take (nat (num_cpus c)) (cfg_cpu c)) then Inr (0, c)
      else if num_cpus c \<ge> int CFG_MAX_CPU then Inr (- E2BIG, c)
      else if num_cpus c < 0 \<or> nat (num_cpus c) \<ge> length (cfg_cpu c) then Inl Out_of_bounds
      else Inr (0, c\<lparr>cfg_cpu := (cfg_cpu c)[nat (num_cpus c) := of_int cpu], num_cpus := num_cpus c + 1\<rparr>))"

primrec parse_cpu_loop :: "'s config_api \<Rightarrow> int \<Rightarrow> 's \<Rightarrow> nat list \<Rightarrow> cfg_parameters \<Rightarrow> (int \<times> cfg_parameters) res" where
  "parse_cpu_loop api cpu_count cpus [] c = Inr (0, c)"
| "parse_cpu_loop api cpu_count cpus (i # is) c =
     bindE (add_cpu cpu_count (config_setting_get_int_elem api cpus (int i)) c) (\<lambda>(ret, c1).
     if ret \<noteq> 0 then Inr (ret, c1) else parse_cpu_loop api cpu_count cpus is c1)"

definition parse_cpu :: "'s config_api \<Rightarrow> int \<Rightarrow> parse" where
  "parse_cpu api cpu_count s =
     (case config_lookup api ''cpu'' of
        None \<Rightarrow> Some (Inr (- EINVAL, s))
      | Some cpus \<Rightarrow>
          if config_setting_get_elem api cpus 0 = None
          then lift_cfg (add_cpu cpu_count (config_setting_get_int api cpus) (cs_cfg s)) s
          else lift_cfg (parse_cpu_loop api cpu_count cpus [0..<nat (config_setting_length api cpus)] (cs_cfg s)) s)"

definition parse_loader_path :: "'s config_api \<Rightarrow> parse" where
  "parse_loader_path api s =
     (case config_lookup_string api ''loader_path'' of
        None \<Rightarrow> Some (Inr (- EINVAL, s))
      | Some parsed \<Rightarrow> Some (Inr (0, upd_cfg (\<lambda>c. c\<lparr>loader_path := take 255 parsed\<rparr>) s)))"

section \<open>Reading the configuration\<close>

definition config_tbl :: "'s config_api \<Rightarrow> net_env \<Rightarrow> int \<Rightarrow> (string \<times> parse) list" where
  "config_tbl api env cpu_count =
     [(''host_addr'', parse_host_addr api), (''port'', parse_port api), (''slo'', parse_slo api),
      (''gateway_addr'', parse_gateway_addr api), (''arp'', parse_arp api env), (''devices'', parse_devices api),
      (''cpu'', parse_cpu api cpu_count), (''loader_path'', parse_loader_path api)]"

primrec run_parsers :: "(string \<times> parse) list \<Rightarrow> parse" where
  "run_parsers [] s = Some (Inr (0, s))"
| "run_parsers (p # ps) s = bindR (snd p s) (\<lambda>(ret, s1). if ret \<noteq> 0 then Some (Inr (ret, s1)) else run_parsers ps s1)"

text \<open>\<open>files\<close>: the settings of a file, \<open>None\<close> when it cannot be read.\<close>

definition parse_conf_file :: "(string \<Rightarrow> 's config_api option) \<Rightarrow> net_env \<Rightarrow> int \<Rightarrow> string \<Rightarrow> parse" where
  "parse_conf_file files env cpu_count path s =
     (case files path of None \<Rightarrow> Some (Inr (- EINVAL, s)) | Some api \<Rightarrow> run_parsers (config_tbl api env cpu_count) s)"

text \<open>
  The options as \<open>getopt_long\<close> delivers them, with their arguments.  The state is the name of the configuration file and the log
  level.
\<close>

fun parse_arguments :: "(char \<times> string) list \<Rightarrow> string \<times> int \<Rightarrow> int \<times> string \<times> int" where
  "parse_arguments [] st = (0, st)"
| "parse_arguments ((c, optarg) # opts) (config_file, max_loglevel) =
     (if c = CHR ''c'' then parse_arguments opts (take 255 optarg, max_loglevel)
      else if c = CHR ''l''
      then if atoi optarg < 0 \<or> atoi optarg > 5 then (- EINVAL, config_file, max_loglevel)
           else parse_arguments opts (config_file, atoi optarg)
      else (- EINVAL, config_file, max_loglevel))"

definition DEFAULT_CONF_FILE :: string where
  "DEFAULT_CONF_FILE = ''./shinjuku.conf''"

definition net_cfg :: int where
  "net_cfg = 0"

definition cfg_init ::
  "(string \<Rightarrow> 's config_api option) \<Rightarrow> net_env \<Rightarrow> int \<Rightarrow> (char \<times> string) list \<Rightarrow> int \<Rightarrow> cfg_state \<Rightarrow> (int \<times> int \<times> cfg_state) res option" where
  "cfg_init files env cpu_count opts max_loglevel s =
     (case parse_arguments opts (DEFAULT_CONF_FILE, max_loglevel) of (ret, config_file, level) \<Rightarrow>
        if ret \<noteq> 0 then Some (Inr (ret, level, s))
        else bindR (parse_conf_file files env cpu_count config_file s) (\<lambda>(ret, s1).
             if ret \<noteq> 0 then Some (Inr (ret, level, s1)) else Some (Inr (net_cfg, level, s1))))"

end
