(* ===== verification/Arp_Table.thy ===== *)
theory Arp_Table
  imports Arp
begin

text \<open>
  What the table of \<open>dp/net/arp.c\<close> promises: in memory that is laid out properly, the chains of entries implement a finite map
  from network to hardware addresses.  The configuration relies on it through the locale \<open>addr_table\<close>.
\<close>

section \<open>The interface\<close>

text \<open>
  \<open>holds s m n\<close>: in state \<open>s\<close> the table is the map \<open>m\<close> and there is room for \<open>n\<close> more entries; \<open>good\<close> values can be stored.
\<close>

locale addr_table =
  fixes holds :: "'s \<Rightarrow> ('k \<rightharpoonup> 'v) \<Rightarrow> nat \<Rightarrow> bool"
    and good :: "'v \<Rightarrow> bool"
    and insert_entry :: "'k \<Rightarrow> 'v \<Rightarrow> 's \<Rightarrow> (int \<times> 's) res option"
  assumes insert_new: "holds s m (Suc n) \<Longrightarrow> m k = None \<Longrightarrow> good v \<Longrightarrow>
      \<exists>s'. insert_entry k v s = Some (Inr (0, s')) \<and> holds s' (m(k \<mapsto> v)) n"
    and insert_full: "holds s m 0 \<Longrightarrow> m k = None \<Longrightarrow> \<exists>s'. insert_entry k v s = Some (Inr (- ENOMEM, s')) \<and> holds s' m 0"
begin

text \<open>Inserting a list of entries, as long as it goes well.\<close>

primrec insert_all :: "('k \<times> 'v) list \<Rightarrow> 's \<Rightarrow> (int \<times> 's) res option" where
  "insert_all [] s = Some (Inr (0, s))"
| "insert_all (kv # kvs) s =
     bindR (insert_entry (fst kv) (snd kv) s) (\<lambda>(ret, s1). if ret \<noteq> 0 then Some (Inr (ret, s1)) else insert_all kvs s1)"

lemma insert_all_ok:
  assumes "holds s m (length kvs + n)" "distinct (map fst kvs)" "\<And>k. k \<in> fst ` set kvs \<Longrightarrow> m k = None"
    and "\<And>v. v \<in> snd ` set kvs \<Longrightarrow> good v"
  shows "\<exists>s'. insert_all kvs s = Some (Inr (0, s')) \<and> holds s' (m ++ map_of kvs) n"
  using assms
proof (induction kvs arbitrary: s m)
  case (Cons kv kvs)
  obtain s1 where 1: "insert_entry (fst kv) (snd kv) s = Some (Inr (0, s1))" "holds s1 (m(fst kv \<mapsto> snd kv)) (length kvs + n)"
    using insert_new [of s m "length kvs + n" "fst kv" "snd kv"] Cons.prems by auto
  have "(m(fst kv \<mapsto> snd kv)) k = None" if "k \<in> fst ` set kvs" for k
    using that Cons.prems(2,3) by (metis distinct.simps(2) fun_upd_other image_set insertCI list.simps(9) list.set(2) image_insert)
  then obtain s2 where 2: "insert_all kvs s1 = Some (Inr (0, s2))" "holds s2 (m(fst kv \<mapsto> snd kv) ++ map_of kvs) n"
    using Cons.IH [OF 1(2)] Cons.prems(2,4) by (auto simp del: fun_upd_apply)
  have eq: "m(fst kv \<mapsto> snd kv) ++ map_of kvs = m ++ map_of (kv # kvs)"
    using Cons.prems(2) by (simp add: map_add_upd_left dom_map_of_conv_image_fst)
  show ?case using 1(1) 2(1) 2(2) [unfolded eq] by (simp del: map_of.simps)
qed simp

end

section \<open>The table in memory\<close>

definition entry_addr :: "heap \<Rightarrow> addr \<Rightarrow> u32" where
  "entry_addr h e = ucast (h e ARP_ADDR)"

definition bucket_at :: "net_env \<Rightarrow> nat \<Rightarrow> addr" where
  "bucket_at env i = ne_arp_tbl env + of_nat (8 * i)"

abbreviation entries :: "(nat \<Rightarrow> addr list) \<Rightarrow> addr set" where
  "entries B \<equiv> (\<Union>i<ARP_MAX_ENTRIES. set (B i))"

text \<open>
  The table occupies an array, the entries are elements of the pool: the places where list heads, entries, their timers, links and
  pending lists are used do not overlap.
\<close>

definition arp_layout :: "net_env \<Rightarrow> addr set \<Rightarrow> bool" where
  "arp_layout env U \<longleftrightarrow>
     (\<forall>i<ARP_MAX_ENTRIES. bucket_at env i \<noteq> NULL \<and> (\<forall>j<ARP_MAX_ENTRIES. bucket_at env i = bucket_at env j \<longrightarrow> i = j) \<and>
        (\<forall>x\<in>U. bucket_at env i \<noteq> x \<and> bucket_at env i \<noteq> x + ARP_TIMER \<and> bucket_at env i \<noteq> x + ARP_LINK \<and> bucket_at env i \<noteq> x + ARP_PENDING)) \<and>
     (\<forall>x\<in>U. x + ARP_TIMER \<noteq> NULL \<and> x + ARP_LINK \<noteq> NULL \<and>
        (\<forall>y\<in>U. x \<noteq> y + ARP_TIMER \<and> x \<noteq> y + ARP_LINK \<and> x \<noteq> y + ARP_PENDING \<and> x + ARP_TIMER \<noteq> y + ARP_LINK \<and>
           x + ARP_TIMER \<noteq> y + ARP_PENDING \<and> x + ARP_LINK \<noteq> y + ARP_PENDING))"

text \<open>The buckets: entry lists whose links form the chains, each entry in the bucket of its address, no address twice.\<close>

definition arp_rep :: "net_env \<Rightarrow> heap \<Rightarrow> (nat \<Rightarrow> addr list) \<Rightarrow> bool" where
  "arp_rep env h B \<longleftrightarrow>
     (\<forall>i<ARP_MAX_ENTRIES. hlist_rep h (bucket_at env i) (map (\<lambda>e. e + ARP_LINK) (B i)) \<and>
        (\<forall>e\<in>set (B i). arp_ip_to_idx (entry_addr h e) = i)) \<and> inj_on (entry_addr h) (entries B)"

definition arp_ok :: "net_env \<Rightarrow> net_state \<Rightarrow> (nat \<Rightarrow> addr list) \<Rightarrow> addr set \<Rightarrow> bool" where
  "arp_ok env s B F \<longleftrightarrow>
     mempool_ok (ns_heap s) (ns_arp_entries s) F (entries B) \<and> arp_layout env (F \<union> entries B) \<and> arp_rep env (ns_heap s) B"

text \<open>The entry of an address, and the map the table stands for: hardware address and flags.\<close>

definition entry_of :: "heap \<Rightarrow> (nat \<Rightarrow> addr list) \<Rightarrow> u32 \<Rightarrow> addr option" where
  "entry_of h B a = find (\<lambda>e. entry_addr h e = a) (B (arp_ip_to_idx a))"

definition arp_table :: "heap \<Rightarrow> (nat \<Rightarrow> addr list) \<Rightarrow> u32 \<rightharpoonup> u8 list \<times> u64" where
  "arp_table h B a = map_option (\<lambda>e. (entry_mac h e, h e ARP_FLAGS)) (entry_of h B a)"

subsection \<open>Looking up\<close>

lemma arp_idx_less: "arp_ip_to_idx a < ARP_MAX_ENTRIES"
proof -
  have "hash_crc32c_one ARP_HASH_SEED (ucast a) AND of_nat (ARP_MAX_ENTRIES - 1) \<le> of_nat (ARP_MAX_ENTRIES - 1)" by (rule word_and_le1)
  then have "arp_ip_to_idx a \<le> unat (of_nat (ARP_MAX_ENTRIES - 1) :: u32)"
    unfolding arp_ip_to_idx_def by (rule word_le_nat_alt [THEN iffD1])
  then show ?thesis by (simp add: ARP_MAX_ENTRIES_def)
qed

lemma arp_bucket_at: "arp_bucket env a = bucket_at env (arp_ip_to_idx a)"
  by (simp add: arp_bucket_def bucket_at_def)

lemma arp_search_hseg:
  assumes "hseg h p (map (\<lambda>e. e + ARP_LINK) es)"
  shows "arp_search h a (h p NODE_NEXT) = Some (Inr (case find (\<lambda>e. entry_addr h e = a) es of None \<Rightarrow> NULL | Some e \<Rightarrow> e))"
  using assms
proof (induction es arbitrary: p)
  case Nil
  then show ?case by (subst arp_search.simps) simp
next
  case (Cons e es)
  then show ?case by (subst arp_search.simps) (auto simp: entry_addr_def)
qed

lemma arp_lookup_raw_ok:
  assumes "arp_rep env h B"
  shows "arp_lookup_raw h (arp_bucket env a) a = Some (Inr (case entry_of h B a of None \<Rightarrow> NULL | Some e \<Rightarrow> e))"
proof -
  have "hseg h (arp_bucket env a) (map (\<lambda>e. e + ARP_LINK) (B (arp_ip_to_idx a)))"
    using assms arp_idx_less [of a] by (simp add: arp_rep_def arp_bucket_at hlist_rep_def)
  then show ?thesis unfolding arp_lookup_raw_def entry_of_def by (rule arp_search_hseg)
qed

lemma entry_of_Some: "entry_of h B a = Some e \<Longrightarrow> e \<in> set (B (arp_ip_to_idx a)) \<and> entry_addr h e = a"
  unfolding entry_of_def by (auto simp: find_Some_iff)

lemma entry_of_entries: "entry_of h B a = Some e \<Longrightarrow> e \<in> entries B"
  using entry_of_Some [of h B a e] arp_idx_less [of a] by auto

lemma entry_of_None:
  assumes "arp_rep env h B"
  shows "entry_of h B a = None \<longleftrightarrow> a \<notin> entry_addr h ` entries B"
proof -
  have "entry_of h B a = None \<longleftrightarrow> (\<forall>e\<in>set (B (arp_ip_to_idx a)). entry_addr h e \<noteq> a)" by (auto simp: entry_of_def find_None_iff)
  also have "\<dots> \<longleftrightarrow> a \<notin> entry_addr h ` entries B" using assms arp_idx_less [of a] by (auto simp: arp_rep_def)
  finally show ?thesis .
qed

lemma arp_ok_nonnull: "arp_ok env s B F \<Longrightarrow> e \<in> entries B \<Longrightarrow> e \<noteq> NULL"
  by (auto simp: arp_ok_def mempool_ok_def)

lemma arp_lookup_found:
  assumes "arp_ok env s B F" "entry_of (ns_heap s) B a = Some e"
  shows "arp_lookup env a create s = Some (Inr (e, s))"
  using assms arp_lookup_raw_ok [of env "ns_heap s" B a] arp_ok_nonnull [OF assms(1) entry_of_entries [OF assms(2)]]
  by (simp add: arp_lookup_def arp_ok_def)

lemma arp_lookup_absent:
  assumes "arp_ok env s B F" "entry_of (ns_heap s) B a = None"
  shows "arp_lookup env a False s = Some (Inr (NULL, s))"
  using assms arp_lookup_raw_ok [of env "ns_heap s" B a] by (simp add: arp_lookup_def arp_ok_def)

subsection \<open>Adding an entry\<close>

lemma layout_bucket:
  assumes "arp_layout env U" "x \<in> U" "i < ARP_MAX_ENTRIES"
  shows "bucket_at env i \<noteq> x" "bucket_at env i \<noteq> x + ARP_TIMER" "bucket_at env i \<noteq> x + ARP_LINK" "bucket_at env i \<noteq> x + ARP_PENDING"
  using assms by (simp_all add: arp_layout_def)

lemma layout_entry:
  assumes "arp_layout env U" "x \<in> U" "y \<in> U"
  shows "x \<noteq> y + ARP_TIMER" "x \<noteq> y + ARP_LINK" "x \<noteq> y + ARP_PENDING" "x + ARP_TIMER \<noteq> y + ARP_LINK" "x + ARP_TIMER \<noteq> y + ARP_PENDING"
    "x + ARP_LINK \<noteq> y + ARP_PENDING" "x + ARP_TIMER \<noteq> y" "x + ARP_LINK \<noteq> y" "x + ARP_LINK \<noteq> y + ARP_TIMER" "x + ARP_LINK \<noteq> NULL"
proof -
  note l = assms(1) [unfolded arp_layout_def, THEN conjunct2]
  note a = bspec [OF l assms(2)] and b = bspec [OF l assms(3)]
  note c = bspec [OF a [THEN conjunct2, THEN conjunct2] assms(3)] and d = bspec [OF b [THEN conjunct2, THEN conjunct2] assms(2)]
  show "x \<noteq> y + ARP_TIMER" "x \<noteq> y + ARP_LINK" "x \<noteq> y + ARP_PENDING" "x + ARP_TIMER \<noteq> y + ARP_LINK" "x + ARP_TIMER \<noteq> y + ARP_PENDING"
    "x + ARP_LINK \<noteq> y + ARP_PENDING" "x + ARP_LINK \<noteq> NULL"
    using a c by simp_all
  show "x + ARP_TIMER \<noteq> y" "x + ARP_LINK \<noteq> y" "x + ARP_LINK \<noteq> y + ARP_TIMER" using d by metis+
qed

lemma arp_layout_mono: "arp_layout env U \<Longrightarrow> V \<subseteq> U \<Longrightarrow> arp_layout env V"
  unfolding arp_layout_def by (meson subsetD)

text \<open>What \<open>arp_new_entry\<close> does to memory: it writes the entry and its timer, and links it into its bucket.\<close>

definition entry_written :: "u32 \<Rightarrow> u64 \<Rightarrow> u64 \<Rightarrow> addr \<Rightarrow> heap \<Rightarrow> heap" where
  "entry_written a flags handler e h =
     (let h1 = hwrite (hwrite (hwrite h e ARP_ADDR (ucast a)) e ARP_FLAGS flags) e ARP_RETRIES 0
      in hwrite (hwrite h1 (e + ARP_TIMER) NODE_PREV NULL) (e + ARP_TIMER) TIMER_HANDLER handler)"

lemma arp_new_entry_heap:
  "arp_new_entry env a flags handler e s =
     set_heap (hlist_add_head (arp_bucket env a) (e + ARP_LINK) (entry_written a flags handler e (ns_heap s))) s"
  by (simp add: arp_new_entry_def set_heap_def entry_written_def timer_init_entry_def Let_def)

lemma entry_written_other: "x \<noteq> e \<Longrightarrow> x \<noteq> e + ARP_TIMER \<Longrightarrow> entry_written a flags handler e h x = h x"
  by (simp add: entry_written_def Let_def)

lemma ucast_u32_u64: "ucast (ucast a :: u64) = a" for a :: u32
  by (rule bit_word_eqI) (auto simp: bit_simps)

lemma entry_written_entry:
  assumes "e + ARP_TIMER \<noteq> e"
  shows "entry_addr (entry_written a flags handler e h) e = a" "entry_written a flags handler e h e ARP_FLAGS = flags"
    "entry_mac (entry_written a flags handler e h) e = entry_mac h e"
    "entry_written a flags handler e h (e + ARP_TIMER) NODE_PREV = NULL"
  using assms by (auto simp: entry_written_def entry_addr_def entry_mac_def Let_def hwrite_def ucast_u32_u64)

lemma bucket_disjoint:
  assumes "arp_rep env h B" "i < ARP_MAX_ENTRIES" "j < ARP_MAX_ENTRIES" "i \<noteq> j"
  shows "set (B i) \<inter> set (B j) = {}"
  using assms unfolding arp_rep_def by (metis disjoint_iff)

text \<open>An element of the pool that can become the entry of a new address.\<close>

definition can_add :: "net_env \<Rightarrow> heap \<Rightarrow> (nat \<Rightarrow> addr list) \<Rightarrow> addr set \<Rightarrow> u32 \<Rightarrow> addr \<Rightarrow> bool" where
  "can_add env h B U a e \<longleftrightarrow>
     arp_rep env h B \<and> arp_layout env U \<and> entries B \<subseteq> U \<and> e \<in> U \<and> e \<notin> entries B \<and> a \<notin> entry_addr h ` entries B"

definition with_entry :: "(nat \<Rightarrow> addr list) \<Rightarrow> u32 \<Rightarrow> addr \<Rightarrow> nat \<Rightarrow> addr list" where
  "with_entry B a e = B(arp_ip_to_idx a := e # B (arp_ip_to_idx a))"

lemma can_add_member: "can_add env h B U a e \<Longrightarrow> i < ARP_MAX_ENTRIES \<Longrightarrow> x \<in> set (B i) \<Longrightarrow> x \<in> U"
  by (auto simp: can_add_def)

lemma old_chain:
  assumes c: "can_add env h B U a e" and i: "i < ARP_MAX_ENTRIES"
  shows "hlist_rep (entry_written a flags handler e h) (bucket_at env i) (map (\<lambda>e. e + ARP_LINK) (B i))"
proof -
  have l: "arp_layout env U" "e \<in> U" using c by (simp_all add: can_add_def)
  have "x \<noteq> e \<and> x \<noteq> e + ARP_TIMER" if x: "x \<in> set (bucket_at env i # map (\<lambda>e. e + ARP_LINK) (B i))" for x
  proof (cases "x = bucket_at env i")
    case True
    then show ?thesis using layout_bucket [OF l i] by simp
  next
    case False
    then obtain y where y: "y \<in> U" "x = y + ARP_LINK" using x can_add_member [OF c i] by auto
    then show ?thesis using layout_entry [OF l(1) y(1) l(2)] by simp
  qed
  then have "hlist_rep (entry_written a flags handler e h) (bucket_at env i) (map (\<lambda>e. e + ARP_LINK) (B i)) =
      hlist_rep h (bucket_at env i) (map (\<lambda>e. e + ARP_LINK) (B i))"
    by (intro hlist_rep_cong) (simp_all add: entry_written_other)
  then show ?thesis using c i by (simp add: arp_rep_def can_add_def)
qed

text \<open>The memory after adding the entry: nothing but its object, its timer, and links and list heads have changed.\<close>

lemma new_entry_frame:
  assumes c: "can_add env h B U a e"
    and x: "x \<noteq> e" "x \<noteq> e + ARP_TIMER" "x \<noteq> arp_bucket env a" "x \<noteq> e + ARP_LINK" "\<And>y. y \<in> set (B (arp_ip_to_idx a)) \<Longrightarrow> x \<noteq> y + ARP_LINK"
  shows "hlist_add_head (arp_bucket env a) (e + ARP_LINK) (entry_written a flags handler e h) x = h x"
proof -
  have l: "arp_layout env U" "e \<in> U" using c by (simp_all add: can_add_def)
  have "arp_bucket env a \<noteq> e + ARP_LINK" using layout_bucket [OF l arp_idx_less] by (simp add: arp_bucket_at)
  then have "hlist_add_head (arp_bucket env a) (e + ARP_LINK) (entry_written a flags handler e h) x = entry_written a flags handler e h x"
    using hlist_add_head_frame [OF old_chain [OF c arp_idx_less [of a], of flags handler], of x "e + ARP_LINK"] x(3-5)
    by (auto simp: arp_bucket_at)
  then show ?thesis using x(1,2) by (simp add: entry_written_other)
qed

lemma new_entry_object:
  assumes c: "can_add env h B U a e" and x: "x \<in> U"
  shows "hlist_add_head (arp_bucket env a) (e + ARP_LINK) (entry_written a flags handler e h) x = entry_written a flags handler e h x"
proof -
  have l: "arp_layout env U" "e \<in> U" using c by (simp_all add: can_add_def)
  have "arp_bucket env a \<noteq> e + ARP_LINK" "x \<noteq> arp_bucket env a" "x \<noteq> e + ARP_LINK"
    using layout_bucket [OF l arp_idx_less [of a]] layout_bucket [OF l(1) x arp_idx_less [of a]] layout_entry [OF l(1) x l(2)]
    by (auto simp: arp_bucket_at)
  moreover have "x \<noteq> y + ARP_LINK" if "y \<in> set (B (arp_ip_to_idx a))" for y
    using layout_entry [OF l(1) x can_add_member [OF c arp_idx_less that]] by simp
  ultimately show ?thesis
    using hlist_add_head_frame [OF old_chain [OF c arp_idx_less [of a], of flags handler], of x "e + ARP_LINK"]
    by (auto simp: arp_bucket_at)
qed

lemma entries_with: "entries (with_entry B a e) = insert e (entries B)"
  using arp_idx_less [of a] by (auto simp: with_entry_def split: if_splits)

lemma new_entry_addr:
  assumes c: "can_add env h B U a e" and x: "x \<in> insert e (entries B)"
  shows "entry_addr (hlist_add_head (arp_bucket env a) (e + ARP_LINK) (entry_written a flags handler e h)) x =
    (if x = e then a else entry_addr h x)"
proof -
  have l: "arp_layout env U" "e \<in> U" and u: "x \<in> U" using c x by (auto simp: can_add_def)
  then show ?thesis
    using new_entry_object [OF c u] entry_written_entry(1) [of e a flags handler h] layout_entry [OF l l(2)] layout_entry [OF l(1) u l(2)]
    by (auto simp: entry_addr_def entry_written_other)
qed

lemma link_inj: "x + ARP_LINK = y + ARP_LINK \<longleftrightarrow> x = y"
  by simp

lemma new_entry_rep:
  assumes c: "can_add env h B U a e"
  shows "arp_rep env (hlist_add_head (arp_bucket env a) (e + ARP_LINK) (entry_written a flags handler e h)) (with_entry B a e)"
    (is "arp_rep env ?h ?B")
proof -
  have l: "arp_layout env U" "e \<in> U" and r: "arp_rep env h B" using c by (simp_all add: can_add_def)
  have e: "e \<notin> entries B" "a \<notin> entry_addr h ` entries B" using c by (simp_all add: can_add_def)
  have chains: "hlist_rep ?h (bucket_at env i) (map (\<lambda>e. e + ARP_LINK) (?B i))" if i: "i < ARP_MAX_ENTRIES" for i
  proof (cases "i = arp_ip_to_idx a")
    case True
    have "e + ARP_LINK \<notin> set (bucket_at env i # map (\<lambda>e. e + ARP_LINK) (B i))"
      using layout_bucket [OF l i] e(1) i by auto
    then show ?thesis
      using hlist_add_head_rep [OF old_chain [OF c i], of "e + ARP_LINK"] layout_entry [OF l l(2)] True
      by (simp add: arp_bucket_at with_entry_def)
  next
    case False
    have "x \<noteq> e \<and> x \<noteq> e + ARP_TIMER \<and> x \<noteq> arp_bucket env a \<and> x \<noteq> e + ARP_LINK \<and> (\<forall>y\<in>set (B (arp_ip_to_idx a)). x \<noteq> y + ARP_LINK)"
      if x: "x \<in> set (bucket_at env i # map (\<lambda>e. e + ARP_LINK) (B i))" for x
    proof (cases "x = bucket_at env i")
      case True
      then show ?thesis
        using layout_bucket [OF l i] layout_bucket [OF l(1) can_add_member [OF c arp_idx_less] i] False i arp_idx_less [of a] l(1)
        by (auto simp: arp_bucket_at arp_layout_def)
    next
      case neq: False
      then obtain y where y: "y \<in> set (B i)" "x = y + ARP_LINK" using x by auto
      have "y \<in> U" "y \<noteq> e" using can_add_member [OF c i y(1)] e(1) y(1) i by auto
      moreover have "y \<notin> set (B (arp_ip_to_idx a))" using bucket_disjoint [OF r i arp_idx_less False] y(1) by blast
      ultimately show ?thesis
        using y(2) layout_entry [OF l(1) \<open>y \<in> U\<close> l(2)] layout_bucket [OF l(1) \<open>y \<in> U\<close> arp_idx_less [of a]] by (auto simp: arp_bucket_at)
    qed
    then have "?h x = h x" if "x \<in> set (bucket_at env i # map (\<lambda>e. e + ARP_LINK) (B i))" for x
      using new_entry_frame [OF c, of x] that by blast
    then have "hlist_rep ?h (bucket_at env i) (map (\<lambda>e. e + ARP_LINK) (B i)) = hlist_rep h (bucket_at env i) (map (\<lambda>e. e + ARP_LINK) (B i))"
      by (intro hlist_rep_cong) simp_all
    then show ?thesis using r i False by (simp add: arp_rep_def with_entry_def)
  qed
  have idx: "arp_ip_to_idx (entry_addr ?h x) = i" if "i < ARP_MAX_ENTRIES" "x \<in> set (?B i)" for i x
  proof -
    have "x \<in> insert e (entries B)" using that entries_with [of B a e] by blast
    then have "entry_addr ?h x = (if x = e then a else entry_addr h x)" by (rule new_entry_addr [OF c])
    then show ?thesis using that r e(1) arp_idx_less [of a] by (auto simp: with_entry_def arp_rep_def split: if_splits)
  qed
  have "inj_on (entry_addr ?h) (insert e (entries B))"
    using r e new_entry_addr [OF c, of _ flags handler] by (auto simp: arp_rep_def inj_on_def split: if_splits)
  then show ?thesis unfolding arp_rep_def entries_with using chains idx by blast
qed

lemma set_entry_mac_other: "x \<noteq> e \<Longrightarrow> set_entry_mac h e mac x = h x"
  by (simp add: set_entry_mac_def)

lemma set_entry_mac_off: "off < ARP_MAC \<or> ARP_MAC + 6 \<le> off \<Longrightarrow> set_entry_mac h e mac x off = h x off"
  by (auto simp: set_entry_mac_def)

lemma entry_mac_set:
  assumes "length mac = 6"
  shows "entry_mac (set_entry_mac h e mac) e = mac"
proof (rule nth_equalityI)
  show "length (entry_mac (set_entry_mac h e mac) e) = length mac" using assms by (simp add: entry_mac_def)
  have "ucast (ucast x :: u64) = x" for x :: u8 by (rule bit_word_eqI) (auto simp: bit_simps)
  then show "entry_mac (set_entry_mac h e mac) e ! i = mac ! i" if "i < length (entry_mac (set_entry_mac h e mac) e)" for i
    using that by (simp add: entry_mac_def set_entry_mac_def)
qed

lemma arp_rep_set_mac:
  assumes r: "arp_rep env h B" and l: "arp_layout env U" "e \<in> U" "entries B \<subseteq> U"
  shows "arp_rep env (set_entry_mac h e mac) B"
proof -
  have "hlist_rep (set_entry_mac h e mac) (bucket_at env i) (map (\<lambda>e. e + ARP_LINK) (B i)) = hlist_rep h (bucket_at env i) (map (\<lambda>e. e + ARP_LINK) (B i))"
    if i: "i < ARP_MAX_ENTRIES" for i
  proof -
    have "x \<noteq> e" if x: "x \<in> set (bucket_at env i # map (\<lambda>e. e + ARP_LINK) (B i))" for x
    proof (cases "x = bucket_at env i")
      case True
      then show ?thesis using layout_bucket [OF l(1,2) i] by simp
    next
      case False
      then obtain y where y: "y \<in> U" "x = y + ARP_LINK" using x l(3) i by auto
      then show ?thesis using layout_entry [OF l(1) y(1) l(2)] by simp
    qed
    then show ?thesis by (intro hlist_rep_cong) (simp_all add: set_entry_mac_other)
  qed
  moreover have "entry_addr (set_entry_mac h e mac) = entry_addr h" by (simp add: fun_eq_iff entry_addr_def set_entry_mac_off)
  ultimately show ?thesis using r by (simp add: arp_rep_def)
qed

lemma entry_of_cong:
  assumes "\<And>x. x \<in> set (B (arp_ip_to_idx b)) \<Longrightarrow> entry_addr h' x = entry_addr h x"
  shows "entry_of h' B b = entry_of h B b"
  unfolding entry_of_def using assms by (intro find_cong) auto

lemma arp_table_set_mac:
  assumes r: "arp_rep env h B" and e: "entry_of h B a = Some e" and m: "length mac = 6"
  shows "arp_table (set_entry_mac h e mac) B = (arp_table h B)(a \<mapsto> (mac, h e ARP_FLAGS))"
proof
  fix b
  have of: "entry_of (set_entry_mac h e mac) B b = entry_of h B b" by (rule entry_of_cong) (simp add: entry_addr_def set_entry_mac_off)
  show "arp_table (set_entry_mac h e mac) B b = ((arp_table h B)(a \<mapsto> (mac, h e ARP_FLAGS))) b"
  proof (cases "b = a")
    case True
    then show ?thesis using of e entry_mac_set [OF m] by (simp add: arp_table_def set_entry_mac_off)
  next
    case False
    have "x \<noteq> e" if "entry_of h B b = Some x" for x using that e False entry_of_Some by metis
    then show ?thesis using of False by (cases "entry_of h B b") (auto simp: arp_table_def entry_mac_def set_entry_mac_other)
  qed
qed

lemma new_entry_table:
  fixes flags handler :: u64
  assumes c: "can_add env h B U a e"
  defines "h' \<equiv> hlist_add_head (arp_bucket env a) (e + ARP_LINK) (entry_written a flags handler e h)"
  shows "entry_of h' (with_entry B a e) a = Some e" "h' e ARP_FLAGS = flags"
    "arp_table h' (with_entry B a e) = (arp_table h B)(a \<mapsto> (entry_mac h e, flags))"
proof -
  have l: "arp_layout env U" "e \<in> U" and e: "e \<notin> entries B" using c by (simp_all add: can_add_def)
  have t: "e + ARP_TIMER \<noteq> e" using layout_entry [OF l l(2)] by simp
  have obj: "h' x = entry_written a flags handler e h x" if "x \<in> U" for x unfolding h'_def by (rule new_entry_object [OF c that])
  have adr: "entry_addr h' x = (if x = e then a else entry_addr h x)" if "x \<in> insert e (entries B)" for x
    unfolding h'_def by (rule new_entry_addr [OF c that])
  show first: "entry_of h' (with_entry B a e) a = Some e" using adr [of e] by (simp add: entry_of_def with_entry_def)
  show fl: "h' e ARP_FLAGS = flags" using obj [OF l(2)] entry_written_entry [OF t] by simp
  show "arp_table h' (with_entry B a e) = (arp_table h B)(a \<mapsto> (entry_mac h e, flags))"
  proof
    fix b
    show "arp_table h' (with_entry B a e) b = ((arp_table h B)(a \<mapsto> (entry_mac h e, flags))) b"
    proof (cases "b = a")
      case True
      have "entry_mac h' e = entry_mac h e"
        using obj [OF l(2)] entry_written_entry(3) [OF t, of a flags handler h] by (simp add: entry_mac_def)
      then show ?thesis using True first fl by (simp add: arp_table_def)
    next
      case False
      have "entry_of h' (with_entry B a e) b = entry_of h' B b"
        using adr [of e] False by (simp add: entry_of_def with_entry_def)
      also have "\<dots> = entry_of h B b"
      proof (rule entry_of_cong)
        fix x
        assume "x \<in> set (B (arp_ip_to_idx b))"
        then have x: "x \<in> entries B" using arp_idx_less [of b] by auto
        then have "x \<noteq> e" using e by metis
        then show "entry_addr h' x = entry_addr h x" using adr [OF insertI2 [OF x]] by simp
      qed
      finally have of: "entry_of h' (with_entry B a e) b = entry_of h B b" .
      have "h' x = h x" if "entry_of h B b = Some x" for x
      proof -
        have "x \<in> entries B" "x \<in> U" using entry_of_entries [OF that] c by (auto simp: can_add_def)
        then show ?thesis using obj [of x] e layout_entry [OF l(1) \<open>x \<in> U\<close> l(2)] by (metis entry_written_other)
      qed
      then show ?thesis using of False by (cases "entry_of h B b") (auto simp: arp_table_def entry_mac_def)
    qed
  qed
qed

section \<open>The operations\<close>

lemma alloc_entry:
  assumes "arp_ok env s B F" "F \<noteq> {}"
  shows "\<exists>e p. pool_alloc (ns_heap s) (ns_arp_entries s) = Inr (e, p) \<and> e \<in> F \<and> e \<noteq> NULL \<and> e \<notin> entries B \<and>
    mempool_ok (ns_heap s) p (F - {e}) (insert e (entries B))"
proof -
  have ok: "mempool_ok (ns_heap s) (ns_arp_entries s) F (entries B)" using assms(1) by (simp add: arp_ok_def)
  obtain e p where e: "pool_alloc (ns_heap s) (ns_arp_entries s) = Inr (e, p)" "e \<in> F" "mempool_ok (ns_heap s) p (F - {e}) (insert e (entries B))"
    using mp.alloc_some [OF ok assms(2)] by metis
  have "F \<inter> entries B = {}" "NULL \<notin> F" using mp.ok_sets [OF ok] by (rule conjunct1, elim conjE)
  then have "e \<noteq> NULL" "e \<notin> entries B" using e(2) by (metis disjoint_iff)+
  then show ?thesis using e by (intro exI conjI)
qed

lemma can_add_free:
  assumes "arp_ok env s B F" "e \<in> F" "entry_of (ns_heap s) B a = None"
  shows "can_add env (ns_heap s) B (F \<union> entries B) a e"
proof -
  have "F \<inter> entries B = {}" using assms(1) by (simp add: arp_ok_def mempool_ok_def)
  then show ?thesis using assms entry_of_None [of env "ns_heap s" B a] by (auto simp: can_add_def arp_ok_def)
qed

text \<open>A free element becomes the entry of a new address; the rest of the pool and the table stay as they are.\<close>

lemma new_entry_ok:
  fixes flags handler :: u64
  assumes ok: "arp_ok env s B F" and e: "e \<in> F" and a: "entry_of (ns_heap s) B a = None"
    and p: "mempool_ok (ns_heap s) p (F - {e}) (insert e (entries B))"
  defines "s' \<equiv> arp_new_entry env a flags handler e (s\<lparr>ns_arp_entries := p\<rparr>)"
  shows "arp_ok env s' (with_entry B a e) (F - {e})" "entry_of (ns_heap s') (with_entry B a e) a = Some e"
    "ns_heap s' (e + ARP_TIMER) NODE_PREV = NULL" "ns_heap s' e ARP_FLAGS = flags"
    "arp_table (ns_heap s') (with_entry B a e) = (arp_table (ns_heap s) B)(a \<mapsto> (entry_mac (ns_heap s) e, flags))"
proof -
  note c = can_add_free [OF ok e a]
  have l: "arp_layout env (F \<union> entries B)" "e \<in> F \<union> entries B" using ok e by (simp_all add: arp_ok_def)
  have h: "ns_heap s' = hlist_add_head (arp_bucket env a) (e + ARP_LINK) (entry_written a flags handler e (ns_heap s))"
    by (simp add: s'_def arp_new_entry_heap set_heap_def)
  have "ns_heap s' x = ns_heap s x" if "x \<in> F - {e}" for x
    using new_entry_object [OF c, of x flags handler] layout_entry [OF l(1) _ l(2), of x] that unfolding h by (auto simp: entry_written_other)
  then have "mempool_ok (ns_heap s') p (F - {e}) (insert e (entries B))" by (rule mp.ok_frame [OF p])
  moreover have "ns_arp_entries s' = p" by (simp add: s'_def arp_new_entry_heap set_heap_def)
  moreover have "arp_layout env (F - {e} \<union> insert e (entries B))" using l e by (auto intro: arp_layout_mono)
  moreover have "arp_rep env (ns_heap s') (with_entry B a e)" unfolding h by (rule new_entry_rep [OF c])
  ultimately show "arp_ok env s' (with_entry B a e) (F - {e})" by (simp add: arp_ok_def entries_with)
  show "entry_of (ns_heap s') (with_entry B a e) a = Some e" "ns_heap s' e ARP_FLAGS = flags"
    "arp_table (ns_heap s') (with_entry B a e) = (arp_table (ns_heap s) B)(a \<mapsto> (entry_mac (ns_heap s) e, flags))"
    unfolding h by (rule new_entry_table [OF c])+
  have t: "e + ARP_TIMER \<noteq> e" "e + ARP_TIMER \<noteq> e + ARP_LINK" "e + ARP_TIMER \<noteq> arp_bucket env a"
    using layout_entry [OF l l(2)] layout_bucket [OF l arp_idx_less [of a]] by (auto simp: arp_bucket_at)
  have "e + ARP_TIMER \<noteq> y + ARP_LINK" if "y \<in> set (B (arp_ip_to_idx a))" for y
    using layout_entry [OF l(1) l(2) can_add_member [OF c arp_idx_less that]] by simp
  then have "ns_heap s' (e + ARP_TIMER) = entry_written a flags handler e (ns_heap s) (e + ARP_TIMER)"
    unfolding h using hlist_add_head_frame [OF old_chain [OF c arp_idx_less [of a], of flags handler], of "e + ARP_TIMER" "e + ARP_LINK"] t
      layout_bucket [OF l arp_idx_less [of a]] by (auto simp: arp_bucket_at)
  then show "ns_heap s' (e + ARP_TIMER) NODE_PREV = NULL" using entry_written_entry [OF t(1)] by simp
qed

lemma set_mac_ok:
  assumes ok: "arp_ok env s B F" and e: "entry_of (ns_heap s) B a = Some e" and m: "length mac = 6"
  defines "s' \<equiv> set_heap (set_entry_mac (ns_heap s) e mac) s"
  shows "arp_ok env s' B F" "arp_table (ns_heap s') B = (arp_table (ns_heap s) B)(a \<mapsto> (mac, ns_heap s e ARP_FLAGS))"
proof -
  have r: "arp_rep env (ns_heap s) B" "arp_layout env (F \<union> entries B)" "F \<inter> entries B = {}" using ok by (simp_all add: arp_ok_def mempool_ok_def)
  have eB: "e \<in> entries B" by (rule entry_of_entries [OF e])
  have same: "ns_heap s' x = ns_heap s x" if x: "x \<in> F" for x
  proof -
    have "x \<noteq> e" using r(3) eB x by (metis disjoint_iff)
    then show ?thesis by (simp add: s'_def set_heap_def set_entry_mac_other)
  qed
  have "mempool_ok (ns_heap s) (ns_arp_entries s) F (entries B)" using ok by (simp add: arp_ok_def)
  then have "mempool_ok (ns_heap s') (ns_arp_entries s) F (entries B)" using same by (rule mp.ok_frame)
  moreover have "arp_rep env (ns_heap s') B" using arp_rep_set_mac [OF r(1,2), of e mac] eB by (simp add: s'_def set_heap_def)
  ultimately show "arp_ok env s' B F" using r(2) by (simp add: arp_ok_def s'_def set_heap_def)
  show "arp_table (ns_heap s') B = (arp_table (ns_heap s) B)(a \<mapsto> (mac, ns_heap s e ARP_FLAGS))"
    using arp_table_set_mac [OF r(1) e m] by (simp add: s'_def set_heap_def)
qed

lemma arp_insert_new:
  assumes ok: "arp_ok env s B F" and a: "entry_of (ns_heap s) B a = None" and F: "F \<noteq> {}" and m: "length mac = 6"
  shows "\<exists>e s'. e \<in> F \<and> arp_insert env a mac s = Some (Inr (0, s')) \<and> arp_ok env s' (with_entry B a e) (F - {e}) \<and>
    arp_table (ns_heap s') (with_entry B a e) = (arp_table (ns_heap s) B)(a \<mapsto> (mac, ARP_FLAG_VALID OR ARP_FLAG_STATIC))"
proof -
  obtain e p where e: "pool_alloc (ns_heap s) (ns_arp_entries s) = Inr (e, p)" "e \<in> F" "e \<noteq> NULL"
    "mempool_ok (ns_heap s) p (F - {e}) (insert e (entries B))" using alloc_entry [OF ok F] by blast
  define s1 where "s1 = arp_new_entry env a (ARP_FLAG_VALID OR ARP_FLAG_STATIC) NULL e (s\<lparr>ns_arp_entries := p\<rparr>)"
  note n = new_entry_ok [OF ok e(2) a e(4), of "ARP_FLAG_VALID OR ARP_FLAG_STATIC" NULL, folded s1_def]
  define s2 where "s2 = set_heap (set_entry_mac (ns_heap s1) e mac) s1"
  have "timer_del (e + ARP_TIMER) (ns_tw s1) = Inr (ns_tw s1)" using n(3) by (simp add: timer_del_def timer_pending_def)
  then have "arp_insert env a mac s = Some (Inr (0, s2))"
    using arp_lookup_absent [OF ok a] e by (simp add: arp_insert_def s1_def s2_def Let_def)
  moreover note set_mac_ok [OF n(1,2) m, folded s2_def]
  ultimately show ?thesis using e(2) n(4,5) by (intro exI [of _ e] exI [of _ s2]) (simp del: fun_upd_apply add: fun_upd_upd)
qed

text \<open>A table of static entries only, as it is after the configuration was read.\<close>

definition arp_static :: "net_env \<Rightarrow> net_state \<Rightarrow> (u32 \<rightharpoonup> u8 list) \<Rightarrow> nat \<Rightarrow> bool" where
  "arp_static env s m n \<longleftrightarrow>
     (\<exists>B F. arp_ok env s B F \<and> card F = n \<and>
        (\<forall>a. arp_table (ns_heap s) B a = map_option (\<lambda>mac. (mac, ARP_FLAG_VALID OR ARP_FLAG_STATIC)) (m a)))"

lemma arp_table_None: "arp_table h B a = None \<longleftrightarrow> entry_of h B a = None"
  by (simp add: arp_table_def)

lemma arp_free_finite: "arp_ok env s B F \<Longrightarrow> finite F"
  by (auto simp: arp_ok_def mempool_ok_def rep_free_def)

lemma arp_static_insert:
  assumes "arp_static env s m (Suc n)" "m a = None" "length mac = 6"
  shows "\<exists>s'. arp_insert env a mac s = Some (Inr (0, s')) \<and> arp_static env s' (m(a \<mapsto> mac)) n"
proof -
  obtain B F where 1: "arp_ok env s B F" "card F = Suc n"
      "\<And>b. arp_table (ns_heap s) B b = map_option (\<lambda>mac. (mac, ARP_FLAG_VALID OR ARP_FLAG_STATIC)) (m b)"
    using assms(1) unfolding arp_static_def by blast
  have "entry_of (ns_heap s) B a = None" "F \<noteq> {}" using 1 assms(2) by (auto simp flip: arp_table_None)
  then obtain e s' where 2: "e \<in> F" "arp_insert env a mac s = Some (Inr (0, s'))" "arp_ok env s' (with_entry B a e) (F - {e})"
      "arp_table (ns_heap s') (with_entry B a e) = (arp_table (ns_heap s) B)(a \<mapsto> (mac, ARP_FLAG_VALID OR ARP_FLAG_STATIC))"
    using arp_insert_new [OF 1(1) _ _ assms(3)] by blast
  have "card (F - {e}) = n" using 1(2) 2(1) arp_free_finite [OF 1(1)] by simp
  then have "arp_static env s' (m(a \<mapsto> mac)) n" unfolding arp_static_def using 2(3,4) 1(3) by (intro exI [of _ "with_entry B a e"] exI [of _ "F - {e}"]) simp
  then show ?thesis using 2(2) by blast
qed

lemma arp_static_full:
  assumes "arp_static env s m 0" "m a = None"
  shows "\<exists>s'. arp_insert env a mac s = Some (Inr (- ENOMEM, s')) \<and> arp_static env s' m 0"
proof -
  obtain B F where 1: "arp_ok env s B F" "card F = 0"
      "\<And>b. arp_table (ns_heap s) B b = map_option (\<lambda>mac. (mac, ARP_FLAG_VALID OR ARP_FLAG_STATIC)) (m b)"
    using assms(1) unfolding arp_static_def by blast
  have F: "F = {}" and a: "entry_of (ns_heap s) B a = None" using 1 assms(2) arp_free_finite [OF 1(1)] by (simp_all flip: arp_table_None)
  have "pool_alloc (ns_heap s) (ns_arp_entries s) = Inr (NULL, ns_arp_entries s)"
    using mp.alloc_none [of "ns_heap s" "ns_arp_entries s" "entries B"] 1(1) F by (simp add: arp_ok_def)
  then have "arp_insert env a mac s = Some (Inr (- ENOMEM, s))" using arp_lookup_absent [OF 1(1) a] by (simp add: arp_insert_def Let_def)
  then show ?thesis using assms(1) by blast
qed

interpretation arp: addr_table "arp_static env" "\<lambda>mac. length mac = 6" "arp_insert env" for env
  by unfold_locales (simp_all add: arp_static_insert arp_static_full)

section \<open>Resolution\<close>

lemma lookup_mac_valid:
  assumes "arp_ok env s B F" "arp_table (ns_heap s) B a = Some (mac, flags)" "flags AND ARP_FLAG_VALID \<noteq> 0"
  shows "arp_lookup_mac env tsc cyc a s = Some (Inr (0, mac, s))"
proof -
  obtain e where e: "entry_of (ns_heap s) B a = Some e" "mac = entry_mac (ns_heap s) e" "flags = ns_heap s e ARP_FLAGS"
    using assms(2) by (auto simp: arp_table_def)
  have "e \<noteq> NULL" by (rule arp_ok_nonnull [OF assms(1) entry_of_entries [OF e(1)]])
  then show ?thesis using arp_lookup_found [OF assms(1) e(1)] e(2,3) assms(3) by (simp add: arp_lookup_mac_def)
qed

lemma static_flags:
  "(ARP_FLAG_VALID OR ARP_FLAG_STATIC) AND ARP_FLAG_VALID \<noteq> 0" "(ARP_FLAG_VALID OR ARP_FLAG_STATIC) AND ARP_FLAG_STATIC \<noteq> 0"
  by (simp_all add: ARP_FLAG_VALID_def ARP_FLAG_STATIC_def)

lemma arp_static_lookup:
  assumes "arp_static env s m n" "m a = Some mac"
  shows "arp_lookup_mac env tsc cyc a s = Some (Inr (0, mac, s))"
proof -
  obtain B F where 1: "arp_ok env s B F" "\<And>b. arp_table (ns_heap s) B b = map_option (\<lambda>mac. (mac, ARP_FLAG_VALID OR ARP_FLAG_STATIC)) (m b)"
    using assms(1) unfolding arp_static_def by blast
  then show ?thesis using assms(2) static_flags by (intro lookup_mac_valid [OF 1(1)]) auto
qed

lemma arp_static_update:
  assumes "arp_static env s m n" "m a = Some mac"
  shows "arp_update_mac env malloc_ok tsc cyc a mac' create s = Some (Inr (0, s))"
proof -
  obtain B F where 1: "arp_ok env s B F" "\<And>b. arp_table (ns_heap s) B b = map_option (\<lambda>mac. (mac, ARP_FLAG_VALID OR ARP_FLAG_STATIC)) (m b)"
    using assms(1) unfolding arp_static_def by blast
  obtain e where e: "entry_of (ns_heap s) B a = Some e" "ns_heap s e ARP_FLAGS = ARP_FLAG_VALID OR ARP_FLAG_STATIC"
    using 1(2) [of a] assms(2) by (auto simp: arp_table_def)
  have "e \<noteq> NULL" by (rule arp_ok_nonnull [OF 1(1) entry_of_entries [OF e(1)]])
  then show ?thesis using arp_lookup_found [OF 1(1) e(1)] e(2) static_flags by (simp add: arp_update_mac_def)
qed

text \<open>When no element is left, a look-up of an unknown address keeps the lock, and the next one waits for it for ever.\<close>

lemma arp_lookup_exhausted:
  assumes ok: "arp_ok env s B {}" and a: "entry_of (ns_heap s) B a = None" and l: "\<not> ns_arp_lock s"
  shows "arp_lookup env a True s = Some (Inr (NULL, s\<lparr>ns_arp_lock := True\<rparr>))"
proof -
  have "pool_alloc (ns_heap s) (ns_arp_entries s) = Inr (NULL, ns_arp_entries s)"
    using mp.alloc_none [of "ns_heap s" "ns_arp_entries s" "entries B"] ok by (simp add: arp_ok_def)
  then show ?thesis
    using arp_lookup_raw_ok [of env "ns_heap s" B a] ok a l by (simp add: arp_lookup_def arp_ok_def spin_defs Let_def)
qed

lemma arp_lookup_locked:
  assumes "arp_ok env s B F" "entry_of (ns_heap s) B a = None" "ns_arp_lock s"
  shows "arp_lookup env a True s = None"
  using arp_lookup_raw_ok [of env "ns_heap s" B a] assms by (simp add: arp_lookup_def arp_ok_def spin_defs)

end
