(* ===== verification/Net_Sample.thy ===== *)
theory Net_Sample
  imports Arp_Table Sample
begin

text \<open>
  A small concrete state of the network code, used to show that the hypotheses of the general results can be met: an empty address
  table with two free entries, two packet buffers, two response buffers in a page, and one transmit queue.
\<close>

definition sample_env :: net_env where
  "sample_env = \<lparr>ne_cfg = sample_cfg, ne_os = granting_os, ne_cpu_id = 0, ne_cpu_count = 4, ne_eth_dev_count = 1, ne_arp_tbl = 0x100000,
     ne_arp_timer_handler = 0x1001, ne_send_pending_pkt = 0x1002, ne_mbuf_default_done = 0x1003, ne_udp_mbuf_done = 0x1004\<rparr>"

definition empty_mbuf :: mbuf where
  "empty_mbuf = \<lparr>mb_len = 0, mb_next = NULL, mb_iovs = NULL, mb_nr_iov = 0, mb_fg_id = 0, mb_ol_flags = 0, mb_done = 0, mb_done_data = 0,
     mb_timestamp = 0, mb_networker_cy = 0, mb_data = (\<lambda>_. 0)\<rparr>"

definition sample_net :: net_state where
  "sample_net = \<lparr>ns_tw = (new_wheel 0 0)\<lparr>tw_mem := stores (links [0x10000, 0x10100] @ links [0x300000, 0x301000] @
        links [0x4000000000, 0x4000000030] @ links [0x500000]) (\<lambda>_ _. 0)\<rparr>,
     ns_mm = boot_mm\<lparr>page_tbl := [\<lparr>maddr = 0x12345600000, refcnt = 0, pg_flags = 0\<rparr>], page_refs := [0]\<rparr>, ns_store = (\<lambda>_. empty_mbuf),
     ns_mbufs = sample_pool 0x300000 2, ns_responses = sample_pool 0x4000000000 2, ns_arp_entries = sample_pool 0x10000 2,
     ns_pending = sample_pool 0x500000 1, ns_txqs = [\<lparr>tx_cap = 64, tx_len = 0, tx_bufs = replicate 64 NULL\<rparr>],
     ns_arp_lock = False, ns_pending_lock = False, ns_send_lock = False,
     ns_runlists = (\<lambda>_. Some \<lparr>rl_lock = False, rl_runners = []\<rparr>)\<rparr>"

lemma sample_bucket_unat:
  assumes "i < ARP_MAX_ENTRIES"
  shows "unat (bucket_at sample_env i) = 0x100000 + 8 * i"
proof -
  have "ne_arp_tbl sample_env = of_nat 0x100000" by (simp add: sample_env_def)
  then have "bucket_at sample_env i = of_nat (0x100000 + 8 * i)" by (simp only: bucket_at_def of_nat_add)
  moreover have "0x100000 + 8 * i < 2 ^ 64" using assms by (simp add: ARP_MAX_ENTRIES_def)
  ultimately show ?thesis by (simp only: unat_of_nat64)
qed

lemma sample_layout: "arp_layout sample_env {0x10000, 0x10100}"
proof -
  have low: "bucket_at sample_env i \<notin> {0, 0x10000, 0x10010, 0x10038, 0x10048, 0x10100, 0x10110, 0x10138, 0x10148}"
    if "i < ARP_MAX_ENTRIES" for i
  proof
    assume "bucket_at sample_env i \<in> {0, 0x10000, 0x10010, 0x10038, 0x10048, 0x10100, 0x10110, 0x10138, 0x10148}"
    then have "unat (bucket_at sample_env i) < 0x100000" by auto
    then show False using sample_bucket_unat [OF that] by simp
  qed
  have inj: "i = j" if "i < ARP_MAX_ENTRIES" "j < ARP_MAX_ENTRIES" "bucket_at sample_env i = bucket_at sample_env j" for i j
  proof -
    have "unat (bucket_at sample_env i) = unat (bucket_at sample_env j)" using that(3) by (rule arg_cong)
    then have "0x100000 + 8 * i = 0x100000 + 8 * j" unfolding sample_bucket_unat [OF that(1)] sample_bucket_unat [OF that(2)] .
    then show ?thesis by simp
  qed
  have "\<forall>i<ARP_MAX_ENTRIES. bucket_at sample_env i \<noteq> NULL \<and> (\<forall>j<ARP_MAX_ENTRIES. bucket_at sample_env i = bucket_at sample_env j \<longrightarrow> i = j) \<and>
      (\<forall>x\<in>{0x10000, 0x10100}. bucket_at sample_env i \<noteq> x \<and> bucket_at sample_env i \<noteq> x + ARP_TIMER \<and> bucket_at sample_env i \<noteq> x + ARP_LINK \<and>
        bucket_at sample_env i \<noteq> x + ARP_PENDING)"
  proof (intro allI impI, goal_cases)
    case (1 i)
    show ?case using low [OF 1] inj [OF 1] by (simp add: ARP_TIMER_def ARP_LINK_def ARP_PENDING_def)
  qed
  then show ?thesis unfolding arp_layout_def by (simp add: ARP_TIMER_def ARP_LINK_def ARP_PENDING_def)
qed

lemma sample_heap:
  assumes "x \<notin> {0x10000, 0x10100, 0x300000, 0x301000, 0x4000000000, 0x4000000030, 0x500000}"
  shows "ns_heap sample_net x = (\<lambda>_. 0)"
  using assms by (simp add: sample_net_def sample_defs)

lemma sample_arp_ok: "arp_ok sample_env sample_net (\<lambda>_. []) {0x10000, 0x10100}"
proof -
  have "mempool_ok (ns_heap sample_net) (sample_pool 0x10000 2) (set [0x10000, 0x10100]) {}"
    by (rule sample_pool_ok) (simp_all add: sample_net_def sample_defs)
  then have p: "mempool_ok (ns_heap sample_net) (ns_arp_entries sample_net) {0x10000, 0x10100} {}" by (simp add: sample_net_def)
  have "hlist_rep (ns_heap sample_net) (bucket_at sample_env i) []" if "i < ARP_MAX_ENTRIES" for i
  proof -
    have u: "unat (bucket_at sample_env i) = 0x100000 + 8 * i" by (rule sample_bucket_unat [OF that])
    have "bucket_at sample_env i \<notin> {0x10000, 0x10100, 0x300000, 0x301000, 0x4000000000, 0x4000000030, 0x500000}"
      using u that by (auto simp: ARP_MAX_ENTRIES_def)
    moreover have "bucket_at sample_env i \<noteq> NULL" using u by auto
    ultimately show ?thesis using sample_heap by (simp add: hlist_rep_def)
  qed
  then show ?thesis using p sample_layout by (simp add: arp_ok_def arp_rep_def)
qed

lemma sample_static: "arp_static sample_env sample_net Map.empty 2"
  unfolding arp_static_def using sample_arp_ok by (intro exI [of _ "\<lambda>_. []"] exI [of _ "{0x10000, 0x10100}"]) (simp add: arp_table_def entry_of_def)

end
