(* ===== verification/Cfg_Properties.thy ===== *)
theory Cfg_Properties
  imports Cfg Net_Sample
begin

text \<open>
  Properties of the configuration: the arrays are never overrun and hold no CPU or device twice, the list of ports and the host
  address are stored as they are written, and every static entry of the address table can be resolved afterwards.
\<close>

section \<open>Arrays\<close>

definition cfg_ok :: "cfg_parameters \<Rightarrow> bool" where
  "cfg_ok c \<longleftrightarrow>
     length (cfg_ports c) = CFG_MAX_PORTS \<and> length (cfg_slos c) = CFG_MAX_PORTS \<and> length (cfg_cpu c) = CFG_MAX_CPU \<and>
     length (cfg_ethdev c) = CFG_MAX_ETHDEV \<and> 0 \<le> num_ports c \<and> num_ports c \<le> int CFG_MAX_PORTS \<and> 0 \<le> num_slos c \<and>
     num_slos c \<le> int CFG_MAX_PORTS \<and> 0 \<le> num_cpus c \<and> num_cpus c \<le> int CFG_MAX_CPU \<and> 0 \<le> num_ethdev c \<and>
     num_ethdev c \<le> int CFG_MAX_ETHDEV \<and> distinct (take (nat (num_cpus c)) (cfg_cpu c)) \<and> distinct (take (nat (num_ethdev c)) (cfg_ethdev c))"

text \<open>The parsers that fill arrays, as functions of the parameters: no access out of bounds, and \<open>Q\<close> holds afterwards.\<close>

definition fills :: "(int \<times> cfg_parameters) res \<Rightarrow> (cfg_parameters \<Rightarrow> bool) \<Rightarrow> bool" where
  "fills r Q \<longleftrightarrow> r \<noteq> Inl Out_of_bounds \<and> (\<forall>ret c. r = Inr (ret, c) \<longrightarrow> Q c)"

lemma fills_simps [simp]: "fills (Inr (ret, c)) Q \<longleftrightarrow> Q c" "fills (Inl f) Q \<longleftrightarrow> f \<noteq> Out_of_bounds"
  by (auto simp: fills_def)

lemma fills_bind: "fills r P \<Longrightarrow> (\<And>ret c. P c \<Longrightarrow> fills (f (ret, c)) Q) \<Longrightarrow> fills (bindE r f) Q"
  by (cases r) (auto simp: fills_def)

lemma take_snoc_update: "n < length xs \<Longrightarrow> take (Suc n) (xs[n := x]) = take n xs @ [x]"
  by (simp add: take_Suc_conv_app_nth)

lemma int_less_nat: "0 \<le> k \<Longrightarrow> k < int n \<Longrightarrow> nat k < n \<and> nat (k + 1) = Suc (nat k)"
  by auto

lemma add_port_fills:
  assumes "cfg_ok c" "num_ports c < int CFG_MAX_PORTS"
  shows "fills (add_port p c) (\<lambda>c'. cfg_ok c' \<and> num_slos c' = num_slos c)"
  using assms int_less_nat [of "num_ports c" CFG_MAX_PORTS] by (auto simp: add_port_def cfg_ok_def)

lemma add_slo_fills:
  assumes "cfg_ok c" "num_slos c < int CFG_MAX_PORTS"
  shows "fills (add_slo p c) cfg_ok"
  using assms int_less_nat [of "num_slos c" CFG_MAX_PORTS] by (auto simp: add_slo_def cfg_ok_def)

lemma add_cpu_fills:
  assumes "cfg_ok c"
  shows "fills (add_cpu n cpu c) cfg_ok"
proof (cases "num_cpus c < int CFG_MAX_CPU")
  case True
  then show ?thesis
    using assms int_less_nat [of "num_cpus c" CFG_MAX_CPU] by (auto simp: add_cpu_def cfg_ok_def take_snoc_update)
qed (use assms in \<open>auto simp: add_cpu_def\<close>)

lemma add_dev_fills:
  assumes "cfg_ok c"
  shows "fills (add_dev dev c) cfg_ok"
proof (cases "num_ethdev c < int CFG_MAX_ETHDEV")
  case True
  then show ?thesis
    using assms int_less_nat [of "num_ethdev c" CFG_MAX_ETHDEV]
    by (auto simp: add_dev_def cfg_ok_def take_snoc_update split: option.splits sum.splits)
qed (use assms in \<open>auto simp: add_dev_def split: option.splits sum.splits\<close>)

lemma parse_port_loop_fills:
  "cfg_ok c \<Longrightarrow> fills (parse_port_loop api ports c) (\<lambda>c'. cfg_ok c' \<and> num_slos c' = num_slos c)"
proof (induction api ports c rule: parse_port_loop.induct)
  case (1 api ports c)
  show ?case
  proof (cases "num_ports c < int CFG_MAX_PORTS \<and> num_ports c < config_setting_length api ports")
    case True
    define r where "r = add_port (config_setting_get_int_elem api ports (num_ports c)) c"
    have f: "fills r (\<lambda>c'. cfg_ok c' \<and> num_slos c' = num_slos c)" unfolding r_def by (rule add_port_fills) (use 1 True in auto)
    show ?thesis
    proof (cases r)
      case (Inl e)
      then show ?thesis using f True by (subst parse_port_loop.simps) (simp add: r_def)
    next
      case (Inr p)
      obtain ret c1 where p: "p = (ret, c1)" by force
      have c1: "cfg_ok c1" "num_slos c1 = num_slos c" using f Inr p by simp_all
      have "fills (parse_port_loop api ports c1) (\<lambda>c'. cfg_ok c' \<and> num_slos c' = num_slos c1)" if "ret = 0"
        using "1.IH" [OF True Inr [unfolded r_def] p [symmetric]] that c1(1) p by simp
      then show ?thesis using True Inr p c1 by (subst parse_port_loop.simps) (simp add: r_def)
    qed
  next
    case False
    then show ?thesis using "1.prems" by (subst parse_port_loop.simps) auto
  qed
qed

lemma parse_slo_loop_fills: "cfg_ok c \<Longrightarrow> fills (parse_slo_loop api slos c) cfg_ok"
proof (induction api slos c rule: parse_slo_loop.induct)
  case (1 api slos c)
  show ?case
  proof (cases "num_slos c < int CFG_MAX_PORTS \<and> num_slos c < config_setting_length api slos")
    case True
    define r where "r = add_slo (config_setting_get_int_elem api slos (num_slos c)) c"
    have f: "fills r cfg_ok" unfolding r_def by (rule add_slo_fills) (use 1 True in auto)
    show ?thesis
    proof (cases r)
      case (Inl e)
      then show ?thesis using f True by (subst parse_slo_loop.simps) (simp add: r_def)
    next
      case (Inr p)
      obtain ret c1 where p: "p = (ret, c1)" by force
      have "fills (parse_slo_loop api slos c1) cfg_ok" if "ret = 0"
        using "1.IH" [OF True Inr [unfolded r_def] p [symmetric]] that f Inr p by simp
      then show ?thesis using True Inr p f by (subst parse_slo_loop.simps) (simp add: r_def)
    qed
  next
    case False
    then show ?thesis using "1.prems" by (subst parse_slo_loop.simps) auto
  qed
qed

lemma parse_devices_loop_fills: "cfg_ok c \<Longrightarrow> fills (parse_devices_loop api devs is c) cfg_ok"
  by (induction "is" arbitrary: c) (auto intro!: fills_bind [OF add_dev_fills])

lemma parse_cpu_loop_fills: "cfg_ok c \<Longrightarrow> fills (parse_cpu_loop api n cpus is c) cfg_ok"
  by (induction "is" arbitrary: c) (auto intro!: fills_bind [OF add_cpu_fills])

text \<open>A parser started with \<open>P\<close> returns, stays within the arrays, and leaves \<open>Q\<close>, whatever it reports.\<close>

definition parses :: "parse \<Rightarrow> (cfg_parameters \<Rightarrow> bool) \<Rightarrow> (cfg_parameters \<Rightarrow> bool) \<Rightarrow> bool" where
  "parses p P Q \<longleftrightarrow> (\<forall>s. P (cs_cfg s) \<longrightarrow> (\<exists>v. p s = Some v \<and> v \<noteq> Inl Out_of_bounds \<and> (\<forall>ret s'. v = Inr (ret, s') \<longrightarrow> Q (cs_cfg s'))))"

lemma parses_Nil: "parses (run_parsers []) Q Q"
  by (simp add: parses_def)

lemma parses_Cons:
  assumes "parses (snd p) P Q" "parses (run_parsers ps) Q R" "\<And>c. Q c \<Longrightarrow> R c"
  shows "parses (run_parsers (p # ps)) P R"
  unfolding parses_def
proof (intro allI impI)
  fix s :: cfg_state
  assume "P (cs_cfg s)"
  then obtain v where v: "snd p s = Some v" "v \<noteq> Inl Out_of_bounds" "\<And>ret s'. v = Inr (ret, s') \<Longrightarrow> Q (cs_cfg s')"
    using assms(1) unfolding parses_def by blast
  show "\<exists>v. run_parsers (p # ps) s = Some v \<and> v \<noteq> Inl Out_of_bounds \<and> (\<forall>ret s'. v = Inr (ret, s') \<longrightarrow> R (cs_cfg s'))"
  proof (cases v)
    case (Inl e)
    then show ?thesis using v by simp
  next
    case (Inr x)
    obtain ret s1 where x: "x = (ret, s1)" by force
    have q: "Q (cs_cfg s1)" using v(3) Inr x by simp
    show ?thesis
    proof (cases "ret = 0")
      case True
      obtain w where "run_parsers ps s1 = Some w" "w \<noteq> Inl Out_of_bounds" "\<forall>ret s'. w = Inr (ret, s') \<longrightarrow> R (cs_cfg s')"
        using assms(2) q unfolding parses_def by blast
      then show ?thesis using v(1) Inr x True by simp
    next
      case False
      then show ?thesis using v(1) Inr x q assms(3) by simp
    qed
  qed
qed

lemma lift_cfg_fills: "fills r Q \<Longrightarrow> \<exists>v. lift_cfg r s = Some v \<and> v \<noteq> Inl Out_of_bounds \<and> (\<forall>ret s'. v = Inr (ret, s') \<longrightarrow> Q (cs_cfg s'))"
  by (cases r) (auto simp: lift_cfg_def fills_def)

text \<open>The parameters before anything was read.\<close>

definition cfg_fresh :: "cfg_parameters \<Rightarrow> bool" where
  "cfg_fresh c \<longleftrightarrow> cfg_ok c \<and> num_ports c = 0 \<and> num_slos c = 0"

lemma host_addr_parses: "parses (parse_host_addr api) cfg_fresh cfg_fresh"
  by (auto simp: parses_def parse_host_addr_def upd_cfg_def netmask_def cfg_fresh_def cfg_ok_def Let_def split: option.splits sum.splits)

lemma port_parses: "parses (parse_port api) cfg_fresh (\<lambda>c. cfg_ok c \<and> num_slos c = 0)"
  unfolding parses_def
proof (intro allI impI)
  fix s :: cfg_state
  assume c: "cfg_fresh (cs_cfg s)"
  show "\<exists>v. parse_port api s = Some v \<and> v \<noteq> Inl Out_of_bounds \<and> (\<forall>ret s'. v = Inr (ret, s') \<longrightarrow> cfg_ok (cs_cfg s') \<and> num_slos (cs_cfg s') = 0)"
  proof (cases "config_lookup api ''port''")
    case None
    then show ?thesis using c by (simp add: parse_port_def cfg_fresh_def)
  next
    case (Some ports)
    have one: "fills (add_port (config_setting_get_int api ports) (cs_cfg s)) (\<lambda>c. cfg_ok c \<and> num_slos c = 0)"
      using add_port_fills [of "cs_cfg s" "config_setting_get_int api ports"] c by (simp add: cfg_fresh_def CFG_MAX_PORTS_def)
    have "cfg_ok ((cs_cfg s)\<lparr>num_ports := 0\<rparr>)" "num_slos (cs_cfg s) = 0" using c by (simp_all add: cfg_fresh_def cfg_ok_def)
    then have many: "fills (parse_port_loop api ports ((cs_cfg s)\<lparr>num_ports := 0\<rparr>)) (\<lambda>c. cfg_ok c \<and> num_slos c = 0)"
      using parse_port_loop_fills [of "(cs_cfg s)\<lparr>num_ports := 0\<rparr>" api ports] by simp
    show ?thesis using lift_cfg_fills [OF one, of s] lift_cfg_fills [OF many, of s] Some by (simp add: parse_port_def Let_def)
  qed
qed

lemma slo_parses: "parses (parse_slo api) (\<lambda>c. cfg_ok c \<and> num_slos c = 0) cfg_ok"
  unfolding parses_def
proof (intro allI impI)
  fix s :: cfg_state
  assume c: "cfg_ok (cs_cfg s) \<and> num_slos (cs_cfg s) = 0"
  show "\<exists>v. parse_slo api s = Some v \<and> v \<noteq> Inl Out_of_bounds \<and> (\<forall>ret s'. v = Inr (ret, s') \<longrightarrow> cfg_ok (cs_cfg s'))"
  proof (cases "config_lookup api ''slo''")
    case None
    then show ?thesis using c by (simp add: parse_slo_def)
  next
    case (Some slos)
    have one: "fills (add_slo (config_setting_get_int api slos) (cs_cfg s)) cfg_ok"
      using add_slo_fills [of "cs_cfg s" "config_setting_get_int api slos"] c by (simp add: CFG_MAX_PORTS_def)
    have "cfg_ok ((cs_cfg s)\<lparr>num_slos := 0\<rparr>)" using c by (simp add: cfg_ok_def)
    note many = parse_slo_loop_fills [OF this, of api slos]
    show ?thesis using lift_cfg_fills [OF one, of s] lift_cfg_fills [OF many, of s] Some by (simp add: parse_slo_def Let_def)
  qed
qed

lemma gateway_parses: "parses (parse_gateway_addr api) cfg_ok cfg_ok"
  by (auto simp: parses_def parse_gateway_addr_def upd_cfg_def cfg_ok_def split: option.splits sum.splits)

lemma loader_parses: "parses (parse_loader_path api) cfg_ok cfg_ok"
  by (auto simp: parses_def parse_loader_path_def upd_cfg_def cfg_ok_def split: option.splits)

lemma no_arp_parses: "config_lookup api ''arp'' = None \<Longrightarrow> parses (parse_arp api env) cfg_ok cfg_ok"
  by (simp add: parses_def parse_arp_def)

lemma devices_parses: "parses (parse_devices api) cfg_ok cfg_ok"
  unfolding parses_def
proof (intro allI impI)
  fix s :: cfg_state
  assume c: "cfg_ok (cs_cfg s)"
  show "\<exists>v. parse_devices api s = Some v \<and> v \<noteq> Inl Out_of_bounds \<and> (\<forall>ret s'. v = Inr (ret, s') \<longrightarrow> cfg_ok (cs_cfg s'))"
    using c by (auto simp: parse_devices_def add_dev_fills parse_devices_loop_fills split: option.split
        intro!: lift_cfg_fills)
qed

lemma cpu_parses: "parses (parse_cpu api n) cfg_ok cfg_ok"
  unfolding parses_def
proof (intro allI impI)
  fix s :: cfg_state
  assume c: "cfg_ok (cs_cfg s)"
  show "\<exists>v. parse_cpu api n s = Some v \<and> v \<noteq> Inl Out_of_bounds \<and> (\<forall>ret s'. v = Inr (ret, s') \<longrightarrow> cfg_ok (cs_cfg s'))"
    using c by (auto simp: parse_cpu_def add_cpu_fills parse_cpu_loop_fills split: option.split intro!: lift_cfg_fills)
qed

text \<open>
  C24: Reading a configuration file without static address entries into cleared parameters returns and never writes outside the arrays of
  the parameters, whatever the file says otherwise; afterwards the counts are within the arrays and no CPU and no device is listed twice.
\<close>

theorem config_within_bounds:
  assumes "files path = Some api" "config_lookup api ''arp'' = None" "cfg_fresh (cs_cfg s)"
  shows "\<exists>v. parse_conf_file files env cpu_count path s = Some v \<and> v \<noteq> Inl Out_of_bounds \<and> (\<forall>ret s'. v = Inr (ret, s') \<longrightarrow> cfg_ok (cs_cfg s'))"
proof -
  have "parses (run_parsers (config_tbl api env cpu_count)) cfg_fresh cfg_ok"
    unfolding config_tbl_def
    by (rule parses_Cons [where Q = cfg_fresh] parses_Cons [where P = cfg_fresh and Q = "\<lambda>c. cfg_ok c \<and> num_slos c = 0"]
        parses_Cons [where Q = cfg_ok] parses_Nil | simp add: host_addr_parses port_parses slo_parses gateway_parses devices_parses
        cpu_parses loader_parses no_arp_parses [OF assms(2)] cfg_fresh_def)+
  then show ?thesis using assms(1,3) by (simp add: parse_conf_file_def parses_def)
qed

section \<open>A configuration file\<close>

text \<open>Settings as the library gives them: a number, a text, a list, or a group.\<close>

datatype setting = SInt int | SStr string | SList "setting list" | SGroup "(string \<times> setting) list"

fun setting_int :: "setting \<Rightarrow> int" where
  "setting_int (SInt i) = i"
| "setting_int _ = 0"

fun setting_str :: "setting \<Rightarrow> string option" where
  "setting_str (SStr t) = Some t"
| "setting_str _ = None"

fun setting_elems :: "setting \<Rightarrow> setting list" where
  "setting_elems (SList xs) = xs"
| "setting_elems _ = []"

fun setting_member :: "setting \<Rightarrow> string \<Rightarrow> setting option" where
  "setting_member (SGroup g) k = map_of g k"
| "setting_member _ k = None"

definition nth_opt :: "'a list \<Rightarrow> nat \<Rightarrow> 'a option" where
  "nth_opt xs i = (if i < length xs then Some (xs ! i) else None)"

definition api_of :: "(string \<times> setting) list \<Rightarrow> setting config_api" where
  "api_of file = \<lparr>config_lookup = map_of file,
     config_lookup_string = (\<lambda>k. Option.bind (map_of file k) setting_str),
     config_setting_length = (\<lambda>x. int (length (setting_elems x))),
     config_setting_get_elem = (\<lambda>x. nth_opt (setting_elems x)),
     config_setting_get_int = setting_int,
     config_setting_get_int_elem = (\<lambda>x i. case nth_opt (setting_elems x) (nat i) of None \<Rightarrow> 0 | Some y \<Rightarrow> setting_int y),
     config_setting_get_string = setting_str,
     config_setting_get_string_elem = (\<lambda>x i. Option.bind (nth_opt (setting_elems x) i) setting_str),
     config_setting_lookup_string = (\<lambda>x k. Option.bind (setting_member x k) setting_str)\<rparr>"

definition sample_file :: "(string \<times> setting) list" where
  "sample_file = [(''host_addr'', SStr (ip_addr_to_str 0xC0A80001 @ CHR ''/'' # dec_digits 24)), (''port'', SList [SInt 8000, SInt 8001]),
     (''slo'', SList [SInt 100, SInt 200]), (''gateway_addr'', SStr ''192.168.0.254''), (''devices'', SStr ''0000:02:00.0''),
     (''cpu'', SList [SInt 0, SInt 2]), (''loader_path'', SStr ''ld'')]"

definition blank_cfg :: cfg_parameters where
  "blank_cfg = \<lparr>host_addr = 0, broadcast_addr = 0, gateway_addr = 0, cfg_mask = 0, cfg_mac = replicate 6 0, num_cpus = 0,
     cfg_cpu = replicate CFG_MAX_CPU 0, num_ethdev = 0, cfg_ethdev = replicate CFG_MAX_ETHDEV \<lparr>pci_domain = 0, pci_bus = 0, pci_slot = 0, pci_func = 0\<rparr>,
     num_ports = 0, cfg_ports = replicate CFG_MAX_PORTS 0, num_slos = 0, cfg_slos = replicate CFG_MAX_PORTS 0, loader_path = []\<rparr>"

lemma blank_fresh: "cfg_fresh blank_cfg"
  by (simp add: cfg_fresh_def cfg_ok_def blank_cfg_def)

theorem config_within_bounds_witness:
  "\<exists>v. parse_conf_file (\<lambda>_. Some (api_of sample_file)) sample_env 4 ''ix.conf'' \<lparr>cs_cfg = blank_cfg, cs_net = sample_net\<rparr> = Some v \<and>
     v \<noteq> Inl Out_of_bounds \<and> (\<forall>ret s'. v = Inr (ret, s') \<longrightarrow> cfg_ok (cs_cfg s'))"
  by (rule config_within_bounds [of _ _ "api_of sample_file"]) (simp_all add: api_of_def sample_file_def blank_fresh)

section \<open>Ports\<close>

lemma parse_port_loop_stores:
  assumes "length (cfg_ports c) = CFG_MAX_PORTS" "num_ports c = int k" "k \<le> CFG_MAX_PORTS"
    and good: "\<And>i. i < min CFG_MAX_PORTS n \<Longrightarrow> 0 < f (int i) \<and> f (int i) \<le> 65534"
    and "config_setting_length api ports = int n" "config_setting_get_int_elem api ports = f"
    and "take k (cfg_ports c) = map (\<lambda>i. of_int (f (int i))) [0..<k]" "k \<le> n"
  shows "\<exists>c'. parse_port_loop api ports c = Inr (0, c') \<and> num_ports c' = int (min CFG_MAX_PORTS n) \<and>
    take (min CFG_MAX_PORTS n) (cfg_ports c') = map (\<lambda>i. of_int (f (int i))) [0..<min CFG_MAX_PORTS n]"
  using assms
proof (induction "CFG_MAX_PORTS - k" arbitrary: c k)
  case 0
  then show ?case by (subst parse_port_loop.simps) simp
next
  case (Suc d)
  show ?case
  proof (cases "k < n")
    case True
    let ?c = "c\<lparr>cfg_ports := (cfg_ports c)[k := of_int (f (int k))], num_ports := num_ports c + 1\<rparr>"
    have k: "k < CFG_MAX_PORTS" using Suc.hyps(2) by simp
    then have p: "0 < f (int k) \<and> f (int k) \<le> 65534" using Suc.prems(4) True by simp
    have a: "add_port (f (int k)) c = Inr (0, ?c)" using p k Suc.prems(1,2) by (simp add: add_port_def)
    have t: "take (Suc k) (cfg_ports ?c) = map (\<lambda>i. of_int (f (int i))) [0..<Suc k]"
      using take_snoc_update [of k "cfg_ports c"] Suc.prems(1,7) k by simp
    have "\<exists>c'. parse_port_loop api ports ?c = Inr (0, c') \<and> num_ports c' = int (min CFG_MAX_PORTS n) \<and>
      take (min CFG_MAX_PORTS n) (cfg_ports c') = map (\<lambda>i. of_int (f (int i))) [0..<min CFG_MAX_PORTS n]"
      by (rule Suc.hyps(1) [of "Suc k"]) (use Suc.prems Suc.hyps(2) k t True in simp_all)
    then show ?thesis using a k True Suc.prems by (subst parse_port_loop.simps) simp
  next
    case False
    then have "k = n" using Suc.prems(8) by simp
    moreover from this have "min CFG_MAX_PORTS n = n" using Suc.prems(3) by simp
    ultimately show ?thesis using Suc.prems(2,5,7) by (subst parse_port_loop.simps) simp
  qed
qed

text \<open>
  A list of ports is stored in its order, the first sixteen of it, and counted; ports beyond the sixteenth are left out without
  a report.
\<close>

theorem port_list_stored:
  assumes "config_lookup api ''port'' = Some ports" "config_setting_get_int api ports = 0" "config_setting_length api ports = int n"
    and "\<And>i. i < min CFG_MAX_PORTS n \<Longrightarrow> 0 < config_setting_get_int_elem api ports (int i) \<and> config_setting_get_int_elem api ports (int i) \<le> 65534"
    and "length (cfg_ports (cs_cfg s)) = CFG_MAX_PORTS"
  shows "\<exists>s'. parse_port api s = Some (Inr (0, s')) \<and> num_ports (cs_cfg s') = int (min CFG_MAX_PORTS n) \<and>
    take (min CFG_MAX_PORTS n) (cfg_ports (cs_cfg s')) = map (\<lambda>i. of_int (config_setting_get_int_elem api ports (int i))) [0..<min CFG_MAX_PORTS n]"
proof -
  let ?c = "(cs_cfg s)\<lparr>num_ports := 0\<rparr>"
  obtain c' where "parse_port_loop api ports ?c = Inr (0, c')" "num_ports c' = int (min CFG_MAX_PORTS n)"
    "take (min CFG_MAX_PORTS n) (cfg_ports c') = map (\<lambda>i. of_int (config_setting_get_int_elem api ports (int i))) [0..<min CFG_MAX_PORTS n]"
    using parse_port_loop_stores [of ?c 0 n "config_setting_get_int_elem api ports" api ports] assms(3-5) by auto
  then show ?thesis using assms(1,2) by (simp add: parse_port_def lift_cfg_def)
qed

theorem port_list_stored_witness:
  "\<exists>s'. parse_port (api_of sample_file) \<lparr>cs_cfg = blank_cfg, cs_net = sample_net\<rparr> = Some (Inr (0, s')) \<and> num_ports (cs_cfg s') = 2 \<and>
     take 2 (cfg_ports (cs_cfg s')) = [8000, 8001]"
proof -
  have "\<exists>s'. parse_port (api_of sample_file) \<lparr>cs_cfg = blank_cfg, cs_net = sample_net\<rparr> = Some (Inr (0, s')) \<and>
    num_ports (cs_cfg s') = int (min CFG_MAX_PORTS 2) \<and> take (min CFG_MAX_PORTS 2) (cfg_ports (cs_cfg s')) =
      map (\<lambda>i. of_int (config_setting_get_int_elem (api_of sample_file) (SList [SInt 8000, SInt 8001]) (int i))) [0..<min CFG_MAX_PORTS 2]"
  proof (rule port_list_stored, goal_cases)
    case (4 i)
    then have "i = 0 \<or> i = 1" by auto
    then show ?case by (auto simp: api_of_def nth_opt_def)
  qed (simp_all add: api_of_def sample_file_def blank_cfg_def)
  then show ?thesis by (simp add: CFG_MAX_PORTS_def api_of_def nth_opt_def upt_rec)
qed

section \<open>Host address\<close>

lemma netmask_bits:
  assumes "0 < n" "n < 32"
  shows "\<exists>m. netmask (int n) = Inr m \<and> (\<forall>i<32. bit m i \<longleftrightarrow> 32 - n \<le> i)"
proof -
  have "bit (drop_bit n (0xFFFFFFFF :: u32)) i \<longleftrightarrow> i < 32 - n" if "i < 32" for i
  proof -
    have "(0xFFFFFFFF :: u32) = mask 32" by (simp add: mask_eq_exp_minus_1)
    then have "bit (drop_bit n (0xFFFFFFFF :: u32)) i = bit (mask 32 :: u32) (n + i)" by (simp only: bit_drop_bit_eq comp_def)
    then show ?thesis using that assms by (auto simp: bit_mask_iff)
  qed
  then show ?thesis using assms by (auto simp: netmask_def bit_simps)
qed

text \<open>
  A host address written as an address and a prefix length gives the address, the mask of that many leading ones and the
  broadcast address of the network.  For a length of 32 or more the mask is computed by an undefined shift.
\<close>

theorem host_addr_parsed:
  assumes "config_lookup_string api ''host_addr'' = Some (ip_addr_to_str a @ CHR ''/'' # dec_digits n)" "0 < n" "n < 2 ^ 31"
  shows "if n < 32
    then \<exists>s'. parse_host_addr api s = Some (Inr (0, s')) \<and> host_addr (cs_cfg s') = a \<and>
      (\<forall>i<32. bit (cfg_mask (cs_cfg s')) i \<longleftrightarrow> 32 - n \<le> i) \<and> (\<forall>i<32. bit (broadcast_addr (cs_cfg s')) i \<longleftrightarrow> bit a i \<or> i < 32 - n)
    else parse_host_addr api s = Some (Inl Bad_shift)"
proof -
  have "strtok_slash (ip_addr_to_str a @ CHR ''/'' # dec_digits n) = Some (ip_addr_to_str a, dec_digits n)"
    by (rule strtok_address [OF ip_addr_no_slash ip_addr_to_str_nonempty])
  then have p: "parse_host_addr api s = bindR (Some (netmask (int n))) (\<lambda>m.
      Some (Inr (0, upd_cfg (\<lambda>c. c\<lparr>cfg_mask := m, broadcast_addr := host_addr c OR NOT m\<rparr>) (upd_cfg (\<lambda>c. c\<lparr>host_addr := a\<rparr>) s))))"
    using assms by (simp add: parse_host_addr_def read_ip_addr strtok_rest_def dec_digits_nonempty atoi_dec)
  show ?thesis
  proof (cases "n < 32")
    case True
    then obtain m where "netmask (int n) = Inr m" "\<forall>i<32. bit m i \<longleftrightarrow> 32 - n \<le> i" using netmask_bits assms(2) by blast
    then show ?thesis unfolding p using True by (auto simp: upd_cfg_def bit_simps)
  next
    case False
    then show ?thesis unfolding p by (simp add: netmask_def)
  qed
qed

theorem host_addr_parsed_witness:
  "\<exists>s'. parse_host_addr (api_of sample_file) \<lparr>cs_cfg = blank_cfg, cs_net = sample_net\<rparr> = Some (Inr (0, s')) \<and>
     host_addr (cs_cfg s') = 0xC0A80001 \<and> (\<forall>i<32. bit (cfg_mask (cs_cfg s')) i \<longleftrightarrow> 8 \<le> i) \<and>
     (\<forall>i<32. bit (broadcast_addr (cs_cfg s')) i \<longleftrightarrow> bit (0xC0A80001 :: u32) i \<or> i < 8)"
  using host_addr_parsed [where api = "api_of sample_file" and a = "0xC0A80001" and n = 24 and s = "\<lparr>cs_cfg = blank_cfg, cs_net = sample_net\<rparr>"]
  by (simp add: api_of_def sample_file_def)

section \<open>Static entries of the address table\<close>

text \<open>The entries of the file, parsed: element, address and hardware address.\<close>

definition arp_setting :: "'s config_api \<Rightarrow> 's \<Rightarrow> nat \<Rightarrow> u32 \<times> u8 list \<Rightarrow> bool" where
  "arp_setting api arp i kv \<longleftrightarrow> (\<exists>entry ip mac. config_setting_get_elem api arp i = Some entry \<and>
     config_setting_lookup_string api entry ''ip'' = Some ip \<and> config_setting_lookup_string api entry ''mac'' = Some mac \<and>
     str_to_ip_addr ip = Inr (fst kv) \<and> str_to_eth_addr mac = Inr (snd kv))"

lemma str_to_eth_addr_length: "str_to_eth_addr t = Inr mac \<Longrightarrow> length mac = 6"
  by (auto simp: str_to_eth_addr_def Let_def split: if_splits)

lemma parse_arp_loop_inserts:
  assumes "list_all2 (arp_setting api arp) is kvs" "addr_table.insert_all (arp_insert env) kvs (cs_net s) = Some (Inr (0, ns))"
  shows "parse_arp_loop api env arp is s = Some (Inr (0, s\<lparr>cs_net := ns\<rparr>))"
  using assms
proof (induction "is" kvs arbitrary: s rule: list_all2_induct)
  case Nil
  then show ?case by (simp add: arp.insert_all.simps)
next
  case (Cons i "is" kv kvs)
  obtain ns1 where ns1: "arp_insert env (fst kv) (snd kv) (cs_net s) = Some (Inr (0, ns1))"
    "addr_table.insert_all (arp_insert env) kvs ns1 = Some (Inr (0, ns))"
    using Cons.prems
    by (cases "arp_insert env (fst kv) (snd kv) (cs_net s)"; cases "the (arp_insert env (fst kv) (snd kv) (cs_net s))")
      (auto simp: arp.insert_all.simps split: if_splits)
  then show ?case using Cons.hyps(1) Cons.IH [of "s\<lparr>cs_net := ns1\<rparr>"] by (auto simp: arp_setting_def)
qed

text \<open>
  C22: After the static entries of a configuration file were read into an empty table with room for them, every listed address
  resolves to its hardware address, and messages from the network cannot change it.
\<close>

theorem static_entries_resolve:
  assumes "config_lookup api ''arp'' = Some arp" "list_all2 (arp_setting api arp) [0..<nat (config_setting_length api arp)] kvs"
    and "arp_static env (cs_net s) Map.empty n" "length kvs \<le> n" "distinct (map fst kvs)"
  shows "\<exists>ns. parse_arp api env s = Some (Inr (0, s\<lparr>cs_net := ns\<rparr>)) \<and>
    (\<forall>(a, mac) \<in> set kvs. (\<forall>tsc cyc. arp_lookup_mac env tsc cyc a ns = Some (Inr (0, mac, ns))) \<and>
      (\<forall>malloc_ok tsc cyc mac' create. arp_update_mac env malloc_ok tsc cyc a mac' create ns = Some (Inr (0, ns))))"
proof -
  have mac: "length (snd kv) = 6" if kv: "kv \<in> set kvs" for kv
  proof -
    obtain i where "i < length kvs" "kv = kvs ! i" using kv by (auto simp: in_set_conv_nth)
    then show ?thesis using list_all2_nthD2 [OF assms(2)] by (fastforce simp: arp_setting_def dest: str_to_eth_addr_length)
  qed
  have "arp_static env (cs_net s) Map.empty (length kvs + (n - length kvs))" using assms(3,4) by simp
  then obtain ns where ns: "addr_table.insert_all (arp_insert env) kvs (cs_net s) = Some (Inr (0, ns))"
    "arp_static env ns (Map.empty ++ map_of kvs) (n - length kvs)"
    using arp.insert_all_ok [of env "cs_net s" Map.empty kvs "n - length kvs", OF _ assms(5)] mac by fastforce
  have m: "(Map.empty ++ map_of kvs) a = Some mc" if "(a, mc) \<in> set kvs" for a mc using that assms(5) by simp
  show ?thesis
    using parse_arp_loop_inserts [OF assms(2) ns(1)] assms(1) arp_static_lookup [OF ns(2) m] arp_static_update [OF ns(2) m]
    by (auto simp: parse_arp_def)
qed

definition sample_arp :: setting where
  "sample_arp = SList [SGroup [(''ip'', SStr ''10.0.0.1''), (''mac'', SStr ''02:00:00:00:00:0a'')],
     SGroup [(''ip'', SStr ''10.0.0.2''), (''mac'', SStr ''02:00:00:00:00:0b'')]]"

lemma sample_texts:
  "str_to_ip_addr ''10.0.0.1'' = Inr 0x0A000001" "str_to_ip_addr ''10.0.0.2'' = Inr 0x0A000002"
  "str_to_eth_addr ''02:00:00:00:00:0a'' = Inr [2, 0, 0, 0, 0, 10]" "str_to_eth_addr ''02:00:00:00:00:0b'' = Inr [2, 0, 0, 0, 0, 11]"
  by (simp_all add: str_to_ip_addr_def str_to_eth_addr_def scan_num_def sign_def hex_prefix_def digit_val_def char_code_def isspace_def
      to_ulong_def MAKE_IP_ADDR_def)

theorem static_entries_resolve_witness:
  "\<exists>ns. parse_arp (api_of [(''arp'', sample_arp)]) sample_env \<lparr>cs_cfg = blank_cfg, cs_net = sample_net\<rparr> =
       Some (Inr (0, \<lparr>cs_cfg = blank_cfg, cs_net = ns\<rparr>)) \<and>
     arp_lookup_mac sample_env 0 0 0x0A000002 ns = Some (Inr (0, [2, 0, 0, 0, 0, 11], ns))"
proof -
  let ?api = "api_of [(''arp'', sample_arp)]" and ?kvs = "[(0x0A000001, [2, 0, 0, 0, 0, 10]), (0x0A000002, [2, 0, 0, 0, 0, 11])] :: (u32 \<times> u8 list) list"
  have "nat (config_setting_length ?api sample_arp) = 2" by (simp add: api_of_def sample_arp_def)
  then have "[0..<nat (config_setting_length ?api sample_arp)] = [0, 1]" by (simp add: upt_rec)
  then have l: "list_all2 (arp_setting ?api sample_arp) [0..<nat (config_setting_length ?api sample_arp)] ?kvs"
    by (simp add: arp_setting_def api_of_def sample_arp_def nth_opt_def sample_texts)
  show ?thesis
    using static_entries_resolve [OF _ l, of sample_env "\<lparr>cs_cfg = blank_cfg, cs_net = sample_net\<rparr>" 2] sample_static
    by (auto simp: api_of_def)
qed

end
