(* ===== verification/Transmit.thy ===== *)
theory Transmit
  imports Arp
begin

text \<open>
  Sending: the IP and UDP headers of \<open>inc/ix/transmit.h\<close> and \<open>dp/net/udp.c\<close>, the sending of IP packets of \<open>dp/net/ip.c\<close> with the
  packets that wait for address resolution, and the request handler \<open>generic_work\<close> of \<open>dp/core/worker.c\<close> that answers a request.
\<close>

section \<open>Headers\<close>

definition ETH_MTU :: u64 where "ETH_MTU = 1500"
definition UDP_PKT_SIZE :: u64 where "UDP_PKT_SIZE = of_nat (ETH_HDR_LEN + IP_HDR_LEN + UDP_HDR_LEN)"
definition UDP_MAX_LEN :: u64 where "UDP_MAX_LEN = ETH_MTU - of_nat IP_HDR_LEN - of_nat UDP_HDR_LEN"

definition RET_NOBUFS :: int where "RET_NOBUFS = 2"
definition RET_INVAL :: int where "RET_INVAL = 3"
definition RET_AGAIN :: int where "RET_AGAIN = 4"
definition RET_FAULT :: int where "RET_FAULT = 5"
definition RET_NOSYS :: int where "RET_NOSYS = 6"

text \<open>The two halves of the first byte are bit fields; \<open>off\<close> is not written.\<close>

definition ip_setup_header :: "nat \<Rightarrow> u8 \<Rightarrow> u32 \<Rightarrow> u32 \<Rightarrow> u16 \<Rightarrow> bytes \<Rightarrow> bytes" where
  "ip_setup_header p proto saddr daddr l4len d =
     (let d1 = d(p := d p AND 0xF0 OR of_nat (IP_HDR_LEN div 4));
          d2 = d1(p := d1 p AND 0x0F OR 0x40);
          d3 = d2(p + 1 := 0);
          d4 = st16 d3 (p + 2) (hton16 (of_nat IP_HDR_LEN + l4len));
          d5 = st16 d4 (p + 4) 0;
          d6 = d5(p + 8 := 64);
          d7 = d6(p + 9 := proto);
          d8 = st16 d7 (p + 10) 0;
          d9 = st32 d8 (p + 12) (hton32 saddr)
      in st32 d9 (p + 16) (hton32 daddr))"

text \<open>The headers of a datagram: Ethernet at 0, IP at 14, UDP at 34; the destination address was stored by the look-up.\<close>

definition udp_fill :: "cfg_parameters \<Rightarrow> ip_tuple \<Rightarrow> u64 \<Rightarrow> bytes \<Rightarrow> bytes" where
  "udp_fill cfg ident full_len d =
     (let d1 = st_mac d 6 (cfg_mac cfg);
          d2 = st16 d1 12 (hton16 ETHTYPE_IP);
          d3 = ip_setup_header 14 IPPROTO_UDP (host_addr cfg) (dst_ip ident) (ucast full_len) d2;
          d4 = st16 d3 24 (chksum_internet (map d3 [14..<14 + IP_HDR_LEN]));
          d5 = st16 d4 34 (hton16 (src_port ident));
          d6 = st16 d5 36 (hton16 (dst_port ident));
          d7 = st16 d6 38 (hton16 (ucast full_len))
      in st16 d7 40 0)"

section \<open>Datagrams\<close>

text \<open>
  The scatter-gather vectors, stored in the buffer behind the headers: the payload, in two parts when it crosses a page boundary.
  The result is the length of the first part.
\<close>

definition udp_iovs :: "addr \<Rightarrow> addr \<Rightarrow> u64 \<Rightarrow> net_state \<Rightarrow> (u64 \<times> net_state) res" where
  "udp_iovs pkt base n s =
     (let pos = unat (align_up UDP_PKT_SIZE 8);
          s1 = upd_mbuf pkt (\<lambda>b. b\<lparr>mb_iovs := mbuf_addr pkt pos\<rparr>) s
      in bindE (mbuf_iov_create base n (ns_mm s1)) (\<lambda>(v, mm).
         let s2 = upd_mbuf pkt (\<lambda>b. b\<lparr>mb_nr_iov := 1\<rparr>) (upd_data pkt (\<lambda>d. st_iov d pos v) (s1\<lparr>ns_mm := mm\<rparr>));
             k = iov_len v
         in if n \<noteq> k
            then bindE (page_get (base + k) (ns_mm s2)) (\<lambda>(m, mm2).
                 Inr (k, upd_mbuf pkt (\<lambda>b. b\<lparr>mb_nr_iov := 2\<rparr>)
                        (upd_data pkt (\<lambda>d. st_iov d (pos + 24) \<lparr>iov_base = base + k, iov_maddr = m, iov_len = n - k\<rparr>) (s2\<lparr>ns_mm := mm2\<rparr>))))
            else Inr (k, s2)))"

text \<open>\<open>eth_send\<close> on the first transmit queue of this core.\<close>

definition send_on :: "addr \<Rightarrow> net_state \<Rightarrow> (int \<times> net_state) res" where
  "send_on pkt s =
     (if ns_txqs s = [] then Inl Out_of_bounds
      else bindE (eth_send (ns_txqs s ! 0) (ns_store s) pkt) (\<lambda>(ret, txq). Inr (ret, s\<lparr>ns_txqs := (ns_txqs s)[0 := txq]\<rparr>)))"

definition udp_send :: "net_env \<Rightarrow> u64 \<Rightarrow> u32 \<Rightarrow> addr \<Rightarrow> u64 \<Rightarrow> ip_tuple \<Rightarrow> u64 \<Rightarrow> net_state \<Rightarrow> (int \<times> net_state) res option" where
  "udp_send env tsc cyc data n ident cookie s =
     (if n > UDP_MAX_LEN then Some (Inr (- RET_INVAL, s))
      else bindR (Some (mbuf_alloc_local env s)) (\<lambda>(pkt, s1).
           if pkt = NULL then Some (Inr (- RET_NOBUFS, s1))
           else bindR (Some (udp_iovs pkt data n s1)) (\<lambda>(k, s2).
                let s3 = upd_mbuf pkt (\<lambda>b. b\<lparr>mb_done := ne_udp_mbuf_done env, mb_done_data := cookie\<rparr>) s2;
                    full_len = k + of_nat UDP_HDR_LEN
                in bindR (arp_lookup_mac env tsc cyc (dst_ip ident) s3) (\<lambda>(ret, mac, s4).
                   if ret \<noteq> 0 then bindR (Some (mbuf_free pkt s4)) (\<lambda>s5. Some (Inr (- RET_AGAIN, s5)))
                   else let s5 = upd_data pkt (\<lambda>d. udp_fill (ne_cfg env) ident full_len (st_mac d 0 mac)) s4;
                            s6 = upd_mbuf pkt (\<lambda>b. b\<lparr>mb_ol_flags := 0, mb_len := UDP_PKT_SIZE\<rparr>) s5
                        in if ne_eth_dev_count env > 1 then Some (Inl Panic)
                           else bindR (Some (send_on pkt s6)) (\<lambda>(ret, s7).
                                if ret \<noteq> 0 then bindR (Some (mbuf_free pkt s7)) (\<lambda>s8. Some (Inr (ret, s8)))
                                else Some (Inr (0, s7)))))))"

text \<open>Dropping the references to the payload; the vectors are found through \<open>iovs\<close>.\<close>

definition iov_at :: "addr \<Rightarrow> mbuf \<Rightarrow> nat \<Rightarrow> mbuf_iov" where
  "iov_at m b i = ld_iov (mb_data b) (unat (mb_iovs b - mbuf_addr m 0) + 24 * i)"

primrec free_iovs :: "os \<Rightarrow> addr \<Rightarrow> mbuf \<Rightarrow> nat list \<Rightarrow> mm \<Rightarrow> mm res" where
  "free_iovs os m b [] s = Inr s"
| "free_iovs os m b (i # is) s = bindE (mbuf_iov_free os (iov_at m b i) s) (free_iovs os m b is)"

definition udp_mbuf_done :: "net_env \<Rightarrow> addr \<Rightarrow> net_state \<Rightarrow> net_state res" where
  "udp_mbuf_done env pkt s =
     (let b = ns_store s pkt
      in bindE (free_iovs (ne_os env) pkt b [0..<unat (mb_nr_iov b)] (ns_mm s)) (\<lambda>mm.
         let s1 = s\<lparr>ns_mm := mm\<rparr>
         in bindE (pool_free (ns_heap s1) (ns_responses s1) (mb_done_data b)) (\<lambda>(h, p).
            mbuf_free pkt (set_heap h (s1\<lparr>ns_responses := p\<rparr>)))))"

text \<open>The call through \<open>done\<close> when the device has sent the buffer.\<close>

definition mbuf_xmit_done :: "net_env \<Rightarrow> addr \<Rightarrow> net_state \<Rightarrow> net_state res" where
  "mbuf_xmit_done env m s =
     (let f = mb_done (ns_store s m)
      in if f = ne_mbuf_default_done env then mbuf_default_done m s
         else if f = ne_udp_mbuf_done env then udp_mbuf_done env m s
         else Inl Out_of_bounds)"

section \<open>Datagrams of user processes\<close>

definition udp_output :: "net_env \<Rightarrow> u64 \<Rightarrow> u32 \<Rightarrow> addr \<Rightarrow> ip_tuple \<Rightarrow> u64 \<Rightarrow> net_state \<Rightarrow> (int \<times> net_state) res option" where
  "udp_output env tsc cyc pkt ident n s =
     (let full_len = n + of_nat UDP_HDR_LEN
      in bindR (arp_lookup_mac env tsc cyc (dst_ip ident) s) (\<lambda>(ret, mac, s1).
         if ret \<noteq> 0 then Some (Inr (- RET_AGAIN, s1))
         else let s2 = upd_data pkt (\<lambda>d. udp_fill (ne_cfg env) ident full_len (st_mac d 0 mac)) s1;
                  s3 = upd_mbuf pkt (\<lambda>b. b\<lparr>mb_ol_flags := 0, mb_len := UDP_PKT_SIZE\<rparr>) s2
              in if ne_eth_dev_count env > 1 then Some (Inl Panic) else Some (send_on pkt s3)))"

definition MEM_USER_END :: addr where "MEM_USER_END = 0x100000000000"
definition MEM_ZC_USER_START :: addr where "MEM_ZC_USER_START = 0x8000000000"
definition MEM_ZC_USER_END :: addr where "MEM_ZC_USER_END = 0x101000000000"

definition uaccess_okay :: "addr \<Rightarrow> u64 \<Rightarrow> bool" where
  "uaccess_okay a n =
     (if n > MEM_USER_END - MEM_USER_START \<or> a < MEM_USER_START \<or> a + n > MEM_USER_END then False else True)"

definition uaccess_zc_okay :: "addr \<Rightarrow> u64 \<Rightarrow> bool" where
  "uaccess_zc_okay a n =
     (if n > MEM_ZC_USER_END - MEM_ZC_USER_START \<or> a < MEM_ZC_USER_START \<or> a + n > MEM_ZC_USER_END then False else True)"

text \<open>
  Copying a structure from user memory: \<open>user\<close> is what the memory holds there, \<open>None\<close> when the access faults.
\<close>

definition EFAULT :: int where "EFAULT = 14"

definition copy_from_user :: "(addr \<Rightarrow> 'a option) \<Rightarrow> addr \<Rightarrow> u64 \<Rightarrow> int + 'a" where
  "copy_from_user user src n =
     (if \<not> uaccess_okay src n then Inl (- EFAULT)
      else case user src of None \<Rightarrow> Inl (- EFAULT) | Some x \<Rightarrow> Inr x)"

text \<open>
  The walk of the page table: \<open>dir\<close> reads an entry of a directory.  The macros for indices, flags and addresses are those of
  libdune.
\<close>

definition PDX :: "nat \<Rightarrow> addr \<Rightarrow> nat" where "PDX n la = unat (drop_bit (12 + 9 * n) la AND 0x1FF)"
definition PTE_FLAGS :: "u64 \<Rightarrow> u64" where "PTE_FLAGS pte = pte AND 0xfff0000000000fff"

definition vm_lookup_phys :: "(addr \<Rightarrow> nat \<Rightarrow> u64) \<Rightarrow> addr \<Rightarrow> addr \<Rightarrow> int \<Rightarrow> u64" where
  "vm_lookup_phys dir pgdir virt pgsize =
     (let pte = dir pgdir (PDX 3 virt)
      in if PTE_FLAGS pte AND PTE_P = 0 then 0
         else let pte = dir (PTE_ADDR pte) (PDX 2 virt)
         in if PTE_FLAGS pte AND PTE_P = 0 then 0
         else if pgsize = PGSIZE_1GB then PTE_ADDR pte
         else let pte = dir (PTE_ADDR pte) (PDX 1 virt)
         in if PTE_FLAGS pte AND PTE_P = 0 then 0
         else if pgsize = PGSIZE_2MB then PTE_ADDR pte
         else let pte = dir (PTE_ADDR pte) (PDX 0 virt)
         in if PTE_FLAGS pte AND PTE_P = 0 then 0 else PTE_ADDR pte)"

definition bsys_udp_send ::
  "net_env \<Rightarrow> u64 \<Rightarrow> u32 \<Rightarrow> (addr \<Rightarrow> ip_tuple option) \<Rightarrow> (addr \<Rightarrow> nat \<Rightarrow> u64) \<Rightarrow> addr \<Rightarrow> addr \<Rightarrow> u64 \<Rightarrow> addr \<Rightarrow> u64 \<Rightarrow>
     net_state \<Rightarrow> (int \<times> net_state) res option" where
  "bsys_udp_send env tsc cyc user dir pgdir vaddr n ident cookie s =
     (if n > UDP_MAX_LEN then Some (Inr (- RET_INVAL, s))
      else case copy_from_user user ident 12 of
        Inl _ \<Rightarrow> Some (Inr (- RET_FAULT, s))
      | Inr tmp \<Rightarrow>
        if \<not> uaccess_zc_okay vaddr n then Some (Inr (- RET_FAULT, s))
        else let pa = vm_lookup_phys dir pgdir vaddr PGSIZE_2MB
        in if pa = 0 then Some (Inr (- RET_FAULT, s))
        else bindR (Some (mbuf_alloc_local env s)) (\<lambda>(pkt, s1).
             if pkt = NULL then Some (Inr (- RET_NOBUFS, s1))
             else bindR (Some (udp_iovs pkt (pa + PGOFF_2MB vaddr) n s1)) (\<lambda>(k, s2).
                  let s3 = upd_mbuf pkt (\<lambda>b. b\<lparr>mb_done := ne_udp_mbuf_done env, mb_done_data := cookie\<rparr>) s2
                  in bindR (udp_output env tsc cyc pkt tmp k s3) (\<lambda>(ret, s4).
                     if ret \<noteq> 0
                     then let b = ns_store s4 pkt
                          in bindR (Some (free_iovs (ne_os env) pkt b [0..<unat (mb_nr_iov b)] (ns_mm s4))) (\<lambda>mm.
                             bindR (Some (mbuf_free pkt (s4\<lparr>ns_mm := mm\<rparr>))) (\<lambda>s5. Some (Inr (ret, s5))))
                     else Some (Inr (0, s4))))))"

definition bsys_udp_sendv :: int where
  "bsys_udp_sendv = - RET_NOSYS"

definition bsys_udp_recv_done :: "addr \<Rightarrow> net_state \<Rightarrow> (int \<times> net_state) res" where
  "bsys_udp_recv_done iomap s =
     bindE (mempool_iomap_to_ptr (fst (ns_mbufs s)) iomap) (\<lambda>a.
     let off = PGOFF_2MB a;
         m = PGADDR_2MB a + off div of_nat MBUF_LEN * of_nat MBUF_LEN
     in bindE (derefE m) (\<lambda>_.
        if mb_done (ns_store s m) \<noteq> 0xDEADBEEF then Inr (- RET_INVAL, s)
        else bindE (mbuf_free m (upd_mbuf m (\<lambda>b. b\<lparr>mb_done := NULL\<rparr>) s)) (\<lambda>s1. Inr (0, s1))))"

section \<open>IP packets\<close>

text \<open>A failure of \<open>arp_add_pending_pkt\<close> is not reported.\<close>

definition ip_send_one :: "net_env \<Rightarrow> u64 \<Rightarrow> u32 \<Rightarrow> addr \<Rightarrow> u32 \<Rightarrow> addr \<Rightarrow> u64 \<Rightarrow> net_state \<Rightarrow> (int \<times> net_state) res option" where
  "ip_send_one env tsc cyc cur_fg dst_addr pkt n s =
     (let cfg = ne_cfg env;
          s1 = upd_data pkt (\<lambda>d. st16 (st_mac d 6 (cfg_mac cfg)) 12 (hton16 ETHTYPE_IP)) s;
          next_hop = (if dst_addr AND cfg_mask cfg = host_addr cfg AND cfg_mask cfg then dst_addr else gateway_addr cfg)
      in bindR (arp_lookup_mac env tsc cyc next_hop s1) (\<lambda>(ret, mac, s2).
         if ret \<noteq> 0 then bindR (arp_add_pending_pkt env next_hop cur_fg pkt n s2) (\<lambda>(ret, s3). Some (Inr (0, s3)))
         else let s3 = upd_data pkt (\<lambda>d. st_mac d 0 mac) s2;
                  dev = unat (ucast (ns_heap s3 cur_fg FG_DEV_IDX) :: u32)
              in bindR (Some (derefE cur_fg)) (\<lambda>_.
                 bindR (Some (send_one_on dev pkt n s3)) (\<lambda>(ret, s4). Some (Inr (if ret \<noteq> 0 then - EIO else 0, s4))))))"

definition send_pending_pkt :: "net_env \<Rightarrow> u64 \<Rightarrow> u32 \<Rightarrow> addr \<Rightarrow> net_state \<Rightarrow> net_state res option" where
  "send_pending_pkt env tsc cyc pkt s =
     (let h = ns_heap s
      in bindR (ip_send_one env tsc cyc (h pkt PP_FG) (ucast (h pkt PP_DST_ADDR)) (h pkt PP_MBUF) (scast (ucast (h pkt PP_LEN) :: u32)) s) (\<lambda>(ret, s1).
         bindR (if ret \<noteq> 0 then Some (mbuf_free (h pkt PP_MBUF) s1) else Some (Inr s1)) (\<lambda>s2.
         bindR (spin_lock (ns_pending_lock s2)) (\<lambda>l.
         bindR (Some (hlist_del pkt (ns_heap s2))) (\<lambda>h2.
         bindR (Some (pool_free h2 (ns_pending s2) pkt)) (\<lambda>(h3, p).
         Some (Inr (set_heap h3 (s2\<lparr>ns_pending := p, ns_pending_lock := spin_unlock l\<rparr>)))))))))"

text \<open>The payload of a TCP segment as the chain of buffers has it, and the length the first buffer claims for the chain.\<close>

definition PKT_TX_IP_CKSUM :: u16 where "PKT_TX_IP_CKSUM = 0x1000"
definition PKT_TX_TCP_CKSUM :: u16 where "PKT_TX_TCP_CKSUM = 0x2000"

definition copy_bytes :: "nat \<Rightarrow> u8 list \<Rightarrow> bytes \<Rightarrow> bytes" where
  "copy_bytes off xs d = (\<lambda>x. if off \<le> x \<and> x < off + length xs then xs ! (x - off) else d x)"

primrec copy_pbufs :: "nat \<Rightarrow> u8 list list \<Rightarrow> bytes \<Rightarrow> bytes res" where
  "copy_pbufs off [] d = Inr d"
| "copy_pbufs off (p # ps) d =
     (if off + length p > MBUF_DATA_LEN then Inl Out_of_bounds else copy_pbufs (off + length p) ps (copy_bytes off p d))"

definition ip_output_hinted ::
  "net_env \<Rightarrow> u64 \<Rightarrow> u32 \<Rightarrow> addr \<Rightarrow> u8 list list \<Rightarrow> u16 \<Rightarrow> u32 \<Rightarrow> u32 \<Rightarrow> u8 \<Rightarrow> u8 \<Rightarrow> u8 \<Rightarrow> net_state \<Rightarrow> (int \<times> net_state) res option" where
  "ip_output_hinted env tsc cyc cur_fg ps tot_len src dest ttl tos proto s =
     bindR (Some (mbuf_alloc_local env s)) (\<lambda>(pkt, s1).
     if pkt = NULL then Some (Inr (- ENOMEM, s1))
     else let d = mb_data (ns_store s1 pkt);
              d1 = ip_setup_header 14 proto (ntoh32 src) (ntoh32 dest) tot_len d;
              d2 = d1(15 := tos, 22 := ttl)
          in bindR (Some (copy_pbufs 34 ps d2)) (\<lambda>d3.
             let s2 = upd_mbuf pkt (\<lambda>b. b\<lparr>mb_data := d3, mb_ol_flags := PKT_TX_IP_CKSUM OR PKT_TX_TCP_CKSUM\<rparr>) s1
             in bindR (ip_send_one env tsc cyc cur_fg (ntoh32 dest) pkt (of_nat (ETH_HDR_LEN + IP_HDR_LEN) + ucast tot_len) s2) (\<lambda>(ret, s3).
                if ret \<noteq> 0 then bindR (Some (mbuf_free pkt s3)) (\<lambda>s4. Some (Inr (- EIO, s4))) else Some (Inr (0, s3)))))"

section \<open>The request handler\<close>

text \<open>The busy loop, in double precision; it counts up from \<open>i\<close>.\<close>

partial_function (option) work_loop :: "u64 \<Rightarrow> u64 \<Rightarrow> u64 option" where
  "work_loop i runNs =
     (let i1 = i + 1
      in if rnd 53 (rnd 53 (of_nat (unat i1)) * rnd 53 (9 / 10)) < rnd 53 (of_nat (unat runNs)) then work_loop i1 runNs else Some i1)"

abbreviation RESP_RUN_NS :: nat where "RESP_RUN_NS \<equiv> 0"
abbreviation RESP_GEN_NS :: nat where "RESP_GEN_NS \<equiv> 8"
abbreviation RESP_RECV_NS :: nat where "RESP_RECV_NS \<equiv> 16"
abbreviation RESP_SEND_NS :: nat where "RESP_SEND_NS \<equiv> 24"
abbreviation RESP_NETWORKER_CY :: nat where "RESP_NETWORKER_CY \<equiv> 32"
abbreviation RESP_DISPATCHER_CY :: nat where "RESP_DISPATCHER_CY \<equiv> 40"

text \<open>
  \<open>generic_work\<close> up to its last switch to the main context, when no interrupt preempts it.  Both pointers it is given point into
  the data of the buffer \<open>pkt\<close>.  The last component of the result counts the responses sent.
\<close>

definition generic_work ::
  "net_env \<Rightarrow> u64 \<Rightarrow> u32 \<Rightarrow> u64 \<Rightarrow> addr \<Rightarrow> u32 \<Rightarrow> u32 \<Rightarrow> u32 \<Rightarrow> u32 \<Rightarrow> u32 \<Rightarrow> u32 \<Rightarrow> worker_tls \<times> net_state \<times> u64 \<Rightarrow>
     (worker_tls \<times> net_state \<times> u64) res option" where
  "generic_work env tsc cyc send_tsc pkt hi lo hi_id lo_id hi_ts lo_ts st =
     (case st of (tls, s, sent) \<Rightarrow>
      let ident = unat (join_words hi_id lo_id - mbuf_addr pkt 0);
          req = unat (join_words hi lo - mbuf_addr pkt 0);
          recv_cycles = join_words hi_ts lo_ts;
          d = mb_data (ns_store s pkt);
          runNs = ld64 d req;
          genNs = ld64 d (req + 8)
      in case work_loop 0 runNs of
           None \<Rightarrow> None
         | Some _ \<Rightarrow>
           bindR (Some (pool_alloc (ns_heap s) (ns_responses s))) (\<lambda>(resp, p).
           let s1 = s\<lparr>ns_responses := p\<rparr>
           in if resp = NULL then Some (Inr (tls\<lparr>finished := True\<rparr>, s1, sent))
              else let h = hwrite (hwrite (hwrite (hwrite (hwrite (hwrite (ns_heap s1) resp RESP_GEN_NS genNs) resp RESP_RUN_NS runNs)
                         resp RESP_RECV_NS recv_cycles) resp RESP_NETWORKER_CY (tls_networker_cy tls))
                         resp RESP_DISPATCHER_CY (tls_dispatcher_cy tls)) resp RESP_SEND_NS send_tsc;
                       t = load_ip_tuple (\<lambda>x. d (ident + x));
                       new_id = \<lparr>src_ip = dst_ip t, dst_ip = src_ip t, src_port = dst_port t, dst_port = src_port t\<rparr>
                   in bindR (udp_send env tsc cyc resp 48 new_id resp (set_heap h s1)) (\<lambda>(ret, s2).
                      Some (Inr (tls\<lparr>finished := True\<rparr>, s2, if ret = 0 then sent + 1 else sent)))))"

section \<open>Allocation of a buffer\<close>

lemma mbuf_alloc_local_ok:
  assumes "mempool_ok (ns_heap s) (ns_mbufs s) F L" "F \<noteq> {}"
  shows "\<exists>pkt p b. mbuf_alloc_local env s = Inr (pkt, s\<lparr>ns_mbufs := p, ns_store := (ns_store s)(pkt := b)\<rparr>) \<and> pkt \<in> F \<and> pkt \<noteq> NULL \<and>
    mempool_ok (ns_heap s) p (F - {pkt}) (insert pkt L) \<and> mb_data b = mb_data (ns_store s pkt) \<and> mb_next b = NULL"
proof -
  obtain pkt p where "pool_alloc (ns_heap s) (ns_mbufs s) = Inr (pkt, p)" "pkt \<in> F" "mempool_ok (ns_heap s) p (F - {pkt}) (insert pkt L)"
    using mp.alloc_some [OF assms] by blast
  moreover from this have "pkt \<noteq> NULL" using mp.ok_sets [OF assms(1)] by auto
  ultimately show ?thesis
    by (intro exI [of _ pkt] exI [of _ p] exI [of _ "(ns_store s pkt)\<lparr>mb_len := ns_heap s pkt HDR_NEXT, mb_next := NULL, mb_done := ne_mbuf_default_done env\<rparr>"])
      (simp add: mbuf_alloc_local_def mbuf_alloc_def)
qed

end
