(* ===== verification/Work_Loop.thy ===== *)
theory Work_Loop
  imports Transmit
begin

text \<open>
  The busy loop of \<open>generic_work\<close> ends, and the number of its rounds is what the run time of the request asks for, in spite of the
  rounding of its floating point test.
\<close>

definition loop_stops :: "nat \<Rightarrow> u64 \<Rightarrow> bool" where
  "loop_stops k runNs \<longleftrightarrow> \<not> rnd 53 (rnd 53 (of_nat k) * rnd 53 (9 / 10)) < rnd 53 (of_nat (unat runNs))"

lemma work_loop_first:
  assumes "i < k" "k < 2 ^ 64" "loop_stops k runNs" "\<And>j. i < j \<Longrightarrow> j < k \<Longrightarrow> \<not> loop_stops j runNs"
  shows "work_loop (of_nat i) runNs = Some (of_nat k)"
  using assms
proof (induction "k - i" arbitrary: i)
  case (Suc d)
  have u: "unat (of_nat (Suc i) :: u64) = Suc i" using Suc.prems(1,2) by (intro unat_of_nat64) simp
  have e: "(of_nat i :: u64) + 1 = of_nat (Suc i)" by simp
  show ?case
  proof (cases "Suc i = k")
    case True
    then show ?thesis using Suc.prems(3) u unfolding loop_stops_def by (subst work_loop.simps) (simp only: e Let_def if_False)
  next
    case False
    then have "\<not> loop_stops (Suc i) runNs" using Suc.prems(1,4) by simp
    moreover have "work_loop (of_nat (Suc i)) runNs = Some (of_nat k)" using Suc.hyps(1) [of "Suc i"] Suc.hyps(2) Suc.prems False by (simp del: of_nat_Suc)
    ultimately show ?thesis using u unfolding loop_stops_def by (subst work_loop.simps) (simp only: e Let_def not_not if_True)
  qed
qed simp

lemma rnd_nat_exact: "k < 2 ^ 53 \<Longrightarrow> rnd 53 (of_nat k) = of_nat k"
  using rnd_int_exact [of "int k" 53] by simp

text \<open>The product the loop compares, with the errors of its two roundings.\<close>

lemma loop_product:
  assumes "0 < k" "k < 2 ^ 53"
  defines "p \<equiv> rnd 53 (rnd 53 (of_nat k) * rnd 53 (9 / 10))"
  shows "of_nat k * (9 / 10) * (1 - 1 / 2 ^ 51) \<le> p" "p \<le> of_nat k * (9 / 10) * (1 + 1 / 2 ^ 51)"
proof -
  define c where "c = rnd 53 (9 / 10)"
  define x where "x = of_nat k * c"
  have c: "\<bar>c - 9 / 10\<bar> \<le> 9 / 10 / 2 ^ 53" unfolding c_def using rnd_rel_error [of "9 / 10" 53] by (simp add: power_int_minus field_simps)
  have c': "9 / 10 * (1 - 1 / 2 ^ 53) \<le> c" "c \<le> 9 / 10 * (1 + 1 / 2 ^ 53)" using c unfolding abs_le_iff by (simp_all add: field_simps)
  have x0: "0 < x" using c'(1) assms(1) by (simp add: x_def)
  have px: "\<bar>p - x\<bar> \<le> x / 2 ^ 53"
    using rnd_rel_error [OF x0, of 53] assms(2) by (simp add: p_def x_def c_def rnd_nat_exact power_int_minus field_simps)
  have p: "x * (1 - 1 / 2 ^ 53) \<le> p" "p \<le> x * (1 + 1 / 2 ^ 53)" using px unfolding abs_le_iff by (simp_all add: field_simps)
  have x: "of_nat k * (9 / 10 * (1 - 1 / 2 ^ 53)) \<le> x" "x \<le> of_nat k * (9 / 10 * (1 + 1 / 2 ^ 53))"
    unfolding x_def using c' by (intro mult_left_mono; simp)+
  have k: "(0 :: rat) \<le> of_nat k" by simp
  have "of_nat k * (9 / 10) * (1 - 1 / 2 ^ 51) \<le> of_nat k * (9 / 10 * (1 - 1 / 2 ^ 53)) * (1 - 1 / 2 ^ 53 :: rat)" using k by (simp add: field_simps)
  also have "\<dots> \<le> x * (1 - 1 / 2 ^ 53)" by (rule mult_right_mono [OF x(1)]) simp
  finally show "of_nat k * (9 / 10) * (1 - 1 / 2 ^ 51) \<le> p" using p(1) by simp
  have "x * (1 + 1 / 2 ^ 53) \<le> of_nat k * (9 / 10 * (1 + 1 / 2 ^ 53)) * (1 + 1 / 2 ^ 53)" by (rule mult_right_mono [OF x(2)]) simp
  also have "\<dots> \<le> of_nat k * (9 / 10) * (1 + 1 / 2 ^ 51)" using k by (simp add: field_simps)
  finally show "p \<le> of_nat k * (9 / 10) * (1 + 1 / 2 ^ 51)" using p(2) by simp
qed

lemma loop_stops_iff:
  assumes "unat runNs \<le> 2 ^ 50"
  shows "loop_stops k runNs \<longleftrightarrow> of_nat (unat runNs) \<le> rnd 53 (rnd 53 (of_nat k) * rnd 53 (9 / 10))"
proof -
  have "rnd 53 (of_nat (unat runNs)) = of_nat (unat runNs)" by (rule rnd_nat_exact) (use assms in simp)
  then show ?thesis unfolding loop_stops_def by (simp only: not_less)
qed

lemma loop_stops_late:
  assumes "unat runNs \<le> 2 ^ 50" "10 * unat runNs + 9 \<le> 9 * k" "0 < k" "k < 2 ^ 53"
  shows "loop_stops k runNs"
proof -
  obtain n where n: "unat runNs = n" "n \<le> 2 ^ 50" using assms(1) by blast
  have "(of_nat (10 * n + 9) :: rat) \<le> of_nat (9 * k)" using assms(2) n(1) by (simp only: of_nat_le_iff)
  then have k: "10 * of_nat n + 9 \<le> (9 :: rat) * of_nat k" by simp
  have "(of_nat n :: rat) \<le> of_nat (2 ^ 50)" using n(2) by (simp only: of_nat_le_iff)
  then have "10 * of_nat n \<le> (10 * of_nat n + 9) * (1 - 1 / 2 ^ 51 :: rat)" by (simp add: field_simps)
  also have "\<dots> \<le> (9 * of_nat k) * (1 - 1 / 2 ^ 51)" by (rule mult_right_mono [OF k]) simp
  finally have "of_nat n \<le> of_nat k * (9 / 10) * (1 - 1 / 2 ^ 51 :: rat)" by (simp add: field_simps)
  then show ?thesis unfolding loop_stops_iff [OF assms(1)] n(1) using loop_product(1) [OF assms(3,4)] by (rule order_trans)
qed

lemma loop_stops_enough:
  assumes "unat runNs \<le> 2 ^ 50" "loop_stops k runNs" "0 < k" "k \<le> 2 ^ 52"
  shows "10 * unat runNs \<le> 9 * k + 18"
proof -
  obtain n where n: "unat runNs = n" by blast
  have "(of_nat k :: rat) \<le> of_nat (2 ^ 52)" using assms(4) by (simp only: of_nat_le_iff)
  then have k: "(of_nat k :: rat) \<le> 2 ^ 52" by simp
  have "k < 2 ^ 53" using assms(4) by simp
  then have "of_nat n \<le> of_nat k * (9 / 10) * (1 + 1 / 2 ^ 51 :: rat)"
    using loop_product(2) [OF assms(3)] assms(2) unfolding loop_stops_iff [OF assms(1)] n by (blast intro: order_trans)
  then have "10 * of_nat n \<le> 9 * of_nat k + (18 :: rat)" using k by (simp add: field_simps)
  then have "(of_nat (10 * n) :: rat) \<le> of_nat (9 * k + 18)" by simp
  then show ?thesis unfolding n by (simp only: of_nat_le_iff)
qed

lemma work_loop_returns:
  assumes "unat runNs \<le> 2 ^ 50"
  shows "\<exists>k. work_loop 0 runNs = Some (of_nat k) \<and> 0 < k \<and> 9 * k \<le> 10 * unat runNs + 18 \<and> 10 * unat runNs \<le> 9 * k + 18"
proof -
  define m where "m = (10 * unat runNs + 9 + 8) div 9"
  have m: "10 * unat runNs + 9 \<le> 9 * m" "9 * m \<le> 10 * unat runNs + 18" unfolding m_def by linarith+
  have m0: "0 < m" and mb: "m < 2 ^ 52" using m assms by auto
  have sm: "loop_stops m runNs" by (rule loop_stops_late [OF assms m(1) m0]) (use mb in simp)
  define k where "k = (LEAST k. 0 < k \<and> loop_stops k runNs)"
  have k: "0 < k \<and> loop_stops k runNs" unfolding k_def by (rule LeastI [of _ m]) (use m0 sm in simp)
  have km: "k \<le> m" unfolding k_def by (rule Least_le) (use m0 sm in simp)
  have "work_loop (of_nat 0) runNs = Some (of_nat k)"
    by (rule work_loop_first) (use k km mb in \<open>auto simp: k_def dest: not_less_Least\<close>)
  moreover have "10 * unat runNs \<le> 9 * k + 18" by (rule loop_stops_enough [OF assms]) (use k km mb in auto)
  ultimately show ?thesis using k km m(2) by auto
qed

text \<open>
  C28: For run times up to 2^50 the busy loop of \<open>generic_work\<close> ends, and its number of rounds differs from ten ninths of the run
  time by at most two.
\<close>

theorem work_loop_ends:
  assumes "unat runNs \<le> 2 ^ 50"
  shows "\<exists>k. work_loop 0 runNs = Some k \<and> 9 * unat k \<le> 10 * unat runNs + 18 \<and> 10 * unat runNs \<le> 9 * unat k + 18"
proof -
  obtain k where k: "work_loop 0 runNs = Some (of_nat k)" "9 * k \<le> 10 * unat runNs + 18" "10 * unat runNs \<le> 9 * k + 18"
    using work_loop_returns [OF assms] by blast
  have "k < 2 ^ 64" using k(2) assms by simp
  then have "unat (of_nat k :: u64) = k" by (rule unat_of_nat64)
  then show ?thesis using k by (intro exI [of _ "of_nat k"]) simp
qed

theorem work_loop_ends_witness: "\<exists>k. work_loop 0 1000 = Some k \<and> 9 * unat k \<le> 10018 \<and> 10000 \<le> 9 * unat k + 18"
  using work_loop_ends [of 1000] by simp

end
