(* ===== verification/Arp_Properties.thy ===== *)
theory Arp_Properties
  imports Net_Sample
begin

text \<open>
  Properties of address resolution: what an exchange of request and reply carries, and two failures of the table.
\<close>

section \<open>Request and reply\<close>

text \<open>Fields of packet bytes after the stores of the packet builders.\<close>

lemma ld16_bytes: "ucast (byte_at v 0) OR push_bit 8 (ucast (byte_at v 1)) = v" for v :: u16
  using ld16_st16 [of "\<lambda>_. 0" 0 v] by (simp add: ld16_def st16_def)

lemma ld32_bytes: "ucast (byte_at v 0) OR push_bit 8 (ucast (byte_at v 1)) OR push_bit 16 (ucast (byte_at v 2)) OR push_bit 24 (ucast (byte_at v 3)) = v" for v :: u32
  using ld32_st32 [of "\<lambda>_. 0" 0 v] by (simp add: ld32_def st32_def)

lemma list6: "length xs = 6 \<Longrightarrow> [xs ! 0, xs ! 1, xs ! 2, xs ! 3, xs ! 4, xs ! 5] = xs"
  by (rule nth_equalityI) (auto simp: less_Suc_eq nth_Cons' eval_nat_numeral)

lemma ld_mac_list: "ld_mac d k = [d k, d (k + 1), d (k + 2), d (k + 3), d (k + 4), d (k + 5)]"
  by (simp add: ld_mac_def upt_rec numeral_eq_Suc)

lemmas packet_bytes = st16_def st32_def st_mac_def ld16_def ld32_def ld_mac_list ld16_bytes [simplified] ld32_bytes [simplified] list6 [simplified] list6 [simplified, unfolded numeral_2_eq_2]

definition arp_frame :: "bytes \<Rightarrow> mbuf" where
  "arp_frame d = empty_mbuf\<lparr>mb_len := ARP_PKT_SIZE, mb_data := d\<rparr>"

lemma arp_fill_fields:
  assumes "length (cfg_mac c) = 6" "length tm = 6" and q_def: "q = arp_fill c op tip tm d"
  shows "ld_mac q 0 = tm" "ld_mac q 6 = cfg_mac c" "ld16 q 12 = hton16 ETHTYPE_ARP" "ld16 q 14 = hton16 ARP_HTYPE_ETHER" "ld16 q 16 = hton16 ETHTYPE_IP"
    "q 18 = 6" "q 19 = 4" "ld16 q 20 = hton16 op" "ld_mac q 22 = cfg_mac c" "ld32 q 28 = hton32 (host_addr c)" "ld_mac q 32 = tm" "ld32 q 38 = hton32 tip"
  using assms(1,2) unfolding q_def arp_fill_def Let_def by (simp_all add: packet_bytes)

lemma arp_reply_fields:
  assumes "length (cfg_mac c) = 6" and r_def: "r = arp_reply c 14 22 q"
  shows "ld_mac r 0 = ld_mac q 6" "ld_mac r 6 = cfg_mac c" "ld16 r 12 = ld16 q 12" "ld16 r 14 = ld16 q 14" "ld16 r 16 = ld16 q 16"
    "r 18 = q 18" "r 19 = q 19" "ld16 r 20 = hton16 ARP_OP_REPLY" "ld_mac r 22 = cfg_mac c" "ld32 r 28 = hton32 (host_addr c)"
    "ld_mac r 32 = ld_mac q 22" "ld32 r 38 = ld32 q 28"
  using assms(1) unfolding r_def arp_reply_def Let_def by (simp_all add: packet_bytes)


text \<open>
  C23: Resolution of an address.  The request one host broadcasts for the address of another passes the checks of \<open>arp_input\<close> and
  names the sender; the answer the other host writes over it passes them too, is sent to the asking host, and carries the address asked
  for with the hardware address that belongs to it.
\<close>

theorem arp_exchange:
  assumes "length (cfg_mac c1) = 6" "length (cfg_mac c2) = 6" "\<not> eth_addr_is_multicast (cfg_mac c1)" "\<not> eth_addr_is_multicast (cfg_mac c2)"
  shows "let q = arp_fill c1 ARP_OP_REQUEST (host_addr c2) ETH_ADDR_BROADCAST d; r = arp_reply c2 14 22 q in
    arp_valid (arp_frame q) 14 \<and> ntoh16 (ld16 q 20) = ARP_OP_REQUEST \<and> ntoh32 (ld32 q 28) = host_addr c1 \<and> ld_mac q 22 = cfg_mac c1 \<and>
    ntoh32 (ld32 q 38) = host_addr c2 \<and>
    arp_valid (arp_frame r) 14 \<and> ntoh16 (ld16 r 20) = ARP_OP_REPLY \<and> ld_mac r 0 = cfg_mac c1 \<and> ntoh32 (ld32 r 28) = host_addr c2 \<and>
    ld_mac r 22 = cfg_mac c2 \<and> ntoh32 (ld32 r 38) = host_addr c1"
proof -
  define q where "q = arp_fill c1 ARP_OP_REQUEST (host_addr c2) ETH_ADDR_BROADCAST d"
  define r where "r = arp_reply c2 14 22 q"
  have "length ETH_ADDR_BROADCAST = 6" by (simp add: ETH_ADDR_BROADCAST_def)
  note Q = arp_fill_fields [OF assms(1) this q_def] and R = arp_reply_fields [OF assms(2) r_def]
  have "arp_valid (arp_frame q) 14" "arp_valid (arp_frame r) 14"
    using Q R assms(3,4) by (simp_all add: arp_valid_def arp_frame_def mbuf_enough_space_def bswap16_swap ARP_PKT_SIZE_def)
  then show ?thesis unfolding Let_def q_def [symmetric] r_def [symmetric] using Q R by (simp add: bswap16_swap bswap32_swap)
qed

theorem arp_exchange_witness:
  "let q = arp_fill sample_cfg ARP_OP_REQUEST 0x0A000002 ETH_ADDR_BROADCAST (\<lambda>_. 0);
       r = arp_reply (sample_cfg\<lparr>host_addr := 0x0A000002, cfg_mac := [2, 0, 0, 0, 0, 2]\<rparr>) 14 22 q
   in arp_valid (arp_frame r) 14 \<and> ld_mac r 22 = [2, 0, 0, 0, 0, 2]"
  using arp_exchange [of sample_cfg "sample_cfg\<lparr>host_addr := 0x0A000002, cfg_mac := [2, 0, 0, 0, 0, 2]\<rparr>" "\<lambda>_. 0"]
  by (simp add: Let_def sample_cfg_def eth_addr_is_multicast_def ETH_ADDR_GROUP_def)

section \<open>Failures\<close>

text \<open>
  C36: When the pool of entries is exhausted, a look-up of an unknown address fails and leaves the lock of the table taken: from then
  on no look-up of an unknown address returns.
\<close>

theorem arp_exhausted_blocks:
  assumes "arp_ok env s B {}" "entry_of (ns_heap s) B a = None" "\<not> ns_arp_lock s"
  shows "\<exists>s'. arp_lookup_mac env tsc cyc a s = Some (Inr (- ENOENT, [], s')) \<and>
    (\<forall>b tsc cyc. entry_of (ns_heap s) B b = None \<longrightarrow> arp_lookup_mac env tsc cyc b s' = None)"
proof -
  define s' where "s' = s\<lparr>ns_arp_lock := True\<rparr>"
  have "arp_ok env s' B {}" "ns_heap s' = ns_heap s" "ns_arp_lock s'" using assms(1) by (simp_all add: s'_def arp_ok_def)
  then have "arp_lookup_mac env tsc cyc b s' = None" if "entry_of (ns_heap s) B b = None" for b tsc cyc
    using arp_lookup_locked [of env s' B "{}" b] that by (simp add: arp_lookup_mac_def)
  moreover have "arp_lookup_mac env tsc cyc a s = Some (Inr (- ENOENT, [], s'))"
    using arp_lookup_exhausted [OF assms] by (simp add: arp_lookup_mac_def s'_def)
  ultimately show ?thesis by blast
qed

lemma exhausted_ok: "arp_ok sample_env (sample_net\<lparr>ns_arp_entries := sample_pool NULL 0\<rparr>) (\<lambda>_. []) {}"
proof -
  have "mempool_ok h (sample_pool NULL 0) (set []) {}" for h by (rule sample_pool_ok) simp_all
  then show ?thesis using sample_arp_ok by (auto simp: arp_ok_def intro: arp_layout_mono)
qed

theorem arp_exhausted_blocks_witness:
  "\<exists>s s'. arp_lookup_mac sample_env 0 1 0x0A000002 s = Some (Inr (- ENOENT, [], s')) \<and> arp_lookup_mac sample_env 0 1 0x0A000003 s' = None"
proof -
  define s where "s = sample_net\<lparr>ns_arp_entries := sample_pool NULL 0\<rparr>"
  have "\<not> ns_arp_lock s" by (simp add: s_def sample_net_def)
  then obtain s' where "arp_lookup_mac sample_env 0 1 0x0A000002 s = Some (Inr (- ENOENT, [], s'))"
      "\<forall>b tsc cyc. entry_of (ns_heap s) (\<lambda>_. []) b = None \<longrightarrow> arp_lookup_mac sample_env tsc cyc b s' = None"
    using arp_exhausted_blocks [OF exhausted_ok [folded s_def], of "0x0A000002" 0 1] by (auto simp: entry_of_def)
  then show ?thesis by (intro exI [of _ s] exI [of _ s'] conjI) (simp_all add: entry_of_def)
qed

text \<open>
  \<open>arp_insert\<close> does not make an entry valid that is still being resolved: it reports success and stores the hardware address, but
  a look-up does not find it.
\<close>

theorem arp_insert_unresolved:
  assumes "arp_ok env s B F" "entry_of (ns_heap s) B a = Some e" "ns_heap s e ARP_FLAGS AND ARP_FLAG_VALID = 0"
    and "\<not> timer_pending (e + ARP_TIMER) (ns_tw s)" "length mac = 6"
  shows "\<exists>s'. arp_insert env a mac s = Some (Inr (0, s')) \<and> entry_mac (ns_heap s') e = mac \<and>
    (\<forall>tsc cyc m s''. arp_lookup_mac env tsc cyc a s' \<noteq> Some (Inr (0, m, s'')))"
proof -
  define s' where "s' = set_heap (set_entry_mac (ns_heap s) e mac) s"
  note ok = set_mac_ok [OF assms(1,2,5), folded s'_def]
  have e: "e \<noteq> NULL" by (rule arp_ok_nonnull [OF assms(1) entry_of_entries [OF assms(2)]])
  have h: "ns_heap s' = set_entry_mac (ns_heap s) e mac" by (simp add: s'_def set_heap_def)
  have of: "entry_of (ns_heap s') B a = Some e"
    using entry_of_cong [of B a "ns_heap s'" "ns_heap s"] assms(2) by (simp add: h entry_addr_def set_entry_mac_off)
  have "arp_insert env a mac s = Some (Inr (0, s'))"
    using arp_lookup_found [OF assms(1,2)] e assms(4) by (simp add: arp_insert_def timer_del_def s'_def Let_def)
  moreover have "entry_mac (ns_heap s') e = mac" unfolding h by (rule entry_mac_set [OF assms(5)])
  moreover have "arp_lookup_mac env tsc cyc a s' \<noteq> Some (Inr (0, m, s''))" for tsc cyc m s''
    using arp_lookup_found [OF ok(1) of] e assms(3)
    by (auto simp: arp_lookup_mac_def h set_entry_mac_off EAGAIN_def bindR_eq_Inr Let_def)
  ultimately show ?thesis by blast
qed

theorem arp_insert_unresolved_witness:
  "\<exists>s s'. arp_insert sample_env 0x0A000002 [2, 0, 0, 0, 0, 2] s = Some (Inr (0, s')) \<and>
     (\<forall>tsc cyc m s''. arp_lookup_mac sample_env tsc cyc 0x0A000002 s' \<noteq> Some (Inr (0, m, s'')))"
proof -
  have none: "entry_of (ns_heap sample_net) (\<lambda>_. []) 0x0A000002 = None" by (simp add: entry_of_def)
  obtain e p where e: "e \<in> {0x10000, 0x10100}" "mempool_ok (ns_heap sample_net) p ({0x10000, 0x10100} - {e}) (insert e {})"
    using alloc_entry [OF sample_arp_ok] by auto
  define s where "s = arp_new_entry sample_env 0x0A000002 0 0x1001 e (sample_net\<lparr>ns_arp_entries := p\<rparr>)"
  have "mempool_ok (ns_heap sample_net) p ({0x10000, 0x10100} - {e}) (insert e (entries (\<lambda>_. [])))" using e(2) by simp
  note n = new_entry_ok [OF sample_arp_ok e(1) none this, of 0 "0x1001", folded s_def]
  have "\<not> timer_pending (e + ARP_TIMER) (ns_tw s)" using n(3) by (simp add: timer_pending_def)
  then show ?thesis
    using arp_insert_unresolved [OF n(1,2) _ _, of "[2, 0, 0, 0, 0, 2]"] n(4) by auto
qed

end
