(* ===== verification/Transmit_Properties.thy ===== *)
theory Transmit_Properties
  imports Work_Loop Arp_Properties
begin

text \<open>
  The headers of a datagram: their fields, their checksum, and that they are headers the receive path accepts.
\<close>

section \<open>The headers of a datagram\<close>

lemma version_byte: "(b AND 0xF0 OR 5) AND 0x0F OR 0x40 = (0x45 :: u8)" for b :: u8
proof -
  have "(b AND 0xF0 OR 5) AND 0x0F = (5 :: u8)"
    by (simp add: bit.conj_disj_distrib2 and.assoc)
  then show ?thesis by simp
qed

lemma udp_fill_fields:
  assumes "length (cfg_mac c) = 6" and q_def: "q = udp_fill c ident fl d"
  shows "ld_mac q 0 = ld_mac d 0" "ld_mac q 6 = cfg_mac c" "ld16 q 12 = hton16 ETHTYPE_IP" "q 14 = 0x45" "ld16 q 16 = hton16 (20 + ucast fl)"
    "ld16 q 20 = ld16 d 20" "q 23 = IPPROTO_UDP" "ld32 q 26 = hton32 (host_addr c)" "ld32 q 30 = hton32 (dst_ip ident)"
    "ld16 q 34 = hton16 (src_port ident)" "ld16 q 36 = hton16 (dst_port ident)" "ld16 q 38 = hton16 (ucast fl)" "ld16 q 40 = 0"
  using assms(1) unfolding q_def udp_fill_def ip_setup_header_def Let_def
  by (simp_all add: packet_bytes version_byte [simplified])

lemma header_range: "[14..<34] = [14..<24] @ [24, 25] @ [26..<34 :: nat]"
  by (simp add: upt_rec)

lemma header_sum:
  assumes "d 24 = 0" "d 25 = 0"
  shows "chksum_internet (map (st16 d 24 (chksum_internet (map d [14..<34]))) [14..<34]) = 0"
proof -
  let ?xs = "map d [14..<24]" and ?ys = "map d [26..<34]"
  define c where "c = chksum_internet (map d [14..<34])"
  have c: "c = chksum_internet (?xs @ [0, 0] @ ?ys)" unfolding c_def header_range using assms by simp
  have a: "map (st16 d 24 c) [14..<24] = ?xs" "map (st16 d 24 c) [26..<34] = ?ys" by (simp_all add: st16_other)
  have b: "st16 d 24 c 24 = ucast c" "st16 d 24 c 25 = ucast (drop_bit 8 c)" by (simp_all add: st16_def byte_at_def)
  have "map (st16 d 24 c) [14..<34] = ?xs @ [ucast c, ucast (drop_bit 8 c)] @ ?ys" unfolding header_range using a b by simp
  then show ?thesis unfolding c_def [symmetric] using chksum_inserted [of ?xs ?ys] unfolding c [symmetric] Let_def by simp
qed

lemma udp_fill_sum: "chksum_internet (map (udp_fill c ident fl d) [14..<34]) = 0"
proof -
  define h where "h = ip_setup_header 14 IPPROTO_UDP (host_addr c) (dst_ip ident) (ucast fl) (st16 (st_mac d 6 (cfg_mac c)) 12 (hton16 ETHTYPE_IP))"
  have z: "h 24 = 0" "h 25 = 0" by (simp_all add: h_def ip_setup_header_def Let_def packet_bytes byte_at_def)
  have "udp_fill c ident fl d x = st16 h 24 (chksum_internet (map h [14..<34])) x" if "x < 34" for x
    using that by (simp add: udp_fill_def h_def Let_def st16_other)
  then have "map (udp_fill c ident fl d) [14..<34] = map (st16 h 24 (chksum_internet (map h [14..<34]))) [14..<34]" by simp
  then show ?thesis using header_sum [OF z] by simp
qed

lemma udp_fill_other: "42 \<le> x \<Longrightarrow> udp_fill c ident fl d x = d x"
  by (simp add: udp_fill_def ip_setup_header_def Let_def st16_other st32_other st_mac_def)

section \<open>The other end\<close>

text \<open>A frame as it arrives: the headers, and a payload of the announced length behind them.\<close>

definition arrives :: "bytes \<Rightarrow> u64 \<Rightarrow> mbuf \<Rightarrow> bool" where
  "arrives q fl pkt \<longleftrightarrow> (\<forall>x<42. mb_data pkt x = q x) \<and> mb_len pkt = 34 + fl"

lemma arrives_fields:
  assumes "length (cfg_mac c) = 6" "arrives (udp_fill c ident fl d) fl pkt"
  shows "ld16 (mb_data pkt) 12 = hton16 ETHTYPE_IP" "mb_data pkt 14 = 0x45" "ld16 (mb_data pkt) 16 = hton16 (20 + ucast fl)"
    "ld16 (mb_data pkt) 20 = ld16 d 20" "mb_data pkt 23 = IPPROTO_UDP" "ld32 (mb_data pkt) 26 = hton32 (host_addr c)"
    "ld32 (mb_data pkt) 30 = hton32 (dst_ip ident)" "ld16 (mb_data pkt) 34 = hton16 (src_port ident)"
    "ld16 (mb_data pkt) 36 = hton16 (dst_port ident)" "ld16 (mb_data pkt) 38 = hton16 (ucast fl)"
proof -
  define q where "q = udp_fill c ident fl d"
  have e: "mb_data pkt x = q x" if "x < 42" for x using assms(2) that by (simp add: arrives_def q_def)
  have l16: "ld16 (mb_data pkt) x = ld16 q x" if "x < 41" for x by (rule ld16_cong) (use e that in simp_all)
  have l32: "ld32 (mb_data pkt) x = ld32 q x" if "x < 39" for x by (rule ld32_cong) (use e that in simp)
  note f = udp_fill_fields [OF assms(1) q_def]
  show "ld16 (mb_data pkt) 12 = hton16 ETHTYPE_IP" "mb_data pkt 14 = 0x45" "ld16 (mb_data pkt) 16 = hton16 (20 + ucast fl)"
    "ld16 (mb_data pkt) 20 = ld16 d 20" "mb_data pkt 23 = IPPROTO_UDP" "ld32 (mb_data pkt) 26 = hton32 (host_addr c)"
    "ld32 (mb_data pkt) 30 = hton32 (dst_ip ident)" "ld16 (mb_data pkt) 34 = hton16 (src_port ident)"
    "ld16 (mb_data pkt) 36 = hton16 (dst_port ident)" "ld16 (mb_data pkt) 38 = hton16 (ucast fl)"
    using f by (simp_all add: l16 l32 e)
qed

lemma frame_lengths:
  assumes "8 \<le> unat fl" "unat fl \<le> 1480"
  shows "unat (ucast fl :: u16) = unat fl" "unat (20 + ucast fl :: u16) = 20 + unat fl" "unat (34 + fl) = 34 + unat (fl :: u64)"
proof -
  show u: "unat (ucast fl :: u16) = unat fl" using assms by (simp add: unsigned_ucast_eq take_bit_eq_mod)
  then show "unat (20 + ucast fl :: u16) = 20 + unat fl" using assms(2) by (simp add: unat_word_ariths)
  show "unat (34 + fl) = 34 + unat fl" using assms(2) by (simp add: unat_word_ariths)
qed

lemma arrives_checks:
  assumes "length (cfg_mac c) = 6" "arrives (udp_fill c ident fl d) fl pkt" "8 \<le> unat fl" "unat fl \<le> 1480"
  shows "ip_checks pkt \<longleftrightarrow> ntoh16 (ld16 d 20) AND (IP_OFFMASK OR IP_MF) = 0" "udp_pos pkt = 34" "udp_fits pkt"
proof -
  note f = arrives_fields [OF assms(1,2)]
  have sp: "mbuf_enough_space pkt pos sz \<longleftrightarrow> pos + sz \<le> 34 + unat fl" if "pos + sz < 2 ^ 64" for pos sz
  proof -
    have "unat (of_nat (pos + sz) :: u64) = pos + sz" using that by (rule unat_of_nat64)
    then show ?thesis
      using assms(2) frame_lengths(3) [OF assms(3,4)] by (simp add: mbuf_enough_space_def arrives_def word_le_nat_alt)
  qed
  have v: "ip_version (mb_data pkt) 14 = 4" "ip_header_len (mb_data pkt) 14 = 5" using f(2) by (simp_all add: ip_version_def ip_header_len_def drop_bit_eq_div)
  have l: "unat (ntoh16 (ld16 (mb_data pkt) 16)) = 20 + unat fl" "unat (ntoh16 (ld16 (mb_data pkt) 38)) = unat fl"
    using f(3,10) frame_lengths [OF assms(3,4)] by (simp_all add: bswap16_swap)
  show pos: "udp_pos pkt = 34" by (simp add: udp_pos_def v)
  show "udp_fits pkt" unfolding udp_fits_def pos using l(2) assms(4) by (simp add: udp_len_def sp)
  show "ip_checks pkt \<longleftrightarrow> ntoh16 (ld16 d 20) AND (IP_OFFMASK OR IP_MF) = 0"
    unfolding ip_checks_def Let_def using f v l assms(3,4) by (simp add: ip_len_def ip_off_def ip_proto_def sp)
qed

text \<open>
  C20: The two ends agree.  A datagram with headers as \<open>udp_send\<close> and \<open>udp_output\<close> write them carries a valid header checksum;
  a host that listens on its port accepts it for that port; and the worker finds the payload behind the headers and the addresses and
  ports of the sender and the destination.  The fragment field, which is not written, has to be zero in the buffer.
\<close>

theorem datagram_accepted:
  assumes "length (cfg_mac c) = 6" "8 \<le> unat fl" "unat fl \<le> 1480" "ld16 d 20 = 0" "arrives (udp_fill c ident fl d) fl pkt"
    and "nat (num_ports r) \<le> length (cfg_ports r)" "i < nat (num_ports r)" "cfg_ports r ! i = dst_port ident" "\<And>j. j < i \<Longrightarrow> cfg_ports r ! j \<noteq> dst_port ident"
  shows "chksum_internet (map (mb_data pkt) [14..<34]) = 0 \<and> eth_input r pkt = Inr \<lparr>rx_ret = int i, rx_frees = 0\<rparr> \<and>
    (\<exists>pkt'. parse_packet pkt = (Some (42, mb_timestamp pkt), pkt') \<and>
       load_ip_tuple (mb_data pkt') = \<lparr>src_ip = host_addr c, dst_ip = dst_ip ident, src_port = src_port ident, dst_port = dst_port ident\<rparr>)"
proof -
  note f = arrives_fields [OF assms(1,5)] and ch = arrives_checks [OF assms(1,5,2,3)]
  have ck: "ip_checks pkt" using ch(1) assms(4) by (simp add: bswap16_def)
  have "map (mb_data pkt) [14..<34] = map (udp_fill c ident fl d) [14..<34]" using assms(5) by (simp add: arrives_def)
  then have s: "chksum_internet (map (mb_data pkt) [14..<34]) = 0" using udp_fill_sum by simp
  have port: "ntoh16 (udp_dst_port (mb_data pkt) (udp_pos pkt)) = dst_port ident" using f(9) ch(2) by (simp add: udp_dst_port_def bswap16_swap)
  obtain r' where r': "eth_input r pkt = Inr r'" "rx_ret r' = int i"
    using eth_input_accepts [OF assms(6), of pkt i] ck ch(3) port assms(7-9) by auto
  then have "rx_frees r' = 0" using eth_input_frees [OF r'(1)] by simp
  then have "r' = \<lparr>rx_ret = int i, rx_frees = 0\<rparr>" using r'(2) by simp
  moreover have "\<exists>pkt'. parse_packet pkt = (Some (42, mb_timestamp pkt), pkt') \<and>
       load_ip_tuple (mb_data pkt') = \<lparr>src_ip = host_addr c, dst_ip = dst_ip ident, src_port = src_port ident, dst_port = dst_port ident\<rparr>"
    using parse_packet_fits [OF ch(3)] f ch(2)
    by (simp add: load_store_ip_tuple ip_src_def ip_dst_def udp_src_port_def udp_dst_port_def bswap16_swap bswap32_swap)
  ultimately show ?thesis using s r'(1) by blast
qed

text \<open>
  A fragment field left over in the buffer from an earlier packet is sent as it is: when it is not zero the receiver drops the
  datagram.
\<close>

theorem stale_fragment_dropped:
  assumes "length (cfg_mac c) = 6" "8 \<le> unat fl" "unat fl \<le> 1480" "ntoh16 (ld16 d 20) AND (IP_OFFMASK OR IP_MF) \<noteq> 0"
    and "arrives (udp_fill c ident fl d) fl pkt"
  shows "eth_input r pkt = Inr \<lparr>rx_ret = -1, rx_frees = 1\<rparr>"
  using arrives_checks(1) [OF assms(1,5,2,3)] assms(4) by (simp add: eth_input_cases drop_packet_def)

definition sample_ident :: ip_tuple where
  "sample_ident = \<lparr>src_ip = 0x0A000001, dst_ip = 0x0A000002, src_port = 1234, dst_port = 8001\<rparr>"

definition sample_peer :: cfg_parameters where
  "sample_peer = sample_cfg\<lparr>cfg_mac := [2, 0, 0, 0, 0, 2], num_ports := 2, cfg_ports := 8000 # 8001 # replicate 14 0\<rparr>"

definition sample_frame :: "bytes \<Rightarrow> mbuf" where
  "sample_frame d = empty_mbuf\<lparr>mb_len := 34 + 56, mb_data := udp_fill sample_peer sample_ident 56 d\<rparr>"

theorem datagram_accepted_witness:
  "eth_input sample_peer (sample_frame (\<lambda>_. 0)) = Inr \<lparr>rx_ret = 1, rx_frees = 0\<rparr>"
  using datagram_accepted [of sample_peer 56 "\<lambda>_. 0" sample_ident "sample_frame (\<lambda>_. 0)" sample_peer 1]
  by (simp add: sample_peer_def sample_ident_def sample_frame_def arrives_def ld16_def nth_Cons')

theorem stale_fragment_dropped_witness:
  "eth_input sample_peer (sample_frame (\<lambda>_. 1)) = Inr \<lparr>rx_ret = -1, rx_frees = 1\<rparr>"
proof (rule stale_fragment_dropped)
  show "ntoh16 (ld16 (\<lambda>_. 1) 20) AND (IP_OFFMASK OR IP_MF) \<noteq> 0" by (simp add: ld16_def bswap16_def IP_OFFMASK_def IP_MF_def)
  show "arrives (udp_fill sample_peer sample_ident 56 (\<lambda>_. 1)) 56 (sample_frame (\<lambda>_. 1))" by (simp add: arrives_def sample_frame_def)
qed (simp_all add: sample_peer_def)

end
