(* ===== verification/Udp_Send.thy ===== *)
theory Udp_Send
  imports Transmit_Properties
begin

text \<open>
  A complete transmission of a datagram with \<open>udp_send\<close>: the buffer it takes, the pages it pins, what it queues for the device, and
  the release of all of it when the device is done.
\<close>

section \<open>Pinned pages\<close>

definition pinnable :: "mm \<Rightarrow> addr \<Rightarrow> bool" where
  "pinnable mm a \<longleftrightarrow> unat (PAGE_NUM a) < length (page_tbl mm) \<and> unat (PAGE_NUM a) < length (page_refs mm) \<and>
     pg_flags (page_tbl mm ! unat (PAGE_NUM a)) AND PAGE_FLAG_WILL_FREE = 0 \<and>
     s32 (page_refs mm ! unat (PAGE_NUM a)) = page_refs mm ! unat (PAGE_NUM a)"

definition add_ref :: "int \<Rightarrow> addr \<Rightarrow> mm \<Rightarrow> mm" where
  "add_ref k a mm = mm\<lparr>page_refs := (page_refs mm)[unat (PAGE_NUM a) := s32 (page_refs mm ! unat (PAGE_NUM a) + k)]\<rparr>"

definition page_maddr :: "mm \<Rightarrow> addr \<Rightarrow> u64" where
  "page_maddr mm a = maddr (page_tbl mm ! unat (PAGE_NUM a)) + PGOFF_2MB a"

lemma page_get_pinnable: "pinnable mm a \<Longrightarrow> page_get a mm = Inr (page_maddr mm a, add_ref 1 a mm)"
  by (simp add: pinnable_def page_get_def page_ent_of_def add_page_ref_def add_ref_def page_maddr_def)

lemma page_put_pinnable: "pinnable mm a \<Longrightarrow> page_put os a mm = Inr (add_ref (- 1) a mm)"
  by (simp add: pinnable_def page_put_def page_ent_of_def add_page_ref_def add_ref_def)

lemma s32_s32 [simp]: "s32 (s32 k) = s32 k"
  by (simp add: s32_def)

lemma s32_add: "s32 (s32 k + j) = s32 (k + j)"
  by (simp add: s32_def signed_take_bit_eq_take_bit_shift take_bit_eq_mod mod_simps ac_simps)

lemma s32_add_right: "s32 (j + s32 k) = s32 (j + k)"
  using s32_add [of k j] by (simp add: add.commute)

lemma pinnable_add_ref [simp]: "pinnable mm b \<Longrightarrow> pinnable (add_ref k a mm) b"
  by (cases "unat (PAGE_NUM a) = unat (PAGE_NUM b)") (auto simp: pinnable_def add_ref_def)

lemma page_maddr_add_ref [simp]: "page_maddr (add_ref k a mm) b = page_maddr mm b"
  by (simp add: page_maddr_def add_ref_def)

lemma add_ref_cancel:
  assumes "pinnable mm a"
  shows "add_ref (- 1) a (add_ref 1 a mm) = mm"
proof -
  let ?i = "unat (PAGE_NUM a)"
  have "s32 (s32 (page_refs mm ! ?i + 1) + - 1) = page_refs mm ! ?i" using assms s32_add [of "page_refs mm ! ?i + 1" "- 1"] by (simp add: pinnable_def)
  then show ?thesis using assms by (simp add: add_ref_def pinnable_def list_update_same_conv)
qed

lemma add_ref_swap: "pinnable mm a \<Longrightarrow> pinnable mm b \<Longrightarrow> add_ref k a (add_ref j b mm) = add_ref j b (add_ref k a mm)"
  by (cases "unat (PAGE_NUM a) = unat (PAGE_NUM b)")
    (auto simp: add_ref_def pinnable_def list_update_swap s32_add_right ac_simps)

section \<open>Vectors in the buffer\<close>

lemma ld64_st64: "ld64 (st64 d k v) k = v"
proof -
  have "ld32 (st64 d k v) k = ucast v"
    using ld32_cong [of "st32 (st32 d k (ucast v)) (k + 4) (ucast (drop_bit 32 v))" k "st32 d k (ucast v)"]
    by (simp add: st64_def st32_other)
  moreover have "ld32 (st64 d k v) (k + 4) = ucast (drop_bit 32 v)" by (simp add: st64_def)
  ultimately have "ld64 (st64 d k v) k = ucast (ucast v :: u32) OR push_bit 32 (ucast (ucast (drop_bit 32 v) :: u32))" by (simp add: ld64_def)
  also have "\<dots> = v" by (rule bit_word_eqI) (auto simp: bit_simps)
  finally show ?thesis .
qed

lemma st64_other: "x < k \<or> k + 8 \<le> x \<Longrightarrow> st64 d k v x = d x"
  by (auto simp: st64_def st32_other)

lemma ld64_cong: "(\<And>i. i < 8 \<Longrightarrow> d' (k + i) = d (k + i)) \<Longrightarrow> ld64 d' k = ld64 d k"
  unfolding ld64_def by (intro arg_cong2 [where f = "(OR)"] arg_cong [where f = ucast] arg_cong [where f = "push_bit 32"] ld32_cong) (simp_all add: add.assoc)

lemma ld64_st64_other: "j + 8 \<le> k \<or> k + 8 \<le> j \<Longrightarrow> ld64 (st64 d k v) j = ld64 d j"
  by (rule ld64_cong) (auto simp: st64_other)

lemma ld_st_iov [simp]: "ld_iov (st_iov d k v) k = v"
  by (simp add: ld_iov_def st_iov_def ld64_st64 ld64_st64_other)

lemma st_iov_other: "x < k \<or> k + 24 \<le> x \<Longrightarrow> st_iov d k v x = d x"
  by (auto simp: st_iov_def st64_other)

lemma ld_iov_cong: "(\<And>i. i < 24 \<Longrightarrow> d' (k + i) = d (k + i)) \<Longrightarrow> ld_iov d' k = ld_iov d k"
  unfolding ld_iov_def by (simp add: ld64_cong [of d' k d] ld64_cong [of d' "k + 8" d] ld64_cong [of d' "k + 16" d] add.assoc)

text \<open>The payload by pages: one part, or two when it crosses a page boundary.\<close>

definition first_len :: "addr \<Rightarrow> u64 \<Rightarrow> u64" where
  "first_len base n = min n (of_int PGSIZE_2MB - PGOFF_2MB base)"

definition payload :: "addr \<Rightarrow> u64 \<Rightarrow> (addr \<times> u64) list" where
  "payload base n = (let k = first_len base n in (base, k) # (if n \<noteq> k then [(base + k, n - k)] else []))"

definition payload_iovs :: "mm \<Rightarrow> addr \<Rightarrow> u64 \<Rightarrow> mbuf_iov list" where
  "payload_iovs mm base n = map (\<lambda>(a, l). \<lparr>iov_base = a, iov_maddr = page_maddr mm a, iov_len = l\<rparr>) (payload base n)"

definition pin_payload :: "addr \<Rightarrow> u64 \<Rightarrow> mm \<Rightarrow> mm" where
  "pin_payload base n mm = fold (\<lambda>(a, l). add_ref 1 a) (payload base n) mm"

abbreviation payload_pinnable :: "mm \<Rightarrow> addr \<Rightarrow> u64 \<Rightarrow> bool" where
  "payload_pinnable mm base n \<equiv> list_all (\<lambda>(a, l). pinnable mm a) (payload base n)"

lemma udp_pkt_pos: "unat (align_up UDP_PKT_SIZE 8) = 48"
  by (simp add: align_up_def UDP_PKT_SIZE_def)

lemma payload_two:
  assumes "n \<noteq> first_len base n"
  shows "payload base n = [(base, first_len base n), (base + first_len base n, n - first_len base n)]"
  using assms by (simp add: payload_def Let_def)

lemma payload_one: "n = first_len base n \<Longrightarrow> payload base n = [(base, first_len base n)]"
  by (simp add: payload_def)

lemma udp_iovs_ok:
  assumes "payload_pinnable (ns_mm s) base n"
  shows "\<exists>d. udp_iovs pkt base n s = Inr (first_len base n, s\<lparr>ns_mm := pin_payload base n (ns_mm s), ns_store := (ns_store s)
      (pkt := (ns_store s pkt)\<lparr>mb_iovs := mbuf_addr pkt 48, mb_data := d, mb_nr_iov := of_nat (length (payload base n))\<rparr>)\<rparr>) \<and>
    (\<forall>x<48. d x = mb_data (ns_store s pkt) x) \<and> (\<forall>i<length (payload base n). ld_iov d (48 + 24 * i) = payload_iovs (ns_mm s) base n ! i)"
proof -
  let ?k = "first_len base n" and ?d = "mb_data (ns_store s pkt)"
  let ?v = "\<lparr>iov_base = base, iov_maddr = page_maddr (ns_mm s) base, iov_len = ?k\<rparr>"
  have b: "pinnable (ns_mm s) base" using assms by (simp add: payload_def Let_def)
  have c: "mbuf_iov_create base n (ns_mm s) = Inr (?v, add_ref 1 base (ns_mm s))"
    using page_get_pinnable [OF b] by (simp add: mbuf_iov_create_def first_len_def)
  show ?thesis
  proof (cases "n = ?k")
    case True
    note p = payload_one [OF True]
    have "udp_iovs pkt base n s = Inr (?k, s\<lparr>ns_mm := pin_payload base n (ns_mm s), ns_store := (ns_store s)
      (pkt := (ns_store s pkt)\<lparr>mb_iovs := mbuf_addr pkt 48, mb_data := st_iov ?d 48 ?v, mb_nr_iov := of_nat (length (payload base n))\<rparr>)\<rparr>)"
      using c True unfolding udp_iovs_def udp_pkt_pos p by (simp add: Let_def upd_mbuf_def upd_data_def pin_payload_def p)
    then show ?thesis by (intro exI [of _ "st_iov ?d 48 ?v"]) (simp add: p payload_iovs_def st_iov_other)
  next
    case False
    let ?w = "\<lparr>iov_base = base + ?k, iov_maddr = page_maddr (ns_mm s) (base + ?k), iov_len = n - ?k\<rparr>"
    note p = payload_two [OF False]
    have "pinnable (ns_mm s) (base + ?k)" using assms by (simp add: p)
    then have g: "page_get (base + ?k) (add_ref 1 base (ns_mm s)) = Inr (page_maddr (ns_mm s) (base + ?k), add_ref 1 (base + ?k) (add_ref 1 base (ns_mm s)))"
      using page_get_pinnable [of "add_ref 1 base (ns_mm s)" "base + ?k"] by simp
    let ?d2 = "st_iov (st_iov ?d 48 ?v) 72 ?w"
    have "udp_iovs pkt base n s = Inr (?k, s\<lparr>ns_mm := pin_payload base n (ns_mm s), ns_store := (ns_store s)
      (pkt := (ns_store s pkt)\<lparr>mb_iovs := mbuf_addr pkt 48, mb_data := ?d2, mb_nr_iov := of_nat (length (payload base n))\<rparr>)\<rparr>)"
      using c g False unfolding udp_iovs_def udp_pkt_pos p by (simp add: Let_def upd_mbuf_def upd_data_def pin_payload_def p)
    moreover have "ld_iov ?d2 48 = ?v" using ld_iov_cong [of ?d2 48 "st_iov ?d 48 ?v"] by (simp add: st_iov_other)
    ultimately show ?thesis by (intro exI [of _ ?d2]) (simp add: p payload_iovs_def st_iov_other less_Suc_eq)
  qed
qed

lemma arp_static_cong:
  assumes "ns_tw s' = ns_tw s" "ns_arp_entries s' = ns_arp_entries s"
  shows "arp_static env s' m n = arp_static env s m n"
  using assms by (simp add: arp_static_def arp_ok_def)

section \<open>Sending\<close>

text \<open>A buffer that holds the headers and the vectors of a datagram.\<close>

definition datagram :: "net_env \<Rightarrow> ip_tuple \<Rightarrow> u8 list \<Rightarrow> addr \<Rightarrow> u64 \<Rightarrow> mm \<Rightarrow> addr \<Rightarrow> mbuf \<Rightarrow> mbuf \<Rightarrow> bool" where
  "datagram env ident mac base n mm pkt old b \<longleftrightarrow> mb_len b = UDP_PKT_SIZE \<and> mb_ol_flags b = 0 \<and>
     (\<exists>d. (\<forall>x<48. d x = mb_data old x) \<and> mb_data b = udp_fill (ne_cfg env) ident (first_len base n + 8) (st_mac d 0 mac)) \<and>
     map (iov_at pkt b) [0..<unat (mb_nr_iov b)] = payload_iovs mm base n"

definition tx_room :: "net_state \<Rightarrow> bool" where
  "tx_room s \<longleftrightarrow> ns_txqs s \<noteq> [] \<and> 3 \<le> tx_cap (ns_txqs s ! 0) \<and> tx_len (ns_txqs s ! 0) < length (tx_bufs (ns_txqs s ! 0))"

definition queued :: "addr \<Rightarrow> nat \<Rightarrow> eth_tx_queue \<Rightarrow> eth_tx_queue" where
  "queued pkt nr q = q\<lparr>tx_bufs := (tx_bufs q)[tx_len q := pkt], tx_len := tx_len q + 1, tx_cap := tx_cap q - int nr\<rparr>"

lemma payload_length: "length (payload base n) = 1 \<or> length (payload base n) = 2"
  by (simp add: payload_def Let_def)

lemma send_on_room:
  assumes "tx_room s" "mb_nr_iov (ns_store s pkt) = of_nat k" "k = 1 \<or> k = 2"
  shows "send_on pkt s = Inr (0, s\<lparr>ns_txqs := (ns_txqs s)[0 := queued pkt (Suc k) (ns_txqs s ! 0)]\<rparr>)"
proof -
  have "sint (1 + of_nat k :: u32) = int (Suc k)" using assms(3) by auto
  then show ?thesis using assms by (auto simp: send_on_def eth_send_def tx_room_def queued_def)
qed

lemma iov_at_48: "mb_iovs b = mbuf_addr pkt 48 \<Longrightarrow> iov_at pkt b i = ld_iov (mb_data b) (48 + 24 * i)"
  by (simp add: iov_at_def mbuf_addr_def)

lemma iovs_kept:
  assumes "\<forall>i<length xs. ld_iov d (48 + 24 * i) = xs ! i" "mb_iovs b = mbuf_addr pkt 48" "unat (mb_nr_iov b) = length xs"
    and "mb_data b = udp_fill c ident fl (st_mac d 0 mac)"
  shows "map (iov_at pkt b) [0..<unat (mb_nr_iov b)] = xs"
proof (rule nth_equalityI)
  fix i
  assume i: "i < length (map (iov_at pkt b) [0..<unat (mb_nr_iov b)])"
  have "ld_iov (mb_data b) (48 + 24 * i) = ld_iov d (48 + 24 * i)"
    unfolding assms(4) by (rule ld_iov_cong) (simp add: udp_fill_other st_mac_def)
  then show "map (iov_at pkt b) [0..<unat (mb_nr_iov b)] ! i = xs ! i" using i assms(1,2,3) by (simp add: iov_at_48)
qed (simp add: assms(3))

lemma udp_send_ok:
  assumes arp: "arp_static env s m f" "m (dst_ip ident) = Some mac" and n: "n \<le> UDP_MAX_LEN"
    and pool: "mempool_ok (ns_heap s) (ns_mbufs s) F L" "F \<noteq> {}"
    and pg: "payload_pinnable (ns_mm s) base n" and tx: "tx_room s" and dev: "ne_eth_dev_count env \<le> 1"
  shows "\<exists>pkt s'. udp_send env tsc cyc base n ident cookie s = Some (Inr (0, s')) \<and> pkt \<in> F \<and>
    mempool_ok (ns_heap s) (ns_mbufs s') (F - {pkt}) (insert pkt L) \<and> ns_tw s' = ns_tw s \<and> ns_arp_entries s' = ns_arp_entries s \<and>
    ns_responses s' = ns_responses s \<and> ns_mm s' = pin_payload base n (ns_mm s) \<and> (\<forall>x. x \<noteq> pkt \<longrightarrow> ns_store s' x = ns_store s x) \<and>
    ns_txqs s' = (ns_txqs s)[0 := queued pkt (Suc (length (payload base n))) (ns_txqs s ! 0)] \<and>
    datagram env ident mac base n (ns_mm s) pkt (ns_store s pkt) (ns_store s' pkt) \<and>
    mb_done (ns_store s' pkt) = ne_udp_mbuf_done env \<and> mb_done_data (ns_store s' pkt) = cookie \<and>
    mb_iovs (ns_store s' pkt) = mbuf_addr pkt 48 \<and> mb_nr_iov (ns_store s' pkt) = of_nat (length (payload base n))"
proof -
  obtain pkt p b where a: "mbuf_alloc_local env s = Inr (pkt, s\<lparr>ns_mbufs := p, ns_store := (ns_store s)(pkt := b)\<rparr>)" "pkt \<in> F" "pkt \<noteq> NULL"
    "mempool_ok (ns_heap s) p (F - {pkt}) (insert pkt L)" "mb_data b = mb_data (ns_store s pkt)"
    using mbuf_alloc_local_ok [OF pool] by blast
  let ?s1 = "s\<lparr>ns_mbufs := p, ns_store := (ns_store s)(pkt := b)\<rparr>" and ?l = "length (payload base n)"
  obtain d where d: "udp_iovs pkt base n ?s1 = Inr (first_len base n, ?s1\<lparr>ns_mm := pin_payload base n (ns_mm s), ns_store := (ns_store ?s1)
      (pkt := (ns_store ?s1 pkt)\<lparr>mb_iovs := mbuf_addr pkt 48, mb_data := d, mb_nr_iov := of_nat ?l\<rparr>)\<rparr>)"
    "\<forall>x<48. d x = mb_data (ns_store s pkt) x" "\<forall>i<?l. ld_iov d (48 + 24 * i) = payload_iovs (ns_mm s) base n ! i"
    using udp_iovs_ok [of ?s1 base n pkt] pg a(5) by auto
  let ?b3 = "b\<lparr>mb_iovs := mbuf_addr pkt 48, mb_data := d, mb_nr_iov := of_nat ?l, mb_done := ne_udp_mbuf_done env, mb_done_data := cookie\<rparr>"
  let ?s3 = "s\<lparr>ns_mbufs := p, ns_mm := pin_payload base n (ns_mm s), ns_store := (ns_store s)(pkt := ?b3)\<rparr>"
  have "arp_static env ?s3 m f" using arp(1) by (subst arp_static_cong [of _ s]) simp_all
  then have l: "arp_lookup_mac env tsc cyc (dst_ip ident) ?s3 = Some (Inr (0, mac, ?s3))" using arp(2) by (rule arp_static_lookup)
  let ?d = "udp_fill (ne_cfg env) ident (first_len base n + 8) (st_mac d 0 mac)"
  let ?b = "?b3\<lparr>mb_data := ?d, mb_ol_flags := 0, mb_len := UDP_PKT_SIZE\<rparr>"
  let ?s6 = "s\<lparr>ns_mbufs := p, ns_mm := pin_payload base n (ns_mm s), ns_store := (ns_store s)(pkt := ?b)\<rparr>"
  have o: "send_on pkt ?s6 = Inr (0, ?s6\<lparr>ns_txqs := (ns_txqs ?s6)[0 := queued pkt (Suc ?l) (ns_txqs ?s6 ! 0)]\<rparr>)"
    by (rule send_on_room) (use tx payload_length in \<open>simp_all add: tx_room_def\<close>)
  have u: "udp_send env tsc cyc base n ident cookie s = Some (Inr (0, ?s6\<lparr>ns_txqs := (ns_txqs s)[0 := queued pkt (Suc ?l) (ns_txqs s ! 0)]\<rparr>))"
    using n a(1,3) d(1) l o dev by (simp add: udp_send_def not_less [symmetric] Let_def upd_mbuf_def upd_data_def)
  have iv: "map (iov_at pkt ?b) [0..<unat (mb_nr_iov ?b)] = payload_iovs (ns_mm s) base n"
  proof (rule iovs_kept)
    show "unat (mb_nr_iov ?b) = length (payload_iovs (ns_mm s) base n)" using payload_length [of base n] by (auto simp: payload_iovs_def)
    show "\<forall>i<length (payload_iovs (ns_mm s) base n). ld_iov d (48 + 24 * i) = payload_iovs (ns_mm s) base n ! i" using d(3) by (simp add: payload_iovs_def)
  qed simp_all
  have "datagram env ident mac base n (ns_mm s) pkt (ns_store s pkt) ?b"
    unfolding datagram_def using iv d(2) by (auto intro!: exI [of _ d])
  then show ?thesis using u a(2,4) by (intro exI [of _ pkt] exI [of _ "?s6\<lparr>ns_txqs := (ns_txqs s)[0 := queued pkt (Suc ?l) (ns_txqs s ! 0)]\<rparr>"]) simp
qed

section \<open>When the device is done\<close>

lemma free_iovs_list:
  "\<forall>v\<in>set xs. pinnable mm (iov_base v) \<Longrightarrow> map (iov_at m b) is = xs \<Longrightarrow>
     free_iovs os m b is mm = Inr (fold (\<lambda>v. add_ref (- 1) (iov_base v)) xs mm)"
proof (induction xs arbitrary: "is" mm)
  case (Cons v xs)
  then obtain i js where i: "is = i # js" "iov_at m b i = v" "map (iov_at m b) js = xs" by auto
  have "page_put os (iov_base v) mm = Inr (add_ref (- 1) (iov_base v) mm)" using Cons.prems(1) by (intro page_put_pinnable) simp
  moreover have "free_iovs os m b js (add_ref (- 1) (iov_base v) mm) = Inr (fold (\<lambda>v. add_ref (- 1) (iov_base v)) xs (add_ref (- 1) (iov_base v) mm))"
    using Cons.prems(1) i(3) by (intro Cons.IH) simp_all
  ultimately show ?case using i by (simp add: mbuf_iov_free_def)
qed simp

lemma unpin_payload:
  assumes "payload_pinnable mm base n"
  shows "fold (\<lambda>v. add_ref (- 1) (iov_base v)) (payload_iovs mm0 base n) (pin_payload base n mm) = mm"
proof (cases "n = first_len base n")
  case True
  note p = payload_one [OF True]
  show ?thesis using assms by (simp add: payload_iovs_def pin_payload_def p add_ref_cancel)
next
  case False
  note p = payload_two [OF False]
  have a: "pinnable mm base" "pinnable mm (base + first_len base n)" using assms by (simp_all add: p)
  have "add_ref (- 1) base (add_ref 1 (base + first_len base n) (add_ref 1 base mm)) = add_ref 1 (base + first_len base n) mm"
    using add_ref_swap [OF a(2,1), of 1 1] add_ref_cancel [of "add_ref 1 (base + first_len base n) mm" base] a by simp
  then show ?thesis using add_ref_cancel [OF a(2)] by (simp add: payload_iovs_def pin_payload_def p)
qed

lemma pinnable_pin_payload: "pinnable mm a \<Longrightarrow> pinnable (pin_payload base n mm) a"
  by (simp add: pin_payload_def payload_def Let_def)

lemma free_payload:
  assumes "payload_pinnable mm base n" "map (iov_at pkt b) is = payload_iovs mm base n"
  shows "free_iovs os pkt b is (pin_payload base n mm) = Inr mm"
proof -
  have "\<forall>v\<in>set (payload_iovs mm base n). pinnable (pin_payload base n mm) (iov_base v)"
    using assms(1) by (fastforce simp: payload_iovs_def list_all_iff intro: pinnable_pin_payload)
  then show ?thesis using free_iovs_list [OF _ assms(2)] unpin_payload [OF assms(1)] by simp
qed

lemma udp_mbuf_done_ok:
  assumes mm: "payload_pinnable mm base n" "ns_mm s = pin_payload base n mm"
    and iov: "map (iov_at pkt (ns_store s pkt)) [0..<unat (mb_nr_iov (ns_store s pkt))] = payload_iovs mm base n"
    and pool: "mempool_ok (ns_heap s) (ns_mbufs s) F (insert pkt L)" "pkt \<notin> L"
    and resp: "mempool_ok (ns_heap s) (ns_responses s) Fr Lr" "mb_done_data (ns_store s pkt) \<in> Lr" and disj: "insert pkt F \<inter> (Fr \<union> Lr) = {}"
  defines "c \<equiv> mb_done_data (ns_store s pkt)"
  shows "\<exists>s'. udp_mbuf_done env pkt s = Inr s' \<and> ns_mm s' = mm \<and> mempool_ok (ns_heap s') (ns_mbufs s') (insert pkt F) L \<and>
    mempool_ok (ns_heap s') (ns_responses s') (insert c Fr) (Lr - {c})"
proof -
  obtain h1 p1 where 1: "pool_free (ns_heap s) (ns_responses s) c = Inr (h1, p1)" "mempool_ok h1 p1 (insert c Fr) (Lr - {c})"
    "\<And>y. y \<notin> insert c Fr \<Longrightarrow> h1 y = ns_heap s y"
    using mp.free_live [OF resp(1), of c] resp(2) unfolding c_def by blast
  have d: "\<And>x. x \<in> insert pkt F \<Longrightarrow> x \<notin> insert c Fr" using disj resp(2) unfolding c_def by blast
  have "mempool_ok h1 (ns_mbufs s) F (insert pkt L)" by (rule mp.ok_frame [OF pool(1)]) (rule 1(3), rule d, simp)
  then obtain h2 p2 where 2: "pool_free h1 (ns_mbufs s) pkt = Inr (h2, p2)" "mempool_ok h2 p2 (insert pkt F) (insert pkt L - {pkt})"
    "\<And>y. y \<notin> insert pkt F \<Longrightarrow> h2 y = h1 y"
    using mp.free_live [of h1 "ns_mbufs s" F "insert pkt L" pkt] by blast
  have L: "insert pkt L - {pkt} = L" using pool(2) by simp
  have "h2 x = h1 x" if "x \<in> insert c Fr" for x using 2(3) [of x] d [of x] that by blast
  then have 3: "mempool_ok h2 p1 (insert c Fr) (Lr - {c})" by (rule mp.ok_frame [OF 1(2)])
  have f: "free_iovs (ne_os env) pkt (ns_store s pkt) [0..<unat (mb_nr_iov (ns_store s pkt))] (ns_mm s) = Inr mm"
    unfolding mm(2) by (rule free_payload [OF mm(1) iov])
  show ?thesis
    using f 1(1) 2(1,2) 3 by (simp add: udp_mbuf_done_def mbuf_free_def set_heap_def Let_def c_def [symmetric] L)
qed

lemma ucast_add_8: "(ucast (k + 8 :: u64) :: u16) = 8 + ucast k"
proof -
  have "(8 + j mod 2 ^ 64) mod 2 ^ 16 = (8 + j) mod (2 ^ 16 :: int)" for j
  proof -
    have c: "(j mod 2 ^ 64) mod 2 ^ 16 = j mod (2 ^ 16 :: int)" by (rule mod_mod_cancel) (simp add: le_imp_power_dvd)
    have "(8 + j mod 2 ^ 64) mod 2 ^ 16 = (8 + (j mod 2 ^ 64) mod 2 ^ 16) mod (2 ^ 16 :: int)" by (simp only: mod_add_right_eq)
    then show ?thesis unfolding c by (simp only: mod_add_right_eq)
  qed
  then have "(ucast (8 + k) :: u16) = 8 + ucast k" by transfer (simp add: take_bit_eq_mod mod_mod_cancel)
  then show ?thesis by (simp only: add.commute [of k])
qed

section \<open>Properties\<close>

text \<open>
  C19: \<open>udp_send\<close> to an address in the table, with a free buffer, room in the transmit queue and a payload in pages of the page table,
  succeeds: a buffer taken from the pool is queued for the device, with the headers of the datagram, sent to the hardware address of
  the destination, and vectors for the whole payload whose pages are pinned.  The lengths in the headers count the part of the payload
  in its first page only.
\<close>

theorem udp_send_sends:
  assumes "arp_static env s m f" "m (dst_ip ident) = Some mac" "length mac = 6" "length (cfg_mac (ne_cfg env)) = 6" "n \<le> UDP_MAX_LEN"
    and "mempool_ok (ns_heap s) (ns_mbufs s) F L" "F \<noteq> {}" "payload_pinnable (ns_mm s) base n" "tx_room s" "ne_eth_dev_count env \<le> 1"
  shows "\<exists>pkt\<in>F. \<exists>s'. udp_send env tsc cyc base n ident cookie s = Some (Inr (0, s')) \<and>
    mempool_ok (ns_heap s') (ns_mbufs s') (F - {pkt}) (insert pkt L) \<and> ns_mm s' = pin_payload base n (ns_mm s) \<and>
    tx_bufs (ns_txqs s' ! 0) ! tx_len (ns_txqs s ! 0) = pkt \<and> tx_len (ns_txqs s' ! 0) = tx_len (ns_txqs s ! 0) + 1 \<and>
    (let b = ns_store s' pkt; q = mb_data b in mb_len b = UDP_PKT_SIZE \<and> ld_mac q 0 = mac \<and> ld_mac q 6 = cfg_mac (ne_cfg env) \<and>
      ntoh16 (ld16 q 16) = 28 + ucast (first_len base n) \<and> ld32 q 26 = hton32 (host_addr (ne_cfg env)) \<and> ld32 q 30 = hton32 (dst_ip ident) \<and>
      ntoh16 (ld16 q 36) = dst_port ident \<and> ntoh16 (ld16 q 38) = 8 + ucast (first_len base n) \<and> chksum_internet (map q [14..<34]) = 0 \<and>
      map (iov_at pkt b) [0..<unat (mb_nr_iov b)] = payload_iovs (ns_mm s) base n)"
proof -
  obtain pkt s' where u: "udp_send env tsc cyc base n ident cookie s = Some (Inr (0, s'))" "pkt \<in> F"
    "mempool_ok (ns_heap s) (ns_mbufs s') (F - {pkt}) (insert pkt L)" "ns_tw s' = ns_tw s" "ns_mm s' = pin_payload base n (ns_mm s)"
    "ns_txqs s' = (ns_txqs s)[0 := queued pkt (Suc (length (payload base n))) (ns_txqs s ! 0)]"
    "datagram env ident mac base n (ns_mm s) pkt (ns_store s pkt) (ns_store s' pkt)"
    using udp_send_ok [OF assms(1,2,5-10)] by metis
  obtain d where d: "mb_data (ns_store s' pkt) = udp_fill (ne_cfg env) ident (first_len base n + 8) (st_mac d 0 mac)"
    using u(7) unfolding datagram_def by blast
  note fl = udp_fill_fields [OF assms(4) d]
  have "ld_mac (st_mac d 0 mac) 0 = mac" using assms(3) by (simp add: packet_bytes)
  then show ?thesis
    using u fl assms(9) udp_fill_sum unfolding d datagram_def
    by (intro bexI [of _ pkt] exI [of _ s']) (simp_all add: Let_def tx_room_def queued_def bswap16_swap d ucast_add_8 del: upt_rec_numeral)
qed

text \<open>
  C21: When the device has sent the datagram, \<open>mbuf_xmit_done\<close> returns everything \<open>udp_send\<close> took: the pages are unpinned, and the
  buffer and the response it carried are free again.
\<close>

theorem udp_send_released:
  assumes "arp_static env s m f" "m (dst_ip ident) = Some mac" "n \<le> UDP_MAX_LEN"
    and "mempool_ok (ns_heap s) (ns_mbufs s) F L" "F \<noteq> {}" "payload_pinnable (ns_mm s) base n" "tx_room s" "ne_eth_dev_count env \<le> 1"
    and "mempool_ok (ns_heap s) (ns_responses s) Fr Lr" "cookie \<in> Lr" "F \<inter> (Fr \<union> Lr) = {}" "ne_udp_mbuf_done env \<noteq> ne_mbuf_default_done env"
  shows "\<exists>pkt s' s''. udp_send env tsc cyc base n ident cookie s = Some (Inr (0, s')) \<and>
    tx_bufs (ns_txqs s' ! 0) ! tx_len (ns_txqs s ! 0) = pkt \<and> mbuf_xmit_done env pkt s' = Inr s'' \<and> ns_mm s'' = ns_mm s \<and>
    mempool_ok (ns_heap s'') (ns_mbufs s'') F L \<and> mempool_ok (ns_heap s'') (ns_responses s'') (insert cookie Fr) (Lr - {cookie})"
proof -
  obtain pkt s' where u: "udp_send env tsc cyc base n ident cookie s = Some (Inr (0, s'))" "pkt \<in> F"
    "mempool_ok (ns_heap s) (ns_mbufs s') (F - {pkt}) (insert pkt L)" "ns_tw s' = ns_tw s" "ns_responses s' = ns_responses s"
    "ns_mm s' = pin_payload base n (ns_mm s)" "ns_txqs s' = (ns_txqs s)[0 := queued pkt (Suc (length (payload base n))) (ns_txqs s ! 0)]"
    "datagram env ident mac base n (ns_mm s) pkt (ns_store s pkt) (ns_store s' pkt)"
    "mb_done (ns_store s' pkt) = ne_udp_mbuf_done env" "mb_done_data (ns_store s' pkt) = cookie"
    using udp_send_ok [OF assms(1-8)] by metis
  have F: "insert pkt (F - {pkt}) = F" using u(2) by blast
  have L: "pkt \<notin> L" using mp.ok_sets [OF assms(4)] u(2) by blast
  have iov: "map (iov_at pkt (ns_store s' pkt)) [0..<unat (mb_nr_iov (ns_store s' pkt))] = payload_iovs (ns_mm s) base n"
    using u(8) by (simp add: datagram_def)
  have p: "mempool_ok (ns_heap s') (ns_mbufs s') (F - {pkt}) (insert pkt L)" and r: "mempool_ok (ns_heap s') (ns_responses s') Fr Lr"
    and c: "mb_done_data (ns_store s' pkt) \<in> Lr" and dj: "insert pkt (F - {pkt}) \<inter> (Fr \<union> Lr) = {}"
    using u(3,4,5,10) assms(9-11) unfolding F by simp_all
  obtain s'' where x: "udp_mbuf_done env pkt s' = Inr s''" "ns_mm s'' = ns_mm s" "mempool_ok (ns_heap s'') (ns_mbufs s'') F L"
    "mempool_ok (ns_heap s'') (ns_responses s'') (insert cookie Fr) (Lr - {cookie})"
    using udp_mbuf_done_ok [OF assms(6) u(6) iov p L r c dj, of env] unfolding F u(10) by blast
  have "mbuf_xmit_done env pkt s' = Inr s''" using x(1) u(9) assms(12) by (simp add: mbuf_xmit_done_def Let_def)
  moreover have "tx_bufs (ns_txqs s' ! 0) ! tx_len (ns_txqs s ! 0) = pkt" using u(7) assms(7) by (simp add: tx_room_def queued_def)
  ultimately show ?thesis using u(1) x(2-4) by blast
qed

section \<open>A state that sends\<close>

text \<open>The sample state with a static entry for another host, and one response in use.\<close>

definition peer_mac :: "u8 list" where "peer_mac = [2, 0, 0, 0, 0, 7]"

definition peer_entry :: net_state where
  "peer_entry = arp_new_entry sample_env 0x0A000002 (ARP_FLAG_VALID OR ARP_FLAG_STATIC) NULL 0x10000
     (sample_net\<lparr>ns_arp_entries := sample_pool 0x10100 1\<rparr>)"

definition peer_net :: net_state where
  "peer_net = (set_heap (set_entry_mac (ns_heap peer_entry) 0x10000 peer_mac) peer_entry)\<lparr>ns_responses := sample_pool 0x4000000030 1\<rparr>"

lemma peer_arp_ok:
  "arp_ok sample_env peer_net (with_entry (\<lambda>_. []) 0x0A000002 0x10000) {0x10100}"
  "arp_table (ns_heap peer_net) (with_entry (\<lambda>_. []) 0x0A000002 0x10000) = [0x0A000002 \<mapsto> (peer_mac, ARP_FLAG_VALID OR ARP_FLAG_STATIC)]"
proof -
  have "mempool_ok (ns_heap sample_net) (sample_pool 0x10100 1) (set [0x10100]) {0x10000}"
    by (rule sample_pool_ok) (simp_all add: sample_net_def sample_defs)
  then have p: "mempool_ok (ns_heap sample_net) (sample_pool 0x10100 1) ({0x10000, 0x10100} - {0x10000}) (insert 0x10000 (entries (\<lambda>_. [])))"
    by (simp add: insert_Diff_if)
  have none: "entry_of (ns_heap sample_net) (\<lambda>_. []) 0x0A000002 = None" by (simp add: entry_of_def)
  have "0x10000 \<in> {0x10000, 0x10100 :: addr}" by simp
  note e = new_entry_ok [OF sample_arp_ok this none p, of "ARP_FLAG_VALID OR ARP_FLAG_STATIC" NULL, folded peer_entry_def]
  have "length peer_mac = 6" by (simp add: peer_mac_def)
  note m = set_mac_ok [OF e(1,2) this]
  show "arp_ok sample_env peer_net (with_entry (\<lambda>_. []) 0x0A000002 0x10000) {0x10100}"
    using m(1) by (simp add: peer_net_def arp_ok_def insert_Diff_if)
  have "arp_table (ns_heap sample_net) (\<lambda>_. []) = Map.empty" by (rule ext) (simp add: arp_table_def entry_of_def)
  then show "arp_table (ns_heap peer_net) (with_entry (\<lambda>_. []) 0x0A000002 0x10000) = [0x0A000002 \<mapsto> (peer_mac, ARP_FLAG_VALID OR ARP_FLAG_STATIC)]"
    using m(2) e(4,5) by (simp add: peer_net_def del: fun_upd_apply)
qed

lemma peer_static: "arp_static sample_env peer_net [0x0A000002 \<mapsto> peer_mac] 1"
  unfolding arp_static_def using peer_arp_ok by (intro exI [of _ "with_entry (\<lambda>_. []) 0x0A000002 0x10000"] exI [of _ "{0x10100}"]) simp

lemma peer_heap:
  assumes "x \<notin> {0x10000, 0x10010, 0x10038}" "\<And>i. i < ARP_MAX_ENTRIES \<Longrightarrow> x \<noteq> bucket_at sample_env i"
  shows "ns_heap peer_net x = ns_heap sample_net x"
proof -
  have c: "can_add sample_env (ns_heap sample_net) (\<lambda>_. []) ({0x10000, 0x10100} \<union> entries (\<lambda>_. [])) 0x0A000002 0x10000"
    by (rule can_add_free [OF sample_arp_ok]) (simp_all add: entry_of_def)
  have "x \<noteq> arp_bucket sample_env 0x0A000002" using assms(2) [OF arp_idx_less] by (simp add: arp_bucket_at)
  then have "ns_heap peer_entry x = ns_heap sample_net x"
    using new_entry_frame [OF c, of x "ARP_FLAG_VALID OR ARP_FLAG_STATIC" NULL] assms(1)
    by (simp add: peer_entry_def arp_new_entry_heap set_heap_def ARP_TIMER_def ARP_LINK_def)
  then show ?thesis using assms(1) by (simp add: peer_net_def set_heap_def set_entry_mac_other)
qed

lemma peer_high: "x \<ge> 0x300000 \<Longrightarrow> ns_heap peer_net x = ns_heap sample_net x"
proof (rule peer_heap)
  fix i
  assume x: "x \<ge> 0x300000" and i: "i < ARP_MAX_ENTRIES"
  have "unat (0x300000 :: u64) \<le> unat x" using x by (simp only: word_le_nat_alt)
  then show "x \<noteq> bucket_at sample_env i" using sample_bucket_unat [OF i] i by (auto simp: ARP_MAX_ENTRIES_def)
qed auto

lemma peer_mbufs: "mempool_ok (ns_heap peer_net) (ns_mbufs peer_net) {0x300000, 0x301000} {}"
proof -
  have "mempool_ok (ns_heap sample_net) (sample_pool 0x300000 2) (set [0x300000, 0x301000]) {}"
    by (rule sample_pool_ok) (simp_all add: sample_net_def sample_defs)
  then have "mempool_ok (ns_heap peer_net) (sample_pool 0x300000 2) (set [0x300000, 0x301000]) {}"
    by (rule mp.ok_frame) (auto intro: peer_high)
  then show ?thesis by (simp add: peer_net_def peer_entry_def arp_new_entry_heap set_heap_def sample_net_def)
qed

lemma peer_responses: "mempool_ok (ns_heap peer_net) (ns_responses peer_net) {0x4000000030} {0x4000000000}"
proof -
  have "mempool_ok (ns_heap sample_net) (sample_pool 0x4000000030 1) (set [0x4000000030]) {0x4000000000}"
    by (rule sample_pool_ok) (simp_all add: sample_net_def sample_defs)
  then have "mempool_ok (ns_heap peer_net) (sample_pool 0x4000000030 1) (set [0x4000000030]) {0x4000000000}"
    by (rule mp.ok_frame) (auto intro: peer_high)
  then show ?thesis by (simp add: peer_net_def)
qed

lemma peer_fields: "ns_mm peer_net = ns_mm sample_net" "ns_txqs peer_net = ns_txqs sample_net" "ns_store peer_net = ns_store sample_net"
  by (simp_all add: peer_net_def peer_entry_def arp_new_entry_heap set_heap_def)

lemma peer_room: "tx_room peer_net"
  by (simp add: tx_room_def peer_fields sample_net_def)

lemma peer_pinnable: "payload_pinnable (ns_mm peer_net) 0x4000000000 48"
proof -
  have n: "PAGE_NUM 0x4000000000 = 0" by (simp add: PAGE_NUM_def PGN_2MB_def mem_map drop_bit_eq_div)
  have "first_len 0x4000000000 48 = 48" by (simp add: first_len_def PGOFF_2MB_def PGSIZE_2MB_def)
  then show ?thesis by (simp add: payload_def pinnable_def peer_fields sample_net_def n)
qed

lemmas peer_hyps = peer_mbufs peer_responses peer_room peer_pinnable

theorem udp_send_sends_witness:
  "\<exists>pkt\<in>{0x300000, 0x301000}. \<exists>s'. udp_send sample_env 0 0 0x4000000000 48 sample_ident 0x4000000000 peer_net = Some (Inr (0, s')) \<and>
     tx_bufs (ns_txqs s' ! 0) ! 0 = pkt \<and> ld_mac (mb_data (ns_store s' pkt)) 0 = peer_mac"
proof -
  have "tx_len (ns_txqs peer_net ! 0) = 0" by (simp add: peer_fields sample_net_def)
  then show ?thesis
    using udp_send_sends [OF peer_static, of sample_ident peer_mac 48 "{0x300000, 0x301000}" "{}" "0x4000000000" 0 0 "0x4000000000"] peer_hyps
    unfolding Let_def by (simp add: sample_ident_def peer_mac_def sample_env_def sample_cfg_def UDP_MAX_LEN_def ETH_MTU_def del: upt_rec_numeral) blast
qed

theorem udp_send_released_witness:
  "\<exists>pkt s' s''. udp_send sample_env 0 0 0x4000000000 48 sample_ident 0x4000000000 peer_net = Some (Inr (0, s')) \<and>
     mbuf_xmit_done sample_env pkt s' = Inr s'' \<and> ns_mm s'' = ns_mm peer_net \<and>
     mempool_ok (ns_heap s'') (ns_mbufs s'') {0x300000, 0x301000} {} \<and>
     mempool_ok (ns_heap s'') (ns_responses s'') {0x4000000000, 0x4000000030} {}"
  using udp_send_released [OF peer_static, of sample_ident peer_mac 48 "{0x300000, 0x301000}" "{}" "0x4000000000"
      "{0x4000000030}" "{0x4000000000}" "0x4000000000" 0 0] peer_hyps
  by (simp add: sample_ident_def sample_env_def UDP_MAX_LEN_def ETH_MTU_def) blast

end
