(* ===== verification/Request_Answer.thy ===== *)
theory Request_Answer
  imports Udp_Send
begin

text \<open>
  From a received request to its answer: \<open>generic_work\<close>, started with the arguments \<open>handle_new_packet\<close> passes, queues one datagram
  to the host the request came from, and the response in it describes the request.
\<close>

section \<open>The address table and other memory\<close>

text \<open>The memory the table uses, and a table of static entries outside a given region.\<close>

definition arp_memory :: "net_env \<Rightarrow> (nat \<Rightarrow> addr list) \<Rightarrow> addr set \<Rightarrow> addr set" where
  "arp_memory env B F = F \<union> entries B \<union> (\<lambda>e. e + ARP_LINK) ` entries B \<union> bucket_at env ` {..<ARP_MAX_ENTRIES}"

definition arp_outside :: "net_env \<Rightarrow> net_state \<Rightarrow> (u32 \<rightharpoonup> u8 list) \<Rightarrow> nat \<Rightarrow> addr set \<Rightarrow> bool" where
  "arp_outside env s m n R \<longleftrightarrow>
     (\<exists>B F. arp_ok env s B F \<and> card F = n \<and> R \<inter> arp_memory env B F = {} \<and>
        (\<forall>a. arp_table (ns_heap s) B a = map_option (\<lambda>mac. (mac, ARP_FLAG_VALID OR ARP_FLAG_STATIC)) (m a)))"

lemma arp_rep_frame:
  assumes r: "arp_rep env h B" and same: "\<And>x. x \<in> arp_memory env B F \<Longrightarrow> h' x = h x"
  shows "arp_rep env h' B"
proof -
  have a: "entry_addr h' e = entry_addr h e" if "e \<in> entries B" for e using same [of e] that by (simp add: entry_addr_def arp_memory_def)
  have "hlist_rep h' (bucket_at env i) (map (\<lambda>e. e + ARP_LINK) (B i)) = hlist_rep h (bucket_at env i) (map (\<lambda>e. e + ARP_LINK) (B i))"
    if i: "i < ARP_MAX_ENTRIES" for i
  proof -
    have "h' x = h x" if x: "x \<in> set (bucket_at env i # map (\<lambda>e. e + ARP_LINK) (B i))" for x
    proof (rule same)
      show "x \<in> arp_memory env B F" using x i by (auto simp: arp_memory_def)
    qed
    then show ?thesis by (intro hlist_rep_cong) simp_all
  qed
  moreover have "entry_addr h' e = entry_addr h e" if "i < ARP_MAX_ENTRIES" "e \<in> set (B i)" for i e using a [of e] that by blast
  moreover have "inj_on (entry_addr h') (entries B) = inj_on (entry_addr h) (entries B)" by (rule inj_on_cong) (rule a)
  ultimately show ?thesis using r by (simp add: arp_rep_def)
qed

lemma arp_table_frame:
  assumes "\<And>x. x \<in> arp_memory env B F \<Longrightarrow> h' x = h x"
  shows "arp_table h' B a = arp_table h B a"
proof -
  have same: "h' e = h e" if "e \<in> entries B" for e using assms that by (simp add: arp_memory_def)
  have of: "entry_of h' B a = entry_of h B a"
  proof (rule entry_of_cong)
    fix x
    assume "x \<in> set (B (arp_ip_to_idx a))"
    then have "x \<in> entries B" by (intro UN_I [of "arp_ip_to_idx a"]) (simp_all add: arp_idx_less)
    then have "h' x = h x" by (rule same)
    then show "entry_addr h' x = entry_addr h x" by (simp only: entry_addr_def)
  qed
  show ?thesis
  proof (cases "entry_of h B a")
    case (Some e)
    have "h' e = h e" by (rule same [OF entry_of_entries [OF Some]])
    then show ?thesis using Some of by (simp add: arp_table_def entry_mac_def)
  qed (simp add: arp_table_def of)
qed

lemma arp_outside_static:
  assumes "arp_outside env s m n R" "\<And>x. x \<notin> R \<Longrightarrow> h x = ns_heap s x"
  shows "arp_static env (set_heap h s) m n"
proof -
  obtain B F where o: "arp_ok env s B F" "card F = n" "R \<inter> arp_memory env B F = {}"
    "\<And>a. arp_table (ns_heap s) B a = map_option (\<lambda>mac. (mac, ARP_FLAG_VALID OR ARP_FLAG_STATIC)) (m a)"
    using assms(1) unfolding arp_outside_def by metis
  have same: "h x = ns_heap s x" if "x \<in> arp_memory env B F" for x using assms(2) [of x] o(3) that by (metis disjoint_iff)
  have k: "mempool_ok (ns_heap s) (ns_arp_entries s) F (entries B)" "arp_layout env (F \<union> entries B)" "arp_rep env (ns_heap s) B"
    using o(1) by (simp_all add: arp_ok_def)
  have "mempool_ok h (ns_arp_entries s) F (entries B)" by (rule mp.ok_frame [OF k(1)]) (simp add: same arp_memory_def)
  moreover have "arp_rep env h B" by (rule arp_rep_frame [OF k(3) same])
  ultimately have "arp_ok env (set_heap h s) B F" using k(2) by (simp add: arp_ok_def set_heap_def)
  moreover have "arp_table h B a = map_option (\<lambda>mac. (mac, ARP_FLAG_VALID OR ARP_FLAG_STATIC)) (m a)" for a
    using arp_table_frame [of env B F h "ns_heap s" a] same o(4) by metis
  ultimately show ?thesis using o(2) unfolding arp_static_def by (intro exI [of _ B] exI [of _ F]) (simp add: set_heap_def)
qed

section \<open>The request in its buffer\<close>

lemma mbuf_addr_diff: "k < 2 ^ 64 \<Longrightarrow> unat (mbuf_addr m k - mbuf_addr m 0) = k"
  using unat_of_nat64 [of k] by (simp add: mbuf_addr_def)

lemma ld64_store_tuple: "12 \<le> k \<Longrightarrow> ld64 (store_ip_tuple d t) k = ld64 d k"
  by (rule ld64_cong) (simp add: store_ip_tuple_other)

lemma udp_pos_bounds: "ip_checks p \<Longrightarrow> 34 \<le> udp_pos p" "udp_pos p \<le> 74"
  using ip_header_len_bound [of "mb_data p" 14] by (auto simp: udp_pos_def ip_checks_def Let_def)

text \<open>The answer goes back to where the request came from.\<close>

definition reply_tuple :: "mbuf \<Rightarrow> ip_tuple" where
  "reply_tuple p = (let d = mb_data p in
     \<lparr>src_ip = ntoh32 (ip_dst d ETH_HDR_LEN), dst_ip = ntoh32 (ip_src d ETH_HDR_LEN),
      src_port = ntoh16 (udp_dst_port d (udp_pos p)), dst_port = ntoh16 (udp_src_port d (udp_pos p))\<rparr>)"

text \<open>The response \<open>generic_work\<close> writes.\<close>

definition response_written :: "u64 \<Rightarrow> u64 \<Rightarrow> u64 \<Rightarrow> worker_tls \<Rightarrow> u64 \<Rightarrow> addr \<Rightarrow> heap \<Rightarrow> heap" where
  "response_written genNs runNs recv tls send_tsc resp h =
     hwrite (hwrite (hwrite (hwrite (hwrite (hwrite h resp RESP_GEN_NS genNs) resp RESP_RUN_NS runNs) resp RESP_RECV_NS recv)
       resp RESP_NETWORKER_CY (tls_networker_cy tls)) resp RESP_DISPATCHER_CY (tls_dispatcher_cy tls)) resp RESP_SEND_NS send_tsc"

lemma response_written_other: "x \<noteq> resp \<Longrightarrow> response_written g r v tls t resp h x = h x"
  by (simp add: response_written_def hwrite_def)

lemma response_written_fields:
  "response_written g r v tls t resp h resp RESP_GEN_NS = g" "response_written g r v tls t resp h resp RESP_RUN_NS = r"
  "response_written g r v tls t resp h resp RESP_RECV_NS = v" "response_written g r v tls t resp h resp RESP_SEND_NS = t"
  by (simp_all add: response_written_def hwrite_def)

text \<open>\<open>generic_work\<close> on a parsed request, up to the call of \<open>udp_send\<close>.\<close>

lemma generic_work_sends:
  assumes p: "ip_checks p" "udp_fits p" "ns_store s rq = snd (parse_packet p)" and run: "unat (ld64 (mb_data p) (udp_pos p + 8)) \<le> 2 ^ 50"
    and r: "pool_alloc (ns_heap s) (ns_responses s) = Inr (resp, q)" "resp \<noteq> NULL"
    and args: "data = mbuf_addr rq (udp_pos p + 8)" "ident = mbuf_addr rq 0" "ts = mb_timestamp p"
    and h_def: "h = response_written (ld64 (mb_data p) (udp_pos p + 16)) (ld64 (mb_data p) (udp_pos p + 8)) (mb_timestamp p) tls send_tsc resp (ns_heap s)"
  shows "generic_work env tsc cyc send_tsc rq (msw data) (lsw data) (msw ident) (lsw ident) (msw ts) (lsw ts) (tls, s, sent) =
    bindR (udp_send env tsc cyc resp 48 (reply_tuple p) resp (set_heap h (s\<lparr>ns_responses := q\<rparr>)))
      (\<lambda>(ret, s2). Some (Inr (tls\<lparr>finished := True\<rparr>, s2, if ret = 0 then sent + 1 else sent)))"
proof -
  obtain t where t: "mb_data (ns_store s rq) = store_ip_tuple (mb_data p) t"
    "t = \<lparr>src_ip = ntoh32 (ip_src (mb_data p) 14), dst_ip = ntoh32 (ip_dst (mb_data p) 14),
       src_port = ntoh16 (udp_src_port (mb_data p) (udp_pos p)), dst_port = ntoh16 (udp_dst_port (mb_data p) (udp_pos p))\<rparr>"
    using parse_packet_fits [OF p(2)] p(3) by simp
  have rq: "unat (mbuf_addr rq (udp_pos p + 8) - mbuf_addr rq 0) = udp_pos p + 8" using udp_pos_bounds(2) [of p] by (intro mbuf_addr_diff) simp
  have pos: "12 \<le> udp_pos p + 8" "12 \<le> udp_pos p + 16" using udp_pos_bounds(1) [OF p(1)] by simp_all
  obtain k where k: "work_loop 0 (ld64 (mb_data p) (udp_pos p + 8)) = Some k" using work_loop_returns [OF run] by blast
  have e: "udp_pos p + 8 + 8 = udp_pos p + 16" by simp
  show ?thesis
    using r k
    unfolding generic_work_def Let_def join_split args prod.case rq e t(1) ld64_store_tuple [OF pos(1)] ld64_store_tuple [OF pos(2)]
    by (simp add: h_def response_written_def reply_tuple_def load_store_ip_tuple t(2) Let_def)
qed

text \<open>
  C6: A request that was accepted is answered.  When a response, a buffer and room in the transmit queue are free and the address of
  the sender is known, \<open>generic_work\<close> returns, marks the request finished, and leaves exactly one more datagram in the transmit queue: to
  the address and port the request came from, with a response that carries the run time, the generation time and the arrival time
  of the request and the time of sending.
\<close>

theorem request_answered:
  assumes p: "ip_checks p" "udp_fits p" "ns_store s rq = snd (parse_packet p)" "unat (ld64 (mb_data p) (udp_pos p + 8)) \<le> 2 ^ 50"
    and arp: "arp_outside env s m f Fr" "m (dst_ip (reply_tuple p)) = Some mac"
    and pool: "mempool_ok (ns_heap s) (ns_mbufs s) F L" "F \<noteq> {}"
    and resp: "mempool_ok (ns_heap s) (ns_responses s) Fr Lr" "Fr \<noteq> {}" "F \<inter> Fr = {}" "\<And>r. r \<in> Fr \<Longrightarrow> payload_pinnable (ns_mm s) r 48"
    and tx: "tx_room s" "ne_eth_dev_count env \<le> 1"
    and args: "data = mbuf_addr rq (udp_pos p + 8)" "ident = mbuf_addr rq 0" "ts = mb_timestamp p"
  shows "\<exists>resp\<in>Fr. \<exists>pkt\<in>F. \<exists>s'.
    generic_work env tsc cyc send_tsc rq (msw data) (lsw data) (msw ident) (lsw ident) (msw ts) (lsw ts) (tls, s, sent) =
      Some (Inr (tls\<lparr>finished := True\<rparr>, s', sent + 1)) \<and>
    ns_txqs s' = (ns_txqs s)[0 := queued pkt (Suc (length (payload resp 48))) (ns_txqs s ! 0)] \<and>
    datagram env (reply_tuple p) mac resp 48 (ns_mm s) pkt (ns_store s pkt) (ns_store s' pkt) \<and>
    ns_heap s' resp RESP_RUN_NS = ld64 (mb_data p) (udp_pos p + 8) \<and> ns_heap s' resp RESP_GEN_NS = ld64 (mb_data p) (udp_pos p + 16) \<and>
    ns_heap s' resp RESP_RECV_NS = ts \<and> ns_heap s' resp RESP_SEND_NS = send_tsc"
proof -
  obtain r q where r: "pool_alloc (ns_heap s) (ns_responses s) = Inr (r, q)" "r \<in> Fr" using mp.alloc_some [OF resp(1,2)] by blast
  have nz: "r \<noteq> NULL" using mp.ok_sets [OF resp(1)] r(2) by auto
  define h where "h = response_written (ld64 (mb_data p) (udp_pos p + 16)) (ld64 (mb_data p) (udp_pos p + 8)) (mb_timestamp p) tls send_tsc r (ns_heap s)"
  let ?s = "set_heap h (s\<lparr>ns_responses := q\<rparr>)"
  have same: "h x = ns_heap s x" if "x \<noteq> r" for x using that by (simp add: h_def response_written_other)
  have "arp_static env (set_heap h s) m f" by (rule arp_outside_static [OF arp(1)], rule same) (use r(2) in blast)
  then have a: "arp_static env ?s m f" by (subst arp_static_cong [of _ "set_heap h s"]) (simp_all add: set_heap_def)
  have "r \<notin> F" using resp(3) r(2) by blast
  then have "mempool_ok h (ns_mbufs s) F L" using same by (intro mp.ok_frame [OF pool(1)]) metis
  then have b: "mempool_ok (ns_heap ?s) (ns_mbufs ?s) F L" by (simp add: set_heap_def)
  have c: "payload_pinnable (ns_mm ?s) r 48" "tx_room ?s" using resp(4) [OF r(2)] tx(1) by (simp_all add: set_heap_def tx_room_def)
  have n: "48 \<le> UDP_MAX_LEN" by (simp add: UDP_MAX_LEN_def ETH_MTU_def)
  obtain pkt s' where u: "udp_send env tsc cyc r 48 (reply_tuple p) r ?s = Some (Inr (0, s'))" "pkt \<in> F" "ns_tw s' = ns_tw ?s"
    "ns_txqs s' = (ns_txqs ?s)[0 := queued pkt (Suc (length (payload r 48))) (ns_txqs ?s ! 0)]"
    "datagram env (reply_tuple p) mac r 48 (ns_mm ?s) pkt (ns_store ?s pkt) (ns_store s' pkt)"
    using udp_send_ok [OF a arp(2) n b pool(2) c tx(2)] by metis
  have g: "generic_work env tsc cyc send_tsc rq (msw data) (lsw data) (msw ident) (lsw ident) (msw ts) (lsw ts) (tls, s, sent) =
      Some (Inr (tls\<lparr>finished := True\<rparr>, s', sent + 1))"
    using generic_work_sends [OF p r(1) nz args h_def, of env tsc cyc sent] u(1) by simp
  show ?thesis
    using g u(3-5) by (intro bexI [OF _ r(2)] bexI [OF _ u(2)] exI [of _ s']) (simp add: set_heap_def h_def response_written_fields args(3))
qed

section \<open>A request that is answered\<close>

definition asking_host :: cfg_parameters where
  "asking_host = sample_cfg\<lparr>host_addr := 0x0A000002, cfg_mac := peer_mac\<rparr>"

definition sample_request :: mbuf where
  "sample_request = empty_mbuf\<lparr>mb_len := 34 + 56, mb_timestamp := 77, mb_data := udp_fill asking_host sample_ident 56 (\<lambda>_. 0)\<rparr>"

definition asked_net :: net_state where
  "asked_net = peer_net\<lparr>ns_store := (ns_store peer_net)(0x600000 := snd (parse_packet sample_request))\<rparr>"

lemma sample_request_ok:
  "ip_checks sample_request" "udp_pos sample_request = 34" "udp_fits sample_request" "dst_ip (reply_tuple sample_request) = 0x0A000002"
  "ld64 (mb_data sample_request) 42 = 0"
proof -
  have a: "arrives (udp_fill asking_host sample_ident 56 (\<lambda>_. 0)) 56 sample_request" by (simp add: arrives_def sample_request_def)
  have m: "length (cfg_mac asking_host) = 6" by (simp add: asking_host_def peer_mac_def)
  note c = arrives_checks [OF m a]
  show "ip_checks sample_request" using c(1) by (simp add: ld16_def bswap16_def)
  show "udp_pos sample_request = 34" "udp_fits sample_request" using c(2,3) by simp_all
  show "dst_ip (reply_tuple sample_request) = 0x0A000002"
    using arrives_fields(6) [OF m a] by (simp add: reply_tuple_def Let_def ip_src_def bswap32_swap asking_host_def)
  have "ld64 (mb_data sample_request) 42 = ld64 (\<lambda>_. 0) 42" by (rule ld64_cong) (simp add: sample_request_def udp_fill_other)
  then show "ld64 (mb_data sample_request) 42 = 0" by (simp add: ld64_def ld32_def)
qed

lemma asked_outside: "arp_outside sample_env asked_net [0x0A000002 \<mapsto> peer_mac] 1 {0x4000000030}"
proof -
  let ?B = "with_entry (\<lambda>_. []) 0x0A000002 0x10000"
  have e: "entries ?B = {0x10000}" by (simp add: entries_with)
  have "bucket_at sample_env i \<noteq> 0x4000000030" if "i < ARP_MAX_ENTRIES" for i
    using sample_bucket_unat [OF that] that by (auto simp: ARP_MAX_ENTRIES_def)
  then have "{0x4000000030} \<inter> arp_memory sample_env ?B {0x10100} = {}" unfolding arp_memory_def e by (auto simp: ARP_LINK_def)
  then show ?thesis
    unfolding arp_outside_def using peer_arp_ok
    by (intro exI [of _ ?B] exI [of _ "{0x10100}"]) (simp add: asked_net_def arp_ok_def)
qed

lemma asked_pinnable: "payload_pinnable (ns_mm asked_net) 0x4000000030 48"
proof -
  have n: "PAGE_NUM 0x4000000030 = 0" by (simp add: PAGE_NUM_def PGN_2MB_def mem_map drop_bit_eq_div)
  have "first_len 0x4000000030 48 = 48" by (simp add: first_len_def PGOFF_2MB_def PGSIZE_2MB_def)
  then show ?thesis by (simp add: payload_def pinnable_def asked_net_def peer_fields sample_net_def n)
qed

definition sample_tls :: worker_tls where
  "sample_tls = \<lparr>cont = 0x1000, my_cpu_nr = 0, finished = False, tls_networker_cy = 5, tls_dispatcher_cy = 6\<rparr>"

theorem request_answered_witness:
  "\<exists>pkt\<in>{0x300000, 0x301000}. \<exists>s'.
     generic_work sample_env 0 0 99 0x600000 (msw (mbuf_addr 0x600000 42)) (lsw (mbuf_addr 0x600000 42)) (msw (mbuf_addr 0x600000 0)) (lsw (mbuf_addr 0x600000 0))
       (msw 77) (lsw 77) (sample_tls, asked_net, 3) = Some (Inr (sample_tls\<lparr>finished := True\<rparr>, s', 4)) \<and>
     ns_heap s' 0x4000000030 RESP_RECV_NS = 77 \<and> ns_heap s' 0x4000000030 RESP_SEND_NS = 99"
proof -
  note q = sample_request_ok
  have f: "ns_heap asked_net = ns_heap peer_net" "ns_mbufs asked_net = ns_mbufs peer_net" "ns_responses asked_net = ns_responses peer_net"
    by (simp_all add: asked_net_def)
  have st: "ns_store asked_net 0x600000 = snd (parse_packet sample_request)" by (simp add: asked_net_def)
  have run: "unat (ld64 (mb_data sample_request) (udp_pos sample_request + 8)) \<le> 2 ^ 50" using q(2,5) by simp
  have m: "[0x0A000002 \<mapsto> peer_mac] (dst_ip (reply_tuple sample_request)) = Some peer_mac" using q(4) by simp
  have tx: "tx_room asked_net" using peer_room by (simp add: tx_room_def asked_net_def)
  have dev: "ne_eth_dev_count sample_env \<le> 1" by (simp add: sample_env_def)
  have pin: "\<And>r. r \<in> {0x4000000030} \<Longrightarrow> payload_pinnable (ns_mm asked_net) r 48" using asked_pinnable by simp
  show ?thesis
    using request_answered [OF q(1,3) st run asked_outside m peer_mbufs [folded f] _ peer_responses [folded f] _ _ pin tx dev refl refl refl,
        of 0 0 99 sample_tls 3] q(2)
    by (simp add: sample_request_def) blast
qed

end
