(* ===== verification/Icmp.thy ===== *)
theory Icmp
  imports Transmit
begin

text \<open>
  The echo protocol of \<open>dp/net/icmp.c\<close>.  The header of a message is at position \<open>hdr\<close> of the buffer's data and the message has
  \<open>n\<close> bytes.
\<close>

definition ICMP_MINLEN :: int where "ICMP_MINLEN = 8"
definition ICMP_ECHOREPLY :: u8 where "ICMP_ECHOREPLY = 0"
definition ICMP_ECHO :: u8 where "ICMP_ECHO = 8"

abbreviation ICMP_HDR_LEN :: nat where "ICMP_HDR_LEN \<equiv> 4"

text \<open>The stores of \<open>icmp_reflect\<close>: the addresses are turned round and the checksum is computed anew.\<close>

definition icmp_turn :: "cfg_parameters \<Rightarrow> nat \<Rightarrow> int \<Rightarrow> bytes \<Rightarrow> bytes" where
  "icmp_turn cfg hdr n d =
     (let d1 = st_mac d 0 (ld_mac d 6);
          d2 = st_mac d1 6 (cfg_mac cfg);
          d3 = st32 d2 30 (ld32 d2 26);
          d4 = st32 d3 26 (hton32 (host_addr cfg));
          d5 = st16 d4 (hdr + 2) 0
      in st16 d5 (hdr + 2) (chksum_internet (map d5 [hdr..<hdr + nat n])))"

definition icmp_reflect :: "net_env \<Rightarrow> addr \<Rightarrow> addr \<Rightarrow> nat \<Rightarrow> int \<Rightarrow> net_state \<Rightarrow> (int \<times> net_state) res" where
  "icmp_reflect env cur_fg pkt hdr n s =
     (let s1 = upd_mbuf pkt (\<lambda>b. b\<lparr>mb_ol_flags := 0\<rparr>) (upd_data pkt (icmp_turn (ne_cfg env) hdr n) s);
          dev = unat (ucast (ns_heap s1 cur_fg FG_DEV_IDX) :: u32)
      in bindE (derefE cur_fg) (\<lambda>_.
         bindE (send_one_on dev pkt (mb_len (ns_store s1 pkt)) s1) (\<lambda>(ret, s2).
         if ret \<noteq> 0 then bindE (mbuf_free pkt s2) (\<lambda>s3. Inr (- EIO, s3)) else Inr (0, s2))))"

text \<open>An echo reply is only reported, with the time since the time stamp in it.\<close>

definition icmp_input :: "net_env \<Rightarrow> u32 \<Rightarrow> addr \<Rightarrow> addr \<Rightarrow> nat \<Rightarrow> int \<Rightarrow> net_state \<Rightarrow> net_state res" where
  "icmp_input env cycles_per_us cur_fg pkt hdr n s =
     (let d = mb_data (ns_store s pkt)
      in if n < ICMP_MINLEN then mbuf_free pkt s
         else if chksum_internet (map d [hdr..<hdr + nat n]) \<noteq> 0 then mbuf_free pkt s
         else if d hdr = ICMP_ECHO
         then bindE (icmp_reflect env cur_fg pkt hdr n (upd_data pkt (\<lambda>d. d(hdr := ICMP_ECHOREPLY)) s)) (\<lambda>(ret, s1). Inr s1)
         else if d hdr = ICMP_ECHOREPLY \<and> cycles_per_us = 0 then Inl Div_by_zero
         else mbuf_free pkt s)"

text \<open>The message \<open>icmp_echo\<close> builds: the IP header at 14, the ICMP header at 34, identification, sequence number and time stamp.\<close>

definition icmp_fill :: "cfg_parameters \<Rightarrow> u32 \<Rightarrow> u16 \<Rightarrow> u16 \<Rightarrow> u64 \<Rightarrow> bytes \<Rightarrow> bytes" where
  "icmp_fill cfg dest ident sq timestamp d =
     (let n = ICMP_HDR_LEN + 4 + 8;
          d1 = d(14 := d 14 AND 0xF0 OR of_nat (IP_HDR_LEN div 4));
          d2 = d1(14 := d1 14 AND 0x0F OR 0x40);
          d3 = d2(15 := 0);
          d4 = st16 d3 16 (hton16 (of_nat (IP_HDR_LEN + n)));
          d5 = st16 d4 18 0;
          d6 = st16 d5 20 0;
          d7 = d6(22 := 64);
          d8 = st16 d7 24 0;
          d9 = d8(23 := IPPROTO_ICMP);
          d10 = st32 d9 26 (hton32 (host_addr cfg));
          d11 = st32 d10 30 (hton32 dest);
          d12 = st16 d11 24 (chksum_internet (map d11 [14..<14 + IP_HDR_LEN]));
          d13 = d12(34 := ICMP_ECHO, 35 := ICMP_ECHOREPLY);
          d14 = st16 d13 36 0;
          d15 = st16 d14 38 (hton16 ident);
          d16 = st16 d15 40 (hton16 sq);
          d17 = st64 d16 42 timestamp
      in st16 d17 36 (chksum_internet (map d17 [34..<34 + n])))"

definition icmp_echo :: "net_env \<Rightarrow> u64 \<Rightarrow> u32 \<Rightarrow> addr \<Rightarrow> u32 \<Rightarrow> u16 \<Rightarrow> u16 \<Rightarrow> u64 \<Rightarrow> net_state \<Rightarrow> (int \<times> net_state) res option" where
  "icmp_echo env tsc cyc cur_fg dest ident sq timestamp s =
     bindR (Some (mbuf_alloc_local env s)) (\<lambda>(pkt, s1).
     if pkt = NULL then Some (Inr (- ENOMEM, s1))
     else let s2 = upd_mbuf pkt (\<lambda>b. b\<lparr>mb_ol_flags := 0\<rparr>) (upd_data pkt (icmp_fill (ne_cfg env) dest ident sq timestamp) s1)
          in bindR (ip_send_one env tsc cyc cur_fg dest pkt (of_nat (ETH_HDR_LEN + IP_HDR_LEN + (ICMP_HDR_LEN + 4 + 8))) s2) (\<lambda>(ret, s3).
             if ret \<noteq> 0 then bindR (Some (mbuf_free pkt s3)) (\<lambda>s4. Some (Inr (- EIO, s4))) else Some (Inr (0, s3))))"

section \<open>What an exchange carries\<close>

text \<open>A checksum field inside a message, two bytes after its start.\<close>

lemma message_sum:
  assumes "d (p + 2) = 0" "d (p + 3) = 0" "4 \<le> n"
  shows "chksum_internet (map (st16 d (p + 2) (chksum_internet (map d [p..<p + n]))) [p..<p + n]) = 0"
proof -
  define c where "c = chksum_internet (map d [p..<p + n])"
  have split: "[p..<p + n] = [p, p + 1] @ [p + 2, p + 3] @ [p + 4..<p + n]"
    using assms(3) by (simp add: upt_conv_Cons eval_nat_numeral)
  let ?ys = "map d [p + 4..<p + n]"
  have c: "c = chksum_internet ([d p, d (p + 1)] @ [0, 0] @ ?ys)" unfolding c_def split using assms(1,2) by simp
  have b: "st16 d (p + 2) c (p + 2) = ucast c" "st16 d (p + 2) c (p + 3) = ucast (drop_bit 8 c)" by (simp_all add: st16_def byte_at_def)
  have o: "st16 d (p + 2) c x = d x" if "x < p + 2 \<or> p + 4 \<le> x" for x using that by (intro st16_other) auto
  have "map (st16 d (p + 2) c) [p..<p + n] = [d p, d (p + 1)] @ [ucast c, ucast (drop_bit 8 c)] @ ?ys" unfolding split using b o by simp
  then show ?thesis unfolding c_def [symmetric] using chksum_inserted [of "[d p, d (p + 1)]" ?ys] unfolding c [symmetric] Let_def by simp
qed

text \<open>A reply has a valid checksum and the payload of the request.\<close>

lemma icmp_turn_sum:
  assumes "8 \<le> n"
  shows "chksum_internet (map (icmp_turn cfg hdr n d) [hdr..<hdr + nat n]) = 0"
proof -
  define e where "e = st16 (st32 (st32 (st_mac (st_mac d 0 (ld_mac d 6)) 6 (cfg_mac cfg)) 30 (ld32 (st_mac (st_mac d 0 (ld_mac d 6)) 6 (cfg_mac cfg)) 26)) 26
    (hton32 (host_addr cfg))) (hdr + 2) 0"
  have "e (hdr + 2) = 0" "e (hdr + 3) = 0" by (simp_all add: e_def st16_def byte_at_def)
  moreover have "icmp_turn cfg hdr n d = st16 e (hdr + 2) (chksum_internet (map e [hdr..<hdr + nat n]))" by (simp add: icmp_turn_def e_def Let_def)
  ultimately show ?thesis using message_sum [of e hdr "nat n"] assms by simp
qed

lemma icmp_turn_payload: "34 \<le> hdr \<Longrightarrow> hdr + 4 \<le> x \<Longrightarrow> icmp_turn cfg hdr n d x = d x"
  by (simp add: icmp_turn_def Let_def st16_other st32_other st_mac_def)

lemma icmp_fill_sum: "chksum_internet (map (icmp_fill cfg dest ident sq ts d) [34..<50]) = 0"
proof -
  obtain e where e: "icmp_fill cfg dest ident sq ts d = st16 (st64 (st16 (st16 (st16 e 36 0) 38 (hton16 ident)) 40 (hton16 sq)) 42 ts) 36
      (chksum_internet (map (st64 (st16 (st16 (st16 e 36 0) 38 (hton16 ident)) 40 (hton16 sq)) 42 ts) [34..<34 + 16]))"
    unfolding icmp_fill_def Let_def by (simp del: upt_rec_numeral)
  let ?f = "st64 (st16 (st16 (st16 e 36 0) 38 (hton16 ident)) 40 (hton16 sq)) 42 ts"
  have "?f (34 + 2) = 0" "?f (34 + 3) = 0" by (simp_all add: st64_def st32_other st16_def byte_at_def)
  then show ?thesis using message_sum [of ?f 34 16] unfolding e by (simp del: upt_rec_numeral)
qed

end
