(* ===== verification/Atomic.thy ===== *)
theory Atomic
  imports Prelude
begin

unbundle bit_operations_syntax

text \<open>
  The atomic counters of \<open>inc/ix/atomic.h\<close> and the bitmaps of \<open>inc/ix/bitmap.h\<close>.  An operation on a counter takes its value and
  returns the result with the new value; both are two's complement words.  The functions for 32 and 64 bits have the same bodies.
\<close>

section \<open>Counters\<close>

definition atomic_read :: "'a::len word \<Rightarrow> 'a word" where
  "atomic_read cnt = cnt"

definition atomic_write :: "'a::len word \<Rightarrow> 'a word \<Rightarrow> 'a word" where
  "atomic_write cnt val = val"

definition atomic_fetch_and_add :: "'a::len word \<Rightarrow> 'a word \<Rightarrow> 'a word \<times> 'a word" where
  "atomic_fetch_and_add cnt val = (cnt, cnt + val)"

text \<open>The body is that of \<open>atomic_fetch_and_add\<close>.\<close>

definition atomic_fetch_and_sub :: "'a::len word \<Rightarrow> 'a word \<Rightarrow> 'a word \<times> 'a word" where
  "atomic_fetch_and_sub cnt val = (cnt, cnt + val)"

definition atomic_add_and_fetch :: "'a::len word \<Rightarrow> 'a word \<Rightarrow> 'a word \<times> 'a word" where
  "atomic_add_and_fetch cnt val = (cnt + val, cnt + val)"

definition atomic_sub_and_fetch :: "'a::len word \<Rightarrow> 'a word \<Rightarrow> 'a word \<times> 'a word" where
  "atomic_sub_and_fetch cnt val = (cnt - val, cnt - val)"

definition atomic_inc :: "'a::len word \<Rightarrow> 'a word" where
  "atomic_inc cnt = snd (atomic_fetch_and_add cnt 1)"

definition atomic_dec_and_test :: "'a::len word \<Rightarrow> bool \<times> 'a word" where
  "atomic_dec_and_test cnt = (case atomic_sub_and_fetch cnt 1 of (v, cnt1) \<Rightarrow> (v = 0, cnt1))"

definition atomic_cmpxchg :: "'a::len word \<Rightarrow> 'a word \<Rightarrow> 'a word \<Rightarrow> bool \<times> 'a word" where
  "atomic_cmpxchg cnt old new = (if cnt = old then (True, new) else (False, cnt))"

abbreviation atomic64_read :: "u64 \<Rightarrow> u64" where "atomic64_read \<equiv> atomic_read"
abbreviation atomic64_write :: "u64 \<Rightarrow> u64 \<Rightarrow> u64" where "atomic64_write \<equiv> atomic_write"
abbreviation atomic64_fetch_and_add :: "u64 \<Rightarrow> u64 \<Rightarrow> u64 \<times> u64" where "atomic64_fetch_and_add \<equiv> atomic_fetch_and_add"
abbreviation atomic64_fetch_and_sub :: "u64 \<Rightarrow> u64 \<Rightarrow> u64 \<times> u64" where "atomic64_fetch_and_sub \<equiv> atomic_fetch_and_sub"
abbreviation atomic64_add_and_fetch :: "u64 \<Rightarrow> u64 \<Rightarrow> u64 \<times> u64" where "atomic64_add_and_fetch \<equiv> atomic_add_and_fetch"
abbreviation atomic64_sub_and_fetch :: "u64 \<Rightarrow> u64 \<Rightarrow> u64 \<times> u64" where "atomic64_sub_and_fetch \<equiv> atomic_sub_and_fetch"
abbreviation atomic64_inc :: "u64 \<Rightarrow> u64" where "atomic64_inc \<equiv> atomic_inc"
abbreviation atomic64_dec_and_test :: "u64 \<Rightarrow> bool \<times> u64" where "atomic64_dec_and_test \<equiv> atomic_dec_and_test"
abbreviation atomic64_cmpxchg :: "u64 \<Rightarrow> u64 \<Rightarrow> u64 \<Rightarrow> bool \<times> u64" where "atomic64_cmpxchg \<equiv> atomic_cmpxchg"

lemma atomic_inc_dec: "atomic_dec_and_test (atomic_inc cnt) = (cnt = 0, cnt)"
  by (simp add: atomic_inc_def atomic_dec_and_test_def atomic_fetch_and_add_def atomic_sub_and_fetch_def)

text \<open>A reference count of \<open>n\<close> is seen to reach zero exactly by the last of \<open>n\<close> decrements.\<close>

primrec dec_all :: "nat \<Rightarrow> 'a::len word \<Rightarrow> bool list \<times> 'a word" where
  "dec_all 0 cnt = ([], cnt)"
| "dec_all (Suc k) cnt = (case atomic_dec_and_test cnt of (z, cnt1) \<Rightarrow> case dec_all k cnt1 of (zs, cnt2) \<Rightarrow> (z # zs, cnt2))"

lemma dec_all_last:
  assumes "0 < n" "n < 2 ^ LENGTH('a)"
  shows "dec_all n (of_nat n :: 'a::len word) = (replicate (n - 1) False @ [True], 0)"
  using assms
proof (induction n)
  case (Suc n)
  show ?case
  proof (cases "n = 0")
    case True
    then show ?thesis by (simp add: atomic_dec_and_test_def atomic_sub_and_fetch_def)
  next
    case False
    have "unat (of_nat n :: 'a word) = n" using Suc.prems(2) by (simp add: unat_of_nat take_bit_nat_eq_self)
    then have "(of_nat n :: 'a word) \<noteq> 0" using False by (metis unat_0)
    moreover have "replicate n False @ [True] = False # replicate (n - 1) False @ [True]" using False by (cases n) simp_all
    ultimately show ?thesis using Suc False by (simp add: atomic_dec_and_test_def atomic_sub_and_fetch_def)
  qed
qed simp

text \<open>Taking away what was added with \<open>atomic_fetch_and_sub\<close> leaves twice the amount instead of nothing.\<close>

lemma fetch_and_sub_adds: "snd (atomic_fetch_and_sub (snd (atomic_fetch_and_add cnt val)) val) = cnt + 2 * val"
  unfolding atomic_fetch_and_add_def atomic_fetch_and_sub_def by (simp only: snd_conv mult_2 add.assoc)

section \<open>Bitmaps\<close>

definition BITS_PER_LONG :: u64 where "BITS_PER_LONG = 64"

definition BITMAP_LONG_SIZE :: "u64 \<Rightarrow> u64" where
  "BITMAP_LONG_SIZE nbits = (nbits + BITS_PER_LONG - 1) div BITS_PER_LONG"

text \<open>The position is converted to an unsigned word; a negative one is out of range.\<close>

definition BITMAP_POS_IDX :: "int \<Rightarrow> nat" where
  "BITMAP_POS_IDX pos = unat ((of_int pos :: u64) div BITS_PER_LONG)"

definition BITMAP_POS_SHIFT :: "int \<Rightarrow> nat" where
  "BITMAP_POS_SHIFT pos = unat ((of_int pos :: u64) AND (BITS_PER_LONG - 1))"

definition bitmap_set :: "u64 list \<Rightarrow> int \<Rightarrow> u64 list res" where
  "bitmap_set bits pos =
     (let i = BITMAP_POS_IDX pos
      in if i < length bits then Inr (bits[i := bits ! i OR push_bit (BITMAP_POS_SHIFT pos) 1]) else Inl Out_of_bounds)"

definition bitmap_clear :: "u64 list \<Rightarrow> int \<Rightarrow> u64 list res" where
  "bitmap_clear bits pos =
     (let i = BITMAP_POS_IDX pos
      in if i < length bits then Inr (bits[i := bits ! i AND NOT (push_bit (BITMAP_POS_SHIFT pos) 1)]) else Inl Out_of_bounds)"

definition bitmap_test :: "u64 list \<Rightarrow> int \<Rightarrow> bool res" where
  "bitmap_test bits pos =
     (let i = BITMAP_POS_IDX pos
      in if i < length bits then Inr (bits ! i AND push_bit (BITMAP_POS_SHIFT pos) 1 \<noteq> 0) else Inl Out_of_bounds)"

definition bitmap_init :: "u64 list \<Rightarrow> int \<Rightarrow> bool \<Rightarrow> u64 list res" where
  "bitmap_init bits nbits state =
     (let k = unat (BITMAP_LONG_SIZE (of_int nbits))
      in if k \<le> length bits then Inr (replicate k (if state then - 1 else 0) @ drop k bits) else Inl Out_of_bounds)"

lemma bitmap_pos:
  assumes "0 \<le> pos" "pos < 2 ^ 31"
  shows "BITMAP_POS_IDX pos = nat pos div 64" "BITMAP_POS_SHIFT pos = nat pos mod 64"
proof -
  have p: "(of_int pos :: u64) = of_nat (nat pos)" using assms(1) by simp
  have u: "unat (of_nat (nat pos) :: u64) = nat pos" using assms by (intro unat_of_nat64) simp
  show "BITMAP_POS_IDX pos = nat pos div 64" unfolding BITMAP_POS_IDX_def p BITS_PER_LONG_def by (simp add: unat_div u)
  have "(BITS_PER_LONG - 1 :: u64) = mask 6" by (simp add: BITS_PER_LONG_def mask_eq_exp_minus_1)
  then show "BITMAP_POS_SHIFT pos = nat pos mod 64"
    unfolding BITMAP_POS_SHIFT_def p by (simp add: take_bit_eq_mask [symmetric] take_bit_eq_mod unat_mod u)
qed

text \<open>A bit that was set is set, a bit that was cleared is not, and other bits keep their values.\<close>

lemma bitmap_test_bit:
  assumes "0 \<le> pos" "pos < 2 ^ 31" "nat pos div 64 < length bits"
  shows "bitmap_test bits pos = Inr (bit (bits ! (nat pos div 64)) (nat pos mod 64))"
  using assms by (simp add: bitmap_test_def bitmap_pos and_exp_eq_0_iff_not_bit)

lemma same_pos:
  assumes "nat p div 64 = nat q div 64" "nat p mod 64 = nat q mod 64" "0 \<le> p" "0 \<le> q"
  shows "p = q"
proof -
  have "nat p = nat q" using div_mult_mod_eq [of "nat p" 64] div_mult_mod_eq [of "nat q" 64] unfolding assms(1,2) by simp
  then show ?thesis using assms(3,4) by simp
qed

lemma update_bit:
  assumes "i < length xs" "n < 64"
  shows "bit ((xs[i := xs ! i OR 2 ^ m]) ! j :: u64) n \<longleftrightarrow> bit (xs ! j) n \<or> j = i \<and> n = m"
    and "bit ((xs[i := xs ! i AND NOT (2 ^ m)]) ! j :: u64) n \<longleftrightarrow> bit (xs ! j) n \<and> \<not> (j = i \<and> n = m)"
  using assms by (cases "j = i"; auto simp: bit_simps)+

lemma bitmap_set_test:
  assumes "0 \<le> p" "p < 2 ^ 31" "nat p div 64 < length bits" "0 \<le> q" "q < 2 ^ 31" "nat q div 64 < length bits"
  shows "\<exists>bits'. bitmap_set bits p = Inr bits' \<and> length bits' = length bits \<and> bitmap_test bits' q = (if q = p then Inr True else bitmap_test bits q)"
proof -
  let ?i = "nat p div 64" and ?m = "nat p mod 64"
  let ?b = "bits[?i := bits ! ?i OR 2 ^ ?m]"
  have s: "bitmap_set bits p = Inr ?b" using assms(1-3) by (simp add: bitmap_set_def bitmap_pos Let_def)
  have "nat q mod 64 < 64" by simp
  note u = update_bit(1) [OF assms(3) this, of ?m "nat q div 64"]
  have "bitmap_test ?b q = Inr (bit (bits ! (nat q div 64)) (nat q mod 64) \<or> nat q div 64 = ?i \<and> nat q mod 64 = ?m)"
    using bitmap_test_bit [of q ?b] assms(4-6) u by simp
  moreover have "nat q div 64 = ?i \<and> nat q mod 64 = ?m \<longleftrightarrow> q = p" using same_pos [of q p] assms(1,4) by blast
  ultimately have "bitmap_test ?b q = (if q = p then Inr True else bitmap_test bits q)"
    using bitmap_test_bit [OF assms(4-6)] by (simp only:) simp
  then show ?thesis using s by simp
qed

lemma bitmap_clear_test:
  assumes "0 \<le> p" "p < 2 ^ 31" "nat p div 64 < length bits" "0 \<le> q" "q < 2 ^ 31" "nat q div 64 < length bits"
  shows "\<exists>bits'. bitmap_clear bits p = Inr bits' \<and> length bits' = length bits \<and> bitmap_test bits' q = (if q = p then Inr False else bitmap_test bits q)"
proof -
  let ?i = "nat p div 64" and ?m = "nat p mod 64"
  let ?b = "bits[?i := bits ! ?i AND NOT (2 ^ ?m)]"
  have s: "bitmap_clear bits p = Inr ?b" using assms(1-3) by (simp add: bitmap_clear_def bitmap_pos Let_def)
  have "nat q mod 64 < 64" by simp
  note u = update_bit(2) [OF assms(3) this, of ?m "nat q div 64"]
  have "bitmap_test ?b q = Inr (bit (bits ! (nat q div 64)) (nat q mod 64) \<and> \<not> (nat q div 64 = ?i \<and> nat q mod 64 = ?m))"
    using bitmap_test_bit [of q ?b] assms(4-6) u by simp
  moreover have "nat q div 64 = ?i \<and> nat q mod 64 = ?m \<longleftrightarrow> q = p" using same_pos [of q p] assms(1,4) by blast
  ultimately have "bitmap_test ?b q = (if q = p then Inr False else bitmap_test bits q)"
    using bitmap_test_bit [OF assms(4-6)] by (simp only:) simp
  then show ?thesis using s by simp
qed

end
