(* ===== verification/Tailqueue.thy ===== *)
theory Tailqueue
  imports Mem Ieee
begin

text \<open>
  The latency histogram of \<open>dp/core/tailqueue.c\<close> and \<open>inc/ix/tailqueue.h\<close>: five levels of twenty buckets, a bucket of level \<open>i\<close>
  being ten to the power \<open>i + 1\<close> microseconds wide, and the percentiles computed from it.
\<close>

section \<open>Data\<close>

definition OVERLAP_FACTOR :: nat where "OVERLAP_FACTOR = 2"
definition NUM_BUCKETS :: nat where "NUM_BUCKETS = 10 * OVERLAP_FACTOR"
definition NUM_LEVELS :: nat where "NUM_LEVELS = 5"
definition GRANULARITY_0 :: nat where "GRANULARITY_0 = 10"
definition MIN_NINES :: nat where "MIN_NINES = 1"
definition MAX_NINES :: nat where "MAX_NINES = 5"

lemmas tail_consts = OVERLAP_FACTOR_def NUM_BUCKETS_def NUM_LEVELS_def GRANULARITY_0_def MIN_NINES_def MAX_NINES_def

record tailqueue =
  tq_count :: u32
  tq_min :: u64
  tq_max :: u64
  tq_gran :: "u32 list list"
  tq_overflow :: u32

record taildistr =
  td_count :: u64
  td_min :: u64
  td_max :: u64
  td_nines :: "u64 list"

text \<open>What \<open>bzero\<close> makes of the two structures.\<close>

definition tailqueue_zero :: tailqueue where
  "tailqueue_zero = \<lparr>tq_count = 0, tq_min = 0, tq_max = 0, tq_gran = replicate NUM_LEVELS (replicate NUM_BUCKETS 0), tq_overflow = 0\<rparr>"

definition taildistr_zero :: taildistr where
  "taildistr_zero = \<lparr>td_count = 0, td_min = 0, td_max = 0, td_nines = replicate (MAX_NINES + 1) 0\<rparr>"

section \<open>Adding a sample\<close>

text \<open>\<open>pow(10, NUM_LEVELS - 1)\<close> and the product are small integers, exact in double precision.\<close>

definition gran_top :: u64 where
  "gran_top = of_nat (GRANULARITY_0 * 10 ^ (NUM_LEVELS - 1))"

definition gran_incr :: "u32 list list \<Rightarrow> nat \<Rightarrow> nat \<Rightarrow> u32 list list" where
  "gran_incr g i x = g[i := (g ! i)[x := g ! i ! x + 1]]"

text \<open>The loop over the levels; \<open>x\<close> is below \<open>NUM_BUCKETS\<close> when its body starts.\<close>

primrec add_levels :: "u64 \<Rightarrow> u64 \<Rightarrow> u64 \<Rightarrow> nat list \<Rightarrow> u32 list list \<Rightarrow> u32 list list" where
  "add_levels t_us gran x [] g = g"
| "add_levels t_us gran x (i # is) g =
     (let g1 = gran_incr g i (unat x); gran1 = gran div 10; x1 = t_us div gran1
      in if x1 \<ge> of_nat NUM_BUCKETS then g1 else add_levels t_us gran1 x1 is g1)"

definition tailqueue_addsample :: "u64 \<Rightarrow> tailqueue \<Rightarrow> tailqueue" where
  "tailqueue_addsample t_us tq =
     (let x = t_us div gran_top;
          tq1 = (if x \<ge> of_nat NUM_BUCKETS then tq\<lparr>tq_overflow := tq_overflow tq + 1\<rparr>
                 else tq\<lparr>tq_gran := add_levels t_us gran_top x (rev [0..<NUM_LEVELS]) (tq_gran tq)\<rparr>);
          tq2 = (if tq_count tq1 = 0 then tq1\<lparr>tq_min := t_us, tq_max := t_us\<rparr>
                 else tq1\<lparr>tq_min := min (tq_min tq1) t_us, tq_max := max (tq_max tq1) t_us\<rparr>)
      in tq2\<lparr>tq_count := tq_count tq2 + 1\<rparr>)"

section \<open>Percentiles\<close>

text \<open>\<open>tq->count / pow(10, nines)\<close> in double precision, cut to an integer.\<close>

definition nines_threshold :: "u32 \<Rightarrow> nat \<Rightarrow> u64" where
  "nines_threshold c nines = of_int \<lfloor>rnd 53 (of_nat (unat c) / 10 ^ nines)\<rfloor>"

text \<open>
  The \<open>while\<close> loop for one percentile: it goes down from bucket \<open>b\<close> of level \<open>l\<close> until enough samples are above.  The result is the
  value found, if any, and where the loop stands.
\<close>

function scan_down :: "u32 list list \<Rightarrow> u64 \<Rightarrow> nat \<Rightarrow> int \<Rightarrow> u64 \<Rightarrow> (u64 option \<times> nat \<times> int \<times> u64) res" where
  "scan_down g threshold l b abv =
     (if l = 0 \<or> b = 0 then Inr (None, l, b, abv)
      else let l1 = (if b < int OVERLAP_FACTOR then l - 1 else l);
               b1 = (if b < int OVERLAP_FACTOR then int NUM_BUCKETS - 1 else b)
      in if b1 \<ge> int NUM_BUCKETS then Inl Out_of_bounds
         else let abv1 = abv + ucast (g ! l1 ! nat b1)
              in if abv1 \<ge> threshold then Inr (Some (of_nat (GRANULARITY_0 * (10 ^ l1 + nat b1))), l1, b1, abv1)
                 else scan_down g threshold l1 (b1 - 1) abv1)"
  by pat_completeness auto
termination
  by (relation "measure (\<lambda>(g, threshold, l, b, abv). 20 * l + nat b)") (auto simp: tail_consts split: if_splits)

declare scan_down.simps [simp del]

text \<open>The loops over the percentiles: while the overflow counter alone suffices, then down the buckets.\<close>

primrec nines_overflow :: "tailqueue \<Rightarrow> u64 \<Rightarrow> nat list \<Rightarrow> taildistr \<Rightarrow> nat list \<times> taildistr" where
  "nines_overflow tq abv [] td = ([], td)"
| "nines_overflow tq abv (n # ns) td =
     (if abv \<ge> nines_threshold (tq_count tq) n
      then nines_overflow tq abv ns (td\<lparr>td_nines := (td_nines td)[n := tq_max tq]\<rparr>)
      else (n # ns, td))"

primrec nines_buckets :: "tailqueue \<Rightarrow> nat list \<Rightarrow> nat \<Rightarrow> int \<Rightarrow> u64 \<Rightarrow> taildistr \<Rightarrow> taildistr res" where
  "nines_buckets tq [] l b abv td = Inr td"
| "nines_buckets tq (n # ns) l b abv td =
     bindE (scan_down (tq_gran tq) (nines_threshold (tq_count tq) n) l b abv) (\<lambda>(v, l1, b1, abv1).
     nines_buckets tq ns l1 b1 abv1
       (case v of None \<Rightarrow> td | Some x \<Rightarrow> td\<lparr>td_nines := (td_nines td)[n := x]\<rparr>))"

definition tailqueue_calcnines :: "bool \<Rightarrow> tailqueue \<Rightarrow> (taildistr \<times> tailqueue) res" where
  "tailqueue_calcnines reset tq =
     (if tq_count tq = 0 then Inr (taildistr_zero, tq)
      else let td = taildistr_zero\<lparr>td_count := ucast (tq_count tq), td_min := tq_min tq, td_max := tq_max tq\<rparr>;
               all = rev [MIN_NINES..<MAX_NINES + 1]
           in bindE (if tq_overflow tq \<noteq> 0
                     then let (ns, td1) = nines_overflow tq (ucast (tq_overflow tq)) all td
                          in nines_buckets tq ns (NUM_LEVELS - 1) (int NUM_BUCKETS - 1) (ucast (tq_overflow tq)) td1
                     else nines_buckets tq all (NUM_LEVELS - 1) (s32 (int (unat (tq_max tq div gran_top)))) 0 td) (\<lambda>td2.
              Inr (td2, if reset then tailqueue_zero else tq)))"

section \<open>The histogram counts the samples\<close>

definition level_gran :: "nat \<Rightarrow> nat" where
  "level_gran i = 10 * 10 ^ i"

definition gran_shape :: "u32 list list \<Rightarrow> bool" where
  "gran_shape g \<longleftrightarrow> length g = NUM_LEVELS \<and> (\<forall>i<NUM_LEVELS. length (g ! i) = NUM_BUCKETS)"

lemma gran_incr_shape [simp]: "gran_shape g \<Longrightarrow> gran_shape (gran_incr g i x)"
  by (cases "i < length g") (auto simp: gran_shape_def gran_incr_def nth_list_update)

lemma gran_incr_nth:
  "gran_shape g \<Longrightarrow> i < NUM_LEVELS \<Longrightarrow> b < NUM_BUCKETS \<Longrightarrow>
     gran_incr g j x ! i ! b = g ! i ! b + (if j = i \<and> x = b then 1 else 0)"
  by (cases "j = i") (auto simp: gran_shape_def gran_incr_def nth_list_update)

lemma add_levels_shape [simp]: "gran_shape g \<Longrightarrow> gran_shape (add_levels t gran x is g)"
  by (induction "is" arbitrary: gran x g) (simp_all add: Let_def)

lemma word_div_small: "unat (a div b) = unat a div unat b" for a b :: u64
  by (rule unat_div)

lemma level_gran_pos [simp]: "0 < level_gran i"
  by (simp add: level_gran_def)

lemma level_gran_mono: "i \<le> j \<Longrightarrow> t div level_gran j \<le> t div level_gran i"
  by (rule div_le_mono2) (simp_all add: level_gran_def)

lemma add_levels_nth:
  assumes "gran_shape g" "k \<le> NUM_LEVELS" "i < NUM_LEVELS" "b < NUM_BUCKETS"
    and "0 < k \<Longrightarrow> unat gran = level_gran (k - 1)" and "unat x = unat t div unat gran"
  shows "add_levels t gran x (rev [0..<k]) g ! i ! b = g ! i ! b + (if i < k \<and> unat t div level_gran i = b then 1 else 0)"
  using assms
proof (induction k arbitrary: gran x g)
  case (Suc k)
  let ?g1 = "gran_incr g k (unat x)" and ?gr = "gran div 10"
  have gr: "unat gran = level_gran k" using Suc.prems(5) by simp
  have x: "unat x = unat t div level_gran k" using Suc.prems(6) gr by simp
  have gr1: "unat ?gr = 10 ^ k" using gr by (simp add: word_div_small level_gran_def)
  have gr1': "0 < k \<Longrightarrow> unat ?gr = level_gran (k - 1)" unfolding gr1 by (cases k) (simp_all add: level_gran_def)
  have lev: "rev [0..<Suc k] = k # rev [0..<k]" by simp
  have s1: "?g1 ! i ! b = g ! i ! b + (if k = i \<and> unat x = b then 1 else 0)"
    by (rule gran_incr_nth) (use Suc.prems in auto)
  show ?case
  proof (cases "of_nat NUM_BUCKETS \<le> t div ?gr")
    case True
    then have "NUM_BUCKETS \<le> unat t div unat ?gr" by (simp add: word_le_nat_alt word_div_small tail_consts)
    moreover have "unat t div unat ?gr \<le> unat t div level_gran i" if "i < k" using gr1' level_gran_mono [of i "k - 1"] that by simp
    ultimately have "i < k \<Longrightarrow> unat t div level_gran i \<noteq> b" using Suc.prems(4) by fastforce
    then have "(i < Suc k \<and> unat t div level_gran i = b) = (k = i \<and> unat x = b)" using x by (auto simp: less_Suc_eq)
    then show ?thesis using True s1 by (simp add: lev Let_def)
  next
    case False
    have "add_levels t ?gr (t div ?gr) (rev [0..<k]) ?g1 ! i ! b =
        ?g1 ! i ! b + (if i < k \<and> unat t div level_gran i = b then 1 else 0)"
      by (rule Suc.IH) (use Suc.prems gr1' word_div_small in simp_all)
    then show ?thesis using s1 False x by (auto simp: lev Let_def less_Suc_eq)
  qed
qed simp

definition samples_in :: "u64 list \<Rightarrow> nat \<Rightarrow> nat \<Rightarrow> nat" where
  "samples_in ts i b = length (filter (\<lambda>t. unat t div level_gran i = b) ts)"

text \<open>What a queue that was given the samples \<open>ts\<close> since it was cleared has to contain.\<close>

definition tq_counts :: "tailqueue \<Rightarrow> u64 list \<Rightarrow> bool" where
  "tq_counts tq ts \<longleftrightarrow> gran_shape (tq_gran tq) \<and> tq_count tq = of_nat (length ts) \<and>
     tq_overflow tq = of_nat (length (filter (\<lambda>t. NUM_BUCKETS * level_gran (NUM_LEVELS - 1) \<le> unat t) ts)) \<and>
     (\<forall>i<NUM_LEVELS. \<forall>b<NUM_BUCKETS. tq_gran tq ! i ! b = of_nat (samples_in ts i b))"

lemma gran_top_nat: "unat gran_top = level_gran (NUM_LEVELS - 1)"
  by (simp add: gran_top_def level_gran_def tail_consts)

lemma overflow_iff: "of_nat NUM_BUCKETS \<le> t div gran_top \<longleftrightarrow> NUM_BUCKETS * level_gran (NUM_LEVELS - 1) \<le> unat t"
  by (simp add: word_le_nat_alt word_div_small gran_top_nat less_eq_div_iff_mult_less_eq tail_consts level_gran_def)

lemma addsample_counts:
  assumes "tq_counts tq ts"
  shows "tq_counts (tailqueue_addsample t tq) (ts @ [t])"
proof (cases "of_nat NUM_BUCKETS \<le> t div gran_top")
  case True
  then have big: "NUM_BUCKETS * level_gran (NUM_LEVELS - 1) \<le> unat t" by (simp only: overflow_iff)
  have "unat t div level_gran i \<noteq> b" if "i < NUM_LEVELS" "b < NUM_BUCKETS" for i b
  proof -
    have "NUM_BUCKETS \<le> unat t div level_gran (NUM_LEVELS - 1)" using big by (simp add: less_eq_div_iff_mult_less_eq)
    also have "\<dots> \<le> unat t div level_gran i" by (rule level_gran_mono) (use that in simp)
    finally show ?thesis using that by simp
  qed
  then show ?thesis using assms True big by (auto simp: tailqueue_addsample_def tq_counts_def samples_in_def Let_def)
next
  case False
  have "add_levels t gran_top (t div gran_top) (rev [0..<NUM_LEVELS]) (tq_gran tq) ! i ! b =
      tq_gran tq ! i ! b + (if i < NUM_LEVELS \<and> unat t div level_gran i = b then 1 else 0)"
    if "i < NUM_LEVELS" "b < NUM_BUCKETS" for i b
    by (rule add_levels_nth) (use assms that gran_top_nat word_div_small in \<open>simp_all add: tq_counts_def\<close>)
  then show ?thesis
    using assms False by (auto simp: tailqueue_addsample_def tq_counts_def samples_in_def Let_def overflow_iff)
qed

lemma zero_counts: "tq_counts tailqueue_zero []"
  by (auto simp: tq_counts_def tailqueue_zero_def gran_shape_def samples_in_def)

text \<open>The extremes, while the counter of samples has not wrapped around.\<close>

lemma addsample_extremes:
  assumes "tq_count tq = of_nat (length ts)" "length ts < 2 ^ 32"
    and "ts \<noteq> [] \<Longrightarrow> tq_min tq = Min (set ts) \<and> tq_max tq = Max (set ts)"
  shows "tq_min (tailqueue_addsample t tq) = Min (set (ts @ [t])) \<and> tq_max (tailqueue_addsample t tq) = Max (set (ts @ [t]))"
proof (cases "ts = []")
  case False
  have "unat (of_nat (length ts) :: u32) = length ts" using assms(2) by (simp add: unsigned_of_nat take_bit_nat_eq_self)
  then have "tq_count tq \<noteq> 0" using False assms(1) by auto
  then show ?thesis using False assms(3) by (auto simp: tailqueue_addsample_def Let_def min.commute max.commute)
qed (use assms in \<open>simp add: tailqueue_addsample_def Let_def\<close>)

lemma fold_addsample_counts:
  "tq_counts (fold tailqueue_addsample ts tailqueue_zero) ts \<and> (ts \<noteq> [] \<longrightarrow> length ts \<le> 2 ^ 32 \<longrightarrow>
     tq_min (fold tailqueue_addsample ts tailqueue_zero) = Min (set ts) \<and> tq_max (fold tailqueue_addsample ts tailqueue_zero) = Max (set ts))"
proof (induction ts rule: rev_induct)
  case (snoc t ts)
  let ?tq = "fold tailqueue_addsample ts tailqueue_zero"
  have c: "tq_counts ?tq ts" using snoc by simp
  then have "tq_count ?tq = of_nat (length ts)" by (simp add: tq_counts_def)
  then have "tq_min (tailqueue_addsample t ?tq) = Min (set (ts @ [t])) \<and> tq_max (tailqueue_addsample t ?tq) = Max (set (ts @ [t]))"
    if "length (ts @ [t]) \<le> 2 ^ 32"
    by (rule addsample_extremes) (use snoc that in auto)
  then show ?case using addsample_counts [OF c, of t] by simp
qed (simp add: zero_counts)

text \<open>
  After any samples were added to a cleared queue, bucket \<open>b\<close> of level \<open>i\<close> counts the samples from \<open>b\<close> up to \<open>b + 1\<close> times
  ten to the power \<open>i + 1\<close> microseconds, \<open>overflow\<close> those of two seconds and more, and, for up to \<open>2^32\<close> samples, \<open>min\<close> and \<open>max\<close> are the
  least and the largest one.
\<close>

theorem tail_histogram:
  fixes ts :: "u64 list"
  defines "tq \<equiv> fold tailqueue_addsample ts tailqueue_zero"
  assumes "ts \<noteq> []" "length ts \<le> 2 ^ 32"
  shows "tq_overflow tq = of_nat (length (filter (\<lambda>t. 2000000 \<le> unat t) ts)) \<and>
    (\<forall>i<NUM_LEVELS. \<forall>b<NUM_BUCKETS. tq_gran tq ! i ! b = of_nat (length (filter (\<lambda>t. unat t div 10 ^ (i + 1) = b) ts))) \<and>
    tq_min tq = Min (set ts) \<and> tq_max tq = Max (set ts)"
proof -
  have c: "tq_counts tq ts" and m: "tq_min tq = Min (set ts) \<and> tq_max tq = Max (set ts)"
    using fold_addsample_counts [of ts] assms unfolding tq_def by simp_all
  then show ?thesis by (simp add: tq_counts_def samples_in_def level_gran_def tail_consts)
qed

theorem tail_histogram_witness:
  "tq_overflow (fold tailqueue_addsample [15, 250, 3000000 :: u64] tailqueue_zero) = 1 \<and>
    tq_gran (fold tailqueue_addsample [15, 250, 3000000 :: u64] tailqueue_zero) ! 1 ! 2 = 1 \<and>
    tq_min (fold tailqueue_addsample [15, 250, 3000000 :: u64] tailqueue_zero) = 15 \<and>
    tq_max (fold tailqueue_addsample [15, 250, 3000000 :: u64] tailqueue_zero) = 3000000"
proof -
  have "(1 :: nat) < NUM_LEVELS" "(2 :: nat) < NUM_BUCKETS" by (simp_all add: tail_consts)
  then show ?thesis using tail_histogram [of "[15, 250, 3000000]"] by simp
qed

section \<open>Percentiles\<close>

lemma near_floor:
  fixes x y f q :: rat
  assumes "x = f + q" "1 / 10 ^ 5 \<le> q" "q \<le> 1 - 1 / 10 ^ 5" "\<bar>y - x\<bar> < 1 / 2 ^ 21"
  shows "f \<le> y \<and> y < f + 1"
  using assms by (cases "y < x") (simp_all add: abs_if)

lemma nines_threshold_div:
  assumes "n \<le> MAX_NINES"
  shows "nines_threshold c n = of_nat (unat c div 10 ^ n)"
proof -
  let ?x = "of_nat (unat c) / 10 ^ n :: rat" and ?f = "unat c div 10 ^ n" and ?r = "unat c mod 10 ^ n"
  have c32: "unat c < 2 ^ 32" using unsigned_less [of c] by simp
  have "unat c = 10 ^ n * ?f + ?r" by simp
  then have "(of_nat (unat c) :: rat) = 10 ^ n * of_nat ?f + of_nat ?r" by (metis of_nat_add of_nat_mult of_nat_numeral of_nat_power)
  then have x: "?x = of_nat ?f + of_nat ?r / 10 ^ n" by (simp add: field_simps)
  have fl: "\<lfloor>rnd 53 ?x\<rfloor> = int ?f"
  proof (cases "?r = 0")
    case True
    then have "?x = of_int (int ?f)" using x by simp
    moreover have "?f < 2 ^ 53" by (rule le_less_trans [OF div_le_dividend]) (use c32 in simp)
    ultimately have "rnd 53 ?x = of_int (int ?f)" using rnd_int_exact [of "int ?f" 53] by simp
    then show ?thesis by simp
  next
    case False
    have "(10 :: rat) ^ n \<le> 10 ^ 5" using assms by (intro power_increasing) (simp_all add: tail_consts)
    moreover have r: "1 \<le> (of_nat ?r :: rat)" "of_nat ?r + 1 \<le> (10 :: rat) ^ n"
    proof -
      have "?r < 10 ^ n" by simp
      then have "?r + 1 \<le> 10 ^ n" by linarith
      then have "of_nat (?r + 1) \<le> (of_nat (10 ^ n) :: rat)" by (rule of_nat_mono)
      then show "of_nat ?r + 1 \<le> (10 :: rat) ^ n" by simp
      show "1 \<le> (of_nat ?r :: rat)" using False by simp
    qed
    ultimately have lo: "1 / 10 ^ 5 \<le> (of_nat ?r :: rat) / 10 ^ n" and hi: "(of_nat ?r :: rat) / 10 ^ n \<le> 1 - 1 / 10 ^ 5"
      by (simp_all add: field_simps)
    have "0 < (1 :: rat) / 10 ^ 5" "(0 :: rat) \<le> of_nat ?f" by simp_all
    then have pos: "0 < ?x" unfolding x using lo by linarith
    have "?x \<le> of_nat (unat c) / 1" by (rule divide_left_mono) (simp_all del: of_nat_unat)
    also have "\<dots> < 2 ^ 32"
    proof -
      have "(of_nat (unat c) :: rat) < of_nat (2 ^ 32)" using c32 by (subst of_nat_less_iff) simp
      then show ?thesis by simp
    qed
    finally have "?x * 2 powi (- int 53) < 2 ^ 32 * 2 powi (- int 53)" by (intro mult_strict_right_mono) simp_all
    also have "\<dots> = 1 / 2 ^ 21" by (simp add: power_int_minus field_simps)
    finally have "\<bar>rnd 53 ?x - ?x\<bar> < 1 / 2 ^ 21" using rnd_rel_error [OF pos, of 53] by linarith
    then have "of_nat ?f \<le> rnd 53 ?x \<and> rnd 53 ?x < of_nat ?f + 1" by (rule near_floor [OF x lo hi])
    then show ?thesis by (intro floor_unique) simp_all
  qed
  then show ?thesis by (simp add: nines_threshold_def)
qed

lemma nines_buckets_stop: "nines_buckets tq ns (Suc l) 0 abv td = Inr td"
  by (induction ns) (simp_all add: scan_down.simps)

text \<open>
  When no sample took 100 milliseconds, \<open>tailqueue_calcnines\<close> reports no percentile at all: the search starts in bucket 0 of the
  coarsest level, where its loop ends at once.
\<close>

theorem nines_silent:
  assumes "ts \<noteq> []" "length ts < 2 ^ 32" "\<And>t. t \<in> set ts \<Longrightarrow> unat t < 100000"
  shows "\<exists>td tq. tailqueue_calcnines reset (fold tailqueue_addsample ts tailqueue_zero) = Inr (td, tq) \<and>
    td_count td = of_nat (length ts) \<and> td_min td = Min (set ts) \<and> td_max td = Max (set ts) \<and> td_nines td = replicate (MAX_NINES + 1) 0"
proof -
  let ?tq = "fold tailqueue_addsample ts tailqueue_zero"
  have c: "tq_counts ?tq ts" and m: "tq_min ?tq = Min (set ts) \<and> tq_max ?tq = Max (set ts)"
    using fold_addsample_counts [of ts] assms(1,2) by simp_all
  have l32: "unat (of_nat (length ts) :: u32) = length ts" using assms(2) by (simp add: unsigned_of_nat take_bit_nat_eq_self)
  then have n0: "tq_count ?tq \<noteq> 0" using c assms(1) by (auto simp: tq_counts_def)
  have cnt: "ucast (tq_count ?tq) = (of_nat (length ts) :: u64)" 
  proof -
    have "tq_count ?tq = of_nat (length ts)" using c unfolding tq_counts_def by simp
    then have "unat (tq_count ?tq) = length ts" using l32 by simp
    then show ?thesis by (metis of_nat_unat)
  qed
  have "\<not> NUM_BUCKETS * level_gran (NUM_LEVELS - 1) \<le> unat t" if "t \<in> set ts" for t
    using assms(3) [OF that] by (simp add: tail_consts level_gran_def)
  then have "filter (\<lambda>t. NUM_BUCKETS * level_gran (NUM_LEVELS - 1) \<le> unat t) ts = []" by (simp add: filter_empty_conv)
  then have ov: "tq_overflow ?tq = 0" using c by (simp add: tq_counts_def)
  have "Max (set ts) \<in> set ts" using assms(1) by simp
  then have "unat (tq_max ?tq) < 100000" using assms(3) m by simp
  then have "unat (tq_max ?tq div gran_top) = 0" by (simp add: word_div_small gran_top_nat level_gran_def tail_consts)
  then have b0: "s32 (int (unat (tq_max ?tq div gran_top))) = 0" by simp
  obtain ns where ns: "rev [MIN_NINES..<MAX_NINES + 1] = ns" by blast
  have st: "nines_buckets ?tq ns (NUM_LEVELS - 1) 0 0 td = Inr td" for td
    using nines_buckets_stop [of ?tq ns 3] by (simp add: NUM_LEVELS_def)
  show ?thesis
    using n0 ov m cnt unfolding tailqueue_calcnines_def Let_def ns b0 st by (simp add: st taildistr_zero_def)
qed

theorem nines_silent_witness:
  "\<exists>td tq. tailqueue_calcnines True (fold tailqueue_addsample [500, 900, 99000] tailqueue_zero) = Inr (td, tq) \<and>
    td_count td = of_nat (length [500, 900, 99000 :: u64]) \<and> td_min td = Min (set [500, 900, 99000]) \<and>
    td_max td = Max (set [500, 900, 99000]) \<and> td_nines td = replicate (MAX_NINES + 1) 0"
  by (rule nines_silent) auto

text \<open>Where the search does find a bucket, the value is not that of the bucket: one sample of 500 milliseconds is reported as 100.05.\<close>

lemma nines_value:
  "\<exists>td tq. tailqueue_calcnines False (tailqueue_addsample 500000 tailqueue_zero) = Inr (td, tq) \<and> td_nines td = 0 # replicate MAX_NINES 100050"
proof -
  define tq where "tq = tailqueue_addsample 500000 tailqueue_zero"
  have fold: "tq = fold tailqueue_addsample [500000] tailqueue_zero" by (simp add: tq_def)
  have c: "tq_counts tq [500000]" and m: "tq_min tq = Min (set [500000]) \<and> tq_max tq = Max (set [500000])"
    using fold_addsample_counts [of "[500000]"] unfolding fold by simp_all
  have t: "tq_count tq = 1" "tq_max tq = 500000" using c m by (simp_all add: tq_counts_def)
  have ov: "tq_overflow tq = 0" using c by (simp add: tq_counts_def tail_consts level_gran_def)
  have th: "n \<le> MAX_NINES \<Longrightarrow> 0 < n \<Longrightarrow> nines_threshold 1 n = 0" for n
    using one_less_power [of "10 :: nat" n] by (simp add: nines_threshold_div)
  have sc: "scan_down g 0 4 5 a = Inr (Some 100050, 4, 5, a + ucast (g ! 4 ! 5))" for g a
    by (simp add: scan_down.simps tail_consts)
  have sc0: "nines_buckets tq ns 4 5 a td = Inr (td\<lparr>td_nines := fold (\<lambda>n l. l[n := 100050]) ns (td_nines td)\<rparr>)"
    if "set ns \<subseteq> {1..MAX_NINES}" for ns a td
    using that by (induction ns arbitrary: a td) (simp_all add: t th sc)
  have five: "rev [MIN_NINES..<MAX_NINES + 1] = [5, 4, 3, 2, 1]" by (simp add: tail_consts upt_rec)
  have "s32 (int (unat (tq_max tq div gran_top))) = 5" "NUM_LEVELS - 1 = 4"
    unfolding word_div_small gran_top_nat t by (simp_all add: level_gran_def tail_consts)
  then have "tailqueue_calcnines False tq = Inr (taildistr_zero\<lparr>td_count := 1, td_min := tq_min tq, td_max := 500000,
      td_nines := fold (\<lambda>n l. l[n := 100050]) [5, 4, 3, 2, 1] (replicate 6 0)\<rparr>, tq)"
    using sc0 [of "[5, 4, 3, 2, 1]"] unfolding tailqueue_calcnines_def Let_def five
    by (simp add: t ov taildistr_zero_def MAX_NINES_def)
  then show ?thesis by (simp add: tq_def MAX_NINES_def eval_nat_numeral)
qed

end
