(* ===== verification/Kstats.thy ===== *)
theory Kstats
  imports Timer Addr_Text "HOL-Library.Signed_Division"
begin

text \<open>
  The statistics of \<open>dp/core/kstats.c\<close> and \<open>inc/ix/kstats.h\<close>: latency and occupancy of sections of code that may be nested, the two
  histograms, and the periodic report that clears them.  A pointer to a counter is the address of the counter; the time stamp counter is
  an argument.
\<close>

section \<open>Data\<close>

record kstats_distr =
  kd_count :: u64
  kd_min_occ :: u64
  kd_max_occ :: u64
  kd_tot_occ :: u64
  kd_min_lat :: u64
  kd_max_lat :: u64
  kd_tot_lat :: u64

record kstats_accumulate =
  ka_cur :: addr
  ka_start_lat :: u64
  ka_start_occ :: u64
  ka_accum_time :: u64

definition KSTATS_BATCH_HISTOGRAM_SIZE :: int where "KSTATS_BATCH_HISTOGRAM_SIZE = 512"
definition KSTATS_BACKLOG_HISTOGRAM_SIZE :: int where "KSTATS_BACKLOG_HISTOGRAM_SIZE = 512"
definition KSTATS_INTERVAL :: u64 where "KSTATS_INTERVAL = 5 * ONE_SECOND"

lemmas kstats_consts = KSTATS_BATCH_HISTOGRAM_SIZE_def KSTATS_BACKLOG_HISTOGRAM_SIZE_def

text \<open>The variables of a core.\<close>

record kstats_state =
  ks_distrs :: "addr \<Rightarrow> kstats_distr"
  ks_acc :: kstats_accumulate
  ks_packets :: int
  ks_batch :: "int list"
  ks_backlog :: "int list"

definition kstats_distr_zero :: kstats_distr where
  "kstats_distr_zero = \<lparr>kd_count = 0, kd_min_occ = 0, kd_max_occ = 0, kd_tot_occ = 0, kd_min_lat = 0, kd_max_lat = 0, kd_tot_lat = 0\<rparr>"

section \<open>Entering and leaving a section\<close>

text \<open>The caller's variable is \<open>None\<close> for a null pointer; it stays as it is when there is no enclosing section.\<close>

definition kstats_enter :: "u64 \<Rightarrow> addr \<Rightarrow> kstats_accumulate option \<Rightarrow> kstats_state \<Rightarrow> kstats_accumulate option \<times> kstats_state" where
  "kstats_enter now n saved_accu s =
     (let acc = ks_acc s;
          saved1 = (if ka_cur acc \<noteq> NULL \<and> saved_accu \<noteq> None
                    then Some (acc\<lparr>ka_accum_time := now - ka_start_occ acc\<rparr>) else saved_accu)
      in (saved1, s\<lparr>ks_acc := \<lparr>ka_cur = n, ka_start_lat = now, ka_start_occ = now, ka_accum_time = 0\<rparr>\<rparr>))"

definition distr_add :: "u64 \<Rightarrow> u64 \<Rightarrow> kstats_distr \<Rightarrow> kstats_distr" where
  "distr_add diff_lat diff_occ d =
     (let d1 = d\<lparr>kd_tot_lat := kd_tot_lat d + diff_lat, kd_tot_occ := kd_tot_occ d + diff_occ\<rparr>;
          d2 = (if kd_count d1 = 0
                then d1\<lparr>kd_min_lat := diff_lat, kd_max_lat := diff_lat, kd_min_occ := diff_occ, kd_max_occ := diff_occ\<rparr>
                else d1\<lparr>kd_min_lat := min (kd_min_lat d1) diff_lat, kd_max_lat := max (kd_max_lat d1) diff_lat,
                        kd_min_occ := min (kd_min_occ d1) diff_occ, kd_max_occ := max (kd_max_occ d1) diff_occ\<rparr>)
      in d2\<lparr>kd_count := kd_count d2 + 1\<rparr>)"

definition kstats_leave :: "u64 \<Rightarrow> kstats_accumulate option \<Rightarrow> kstats_state \<Rightarrow> kstats_state" where
  "kstats_leave now saved_accu s =
     (let acc = ks_acc s; cur = ka_cur acc;
          diff_lat = now - ka_start_lat acc;
          diff_occ = now - ka_start_occ acc + ka_accum_time acc
      in if cur = NULL then s
         else let s1 = s\<lparr>ks_distrs := (ks_distrs s)(cur := distr_add diff_lat diff_occ (ks_distrs s cur))\<rparr>
              in case saved_accu of None \<Rightarrow> s1 | Some sv \<Rightarrow> s1\<lparr>ks_acc := sv\<lparr>ka_start_occ := now\<rparr>\<rparr>)"

definition kstats_vector :: "addr \<Rightarrow> kstats_state \<Rightarrow> kstats_state" where
  "kstats_vector n s = s\<lparr>ks_acc := (ks_acc s)\<lparr>ka_cur := n\<rparr>\<rparr>"

section \<open>Histograms\<close>

definition kstats_packets_inc :: "int \<Rightarrow> kstats_state \<Rightarrow> kstats_state" where
  "kstats_packets_inc n s = s\<lparr>ks_packets := s32 (ks_packets s + n)\<rparr>"

definition hist_inc :: "int \<Rightarrow> int list \<Rightarrow> int list res" where
  "hist_inc n hs = (if n < 0 \<or> int (length hs) \<le> n then Inl Out_of_bounds else Inr (hs[nat n := s32 (hs ! nat n + 1)]))"

definition kstats_batch_inc :: "int \<Rightarrow> kstats_state \<Rightarrow> kstats_state res" where
  "kstats_batch_inc n s =
     (if n \<ge> KSTATS_BATCH_HISTOGRAM_SIZE then Inl Panic else bindE (hist_inc n (ks_batch s)) (\<lambda>hs. Inr (s\<lparr>ks_batch := hs\<rparr>)))"

definition kstats_backlog_inc :: "int \<Rightarrow> kstats_state \<Rightarrow> kstats_state res" where
  "kstats_backlog_inc n s =
     (if n \<ge> KSTATS_BACKLOG_HISTOGRAM_SIZE then Inl Panic else bindE (hist_inc n (ks_backlog s)) (\<lambda>hs. Inr (s\<lparr>ks_backlog := hs\<rparr>)))"

text \<open>\<open>sprintf(target, "%d:%d ", i, histogram[i])\<close>.\<close>

definition dec_int :: "int \<Rightarrow> string" where
  "dec_int k = (if k < 0 then ''-'' @ dec_digits (nat (- k)) else dec_digits (nat k))"

definition hist_piece :: "nat \<Rightarrow> int \<Rightarrow> string" where
  "hist_piece i c = (if c \<noteq> 0 then dec_digits i @ '':'' @ dec_int c @ '' '' else [])"

definition histogram_to_str :: "nat \<Rightarrow> int list \<Rightarrow> (string \<times> int) res" where
  "histogram_to_str buflen hs =
     (let txt = concat (map (\<lambda>(i, c). hist_piece i c) (enumerate 0 hs));
          avg = fold (\<lambda>(i, c) a. s32 (a + s32 (c * int i))) (enumerate 0 hs) 0;
          n = fold (\<lambda>c a. s32 (a + c)) hs 0
      in if length txt + 1 > buflen then Inl Out_of_bounds
         else Inr (txt, if n \<noteq> 0 then avg sdiv n else - 1))"

section \<open>The report\<close>

text \<open>Where the linker put the counters and the timer; the counters of \<open>kstatvectors.h\<close> in their order.\<close>

record kstats_env =
  kv_all :: "addr list"
  kv_idle :: addr
  kv_user :: addr
  kv_print :: addr
  kv_timer :: addr
  kv_handler :: u64

text \<open>A line of the report: calls, share of the cycles, and least, average and largest latency and occupancy.\<close>

definition kstats_printone :: "u64 \<Rightarrow> kstats_distr \<Rightarrow> u64 list" where
  "kstats_printone cycles d =
     (if kd_count d = 0 then []
      else [kd_count d, 100 * kd_tot_occ d div cycles, kd_min_lat d, kd_tot_lat d div kd_count d, kd_max_lat d,
            kd_min_occ d, kd_tot_occ d div kd_count d, kd_max_occ d])"

text \<open>The head of the report: idle, user and system share, cycles that are not idle, packets and average batch and backlog.\<close>

record kstats_head =
  kh_idle :: u64
  kh_user :: u64
  kh_sys :: u64
  kh_busy :: int
  kh_packets :: int
  kh_batch :: int
  kh_backlog :: int

definition kstats_head_of :: "kstats_env \<Rightarrow> u64 \<Rightarrow> int \<Rightarrow> int \<Rightarrow> kstats_state \<Rightarrow> kstats_head" where
  "kstats_head_of env cycles avg_batch avg_backlog s =
     (let idle = kd_tot_lat (ks_distrs s (kv_idle env)); user = kd_tot_lat (ks_distrs s (kv_user env))
      in \<lparr>kh_idle = idle * 100 div cycles, kh_user = user * 100 div cycles,
          kh_sys = of_int (max 0 (sint (cycles - idle - user)) * 100) div cycles,
          kh_busy = max 0 (sint (cycles - idle)), kh_packets = ks_packets s, kh_batch = avg_batch, kh_backlog = avg_backlog\<rparr>)"

definition kstats_clear :: "kstats_state \<Rightarrow> kstats_state" where
  "kstats_clear s = s\<lparr>ks_distrs := (\<lambda>_. kstats_distr_zero), ks_batch := replicate (nat KSTATS_BATCH_HISTOGRAM_SIZE) 0,
     ks_backlog := replicate (nat KSTATS_BACKLOG_HISTOGRAM_SIZE) 0, ks_packets := 0\<rparr>"

definition kstats_print :: "kstats_env \<Rightarrow> u64 \<Rightarrow> u32 \<Rightarrow> kstats_state \<Rightarrow> timerwheel \<Rightarrow> ((kstats_head \<times> u64 list list) \<times> kstats_state \<times> timerwheel) res" where
  "kstats_print env tsc cyc s tw =
     (let cycles = scast cyc * KSTATS_INTERVAL
      in bindE (histogram_to_str 2048 (ks_batch s)) (\<lambda>(_, avg_batch).
         bindE (histogram_to_str 2048 (ks_backlog s)) (\<lambda>(_, avg_backlog).
         if cycles = 0 then Inl Div_by_zero
         else let report = (kstats_head_of env cycles avg_batch avg_backlog s, map (\<lambda>a. kstats_printone cycles (ks_distrs s a)) (kv_all env));
                  s1 = kstats_clear (kstats_vector (kv_print env) s)
              in bindE (timer_add tsc cyc (kv_timer env) NULL KSTATS_INTERVAL tw) (\<lambda>tw1. Inr (report, s1, tw1)))))"

text \<open>The counters of the processor are opened by system calls and only printed.\<close>

definition kstats_init_cpu :: "kstats_env \<Rightarrow> u64 \<Rightarrow> u32 \<Rightarrow> timerwheel \<Rightarrow> (int \<times> timerwheel) res" where
  "kstats_init_cpu env tsc cyc tw =
     bindE (timer_add tsc cyc (kv_timer env) NULL KSTATS_INTERVAL (timer_init_entry (kv_timer env) (kv_handler env) tw)) (\<lambda>tw1. Inr (0, tw1))"

section \<open>Latency and occupancy\<close>

lemma distr_add_totals [simp]:
  "kd_tot_lat (distr_add l u d) = kd_tot_lat d + l" "kd_tot_occ (distr_add l u d) = kd_tot_occ d + u" "kd_count (distr_add l u d) = kd_count d + 1"
  by (simp_all add: distr_add_def Let_def)

text \<open>Sections of the counter \<open>m\<close>, entered and left at the given times, inside another section.\<close>

definition nested :: "addr \<Rightarrow> kstats_accumulate \<Rightarrow> u64 \<times> u64 \<Rightarrow> kstats_state \<Rightarrow> kstats_state" where
  "nested m sv ab s = (case kstats_enter (fst ab) m (Some sv) s of (sv1, s1) \<Rightarrow> kstats_leave (snd ab) sv1 s1)"

text \<open>The end of the last section and the time between it and the one before.\<close>

definition last_end :: "u64 \<Rightarrow> (u64 \<times> u64) list \<Rightarrow> u64" where
  "last_end t0 ns = (if ns = [] then t0 else snd (last ns))"

definition last_gap :: "u64 \<Rightarrow> (u64 \<times> u64) list \<Rightarrow> u64" where
  "last_gap t0 ns = (if ns = [] then 0 else fst (last ns) - last_end t0 (butlast ns))"

lemma nested_acc:
  assumes "ks_acc s = \<lparr>ka_cur = n, ka_start_lat = t0, ka_start_occ = e, ka_accum_time = g\<rparr>" "n \<noteq> NULL" "m \<noteq> NULL" "m \<noteq> n"
  shows "ks_acc (nested m sv (a, b) s) = \<lparr>ka_cur = n, ka_start_lat = t0, ka_start_occ = b, ka_accum_time = a - e\<rparr> \<and>
    ks_distrs (nested m sv (a, b) s) n = ks_distrs s n"
  using assms by (simp add: nested_def kstats_enter_def kstats_leave_def Let_def)

lemma nested_run:
  assumes "ks_acc s = \<lparr>ka_cur = n, ka_start_lat = t0, ka_start_occ = t0, ka_accum_time = 0\<rparr>" "n \<noteq> NULL" "m \<noteq> NULL" "m \<noteq> n"
  shows "ks_acc (fold (nested m sv) ns s) = \<lparr>ka_cur = n, ka_start_lat = t0, ka_start_occ = last_end t0 ns, ka_accum_time = last_gap t0 ns\<rparr> \<and>
    ks_distrs (fold (nested m sv) ns s) n = ks_distrs s n"
proof (induction ns rule: rev_induct)
  case (snoc x ns)
  obtain a b where x: "x = (a, b)" by fastforce
  show ?case using nested_acc [OF _ assms(2-4), of "fold (nested m sv) ns s" t0 "last_end t0 ns" "last_gap t0 ns" sv a b] snoc
    by (simp add: x last_end_def [of t0 "ns @ [(a, b)]"] last_gap_def [of t0 "ns @ [(a, b)]"])
qed (use assms in \<open>simp add: last_end_def last_gap_def\<close>)

text \<open>
  C38: Leaving a section adds to its counter the whole time since it was entered as latency.  As occupancy it adds the time since the end
  of the last nested section and the time between the last two: what passed before that is lost, so that only with at most one nested
  section the occupancy is the latency without the nested time.
\<close>

theorem section_accounted:
  fixes s :: kstats_state and t0 t1 :: u64 and sv :: kstats_accumulate and ns :: "(u64 \<times> u64) list"
  assumes "n \<noteq> NULL" "m \<noteq> NULL" "m \<noteq> n"
  defines "s1 \<equiv> snd (kstats_enter t0 n None s)"
  defines "d \<equiv> ks_distrs (kstats_leave t1 None (fold (nested m sv) ns s1)) n"
  shows "kd_count d = kd_count (ks_distrs s n) + 1 \<and> kd_tot_lat d = kd_tot_lat (ks_distrs s n) + (t1 - t0) \<and>
    kd_tot_occ d = kd_tot_occ (ks_distrs s n) + (t1 - last_end t0 ns) + last_gap t0 ns \<and>
    (length ns \<le> 1 \<longrightarrow> kd_tot_occ d = kd_tot_occ (ks_distrs s n) + (t1 - t0) - (\<Sum>(a, b)\<leftarrow>ns. b - a))"
proof -
  have "ks_acc s1 = \<lparr>ka_cur = n, ka_start_lat = t0, ka_start_occ = t0, ka_accum_time = 0\<rparr>" "ks_distrs s1 = ks_distrs s"
    by (simp_all add: s1_def kstats_enter_def Let_def)
  with nested_run [OF this(1) assms(1-3), of sv ns]
  have d: "d = distr_add (t1 - t0) (t1 - last_end t0 ns + last_gap t0 ns) (ks_distrs s n)"
    using assms(1) by (simp add: d_def kstats_leave_def Let_def)
  moreover have "t1 - last_end t0 ns + last_gap t0 ns = (t1 - t0) - (\<Sum>(a, b)\<leftarrow>ns. b - a)" if "length ns \<le> 1"
    using that by (cases ns) (auto simp: last_end_def last_gap_def)
  ultimately show ?thesis by (simp add: add.assoc add_diff_eq [symmetric])
qed

theorem section_accounted_witness:
  defines "z \<equiv> \<lparr>ks_distrs = \<lambda>_. kstats_distr_zero, ks_acc = \<lparr>ka_cur = 0, ka_start_lat = 0, ka_start_occ = 0, ka_accum_time = 0\<rparr>,
    ks_packets = 0, ks_batch = [], ks_backlog = []\<rparr>"
  defines "d \<equiv> ks_distrs (kstats_leave 50 None (fold (nested 16 (ks_acc z)) [(10, 20), (30, 40)] (snd (kstats_enter 0 8 None z)))) 8"
  shows "kd_count d = 1 \<and> kd_tot_lat d = 50 \<and> kd_tot_occ d = 20"
  using section_accounted [where n = 8 and m = 16 and ?t0.0 = 0 and s = z and ?t1.0 = 50 and sv = "ks_acc z" and ns = "[(10, 20), (30, 40)]"]
  by (simp add: d_def z_def last_end_def last_gap_def kstats_distr_zero_def)

section \<open>The text of a histogram\<close>

lemma concat_length_ge: "(\<And>x. x \<in> set xs \<Longrightarrow> k \<le> length x) \<Longrightarrow> k * length xs \<le> length (concat xs)"
  by (induction xs) (auto simp: add_le_mono)

text \<open>When no bucket is empty, the text does not fit the buffer of 2048 bytes it is printed to.\<close>

lemma histogram_overflows:
  assumes "length hs = nat KSTATS_BATCH_HISTOGRAM_SIZE" "\<And>c. c \<in> set hs \<Longrightarrow> 0 < c"
  shows "histogram_to_str 2048 hs = Inl Out_of_bounds"
proof -
  let ?ps = "map (\<lambda>(i, c). hist_piece i c) (enumerate 0 hs)"
  have "4 \<le> length p" if pin: "p \<in> set ?ps" for p
  proof -
    obtain x where x: "x \<in> set (enumerate 0 hs)" "p = (\<lambda>(i, c). hist_piece i c) x" using pin unfolding set_map by blast
    obtain i c where ic: "x = (i, c)" by fastforce
    then have p: "p = hist_piece i c" using x(2) by simp
    have "c \<in> set hs" using x(1) ic by (auto simp: in_set_enumerate_eq)
    then have "0 < c" by (rule assms(2))
    moreover have "1 \<le> length (dec_digits k)" for k using dec_digits_nonempty [of k] by (cases "dec_digits k") simp_all
    ultimately show ?thesis using add_mono [OF \<open>1 \<le> length (dec_digits i)\<close> \<open>1 \<le> length (dec_digits (nat c))\<close>] p
      by (simp add: hist_piece_def dec_int_def)
  qed
  then have "4 * length ?ps \<le> length (concat ?ps)" by (rule concat_length_ge)
  then have "2048 \<le> length (concat ?ps)" using assms(1) by (simp add: kstats_consts)
  then show ?thesis by (simp add: histogram_to_str_def Let_def)
qed

end
