(* ===== verification/Ring.thy ===== *)
theory Ring
  imports Transmit
begin

text \<open>
  Descriptor rings: what the transmit and the receive side of the two device drivers (\<open>dp/drivers/ixgbe.c\<close>, \<open>dp/drivers/i40e.c\<close>)
  have in common.  Positions are 16-bit counters that run on and are cut to the size of the ring, a power of two, when they are used as
  an index.  The device writes to a descriptor when it is done with it; it does so behind the driver's back, so the results are for any
  content of the descriptors.
\<close>

section \<open>Positions\<close>

definition ring_slot :: "u16 \<Rightarrow> u16 \<Rightarrow> nat" where
  "ring_slot len p = unat (p AND (len - 1))"

lemma ring_slot_mod:
  assumes "len = 2 ^ k" "k < 16"
  shows "ring_slot len p = unat p mod 2 ^ k"
proof -
  have "len - 1 = mask k" using assms(1) by (simp add: mask_eq_exp_minus_1)
  then have "ring_slot len p = unat (take_bit k p)" by (simp add: ring_slot_def take_bit_eq_mask)
  then show ?thesis by (simp only: unsigned_take_bit_eq) (simp add: take_bit_eq_mod)
qed

lemma unat_add_mod: "k \<le> 16 \<Longrightarrow> unat (p + of_nat j :: u16) mod 2 ^ k = (unat p + j) mod 2 ^ k"
proof -
  assume k: "k \<le> 16"
  have "unat (p + of_nat j) = (unat p + j) mod 2 ^ 16" by (simp add: unat_word_ariths unsigned_of_nat take_bit_eq_mod mod_simps)
  moreover have "(2 :: nat) ^ k dvd 2 ^ 16" using k by (rule le_imp_power_dvd)
  ultimately show ?thesis by (simp only: mod_mod_cancel)
qed

lemma unat_pow2: "k < 16 \<Longrightarrow> unat (2 ^ k :: u16) = 2 ^ k"
proof -
  assume "k < 16"
  then have "(2 :: nat) ^ k < 2 ^ 16" by (intro power_strict_increasing) simp_all
  moreover have "(2 ^ k :: u16) = of_nat (2 ^ k)" by simp
  ultimately show ?thesis using \<open>k < 16\<close> by (simp only: unsigned_of_nat) (simp add: take_bit_nat_eq_self)
qed

lemma add_mod_inj:
  fixes a i j q :: nat
  assumes "(a + i) mod q = (a + j) mod q" "i < q" "j < q"
  shows "i = j"
proof -
  have "y \<le> x \<Longrightarrow> (a + x) mod q = (a + y) mod q \<Longrightarrow> x < q \<Longrightarrow> x = y" for x y
    using mod_eq_dvd_iff_nat [of "a + y" "a + x" q] by (auto dest: dvd_imp_le)
  then show ?thesis using assms by (metis nat_le_linear)
qed

lemma ring_slot_inj:
  assumes "len = 2 ^ k" "k < 16" "i < 2 ^ k" "j < 2 ^ k" "ring_slot len (p + of_nat i) = ring_slot len (p + of_nat j)"
  shows "i = j"
proof -
  have "(unat p + i) mod 2 ^ k = (unat p + j) mod 2 ^ k"
    using assms(5) assms(2) unfolding ring_slot_mod [OF assms(1,2)] by (simp add: unat_add_mod)
  then show ?thesis using assms(3,4) by (rule add_mod_inj)
qed

section \<open>Transmit rings\<close>

text \<open>
  \<open>struct tx_queue\<close> of the drivers; \<open>tr_tdt\<close> is the tail register of the device.  The eight-byte slots of \<open>ring_entries\<close> hold the
  buffer of a packet at its last descriptor.
\<close>

record 'd tx_ring =
  tr_ring :: "'d list"
  tr_entries :: "addr list"
  tr_head :: u16
  tr_tail :: u16
  tr_len :: u16
  tr_tdt :: u32

abbreviation tr_slot :: "'d tx_ring \<Rightarrow> u16 \<Rightarrow> nat" where
  "tr_slot q p \<equiv> ring_slot (tr_len q) p"

text \<open>
  The loop of \<open>tx_reclaim\<close>, at descriptor \<open>idx\<close> behind the head, with \<open>nb\<close> descriptors found to be free so far.  \<open>dd\<close> tests whether the
  device is done with a descriptor.
\<close>

function reclaim_loop :: "net_env \<Rightarrow> ('d \<Rightarrow> bool) \<Rightarrow> 'd tx_ring \<Rightarrow> nat \<Rightarrow> nat \<Rightarrow> net_state \<Rightarrow> (nat \<times> 'd tx_ring \<times> net_state) res" where
  "reclaim_loop env dd q idx nb s =
     (if tr_head q + of_nat idx = tr_tail q then Inr (nb, q, s)
      else let i = tr_slot q (tr_head q + of_nat idx); m = tr_entries q ! i
      in if length (tr_entries q) \<le> i \<or> length (tr_ring q) \<le> i then Inl Out_of_bounds
         else if m = NULL then reclaim_loop env dd q (idx + 1) nb s
         else if \<not> dd (tr_ring q ! i) then Inr (nb, q, s)
         else bindE (mbuf_xmit_done env m s) (\<lambda>s1.
              reclaim_loop env dd (q\<lparr>tr_entries := (tr_entries q)[i := NULL]\<rparr>) (idx + 1) (idx + 1) s1))"
  by pat_completeness auto
termination
proof (relation "measure (\<lambda>(env, dd, q, idx, nb, s). unat (tr_tail q - (tr_head q + of_nat idx)))", goal_cases)
  case (2 env dd q idx nb s)
  have "tr_tail q - (tr_head q + of_nat idx) \<noteq> 0" using 2(1) by simp
  then show ?case using unat_minus_one [of "tr_tail q - (tr_head q + of_nat idx)"] by (simp add: algebra_simps unat_gt_0)
next
  case (3 env dd q idx nb s)
  have "tr_tail q - (tr_head q + of_nat idx) \<noteq> 0" using 3(1) by simp
  then show ?case using unat_minus_one [of "tr_tail q - (tr_head q + of_nat idx)"] by (simp add: algebra_simps unat_gt_0)
qed simp

declare reclaim_loop.simps [simp del]

definition tx_reclaim :: "net_env \<Rightarrow> ('d \<Rightarrow> bool) \<Rightarrow> 'd tx_ring \<Rightarrow> net_state \<Rightarrow> (u16 \<times> 'd tx_ring \<times> net_state) res" where
  "tx_reclaim env dd q s =
     bindE (reclaim_loop env dd q 0 0 s) (\<lambda>(nb, q1, s1).
     let q2 = q1\<lparr>tr_head := tr_head q1 + of_nat nb\<rparr> in Inr (tr_len q2 + tr_head q2 - tr_tail q2, q2, s1))"

text \<open>
  The check for room in \<open>tx_xmit_one\<close>, and the second one after reclaiming; the result tells whether the ring is full.  It asks for one
  descriptor more than \<open>n\<close>.
\<close>

definition ring_full :: "u16 \<Rightarrow> 'd tx_ring \<Rightarrow> bool" where
  "ring_full n q \<longleftrightarrow> tr_tail q + n - tr_head q \<ge> tr_len q"

definition make_room :: "net_env \<Rightarrow> ('d \<Rightarrow> bool) \<Rightarrow> u16 \<Rightarrow> 'd tx_ring \<times> net_state \<Rightarrow> (bool \<times> 'd tx_ring \<times> net_state) res" where
  "make_room env dd n st =
     (case st of (q, s) \<Rightarrow>
      if ring_full n q then bindE (tx_reclaim env dd q s) (\<lambda>(_, q1, s1). Inr (ring_full n q1, q1, s1))
      else Inr (False, q, s))"

text \<open>The memory the ring is in has room for all of it.\<close>

definition tx_ring_ok :: "'d tx_ring \<Rightarrow> bool" where
  "tx_ring_ok q \<longleftrightarrow> unat (tr_len q) \<le> length (tr_ring q) \<and> unat (tr_len q) \<le> length (tr_entries q)"

text \<open>\<open>tx_xmit\<close>: packets are put on the ring until one does not fit; \<open>one\<close> is the driver's \<open>tx_xmit_one\<close>.\<close>

primrec xmit_loop ::
  "(addr \<Rightarrow> 'd tx_ring \<times> net_state \<Rightarrow> (int \<times> 'd tx_ring \<times> net_state) res) \<Rightarrow> addr list \<Rightarrow> nat \<Rightarrow> 'd tx_ring \<times> net_state \<Rightarrow>
     (nat \<times> 'd tx_ring \<times> net_state) res" where
  "xmit_loop one [] nb_pkts st = Inr (nb_pkts, st)"
| "xmit_loop one (m # ms) nb_pkts st =
     bindE (one m st) (\<lambda>(ret, st1). if ret \<noteq> 0 then Inr (nb_pkts, st1) else xmit_loop one ms (nb_pkts + 1) st1)"

definition tx_xmit ::
  "(addr \<Rightarrow> 'd tx_ring \<times> net_state \<Rightarrow> (int \<times> 'd tx_ring \<times> net_state) res) \<Rightarrow> addr list \<Rightarrow> 'd tx_ring \<times> net_state \<Rightarrow>
     (int \<times> 'd tx_ring \<times> net_state) res" where
  "tx_xmit one ms st =
     bindE (xmit_loop one ms 0 st) (\<lambda>(nb_pkts, q, s).
     Inr (int nb_pkts, if nb_pkts \<noteq> 0 then q\<lparr>tr_tdt := of_nat (tr_slot q (tr_tail q))\<rparr> else q, s))"

definition reset_tx_queue :: "'d tx_ring \<Rightarrow> 'd tx_ring" where
  "reset_tx_queue q = q\<lparr>tr_entries := replicate (unat (tr_len q)) NULL @ drop (unat (tr_len q)) (tr_entries q), tr_head := 0, tr_tail := 0\<rparr>"

section \<open>The packets on a ring\<close>

definition flight_len :: "'d tx_ring \<Rightarrow> nat" where
  "flight_len q = unat (tr_tail q - tr_head q)"

text \<open>The entries of the whole ring, from the head on, and the part that is in use.\<close>

definition from_head :: "'d tx_ring \<Rightarrow> addr list" where
  "from_head q = map (\<lambda>j. tr_entries q ! tr_slot q (tr_head q + of_nat j)) [0..<length (tr_entries q)]"

definition flight :: "'d tx_ring \<Rightarrow> addr list" where
  "flight q = take (flight_len q) (from_head q)"

definition tx_wf :: "nat \<Rightarrow> 'd tx_ring \<Rightarrow> bool" where
  "tx_wf k q \<longleftrightarrow> k < 16 \<and> tr_len q = 2 ^ k \<and> length (tr_ring q) = 2 ^ k \<and> length (tr_entries q) = 2 ^ k \<and> flight_len q < 2 ^ k \<and>
     set (drop (flight_len q) (from_head q)) \<subseteq> {NULL}"

definition packets :: "addr list \<Rightarrow> addr list" where
  "packets xs = filter (\<lambda>m. m \<noteq> NULL) xs"

primrec done_all :: "net_env \<Rightarrow> addr list \<Rightarrow> net_state \<Rightarrow> net_state res" where
  "done_all env [] s = Inr s"
| "done_all env (m # ms) s = bindE (mbuf_xmit_done env m s) (done_all env ms)"

lemma done_all_append: "done_all env (xs @ ys) s = bindE (done_all env xs s) (done_all env ys)"
  by (induction xs arbitrary: s) (auto simp: bindE_def split: sum.splits)

text \<open>The shape of a ring, without what is on it.\<close>

definition ring_shape :: "nat \<Rightarrow> 'd tx_ring \<Rightarrow> bool" where
  "ring_shape k q \<longleftrightarrow> k < 16 \<and> tr_len q = 2 ^ k \<and> length (tr_ring q) = 2 ^ k \<and> length (tr_entries q) = 2 ^ k"

lemma tx_wf_shape: "tx_wf k q \<Longrightarrow> ring_shape k q"
  by (simp add: tx_wf_def ring_shape_def)

lemma tr_slot_bound: "ring_shape k q \<Longrightarrow> tr_slot q p < 2 ^ k"
  using ring_slot_mod [of "tr_len q" k p] by (simp add: ring_shape_def)

lemma from_head_nth: "ring_shape k q \<Longrightarrow> j < 2 ^ k \<Longrightarrow> from_head q ! j = tr_entries q ! tr_slot q (tr_head q + of_nat j)"
  by (simp add: from_head_def ring_shape_def)

lemma from_head_length [simp]: "length (from_head q) = length (tr_entries q)"
  by (simp add: from_head_def)

lemma from_head_update:
  assumes "ring_shape k q" "j < 2 ^ k"
  shows "from_head (q\<lparr>tr_entries := (tr_entries q)[tr_slot q (tr_head q + of_nat j) := v]\<rparr>) = (from_head q)[j := v]"
proof (rule nth_equalityI)
  fix i
  assume "i < length (from_head (q\<lparr>tr_entries := (tr_entries q)[tr_slot q (tr_head q + of_nat j) := v]\<rparr>))"
  then have i: "i < 2 ^ k" using assms(1) by (simp add: ring_shape_def)
  have s: "tr_slot q (tr_head q + of_nat i) < length (tr_entries q)" "tr_slot q (tr_head q + of_nat j) < length (tr_entries q)"
    using tr_slot_bound [OF assms(1)] assms(1) by (simp_all add: ring_shape_def)
  have inj: "j \<noteq> i \<Longrightarrow> tr_slot q (tr_head q + of_nat j) \<noteq> tr_slot q (tr_head q + of_nat i)"
    using ring_slot_inj [of "tr_len q" k j i "tr_head q"] assms i by (auto simp: ring_shape_def)
  show "from_head (q\<lparr>tr_entries := (tr_entries q)[tr_slot q (tr_head q + of_nat j) := v]\<rparr>) ! i = (from_head q)[j := v] ! i"
    using i s inj assms by (cases "i = j") (auto simp: from_head_def ring_shape_def)
qed simp

lemma tail_reached:
  assumes "idx \<le> flight_len q"
  shows "tr_head q + of_nat idx = tr_tail q \<longleftrightarrow> idx = flight_len q"
proof
  have n: "flight_len q < 2 ^ 16" unfolding flight_len_def using unsigned_less [of "tr_tail q - tr_head q"] by simp
  assume "tr_head q + of_nat idx = tr_tail q"
  then have "tr_tail q - tr_head q = of_nat idx" by (simp add: algebra_simps)
  then have "flight_len q = unat (of_nat idx :: u16)" by (simp add: flight_len_def)
  then show "idx = flight_len q" using assms n by (simp add: unsigned_of_nat take_bit_nat_eq_self)
next
  assume "idx = flight_len q"
  then show "tr_head q + of_nat idx = tr_tail q" by (simp add: flight_len_def)
qed

definition ring_at :: "'d tx_ring \<Rightarrow> nat \<Rightarrow> 'd" where
  "ring_at q j = tr_ring q ! tr_slot q (tr_head q + of_nat j)"

section \<open>What is reclaimed\<close>

text \<open>How far the loop gets, from the entries alone: \<open>d j\<close> tells whether descriptor \<open>j\<close> behind the head is done.\<close>

primrec reclaimable :: "(nat \<Rightarrow> bool) \<Rightarrow> addr list \<Rightarrow> nat \<Rightarrow> nat \<Rightarrow> nat" where
  "reclaimable d [] idx nb = nb"
| "reclaimable d (m # ms) idx nb =
     (if m = NULL then reclaimable d ms (Suc idx) nb else if \<not> d idx then nb else reclaimable d ms (Suc idx) (Suc idx))"

lemma reclaimable_range:
  "reclaimable d xs idx nb = nb \<or> idx < reclaimable d xs idx nb \<and> reclaimable d xs idx nb \<le> idx + length xs \<and>
     xs ! (reclaimable d xs idx nb - Suc idx) \<noteq> NULL"
proof (induction xs arbitrary: idx nb)
  case (Cons m ms)
  show ?case
  proof (cases "m = NULL \<or> \<not> d idx")
    case True
    then show ?thesis using Cons.IH [of "Suc idx" nb] by (auto simp: nth_Cons' Suc_diff_Suc)
  next
    case False
    then show ?thesis using Cons.IH [of "Suc idx" "Suc idx"] by (auto simp: nth_Cons' Suc_diff_Suc)
  qed
qed simp

lemma reclaimable_done: "j < length xs \<Longrightarrow> idx + j < reclaimable d xs idx nb \<Longrightarrow> nb \<le> idx \<Longrightarrow> xs ! j \<noteq> NULL \<Longrightarrow> d (idx + j)"
proof (induction xs arbitrary: idx nb j)
  case (Cons m ms)
  then show ?case using Cons.IH [of "j - 1" "Suc idx"] by (cases j) (auto split: if_splits)
qed simp

lemma reclaimable_blocked:
  "j < length xs \<Longrightarrow> reclaimable d xs idx nb \<le> idx + j \<Longrightarrow> nb \<le> idx \<Longrightarrow> xs ! j \<noteq> NULL \<Longrightarrow>
     (\<And>i. i < j \<Longrightarrow> reclaimable d xs idx nb \<le> idx + i \<Longrightarrow> xs ! i = NULL) \<Longrightarrow> \<not> d (idx + j)"
proof (induction xs arbitrary: idx nb j)
  case (Cons m ms)
  show ?case
  proof (cases j)
    case 0
    then show ?thesis using Cons.prems reclaimable_range [of d ms "Suc idx" "Suc idx"] by (auto split: if_splits)
  next
    case (Suc j')
    show ?thesis
    proof (cases "m \<noteq> NULL \<and> \<not> d idx")
      case True
      then show ?thesis using Cons.prems(5) [of 0] Cons.prems(3) Suc by auto
    next
      case False
      define nb' where "nb' = (if m = NULL then nb else Suc idx)"
      have eq: "reclaimable d (m # ms) idx nb = reclaimable d ms (Suc idx) nb'" using False by (auto simp: nb'_def)
      have nulls: "ms ! i = NULL" if "i < j'" "reclaimable d ms (Suc idx) nb' \<le> Suc idx + i" for i
        using Cons.prems(5) [of "Suc i"] Suc that unfolding eq by simp
      have "\<not> d (Suc idx + j')"
        by (rule Cons.IH [OF _ _ _ _ nulls]) (use Cons.prems Suc eq in \<open>auto simp: nb'_def\<close>)
      then show ?thesis using Suc by simp
    qed
  qed
qed simp

text \<open>The loop does what the entries say: it calls the handlers of the finished packets in order and clears their entries.\<close>

lemma bindE_assoc: "bindE (bindE r f) g = bindE r (\<lambda>x. bindE (f x) g)"
  by (cases r) simp_all

lemma reclaim_loop_entries:
  assumes "ring_shape k q" "flight_len q \<le> 2 ^ k" "idx \<le> flight_len q" "nb \<le> idx" "xs = drop idx (take (flight_len q) (from_head q))"
    and "N = reclaimable (\<lambda>j. dd (ring_at q j)) xs idx nb"
  shows "\<exists>es. length es = 2 ^ k \<and> (\<forall>j<2 ^ k. from_head (q\<lparr>tr_entries := es\<rparr>) ! j = (if idx \<le> j \<and> j < N then NULL else from_head q ! j)) \<and>
    (\<forall>s. reclaim_loop env dd q idx nb s = bindE (done_all env (packets (take (N - idx) xs)) s) (\<lambda>s'. Inr (N, q\<lparr>tr_entries := es\<rparr>, s')))"
  using assms
proof (induction xs arbitrary: q idx nb N)
  case Nil
  have "length (tr_entries q) = 2 ^ k" using Nil.prems(1) by (simp add: ring_shape_def)
  then have "idx = flight_len q" using Nil.prems by auto
  then have "tr_head q + of_nat idx = tr_tail q" using tail_reached [of idx q] by simp
  then show ?case
    using \<open>length (tr_entries q) = 2 ^ k\<close> Nil.prems(4,6) by (intro exI [of _ "tr_entries q"]) (auto simp: packets_def reclaim_loop.simps)
next
  case (Cons x xs)
  let ?i = "tr_slot q (tr_head q + of_nat idx)"
  have len: "length (tr_entries q) = 2 ^ k" "length (tr_ring q) = 2 ^ k" using Cons.prems(1) by (simp_all add: ring_shape_def)
  have idx: "idx < flight_len q" "idx < 2 ^ k"
  proof -
    have "drop idx (take (flight_len q) (from_head q)) \<noteq> []" using Cons.prems(5) by (metis list.distinct(1))
    then show "idx < flight_len q" by simp
    then show "idx < 2 ^ k" using Cons.prems(2) by simp
  qed
  have x: "x = from_head q ! idx" and xs: "xs = drop (Suc idx) (take (flight_len q) (from_head q))"
  proof -
    have "drop idx (take (flight_len q) (from_head q)) = from_head q ! idx # drop (Suc idx) (take (flight_len q) (from_head q))"
      using idx len by (simp add: Cons_nth_drop_Suc [symmetric])
    then show "x = from_head q ! idx" "xs = drop (Suc idx) (take (flight_len q) (from_head q))" using Cons.prems(5) by simp_all
  qed
  have ent: "tr_entries q ! ?i = x" using from_head_nth [OF Cons.prems(1) idx(2)] x by simp
  have bnd: "?i < 2 ^ k" by (rule tr_slot_bound [OF Cons.prems(1)])
  have go: "tr_head q + of_nat idx \<noteq> tr_tail q" using tail_reached [OF Cons.prems(3)] idx by simp
  have step: "reclaim_loop env dd q idx nb s =
      (if x = NULL then reclaim_loop env dd q (Suc idx) nb s
       else if \<not> dd (ring_at q idx) then Inr (nb, q, s)
       else bindE (mbuf_xmit_done env x s) (\<lambda>s1. reclaim_loop env dd (q\<lparr>tr_entries := (tr_entries q)[?i := NULL]\<rparr>) (Suc idx) (Suc idx) s1))" for s
    using go bnd len ent by (subst reclaim_loop.simps) (simp add: Let_def ring_at_def)
  consider (skip) "x = NULL" | (stop) "x \<noteq> NULL" "\<not> dd (ring_at q idx)" | (fin) "x \<noteq> NULL" "dd (ring_at q idx)" by blast
  then show ?case
  proof cases
    case skip
    have N: "N = reclaimable (\<lambda>j. dd (ring_at q j)) xs (Suc idx) nb" using Cons.prems(6) skip by simp
    obtain es where es: "length es = 2 ^ k"
      "\<forall>j<2 ^ k. from_head (q\<lparr>tr_entries := es\<rparr>) ! j = (if Suc idx \<le> j \<and> j < N then NULL else from_head q ! j)"
      "\<forall>s. reclaim_loop env dd q (Suc idx) nb s = bindE (done_all env (packets (take (N - Suc idx) xs)) s) (\<lambda>s'. Inr (N, q\<lparr>tr_entries := es\<rparr>, s'))"
      using Cons.IH [OF Cons.prems(1,2) _ _ xs N] Cons.prems(4) idx by auto
    have "packets (take (N - idx) (x # xs)) = packets (take (N - Suc idx) xs)"
      using skip by (simp add: packets_def take_Cons')
    then show ?thesis using es step skip x by (intro exI [of _ es]) (auto simp: le_Suc_eq Suc_le_eq dest: le_neq_implies_less)
  next
    case stop
    then have "N = nb" using Cons.prems(6) by simp
    then show ?thesis using stop step len Cons.prems(4) by (intro exI [of _ "tr_entries q"]) (auto simp: packets_def)
  next
    case fin
    define q1 where "q1 = q\<lparr>tr_entries := (tr_entries q)[?i := NULL]\<rparr>"
    have F1: "from_head q1 = (from_head q)[idx := NULL]" unfolding q1_def by (rule from_head_update [OF Cons.prems(1) idx(2)])
    have q1: "ring_shape k q1" "flight_len q1 = flight_len q" "\<And>j. ring_at q1 j = ring_at q j" "\<And>es. q1\<lparr>tr_entries := es\<rparr> = q\<lparr>tr_entries := es\<rparr>"
      using Cons.prems(1) by (simp_all add: q1_def ring_shape_def flight_len_def ring_at_def)
    have N: "N = reclaimable (\<lambda>j. dd (ring_at q1 j)) xs (Suc idx) (Suc idx)" using Cons.prems(6) fin q1 by simp
    have xs1: "xs = drop (Suc idx) (take (flight_len q1) (from_head q1))" using xs by (simp add: F1 q1 take_update_swap)
    obtain es where es: "length es = 2 ^ k"
      "\<forall>j<2 ^ k. from_head (q\<lparr>tr_entries := es\<rparr>) ! j = (if Suc idx \<le> j \<and> j < N then NULL else from_head q1 ! j)"
      "\<forall>s. reclaim_loop env dd q1 (Suc idx) (Suc idx) s = bindE (done_all env (packets (take (N - Suc idx) xs)) s) (\<lambda>s'. Inr (N, q\<lparr>tr_entries := es\<rparr>, s'))"
      using Cons.IH [OF q1(1) _ _ _ xs1 N] Cons.prems(2) idx q1 by auto
    have "Suc idx \<le> N" using reclaimable_range [of "\<lambda>j. dd (ring_at q1 j)" xs "Suc idx" "Suc idx"] N by linarith
    then have "packets (take (N - idx) (x # xs)) = x # packets (take (N - Suc idx) xs)"
      using fin by (simp add: packets_def take_Cons')
    moreover have "reclaim_loop env dd q1 (Suc idx) (Suc idx) =
        (\<lambda>s. bindE (done_all env (packets (take (N - Suc idx) xs)) s) (\<lambda>s'. Inr (N, q\<lparr>tr_entries := es\<rparr>, s')))" using es(3) by auto
    ultimately show ?thesis using es(1,2) step fin F1 \<open>Suc idx \<le> N\<close> idx len
      by (intro exI [of _ es]) (auto simp: q1_def [symmetric] bindE_assoc nth_list_update Suc_le_eq)
  qed
qed

text \<open>
  The result of \<open>tx_reclaim\<close>: \<open>nb\<close> descriptors at the head are free again.  All packets in them are finished, the last of them
  holds a packet, and the next packet on the ring is not finished.
\<close>

definition reclaim_extent :: "('d \<Rightarrow> bool) \<Rightarrow> 'd tx_ring \<Rightarrow> nat \<Rightarrow> bool" where
  "reclaim_extent dd q nb \<longleftrightarrow> nb \<le> flight_len q \<and> (0 < nb \<longrightarrow> flight q ! (nb - 1) \<noteq> NULL) \<and>
     (\<forall>j<nb. flight q ! j \<noteq> NULL \<longrightarrow> dd (ring_at q j)) \<and>
     (\<forall>j<flight_len q. nb \<le> j \<and> flight q ! j \<noteq> NULL \<and> (\<forall>i. nb \<le> i \<and> i < j \<longrightarrow> flight q ! i = NULL) \<longrightarrow> \<not> dd (ring_at q j))"

lemma unat_sub_of_nat:
  assumes "nb \<le> unat (d :: u16)"
  shows "unat (d - of_nat nb) = unat d - nb"
proof -
  have "unat d < 2 ^ 16" using unsigned_less [of d] by simp
  then have nb: "unat (of_nat nb :: u16) = nb" using assms by (simp add: unsigned_of_nat take_bit_nat_eq_self)
  then have "(of_nat nb :: u16) \<le> d" using assms by (simp add: word_le_nat_alt)
  then show ?thesis by (simp only: unat_sub nb)
qed

lemma free_descriptors:
  assumes "tx_wf k q"
  shows "unat (tr_len q + tr_head q - tr_tail q) = 2 ^ k - flight_len q"
proof -
  have k: "tr_len q = 2 ^ k" "k < 16" "flight_len q < 2 ^ k" using assms by (simp_all add: tx_wf_def)
  have "unat (of_nat (2 ^ k) :: u16) = 2 ^ k" using k(2) unfolding unsigned_of_nat by simp
  then have u: "unat (2 ^ k :: u16) = 2 ^ k" by simp
  have "unat (tr_len q - of_nat (flight_len q)) = 2 ^ k - flight_len q"
    using unat_sub_of_nat [of "flight_len q" "tr_len q"] k u by simp
  then show ?thesis by (simp add: flight_len_def algebra_simps)
qed

lemma tx_reclaim_correct:
  assumes "tx_wf k q"
  shows "\<exists>nb q'. reclaim_extent dd q nb \<and> tx_wf k q' \<and> flight q' = drop nb (flight q) \<and> q' = q\<lparr>tr_entries := tr_entries q', tr_head := tr_head q'\<rparr> \<and>
    (\<forall>s. tx_reclaim env dd q s = bindE (done_all env (packets (take nb (flight q))) s) (\<lambda>s'. Inr (of_nat (2 ^ k - flight_len q'), q', s')))"
proof -
  have sh: "ring_shape k q" by (rule tx_wf_shape [OF assms])
  have n: "flight_len q < 2 ^ k" using assms by (simp add: tx_wf_def)
  have len: "length (from_head q) = 2 ^ k" using sh by (simp add: ring_shape_def)
  then have fl: "length (flight q) = flight_len q" "\<And>j. j < flight_len q \<Longrightarrow> flight q ! j = from_head q ! j" using n by (simp_all add: flight_def)
  define N where "N = reclaimable (\<lambda>j. dd (ring_at q j)) (flight q) 0 0"
  obtain es where es: "length es = 2 ^ k"
    "\<forall>j<2 ^ k. from_head (q\<lparr>tr_entries := es\<rparr>) ! j = (if j < N then NULL else from_head q ! j)"
    "\<forall>s. reclaim_loop env dd q 0 0 s = bindE (done_all env (packets (take N (flight q))) s) (\<lambda>s'. Inr (N, q\<lparr>tr_entries := es\<rparr>, s'))"
    using reclaim_loop_entries [OF sh _ _ _ _ N_def, of env] n by (auto simp: flight_def)
  have range: "N = 0 \<or> 0 < N \<and> N \<le> flight_len q \<and> flight q ! (N - 1) \<noteq> NULL"
    using reclaimable_range [of "\<lambda>j. dd (ring_at q j)" "flight q" 0 0] fl(1) by (auto simp: N_def)
  have ext: "reclaim_extent dd q N"
    unfolding reclaim_extent_def
  proof (intro conjI allI impI)
    fix j assume "j < N" "flight q ! j \<noteq> NULL"
    then show "dd (ring_at q j)"
      using reclaimable_done [of j "flight q" 0 "\<lambda>j. dd (ring_at q j)" 0] range fl(1) by (simp add: N_def)
  next
    fix j assume "j < flight_len q" "N \<le> j \<and> flight q ! j \<noteq> NULL \<and> (\<forall>i. N \<le> i \<and> i < j \<longrightarrow> flight q ! i = NULL)"
    then show "\<not> dd (ring_at q j)"
      using reclaimable_blocked [of j "flight q" "\<lambda>j. dd (ring_at q j)" 0 0] fl(1) by (simp add: N_def)
  qed (use range in auto)
  define q' where "q' = q\<lparr>tr_entries := es, tr_head := tr_head q + of_nat N\<rparr>"
  have fn: "flight_len q' = flight_len q - N"
    using unat_sub_of_nat [of N "tr_tail q - tr_head q"] range by (auto simp: q'_def flight_len_def diff_diff_eq)
  have sh': "ring_shape k q'" using sh es(1) by (simp add: ring_shape_def q'_def)
  have F': "from_head q' ! j = (if j + N < 2 ^ k then from_head q ! (j + N) else NULL)" if "j < 2 ^ k" for j
  proof -
    have "tr_slot q (tr_head q + of_nat ((N + j) mod 2 ^ k)) = tr_slot q (tr_head q + of_nat N + of_nat j)"
      using sh unat_add_mod [of k "tr_head q" "(N + j) mod 2 ^ k"] unat_add_mod [of k "tr_head q" "N + j"]
      by (simp add: ring_shape_def ring_slot_mod mod_simps ac_simps)
    then have "from_head q' ! j = from_head (q\<lparr>tr_entries := es\<rparr>) ! ((N + j) mod 2 ^ k)"
      using that es(1) by (simp add: from_head_def q'_def)
    also have "\<dots> = (if (N + j) mod 2 ^ k < N then NULL else from_head q ! ((N + j) mod 2 ^ k))" using es(2) by simp
    also have "\<dots> = (if j + N < 2 ^ k then from_head q ! (j + N) else NULL)"
    proof (cases "j + N < 2 ^ k")
      case False
      have "N < 2 ^ k" using range n by linarith
      then have "(N + j) mod 2 ^ k = N + j - 2 ^ k" using False that by (simp add: mod_if)
      moreover have "N + j - 2 ^ k < N" using False that by linarith
      ultimately show ?thesis using False by simp
    qed (simp add: add.commute)
    finally show ?thesis .
  qed
  have F0: "from_head q ! j = NULL" if "flight_len q \<le> j" "j < 2 ^ k" for j
  proof -
    have "drop (flight_len q) (from_head q) ! (j - flight_len q) \<in> set (drop (flight_len q) (from_head q))"
      by (rule nth_mem) (use that len in simp)
    then have "from_head q ! j \<in> set (drop (flight_len q) (from_head q))" using that len by simp
    then show ?thesis using assms by (auto simp: tx_wf_def)
  qed
  have len': "length (from_head q') = 2 ^ k" using sh' by (simp add: ring_shape_def)
  have "flight q' = drop N (flight q)"
    by (rule nth_equalityI) (use len len' n fn F' range in \<open>auto simp: flight_def add.commute\<close>)
  moreover have "set (drop (flight_len q') (from_head q')) \<subseteq> {NULL}"
    using F' F0 fn len' n by (fastforce simp: in_set_conv_nth)
  then have wf': "tx_wf k q'" using sh' n fn by (simp add: tx_wf_def ring_shape_def)
  moreover have "tx_reclaim env dd q s = bindE (done_all env (packets (take N (flight q))) s) (\<lambda>s'. Inr (of_nat (2 ^ k - flight_len q'), q', s'))" for s
  proof -
    have "tr_len q' + tr_head q' - tr_tail q' = of_nat (2 ^ k - flight_len q')"
      using free_descriptors [OF wf'] by (metis of_nat_unat ucast_id)
    then show ?thesis using es(3) by (simp add: tx_reclaim_def bindE_assoc q'_def Let_def)
  qed
  ultimately show ?thesis using ext by (intro exI [of _ N] exI [of _ q']) (simp add: q'_def)
qed

section \<open>Putting a packet on the ring\<close>

lemma tail_slot: "tr_slot q (tr_tail q + of_nat j) = tr_slot q (tr_head q + of_nat (flight_len q + j))"
  by (simp add: flight_len_def algebra_simps)

lemma tx_append:
  assumes "tx_wf k q" "flight_len q + c + 1 < 2 ^ k" "length ring = 2 ^ k"
    and "q' = q\<lparr>tr_ring := ring, tr_entries := (tr_entries q)[tr_slot q (tr_tail q + of_nat c) := m], tr_tail := tr_tail q + of_nat (c + 1)\<rparr>"
  shows "tx_wf k q'" "flight q' = flight q @ replicate c NULL @ [m]" "flight_len q' = flight_len q + c + 1"
proof -
  have sh: "ring_shape k q" and n: "flight_len q < 2 ^ k" and k: "k < 16" using assms(1) by (simp_all add: tx_wf_def ring_shape_def)
  have len: "length (from_head q) = 2 ^ k" using sh by (simp add: ring_shape_def)
  have F: "from_head q' = (from_head q)[flight_len q + c := m]"
    using from_head_update [OF sh, of "flight_len q + c" m] assms(2) unfolding assms(4) tail_slot by (simp add: from_head_def)
  have "(2 :: nat) ^ k \<le> 2 ^ 15" using k by (intro power_increasing) simp_all
  then have "unat (of_nat (flight_len q + c + 1) :: u16) = flight_len q + c + 1"
    using assms(2) unfolding unsigned_of_nat by (simp add: take_bit_nat_eq_self)
  then show fn: "flight_len q' = flight_len q + c + 1" by (simp add: assms(4) flight_len_def algebra_simps)
  have F0: "from_head q ! j = NULL" if "flight_len q \<le> j" "j < 2 ^ k" for j
  proof -
    have "drop (flight_len q) (from_head q) ! (j - flight_len q) \<in> set (drop (flight_len q) (from_head q))"
      by (rule nth_mem) (use that len in simp)
    then have "from_head q ! j \<in> set (drop (flight_len q) (from_head q))" using that len by simp
    then show ?thesis using assms(1) by (auto simp: tx_wf_def)
  qed
  show "flight q' = flight q @ replicate c NULL @ [m]"
  proof (rule nth_equalityI)
    show "length (flight q') = length (flight q @ replicate c NULL @ [m])" using fn F len n assms(2) by (simp add: flight_def)
    fix j assume "j < length (flight q')"
    then have j: "j < flight_len q + c + 1" by (simp add: flight_def fn)
    then show "flight q' ! j = (flight q @ replicate c NULL @ [m]) ! j"
      using F F0 [of j] assms(2) len n by (auto simp: flight_def fn nth_append nth_list_update)
  qed
  have "set (drop (flight_len q') (from_head q')) \<subseteq> {NULL}"
    using F0 fn len F by (fastforce simp: in_set_conv_nth nth_list_update)
  then show "tx_wf k q'" using assms fn sh by (simp add: tx_wf_def ring_shape_def)
qed

lemma tail_slot_inj:
  assumes "ring_shape k q" "i < 2 ^ k" "j < 2 ^ k"
  shows "tr_slot q (tr_tail q + of_nat i) = tr_slot q (tr_tail q + of_nat j) \<longleftrightarrow> i = j"
  using ring_slot_inj [of "tr_len q" k i j "tr_tail q"] assms by (auto simp: ring_shape_def)

text \<open>Descriptors in flight are not touched when a packet is added.\<close>

lemma head_slot_kept:
  assumes "tx_wf k q" "flight_len q + c < 2 ^ k" "j < flight_len q"
    and "\<forall>j<2 ^ k. ring ! tr_slot q (tr_tail q + of_nat j) = (if j < c then ds ! j else tr_ring q ! tr_slot q (tr_tail q + of_nat j))"
  shows "ring ! tr_slot q (tr_head q + of_nat j) = ring_at q j"
proof -
  have k: "k < 16" and l: "tr_len q = 2 ^ k" using assms(1) by (simp_all add: tx_wf_def)
  define i where "i = 2 ^ k - flight_len q + j"
  have i: "i < 2 ^ k" "\<not> i < c" "flight_len q + i = 2 ^ k + j" using assms(1,2,3) by (simp_all add: i_def tx_wf_def)
  have "tr_slot q (tr_tail q + of_nat i) = tr_slot q (tr_head q + of_nat (2 ^ k + j))" by (simp only: tail_slot i(3))
  also have "\<dots> = tr_slot q (tr_head q + of_nat j)" unfolding ring_slot_mod [OF l k]
    using unat_add_mod [of k "tr_head q" "2 ^ k + j"] unat_add_mod [of k "tr_head q" j] k mod_add_self2 [of "unat (tr_head q) + j" "2 ^ k"]
    by (simp add: ac_simps)
  finally show ?thesis using assms(4) i by (auto simp: ring_at_def)
qed

lemma ring_full_iff:
  assumes "tx_wf k q" "c < 2 ^ k"
  shows "ring_full (of_nat c) q \<longleftrightarrow> 2 ^ k \<le> flight_len q + c"
proof -
  have k: "k < 16" and n: "flight_len q < 2 ^ k" and l: "tr_len q = 2 ^ k" using assms(1) by (simp_all add: tx_wf_def)
  have "(2 :: nat) ^ k \<le> 2 ^ 15" using k by (intro power_increasing) simp_all
  then have "unat (of_nat (flight_len q + c) :: u16) = flight_len q + c"
    using n assms(2) unfolding unsigned_of_nat by (simp add: take_bit_nat_eq_self)
  moreover have "tr_tail q + of_nat c - tr_head q = of_nat (flight_len q + c)" by (simp add: flight_len_def algebra_simps)
  moreover have "unat (2 ^ k :: u16) = 2 ^ k" using k by (rule unat_pow2)
  ultimately show ?thesis by (simp only: ring_full_def l word_le_nat_alt)
qed

lemma make_room_free:
  assumes "tx_wf k q" "flight_len q + n < 2 ^ k"
  shows "make_room env dd (of_nat n) (q, s) = Inr (False, q, s)"
  using ring_full_iff [of k q n] assms by (simp add: make_room_def)

lemma make_room_refused:
  assumes "tx_wf k q" "2 ^ k \<le> flight_len q + n" "n < 2 ^ k" "tx_reclaim env dd q s = Inr (r, q1, s1)" "2 ^ k \<le> flight_len q1 + n"
  shows "make_room env dd (of_nat n) (q, s) = Inr (True, q1, s1)"
proof -
  obtain nb q2 where w: "tx_wf k q2"
    "\<forall>s. tx_reclaim env dd q s = bindE (done_all env (packets (take nb (flight q))) s) (\<lambda>s'. Inr (of_nat (2 ^ k - flight_len q2), q2, s'))"
    using tx_reclaim_correct [OF assms(1), of dd env] by blast
  then have "tx_wf k q1" using assms(4) by (auto simp: bindE_eq_Inr)
  then show ?thesis using ring_full_iff [OF assms(1,3)] ring_full_iff [of k q1 n] assms by (simp add: make_room_def)
qed

lemma tx_ring_ok: "tx_wf k q \<Longrightarrow> tx_ring_ok q"
  by (simp add: tx_ring_ok_def tx_wf_def unat_pow2)

text \<open>No packet on the ring is finished.\<close>

definition unfinished :: "('d \<Rightarrow> bool) \<Rightarrow> 'd tx_ring \<Rightarrow> bool" where
  "unfinished dd q \<longleftrightarrow> (\<forall>j<flight_len q. flight q ! j \<noteq> NULL \<longrightarrow> \<not> dd (ring_at q j))"

text \<open>A packet whose last descriptor is not marked, added without a change to the descriptors of the others.\<close>

lemma unfinished_append:
  assumes "tx_wf k q" "flight_len q + c + 1 < 2 ^ k" "length ring = 2 ^ k"
    and "q' = q\<lparr>tr_ring := ring, tr_entries := (tr_entries q)[tr_slot q (tr_tail q + of_nat c) := m], tr_tail := tr_tail q + of_nat (c + 1)\<rparr>"
    and old: "\<And>j. j < flight_len q \<Longrightarrow> ring ! tr_slot q (tr_head q + of_nat j) = ring_at q j"
    and new: "\<not> dd (ring ! tr_slot q (tr_tail q + of_nat c))" and "unfinished dd q"
  shows "unfinished dd q'"
  unfolding unfinished_def
proof (intro allI impI)
  fix j
  assume j: "j < flight_len q'" "flight q' ! j \<noteq> NULL"
  note a = tx_append [OF assms(1,2,3,4)]
  have len: "length (flight q) = flight_len q" using assms(1) by (simp add: flight_def tx_wf_def)
  have r: "ring_at q' j = ring ! tr_slot q (tr_head q + of_nat j)" by (simp add: ring_at_def assms(4))
  consider "j < flight_len q" | "flight_len q \<le> j" "j < flight_len q + c" | "j = flight_len q + c" using j(1) a(3) by linarith
  then show "\<not> dd (ring_at q' j)"
  proof cases
    case 1
    then show ?thesis using j(2) assms(7) old r by (simp add: a(2) nth_append len unfinished_def)
  next
    case 2
    then have "j - flight_len q < c" by linarith
    then show ?thesis using 2 j(2) by (simp add: a(2) nth_append len)
  next
    case 3
    then show ?thesis using new r by (simp only: tail_slot simp_thms)
  qed
qed

lemma reclaim_unfinished:
  assumes "tx_wf k q" "unfinished dd q"
  shows "\<exists>q'. tx_wf k q' \<and> flight q' = flight q \<and> flight_len q' = flight_len q \<and> tx_reclaim env dd q s = Inr (of_nat (2 ^ k - flight_len q), q', s)"
proof -
  obtain nb q' where r: "reclaim_extent dd q nb" "tx_wf k q'" "flight q' = drop nb (flight q)"
    "\<forall>s. tx_reclaim env dd q s = bindE (done_all env (packets (take nb (flight q))) s) (\<lambda>s'. Inr (of_nat (2 ^ k - flight_len q'), q', s'))"
    using tx_reclaim_correct [OF assms(1), of dd env] by blast
  have "nb = 0"
  proof (rule ccontr)
    assume "nb \<noteq> 0"
    then have "nb - 1 < flight_len q" "flight q ! (nb - 1) \<noteq> NULL" "dd (ring_at q (nb - 1))" using r(1) by (auto simp: reclaim_extent_def)
    then show False using assms(2) by (simp add: unfinished_def)
  qed
  then have f: "flight q' = flight q" using r(3) by simp
  then have "length (flight q') = length (flight q)" by simp
  then have "flight_len q' = flight_len q" using assms(1) r(2) by (simp add: flight_def tx_wf_def)
  then show ?thesis using r f \<open>nb = 0\<close> by (intro exI [of _ q']) (simp add: packets_def)
qed

lemma tdt_frame [simp]:
  "flight_len (q\<lparr>tr_tdt := v\<rparr>) = flight_len q" "from_head (q\<lparr>tr_tdt := v\<rparr>) = from_head q"
  "flight (q\<lparr>tr_tdt := v\<rparr>) = flight q" "tx_wf k (q\<lparr>tr_tdt := v\<rparr>) = tx_wf k q"
proof -
  show n: "flight_len (q\<lparr>tr_tdt := v\<rparr>) = flight_len q" and f: "from_head (q\<lparr>tr_tdt := v\<rparr>) = from_head q"
    by (simp_all add: flight_len_def from_head_def)
  then show "flight (q\<lparr>tr_tdt := v\<rparr>) = flight q" "tx_wf k (q\<lparr>tr_tdt := v\<rparr>) = tx_wf k q" by (simp_all add: flight_def tx_wf_def)
qed

text \<open>The entries of packets that take \<open>need m\<close> descriptors each.\<close>

definition on_ring :: "(addr \<Rightarrow> nat) \<Rightarrow> addr list \<Rightarrow> addr list" where
  "on_ring need ms = concat (map (\<lambda>m. replicate (need m - 1) NULL @ [m]) ms)"

section \<open>Transmit drivers\<close>

text \<open>
  What a driver promises: a packet that is fit to be sent takes \<open>need s m\<close> descriptors and is put behind the others as long as one
  descriptor stays free; otherwise finished packets are reclaimed first, and if that does not make room, the packet is refused.
\<close>

locale tx_driver =
  fixes one :: "net_env \<Rightarrow> addr \<Rightarrow> 'd tx_ring \<times> net_state \<Rightarrow> (int \<times> 'd tx_ring \<times> net_state) res"
    and dd :: "'d \<Rightarrow> bool"
    and need :: "net_state \<Rightarrow> addr \<Rightarrow> nat"
    and fit :: "net_state \<Rightarrow> addr \<Rightarrow> bool"
  assumes need_pos: "0 < need s m"
    and one_room: "tx_wf k q \<Longrightarrow> fit s m \<Longrightarrow> flight_len q + need s m < 2 ^ k \<Longrightarrow>
      \<exists>q'. one env m (q, s) = Inr (0, q', s) \<and> tx_wf k q' \<and> flight q' = flight q @ replicate (need s m - 1) NULL @ [m] \<and>
        flight_len q' = flight_len q + need s m \<and> (unfinished dd q \<longrightarrow> unfinished dd q')"
    and one_full: "tx_wf k q \<Longrightarrow> fit s m \<Longrightarrow> 2 ^ k \<le> flight_len q + need s m \<Longrightarrow> need s m < 2 ^ k \<Longrightarrow>
      tx_reclaim env dd q s = Inr (r, q1, s1) \<Longrightarrow> 2 ^ k \<le> flight_len q1 + need s m \<Longrightarrow> one env m (q, s) = Inr (- EAGAIN, q1, s1)"
begin

lemma xmit_loop_room:
  assumes "tx_wf k q" "\<And>m. m \<in> set ms \<Longrightarrow> fit s m" "flight_len q + (\<Sum>m\<leftarrow>ms. need s m) < 2 ^ k"
  shows "\<exists>q'. xmit_loop (one env) ms nb (q, s) = Inr (nb + length ms, q', s) \<and> tx_wf k q' \<and> flight q' = flight q @ on_ring (need s) ms \<and>
    flight_len q' = flight_len q + (\<Sum>m\<leftarrow>ms. need s m) \<and> (unfinished dd q \<longrightarrow> unfinished dd q')"
  using assms
proof (induction ms arbitrary: q nb)
  case (Cons m ms)
  have "flight_len q + need s m < 2 ^ k" using Cons.prems(3) by simp
  then obtain q1 where q1: "one env m (q, s) = Inr (0, q1, s)" "tx_wf k q1" "flight q1 = flight q @ replicate (need s m - 1) NULL @ [m]"
    "flight_len q1 = flight_len q + need s m" "unfinished dd q \<longrightarrow> unfinished dd q1"
    using one_room [OF Cons.prems(1), of s m env] Cons.prems(2) by auto
  obtain q2 where "xmit_loop (one env) ms (nb + 1) (q1, s) = Inr (nb + 1 + length ms, q2, s)" "tx_wf k q2" "flight q2 = flight q1 @ on_ring (need s) ms"
    "flight_len q2 = flight_len q1 + (\<Sum>m\<leftarrow>ms. need s m)" "unfinished dd q1 \<longrightarrow> unfinished dd q2"
    using Cons.IH [OF q1(2), of "nb + 1"] Cons.prems(2,3) q1(4) by auto
  then show ?case using q1 by (intro exI [of _ q2]) (simp add: on_ring_def)
qed (auto simp: on_ring_def)

lemma xmit_loop_append:
  assumes "xmit_loop (one env) ms nb st = Inr (nb', st')" "nb' = nb + length ms"
  shows "xmit_loop (one env) (ms @ ms') nb st = xmit_loop (one env) ms' nb' st'"
  using assms
proof (induction ms arbitrary: nb st)
  case (Cons m ms)
  obtain ret st1 where o: "one env m st = Inr (ret, st1)" using Cons.prems(1) by (auto simp: bindE_eq_Inr)
  then show ?case using Cons by (auto split: if_splits)
qed simp

text \<open>Packets that leave a descriptor free are all accepted, in order; one that would take the last one is refused.\<close>

lemma xmit_room:
  assumes "tx_wf k q" "\<And>m. m \<in> set ms \<Longrightarrow> fit s m" "flight_len q + (\<Sum>m\<leftarrow>ms. need s m) < 2 ^ k"
  shows "\<exists>q'. tx_xmit (one env) ms (q, s) = Inr (int (length ms), q', s) \<and> tx_wf k q' \<and> flight q' = flight q @ on_ring (need s) ms"
proof -
  obtain q' where q': "xmit_loop (one env) ms 0 (q, s) = Inr (0 + length ms, q', s)" "tx_wf k q'" "flight q' = flight q @ on_ring (need s) ms"
    using xmit_loop_room [OF assms(1), of ms s env 0] assms(2,3) by blast
  define q2 where "q2 = (if length ms \<noteq> 0 then q'\<lparr>tr_tdt := of_nat (tr_slot q' (tr_tail q'))\<rparr> else q')"
  have "tx_wf k q2" "flight q2 = flight q'" using q'(2) by (simp_all add: q2_def)
  then show ?thesis using q' by (intro exI [of _ q2]) (simp add: tx_xmit_def q2_def)
qed

lemma xmit_exactly_full:
  assumes "tx_wf k q" "\<And>x. x \<in> set (ms @ [m]) \<Longrightarrow> fit s x" "flight_len q + (\<Sum>x\<leftarrow>ms @ [m]. need s x) = 2 ^ k" "need s m < 2 ^ k" "unfinished dd q"
  shows "\<exists>st. tx_xmit (one env) (ms @ [m]) (q, s) = Inr (int (length ms), st)"
proof -
  have "flight_len q + (\<Sum>m\<leftarrow>ms. need s m) < 2 ^ k" using assms(3) need_pos [of s m] by simp
  then obtain q1 where q1: "xmit_loop (one env) ms 0 (q, s) = Inr (0 + length ms, q1, s)" "tx_wf k q1"
    "flight_len q1 = flight_len q + (\<Sum>m\<leftarrow>ms. need s m)" "unfinished dd q1"
    using xmit_loop_room [OF assms(1), of ms s env 0] assms(2,5) by auto
  obtain q2 where q2: "flight_len q2 = flight_len q1" "tx_reclaim env dd q1 s = Inr (of_nat (2 ^ k - flight_len q1), q2, s)"
    using reclaim_unfinished [OF q1(2,4), of env s] by blast
  have "one env m (q1, s) = Inr (- EAGAIN, q2, s)"
    by (rule one_full [OF q1(2) _ _ assms(4) q2(2)]) (use assms(2,3) q1(3) q2(1) in auto)
  then have "xmit_loop (one env) (ms @ [m]) 0 (q, s) = Inr (length ms, q2, s)"
    using xmit_loop_append [OF q1(1), of "[m]"] by (simp add: EAGAIN_def)
  then show ?thesis by (simp add: tx_xmit_def)
qed

end

end
