(* ===== verification/Rx_Ring.thy ===== *)
theory Rx_Ring
  imports Ring
begin

text \<open>
  Receive rings: what \<open>ixgbe_rx_poll\<close> and \<open>i40e_rx_poll\<close> have in common.  A descriptor the device is done with has a packet in the
  buffer of its entry; the packet is handed to the receive queue and the descriptor gets a fresh buffer.
\<close>

section \<open>Operations\<close>

text \<open>
  \<open>struct rx_queue\<close>; \<open>rr_rdt\<close> is the tail register of the device and \<open>rr_erxq\<close> the software queue.  How a descriptor is read and refilled
  differs: \<open>rf_dd\<close>, is it done; \<open>rf_bad\<close>, was a checksum wrong; \<open>rf_len\<close>, the length; \<open>rf_rss\<close>, the hash, unless a filter of the device
  matched; \<open>rf_fill\<close>, the descriptor for a buffer at a machine address.
\<close>

record 'd rx_ring =
  rr_ring :: "'d list"
  rr_entries :: "addr list"
  rr_head :: u16
  rr_tail :: u16
  rr_len :: u16
  rr_rdt :: u32
  rr_erxq :: eth_rx_queue

record 'd rx_format =
  rf_dd :: "'d \<Rightarrow> bool"
  rf_bad :: "'d \<Rightarrow> bool"
  rf_len :: "'d \<Rightarrow> u64"
  rf_rss :: "'d \<Rightarrow> u32 option"
  rf_fill :: "u64 \<Rightarrow> 'd"

abbreviation rr_slot :: "'d rx_ring \<Rightarrow> u16 \<Rightarrow> nat" where
  "rr_slot q p \<equiv> ring_slot (rr_len q) p"

definition MBUF_INVALID_FG_ID :: u16 where "MBUF_INVALID_FG_ID = 0xFFFF"
definition RDT_THRESH :: u16 where "RDT_THRESH = 32"

text \<open>The flow group of a packet: \<open>fgs\<close> has the ids of the device's \<open>nb_rx_fgs\<close> flow groups.\<close>

definition rx_fg_id :: "u16 list \<Rightarrow> u32 option \<Rightarrow> u16 res" where
  "rx_fg_id fgs rss =
     (case rss of
        None \<Rightarrow> Inr MBUF_INVALID_FG_ID
      | Some h \<Rightarrow>
          let local_fg_id = unat (h AND (of_nat (length fgs) - 1))
          in if local_fg_id < length fgs then Inr (fgs ! local_fg_id) else Inl Out_of_bounds)"

text \<open>The end of a turn: the packet is queued, or its buffer is released.\<close>

definition rx_hand_over :: "bool \<Rightarrow> eth_rx_queue \<Rightarrow> addr \<Rightarrow> net_state \<Rightarrow> (eth_rx_queue \<times> net_state) res" where
  "rx_hand_over valid_checksum rx b s =
     (if \<not> valid_checksum then bindE (mbuf_free b s) (\<lambda>s1. Inr (rx, s1))
      else bindE (eth_recv rx (ns_store s) b) (\<lambda>(ret, rx1, ms).
           if ret \<noteq> 0 then bindE (mbuf_free b (s\<lparr>ns_store := ms\<rparr>)) (\<lambda>s1. Inr (rx1, s1)) else Inr (rx1, s\<lparr>ns_store := ms\<rparr>)))"

text \<open>One turn of the loop, at time \<open>t\<close>; the result tells whether a packet was taken from the ring.\<close>

definition rx_one :: "net_env \<Rightarrow> 'd rx_format \<Rightarrow> u16 list \<Rightarrow> u64 \<Rightarrow> 'd rx_ring \<times> net_state \<Rightarrow> (bool \<times> 'd rx_ring \<times> net_state) res" where
  "rx_one env f fgs t st =
     (case st of (q, s) \<Rightarrow>
      let i = rr_slot q (rr_head q); d = rr_ring q ! i; b = rr_entries q ! i
      in if length (rr_ring q) \<le> i \<or> length (rr_entries q) \<le> i then Inl Out_of_bounds
         else if \<not> rf_dd f d then Inr (False, q, s)
         else if b = NULL then Inl Null_deref
         else bindE (rx_fg_id fgs (rf_rss f d)) (\<lambda>fg.
              let s1 = upd_mbuf b (\<lambda>m. m\<lparr>mb_len := rf_len f d, mb_fg_id := fg, mb_timestamp := t\<rparr>) s
              in bindE (mbuf_alloc_local env s1) (\<lambda>(new_b, s2).
                 if new_b = NULL then Inr (False, q, s2)
                 else bindE (mbuf_get_data_machaddr new_b s2) (\<lambda>ma.
                      bindE (rx_hand_over (\<not> rf_bad f d) (rr_erxq q) b s2) (\<lambda>(rx, s3).
                      Inr (True, q\<lparr>rr_ring := (rr_ring q)[i := rf_fill f ma], rr_entries := (rr_entries q)[i := new_b],
                                   rr_head := rr_head q + 1, rr_erxq := rx\<rparr>, s3))))))"

text \<open>The loop; \<open>tsc n\<close> is the time read in turn \<open>n\<close>.\<close>

partial_function (option) rx_loop ::
  "net_env \<Rightarrow> 'd rx_format \<Rightarrow> u16 list \<Rightarrow> (nat \<Rightarrow> u64) \<Rightarrow> nat \<Rightarrow> 'd rx_ring \<times> net_state \<Rightarrow> (nat \<times> 'd rx_ring \<times> net_state) res option" where
  "rx_loop env f fgs tsc nb st =
     (case rx_one env f fgs (tsc nb) st of
        Inl e \<Rightarrow> Some (Inl e)
      | Inr (taken, st1) \<Rightarrow> if taken then rx_loop env f fgs tsc (nb + 1) st1 else Some (Inr (nb, st1)))"

declare rx_loop.simps [code]

definition rx_give_back :: "'d rx_ring \<Rightarrow> 'd rx_ring" where
  "rx_give_back q =
     (if rr_len q - (rr_tail q + 1 - rr_head q) \<ge> RDT_THRESH
      then let tail = rr_head q + rr_len q - 1 in q\<lparr>rr_tail := tail, rr_rdt := of_nat (rr_slot q tail)\<rparr>
      else q)"

definition rx_poll :: "net_env \<Rightarrow> 'd rx_format \<Rightarrow> u16 list \<Rightarrow> (nat \<Rightarrow> u64) \<Rightarrow> 'd rx_ring \<times> net_state \<Rightarrow> (int \<times> 'd rx_ring \<times> net_state) res option" where
  "rx_poll env f fgs tsc st =
     bindR (rx_loop env f fgs tsc 0 st) (\<lambda>(nb_descs, q, s). Some (Inr (int nb_descs, rx_give_back q, s)))"

definition rx_ready :: "'d rx_format \<Rightarrow> 'd rx_ring \<Rightarrow> bool" where
  "rx_ready f q = rf_dd f (rr_ring q ! rr_slot q (rr_head q))"

text \<open>
  Giving every descriptor a buffer when the device is started.  \<open>fill0\<close> is the first descriptor for a buffer.  The buffers are released
  again when there are not enough.
\<close>

primrec free_from :: "addr list \<Rightarrow> nat \<Rightarrow> net_state \<Rightarrow> net_state res" where
  "free_from ents 0 s = Inr s"
| "free_from ents (Suc i) s = (if length ents \<le> i then Inl Out_of_bounds else bindE (mbuf_free (ents ! i) s) (free_from ents i))"

primrec alloc_rx_loop :: "net_env \<Rightarrow> (u64 \<Rightarrow> 'd) \<Rightarrow> nat list \<Rightarrow> 'd rx_ring \<times> net_state \<Rightarrow> (int \<times> 'd rx_ring \<times> net_state) res" where
  "alloc_rx_loop env fill0 [] st = Inr (0, st)"
| "alloc_rx_loop env fill0 (i # is) st =
     (case st of (q, s) \<Rightarrow>
      bindE (mbuf_alloc_local env s) (\<lambda>(b, s1).
      if b = NULL then bindE (free_from (rr_entries q) i s1) (\<lambda>s2. Inr (- ENOMEM, q, s2))
      else bindE (mbuf_get_data_machaddr b s1) (\<lambda>ma.
           if length (rr_ring q) \<le> i \<or> length (rr_entries q) \<le> i then Inl Out_of_bounds
           else alloc_rx_loop env fill0 is (q\<lparr>rr_ring := (rr_ring q)[i := fill0 ma], rr_entries := (rr_entries q)[i := b]\<rparr>, s1))))"

definition alloc_rx_mbufs :: "net_env \<Rightarrow> (u64 \<Rightarrow> 'd) \<Rightarrow> 'd rx_ring \<times> net_state \<Rightarrow> (int \<times> 'd rx_ring \<times> net_state) res" where
  "alloc_rx_mbufs env fill0 st = alloc_rx_loop env fill0 [0..<unat (rr_len (fst st))] st"

section \<open>What is received\<close>

definition rx_inv :: "nat \<Rightarrow> 'd rx_ring \<Rightarrow> net_state \<Rightarrow> addr set \<Rightarrow> addr set \<Rightarrow> addr list \<Rightarrow> bool" where
  "rx_inv k q s F L W \<longleftrightarrow> k < 16 \<and> rr_len q = 2 ^ k \<and> length (rr_ring q) = 2 ^ k \<and> length (rr_entries q) = 2 ^ k \<and> distinct (rr_entries q) \<and>
     set (rr_entries q) \<subseteq> L \<and> mempool_ok (ns_heap s) (ns_mbufs s) F L \<and> rxq_rep (rr_erxq q) (ns_store s) W \<and> set W \<subseteq> L \<and>
     set W \<inter> set (rr_entries q) = {}"

text \<open>Two buffers agree but for the link to the next one.\<close>

definition same_packet :: "mbuf \<Rightarrow> mbuf \<Rightarrow> bool" where
  "same_packet b b' \<longleftrightarrow> b\<lparr>mb_next := NULL\<rparr> = b'\<lparr>mb_next := NULL\<rparr>"

lemma same_packet_refl [simp]: "same_packet b b"
  by (simp add: same_packet_def)

lemma same_packet_trans: "same_packet a b \<Longrightarrow> same_packet b c \<Longrightarrow> same_packet a c"
  by (simp add: same_packet_def)

lemma same_packet_fields:
  assumes "same_packet b b'"
  shows "mb_len b = mb_len b'" "mb_fg_id b = mb_fg_id b'" "mb_timestamp b = mb_timestamp b'" "mb_data b = mb_data b'"
  using assms by (simp_all add: same_packet_def) (metis mbuf.select_convs mbuf.surjective mbuf.update_convs)+

definition rx_accepts :: "'d rx_format \<Rightarrow> addr list \<Rightarrow> 'd \<Rightarrow> bool" where
  "rx_accepts f W d \<longleftrightarrow> \<not> rf_bad f d \<and> int (length W) < ETH_RX_MAX_DEPTH"

lemma mbuf_free_live:
  assumes "mempool_ok (ns_heap s) (ns_mbufs s) F L" "b \<in> L"
  shows "\<exists>s'. mbuf_free b s = Inr s' \<and> mempool_ok (ns_heap s') (ns_mbufs s') (insert b F) (L - {b}) \<and> ns_store s' = ns_store s \<and> ns_mm s' = ns_mm s"
  using mp.free_live [OF assms] by (auto simp: mbuf_free_def set_heap_def)

lemma hand_over:
  assumes "mempool_ok (ns_heap s) (ns_mbufs s) F L" "b \<in> L" "rxq_rep rx (ns_store s) W" "b \<notin> set W"
  shows "\<exists>rx' s'. rx_hand_over v rx b s = Inr (rx', s') \<and> ns_mm s' = ns_mm s \<and> (\<forall>p. same_packet (ns_store s' p) (ns_store s p)) \<and>
    (if v \<and> int (length W) < ETH_RX_MAX_DEPTH
     then rxq_rep rx' (ns_store s') (W @ [b]) \<and> mempool_ok (ns_heap s') (ns_mbufs s') F L
     else rxq_rep rx' (ns_store s') W \<and> mempool_ok (ns_heap s') (ns_mbufs s') (insert b F) (L - {b}))"
proof (cases "v \<and> int (length W) < ETH_RX_MAX_DEPTH")
  case True
  have "b \<noteq> NULL" using mp.ok_sets [OF assms(1)] assms(2) by auto
  moreover have "rq_len rx < ETH_RX_MAX_DEPTH" using True assms(3) by (simp add: rxq_rep_def)
  ultimately obtain rx' ms' where r: "eth_recv rx (ns_store s) b = Inr (0, rx', ms')" "rxq_rep rx' ms' (W @ [b])"
    "\<forall>p. (ms' p)\<lparr>mb_next := NULL\<rparr> = (ns_store s p)\<lparr>mb_next := NULL\<rparr>"
    using eth_recv_room [OF assms(3,4)] by blast
  then show ?thesis using True assms(1) by (simp add: rx_hand_over_def same_packet_def)
next
  case False
  obtain s' where f: "mbuf_free b s = Inr s'" "mempool_ok (ns_heap s') (ns_mbufs s') (insert b F) (L - {b})" "ns_store s' = ns_store s" "ns_mm s' = ns_mm s"
    using mbuf_free_live [OF assms(1,2)] by blast
  have "rx_hand_over v rx b s = Inr (rx, s')"
  proof (cases v)
    case True
    then have "ETH_RX_MAX_DEPTH \<le> rq_len rx" using False assms(3) by (simp add: rxq_rep_def)
    then show ?thesis using True f(1) by (simp add: rx_hand_over_def eth_recv_full EBUSY_def)
  qed (simp add: rx_hand_over_def f(1))
  then show ?thesis using False f assms(3) by auto
qed

lemma rxq_rep_cong:
  assumes "\<And>p. p \<in> set W \<Longrightarrow> mb_next (ms' p) = mb_next (ms p)"
  shows "rxq_rep rx ms' W = rxq_rep rx ms W"
  using chain_cong [of W "mlinks ms'" 0 "mlinks ms" "rq_head rx"] assms by (simp add: rxq_rep_def mlinks_def)

text \<open>The buffers a driver may meet are in mapped pages, and a descriptor refilled with one is not taken for a finished one.\<close>

definition rx_refills :: "'d rx_format \<Rightarrow> mm \<Rightarrow> addr set \<Rightarrow> bool" where
  "rx_refills f mm U \<longleftrightarrow> (\<forall>p\<in>U. \<exists>ma. page_machaddr (mbuf_addr p 0) mm = Inr ma \<and> \<not> rf_dd f (rf_fill f ma))"

text \<open>The packet in \<open>b\<close> is the one that descriptor \<open>d\<close> announced at time \<open>t\<close>.\<close>

definition announced :: "'d rx_format \<Rightarrow> u16 list \<Rightarrow> 'd \<Rightarrow> u64 \<Rightarrow> mbuf \<Rightarrow> bool" where
  "announced f fgs d t b \<longleftrightarrow> mb_len b = rf_len f d \<and> rx_fg_id fgs (rf_rss f d) = Inr (mb_fg_id b) \<and> mb_timestamp b = t"

lemma announced_same: "same_packet b b' \<Longrightarrow> announced f fgs d t b = announced f fgs d t b'"
  using same_packet_fields [of b b'] by (simp add: announced_def)

lemma rx_alloc:
  assumes inv: "rx_inv k q s F L W" and b: "b \<in> set (rr_entries q)" and F: "F \<noteq> {}"
    and s1: "s1 = upd_mbuf b (\<lambda>m. m\<lparr>mb_len := l, mb_fg_id := g, mb_timestamp := t\<rparr>) s"
  shows "\<exists>new s2. mbuf_alloc_local env s1 = Inr (new, s2) \<and> new \<in> F \<and> new \<noteq> NULL \<and> mempool_ok (ns_heap s2) (ns_mbufs s2) (F - {new}) (insert new L) \<and>
    ns_mm s2 = ns_mm s \<and> rxq_rep (rr_erxq q) (ns_store s2) W \<and> (\<forall>p\<in>L - {b}. ns_store s2 p = ns_store s p) \<and>
    ns_store s2 b = (ns_store s b)\<lparr>mb_len := l, mb_fg_id := g, mb_timestamp := t\<rparr>"
proof -
  have ok: "mempool_ok (ns_heap s1) (ns_mbufs s1) F L" using inv by (simp add: rx_inv_def s1 upd_mbuf_def)
  obtain new p nb where a: "mbuf_alloc_local env s1 = Inr (new, s1\<lparr>ns_mbufs := p, ns_store := (ns_store s1)(new := nb)\<rparr>)" "new \<in> F" "new \<noteq> NULL"
    "mempool_ok (ns_heap s1) p (F - {new}) (insert new L)"
    using mbuf_alloc_local_ok [OF ok F] by blast
  have d: "x \<in> L \<Longrightarrow> x \<noteq> new" for x using mp.ok_sets [OF ok] a(2) by auto
  have bL: "b \<in> L" and WL: "set W \<subseteq> L" using inv b by (auto simp: rx_inv_def)
  let ?s2 = "s1\<lparr>ns_mbufs := p, ns_store := (ns_store s1)(new := nb)\<rparr>"
  have "rxq_rep (rr_erxq q) (ns_store ?s2) W = rxq_rep (rr_erxq q) (ns_store s) W"
    by (rule rxq_rep_cong) (use WL d in \<open>auto simp: s1 upd_mbuf_def\<close>)
  then have "rxq_rep (rr_erxq q) (ns_store ?s2) W" using inv by (simp add: rx_inv_def)
  then show ?thesis using a d bL by (intro exI [of _ new] exI [of _ ?s2]) (auto simp: s1 upd_mbuf_def)
qed

lemma rx_one_step:
  assumes inv: "rx_inv k q s F L W" and i: "i = rr_slot q (rr_head q)" and dd: "rf_dd f (rr_ring q ! i)"
    and fg: "rx_fg_id fgs (rf_rss f (rr_ring q ! i)) = Inr g" and F: "F \<noteq> {}" and U: "rx_refills f (ns_mm s) (F \<union> L)"
    and b: "b = rr_entries q ! i" and W': "W' = (if rx_accepts f W (rr_ring q ! i) then W @ [b] else W)"
  shows "\<exists>new ma rx s' F' L'. rx_one env f fgs t (q, s) =
      Inr (True, q\<lparr>rr_ring := (rr_ring q)[i := rf_fill f ma], rr_entries := (rr_entries q)[i := new], rr_head := rr_head q + 1, rr_erxq := rx\<rparr>, s') \<and>
    rx_inv k (q\<lparr>rr_ring := (rr_ring q)[i := rf_fill f ma], rr_entries := (rr_entries q)[i := new], rr_head := rr_head q + 1, rr_erxq := rx\<rparr>) s' F' L' W' \<and>
    page_machaddr (mbuf_addr new 0) (ns_mm s) = Inr ma \<and> b \<notin> set ((rr_entries q)[i := new]) \<and> ns_mm s' = ns_mm s \<and> F' \<union> L' = F \<union> L \<and> (finite F \<longrightarrow> finite F' \<and> card F \<le> card F' + 1) \<and>
    (\<forall>p\<in>L - {b}. same_packet (ns_store s' p) (ns_store s p)) \<and> announced f fgs (rr_ring q ! i) t (ns_store s' b)"
proof -
  let ?d = "rr_ring q ! i"
  have k: "k < 16" "rr_len q = 2 ^ k" "length (rr_ring q) = 2 ^ k" "length (rr_entries q) = 2 ^ k" using inv by (simp_all add: rx_inv_def)
  have ib: "i < 2 ^ k" unfolding i ring_slot_mod [OF k(2,1)] by simp
  have be: "b \<in> set (rr_entries q)" unfolding b using ib k(4) by simp
  have ok: "mempool_ok (ns_heap s) (ns_mbufs s) F L" and bL: "b \<in> L" and bW: "b \<notin> set W" using inv be by (auto simp: rx_inv_def)
  have bn: "b \<noteq> NULL" using mp.ok_sets [OF ok] bL by auto
  obtain new s2 where a: "mbuf_alloc_local env (upd_mbuf b (\<lambda>m. m\<lparr>mb_len := rf_len f ?d, mb_fg_id := g, mb_timestamp := t\<rparr>) s) = Inr (new, s2)"
    "new \<in> F" "new \<noteq> NULL" "mempool_ok (ns_heap s2) (ns_mbufs s2) (F - {new}) (insert new L)" "ns_mm s2 = ns_mm s"
    "rxq_rep (rr_erxq q) (ns_store s2) W" "\<forall>p\<in>L - {b}. ns_store s2 p = ns_store s p"
    "ns_store s2 b = (ns_store s b)\<lparr>mb_len := rf_len f ?d, mb_fg_id := g, mb_timestamp := t\<rparr>"
    using rx_alloc [OF inv be F refl, of env t g "rf_len f ?d"] by blast
  obtain ma where ma: "mbuf_get_data_machaddr new s2 = Inr ma" "\<not> rf_dd f (rf_fill f ma)" "page_machaddr (mbuf_addr new 0) (ns_mm s) = Inr ma"
    using U a(2,5) by (auto simp: rx_refills_def mbuf_get_data_machaddr_def)
  obtain rx s' where h: "rx_hand_over (\<not> rf_bad f ?d) (rr_erxq q) b s2 = Inr (rx, s')" "ns_mm s' = ns_mm s2"
    "\<forall>p. same_packet (ns_store s' p) (ns_store s2 p)"
    "if \<not> rf_bad f ?d \<and> int (length W) < ETH_RX_MAX_DEPTH
     then rxq_rep rx (ns_store s') (W @ [b]) \<and> mempool_ok (ns_heap s') (ns_mbufs s') (F - {new}) (insert new L)
     else rxq_rep rx (ns_store s') W \<and> mempool_ok (ns_heap s') (ns_mbufs s') (insert b (F - {new})) (insert new L - {b})"
    using hand_over [OF a(4) _ a(6) bW, of "\<not> rf_bad f ?d"] bL by auto
  let ?q = "q\<lparr>rr_ring := (rr_ring q)[i := rf_fill f ma], rr_entries := (rr_entries q)[i := new], rr_head := rr_head q + 1, rr_erxq := rx\<rparr>"
  define F' where "F' = (if rx_accepts f W ?d then F - {new} else insert b (F - {new}))"
  define L' where "L' = (if rx_accepts f W ?d then insert new L else insert new L - {b})"
  have one: "rx_one env f fgs t (q, s) = Inr (True, ?q, s')"
    using dd fg bn a(1,3) ma(1) h(1) ib k(3,4) unfolding rx_one_def prod.case Let_def i [symmetric] b [symmetric] by simp
  have FL: "F \<inter> L = {}" using mp.ok_sets [OF ok] by blast
  have nb: "new \<noteq> b" "new \<notin> L" "b \<notin> F" using FL a(2) bL by auto
  have un: "F' \<union> L' = F \<union> L" using a(2) bL nb by (auto simp: F'_def L'_def)
  have fin: "finite F \<longrightarrow> finite F' \<and> card F \<le> card F' + 1" using a(2) nb by (auto simp: F'_def card_Diff_singleton)
  have ents: "distinct (rr_entries q)" "set (rr_entries q) \<subseteq> L" "set W \<subseteq> L" "set W \<inter> set (rr_entries q) = {}" using inv by (simp_all add: rx_inv_def)
  have up: "set ((rr_entries q)[i := new]) = insert new (set (rr_entries q) - {b})"
    unfolding b by (rule set_update_distinct) (use ents ib k in simp_all)
  have di: "distinct ((rr_entries q)[i := new])" by (rule distinct_list_update) (use ents nb in auto)
  have inv': "rx_inv k ?q s' F' L' W'"
    using h(4) di up ents nb bL bW k by (auto simp: rx_inv_def F'_def L'_def W' rx_accepts_def split: if_splits)
  have "same_packet (ns_store s' p) (ns_store s p)" if "p \<in> L - {b}" for p using h(3) a(7) that by metis
  moreover have "announced f fgs ?d t (ns_store s' b)" using announced_same [OF h(3) [rule_format, of b], of f fgs ?d t] fg a(8) by (simp add: announced_def)
  moreover have "b \<notin> set ((rr_entries q)[i := new])" using up nb by simp
  ultimately show ?thesis using one inv' un fin h(2) a(5) ma(3)
    by (intro exI [of _ new] exI [of _ ma] exI [of _ rx] exI [of _ s'] exI [of _ F'] exI [of _ L']) simp
qed

text \<open>The next \<open>n\<close> descriptors with their buffers, and the queue after they were received.\<close>

definition rx_items :: "'d rx_ring \<Rightarrow> nat \<Rightarrow> ('d \<times> addr) list" where
  "rx_items q n = map (\<lambda>j. (rr_ring q ! rr_slot q (rr_head q + of_nat j), rr_entries q ! rr_slot q (rr_head q + of_nat j))) [0..<n]"

primrec rx_queue_after :: "'d rx_format \<Rightarrow> addr list \<Rightarrow> ('d \<times> addr) list \<Rightarrow> addr list" where
  "rx_queue_after f W [] = W"
| "rx_queue_after f W (x # xs) = rx_queue_after f (if rx_accepts f W (fst x) then W @ [snd x] else W) xs"

lemma rx_queue_after_set: "set (rx_queue_after f W xs) \<subseteq> set W \<union> snd ` set xs"
proof (induction xs arbitrary: W)
  case (Cons x xs)
  have "set (if rx_accepts f W (fst x) then W @ [snd x] else W) \<subseteq> insert (snd x) (set W)" by auto
  then show ?case using Cons.IH [of "if rx_accepts f W (fst x) then W @ [snd x] else W"] by (auto simp only: rx_queue_after.simps list.set image_insert)
qed simp

text \<open>Without the recursion: the buffers with good checksums, as many as there is room for.\<close>

lemma rx_queue_after_take:
  "rx_queue_after f W xs = W @ take (nat ETH_RX_MAX_DEPTH - length W) (map snd (filter (\<lambda>x. \<not> rf_bad f (fst x)) xs))"
proof (induction xs arbitrary: W)
  case (Cons x xs)
  have "nat ETH_RX_MAX_DEPTH - length W = Suc (nat ETH_RX_MAX_DEPTH - length (W @ [y]))" if "int (length W) < ETH_RX_MAX_DEPTH" for y using that by simp
  then show ?case using Cons.IH by (auto simp: rx_accepts_def)
qed simp

definition rx_done :: "'d rx_format \<Rightarrow> 'd rx_ring \<Rightarrow> nat \<Rightarrow> bool" where
  "rx_done f q n \<longleftrightarrow> (\<forall>x\<in>set (rx_items q n). rf_dd f (fst x)) \<and> \<not> rf_dd f (rr_ring q ! rr_slot q (rr_head q + of_nat n))"

lemma rx_items_Cons: "rx_items q (Suc n) =
    (rr_ring q ! rr_slot q (rr_head q), rr_entries q ! rr_slot q (rr_head q)) #
    map (\<lambda>j. (rr_ring q ! rr_slot q (rr_head q + 1 + of_nat j), rr_entries q ! rr_slot q (rr_head q + 1 + of_nat j))) [0..<n]"
  unfolding rx_items_def map_upt_Suc by (simp add: add.assoc)

lemma rx_refill_items:
  assumes "rr_len q = 2 ^ k" "k < 16" "Suc n < 2 ^ k" "i = rr_slot q (rr_head q)"
    and "q' = q\<lparr>rr_ring := (rr_ring q)[i := d], rr_entries := (rr_entries q)[i := b], rr_head := rr_head q + 1, rr_erxq := rx\<rparr>"
  shows "rx_items q (Suc n) = (rr_ring q ! i, rr_entries q ! i) # rx_items q' n"
    and "rr_ring q' ! rr_slot q' (rr_head q' + of_nat n) = rr_ring q ! rr_slot q (rr_head q + of_nat (Suc n))"
proof -
  have ne: "rr_slot q (rr_head q + 1 + of_nat j) \<noteq> i" if "j \<le> n" for j
  proof
    assume e: "rr_slot q (rr_head q + 1 + of_nat j) = i"
    have "rr_head q + 1 + of_nat j = rr_head q + of_nat (Suc j)" "rr_head q = rr_head q + of_nat 0" by simp_all
    then have "rr_slot q (rr_head q + of_nat (Suc j)) = rr_slot q (rr_head q + of_nat 0)" using e assms(4) by metis
    then have "Suc j = 0" using ring_slot_inj [OF assms(1,2), of "Suc j" 0 "rr_head q"] that assms(3) by simp
    then show False by simp
  qed
  show "rx_items q (Suc n) = (rr_ring q ! i, rr_entries q ! i) # rx_items q' n"
    unfolding rx_items_Cons assms(4) [symmetric] using ne [THEN not_sym] by (auto simp: rx_items_def assms(5))
  show "rr_ring q' ! rr_slot q' (rr_head q' + of_nat n) = rr_ring q ! rr_slot q (rr_head q + of_nat (Suc n))"
    using ne [THEN not_sym, of n] by (simp add: assms(5) add.assoc)
qed

text \<open>
  The ring \<open>q'\<close> after the next \<open>n\<close> descriptors of \<open>q\<close> were refilled: each of them has the machine address of the buffer in its entry, and the others are as before.
\<close>

definition rx_refilled :: "'d rx_format \<Rightarrow> mm \<Rightarrow> 'd rx_ring \<Rightarrow> nat \<Rightarrow> 'd rx_ring \<Rightarrow> bool" where
  "rx_refilled f mm q n q' \<longleftrightarrow>
     (\<forall>j<n. \<exists>ma. page_machaddr (mbuf_addr (rr_entries q' ! rr_slot q (rr_head q + of_nat j)) 0) mm = Inr ma \<and>
        rr_ring q' ! rr_slot q (rr_head q + of_nat j) = rf_fill f ma) \<and>
     (\<forall>i. (\<forall>j<n. i \<noteq> rr_slot q (rr_head q + of_nat j)) \<longrightarrow> rr_ring q' ! i = rr_ring q ! i \<and> rr_entries q' ! i = rr_entries q ! i)"

lemma rx_refilled_Suc:
  assumes "rr_len q = 2 ^ k" "k < 16" "Suc n < 2 ^ k" "i = rr_slot q (rr_head q)" "i < length (rr_ring q)" "i < length (rr_entries q)"
    and q1: "q1 = q\<lparr>rr_ring := (rr_ring q)[i := rf_fill f ma], rr_entries := (rr_entries q)[i := b], rr_head := rr_head q + 1, rr_erxq := rx\<rparr>"
    and ma: "page_machaddr (mbuf_addr b 0) mm = Inr ma" and r: "rx_refilled f mm q1 n q'"
  shows "rx_refilled f mm q (Suc n) q'"
proof -
  have sl: "rr_slot q1 (rr_head q1 + of_nat j) = rr_slot q (rr_head q + of_nat (Suc j))" for j by (simp add: q1 add.assoc)
  have ne: "i \<noteq> rr_slot q (rr_head q + of_nat (Suc j))" if "j < n" for j
    using ring_slot_inj [OF assms(1,2), of 0 "Suc j" "rr_head q"] that assms(3,4) by auto
  have new: "rr_ring q' ! i = rf_fill f ma" "rr_entries q' ! i = b"
    using r ne assms(5,6) unfolding rx_refilled_def sl by (simp_all add: q1)
  have each: "\<exists>ma. page_machaddr (mbuf_addr (rr_entries q' ! rr_slot q (rr_head q + of_nat j)) 0) mm = Inr ma \<and>
      rr_ring q' ! rr_slot q (rr_head q + of_nat j) = rf_fill f ma" if j: "j < Suc n" for j
  proof (cases j)
    case 0
    then show ?thesis using new ma assms(4) by simp
  next
    case (Suc j')
    then show ?thesis using r j unfolding rx_refilled_def sl by simp
  qed
  have "rr_ring q' ! p = rr_ring q ! p \<and> rr_entries q' ! p = rr_entries q ! p" if p: "\<forall>j<Suc n. p \<noteq> rr_slot q (rr_head q + of_nat j)" for p
  proof -
    have "p \<noteq> i" using p assms(4) by (auto dest: spec [of _ 0])
    moreover have "rr_ring q' ! p = rr_ring q1 ! p \<and> rr_entries q' ! p = rr_entries q1 ! p"
    proof -
      have "p \<noteq> rr_slot q1 (rr_head q1 + of_nat j)" if "j < n" for j using p that unfolding sl by blast
      then show ?thesis using r unfolding rx_refilled_def by blast
    qed
    ultimately show ?thesis by (simp add: q1)
  qed
  then show ?thesis using each by (simp add: rx_refilled_def)
qed

lemma rx_items_entries:
  assumes "rx_inv k q s F L W"
  shows "snd ` set (rx_items q n) \<subseteq> set (rr_entries q)"
proof -
  have k: "k < 16" "rr_len q = 2 ^ k" and l: "length (rr_entries q) = 2 ^ k" using assms by (simp_all add: rx_inv_def)
  have "rr_slot q p < length (rr_entries q)" for p unfolding ring_slot_mod [OF k(2,1)] l by simp
  then show ?thesis by (auto simp: rx_items_def)
qed

lemma rx_one_idle:
  assumes "rx_inv k q s F L W" "\<not> rf_dd f (rr_ring q ! rr_slot q (rr_head q))"
  shows "rx_one env f fgs t (q, s) = Inr (False, q, s)"
proof -
  have k: "k < 16" "rr_len q = 2 ^ k" and l: "length (rr_ring q) = 2 ^ k" "length (rr_entries q) = 2 ^ k" using assms(1) by (simp_all add: rx_inv_def)
  have "rr_slot q (rr_head q) < 2 ^ k" unfolding ring_slot_mod [OF k(2,1)] by simp
  then show ?thesis using assms(2) l by (simp add: rx_one_def Let_def)
qed

lemma rx_fg_id_total:
  assumes "length fgs = 2 ^ e" "e < 16"
  shows "\<exists>g. rx_fg_id fgs r = Inr g"
proof (cases r)
  case (Some h)
  have "of_nat (length fgs) - 1 = (mask e :: u32)" using assms(1) by (simp add: mask_eq_exp_minus_1)
  then have "unat (h AND (of_nat (length fgs) - 1)) = unat (take_bit e h)" by (simp add: take_bit_eq_mask)
  also have "\<dots> < 2 ^ e" by (simp only: unsigned_take_bit_eq take_bit_nat_less_exp)
  finally show ?thesis using Some assms(1) by (simp add: rx_fg_id_def Let_def)
qed (simp add: rx_fg_id_def)

lemma rx_loop_receives:
  assumes "rx_inv k q s F L W" "rx_done f q n" "n < 2 ^ k" "finite F" "n \<le> card F" "rx_refills f (ns_mm s) (F \<union> L)" "length fgs = 2 ^ e" "e < 16"
  shows "\<exists>q' s' F' L'. rx_loop env f fgs tsc nb (q, s) = Some (Inr (nb + n, q', s')) \<and> rx_inv k q' s' F' L' (rx_queue_after f W (rx_items q n)) \<and>
    rr_head q' = rr_head q + of_nat n \<and> rr_tail q' = rr_tail q \<and> rr_rdt q' = rr_rdt q \<and> rx_done f q' 0 \<and> F' \<union> L' = F \<union> L \<and> ns_mm s' = ns_mm s \<and>
    rx_refilled f (ns_mm s) q n q' \<and> (\<forall>p\<in>set W. same_packet (ns_store s' p) (ns_store s p)) \<and>
    (\<forall>j<n. snd (rx_items q n ! j) \<in> set (rx_queue_after f W (rx_items q n)) \<longrightarrow>
       announced f fgs (fst (rx_items q n ! j)) (tsc (nb + j)) (ns_store s' (snd (rx_items q n ! j))))"
  using assms
proof (induction n arbitrary: q s F L W nb)
  case 0
  have "\<not> rf_dd f (rr_ring q ! rr_slot q (rr_head q))" using 0(2) by (simp add: rx_done_def)
  from rx_one_idle [OF 0(1) this] show ?case
    using 0(1,2) by (intro exI [of _ q] exI [of _ s] exI [of _ F] exI [of _ L]) (subst rx_loop.simps, simp add: rx_items_def rx_refilled_def)
next
  case (Suc n)
  define i where "i = rr_slot q (rr_head q)"
  define d where "d = rr_ring q ! i"
  define b where "b = rr_entries q ! i"
  define W1 where "W1 = (if rx_accepts f W d then W @ [b] else W)"
  have k: "k < 16" "rr_len q = 2 ^ k" using Suc.prems(1) by (simp_all add: rx_inv_def)
  have dd: "rf_dd f d" using Suc.prems(2) by (simp add: rx_done_def rx_items_Cons d_def i_def)
  obtain g where g: "rx_fg_id fgs (rf_rss f d) = Inr g" using rx_fg_id_total [OF Suc.prems(7,8)] by blast
  have F: "F \<noteq> {}" using Suc.prems(5) by auto
  obtain new ma rx s1 F1 L1 q1 where q1: "q1 = q\<lparr>rr_ring := (rr_ring q)[i := rf_fill f ma], rr_entries := (rr_entries q)[i := new], rr_head := rr_head q + 1, rr_erxq := rx\<rparr>"
    and r: "rx_one env f fgs (tsc nb) (q, s) = Inr (True, q1, s1)" "rx_inv k q1 s1 F1 L1 W1" "b \<notin> set ((rr_entries q)[i := new])" "ns_mm s1 = ns_mm s" "F1 \<union> L1 = F \<union> L"
      "finite F \<longrightarrow> finite F1 \<and> card F \<le> card F1 + 1" "\<forall>p\<in>L - {b}. same_packet (ns_store s1 p) (ns_store s p)" "announced f fgs d (tsc nb) (ns_store s1 b)"
      "page_machaddr (mbuf_addr new 0) (ns_mm s) = Inr ma"
    using rx_one_step [OF Suc.prems(1) i_def dd [unfolded d_def] g [unfolded d_def] F Suc.prems(6) b_def W1_def [unfolded d_def], of env "tsc nb"]
    unfolding d_def by blast
  note it = rx_refill_items [OF k(2,1) Suc.prems(3) i_def q1, folded d_def b_def]
  have done1: "rx_done f q1 n" using Suc.prems(2) unfolding rx_done_def it by auto
  obtain q' s' F' L' where h: "rx_loop env f fgs tsc (nb + 1) (q1, s1) = Some (Inr (nb + 1 + n, q', s'))"
    "rx_inv k q' s' F' L' (rx_queue_after f W1 (rx_items q1 n))" "rr_head q' = rr_head q1 + of_nat n" "rr_tail q' = rr_tail q1" "rr_rdt q' = rr_rdt q1"
    "rx_done f q' 0" "F' \<union> L' = F1 \<union> L1" "ns_mm s' = ns_mm s1" "\<forall>p\<in>set W1. same_packet (ns_store s' p) (ns_store s1 p)"
    "\<forall>j<n. snd (rx_items q1 n ! j) \<in> set (rx_queue_after f W1 (rx_items q1 n)) \<longrightarrow>
       announced f fgs (fst (rx_items q1 n ! j)) (tsc (nb + 1 + j)) (ns_store s' (snd (rx_items q1 n ! j)))"
    "rx_refilled f (ns_mm s1) q1 n q'"
    using Suc.IH [OF r(2) done1 _ _ _ _ Suc.prems(7,8), of "nb + 1"] Suc.prems(3,4,5,6) r(4,5,6) by auto
  have W: "set W \<subseteq> L" "b \<notin> set W" using Suc.prems(1) rx_items_entries [OF Suc.prems(1), of "Suc n"] unfolding it(1) by (auto simp: rx_inv_def)
  have after: "rx_queue_after f W (rx_items q (Suc n)) = rx_queue_after f W1 (rx_items q1 n)" by (simp add: it W1_def)
  have loop: "rx_loop env f fgs tsc nb (q, s) = Some (Inr (nb + Suc n, q', s'))" using r(1) h(1) by (subst rx_loop.simps) simp
  have same: "\<forall>p\<in>set W. same_packet (ns_store s' p) (ns_store s p)"
  proof
    fix p assume p: "p \<in> set W"
    have "same_packet (ns_store s' p) (ns_store s1 p)" using h(9) p by (simp add: W1_def)
    moreover have "same_packet (ns_store s1 p) (ns_store s p)" using r(7) p W by auto
    ultimately show "same_packet (ns_store s' p) (ns_store s p)" by (rule same_packet_trans)
  qed
  have b1: "announced f fgs d (tsc nb) (ns_store s' b)" if "b \<in> set (rx_queue_after f W1 (rx_items q1 n))"
  proof -
    have "snd ` set (rx_items q1 n) \<subseteq> set (rr_entries q1)" using r(2) by (rule rx_items_entries)
    then have "b \<notin> snd ` set (rx_items q1 n)" using r(3) q1 by auto
    then have "b \<in> set W1" using that rx_queue_after_set [of f W1 "rx_items q1 n"] by blast
    then have "same_packet (ns_store s' b) (ns_store s1 b)" using h(9) by blast
    from announced_same [OF this, of f fgs d "tsc nb"] show ?thesis using r(8) by simp
  qed
  have ann: "\<forall>j<Suc n. snd (rx_items q (Suc n) ! j) \<in> set (rx_queue_after f W1 (rx_items q1 n)) \<longrightarrow>
       announced f fgs (fst (rx_items q (Suc n) ! j)) (tsc (nb + j)) (ns_store s' (snd (rx_items q (Suc n) ! j)))"
  proof (intro allI impI)
    fix j
    assume "j < Suc n" "snd (rx_items q (Suc n) ! j) \<in> set (rx_queue_after f W1 (rx_items q1 n))"
    then show "announced f fgs (fst (rx_items q (Suc n) ! j)) (tsc (nb + j)) (ns_store s' (snd (rx_items q (Suc n) ! j)))"
      using b1 h(10) by (cases j) (simp_all add: it)
  qed
  have "rr_head q' = rr_head q + of_nat (Suc n)" "rr_tail q' = rr_tail q" "rr_rdt q' = rr_rdt q" using h(3,4,5) q1 by simp_all
  moreover have "i < length (rr_ring q)" "i < length (rr_entries q)"
    unfolding i_def ring_slot_mod [OF k(2,1)] using Suc.prems(1) by (simp_all add: rx_inv_def)
  from rx_refilled_Suc [OF k(2,1) Suc.prems(3) i_def this q1 r(9)] have "rx_refilled f (ns_mm s) q (Suc n) q'" using h(11) r(4) by simp
  ultimately show ?case unfolding after using loop h(2,6,7,8) same ann r(4,5)
    by (intro exI [of _ q'] exI [of _ s'] exI [of _ F'] exI [of _ L']) simp
qed

text \<open>
  The tail after a poll: fewer than 32 descriptors are kept from the device, and the tail stays or moves as far as it can, with the register of the device.
\<close>

definition rx_given_back :: "'d rx_ring \<Rightarrow> 'd rx_ring \<Rightarrow> bool" where
  "rx_given_back q q' \<longleftrightarrow> rr_len q' - (rr_tail q' + 1 - rr_head q') < 32 \<and>
     (rr_tail q' = rr_tail q \<and> rr_rdt q' = rr_rdt q \<or> rr_tail q' = rr_head q' + rr_len q' - 1 \<and> rr_rdt q' = of_nat (rr_slot q' (rr_tail q')))"

lemma rx_give_back_tail:
  assumes "rr_tail q1 = rr_tail q" "rr_rdt q1 = rr_rdt q" "rr_len q1 = rr_len q"
  shows "rx_given_back q (rx_give_back q1)"
  using assms by (auto simp: rx_given_back_def rx_give_back_def RDT_THRESH_def Let_def not_le)

lemma rx_poll_receives:
  assumes "rx_inv k q s F L W" "rx_done f q n" "n < 2 ^ k" "finite F" "n \<le> card F" "rx_refills f (ns_mm s) (F \<union> L)" "length fgs = 2 ^ e" "e < 16"
  shows "\<exists>q' s' F' L'. rx_poll env f fgs tsc (q, s) = Some (Inr (int n, q', s')) \<and> rx_inv k q' s' F' L' (rx_queue_after f W (rx_items q n)) \<and>
    rr_head q' = rr_head q + of_nat n \<and> rx_done f q' 0 \<and> F' \<union> L' = F \<union> L \<and> rx_refilled f (ns_mm s) q n q' \<and> rx_given_back q q' \<and> (\<forall>p\<in>set W. same_packet (ns_store s' p) (ns_store s p)) \<and>
    (\<forall>j<n. snd (rx_items q n ! j) \<in> set (rx_queue_after f W (rx_items q n)) \<longrightarrow>
       announced f fgs (fst (rx_items q n ! j)) (tsc j) (ns_store s' (snd (rx_items q n ! j))))"
proof -
  obtain q1 s1 F1 L1 where h: "rx_loop env f fgs tsc 0 (q, s) = Some (Inr (0 + n, q1, s1))" "rx_inv k q1 s1 F1 L1 (rx_queue_after f W (rx_items q n))"
    "rr_head q1 = rr_head q + of_nat n" "rx_done f q1 0" "F1 \<union> L1 = F \<union> L" "\<forall>p\<in>set W. same_packet (ns_store s1 p) (ns_store s p)"
    "rr_tail q1 = rr_tail q" "rr_rdt q1 = rr_rdt q" "rx_refilled f (ns_mm s) q n q1"
    "\<forall>j<n. snd (rx_items q n ! j) \<in> set (rx_queue_after f W (rx_items q n)) \<longrightarrow>
       announced f fgs (fst (rx_items q n ! j)) (tsc (0 + j)) (ns_store s1 (snd (rx_items q n ! j)))"
    using rx_loop_receives [OF assms, of env tsc 0] by blast
  have g: "rr_head (rx_give_back q1) = rr_head q1" "rr_ring (rx_give_back q1) = rr_ring q1" "rr_entries (rx_give_back q1) = rr_entries q1"
    "rr_len (rx_give_back q1) = rr_len q1" "rr_erxq (rx_give_back q1) = rr_erxq q1" by (simp_all add: rx_give_back_def Let_def)
  then have "rx_inv k (rx_give_back q1) s1 F1 L1 (rx_queue_after f W (rx_items q n))" "rx_done f (rx_give_back q1) 0"
    using h(2,4) by (simp_all add: rx_inv_def rx_done_def rx_items_def)
  moreover have "rr_len q1 = rr_len q" using h(2) assms(1) by (simp add: rx_inv_def)
  then have "rx_given_back q (rx_give_back q1)" by (rule rx_give_back_tail [OF h(7,8)])
  moreover have "rx_refilled f (ns_mm s) q n (rx_give_back q1)" using h(9) g by (simp add: rx_refilled_def)
  ultimately show ?thesis using h g(1)
    by (intro exI [of _ "rx_give_back q1"] exI [of _ s1] exI [of _ F1] exI [of _ L1]) (simp add: rx_poll_def)
qed

text \<open>Without a buffer to replace it, the packet stays where it is.\<close>

lemma rx_poll_starved:
  assumes "rx_inv k q s {} L W" "rf_dd f (rr_ring q ! rr_slot q (rr_head q))" "length fgs = 2 ^ e" "e < 16"
  shows "\<exists>q' s'. rx_poll env f fgs tsc (q, s) = Some (Inr (0, q', s')) \<and> rr_head q' = rr_head q \<and> rr_ring q' = rr_ring q \<and>
    rr_entries q' = rr_entries q \<and> rr_erxq q' = rr_erxq q \<and> rx_inv k q' s' {} L W"
proof -
  let ?i = "rr_slot q (rr_head q)"
  let ?d = "rr_ring q ! ?i" and ?b = "rr_entries q ! ?i"
  have k: "k < 16" "rr_len q = 2 ^ k" and l: "length (rr_ring q) = 2 ^ k" "length (rr_entries q) = 2 ^ k" using assms(1) by (simp_all add: rx_inv_def)
  have i: "?i < 2 ^ k" unfolding ring_slot_mod [OF k(2,1)] by simp
  obtain g where g: "rx_fg_id fgs (rf_rss f ?d) = Inr g" using rx_fg_id_total [OF assms(3,4)] by blast
  have ok: "mempool_ok (ns_heap s) (ns_mbufs s) {} L" and b: "?b \<in> L" using assms(1) i l by (auto simp: rx_inv_def)
  have bn: "?b \<noteq> NULL" using mp.ok_sets [OF ok] b by auto
  let ?s = "upd_mbuf ?b (\<lambda>m. m\<lparr>mb_len := rf_len f ?d, mb_fg_id := g, mb_timestamp := tsc 0\<rparr>) s"
  have "mbuf_alloc_local env ?s = Inr (NULL, ?s)" using mp.alloc_none [OF ok] by (simp add: mbuf_alloc_local_def mbuf_alloc_def upd_mbuf_def)
  then have "rx_one env f fgs (tsc 0) (q, s) = Inr (False, q, ?s)" using assms(2) g bn i l by (simp add: rx_one_def Let_def)
  then have r: "rx_poll env f fgs tsc (q, s) = Some (Inr (0, rx_give_back q, ?s))" by (simp add: rx_poll_def rx_loop.simps)
  have "rxq_rep (rr_erxq q) (ns_store ?s) W = rxq_rep (rr_erxq q) (ns_store s) W" by (rule rxq_rep_cong) (simp add: upd_mbuf_def)
  then have "rx_inv k (rx_give_back q) ?s {} L W" using assms(1) by (simp add: rx_inv_def rx_give_back_def Let_def upd_mbuf_def)
  then show ?thesis using r by (intro exI [of _ "rx_give_back q"] exI [of _ ?s]) (simp add: rx_give_back_def Let_def)
qed

section \<open>Buffers for a new ring\<close>

lemma free_from_all:
  assumes "mempool_ok (ns_heap s) (ns_mbufs s) F (L0 \<union> set (take i ents))" "distinct (take i ents)" "L0 \<inter> set (take i ents) = {}" "i \<le> length ents"
  shows "\<exists>s'. free_from ents i s = Inr s' \<and> mempool_ok (ns_heap s') (ns_mbufs s') (F \<union> set (take i ents)) L0"
  using assms
proof (induction i arbitrary: s F)
  case (Suc i)
  let ?b = "ents ! i"
  have t: "take (Suc i) ents = take i ents @ [?b]" using Suc.prems(4) by (simp add: take_Suc_conv_app_nth)
  have b: "?b \<in> L0 \<union> set (take (Suc i) ents)" "L0 \<union> set (take (Suc i) ents) - {?b} = L0 \<union> set (take i ents)" using Suc.prems(2,3) unfolding t by auto
  obtain s1 where s1: "mbuf_free ?b s = Inr s1" "mempool_ok (ns_heap s1) (ns_mbufs s1) (insert ?b F) (L0 \<union> set (take i ents))"
    using mbuf_free_live [OF Suc.prems(1) b(1)] unfolding b(2) by blast
  obtain s2 where "free_from ents i s1 = Inr s2" "mempool_ok (ns_heap s2) (ns_mbufs s2) (insert ?b F \<union> set (take i ents)) L0"
    using Suc.IH [OF s1(2)] Suc.prems(2,3,4) unfolding t by auto
  moreover have "insert ?b F \<union> set (take i ents) = F \<union> set (take (Suc i) ents)" unfolding t by auto
  ultimately show ?case using s1(1) Suc.prems(4) by simp
qed simp

text \<open>The ring while it is being filled: the first \<open>i\<close> entries have buffers of their own.\<close>

definition rx_filled :: "(u64 \<Rightarrow> 'd) \<Rightarrow> mm \<Rightarrow> nat \<Rightarrow> 'd rx_ring \<Rightarrow> bool" where
  "rx_filled fill0 mm n q \<longleftrightarrow> (\<forall>j<n. \<exists>ma. page_machaddr (mbuf_addr (rr_entries q ! j) 0) mm = Inr ma \<and> rr_ring q ! j = fill0 ma)"

definition filling :: "nat \<Rightarrow> nat \<Rightarrow> 'd rx_ring \<Rightarrow> net_state \<Rightarrow> addr set \<Rightarrow> addr set \<Rightarrow> bool" where
  "filling n i q s F L0 \<longleftrightarrow> length (rr_ring q) = n \<and> length (rr_entries q) = n \<and> i \<le> n \<and> distinct (take i (rr_entries q)) \<and>
     L0 \<inter> set (take i (rr_entries q)) = {} \<and> mempool_ok (ns_heap s) (ns_mbufs s) F (L0 \<union> set (take i (rr_entries q)))"

lemma filling_step:
  assumes "filling n i q s F L0" "i < n" "F \<noteq> {}" "\<forall>p\<in>F. \<exists>ma. page_machaddr (mbuf_addr p 0) (ns_mm s) = Inr ma"
  shows "\<exists>b ma s1. mbuf_alloc_local env s = Inr (b, s1) \<and> b \<in> F \<and> b \<noteq> NULL \<and> mbuf_get_data_machaddr b s1 = Inr ma \<and> ns_mm s1 = ns_mm s \<and>
    (\<forall>d. filling n (Suc i) (q\<lparr>rr_ring := (rr_ring q)[i := d], rr_entries := (rr_entries q)[i := b]\<rparr>) s1 (F - {b}) L0) \<and>
    set (take (Suc i) ((rr_entries q)[i := b])) = insert b (set (take i (rr_entries q)))"
proof -
  let ?T = "take i (rr_entries q)"
  have a: "length (rr_entries q) = n" "distinct ?T" "L0 \<inter> set ?T = {}" "mempool_ok (ns_heap s) (ns_mbufs s) F (L0 \<union> set ?T)" "length (rr_ring q) = n"
    using assms(1) by (simp_all add: filling_def)
  obtain b p nb where b: "mbuf_alloc_local env s = Inr (b, s\<lparr>ns_mbufs := p, ns_store := (ns_store s)(b := nb)\<rparr>)" "b \<in> F" "b \<noteq> NULL"
    "mempool_ok (ns_heap s) p (F - {b}) (insert b (L0 \<union> set ?T))"
    using mbuf_alloc_local_ok [OF a(4) assms(3)] by blast
  obtain ma where ma: "page_machaddr (mbuf_addr b 0) (ns_mm s) = Inr ma" using assms(4) b(2) by blast
  have f: "b \<notin> L0" "b \<notin> set ?T" using mp.ok_sets [OF a(4)] b(2) by auto
  have t: "take (Suc i) ((rr_entries q)[i := b]) = ?T @ [b]" using assms(2) a(1) by (simp add: take_Suc_conv_app_nth)
  have "filling n (Suc i) (q\<lparr>rr_ring := (rr_ring q)[i := d], rr_entries := (rr_entries q)[i := b]\<rparr>)
      (s\<lparr>ns_mbufs := p, ns_store := (ns_store s)(b := nb)\<rparr>) (F - {b}) L0" for d
    using a b(4) f assms(2) by (simp add: filling_def t)
  then show ?thesis using b(1,2,3) ma
    by (intro exI [of _ b] exI [of _ ma] exI [of _ "s\<lparr>ns_mbufs := p, ns_store := (ns_store s)(b := nb)\<rparr>"]) (simp add: mbuf_get_data_machaddr_def t)
qed

lemma alloc_rx_loop_fills:
  assumes "filling n i q s F L0" "finite F" "n - i \<le> card F" "\<forall>p\<in>F. \<exists>ma. page_machaddr (mbuf_addr p 0) (ns_mm s) = Inr ma"
    and "rx_filled fill0 (ns_mm s) i q"
  shows "\<exists>ring ents s' F'. alloc_rx_loop env fill0 [i..<n] (q, s) = Inr (0, q\<lparr>rr_ring := ring, rr_entries := ents\<rparr>, s') \<and>
    filling n n (q\<lparr>rr_ring := ring, rr_entries := ents\<rparr>) s' F' L0 \<and> F' \<union> set ents = F \<union> set (take i (rr_entries q)) \<and> ns_mm s' = ns_mm s \<and>
    rx_filled fill0 (ns_mm s) n (q\<lparr>rr_ring := ring, rr_entries := ents\<rparr>)"
  using assms
proof (induction "n - i" arbitrary: i q s F)
  case 0
  then have "i = n" "take n (rr_entries q) = rr_entries q" by (simp_all add: filling_def)
  then show ?case using 0(2,6) by (intro exI [of _ "rr_ring q"] exI [of _ "rr_entries q"] exI [of _ s] exI [of _ F]) simp
next
  case (Suc d)
  have i: "i < n" "d = n - Suc i" "F \<noteq> {}" using Suc.hyps(2) Suc.prems(3) by auto
  obtain b ma s1 where b: "mbuf_alloc_local env s = Inr (b, s1)" "b \<in> F" "b \<noteq> NULL" "mbuf_get_data_machaddr b s1 = Inr ma" "ns_mm s1 = ns_mm s"
    "\<forall>d. filling n (Suc i) (q\<lparr>rr_ring := (rr_ring q)[i := d], rr_entries := (rr_entries q)[i := b]\<rparr>) s1 (F - {b}) L0"
    "set (take (Suc i) ((rr_entries q)[i := b])) = insert b (set (take i (rr_entries q)))"
    using filling_step [OF Suc.prems(1) i(1,3) Suc.prems(4), of env] by blast
  define q1 where "q1 = q\<lparr>rr_ring := (rr_ring q)[i := fill0 ma], rr_entries := (rr_entries q)[i := b]\<rparr>"
  have f1: "filling n (Suc i) q1 s1 (F - {b}) L0" using b(6) by (simp add: q1_def)
  have c: "n - Suc i \<le> card (F - {b})" "finite (F - {b})" using Suc.prems(2,3) b(2) by (simp_all add: card_Diff_singleton)
  have l: "length (rr_ring q) = n" "length (rr_entries q) = n" using Suc.prems(1) by (simp_all add: filling_def)
  have "page_machaddr (mbuf_addr b 0) (ns_mm s) = Inr ma" using b(4,5) by (simp add: mbuf_get_data_machaddr_def)
  then have fl: "rx_filled fill0 (ns_mm s1) (Suc i) q1" using Suc.prems(5) b(5) l i(1) by (auto simp: rx_filled_def q1_def less_Suc_eq nth_list_update)
  obtain ring ents s' F' where h: "alloc_rx_loop env fill0 [Suc i..<n] (q1, s1) = Inr (0, q1\<lparr>rr_ring := ring, rr_entries := ents\<rparr>, s')"
    "filling n n (q1\<lparr>rr_ring := ring, rr_entries := ents\<rparr>) s' F' L0" "F' \<union> set ents = F - {b} \<union> set (take (Suc i) (rr_entries q1))" "ns_mm s' = ns_mm s1"
    "rx_filled fill0 (ns_mm s1) n (q1\<lparr>rr_ring := ring, rr_entries := ents\<rparr>)"
    using Suc.hyps(1) [OF i(2) f1 c(2,1) _ fl] Suc.prems(4) b(5) by auto
  have e: "q1\<lparr>rr_ring := ring, rr_entries := ents\<rparr> = q\<lparr>rr_ring := ring, rr_entries := ents\<rparr>" by (simp add: q1_def)
  have "alloc_rx_loop env fill0 [i..<n] (q, s) = Inr (0, q\<lparr>rr_ring := ring, rr_entries := ents\<rparr>, s')"
    using h(1) b(1,3,4) i(1) l unfolding e by (simp add: upt_conv_Cons q1_def)
  moreover have "F' \<union> set ents = F \<union> set (take i (rr_entries q))" using h(3) b(2,7) by (auto simp: q1_def)
  ultimately show ?case using h(2,4,5) b(5) unfolding e by auto
qed

lemma alloc_rx_loop_fails:
  assumes "filling n i q s F L0" "finite F" "card F < n - i" "\<forall>p\<in>F. \<exists>ma. page_machaddr (mbuf_addr p 0) (ns_mm s) = Inr ma"
  shows "\<exists>q' s'. alloc_rx_loop env fill0 [i..<n] (q, s) = Inr (- ENOMEM, q', s') \<and>
    mempool_ok (ns_heap s') (ns_mbufs s') (F \<union> set (take i (rr_entries q))) L0"
  using assms
proof (induction "card F" arbitrary: i q s F)
  case 0
  then have F: "F = {}" and i: "i < n" and l: "i \<le> length (rr_entries q)" by (simp_all add: filling_def)
  have ok: "mempool_ok (ns_heap s) (ns_mbufs s) {} (L0 \<union> set (take i (rr_entries q)))" using 0(2) F by (simp add: filling_def)
  have "mbuf_alloc_local env s = Inr (NULL, s)" using mp.alloc_none [OF ok] by (simp add: mbuf_alloc_local_def mbuf_alloc_def)
  moreover obtain s' where "free_from (rr_entries q) i s = Inr s'" "mempool_ok (ns_heap s') (ns_mbufs s') ({} \<union> set (take i (rr_entries q))) L0"
    using free_from_all [OF ok] 0(2) l by (auto simp: filling_def)
  ultimately show ?case using i F by (simp add: upt_conv_Cons)
next
  case (Suc c)
  have i: "i < n" "F \<noteq> {}" using Suc.hyps(2) Suc.prems(3) by auto
  obtain b ma s1 where b: "mbuf_alloc_local env s = Inr (b, s1)" "b \<in> F" "b \<noteq> NULL" "mbuf_get_data_machaddr b s1 = Inr ma" "ns_mm s1 = ns_mm s"
    "\<forall>d. filling n (Suc i) (q\<lparr>rr_ring := (rr_ring q)[i := d], rr_entries := (rr_entries q)[i := b]\<rparr>) s1 (F - {b}) L0"
    "set (take (Suc i) ((rr_entries q)[i := b])) = insert b (set (take i (rr_entries q)))"
    using filling_step [OF Suc.prems(1) i Suc.prems(4), of env] by blast
  define q1 where "q1 = q\<lparr>rr_ring := (rr_ring q)[i := fill0 ma], rr_entries := (rr_entries q)[i := b]\<rparr>"
  have f1: "filling n (Suc i) q1 s1 (F - {b}) L0" using b(6) by (simp add: q1_def)
  have c: "c = card (F - {b})" "finite (F - {b})" "card (F - {b}) < n - Suc i" using Suc.hyps(2) Suc.prems(2,3) b(2) by (simp_all add: card_Diff_singleton)
  obtain q' s' where h: "alloc_rx_loop env fill0 [Suc i..<n] (q1, s1) = Inr (- ENOMEM, q', s')"
    "mempool_ok (ns_heap s') (ns_mbufs s') (F - {b} \<union> set (take (Suc i) (rr_entries q1))) L0"
    using Suc.hyps(1) [OF c(1) f1 c(2,3)] Suc.prems(4) b(5) by auto
  have l: "length (rr_ring q) = n" "length (rr_entries q) = n" using Suc.prems(1) by (simp_all add: filling_def)
  have "F - {b} \<union> set (take (Suc i) (rr_entries q1)) = F \<union> set (take i (rr_entries q))" using b(2,7) by (auto simp: q1_def)
  moreover have "alloc_rx_loop env fill0 [i..<n] (q, s) = Inr (- ENOMEM, q', s')" using h(1) b(1,3,4) i(1) l by (simp add: upt_conv_Cons q1_def)
  ultimately show ?case using h(2) by auto
qed

section \<open>Memory for rings\<close>

text \<open>
  The common part of \<open>rx_queue_setup\<close> and \<open>tx_queue_setup\<close>, after the checks: the answer \<open>dpdk_ret\<close> of DPDK, a page for the ring, its
  machine address.  \<open>hdr\<close> is the rounded size of the structure in front of the ring.
\<close>

definition ring_page :: "os \<Rightarrow> int \<Rightarrow> int \<Rightarrow> u64 \<Rightarrow> mm \<Rightarrow> int \<times> u64 \<times> mm" where
  "ring_page os dpdk_ret numa_node hdr mm =
     (if dpdk_ret < 0 then (dpdk_ret, 0, mm)
      else let (page, mm1) = (if numa_node = -1 then mem_alloc_page_local os PGSIZE_2MB mm
                              else mem_alloc_page os PGSIZE_2MB (nat numa_node) MPOL_BIND mm)
      in if page = MAP_FAILED then (- ENOMEM, 0, mm1)
      else let (ret, page_phys) = mem_lookup_page_machine_addr os page PGSIZE_2MB 0
      in if ret \<noteq> 0 then (ret, 0, mem_free_page os page PGSIZE_2MB mm1)
         else (0, page_phys + hdr, mm1))"

text \<open>The page is cleared, so the rings start with empty descriptors and entries.\<close>

definition fresh_rx_ring :: "'d \<Rightarrow> u16 \<Rightarrow> 'd rx_ring" where
  "fresh_rx_ring d0 nb_desc =
     \<lparr>rr_ring = replicate (unat nb_desc) d0, rr_entries = replicate (unat nb_desc) NULL, rr_head = 0, rr_tail = nb_desc - 1, rr_len = nb_desc,
      rr_rdt = 0, rr_erxq = \<lparr>rq_head = NULL, rq_tail = NULL, rq_len = 0\<rparr>\<rparr>"

definition fresh_tx_ring :: "'d \<Rightarrow> u16 \<Rightarrow> 'd tx_ring" where
  "fresh_tx_ring d0 nb_desc =
     reset_tx_queue \<lparr>tr_ring = replicate (unat nb_desc) d0, tr_entries = replicate (unat nb_desc) NULL, tr_head = 0, tr_tail = 0, tr_len = nb_desc, tr_tdt = 0\<rparr>"

text \<open>The test for a power of two.\<close>

lemma pow2_nat: "0 < n \<Longrightarrow> n AND (n - 1) = 0 \<Longrightarrow> \<exists>k. n = 2 ^ k" for n :: nat
proof (induction n rule: less_induct)
  case (less n)
  show ?case
  proof (cases "even n")
    case True
    then obtain m where m: "n = 2 * m" by (elim evenE)
    have "m > 0" "m < n" using less.prems(1) m by simp_all
    have "(2 * m - 1) div 2 = m - 1" by linarith
    then have "n AND (n - 1) = 2 * (m AND (m - 1))" using m by (subst and_nat_rec) simp
    then obtain k where "m = 2 ^ k" using less.IH [OF \<open>m < n\<close> \<open>m > 0\<close>] less.prems(2) by auto
    then show ?thesis using m by (intro exI [of _ "Suc k"]) simp
  next
    case False
    then obtain m where m: "n = 2 * m + 1" by (elim oddE)
    then have "n AND (n - 1) = 2 * m" by (subst and_nat_rec) simp
    then show ?thesis using less.prems(2) m by (intro exI [of _ 0]) simp
  qed
qed

lemma pow2_word:
  fixes n :: u16
  assumes "n \<noteq> 0" "n AND (n - 1) = 0"
  shows "\<exists>k<16. n = 2 ^ k"
proof -
  have "unat n AND (unat n - 1) = unat (n AND (n - 1))" using unat_minus_one [OF assms(1)] by (simp add: unsigned_and_eq)
  then obtain k where k: "unat n = 2 ^ k" using pow2_nat [of "unat n"] assms by (auto simp: unat_gt_0)
  have "unat n < 2 ^ LENGTH(16)" by (rule unsigned_less)
  then have "(2 :: nat) ^ k < 2 ^ 16" using k by simp
  then have "k < 16" by (rule power_less_imp_less_exp [rotated]) simp
  moreover have "unat n = unat (2 ^ k :: u16)" using k unat_pow2 [OF \<open>k < 16\<close>] by simp
  ultimately show ?thesis using unsigned_word_eqI by blast
qed

lemma fresh_tx_ring_wf:
  assumes "k < 16"
  shows "tx_wf k (fresh_tx_ring d0 (2 ^ k))" "flight (fresh_tx_ring d0 (2 ^ k)) = []"
proof -
  have slot: "ring_slot (2 ^ k) p < 2 ^ k" for p using ring_slot_mod [OF refl assms, of p] by simp
  show "tx_wf k (fresh_tx_ring d0 (2 ^ k))" "flight (fresh_tx_ring d0 (2 ^ k)) = []"
    using assms slot by (auto simp: fresh_tx_ring_def reset_tx_queue_def tx_wf_def flight_def flight_len_def from_head_def unat_pow2)
qed

end
