(* ===== verification/I40e.thy ===== *)
theory I40e
  imports Rx_Ring
begin

text \<open>
  The transmit side of the driver \<open>dp/drivers/i40e.c\<close>.  The bits of descriptors are defined by the device and named in DPDK; they are a
  parameter, with what the driver relies on stated as \<open>i40e_layout\<close>.
\<close>

section \<open>Descriptors\<close>

record i40e_bits =
  I40E_TD_CMD :: u32
  I40E_TX_DESC_CMD_RS :: u32
  I40E_TX_DESC_CMD_ICRC :: u32
  I40E_TX_DESC_CMD_L4T_EOFT_TCP :: u32
  I40E_TX_DESC_CMD_IIPT_IPV4_CSUM :: u32
  I40E_TX_DESC_LENGTH_L4_FC_LEN_SHIFT :: nat
  I40E_TX_DESC_LENGTH_IPLEN_SHIFT :: nat
  I40E_TX_DESC_LENGTH_MACLEN_SHIFT :: nat
  I40E_SIZEOF_TCP_HDR :: nat
  I40E_TX_DESC_DTYPE_DATA :: u64
  I40E_TX_DESC_DTYPE_DESC_DONE :: u64
  I40E_TXD_QW1_DTYPE_MASK :: u64
  I40E_TXD_QW1_CMD_SHIFT :: nat
  I40E_TXD_QW1_OFFSET_SHIFT :: nat
  I40E_TXD_QW1_TX_BUF_SZ_SHIFT :: nat
  I40E_TXD_QW1_L2TAG1_SHIFT :: nat

record i40e_tx_desc =
  itd_buffer_addr :: u64
  itd_cmd_type_offset_bsz :: u64

type_synonym i40e_tx_ring = "i40e_tx_desc tx_ring"

definition i40e_tx_dd :: "i40e_bits \<Rightarrow> i40e_tx_desc \<Rightarrow> bool" where
  "i40e_tx_dd c d \<longleftrightarrow> itd_cmd_type_offset_bsz d AND I40E_TXD_QW1_DTYPE_MASK c = I40E_TX_DESC_DTYPE_DESC_DONE c"

text \<open>The type of a data descriptor is not that of a finished one, and the other fields are not in the place of the type.\<close>

definition i40e_layout :: "i40e_bits \<Rightarrow> bool" where
  "i40e_layout c \<longleftrightarrow> I40E_TX_DESC_DTYPE_DATA c AND I40E_TXD_QW1_DTYPE_MASK c \<noteq> I40E_TX_DESC_DTYPE_DESC_DONE c \<and>
     (\<forall>x. push_bit (I40E_TXD_QW1_CMD_SHIFT c) x AND I40E_TXD_QW1_DTYPE_MASK c = 0) \<and>
     (\<forall>x. push_bit (I40E_TXD_QW1_OFFSET_SHIFT c) x AND I40E_TXD_QW1_DTYPE_MASK c = 0) \<and>
     (\<forall>x. push_bit (I40E_TXD_QW1_TX_BUF_SZ_SHIFT c) x AND I40E_TXD_QW1_DTYPE_MASK c = 0) \<and>
     (\<forall>x. push_bit (I40E_TXD_QW1_L2TAG1_SHIFT c) x AND I40E_TXD_QW1_DTYPE_MASK c = 0)"

section \<open>Operations\<close>

definition i40e_build_ctob :: "i40e_bits \<Rightarrow> u32 \<Rightarrow> u32 \<Rightarrow> u32 \<Rightarrow> u32 \<Rightarrow> u64" where
  "i40e_build_ctob c td_cmd td_offset sz td_tag =
     I40E_TX_DESC_DTYPE_DATA c OR
     push_bit (I40E_TXD_QW1_CMD_SHIFT c) (ucast td_cmd) OR
     push_bit (I40E_TXD_QW1_OFFSET_SHIFT c) (ucast td_offset) OR
     push_bit (I40E_TXD_QW1_TX_BUF_SZ_SHIFT c) (ucast sz) OR
     push_bit (I40E_TXD_QW1_L2TAG1_SHIFT c) (ucast td_tag)"

definition i40e_tx_reclaim :: "i40e_bits \<Rightarrow> net_env \<Rightarrow> i40e_tx_ring \<Rightarrow> net_state \<Rightarrow> (u16 \<times> i40e_tx_ring \<times> net_state) res" where
  "i40e_tx_reclaim c env q s = tx_reclaim env (i40e_tx_dd c) q s"

definition i40e_txd_enable_checksum :: "i40e_bits \<Rightarrow> u32 \<times> u32 \<Rightarrow> u32 \<times> u32" where
  "i40e_txd_enable_checksum c td =
     (case td of (td_cmd, td_offset) \<Rightarrow>
      (td_cmd OR I40E_TX_DESC_CMD_L4T_EOFT_TCP c OR I40E_TX_DESC_CMD_IIPT_IPV4_CSUM c,
       td_offset OR push_bit (I40E_TX_DESC_LENGTH_L4_FC_LEN_SHIFT c) (of_nat (I40E_SIZEOF_TCP_HDR c div 4))
         OR push_bit (I40E_TX_DESC_LENGTH_IPLEN_SHIFT c) (of_nat (20 div 4))
         OR push_bit (I40E_TX_DESC_LENGTH_MACLEN_SHIFT c) (of_nat (ETH_HDR_LEN div 2))))"

text \<open>The descriptor of a packet; it takes one, whatever the number of scatter-gather vectors.\<close>

definition i40e_desc :: "i40e_bits \<Rightarrow> mbuf \<Rightarrow> u64 \<Rightarrow> i40e_tx_desc" where
  "i40e_desc c b ma =
     (let td = (I40E_TD_CMD c OR I40E_TX_DESC_CMD_RS c OR I40E_TX_DESC_CMD_ICRC c, 0);
          (td_cmd, td_offset) = (if mb_ol_flags b AND PKT_TX_TCP_CKSUM \<noteq> 0 then i40e_txd_enable_checksum c td else td)
      in \<lparr>itd_buffer_addr = ma, itd_cmd_type_offset_bsz = i40e_build_ctob c td_cmd td_offset (ucast (mb_len b)) 0\<rparr>)"

definition i40e_tx_xmit_one ::
  "i40e_bits \<Rightarrow> net_env \<Rightarrow> addr \<Rightarrow> i40e_tx_ring \<times> net_state \<Rightarrow> (int \<times> i40e_tx_ring \<times> net_state) res" where
  "i40e_tx_xmit_one c env m st =
     (if m = NULL then Inl Null_deref
      else bindE (make_room env (i40e_tx_dd c) 1 st) (\<lambda>(full, q, s).
           if full then Inr (- EAGAIN, q, s)
           else if \<not> tx_ring_ok q then Inl Out_of_bounds
           else let i = tr_slot q (tr_tail q)
                in bindE (mbuf_get_data_machaddr m s) (\<lambda>ma.
                   Inr (0, q\<lparr>tr_ring := (tr_ring q)[i := i40e_desc c (ns_store s m) ma], tr_entries := (tr_entries q)[i := m],
                             tr_tail := tr_tail q + 1\<rparr>, s))))"

definition i40e_tx_xmit :: "i40e_bits \<Rightarrow> net_env \<Rightarrow> addr list \<Rightarrow> i40e_tx_ring \<times> net_state \<Rightarrow> (int \<times> i40e_tx_ring \<times> net_state) res" where
  "i40e_tx_xmit c env mbufs st = tx_xmit (i40e_tx_xmit_one c env) mbufs st"

definition i40_reset_tx_queue :: "i40e_tx_ring \<Rightarrow> i40e_tx_ring" where
  "i40_reset_tx_queue q = reset_tx_queue q"

section \<open>One packet\<close>

definition i40e_fit :: "net_state \<Rightarrow> addr \<Rightarrow> bool" where
  "i40e_fit s m \<longleftrightarrow> m \<noteq> NULL \<and> (\<exists>ma. mbuf_get_data_machaddr m s = Inr ma)"

lemma i40e_desc_unfinished:
  assumes "i40e_layout c"
  shows "\<not> i40e_tx_dd c (i40e_desc c b ma)"
proof -
  have "i40e_build_ctob c w x y z AND I40E_TXD_QW1_DTYPE_MASK c = I40E_TX_DESC_DTYPE_DATA c AND I40E_TXD_QW1_DTYPE_MASK c" for w x y z
    using assms by (simp add: i40e_layout_def i40e_build_ctob_def bit.conj_disj_distrib2)
  then show ?thesis using assms by (simp add: i40e_layout_def i40e_tx_dd_def i40e_desc_def Let_def split: prod.split)
qed

lemma i40e_tx_driver:
  assumes c: "i40e_layout c"
  shows "tx_driver (i40e_tx_xmit_one c) (i40e_tx_dd c) (\<lambda>s m. 1) i40e_fit"
proof
  show "0 < (1 :: nat)" by simp
next
  fix k s env m and q :: i40e_tx_ring
  assume a: "tx_wf k q" "i40e_fit s m" "flight_len q + 1 < 2 ^ k"
  obtain ma where ma: "mbuf_get_data_machaddr m s = Inr ma" using a(2) by (auto simp: i40e_fit_def)
  define i where "i = tr_slot q (tr_tail q + of_nat 0)"
  define ring where "ring = (tr_ring q)[i := i40e_desc c (ns_store s m) ma]"
  define q' where "q' = q\<lparr>tr_ring := ring, tr_entries := (tr_entries q)[tr_slot q (tr_tail q + of_nat 0) := m], tr_tail := tr_tail q + of_nat (0 + 1)\<rparr>"
  have sh: "ring_shape k q" using a(1) by (rule tx_wf_shape)
  have len: "length ring = 2 ^ k" and i: "i < length (tr_ring q)" using sh tr_slot_bound [OF sh] by (simp_all add: ring_def i_def ring_shape_def)
  have room: "flight_len q + 0 + 1 < 2 ^ k" using a(3) by simp
  have e: "i40e_tx_xmit_one c env m (q, s) = Inr (0, q', s)"
    using a(2) make_room_free [OF a(1,3), of env "i40e_tx_dd c" s] tx_ring_ok [OF a(1)] ma
    by (simp add: i40e_tx_xmit_one_def i40e_fit_def q'_def ring_def i_def Let_def)
  note ap = tx_append [OF a(1) room len q'_def]
  have r: "\<forall>j<2 ^ k. ring ! tr_slot q (tr_tail q + of_nat j) =
      (if j < 1 then [i40e_desc c (ns_store s m) ma] ! j else tr_ring q ! tr_slot q (tr_tail q + of_nat j))"
  proof (intro allI impI)
    fix j :: nat
    assume j: "j < 2 ^ k"
    show "ring ! tr_slot q (tr_tail q + of_nat j) =
      (if j < 1 then [i40e_desc c (ns_store s m) ma] ! j else tr_ring q ! tr_slot q (tr_tail q + of_nat j))"
      using i tail_slot_inj [OF sh j, of 0] by (auto simp: ring_def i_def)
  qed
  have nd: "\<not> i40e_tx_dd c (ring ! tr_slot q (tr_tail q + of_nat 0))"
    using i i40e_desc_unfinished [OF c] by (simp add: ring_def i_def)
  have "unfinished (i40e_tx_dd c) q \<longrightarrow> unfinished (i40e_tx_dd c) q'"
    using unfinished_append [where dd = "i40e_tx_dd c", OF a(1) room len q'_def _ nd] head_slot_kept [OF a(1,3) _ r] by blast
  then show "\<exists>q'. i40e_tx_xmit_one c env m (q, s) = Inr (0, q', s) \<and> tx_wf k q' \<and> flight q' = flight q @ replicate (1 - 1) NULL @ [m] \<and>
    flight_len q' = flight_len q + 1 \<and> (unfinished (i40e_tx_dd c) q \<longrightarrow> unfinished (i40e_tx_dd c) q')"
    using ap e by (intro exI [of _ q']) simp
next
  fix k s env m r s1 and q q1 :: i40e_tx_ring
  assume a: "tx_wf k q" "i40e_fit s m" "2 ^ k \<le> flight_len q + 1" "1 < (2 ^ k :: nat)"
    "tx_reclaim env (i40e_tx_dd c) q s = Inr (r, q1, s1)" "2 ^ k \<le> flight_len q1 + 1"
  show "i40e_tx_xmit_one c env m (q, s) = Inr (- EAGAIN, q1, s1)"
    using a(2) make_room_refused [OF a(1,3,4,5,6)] by (simp add: i40e_tx_xmit_one_def i40e_fit_def)
qed

end
