(* ===== verification/Ixgbe.thy ===== *)
theory Ixgbe
  imports Rx_Ring
begin

text \<open>
  The transmit side of the driver \<open>dp/drivers/ixgbe.c\<close>.  The bits of descriptors are defined by the device and named in DPDK; they are
  a parameter, with what the driver relies on stated as \<open>ixgbe_layout\<close>.
\<close>

section \<open>Descriptors\<close>

record ixgbe_bits =
  IXGBE_TXD_STAT_DD :: u32
  IXGBE_ADVTXD_DTYP_DATA :: u32
  IXGBE_ADVTXD_DTYP_CTXT :: u32
  IXGBE_ADVTXD_DCMD_IFCS :: u32
  IXGBE_ADVTXD_DCMD_DEXT :: u32
  IXGBE_ADVTXD_DCMD_EOP :: u32
  IXGBE_ADVTXD_DCMD_RS :: u32
  IXGBE_ADVTXD_POPTS_IXSM :: u32
  IXGBE_ADVTXD_POPTS_TXSM :: u32
  IXGBE_ADVTXD_CC :: u32
  IXGBE_ADVTXD_TUCMD_IPV4 :: u32
  IXGBE_ADVTXD_TUCMD_L4T_TCP :: u32
  IXGBE_ADVTXD_PAYLEN_SHIFT :: nat
  IXGBE_ADVTXD_IDX_SHIFT :: nat
  IXGBE_ADVTXD_MACLEN_SHIFT :: nat

text \<open>
  A descriptor of 16 bytes: what the driver writes, where the status the device writes back replaces \<open>olinfo_status\<close>.
\<close>

record ixgbe_tx_desc =
  td_buffer_addr :: u64
  td_cmd_type_len :: u32
  td_olinfo_status :: u32

type_synonym ixgbe_tx_ring = "ixgbe_tx_desc tx_ring"

definition ixgbe_tx_dd :: "ixgbe_bits \<Rightarrow> ixgbe_tx_desc \<Rightarrow> bool" where
  "ixgbe_tx_dd c d \<longleftrightarrow> td_olinfo_status d AND IXGBE_TXD_STAT_DD c \<noteq> 0"

text \<open>The bit for a finished descriptor is none of those the driver writes to the same place.\<close>

definition ixgbe_layout :: "ixgbe_bits \<Rightarrow> bool" where
  "ixgbe_layout c \<longleftrightarrow> (\<forall>x. push_bit (IXGBE_ADVTXD_PAYLEN_SHIFT c) x AND IXGBE_TXD_STAT_DD c = 0) \<and>
     IXGBE_ADVTXD_POPTS_IXSM c AND IXGBE_TXD_STAT_DD c = 0 \<and> IXGBE_ADVTXD_POPTS_TXSM c AND IXGBE_TXD_STAT_DD c = 0 \<and>
     IXGBE_ADVTXD_CC c AND IXGBE_TXD_STAT_DD c = 0"

section \<open>Operations\<close>

definition ixgbe_tx_reclaim :: "ixgbe_bits \<Rightarrow> net_env \<Rightarrow> ixgbe_tx_ring \<Rightarrow> net_state \<Rightarrow> (u16 \<times> ixgbe_tx_ring \<times> net_state) res" where
  "ixgbe_tx_reclaim c env q s = tx_reclaim env (ixgbe_tx_dd c) q s"

text \<open>The check for room, and the second one after reclaiming; the result tells whether the ring is full.\<close>

definition ixgbe_make_room :: "ixgbe_bits \<Rightarrow> net_env \<Rightarrow> u16 \<Rightarrow> ixgbe_tx_ring \<times> net_state \<Rightarrow> (bool \<times> ixgbe_tx_ring \<times> net_state) res" where
  "ixgbe_make_room c env n st = make_room env (ixgbe_tx_dd c) n st"

text \<open>
  A context descriptor, laid over the same 16 bytes: \<open>vlan_macip_lens\<close> and \<open>seqnum_seed\<close> first, then \<open>type_tucmd_mlhl\<close> and
  \<open>mss_l4len_idx\<close>.  \<open>cache\<close> has the flags of \<open>ctx_cache\<close>.
\<close>

definition ixgbe_tx_xmit_ctx ::
  "ixgbe_bits \<Rightarrow> net_env \<Rightarrow> u16 \<Rightarrow> nat \<Rightarrow> ixgbe_tx_ring \<times> net_state \<times> u16 list \<Rightarrow> (int \<times> ixgbe_tx_ring \<times> net_state \<times> u16 list) res" where
  "ixgbe_tx_xmit_ctx c env ol_flags ctx_idx st =
     (case st of (q, s, cache) \<Rightarrow>
      bindE (ixgbe_make_room c env 1 (q, s)) (\<lambda>(full, q1, s1).
      if full then Inr (- EAGAIN, q1, s1, cache)
      else if \<not> tx_ring_ok q1 \<or> length cache \<le> ctx_idx then Inl Out_of_bounds
      else let type_tucmd_mlhl = (IXGBE_ADVTXD_DTYP_CTXT c OR IXGBE_ADVTXD_DCMD_DEXT c)
                 OR (if ol_flags AND PKT_TX_IP_CKSUM \<noteq> 0 then IXGBE_ADVTXD_TUCMD_IPV4 c else 0)
                 OR (if ol_flags AND PKT_TX_TCP_CKSUM \<noteq> 0 then IXGBE_ADVTXD_TUCMD_L4T_TCP c else 0);
               mss_l4len_idx = push_bit (IXGBE_ADVTXD_IDX_SHIFT c) (of_nat ctx_idx);
               vlan_macip_lens = push_bit (IXGBE_ADVTXD_MACLEN_SHIFT c) (of_nat ETH_HDR_LEN) OR of_nat IP_HDR_LEN :: u32;
               i = tr_slot q1 (tr_tail q1);
               d = \<lparr>td_buffer_addr = ucast vlan_macip_lens, td_cmd_type_len = type_tucmd_mlhl, td_olinfo_status = mss_l4len_idx\<rparr>;
               q2 = q1\<lparr>tr_ring := (tr_ring q1)[i := d], tr_entries := (tr_entries q1)[i := NULL], tr_tail := tr_tail q1 + 1\<rparr>;
               q3 = q2\<lparr>tr_tdt := of_nat (tr_slot q2 (tr_tail q2))\<rparr>
           in Inr (0, q3, s1, cache[ctx_idx := ol_flags])))"

definition ixgbe_data_cmd :: "ixgbe_bits \<Rightarrow> u64 \<Rightarrow> bool \<Rightarrow> u32" where
  "ixgbe_data_cmd c len final =
     (IXGBE_ADVTXD_DTYP_DATA c OR IXGBE_ADVTXD_DCMD_IFCS c OR IXGBE_ADVTXD_DCMD_DEXT c) OR ucast len
     OR (if final then IXGBE_ADVTXD_DCMD_EOP c OR IXGBE_ADVTXD_DCMD_RS c else 0)"

definition ixgbe_olinfo :: "ixgbe_bits \<Rightarrow> u16 \<Rightarrow> u32" where
  "ixgbe_olinfo c ol_flags =
     (if ol_flags AND PKT_TX_IP_CKSUM \<noteq> 0 \<and> ol_flags AND PKT_TX_TCP_CKSUM \<noteq> 0
      then IXGBE_ADVTXD_POPTS_IXSM c OR IXGBE_ADVTXD_POPTS_TXSM c OR IXGBE_ADVTXD_CC c else 0)"

text \<open>The loop over the scatter-gather vectors, with the sum of the lengths.\<close>

definition ixgbe_iov_desc :: "ixgbe_bits \<Rightarrow> u32 \<Rightarrow> addr \<Rightarrow> mbuf \<Rightarrow> nat \<Rightarrow> ixgbe_tx_desc" where
  "ixgbe_iov_desc c olinfo m b i =
     (let iov = iov_at m b i
      in \<lparr>td_buffer_addr = iov_maddr iov, td_cmd_type_len = ixgbe_data_cmd c (iov_len iov) (i + 1 = unat (mb_nr_iov b)), td_olinfo_status = olinfo\<rparr>)"

primrec ixgbe_put_iovs :: "ixgbe_bits \<Rightarrow> u32 \<Rightarrow> addr \<Rightarrow> mbuf \<Rightarrow> nat list \<Rightarrow> ixgbe_tx_ring \<times> u32 \<Rightarrow> ixgbe_tx_ring \<times> u32" where
  "ixgbe_put_iovs c olinfo m b [] st = st"
| "ixgbe_put_iovs c olinfo m b (i # is) st =
     (case st of (q, pay_len) \<Rightarrow>
      ixgbe_put_iovs c olinfo m b is
        (q\<lparr>tr_ring := (tr_ring q)[tr_slot q (tr_tail q + of_nat (i + 1)) := ixgbe_iov_desc c olinfo m b i]\<rparr>,
         pay_len + ucast (iov_len (iov_at m b i))))"

definition ixgbe_tx_xmit_one ::
  "ixgbe_bits \<Rightarrow> net_env \<Rightarrow> addr \<Rightarrow> ixgbe_tx_ring \<times> net_state \<Rightarrow> (int \<times> ixgbe_tx_ring \<times> net_state) res" where
  "ixgbe_tx_xmit_one c env m st =
     (if m = NULL then Inl Null_deref
      else let nr_iov = mb_nr_iov (ns_store (snd st) m); len0 = ucast (mb_len (ns_store (snd st) m))
      in bindE (ixgbe_make_room c env (ucast nr_iov + 1) st) (\<lambda>(full, q, s).
         if full then Inr (- EAGAIN, q, s)
         else if \<not> tx_ring_ok q then Inl Out_of_bounds
         else let b = ns_store s m;
                  olinfo = ixgbe_olinfo c (mb_ol_flags b);
                  (q1, pay_len) = ixgbe_put_iovs c olinfo m b [0..<unat nr_iov] (q, len0);
                  q2 = q1\<lparr>tr_entries := (tr_entries q1)[tr_slot q1 (tr_tail q1 + ucast nr_iov) := m]\<rparr>
              in bindE (mbuf_get_data_machaddr m s) (\<lambda>ma.
                 let d = \<lparr>td_buffer_addr = ma, td_cmd_type_len = ixgbe_data_cmd c (mb_len b) (nr_iov = 0),
                          td_olinfo_status = push_bit (IXGBE_ADVTXD_PAYLEN_SHIFT c) pay_len OR olinfo\<rparr>;
                     q3 = q2\<lparr>tr_ring := (tr_ring q2)[tr_slot q2 (tr_tail q2) := d]\<rparr>
                 in Inr (0, q3\<lparr>tr_tail := tr_tail q3 + (ucast nr_iov + 1)\<rparr>, s))))"

definition ixgbe_tx_xmit ::
  "ixgbe_bits \<Rightarrow> net_env \<Rightarrow> addr list \<Rightarrow> ixgbe_tx_ring \<times> net_state \<Rightarrow> (int \<times> ixgbe_tx_ring \<times> net_state) res" where
  "ixgbe_tx_xmit c env mbufs st = tx_xmit (ixgbe_tx_xmit_one c env) mbufs st"

definition ixgbe_reset_tx_queue :: "ixgbe_tx_ring \<Rightarrow> ixgbe_tx_ring" where
  "ixgbe_reset_tx_queue q = reset_tx_queue q"

section \<open>One packet\<close>

lemma put_iovs_frame:
  assumes "ixgbe_put_iovs c ol m b is (q, p) = (q', p')"
  shows "q' = q\<lparr>tr_ring := tr_ring q'\<rparr>" "length (tr_ring q') = length (tr_ring q)"
    "p' = p + (\<Sum>i\<leftarrow>is. ucast (iov_len (iov_at m b i)))"
proof -
  have "q' = q\<lparr>tr_ring := tr_ring q'\<rparr> \<and> length (tr_ring q') = length (tr_ring q) \<and> p' = p + (\<Sum>i\<leftarrow>is. ucast (iov_len (iov_at m b i)))"
    using assms
  proof (induction "is" arbitrary: q p)
    case (Cons i "is")
    have "ixgbe_put_iovs c ol m b is (q\<lparr>tr_ring := (tr_ring q)[tr_slot q (tr_tail q + of_nat (i + 1)) := ixgbe_iov_desc c ol m b i]\<rparr>,
        p + ucast (iov_len (iov_at m b i))) = (q', p')" using Cons.prems by simp
    from Cons.IH [OF this] show ?case by (simp add: add.assoc)
  qed simp
  then show "q' = q\<lparr>tr_ring := tr_ring q'\<rparr>" "length (tr_ring q') = length (tr_ring q)"
    "p' = p + (\<Sum>i\<leftarrow>is. ucast (iov_len (iov_at m b i)))" by blast+
qed

lemma put_iovs_ring:
  assumes "ixgbe_put_iovs c ol m b [l..<n] (q, p) = (q', p')" "ring_shape k q" "l \<le> n" "n < 2 ^ k" "j < 2 ^ k"
  shows "tr_ring q' ! tr_slot q (tr_tail q + of_nat j) =
    (if l < j \<and> j \<le> n then ixgbe_iov_desc c ol m b (j - 1) else tr_ring q ! tr_slot q (tr_tail q + of_nat j))"
  using assms
proof (induction "n - l" arbitrary: l q p)
  case (Suc d)
  let ?q = "q\<lparr>tr_ring := (tr_ring q)[tr_slot q (tr_tail q + of_nat (l + 1)) := ixgbe_iov_desc c ol m b l]\<rparr>"
  have l: "l < n" "d = n - Suc l" using Suc.hyps(2) by simp_all
  have e: "ixgbe_put_iovs c ol m b [Suc l..<n] (?q, p + ucast (iov_len (iov_at m b l))) = (q', p')"
    using Suc.prems(1) l(1) by (simp add: upt_conv_Cons)
  have sh: "ring_shape k ?q" using Suc.prems(2) by (simp add: ring_shape_def)
  have eq: "tr_slot q (tr_tail q + of_nat (l + 1)) = tr_slot q (tr_tail q + of_nat j) \<longleftrightarrow> l + 1 = j"
    by (rule tail_slot_inj [OF Suc.prems(2)]) (use l Suc.prems in simp_all)
  have b: "tr_slot q (tr_tail q + of_nat j) < length (tr_ring q)"
    using tr_slot_bound [OF Suc.prems(2)] Suc.prems(2) by (simp add: ring_shape_def)
  have "tr_ring q' ! tr_slot q (tr_tail q + of_nat j) =
    (if Suc l < j \<and> j \<le> n then ixgbe_iov_desc c ol m b (j - 1) else tr_ring ?q ! tr_slot q (tr_tail q + of_nat j))"
    using Suc.hyps(1) [OF l(2) e sh _ Suc.prems(4,5)] l(1) by simp
  moreover have "tr_ring ?q ! tr_slot q (tr_tail q + of_nat j) =
    (if l + 1 = j then ixgbe_iov_desc c ol m b l else tr_ring q ! tr_slot q (tr_tail q + of_nat j))"
  proof (cases "l + 1 = j")
    case True
    then show ?thesis using b by (simp add: True [symmetric])
  next
    case False
    then show ?thesis using eq by (simp del: of_nat_Suc of_nat_add)
  qed
  ultimately show ?case using l(1) by (cases "l + 1 = j") auto
qed auto

text \<open>The descriptors of a packet: its header, then one for each scatter-gather vector.\<close>

definition ixgbe_frame :: "ixgbe_bits \<Rightarrow> addr \<Rightarrow> mbuf \<Rightarrow> u64 \<Rightarrow> ixgbe_tx_desc list" where
  "ixgbe_frame c m b ma =
     (let olinfo = ixgbe_olinfo c (mb_ol_flags b); n = unat (mb_nr_iov b);
          pay_len = ucast (mb_len b) + (\<Sum>i\<leftarrow>[0..<n]. ucast (iov_len (iov_at m b i)))
      in \<lparr>td_buffer_addr = ma, td_cmd_type_len = ixgbe_data_cmd c (mb_len b) (n = 0),
          td_olinfo_status = push_bit (IXGBE_ADVTXD_PAYLEN_SHIFT c) pay_len OR olinfo\<rparr> # map (ixgbe_iov_desc c olinfo m b) [0..<n])"

definition ixgbe_need :: "net_state \<Rightarrow> addr \<Rightarrow> nat" where
  "ixgbe_need s m = unat (mb_nr_iov (ns_store s m)) + 1"

definition ixgbe_fit :: "net_state \<Rightarrow> addr \<Rightarrow> bool" where
  "ixgbe_fit s m \<longleftrightarrow> m \<noteq> NULL \<and> unat (mb_nr_iov (ns_store s m)) < 2 ^ 15 \<and> (\<exists>ma. mbuf_get_data_machaddr m s = Inr ma)"

lemma ixgbe_xmit_room:
  assumes "tx_wf k q" "ixgbe_fit s m" "flight_len q + ixgbe_need s m < 2 ^ k" "mbuf_get_data_machaddr m s = Inr ma"
  shows "\<exists>ring. ixgbe_tx_xmit_one c env m (q, s) =
      Inr (0, q\<lparr>tr_ring := ring, tr_entries := (tr_entries q)[tr_slot q (tr_tail q + of_nat (ixgbe_need s m - 1)) := m],
             tr_tail := tr_tail q + of_nat (ixgbe_need s m)\<rparr>, s) \<and>
    length ring = 2 ^ k \<and>
    (\<forall>j<2 ^ k. ring ! tr_slot q (tr_tail q + of_nat j) =
       (if j < ixgbe_need s m then ixgbe_frame c m (ns_store s m) ma ! j else tr_ring q ! tr_slot q (tr_tail q + of_nat j)))"
proof -
  define b where "b = ns_store s m"
  define n where "n = unat (mb_nr_iov b)"
  define ol where "ol = ixgbe_olinfo c (mb_ol_flags b)"
  have sh: "ring_shape k q" using assms(1) by (rule tx_wf_shape)
  have need: "ixgbe_need s m = n + 1" by (simp add: ixgbe_need_def n_def b_def)
  have nk: "n < 2 ^ k" using assms(3) need by simp
  have nr: "(ucast (mb_nr_iov b) :: u16) = of_nat n" by (simp add: n_def unsigned_ucast_eq)
  have nr1: "(ucast (mb_nr_iov b) + 1 :: u16) = of_nat (n + 1)" using nr by simp
  obtain q1 pl where p: "ixgbe_put_iovs c ol m b [0..<n] (q, ucast (mb_len b)) = (q1, pl)" by fastforce
  note f = put_iovs_frame [OF p]
  define d where "d = \<lparr>td_buffer_addr = ma, td_cmd_type_len = ixgbe_data_cmd c (mb_len b) (mb_nr_iov b = 0),
    td_olinfo_status = push_bit (IXGBE_ADVTXD_PAYLEN_SHIFT c) pl OR ol\<rparr>"
  define ring where "ring = (tr_ring q1)[tr_slot q (tr_tail q) := d]"
  have l1: "length (tr_ring q1) = 2 ^ k" using f(2) sh by (simp add: ring_shape_def)
  have q1: "q1 = q\<lparr>tr_ring := tr_ring q1\<rparr>" by (rule f(1))
  have q1': "tr_len q1 = tr_len q" "tr_tail q1 = tr_tail q" "tr_entries q1 = tr_entries q" by (subst q1, simp)+
  have mr: "ixgbe_make_room c env (of_nat (n + 1)) (q, s) = Inr (False, q, s)" using make_room_free [OF assms(1), of "n + 1"] assms(3) need by (simp add: ixgbe_make_room_def)
  have ok: "tx_ring_ok q" using sh by (simp add: tx_ring_ok_def ring_shape_def unat_pow2)
  have "ixgbe_tx_xmit_one c env m (q, s) =
      Inr (0, q1\<lparr>tr_entries := (tr_entries q)[tr_slot q (tr_tail q + of_nat n) := m], tr_ring := ring, tr_tail := tr_tail q + of_nat (n + 1)\<rparr>, s)"
    using assms(2) unfolding ixgbe_tx_xmit_one_def Let_def snd_conv b_def [symmetric] ol_def [symmetric] nr1 n_def [symmetric] mr
    by (simp add: b_def [symmetric] ol_def [symmetric] ok p q1' assms(4) ixgbe_fit_def ring_def d_def nr)
  also have "q1\<lparr>tr_entries := (tr_entries q)[tr_slot q (tr_tail q + of_nat n) := m], tr_ring := ring, tr_tail := tr_tail q + of_nat (n + 1)\<rparr> =
    q\<lparr>tr_ring := ring, tr_entries := (tr_entries q)[tr_slot q (tr_tail q + of_nat n) := m], tr_tail := tr_tail q + of_nat (n + 1)\<rparr>"
    by (subst q1) simp
  finally have e: "ixgbe_tx_xmit_one c env m (q, s) =
      Inr (0, q\<lparr>tr_ring := ring, tr_entries := (tr_entries q)[tr_slot q (tr_tail q + of_nat (ixgbe_need s m - 1)) := m],
             tr_tail := tr_tail q + of_nat (ixgbe_need s m)\<rparr>, s)" by (simp add: need)
  have r: "ring ! tr_slot q (tr_tail q + of_nat j) =
       (if j < ixgbe_need s m then ixgbe_frame c m (ns_store s m) ma ! j else tr_ring q ! tr_slot q (tr_tail q + of_nat j))"
    if "j < 2 ^ k" for j
  proof (cases "j = 0")
    case True
    have "tr_slot q (tr_tail q) < length (tr_ring q1)" using tr_slot_bound [OF sh] l1 by simp
    then show ?thesis using True by (simp add: ring_def d_def ixgbe_frame_def need ol_def f(3) Let_def b_def [symmetric] n_def unat_eq_zero)
  next
    case False
    have "tr_slot q (tr_tail q + of_nat j) \<noteq> tr_slot q (tr_tail q)" using tail_slot_inj [OF sh that, of 0] False by simp
    then have "ring ! tr_slot q (tr_tail q + of_nat j) = tr_ring q1 ! tr_slot q (tr_tail q + of_nat j)" by (simp add: ring_def)
    also have "\<dots> = (if 0 < j \<and> j \<le> n then ixgbe_iov_desc c ol m b (j - 1) else tr_ring q ! tr_slot q (tr_tail q + of_nat j))"
      by (rule put_iovs_ring [OF p sh _ nk that]) simp
    finally show ?thesis using False by (simp add: need ixgbe_frame_def Let_def b_def [symmetric] n_def [symmetric] ol_def nth_Cons')
  qed
  show ?thesis using e r l1 by (intro exI [of _ ring]) (simp add: ring_def)
qed

lemma frame_length: "length (ixgbe_frame c m (ns_store s m) ma) = ixgbe_need s m"
  by (simp add: ixgbe_frame_def ixgbe_need_def Let_def)

lemma frame_unfinished:
  assumes "ixgbe_layout c" "d \<in> set (ixgbe_frame c m b ma)"
  shows "\<not> ixgbe_tx_dd c d"
proof -
  have l: "\<And>x. push_bit (IXGBE_ADVTXD_PAYLEN_SHIFT c) x AND IXGBE_TXD_STAT_DD c = 0" "IXGBE_ADVTXD_POPTS_IXSM c AND IXGBE_TXD_STAT_DD c = 0"
    "IXGBE_ADVTXD_POPTS_TXSM c AND IXGBE_TXD_STAT_DD c = 0" "IXGBE_ADVTXD_CC c AND IXGBE_TXD_STAT_DD c = 0"
    using assms(1) by (simp_all add: ixgbe_layout_def)
  have o: "ixgbe_olinfo c f AND IXGBE_TXD_STAT_DD c = 0" for f
    by (simp add: ixgbe_olinfo_def bit.conj_disj_distrib2 l)
  show ?thesis using assms(2) by (auto simp: ixgbe_frame_def ixgbe_iov_desc_def ixgbe_tx_dd_def Let_def bit.conj_disj_distrib2 l o)
qed

lemma ixgbe_tx_driver:
  assumes c: "ixgbe_layout c"
  shows "tx_driver (ixgbe_tx_xmit_one c) (ixgbe_tx_dd c) ixgbe_need ixgbe_fit"
proof
  show "0 < ixgbe_need s m" for s m by (simp add: ixgbe_need_def)
next
  fix k s env m and q :: ixgbe_tx_ring
  assume a: "tx_wf k q" "ixgbe_fit s m" "flight_len q + ixgbe_need s m < 2 ^ k"
  define n where "n = ixgbe_need s m - 1"
  have n: "ixgbe_need s m = n + 1" by (simp add: n_def ixgbe_need_def)
  obtain ma where ma: "mbuf_get_data_machaddr m s = Inr ma" using a(2) by (auto simp: ixgbe_fit_def)
  obtain ring where r: "ixgbe_tx_xmit_one c env m (q, s) =
      Inr (0, q\<lparr>tr_ring := ring, tr_entries := (tr_entries q)[tr_slot q (tr_tail q + of_nat (ixgbe_need s m - 1)) := m],
             tr_tail := tr_tail q + of_nat (ixgbe_need s m)\<rparr>, s)" "length ring = 2 ^ k"
    "\<forall>j<2 ^ k. ring ! tr_slot q (tr_tail q + of_nat j) =
       (if j < ixgbe_need s m then ixgbe_frame c m (ns_store s m) ma ! j else tr_ring q ! tr_slot q (tr_tail q + of_nat j))"
    using ixgbe_xmit_room [OF a ma, of c env] by blast
  define q' where "q' = q\<lparr>tr_ring := ring, tr_entries := (tr_entries q)[tr_slot q (tr_tail q + of_nat n) := m], tr_tail := tr_tail q + of_nat (n + 1)\<rparr>"
  have room: "flight_len q + n + 1 < 2 ^ k" using a(3) n by simp
  note ap = tx_append [OF a(1) room r(2) q'_def]
  have "ring ! tr_slot q (tr_tail q + of_nat n) = ixgbe_frame c m (ns_store s m) ma ! n" using r(3) room n by simp
  moreover have "ixgbe_frame c m (ns_store s m) ma ! n \<in> set (ixgbe_frame c m (ns_store s m) ma)" by (simp add: frame_length n)
  ultimately have nd: "\<not> ixgbe_tx_dd c (ring ! tr_slot q (tr_tail q + of_nat n))" using frame_unfinished [OF c] by simp
  have "unfinished (ixgbe_tx_dd c) q \<longrightarrow> unfinished (ixgbe_tx_dd c) q'"
    using unfinished_append [where dd = "ixgbe_tx_dd c", OF a(1) room r(2) q'_def _ nd] head_slot_kept [OF a(1,3) _ r(3)] by blast
  then show "\<exists>q'. ixgbe_tx_xmit_one c env m (q, s) = Inr (0, q', s) \<and> tx_wf k q' \<and>
    flight q' = flight q @ replicate (ixgbe_need s m - 1) NULL @ [m] \<and> flight_len q' = flight_len q + ixgbe_need s m \<and>
    (unfinished (ixgbe_tx_dd c) q \<longrightarrow> unfinished (ixgbe_tx_dd c) q')"
    using ap r(1) n by (intro exI [of _ q']) (simp add: q'_def)
next
  fix k s env m r s1 and q q1 :: ixgbe_tx_ring
  assume a: "tx_wf k q" "ixgbe_fit s m" "2 ^ k \<le> flight_len q + ixgbe_need s m" "ixgbe_need s m < 2 ^ k"
    "tx_reclaim env (ixgbe_tx_dd c) q s = Inr (r, q1, s1)" "2 ^ k \<le> flight_len q1 + ixgbe_need s m"
  have e: "(ucast (mb_nr_iov (ns_store s m)) + 1 :: u16) = of_nat (ixgbe_need s m)" by (simp add: ixgbe_need_def unsigned_ucast_eq)
  show "ixgbe_tx_xmit_one c env m (q, s) = Inr (- EAGAIN, q1, s1)"
    using a(2) make_room_refused [OF a(1,3,4,5,6)] by (simp add: ixgbe_tx_xmit_one_def ixgbe_make_room_def ixgbe_fit_def e Let_def)
qed

end
