(* ===== verification/Ixgbe_Dev.thy ===== *)
theory Ixgbe_Dev
  imports Ixgbe Atomic
begin

text \<open>
  The driver \<open>dp/drivers/ixgbe.c\<close> apart from transmission: reception, the setup of queues, the start of the device and the redirection
  table.  Registers of the device are a log of writes, and the table a function of the register number.
\<close>

section \<open>Reception\<close>

record ixgbe_rx_bits =
  IXGBE_RXDADV_STAT_DD :: u32
  IXGBE_RXDADV_STAT_FLM :: u32
  IXGBE_RXD_STAT_IPCS :: u32
  IXGBE_RXD_STAT_L4CS :: u32
  IXGBE_RXDADV_ERR_IPE :: u32
  IXGBE_RXDADV_ERR_TCPE :: u32

text \<open>
  A descriptor of 16 bytes.  What the device writes back lies over the two addresses: the hash in the upper half of the first, status and
  length in the second.
\<close>

record ixgbe_rx_desc =
  rd_pkt_addr :: u64
  rd_hdr_addr :: u64

definition rd_status_error :: "ixgbe_rx_desc \<Rightarrow> u32" where
  "rd_status_error d = ucast (rd_hdr_addr d)"

definition rd_length :: "ixgbe_rx_desc \<Rightarrow> u16" where
  "rd_length d = ucast (drop_bit 32 (rd_hdr_addr d))"

definition rd_rss :: "ixgbe_rx_desc \<Rightarrow> u32" where
  "rd_rss d = ucast (drop_bit 32 (rd_pkt_addr d))"

definition ixgbe_rx_format :: "ixgbe_rx_bits \<Rightarrow> ixgbe_rx_desc rx_format" where
  "ixgbe_rx_format c =
     \<lparr>rf_dd = (\<lambda>d. rd_status_error d AND IXGBE_RXDADV_STAT_DD c \<noteq> 0),
      rf_bad = (\<lambda>d. (rd_status_error d AND IXGBE_RXD_STAT_IPCS c \<noteq> 0 \<and> rd_status_error d AND IXGBE_RXDADV_ERR_IPE c \<noteq> 0) \<or>
                    (rd_status_error d AND IXGBE_RXD_STAT_L4CS c \<noteq> 0 \<and> rd_status_error d AND IXGBE_RXDADV_ERR_TCPE c \<noteq> 0)),
      rf_len = (\<lambda>d. ucast (rd_length d)),
      rf_rss = (\<lambda>d. if rd_status_error d AND IXGBE_RXDADV_STAT_FLM c \<noteq> 0 then None else Some (rd_rss d)),
      rf_fill = (\<lambda>ma. \<lparr>rd_pkt_addr = ma, rd_hdr_addr = ma\<rparr>)\<rparr>"

type_synonym ixgbe_rx_ring = "ixgbe_rx_desc rx_ring"

definition ixgbe_alloc_rx_mbufs :: "net_env \<Rightarrow> ixgbe_rx_ring \<times> net_state \<Rightarrow> (int \<times> ixgbe_rx_ring \<times> net_state) res" where
  "ixgbe_alloc_rx_mbufs env st = alloc_rx_mbufs env (\<lambda>ma. \<lparr>rd_pkt_addr = ma, rd_hdr_addr = ma\<rparr>) st"

definition ixgbe_rx_poll ::
  "ixgbe_rx_bits \<Rightarrow> net_env \<Rightarrow> u16 list \<Rightarrow> (nat \<Rightarrow> u64) \<Rightarrow> ixgbe_rx_ring \<times> net_state \<Rightarrow> (int \<times> ixgbe_rx_ring \<times> net_state) res option" where
  "ixgbe_rx_poll c env fgs tsc st = rx_poll env (ixgbe_rx_format c) fgs tsc st"

definition ixgbe_rx_ready :: "ixgbe_rx_bits \<Rightarrow> ixgbe_rx_ring \<Rightarrow> bool" where
  "ixgbe_rx_ready c q = rx_ready (ixgbe_rx_format c) q"

text \<open>The bit for a finished descriptor is bit 0; no buffer starts at an odd address.\<close>

lemma ixgbe_refills:
  assumes "IXGBE_RXDADV_STAT_DD c = 1" "\<forall>p\<in>U. \<exists>ma. page_machaddr (mbuf_addr p 0) mm = Inr ma \<and> even ma"
  shows "rx_refills (ixgbe_rx_format c) mm U"
  unfolding rx_refills_def
proof
  fix p
  assume "p \<in> U"
  then obtain ma where ma: "page_machaddr (mbuf_addr p 0) mm = Inr ma" "even ma" using assms(2) by blast
  have "(ucast ma :: u32) AND 1 = 0" by (rule bit_word_eqI) (use ma(2) in \<open>auto simp: bit_simps bit_0\<close>)
  then show "\<exists>ma. page_machaddr (mbuf_addr p 0) mm = Inr ma \<and> \<not> rf_dd (ixgbe_rx_format c) (rf_fill (ixgbe_rx_format c) ma)"
    using ma(1) assms(1) by (intro exI [of _ ma]) (simp add: ixgbe_rx_format_def rd_status_error_def)
qed

section \<open>The redirection table\<close>

record rte_eth_rss_reta =
  reta_mask :: "u64 list"
  reta_reta :: "u16 list"

text \<open>The new value of a register with four entries, of which \<open>mask\<close> are to change.\<close>

definition reta_entry :: "rte_eth_rss_reta \<Rightarrow> u8 \<Rightarrow> u8 \<Rightarrow> nat \<Rightarrow> u32 \<Rightarrow> u32" where
  "reta_entry conf i msk j reta =
     (if bit msk j
      then (if msk \<noteq> 0xF then reta AND NOT (push_bit (8 * j) 0xFF) else reta) OR push_bit (8 * j) (ucast (reta_reta conf ! (unat i + j)))
      else reta)"

definition reta_word :: "rte_eth_rss_reta \<Rightarrow> u8 \<Rightarrow> u8 \<Rightarrow> u32 \<Rightarrow> u32" where
  "reta_word conf i msk old = fold (reta_entry conf i msk) [0..<4] (if msk \<noteq> 0xF then old else 0)"

text \<open>The loop, with \<open>i\<close> a byte.\<close>

partial_function (option) reta_loop :: "u16 \<Rightarrow> rte_eth_rss_reta \<Rightarrow> u8 \<Rightarrow> (nat \<Rightarrow> u32) \<Rightarrow> (nat \<Rightarrow> u32) res option" where
  "reta_loop nb_rx_fgs conf i regs =
     (if unat i < unat nb_rx_fgs
      then if length (reta_mask conf) \<le> BITMAP_POS_IDX (uint i) \<or> length (reta_reta conf) < unat i + 4 then Some (Inl Out_of_bounds)
      else let msk = ucast (drop_bit (BITMAP_POS_SHIFT (uint i)) (reta_mask conf ! BITMAP_POS_IDX (uint i))) AND 0xF :: u8;
               r = unat (drop_bit 2 i);
               regs1 = (if msk \<noteq> 0 then regs(r := reta_word conf i msk (regs r)) else regs)
           in reta_loop nb_rx_fgs conf (i + 4) regs1
      else Some (Inr regs))"

declare reta_loop.simps [code]

definition reta_update ::
  "u16 \<Rightarrow> rte_eth_rss_reta \<Rightarrow> bool \<times> (nat \<Rightarrow> u32) \<Rightarrow> (int \<times> bool \<times> (nat \<Rightarrow> u32)) res option" where
  "reta_update nb_rx_fgs conf st =
     (case st of (locked, regs) \<Rightarrow>
      bindR (spin_lock locked) (\<lambda>l. bindR (reta_loop nb_rx_fgs conf 0 regs) (\<lambda>regs1. Some (Inr (0, spin_unlock l, regs1)))))"

text \<open>Entry \<open>e\<close> of the table, and whether the mask asks to change it.\<close>

definition reta_at :: "(nat \<Rightarrow> u32) \<Rightarrow> nat \<Rightarrow> u8" where
  "reta_at regs e = ucast (drop_bit (8 * (e mod 4)) (regs (e div 4)))"

definition reta_selected :: "rte_eth_rss_reta \<Rightarrow> nat \<Rightarrow> bool" where
  "reta_selected conf e \<longleftrightarrow> bit (reta_mask conf ! (e div 64)) (e mod 64)"

definition reta_byte :: "u32 \<Rightarrow> nat \<Rightarrow> u8" where
  "reta_byte r j = ucast (drop_bit (8 * j) r)"

lemma reta_byte_or:
  fixes r v :: u32
  assumes "j < 4" "j' < 4" "v = ucast (x :: u8)"
  shows "reta_byte (r OR push_bit (8 * j) v) j' = (if j' = j then reta_byte r j OR x else reta_byte r j')"
proof (rule bit_word_eqI)
  fix n
  assume "n < LENGTH(8)"
  then have n: "n < 8" by simp
  have "8 * j \<le> 8 * j' + n \<and> 8 * j' + n - 8 * j < 8 \<longleftrightarrow> j' = j" using n by linarith
  then show "bit (reta_byte (r OR push_bit (8 * j) v) j') n = bit (if j' = j then reta_byte r j OR x else reta_byte r j') n"
    using n assms by (auto simp: reta_byte_def bit_simps dest: bit_imp_le_length)
qed

lemma reta_byte_clear:
  assumes "j < 4" "j' < 4"
  shows "reta_byte (r AND NOT (push_bit (8 * j) 0xFF)) j' = (if j' = j then 0 else reta_byte r j')"
proof (rule bit_word_eqI)
  fix n
  assume "n < LENGTH(8)"
  then have n: "n < 8" by simp
  have m: "(0xFF :: u32) = mask 8" by (simp add: mask_eq_exp_minus_1)
  have "8 * j \<le> 8 * j' + n \<and> 8 * j' + n - 8 * j < 8 \<longleftrightarrow> j' = j" using n by linarith
  then show "bit (reta_byte (r AND NOT (push_bit (8 * j) 0xFF)) j') n = bit (if j' = j then 0 else reta_byte r j') n"
    using n assms unfolding m by (auto simp: reta_byte_def bit_simps)
qed

lemma ucast_small:
  fixes v :: u16
  assumes "v < 256"
  shows "(ucast v :: u32) = ucast (ucast v :: u8)"
proof -
  have "unat v < 256" using assms by (simp add: word_less_nat_alt)
  then have "unat (take_bit 8 v) = unat v" by (simp only: unsigned_take_bit_eq) (simp add: take_bit_nat_eq_self)
  then have "take_bit 8 v = v" by (rule unsigned_word_eqI)
  then have "bit v n \<Longrightarrow> n < 8" for n by (metis bit_take_bit_iff)
  then show ?thesis by (intro bit_word_eqI) (auto simp: bit_simps)
qed

lemma reta_entry_byte:
  assumes "j < 4" "j' < 4" "reta_reta conf ! (unat i + j) < 256" "msk = 0xF \<longrightarrow> reta_byte r j = 0"
  shows "reta_byte (reta_entry conf i msk j r) j' = (if j' = j \<and> bit msk j then ucast (reta_reta conf ! (unat i + j)) else reta_byte r j')"
  using reta_byte_or [OF assms(1,2) ucast_small [OF assms(3)]] assms(4) reta_byte_clear [OF assms(1,2), of r] reta_byte_clear [OF assms(1,1), of r]
  by (auto simp: reta_entry_def)

lemma reta_word_byte:
  assumes "j < 4" "\<And>j. j < 4 \<Longrightarrow> reta_reta conf ! (unat i + j) < 256"
  shows "reta_byte (reta_word conf i msk old) j = (if bit msk j then ucast (reta_reta conf ! (unat i + j)) else reta_byte old j)"
proof -
  let ?r = "if msk \<noteq> 0xF then old else 0"
  have f: "\<forall>j<4. reta_byte (fold (reta_entry conf i msk) [0..<n] ?r) j =
    (if j < n \<and> bit msk j then ucast (reta_reta conf ! (unat i + j)) else reta_byte ?r j)" if "n \<le> 4" for n
    using that
  proof (induction n)
    case (Suc n)
    have IH: "\<And>j. j < 4 \<Longrightarrow> reta_byte (fold (reta_entry conf i msk) [0..<n] ?r) j =
      (if j < n \<and> bit msk j then ucast (reta_reta conf ! (unat i + j)) else reta_byte ?r j)" using Suc by simp
    show ?case
    proof (intro allI impI)
      fix j :: nat
      assume j: "j < 4"
      have z: "msk = 0xF \<longrightarrow> reta_byte (fold (reta_entry conf i msk) [0..<n] ?r) n = 0" using IH [of n] Suc.prems by (auto simp: reta_byte_def)
      show "reta_byte (fold (reta_entry conf i msk) [0..<Suc n] ?r) j =
        (if j < Suc n \<and> bit msk j then ucast (reta_reta conf ! (unat i + j)) else reta_byte ?r j)"
        using reta_entry_byte [OF _ j assms(2) z] IH [OF j] Suc.prems by (auto simp: less_Suc_eq)
    qed
  qed simp
  have "msk = 0xF \<Longrightarrow> bit msk j" using assms(1) by (auto simp: less_Suc_eq numeral_eq_Suc)
  then show ?thesis using f [of 4] assms(1) by (auto simp: reta_word_def)
qed

lemma reta_index: "a < 64 \<Longrightarrow> i = (of_nat (4 * a) :: u8) \<Longrightarrow> unat i = 4 * a"
  by (simp only: unsigned_of_nat) (simp add: take_bit_nat_eq_self)

text \<open>The mask of the four entries from \<open>4 * a\<close>.\<close>

lemma reta_msk:
  fixes i :: u8
  assumes "a < 64" "i = of_nat (4 * a)" "j < 4"
  shows "bit (ucast (drop_bit (BITMAP_POS_SHIFT (uint i)) (reta_mask conf ! BITMAP_POS_IDX (uint i))) AND 0xF :: u8) j = reta_selected conf (4 * a + j)"
proof -
  have u: "unat i = 4 * a" using assms(1,2) by (rule reta_index)
  have "uint i = int (unat i)" by simp
  then have ui: "uint i = int (4 * a)" by (simp only: u)
  have d: "(4 * a + j) div 64 = 4 * a div 64" "(4 * a + j) mod 64 = 4 * a mod 64 + j"
  proof -
    have "4 * a mod 64 = 4 * (a mod 16)" using mult_mod_right [of 4 a 16] by simp
    moreover have "a mod 16 \<le> 15" using mod_less_divisor [of 16 a] by linarith
    ultimately have l: "4 * a mod 64 + j < 64" using assms(3) by linarith
    have e: "4 * a + j = (4 * a mod 64 + j) + 4 * a div 64 * 64" using div_mult_mod_eq [of "4 * a" 64] by linarith
    have "((4 * a mod 64 + j) + 4 * a div 64 * 64) div 64 = 4 * a div 64 + (4 * a mod 64 + j) div 64" by (rule div_mult_self1) simp
    then show "(4 * a + j) div 64 = 4 * a div 64" using l by (simp only: e [symmetric] div_less add_0_right)
    have "((4 * a mod 64 + j) + 4 * a div 64 * 64) mod 64 = (4 * a mod 64 + j) mod 64" by (rule mod_mult_self1)
    then show "(4 * a + j) mod 64 = 4 * a mod 64 + j" using l by (simp only: e [symmetric] mod_less)
  qed
  have p: "BITMAP_POS_IDX (uint i) = 4 * a div 64" "BITMAP_POS_SHIFT (uint i) = 4 * a mod 64"
    using bitmap_pos [of "uint i"] assms(1) ui by (simp_all add: nat_mult_distrib)
  have m: "(0xF :: u8) = mask 4" by (simp add: mask_eq_exp_minus_1)
  show ?thesis unfolding p m reta_selected_def d using assms(3) by (simp add: bit_simps add.commute)
qed

text \<open>The whole table, for at most 252 entries.\<close>

lemma reta_loop_updates:
  assumes "a \<le> t" "t < 64" "nb = of_nat (4 * t)" "4 \<le> length (reta_mask conf)" "256 \<le> length (reta_reta conf)" "\<And>e. e < 4 * t \<Longrightarrow> reta_reta conf ! e < 256"
  shows "\<exists>regs'. reta_loop nb conf (of_nat (4 * a)) regs = Some (Inr regs') \<and>
    (\<forall>e. reta_at regs' e = (if 4 * a \<le> e \<and> e < 4 * t \<and> reta_selected conf e then ucast (reta_reta conf ! e) else reta_at regs e))"
  using assms(1)
proof (induction "t - a" arbitrary: a regs)
  case 0
  have "unat nb = 4 * t" unfolding assms(3) using assms(2) by (simp only: unsigned_of_nat) (simp add: take_bit_nat_eq_self)
  moreover have "a = t" using 0 by simp
  ultimately show ?case using reta_index [OF assms(2) refl] by (subst reta_loop.simps) (auto simp del: of_nat_mult)
next
  case (Suc d)
  define i where "i = (of_nat (4 * a) :: u8)"
  have a: "a < t" "a < 64" "d = t - Suc a" using Suc.hyps(2) assms(2) by simp_all
  have nb: "unat nb = 4 * t" unfolding assms(3) using assms(2) by (simp only: unsigned_of_nat) (simp add: take_bit_nat_eq_self)
  have ui: "unat i = 4 * a" using a(2) i_def by (rule reta_index)
  have "uint i = int (unat i)" by simp
  then have ui': "uint i = int (4 * a)" by (simp only: ui)
  have ix: "BITMAP_POS_IDX (uint i) = 4 * a div 64" using bitmap_pos [of "uint i"] a(2) ui' by (simp add: nat_mult_distrib)
  have r: "unat (drop_bit 2 i) = a" using ui a(2) by (simp only: unsigned_drop_bit_eq) (simp add: drop_bit_eq_div take_bit_nat_eq_self)
  define msk :: u8 where "msk = ucast (drop_bit (BITMAP_POS_SHIFT (uint i)) (reta_mask conf ! BITMAP_POS_IDX (uint i))) AND 0xF"
  define regs1 where "regs1 = (if msk \<noteq> 0 then regs(a := reta_word conf i msk (regs a)) else regs)"
  have mb: "bit msk j = reta_selected conf (4 * a + j)" if "j < 4" for j
    unfolding msk_def by (rule reta_msk [OF a(2) i_def that])
  have i4: "i + 4 = of_nat (4 * Suc a)" by (simp add: i_def)
  have "4 * a div 64 < 4" using a(2) by simp
  then have g: "unat i < unat nb" "\<not> length (reta_mask conf) \<le> BITMAP_POS_IDX (uint i)" "\<not> length (reta_reta conf) < unat i + 4"
    using a(1,2) assms(4,5) nb ui unfolding ix by linarith+
  have step: "reta_loop nb conf i regs = reta_loop nb conf (of_nat (4 * Suc a)) regs1"
    by (subst reta_loop.simps) (simp only: g if_True if_False simp_thms Let_def msk_def [symmetric] r regs1_def [symmetric] i4)
  have e1: "reta_at regs1 e = (if 4 * a \<le> e \<and> e < 4 * Suc a \<and> reta_selected conf e then ucast (reta_reta conf ! e) else reta_at regs e)" for e
  proof (cases "e div 4 = a")
    case True
    define j where "j = e mod 4"
    have j: "j < 4" "e = 4 * a + j" using True by (auto simp: j_def)
    have b: "reta_byte (reta_word conf i msk (regs a)) j = (if bit msk j then ucast (reta_reta conf ! e) else reta_byte (regs a) j)"
      using reta_word_byte [OF j(1), of conf i msk "regs a"] assms(6) ui a(1) j(2) by simp
    have z: "msk = 0 \<Longrightarrow> \<not> reta_selected conf e" using mb [OF j(1)] j(2) by simp
    have r: "reta_at R e = reta_byte (R a) j" for R using True by (simp add: reta_at_def reta_byte_def j_def)
    show ?thesis unfolding r using b z mb [OF j(1)] j by (auto simp: regs1_def)
  next
    case False
    then have "\<not> (4 * a \<le> e \<and> e < 4 * Suc a)" by auto
    then show ?thesis using False by (auto simp: reta_at_def regs1_def)
  qed
  obtain regs' where h: "reta_loop nb conf (of_nat (4 * Suc a)) regs1 = Some (Inr regs')"
    "\<forall>e. reta_at regs' e = (if 4 * Suc a \<le> e \<and> e < 4 * t \<and> reta_selected conf e then ucast (reta_reta conf ! e) else reta_at regs1 e)"
    using Suc.hyps(1) [OF a(3), of regs1] a(1) by auto
  have "reta_at regs' e = (if 4 * a \<le> e \<and> e < 4 * t \<and> reta_selected conf e then ucast (reta_reta conf ! e) else reta_at regs e)" for e
    using h(2) e1 [of e] a(1) by auto
  then show ?case using step h(1) unfolding i_def by auto
qed

text \<open>From 253 entries on the counter wraps before it reaches the end.\<close>

lemma reta_loop_endless:
  assumes "253 \<le> unat nb" "4 \<le> length (reta_mask conf)" "256 \<le> length (reta_reta conf)" "4 dvd unat i"
  shows "reta_loop nb conf i regs = None"
proof -
  have "253 \<le> unat nb \<and> 4 \<le> length (reta_mask conf) \<and> 256 \<le> length (reta_reta conf) \<and> 4 dvd unat i \<longrightarrow> False" if "reta_loop nb conf i regs = Some y" for y
  proof (rule reta_loop.raw_induct [OF _ that], intro impI)
    fix f :: "u16 \<Rightarrow> rte_eth_rss_reta \<Rightarrow> u8 \<Rightarrow> (nat \<Rightarrow> u32) \<Rightarrow> (nat \<Rightarrow> u32) res option" and nb conf i regs y
    assume IH: "\<And>nb conf i regs y. f nb conf i regs = Some y \<Longrightarrow>
        253 \<le> unat nb \<and> 4 \<le> length (reta_mask conf) \<and> 256 \<le> length (reta_reta conf) \<and> 4 dvd unat i \<longrightarrow> False"
      and body: "(if unat i < unat nb
        then if length (reta_mask conf) \<le> BITMAP_POS_IDX (uint i) \<or> length (reta_reta conf) < unat i + 4 then Some (Inl Out_of_bounds)
        else let msk = ucast (drop_bit (BITMAP_POS_SHIFT (uint i)) (reta_mask conf ! BITMAP_POS_IDX (uint i))) AND 0xF :: u8;
                 r = unat (drop_bit 2 i);
                 regs1 = (if msk \<noteq> 0 then regs(r := reta_word conf i msk (regs r)) else regs)
             in f nb conf (i + 4) regs1
        else Some (Inr regs)) = Some y"
      and c: "253 \<le> unat nb \<and> 4 \<le> length (reta_mask conf) \<and> 256 \<le> length (reta_reta conf) \<and> 4 dvd unat i"
    have "unat i < 2 ^ LENGTH(8)" by (rule unsigned_less)
    then have i: "unat i \<le> 252" using c by (auto elim!: dvdE)
    have "uint i < 2 ^ LENGTH(8)" by (rule unsigned_less)
    then have ix: "BITMAP_POS_IDX (uint i) = unat i div 64" using bitmap_pos [of "uint i"] by simp
    have "4 dvd unat (i + 4)" using c by (simp add: unat_word_ariths dvd_mod_iff)
    moreover obtain regs1 where "f nb conf (i + 4) regs1 = Some y" using body i ix c by (auto simp: Let_def split: if_splits)
    ultimately show False using IH c by blast
  qed
  then show ?thesis using assms by (cases "reta_loop nb conf i regs") auto
qed

section \<open>Setup of queues\<close>

definition IXGBE_ALIGN :: u64 where "IXGBE_ALIGN = 128"
definition IXGBE_MIN_RING_DESC :: u16 where "IXGBE_MIN_RING_DESC = 64"
definition IXGBE_MAX_RING_DESC :: u16 where "IXGBE_MAX_RING_DESC = 4096"

text \<open>A descriptor has 16 bytes.\<close>

definition ixgbe_desc_count_ok :: "u16 \<Rightarrow> bool" where
  "ixgbe_desc_count_ok nb_desc \<longleftrightarrow>
     \<not> (unat nb_desc * 16 mod unat IXGBE_ALIGN \<noteq> 0 \<or> nb_desc > IXGBE_MAX_RING_DESC \<or> nb_desc < IXGBE_MIN_RING_DESC) \<and>
     \<not> nb_desc AND (nb_desc - 1) \<noteq> 0"

text \<open>\<open>sz\<close> is the size of \<open>struct rx_queue\<close>.  The ring is followed by its machine address.\<close>

definition ixgbe_rx_queue_setup :: "os \<Rightarrow> int \<Rightarrow> u64 \<Rightarrow> int \<Rightarrow> u16 \<Rightarrow> mm \<Rightarrow> int \<times> (ixgbe_rx_ring \<times> u64) option \<times> mm" where
  "ixgbe_rx_queue_setup os dpdk_ret sz numa_node nb_desc mm =
     (if \<not> ixgbe_desc_count_ok nb_desc then (- EINVAL, None, mm)
      else let (ret, phys, mm1) = ring_page os dpdk_ret numa_node (align_up sz IXGBE_ALIGN) mm
      in if ret \<noteq> 0 then (ret, None, mm1)
         else (0, Some (fresh_rx_ring \<lparr>rd_pkt_addr = 0, rd_hdr_addr = 0\<rparr> nb_desc, phys), mm1))"

definition ixgbe_tx_queue_setup :: "os \<Rightarrow> int \<Rightarrow> u64 \<Rightarrow> int \<Rightarrow> u16 \<Rightarrow> mm \<Rightarrow> int \<times> (ixgbe_tx_ring \<times> u64) option \<times> mm" where
  "ixgbe_tx_queue_setup os dpdk_ret sz numa_node nb_desc mm =
     (if \<not> ixgbe_desc_count_ok nb_desc then (- EINVAL, None, mm)
      else let (ret, phys, mm1) = ring_page os dpdk_ret numa_node (align_up sz IXGBE_ALIGN) mm
      in if ret \<noteq> 0 then (ret, None, mm1)
         else (0, Some (fresh_tx_ring \<lparr>td_buffer_addr = 0, td_cmd_type_len = 0, td_olinfo_status = 0\<rparr> nb_desc, phys), mm1))"

lemma ixgbe_desc_count:
  assumes "ixgbe_desc_count_ok n"
  shows "\<exists>k. 6 \<le> k \<and> k \<le> 12 \<and> n = 2 ^ k"
proof -
  have n: "64 \<le> n" "n \<le> 4096" "n AND (n - 1) = 0"
    using assms by (simp_all add: ixgbe_desc_count_ok_def IXGBE_MAX_RING_DESC_def IXGBE_MIN_RING_DESC_def not_less)
  have "n \<noteq> 0" using n(1) by auto
  then obtain k where k: "k < 16" "n = 2 ^ k" using pow2_word n(3) by blast
  have "2 ^ 6 \<le> (2 :: nat) ^ k" "(2 :: nat) ^ k \<le> 2 ^ 12" using n(1,2) unat_pow2 [OF k(1)] by (simp_all add: k(2) word_le_nat_alt)
  then show ?thesis using k(2) by (intro exI [of _ k]) (simp add: power_le_imp_le_exp [of 2])
qed

lemma ixgbe_tx_queue_fresh:
  assumes "ixgbe_tx_queue_setup os dpdk_ret sz numa_node nb_desc mm = (0, Some (q, phys), mm')"
  shows "\<exists>k. 6 \<le> k \<and> k \<le> 12 \<and> nb_desc = 2 ^ k \<and> tx_wf k q \<and> flight q = []"
proof -
  have ok: "ixgbe_desc_count_ok nb_desc"
    and q: "q = fresh_tx_ring \<lparr>td_buffer_addr = 0, td_cmd_type_len = 0, td_olinfo_status = 0\<rparr> nb_desc"
    using assms by (auto simp: ixgbe_tx_queue_setup_def Let_def split: if_splits prod.splits)
  from ixgbe_desc_count [OF ok] obtain k where k: "6 \<le> k" "k \<le> 12" "nb_desc = 2 ^ k" by blast
  then show ?thesis using fresh_tx_ring_wf [of k "\<lparr>td_buffer_addr = 0, td_cmd_type_len = 0, td_olinfo_status = 0\<rparr>"] q by auto
qed

section \<open>Starting the device\<close>

record ixgbe_rxq =
  xr_ring :: ixgbe_rx_ring
  xr_physaddr :: u64
  xr_reg_idx :: u16

record ixgbe_txq =
  xt_ring :: ixgbe_tx_ring
  xt_physaddr :: u64
  xt_reg_idx :: u16
  xt_ctx_cache :: "u16 list"

text \<open>The registers that are written, by their macros.\<close>

datatype ixgbe_reg =
    IXGBE_RDBAL nat | IXGBE_RDBAH nat | IXGBE_RDLEN nat
  | IXGBE_TDBAL nat | IXGBE_TDBAH nat | IXGBE_TDLEN nat
  | IXGBE_VFRDBAL nat | IXGBE_VFRDBAH nat | IXGBE_VFRDLEN nat
  | IXGBE_VFTDBAL nat | IXGBE_VFTDBAH nat | IXGBE_VFTDLEN nat

type_synonym reg_log = "(ixgbe_reg \<times> u32) list"

definition rx_regs :: "nat \<Rightarrow> ixgbe_rxq \<Rightarrow> reg_log" where
  "rx_regs i q =
     [(IXGBE_RDBAL (unat (xr_reg_idx q)), ucast (xr_physaddr q AND 0x00000000ffffffff)),
      (IXGBE_RDBAH (unat (xr_reg_idx q)), ucast (drop_bit 32 (xr_physaddr q))),
      (IXGBE_RDLEN (unat (xr_reg_idx q)), ucast (rr_len (xr_ring q)) * 16)]"

definition rx_regs_vf :: "nat \<Rightarrow> ixgbe_rxq \<Rightarrow> reg_log" where
  "rx_regs_vf i q =
     [(IXGBE_VFRDBAL i, ucast (xr_physaddr q AND 0x00000000ffffffff)),
      (IXGBE_VFRDBAH i, ucast (drop_bit 32 (xr_physaddr q))),
      (IXGBE_VFRDLEN i, ucast (rr_len (xr_ring q)) * 16)]"

definition tx_regs :: "nat \<Rightarrow> ixgbe_txq \<Rightarrow> reg_log" where
  "tx_regs i q =
     [(IXGBE_TDBAL (unat (xt_reg_idx q)), ucast (xt_physaddr q AND 0x00000000ffffffff)),
      (IXGBE_TDBAH (unat (xt_reg_idx q)), ucast (drop_bit 32 (xt_physaddr q))),
      (IXGBE_TDLEN (unat (xt_reg_idx q)), ucast (tr_len (xt_ring q)) * 16)]"

definition tx_regs_vf :: "nat \<Rightarrow> ixgbe_txq \<Rightarrow> reg_log" where
  "tx_regs_vf i q =
     [(IXGBE_VFTDBAL i, ucast (xt_physaddr q AND 0x00000000ffffffff)),
      (IXGBE_VFTDBAH i, ucast (drop_bit 32 (xt_physaddr q))),
      (IXGBE_VFTDLEN i, ucast (tr_len (xt_ring q)) * 16)]"

text \<open>The two loops; \<open>i\<close> is the number of the first queue of the list.\<close>

primrec start_rx :: "net_env \<Rightarrow> (nat \<Rightarrow> ixgbe_rxq \<Rightarrow> reg_log) \<Rightarrow> nat \<Rightarrow> ixgbe_rxq list \<Rightarrow> net_state \<Rightarrow> (int \<times> ixgbe_rxq list \<times> net_state \<times> reg_log) res" where
  "start_rx env regs i [] s = Inr (0, [], s, [])"
| "start_rx env regs i (q # qs) s =
     bindE (ixgbe_alloc_rx_mbufs env (xr_ring q, s)) (\<lambda>(ret, r, s1).
     if ret \<noteq> 0 then Inr (ret, q\<lparr>xr_ring := r\<rparr> # qs, s1, [])
     else bindE (start_rx env regs (i + 1) qs s1) (\<lambda>(ret1, qs1, s2, log).
          Inr (ret1, q\<lparr>xr_ring := r\<rparr> # qs1, s2, regs i q @ log)))"

primrec start_tx ::
  "ixgbe_bits \<Rightarrow> net_env \<Rightarrow> (nat \<Rightarrow> ixgbe_txq \<Rightarrow> reg_log) \<Rightarrow> nat \<Rightarrow> ixgbe_txq list \<Rightarrow> net_state \<Rightarrow> (ixgbe_txq list \<times> net_state \<times> reg_log) res" where
  "start_tx c env regs i [] s = Inr ([], s, [])"
| "start_tx c env regs i (q # qs) s =
     bindE (ixgbe_tx_xmit_ctx c env (PKT_TX_IP_CKSUM OR PKT_TX_TCP_CKSUM) 0 (xt_ring q, s, xt_ctx_cache q)) (\<lambda>(ret, r, s1, cache).
     bindE (start_tx c env regs (i + 1) qs s1) (\<lambda>(qs1, s2, log).
     Inr (q\<lparr>xt_ring := r, xt_ctx_cache := cache\<rparr> # qs1, s2, regs i q @ log)))"

definition start_queues ::
  "ixgbe_bits \<Rightarrow> net_env \<Rightarrow> (nat \<Rightarrow> ixgbe_rxq \<Rightarrow> reg_log) \<Rightarrow> (nat \<Rightarrow> ixgbe_txq \<Rightarrow> reg_log) \<Rightarrow> int \<Rightarrow> ixgbe_rxq list \<Rightarrow> ixgbe_txq list \<Rightarrow> net_state \<Rightarrow>
     (int \<times> ixgbe_rxq list \<times> ixgbe_txq list \<times> net_state \<times> reg_log) res" where
  "start_queues c env rregs tregs dpdk_ret rxqs txqs s =
     (if dpdk_ret < 0 then Inr (dpdk_ret, rxqs, txqs, s, [])
      else bindE (start_rx env rregs 0 rxqs s) (\<lambda>(ret, rxqs1, s1, log).
           if ret \<noteq> 0 then Inr (ret, rxqs1, txqs, s1, log)
           else bindE (start_tx c env tregs 0 txqs s1) (\<lambda>(txqs1, s2, log1). Inr (0, rxqs1, txqs1, s2, log @ log1))))"

definition ixgbe_dev_start where
  "ixgbe_dev_start c env dpdk_ret rxqs txqs s = start_queues c env rx_regs tx_regs dpdk_ret rxqs txqs s"

definition ixgbe_dev_start_vf where
  "ixgbe_dev_start_vf c env dpdk_ret rxqs txqs s = start_queues c env rx_regs_vf tx_regs_vf dpdk_ret rxqs txqs s"

datatype ixgbe_ops = Ixgbe_pf_ops | Ixgbe_vf_ops

definition ixgbe_init :: "cfg_parameters \<Rightarrow> string \<Rightarrow> (int \<times> ixgbe_ops) res" where
  "ixgbe_init cfg driver_name =
     (if driver_name = ''rte_ixgbe_pmd'' then Inr (0, Ixgbe_pf_ops)
      else if driver_name = ''rte_ixgbevf_pmd'' then (if num_cpus cfg > 1 then Inr (- 1, Ixgbe_vf_ops) else Inr (0, Ixgbe_vf_ops))
      else Inl Assert_failed)"

text \<open>
  The context descriptor for checksums of IPv4 and TCP with context 0: the lengths of the Ethernet header and of the IP header, the type and the checksums.
\<close>

definition cksum_ctx :: "ixgbe_bits \<Rightarrow> ixgbe_tx_desc" where
  "cksum_ctx c = \<lparr>td_buffer_addr = ucast (push_bit (IXGBE_ADVTXD_MACLEN_SHIFT c) 14 OR 20 :: u32),
     td_cmd_type_len = IXGBE_ADVTXD_DTYP_CTXT c OR IXGBE_ADVTXD_DCMD_DEXT c OR IXGBE_ADVTXD_TUCMD_IPV4 c OR IXGBE_ADVTXD_TUCMD_L4T_TCP c, td_olinfo_status = 0\<rparr>"

text \<open>A context descriptor takes one place on the ring and has no buffer.\<close>

lemma ctx_room:
  assumes "tx_wf k q" "flight_len q + 1 < 2 ^ k" "cache \<noteq> []" "fl = PKT_TX_IP_CKSUM OR PKT_TX_TCP_CKSUM"
  shows "\<exists>q'. ixgbe_tx_xmit_ctx c env fl 0 (q, s, cache) = Inr (0, q', s, cache[0 := fl]) \<and> tx_wf k q' \<and> flight q' = flight q @ [NULL] \<and>
    ring_at q' (flight_len q) = cksum_ctx c \<and> tr_tdt q' = of_nat (tr_slot q' (tr_tail q'))"
proof -
  have sh: "ring_shape k q" using assms(1) by (rule tx_wf_shape)
  have e: "ixgbe_tx_xmit_ctx c env fl 0 (q, s, cache) = Inr (0, q\<lparr>tr_ring := (tr_ring q)[tr_slot q (tr_tail q) := cksum_ctx c],
      tr_entries := (tr_entries q)[tr_slot q (tr_tail q) := NULL], tr_tail := tr_tail q + 1, tr_tdt := of_nat (tr_slot q (tr_tail q + 1))\<rparr>, s, cache[0 := fl])"
    using make_room_free [OF assms(1,2), of env "ixgbe_tx_dd c" s] tx_ring_ok [OF assms(1)] assms(3)
    by (simp add: ixgbe_tx_xmit_ctx_def ixgbe_make_room_def Let_def cksum_ctx_def assms(4) PKT_TX_IP_CKSUM_def PKT_TX_TCP_CKSUM_def or.assoc)
  define q1 where "q1 = q\<lparr>tr_ring := (tr_ring q)[tr_slot q (tr_tail q) := cksum_ctx c], tr_entries := (tr_entries q)[tr_slot q (tr_tail q + of_nat 0) := NULL],
    tr_tail := tr_tail q + of_nat (0 + 1)\<rparr>"
  have l: "length ((tr_ring q)[tr_slot q (tr_tail q) := cksum_ctx c]) = 2 ^ k" using sh by (simp add: ring_shape_def)
  have "flight_len q + 0 + 1 < 2 ^ k" using assms(2) by simp
  from tx_append [OF assms(1) this l q1_def] have w: "tx_wf k q1" "flight q1 = flight q @ [NULL]" by simp_all
  have "tr_slot q (tr_tail q) < length (tr_ring q)" using tr_slot_bound [OF sh, of "tr_tail q"] sh by (simp add: ring_shape_def)
  then have "ring_at q1 (flight_len q) = cksum_ctx c" using tail_slot [of q 0] by (simp add: ring_at_def q1_def)
  then show ?thesis using e w by (intro exI [of _ "q1\<lparr>tr_tdt := of_nat (tr_slot q (tr_tail q + 1))\<rparr>"]) (simp add: q1_def ring_at_def)
qed

text \<open>Queues as \<open>ixgbe_rx_queue_setup\<close> and \<open>ixgbe_tx_queue_setup\<close> leave them.\<close>

definition fresh_rxq :: "ixgbe_rxq \<Rightarrow> bool" where
  "fresh_rxq q \<longleftrightarrow> (\<exists>nb. xr_ring q = fresh_rx_ring \<lparr>rd_pkt_addr = 0, rd_hdr_addr = 0\<rparr> nb)"

definition fresh_txq :: "ixgbe_txq \<Rightarrow> bool" where
  "fresh_txq q \<longleftrightarrow> xt_ctx_cache q \<noteq> [] \<and> (\<exists>k. tx_wf k (xt_ring q) \<and> 1 < k \<and> flight (xt_ring q) = [])"

definition started_txq :: "ixgbe_bits \<Rightarrow> ixgbe_txq \<Rightarrow> bool" where
  "started_txq c q \<longleftrightarrow> xt_ctx_cache q ! 0 = PKT_TX_IP_CKSUM OR PKT_TX_TCP_CKSUM \<and> (\<exists>k. tx_wf k (xt_ring q)) \<and> flight (xt_ring q) = [NULL] \<and>
     ring_at (xt_ring q) 0 = cksum_ctx c \<and> tr_tdt (xt_ring q) = of_nat (tr_slot (xt_ring q) (tr_tail (xt_ring q)))"

text \<open>A receive queue with a buffer at every descriptor, whose addresses are that of the buffer's data.\<close>

definition started_rxq :: "mm \<Rightarrow> ixgbe_rxq \<Rightarrow> bool" where
  "started_rxq mm q \<longleftrightarrow> length (rr_entries (xr_ring q)) = unat (rr_len (xr_ring q)) \<and> length (rr_ring (xr_ring q)) = unat (rr_len (xr_ring q)) \<and>
     (\<forall>j<unat (rr_len (xr_ring q)). \<exists>ma. page_machaddr (mbuf_addr (rr_entries (xr_ring q) ! j) 0) mm = Inr ma \<and>
        rr_ring (xr_ring q) ! j = \<lparr>rd_pkt_addr = ma, rd_hdr_addr = ma\<rparr>)"

lemma regs_Cons:
  assumes "\<forall>j<length qs. set (regs (i + 1 + j) (qs ! j)) \<subseteq> set ws"
  shows "\<forall>j<length (q # qs). set (regs (i + j) ((q # qs) ! j)) \<subseteq> set (regs i q @ ws)"
proof (intro allI impI)
  fix j
  assume "j < length (q # qs)"
  then show "set (regs (i + j) ((q # qs) ! j)) \<subseteq> set (regs i q @ ws)" using assms by (cases j) auto
qed

lemma start_tx_all:
  assumes "\<And>q. q \<in> set qs \<Longrightarrow> fresh_txq q"
  shows "\<exists>qs' log. start_tx c env regs i qs s = Inr (qs', s, log) \<and> length qs' = length qs \<and> (\<forall>q\<in>set qs'. started_txq c q) \<and>
    (\<forall>j<length qs. set (regs (i + j) (qs ! j)) \<subseteq> set log)"
  using assms
proof (induction qs arbitrary: i)
  case (Cons q qs)
  obtain k where k: "tx_wf k (xt_ring q)" "1 < k" "flight (xt_ring q) = []" "xt_ctx_cache q \<noteq> []" using Cons.prems [of q] by (auto simp: fresh_txq_def)
  have "length (flight (xt_ring q)) = flight_len (xt_ring q)" using k(1) by (simp add: flight_def tx_wf_def)
  then have "flight_len (xt_ring q) + 1 < 2 ^ k" using k(2,3) power_strict_increasing [of 0 k "2 :: nat"] by simp
  then obtain r where r: "ixgbe_tx_xmit_ctx c env (PKT_TX_IP_CKSUM OR PKT_TX_TCP_CKSUM) 0 (xt_ring q, s, xt_ctx_cache q) =
      Inr (0, r, s, (xt_ctx_cache q)[0 := PKT_TX_IP_CKSUM OR PKT_TX_TCP_CKSUM])" "tx_wf k r" "flight r = [NULL]"
    "ring_at r 0 = cksum_ctx c" "tr_tdt r = of_nat (tr_slot r (tr_tail r))"
    using ctx_room [OF k(1) _ k(4) refl, of c env s] k(3) \<open>length (flight (xt_ring q)) = flight_len (xt_ring q)\<close> by auto
  obtain qs' log where "start_tx c env regs (i + 1) qs s = Inr (qs', s, log)" "length qs' = length qs" "\<forall>q\<in>set qs'. started_txq c q"
    "\<forall>j<length qs. set (regs (i + 1 + j) (qs ! j)) \<subseteq> set log"
    using Cons.IH [of "i + 1"] Cons.prems by auto
  then show ?case using r k(4) regs_Cons [of qs regs i log q]
    by (intro exI [of _ "q\<lparr>xt_ring := r, xt_ctx_cache := (xt_ctx_cache q)[0 := PKT_TX_IP_CKSUM OR PKT_TX_TCP_CKSUM]\<rparr> # qs'"] exI [of _ "regs i q @ log"])
      (auto simp: started_txq_def)
qed simp

lemma start_rx_all:
  assumes "\<And>q. q \<in> set qs \<Longrightarrow> fresh_rxq q" "mempool_ok (ns_heap s) (ns_mbufs s) F L" "finite F" "(\<Sum>q\<leftarrow>qs. unat (rr_len (xr_ring q))) \<le> card F"
    and "\<forall>p\<in>F. \<exists>ma. page_machaddr (mbuf_addr p 0) (ns_mm s) = Inr ma"
  shows "\<exists>qs' s' log F'. start_rx env regs i qs s = Inr (0, qs', s', log) \<and> map (\<lambda>q. rr_len (xr_ring q)) qs' = map (\<lambda>q. rr_len (xr_ring q)) qs \<and>
    (\<forall>q\<in>set qs'. started_rxq (ns_mm s) q) \<and> (\<forall>j<length qs. set (regs (i + j) (qs ! j)) \<subseteq> set log) \<and>
    distinct (concat (map (\<lambda>q. rr_entries (xr_ring q)) qs')) \<and> set (concat (map (\<lambda>q. rr_entries (xr_ring q)) qs')) \<subseteq> F \<and>
    mempool_ok (ns_heap s') (ns_mbufs s') F' (L \<union> set (concat (map (\<lambda>q. rr_entries (xr_ring q)) qs')))"
  using assms
proof (induction qs arbitrary: i s F L)
  case (Cons q qs)
  obtain nb where nb: "xr_ring q = fresh_rx_ring \<lparr>rd_pkt_addr = 0, rd_hdr_addr = 0\<rparr> nb" using Cons.prems(1) [of q] by (auto simp: fresh_rxq_def)
  have f0: "filling (unat nb) 0 (xr_ring q) s F L" using Cons.prems(2) by (simp add: filling_def nb fresh_rx_ring_def)
  have c: "unat nb - 0 \<le> card F" using Cons.prems(4) by (simp add: nb fresh_rx_ring_def)
  obtain ring ents s1 F1 where a: "alloc_rx_loop env (\<lambda>ma. \<lparr>rd_pkt_addr = ma, rd_hdr_addr = ma\<rparr>) [0..<unat nb] (xr_ring q, s) = Inr (0, (xr_ring q)\<lparr>rr_ring := ring, rr_entries := ents\<rparr>, s1)"
    "filling (unat nb) (unat nb) ((xr_ring q)\<lparr>rr_ring := ring, rr_entries := ents\<rparr>) s1 F1 L" "F1 \<union> set ents = F \<union> set (take 0 (rr_entries (xr_ring q)))" "ns_mm s1 = ns_mm s"
    "rx_filled (\<lambda>ma. \<lparr>rd_pkt_addr = ma, rd_hdr_addr = ma\<rparr>) (ns_mm s) (unat nb) ((xr_ring q)\<lparr>rr_ring := ring, rr_entries := ents\<rparr>)"
    using alloc_rx_loop_fills [OF f0 Cons.prems(3) c Cons.prems(5), of "\<lambda>ma. \<lparr>rd_pkt_addr = ma, rd_hdr_addr = ma\<rparr>" env] by (auto simp: rx_filled_def)
  have le: "length ents = unat nb" using a(2) by (simp add: filling_def)
  then have "take (unat nb) ents = ents" by simp
  with a(2) le have e: "length ents = unat nb" "distinct ents" "L \<inter> set ents = {}" "mempool_ok (ns_heap s1) (ns_mbufs s1) F1 (L \<union> set ents)"
    by (simp_all add: filling_def)
  have d: "F1 \<inter> (L \<union> set ents) = {}" using mp.ok_sets [OF e(4)] by blast
  have F: "F = F1 \<union> set ents" "F1 \<inter> set ents = {}" using a(3) d by auto
  have fin: "finite F1" using Cons.prems(3) F(1) by simp
  then have "card F = card F1 + card (set ents)" using F by (simp add: card_Un_disjoint)
  then have "(\<Sum>q\<leftarrow>qs. unat (rr_len (xr_ring q))) \<le> card F1" using Cons.prems(4) e(1,2) by (simp add: nb fresh_rx_ring_def distinct_card)
  then obtain qs' s' log F' where h: "start_rx env regs (i + 1) qs s1 = Inr (0, qs', s', log)"
    "map (\<lambda>q. rr_len (xr_ring q)) qs' = map (\<lambda>q. rr_len (xr_ring q)) qs" "\<forall>q\<in>set qs'. started_rxq (ns_mm s1) q"
    "\<forall>j<length qs. set (regs (i + 1 + j) (qs ! j)) \<subseteq> set log" "distinct (concat (map (\<lambda>q. rr_entries (xr_ring q)) qs'))"
    "set (concat (map (\<lambda>q. rr_entries (xr_ring q)) qs')) \<subseteq> F1"
    "mempool_ok (ns_heap s') (ns_mbufs s') F' (L \<union> set ents \<union> set (concat (map (\<lambda>q. rr_entries (xr_ring q)) qs')))"
    using Cons.IH [OF _ e(4) fin, of "i + 1"] Cons.prems(1,5) F(1) a(4) by auto
  let ?q = "q\<lparr>xr_ring := (xr_ring q)\<lparr>rr_ring := ring, rr_entries := ents\<rparr>\<rparr>"
  have "start_rx env regs i (q # qs) s = Inr (0, ?q # qs', s', regs i q @ log)"
    using a(1) h(1) by (simp add: ixgbe_alloc_rx_mbufs_def alloc_rx_mbufs_def nb fresh_rx_ring_def)
  moreover have "started_rxq (ns_mm s) ?q"
    using a(2,5) le by (simp add: started_rxq_def rx_filled_def filling_def nb fresh_rx_ring_def)
  moreover have "\<forall>j<length (q # qs). set (regs (i + j) ((q # qs) ! j)) \<subseteq> set (regs i q @ log)"
    by (rule regs_Cons [OF h(4)])
  ultimately show ?case using h(2,3,5,6,7) a(4) e(1,2) F by (intro exI [of _ "?q # qs'"] exI [of _ s'] exI [of _ "regs i q @ log"] exI [of _ F'])
      (auto simp: Un_assoc nb fresh_rx_ring_def)
qed auto

end
