(* ===== verification/I40e_Dev.thy ===== *)
theory I40e_Dev
  imports I40e Ixgbe_Dev
begin

text \<open>
  The driver \<open>dp/drivers/i40e.c\<close> apart from transmission.  Calls into DPDK that program the device are recorded; \<open>hw\<close> gives the result of
  each.
\<close>

section \<open>Reception\<close>

record i40e_rx_bits =
  I40E_RXD_QW1_STATUS_MASK :: u64
  I40E_RXD_QW1_STATUS_SHIFT :: nat
  I40E_RX_DESC_STATUS_DD_SHIFT :: nat
  I40E_RX_DESC_STATUS_FLM_SHIFT :: nat
  I40E_RXD_QW1_ERROR_SHIFT :: nat
  I40E_RX_DESC_ERROR_IPE_SHIFT :: nat
  I40E_RX_DESC_ERROR_L4E_SHIFT :: nat
  I40E_RXD_QW1_LENGTH_PBUF_MASK :: u64
  I40E_RXD_QW1_LENGTH_PBUF_SHIFT :: nat

text \<open>What the device writes back lies over the two addresses, as for the other driver.\<close>

record i40e_rx_desc =
  ird_pkt_addr :: u64
  ird_hdr_addr :: u64

definition i40e_rx_status :: "i40e_rx_bits \<Rightarrow> i40e_rx_desc \<Rightarrow> u32" where
  "i40e_rx_status c d = ucast (drop_bit (I40E_RXD_QW1_STATUS_SHIFT c) (ird_hdr_addr d AND I40E_RXD_QW1_STATUS_MASK c))"

definition i40e_rx_format :: "i40e_rx_bits \<Rightarrow> i40e_rx_desc rx_format" where
  "i40e_rx_format c =
     \<lparr>rf_dd = (\<lambda>d. i40e_rx_status c d AND push_bit (I40E_RX_DESC_STATUS_DD_SHIFT c) 1 \<noteq> 0),
      rf_bad = (\<lambda>d. let error_bits = drop_bit (I40E_RXD_QW1_ERROR_SHIFT c) (ird_hdr_addr d)
                    in error_bits AND push_bit (I40E_RX_DESC_ERROR_IPE_SHIFT c) 1 \<noteq> 0 \<or>
                       error_bits AND push_bit (I40E_RX_DESC_ERROR_L4E_SHIFT c) 1 \<noteq> 0),
      rf_len = (\<lambda>d. drop_bit (I40E_RXD_QW1_LENGTH_PBUF_SHIFT c) (ird_hdr_addr d AND I40E_RXD_QW1_LENGTH_PBUF_MASK c)),
      rf_rss = (\<lambda>d. if ird_hdr_addr d AND push_bit (I40E_RX_DESC_STATUS_FLM_SHIFT c) 1 \<noteq> 0 then None else Some (ucast (drop_bit 32 (ird_pkt_addr d)))),
      rf_fill = (\<lambda>ma. \<lparr>ird_pkt_addr = ma, ird_hdr_addr = ma\<rparr>)\<rparr>"

type_synonym i40e_rx_ring = "i40e_rx_desc rx_ring"

definition i40e_alloc_rx_mbufs :: "net_env \<Rightarrow> i40e_rx_ring \<times> net_state \<Rightarrow> (int \<times> i40e_rx_ring \<times> net_state) res" where
  "i40e_alloc_rx_mbufs env st = alloc_rx_mbufs env (\<lambda>ma. \<lparr>ird_pkt_addr = ma, ird_hdr_addr = 0\<rparr>) st"

definition i40e_rx_poll ::
  "i40e_rx_bits \<Rightarrow> net_env \<Rightarrow> u16 list \<Rightarrow> (nat \<Rightarrow> u64) \<Rightarrow> i40e_rx_ring \<times> net_state \<Rightarrow> (int \<times> i40e_rx_ring \<times> net_state) res option" where
  "i40e_rx_poll c env fgs tsc st = rx_poll env (i40e_rx_format c) fgs tsc st"

definition i40e_rx_ready :: "i40e_rx_bits \<Rightarrow> i40e_rx_ring \<Rightarrow> bool" where
  "i40e_rx_ready c q = rx_ready (i40e_rx_format c) q"

lemma i40e_refills:
  assumes "I40E_RXD_QW1_STATUS_SHIFT c = 0" "I40E_RX_DESC_STATUS_DD_SHIFT c = 0" "\<forall>p\<in>U. \<exists>ma. page_machaddr (mbuf_addr p 0) mm = Inr ma \<and> even ma"
  shows "rx_refills (i40e_rx_format c) mm U"
  unfolding rx_refills_def
proof
  fix p
  assume "p \<in> U"
  then obtain ma where ma: "page_machaddr (mbuf_addr p 0) mm = Inr ma" "even ma" using assms(3) by blast
  have "(ucast (ma AND I40E_RXD_QW1_STATUS_MASK c) :: u32) AND 1 = 0" by (rule bit_word_eqI) (use ma(2) in \<open>auto simp: bit_simps bit_0\<close>)
  then show "\<exists>ma. page_machaddr (mbuf_addr p 0) mm = Inr ma \<and> \<not> rf_dd (i40e_rx_format c) (rf_fill (i40e_rx_format c) ma)"
    using ma(1) assms(1,2) by (intro exI [of _ ma]) (simp add: i40e_rx_format_def i40e_rx_status_def)
qed

section \<open>The redirection table\<close>

text \<open>The table in the format of DPDK: groups of 64 entries, each with a mask.\<close>

definition i40e_reta_groups :: "u16 \<Rightarrow> rte_eth_rss_reta \<Rightarrow> (u64 \<times> u16 list) list" where
  "i40e_reta_groups nb_rx_fgs conf =
     map (\<lambda>i. (drop_bit (BITMAP_POS_SHIFT (int (i * 64))) (reta_mask conf ! BITMAP_POS_IDX (int (i * 64))),
               map (\<lambda>j. reta_reta conf ! (i * 64 + j)) [0..<64])) [0..<unat nb_rx_fgs div 64]"

text \<open>\<open>dpdk\<close> is the operation of DPDK's driver, \<open>l\<close> the lock of the device.\<close>

definition i40e_reta_update ::
  "((u64 \<times> u16 list) list \<Rightarrow> u16 \<Rightarrow> 'h \<Rightarrow> int \<times> 'h) \<Rightarrow> u16 \<Rightarrow> rte_eth_rss_reta \<Rightarrow> bool \<times> 'h \<Rightarrow> (int \<times> bool \<times> 'h) res option" where
  "i40e_reta_update dpdk nb_rx_fgs conf st =
     (if length (reta_mask conf) < unat nb_rx_fgs div 64 \<or> length (reta_reta conf) < unat nb_rx_fgs div 64 * 64 then Some (Inl Out_of_bounds)
      else bindR (spin_lock (fst st)) (\<lambda>l.
           let (ret, h) = dpdk (i40e_reta_groups nb_rx_fgs conf) nb_rx_fgs (snd st)
           in Some (Inr (ret, spin_unlock l, h))))"

lemma i40e_reta_groups_entries:
  assumes "e < unat nb_rx_fgs div 64 * 64"
  shows "bit (fst (i40e_reta_groups nb_rx_fgs conf ! (e div 64))) (e mod 64) = reta_selected conf e"
    and "snd (i40e_reta_groups nb_rx_fgs conf ! (e div 64)) ! (e mod 64) = reta_reta conf ! e"
proof -
  have g: "e div 64 < unat nb_rx_fgs div 64" using assms by (simp add: div_less_iff_less_mult)
  have "unat nb_rx_fgs < 2 ^ LENGTH(16)" by (rule unsigned_less)
  then have b: "int (e div 64 * 64) < 2 ^ 31" using assms by simp
  have p: "BITMAP_POS_IDX (int (e div 64 * 64)) = e div 64" "BITMAP_POS_SHIFT (int (e div 64 * 64)) = 0"
    using bitmap_pos [of "int (e div 64 * 64)"] b by (simp_all add: nat_mult_distrib)
  show "bit (fst (i40e_reta_groups nb_rx_fgs conf ! (e div 64))) (e mod 64) = reta_selected conf e"
    using g p by (simp add: i40e_reta_groups_def reta_selected_def)
  show "snd (i40e_reta_groups nb_rx_fgs conf ! (e div 64)) ! (e mod 64) = reta_reta conf ! e"
    using g by (simp add: i40e_reta_groups_def)
qed

section \<open>Setup of queues\<close>

definition I40E_RING_BASE_ALIGN :: u64 where "I40E_RING_BASE_ALIGN = 128"

definition i40e_rx_queue_setup :: "os \<Rightarrow> int \<Rightarrow> u64 \<Rightarrow> int \<Rightarrow> u16 \<Rightarrow> mm \<Rightarrow> int \<times> (i40e_rx_ring \<times> u64) option \<times> mm" where
  "i40e_rx_queue_setup os dpdk_ret sz numa_node nb_desc mm =
     (if nb_desc AND (nb_desc - 1) \<noteq> 0 then (- EINVAL, None, mm)
      else let (ret, phys, mm1) = ring_page os dpdk_ret numa_node (align_up sz I40E_RING_BASE_ALIGN) mm
      in if ret \<noteq> 0 then (ret, None, mm1)
         else (0, Some (fresh_rx_ring \<lparr>ird_pkt_addr = 0, ird_hdr_addr = 0\<rparr> nb_desc, phys), mm1))"

text \<open>The bounds \<open>min_desc\<close> and \<open>max_desc\<close> are constants of DPDK.\<close>

definition i40e_tx_queue_setup :: "u16 \<Rightarrow> u16 \<Rightarrow> os \<Rightarrow> int \<Rightarrow> u64 \<Rightarrow> int \<Rightarrow> u16 \<Rightarrow> mm \<Rightarrow> int \<times> (i40e_tx_ring \<times> u64) option \<times> mm" where
  "i40e_tx_queue_setup min_desc max_desc os dpdk_ret sz numa_node nb_desc mm =
     (if unat nb_desc * 16 mod unat I40E_RING_BASE_ALIGN \<noteq> 0 \<or> nb_desc > max_desc \<or> nb_desc < min_desc then (- EINVAL, None, mm)
      else if nb_desc AND (nb_desc - 1) \<noteq> 0 then (- EINVAL, None, mm)
      else let (ret, phys, mm1) = ring_page os dpdk_ret numa_node (align_up sz I40E_RING_BASE_ALIGN) mm
      in if ret \<noteq> 0 then (ret, None, mm1)
         else (0, Some (fresh_tx_ring \<lparr>itd_buffer_addr = 0, itd_cmd_type_offset_bsz = 0\<rparr> nb_desc, phys), mm1))"

lemma i40e_tx_queue_fresh:
  assumes "i40e_tx_queue_setup min_desc max_desc os dpdk_ret sz numa_node nb_desc mm = (0, Some (q, phys), mm')" "0 < min_desc"
  shows "\<exists>k<16. nb_desc = 2 ^ k \<and> tx_wf k q \<and> flight q = []"
proof -
  have n: "nb_desc \<noteq> 0" "nb_desc AND (nb_desc - 1) = 0"
    and q: "q = fresh_tx_ring \<lparr>itd_buffer_addr = 0, itd_cmd_type_offset_bsz = 0\<rparr> nb_desc"
    using assms by (auto simp: i40e_tx_queue_setup_def Let_def split: if_splits prod.splits)
  from pow2_word [OF n] obtain k where "k < 16" "nb_desc = 2 ^ k" by blast
  then show ?thesis using fresh_tx_ring_wf [of k "\<lparr>itd_buffer_addr = 0, itd_cmd_type_offset_bsz = 0\<rparr>"] q by auto
qed

section \<open>Starting the device\<close>

text \<open>The contexts of queues; fields that are cleared and not set again are left out.  The flag \<open>dsize\<close> stands for descriptors of 32 bytes, which DPDK uses unless it is built otherwise.\<close>

record i40e_rx_ctx =
  rc_dbuff :: nat
  rc_rxmax :: nat
  rc_lrxqthresh :: nat
  rc_flags :: "string list"
  rc_base :: u64
  rc_qlen :: u16

record i40e_tx_ctx =
  tc_flags :: "string list"
  tc_base :: u64
  tc_qlen :: u16

datatype i40e_call =
    I40e_switch_rx_queue u16 bool
  | I40e_clear_lan_rx_queue_context u16
  | I40e_set_lan_rx_queue_context u16 i40e_rx_ctx
  | I40e_rdt u16 u32
  | I40e_get_lan_rx_queue_context u16
  | I40e_switch_tx_queue u16 bool
  | I40e_set_lan_tx_queue_context u16 i40e_tx_ctx
  | Rte_eth_dev_start

record i40e_rxq =
  ir_ring :: i40e_rx_ring
  ir_physaddr :: u64
  ir_reg_idx :: u16

record i40e_txq =
  it_ring :: i40e_tx_ring
  it_physaddr :: u64
  it_reg_idx :: u16

text \<open>A list of calls, each with a test for failure: they are made in order up to the first that fails.\<close>

primrec call_all :: "(i40e_call \<Rightarrow> int) \<Rightarrow> (i40e_call \<times> (int \<Rightarrow> bool)) list \<Rightarrow> int \<times> i40e_call list" where
  "call_all hw [] = (0, [])"
| "call_all hw (x # xs) =
     (let ret = hw (fst x)
      in if snd x ret then (ret, [fst x]) else let (r, log) = call_all hw xs in (r, fst x # log))"

definition i40e_rx_ctx_of :: "u64 \<Rightarrow> i40e_rxq \<Rightarrow> i40e_rx_ctx" where
  "i40e_rx_ctx_of unit q =
     \<lparr>rc_dbuff = 0x1ff, rc_rxmax = 0x5ee, rc_lrxqthresh = 2,
      rc_flags = [''dsize'', ''tphrdesc_ena'', ''tphwdesc_ena'', ''tphdata_ena'', ''tphhead_ena'', ''crcstrip'', ''l2tsel'', ''prefena''],
      rc_base = ir_physaddr q div unit, rc_qlen = rr_len (ir_ring q)\<rparr>"

definition i40e_rx_calls :: "u64 \<Rightarrow> i40e_rxq \<Rightarrow> (i40e_call \<times> (int \<Rightarrow> bool)) list" where
  "i40e_rx_calls unit q =
     (let pf_q = ir_reg_idx q
      in [(I40e_clear_lan_rx_queue_context pf_q, \<lambda>r. r \<noteq> 0),
          (I40e_set_lan_rx_queue_context pf_q (i40e_rx_ctx_of unit q), \<lambda>r. r \<noteq> 0),
          (I40e_rdt pf_q (ucast (rr_len (ir_ring q)) - 1), \<lambda>r. False),
          (I40e_get_lan_rx_queue_context pf_q, \<lambda>r. r < 0),
          (I40e_switch_rx_queue pf_q True, \<lambda>r. r < 0)])"

definition i40e_tx_calls :: "u64 \<Rightarrow> i40e_txq \<Rightarrow> (i40e_call \<times> (int \<Rightarrow> bool)) list" where
  "i40e_tx_calls unit q =
     (let pf_q = it_reg_idx q; ctx = \<lparr>tc_flags = [''new_context'', ''fd_ena''], tc_base = it_physaddr q div unit, tc_qlen = tr_len (it_ring q)\<rparr>
      in [(I40e_switch_tx_queue pf_q False, \<lambda>r. r < 0),
          (I40e_set_lan_tx_queue_context pf_q ctx, \<lambda>r. r \<noteq> 0),
          (I40e_switch_tx_queue pf_q True, \<lambda>r. r < 0),
          (Rte_eth_dev_start, \<lambda>r. False)])"

primrec i40e_start_rx :: "(i40e_call \<Rightarrow> int) \<Rightarrow> u64 \<Rightarrow> net_env \<Rightarrow> i40e_rxq list \<Rightarrow> net_state \<Rightarrow> (int \<times> i40e_rxq list \<times> net_state \<times> i40e_call list) res" where
  "i40e_start_rx hw unit env [] s = Inr (0, [], s, [])"
| "i40e_start_rx hw unit env (q # qs) s =
     (let off = I40e_switch_rx_queue (ir_reg_idx q) False
      in if hw off < 0 then Inr (hw off, q # qs, s, [off])
      else bindE (i40e_alloc_rx_mbufs env (ir_ring q, s)) (\<lambda>(ret, r, s1).
           if ret \<noteq> 0 then Inr (ret, q\<lparr>ir_ring := r\<rparr> # qs, s1, [off])
           else let (ret1, log) = call_all hw (i40e_rx_calls unit q)
           in if ret1 \<noteq> 0 then Inr (ret1, q\<lparr>ir_ring := r\<rparr> # qs, s1, off # log)
           else bindE (i40e_start_rx hw unit env qs s1) (\<lambda>(ret2, qs1, s2, log1).
                Inr (ret2, q\<lparr>ir_ring := r\<rparr> # qs1, s2, off # log @ log1))))"

primrec i40e_start_tx :: "(i40e_call \<Rightarrow> int) \<Rightarrow> u64 \<Rightarrow> i40e_txq list \<Rightarrow> int \<times> i40e_call list" where
  "i40e_start_tx hw unit [] = (0, [])"
| "i40e_start_tx hw unit (q # qs) =
     (let (ret, log) = call_all hw (i40e_tx_calls unit q)
      in if ret \<noteq> 0 then (ret, log) else let (r, log1) = i40e_start_tx hw unit qs in (r, log @ log1))"

definition i40e_dev_start ::
  "(i40e_call \<Rightarrow> int) \<Rightarrow> u64 \<Rightarrow> net_env \<Rightarrow> i40e_rxq list \<Rightarrow> i40e_txq list \<Rightarrow> net_state \<Rightarrow> (int \<times> i40e_rxq list \<times> net_state \<times> i40e_call list) res" where
  "i40e_dev_start hw unit env rxqs txqs s =
     (if hw Rte_eth_dev_start < 0 then Inr (hw Rte_eth_dev_start, rxqs, s, [Rte_eth_dev_start])
      else bindE (i40e_start_rx hw unit env rxqs s) (\<lambda>(ret, rxqs1, s1, log).
           if ret \<noteq> 0 then Inr (ret, rxqs1, s1, Rte_eth_dev_start # log)
           else let (ret1, log1) = i40e_start_tx hw unit txqs in Inr (ret1, rxqs1, s1, Rte_eth_dev_start # log @ log1)))"

definition i40e_init :: "string \<Rightarrow> int res" where
  "i40e_init driver_name = (if driver_name = ''rte_i40e_pmd'' then Inr 0 else Inl Assert_failed)"

end
