(* ===== verification/Driver_Properties.thy ===== *)
theory Driver_Properties
  imports I40e_Dev Net_Sample
begin

text \<open>
  What the two drivers do: the interpretations of \<open>tx_driver\<close>, and the properties of transmission, reception and the redirection table.
  The values of the descriptor bits used for examples are those of the data sheets.
\<close>

section \<open>Two devices\<close>

definition bits_82599 :: ixgbe_bits where
  "bits_82599 = \<lparr>IXGBE_TXD_STAT_DD = 1, IXGBE_ADVTXD_DTYP_DATA = 0x300000, IXGBE_ADVTXD_DTYP_CTXT = 0x200000, IXGBE_ADVTXD_DCMD_IFCS = 0x2000000,
     IXGBE_ADVTXD_DCMD_DEXT = 0x20000000, IXGBE_ADVTXD_DCMD_EOP = 0x1000000, IXGBE_ADVTXD_DCMD_RS = 0x8000000, IXGBE_ADVTXD_POPTS_IXSM = 0x100,
     IXGBE_ADVTXD_POPTS_TXSM = 0x200, IXGBE_ADVTXD_CC = 0x80, IXGBE_ADVTXD_TUCMD_IPV4 = 0x400, IXGBE_ADVTXD_TUCMD_L4T_TCP = 0x800,
     IXGBE_ADVTXD_PAYLEN_SHIFT = 14, IXGBE_ADVTXD_IDX_SHIFT = 4, IXGBE_ADVTXD_MACLEN_SHIFT = 9\<rparr>"

definition rx_bits_82599 :: ixgbe_rx_bits where
  "rx_bits_82599 = \<lparr>IXGBE_RXDADV_STAT_DD = 1, IXGBE_RXDADV_STAT_FLM = 4, IXGBE_RXD_STAT_IPCS = 0x40, IXGBE_RXD_STAT_L4CS = 0x20,
     IXGBE_RXDADV_ERR_IPE = 0x80000000, IXGBE_RXDADV_ERR_TCPE = 0x40000000\<rparr>"

definition bits_xl710 :: i40e_bits where
  "bits_xl710 = \<lparr>I40E_TD_CMD = 5, I40E_TX_DESC_CMD_RS = 2, I40E_TX_DESC_CMD_ICRC = 4, I40E_TX_DESC_CMD_L4T_EOFT_TCP = 0x100,
     I40E_TX_DESC_CMD_IIPT_IPV4_CSUM = 0x60, I40E_TX_DESC_LENGTH_L4_FC_LEN_SHIFT = 14, I40E_TX_DESC_LENGTH_IPLEN_SHIFT = 7,
     I40E_TX_DESC_LENGTH_MACLEN_SHIFT = 0, I40E_SIZEOF_TCP_HDR = 20, I40E_TX_DESC_DTYPE_DATA = 0, I40E_TX_DESC_DTYPE_DESC_DONE = 15,
     I40E_TXD_QW1_DTYPE_MASK = 15, I40E_TXD_QW1_CMD_SHIFT = 4, I40E_TXD_QW1_OFFSET_SHIFT = 16, I40E_TXD_QW1_TX_BUF_SZ_SHIFT = 34,
     I40E_TXD_QW1_L2TAG1_SHIFT = 48\<rparr>"

lemma push_bit_low: "push_bit n (x :: 'a::len word) AND mask m = 0" if "m \<le> n"
  by (rule bit_word_eqI) (use that in \<open>auto simp: bit_simps\<close>)

lemma layout_82599: "ixgbe_layout bits_82599"
proof -
  have "push_bit 14 x AND 1 = 0" for x :: u32 using push_bit_low [of 1 14 x] by (simp add: mask_eq_exp_minus_1)
  then show ?thesis by (simp add: ixgbe_layout_def bits_82599_def)
qed

lemma layout_xl710: "i40e_layout bits_xl710"
proof -
  have "push_bit n x AND 15 = 0" if "4 \<le> n" for n and x :: u64 using push_bit_low [OF that, of x] by (simp add: mask_eq_exp_minus_1)
  then show ?thesis by (simp add: i40e_layout_def bits_xl710_def)
qed

interpretation ix: tx_driver "ixgbe_tx_xmit_one bits_82599" "ixgbe_tx_dd bits_82599" ixgbe_need ixgbe_fit
  by (rule ixgbe_tx_driver [OF layout_82599])

interpretation i4: tx_driver "i40e_tx_xmit_one bits_xl710" "i40e_tx_dd bits_xl710" "\<lambda>s m. 1" i40e_fit
  by (rule i40e_tx_driver [OF layout_xl710])

section \<open>Transmission\<close>

text \<open>The driver as \<open>eth_process_send\<close> sees it: the number of packets accepted, for a ring and a state.\<close>

definition ixgbe_xmit_count :: "ixgbe_bits \<Rightarrow> net_env \<Rightarrow> ixgbe_tx_ring \<times> net_state \<Rightarrow> eth_tx_queue \<Rightarrow> addr list \<Rightarrow> int" where
  "ixgbe_xmit_count c env st txq ms = (case ixgbe_tx_xmit c env ms st of Inl _ \<Rightarrow> - 1 | Inr (n, _) \<Rightarrow> n)"

text \<open>
  C15: \<open>eth_process_send\<close> on a ring of the ixgbe driver none of whose packets is finished.  The queue may hold packets for up to \<open>tx_cap\<close>
  descriptors, and \<open>tx_cap\<close> is what \<open>ixgbe_tx_reclaim\<close> returned.  If the packets leave a descriptor free they are all sent; if they take
  exactly \<open>tx_cap\<close> descriptors the last one is refused and the program panics.
\<close>

theorem send_batch:
  assumes "ixgbe_layout c" "tx_wf k q" "unfinished (ixgbe_tx_dd c) q" "ixgbe_tx_reclaim c env q s = Inr (cap, q, s)"
    and "tx_len txq = length ms" "take (length ms) (tx_bufs txq) = ms" "\<forall>m\<in>set ms. ixgbe_fit s m \<and> ixgbe_need s m < 2 ^ k"
    and "(\<Sum>m\<leftarrow>ms. ixgbe_need s m) \<le> unat cap"
  shows "eth_process_send (ixgbe_xmit_count c env (q, s)) [0] [txq] =
    (if (\<Sum>m\<leftarrow>ms. ixgbe_need s m) < unat cap then Inr [txq\<lparr>tx_len := 0\<rparr>] else Inl Panic)"
proof -
  note drv = ixgbe_tx_driver [OF assms(1)]
  have n: "flight_len q < 2 ^ k" and k: "k < 16" using assms(2) by (simp_all add: tx_wf_def)
  obtain q' where "tx_reclaim env (ixgbe_tx_dd c) q s = Inr (of_nat (2 ^ k - flight_len q), q', s)"
    using reclaim_unfinished [OF assms(2,3), of env s] by blast
  then have "cap = of_nat (2 ^ k - flight_len q)" using assms(4) by (simp add: ixgbe_tx_reclaim_def)
  moreover have "2 ^ k - flight_len q < 2 ^ 16" using power_strict_increasing [OF k, of "2 :: nat"] by simp
  ultimately have cap: "unat cap = 2 ^ k - flight_len q" by (simp only: unsigned_of_nat) (simp add: take_bit_nat_eq_self)
  show ?thesis
  proof (cases "(\<Sum>m\<leftarrow>ms. ixgbe_need s m) < unat cap")
    case True
    then have "flight_len q + (\<Sum>m\<leftarrow>ms. ixgbe_need s m) < 2 ^ k" using cap n by linarith
    then obtain q' where "tx_xmit (ixgbe_tx_xmit_one c env) ms (q, s) = Inr (int (length ms), q', s)"
      using tx_driver.xmit_room [OF drv assms(2), of ms s env] assms(7) by blast
    then show ?thesis using True assms(5,6) by (simp add: ixgbe_xmit_count_def ixgbe_tx_xmit_def Let_def)
  next
    case False
    then have e: "flight_len q + (\<Sum>m\<leftarrow>ms. ixgbe_need s m) = 2 ^ k" using cap n assms(8) by linarith
    then have "ms \<noteq> []" using n by auto
    then obtain ms' m where ms: "ms = ms' @ [m]" by (cases ms rule: rev_cases) auto
    obtain st where "tx_xmit (ixgbe_tx_xmit_one c env) ms (q, s) = Inr (int (length ms'), st)"
      using tx_driver.xmit_exactly_full [OF drv assms(2), of ms' m s env] e assms(3,7) unfolding ms by auto
    then show ?thesis using False assms(5,6) ms by (simp add: ixgbe_xmit_count_def ixgbe_tx_xmit_def Let_def split: prod.split)
  qed
qed

text \<open>A ring of two descriptors with a packet for each.\<close>

definition two_packets :: eth_tx_queue where
  "two_packets = \<lparr>tx_cap = 0, tx_len = 2, tx_bufs = [0x4000000000, 0x4000000030]\<rparr>"

abbreviation tiny_ring :: ixgbe_tx_ring where
  "tiny_ring \<equiv> fresh_tx_ring \<lparr>td_buffer_addr = 0, td_cmd_type_len = 0, td_olinfo_status = 0\<rparr> (2 ^ 1)"

lemma sample_machaddr:
  assumes "p \<in> {0x4000000000, 0x4000000030, 0x4000001000, 0x4000002000}"
  shows "page_machaddr (mbuf_addr p 0) (ns_mm sample_net) = Inr (0x12345600000 + (p - 0x4000000000) + 64)"
  using assms by (auto simp: page_machaddr_def page_ent_of_def mbuf_addr_def MBUF_HEADER_LEN_def PAGE_NUM_def PGN_2MB_def mem_map drop_bit_eq_div
      sample_net_def PGOFF_2MB_def PGSIZE_2MB_def)

theorem send_batch_witness:
  "eth_process_send (ixgbe_xmit_count bits_82599 sample_env (tiny_ring, sample_net)) [0] [two_packets] = Inl Panic"
proof -
  have r: "ixgbe_tx_reclaim bits_82599 sample_env tiny_ring sample_net = Inr (2, tiny_ring, sample_net)"
    by (simp add: ixgbe_tx_reclaim_def tx_reclaim_def reclaim_loop.simps fresh_tx_ring_def reset_tx_queue_def)
  have w: "tx_wf 1 tiny_ring" "flight tiny_ring = []" by (rule fresh_tx_ring_wf, simp)+
  have u: "unfinished (ixgbe_tx_dd bits_82599) tiny_ring"
    by (simp add: unfinished_def flight_len_def fresh_tx_ring_def reset_tx_queue_def)
  have f: "ixgbe_fit sample_net p" "ixgbe_need sample_net p = 1" if "p \<in> {0x4000000000, 0x4000000030}" for p
    using that sample_machaddr [of p] by (auto simp: ixgbe_fit_def ixgbe_need_def sample_net_def empty_mbuf_def mbuf_get_data_machaddr_def)
  show ?thesis
    using send_batch [OF layout_82599 w(1) u r, of two_packets "[0x4000000000, 0x4000000030]"] f by (simp add: two_packets_def)
qed

text \<open>
  C29: the ixgbe driver puts a packet on the ring with its payload.  If a descriptor stays free, the packet takes one descriptor for the
  buffer and one for each scatter-gather vector, behind those in flight; they hold the machine addresses of the buffer and of the vectors,
  in order, and only the last one carries the buffer for release.
\<close>

theorem frame_on_ring:
  assumes "tx_wf k q" "ixgbe_fit s m" "flight_len q + ixgbe_need s m < 2 ^ k"
  shows "\<exists>q' ma. ixgbe_tx_xmit_one c env m (q, s) = Inr (0, q', s) \<and> tx_wf k q' \<and>
    flight q' = flight q @ replicate (unat (mb_nr_iov (ns_store s m))) NULL @ [m] \<and> mbuf_get_data_machaddr m s = Inr ma \<and>
    map (\<lambda>j. td_buffer_addr (ring_at q' j)) [flight_len q..<flight_len q'] =
      ma # map (\<lambda>i. iov_maddr (iov_at m (ns_store s m) i)) [0..<unat (mb_nr_iov (ns_store s m))]"
proof -
  define n where "n = unat (mb_nr_iov (ns_store s m))"
  have need: "ixgbe_need s m = n + 1" by (simp add: ixgbe_need_def n_def)
  obtain ma where ma: "mbuf_get_data_machaddr m s = Inr ma" using assms(2) by (auto simp: ixgbe_fit_def)
  obtain ring where r: "ixgbe_tx_xmit_one c env m (q, s) =
      Inr (0, q\<lparr>tr_ring := ring, tr_entries := (tr_entries q)[tr_slot q (tr_tail q + of_nat (ixgbe_need s m - 1)) := m],
             tr_tail := tr_tail q + of_nat (ixgbe_need s m)\<rparr>, s)" "length ring = 2 ^ k"
    "\<forall>j<2 ^ k. ring ! tr_slot q (tr_tail q + of_nat j) =
       (if j < ixgbe_need s m then ixgbe_frame c m (ns_store s m) ma ! j else tr_ring q ! tr_slot q (tr_tail q + of_nat j))"
    using ixgbe_xmit_room [OF assms ma, of c env] by blast
  define q' where "q' = q\<lparr>tr_ring := ring, tr_entries := (tr_entries q)[tr_slot q (tr_tail q + of_nat n) := m], tr_tail := tr_tail q + of_nat (n + 1)\<rparr>"
  have room: "flight_len q + n + 1 < 2 ^ k" using assms(3) need by simp
  note ap = tx_append [OF assms(1) room r(2) q'_def]
  have at: "ring_at q' (flight_len q + j) = ixgbe_frame c m (ns_store s m) ma ! j" if "j < n + 1" for j
  proof -
    have "ring_at q' (flight_len q + j) = ring ! tr_slot q (tr_head q + of_nat (flight_len q + j))" by (simp add: ring_at_def q'_def)
    also have "\<dots> = ring ! tr_slot q (tr_tail q + of_nat j)" by (simp only: tail_slot)
    finally show ?thesis using r(3) that room need by simp
  qed
  have "map (\<lambda>j. td_buffer_addr (ring_at q' j)) [flight_len q..<flight_len q'] =
      ma # map (\<lambda>i. iov_maddr (iov_at m (ns_store s m) i)) [0..<n]" (is "?l = ?r")
  proof (rule nth_equalityI)
    show "length ?l = length ?r" using ap(3) by simp
    fix j
    assume "j < length ?l"
    then have j: "j < n + 1" using ap(3) by simp
    then have "?l ! j = td_buffer_addr (ixgbe_frame c m (ns_store s m) ma ! j)" using at [OF j] ap(3) by (simp del: upt_Suc)
    then show "?l ! j = ?r ! j" using j by (cases j) (simp_all add: ixgbe_frame_def ixgbe_iov_desc_def Let_def n_def)
  qed
  then show ?thesis using r(1) ap ma need unfolding n_def [symmetric] by (intro exI [of _ q'] exI [of _ ma]) (simp add: q'_def)
qed

theorem frame_on_ring_witness:
  "\<exists>q' ma. ixgbe_tx_xmit_one bits_82599 sample_env 0x4000000000 (tiny_ring, sample_net) = Inr (0, q', sample_net) \<and> flight q' = [0x4000000000] \<and>
     mbuf_get_data_machaddr 0x4000000000 sample_net = Inr ma \<and> map (\<lambda>j. td_buffer_addr (ring_at q' j)) [0..<flight_len q'] = [ma]"
proof -
  have w: "tx_wf 1 tiny_ring" "flight tiny_ring = []" by (rule fresh_tx_ring_wf, simp)+
  have l: "flight_len tiny_ring = 0" by (simp add: flight_len_def fresh_tx_ring_def reset_tx_queue_def)
  have f: "ixgbe_fit sample_net 0x4000000000" "ixgbe_need sample_net 0x4000000000 = 1" "mb_nr_iov (ns_store sample_net 0x4000000000) = 0"
    using sample_machaddr [of "0x4000000000"] by (auto simp: ixgbe_fit_def ixgbe_need_def sample_net_def empty_mbuf_def mbuf_get_data_machaddr_def)
  show ?thesis using frame_on_ring [OF w(1) f(1), of bits_82599 sample_env] f w(2) l by auto
qed

text \<open>
  C37: the i40e driver does not send the payload of a scatter-gather packet.  Whatever the number of vectors, the packet takes one
  descriptor, which holds the machine address of the buffer with the headers; the address of no vector reaches the device.
\<close>

theorem payload_not_sent:
  assumes "tx_wf k q" "i40e_fit s m" "flight_len q + 1 < 2 ^ k" "i40e_layout c"
  shows "\<exists>q' ma. i40e_tx_xmit_one c env m (q, s) = Inr (0, q', s) \<and> flight q' = flight q @ [m] \<and> mbuf_get_data_machaddr m s = Inr ma \<and>
    map (\<lambda>j. itd_buffer_addr (ring_at q' j)) [flight_len q..<flight_len q'] = [ma]"
proof -
  obtain ma where ma: "mbuf_get_data_machaddr m s = Inr ma" using assms(2) by (auto simp: i40e_fit_def)
  obtain q' where q': "i40e_tx_xmit_one c env m (q, s) = Inr (0, q', s)" "flight q' = flight q @ replicate (1 - 1) NULL @ [m]" "flight_len q' = flight_len q + 1"
    using tx_driver.one_room [OF i40e_tx_driver [OF assms(4)] assms(1,2), of env] assms(3) by auto
  have e: "i40e_tx_xmit_one c env m (q, s) = Inr (0, q\<lparr>tr_ring := (tr_ring q)[tr_slot q (tr_tail q) := i40e_desc c (ns_store s m) ma],
      tr_entries := (tr_entries q)[tr_slot q (tr_tail q) := m], tr_tail := tr_tail q + 1\<rparr>, s)"
    using assms(2) make_room_free [OF assms(1,3), of env "i40e_tx_dd c" s] tx_ring_ok [OF assms(1)] ma
    by (simp add: i40e_tx_xmit_one_def i40e_fit_def Let_def)
  have "tr_slot q (tr_tail q) < length (tr_ring q)" using tr_slot_bound [OF tx_wf_shape [OF assms(1)], of "tr_tail q"] assms(1) by (simp add: tx_wf_def)
  moreover have "tr_slot q (tr_head q + of_nat (flight_len q)) = tr_slot q (tr_tail q)" using tail_slot [of q 0] by simp
  ultimately have "ring_at q' (flight_len q) = i40e_desc c (ns_store s m) ma" using e q'(1) by (auto simp: ring_at_def)
  then show ?thesis using q' ma by (intro exI [of _ q'] exI [of _ ma]) (simp add: i40e_desc_def Let_def split: prod.split)
qed

abbreviation tiny_ring_xl :: i40e_tx_ring where
  "tiny_ring_xl \<equiv> fresh_tx_ring \<lparr>itd_buffer_addr = 0, itd_cmd_type_offset_bsz = 0\<rparr> (2 ^ 1)"

theorem payload_not_sent_witness:
  "\<exists>q' ma. i40e_tx_xmit_one bits_xl710 sample_env 0x4000000000 (tiny_ring_xl, upd_mbuf 0x4000000000 (\<lambda>b. b\<lparr>mb_nr_iov := 3\<rparr>) sample_net) =
       Inr (0, q', upd_mbuf 0x4000000000 (\<lambda>b. b\<lparr>mb_nr_iov := 3\<rparr>) sample_net) \<and> map (\<lambda>j. itd_buffer_addr (ring_at q' j)) [0..<flight_len q'] = [ma]"
proof -
  have w: "tx_wf 1 tiny_ring_xl" "flight tiny_ring_xl = []" by (rule fresh_tx_ring_wf, simp)+
  have l: "flight_len tiny_ring_xl = 0" by (simp add: flight_len_def fresh_tx_ring_def reset_tx_queue_def)
  have f: "i40e_fit (upd_mbuf 0x4000000000 (\<lambda>b. b\<lparr>mb_nr_iov := 3\<rparr>) sample_net) 0x4000000000"
    using sample_machaddr [of "0x4000000000"] by (auto simp: i40e_fit_def upd_mbuf_def mbuf_get_data_machaddr_def)
  show ?thesis using payload_not_sent [OF w(1) f _ layout_xl710, of sample_env] l by auto
qed

text \<open>
  C30: reclaiming releases exactly the packets at the head of the ring that the device has finished: they are released once each, in the
  order they were sent; what stays in flight starts with a packet that is not finished; and the result is the number of free descriptors.
\<close>

theorem reclaim_finished:
  assumes "tx_wf k q"
  shows "\<exists>nb q'. reclaim_extent (ixgbe_tx_dd c) q nb \<and> tx_wf k q' \<and> flight q' = drop nb (flight q) \<and>
    ixgbe_tx_reclaim c env q s = bindE (done_all env (packets (take nb (flight q))) s) (\<lambda>s'. Inr (of_nat (2 ^ k - flight_len q'), q', s'))"
  using tx_reclaim_correct [OF assms, of "ixgbe_tx_dd c" env] unfolding ixgbe_tx_reclaim_def by blast

theorem reclaim_finished_witness:
  "\<exists>nb q'. reclaim_extent (ixgbe_tx_dd bits_82599) tiny_ring nb \<and> tx_wf 1 q' \<and> flight q' = [] \<and>
     ixgbe_tx_reclaim bits_82599 sample_env tiny_ring sample_net = Inr (2, q', sample_net)"
proof -
  have w: "tx_wf 1 tiny_ring" "flight tiny_ring = []" by (rule fresh_tx_ring_wf, simp)+
  obtain nb q' where r: "reclaim_extent (ixgbe_tx_dd bits_82599) tiny_ring nb" "tx_wf 1 q'" "flight q' = drop nb (flight tiny_ring)"
    "ixgbe_tx_reclaim bits_82599 sample_env tiny_ring sample_net =
      bindE (done_all sample_env (packets (take nb (flight tiny_ring))) sample_net) (\<lambda>s'. Inr (of_nat (2 ^ 1 - flight_len q'), q', s'))"
    using reclaim_finished [OF w(1), of bits_82599 sample_env sample_net] by blast
  have "length (flight q') = flight_len q'" using r(2) by (simp add: flight_def tx_wf_def)
  then show ?thesis using r w(2) by (intro exI [of _ nb] exI [of _ q']) (simp add: packets_def)
qed

section \<open>Reception\<close>

text \<open>The status word of a descriptor that was written back: no checksum that the device looked at was wrong; the flow group.\<close>

definition rx_sound :: "ixgbe_rx_bits \<Rightarrow> ixgbe_rx_desc \<Rightarrow> bool" where
  "rx_sound c d \<longleftrightarrow> (let st = ucast (rd_hdr_addr d) :: u32
     in (st AND IXGBE_RXD_STAT_IPCS c = 0 \<or> st AND IXGBE_RXDADV_ERR_IPE c = 0) \<and> (st AND IXGBE_RXD_STAT_L4CS c = 0 \<or> st AND IXGBE_RXDADV_ERR_TCPE c = 0))"

definition rx_flow_group :: "ixgbe_rx_bits \<Rightarrow> u16 list \<Rightarrow> ixgbe_rx_desc \<Rightarrow> u16" where
  "rx_flow_group c fgs d =
     (if (ucast (rd_hdr_addr d) :: u32) AND IXGBE_RXDADV_STAT_FLM c \<noteq> 0 then 0xFFFF else fgs ! (unat (drop_bit 32 (rd_pkt_addr d)) mod length fgs))"

definition rx_received :: "ixgbe_rx_bits \<Rightarrow> addr list \<Rightarrow> (ixgbe_rx_desc \<times> addr) list \<Rightarrow> addr list" where
  "rx_received c W xs = W @ take (32768 - length W) (map snd (filter (\<lambda>x. rx_sound c (fst x)) xs))"

lemma rx_received_after: "rx_queue_after (ixgbe_rx_format c) W xs = rx_received c W xs"
proof -
  have "rf_bad (ixgbe_rx_format c) d \<longleftrightarrow> \<not> rx_sound c d" for d by (auto simp: ixgbe_rx_format_def rx_sound_def rd_status_error_def Let_def)
  then show ?thesis by (simp add: rx_queue_after_take rx_received_def ETH_RX_MAX_DEPTH_def)
qed

lemma rx_announced:
  assumes "announced (ixgbe_rx_format c) fgs d t b" "length fgs = 2 ^ e" "e < 16"
  shows "mb_len b = take_bit 16 (drop_bit 32 (rd_hdr_addr d)) \<and> mb_fg_id b = rx_flow_group c fgs d \<and> mb_timestamp b = t"
proof -
  have "of_nat (length fgs) - 1 = (mask e :: u32)" using assms(2) by (simp add: mask_eq_exp_minus_1)
  then have "unat (h AND (of_nat (length fgs) - 1)) = unat h mod length fgs" for h :: u32
    using assms(2) by (simp only: take_bit_eq_mask [symmetric] unsigned_take_bit_eq) (simp add: take_bit_eq_mod)
  moreover have "unat (ucast (drop_bit 32 x) :: u32) = unat (drop_bit 32 x)" for x :: u64
    by (simp only: unsigned_ucast_eq unsigned_drop_bit_eq) (simp add: take_bit_drop_bit)
  ultimately have "rx_fg_id fgs (rf_rss (ixgbe_rx_format c) d) = Inr (rx_flow_group c fgs d)"
    using assms(2) by (simp add: rx_fg_id_def rx_flow_group_def ixgbe_rx_format_def rd_status_error_def rd_rss_def MBUF_INVALID_FG_ID_def Let_def)
  moreover have "(ucast (ucast x :: u16) :: u64) = take_bit 16 x" for x :: u64 by (rule bit_word_eqI) (auto simp: bit_simps)
  ultimately show ?thesis using assms(1) by (simp add: announced_def ixgbe_rx_format_def rd_length_def)
qed

text \<open>
  C16: polling the ixgbe driver.  If the device has finished the next \<open>n\<close> descriptors and there are buffers to replace them, the loop
  returns \<open>n\<close>; the packets whose checksums are not wrong are behind those already queued, in the order of the ring, as long as the queue has room;
  each has the length, the flow group and the time of its descriptor.  Each of the \<open>n\<close> descriptors has the machine address of a new buffer, the one of its entry, in
  both fields, and the others are not changed.  Fewer than 32 descriptors are kept from the device: the tail and its register stay, or move as far as they can.
  No buffer is in two of the free list, the ring and the queue.
\<close>

theorem poll_receives:
  assumes "rx_inv k q s F L W" "rx_done (ixgbe_rx_format c) q n" "n < 2 ^ k" "finite F" "n \<le> card F" "length fgs = 2 ^ e" "e < 16"
    and "IXGBE_RXDADV_STAT_DD c = 1" "\<forall>p\<in>F \<union> L. \<exists>ma. page_machaddr (mbuf_addr p 0) (ns_mm s) = Inr ma \<and> even ma"
  shows "\<exists>q' s' F' L'. ixgbe_rx_poll c env fgs tsc (q, s) = Some (Inr (int n, q', s')) \<and>
    rx_inv k q' s' F' L' (rx_received c W (rx_items q n)) \<and> F' \<union> L' = F \<union> L \<and> \<not> ixgbe_rx_ready c q' \<and>
    (\<forall>p\<in>set W. same_packet (ns_store s' p) (ns_store s p)) \<and>
    (\<forall>j<n. snd (rx_items q n ! j) \<in> set (rx_received c W (rx_items q n)) \<longrightarrow>
       (let d = fst (rx_items q n ! j); b = ns_store s' (snd (rx_items q n ! j))
        in mb_len b = take_bit 16 (drop_bit 32 (rd_hdr_addr d)) \<and> mb_fg_id b = rx_flow_group c fgs d \<and> mb_timestamp b = tsc j)) \<and>
    rr_head q' = rr_head q + of_nat n \<and>
    (\<forall>j<n. \<exists>ma. page_machaddr (mbuf_addr (rr_entries q' ! rr_slot q (rr_head q + of_nat j)) 0) (ns_mm s) = Inr ma \<and>
       rr_ring q' ! rr_slot q (rr_head q + of_nat j) = \<lparr>rd_pkt_addr = ma, rd_hdr_addr = ma\<rparr>) \<and>
    (\<forall>i. (\<forall>j<n. i \<noteq> rr_slot q (rr_head q + of_nat j)) \<longrightarrow> rr_ring q' ! i = rr_ring q ! i \<and> rr_entries q' ! i = rr_entries q ! i) \<and>
    rr_len q' - (rr_tail q' + 1 - rr_head q') < 32 \<and>
    (rr_tail q' = rr_tail q \<and> rr_rdt q' = rr_rdt q \<or> rr_tail q' = rr_head q' + rr_len q' - 1 \<and> rr_rdt q' = of_nat (rr_slot q' (rr_tail q')))"
proof -
  obtain q' s' F' L' where h: "ixgbe_rx_poll c env fgs tsc (q, s) = Some (Inr (int n, q', s'))" "rx_inv k q' s' F' L' (rx_received c W (rx_items q n))"
    "rr_head q' = rr_head q + of_nat n" "rx_done (ixgbe_rx_format c) q' 0" "F' \<union> L' = F \<union> L" "rx_refilled (ixgbe_rx_format c) (ns_mm s) q n q'"
    "rx_given_back q q'" "\<forall>p\<in>set W. same_packet (ns_store s' p) (ns_store s p)"
    "\<forall>j<n. snd (rx_items q n ! j) \<in> set (rx_received c W (rx_items q n)) \<longrightarrow>
       announced (ixgbe_rx_format c) fgs (fst (rx_items q n ! j)) (tsc j) (ns_store s' (snd (rx_items q n ! j)))"
    using rx_poll_receives [OF assms(1-5) ixgbe_refills [OF assms(8,9)] assms(6,7), of env tsc] unfolding ixgbe_rx_poll_def rx_received_after by blast
  have "\<not> ixgbe_rx_ready c q'" using h(4) by (simp add: rx_done_def ixgbe_rx_ready_def rx_ready_def)
  moreover have "rf_fill (ixgbe_rx_format c) ma = \<lparr>rd_pkt_addr = ma, rd_hdr_addr = ma\<rparr>" for ma by (simp add: ixgbe_rx_format_def)
  ultimately show ?thesis using h(1-3,5,8) h(6,7)[unfolded rx_refilled_def rx_given_back_def] h(9) [THEN spec, THEN mp, THEN mp, THEN rx_announced, OF _ _ assms(6,7)]
    by (intro exI [of _ q'] exI [of _ s'] exI [of _ F'] exI [of _ L']) (simp add: Let_def)
qed

definition one_arrived :: ixgbe_rx_ring where
  "one_arrived = \<lparr>rr_ring = [\<lparr>rd_pkt_addr = 0x500000000, rd_hdr_addr = 0x5200000001\<rparr>, \<lparr>rd_pkt_addr = 0, rd_hdr_addr = 0\<rparr>],
     rr_entries = [0x4000001000, 0x4000002000], rr_head = 0, rr_tail = 1, rr_len = 2, rr_rdt = 1, rr_erxq = \<lparr>rq_head = NULL, rq_tail = NULL, rq_len = 0\<rparr>\<rparr>"

abbreviation rx_net :: net_state where
  "rx_net \<equiv> sample_net\<lparr>ns_mbufs := sample_pool 0x4000000000 2\<rparr>"

lemma one_arrived_inv: "rx_inv 1 one_arrived rx_net {0x4000000000, 0x4000000030} {0x4000001000, 0x4000002000} []"
proof -
  have "mempool_ok (ns_heap sample_net) (sample_pool 0x4000000000 2) (set [0x4000000000, 0x4000000030]) {0x4000001000, 0x4000002000}"
    by (rule sample_pool_ok) (simp_all add: sample_net_def sample_defs)
  then show ?thesis by (simp add: rx_inv_def one_arrived_def rxq_rep_def)
qed

theorem poll_receives_witness:
  "\<exists>q' s' ma. ixgbe_rx_poll rx_bits_82599 sample_env [7, 8] (\<lambda>_. 99) (one_arrived, rx_net) = Some (Inr (1, q', s')) \<and>
     rxq_rep (rr_erxq q') (ns_store s') [0x4000001000] \<and> mb_len (ns_store s' 0x4000001000) = 0x52 \<and> mb_fg_id (ns_store s' 0x4000001000) = 8 \<and>
     mb_timestamp (ns_store s' 0x4000001000) = 99 \<and> page_machaddr (mbuf_addr (rr_entries q' ! 0) 0) (ns_mm rx_net) = Inr ma \<and> rd_pkt_addr (rr_ring q' ! 0) = ma"
proof -
  let ?c = rx_bits_82599
  let ?d = "\<lparr>rd_pkt_addr = 0x500000000, rd_hdr_addr = 0x5200000001\<rparr>"
  have it: "rx_items one_arrived 1 = [(?d, 0x4000001000)]"
    by (simp add: rx_items_def one_arrived_def ring_slot_def)
  have d: "rx_done (ixgbe_rx_format ?c) one_arrived 1" unfolding rx_done_def it
    by (simp add: ixgbe_rx_format_def rx_bits_82599_def rd_status_error_def one_arrived_def ring_slot_def)
  have q: "rx_received ?c [] (rx_items one_arrived 1) = [0x4000001000]"
    unfolding it by (simp add: rx_received_def rx_sound_def rx_bits_82599_def)
  have ma: "\<forall>p\<in>{0x4000000000, 0x4000000030} \<union> {0x4000001000, 0x4000002000}. \<exists>ma. page_machaddr (mbuf_addr p 0) (ns_mm rx_net) = Inr ma \<and> even ma"
    using sample_machaddr by auto
  have slot: "rr_slot one_arrived (rr_head one_arrived + of_nat 0) = 0" by (simp add: one_arrived_def ring_slot_def)
  obtain q' s' F' L' where h: "ixgbe_rx_poll ?c sample_env [7, 8] (\<lambda>_. 99) (one_arrived, rx_net) = Some (Inr (int 1, q', s'))"
    "rx_inv 1 q' s' F' L' [0x4000001000]"
    "\<forall>j<1. snd (rx_items one_arrived 1 ! j) \<in> set [0x4000001000] \<longrightarrow>
       (let d = fst (rx_items one_arrived 1 ! j); b = ns_store s' (snd (rx_items one_arrived 1 ! j))
        in mb_len b = take_bit 16 (drop_bit 32 (rd_hdr_addr d)) \<and> mb_fg_id b = rx_flow_group ?c [7, 8] d \<and> mb_timestamp b = 99)"
    "\<forall>j<1. \<exists>ma. page_machaddr (mbuf_addr (rr_entries q' ! rr_slot one_arrived (rr_head one_arrived + of_nat j)) 0) (ns_mm rx_net) = Inr ma \<and>
       rr_ring q' ! rr_slot one_arrived (rr_head one_arrived + of_nat j) = \<lparr>rd_pkt_addr = ma, rd_hdr_addr = ma\<rparr>"
    using poll_receives [OF one_arrived_inv d _ _ _ _ _ _ ma, of "[7, 8]" 1 sample_env "\<lambda>_. 99"] unfolding q by (auto simp: rx_bits_82599_def)
  have "mb_len (ns_store s' 0x4000001000) = take_bit 16 (drop_bit 32 (rd_hdr_addr ?d)) \<and> mb_fg_id (ns_store s' 0x4000001000) = rx_flow_group ?c [7, 8] ?d \<and>
      mb_timestamp (ns_store s' 0x4000001000) = 99" using h(3) unfolding it by (simp add: Let_def)
  moreover have "take_bit 16 (drop_bit 32 (rd_hdr_addr ?d)) = 0x52" "rx_flow_group ?c [7, 8] ?d = 8"
    by (simp_all add: rx_flow_group_def rx_bits_82599_def flip: numeral_2_eq_2)
  moreover obtain ma where "page_machaddr (mbuf_addr (rr_entries q' ! 0) 0) (ns_mm rx_net) = Inr ma" "rr_ring q' ! 0 = \<lparr>rd_pkt_addr = ma, rd_hdr_addr = ma\<rparr>"
    using h(4) [rule_format, of 0] unfolding slot by auto
  ultimately show ?thesis using h(1,2) by (intro exI [of _ q'] exI [of _ s'] exI [of _ ma]) (simp add: rx_inv_def)
qed

section \<open>The redirection table\<close>

text \<open>
  C33: \<open>reta_update\<close> of the ixgbe driver for a table of up to 252 entries: it returns, the lock is free again, every entry selected by the
  mask has its new value and no other entry of the device changes.
\<close>

theorem reta_updated:
  assumes "t < 64" "4 \<le> length (reta_mask conf)" "256 \<le> length (reta_reta conf)" "\<forall>e<4 * t. reta_reta conf ! e < 256"
  shows "\<exists>regs'. reta_update (of_nat (4 * t)) conf (False, regs) = Some (Inr (0, False, regs')) \<and>
    (\<forall>e. reta_at regs' e = (if e < 4 * t \<and> reta_selected conf e then ucast (reta_reta conf ! e) else reta_at regs e))"
proof -
  obtain regs' where r: "reta_loop (of_nat (4 * t)) conf (of_nat (4 * 0)) regs = Some (Inr regs')"
    "\<forall>e. reta_at regs' e = (if 4 * 0 \<le> e \<and> e < 4 * t \<and> reta_selected conf e then ucast (reta_reta conf ! e) else reta_at regs e)"
    using reta_loop_updates [of 0 t "of_nat (4 * t)" conf regs] assms by auto
  then show ?thesis by (intro exI [of _ regs']) (simp add: reta_update_def spin_defs del: of_nat_mult)
qed

theorem reta_updated_witness:
  "\<exists>regs'. reta_update 128 \<lparr>reta_mask = [4, 0, 0, 0], reta_reta = replicate 256 9\<rparr> (False, \<lambda>_. 0x01020304) = Some (Inr (0, False, regs')) \<and>
     reta_at regs' 2 = 9 \<and> reta_at regs' 3 = 1 \<and> reta_at regs' 6 = 2"
proof -
  define conf where "conf = \<lparr>reta_mask = [4, 0, 0, 0], reta_reta = replicate 256 9\<rparr>"
  have n: "(of_nat (4 * 32) :: u16) = 128" by simp
  obtain regs' where r: "reta_update (of_nat (4 * 32)) conf (False, \<lambda>_. 0x01020304) = Some (Inr (0, False, regs'))"
    "\<forall>e. reta_at regs' e = (if e < 4 * 32 \<and> reta_selected conf e then ucast (reta_reta conf ! e) else reta_at (\<lambda>_. 0x01020304) e)"
    using reta_updated [of 32 conf "\<lambda>_. 0x01020304"] by (auto simp: conf_def)
  have "reta_selected conf 2" "\<not> reta_selected conf 3" "\<not> reta_selected conf 6" "reta_reta conf ! 2 = 9"
    "reta_at (\<lambda>_. 0x01020304) 3 = 1" "reta_at (\<lambda>_. 0x01020304) 6 = 2"
    by (simp_all add: reta_selected_def conf_def bit_numeral_rec reta_at_def)
  then have "reta_at regs' 2 = 9" "reta_at regs' 3 = 1" "reta_at regs' 6 = 2"
    using r(2) [rule_format, of 2] r(2) [rule_format, of 3] r(2) [rule_format, of 6] by simp_all
  then show ?thesis using r(1) unfolding n conf_def by (intro exI [of _ regs']) simp
qed

text \<open>
  With 253 entries or more, as for a device with a table of 512 entries, the counter of type \<open>uint8_t\<close> wraps before it reaches the
  end: \<open>reta_update\<close> does not return, and the lock of the device stays held.
\<close>

theorem reta_update_hangs:
  assumes "253 \<le> unat nb_rx_fgs" "4 \<le> length (reta_mask conf)" "256 \<le> length (reta_reta conf)"
  shows "reta_update nb_rx_fgs conf (False, regs) = None"
  using reta_loop_endless [OF assms, of 0 regs] by (simp add: reta_update_def spin_defs)

theorem reta_update_hangs_witness: "reta_update 512 \<lparr>reta_mask = replicate 8 0, reta_reta = replicate 512 0\<rparr> (False, \<lambda>_. 0) = None"
  using reta_update_hangs [of 512 "\<lparr>reta_mask = replicate 8 0, reta_reta = replicate 512 0\<rparr>" "\<lambda>_. 0"] by (simp)

section \<open>Start\<close>

text \<open>
  C32: \<open>dev_start\<close> of the ixgbe driver on queues fresh from the setup functions, with a buffer for every receive descriptor: it returns 0;
  every descriptor of every receive ring has a buffer of its own, taken from the pool, and the machine address of its data in both fields; every transmit ring has the
  context descriptor for checksums at its head, nothing else in flight, and its tail in the register; and the device is told the machine address and the length in bytes of every ring.
\<close>

theorem device_started:
  assumes "0 \<le> dpdk_ret" "\<forall>q\<in>set rxqs. fresh_rxq q" "\<forall>q\<in>set txqs. fresh_txq q" "mempool_ok (ns_heap s) (ns_mbufs s) F L" "finite F"
    and "(\<Sum>q\<leftarrow>rxqs. unat (rr_len (xr_ring q))) \<le> card F" "\<forall>p\<in>F. \<exists>ma. page_machaddr (mbuf_addr p 0) (ns_mm s) = Inr ma"
  shows "\<exists>rxqs' txqs' s' log F'. ixgbe_dev_start c env dpdk_ret rxqs txqs s = Inr (0, rxqs', txqs', s', log) \<and>
    map (\<lambda>q. rr_len (xr_ring q)) rxqs' = map (\<lambda>q. rr_len (xr_ring q)) rxqs \<and> (\<forall>q\<in>set rxqs'. started_rxq (ns_mm s) q) \<and>
    distinct (concat (map (\<lambda>q. rr_entries (xr_ring q)) rxqs')) \<and> set (concat (map (\<lambda>q. rr_entries (xr_ring q)) rxqs')) \<subseteq> F \<and>
    mempool_ok (ns_heap s') (ns_mbufs s') F' (L \<union> set (concat (map (\<lambda>q. rr_entries (xr_ring q)) rxqs'))) \<and>
    length txqs' = length txqs \<and> (\<forall>q\<in>set txqs'. started_txq c q) \<and>
    (\<forall>q\<in>set rxqs. {(IXGBE_RDBAL (unat (xr_reg_idx q)), ucast (xr_physaddr q)), (IXGBE_RDBAH (unat (xr_reg_idx q)), ucast (drop_bit 32 (xr_physaddr q))),
       (IXGBE_RDLEN (unat (xr_reg_idx q)), of_nat (16 * unat (rr_len (xr_ring q))))} \<subseteq> set log) \<and>
    (\<forall>q\<in>set txqs. {(IXGBE_TDBAL (unat (xt_reg_idx q)), ucast (xt_physaddr q)), (IXGBE_TDBAH (unat (xt_reg_idx q)), ucast (drop_bit 32 (xt_physaddr q))),
       (IXGBE_TDLEN (unat (xt_reg_idx q)), of_nat (16 * unat (tr_len (xt_ring q))))} \<subseteq> set log)"
proof -
  obtain rxqs' s' log F' where r: "start_rx env rx_regs 0 rxqs s = Inr (0, rxqs', s', log)"
    "map (\<lambda>q. rr_len (xr_ring q)) rxqs' = map (\<lambda>q. rr_len (xr_ring q)) rxqs" "\<forall>q\<in>set rxqs'. started_rxq (ns_mm s) q"
    "\<forall>j<length rxqs. set (rx_regs (0 + j) (rxqs ! j)) \<subseteq> set log"
    "distinct (concat (map (\<lambda>q. rr_entries (xr_ring q)) rxqs'))" "set (concat (map (\<lambda>q. rr_entries (xr_ring q)) rxqs')) \<subseteq> F"
    "mempool_ok (ns_heap s') (ns_mbufs s') F' (L \<union> set (concat (map (\<lambda>q. rr_entries (xr_ring q)) rxqs')))"
    using start_rx_all [of rxqs s F L env rx_regs 0] assms by blast
  obtain txqs' log1 where t: "start_tx c env tx_regs 0 txqs s' = Inr (txqs', s', log1)" "length txqs' = length txqs" "\<forall>q\<in>set txqs'. started_txq c q"
    "\<forall>j<length txqs. set (tx_regs (0 + j) (txqs ! j)) \<subseteq> set log1"
    using start_tx_all [of txqs c env tx_regs 0 s'] assms(3) by blast
  have start: "ixgbe_dev_start c env dpdk_ret rxqs txqs s = Inr (0, rxqs', txqs', s', log @ log1)"
    using assms(1) r(1) t(1) by (simp add: ixgbe_dev_start_def start_queues_def)
  have m: "(0xffffffff :: u64) = mask 32" by (simp add: mask_eq_exp_minus_1)
  have low: "(ucast (x AND 0xffffffff) :: u32) = ucast x" for x :: u64 unfolding m by (rule bit_word_eqI) (auto simp: bit_simps)
  have len: "(ucast n * 16 :: u32) = of_nat (16 * unat n)" for n :: u16 by (simp add: unsigned_ucast_eq)
  have "{(IXGBE_RDBAL (unat (xr_reg_idx q)), ucast (xr_physaddr q)), (IXGBE_RDBAH (unat (xr_reg_idx q)), ucast (drop_bit 32 (xr_physaddr q))),
      (IXGBE_RDLEN (unat (xr_reg_idx q)), of_nat (16 * unat (rr_len (xr_ring q))))} \<subseteq> set (log @ log1)" if "q \<in> set rxqs" for q
    using r(4) that unfolding in_set_conv_nth rx_regs_def low len by auto
  moreover have "{(IXGBE_TDBAL (unat (xt_reg_idx q)), ucast (xt_physaddr q)), (IXGBE_TDBAH (unat (xt_reg_idx q)), ucast (drop_bit 32 (xt_physaddr q))),
      (IXGBE_TDLEN (unat (xt_reg_idx q)), of_nat (16 * unat (tr_len (xt_ring q))))} \<subseteq> set (log @ log1)" if "q \<in> set txqs" for q
    using t(4) that unfolding in_set_conv_nth tx_regs_def low len by auto
  ultimately show ?thesis using start r(2,3,5-7) t(2,3) by blast
qed

abbreviation rx_two :: ixgbe_rxq where
  "rx_two \<equiv> \<lparr>xr_ring = fresh_rx_ring \<lparr>rd_pkt_addr = 0, rd_hdr_addr = 0\<rparr> 2, xr_physaddr = 0, xr_reg_idx = 0\<rparr>"

abbreviation tx_four :: ixgbe_txq where
  "tx_four \<equiv> \<lparr>xt_ring = fresh_tx_ring \<lparr>td_buffer_addr = 0, td_cmd_type_len = 0, td_olinfo_status = 0\<rparr> (2 ^ 2), xt_physaddr = 0, xt_reg_idx = 0, xt_ctx_cache = [0, 0]\<rparr>"

theorem device_started_witness:
  "\<exists>rxqs' txqs' s' log. ixgbe_dev_start bits_82599 sample_env 0 [rx_two] [tx_four] rx_net = Inr (0, rxqs', txqs', s', log) \<and>
     list_all (started_rxq (ns_mm rx_net)) rxqs' \<and> set (concat (map (\<lambda>q. rr_entries (xr_ring q)) rxqs')) = {0x4000000000, 0x4000000030} \<and>
     list_all (started_txq bits_82599) txqs' \<and> (IXGBE_RDLEN 0, 32) \<in> set log"
proof -
  have fr: "fresh_rxq rx_two" by (auto simp: fresh_rxq_def)
  have "tx_wf 2 (xt_ring tx_four)" "flight (xt_ring tx_four) = []" by (simp_all only: ixgbe_txq.simps) (rule fresh_tx_ring_wf, simp)+
  then have ft: "fresh_txq tx_four" unfolding fresh_txq_def by (intro conjI exI [of _ 2]) simp_all
  have pool: "mempool_ok (ns_heap rx_net) (ns_mbufs rx_net) {0x4000000000, 0x4000000030} {0x4000001000, 0x4000002000}"
    using one_arrived_inv by (simp add: rx_inv_def)
  have sz: "rr_len (xr_ring rx_two) = 2" by (simp add: fresh_rx_ring_def)
  obtain rxqs' txqs' s' log where d: "ixgbe_dev_start bits_82599 sample_env 0 [rx_two] [tx_four] rx_net = Inr (0, rxqs', txqs', s', log)"
    "map (\<lambda>q. rr_len (xr_ring q)) rxqs' = map (\<lambda>q. rr_len (xr_ring q)) [rx_two]" "\<forall>q\<in>set rxqs'. started_rxq (ns_mm rx_net) q"
    "distinct (concat (map (\<lambda>q. rr_entries (xr_ring q)) rxqs'))" "set (concat (map (\<lambda>q. rr_entries (xr_ring q)) rxqs')) \<subseteq> {0x4000000000, 0x4000000030}"
    "\<forall>q\<in>set txqs'. started_txq bits_82599 q" "(IXGBE_RDLEN (unat (xr_reg_idx rx_two)), of_nat (16 * unat (rr_len (xr_ring rx_two)))) \<in> set log"
    using device_started [of 0 "[rx_two]" "[tx_four]" rx_net "{0x4000000000, 0x4000000030}" _ bits_82599 sample_env, OF _ _ _ pool] fr ft sz sample_machaddr by auto
  obtain q where q: "rxqs' = [q]" "rr_len (xr_ring q) = 2" using d(2) sz by auto
  then have "length (concat (map (\<lambda>q. rr_entries (xr_ring q)) rxqs')) = 2" using d(3) by (simp add: started_rxq_def)
  then have "card (set (concat (map (\<lambda>q. rr_entries (xr_ring q)) rxqs'))) = 2" using d(4) distinct_card by metis
  then have "set (concat (map (\<lambda>q. rr_entries (xr_ring q)) rxqs')) = {0x4000000000, 0x4000000030}"
    using d(5) by (intro card_subset_eq) simp_all
  moreover have "list_all (started_txq bits_82599) txqs'" "list_all (started_rxq (ns_mm rx_net)) rxqs'" using d(3,6) by (simp_all add: list_all_iff)
  moreover have "(IXGBE_RDLEN 0, 32) \<in> set log" using d(7) by (simp add: fresh_rx_ring_def)
  ultimately show ?thesis using d(1) by blast
qed

end
