(* ===== verification/Pci.thy ===== *)
theory Pci
  imports Addr_Text
begin

text \<open>
  The PCI bus, \<open>dp/core/pci.c\<close>: what the program reads about a device from \<open>sysfs\<close>, the memory regions of a device, and the calls
  that enable it.  The file system and the system calls are parameters.
\<close>

section \<open>Files\<close>

text \<open>The content of every file that can be opened for reading, and the files that can be opened for writing.\<close>

record sysfs =
  fs_read :: "string \<Rightarrow> string option"
  fs_writable :: "string \<Rightarrow> bool"

definition newline :: char where "newline = CHR 0x0A"

definition BUFSIZ :: nat where "BUFSIZ = 8192"
definition PATH_MAX :: nat where "PATH_MAX = 4096"

definition snprintf :: "nat \<Rightarrow> string \<Rightarrow> string" where
  "snprintf n s = take (n - 1) s"

text \<open>One line, with its end, and the rest of the file; \<open>None\<close> at the end of the file.\<close>

definition fgets :: "nat \<Rightarrow> string \<Rightarrow> (string \<times> string) option" where
  "fgets n s =
     (if s = [] then None
      else let line = take (n - 1) (takeWhile ((\<noteq>) newline) s @ take 1 (dropWhile ((\<noteq>) newline) s))
           in Some (line, drop (length line) s))"

text \<open>\<open>strtoull\<close> with base 0: the value and the text after the number, which is all of it when there is no number.\<close>

definition strtoull :: "string \<Rightarrow> u64 \<times> string" where
  "strtoull s =
     (let (neg, s1) = sign (dropWhile isspace s);
          (base, s2) = (if hex_prefix 16 s1 \<and> 3 \<le> length s1 \<and> digit_val 16 (s1 ! 2) \<noteq> None then (16, drop 2 s1)
                        else if s1 \<noteq> [] \<and> s1 ! 0 = CHR ''0'' then (8, s1) else (10, s1))
      in if s2 = [] \<or> digit_val base (s2 ! 0) = None then (0, s)
         else let (v, r) = digits base 0 s2 in (of_int (to_ulong neg v), r))"

definition sysfs_parse_val :: "sysfs \<Rightarrow> string \<Rightarrow> int \<times> u64" where
  "sysfs_parse_val fs path =
     (case fs_read fs path of
        None \<Rightarrow> (- EIO, 0)
      | Some content \<Rightarrow>
          (case fgets BUFSIZ content of
             None \<Rightarrow> (- EIO, 0)
           | Some (buf, _) \<Rightarrow>
               if buf ! 0 = CHR 0x00 then (- EIO, 0)
               else let (val, fin) = strtoull buf
                    in if fin = [] \<or> fin ! 0 \<noteq> newline then (- EIO, val) else (0, val)))"

text \<open>\<open>wr\<close>: the result of \<open>fprintf\<close>.  The conversion is signed.\<close>

definition print_long :: "u64 \<Rightarrow> string" where
  "print_long v = (if sint v < 0 then CHR ''-'' # dec_digits (nat (- sint v)) else dec_digits (nat (sint v)))"

definition sysfs_store_val :: "int \<Rightarrow> string \<Rightarrow> u64 \<Rightarrow> sysfs \<Rightarrow> int \<times> sysfs" where
  "sysfs_store_val wr path val fs =
     (if \<not> fs_writable fs path then (- EIO, fs)
      else if wr \<le> 0 then (- EIO, fs\<lparr>fs_read := (fs_read fs)(path \<mapsto> [])\<rparr>)
      else (0, fs\<lparr>fs_read := (fs_read fs)(path \<mapsto> print_long val)\<rparr>))"

section \<open>Devices\<close>

record pci_bar =
  bar_start :: u64
  bar_len :: u64
  bar_flags :: u64

record pci_dev =
  pd_addr :: pci_addr
  pd_vendor_id :: u16
  pd_device_id :: u16
  pd_subsystem_vendor_id :: u16
  pd_subsystem_device_id :: u16
  pd_bars :: "pci_bar list"
  pd_numa_node :: int
  pd_max_vfs :: int

definition PCI_BAR_MEM :: u64 where "PCI_BAR_MEM = 0x200"
definition PCI_BAR_PREFETCH :: u64 where "PCI_BAR_PREFETCH = 0x2000"
definition PCI_BAR_READONLY :: u64 where "PCI_BAR_READONLY = 0x4000"
definition PCI_MAX_BARS :: nat where "PCI_MAX_BARS = 7"

definition PCI_SYSFS_PATH :: string where "PCI_SYSFS_PATH = ''/sys/bus/pci/devices''"

text \<open>The conversions \<open>%x\<close> and \<open>%0wx\<close>.\<close>

definition hex_char :: "nat \<Rightarrow> char" where
  "hex_char d = char_of (if d < 10 then 48 + d else 87 + d)"

fun hex_digits :: "nat \<Rightarrow> string" where
  "hex_digits n = (if n < 16 then [hex_char n] else hex_digits (n div 16) @ [hex_char (n mod 16)])"

declare hex_digits.simps [simp del]

definition padded :: "nat \<Rightarrow> string \<Rightarrow> string" where
  "padded w s = replicate (w - length s) (CHR ''0'') @ s"

definition pci_addr_text :: "pci_addr \<Rightarrow> string" where
  "pci_addr_text a =
     padded 4 (hex_digits (unat (pci_domain a))) @ '':'' @ padded 2 (hex_digits (unat (pci_bus a))) @ '':'' @
     padded 2 (hex_digits (unat (pci_slot a))) @ ''.'' @ dec_digits (unat (pci_func a))"

text \<open>A file that is read only when it can be.\<close>

definition parse_optional :: "sysfs \<Rightarrow> string \<Rightarrow> u64 \<Rightarrow> int \<times> u64" where
  "parse_optional fs path dflt = (if fs_read fs path = None then (0, dflt) else sysfs_parse_val fs path)"

definition pci_scan_dev_info :: "sysfs \<Rightarrow> string \<Rightarrow> pci_dev \<Rightarrow> int \<times> pci_dev" where
  "pci_scan_dev_info fs dir_path dev =
     (let file = (\<lambda>f. snprintf PATH_MAX (dir_path @ f)); (r, v) = sysfs_parse_val fs (file ''/vendor'')
      in if r \<noteq> 0 then (- EIO, dev) else
      let dev = dev\<lparr>pd_vendor_id := ucast v\<rparr>; (r, v) = sysfs_parse_val fs (file ''/device'')
      in if r \<noteq> 0 then (- EIO, dev) else
      let dev = dev\<lparr>pd_device_id := ucast v\<rparr>; (r, v) = sysfs_parse_val fs (file ''/subsystem_vendor'')
      in if r \<noteq> 0 then (- EIO, dev) else
      let dev = dev\<lparr>pd_subsystem_vendor_id := ucast v\<rparr>; (r, v) = sysfs_parse_val fs (file ''/subsystem_device'')
      in if r \<noteq> 0 then (- EIO, dev) else
      let dev = dev\<lparr>pd_subsystem_device_id := ucast v\<rparr>; (r, v) = parse_optional fs (file ''/numa_node'') (- 1)
      in if r \<noteq> 0 then (- EIO, dev) else
      let dev = dev\<lparr>pd_numa_node := s32 (uint v)\<rparr>; (r, v) = parse_optional fs (file ''/max_vfs'') 0
      in if r \<noteq> 0 then (- EIO, dev) else (0, dev\<lparr>pd_max_vfs := uint (ucast v :: u16)\<rparr>))"

text \<open>The loop over the lines of \<open>resource\<close>, from region \<open>i\<close> on.\<close>

primrec scan_bars :: "nat list \<Rightarrow> string \<Rightarrow> pci_bar list \<Rightarrow> int \<times> pci_bar list" where
  "scan_bars [] content bars = (0, bars)"
| "scan_bars (i # is') content bars =
     (case fgets BUFSIZ content of
        None \<Rightarrow> (- EIO, bars)
      | Some (buf, after) \<Rightarrow>
          (case sscanf [Conv 16 None False, Conv 16 None False, Conv 16 None False] buf of
             [a, b, f] \<Rightarrow> scan_bars is' after (bars[i := \<lparr>bar_start = of_int a, bar_len = of_int b - of_int a + 1, bar_flags = of_int f\<rparr>])
           | _ \<Rightarrow> (- EINVAL, bars)))"

definition pci_scan_dev_resources :: "sysfs \<Rightarrow> string \<Rightarrow> pci_dev \<Rightarrow> int \<times> pci_dev" where
  "pci_scan_dev_resources fs dir_path dev =
     (case fs_read fs (snprintf PATH_MAX (dir_path @ ''/resource'')) of
        None \<Rightarrow> (- EIO, dev)
      | Some content \<Rightarrow> let (ret, bars) = scan_bars [0..<PCI_MAX_BARS] content (pd_bars dev) in (ret, dev\<lparr>pd_bars := bars\<rparr>))"

text \<open>\<open>mem\<close>: whether \<open>malloc\<close> gives memory.\<close>

definition pci_dir :: "pci_addr \<Rightarrow> string" where
  "pci_dir addr = snprintf PATH_MAX (PCI_SYSFS_PATH @ ''/'' @ pci_addr_text addr)"

definition pci_alloc_dev :: "sysfs \<Rightarrow> bool \<Rightarrow> pci_addr \<Rightarrow> pci_dev option" where
  "pci_alloc_dev fs mem addr =
     (if \<not> mem then None
      else let dev = \<lparr>pd_addr = addr, pd_vendor_id = 0, pd_device_id = 0, pd_subsystem_vendor_id = 0, pd_subsystem_device_id = 0,
                      pd_bars = replicate PCI_MAX_BARS \<lparr>bar_start = 0, bar_len = 0, bar_flags = 0\<rparr>, pd_numa_node = 0, pd_max_vfs = 0\<rparr>;
               (ret, dev) = pci_scan_dev_info fs (pci_dir addr) dev
      in if ret \<noteq> 0 then None
      else let (ret, dev) = pci_scan_dev_resources fs (pci_dir addr) dev
      in if ret \<noteq> 0 then None else Some dev)"

section \<open>Regions\<close>

text \<open>A pointer to a region is its index, relative to the first one.\<close>

fun find_bar :: "nat \<Rightarrow> pci_bar list \<Rightarrow> int \<Rightarrow> nat option" where
  "find_bar i [] cnt = None"
| "find_bar i (b # bs) cnt =
     (if bar_flags b AND PCI_BAR_MEM = 0 then find_bar (i + 1) bs cnt
      else if cnt = 0 then Some i else find_bar (i + 1) bs (s32 (cnt - 1)))"

definition pci_find_mem_bar :: "pci_dev \<Rightarrow> int \<Rightarrow> nat option" where
  "pci_find_mem_bar dev cnt = find_bar 0 (pd_bars dev) cnt"

text \<open>The difference of two pointers to regions counts regions; dividing it by \<open>sizeof\<close>, 24, makes it unsigned.\<close>

definition pci_bar_to_idx :: "int \<Rightarrow> int" where
  "pci_bar_to_idx bar = (let idx = s32 (uint ((of_int bar :: u64) div 24)) in if idx < 0 \<or> idx \<ge> int PCI_MAX_BARS then - EINVAL else idx)"

text \<open>The system calls: a descriptor or -1, an address or \<open>MAP_FAILED\<close>, and the result of Dune.\<close>

record pci_os =
  po_open :: "string \<Rightarrow> int"
  po_mmap :: "int \<Rightarrow> u64 \<Rightarrow> addr"
  po_vm_map :: "addr \<Rightarrow> u64 \<Rightarrow> int"
  po_ioctl :: "pci_addr \<Rightarrow> int"

text \<open>The mappings that exist, with their lengths.\<close>

type_synonym mappings = "(addr \<times> u64) list"

definition pci_map_mem_bar :: "pci_os \<Rightarrow> pci_dev \<Rightarrow> int \<Rightarrow> bool \<Rightarrow> mappings \<Rightarrow> (addr \<times> mappings) res" where
  "pci_map_mem_bar os dev k wc maps =
     (if k < 0 \<or> k \<ge> int (length (pd_bars dev)) then Inl Out_of_bounds
      else let bar = pd_bars dev ! nat k
      in if bar_flags bar AND PCI_BAR_READONLY \<noteq> 0 then Inr (NULL, maps)
      else if bar_len bar = 0 then Inr (NULL, maps)
      else let idx = pci_bar_to_idx k
      in if idx < 0 then Inr (NULL, maps)
      else if wc \<and> bar_flags bar AND PCI_BAR_PREFETCH = 0 then Inr (NULL, maps)
      else let path = snprintf PATH_MAX (PCI_SYSFS_PATH @ ''/'' @ pci_addr_text (pd_addr dev) @ ''/resource'' @ dec_digits (nat idx) @ (if wc then ''_wc'' else []));
               fd = po_open os path
      in if fd = - 1 then Inr (NULL, maps)
      else let vaddr = po_mmap os fd (bar_len bar)
      in if vaddr = MAP_FAILED then Inr (NULL, maps)
      else if po_vm_map os vaddr (bar_len bar) \<noteq> 0 then Inr (NULL, remove1 (vaddr, bar_len bar) ((vaddr, bar_len bar) # maps))
      else Inr (vaddr, (vaddr, bar_len bar) # maps))"

definition pci_unmap_mem_bar :: "pci_bar \<Rightarrow> addr \<Rightarrow> mappings \<Rightarrow> mappings" where
  "pci_unmap_mem_bar bar vaddr maps = remove1 (vaddr, bar_len bar) maps"

definition pci_enable_device :: "int \<Rightarrow> pci_dev \<Rightarrow> sysfs \<Rightarrow> int \<times> sysfs" where
  "pci_enable_device wr dev fs =
     (let path = snprintf PATH_MAX (PCI_SYSFS_PATH @ ''/'' @ pci_addr_text (pd_addr dev) @ ''/enable'');
          (ret, enable) = sysfs_parse_val fs path
      in if ret \<noteq> 0 then (- EIO, fs)
      else if enable \<noteq> 0 then (0, fs)
      else let (ret, fs1) = sysfs_store_val wr path 1 fs in if ret \<noteq> 0 then (- EIO, fs1) else (0, fs1))"

text \<open>\<open>pcidma_fd\<close> is opened once; the lock is free between calls.\<close>

definition pci_set_master :: "pci_os \<Rightarrow> pci_dev \<Rightarrow> int \<Rightarrow> int \<times> int" where
  "pci_set_master os dev pcidma_fd =
     (let fd = (if pcidma_fd = 0 then po_open os ''/dev/pcidma'' else pcidma_fd)
      in if fd = - 1 then (- EIO, fd) else (po_ioctl os (pd_addr dev), fd))"

section \<open>Numbers in base 16\<close>

lemma hex_char_val: "d < 16 \<Longrightarrow> digit_val 16 (hex_char d) = Some d"
  by (auto simp: digit_val_def hex_char_def char_code_def Let_def)

lemma hex_digit_plain:
  assumes "digit_val 16 c \<noteq> None"
  shows "\<not> isspace c \<and> c \<noteq> CHR ''-'' \<and> c \<noteq> CHR ''+'' \<and> c \<noteq> CHR ''x'' \<and> c \<noteq> CHR ''X'' \<and> c \<noteq> newline"
  using assms by (auto simp: digit_val_def isspace_def char_code_def Let_def newline_def split: if_splits)

lemma hex_digits_nonempty: "hex_digits n \<noteq> []"
  by (subst hex_digits.simps) simp

lemma hex_digits_digit: "c \<in> set (hex_digits n) \<Longrightarrow> digit_val 16 c \<noteq> None"
proof (induction n arbitrary: c rule: hex_digits.induct)
  case (1 n)
  then show ?case by (cases "n < 16") (auto simp: hex_digits.simps [of n] hex_char_val)
qed

lemma digits_hex: "digits 16 0 (hex_digits n) = (n, [])"
proof (induction n rule: hex_digits.induct)
  case (1 n)
  show ?case
  proof (cases "n < 16")
    case True
    then show ?thesis by (subst hex_digits.simps) (simp add: hex_char_val)
  next
    case False
    then have "digits 16 0 (hex_digits n) = digits 16 (fst (digits 16 0 (hex_digits (n div 16)))) [hex_char (n mod 16)]"
      by (subst hex_digits.simps) (simp add: digits_append hex_digits_digit)
    then show ?thesis using 1 False by (simp add: hex_char_val)
  qed
qed

lemma hex_digits_length: "n < 16 ^ k \<Longrightarrow> 0 < k \<Longrightarrow> length (hex_digits n) \<le> k"
proof (induction k arbitrary: n)
  case (Suc k)
  show ?case
  proof (cases "n < 16")
    case True
    then show ?thesis by (subst hex_digits.simps) simp
  next
    case False
    then have "0 < k" using Suc.prems by (cases k) auto
    moreover have "n div 16 < 16 ^ k" using Suc.prems by (simp add: less_mult_imp_div_less)
    ultimately have "length (hex_digits (n div 16)) \<le> k" using Suc.IH by blast
    then show ?thesis using False by (subst hex_digits.simps) simp
  qed
qed simp

text \<open>Text that is a number in base 16 and nothing else.\<close>

definition hex_text :: "string \<Rightarrow> nat \<Rightarrow> bool" where
  "hex_text t n \<longleftrightarrow> t \<noteq> [] \<and> (\<forall>c\<in>set t. digit_val 16 c \<noteq> None) \<and> digits 16 0 t = (n, [])"

lemma hex_text_padded: "hex_text (padded w (hex_digits n)) n"
proof -
  have z: "digit_val 16 (CHR ''0'') = Some 0" by (simp add: digit_val_def char_code_def Let_def)
  have "digits 16 0 (replicate k (CHR ''0'') @ t) = digits 16 0 t" for k t by (induction k) (simp_all add: z)
  then show ?thesis using hex_digits_digit [of _ n] digits_hex [of n] z by (auto simp: hex_text_def padded_def hex_digits_nonempty)
qed

lemma hex_text_parts:
  assumes "hex_text t n"
  obtains c cs where "t = c # cs" "digit_val 16 c \<noteq> None" "\<not> isspace c" "sign (t @ r) = (False, t @ r)" "\<not> hex_prefix 16 t"
proof -
  obtain c cs where t: "t = c # cs" using assms by (cases t) (auto simp: hex_text_def)
  have c: "digit_val 16 c \<noteq> None" using assms t by (simp add: hex_text_def)
  have "\<not> hex_prefix 16 t"
  proof
    assume h: "hex_prefix 16 t"
    then have "digit_val 16 (t ! 1) \<noteq> None" using assms by (auto simp: hex_text_def hex_prefix_def)
    from hex_digit_plain [OF this] show False using h by (simp add: hex_prefix_def)
  qed
  then show ?thesis using that [OF t c] hex_digit_plain [OF c] t by (simp add: sign_def)
qed

lemma scan_hex_width:
  assumes t: "hex_text t n" and n: "n < 2 ^ 64" and w: "length t = w"
  shows "scan_num 16 (Some w) False (t @ r) = Some (int n, r)"
proof -
  obtain c cs where c: "t = c # cs" "digit_val 16 c \<noteq> None" "\<not> isspace c" "sign (t @ []) = (False, t @ [])" "\<not> hex_prefix 16 t"
    by (rule hex_text_parts [OF t])
  have "dropWhile isspace (t @ r) = t @ r" using c(1,3) by simp
  moreover have "take w (t @ r) = t" "drop w (t @ r) = r" using w by simp_all
  ultimately show ?thesis using c t n by (simp add: scan_num_def hex_text_def to_ulong_def del: digits.simps)
qed

text \<open>A number with the prefix \<open>0x\<close>, and the text after it.\<close>

definition hex_stops :: "string \<Rightarrow> bool" where
  "hex_stops r \<longleftrightarrow> r = [] \<or> digit_val 16 (r ! 0) = None"

lemma digits_hex_stops: "hex_stops r \<Longrightarrow> digits 16 v r = (v, r)"
  by (cases r) (auto simp: hex_stops_def)

lemma digits_hex_text:
  assumes "hex_text t n" "hex_stops r"
  shows "digits 16 0 (t @ r) = (n, r)"
  using digits_append [of t 16 0 r] digits_hex_stops [OF assms(2)] assms(1) by (auto simp: hex_text_def)

lemma zero_x:
  "\<not> isspace (CHR ''0'')" "sign (CHR ''0'' # t) = (False, CHR ''0'' # t)" "hex_prefix 16 (CHR ''0'' # CHR ''x'' # t)"
  by (simp_all add: isspace_def char_code_def sign_def hex_prefix_def Let_def)

lemma scan_hex:
  assumes t: "hex_text t n" and n: "n < 2 ^ 64" and r: "hex_stops r" and b: "list_all isspace b"
  shows "scan_num 16 None False (b @ ''0x'' @ t @ r) = Some (int n, r)"
proof -
  have "dropWhile isspace (b @ ''0x'' @ t @ r) = ''0x'' @ t @ r" using b zero_x(1) by (induction b) simp_all
  then show ?thesis using digits_hex_text [OF t r] n by (simp add: scan_num_def zero_x to_ulong_def)
qed

lemma strtoull_hex:
  assumes t: "hex_text t n" and n: "n < 2 ^ 64" and r: "hex_stops r"
  shows "strtoull (''0x'' @ t @ r) = (of_nat n, r)"
proof -
  obtain c cs where c: "t = c # cs" "digit_val 16 c \<noteq> None" using t by (cases t) (auto simp: hex_text_def)
  then show ?thesis using digits_hex_text [OF t r] n by (simp add: strtoull_def zero_x to_ulong_def del: digits.simps)
qed

text \<open>A line that fits the buffer.\<close>

lemma fgets_line:
  assumes "newline \<notin> set l" "length l < BUFSIZ - 1"
  shows "fgets BUFSIZ (l @ newline # r) = Some (l @ [newline], r)"
proof -
  have "takeWhile ((\<noteq>) newline) (l @ newline # r) = l" "dropWhile ((\<noteq>) newline) (l @ newline # r) = newline # r"
    using assms(1) by (induction l) auto
  then show ?thesis using assms(2) by (simp add: fgets_def Let_def BUFSIZ_def)
qed

lemma newline_stops: "hex_stops (newline # r)" "hex_stops (CHR '' '' # r)"
  by (simp_all add: hex_stops_def digit_val_def char_code_def newline_def Let_def)

text \<open>The files of a device as the kernel shows them: numbers in base 16 with leading zeros, one on a line or three.\<close>

definition hex_line :: "nat \<Rightarrow> nat \<Rightarrow> string" where
  "hex_line w n = ''0x'' @ padded w (hex_digits n) @ [newline]"

definition bar_line :: "u64 \<times> u64 \<times> u64 \<Rightarrow> string" where
  "bar_line b = (case b of (beg, fin, flags) \<Rightarrow>
     ''0x'' @ padded 16 (hex_digits (unat beg)) @ '' 0x'' @ padded 16 (hex_digits (unat fin)) @ '' '' @ hex_line 16 (unat flags))"

definition bar_of :: "u64 \<times> u64 \<times> u64 \<Rightarrow> pci_bar" where
  "bar_of b = (case b of (beg, fin, flags) \<Rightarrow> \<lparr>bar_start = beg, bar_len = fin - beg + 1, bar_flags = flags\<rparr>)"

lemma padded_length: "n < 16 ^ w \<Longrightarrow> 0 < w \<Longrightarrow> length (padded w (hex_digits n)) = w"
  using hex_digits_length [of n w] by (simp add: padded_def)

lemma padded_no_newline: "newline \<notin> set (padded w (hex_digits n))"
  using hex_text_padded [of w n] hex_digit_plain [of newline] by (auto simp: hex_text_def)

lemma unat_hex: "unat (v :: u64) < 16 ^ 16" "unat (v :: u64) < 2 ^ 64"
  using unsigned_less [of v] by simp_all

lemma parse_hex_line:
  assumes "fs_read fs path = Some (hex_line w n)" "n < 16 ^ w" "0 < w" "w \<le> 16"
  shows "sysfs_parse_val fs path = (0, of_nat n)"
proof -
  have "(16 :: nat) ^ w \<le> 16 ^ 16" using assms(4) by (intro power_increasing) simp_all
  then have n: "n < 2 ^ 64" using assms(2) by simp
  have l: "newline \<notin> set (''0x'' @ padded w (hex_digits n))" using padded_no_newline by (simp add: newline_def)
  have "length (''0x'' @ padded w (hex_digits n)) < BUFSIZ - 1" using padded_length [OF assms(2,3)] assms(4) by (simp add: BUFSIZ_def)
  from fgets_line [OF l this, of "[]"] have "fgets BUFSIZ (hex_line w n) = Some (hex_line w n, [])" by (simp add: hex_line_def)
  moreover have "strtoull (hex_line w n) = (of_nat n, [newline])"
    unfolding hex_line_def by (rule strtoull_hex [OF hex_text_padded n newline_stops(1)])
  moreover have "hex_line w n ! 0 \<noteq> CHR 0x00" by (simp add: hex_line_def)
  ultimately show ?thesis using assms(1) by (simp add: sysfs_parse_val_def)
qed

lemma scan_bar_line:
  "sscanf [Conv 16 None False, Conv 16 None False, Conv 16 None False] (bar_line (a, b, f)) = [uint a, uint b, uint f]"
proof -
  have s: "list_all isspace ('' '')" "list_all isspace []" by (simp_all add: isspace_def char_code_def Let_def)
  have "scan_num 16 None False ([] @ ''0x'' @ padded 16 (hex_digits (unat a)) @ CHR '' '' # r) = Some (int (unat a), CHR '' '' # r)"
    "scan_num 16 None False ('' '' @ ''0x'' @ padded 16 (hex_digits (unat a)) @ CHR '' '' # r) = Some (int (unat a), CHR '' '' # r)"
    "scan_num 16 None False ('' '' @ ''0x'' @ padded 16 (hex_digits (unat a)) @ newline # r) = Some (int (unat a), newline # r)" for a :: u64 and r
    by (rule scan_hex [OF hex_text_padded unat_hex(2) newline_stops(2) s(2)], rule scan_hex [OF hex_text_padded unat_hex(2) newline_stops(2) s(1)],
        rule scan_hex [OF hex_text_padded unat_hex(2) newline_stops(1) s(1)])
  then show ?thesis by (simp add: bar_line_def hex_line_def)
qed

lemma fgets_bar_line: "fgets BUFSIZ (bar_line b @ r) = Some (bar_line b, r)"
proof -
  obtain x y z where b: "b = (x, y, z)" by (cases b)
  let ?l = "''0x'' @ padded 16 (hex_digits (unat x)) @ '' 0x'' @ padded 16 (hex_digits (unat y)) @ '' 0x'' @ padded 16 (hex_digits (unat z))"
  have "newline \<notin> set ?l" using padded_no_newline by (simp add: newline_def)
  moreover have "length ?l < BUFSIZ - 1" using padded_length [OF unat_hex(1)] by (simp add: BUFSIZ_def)
  ultimately have "fgets BUFSIZ (?l @ newline # r) = Some (?l @ [newline], r)" by (rule fgets_line)
  then show ?thesis by (simp add: b bar_line_def hex_line_def)
qed

lemma scan_bars_lines:
  assumes "length bars = i + length bs"
  shows "scan_bars [i..<i + length bs] (concat (map bar_line bs) @ r) bars = (0, take i bars @ map bar_of bs)"
  using assms
proof (induction bs arbitrary: i bars)
  case (Cons b bs)
  obtain x y z where b: "b = (x, y, z)" by (cases b)
  have "[i..<i + length (b # bs)] = i # [Suc i..<Suc i + length bs]" using upt_conv_Cons [of i "i + length (b # bs)"] by simp
  moreover have "length (bars[i := bar_of b]) = Suc i + length bs" using Cons.prems by simp
  from Cons.IH [OF this] have "scan_bars [Suc i..<Suc i + length bs] (concat (map bar_line bs) @ r) (bars[i := bar_of b]) =
    (0, take (Suc i) (bars[i := bar_of b]) @ map bar_of bs)" .
  moreover have "take (Suc i) (bars[i := bar_of b]) = take i bars @ [bar_of b]" using Cons.prems by (simp add: take_Suc_conv_app_nth)
  ultimately show ?case using scan_bar_line [of x y z] by (simp add: fgets_bar_line b bar_of_def del: upt_Suc)
qed simp

text \<open>Numbers in base 10: only zero starts with the digit zero, so that the base is found.\<close>

lemma dec_digits_zero: "dec_digits n ! 0 = CHR ''0'' \<Longrightarrow> n = 0"
proof (induction n rule: dec_digits.induct)
  case (1 n)
  have d: "n < 10 \<Longrightarrow> digit_char n = CHR ''0'' \<Longrightarrow> n = 0" using digit_val_char [of n] by (simp add: digit_val_def char_code_def Let_def)
  show ?case
  proof (cases "n < 10")
    case True
    then show ?thesis using 1(2) d by (simp add: dec_digits.simps [of n])
  next
    case False
    then have "dec_digits (n div 10) ! 0 = CHR ''0''"
      using 1(2) dec_digits_nonempty [of "n div 10"] by (simp add: dec_digits.simps [of n] nth_append)
    then show ?thesis using 1(1) False by simp
  qed
qed

definition dec_line :: "int \<Rightarrow> string" where
  "dec_line k = (if k < 0 then CHR ''-'' # dec_digits (nat (- k)) else dec_digits (nat k)) @ [newline]"

lemma dec_base:
  assumes c: "dec_digits n = c # cs"
  shows "digits (if c = CHR ''0'' then 8 else 10) 0 (dec_digits n @ [newline]) = (n, [newline])"
    and "digit_val (if c = CHR ''0'' then 8 else 10) c \<noteq> None" and "\<not> hex_prefix 16 (dec_digits n @ [newline])"
proof -
  have z: "n = 0" if "c = CHR ''0''" using dec_digits_zero [of n] c that by simp
  have st: "stops [newline]" by (simp add: stops_def digit_val_def char_code_def newline_def Let_def)
  have dg: "digits 10 0 (dec_digits n @ [newline]) = (n, [newline])"
    using digits_append [of "dec_digits n" 10 0 "[newline]"] dec_digits_digit digits_dec [of n] digits_stops [OF st] by simp
  have d8: "digits 8 0 (dec_digits 0 @ [newline]) = (0, [newline])" "digit_val 8 (CHR ''0'') = Some 0"
    by (simp_all add: dec_digits.simps [of 0] digit_char_def digit_val_def char_code_def newline_def Let_def)
  have "digit_val 10 c \<noteq> None" using dec_digits_digit [of c n] c by simp
  then show "digits (if c = CHR ''0'' then 8 else 10) 0 (dec_digits n @ [newline]) = (n, [newline])"
    "digit_val (if c = CHR ''0'' then 8 else 10) c \<noteq> None"
    using dg d8 z by (auto split: if_splits)
  show "\<not> hex_prefix 16 (dec_digits n @ [newline])"
  proof
    assume h: "hex_prefix 16 (dec_digits n @ [newline])"
    then have "n = 0" using dec_digits_zero [of n] c by (simp add: hex_prefix_def)
    then show False using h by (simp add: hex_prefix_def dec_digits.simps [of 0] newline_def)
  qed
qed

lemma strtoull_dec:
  assumes k: "\<bar>k\<bar> < 2 ^ 31"
  shows "strtoull (dec_line k) = (of_int k, [newline])"
proof -
  define n where "n = nat \<bar>k\<bar>"
  have n: "n < 2 ^ 31" using k unfolding n_def by (simp only: nat_less_iff [OF abs_ge_zero]) simp
  obtain c cs where c: "dec_digits n = c # cs" using dec_digits_nonempty [of n] by (cases "dec_digits n") auto
  obtain d where d: "d < 10" "c = digit_char d" using dec_digits_first [of n] c by auto
  have cd: "\<not> isspace c" "c \<noteq> CHR ''-''" "c \<noteq> CHR ''+''" using digit_char_cases [OF d(1)] d by simp_all
  note e = dec_base [OF c]
  have body: "strtoull s = (of_int (to_ulong neg n), [newline])" if "sign (dropWhile isspace s) = (neg, dec_digits n @ [newline])" for s neg
    using that e c by (auto simp: strtoull_def simp del: digits.simps split: if_splits)
  have to: "of_int (to_ulong neg n) = (of_int (if neg then - int n else int n) :: u64)" for neg
  proof -
    have "(of_int (- int n mod 2 ^ 64) :: u64) = of_int (- int n)" by (simp only: word_of_int_eq_iff take_bit_eq_mod) simp
    then show ?thesis using n by (simp add: to_ulong_def)
  qed
  show ?thesis
  proof (cases "k < 0")
    case True
    have "\<not> isspace (CHR ''-'')" by (simp add: isspace_def char_code_def Let_def)
    then have "sign (dropWhile isspace (dec_line k)) = (True, dec_digits n @ [newline])" using True by (simp add: dec_line_def sign_def n_def)
    then show ?thesis using body to [of True] True by (simp add: n_def)
  next
    case False
    then have "sign (dropWhile isspace (dec_line k)) = (False, dec_digits n @ [newline])" using cd c by (simp add: dec_line_def sign_def n_def)
    then show ?thesis using body to [of False] False by (simp add: n_def)
  qed
qed

section \<open>Properties\<close>

lemma unat_hex16: "unat (v :: u16) < 16 ^ 4"
  using unsigned_less [of v] by simp

lemma unat_hex8: "unat (v :: u8) < 16 ^ 2"
  using unsigned_less [of v] by simp

text \<open>
  The address of a device as \<open>pci_alloc_dev\<close> prints it into a path is read back by \<open>pci_str_to_addr\<close>, the function that reads the
  configuration: every address has a text of its own.
\<close>

theorem pci_addr_round_trip: "pci_str_to_addr (pci_addr_text a) = Inr a"
proof -
  have h4: "scan_num 16 (Some 4) False (padded 4 (hex_digits (unat d)) @ r) = Some (uint d, r)" for d :: u16 and r
    using scan_hex_width [OF hex_text_padded [of 4 "unat d"], of 4 r] padded_length [OF unat_hex16 [of d]] unat_hex16 [of d] by simp
  have h2: "scan_num 16 (Some 2) False (padded 2 (hex_digits (unat d)) @ r) = Some (uint d, r)" for d :: u8 and r
    using scan_hex_width [OF hex_text_padded [of 2 "unat d"], of 2 r] padded_length [OF unat_hex8 [of d]] unat_hex8 [of d] by simp
  have dec: "scan_num 10 None True (dec_digits (unat f)) = Some (uint f, [])" for f :: u8
  proof -
    obtain c cs where c: "dec_digits (unat f) = c # cs" using dec_digits_nonempty [of "unat f"] by (cases "dec_digits (unat f)") auto
    obtain d where d: "d < 10" "c = digit_char d" using dec_digits_first [of "unat f"] c by auto
    have "digits 10 0 (c # cs) = (unat f, [])" using digits_dec [of "unat f"] c by simp
    moreover have "digit_val 10 c = Some d" "\<not> isspace c" "sign (c # cs) = (False, c # cs)"
      using digit_char_cases [OF d(1)] d digit_val_char by (simp_all add: sign_def)
    moreover have "uint f < 2 ^ LENGTH(8)" by (rule unsigned_less)
    ultimately show ?thesis using c by (simp add: scan_num_def hex_prefix_def to_long_def del: digits.simps)
  qed
  show ?thesis by (simp add: pci_str_to_addr_def pci_addr_text_def h4 h2 dec)
qed

lemma zero_char: "digit_char 0 = CHR ''0''"
  by code_simp

lemma pci_path:
  assumes "length f < 100"
  shows "snprintf PATH_MAX (pci_dir a @ f) = pci_dir a @ f" "pci_dir a = PCI_SYSFS_PATH @ ''/'' @ pci_addr_text a"
proof -
  have "unat (pci_func a) < 10 ^ 3" using unat_hex8 [of "pci_func a"] by simp
  then have "length (pci_addr_text a) \<le> 14"
    using padded_length [OF unat_hex16] padded_length [OF unat_hex8] dec_digits_length [of "unat (pci_func a)" 3] by (simp add: pci_addr_text_def)
  then show "pci_dir a = PCI_SYSFS_PATH @ ''/'' @ pci_addr_text a" "snprintf PATH_MAX (pci_dir a @ f) = pci_dir a @ f"
    using assms by (simp_all add: pci_dir_def snprintf_def PATH_MAX_def PCI_SYSFS_PATH_def)
qed

text \<open>The directory of a device: its identifiers, the node it is attached to, and its regions, perhaps with more lines after them.\<close>

definition shows_device :: "sysfs \<Rightarrow> pci_addr \<Rightarrow> u16 \<times> u16 \<times> u16 \<times> u16 \<Rightarrow> int \<Rightarrow> (u64 \<times> u64 \<times> u64) list \<Rightarrow> bool" where
  "shows_device fs a ids node bs \<longleftrightarrow> (case ids of (v, d, sv, sd) \<Rightarrow>
     fs_read fs (pci_dir a @ ''/vendor'') = Some (hex_line 4 (unat v)) \<and> fs_read fs (pci_dir a @ ''/device'') = Some (hex_line 4 (unat d)) \<and>
     fs_read fs (pci_dir a @ ''/subsystem_vendor'') = Some (hex_line 4 (unat sv)) \<and>
     fs_read fs (pci_dir a @ ''/subsystem_device'') = Some (hex_line 4 (unat sd)) \<and>
     fs_read fs (pci_dir a @ ''/numa_node'') = Some (dec_line node) \<and> fs_read fs (pci_dir a @ ''/max_vfs'') = None \<and>
     (\<exists>more. fs_read fs (pci_dir a @ ''/resource'') = Some (concat (map bar_line bs) @ more)))"

lemma parse_dec_line:
  assumes "fs_read fs path = Some (dec_line k)" "\<bar>k\<bar> < 2 ^ 31"
  shows "sysfs_parse_val fs path = (0, of_int k)"
proof -
  define l where "l = (if k < 0 then CHR ''-'' # dec_digits (nat (- k)) else dec_digits (nat k))"
  have "CHR 0x0A \<notin> set (dec_digits n)" for n using dec_digits_digit [of "CHR 0x0A" n] by (auto simp: digit_val_def char_code_def Let_def)
  then have nl: "newline \<notin> set l" by (simp add: l_def newline_def)
  have z: "CHR 0x00 \<notin> set (dec_digits n)" for n using dec_digits_digit [of "CHR 0x00" n] by (auto simp: digit_val_def char_code_def Let_def)
  have "nat \<bar>k\<bar> < 10 ^ 10" using assms(2) by (simp add: nat_less_iff)
  then have "length (dec_digits (nat \<bar>k\<bar>)) \<le> 10" by (rule dec_digits_length) simp
  then have "length l < BUFSIZ - 1" by (auto simp: l_def BUFSIZ_def abs_if split: if_splits)
  from fgets_line [OF nl this, of "[]"] have "fgets BUFSIZ (dec_line k) = Some (dec_line k, [])" by (simp add: dec_line_def l_def)
  moreover have "dec_line k ! 0 \<noteq> CHR 0x00"
    using z [of "nat k"] dec_digits_nonempty [of "nat k"] by (auto simp: dec_line_def nth_append) (metis nth_mem length_greater_0_conv)
  ultimately show ?thesis using assms(1) strtoull_dec [OF assms(2)] by (simp add: sysfs_parse_val_def)
qed

lemma pci_read:
  assumes "shows_device fs a (v, d, sv, sd) node bs" "length bs = PCI_MAX_BARS" "\<bar>node\<bar> < 2 ^ 31"
  shows "pci_alloc_dev fs True a = Some \<lparr>pd_addr = a, pd_vendor_id = v, pd_device_id = d, pd_subsystem_vendor_id = sv, pd_subsystem_device_id = sd,
    pd_bars = map bar_of bs, pd_numa_node = node, pd_max_vfs = 0\<rparr>"
proof -
  obtain more where res: "fs_read fs (pci_dir a @ ''/resource'') = Some (concat (map bar_line bs) @ more)"
    using assms(1) by (auto simp: shows_device_def)
  have hex: "sysfs_parse_val fs (pci_dir a @ f) = (0, of_nat (unat x))" if "fs_read fs (pci_dir a @ f) = Some (hex_line 4 (unat x))" for f and x :: u16
    by (rule parse_hex_line [OF that unat_hex16]) simp_all
  have ids: "sysfs_parse_val fs (pci_dir a @ ''/vendor'') = (0, of_nat (unat v))" "sysfs_parse_val fs (pci_dir a @ ''/device'') = (0, of_nat (unat d))"
    "sysfs_parse_val fs (pci_dir a @ ''/subsystem_vendor'') = (0, of_nat (unat sv))"
    "sysfs_parse_val fs (pci_dir a @ ''/subsystem_device'') = (0, of_nat (unat sd))"
    by (rule hex, use assms(1) in \<open>simp add: shows_device_def\<close>)+
  have opt: "parse_optional fs (pci_dir a @ ''/numa_node'') (- 1) = (0, of_int node)" "parse_optional fs (pci_dir a @ ''/max_vfs'') 0 = (0, 0)"
    using assms(1,3) parse_dec_line [of fs "pci_dir a @ ''/numa_node''" node] by (simp_all add: parse_optional_def shows_device_def)
  have bars: "scan_bars [0..<PCI_MAX_BARS] (concat (map bar_line bs) @ more) (replicate PCI_MAX_BARS b) = (0, map bar_of bs)" for b
    using scan_bars_lines [of "replicate PCI_MAX_BARS b" 0 bs more] assms(2) by simp
  have node: "s32 (uint (of_int node :: u64)) = node"
  proof -
    have "s32 (uint (of_int node :: u64)) = s32 node" by (simp add: s32_def unsigned_of_int signed_take_bit_take_bit)
    then show ?thesis using assms(3) by (simp add: s32_id)
  qed
  have uc: "ucast (ucast x :: u64) = x" for x :: u16 by (rule bit_word_eqI) (auto simp: bit_simps)
  note p = pci_path(1)
  show ?thesis
    unfolding pci_alloc_dev_def pci_scan_dev_info_def pci_scan_dev_resources_def Let_def
    by (simp add: p ids opt res bars node uc)
qed

text \<open>The second port of a card on bus 4.\<close>

definition sample_port :: pci_addr where
  "sample_port = \<lparr>pci_domain = 0, pci_bus = 4, pci_slot = 0, pci_func = 1\<rparr>"

definition sample_bars :: "(u64 \<times> u64 \<times> u64) list" where
  "sample_bars = (0xf0000000, 0xf007ffff, 0x200) # replicate 6 (0, 0, 0)"

definition sample_sysfs :: sysfs where
  "sample_sysfs = \<lparr>fs_read = map_of [(pci_dir sample_port @ ''/vendor'', hex_line 4 (unat (0x8086 :: u16))), (pci_dir sample_port @ ''/device'', hex_line 4 (unat (0x10fb :: u16))),
     (pci_dir sample_port @ ''/subsystem_vendor'', hex_line 4 (unat (0x8086 :: u16))), (pci_dir sample_port @ ''/subsystem_device'', hex_line 4 (unat (3 :: u16))),
     (pci_dir sample_port @ ''/numa_node'', dec_line (- 1)), (pci_dir sample_port @ ''/resource'', concat (map bar_line sample_bars))],
     fs_writable = (\<lambda>_. False)\<rparr>"

text \<open>
  C39: from what the kernel shows of a device \<open>pci_alloc_dev\<close> gets exactly its identifiers, its node, -1 included, and its seven regions.
\<close>

theorem pci_device_read:
  assumes "shows_device fs a (v, d, sv, sd) node bs" "length bs = PCI_MAX_BARS" "\<bar>node\<bar> < 2 ^ 31"
  shows "pci_alloc_dev fs True a = Some \<lparr>pd_addr = a, pd_vendor_id = v, pd_device_id = d, pd_subsystem_vendor_id = sv, pd_subsystem_device_id = sd,
    pd_bars = map bar_of bs, pd_numa_node = node, pd_max_vfs = 0\<rparr>"
  by (rule pci_read [OF assms])

theorem pci_device_read_witness:
  "pci_alloc_dev sample_sysfs True sample_port = Some \<lparr>pd_addr = sample_port, pd_vendor_id = 0x8086, pd_device_id = 0x10fb, pd_subsystem_vendor_id = 0x8086,
    pd_subsystem_device_id = 3, pd_bars = map bar_of sample_bars, pd_numa_node = - 1, pd_max_vfs = 0\<rparr>"
proof (rule pci_device_read)
  show "shows_device sample_sysfs sample_port (0x8086, 0x10fb, 0x8086, 3) (- 1) sample_bars" by (simp add: shows_device_def sample_sysfs_def)
qed (simp_all add: sample_bars_def PCI_MAX_BARS_def)

text \<open>
  The index of a region comes out as zero for each of the seven: \<open>pci_map_mem_bar\<close> opens \<open>resource0\<close>, whichever region it is asked to map.
\<close>

theorem pci_maps_first_region:
  assumes "k < PCI_MAX_BARS" "length (pd_bars dev) = PCI_MAX_BARS" "bar_flags (pd_bars dev ! k) AND PCI_BAR_READONLY = 0" "bar_len (pd_bars dev ! k) \<noteq> 0"
    and "po_open os (pci_dir (pd_addr dev) @ ''/resource0'') = fd" "fd \<noteq> - 1" "po_mmap os fd (bar_len (pd_bars dev ! k)) = va" "va \<noteq> MAP_FAILED"
    and "po_vm_map os va (bar_len (pd_bars dev ! k)) = 0"
  shows "pci_map_mem_bar os dev (int k) False maps = Inr (va, (va, bar_len (pd_bars dev ! k)) # maps)"
proof -
  have "k div 24 = 0" using assms(1) by (simp add: PCI_MAX_BARS_def)
  then have "uint ((of_int (int k) :: u64) div 24) = 0" using assms(1) by (simp add: uint_div_distrib unsigned_of_nat PCI_MAX_BARS_def take_bit_nat_eq_self)
  then have i: "pci_bar_to_idx (int k) = 0" by (simp add: pci_bar_to_idx_def PCI_MAX_BARS_def)
  have p: "snprintf PATH_MAX (PCI_SYSFS_PATH @ ''/'' @ pci_addr_text (pd_addr dev) @ ''/resource'' @ dec_digits 0 @ []) = pci_dir (pd_addr dev) @ ''/resource0''"
    using pci_path [of "''/resource0''" "pd_addr dev"] by (simp add: dec_digits.simps [of 0] zero_char)
  show ?thesis using assms i p by (simp add: pci_map_mem_bar_def Let_def)
qed

theorem pci_maps_first_region_witness:
  "pci_map_mem_bar \<lparr>po_open = (\<lambda>path. if path = pci_dir sample_port @ ''/resource0'' then 5 else - 1), po_mmap = (\<lambda>_ _. 0x7f0000000000), po_vm_map = (\<lambda>_ _. 0), po_ioctl = (\<lambda>_. 0)\<rparr>
     \<lparr>pd_addr = sample_port, pd_vendor_id = 0, pd_device_id = 0, pd_subsystem_vendor_id = 0, pd_subsystem_device_id = 0,
      pd_bars = replicate 7 \<lparr>bar_start = 0xf0000000, bar_len = 0x4000, bar_flags = PCI_BAR_MEM\<rparr>, pd_numa_node = 0, pd_max_vfs = 0\<rparr>
     (int 4) False [] = Inr (0x7f0000000000, [(0x7f0000000000, 0x4000)])"
  using pci_maps_first_region [of 4 "\<lparr>pd_addr = sample_port, pd_vendor_id = 0, pd_device_id = 0, pd_subsystem_vendor_id = 0, pd_subsystem_device_id = 0,
      pd_bars = replicate 7 \<lparr>bar_start = 0xf0000000, bar_len = 0x4000, bar_flags = PCI_BAR_MEM\<rparr>, pd_numa_node = 0, pd_max_vfs = 0\<rparr>"
    "\<lparr>po_open = (\<lambda>path. if path = pci_dir sample_port @ ''/resource0'' then 5 else - 1), po_mmap = (\<lambda>_ _. 0x7f0000000000), po_vm_map = (\<lambda>_ _. 0), po_ioctl = (\<lambda>_. 0)\<rparr>" 5 "0x7f0000000000" "[]"]
  by (simp add: PCI_MAX_BARS_def PCI_BAR_MEM_def PCI_BAR_READONLY_def MAP_FAILED_def)

end
