(* ===== verification/Ethdev.thy ===== *)
theory Ethdev
  imports Pci I40e_Dev
begin

text \<open>
  Network devices, \<open>dp/core/ethdev.c\<close> and \<open>dp/drivers/common.c\<close>: finding the driver of a device, its configuration, registration, and the
  queues that cores get.  DPDK is a parameter, the record \<open>dpdk\<close>.
\<close>

definition EMFILE :: int where "EMFILE = 24"

section \<open>Configuration\<close>

text \<open>The named fields of \<open>struct ix_rte_eth_conf\<close>, and all its other bytes.\<close>

record ix_eth_conf =
  ic_rss_hf :: u16
  ic_header_split :: bool
  ic_hw_ip_checksum :: bool
  ic_hw_strip_crc :: bool
  ic_hw_vlan_filter :: bool
  ic_jumbo_frame :: bool
  ic_rx_mq_mode :: nat
  ic_split_hdr_size :: u16
  ic_tx_mq_mode :: nat
  ic_others :: "u8 list"

definition IX_ETH_MQ_RX_RSS :: nat where "IX_ETH_MQ_RX_RSS = 1"
definition IX_ETH_MQ_TX_NONE :: nat where "IX_ETH_MQ_TX_NONE = 0"
definition ETH_RSS_IPV4_TCP :: u16 where "ETH_RSS_IPV4_TCP = 0x0002"
definition ETH_RSS_IPV4_UDP :: u16 where "ETH_RSS_IPV4_UDP = 0x0040"

lemmas conf_consts = IX_ETH_MQ_RX_RSS_def IX_ETH_MQ_TX_NONE_def ETH_RSS_IPV4_TCP_def ETH_RSS_IPV4_UDP_def

text \<open>\<open>pad\<close>: the bytes of the structure that the initialiser does not name.\<close>

definition default_conf :: "nat \<Rightarrow> ix_eth_conf" where
  "default_conf pad =
     \<lparr>ic_rss_hf = ETH_RSS_IPV4_TCP OR ETH_RSS_IPV4_UDP, ic_header_split = False, ic_hw_ip_checksum = True, ic_hw_strip_crc = True,
      ic_hw_vlan_filter = False, ic_jumbo_frame = False, ic_rx_mq_mode = IX_ETH_MQ_RX_RSS, ic_split_hdr_size = 0,
      ic_tx_mq_mode = IX_ETH_MQ_TX_NONE, ic_others = replicate pad 0\<rparr>"

text \<open>Constants of DPDK.\<close>

record dpdk_consts =
  ETH_MQ_RX_RSS :: nat
  ETH_MQ_TX_NONE :: nat
  ETH_RSS_NONFRAG_IPV4_TCP :: u64
  ETH_RSS_NONFRAG_IPV4_UDP :: u64
  RTE_FDIR_MODE_PERFECT :: nat
  RTE_FDIR_PBALLOC_256K :: nat
  RTE_FDIR_REPORT_STATUS :: nat
  RTE_ETH_FLOW_NONFRAG_IPV4_TCP :: u16
  PCI_ANY_ID :: u16

record fdir_conf =
  fc_mode :: nat
  fc_pballoc :: nat
  fc_status :: nat
  fc_vlan_tci_mask :: u16
  fc_src_ip_mask :: u32
  fc_dst_ip_mask :: u32
  fc_src_port_mask :: u16
  fc_dst_port_mask :: u16
  fc_drop_queue :: u8

record dpdk_conf =
  dc_rss_hf :: u64
  dc_header_split :: bool
  dc_hw_ip_checksum :: bool
  dc_hw_strip_crc :: bool
  dc_hw_vlan_filter :: bool
  dc_jumbo_frame :: bool
  dc_rx_mq_mode :: nat
  dc_split_hdr_size :: u16
  dc_tx_mq_mode :: nat
  dc_fdir :: fdir_conf

definition translate_conf_rxmode_mq_mode :: "dpdk_consts \<Rightarrow> nat \<Rightarrow> nat res" where
  "translate_conf_rxmode_mq_mode k m = (if m = IX_ETH_MQ_RX_RSS then Inr (ETH_MQ_RX_RSS k) else Inl Assert_failed)"

definition translate_conf_txmode_mq_mode :: "dpdk_consts \<Rightarrow> nat \<Rightarrow> nat res" where
  "translate_conf_txmode_mq_mode k m = (if m = IX_ETH_MQ_TX_NONE then Inr (ETH_MQ_TX_NONE k) else Inl Assert_failed)"

text \<open>The macro \<open>COPY_AND_RESET\<close>; \<open>out\<close> has 16 bits.\<close>

definition copy_bit :: "u64 \<Rightarrow> u16 \<Rightarrow> u16 \<times> u16 \<Rightarrow> u16 \<times> u16" where
  "copy_bit bit_out bit_in st = (case st of (dst, src) \<Rightarrow>
     if src AND bit_in \<noteq> 0 then (ucast (ucast dst OR bit_out), src AND NOT bit_in) else (dst, src))"

definition translate_conf_rss_hf :: "dpdk_consts \<Rightarrow> u16 \<Rightarrow> u16 res" where
  "translate_conf_rss_hf k hf =
     (let (out, left) = copy_bit (ETH_RSS_NONFRAG_IPV4_UDP k) ETH_RSS_IPV4_UDP (copy_bit (ETH_RSS_NONFRAG_IPV4_TCP k) ETH_RSS_IPV4_TCP (0, hf))
      in if left = 0 then Inr out else Inl Assert_failed)"

text \<open>Every field that is copied is cleared; then all bytes have to be zero.\<close>

definition translate_conf :: "dpdk_consts \<Rightarrow> ix_eth_conf \<Rightarrow> (dpdk_conf \<times> ix_eth_conf) res" where
  "translate_conf k inp =
     bindE (translate_conf_rss_hf k (ic_rss_hf inp)) (\<lambda>hf.
     bindE (translate_conf_rxmode_mq_mode k (ic_rx_mq_mode inp)) (\<lambda>rxm.
     bindE (translate_conf_txmode_mq_mode k (ic_tx_mq_mode inp)) (\<lambda>txm.
     if list_all (\<lambda>b. b = 0) (ic_others inp)
     then Inr (\<lparr>dc_rss_hf = ucast hf, dc_header_split = ic_header_split inp, dc_hw_ip_checksum = ic_hw_ip_checksum inp,
                dc_hw_strip_crc = ic_hw_strip_crc inp, dc_hw_vlan_filter = ic_hw_vlan_filter inp, dc_jumbo_frame = ic_jumbo_frame inp,
                dc_rx_mq_mode = rxm, dc_split_hdr_size = ic_split_hdr_size inp, dc_tx_mq_mode = txm,
                dc_fdir = \<lparr>fc_mode = 0, fc_pballoc = 0, fc_status = 0, fc_vlan_tci_mask = 0, fc_src_ip_mask = 0, fc_dst_ip_mask = 0,
                           fc_src_port_mask = 0, fc_dst_port_mask = 0, fc_drop_queue = 0\<rparr>\<rparr>,
               \<lparr>ic_rss_hf = 0, ic_header_split = False, ic_hw_ip_checksum = False, ic_hw_strip_crc = False, ic_hw_vlan_filter = False,
                ic_jumbo_frame = False, ic_rx_mq_mode = 0, ic_split_hdr_size = 0, ic_tx_mq_mode = 0, ic_others = ic_others inp\<rparr>)
     else Inl Assert_failed)))"

section \<open>Finding the driver\<close>

record pci_id =
  id_vendor :: u16
  id_device :: u16
  id_subsystem_vendor :: u16
  id_subsystem_device :: u16

text \<open>A driver of DPDK: its name, its table of devices and the result of its \<open>devinit\<close>.\<close>

record dpdk_driver =
  drv_name :: string
  drv_ids :: "pci_id list"
  drv_devinit :: int

record dev_info =
  di_max_rx_queues :: u16
  di_max_tx_queues :: u16
  di_reta_size :: u16

record dpdk =
  dp_consts :: dpdk_consts
  dp_devices :: "(pci_addr \<times> pci_id) list"
  dp_drivers :: "dpdk_driver list"
  dp_pipe :: bool
  dp_port :: u8
  dp_info :: dev_info
  dp_configure :: "u16 \<Rightarrow> u16 \<Rightarrow> dpdk_conf \<Rightarrow> int"
  dp_mac :: "u8 list"

definition id_matches :: "u16 \<Rightarrow> pci_id \<Rightarrow> pci_id \<Rightarrow> bool" where
  "id_matches any t d \<longleftrightarrow>
     (id_vendor t = id_vendor d \<or> id_vendor t = any) \<and> (id_device t = id_device d \<or> id_device t = any) \<and>
     (id_subsystem_vendor t = id_subsystem_vendor d \<or> id_subsystem_vendor t = any) \<and>
     (id_subsystem_device t = id_subsystem_device d \<or> id_subsystem_device t = any)"

fun probe_ids :: "dpdk \<Rightarrow> int \<Rightarrow> pci_id \<Rightarrow> pci_id list \<Rightarrow> int res" where
  "probe_ids dp devinit dev [] = Inl Out_of_bounds"
| "probe_ids dp devinit dev (t # ts) =
     (if id_vendor t = 0 then Inr 1
      else if \<not> id_matches (PCI_ANY_ID (dp_consts dp)) t dev then probe_ids dp devinit dev ts
      else if \<not> dp_pipe dp then Inr 0
      else Inr devinit)"

definition rte_eal_pci_probe_one_driver :: "dpdk \<Rightarrow> dpdk_driver \<Rightarrow> pci_id \<Rightarrow> int res" where
  "rte_eal_pci_probe_one_driver dp dr dev = probe_ids dp (drv_devinit dr) dev (drv_ids dr)"

fun probe_drivers :: "dpdk \<Rightarrow> pci_id \<Rightarrow> dpdk_driver list \<Rightarrow> (int \<times> dpdk_driver option) res" where
  "probe_drivers dp dev [] = Inr (- 1, None)"
| "probe_drivers dp dev (dr # drs) =
     bindE (rte_eal_pci_probe_one_driver dp dr dev) (\<lambda>ret.
     if ret < 0 then Inr (- 1, None) else if ret > 0 then probe_drivers dp dev drs else Inr (0, Some dr))"

text \<open>The result, the driver, where the first region of the device is mapped, and the mappings.\<close>

definition dpdk_devinit :: "dpdk \<Rightarrow> pci_os \<Rightarrow> pci_dev \<Rightarrow> mappings \<Rightarrow> (int \<times> dpdk_driver option \<times> addr \<times> mappings) res" where
  "dpdk_devinit dp os dev maps =
     (case find (\<lambda>(a, _). a = pd_addr dev) (dp_devices dp) of
        None \<Rightarrow> Inr (- 1, None, NULL, maps)
      | Some (_, did) \<Rightarrow>
          bindE (pci_map_mem_bar os dev 0 False maps) (\<lambda>(va, maps1).
          bindE (probe_drivers dp did (dp_drivers dp)) (\<lambda>(ret, dr). Inr (ret, dr, va, maps1))))"

section \<open>Devices\<close>

definition ETH_RSS_RETA_MAX_QUEUE :: u16 where "ETH_RSS_RETA_MAX_QUEUE = 16"
definition ETH_MAX_NUM_FG :: nat where "ETH_MAX_NUM_FG = 512"
definition NETHDEV :: nat where "NETHDEV = 16"
definition ETH_DEV_RX_QUEUE_SZ :: u16 where "ETH_DEV_RX_QUEUE_SZ = 512"
definition ETH_DEV_TX_QUEUE_SZ :: u16 where "ETH_DEV_TX_QUEUE_SZ = 4096"

text \<open>Flow groups; what \<open>malloc\<close> gives has any content.\<close>

record eth_fg =
  fg_perfg :: addr
  fg_idx :: u32
  fg_cur_cpu :: u32
  fg_prev_cpu :: u32
  fg_target_cpu :: u32
  fg_in_transition :: bool
  fg_lock :: bool

definition eth_fg_init :: "nat \<Rightarrow> eth_fg \<Rightarrow> eth_fg" where
  "eth_fg_init idx fg = fg\<lparr>fg_perfg := NULL, fg_idx := of_nat idx, fg_cur_cpu := - 1, fg_in_transition := False, fg_lock := spin_lock_init\<rparr>"

text \<open>A queue is that of the driver; receive queues also have what \<open>eth_dev_get_rx_queue\<close> stores.  \<open>None\<close>: a pointer never written.\<close>

record 'r eth_rxq =
  rxq_drv :: 'r
  rxq_queue_idx :: int
  rxq_assigned_fgs :: "u64 list"

datatype eth_block = Rx_queues | Tx_queues | Rx_fgs

record ('r, 't) eth_dev =
  ed_port :: u8
  ed_rx_queues :: "'r eth_rxq option list"
  ed_tx_queues :: "'t option list"
  ed_rx_fgs :: "eth_fg list"
  ed_nb_rx_queues :: u16
  ed_nb_tx_queues :: u16
  ed_max_rx_queues :: u16
  ed_max_tx_queues :: u16
  ed_nb_rx_fgs :: u16
  ed_conf :: ix_eth_conf
  ed_mac_addrs :: "u8 list"
  ed_link :: "nat \<times> bool \<times> bool"
  ed_blocks :: "eth_block set"

text \<open>What the driver does: setting up a queue, given its number, node and size, and starting the device on its queues.\<close>

record ('r, 't, 's) dev_ops =
  op_rx_queue_setup :: "int \<Rightarrow> int \<Rightarrow> u16 \<Rightarrow> 's \<Rightarrow> int \<times> 'r option \<times> 's"
  op_tx_queue_setup :: "int \<Rightarrow> int \<Rightarrow> u16 \<Rightarrow> 's \<Rightarrow> int \<times> 't option \<times> 's"
  op_dev_start :: "'r list \<Rightarrow> 't list \<Rightarrow> 's \<Rightarrow> (int \<times> 'r list \<times> 't list \<times> 's) res"

text \<open>The three allocations of \<open>eth_dev_alloc\<close> succeed or not.\<close>

definition eth_dev_alloc :: "bool \<times> bool \<times> bool \<Rightarrow> nat \<Rightarrow> ('r, 't) eth_dev option" where
  "eth_dev_alloc m pad = (case m of (dev_mem, data_mem, private_mem) \<Rightarrow>
     if \<not> dev_mem then None else if \<not> data_mem then None else if \<not> private_mem then None
     else Some \<lparr>ed_port = 0, ed_rx_queues = [], ed_tx_queues = [], ed_rx_fgs = [], ed_nb_rx_queues = 0, ed_nb_tx_queues = 0,
                ed_max_rx_queues = 0, ed_max_tx_queues = 0, ed_nb_rx_fgs = 0, ed_conf = default_conf pad, ed_mac_addrs = [],
                ed_link = (0, False, False), ed_blocks = {}\<rparr>)"

text \<open>\<open>generic_dev_infos_get\<close>: the table for receive side scaling gives the number of flow groups.\<close>

record ix_dev_info =
  xi_max_rx_queues :: u16
  xi_max_tx_queues :: u16
  xi_nb_rx_fgs :: u16

definition generic_dev_infos_get :: "dpdk \<Rightarrow> ix_dev_info" where
  "generic_dev_infos_get dp =
     \<lparr>xi_max_rx_queues = di_max_rx_queues (dp_info dp), xi_max_tx_queues = di_max_tx_queues (dp_info dp), xi_nb_rx_fgs = di_reta_size (dp_info dp)\<rparr>"

text \<open>The devices, and how many have been counted.\<close>

record ('r, 't) eth_devs =
  eth_dev_count :: int
  eth_devices :: "('r, 't) eth_dev option list"

definition eth_dev_add ::
  "bool \<times> bool \<times> bool \<Rightarrow> eth_fg \<Rightarrow> ix_dev_info \<Rightarrow> ('r, 't) eth_dev \<Rightarrow> ('r, 't) eth_devs \<Rightarrow> (int \<times> ('r, 't) eth_dev \<times> ('r, 't) eth_devs) res" where
  "eth_dev_add m garbage info dev g = (case m of (rx_mem, tx_mem, fg_mem) \<Rightarrow>
     let max_rx = min (xi_max_rx_queues info) ETH_RSS_RETA_MAX_QUEUE;
         dev = dev\<lparr>ed_nb_rx_queues := 0, ed_nb_tx_queues := 0, ed_max_rx_queues := max_rx, ed_max_tx_queues := xi_max_tx_queues info\<rparr>
     in if \<not> rx_mem then Inr (- ENOMEM, dev, g)
     else let dev = dev\<lparr>ed_rx_queues := replicate (unat max_rx) None, ed_blocks := insert Rx_queues (ed_blocks dev)\<rparr>
     in if \<not> tx_mem then Inr (- ENOMEM, dev\<lparr>ed_blocks := ed_blocks dev - {Rx_queues}\<rparr>, g)
     else let dev = dev\<lparr>ed_tx_queues := replicate (unat (xi_max_tx_queues info)) None, ed_blocks := insert Tx_queues (ed_blocks dev),
                        ed_nb_rx_fgs := xi_nb_rx_fgs info\<rparr>
     in if \<not> fg_mem then Inr (- ENOMEM, dev\<lparr>ed_blocks := ed_blocks dev - {Tx_queues} - {Rx_queues}\<rparr>, g)
     else let dev = dev\<lparr>ed_rx_fgs := map (\<lambda>i. eth_fg_init i garbage) [0..<unat (xi_nb_rx_fgs info)], ed_blocks := insert Rx_fgs (ed_blocks dev)\<rparr>;
              i = eth_dev_count g
     in if i < 0 \<or> i \<ge> int (length (eth_devices g)) then Inl Out_of_bounds
        else Inr (0, dev, g\<lparr>eth_dev_count := s32 (i + 1), eth_devices := (eth_devices g)[nat i := Some dev]\<rparr>))"

text \<open>The driver stores the queue it has set up in the array of the device.\<close>

definition store_rx :: "nat \<Rightarrow> 'r \<Rightarrow> ('r, 't) eth_dev \<Rightarrow> ('r, 't) eth_dev res" where
  "store_rx idx q dev =
     (if idx < length (ed_rx_queues dev)
      then Inr (dev\<lparr>ed_rx_queues := (ed_rx_queues dev)[idx := Some \<lparr>rxq_drv = q, rxq_queue_idx = 0, rxq_assigned_fgs = replicate (ETH_MAX_NUM_FG div 64) 0\<rparr>]\<rparr>)
      else Inl Out_of_bounds)"

definition store_tx :: "nat \<Rightarrow> 't \<Rightarrow> ('r, 't) eth_dev \<Rightarrow> ('r, 't) eth_dev res" where
  "store_tx idx q dev =
     (if idx < length (ed_tx_queues dev) then Inr (dev\<lparr>ed_tx_queues := (ed_tx_queues dev)[idx := Some q]\<rparr>) else Inl Out_of_bounds)"

text \<open>The queue that is handed out is named by its number.\<close>

definition eth_dev_get_rx_queue ::
  "('r, 't, 's) dev_ops \<Rightarrow> ('r, 't) eth_dev \<Rightarrow> 's \<Rightarrow> (int \<times> nat option \<times> ('r, 't) eth_dev \<times> 's) res" where
  "eth_dev_get_rx_queue ops dev s =
     (let rx_idx = unat (ed_nb_rx_queues dev)
      in if rx_idx \<ge> unat (ed_max_rx_queues dev) then Inr (- EMFILE, None, dev, s)
      else let (ret, q, s1) = op_rx_queue_setup ops (int rx_idx) (- 1) ETH_DEV_RX_QUEUE_SZ s
      in bindE (case q of None \<Rightarrow> Inr dev | Some r \<Rightarrow> store_rx rx_idx r dev) (\<lambda>dev1.
         if ret \<noteq> 0 then Inr (ret, None, dev1, s1)
         else case ed_rx_queues dev1 ! rx_idx of
                None \<Rightarrow> Inl Null_deref
              | Some e \<Rightarrow>
                  bindE (bitmap_init (rxq_assigned_fgs e) (uint (ed_nb_rx_fgs dev1)) False) (\<lambda>fgs.
                  Inr (0, Some rx_idx, dev1\<lparr>ed_nb_rx_queues := ed_nb_rx_queues dev1 + 1,
                         ed_rx_queues := (ed_rx_queues dev1)[rx_idx := Some (e\<lparr>rxq_queue_idx := int rx_idx, rxq_assigned_fgs := fgs\<rparr>)]\<rparr>, s1))))"

definition eth_dev_get_tx_queue ::
  "('r, 't, 's) dev_ops \<Rightarrow> ('r, 't) eth_dev \<Rightarrow> 's \<Rightarrow> (int \<times> nat option \<times> ('r, 't) eth_dev \<times> 's) res" where
  "eth_dev_get_tx_queue ops dev s =
     (let tx_idx = unat (ed_nb_tx_queues dev)
      in if tx_idx > unat (ed_max_tx_queues dev) then Inr (- EMFILE, None, dev, s)
      else let (ret, q, s1) = op_tx_queue_setup ops (int tx_idx) (- 1) ETH_DEV_TX_QUEUE_SZ s
      in bindE (case q of None \<Rightarrow> Inr dev | Some t \<Rightarrow> store_tx tx_idx t dev) (\<lambda>dev1.
         if ret \<noteq> 0 then Inr (ret, None, dev1, s1)
         else Inr (0, Some tx_idx, dev1\<lparr>ed_nb_tx_queues := ed_nb_tx_queues dev1 + 1\<rparr>, s1)))"

section \<open>Start and stop\<close>

text \<open>
  The address that all devices share: whether no device has been started yet, the address in the configuration, and the devices that were
  given it, by port.
\<close>

record mac_state =
  ms_first :: bool
  ms_cfg_mac :: "u8 list"
  ms_added :: "(u8 \<times> u8 list) list"

definition eth_dev_get_hw_mac :: "('r, 't) eth_dev \<Rightarrow> u8 list" where
  "eth_dev_get_hw_mac dev = take 6 (ed_mac_addrs dev)"

definition generic_mac_addr_add :: "('r, 't) eth_dev \<Rightarrow> u8 list \<Rightarrow> mac_state \<Rightarrow> mac_state" where
  "generic_mac_addr_add dev mac ms = ms\<lparr>ms_added := ms_added ms @ [(ed_port dev, mac)]\<rparr>"

definition eth_dev_set_hw_mac :: "('r, 't) eth_dev \<Rightarrow> u8 list \<Rightarrow> mac_state \<Rightarrow> mac_state" where
  "eth_dev_set_hw_mac dev mac ms = generic_mac_addr_add dev mac ms"

definition eth_dev_setup_mac :: "('r, 't) eth_dev \<Rightarrow> mac_state \<Rightarrow> mac_state" where
  "eth_dev_setup_mac dev ms =
     (if ms_first ms then ms\<lparr>ms_cfg_mac := eth_dev_get_hw_mac dev, ms_first := False\<rparr> else eth_dev_set_hw_mac dev (ms_cfg_mac ms) ms)"

text \<open>\<open>link\<close>: what DPDK reports, waiting for the link or not.\<close>

definition generic_link_update :: "(bool \<Rightarrow> nat \<times> bool \<times> bool) \<Rightarrow> bool \<Rightarrow> ('r, 't) eth_dev \<Rightarrow> int \<times> ('r, 't) eth_dev" where
  "generic_link_update link wait dev = (0, dev\<lparr>ed_link := link wait\<rparr>)"

text \<open>The driver goes over the queues in use; a pointer never written is followed.\<close>

definition queues_in_use :: "nat \<Rightarrow> 'a option list \<Rightarrow> 'a list res" where
  "queues_in_use n qs =
     (if n > length qs then Inl Out_of_bounds else if None \<in> set (take n qs) then Inl Null_deref else Inr (map the (take n qs)))"

definition eth_dev_start ::
  "('r, 't, 's) dev_ops \<Rightarrow> (bool \<Rightarrow> nat \<times> bool \<times> bool) \<Rightarrow> ('r, 't) eth_dev \<Rightarrow> mac_state \<times> 's \<Rightarrow> (int \<times> ('r, 't) eth_dev \<times> mac_state \<times> 's) res" where
  "eth_dev_start ops link dev st = (case st of (ms, s) \<Rightarrow>
     bindE (queues_in_use (unat (ed_nb_rx_queues dev)) (ed_rx_queues dev)) (\<lambda>rxqs.
     bindE (queues_in_use (unat (ed_nb_tx_queues dev)) (ed_tx_queues dev)) (\<lambda>txqs.
     bindE (op_dev_start ops (map rxq_drv rxqs) txqs s) (\<lambda>(ret, rxqs1, txqs1, s1).
     let dev1 = dev\<lparr>ed_rx_queues := map2 (\<lambda>q r. Some (q\<lparr>rxq_drv := r\<rparr>)) rxqs rxqs1 @ drop (length rxqs) (ed_rx_queues dev),
                    ed_tx_queues := map Some txqs1 @ drop (length txqs) (ed_tx_queues dev)\<rparr>
     in if ret \<noteq> 0 then Inr (ret, dev1, ms, s1)
        else let (_, dev2) = generic_link_update link True dev1 in Inr (0, dev2, eth_dev_setup_mac dev2 ms, s1)))))"

text \<open>
  \<open>release\<close> and \<open>stop\<close> are the entries of the table of the driver, \<open>None\<close> where it has none; the two arrays of queues are freed.
\<close>

definition eth_dev_stop :: "('s \<Rightarrow> 's) option \<Rightarrow> ('t \<Rightarrow> 's \<Rightarrow> 's) option \<Rightarrow> ('r \<Rightarrow> 's \<Rightarrow> 's) option \<Rightarrow> ('r, 't) eth_dev \<Rightarrow> 's \<Rightarrow> (('r, 't) eth_dev \<times> 's) res" where
  "eth_dev_stop stop tx_release rx_release dev s =
     (case stop of None \<Rightarrow> Inl Null_deref | Some stp \<Rightarrow>
      bindE (queues_in_use (unat (ed_nb_tx_queues dev)) (ed_tx_queues dev)) (\<lambda>txqs.
      bindE (if txqs = [] then Inr (stp s) else case tx_release of None \<Rightarrow> Inl Null_deref | Some rel \<Rightarrow> Inr (fold rel txqs (stp s))) (\<lambda>s1.
      bindE (queues_in_use (unat (ed_nb_rx_queues dev)) (ed_rx_queues dev)) (\<lambda>rxqs.
      bindE (if rxqs = [] then Inr s1 else case rx_release of None \<Rightarrow> Inl Null_deref | Some rel \<Rightarrow> Inr (fold (\<lambda>q. rel (rxq_drv q)) rxqs s1)) (\<lambda>s2.
      Inr (dev\<lparr>ed_nb_rx_queues := 0, ed_nb_tx_queues := 0, ed_blocks := ed_blocks dev - {Tx_queues} - {Rx_queues}\<rparr>, s2))))))"

text \<open>\<open>close\<close>: the entry of the table, if there is a table and it has one.  The device is gone; the blocks that it still has are lost.\<close>

definition eth_dev_destroy :: "('s \<Rightarrow> 's) option \<Rightarrow> ('r, 't) eth_dev \<Rightarrow> 's \<Rightarrow> eth_block set \<times> 's" where
  "eth_dev_destroy close dev s = (ed_blocks dev, case close of None \<Rightarrow> s | Some f \<Rightarrow> f s)"

section \<open>Initialising a driver\<close>

datatype driver = Ixgbe_driver ixgbe_ops | I40e_driver

definition drv_init :: "cfg_parameters \<Rightarrow> string \<Rightarrow> (int \<times> driver) res option" where
  "drv_init cfg nm =
     (if nm = ''rte_ixgbe_pmd'' \<or> nm = ''rte_ixgbevf_pmd'' then Some (bindE (ixgbe_init cfg nm) (\<lambda>(ret, ops). Inr (ret, Ixgbe_driver ops)))
      else if nm = ''rte_i40e_pmd'' then Some (bindE (i40e_init nm) (\<lambda>ret. Inr (ret, I40e_driver)))
      else None)"

definition driver_init ::
  "dpdk \<Rightarrow> cfg_parameters \<Rightarrow> pci_os \<Rightarrow> bool \<times> bool \<times> bool \<Rightarrow> nat \<Rightarrow> pci_dev \<Rightarrow> mappings \<Rightarrow> (int \<times> (driver \<times> ('r, 't) eth_dev) option \<times> mappings) res" where
  "driver_init dp cfg os m pad pdev maps =
     bindE (dpdk_devinit dp os pdev maps) (\<lambda>(ret, found, va, maps1).
     if ret < 0 then Inr (ret, None, maps1)
     else case found of None \<Rightarrow> Inl Null_deref | Some dr \<Rightarrow>
     (case eth_dev_alloc m pad of
        None \<Rightarrow> Inl Null_deref
      | Some dev \<Rightarrow>
          bindE (translate_conf (dp_consts dp) (ed_conf dev)) (\<lambda>(conf, cleared).
          let k = dp_consts dp;
              conf = conf\<lparr>dc_fdir := \<lparr>fc_mode = RTE_FDIR_MODE_PERFECT k, fc_pballoc = RTE_FDIR_PBALLOC_256K k, fc_status = RTE_FDIR_REPORT_STATUS k,
                                      fc_vlan_tci_mask = 0, fc_src_ip_mask = 0xFFFFFFFF, fc_dst_ip_mask = 0xFFFFFFFF, fc_src_port_mask = 0xFFFF,
                                      fc_dst_port_mask = 0xFFFF, fc_drop_queue = 127\<rparr>\<rparr>;
              ret = dp_configure dp (di_max_rx_queues (dp_info dp)) (di_max_tx_queues (dp_info dp)) conf
          in if ret < 0 then Inr (ret, None, maps1)
          else case drv_init cfg (drv_name dr) of
                 None \<Rightarrow> Inl Panic
               | Some r \<Rightarrow> bindE r (\<lambda>(ret, drv).
                   if ret < 0 then Inr (ret, None, maps1)
                   else Inr (0, Some (drv, dev\<lparr>ed_port := dp_port dp, ed_conf := cleared, ed_mac_addrs := take 6 (dp_mac dp)\<rparr>), maps1)))))"

section \<open>Filters\<close>

definition RTE_FDIR_L4TYPE_TCP :: nat where "RTE_FDIR_L4TYPE_TCP = 2"
definition RTE_FDIR_IPTYPE_IPV4 :: nat where "RTE_FDIR_IPTYPE_IPV4 = 0"

record rte_fdir_filter =
  ff_port_src :: u16
  ff_port_dst :: u16
  ff_ip_src :: u32
  ff_ip_dst :: u32
  ff_l4type :: nat
  ff_iptype :: nat

datatype fdir_behavior = RTE_ETH_FDIR_ACCEPT | RTE_ETH_FDIR_REJECT

record dpdk_filter =
  df_flow_type :: u16
  df_src_ip :: u32
  df_dst_ip :: u32
  df_src_port :: u16
  df_dst_port :: u16
  df_behavior :: fdir_behavior
  df_rx_queue :: u16
  df_soft_id :: u32

definition init_filter :: "dpdk_consts \<Rightarrow> rte_fdir_filter \<Rightarrow> dpdk_filter res" where
  "init_filter k inp =
     bindE (assertE (ff_iptype inp = RTE_FDIR_IPTYPE_IPV4)) (\<lambda>_.
     bindE (assertE (ff_l4type inp = RTE_FDIR_L4TYPE_TCP)) (\<lambda>_.
     Inr \<lparr>df_flow_type = RTE_ETH_FLOW_NONFRAG_IPV4_TCP k, df_src_ip = ntoh32 (ff_ip_src inp), df_dst_ip = ntoh32 (ff_ip_dst inp),
          df_src_port = hton16 (ff_port_src inp), df_dst_port = hton16 (ff_port_dst inp), df_behavior = RTE_ETH_FDIR_ACCEPT,
          df_rx_queue = 0, df_soft_id = 0\<rparr>))"

text \<open>\<open>ctrl\<close>: the result of \<open>rte_eth_dev_filter_ctrl\<close>.  The lock of the device is free before and after.\<close>

definition generic_fdir_add_perfect_filter :: "dpdk_consts \<Rightarrow> (dpdk_filter \<Rightarrow> int) \<Rightarrow> rte_fdir_filter \<Rightarrow> u16 \<Rightarrow> u8 \<Rightarrow> u8 \<Rightarrow> int res" where
  "generic_fdir_add_perfect_filter k ctrl fdir_ftr soft_id rx_queue drp =
     bindE (init_filter k fdir_ftr) (\<lambda>f.
     Inr (ctrl (f\<lparr>df_behavior := (if drp \<noteq> 0 then RTE_ETH_FDIR_REJECT else RTE_ETH_FDIR_ACCEPT), df_rx_queue := ucast rx_queue, df_soft_id := ucast soft_id\<rparr>)))"

definition generic_fdir_remove_perfect_filter :: "dpdk_consts \<Rightarrow> (dpdk_filter \<Rightarrow> int) \<Rightarrow> rte_fdir_filter \<Rightarrow> u16 \<Rightarrow> int res" where
  "generic_fdir_remove_perfect_filter k ctrl fdir_ftr soft_id = bindE (init_filter k fdir_ftr) (\<lambda>f. Inr (ctrl f))"

text \<open>The key and the hash functions, in 16 bits, unless DPDK fails.\<close>

definition generic_rss_hash_conf_get :: "int \<times> u8 list \<times> u64 \<Rightarrow> u8 list \<times> u16 \<Rightarrow> int \<times> u8 list \<times> u16" where
  "generic_rss_hash_conf_get dpdk_ret conf = (case dpdk_ret of (ret, rss_key, rss_hf) \<Rightarrow>
     if ret < 0 then (ret, conf) else (ret, rss_key, ucast rss_hf))"

section \<open>The tables of the drivers\<close>

text \<open>What DPDK returns for each queue, and the sizes of the structures.\<close>

record dpdk_queues =
  dq_rx_setup :: "int \<Rightarrow> int"
  dq_tx_setup :: "int \<Rightarrow> int"
  dq_rx_reg_idx :: "int \<Rightarrow> u16"
  dq_tx_reg_idx :: "int \<Rightarrow> u16"
  dq_start :: int
  dq_rx_size :: u64
  dq_tx_size :: u64
  dq_ctx_num :: nat

definition ixgbe_dev_ops :: "ixgbe_bits \<Rightarrow> net_env \<Rightarrow> dpdk_queues \<Rightarrow> (ixgbe_rxq, ixgbe_txq, net_state) dev_ops" where
  "ixgbe_dev_ops c env d =
     \<lparr>op_rx_queue_setup = (\<lambda>idx node nb s.
        case ixgbe_rx_queue_setup (ne_os env) (dq_rx_setup d idx) (dq_rx_size d) node nb (ns_mm s) of (ret, q, mm) \<Rightarrow>
          (ret, map_option (\<lambda>(ring, phys). \<lparr>xr_ring = ring, xr_physaddr = phys, xr_reg_idx = dq_rx_reg_idx d idx\<rparr>) q, s\<lparr>ns_mm := mm\<rparr>)),
      op_tx_queue_setup = (\<lambda>idx node nb s.
        case ixgbe_tx_queue_setup (ne_os env) (dq_tx_setup d idx) (dq_tx_size d) node nb (ns_mm s) of (ret, q, mm) \<Rightarrow>
          (ret, map_option (\<lambda>(ring, phys). \<lparr>xt_ring = ring, xt_physaddr = phys, xt_reg_idx = dq_tx_reg_idx d idx,
                                            xt_ctx_cache = replicate (dq_ctx_num d) 0\<rparr>) q, s\<lparr>ns_mm := mm\<rparr>)),
      op_dev_start = (\<lambda>rxqs txqs s.
        bindE (ixgbe_dev_start c env (dq_start d) rxqs txqs s) (\<lambda>(ret, rxqs1, txqs1, s1, log). Inr (ret, rxqs1, txqs1, s1)))\<rparr>"

text \<open>The registers of a queue are found when the device is started.\<close>

definition i40e_dev_ops :: "u16 \<Rightarrow> u16 \<Rightarrow> (i40e_call \<Rightarrow> int) \<Rightarrow> u64 \<Rightarrow> net_env \<Rightarrow> dpdk_queues \<Rightarrow> (i40e_rxq, i40e_txq, net_state) dev_ops" where
  "i40e_dev_ops min_desc max_desc hw unit env d =
     \<lparr>op_rx_queue_setup = (\<lambda>idx node nb s.
        case i40e_rx_queue_setup (ne_os env) (dq_rx_setup d idx) (dq_rx_size d) node nb (ns_mm s) of (ret, q, mm) \<Rightarrow>
          (ret, map_option (\<lambda>(ring, phys). \<lparr>ir_ring = ring, ir_physaddr = phys, ir_reg_idx = dq_rx_reg_idx d idx\<rparr>) q, s\<lparr>ns_mm := mm\<rparr>)),
      op_tx_queue_setup = (\<lambda>idx node nb s.
        case i40e_tx_queue_setup min_desc max_desc (ne_os env) (dq_tx_setup d idx) (dq_tx_size d) node nb (ns_mm s) of (ret, q, mm) \<Rightarrow>
          (ret, map_option (\<lambda>(ring, phys). \<lparr>it_ring = ring, it_physaddr = phys, it_reg_idx = dq_tx_reg_idx d idx\<rparr>) q, s\<lparr>ns_mm := mm\<rparr>)),
      op_dev_start = (\<lambda>rxqs txqs s.
        bindE (i40e_dev_start hw unit env rxqs txqs s) (\<lambda>(ret, rxqs1, s1, log). Inr (ret, rxqs1, txqs, s1)))\<rparr>"

section \<open>The contract of a driver\<close>

text \<open>A device whose queues in use are all fresh.\<close>

definition dev_wf :: "('r \<Rightarrow> bool) \<Rightarrow> ('t \<Rightarrow> bool) \<Rightarrow> ('r, 't) eth_dev \<Rightarrow> bool" where
  "dev_wf fresh_r fresh_t dev \<longleftrightarrow>
     length (ed_rx_queues dev) = unat (ed_max_rx_queues dev) \<and> length (ed_tx_queues dev) = unat (ed_max_tx_queues dev) \<and>
     unat (ed_nb_rx_queues dev) \<le> unat (ed_max_rx_queues dev) \<and> unat (ed_nb_tx_queues dev) \<le> unat (ed_max_tx_queues dev) \<and>
     unat (ed_nb_rx_fgs dev) \<le> ETH_MAX_NUM_FG \<and>
     (\<forall>i<unat (ed_nb_rx_queues dev). \<exists>q. ed_rx_queues dev ! i = Some q \<and> fresh_r (rxq_drv q) \<and> rxq_queue_idx q = int i) \<and>
     (\<forall>i<unat (ed_nb_tx_queues dev). \<exists>t. ed_tx_queues dev ! i = Some t \<and> fresh_t t)"

lemma eth_dev_add_wf:
  assumes "eth_dev_add m garbage info dev g = Inr (0, dev', g')" "unat (xi_nb_rx_fgs info) \<le> ETH_MAX_NUM_FG"
  shows "dev_wf fresh_r fresh_t dev' \<and> ed_nb_rx_queues dev' = 0 \<and> ed_nb_tx_queues dev' = 0 \<and> ed_max_tx_queues dev' = xi_max_tx_queues info \<and>
    ed_max_rx_queues dev' = min (xi_max_rx_queues info) ETH_RSS_RETA_MAX_QUEUE \<and> ed_nb_rx_fgs dev' = xi_nb_rx_fgs info \<and>
    length (ed_rx_fgs dev') = unat (xi_nb_rx_fgs info)"
  using assms by (auto simp: eth_dev_add_def dev_wf_def Let_def ENOMEM_def split: prod.splits if_splits)

locale queue_driver =
  fixes ops :: "('r, 't, 's) dev_ops" and fresh_r :: "'r \<Rightarrow> bool" and fresh_t :: "'t \<Rightarrow> bool"
  assumes rx_setup: "op_rx_queue_setup ops i node nb s = (ret, q, s') \<Longrightarrow> if ret = 0 then \<exists>r. q = Some r \<and> fresh_r r else q = None"
    and tx_setup: "op_tx_queue_setup ops i node nb s = (ret, p, s') \<Longrightarrow> if ret = 0 then \<exists>t. p = Some t \<and> fresh_t t else p = None"
begin

lemma get_tx:
  assumes wf: "dev_wf fresh_r fresh_t dev" and room: "unat (ed_nb_tx_queues dev) < unat (ed_max_tx_queues dev)"
  obtains ret s' where "ret \<noteq> 0" "eth_dev_get_tx_queue ops dev s = Inr (ret, None, dev, s')"
  | t s' where "eth_dev_get_tx_queue ops dev s = Inr (0, Some (unat (ed_nb_tx_queues dev)),
      dev\<lparr>ed_tx_queues := (ed_tx_queues dev)[unat (ed_nb_tx_queues dev) := Some t], ed_nb_tx_queues := ed_nb_tx_queues dev + 1\<rparr>, s')" "fresh_t t"
proof -
  obtain ret q s1 where r: "op_tx_queue_setup ops (int (unat (ed_nb_tx_queues dev))) (- 1) ETH_DEV_TX_QUEUE_SZ s = (ret, q, s1)"
    by (cases "op_tx_queue_setup ops (int (unat (ed_nb_tx_queues dev))) (- 1) ETH_DEV_TX_QUEUE_SZ s") auto
  have l: "unat (ed_nb_tx_queues dev) < length (ed_tx_queues dev)" using wf room by (simp add: dev_wf_def)
  show ?thesis
  proof (cases "ret = 0")
    case True
    then obtain t where "q = Some t" "fresh_t t" using tx_setup [OF r] by auto
    then show ?thesis using that(2) True r l room by (simp add: eth_dev_get_tx_queue_def Let_def store_tx_def)
  next
    case False
    then have "q = None" using tx_setup [OF r] by simp
    then show ?thesis using that(1) [OF False] False r room by (simp add: eth_dev_get_tx_queue_def Let_def)
  qed
qed

lemma get_rx:
  assumes wf: "dev_wf fresh_r fresh_t dev"
  obtains ret s' where "ret \<noteq> 0" "eth_dev_get_rx_queue ops dev s = Inr (ret, None, dev, s')"
  | e s' where "eth_dev_get_rx_queue ops dev s = Inr (0, Some (unat (ed_nb_rx_queues dev)),
      dev\<lparr>ed_rx_queues := (ed_rx_queues dev)[unat (ed_nb_rx_queues dev) := Some e], ed_nb_rx_queues := ed_nb_rx_queues dev + 1\<rparr>, s')"
      "fresh_r (rxq_drv e)" "rxq_queue_idx e = int (unat (ed_nb_rx_queues dev))" "unat (ed_nb_rx_queues dev) < unat (ed_max_rx_queues dev)"
proof (cases "unat (ed_nb_rx_queues dev) < unat (ed_max_rx_queues dev)")
  case False
  then show ?thesis using that(1) [of "- EMFILE" s] by (simp add: eth_dev_get_rx_queue_def EMFILE_def)
next
  case room: True
  let ?n = "unat (ed_nb_rx_queues dev)"
  obtain ret q s1 where r: "op_rx_queue_setup ops (int ?n) (- 1) ETH_DEV_RX_QUEUE_SZ s = (ret, q, s1)"
    by (cases "op_rx_queue_setup ops (int ?n) (- 1) ETH_DEV_RX_QUEUE_SZ s") auto
  have l: "?n < length (ed_rx_queues dev)" using wf room by (simp add: dev_wf_def)
  have "unat (BITMAP_LONG_SIZE (of_int (uint (ed_nb_rx_fgs dev)))) \<le> 8" (is "unat ?k \<le> 8")
  proof -
    have f: "unat (ed_nb_rx_fgs dev) \<le> 512" using wf by (simp add: dev_wf_def ETH_MAX_NUM_FG_def)
    have u: "unat (ucast (ed_nb_rx_fgs dev) :: u64) = unat (ed_nb_rx_fgs dev)" using f by (simp add: unsigned_ucast_eq take_bit_nat_eq_self)
    have "unat ((ucast (ed_nb_rx_fgs dev) :: u64) + 63) = unat (ed_nb_rx_fgs dev) + 63" using f u by (simp add: unat_word_ariths)
    then show ?thesis using f by (simp add: BITMAP_LONG_SIZE_def BITS_PER_LONG_def unat_div add_diff_eq [symmetric])
  qed
  then obtain fgs where b: "bitmap_init (replicate (ETH_MAX_NUM_FG div 64) 0) (uint (ed_nb_rx_fgs dev)) False = Inr fgs"
    by (auto simp: bitmap_init_def Let_def ETH_MAX_NUM_FG_def)
  show ?thesis
  proof (cases "ret = 0")
    case True
    then obtain x where x: "q = Some x" "fresh_r x" using rx_setup [OF r] by auto
    let ?e = "\<lparr>rxq_drv = x, rxq_queue_idx = int ?n, rxq_assigned_fgs = fgs\<rparr>"
    have "eth_dev_get_rx_queue ops dev s = Inr (0, Some ?n, dev\<lparr>ed_rx_queues := (ed_rx_queues dev)[?n := Some ?e], ed_nb_rx_queues := ed_nb_rx_queues dev + 1\<rparr>, s1)"
      using True r l room b x by (simp add: eth_dev_get_rx_queue_def Let_def store_rx_def)
    then show ?thesis by (rule that(2)) (use x room in simp_all)
  next
    case False
    then have "q = None" using rx_setup [OF r] by simp
    then show ?thesis using that(1) [OF False] False r room by (simp add: eth_dev_get_rx_queue_def Let_def)
  qed
qed

end

lemma nb_queues_Suc:
  fixes n m :: u16
  assumes "unat n < unat m"
  shows "unat (n + 1) = unat n + 1"
  using assms unsigned_less [of m, where ?'a = nat] by (simp add: unat_word_ariths)

lemma dev_wf_tx:
  assumes wf: "dev_wf fresh_r fresh_t dev" and n: "unat (ed_nb_tx_queues dev) < unat (ed_max_tx_queues dev)" and "fresh_t t"
  shows "dev_wf fresh_r fresh_t (dev\<lparr>ed_tx_queues := (ed_tx_queues dev)[unat (ed_nb_tx_queues dev) := Some t], ed_nb_tx_queues := ed_nb_tx_queues dev + 1\<rparr>)"
proof -
  have "unat (ed_nb_tx_queues dev) < length (ed_tx_queues dev)" using wf n by (simp add: dev_wf_def)
  then show ?thesis using assms nb_queues_Suc [OF n] by (auto simp: dev_wf_def nth_list_update less_Suc_eq)
qed

lemma dev_wf_rx:
  assumes wf: "dev_wf fresh_r fresh_t dev" and n: "unat (ed_nb_rx_queues dev) < unat (ed_max_rx_queues dev)"
    and "fresh_r (rxq_drv e)" "rxq_queue_idx e = int (unat (ed_nb_rx_queues dev))"
  shows "dev_wf fresh_r fresh_t (dev\<lparr>ed_rx_queues := (ed_rx_queues dev)[unat (ed_nb_rx_queues dev) := Some e], ed_nb_rx_queues := ed_nb_rx_queues dev + 1\<rparr>)"
proof -
  have "unat (ed_nb_rx_queues dev) < length (ed_rx_queues dev)" using wf n by (simp add: dev_wf_def)
  then show ?thesis using assms nb_queues_Suc [OF n] by (auto simp: dev_wf_def nth_list_update less_Suc_eq)
qed

interpretation xd: queue_driver "ixgbe_dev_ops c env d" fresh_rxq "\<lambda>q. dq_ctx_num d \<noteq> 0 \<longrightarrow> fresh_txq q" for c env d
proof
  fix i node nb s ret q s'
  assume "op_rx_queue_setup (ixgbe_dev_ops c env d) i node nb s = (ret, q, s')"
  then show "if ret = 0 then \<exists>r. q = Some r \<and> fresh_rxq r else q = None"
    by (auto simp: ixgbe_dev_ops_def ixgbe_rx_queue_setup_def fresh_rxq_def Let_def EINVAL_def split: prod.splits if_splits)
next
  fix i node nb s ret p s'
  assume "op_tx_queue_setup (ixgbe_dev_ops c env d) i node nb s = (ret, p, s')"
  then obtain q mm where a: "ixgbe_tx_queue_setup (ne_os env) (dq_tx_setup d i) (dq_tx_size d) node nb (ns_mm s) = (ret, q, mm)"
    and p: "p = map_option (\<lambda>(ring, phys). \<lparr>xt_ring = ring, xt_physaddr = phys, xt_reg_idx = dq_tx_reg_idx d i, xt_ctx_cache = replicate (dq_ctx_num d) 0\<rparr>) q"
    by (auto simp: ixgbe_dev_ops_def split: prod.splits)
  show "if ret = 0 then \<exists>t. p = Some t \<and> (dq_ctx_num d \<noteq> 0 \<longrightarrow> fresh_txq t) else p = None"
  proof (cases "ret = 0")
    case True
    then obtain r ph where q: "q = Some (r, ph)" using a by (auto simp: ixgbe_tx_queue_setup_def Let_def EINVAL_def split: prod.splits if_splits)
    from ixgbe_tx_queue_fresh [OF a [unfolded True q]] obtain k where "6 \<le> k" "tx_wf k r" "flight r = []" by blast
    then show ?thesis using True p q by (auto simp: fresh_txq_def intro!: exI [of _ k])
  next
    case False
    then have "q = None" using a by (auto simp: ixgbe_tx_queue_setup_def Let_def split: prod.splits if_splits)
    then show ?thesis using False p by simp
  qed
qed

definition fresh_i40e_rxq :: "i40e_rxq \<Rightarrow> bool" where
  "fresh_i40e_rxq q \<longleftrightarrow> (\<exists>nb. ir_ring q = fresh_rx_ring \<lparr>ird_pkt_addr = 0, ird_hdr_addr = 0\<rparr> nb)"

definition fresh_i40e_txq :: "i40e_txq \<Rightarrow> bool" where
  "fresh_i40e_txq q \<longleftrightarrow> (\<exists>k<16. tx_wf k (it_ring q) \<and> flight (it_ring q) = [])"

interpretation id4: queue_driver "i40e_dev_ops min_desc max_desc hw unit env d" fresh_i40e_rxq "\<lambda>q. 0 < min_desc \<longrightarrow> fresh_i40e_txq q" for min_desc max_desc hw unit env d
proof
  fix i node nb s ret q s'
  assume "op_rx_queue_setup (i40e_dev_ops min_desc max_desc hw unit env d) i node nb s = (ret, q, s')"
  then show "if ret = 0 then \<exists>r. q = Some r \<and> fresh_i40e_rxq r else q = None"
    by (auto simp: i40e_dev_ops_def i40e_rx_queue_setup_def fresh_i40e_rxq_def Let_def EINVAL_def split: prod.splits if_splits)
next
  fix i node nb s ret p s'
  assume "op_tx_queue_setup (i40e_dev_ops min_desc max_desc hw unit env d) i node nb s = (ret, p, s')"
  then obtain q mm where a: "i40e_tx_queue_setup min_desc max_desc (ne_os env) (dq_tx_setup d i) (dq_tx_size d) node nb (ns_mm s) = (ret, q, mm)"
    and p: "p = map_option (\<lambda>(ring, phys). \<lparr>it_ring = ring, it_physaddr = phys, it_reg_idx = dq_tx_reg_idx d i\<rparr>) q"
    by (auto simp: i40e_dev_ops_def split: prod.splits)
  show "if ret = 0 then \<exists>t. p = Some t \<and> (0 < min_desc \<longrightarrow> fresh_i40e_txq t) else p = None"
  proof (cases "ret = 0")
    case True
    then obtain r ph where q: "q = Some (r, ph)" using a by (auto simp: i40e_tx_queue_setup_def Let_def EINVAL_def split: prod.splits if_splits)
    from i40e_tx_queue_fresh [OF a [unfolded True q]] show ?thesis using True p q by (auto simp: fresh_i40e_txq_def)
  next
    case False
    then have "q = None" using a by (auto simp: i40e_tx_queue_setup_def Let_def split: prod.splits if_splits)
    then show ?thesis using False p by simp
  qed
qed

lemma default_conf_translates:
  "translate_conf k (default_conf pad) = Inr (\<lparr>dc_rss_hf = ucast (ucast (ETH_RSS_NONFRAG_IPV4_TCP k OR ETH_RSS_NONFRAG_IPV4_UDP k) :: u16),
     dc_header_split = False, dc_hw_ip_checksum = True, dc_hw_strip_crc = True, dc_hw_vlan_filter = False, dc_jumbo_frame = False,
     dc_rx_mq_mode = ETH_MQ_RX_RSS k, dc_split_hdr_size = 0, dc_tx_mq_mode = ETH_MQ_TX_NONE k,
     dc_fdir = \<lparr>fc_mode = 0, fc_pballoc = 0, fc_status = 0, fc_vlan_tci_mask = 0, fc_src_ip_mask = 0, fc_dst_ip_mask = 0,
                fc_src_port_mask = 0, fc_dst_port_mask = 0, fc_drop_queue = 0\<rparr>\<rparr>,
    \<lparr>ic_rss_hf = 0, ic_header_split = False, ic_hw_ip_checksum = False, ic_hw_strip_crc = False, ic_hw_vlan_filter = False,
     ic_jumbo_frame = False, ic_rx_mq_mode = 0, ic_split_hdr_size = 0, ic_tx_mq_mode = 0, ic_others = replicate pad 0\<rparr>)"
proof -
  have "(ucast (ucast (ucast a :: u16) OR b) :: u16) = ucast (a OR b)" for a b :: u64 by (rule bit_word_eqI) (auto simp: bit_simps)
  then have "translate_conf_rss_hf k 0x42 = Inr (ucast (ETH_RSS_NONFRAG_IPV4_TCP k OR ETH_RSS_NONFRAG_IPV4_UDP k))"
    by (simp add: translate_conf_rss_hf_def copy_bit_def conf_consts)
  then show ?thesis
    by (simp add: translate_conf_def default_conf_def translate_conf_rxmode_mq_mode_def translate_conf_txmode_mq_mode_def conf_consts list_all_length)
qed

end
