(* ===== verification/Startup.thy ===== *)
theory Startup
  imports Ethdev
begin

text \<open>
  Start-up, \<open>dp/core/init.c\<close> and \<open>dp/core/cpu.c\<close>: bringing up a core, registering the devices, and the protocol by which the first core
  starts the others one after the other, each takes its transmit queues, and the networking core starts the devices once all have them.
\<close>

section \<open>Cores: \<open>dp/core/cpu.c\<close>\<close>

definition NCPU :: int where "NCPU = 128"
definition PERCPU_DUNE_LEN :: int where "PERCPU_DUNE_LEN = 512"
definition EPERM :: int where "EPERM = 1"
definition ENOSYS :: int where "ENOSYS = 78"

text \<open>
  What the system says: the number of cores, the results of the calls that bind a thread to a core and of Dune; \<open>co_getcpu\<close> gives the
  result, the core and its node.  \<open>co_percpu_len\<close>: the size of the variables of a core.
\<close>

record cpu_os =
  co_os :: os
  co_nprocessors :: int
  co_setaffinity :: "u32 \<Rightarrow> int"
  co_setscheduler :: "u32 \<Rightarrow> int"
  co_getcpu :: "u32 \<Rightarrow> int \<times> u32 \<times> nat"
  co_dune_enter :: "addr \<Rightarrow> int"
  co_percpu_len :: int

record cpu_state =
  cs_count :: int
  cs_offsets :: "addr list"
  cs_mm :: mm

text \<open>What a core knows of itself.\<close>

record percpu =
  pc_cpu_id :: u32
  pc_numa_node :: nat

definition cpu_init :: "cpu_os \<Rightarrow> cpu_state \<Rightarrow> int \<times> cpu_state" where
  "cpu_init co s =
     (let s = s\<lparr>cs_count := co_nprocessors co\<rparr> in if cs_count s \<le> 0 \<or> cs_count s > NCPU then (- EINVAL, s) else (0, s))"

text \<open>The test is for a null pointer; a failed allocation gives \<open>MAP_FAILED\<close>, and clearing the memory after it faults.\<close>

definition cpu_init_percpu :: "cpu_os \<Rightarrow> u32 \<Rightarrow> nat \<Rightarrow> cpu_state \<Rightarrow> (addr \<times> cpu_state) res" where
  "cpu_init_percpu co cpu numa_node s =
     (let nr = (co_percpu_len co + PERCPU_DUNE_LEN + PGSIZE_2MB - 1) div PGSIZE_2MB;
          (ad, mm) = mem_alloc_pages_onnode (co_os co) nr PGSIZE_2MB numa_node MPOL_BIND (cs_mm s);
          s1 = s\<lparr>cs_mm := mm\<rparr>
      in if ad = NULL then Inr (NULL, s1)
      else if ad = MAP_FAILED then Inl Out_of_bounds
      else if unat cpu \<ge> length (cs_offsets s1) then Inl Out_of_bounds
      else Inr (ad, s1\<lparr>cs_offsets := (cs_offsets s1)[unat cpu := ad + of_int (PERCPU_DUNE_LEN)]\<rparr>))"

text \<open>\<open>cpu_count\<close> is compared as unsigned.  \<open>CPU_SET\<close> ignores a core beyond the mask.\<close>

definition cpu_init_one :: "cpu_os \<Rightarrow> u32 \<Rightarrow> cpu_state \<Rightarrow> (int \<times> percpu option \<times> cpu_state) res" where
  "cpu_init_one co cpu s =
     (if cpu \<ge> of_int (cs_count s) then Inr (- EINVAL, None, s)
      else if co_setaffinity co cpu \<noteq> 0 then Inr (- EPERM, None, s)
      else if co_setscheduler co cpu \<noteq> 0 then Inr (co_setscheduler co cpu, None, s)
      else let (ret, tmp, numa_node) = co_getcpu co cpu
      in if ret \<noteq> 0 then Inr (- ENOSYS, None, s)
      else if cpu \<noteq> tmp then Inr (- EINVAL, None, s)
      else bindE (cpu_init_percpu co cpu numa_node s) (\<lambda>(pcpu, s1).
           if pcpu = NULL then Inr (- ENOMEM, None, s1)
           else let ret = co_dune_enter co pcpu
           in if ret \<noteq> 0 then Inr (ret, None, s1) else Inr (0, Some \<lparr>pc_cpu_id = cpu, pc_numa_node = numa_node\<rparr>, s1)))"

section \<open>Modules\<close>

datatype init_fn =
    Cpu_init | Init_dune | Timer_init | Net_init | Init_cfg | Dpdk_init | Init_firstcpu | Mbuf_init | Taskqueue_init | Response_init
  | Context_init | Init_ethdev | Init_hw

datatype init_cpu_fn = Timer_init_cpu | Mbuf_init_cpu | Response_init_cpu | Init_tx_queues | Syscall_init_cpu | Kstats_init_cpu

record init_vector =
  iv_name :: string
  iv_f :: "init_fn option"
  iv_fcpu :: "init_cpu_fn option"

text \<open>\<open>kstats\<close>: whether the program is built with statistics.\<close>

definition init_tbl :: "bool \<Rightarrow> init_vector list" where
  "init_tbl kstats =
     [\<lparr>iv_name = ''CPU'', iv_f = Some Cpu_init, iv_fcpu = None\<rparr>,
      \<lparr>iv_name = ''Dune'', iv_f = Some Init_dune, iv_fcpu = None\<rparr>,
      \<lparr>iv_name = ''timer'', iv_f = Some Timer_init, iv_fcpu = Some Timer_init_cpu\<rparr>,
      \<lparr>iv_name = ''net'', iv_f = Some Net_init, iv_fcpu = None\<rparr>,
      \<lparr>iv_name = ''cfg'', iv_f = Some Init_cfg, iv_fcpu = None\<rparr>,
      \<lparr>iv_name = ''dpdk'', iv_f = Some Dpdk_init, iv_fcpu = None\<rparr>,
      \<lparr>iv_name = ''firstcpu'', iv_f = Some Init_firstcpu, iv_fcpu = None\<rparr>,
      \<lparr>iv_name = ''mbuf'', iv_f = Some Mbuf_init, iv_fcpu = Some Mbuf_init_cpu\<rparr>,
      \<lparr>iv_name = ''taskqueue'', iv_f = Some Taskqueue_init, iv_fcpu = None\<rparr>,
      \<lparr>iv_name = ''response'', iv_f = Some Response_init, iv_fcpu = Some Response_init_cpu\<rparr>,
      \<lparr>iv_name = ''context'', iv_f = Some Context_init, iv_fcpu = None\<rparr>,
      \<lparr>iv_name = ''ethdev'', iv_f = Some Init_ethdev, iv_fcpu = None\<rparr>,
      \<lparr>iv_name = ''tx_queue'', iv_f = None, iv_fcpu = Some Init_tx_queues\<rparr>,
      \<lparr>iv_name = ''hw'', iv_f = Some Init_hw, iv_fcpu = None\<rparr>,
      \<lparr>iv_name = ''syscall'', iv_f = None, iv_fcpu = Some Syscall_init_cpu\<rparr>] @
     (if kstats then [\<lparr>iv_name = ''kstats'', iv_f = None, iv_fcpu = Some Kstats_init_cpu\<rparr>] else [])"

definition percpu_fns :: "bool \<Rightarrow> init_cpu_fn list" where
  "percpu_fns kstats = List.map_filter iv_fcpu (init_tbl kstats)"

text \<open>The loop of \<open>main\<close>: the functions that are called, given the result of each, and whether it panics.\<close>

fun cpu_phase :: "(init_fn \<Rightarrow> int) \<Rightarrow> init_fn list \<Rightarrow> init_fn list \<times> unit res" where
  "cpu_phase res [] = ([], Inr ())"
| "cpu_phase res (f # fs) = (if res f \<noteq> 0 then ([f], Inl Panic) else let (called, r) = cpu_phase res fs in (f # called, r))"

definition main_phase :: "bool \<Rightarrow> (init_fn \<Rightarrow> int) \<Rightarrow> init_fn list \<times> unit res" where
  "main_phase kstats res = cpu_phase res (List.map_filter iv_f (init_tbl kstats))"

section \<open>Registering the devices\<close>

text \<open>
  What each device of the configuration meets: DPDK, memory for the structures, what new flow groups contain, the other bytes of the
  configuration, and the result of the write to \<open>sysfs\<close>.
\<close>

record probe_env =
  pe_dpdk :: dpdk
  pe_pci_mem :: bool
  pe_alloc_mem :: "bool \<times> bool \<times> bool"
  pe_add_mem :: "bool \<times> bool \<times> bool"
  pe_garbage :: eth_fg
  pe_pad :: nat
  pe_write :: int

record ('r, 't) probe_state =
  ps_fs :: sysfs
  ps_pcidma_fd :: int
  ps_maps :: mappings
  ps_devs :: "('r, 't) eth_devs"
  ps_drivers :: "driver list"
  ps_lost :: "eth_block set"

text \<open>
  One pass of the loop; the result is that of the call that failed.  \<open>ps_lost\<close> are the blocks that a destroyed device still had; the tables of
  both drivers have no \<open>dev_close\<close>.
\<close>

definition init_one_ethdev :: "cfg_parameters \<Rightarrow> pci_os \<Rightarrow> probe_env \<Rightarrow> pci_addr \<Rightarrow> ('r, 't) probe_state \<Rightarrow> (int \<times> ('r, 't) probe_state) res" where
  "init_one_ethdev cfg os pe a s =
     (case pci_alloc_dev (ps_fs s) (pe_pci_mem pe) a of
        None \<Rightarrow> Inr (- ENOMEM, s)
      | Some dev \<Rightarrow>
          let (ret, fs1) = pci_enable_device (pe_write pe) dev (ps_fs s); s1 = s\<lparr>ps_fs := fs1\<rparr>
          in if ret \<noteq> 0 then Inr (ret, s1)
          else let (ret, fd) = pci_set_master os dev (ps_pcidma_fd s1); s2 = s1\<lparr>ps_pcidma_fd := fd\<rparr>
          in if ret \<noteq> 0 then Inr (ret, s2)
          else bindE (driver_init (pe_dpdk pe) cfg os (pe_alloc_mem pe) (pe_pad pe) dev (ps_maps s2)) (\<lambda>(ret, r, maps1).
               let s3 = s2\<lparr>ps_maps := maps1\<rparr>
               in if ret \<noteq> 0 then Inr (ret, s3)
               else case r of
                      None \<Rightarrow> Inl Null_deref
                    | Some (drv, eth) \<Rightarrow>
                        bindE (eth_dev_add (pe_add_mem pe) (pe_garbage pe) (generic_dev_infos_get (pe_dpdk pe)) eth (ps_devs s3)) (\<lambda>(ret, eth1, devs1).
                        if ret \<noteq> 0 then Inr (ret, s3\<lparr>ps_devs := devs1, ps_lost := ps_lost s3 \<union> fst (eth_dev_destroy None eth1 ())\<rparr>)
                        else Inr (0, s3\<lparr>ps_devs := devs1, ps_drivers := ps_drivers s3 @ [drv]\<rparr>))))"

primrec init_ethdev_loop :: "cfg_parameters \<Rightarrow> pci_os \<Rightarrow> (pci_addr \<times> probe_env) list \<Rightarrow> ('r, 't) probe_state \<Rightarrow> (int \<times> ('r, 't) probe_state) res" where
  "init_ethdev_loop cfg os [] s = Inr (0, s)"
| "init_ethdev_loop cfg os (d # ds) s =
     bindE (init_one_ethdev cfg os (snd d) (fst d) s) (\<lambda>(ret, s1). if ret \<noteq> 0 then Inr (ret, s1) else init_ethdev_loop cfg os ds s1)"

definition init_ethdev :: "cfg_parameters \<Rightarrow> pci_os \<Rightarrow> (nat \<Rightarrow> probe_env) \<Rightarrow> ('r, 't) probe_state \<Rightarrow> (int \<times> ('r, 't) probe_state) res" where
  "init_ethdev cfg os pe s = init_ethdev_loop cfg os (map (\<lambda>i. (cfg_ethdev cfg ! i, pe i)) [0..<nat (num_ethdev cfg)]) s"

section \<open>The protocol\<close>

text \<open>
  Where a core is.  Core 0 runs \<open>init_hw\<close>, the others \<open>start_cpu\<close>.  \<open>Percpu fs k\<close>: in \<open>init_create_cpu\<close>, the functions still to call,
  and the device that \<open>init_tx_queues\<close> is at; each of its passes holds \<open>eth_dev_lock\<close>.  \<open>started_cpus++\<close> is a load and a store.
\<close>

datatype boot_pc =
    Not_created | Cpu_init_one | Percpu "init_cpu_fn list" nat | Set_nr | Rx_queue nat | Inc_load | Inc_store int | Wait_all
  | Net_start nat | Enter_barrier | In_barrier | Running | Create nat | Wait_for nat

text \<open>
  The results of calls that are not part of the protocol.  \<open>bp_fcpu f i\<close> is that of the function \<open>f\<close> of another module on core \<open>i\<close>.
\<close>

record ('r, 't, 's) boot_params =
  bp_kstats :: bool
  bp_num_cpus :: nat
  bp_num_ethdev :: nat
  bp_ops :: "nat \<Rightarrow> ('r, 't, 's) dev_ops"
  bp_link :: "nat \<Rightarrow> bool \<Rightarrow> nat \<times> bool \<times> bool"
  bp_cpu_init_one :: "nat \<Rightarrow> int"
  bp_fcpu :: "init_cpu_fn \<Rightarrow> nat \<Rightarrow> int"
  bp_create :: "nat \<Rightarrow> int"

text \<open>
  \<open>bs_txqs i d\<close> is \<open>eth_txqs[d]\<close> of core \<open>i\<close>, a queue of device \<open>d\<close> by its number, and \<open>bs_rxqs d\<close> is \<open>eth_rxqs[d]\<close>.  \<open>bs_arrived\<close>: how
  many threads have called \<open>pthread_barrier_wait\<close>.  \<open>bs_started\<close>: the devices for which \<open>eth_dev_start\<close> returned 0.  \<open>bs_end\<close>: why the program
  ended, if it did.
\<close>

record ('r, 't, 's) boot_state =
  bs_pc :: "boot_pc list"
  bs_devs :: "('r, 't) eth_dev list"
  bs_drv :: 's
  bs_mac :: mac_state
  started_cpus :: int
  bs_txqs :: "nat \<Rightarrow> nat \<Rightarrow> nat option"
  bs_rxqs :: "nat \<Rightarrow> nat option"
  bs_num_queues :: "nat \<Rightarrow> int"
  bs_cpu_nr :: "nat \<Rightarrow> nat"
  bs_arrived :: nat
  bs_started :: "nat list"
  bs_np_cnt :: u8
  bs_end :: "fault option"

definition goto :: "nat \<Rightarrow> boot_pc \<Rightarrow> ('r, 't, 's) boot_state \<Rightarrow> ('r, 't, 's) boot_state" where
  "goto i pc s = s\<lparr>bs_pc := (bs_pc s)[i := pc]\<rparr>"

definition stop_with :: "fault \<Rightarrow> ('r, 't, 's) boot_state \<Rightarrow> ('r, 't, 's) boot_state" where
  "stop_with e s = s\<lparr>bs_end := Some e\<rparr>"

text \<open>One pass of the loop of \<open>init_tx_queues\<close>; an error makes \<open>init_create_cpu\<close> panic.\<close>

definition tx_queue_pass :: "('r, 't, 's) boot_params \<Rightarrow> nat \<Rightarrow> nat \<Rightarrow> boot_pc \<Rightarrow> ('r, 't, 's) boot_state \<Rightarrow> ('r, 't, 's) boot_state" where
  "tx_queue_pass p i d nxt s =
     (case eth_dev_get_tx_queue (bp_ops p d) (bs_devs s ! d) (bs_drv s) of
        Inl e \<Rightarrow> stop_with e s
      | Inr (ret, q, dev, drv) \<Rightarrow>
          let s1 = s\<lparr>bs_devs := (bs_devs s)[d := dev], bs_drv := drv\<rparr>
          in if ret \<noteq> 0 then stop_with Panic s1
             else goto i nxt (s1\<lparr>bs_txqs := (bs_txqs s1)(i := (bs_txqs s1 i)(d := q))\<rparr>))"

definition rx_queue_pass :: "('r, 't, 's) boot_params \<Rightarrow> nat \<Rightarrow> nat \<Rightarrow> boot_pc \<Rightarrow> ('r, 't, 's) boot_state \<Rightarrow> ('r, 't, 's) boot_state" where
  "rx_queue_pass p i d nxt s =
     (case eth_dev_get_rx_queue (bp_ops p d) (bs_devs s ! d) (bs_drv s) of
        Inl e \<Rightarrow> stop_with e s
      | Inr (ret, q, dev, drv) \<Rightarrow>
          let s1 = s\<lparr>bs_devs := (bs_devs s)[d := dev], bs_drv := drv\<rparr>
          in if ret \<noteq> 0 then stop_with Exit_called s1 else goto i nxt (s1\<lparr>bs_rxqs := (bs_rxqs s1)(d := q)\<rparr>))"

text \<open>One pass of the loop of \<open>init_network_cpu\<close>; a device without receive queues is skipped.\<close>

definition net_start_pass :: "('r, 't, 's) boot_params \<Rightarrow> nat \<Rightarrow> nat \<Rightarrow> boot_pc \<Rightarrow> ('r, 't, 's) boot_state \<Rightarrow> ('r, 't, 's) boot_state" where
  "net_start_pass p i d nxt s =
     (if d \<ge> length (bs_devs s) then stop_with Null_deref s
      else if ed_nb_rx_queues (bs_devs s ! d) = 0 then goto i nxt s
      else case eth_dev_start (bp_ops p d) (bp_link p d) (bs_devs s ! d) (bs_mac s, bs_drv s) of
             Inl e \<Rightarrow> stop_with e s
           | Inr (ret, dev, mac, drv) \<Rightarrow>
               let s1 = s\<lparr>bs_devs := (bs_devs s)[d := dev], bs_mac := mac, bs_drv := drv\<rparr>
               in if ret \<noteq> 0 then stop_with Exit_called s1 else goto i nxt (s1\<lparr>bs_started := bs_started s1 @ [d]\<rparr>))"

text \<open>One step of core \<open>i\<close>; \<open>None\<close> while it waits.  The barrier lets all pass once all have come.\<close>

definition core_step :: "('r, 't, 's) boot_params \<Rightarrow> nat \<Rightarrow> ('r, 't, 's) boot_state \<Rightarrow> ('r, 't, 's) boot_state option" where
  "core_step p i s =
     (case bs_pc s ! i of
        Not_created \<Rightarrow> None
      | Cpu_init_one \<Rightarrow> Some (if bp_cpu_init_one p i \<noteq> 0 then stop_with Exit_called s else goto i (Percpu (percpu_fns (bp_kstats p)) 0) s)
      | Percpu [] k \<Rightarrow> Some (goto i Set_nr s)
      | Percpu (f # fs) k \<Rightarrow>
          Some (if f = Init_tx_queues
                then if k < length (bs_devs s) then tx_queue_pass p i k (Percpu (f # fs) (k + 1)) s
                     else goto i (Percpu fs 0) (s\<lparr>bs_num_queues := (bs_num_queues s)(i := int (length (bs_devs s)))\<rparr>)
                else if bp_fcpu p f i \<noteq> 0 then stop_with Panic s else goto i (Percpu fs 0) s)
      | Set_nr \<Rightarrow> Some (goto i (if i = 0 then Create 1 else if i = 1 then Rx_queue 0 else Inc_load) (s\<lparr>bs_cpu_nr := (bs_cpu_nr s)(i := i)\<rparr>))
      | Rx_queue k \<Rightarrow> Some (if k < length (bs_devs s) then rx_queue_pass p i k (Rx_queue (k + 1)) s else goto i Inc_load s)
      | Inc_load \<Rightarrow> Some (goto i (Inc_store (s32 (started_cpus s + 1))) s)
      | Inc_store v \<Rightarrow> Some (goto i (if i = 1 then Wait_all else Enter_barrier) (s\<lparr>started_cpus := v\<rparr>))
      | Wait_all \<Rightarrow> if started_cpus s \<noteq> int (bp_num_cpus p) - 1 then None else Some (goto i (Net_start 0) s)
      | Net_start k \<Rightarrow>
          Some (if k < bp_num_ethdev p then net_start_pass p i k (Net_start (k + 1)) s else goto i Enter_barrier (s\<lparr>bs_np_cnt := 0\<rparr>))
      | Enter_barrier \<Rightarrow> Some (goto i In_barrier (s\<lparr>bs_arrived := bs_arrived s + 1\<rparr>))
      | In_barrier \<Rightarrow> if bs_arrived s < bp_num_cpus p then None else Some (goto i Running s)
      | Running \<Rightarrow> None
      | Create k \<Rightarrow>
          Some (if k < bp_num_cpus p
                then if bp_create p k \<noteq> 0 then stop_with Panic s else goto k Cpu_init_one (goto i (Wait_for k) s)
                else goto i (if bp_num_cpus p > 1 then Enter_barrier else Running) s)
      | Wait_for k \<Rightarrow> if started_cpus s \<noteq> int k then None else Some (goto i (Create (k + 1)) s))"

inductive boot_step :: "('r, 't, 's) boot_params \<Rightarrow> ('r, 't, 's) boot_state \<Rightarrow> ('r, 't, 's) boot_state \<Rightarrow> bool" for p where
  "i < bp_num_cpus p \<Longrightarrow> bs_end s = None \<Longrightarrow> core_step p i s = Some s' \<Longrightarrow> boot_step p s s'"

text \<open>The state in which \<open>init_hw\<close> is called.\<close>

definition boot_start :: "('r, 't, 's) boot_params \<Rightarrow> ('r, 't) eth_dev list \<Rightarrow> 's \<Rightarrow> mac_state \<Rightarrow> ('r, 't, 's) boot_state" where
  "boot_start p devs drv mac =
     \<lparr>bs_pc = Percpu (percpu_fns (bp_kstats p)) 0 # replicate (bp_num_cpus p - 1) Not_created, bs_devs = devs, bs_drv = drv, bs_mac = mac,
      started_cpus = 0, bs_txqs = (\<lambda>_ _. None), bs_rxqs = (\<lambda>_. None), bs_num_queues = (\<lambda>_. 0), bs_cpu_nr = (\<lambda>_. 0), bs_arrived = 0,
      bs_started = [], bs_np_cnt = 0, bs_end = None\<rparr>"

end
