(* ===== verification/Startup_Inv.thy ===== *)
theory Startup_Inv
  imports Startup
begin

text \<open>
  The invariant of start-up: at any time at most one core is being brought up, all cores before it have their queues, and none after it exists.
\<close>

section \<open>Counting\<close>

definition how_many :: "('a \<Rightarrow> bool) \<Rightarrow> 'a list \<Rightarrow> nat" where
  "how_many P xs = length (filter P xs)"

lemma how_many_update:
  "i < length xs \<Longrightarrow> how_many P (xs[i := x]) + (if P (xs ! i) then 1 else 0) = how_many P xs + (if P x then 1 else 0)"
proof (induction xs arbitrary: i)
  case (Cons y ys)
  then show ?case by (cases i) (auto simp: how_many_def)
qed simp

lemma how_many_same: "i < length xs \<Longrightarrow> P x = P (xs ! i) \<Longrightarrow> how_many P (xs[i := x]) = how_many P xs"
  using how_many_update [of i xs P x] by (auto split: if_splits)

lemma how_many_more: "i < length xs \<Longrightarrow> P x \<Longrightarrow> \<not> P (xs ! i) \<Longrightarrow> how_many P (xs[i := x]) = how_many P xs + 1"
  using how_many_update [of i xs P x] by auto

lemma how_many_first:
  assumes "i \<le> length xs" "\<And>k. k < i \<Longrightarrow> P (xs ! k)" "\<And>k. i \<le> k \<Longrightarrow> k < length xs \<Longrightarrow> \<not> P (xs ! k)"
  shows "how_many P xs = i"
proof -
  have a: "filter P (take i xs) = take i xs" using assms(1,2) by (auto simp: filter_id_conv in_set_conv_nth)
  have b: "filter P (drop i xs) = []" using assms(1,3) by (auto simp: filter_empty_conv in_set_conv_nth)
  have "filter P xs = filter P (take i xs) @ filter P (drop i xs)" by (metis append_take_drop_id filter_append)
  then show ?thesis using a b assms(1) by (simp add: how_many_def)
qed

lemma how_many_all: "how_many P xs = length xs \<Longrightarrow> k < length xs \<Longrightarrow> P (xs ! k)"
  unfolding how_many_def by (metis filter_id_conv length_filter_less less_irrefl nth_mem)

section \<open>Control\<close>

text \<open>Before and after a core has counted itself.\<close>

fun coming_up :: "boot_pc \<Rightarrow> bool" where
  "coming_up Cpu_init_one = True"
| "coming_up (Percpu fs k) = True"
| "coming_up Set_nr = True"
| "coming_up (Rx_queue k) = True"
| "coming_up Inc_load = True"
| "coming_up (Inc_store v) = True"
| "coming_up _ = False"

fun is_up :: "nat \<Rightarrow> boot_pc \<Rightarrow> bool" where
  "is_up i Wait_all = (i = 1)"
| "is_up i (Net_start k) = (i = 1)"
| "is_up i Enter_barrier = True"
| "is_up i In_barrier = True"
| "is_up i Running = True"
| "is_up i _ = False"

text \<open>Where core 0 is: all cores before \<open>j\<close> are up, and with \<open>w\<close> it waits for core \<open>j\<close>.\<close>

fun main_at :: "nat \<Rightarrow> boot_pc \<Rightarrow> nat \<Rightarrow> bool \<Rightarrow> bool" where
  "main_at N (Percpu fs k) j w = (j = 0 \<and> \<not> w)"
| "main_at N Set_nr j w = (j = 0 \<and> \<not> w)"
| "main_at N (Create k) j w = (j = k \<and> 1 \<le> k \<and> k \<le> N \<and> \<not> w)"
| "main_at N (Wait_for k) j w = (j = k \<and> 1 \<le> k \<and> k < N \<and> w)"
| "main_at N Enter_barrier j w = (j = N \<and> \<not> w \<and> 1 < N)"
| "main_at N In_barrier j w = (j = N \<and> \<not> w \<and> 1 < N)"
| "main_at N Running j w = (j = N \<and> \<not> w)"
| "main_at N _ j w = False"

definition core_at :: "boot_pc list \<Rightarrow> nat \<Rightarrow> bool \<Rightarrow> int \<Rightarrow> nat \<Rightarrow> bool" where
  "core_at pcs j w st i \<longleftrightarrow>
     (if i < j then is_up i (pcs ! i)
      else if i = j \<and> w then coming_up (pcs ! i) \<and> st = int j - 1 \<or> is_up i (pcs ! i) \<and> st = int j
      else pcs ! i = Not_created)"

definition ctl :: "nat \<Rightarrow> boot_pc list \<Rightarrow> int \<Rightarrow> bool" where
  "ctl N pcs st \<longleftrightarrow> length pcs = N \<and> 0 < N \<and>
     (\<exists>j w. main_at N (pcs ! 0) j w \<and> (\<not> w \<longrightarrow> st = (if j = 0 then 0 else int j - 1)) \<and> (\<forall>i. 0 < i \<and> i < N \<longrightarrow> core_at pcs j w st i))"

lemma ctl_coming_up:
  assumes c: "ctl N pcs st" and i: "0 < i" "i < N" and u: "coming_up (pcs ! i)"
  shows "pcs ! 0 = Wait_for i" "st = int i - 1" "\<And>k. 0 < k \<Longrightarrow> k < i \<Longrightarrow> is_up k (pcs ! k)" "\<And>k. i < k \<Longrightarrow> k < N \<Longrightarrow> pcs ! k = Not_created"
proof -
  obtain j w where j: "main_at N (pcs ! 0) j w" "\<And>k. 0 < k \<Longrightarrow> k < N \<Longrightarrow> core_at pcs j w st k" using c by (auto simp: ctl_def)
  have "\<not> is_up i (pcs ! i)" "pcs ! i \<noteq> Not_created" using u by (cases "pcs ! i"; simp)+
  then have w: "i = j" "w" "st = int j - 1" using j(2) [OF i] by (auto simp: core_at_def split: if_splits)
  then show "pcs ! 0 = Wait_for i" using j(1) by (cases "pcs ! 0") auto
  show "st = int i - 1" using w by simp
  show "is_up k (pcs ! k)" if "0 < k" "k < i" for k using j(2) [of k] that i w by (simp add: core_at_def)
  show "pcs ! k = Not_created" if "i < k" "k < N" for k using j(2) [of k] that i w by (simp add: core_at_def)
qed

text \<open>Steps of a core other than the first.\<close>

lemma ctl_core_up:
  assumes c: "ctl N pcs st" and i: "0 < i" "i < N" and u: "coming_up (pcs ! i)" "coming_up pc \<and> st' = st \<or> is_up i pc \<and> st' = int i"
  shows "ctl N (pcs[i := pc]) st'"
proof -
  note k = ctl_coming_up [OF c i u(1)]
  have l: "length pcs = N" "0 < N" using c by (auto simp: ctl_def)
  have "main_at N (pcs[i := pc] ! 0) i True" using k(1) i by simp
  moreover have "core_at (pcs[i := pc]) i True st' n" if "0 < n" "n < N" for n
    using k(2-4) that u(2) l i by (auto simp: core_at_def nth_list_update)
  ultimately show ?thesis using l unfolding ctl_def by (intro conjI exI [of _ i] exI [of _ True]) auto
qed

lemma ctl_core_on:
  assumes c: "ctl N pcs st" and i: "0 < i" "i < N" and u: "is_up i (pcs ! i)" "is_up i pc"
  shows "ctl N (pcs[i := pc]) st"
proof -
  obtain j w where j: "length pcs = N" "0 < N" "main_at N (pcs ! 0) j w" "\<not> w \<longrightarrow> st = (if j = 0 then 0 else int j - 1)" "\<And>k. 0 < k \<Longrightarrow> k < N \<Longrightarrow> core_at pcs j w st k"
    using c by (auto simp: ctl_def)
  have "pcs ! i \<noteq> Not_created" "\<not> coming_up (pcs ! i)" using u(1) by (cases "pcs ! i"; simp)+
  then have "core_at (pcs[i := pc]) j w st i" using j(1) j(5) [OF i] i u by (auto simp: core_at_def split: if_splits)
  moreover have "core_at (pcs[i := pc]) j w st n" if "0 < n" "n < N" "n \<noteq> i" for n
    using j(5) [OF that(1,2)] that(3) by (auto simp: core_at_def)
  ultimately have "core_at (pcs[i := pc]) j w st n" if "0 < n" "n < N" for n using that by blast
  moreover have "main_at N (pcs[i := pc] ! 0) j w" using j(3) i by simp
  ultimately show ?thesis using j(1,2,4) unfolding ctl_def by (intro conjI exI [of _ j] exI [of _ w]) auto
qed

text \<open>Steps of the first core.\<close>

lemma ctl_main:
  assumes c: "ctl N pcs st" and m: "main_at N (pcs ! 0) j w" "main_at N pc j w"
  shows "ctl N (pcs[0 := pc]) st"
proof -
  obtain j' w' where k: "length pcs = N" "0 < N" "main_at N (pcs ! 0) j' w'" "\<not> w' \<longrightarrow> st = (if j' = 0 then 0 else int j' - 1)" "\<And>k. 0 < k \<Longrightarrow> k < N \<Longrightarrow> core_at pcs j' w' st k"
    using c by (auto simp: ctl_def)
  have e: "j' = j" "w' = w" using k(3) m(1) by (cases "pcs ! 0"; auto)+
  have "core_at (pcs[0 := pc]) j w st n" if "0 < n" "n < N" for n using k(5) [OF that] that e by (auto simp: core_at_def)
  moreover have "main_at N (pcs[0 := pc] ! 0) j w" using m(2) k(1,2) by simp
  ultimately show ?thesis using k(1,2,4) e unfolding ctl_def by (intro conjI exI [of _ j] exI [of _ w]) auto
qed

lemma ctl_main_first:
  assumes c: "ctl N pcs st" and m: "main_at N (pcs ! 0) 0 False"
  shows "ctl N (pcs[0 := Create 1]) st" "st = 0" "\<And>k. 0 < k \<Longrightarrow> k < N \<Longrightarrow> pcs ! k = Not_created"
proof -
  obtain j w where k: "length pcs = N" "0 < N" "main_at N (pcs ! 0) j w" "\<not> w \<longrightarrow> st = (if j = 0 then 0 else int j - 1)" "\<And>k. 0 < k \<Longrightarrow> k < N \<Longrightarrow> core_at pcs j w st k"
    using c by (auto simp: ctl_def)
  have e: "j = 0" "\<not> w" using k(3) m by (cases "pcs ! 0"; auto)+
  show st: "st = 0" using k(4) e by simp
  show n: "pcs ! k = Not_created" if "0 < k" "k < N" for k using k(5) [OF that] that e by (simp add: core_at_def)
  have "core_at (pcs[0 := Create 1]) 1 False st i" if "0 < i" "i < N" for i using n that by (simp add: core_at_def)
  moreover have "main_at N (pcs[0 := Create 1] ! 0) 1 False" using k(1,2) by simp
  ultimately show "ctl N (pcs[0 := Create 1]) st" using k(1,2) st unfolding ctl_def by (intro conjI exI [of _ 1] exI [of _ False]) auto
qed

lemma ctl_main_create:
  assumes c: "ctl N pcs st" and m: "pcs ! 0 = Create j" "j < N"
  shows "ctl N ((pcs[0 := Wait_for j])[j := Cpu_init_one]) st" "st = int j - 1" "pcs ! j = Not_created" "1 \<le> j"
proof -
  obtain j' w where k': "length pcs = N" "0 < N" "main_at N (pcs ! 0) j' w" "\<not> w \<longrightarrow> st = (if j' = 0 then 0 else int j' - 1)" "\<And>k. 0 < k \<Longrightarrow> k < N \<Longrightarrow> core_at pcs j' w st k"
    using c by (auto simp: ctl_def)
  have e: "\<not> w" "1 \<le> j" "j' = j" using k'(3) m by auto
  note k = k' [unfolded e(3)]
  show st: "st = int j - 1" "1 \<le> j" using k(4) e by simp_all
  show "pcs ! j = Not_created" using k(5) [of j] m e by (simp add: core_at_def)
  have "core_at ((pcs[0 := Wait_for j])[j := Cpu_init_one]) j True st i" if "0 < i" "i < N" for i
    using k(5) [OF that] that e(1) st(1) k(1) by (cases "i = j") (simp_all add: core_at_def)
  moreover have "main_at N ((pcs[0 := Wait_for j])[j := Cpu_init_one] ! 0) j True" using k(1,2) m e by (simp add: nth_list_update)
  ultimately show "ctl N ((pcs[0 := Wait_for j])[j := Cpu_init_one]) st" using k(1,2) unfolding ctl_def by (intro conjI exI [of _ j] exI [of _ True]) auto
qed

lemma ctl_main_created:
  assumes c: "ctl N pcs st" and m: "pcs ! 0 = Wait_for j" "st = int j"
  shows "ctl N (pcs[0 := Create (j + 1)]) st"
proof -
  obtain j' w where k: "length pcs = N" "0 < N" "main_at N (pcs ! 0) j' w" "\<And>k. 0 < k \<Longrightarrow> k < N \<Longrightarrow> core_at pcs j' w st k"
    using c by (auto simp: ctl_def)
  have e: "w" "1 \<le> j" "j < N" "j' = j" using k(3) m by auto
  have "core_at (pcs[0 := Create (j + 1)]) (j + 1) False st i" if "0 < i" "i < N" for i
    using k(4) [OF that] that e m(2) by (auto simp: core_at_def split: if_splits)
  moreover have "main_at N (pcs[0 := Create (j + 1)] ! 0) (j + 1) False" using k(1,2) e by simp
  ultimately show ?thesis using k(1,2) m(2) e unfolding ctl_def by (intro conjI exI [of _ "j + 1"] exI [of _ False]) auto
qed

lemma ctl_main_last:
  assumes c: "ctl N pcs st" and m: "pcs ! 0 = Create N" and pc: "pc = Enter_barrier \<and> 1 < N \<or> pc = Running"
  shows "ctl N (pcs[0 := pc]) st"
proof (rule ctl_main [OF c])
  show "main_at N (pcs ! 0) N False" using c m by (auto simp: ctl_def)
  show "main_at N pc N False" using pc by auto
qed

text \<open>When all have counted themselves, all are up.\<close>

lemma ctl_all_up:
  assumes c: "ctl N pcs st" and n: "1 < N" "st = int N - 1"
  shows "\<And>k. 0 < k \<Longrightarrow> k < N \<Longrightarrow> is_up k (pcs ! k)" "\<not> coming_up (pcs ! 0)" "pcs ! 0 \<noteq> Not_created"
proof -
  obtain j w where k: "main_at N (pcs ! 0) j w" "\<not> w \<longrightarrow> st = (if j = 0 then 0 else int j - 1)" "\<And>k. 0 < k \<Longrightarrow> k < N \<Longrightarrow> core_at pcs j w st k"
    using c by (auto simp: ctl_def)
  have jN: "w \<Longrightarrow> 1 \<le> j \<and> j < N" using k(1) by (cases "pcs ! 0") auto
  have up: "is_up i (pcs ! i)" if i: "0 < i" "i < N" for i
  proof (cases w)
    case True
    then have "core_at pcs j True st j" using k(3) [of j] jN by simp
    then have "is_up j (pcs ! j)" "j = N - 1" using n jN True by (auto simp: core_at_def)
    then show ?thesis using k(3) [OF i] i True by (cases "i = j") (auto simp: core_at_def)
  next
    case False
    then have "j = N" using k(2) n by (auto split: if_splits)
    then show ?thesis using k(3) [OF i] i False by (auto simp: core_at_def)
  qed
  show "is_up k (pcs ! k)" if "0 < k" "k < N" for k using up that .
  have "\<not> (j = 0 \<and> \<not> w)" using k(2) n by (auto split: if_splits)
  then show "\<not> coming_up (pcs ! 0)" "pcs ! 0 \<noteq> Not_created" using k(1) by (cases "pcs ! 0"; auto)+
qed

section \<open>Queues\<close>

fun tx_done :: "boot_pc \<Rightarrow> bool" where
  "tx_done Not_created = False"
| "tx_done Cpu_init_one = False"
| "tx_done (Percpu fs k) = (Init_tx_queues \<notin> set fs)"
| "tx_done _ = True"

fun has_tx :: "nat \<Rightarrow> boot_pc \<Rightarrow> bool" where
  "has_tx d (Percpu fs k) = (Init_tx_queues \<notin> set fs \<or> fs \<noteq> [] \<and> hd fs = Init_tx_queues \<and> d < k)"
| "has_tx d pc = tx_done pc"

fun has_rx :: "nat \<Rightarrow> boot_pc \<Rightarrow> bool" where
  "has_rx d (Rx_queue k) = (d < k)"
| "has_rx d Not_created = False"
| "has_rx d Cpu_init_one = False"
| "has_rx d (Percpu fs k) = False"
| "has_rx d Set_nr = False"
| "has_rx d _ = True"

fun net_done :: "nat \<Rightarrow> boot_pc \<Rightarrow> nat" where
  "net_done E (Net_start k) = k"
| "net_done E Enter_barrier = E"
| "net_done E In_barrier = E"
| "net_done E Running = E"
| "net_done E _ = 0"

fun at_barrier :: "boot_pc \<Rightarrow> bool" where
  "at_barrier In_barrier = True"
| "at_barrier Running = True"
| "at_barrier _ = False"

fun started_net :: "boot_pc \<Rightarrow> bool" where
  "started_net (Net_start k) = True"
| "started_net Enter_barrier = True"
| "started_net In_barrier = True"
| "started_net Running = True"
| "started_net _ = False"

fun pc_ok :: "init_cpu_fn list \<Rightarrow> nat \<Rightarrow> nat \<Rightarrow> boot_pc \<Rightarrow> bool" where
  "pc_ok fns D i (Percpu fs k) = ((\<exists>pre. fns = pre @ fs) \<and> k \<le> D \<and> (0 < k \<longrightarrow> fs \<noteq> [] \<and> hd fs = Init_tx_queues))"
| "pc_ok fns D i (Rx_queue k) = (i = 1 \<and> k \<le> D)"
| "pc_ok fns D i (Inc_store v) = (v = int i)"
| "pc_ok fns D i (Net_start k) = (k \<le> D)"
| "pc_ok fns D i _ = True"

definition tx_inv :: "nat \<Rightarrow> boot_pc list \<Rightarrow> ('r, 't) eth_dev list \<Rightarrow> (nat \<Rightarrow> nat \<Rightarrow> nat option) \<Rightarrow> (nat \<Rightarrow> int) \<Rightarrow> bool" where
  "tx_inv D pcs devs txqs nq \<longleftrightarrow>
     (\<forall>i<length pcs. \<forall>d<D. txqs i d = (if has_tx d (pcs ! i) then Some i else None)) \<and>
     (\<forall>d<D. unat (ed_nb_tx_queues (devs ! d)) = how_many (has_tx d) pcs) \<and> (\<forall>i<length pcs. tx_done (pcs ! i) \<longrightarrow> nq i = int D)"

definition rx_got :: "boot_pc list \<Rightarrow> nat \<Rightarrow> bool" where
  "rx_got pcs d \<longleftrightarrow> 1 < length pcs \<and> has_rx d (pcs ! 1)"

definition net_count :: "nat \<Rightarrow> boot_pc list \<Rightarrow> nat" where
  "net_count E pcs = (if 1 < length pcs then net_done E (pcs ! 1) else 0)"

definition rxq_inv :: "nat \<Rightarrow> boot_pc list \<Rightarrow> ('r, 't) eth_dev list \<Rightarrow> (nat \<Rightarrow> nat option) \<Rightarrow> nat list \<Rightarrow> bool" where
  "rxq_inv D pcs devs rxqs st \<longleftrightarrow>
     (\<forall>d<D. unat (ed_nb_rx_queues (devs ! d)) = (if rx_got pcs d then 1 else 0) \<and> rxqs d = (if rx_got pcs d then Some 0 else None)) \<and>
     st = [0..<net_count D pcs]"

text \<open>Devices that have not been started have fresh queues, and there is room for a queue of every core.\<close>

definition dev_inv :: "nat \<Rightarrow> ('r \<Rightarrow> bool) \<Rightarrow> ('t \<Rightarrow> bool) \<Rightarrow> nat list \<Rightarrow> ('r, 't) eth_dev list \<Rightarrow> bool" where
  "dev_inv N fr ft st devs \<longleftrightarrow> (\<forall>d<length devs. (d \<notin> set st \<longrightarrow> dev_wf fr ft (devs ! d)) \<and> N \<le> unat (ed_max_tx_queues (devs ! d)))"

definition bar_inv :: "boot_pc list \<Rightarrow> nat \<Rightarrow> bool" where
  "bar_inv pcs arrived \<longleftrightarrow> (1 < length pcs \<longrightarrow> arrived = how_many at_barrier pcs \<and> (Running \<in> set pcs \<longrightarrow> arrived = length pcs))"

definition boot_inv :: "('r, 't, 's) boot_params \<Rightarrow> ('r \<Rightarrow> bool) \<Rightarrow> ('t \<Rightarrow> bool) \<Rightarrow> ('r, 't, 's) boot_state \<Rightarrow> bool" where
  "boot_inv p fr ft s \<longleftrightarrow>
     ctl (bp_num_cpus p) (bs_pc s) (started_cpus s) \<and> length (bs_devs s) = bp_num_ethdev p \<and>
     (\<forall>i<bp_num_cpus p. pc_ok (percpu_fns (bp_kstats p)) (bp_num_ethdev p) i (bs_pc s ! i)) \<and>
     (1 < bp_num_cpus p \<longrightarrow> started_net (bs_pc s ! 1) \<longrightarrow> started_cpus s = int (bp_num_cpus p) - 1) \<and>
     tx_inv (bp_num_ethdev p) (bs_pc s) (bs_devs s) (bs_txqs s) (bs_num_queues s) \<and>
     rxq_inv (bp_num_ethdev p) (bs_pc s) (bs_devs s) (bs_rxqs s) (bs_started s) \<and>
     dev_inv (bp_num_cpus p) fr ft (bs_started s) (bs_devs s) \<and> bar_inv (bs_pc s) (bs_arrived s)"

section \<open>Steps that leave the queues alone\<close>

lemma tx_inv_goto:
  assumes "tx_inv D pcs devs txqs nq" "i < length pcs" "\<And>d. d < D \<Longrightarrow> has_tx d pc = has_tx d (pcs ! i)"
    and "tx_done pc \<Longrightarrow> nq' i = int D" "\<And>k. k \<noteq> i \<Longrightarrow> nq' k = nq k"
  shows "tx_inv D (pcs[i := pc]) devs txqs nq'"
  using assms by (auto simp: tx_inv_def nth_list_update how_many_same)

lemma rxq_inv_goto:
  assumes "rxq_inv D pcs devs rxqs st" "i < length pcs" "i = 1 \<Longrightarrow> (\<forall>d<D. has_rx d pc = has_rx d (pcs ! 1)) \<and> net_done D pc = net_done D (pcs ! 1)"
  shows "rxq_inv D (pcs[i := pc]) devs rxqs st"
proof -
  have "rx_got (pcs[i := pc]) d = rx_got pcs d" if "d < D" for d using assms(2,3) that by (cases "i = 1") (auto simp: rx_got_def)
  moreover have "net_count D (pcs[i := pc]) = net_count D pcs" using assms(2,3) by (cases "i = 1") (auto simp: net_count_def)
  ultimately show ?thesis using assms(1) by (simp add: rxq_inv_def)
qed

lemma bar_inv_goto:
  assumes "bar_inv pcs a" "i < length pcs" "\<not> at_barrier (pcs ! i)" "\<not> at_barrier pc"
  shows "bar_inv (pcs[i := pc]) a"
proof -
  have "Running \<in> set (pcs[i := pc]) \<Longrightarrow> Running \<in> set pcs" using assms(4) set_update_subset_insert [of pcs i pc] by auto
  then show ?thesis using assms by (auto simp: bar_inv_def how_many_same)
qed

lemma pc_ok_update:
  assumes "\<forall>k<N. pc_ok fns D k (pcs ! k)" "length pcs = N" "i < N" "pc_ok fns D i pc"
  shows "\<forall>k<N. pc_ok fns D k (pcs[i := pc] ! k)"
  using assms by (auto simp: nth_list_update)

text \<open>The conditions under which a core may move without anything else changing.\<close>

definition quiet_move :: "nat \<Rightarrow> nat \<Rightarrow> boot_pc \<Rightarrow> boot_pc \<Rightarrow> bool" where
  "quiet_move D i a b \<longleftrightarrow> \<not> at_barrier a \<and> \<not> at_barrier b \<and> (\<forall>d<D. has_tx d b = has_tx d a) \<and>
     (i = 1 \<longrightarrow> (\<forall>d<D. has_rx d b = has_rx d a) \<and> net_done D b = net_done D a)"

lemma boot_invD:
  assumes "boot_inv p fr ft s"
  shows "ctl (bp_num_cpus p) (bs_pc s) (started_cpus s)" "length (bs_devs s) = bp_num_ethdev p" "length (bs_pc s) = bp_num_cpus p"
    and "\<forall>i<bp_num_cpus p. pc_ok (percpu_fns (bp_kstats p)) (bp_num_ethdev p) i (bs_pc s ! i)"
    and "1 < bp_num_cpus p \<Longrightarrow> started_net (bs_pc s ! 1) \<Longrightarrow> started_cpus s = int (bp_num_cpus p) - 1"
    and "tx_inv (bp_num_ethdev p) (bs_pc s) (bs_devs s) (bs_txqs s) (bs_num_queues s)"
    and "rxq_inv (bp_num_ethdev p) (bs_pc s) (bs_devs s) (bs_rxqs s) (bs_started s)"
    and "dev_inv (bp_num_cpus p) fr ft (bs_started s) (bs_devs s)" "bar_inv (bs_pc s) (bs_arrived s)"
  using assms by (simp_all add: boot_inv_def ctl_def)

lemma boot_goto_with:
  assumes inv: "boot_inv p fr ft s" and i: "i < bp_num_cpus p" and q: "quiet_move (bp_num_ethdev p) i (bs_pc s ! i) pc"
    and c: "ctl (bp_num_cpus p) ((bs_pc s)[i := pc]) st"
    and o: "pc_ok (percpu_fns (bp_kstats p)) (bp_num_ethdev p) i pc"
    and n: "1 < bp_num_cpus p \<Longrightarrow> started_net ((bs_pc s)[i := pc] ! 1) \<Longrightarrow> st = int (bp_num_cpus p) - 1"
    and nq: "tx_done pc \<Longrightarrow> nq i = int (bp_num_ethdev p)" "\<And>k. k \<noteq> i \<Longrightarrow> nq k = bs_num_queues s k"
  shows "boot_inv p fr ft (goto i pc (s\<lparr>started_cpus := st, bs_num_queues := nq\<rparr>))"
proof -
  note d = boot_invD [OF inv]
  have l: "i < length (bs_pc s)" using d(3) i by simp
  have "tx_inv (bp_num_ethdev p) ((bs_pc s)[i := pc]) (bs_devs s) (bs_txqs s) nq"
    using tx_inv_goto [OF d(6) l _ nq] q by (auto simp: quiet_move_def)
  moreover have "rxq_inv (bp_num_ethdev p) ((bs_pc s)[i := pc]) (bs_devs s) (bs_rxqs s) (bs_started s)"
    using rxq_inv_goto [OF d(7) l] q by (auto simp: quiet_move_def)
  moreover have "bar_inv ((bs_pc s)[i := pc]) (bs_arrived s)" using bar_inv_goto [OF d(9) l] q by (simp add: quiet_move_def)
  ultimately show ?thesis using d(2,8) c n pc_ok_update [OF d(4,3) i o] unfolding boot_inv_def goto_def by simp
qed

lemma boot_goto:
  assumes inv: "boot_inv p fr ft s" and i: "i < bp_num_cpus p" and q: "quiet_move (bp_num_ethdev p) i (bs_pc s ! i) pc"
    and c: "ctl (bp_num_cpus p) ((bs_pc s)[i := pc]) (started_cpus s)"
    and o: "pc_ok (percpu_fns (bp_kstats p)) (bp_num_ethdev p) i pc"
    and n: "i = 1 \<Longrightarrow> started_net pc \<Longrightarrow> started_cpus s = int (bp_num_cpus p) - 1" and t: "tx_done pc \<Longrightarrow> tx_done (bs_pc s ! i)"
  shows "boot_inv p fr ft (goto i pc s)"
proof -
  note d = boot_invD [OF inv]
  have "boot_inv p fr ft (goto i pc (s\<lparr>started_cpus := started_cpus s, bs_num_queues := bs_num_queues s\<rparr>))"
  proof (rule boot_goto_with [OF inv i q c o])
    show "tx_done pc \<Longrightarrow> bs_num_queues s i = int (bp_num_ethdev p)" using d(3,6) t i by (simp add: tx_inv_def)
    show "started_cpus s = int (bp_num_cpus p) - 1" if "1 < bp_num_cpus p" "started_net ((bs_pc s)[i := pc] ! 1)"
      using that d(3,5) n by (cases "i = 1") auto
  qed simp
  then show ?thesis by simp
qed

text \<open>Fields that the invariant does not mention.\<close>

lemma boot_inv_other:
  "boot_inv p fr ft (goto i pc (s\<lparr>bs_cpu_nr := f\<rparr>)) = boot_inv p fr ft (goto i pc s)"
  "boot_inv p fr ft (goto i pc (s\<lparr>bs_np_cnt := n\<rparr>)) = boot_inv p fr ft (goto i pc s)"
  by (simp_all add: boot_inv_def goto_def)

text \<open>The functions of a core, and what is left of them.\<close>

lemma percpu_fns_eq:
  "percpu_fns kstats = [Timer_init_cpu, Mbuf_init_cpu, Response_init_cpu, Init_tx_queues, Syscall_init_cpu] @ (if kstats then [Kstats_init_cpu] else [])"
  by (simp add: percpu_fns_def init_tbl_def map_filter_simps)

lemma percpu_suffix:
  assumes "percpu_fns kstats = pre @ f # fs"
  shows "f \<noteq> Init_tx_queues \<Longrightarrow> Init_tx_queues \<in> set fs \<or> Init_tx_queues \<in> set pre" "f = Init_tx_queues \<Longrightarrow> Init_tx_queues \<notin> set fs"
proof -
  have d: "distinct (percpu_fns kstats)" "Init_tx_queues \<in> set (percpu_fns kstats)" by (auto simp: percpu_fns_eq)
  show "f \<noteq> Init_tx_queues \<Longrightarrow> Init_tx_queues \<in> set fs \<or> Init_tx_queues \<in> set pre" using d(2) assms by auto
  show "f = Init_tx_queues \<Longrightarrow> Init_tx_queues \<notin> set fs" using d(1) assms by auto
qed

text \<open>A core that is being brought up moves on.\<close>

lemma ctl_move_up:
  assumes c: "ctl N pcs st" and i: "i < N" and u: "coming_up (pcs ! i)" "coming_up pc" and m: "i = 0 \<Longrightarrow> main_at N pc 0 False"
  shows "ctl N (pcs[i := pc]) st"
proof (cases "i = 0")
  case True
  have "main_at N (pcs ! 0) 0 False" using c u True by (cases "pcs ! 0") (auto simp: ctl_def)
  then show ?thesis using ctl_main [OF c _ m [OF True]] True by simp
next
  case False
  then show ?thesis using ctl_core_up [OF c _ i u(1)] u(2) by simp
qed

lemma ctl_move_on:
  assumes c: "ctl N pcs st" and i: "i < N" and u: "is_up i (pcs ! i)" "is_up i pc" and m: "i = 0 \<Longrightarrow> main_at N (pcs ! 0) N False \<and> main_at N pc N False"
  shows "ctl N (pcs[i := pc]) st"
proof (cases "i = 0")
  case True
  then show ?thesis using ctl_main [OF c] m by blast
next
  case False
  then show ?thesis using ctl_core_on [OF c _ i u] by simp
qed

section \<open>Steps that change the queues\<close>

lemma is_up_tx: "is_up i pc \<Longrightarrow> has_tx d pc"
  by (cases pc) auto

text \<open>The core whose turn it is finds as many queues taken as there are cores before it, and no device started.\<close>

lemma tx_turn:
  assumes c: "ctl N pcs st" and i: "i < N" and u: "coming_up (pcs ! i)" and n: "\<not> has_tx d (pcs ! i)"
  shows "how_many (has_tx d) pcs = i"
proof (rule how_many_first)
  show "i \<le> length pcs" using c i by (simp add: ctl_def)
  have m: "main_at N (pcs ! 0) 0 False" if "i = 0" using c u that by (cases "pcs ! 0") (auto simp: ctl_def)
  show "has_tx d (pcs ! k)" if k: "k < i" for k
  proof (cases "k = 0")
    case True
    then show ?thesis using ctl_coming_up(1) [OF c _ i u] k by simp
  next
    case False
    then show ?thesis using ctl_coming_up(3) [OF c _ i u, of k] k is_up_tx by auto
  qed
  show "\<not> has_tx d (pcs ! k)" if k: "i \<le> k" "k < length pcs" for k
  proof (cases "k = i")
    case False
    have "pcs ! k = Not_created"
    proof (cases "i = 0")
      case True
      then show ?thesis using ctl_main_first(3) [OF c m [OF True], of k] k False c by (simp add: ctl_def)
    next
      case False
      then show ?thesis using ctl_coming_up(4) [OF c _ i u, of k] k \<open>k \<noteq> i\<close> c by (simp add: ctl_def)
    qed
    then show ?thesis by simp
  qed (use n in simp)
qed

lemma none_started:
  assumes inv: "boot_inv p fr ft s" and i: "i < bp_num_cpus p" and u: "coming_up (bs_pc s ! i)"
  shows "bs_started s = []" "1 < bp_num_cpus p \<Longrightarrow> \<not> started_net (bs_pc s ! 1)"
proof -
  note d = boot_invD [OF inv]
  have nn: "\<not> started_net (bs_pc s ! 1)" if N: "1 < bp_num_cpus p"
  proof
    assume h: "started_net (bs_pc s ! 1)"
    have st: "started_cpus s = int (bp_num_cpus p) - 1" by (rule d(5) [OF N h])
    note up = ctl_all_up [OF d(1) N st]
    have "\<not> coming_up (bs_pc s ! i)"
    proof (cases "i = 0")
      case True
      then show ?thesis using up(2) by simp
    next
      case False
      then have "is_up i (bs_pc s ! i)" using up(1) i by simp
      then show ?thesis by (cases "bs_pc s ! i") auto
    qed
    then show False using u by simp
  qed
  then show "1 < bp_num_cpus p \<Longrightarrow> \<not> started_net (bs_pc s ! 1)" .
  have "net_count (bp_num_ethdev p) (bs_pc s) = 0" using nn d(3) by (cases "bs_pc s ! 1") (auto simp: net_count_def)
  then show "bs_started s = []" using d(7) by (simp add: rxq_inv_def)
qed

lemma dev_inv_update:
  assumes "dev_inv N fr ft st devs" "k < length devs" "k \<notin> set st' \<Longrightarrow> dev_wf fr ft dev'" "N \<le> unat (ed_max_tx_queues dev')" "set st \<subseteq> set st'"
  shows "dev_inv N fr ft st' (devs[k := dev'])"
  using assms by (auto simp: dev_inv_def nth_list_update)

lemma has_tx_next:
  "d \<noteq> k \<Longrightarrow> has_tx d (Percpu (Init_tx_queues # fs) (k + 1)) = has_tx d (Percpu (Init_tx_queues # fs) k)"
  by auto

lemma tx_inv_more:
  assumes inv: "tx_inv D pcs devs txqs nq" and l: "i < length pcs" and k: "k < D" "length devs = D" and t: "how_many (has_tx k) pcs = i"
    and pc: "pcs ! i = Percpu (Init_tx_queues # fs) k" and nb: "unat (ed_nb_tx_queues dev') = i + 1"
  shows "tx_inv D (pcs[i := Percpu (Init_tx_queues # fs) (k + 1)]) (devs[k := dev']) (txqs(i := (txqs i)(k := Some i))) nq"
proof -
  let ?pc = "Percpu (Init_tx_queues # fs) (k + 1)"
  have "how_many (has_tx a) (pcs[i := ?pc]) = (if a = k then i + 1 else how_many (has_tx a) pcs)" for a
    using t how_many_more [OF l, of "has_tx k" ?pc] how_many_same [OF l, of "has_tx a" ?pc] pc has_tx_next [of a k fs] by auto
  then show ?thesis using inv nb k l pc by (auto simp: tx_inv_def nth_list_update)
qed

lemma tx_pass_inv:
  assumes inv: "boot_inv p fr ft s" and drv: "\<And>d. queue_driver (bp_ops p d) fr ft" and i: "i < bp_num_cpus p"
    and pc: "bs_pc s ! i = Percpu (Init_tx_queues # fs) k" and k: "k < length (bs_devs s)"
    and s': "s' = tx_queue_pass p i k (Percpu (Init_tx_queues # fs) (k + 1)) s" and e: "bs_end s' = None" "bs_end s = None"
  shows "boot_inv p fr ft s'"
proof -
  note d = boot_invD [OF inv]
  let ?pc = "Percpu (Init_tx_queues # fs) (k + 1)"
  let ?dev = "bs_devs s ! k"
  let ?n = "ed_nb_tx_queues ?dev"
  have l: "i < length (bs_pc s)" and kD: "k < bp_num_ethdev p" using d i k by simp_all
  have u: "coming_up (bs_pc s ! i)" "\<not> has_tx k (bs_pc s ! i)" using pc by simp_all
  have wf: "dev_wf fr ft ?dev" and mx: "bp_num_cpus p \<le> unat (ed_max_tx_queues ?dev)" using d(8) k none_started(1) [OF inv i u(1)] by (auto simp: dev_inv_def)
  have n: "unat ?n = i" using d(6) kD tx_turn [OF d(1) i u] by (simp add: tx_inv_def)
  have room: "unat ?n < unat (ed_max_tx_queues ?dev)" using n mx i by simp
  have g: "\<exists>t drv'. eth_dev_get_tx_queue (bp_ops p k) ?dev (bs_drv s) =
      Inr (0, Some (unat ?n), ?dev\<lparr>ed_tx_queues := (ed_tx_queues ?dev)[unat ?n := Some t], ed_nb_tx_queues := ?n + 1\<rparr>, drv') \<and> ft t"
    by (rule queue_driver.get_tx [OF drv wf room, of k "bs_drv s"]) (use s' e in \<open>auto simp: tx_queue_pass_def stop_with_def\<close>)
  then obtain t drv' where g: "eth_dev_get_tx_queue (bp_ops p k) ?dev (bs_drv s) =
      Inr (0, Some i, ?dev\<lparr>ed_tx_queues := (ed_tx_queues ?dev)[i := Some t], ed_nb_tx_queues := ?n + 1\<rparr>, drv')" "ft t" using n by auto
  define dev' where "dev' = ?dev\<lparr>ed_tx_queues := (ed_tx_queues ?dev)[i := Some t], ed_nb_tx_queues := ?n + 1\<rparr>"
  have s1: "s' = goto i ?pc (s\<lparr>bs_devs := (bs_devs s)[k := dev'], bs_drv := drv', bs_txqs := (bs_txqs s)(i := (bs_txqs s i)(k := Some i))\<rparr>)"
    using s' g(1) by (simp add: tx_queue_pass_def dev'_def)
  have dv: "dev_wf fr ft dev'" using dev_wf_tx [of fr ft ?dev t] wf room g(2) n by (simp add: dev'_def)
  have nb: "unat (ed_nb_tx_queues dev') = i + 1" using nb_queues_Suc [OF room] n by (simp add: dev'_def)
  have c: "ctl (bp_num_cpus p) ((bs_pc s)[i := ?pc]) (started_cpus s)" by (rule ctl_move_up [OF d(1) i u(1)]) auto
  have "pc_ok (percpu_fns (bp_kstats p)) (bp_num_ethdev p) i ?pc" using d(4) i pc kD by auto
  from pc_ok_update [OF d(4,3) i this] have o: "\<forall>k<bp_num_cpus p. pc_ok (percpu_fns (bp_kstats p)) (bp_num_ethdev p) k ((bs_pc s)[i := ?pc] ! k)" .
  have tx: "tx_inv (bp_num_ethdev p) ((bs_pc s)[i := ?pc]) ((bs_devs s)[k := dev']) ((bs_txqs s)(i := (bs_txqs s i)(k := Some i))) (bs_num_queues s)"
    by (rule tx_inv_more [OF d(6) l kD d(2) tx_turn [OF d(1) i u] pc nb])
  have rx: "rxq_inv (bp_num_ethdev p) ((bs_pc s)[i := ?pc]) ((bs_devs s)[k := dev']) (bs_rxqs s) (bs_started s)"
  proof -
    have "ed_nb_rx_queues ((bs_devs s)[k := dev'] ! a) = ed_nb_rx_queues (bs_devs s ! a)" for a by (cases "a = k") (use k in \<open>auto simp: dev'_def\<close>)
    then have "rxq_inv (bp_num_ethdev p) (bs_pc s) ((bs_devs s)[k := dev']) (bs_rxqs s) (bs_started s)" using d(7) by (simp add: rxq_inv_def)
    then show ?thesis by (rule rxq_inv_goto [OF _ l]) (use pc in auto)
  qed
  have "dev_inv (bp_num_cpus p) fr ft (bs_started s) ((bs_devs s)[k := dev'])"
    by (rule dev_inv_update [OF d(8) k]) (use dv mx in \<open>auto simp: dev'_def\<close>)
  moreover have "bar_inv ((bs_pc s)[i := ?pc]) (bs_arrived s)" by (rule bar_inv_goto [OF d(9) l]) (use pc in simp_all)
  moreover have "started_net ((bs_pc s)[i := ?pc] ! 1) \<Longrightarrow> 1 < bp_num_cpus p \<Longrightarrow> started_cpus s = int (bp_num_cpus p) - 1"
    using d(3,5) by (cases "i = 1") auto
  ultimately show ?thesis using c o tx rx d(2) unfolding s1 boot_inv_def goto_def by simp
qed

lemma rx_pass_inv:
  assumes inv: "boot_inv p fr ft s" and drv: "\<And>d. queue_driver (bp_ops p d) fr ft" and i: "i < bp_num_cpus p"
    and pc: "bs_pc s ! i = Rx_queue k" and k: "k < length (bs_devs s)"
    and s': "s' = rx_queue_pass p i k (Rx_queue (k + 1)) s" and e: "bs_end s' = None" "bs_end s = None"
  shows "boot_inv p fr ft s'"
proof -
  note d = boot_invD [OF inv]
  let ?dev = "bs_devs s ! k"
  let ?n = "ed_nb_rx_queues ?dev"
  have i1: "i = 1" using d(4) i pc by auto
  have l: "i < length (bs_pc s)" and kD: "k < bp_num_ethdev p" using d i k by simp_all
  have u: "coming_up (bs_pc s ! i)" using pc by simp
  have wf: "dev_wf fr ft ?dev" and mx: "bp_num_cpus p \<le> unat (ed_max_tx_queues ?dev)" using d(8) k none_started(1) [OF inv i u] by (auto simp: dev_inv_def)
  have n: "unat ?n = 0" using d(7) kD pc i1 by (simp add: rxq_inv_def rx_got_def)
  have "\<exists>x drv'. eth_dev_get_rx_queue (bp_ops p k) ?dev (bs_drv s) =
      Inr (0, Some (unat ?n), ?dev\<lparr>ed_rx_queues := (ed_rx_queues ?dev)[unat ?n := Some x], ed_nb_rx_queues := ?n + 1\<rparr>, drv') \<and> fr (rxq_drv x) \<and>
      rxq_queue_idx x = int (unat ?n) \<and> unat ?n < unat (ed_max_rx_queues ?dev)"
    by (rule queue_driver.get_rx [OF drv wf, of k "bs_drv s"]) (use s' e in \<open>auto simp: rx_queue_pass_def stop_with_def\<close>)
  then obtain x drv' where g: "eth_dev_get_rx_queue (bp_ops p k) ?dev (bs_drv s) =
      Inr (0, Some (unat ?n), ?dev\<lparr>ed_rx_queues := (ed_rx_queues ?dev)[unat ?n := Some x], ed_nb_rx_queues := ?n + 1\<rparr>, drv')" "fr (rxq_drv x)"
      "rxq_queue_idx x = int (unat ?n)" "unat ?n < unat (ed_max_rx_queues ?dev)" by blast
  define dev' where "dev' = ?dev\<lparr>ed_rx_queues := (ed_rx_queues ?dev)[unat ?n := Some x], ed_nb_rx_queues := ?n + 1\<rparr>"
  have s1: "s' = goto i (Rx_queue (k + 1)) (s\<lparr>bs_devs := (bs_devs s)[k := dev'], bs_drv := drv', bs_rxqs := (bs_rxqs s)(k := Some 0)\<rparr>)"
    using s' g(1) n by (simp add: rx_queue_pass_def dev'_def)
  have dv: "dev_wf fr ft dev'" using dev_wf_rx [OF wf g(4,2,3)] by (simp add: dev'_def)
  have nb: "unat (ed_nb_rx_queues dev') = 1" using nb_queues_Suc [OF g(4)] n by (simp add: dev'_def)
  have c: "ctl (bp_num_cpus p) ((bs_pc s)[i := Rx_queue (k + 1)]) (started_cpus s)" by (rule ctl_move_up [OF d(1) i u]) (use i1 in auto)
  have "pc_ok (percpu_fns (bp_kstats p)) (bp_num_ethdev p) i (Rx_queue (k + 1))" using i1 kD by simp
  from pc_ok_update [OF d(4,3) i this] have o: "\<forall>n<bp_num_cpus p. pc_ok (percpu_fns (bp_kstats p)) (bp_num_ethdev p) n ((bs_pc s)[i := Rx_queue (k + 1)] ! n)" .
  have tx: "tx_inv (bp_num_ethdev p) ((bs_pc s)[i := Rx_queue (k + 1)]) ((bs_devs s)[k := dev']) (bs_txqs s) (bs_num_queues s)"
  proof (rule tx_inv_goto)
    have "ed_nb_tx_queues ((bs_devs s)[k := dev'] ! a) = ed_nb_tx_queues (bs_devs s ! a)" for a by (cases "a = k") (use k in \<open>auto simp: dev'_def\<close>)
    then show "tx_inv (bp_num_ethdev p) (bs_pc s) ((bs_devs s)[k := dev']) (bs_txqs s) (bs_num_queues s)" using d(6) by (simp add: tx_inv_def)
  qed (use l pc d(6) in \<open>auto simp: tx_inv_def\<close>)
  have rx: "rxq_inv (bp_num_ethdev p) ((bs_pc s)[i := Rx_queue (k + 1)]) ((bs_devs s)[k := dev']) ((bs_rxqs s)(k := Some 0)) (bs_started s)"
  proof -
    have "rx_got ((bs_pc s)[i := Rx_queue (k + 1)]) a = (if a = k then True else rx_got (bs_pc s) a)" for a using l i1 pc by (auto simp: rx_got_def)
    moreover have "net_count (bp_num_ethdev p) ((bs_pc s)[i := Rx_queue (k + 1)]) = net_count (bp_num_ethdev p) (bs_pc s)" using l i1 pc by (simp add: net_count_def)
    ultimately show ?thesis using d(7) nb k by (auto simp: rxq_inv_def nth_list_update)
  qed
  have "dev_inv (bp_num_cpus p) fr ft (bs_started s) ((bs_devs s)[k := dev'])"
    by (rule dev_inv_update [OF d(8) k]) (use dv mx in \<open>auto simp: dev'_def\<close>)
  moreover have "bar_inv ((bs_pc s)[i := Rx_queue (k + 1)]) (bs_arrived s)" by (rule bar_inv_goto [OF d(9) l]) (use pc in simp_all)
  ultimately show ?thesis using c o tx rx d(2,3) i i1 unfolding s1 boot_inv_def goto_def by simp
qed

text \<open>Starting a device keeps the numbers of its queues.\<close>

lemma eth_dev_start_keeps:
  assumes "eth_dev_start ops link dev st = Inr (ret, dev', mac, drv)"
  shows "ed_nb_rx_queues dev' = ed_nb_rx_queues dev \<and> ed_nb_tx_queues dev' = ed_nb_tx_queues dev \<and> ed_max_tx_queues dev' = ed_max_tx_queues dev"
proof -
  obtain ms s0 where st: "st = (ms, s0)" by (cases st)
  from assms obtain rxqs txqs r where a: "queues_in_use (unat (ed_nb_rx_queues dev)) (ed_rx_queues dev) = Inr rxqs"
    "queues_in_use (unat (ed_nb_tx_queues dev)) (ed_tx_queues dev) = Inr txqs" "op_dev_start ops (map rxq_drv rxqs) txqs s0 = Inr r"
    unfolding eth_dev_start_def st prod.case bindE_eq_Inr by blast
  obtain ret1 rx1 tx1 s1 where r: "r = (ret1, rx1, tx1, s1)" by (cases r)
  show ?thesis using assms by (simp add: eth_dev_start_def st a r generic_link_update_def Let_def split: if_splits) auto
qed

lemma net_start_core:
  assumes c: "ctl N pcs st" and i: "i < N" and pc: "pcs ! i = Net_start k"
  shows "i = 1"
proof -
  obtain j w where j: "main_at N (pcs ! 0) j w" "\<And>k. 0 < k \<Longrightarrow> k < N \<Longrightarrow> core_at pcs j w st k" using c by (auto simp: ctl_def)
  have "i \<noteq> 0" using j(1) pc by (cases "i = 0") auto
  then have "core_at pcs j w st i" using j(2) i by simp
  then show ?thesis using pc by (auto simp: core_at_def split: if_splits)
qed

lemma net_pass_inv:
  assumes inv: "boot_inv p fr ft s" and i: "i < bp_num_cpus p" and pc: "bs_pc s ! i = Net_start k" and k: "k < bp_num_ethdev p"
    and s': "s' = net_start_pass p i k (Net_start (k + 1)) s" and e: "bs_end s' = None" "bs_end s = None"
  shows "boot_inv p fr ft s'"
proof -
  note d = boot_invD [OF inv]
  have i1: "i = 1" by (rule net_start_core [OF d(1) i pc])
  have up: "is_up i (bs_pc s ! i)" using i1 pc by simp
  have l: "i < length (bs_pc s)" and kl: "k < length (bs_devs s)" using d i k by simp_all
  have n: "ed_nb_rx_queues (bs_devs s ! k) \<noteq> 0" using d(7) k pc i1 l by (auto simp: rxq_inv_def rx_got_def)
  obtain dev' mac drv where g: "eth_dev_start (bp_ops p k) (bp_link p k) (bs_devs s ! k) (bs_mac s, bs_drv s) = Inr (0, dev', mac, drv)"
    using s' e n kl by (auto simp: net_start_pass_def stop_with_def Let_def split: sum.splits prod.splits if_splits)
  have s1: "s' = goto i (Net_start (k + 1)) (s\<lparr>bs_devs := (bs_devs s)[k := dev'], bs_mac := mac, bs_drv := drv, bs_started := bs_started s @ [k]\<rparr>)"
    using s' g n kl by (simp add: net_start_pass_def)
  note kp = eth_dev_start_keeps [OF g]
  have c: "ctl (bp_num_cpus p) ((bs_pc s)[i := Net_start (k + 1)]) (started_cpus s)"
    by (rule ctl_move_on [OF d(1) i up]) (use i1 in auto)
  have "pc_ok (percpu_fns (bp_kstats p)) (bp_num_ethdev p) i (Net_start (k + 1))" using k by simp
  from pc_ok_update [OF d(4,3) i this] have o: "\<forall>n<bp_num_cpus p. pc_ok (percpu_fns (bp_kstats p)) (bp_num_ethdev p) n ((bs_pc s)[i := Net_start (k + 1)] ! n)" .
  have same: "ed_nb_tx_queues ((bs_devs s)[k := dev'] ! a) = ed_nb_tx_queues (bs_devs s ! a)" "ed_nb_rx_queues ((bs_devs s)[k := dev'] ! a) = ed_nb_rx_queues (bs_devs s ! a)" for a
    by (cases "a = k"; use kl kp in auto)+
  have tx: "tx_inv (bp_num_ethdev p) ((bs_pc s)[i := Net_start (k + 1)]) ((bs_devs s)[k := dev']) (bs_txqs s) (bs_num_queues s)"
  proof (rule tx_inv_goto)
    show "tx_inv (bp_num_ethdev p) (bs_pc s) ((bs_devs s)[k := dev']) (bs_txqs s) (bs_num_queues s)" using d(6) same by (simp add: tx_inv_def)
  qed (use l pc d(6) in \<open>auto simp: tx_inv_def\<close>)
  have rx: "rxq_inv (bp_num_ethdev p) ((bs_pc s)[i := Net_start (k + 1)]) ((bs_devs s)[k := dev']) (bs_rxqs s) (bs_started s @ [k])"
  proof -
    have "rx_got ((bs_pc s)[i := Net_start (k + 1)]) a = rx_got (bs_pc s) a" for a using l i1 pc by (auto simp: rx_got_def)
    then show ?thesis using d(7) same l i1 pc by (simp add: rxq_inv_def net_count_def)
  qed
  have "dev_inv (bp_num_cpus p) fr ft (bs_started s @ [k]) ((bs_devs s)[k := dev'])"
    by (rule dev_inv_update [OF d(8) kl]) (use d(8) kl kp in \<open>auto simp: dev_inv_def\<close>)
  moreover have "bar_inv ((bs_pc s)[i := Net_start (k + 1)]) (bs_arrived s)" by (rule bar_inv_goto [OF d(9) l]) (use pc in simp_all)
  moreover have "started_cpus s = int (bp_num_cpus p) - 1" using d(5) pc i1 i by simp
  ultimately show ?thesis using c o tx rx d(2) unfolding s1 boot_inv_def goto_def by simp
qed

section \<open>The other steps\<close>

lemma tx_last_inv:
  assumes inv: "boot_inv p fr ft s" and i: "i < bp_num_cpus p" and pc: "bs_pc s ! i = Percpu (Init_tx_queues # fs) k" and k: "\<not> k < length (bs_devs s)"
  shows "boot_inv p fr ft (goto i (Percpu fs 0) (s\<lparr>bs_num_queues := (bs_num_queues s)(i := int (length (bs_devs s)))\<rparr>))"
proof -
  note d = boot_invD [OF inv]
  obtain pre where pre: "percpu_fns (bp_kstats p) = pre @ Init_tx_queues # fs" using d(4) [rule_format, OF i] unfolding pc pc_ok.simps by blast
  then have pre': "percpu_fns (bp_kstats p) = (pre @ [Init_tx_queues]) @ fs" by simp
  have "Init_tx_queues \<notin> set fs" using percpu_suffix(2) [OF pre] by simp
  then have q: "quiet_move (bp_num_ethdev p) i (bs_pc s ! i) (Percpu fs 0)" using pc k d(2) by (auto simp: quiet_move_def)
  have o: "pc_ok (percpu_fns (bp_kstats p)) (bp_num_ethdev p) i (Percpu fs 0)" using pre' by auto
  have c: "ctl (bp_num_cpus p) ((bs_pc s)[i := Percpu fs 0]) (started_cpus s)" by (rule ctl_move_up [OF d(1) i]) (use pc in auto)
  have u: "coming_up (bs_pc s ! i)" using pc by simp
  have n: "\<not> started_net ((bs_pc s)[i := Percpu fs 0] ! 1)" if "1 < bp_num_cpus p"
    using none_started(2) [OF inv i u that] d(3) i by (cases "i = 1") auto
  have "boot_inv p fr ft (goto i (Percpu fs 0) (s\<lparr>started_cpus := started_cpus s, bs_num_queues := (bs_num_queues s)(i := int (length (bs_devs s)))\<rparr>))"
    by (rule boot_goto_with [OF inv i q c o]) (use n d(2) in auto)
  then show ?thesis by simp
qed

lemma inc_store_inv:
  assumes inv: "boot_inv p fr ft s" and i: "i < bp_num_cpus p" and pc: "bs_pc s ! i = Inc_store v"
  shows "boot_inv p fr ft (goto i (if i = 1 then Wait_all else Enter_barrier) (s\<lparr>started_cpus := v\<rparr>))"
proof -
  note d = boot_invD [OF inv]
  let ?pc = "if i = 1 then Wait_all else Enter_barrier"
  have u: "coming_up (bs_pc s ! i)" using pc by simp
  have v: "v = int i" using d(4) i pc by auto
  have i0: "0 < i" using d(1) pc by (cases "i = 0") (auto simp: ctl_def)
  have q: "quiet_move (bp_num_ethdev p) i (bs_pc s ! i) ?pc" using pc by (simp add: quiet_move_def)
  have c: "ctl (bp_num_cpus p) ((bs_pc s)[i := ?pc]) v" by (rule ctl_core_up [OF d(1) i0 i u]) (simp add: v)
  have n: "\<not> started_net ((bs_pc s)[i := ?pc] ! 1)" if "1 < bp_num_cpus p"
    using none_started(2) [OF inv i u that] d(3) i by (cases "i = 1") auto
  have nq: "bs_num_queues s i = int (bp_num_ethdev p)" using d(3,6) i pc by (simp add: tx_inv_def)
  have "boot_inv p fr ft (goto i ?pc (s\<lparr>started_cpus := v, bs_num_queues := bs_num_queues s\<rparr>))"
    by (rule boot_goto_with [OF inv i q c]) (use n nq in auto)
  then show ?thesis by simp
qed

text \<open>The barrier.\<close>

lemma how_many_le: "how_many P xs \<le> length xs"
  by (simp add: how_many_def)

lemma ctl_barrier:
  assumes c: "ctl N pcs st" and i: "i < N" and a: "pcs ! i = Enter_barrier \<and> pc = In_barrier \<or> pcs ! i = In_barrier \<and> pc = Running"
  shows "ctl N (pcs[i := pc]) st"
proof (rule ctl_move_on [OF c i])
  assume "i = 0"
  then show "main_at N (pcs ! 0) N False \<and> main_at N pc N False" using a c by (auto simp: ctl_def)
qed (use a in auto)

lemma barrier_inv:
  assumes inv: "boot_inv p fr ft s" and i: "i < bp_num_cpus p"
    and a: "bs_pc s ! i = Enter_barrier \<and> pc = In_barrier \<and> n = bs_arrived s + 1 \<or> bs_pc s ! i = In_barrier \<and> pc = Running \<and> n = bs_arrived s \<and> bp_num_cpus p \<le> n"
  shows "boot_inv p fr ft (goto i pc (s\<lparr>bs_arrived := n\<rparr>))"
proof -
  note d = boot_invD [OF inv]
  let ?pcs = "(bs_pc s)[i := pc]"
  have l: "i < length (bs_pc s)" using d(3) i by simp
  have c: "ctl (bp_num_cpus p) ?pcs (started_cpus s)" by (rule ctl_barrier [OF d(1) i]) (use a in auto)
  have o: "\<forall>k<bp_num_cpus p. pc_ok (percpu_fns (bp_kstats p)) (bp_num_ethdev p) k (?pcs ! k)" by (rule pc_ok_update [OF d(4,3) i]) (use a in auto)
  have "tx_done (bs_pc s ! i)" using a by auto
  then have "bs_num_queues s i = int (bp_num_ethdev p)" using d(6) l by (simp add: tx_inv_def)
  then have tx: "tx_inv (bp_num_ethdev p) ?pcs (bs_devs s) (bs_txqs s) (bs_num_queues s)" using tx_inv_goto [OF d(6) l, of pc "bs_num_queues s"] a by auto
  have rx: "rxq_inv (bp_num_ethdev p) ?pcs (bs_devs s) (bs_rxqs s) (bs_started s)" by (rule rxq_inv_goto [OF d(7) l]) (use a in auto)
  have bar: "bar_inv ?pcs n"
    unfolding bar_inv_def
  proof (intro impI)
    assume N: "1 < length ?pcs"
    then have h: "bs_arrived s = how_many at_barrier (bs_pc s)" "Running \<in> set (bs_pc s) \<Longrightarrow> bs_arrived s = length (bs_pc s)" using d(9) by (auto simp: bar_inv_def)
    show "n = how_many at_barrier ?pcs \<and> (Running \<in> set ?pcs \<longrightarrow> n = length ?pcs)"
    proof (cases "bs_pc s ! i = Enter_barrier")
      case True
      then have "Running \<notin> set (bs_pc s)" using h how_many_all [OF _ l, of at_barrier] by auto
      then have "Running \<notin> set ?pcs" using a True set_update_subset_insert [of "bs_pc s" i pc] by auto
      then show ?thesis using a True h(1) how_many_more [OF l, of at_barrier pc] by auto
    next
      case False
      then have e: "bs_pc s ! i = In_barrier" "pc = Running" "n = bs_arrived s" "bp_num_cpus p \<le> n" using a by auto
      then have "n = length (bs_pc s)" using h(1) how_many_le [of at_barrier "bs_pc s"] d(3) by simp
      then show ?thesis using e h(1) how_many_same [OF l, of at_barrier pc] by simp
    qed
  qed
  have "started_cpus s = int (bp_num_cpus p) - 1" if "1 < bp_num_cpus p" "started_net (?pcs ! 1)" using that d(3,5) a by (cases "i = 1") auto
  then show ?thesis using c o tx rx bar d(2,8) unfolding boot_inv_def goto_def by simp
qed

lemma main_core:
  assumes c: "ctl N pcs st" and i: "i < N" and pc: "pcs ! i = Create k \<or> pcs ! i = Wait_for k"
  shows "i = 0"
proof (rule ccontr)
  assume "i \<noteq> 0"
  then obtain j w where "core_at pcs j w st i" using c i by (auto simp: ctl_def)
  then show False using pc by (auto simp: core_at_def split: if_splits)
qed

lemma create_inv:
  assumes inv: "boot_inv p fr ft s" and i: "i < bp_num_cpus p" and pc: "bs_pc s ! i = Create k" and k: "k < bp_num_cpus p"
  shows "boot_inv p fr ft (goto k Cpu_init_one (goto i (Wait_for k) s))"
proof -
  note d = boot_invD [OF inv]
  have i0: "i = 0" using main_core [OF d(1) i] pc by simp
  note m = ctl_main_create [OF d(1) pc [unfolded i0] k]
  let ?a = "(bs_pc s)[0 := Wait_for k]"
  let ?b = "?a[k := Cpu_init_one]"
  have l: "0 < length (bs_pc s)" "k < length ?a" using d(3) k by simp_all
  have ak: "?a ! k = Not_created" using m(3,4) by simp
  have o: "\<forall>n<bp_num_cpus p. pc_ok (percpu_fns (bp_kstats p)) (bp_num_ethdev p) n (?b ! n)" using d(3,4) k by (auto simp: nth_list_update)
  have "bs_num_queues s 0 = int (bp_num_ethdev p)" using d(6) l pc i0 by (simp add: tx_inv_def)
  then have "tx_inv (bp_num_ethdev p) ?a (bs_devs s) (bs_txqs s) (bs_num_queues s)" using tx_inv_goto [OF d(6) l(1), of "Wait_for k" "bs_num_queues s"] pc i0 by simp
  from tx_inv_goto [OF this l(2), of Cpu_init_one "bs_num_queues s"] ak have tx: "tx_inv (bp_num_ethdev p) ?b (bs_devs s) (bs_txqs s) (bs_num_queues s)" by simp
  have "rxq_inv (bp_num_ethdev p) ?a (bs_devs s) (bs_rxqs s) (bs_started s)" by (rule rxq_inv_goto [OF d(7) l(1)]) simp
  then have rx: "rxq_inv (bp_num_ethdev p) ?b (bs_devs s) (bs_rxqs s) (bs_started s)" by (rule rxq_inv_goto [OF _ l(2)]) (use ak in auto)
  have "bar_inv ?a (bs_arrived s)" by (rule bar_inv_goto [OF d(9) l(1)]) (use pc i0 in simp_all)
  then have bar: "bar_inv ?b (bs_arrived s)" by (rule bar_inv_goto [OF _ l(2)]) (use ak in simp_all)
  have "\<not> started_net (?b ! 1) \<or> started_cpus s = int (bp_num_cpus p) - 1" if "1 < bp_num_cpus p"
    using that d(3,5) k m(4) by (cases "k = 1") auto
  then show ?thesis using m(1) o tx rx bar d(2,8) i0 unfolding boot_inv_def goto_def by simp
qed

section \<open>Every step\<close>

lemma boot_up:
  assumes inv: "boot_inv p fr ft s" and i: "i < bp_num_cpus p" and u: "coming_up (bs_pc s ! i)" "coming_up pc" "i = 0 \<Longrightarrow> main_at (bp_num_cpus p) pc 0 False"
    and q: "quiet_move (bp_num_ethdev p) i (bs_pc s ! i) pc" "pc_ok (percpu_fns (bp_kstats p)) (bp_num_ethdev p) i pc" "tx_done pc \<Longrightarrow> tx_done (bs_pc s ! i)"
  shows "boot_inv p fr ft (goto i pc s)"
proof (rule boot_goto [OF inv i q(1) _ q(2) _ q(3)])
  show "ctl (bp_num_cpus p) ((bs_pc s)[i := pc]) (started_cpus s)" by (rule ctl_move_up [OF boot_invD(1) [OF inv] i u])
  show "started_net pc \<Longrightarrow> started_cpus s = int (bp_num_cpus p) - 1" using u(2) by (cases pc) auto
qed

lemma percpu_step_inv:
  assumes inv: "boot_inv p fr ft s" and drv: "\<And>d. queue_driver (bp_ops p d) fr ft"
    and i: "i < bp_num_cpus p" and st: "core_step p i s = Some s'" and e: "bs_end s = None" "bs_end s' = None" and pc: "bs_pc s ! i = Percpu fs k"
  shows "boot_inv p fr ft s'"
proof (cases fs)
  case Nil
  then have "boot_inv p fr ft (goto i Set_nr s)" using pc by (intro boot_up [OF inv i]) (auto simp: quiet_move_def)
  then show ?thesis using st pc Nil by (simp add: core_step_def)
next
  case (Cons f gs)
  note ok = boot_invD(4) [OF inv, rule_format, OF i, unfolded pc Cons pc_ok.simps]
  show ?thesis
  proof (cases "f = Init_tx_queues")
    case True
    then show ?thesis
      using st e pc Cons tx_pass_inv [OF inv drv i, of gs k s'] tx_last_inv [OF inv i, of gs k] by (auto simp: core_step_def split: if_splits)
  next
    case False
    obtain pre where "percpu_fns (bp_kstats p) = pre @ f # gs" using ok by blast
    then have pre: "percpu_fns (bp_kstats p) = (pre @ [f]) @ gs" by simp
    have k0: "k = 0" using ok False by simp
    have "boot_inv p fr ft (goto i (Percpu gs 0) s)" using pc Cons False pre k0 by (intro boot_up [OF inv i]) (auto simp: quiet_move_def)
    then show ?thesis using st e pc Cons False by (auto simp: core_step_def stop_with_def split: if_splits)
  qed
qed

lemma set_nr_inv:
  assumes inv: "boot_inv p fr ft s" and i: "i < bp_num_cpus p" and pc: "bs_pc s ! i = Set_nr"
  shows "boot_inv p fr ft (goto i (if i = 0 then Create 1 else if i = 1 then Rx_queue 0 else Inc_load) s)"
proof (cases "i = 0")
  case True
  note d = boot_invD [OF inv]
  have "main_at (bp_num_cpus p) (bs_pc s ! 0) 0 False" using pc True by simp
  from ctl_main_first(1) [OF d(1) this] have c: "ctl (bp_num_cpus p) ((bs_pc s)[i := Create 1]) (started_cpus s)" using True by simp
  have "boot_inv p fr ft (goto i (Create 1) s)" by (rule boot_goto [OF inv i _ c]) (use pc True in \<open>auto simp: quiet_move_def\<close>)
  then show ?thesis using True by simp
next
  case False
  then show ?thesis by (intro boot_up [OF inv i]) (use pc False in \<open>auto simp: quiet_move_def\<close>)
qed

lemma rising_inv:
  assumes inv: "boot_inv p fr ft s" and drv: "\<And>d. queue_driver (bp_ops p d) fr ft" and N: "bp_num_cpus p < 2 ^ 31"
    and i: "i < bp_num_cpus p" and st: "core_step p i s = Some s'" and e: "bs_end s = None" "bs_end s' = None" and u: "coming_up (bs_pc s ! i)"
  shows "boot_inv p fr ft s'"
proof (cases "bs_pc s ! i")
  case Cpu_init_one
  have "boot_inv p fr ft (goto i (Percpu (percpu_fns (bp_kstats p)) 0) s)" using Cpu_init_one boot_invD(1) [OF inv]
    by (intro boot_up [OF inv i]) (auto simp: quiet_move_def percpu_fns_eq ctl_def)
  then show ?thesis using st e Cpu_init_one by (auto simp: core_step_def stop_with_def split: if_splits)
next
  case (Percpu fs k)
  then show ?thesis by (rule percpu_step_inv [OF inv drv i st e])
next
  case Set_nr
  then show ?thesis using st set_nr_inv [OF inv i Set_nr] by (auto simp: core_step_def boot_inv_other)
next
  case (Rx_queue k)
  have "i = 1" using boot_invD(4) [OF inv] i Rx_queue by auto
  have "boot_inv p fr ft (goto i Inc_load s)" if "\<not> k < length (bs_devs s)"
    using Rx_queue that boot_invD(2) [OF inv] \<open>i = 1\<close> by (intro boot_up [OF inv i]) (auto simp: quiet_move_def)
  then show ?thesis using st e Rx_queue rx_pass_inv [OF inv drv i Rx_queue, of s'] by (auto simp: core_step_def split: if_splits)
next
  case Inc_load
  note c = boot_invD(1) [OF inv]
  have i0: "0 < i" using c Inc_load by (cases "i = 0") (auto simp: ctl_def)
  have "started_cpus s = int i - 1" using ctl_coming_up(2) [OF c i0 i] Inc_load by simp
  then have "s32 (started_cpus s + 1) = int i" using N i by simp
  moreover have "boot_inv p fr ft (goto i (Inc_store (int i)) s)" using Inc_load i0 by (intro boot_up [OF inv i]) (auto simp: quiet_move_def)
  ultimately show ?thesis using st Inc_load by (simp add: core_step_def)
next
  case (Inc_store v)
  then show ?thesis using st inc_store_inv [OF inv i Inc_store] by (simp add: core_step_def)
qed (use u in simp_all)

lemma wait_all_core:
  assumes c: "ctl N pcs st" and i: "i < N" and pc: "pcs ! i = Wait_all"
  shows "i = 1"
proof -
  obtain j w where j: "main_at N (pcs ! 0) j w" "\<And>k. 0 < k \<Longrightarrow> k < N \<Longrightarrow> core_at pcs j w st k" using c by (auto simp: ctl_def)
  have "i \<noteq> 0" using j(1) pc by (cases "i = 0") auto
  then have "core_at pcs j w st i" using j(2) i by simp
  then show ?thesis using pc by (auto simp: core_at_def split: if_splits)
qed

text \<open>With one core there is no barrier.\<close>

lemma last_create_inv:
  assumes inv: "boot_inv p fr ft s" and i: "i < bp_num_cpus p" and pc: "bs_pc s ! i = Create (bp_num_cpus p)"
  shows "boot_inv p fr ft (goto i (if bp_num_cpus p > 1 then Enter_barrier else Running) s)"
proof -
  note d = boot_invD [OF inv]
  have i0: "i = 0" using main_core [OF d(1) i] pc by blast
  let ?pc = "if bp_num_cpus p > 1 then Enter_barrier else Running"
  have c: "ctl (bp_num_cpus p) ((bs_pc s)[i := ?pc]) (started_cpus s)" using ctl_main_last [OF d(1), of ?pc] pc i0 by simp
  show ?thesis
  proof (cases "bp_num_cpus p > 1")
    case True
    then show ?thesis using boot_goto [OF inv i _ c] pc i0 by (simp add: quiet_move_def)
  next
    case False
    have l: "i < length (bs_pc s)" "\<not> 1 < length (bs_pc s)" using d(3) i False by simp_all
    have "bs_num_queues s i = int (bp_num_ethdev p)" using d(6) l(1) pc by (simp add: tx_inv_def)
    then have "tx_inv (bp_num_ethdev p) ((bs_pc s)[i := ?pc]) (bs_devs s) (bs_txqs s) (bs_num_queues s)"
      using tx_inv_goto [OF d(6) l(1), of ?pc "bs_num_queues s"] pc False by simp
    moreover have "rxq_inv (bp_num_ethdev p) ((bs_pc s)[i := ?pc]) (bs_devs s) (bs_rxqs s) (bs_started s)" by (rule rxq_inv_goto [OF d(7) l(1)]) (use i0 in simp)
    moreover have "bar_inv ((bs_pc s)[i := ?pc]) (bs_arrived s)" using l(2) by (simp add: bar_inv_def)
    ultimately show ?thesis using c pc_ok_update [OF d(4,3) i, of ?pc] d(2,8) False unfolding boot_inv_def goto_def by simp
  qed
qed

theorem boot_inv_step:
  assumes inv: "boot_inv p fr ft s" and drv: "\<And>d. queue_driver (bp_ops p d) fr ft" and N: "bp_num_cpus p < 2 ^ 31"
    and i: "i < bp_num_cpus p" and st: "core_step p i s = Some s'" and e: "bs_end s = None" "bs_end s' = None"
  shows "boot_inv p fr ft s'"
proof (cases "bs_pc s ! i")
  case Wait_all
  note d = boot_invD [OF inv]
  have i1: "i = 1" by (rule wait_all_core [OF d(1) i Wait_all])
  have w: "started_cpus s = int (bp_num_cpus p) - 1" "s' = goto i (Net_start 0) s" using st Wait_all by (auto simp: core_step_def split: if_splits)
  show ?thesis unfolding w(2)
  proof (rule boot_goto [OF inv i])
    show "ctl (bp_num_cpus p) ((bs_pc s)[i := Net_start 0]) (started_cpus s)" by (rule ctl_move_on [OF d(1) i]) (use Wait_all i1 in auto)
  qed (use Wait_all w in \<open>auto simp: quiet_move_def\<close>)
next
  case (Net_start k)
  note d = boot_invD [OF inv]
  have i1: "i = 1" by (rule net_start_core [OF d(1) i Net_start])
  have "boot_inv p fr ft (goto i Enter_barrier s)" if "\<not> k < bp_num_ethdev p"
  proof (rule boot_goto [OF inv i])
    show "ctl (bp_num_cpus p) ((bs_pc s)[i := Enter_barrier]) (started_cpus s)" by (rule ctl_move_on [OF d(1) i]) (use Net_start i1 in auto)
    show "quiet_move (bp_num_ethdev p) i (bs_pc s ! i) Enter_barrier" using Net_start d(4) [rule_format, OF i] that by (auto simp: quiet_move_def)
    show "started_cpus s = int (bp_num_cpus p) - 1" using d(5) Net_start i1 i by simp
  qed (use Net_start in simp_all)
  then show ?thesis using st e Net_start net_pass_inv [OF inv i Net_start, of s'] by (auto simp: core_step_def boot_inv_other split: if_splits)
next
  case Enter_barrier
  then show ?thesis using st barrier_inv [OF inv i, of In_barrier "bs_arrived s + 1"] by (simp add: core_step_def)
next
  case In_barrier
  then have "boot_inv p fr ft (goto i Running (s\<lparr>bs_arrived := bs_arrived s\<rparr>))" "s' = goto i Running s"
    using st barrier_inv [OF inv i, of Running "bs_arrived s"] by (auto simp: core_step_def split: if_splits)
  then show ?thesis by simp
next
  case (Create k)
  note d = boot_invD [OF inv]
  have i0: "i = 0" using main_core [OF d(1) i] Create by blast
  have "k \<le> bp_num_cpus p" using d(1) Create i0 by (auto simp: ctl_def)
  then have l: "boot_inv p fr ft (goto i (if bp_num_cpus p > 1 then Enter_barrier else Running) s)" if "\<not> k < bp_num_cpus p"
    using last_create_inv [OF inv i] Create that by simp
  show ?thesis using st e Create create_inv [OF inv i Create] l by (auto simp: core_step_def stop_with_def split: if_splits)
next
  case (Wait_for k)
  note d = boot_invD [OF inv]
  have i0: "i = 0" using main_core [OF d(1) i] Wait_for by blast
  have w: "started_cpus s = int k" "s' = goto i (Create (k + 1)) s" using st Wait_for by (auto simp: core_step_def split: if_splits)
  have c: "ctl (bp_num_cpus p) ((bs_pc s)[i := Create (k + 1)]) (started_cpus s)" using ctl_main_created [OF d(1) _ w(1)] Wait_for i0 by simp
  show ?thesis unfolding w(2) by (rule boot_goto [OF inv i _ c]) (use Wait_for i0 in \<open>auto simp: quiet_move_def\<close>)
qed (use st rising_inv [OF inv drv N i st e] in \<open>auto simp: core_step_def\<close>)

end
