(* ===== verification/Startup_Properties.thy ===== *)
theory Startup_Properties
  imports Startup_Inv Sample
begin

text \<open>
  What start-up guarantees: which queues the cores get, when devices are started and requests handled, and that it comes to an end.
\<close>

text \<open>The drivers of the devices keep their contract, and the number of cores is that of the configuration, an \<open>int\<close>.\<close>

definition boot_env :: "('r, 't, 's) boot_params \<Rightarrow> ('r \<Rightarrow> bool) \<Rightarrow> ('t \<Rightarrow> bool) \<Rightarrow> bool" where
  "boot_env p fr ft \<longleftrightarrow> (\<forall>d. queue_driver (bp_ops p d) fr ft) \<and> 0 < bp_num_cpus p \<and> bp_num_cpus p < 2 ^ 31"

text \<open>The devices as \<open>init_ethdev\<close> leaves them, with room for a transmit queue of every core.\<close>

definition boot_ready :: "('r, 't, 's) boot_params \<Rightarrow> ('r \<Rightarrow> bool) \<Rightarrow> ('t \<Rightarrow> bool) \<Rightarrow> ('r, 't, 's) boot_state \<Rightarrow> bool" where
  "boot_ready p fr ft s \<longleftrightarrow> boot_env p fr ft \<and> (\<exists>devs drv mac. s = boot_start p devs drv mac \<and> length devs = bp_num_ethdev p \<and>
     (\<forall>d<length devs. dev_wf fr ft (devs ! d) \<and> ed_nb_rx_queues (devs ! d) = 0 \<and> ed_nb_tx_queues (devs ! d) = 0 \<and>
        bp_num_cpus p \<le> unat (ed_max_tx_queues (devs ! d))))"

lemma boot_ready_inv:
  assumes "boot_ready p fr ft s"
  shows "boot_inv p fr ft s"
proof -
  obtain devs drv mac where s: "s = boot_start p devs drv mac" "length devs = bp_num_ethdev p" "0 < bp_num_cpus p"
    and d: "\<And>d. d < length devs \<Longrightarrow> dev_wf fr ft (devs ! d) \<and> ed_nb_rx_queues (devs ! d) = 0 \<and> ed_nb_tx_queues (devs ! d) = 0 \<and> bp_num_cpus p \<le> unat (ed_max_tx_queues (devs ! d))"
    using assms by (auto simp: boot_ready_def boot_env_def)
  let ?pcs = "Percpu (percpu_fns (bp_kstats p)) 0 # replicate (bp_num_cpus p - 1) Not_created"
  have l: "length ?pcs = bp_num_cpus p" using s(3) by simp
  have pc: "?pcs ! i = (if i = 0 then Percpu (percpu_fns (bp_kstats p)) 0 else Not_created)" if "i < bp_num_cpus p" for i
    using that by (cases i) auto
  have nt: "\<not> has_tx a (?pcs ! i)" "\<not> tx_done (?pcs ! i)" "\<not> at_barrier (?pcs ! i)" if "i < bp_num_cpus p" for i a
    unfolding pc [OF that] by (auto simp: percpu_fns_eq)
  then have h: "how_many (has_tx a) ?pcs = 0" "how_many at_barrier ?pcs = 0" for a
    using how_many_first [of 0 ?pcs "has_tx a"] how_many_first [of 0 ?pcs at_barrier] l by auto
  have c: "ctl (bp_num_cpus p) ?pcs 0"
    unfolding ctl_def by (intro conjI exI [of _ 0] exI [of _ False]) (use s(3) l pc in \<open>auto simp: core_at_def\<close>)
  have tx: "tx_inv (bp_num_ethdev p) ?pcs devs (\<lambda>_ _. None) (\<lambda>_. 0)" using nt h d l s(2) by (auto simp: tx_inv_def)
  have "1 < bp_num_cpus p \<Longrightarrow> ?pcs ! 1 = Not_created" using pc [of 1] by simp
  then have rx: "rxq_inv (bp_num_ethdev p) ?pcs devs (\<lambda>_. None) []" "1 < bp_num_cpus p \<Longrightarrow> \<not> started_net (?pcs ! 1)"
    using d l s(2) by (auto simp: rxq_inv_def rx_got_def net_count_def)
  have "bar_inv ?pcs 0" using h(2) by (auto simp: bar_inv_def)
  then show ?thesis using c tx rx d s(1,2) pc unfolding boot_inv_def boot_start_def by (auto simp: dev_inv_def)
qed

interpretation boot: invariant_machine "boot_ready p fr ft" "boot_step p" "\<lambda>s. boot_env p fr ft \<and> (bs_end s = None \<longrightarrow> boot_inv p fr ft s)" for p fr ft
proof
  fix s
  assume "boot_ready p fr ft s"
  then show "boot_env p fr ft \<and> (bs_end s = None \<longrightarrow> boot_inv p fr ft s)" using boot_ready_inv [of p fr ft s] unfolding boot_ready_def by blast
next
  fix s t
  assume a: "boot_env p fr ft \<and> (bs_end s = None \<longrightarrow> boot_inv p fr ft s)" "boot_step p s t"
  then show "boot_env p fr ft \<and> (bs_end t = None \<longrightarrow> boot_inv p fr ft t)"
    using boot_inv_step [of p fr ft s _ t] by (auto simp: boot_env_def elim!: boot_step.cases)
qed

lemma reach_boot_inv: "reach (boot_ready p fr ft) (boot_step p) s \<Longrightarrow> bs_end s = None \<Longrightarrow> boot_inv p fr ft s"
  using boot.reach_inv by blast

section \<open>The state when devices are started\<close>

lemma all_have_tx:
  assumes inv: "boot_inv p fr ft s" and N: "1 < bp_num_cpus p" "started_net (bs_pc s ! 1)" and i: "i < bp_num_cpus p"
  shows "tx_done (bs_pc s ! i)" "has_tx d (bs_pc s ! i)"
proof -
  note d = boot_invD [OF inv]
  note up = ctl_all_up [OF d(1) N(1) d(5) [OF N]]
  have "\<not> coming_up (bs_pc s ! i) \<and> bs_pc s ! i \<noteq> Not_created"
  proof (cases "i = 0")
    case True
    then show ?thesis using up(2,3) by simp
  next
    case False
    then have "is_up i (bs_pc s ! i)" using up(1) i by simp
    then show ?thesis by (cases "bs_pc s ! i") auto
  qed
  then show "tx_done (bs_pc s ! i)" "has_tx d (bs_pc s ! i)" by (cases "bs_pc s ! i"; simp)+
qed

lemma queues_assigned:
  assumes inv: "boot_inv p fr ft s" and N: "1 < bp_num_cpus p" "started_net (bs_pc s ! 1)" and a: "a < bp_num_ethdev p"
  shows "unat (ed_nb_tx_queues (bs_devs s ! a)) = bp_num_cpus p" "unat (ed_nb_rx_queues (bs_devs s ! a)) = 1" "bs_rxqs s a = Some 0"
    and "\<And>i. i < bp_num_cpus p \<Longrightarrow> bs_txqs s i a = Some i \<and> bs_num_queues s i = int (bp_num_ethdev p)"
proof -
  note d = boot_invD [OF inv]
  note tx = all_have_tx [OF inv N]
  have "how_many (has_tx a) (bs_pc s) = bp_num_cpus p" by (rule how_many_first) (use d(3) tx in auto)
  then show "unat (ed_nb_tx_queues (bs_devs s ! a)) = bp_num_cpus p" using d(6) a by (simp add: tx_inv_def)
  have "has_rx a (bs_pc s ! 1)" using N(2) by (cases "bs_pc s ! 1") auto
  then show "unat (ed_nb_rx_queues (bs_devs s ! a)) = 1" "bs_rxqs s a = Some 0" using d(3,7) N(1) a by (auto simp: rxq_inv_def rx_got_def)
  show "bs_txqs s i a = Some i \<and> bs_num_queues s i = int (bp_num_ethdev p)" if "i < bp_num_cpus p" for i
    using tx [OF that] d(3,6) a that by (simp add: tx_inv_def)
qed

text \<open>
  C12: whatever the interleaving, when the networking core starts a device every core has its transmit queue on every device: core \<open>i\<close> has
  queue \<open>i\<close>, so no two cores share one; the device has exactly one transmit queue for each core and one receive queue, which is the one that
  the networking core polls; and its queues are as the driver set them up.
\<close>

theorem devices_started_last:
  assumes "reach (boot_ready p fr ft) (boot_step p) s" "bs_end s = None" "1 < bp_num_cpus p" "bs_pc s ! 1 = Net_start k" "a < bp_num_ethdev p"
  shows "unat (ed_nb_tx_queues (bs_devs s ! a)) = bp_num_cpus p \<and> unat (ed_nb_rx_queues (bs_devs s ! a)) = 1 \<and> bs_rxqs s a = Some 0 \<and>
    (\<forall>i<bp_num_cpus p. bs_txqs s i a = Some i \<and> bs_num_queues s i = int (bp_num_ethdev p)) \<and> (k \<le> a \<longrightarrow> dev_wf fr ft (bs_devs s ! a))"
proof -
  have inv: "boot_inv p fr ft s" using reach_boot_inv assms(1,2) .
  have n: "started_net (bs_pc s ! 1)" using assms(4) by simp
  note q = queues_assigned [OF inv assms(3) n assms(5)]
  have "bs_started s = [0..<k]" using boot_invD(3,7) [OF inv] assms(3,4) by (simp add: rxq_inv_def net_count_def)
  then have "k \<le> a \<Longrightarrow> dev_wf fr ft (bs_devs s ! a)" using boot_invD(2,8) [OF inv] assms(5) by (auto simp: dev_inv_def)
  then show ?thesis using q by blast
qed

text \<open>
  C14: no core begins its work, and the dispatcher does not begin to dispatch, before all devices are started and all cores have come to the
  barrier.
\<close>

theorem work_after_start:
  assumes "reach (boot_ready p fr ft) (boot_step p) s" "bs_end s = None" "1 < bp_num_cpus p" "i < bp_num_cpus p" "bs_pc s ! i = Running"
  shows "bs_started s = [0..<bp_num_ethdev p] \<and> started_cpus s = int (bp_num_cpus p) - 1 \<and>
    (\<forall>j<bp_num_cpus p. (bs_pc s ! j = In_barrier \<or> bs_pc s ! j = Running) \<and> bs_num_queues s j = int (bp_num_ethdev p))"
proof -
  have inv: "boot_inv p fr ft s" using reach_boot_inv assms(1,2) .
  note d = boot_invD [OF inv]
  have "Running \<in> set (bs_pc s)" using assms(4,5) d(3) by (metis nth_mem)
  then have "how_many at_barrier (bs_pc s) = length (bs_pc s)" using d(3,9) assms(3) by (simp add: bar_inv_def)
  then have at: "at_barrier (bs_pc s ! j)" if "j < bp_num_cpus p" for j using how_many_all that d(3) by metis
  then have bar: "bs_pc s ! j = In_barrier \<or> bs_pc s ! j = Running" if "j < bp_num_cpus p" for j using that by (cases "bs_pc s ! j") force+
  then have b1: "bs_pc s ! 1 = In_barrier \<or> bs_pc s ! 1 = Running" using assms(3) by simp
  then have n: "started_net (bs_pc s ! 1)" "net_done (bp_num_ethdev p) (bs_pc s ! 1) = bp_num_ethdev p" by auto
  have "bs_num_queues s j = int (bp_num_ethdev p)" if "j < bp_num_cpus p" for j
    using all_have_tx(1) [OF inv assms(3) n(1) that] d(3,6) that by (simp add: tx_inv_def)
  moreover have "bs_started s = [0..<bp_num_ethdev p]" using d(3,7) assms(3) n(2) by (simp add: rxq_inv_def net_count_def)
  ultimately show ?thesis using bar d(5) [OF assms(3) n(1)] by blast
qed

section \<open>Progress\<close>

lemma core_enabled:
  assumes "bs_pc s ! i \<noteq> Not_created" "bs_pc s ! i \<noteq> Running" "bs_pc s ! i = Wait_all \<Longrightarrow> started_cpus s = int (bp_num_cpus p) - 1"
    and "bs_pc s ! i = In_barrier \<Longrightarrow> bp_num_cpus p \<le> bs_arrived s" "\<And>k. bs_pc s ! i = Wait_for k \<Longrightarrow> started_cpus s = int k"
  shows "core_step p i s \<noteq> None"
  using assms by (cases "bs_pc s ! i") (auto simp: core_step_def split: list.splits)

text \<open>When no core can move, all are running.\<close>

lemma blocked_done:
  assumes inv: "boot_inv p fr ft s" and blk: "\<And>i. i < bp_num_cpus p \<Longrightarrow> core_step p i s = None" and i: "i < bp_num_cpus p"
  shows "bs_pc s ! i = Running"
proof -
  note d = boot_invD [OF inv]
  let ?N = "bp_num_cpus p"
  have N0: "0 < ?N" using i by simp
  obtain j w where j: "main_at ?N (bs_pc s ! 0) j w" "\<not> w \<longrightarrow> started_cpus s = (if j = 0 then 0 else int j - 1)"
    "\<And>k. 0 < k \<Longrightarrow> k < ?N \<Longrightarrow> core_at (bs_pc s) j w (started_cpus s) k" using d(1) by (auto simp: ctl_def)
  have rising: "\<not> coming_up (bs_pc s ! k)" if "k < ?N" for k
  proof
    assume "coming_up (bs_pc s ! k)"
    then show False using core_enabled [of s k p] blk [OF that] by (cases "bs_pc s ! k") auto
  qed
  have "\<not> w"
  proof
    assume w: "w"
    then have m: "bs_pc s ! 0 = Wait_for j" "1 \<le> j" "j < ?N" using j(1) by (cases "bs_pc s ! 0"; auto)+
    have "started_cpus s \<noteq> int j" using core_enabled [of s 0 p] blk [OF N0] m by auto
    then show False using j(3) [of j] m w rising [of j] by (auto simp: core_at_def)
  qed
  then have jN: "j = ?N" using j(1) core_enabled [of s 0 p] blk [OF N0] by (cases "bs_pc s ! 0") auto
  then have st: "started_cpus s = int ?N - 1" using j(2) \<open>\<not> w\<close> N0 by simp
  have at: "at_barrier (bs_pc s ! k)" if k: "k < ?N" for k
  proof -
    have "bs_pc s ! k \<noteq> Not_created" "\<And>n. bs_pc s ! k \<noteq> Wait_for n"
      using j(1) j(3) [of k] k jN \<open>\<not> w\<close> by (cases "k = 0"; auto simp: core_at_def)+
    then show ?thesis using core_enabled [of s k p] blk [OF k] st by (cases "bs_pc s ! k") auto
  qed
  show ?thesis
  proof (cases "1 < ?N")
    case True
    have "how_many at_barrier (bs_pc s) = ?N" by (rule how_many_first) (use d(3) at in auto)
    then have "bs_arrived s = ?N" using d(3,9) True by (simp add: bar_inv_def)
    then show ?thesis using at [OF i] core_enabled [of s i p] blk [OF i] by (cases "bs_pc s ! i") auto
  next
    case False
    then have "i = 0" "?N = 1" using i by simp_all
    then show ?thesis using j(1) at [OF i] by (cases "bs_pc s ! i") auto
  qed
qed

text \<open>How many steps a core has before it, at most, with \<open>D\<close> devices and \<open>N\<close> cores; at most six functions are called on a core.\<close>

fun pc_weight :: "nat \<Rightarrow> nat \<Rightarrow> boot_pc \<Rightarrow> nat" where
  "pc_weight D N Not_created = 23 + 9 * D + 2 * N"
| "pc_weight D N Cpu_init_one = 22 + 9 * D + 2 * N"
| "pc_weight D N (Percpu fs k) = 9 + 2 * D + 2 * N + length fs * (D + 2) + (D - k)"
| "pc_weight D N Set_nr = 8 + 2 * D + 2 * N"
| "pc_weight D N (Rx_queue k) = 7 + D + (D - k)"
| "pc_weight D N Inc_load = 6 + D"
| "pc_weight D N (Inc_store v) = 5 + D"
| "pc_weight D N Wait_all = 4 + D"
| "pc_weight D N (Net_start k) = 3 + (D - k)"
| "pc_weight D N (Create k) = 3 + 2 * (N - k)"
| "pc_weight D N (Wait_for k) = 2 + 2 * (N - k)"
| "pc_weight D N Enter_barrier = 2"
| "pc_weight D N In_barrier = 1"
| "pc_weight D N Running = 0"

definition boot_size :: "('r, 't, 's) boot_params \<Rightarrow> ('r, 't, 's) boot_state \<Rightarrow> nat" where
  "boot_size p s = sum_list (map (pc_weight (bp_num_ethdev p) (bp_num_cpus p)) (bs_pc s)) + (if bs_end s = None then 1 else 0)"

lemma sum_list_lower:
  fixes f :: "'a \<Rightarrow> nat"
  assumes "i < length xs" "f x < f (xs ! i)"
  shows "sum_list (map f (xs[i := x])) < sum_list (map f xs)"
  using assms
proof (induction xs arbitrary: i)
  case (Cons y ys)
  then show ?case by (cases i) auto
qed simp

lemma pass_pc:
  "bs_pc (tx_queue_pass p i d nxt s) = bs_pc s \<and> bs_end (tx_queue_pass p i d nxt s) \<noteq> None \<or> bs_pc (tx_queue_pass p i d nxt s) = (bs_pc s)[i := nxt]"
  "bs_pc (rx_queue_pass p i d nxt s) = bs_pc s \<and> bs_end (rx_queue_pass p i d nxt s) \<noteq> None \<or> bs_pc (rx_queue_pass p i d nxt s) = (bs_pc s)[i := nxt]"
  "bs_pc (net_start_pass p i d nxt s) = bs_pc s \<and> bs_end (net_start_pass p i d nxt s) \<noteq> None \<or> bs_pc (net_start_pass p i d nxt s) = (bs_pc s)[i := nxt]"
  by (auto simp: tx_queue_pass_def rx_queue_pass_def net_start_pass_def stop_with_def goto_def Let_def split: sum.splits prod.splits)

text \<open>A step ends the program, or takes the core to a place of lower weight, or creates the next core.\<close>

lemma core_step_effect:
  assumes st: "core_step p i s = Some s'" and D: "length (bs_devs s) = bp_num_ethdev p" and w: "\<And>k. bs_pc s ! i = Wait_for k \<Longrightarrow> k < bp_num_cpus p"
  obtains "bs_pc s' = bs_pc s" "bs_end s' \<noteq> None"
  | pc where "bs_pc s' = (bs_pc s)[i := pc]" "pc_weight (bp_num_ethdev p) (bp_num_cpus p) pc < pc_weight (bp_num_ethdev p) (bp_num_cpus p) (bs_pc s ! i)"
  | k where "bs_pc s ! i = Create k" "k < bp_num_cpus p" "bs_pc s' = (bs_pc s)[i := Wait_for k, k := Cpu_init_one]"
proof (cases "bs_pc s ! i")
  case Not_created
  then show ?thesis using st by (simp add: core_step_def)
next
  case Cpu_init_one
  have "length (percpu_fns (bp_kstats p)) \<le> 6" by (simp add: percpu_fns_eq)
  then have "length (percpu_fns (bp_kstats p)) * (bp_num_ethdev p + 2) \<le> 6 * (bp_num_ethdev p + 2)" by (rule mult_le_mono1)
  then show ?thesis using st Cpu_init_one that(1,2) by (auto simp: core_step_def stop_with_def goto_def split: if_splits)
next
  case (Percpu fs k)
  show ?thesis
  proof (cases fs)
    case Nil
    then show ?thesis using st Percpu that(2) [of Set_nr] by (auto simp: core_step_def goto_def)
  next
    case (Cons f gs)
    then show ?thesis using st Percpu D that(1) that(2) [of "Percpu gs 0"] that(2) [of "Percpu (f # gs) (k + 1)"] pass_pc(1) [of p i k "Percpu (f # gs) (k + 1)" s]
      by (auto simp: core_step_def stop_with_def goto_def split: if_splits)
  qed
next
  case (Rx_queue k)
  then show ?thesis using st D that(1) that(2) [of Inc_load] that(2) [of "Rx_queue (k + 1)"] pass_pc(2) [of p i k "Rx_queue (k + 1)" s]
    by (auto simp: core_step_def goto_def split: if_splits)
next
  case (Net_start k)
  then show ?thesis using st that(1) that(2) [of Enter_barrier] that(2) [of "Net_start (k + 1)"] pass_pc(3) [of p i k "Net_start (k + 1)" s]
    by (auto simp: core_step_def goto_def split: if_splits)
next
  case (Wait_for k)
  then show ?thesis using st that(2) [of "Create (k + 1)"] w [OF Wait_for] by (auto simp: core_step_def goto_def split: if_splits)
next
  case (Create k)
  then show ?thesis using st that(1) that(3) [OF Create] that(2) [of Enter_barrier] that(2) [of Running]
    by (auto simp: core_step_def stop_with_def goto_def split: if_splits)
qed (use st that(2) in \<open>auto simp: core_step_def goto_def split: if_splits\<close>)

lemma boot_size_step:
  assumes inv: "boot_inv p fr ft s" and st: "boot_step p s s'"
  shows "boot_size p s' < boot_size p s"
proof -
  obtain i where i: "i < bp_num_cpus p" "bs_end s = None" "core_step p i s = Some s'" using st by (auto elim: boot_step.cases)
  note d = boot_invD [OF inv]
  let ?f = "pc_weight (bp_num_ethdev p) (bp_num_cpus p)"
  have l: "i < length (bs_pc s)" using d(3) i by simp
  have w: "k < bp_num_cpus p" if "bs_pc s ! i = Wait_for k" for k
  proof -
    have "i = 0" using main_core [OF d(1) i(1)] that by blast
    then show ?thesis using d(1) that by (auto simp: ctl_def)
  qed
  show ?thesis
  proof (rule core_step_effect [OF i(3) d(2) w])
    fix k
    assume k: "bs_pc s ! i = Create k" "k < bp_num_cpus p" "bs_pc s' = (bs_pc s)[i := Wait_for k, k := Cpu_init_one]"
    have i0: "i = 0" using main_core [OF d(1) i(1)] k(1) by blast
    note c = ctl_main_create [OF d(1) k(1) [unfolded i0] k(2)]
    have "sum_list (map ?f ((bs_pc s)[i := Wait_for k])) < sum_list (map ?f (bs_pc s))" by (rule sum_list_lower [OF l]) (simp add: k(1))
    moreover have "sum_list (map ?f ((bs_pc s)[i := Wait_for k, k := Cpu_init_one])) < sum_list (map ?f ((bs_pc s)[i := Wait_for k]))"
      by (rule sum_list_lower) (use c(3,4) i0 k(2) d(3) in simp_all)
    ultimately show ?thesis using k(3) i(2) by (simp add: boot_size_def)
  next
    fix pc
    assume "bs_pc s' = (bs_pc s)[i := pc]" "?f pc < ?f (bs_pc s ! i)"
    then show ?thesis using sum_list_lower [OF l, of ?f pc] i(2) by (simp add: boot_size_def)
  next
    assume "bs_pc s' = bs_pc s" "bs_end s' \<noteq> None"
    then show ?thesis using i(2) by (simp add: boot_size_def)
  qed
qed

lemma boot_run_size:
  assumes "boot_ready p fr ft s0" "(boot_step p ^^ n) s0 s"
  shows "n + boot_size p s \<le> boot_size p s0 \<and> reach (boot_ready p fr ft) (boot_step p) s"
  using assms(2)
proof (induction n arbitrary: s)
  case 0
  then show ?case using assms(1) by (auto intro: reach.intros)
next
  case (Suc n)
  then obtain t where t: "(boot_step p ^^ n) s0 t" "boot_step p t s" by auto
  note h = Suc.IH [OF t(1)]
  have "bs_end t = None" using t(2) by (auto elim: boot_step.cases)
  then have "boot_size p s < boot_size p t" using boot_size_step [OF reach_boot_inv t(2)] h by blast
  moreover have "reach (boot_ready p fr ft) (boot_step p) s" using h t(2) by (blast intro: reach.intros)
  ultimately show ?case using h by linarith
qed

lemma boot_start_size:
  assumes "boot_ready p fr ft s0"
  shows "boot_size p s0 \<le> bp_num_cpus p * (23 + 9 * bp_num_ethdev p + 2 * bp_num_cpus p) + 1"
proof -
  obtain devs drv mac where s: "s0 = boot_start p devs drv mac" "0 < bp_num_cpus p" using assms by (auto simp: boot_ready_def boot_env_def)
  have "length (percpu_fns (bp_kstats p)) \<le> 6" by (simp add: percpu_fns_eq)
  then have "length (percpu_fns (bp_kstats p)) * (bp_num_ethdev p + 2) \<le> 6 * (bp_num_ethdev p + 2)" by (rule mult_le_mono1)
  then have "pc_weight (bp_num_ethdev p) (bp_num_cpus p) (Percpu (percpu_fns (bp_kstats p)) 0) \<le> 23 + 9 * bp_num_ethdev p + 2 * bp_num_cpus p" by simp
  moreover obtain m where "bp_num_cpus p = Suc m" using s(2) by (cases "bp_num_cpus p") auto
  ultimately show ?thesis by (simp add: s(1) boot_start_def boot_size_def sum_list_replicate)
qed

text \<open>
  C13: start-up comes to an end whatever the interleaving: the number of steps is bounded, the busy waits not counted, and when no core can move
  and nothing has failed, all cores have begun their work.  The waiting loops and the barrier cannot deadlock.
\<close>

theorem start_up_completes:
  assumes "boot_ready p fr ft s0" "(boot_step p ^^ n) s0 s"
  shows "n \<le> bp_num_cpus p * (23 + 9 * bp_num_ethdev p + 2 * bp_num_cpus p) + 1 \<and>
    ((\<forall>t. \<not> boot_step p s t) \<and> bs_end s = None \<longrightarrow> (\<forall>i<bp_num_cpus p. bs_pc s ! i = Running))"
proof -
  note r = boot_run_size [OF assms]
  have "bs_pc s ! i = Running" if stuck: "\<forall>t. \<not> boot_step p s t" "bs_end s = None" and i: "i < bp_num_cpus p" for i
  proof (rule blocked_done [OF reach_boot_inv [OF conjunct2 [OF r] stuck(2)] _ i])
    fix k
    assume "k < bp_num_cpus p"
    then show "core_step p k s = None" using stuck boot_step.intros [of k p s] by (cases "core_step p k s") auto
  qed
  then show ?thesis using r boot_start_size [OF assms(1)] by auto
qed

text \<open>
  With one core no device is ever started.  The driver for virtual functions accepts only one core, so a device with that driver either
  fails to initialise or is never started.
\<close>

theorem virtual_function_unused:
  assumes "drv_init cfg ''rte_ixgbevf_pmd'' = Some (Inr (ret, drv))" "int (bp_num_cpus p) = num_cpus cfg"
    and "reach (boot_ready p fr ft) (boot_step p) s" "bs_end s = None"
  shows "ret < 0 \<or> bs_started s = []"
proof (cases "num_cpus cfg > 1")
  case True
  then show ?thesis using assms(1) by (simp add: drv_init_def ixgbe_init_def)
next
  case False
  have inv: "boot_inv p fr ft s" using reach_boot_inv assms(3,4) .
  have "\<not> 1 < length (bs_pc s)" using False assms(2) boot_invD(3) [OF inv] by simp
  then show ?thesis using boot_invD(7) [OF inv] by (simp add: rxq_inv_def net_count_def)
qed

section \<open>A run\<close>

text \<open>Running the cores in a given order.\<close>

primrec boot_run :: "('r, 't, 's) boot_params \<Rightarrow> nat list \<Rightarrow> ('r, 't, 's) boot_state \<Rightarrow> ('r, 't, 's) boot_state option" where
  "boot_run p [] s = Some s"
| "boot_run p (i # is') s =
     (if i < bp_num_cpus p \<and> bs_end s = None then case core_step p i s of None \<Rightarrow> None | Some t \<Rightarrow> boot_run p is' t else None)"

lemma boot_run_steps: "boot_run p sched s = Some t \<Longrightarrow> (boot_step p ^^ length sched) s t"
proof (induction sched arbitrary: s)
  case (Cons i sched)
  then obtain u where "i < bp_num_cpus p" "bs_end s = None" "core_step p i s = Some u" "boot_run p sched u = Some t"
    by (auto split: if_splits option.splits)
  then have "boot_step p s u" "(boot_step p ^^ length sched) u t" using Cons.IH boot_step.intros by blast+
  then show ?case unfolding length_Cons by (rule relpowp_Suc_I2)
qed simp

text \<open>Two cores and one device, whose driver sets up every queue.\<close>

definition sample_ops :: "(unit, unit, unit) dev_ops" where
  "sample_ops = \<lparr>op_rx_queue_setup = (\<lambda>_ _ _ s. (0, Some (), s)), op_tx_queue_setup = (\<lambda>_ _ _ s. (0, Some (), s)),
     op_dev_start = (\<lambda>rxqs txqs s. Inr (0, rxqs, txqs, s))\<rparr>"

definition sample_boot :: "nat \<Rightarrow> (unit, unit, unit) boot_params" where
  "sample_boot n = \<lparr>bp_kstats = False, bp_num_cpus = n, bp_num_ethdev = 1, bp_ops = (\<lambda>_. sample_ops), bp_link = (\<lambda>_ _. (10000, True, True)),
     bp_cpu_init_one = (\<lambda>_. 0), bp_fcpu = (\<lambda>_ _. 0), bp_create = (\<lambda>_. 0)\<rparr>"

definition sample_device :: "(unit, unit) eth_dev" where
  "sample_device = \<lparr>ed_port = 0, ed_rx_queues = [None], ed_tx_queues = [None, None], ed_rx_fgs = [], ed_nb_rx_queues = 0, ed_nb_tx_queues = 0,
     ed_max_rx_queues = 1, ed_max_tx_queues = 2, ed_nb_rx_fgs = 128, ed_conf = default_conf 0, ed_mac_addrs = [2, 0, 0, 0, 0, 1],
     ed_link = (0, False, False), ed_blocks = {Rx_queues, Tx_queues, Rx_fgs}\<rparr>"

definition sample_boot_start :: "nat \<Rightarrow> (unit, unit, unit) boot_state" where
  "sample_boot_start n = boot_start (sample_boot n) [sample_device] () \<lparr>ms_first = True, ms_cfg_mac = [], ms_added = []\<rparr>"

lemma sample_boot_ready:
  assumes "0 < n" "n \<le> 2"
  shows "boot_ready (sample_boot n) (\<lambda>_. True) (\<lambda>_. True) (sample_boot_start n)"
proof -
  have "queue_driver sample_ops (\<lambda>_. True) (\<lambda>_. True)" by unfold_locales (auto simp: sample_ops_def)
  then show ?thesis using assms
    by (auto simp: boot_ready_def boot_env_def sample_boot_def sample_boot_start_def sample_device_def dev_wf_def ETH_MAX_NUM_FG_def)
qed

text \<open>The order in which the cores move: core 0 until it waits, core 1 until it starts the device, and then both to the end.\<close>

definition sample_order :: "nat list" where
  "sample_order = [0, 0, 0, 0, 0, 0, 0, 0, 0, 1, 1, 1, 1, 1, 1, 1, 1, 1, 1, 1, 1, 1, 1]"

definition rest_order :: "nat list" where
  "rest_order = [1, 1, 1, 0, 0, 0, 0, 1]"

lemmas sample_boot_defs = sample_order_def rest_order_def sample_boot_start_def sample_boot_def sample_ops_def sample_device_def boot_start_def
  core_step_def goto_def tx_queue_pass_def rx_queue_pass_def net_start_pass_def percpu_fns_eq eth_dev_get_tx_queue_def eth_dev_get_rx_queue_def
  store_tx_def store_rx_def eth_dev_start_def queues_in_use_def generic_link_update_def eth_dev_setup_mac_def ETH_MAX_NUM_FG_def
  bitmap_init_def BITMAP_LONG_SIZE_def BITS_PER_LONG_def

lemma sample_boot_run:
  "\<exists>s. boot_run (sample_boot 2) sample_order (sample_boot_start 2) = Some s \<and> bs_end s = None \<and> bs_pc s ! 1 = Net_start 0"
  by (simp add: sample_boot_defs)

lemma sample_full_run:
  "\<exists>s. boot_run (sample_boot 2) (sample_order @ rest_order) (sample_boot_start 2) = Some s \<and> bs_end s = None \<and> bs_pc s = [Running, Running]"
  by (simp add: sample_boot_defs)

lemma sample_reach:
  assumes "boot_run (sample_boot 2) sched (sample_boot_start 2) = Some s"
  shows "reach (boot_ready (sample_boot 2) (\<lambda>_. True) (\<lambda>_. True)) (boot_step (sample_boot 2)) s"
  using boot_run_size [OF sample_boot_ready boot_run_steps [OF assms]] by simp

theorem devices_started_last_witness:
  "\<exists>s. boot_run (sample_boot 2) sample_order (sample_boot_start 2) = Some s \<and> bs_pc s ! 1 = Net_start 0 \<and>
     unat (ed_nb_tx_queues (bs_devs s ! 0)) = 2 \<and> unat (ed_nb_rx_queues (bs_devs s ! 0)) = 1 \<and> bs_txqs s 0 0 = Some 0 \<and> bs_txqs s 1 0 = Some 1"
proof -
  obtain s where s: "boot_run (sample_boot 2) sample_order (sample_boot_start 2) = Some s" "bs_end s = None" "bs_pc s ! 1 = Net_start 0"
    using sample_boot_run by blast
  have "1 < bp_num_cpus (sample_boot 2)" "0 < bp_num_ethdev (sample_boot 2)" by (simp_all add: sample_boot_def)
  from devices_started_last [OF sample_reach [OF s(1)] s(2) this(1) s(3) this(2)] show ?thesis using s by (auto simp: sample_boot_def)
qed

theorem work_after_start_witness:
  "\<exists>s. boot_run (sample_boot 2) (sample_order @ rest_order) (sample_boot_start 2) = Some s \<and> bs_pc s ! 0 = Running \<and> bs_started s = [0] \<and>
     bs_num_queues s 0 = 1 \<and> bs_num_queues s 1 = 1"
proof -
  obtain s where s: "boot_run (sample_boot 2) (sample_order @ rest_order) (sample_boot_start 2) = Some s" "bs_end s = None" "bs_pc s = [Running, Running]"
    using sample_full_run by blast
  have "1 < bp_num_cpus (sample_boot 2)" "0 < bp_num_cpus (sample_boot 2)" "bs_pc s ! 0 = Running" using s(3) by (simp_all add: sample_boot_def)
  from work_after_start [OF sample_reach [OF s(1)] s(2) this] show ?thesis using s by (auto simp: sample_boot_def)
qed

theorem start_up_completes_witness:
  "\<exists>s. (boot_step (sample_boot 2) ^^ 31) (sample_boot_start 2) s \<and> bs_pc s ! 0 = Running \<and> bs_pc s ! 1 = Running"
proof -
  obtain s where s: "boot_run (sample_boot 2) (sample_order @ rest_order) (sample_boot_start 2) = Some s" "bs_end s = None" "bs_pc s = [Running, Running]"
    using sample_full_run by blast
  have n: "length (sample_order @ rest_order) = 31" by (simp add: sample_order_def rest_order_def)
  have r: "(boot_step (sample_boot 2) ^^ 31) (sample_boot_start 2) s" using boot_run_steps [OF s(1)] unfolding n .
  have "core_step (sample_boot 2) i s = None" if "i < 2" for i using that s(3) by (cases "i = 0") (auto simp: core_step_def less_2_cases_iff)
  then have "\<forall>t. \<not> boot_step (sample_boot 2) s t" by (auto elim!: boot_step.cases simp: sample_boot_def)
  moreover have "bp_num_cpus (sample_boot 2) = 2" by (simp add: sample_boot_def)
  ultimately show ?thesis using start_up_completes [OF sample_boot_ready r] s(2) r by auto
qed

theorem virtual_function_unused_witness:
  "(0 :: int) < 0 \<or> bs_started (sample_boot_start 1) = []"
proof (rule virtual_function_unused)
  let ?cfg = "sample_cfg\<lparr>num_cpus := 1\<rparr>"
  show "drv_init ?cfg ''rte_ixgbevf_pmd'' = Some (Inr (0, Ixgbe_driver Ixgbe_vf_ops))" by (simp add: drv_init_def ixgbe_init_def)
  show "int (bp_num_cpus (sample_boot 1)) = num_cpus ?cfg" by (simp add: sample_boot_def)
  show "reach (boot_ready (sample_boot 1) (\<lambda>_. True) (\<lambda>_. True)) (boot_step (sample_boot 1)) (sample_boot_start 1)"
    using sample_boot_ready [of 1] by (simp add: reach.intros)
qed (simp add: sample_boot_start_def boot_start_def)

end
