(* ===== verification/Startup_Devices.thy ===== *)
theory Startup_Devices
  imports Startup_Properties
begin

text \<open>
  From the configuration to devices that are ready: what \<open>init_ethdev\<close> leaves is what the start-up protocol begins with.
\<close>

section \<open>Registration\<close>

text \<open>
  A device right after its registration: the limits are those that DPDK reports, the one on receive queues cut to the number of queues an
  entry of the redirection table can name; the arrays have that size, no queue is set up, and there is a flow group per entry of the table.
\<close>

definition fresh_device :: "dpdk \<Rightarrow> ('r, 't) eth_dev \<Rightarrow> bool" where
  "fresh_device d dev \<longleftrightarrow> ed_nb_rx_queues dev = 0 \<and> ed_nb_tx_queues dev = 0 \<and>
     ed_max_rx_queues dev = min (di_max_rx_queues (dp_info d)) ETH_RSS_RETA_MAX_QUEUE \<and> ed_max_tx_queues dev = di_max_tx_queues (dp_info d) \<and>
     length (ed_rx_queues dev) = unat (ed_max_rx_queues dev) \<and> length (ed_tx_queues dev) = unat (ed_max_tx_queues dev) \<and>
     ed_nb_rx_fgs dev = di_reta_size (dp_info d) \<and> length (ed_rx_fgs dev) = unat (di_reta_size (dp_info d))"

text \<open>The first \<open>k\<close> devices are registered.\<close>

definition registered :: "('r \<Rightarrow> bool) \<Rightarrow> ('t \<Rightarrow> bool) \<Rightarrow> (nat \<Rightarrow> probe_env) \<Rightarrow> nat \<Rightarrow> ('r, 't) eth_devs \<Rightarrow> bool" where
  "registered fr ft pe k g \<longleftrightarrow> eth_dev_count g = int k \<and> length (eth_devices g) = NETHDEV \<and>
     (\<forall>i<k. \<exists>dev. eth_devices g ! i = Some dev \<and> dev_wf fr ft dev \<and> fresh_device (pe_dpdk (pe i)) dev)"

lemma init_one_registers:
  assumes r: "init_one_ethdev cfg os (pe k) a s = Inr (0, s')" and reg: "registered fr ft pe k (ps_devs s)" and k: "k < NETHDEV"
    and fg: "unat (di_reta_size (dp_info (pe_dpdk (pe k)))) \<le> ETH_MAX_NUM_FG"
  shows "registered fr ft pe (Suc k) (ps_devs s')"
proof -
  let ?info = "generic_dev_infos_get (pe_dpdk (pe k))"
  obtain eth dev' where add: "eth_dev_add (pe_add_mem (pe k)) (pe_garbage (pe k)) ?info eth (ps_devs s) = Inr (0, dev', ps_devs s')"
    using r by (auto simp: init_one_ethdev_def bindE_eq_Inr ENOMEM_def Let_def split: option.splits prod.splits if_splits)
  have wf: "dev_wf fr ft dev' \<and> fresh_device (pe_dpdk (pe k)) dev'"
    using eth_dev_add_wf [OF add, of fr ft] fg by (simp add: generic_dev_infos_get_def fresh_device_def dev_wf_def)
  have g: "ps_devs s' = (ps_devs s)\<lparr>eth_dev_count := s32 (int k + 1), eth_devices := (eth_devices (ps_devs s))[k := Some dev']\<rparr>"
    using add reg by (auto simp: eth_dev_add_def registered_def ENOMEM_def Let_def split: prod.splits if_splits)
  have "s32 (int k + 1) = int (Suc k)" using k by (simp add: NETHDEV_def)
  then show ?thesis using reg wf k unfolding registered_def g by (auto simp: nth_list_update less_Suc_eq)
qed

lemma init_loop_registers:
  assumes "init_ethdev_loop cfg os (map (\<lambda>i. (f i, pe i)) [k..<n]) s = Inr (0, s')" "registered fr ft pe k (ps_devs s)" "k \<le> n" "n \<le> NETHDEV"
    and fg: "\<And>i. unat (di_reta_size (dp_info (pe_dpdk (pe i)))) \<le> ETH_MAX_NUM_FG"
  shows "registered fr ft pe n (ps_devs s')"
  using assms(1-4)
proof (induction "n - k" arbitrary: k s)
  case (Suc m)
  then have kn: "k < n" by simp
  then have u: "[k..<n] = k # [Suc k..<n]" by (rule upt_conv_Cons)
  obtain s1 where s1: "init_one_ethdev cfg os (pe k) (f k) s = Inr (0, s1)" "init_ethdev_loop cfg os (map (\<lambda>i. (f i, pe i)) [Suc k..<n]) s1 = Inr (0, s')"
    using Suc.prems(1) unfolding u by (auto simp: bindE_eq_Inr split: prod.splits if_splits)
  have "registered fr ft pe (Suc k) (ps_devs s1)" using init_one_registers [OF s1(1) Suc.prems(2) _ fg] kn Suc.prems(4) by simp
  then show ?case using Suc.hyps(1) [of "Suc k" s1] Suc.hyps(2) s1(2) kn Suc.prems(4) by simp
qed simp

lemma boot_readyI:
  assumes "boot_env p fr ft" "length devs = bp_num_ethdev p"
    and "\<And>d. d < bp_num_ethdev p \<Longrightarrow> dev_wf fr ft (devs ! d) \<and> ed_nb_rx_queues (devs ! d) = 0 \<and> ed_nb_tx_queues (devs ! d) = 0 \<and>
      bp_num_cpus p \<le> unat (ed_max_tx_queues (devs ! d))"
  shows "boot_ready p fr ft (boot_start p devs drv mac)"
  unfolding boot_ready_def using assms by (intro conjI exI [of _ devs] exI [of _ drv] exI [of _ mac]) auto

text \<open>
  C31: when \<open>init_ethdev\<close> returns 0, the table holds exactly the devices of the configuration, in its order, and each has the limits that DPDK
  reports for it: the number of transmit queues and of flow groups as reported, the number of receive queues cut to
  \<open>ETH_RSS_RETA_MAX_QUEUE\<close>, arrays of those sizes, and no queue set up.  If there are as many transmit queues as cores, the start-up
  protocol can begin there.
\<close>

theorem devices_registered:
  assumes "init_ethdev cfg os pe s = Inr (0, s')" "eth_dev_count (ps_devs s) = 0" "length (eth_devices (ps_devs s)) = NETHDEV"
    and "num_ethdev cfg = int (bp_num_ethdev p)" "bp_num_ethdev p \<le> CFG_MAX_ETHDEV" "\<And>i. unat (di_reta_size (dp_info (pe_dpdk (pe i)))) \<le> ETH_MAX_NUM_FG"
    and "boot_env p fr ft" "\<And>i. bp_num_cpus p \<le> unat (di_max_tx_queues (dp_info (pe_dpdk (pe i))))"
  shows "eth_dev_count (ps_devs s') = num_ethdev cfg \<and>
    (\<forall>i<bp_num_ethdev p. \<exists>dev. eth_devices (ps_devs s') ! i = Some dev \<and> ed_nb_rx_queues dev = 0 \<and> ed_nb_tx_queues dev = 0 \<and>
       ed_max_rx_queues dev = min (di_max_rx_queues (dp_info (pe_dpdk (pe i)))) ETH_RSS_RETA_MAX_QUEUE \<and>
       ed_max_tx_queues dev = di_max_tx_queues (dp_info (pe_dpdk (pe i))) \<and>
       length (ed_rx_queues dev) = unat (ed_max_rx_queues dev) \<and> length (ed_tx_queues dev) = unat (ed_max_tx_queues dev) \<and>
       ed_nb_rx_fgs dev = di_reta_size (dp_info (pe_dpdk (pe i))) \<and> length (ed_rx_fgs dev) = unat (di_reta_size (dp_info (pe_dpdk (pe i))))) \<and>
    boot_ready p fr ft (boot_start p (map the (take (bp_num_ethdev p) (eth_devices (ps_devs s')))) drv mac)"
proof -
  let ?n = "bp_num_ethdev p"
  have n: "?n \<le> NETHDEV" using assms(5) by (simp add: CFG_MAX_ETHDEV_def NETHDEV_def)
  have "registered fr ft pe 0 (ps_devs s)" using assms(2,3) by (simp add: registered_def)
  from init_loop_registers [OF _ this _ n assms(6)] assms(1,4) have r: "registered fr ft pe ?n (ps_devs s')" by (simp add: init_ethdev_def)
  have l: "length (map the (take ?n (eth_devices (ps_devs s')))) = ?n" using r n by (simp add: registered_def)
  have "boot_ready p fr ft (boot_start p (map the (take ?n (eth_devices (ps_devs s')))) drv mac)"
  proof (rule boot_readyI [OF assms(7) l])
    fix d
    assume d: "d < ?n"
    obtain dev where "eth_devices (ps_devs s') ! d = Some dev" "dev_wf fr ft dev" "ed_nb_rx_queues dev = 0" "ed_nb_tx_queues dev = 0"
      "ed_max_tx_queues dev = di_max_tx_queues (dp_info (pe_dpdk (pe d)))" using r d by (auto simp: registered_def fresh_device_def)
    moreover have "map the (take ?n (eth_devices (ps_devs s'))) ! d = the (eth_devices (ps_devs s') ! d)" using d r n by (simp add: registered_def)
    ultimately show "dev_wf fr ft (map the (take ?n (eth_devices (ps_devs s'))) ! d) \<and> ed_nb_rx_queues (map the (take ?n (eth_devices (ps_devs s'))) ! d) = 0 \<and>
      ed_nb_tx_queues (map the (take ?n (eth_devices (ps_devs s'))) ! d) = 0 \<and> bp_num_cpus p \<le> unat (ed_max_tx_queues (map the (take ?n (eth_devices (ps_devs s'))) ! d))"
      using assms(8) [of d] by simp
  qed
  moreover have "\<exists>dev. eth_devices (ps_devs s') ! i = Some dev \<and> fresh_device (pe_dpdk (pe i)) dev" if "i < ?n" for i
    using r that by (auto simp: registered_def)
  ultimately show ?thesis using r assms(4) by (simp add: registered_def fresh_device_def)
qed

text \<open>A machine with the port of \<open>sample_sysfs\<close>, which is already enabled, and its driver.\<close>

definition sample_fs :: sysfs where
  "sample_fs = sample_sysfs\<lparr>fs_read := (fs_read sample_sysfs)(pci_dir sample_port @ ''/enable'' \<mapsto> dec_line 1)\<rparr>"

definition sample_pci_os :: pci_os where
  "sample_pci_os = \<lparr>po_open = (\<lambda>_. 3), po_mmap = (\<lambda>_ _. 0x7f0000000000), po_vm_map = (\<lambda>_ _. 0), po_ioctl = (\<lambda>_. 0)\<rparr>"

definition sample_id :: pci_id where
  "sample_id = \<lparr>id_vendor = 0x8086, id_device = 0x10fb, id_subsystem_vendor = 0x8086, id_subsystem_device = 3\<rparr>"

definition sample_dpdk :: dpdk where
  "sample_dpdk =
     \<lparr>dp_consts = \<lparr>ETH_MQ_RX_RSS = 1, ETH_MQ_TX_NONE = 0, ETH_RSS_NONFRAG_IPV4_TCP = 0x10, ETH_RSS_NONFRAG_IPV4_UDP = 0x20, RTE_FDIR_MODE_PERFECT = 2,
        RTE_FDIR_PBALLOC_256K = 2, RTE_FDIR_REPORT_STATUS = 1, RTE_ETH_FLOW_NONFRAG_IPV4_TCP = 4, PCI_ANY_ID = 0xffff\<rparr>,
      dp_devices = [(sample_port, sample_id)],
      dp_drivers = [\<lparr>drv_name = ''rte_ixgbe_pmd'', drv_ids = [sample_id, sample_id\<lparr>id_vendor := 0\<rparr>], drv_devinit = 0\<rparr>],
      dp_pipe = True, dp_port = 0, dp_info = \<lparr>di_max_rx_queues = 128, di_max_tx_queues = 128, di_reta_size = 128\<rparr>,
      dp_configure = (\<lambda>_ _ _. 0), dp_mac = [2, 0, 0, 0, 0, 1]\<rparr>"

definition sample_probe :: probe_env where
  "sample_probe = \<lparr>pe_dpdk = sample_dpdk, pe_pci_mem = True, pe_alloc_mem = (True, True, True), pe_add_mem = (True, True, True),
     pe_garbage = \<lparr>fg_perfg = 0, fg_idx = 0, fg_cur_cpu = 0, fg_prev_cpu = 0, fg_target_cpu = 0, fg_in_transition = False, fg_lock = False\<rparr>,
     pe_pad = 64, pe_write = 1\<rparr>"

definition sample_probe_start :: "(unit, unit) probe_state" where
  "sample_probe_start = \<lparr>ps_fs = sample_fs, ps_pcidma_fd = 0, ps_maps = [], ps_devs = \<lparr>eth_dev_count = 0, eth_devices = replicate NETHDEV None\<rparr>, ps_drivers = [], ps_lost = {}\<rparr>"

definition one_port :: cfg_parameters where
  "one_port = sample_cfg\<lparr>num_ethdev := 1, cfg_ethdev := [sample_port]\<rparr>"

lemma sample_alloc:
  "pci_alloc_dev sample_fs True sample_port = Some \<lparr>pd_addr = sample_port, pd_vendor_id = 0x8086, pd_device_id = 0x10fb, pd_subsystem_vendor_id = 0x8086,
    pd_subsystem_device_id = 3, pd_bars = map bar_of sample_bars, pd_numa_node = - 1, pd_max_vfs = 0\<rparr>"
proof (rule pci_read)
  show "shows_device sample_fs sample_port (0x8086, 0x10fb, 0x8086, 3) (- 1) sample_bars" by (simp add: shows_device_def sample_fs_def sample_sysfs_def)
qed (simp_all add: sample_bars_def PCI_MAX_BARS_def)

lemma sample_enable: "pd_addr dev = sample_port \<Longrightarrow> pci_enable_device w dev sample_fs = (0, sample_fs)"
  using parse_dec_line [of sample_fs "pci_dir sample_port @ ''/enable''" 1] pci_path [of "''/enable''" sample_port]
  by (simp add: pci_enable_device_def sample_fs_def)

lemma sample_bar0: "bar_of (sample_bars ! 0) = \<lparr>bar_start = 0xf0000000, bar_len = 0x80000, bar_flags = 0x200\<rparr>"
  by (simp add: sample_bars_def bar_of_def)

lemma sample_map:
  assumes "pd_bars dev = map bar_of sample_bars"
  shows "\<exists>va maps'. pci_map_mem_bar sample_pci_os dev 0 False maps = Inr (va, maps')"
  using assms sample_bar0
  by (simp add: pci_map_mem_bar_def sample_pci_os_def sample_bars_def PCI_BAR_READONLY_def pci_bar_to_idx_def PCI_MAX_BARS_def Let_def)

lemma sample_registers: "\<exists>s. init_ethdev one_port sample_pci_os (\<lambda>_. sample_probe) sample_probe_start = Inr (0, s)"
proof -
  let ?dev = "\<lparr>pd_addr = sample_port, pd_vendor_id = 0x8086, pd_device_id = 0x10fb, pd_subsystem_vendor_id = 0x8086,
    pd_subsystem_device_id = 3, pd_bars = map bar_of sample_bars, pd_numa_node = - 1, pd_max_vfs = 0\<rparr>"
  obtain va maps where m: "pci_map_mem_bar sample_pci_os ?dev 0 False [] = Inr (va, maps)" using sample_map [of ?dev "[]"] by auto
  have d: "dpdk_devinit sample_dpdk sample_pci_os ?dev [] = Inr (0, Some \<lparr>drv_name = ''rte_ixgbe_pmd'', drv_ids = [sample_id, sample_id\<lparr>id_vendor := 0\<rparr>], drv_devinit = 0\<rparr>, va, maps)"
    using m by (simp add: dpdk_devinit_def sample_dpdk_def rte_eal_pci_probe_one_driver_def id_matches_def sample_id_def)
  have dr: "drv_init one_port ''rte_ixgbe_pmd'' = Some (Inr (0, Ixgbe_driver Ixgbe_pf_ops))" "dp_configure sample_dpdk x y c = 0" for x y c
    by (simp_all add: drv_init_def ixgbe_init_def sample_dpdk_def)
  have "\<exists>dev :: (unit, unit) eth_dev. driver_init sample_dpdk one_port sample_pci_os (True, True, True) 64 ?dev [] = Inr (0, Some (Ixgbe_driver Ixgbe_pf_ops, dev), maps)"
    by (simp add: driver_init_def d eth_dev_alloc_def default_conf_translates dr Let_def)
  then obtain dev :: "(unit, unit) eth_dev" where i: "driver_init sample_dpdk one_port sample_pci_os (True, True, True) 64 ?dev [] = Inr (0, Some (Ixgbe_driver Ixgbe_pf_ops, dev), maps)" by blast
  have "\<exists>fd. pci_set_master sample_pci_os ?dev 0 = (0, fd)" by (simp add: pci_set_master_def sample_pci_os_def)
  then obtain fd where b: "pci_set_master sample_pci_os ?dev 0 = (0, fd)" by blast
  have "\<exists>eth devs. eth_dev_add (True, True, True) g info dev \<lparr>eth_dev_count = 0, eth_devices = replicate NETHDEV None\<rparr> = Inr (0, eth, devs)" for g info
    by (simp add: eth_dev_add_def NETHDEV_def CFG_MAX_ETHDEV_def Let_def)
  then obtain eth devs where e: "eth_dev_add (True, True, True) (pe_garbage sample_probe) (generic_dev_infos_get sample_dpdk) dev
      \<lparr>eth_dev_count = 0, eth_devices = replicate NETHDEV None\<rparr> = Inr (0, eth, devs)" by blast
  have "\<exists>x. init_one_ethdev one_port sample_pci_os sample_probe sample_port sample_probe_start = Inr (0, x)"
    using i b e by (simp add: init_one_ethdev_def sample_probe_def sample_probe_start_def sample_alloc sample_enable Let_def)
  then show ?thesis by (auto simp: init_ethdev_def one_port_def)
qed

theorem devices_registered_witness:
  "\<exists>s. init_ethdev one_port sample_pci_os (\<lambda>_. sample_probe) sample_probe_start = Inr (0, s) \<and> eth_dev_count (ps_devs s) = 1 \<and>
     map_option ed_max_rx_queues (eth_devices (ps_devs s) ! 0) = Some 16 \<and> map_option ed_max_tx_queues (eth_devices (ps_devs s) ! 0) = Some 128 \<and>
     boot_ready (sample_boot 2) (\<lambda>_. True) (\<lambda>_. True)
       (boot_start (sample_boot 2) (map the (take 1 (eth_devices (ps_devs s)))) () \<lparr>ms_first = True, ms_cfg_mac = [], ms_added = []\<rparr>)"
proof -
  obtain s where s: "init_ethdev one_port sample_pci_os (\<lambda>_. sample_probe) sample_probe_start = Inr (0, s)" using sample_registers by blast
  have "boot_env (sample_boot 2) (\<lambda>_. True) (\<lambda>_. True)" using sample_boot_ready [of 2] by (simp add: boot_ready_def)
  moreover have "bp_num_ethdev (sample_boot 2) = 1" "bp_num_cpus (sample_boot 2) = 2" by (simp_all add: sample_boot_def)
  moreover have "eth_dev_count (ps_devs sample_probe_start) = 0" "length (eth_devices (ps_devs sample_probe_start)) = NETHDEV" "num_ethdev one_port = 1"
    "dp_info (pe_dpdk sample_probe) = \<lparr>di_max_rx_queues = 128, di_max_tx_queues = 128, di_reta_size = 128\<rparr>"
    by (simp_all add: sample_probe_start_def one_port_def sample_probe_def sample_dpdk_def)
  ultimately show ?thesis
    using devices_registered [OF s, of "sample_boot 2" "\<lambda>_. True" "\<lambda>_. True"] s
    by (auto simp: CFG_MAX_ETHDEV_def ETH_MAX_NUM_FG_def ETH_RSS_RETA_MAX_QUEUE_def)
qed

section \<open>More cores than queues\<close>

text \<open>
  C40: the limit on transmit queues is off by one.  When all queues of a device are taken, the next call sets up one more and the driver stores it
  behind the end of the array; for receive queues the same call returns \<open>-EMFILE\<close>.
\<close>

theorem tx_queue_overrun:
  assumes "ed_nb_tx_queues dev = ed_max_tx_queues dev" "length (ed_tx_queues dev) = unat (ed_max_tx_queues dev)"
    and "op_tx_queue_setup ops (int (unat (ed_max_tx_queues dev))) (- 1) ETH_DEV_TX_QUEUE_SZ s = (0, Some t, s')"
    and "ed_nb_rx_queues dev = ed_max_rx_queues dev"
  shows "eth_dev_get_tx_queue ops dev s = Inl Out_of_bounds \<and> eth_dev_get_rx_queue ops dev s = Inr (- EMFILE, None, dev, s)"
  using assms by (simp add: eth_dev_get_tx_queue_def eth_dev_get_rx_queue_def store_tx_def)

theorem tx_queue_overrun_witness:
  "eth_dev_get_tx_queue sample_ops (sample_device\<lparr>ed_nb_tx_queues := 2, ed_nb_rx_queues := 1\<rparr>) () = Inl Out_of_bounds \<and>
   eth_dev_get_rx_queue sample_ops (sample_device\<lparr>ed_nb_tx_queues := 2, ed_nb_rx_queues := 1\<rparr>) () =
     Inr (- EMFILE, None, sample_device\<lparr>ed_nb_tx_queues := 2, ed_nb_rx_queues := 1\<rparr>, ())"
  by (rule tx_queue_overrun) (simp_all add: sample_device_def sample_ops_def)

end
