(* ===== verification/Clock.thy ===== *)
theory Clock
  imports Timer Ieee
begin

text \<open>
  The calibration of the time stamp counter and the busy wait (\<open>dp/core/timer.c\<close>).  The arithmetic is that of the source: \<open>double\<close> for the
  duration and the quotient, 64-bit integers in between.
\<close>

section \<open>Operations\<close>

text \<open>A conversion from \<open>double\<close> to \<open>uint64_t\<close> is defined only if the truncated value fits.\<close>

definition double_to_u64 :: "rat \<Rightarrow> u64 res" where
  "double_to_u64 x = (if x \<le> - 1 \<or> x \<ge> 2 ^ 64 then Inl Bad_conversion else Inr (if x < 0 then 0 else of_int \<lfloor>x\<rfloor>))"

text \<open>
  What the system answers: the result of \<open>clock_gettime\<close>, the two times in seconds and nanoseconds, and the two readings of the counter.  The
  result of the second \<open>clock_gettime\<close> is not looked at.
\<close>

record clock_run =
  ck_ret :: int
  ck_start :: "int \<times> int"
  ck_end :: "int \<times> int"
  ck_tsc_start :: u64
  ck_tsc_end :: u64

definition timer_calibrate_tsc :: "clock_run \<Rightarrow> int \<Rightarrow> (int \<times> int) res" where
  "timer_calibrate_tsc ck cycles_per_us =
     (if ck_ret ck \<noteq> 0 then Inr (- 1, cycles_per_us)
      else bindE (double_to_u64 (rnd 53 (rnd 53 (of_int (fst (ck_end ck) - fst (ck_start ck))) * 10 ^ 9))) (\<lambda>ns0.
           let ns = ns0 + of_int (snd (ck_end ck) - snd (ck_start ck));
               secs = rnd 53 (rnd 53 (of_nat (unat ns)) / 1000)
           in case fl_div 53 (rnd 53 (of_nat (unat (ck_tsc_end ck - ck_tsc_start ck)))) secs of
                Fin q \<Rightarrow> bindE (double_to_u64 q) (\<lambda>c. Inr (0, s32 (uint c)))
              | _ \<Rightarrow> Inl Bad_conversion))"

definition timer_init :: "clock_run \<Rightarrow> int \<Rightarrow> (int \<times> int) res" where
  "timer_init ck cycles_per_us = bindE (timer_calibrate_tsc ck cycles_per_us) (\<lambda>(ret, c). if ret \<noteq> 0 then Inr (ret, c) else Inr (0, c))"

text \<open>The busy wait reads the counter once before the loop and once in each test; \<open>tsc k\<close> is reading \<open>k\<close>.\<close>

partial_function (option) delay_loop :: "(nat \<Rightarrow> u64) \<Rightarrow> u64 \<Rightarrow> u64 \<Rightarrow> nat \<Rightarrow> nat option" where
  "delay_loop tsc start cycles k = (if tsc k - start < cycles then delay_loop tsc start cycles (k + 1) else Some k)"

definition timer_delay_us :: "(nat \<Rightarrow> u64) \<Rightarrow> int \<Rightarrow> u64 \<Rightarrow> nat option" where
  "timer_delay_us tsc cycles_per_us us = delay_loop tsc (tsc 0) (us * of_int cycles_per_us) 1"

text \<open>
  \<open>eth_rx_idle_wait\<close>: in round \<open>k\<close> the queues are asked in turn, then the counter is read.  \<open>ready k i\<close>: what the driver says of queue \<open>i\<close> in that
  round.
\<close>

partial_function (option) idle_loop :: "(nat \<Rightarrow> u64) \<Rightarrow> (nat \<Rightarrow> nat \<Rightarrow> bool) \<Rightarrow> nat \<Rightarrow> u64 \<Rightarrow> u64 \<Rightarrow> nat \<Rightarrow> bool option" where
  "idle_loop tsc ready nq start cycles k =
     (if list_ex (ready k) [0..<nq] then Some True
      else if tsc k - start < cycles then idle_loop tsc ready nq start cycles (k + 1) else Some False)"

definition eth_rx_idle_wait :: "(nat \<Rightarrow> u64) \<Rightarrow> (nat \<Rightarrow> nat \<Rightarrow> bool) \<Rightarrow> nat \<Rightarrow> int \<Rightarrow> u64 \<Rightarrow> bool option" where
  "eth_rx_idle_wait tsc ready nq cycles_per_us usecs = idle_loop tsc ready nq (tsc 0) (usecs * of_int cycles_per_us) 1"

section \<open>Calibration\<close>

definition elapsed_ns :: "clock_run \<Rightarrow> int" where
  "elapsed_ns ck = (fst (ck_end ck) - fst (ck_start ck)) * 10 ^ 9 + (snd (ck_end ck) - snd (ck_start ck))"

definition elapsed_ticks :: "clock_run \<Rightarrow> nat" where
  "elapsed_ticks ck = unat (ck_tsc_end ck - ck_tsc_start ck)"

lemma double_bounds:
  assumes "0 < x"
  shows "x * (1 - 1 / 2 ^ 53) \<le> rnd 53 x" "rnd 53 x \<le> x * (1 + 1 / 2 ^ 53)"
  using rnd_rel_error [OF assms, of 53] unfolding abs_le_iff by (simp_all add: power_int_minus field_simps)

lemma quotient_bounds:
  assumes D: "0 < (D :: rat)" and S: "0 < S" and s: "S * (1 - 1 / 2 ^ 53) \<le> s" "s \<le> S * (1 + 1 / 2 ^ 53)"
  shows "D / S * (1 - 1 / 2 ^ 51) \<le> rnd 53 (D / s)" "rnd 53 (D / s) \<le> D / S * (1 + 1 / 2 ^ 51)"
proof -
  have s0: "0 < s" using s(1) S by (simp add: order_less_le_trans [OF _ s(1)])
  have q0: "0 < D / s" using D s0 by simp
  have lo: "D / S * (1 / (1 + 1 / 2 ^ 53)) \<le> D / s"
  proof -
    have "D / (S * (1 + 1 / 2 ^ 53)) \<le> D / s" using s(2) s0 S D by (intro divide_left_mono) simp_all
    then show ?thesis by simp
  qed
  have hi: "D / s \<le> D / S * (1 / (1 - 1 / 2 ^ 53))"
  proof -
    have "D / s \<le> D / (S * (1 - 1 / 2 ^ 53))" using s(1) s0 S D by (intro divide_left_mono) simp_all
    then show ?thesis by simp
  qed
  have DS: "0 < D / S" using D S by simp
  have "D / S * (1 - 1 / 2 ^ 51) \<le> D / S * (1 / (1 + 1 / 2 ^ 53)) * (1 - 1 / 2 ^ 53)"
    using DS by (simp add: mult.assoc)
  also have "\<dots> \<le> D / s * (1 - 1 / 2 ^ 53)" using lo by (intro mult_right_mono) simp_all
  finally show "D / S * (1 - 1 / 2 ^ 51) \<le> rnd 53 (D / s)" using double_bounds(1) [OF q0] by simp
  have "D / s * (1 + 1 / 2 ^ 53) \<le> D / S * (1 / (1 - 1 / 2 ^ 53)) * (1 + 1 / 2 ^ 53)" using hi by (intro mult_right_mono) simp_all
  also have "\<dots> \<le> D / S * (1 + 1 / 2 ^ 51)" using DS by (simp add: mult.assoc)
  finally show "rnd 53 (D / s) \<le> D / S * (1 + 1 / 2 ^ 51)" using double_bounds(2) [OF q0] by simp
qed

lemma double_int: "0 \<le> k \<Longrightarrow> k < 2 ^ 64 \<Longrightarrow> double_to_u64 (of_int k) = Inr (of_int k)"
  by (simp add: double_to_u64_def)

lemma elapsed_u64:
  assumes "0 \<le> snd (ck_start ck)" "snd (ck_start ck) < 10 ^ 9" "0 \<le> snd (ck_end ck)" "snd (ck_end ck) < 10 ^ 9"
    and "0 < elapsed_ns ck" "elapsed_ns ck < 2 ^ 52"
  shows "double_to_u64 (rnd 53 (rnd 53 (of_int (fst (ck_end ck) - fst (ck_start ck))) * 10 ^ 9)) = Inr (of_int ((fst (ck_end ck) - fst (ck_start ck)) * 10 ^ 9))"
    "unat ((of_int ((fst (ck_end ck) - fst (ck_start ck)) * 10 ^ 9) :: u64) + of_int (snd (ck_end ck) - snd (ck_start ck))) = nat (elapsed_ns ck)"
proof -
  define d where "d = fst (ck_end ck) - fst (ck_start ck)"
  have d: "0 \<le> d" "d * 10 ^ 9 < 2 ^ 53" using assms by (simp_all add: elapsed_ns_def d_def)
  then have d53: "\<bar>d\<bar> < 2 ^ 53" by simp
  have "rnd 53 (of_int d * 10 ^ 9) = of_int (d * 10 ^ 9)" using rnd_int_exact [of "d * 10 ^ 9" 53] d by simp
  then have "rnd 53 (rnd 53 (of_int d) * 10 ^ 9) = of_int (d * 10 ^ 9)" unfolding rnd_int_exact [OF d53] .
  moreover have "double_to_u64 (of_int (d * 10 ^ 9)) = Inr (of_int (d * 10 ^ 9))" using d by (intro double_int) simp_all
  ultimately show "double_to_u64 (rnd 53 (rnd 53 (of_int (fst (ck_end ck) - fst (ck_start ck))) * 10 ^ 9)) = Inr (of_int ((fst (ck_end ck) - fst (ck_start ck)) * 10 ^ 9))"
    by (simp only: d_def)
  have "(of_int ((fst (ck_end ck) - fst (ck_start ck)) * 10 ^ 9) :: u64) + of_int (snd (ck_end ck) - snd (ck_start ck)) = of_int (elapsed_ns ck)"
    by (simp add: elapsed_ns_def)
  moreover have "unat (of_int (elapsed_ns ck) :: u64) = nat (elapsed_ns ck)"
    using assms(5,6) by (simp add: unsigned_of_int take_bit_int_eq_self)
  ultimately show "unat ((of_int ((fst (ck_end ck) - fst (ck_start ck)) * 10 ^ 9) :: u64) + of_int (snd (ck_end ck) - snd (ck_start ck))) = nat (elapsed_ns ck)"
    by simp
qed

text \<open>
  C35: the calibration finds the number of ticks in a microsecond, rounded down, in spite of two roundings in \<open>double\<close>: the result differs from
  the exact quotient by less than one and a relative error of \<open>2^-51\<close>.
\<close>

theorem clock_calibrated:
  assumes "ck_ret ck = 0" "0 \<le> snd (ck_start ck)" "snd (ck_start ck) < 10 ^ 9" "0 \<le> snd (ck_end ck)" "snd (ck_end ck) < 10 ^ 9"
    and "0 < elapsed_ns ck" "elapsed_ns ck < 2 ^ 52" "elapsed_ticks ck < 2 ^ 53" "int (elapsed_ticks ck) * 1000 < elapsed_ns ck * 2 ^ 30"
  shows "\<exists>c. timer_init ck old = Inr (0, c) \<and> rat_of_int c \<le> rat_of_nat (elapsed_ticks ck) * 1000 / of_int (elapsed_ns ck) * (1 + 1 / 2 ^ 51) \<and>
    rat_of_nat (elapsed_ticks ck) * 1000 / of_int (elapsed_ns ck) * (1 - 1 / 2 ^ 51) < rat_of_int c + 1"
proof -
  define D where "D = rat_of_nat (elapsed_ticks ck)"
  define S where "S = rat_of_int (elapsed_ns ck) / 1000"
  define q where "q = rnd 53 (D / rnd 53 S)"
  note e = elapsed_u64 [OF assms(2-7)]
  have S: "0 < S" using assms(6) by (simp add: S_def)
  have s: "S * (1 - 1 / 2 ^ 53) \<le> rnd 53 S" "rnd 53 S \<le> S * (1 + 1 / 2 ^ 53)" using double_bounds [OF S] .
  have s0: "rnd 53 S \<noteq> 0" using s(1) S by auto
  have exact: "rnd 53 (rat_of_nat (nat (elapsed_ns ck))) = of_int (elapsed_ns ck)" "rnd 53 D = D"
    using rnd_int_exact [of "elapsed_ns ck" 53] rnd_int_exact [of "int (elapsed_ticks ck)" 53] assms(6-8) by (simp_all add: D_def)
  have qb: "D / S * (1 - 1 / 2 ^ 51) \<le> q" "q \<le> D / S * (1 + 1 / 2 ^ 51)"
    using quotient_bounds [OF _ S s, of D] by (cases "D = 0"; simp add: q_def D_def)+
  have "D / S < 2 ^ 30"
  proof -
    have "rat_of_int (int (elapsed_ticks ck) * 1000) < of_int (elapsed_ns ck * 2 ^ 30)" using assms(9) by (simp only: of_int_less_iff)
    then show ?thesis using assms(6) by (simp add: D_def S_def field_simps)
  qed
  moreover have "0 \<le> D / S" using S by (simp add: D_def)
  ultimately have q: "0 \<le> q" "q < 2 ^ 31"
    using qb order_trans [of 0 "D / S * (1 - 1 / 2 ^ 51)" q] mult_strict_right_mono [of "D / S" "2 ^ 30" "1 + 1 / 2 ^ 51"] by simp_all
  have fl: "0 \<le> \<lfloor>q\<rfloor>" "\<lfloor>q\<rfloor> < 2 ^ 31" using q by (simp_all add: floor_less_iff)
  have u: "uint (of_int \<lfloor>q\<rfloor> :: u64) = \<lfloor>q\<rfloor>" using fl by (simp add: unsigned_of_int take_bit_int_eq_self)
  have f: "fl_div 53 D (rnd 53 S) = Fin q" using s0 by (simp add: fl_div_def q_def)
  have "double_to_u64 q = Inr (of_int \<lfloor>q\<rfloor>)" using q by (simp add: double_to_u64_def)
  then have "timer_calibrate_tsc ck old = Inr (0, s32 \<lfloor>q\<rfloor>)"
    unfolding timer_calibrate_tsc_def e(1) bindE_Inr Let_def e(2) exact(1) elapsed_ticks_def [symmetric] D_def [symmetric] exact(2) S_def [symmetric] f
    by (simp only: assms(1) u fl.case bindE_Inr if_False not_True_eq_False refl)
  then have "timer_init ck old = Inr (0, \<lfloor>q\<rfloor>)" using fl by (simp add: timer_init_def)
  moreover have "rat_of_int \<lfloor>q\<rfloor> \<le> D / S * (1 + 1 / 2 ^ 51)" using of_int_floor_le qb(2) by (rule order_trans)
  moreover have "D / S * (1 - 1 / 2 ^ 51) < rat_of_int \<lfloor>q\<rfloor> + 1" using qb(1) floor_correct [of q] by linarith
  ultimately show ?thesis by (intro exI [of _ "\<lfloor>q\<rfloor>"]) (simp add: D_def S_def)
qed

text \<open>Half a second at 2.8 GHz.\<close>

theorem clock_calibrated_witness:
  "\<exists>c. timer_init \<lparr>ck_ret = 0, ck_start = (100, 900000000), ck_end = (101, 400000000), ck_tsc_start = 7, ck_tsc_end = 1400000007\<rparr> 0 = Inr (0, c) \<and>
     2799 \<le> c \<and> c \<le> 2800"
proof -
  let ?ck = "\<lparr>ck_ret = 0, ck_start = (100, 900000000), ck_end = (101, 400000000), ck_tsc_start = 7, ck_tsc_end = 1400000007\<rparr>"
  have e: "elapsed_ns ?ck = 500000000" "elapsed_ticks ?ck = 1400000000" by (simp_all add: elapsed_ns_def elapsed_ticks_def)
  obtain c where c: "timer_init ?ck 0 = Inr (0, c)" "rat_of_int c \<le> 2800 * (1 + 1 / 2 ^ 51)" "2800 * (1 - 1 / 2 ^ 51) < rat_of_int c + 1"
    using clock_calibrated [of ?ck 0, unfolded e] by auto
  have "rat_of_int c < of_int 2801" "rat_of_int 2798 < of_int c" using c(2,3) by simp_all
  then have "c < 2801" "2798 < c" by (simp_all only: of_int_less_iff)
  then show ?thesis using c(1) by (intro exI [of _ c]) simp
qed

section \<open>Waiting\<close>

text \<open>The wait ends with the first reading that is far enough from the start, if there is one.\<close>

lemma delay_loop_first:
  assumes "k \<le> n" "cycles \<le> tsc n - start" "\<And>j. k \<le> j \<Longrightarrow> j < n \<Longrightarrow> tsc j - start < cycles"
  shows "delay_loop tsc start cycles k = Some n"
  using assms
proof (induction "n - k" arbitrary: k)
  case 0
  then show ?case by (subst delay_loop.simps) (auto simp: not_less [symmetric])
next
  case (Suc m)
  then have "tsc k - start < cycles" "delay_loop tsc start cycles (k + 1) = Some n" using Suc.hyps(1) [of "k + 1"] by simp_all
  then show ?case by (subst delay_loop.simps) simp
qed

theorem delay_waits:
  assumes "1 \<le> n" "us * of_int c \<le> tsc n - tsc 0"
  shows "\<exists>k\<le>n. timer_delay_us tsc c us = Some k \<and> us * of_int c \<le> tsc k - tsc 0"
proof -
  define k where "k = (LEAST k. 1 \<le> k \<and> us * of_int c \<le> tsc k - tsc 0)"
  have k: "1 \<le> k" "us * of_int c \<le> tsc k - tsc 0" "k \<le> n"
    using LeastI [of "\<lambda>k. 1 \<le> k \<and> us * of_int c \<le> tsc k - tsc 0" n] Least_le [of "\<lambda>k. 1 \<le> k \<and> us * of_int c \<le> tsc k - tsc 0" n] assms
    by (simp_all add: k_def)
  have "tsc j - tsc 0 < us * of_int c" if "1 \<le> j" "j < k" for j
    using not_less_Least [of j "\<lambda>k. 1 \<le> k \<and> us * of_int c \<le> tsc k - tsc 0"] that by (auto simp: k_def not_le)
  then have "timer_delay_us tsc c us = Some k" unfolding timer_delay_us_def using k by (intro delay_loop_first) auto
  then show ?thesis using k by blast
qed

text \<open>Waiting for a packet ends at the latest when the time is over, and reports a packet just if there was one by then.\<close>

lemma idle_loop_ends:
  assumes "k \<le> n" "cycles \<le> tsc n - start" "\<And>j. k \<le> j \<Longrightarrow> j < n \<Longrightarrow> tsc j - start < cycles"
  shows "idle_loop tsc ready nq start cycles k = Some (\<exists>j i. k \<le> j \<and> j \<le> n \<and> i < nq \<and> ready j i)"
  using assms
proof (induction "n - k" arbitrary: k)
  case 0
  then have "idle_loop tsc ready nq start cycles k = Some (list_ex (ready k) [0..<nq])" by (subst idle_loop.simps) (auto simp: not_less [symmetric])
  moreover have "list_ex (ready k) [0..<nq] \<longleftrightarrow> (\<exists>j i. k \<le> j \<and> j \<le> n \<and> i < nq \<and> ready j i)" using 0 by (fastforce simp: list_ex_iff dest: order_antisym)
  ultimately show ?case by simp
next
  case (Suc m)
  have ih: "idle_loop tsc ready nq start cycles (k + 1) = Some (\<exists>j i. k + 1 \<le> j \<and> j \<le> n \<and> i < nq \<and> ready j i)" using Suc by simp
  have "tsc k - start < cycles" using Suc by simp
  moreover have "list_ex (ready k) [0..<nq] \<longleftrightarrow> (\<exists>i<nq. ready k i)" by (auto simp: list_ex_iff)
  moreover have e: "k \<le> j \<longleftrightarrow> j = k \<or> k + 1 \<le> j" for j by auto
  have "(\<exists>j i. k \<le> j \<and> j \<le> n \<and> i < nq \<and> ready j i) \<longleftrightarrow> (\<exists>i<nq. ready k i) \<or> (\<exists>j i. k + 1 \<le> j \<and> j \<le> n \<and> i < nq \<and> ready j i)"
    unfolding e using Suc.prems(1) by blast
  ultimately show ?case using ih by (subst idle_loop.simps) auto
qed

end
