(* ===== verification/Syscall.thy ===== *)
theory Syscall
  imports Transmit Startup
begin

text \<open>
  Batched system calls and mappings of user processes (\<open>dp/core/syscall.c\<close>, \<open>inc/ix/syscall.h\<close>, \<open>inc/asm/uaccess.h\<close>).  The tables of functions
  are arguments, as the entries for TCP are not modelled.
\<close>

definition ENOTSUP :: int where "ENOTSUP = 45"

section \<open>User memory\<close>

text \<open>
  The words of user memory, \<open>None\<close> where there is none, whether they can be written, the flag that a fault in user memory sets, the
  cookie of the last call, and the state of the kernel that the calls work on.
\<close>

record 'k user =
  um_mem :: "addr \<Rightarrow> u64 option"
  um_writable :: "addr \<Rightarrow> bool"
  uaccess_fault :: bool
  syscall_cookie :: u64
  um_kernel :: 'k

text \<open>The value after a fault is arbitrary; it is not used.\<close>

definition uaccess_peekq :: "addr \<Rightarrow> 'k user \<Rightarrow> u64 \<times> 'k user" where
  "uaccess_peekq a s = (case um_mem s a of None \<Rightarrow> (0, s\<lparr>uaccess_fault := True\<rparr>) | Some v \<Rightarrow> (v, s))"

definition uaccess_pokeq :: "addr \<Rightarrow> u64 \<Rightarrow> 'k user \<Rightarrow> 'k user" where
  "uaccess_pokeq a v s =
     (if um_mem s a = None \<or> \<not> um_writable s a then s\<lparr>uaccess_fault := True\<rparr> else s\<lparr>um_mem := (um_mem s)(a \<mapsto> v)\<rparr>)"

definition uaccess_check_fault :: "'k user \<Rightarrow> bool \<times> 'k user" where
  "uaccess_check_fault s = (if uaccess_fault s then (True, s\<lparr>uaccess_fault := False\<rparr>) else (False, s))"

section \<open>Batches\<close>

definition KSYS_NR :: u64 where "KSYS_NR = 10"
definition BSYS_DESC_LEN :: nat where "BSYS_DESC_LEN = 40"

type_synonym 'k bsysfn = "u64 \<Rightarrow> u64 \<Rightarrow> u64 \<Rightarrow> u64 \<Rightarrow> 'k user \<Rightarrow> (u64 \<times> 'k user) res option"

definition bsys_dispatch_one :: "'k bsysfn list \<Rightarrow> addr \<Rightarrow> 'k user \<Rightarrow> (int \<times> 'k user) res option" where
  "bsys_dispatch_one tbl d s =
     (let (sysnr, s) = uaccess_peekq d s; (arga, s) = uaccess_peekq (d + 8) s; (argb, s) = uaccess_peekq (d + 16) s;
          (argc, s) = uaccess_peekq (d + 24) s; (argd, s) = uaccess_peekq (d + 32) s; (flt, s) = uaccess_check_fault s
      in if flt then Some (Inr (- EFAULT, s))
      else bindR (if sysnr \<ge> KSYS_NR then Some (Inr (of_int (- ENOSYS), s))
                  else if unat sysnr \<ge> length tbl then Some (Inl Out_of_bounds)
                  else (tbl ! unat sysnr) arga argb argc argd s) (\<lambda>(ret, s).
           let s = uaccess_pokeq (d + 8) (syscall_cookie s) s; s = uaccess_pokeq (d + 16) ret s; (flt, s) = uaccess_check_fault s
           in Some (Inr (if flt then - EFAULT else 0, s))))"

text \<open>
  The table.  User programs keep their structures at multiples of 8, so that the words of one never overlap those of another; \<open>copy_from_user\<close> of an
  \<open>ip_tuple\<close> reads two of them.  The calls for TCP are the argument \<open>tcp\<close>.
\<close>

definition user_tuple :: "(addr \<Rightarrow> u64 option) \<Rightarrow> addr \<Rightarrow> ip_tuple option" where
  "user_tuple m p = (case m p of None \<Rightarrow> None | Some u \<Rightarrow> (case m (p + 8) of None \<Rightarrow> None | Some v \<Rightarrow>
     Some \<lparr>src_ip = ucast u, dst_ip = ucast (drop_bit 32 u), src_port = ucast v, dst_port = ucast (drop_bit 16 v)\<rparr>))"

definition call_kernel :: "(net_state \<Rightarrow> (int \<times> net_state) res option) \<Rightarrow> net_state user \<Rightarrow> (u64 \<times> net_state user) res option" where
  "call_kernel f s = bindR (f (um_kernel s)) (\<lambda>(ret, k). Some (Inr (of_int ret, s\<lparr>um_kernel := k\<rparr>)))"

definition bsys_tbl :: "net_env \<Rightarrow> u64 \<Rightarrow> u32 \<Rightarrow> (addr \<Rightarrow> nat \<Rightarrow> u64) \<Rightarrow> addr \<Rightarrow> net_state bsysfn list \<Rightarrow> net_state bsysfn list" where
  "bsys_tbl env tsc cyc dir pgdir tcp =
     [\<lambda>a b c x s. call_kernel (bsys_udp_send env tsc cyc (user_tuple (um_mem s)) dir pgdir a b c x) s,
      \<lambda>a b c x s. call_kernel (\<lambda>k. Some (Inr (bsys_udp_sendv, k))) s,
      \<lambda>a b c x s. call_kernel (\<lambda>k. Some (bsys_udp_recv_done a k)) s] @ tcp"

primrec dispatch_loop :: "'k bsysfn list \<Rightarrow> addr \<Rightarrow> nat list \<Rightarrow> 'k user \<Rightarrow> (int \<times> 'k user) res option" where
  "dispatch_loop tbl d [] s = Some (Inr (0, s))"
| "dispatch_loop tbl d (i # is) s =
     bindR (bsys_dispatch_one tbl (d + of_nat (BSYS_DESC_LEN * i)) s) (\<lambda>(ret, s1). if ret \<noteq> 0 then Some (Inr (ret, s1)) else dispatch_loop tbl d is s1)"

definition bsys_dispatch :: "'k bsysfn list \<Rightarrow> addr \<Rightarrow> u32 \<Rightarrow> 'k user \<Rightarrow> (int \<times> 'k user) res option" where
  "bsys_dispatch tbl d nr s =
     (if nr = 0 then Some (Inr (0, s))
      else if \<not> uaccess_okay d (of_nat BSYS_DESC_LEN * ucast nr) then Some (Inr (- EFAULT, s))
      else dispatch_loop tbl d [0..<unat nr] s)"

text \<open>\<open>sys_bcall\<close>: \<open>reclaim\<close> and \<open>xmit\<close> are those of the driver, \<open>qs\<close> the queues of this core.\<close>

definition sys_bcall ::
  "net_state bsysfn list \<Rightarrow> (eth_tx_queue \<Rightarrow> int) \<Rightarrow> (eth_tx_queue \<Rightarrow> addr list \<Rightarrow> int) \<Rightarrow> nat list \<Rightarrow> addr \<Rightarrow> u32 \<Rightarrow> net_state user \<Rightarrow>
     (int \<times> net_state user) res option" where
  "sys_bcall tbl reclaim xmit qs d nr s =
     bindR (Some (eth_process_reclaim reclaim qs (ns_txqs (um_kernel s)))) (\<lambda>txqs.
     bindR (bsys_dispatch tbl d nr (s\<lparr>um_kernel := (um_kernel s)\<lparr>ns_txqs := txqs\<rparr>\<rparr>)) (\<lambda>(ret, s1).
     bindR (Some (eth_process_send xmit qs (ns_txqs (um_kernel s1)))) (\<lambda>txqs.
     Some (Inr (ret, s1\<lparr>um_kernel := (um_kernel s1)\<lparr>ns_txqs := txqs\<rparr>\<rparr>)))))"

section \<open>Events for the user\<close>

record bsys_desc =
  bd_sysnr :: u64
  bd_arga :: u64
  bd_argb :: u64
  bd_argc :: u64
  bd_argd :: u64

text \<open>The array and the number of its entries in use; \<open>max_len\<close> is not written by any code.\<close>

record bsys_arr =
  ba_len :: nat
  ba_max_len :: nat
  ba_descs :: "bsys_desc list"

text \<open>The next entry: the index of it, and the array; the test for room is only in \<open>bsys_arr_next\<close>.\<close>

definition bsys_arr_next_raw :: "bsys_arr \<Rightarrow> nat \<times> bsys_arr" where
  "bsys_arr_next_raw a = (ba_len a, a\<lparr>ba_len := ba_len a + 1\<rparr>)"

definition bsys_arr_next :: "bsys_arr \<Rightarrow> nat option \<times> bsys_arr" where
  "bsys_arr_next a = (if ba_len a \<ge> ba_max_len a then (None, a) else let (i, a1) = bsys_arr_next_raw a in (Some i, a1))"

definition usys_reset :: "bsys_arr \<Rightarrow> bsys_arr" where
  "usys_reset a = a\<lparr>ba_len := 0\<rparr>"

definition usys_put :: "(bsys_desc \<Rightarrow> bsys_desc) \<Rightarrow> bsys_arr \<Rightarrow> bsys_arr res" where
  "usys_put f a =
     (let (i, a1) = bsys_arr_next_raw a
      in if i \<ge> length (ba_descs a1) then Inl Out_of_bounds else Inr (a1\<lparr>ba_descs := (ba_descs a1)[i := f (ba_descs a1 ! i)]\<rparr>))"

definition usys_udp_recv :: "u64 \<Rightarrow> u64 \<Rightarrow> u64 \<Rightarrow> bsys_arr \<Rightarrow> bsys_arr res" where
  "usys_udp_recv a n ident = usys_put (\<lambda>d. d\<lparr>bd_sysnr := 0, bd_arga := a, bd_argb := n, bd_argc := ident\<rparr>)"
definition usys_udp_sent :: "u64 \<Rightarrow> bsys_arr \<Rightarrow> bsys_arr res" where
  "usys_udp_sent cookie = usys_put (\<lambda>d. d\<lparr>bd_sysnr := 1, bd_arga := cookie\<rparr>)"
definition usys_tcp_connected :: "u64 \<Rightarrow> u64 \<Rightarrow> u64 \<Rightarrow> bsys_arr \<Rightarrow> bsys_arr res" where
  "usys_tcp_connected handle cookie ret = usys_put (\<lambda>d. d\<lparr>bd_sysnr := 2, bd_arga := handle, bd_argb := cookie, bd_argc := ret\<rparr>)"
definition usys_tcp_knock :: "u64 \<Rightarrow> u64 \<Rightarrow> bsys_arr \<Rightarrow> bsys_arr res" where
  "usys_tcp_knock handle ident = usys_put (\<lambda>d. d\<lparr>bd_sysnr := 3, bd_arga := handle, bd_argb := ident\<rparr>)"
definition usys_tcp_recv :: "u64 \<Rightarrow> u64 \<Rightarrow> u64 \<Rightarrow> u64 \<Rightarrow> bsys_arr \<Rightarrow> bsys_arr res" where
  "usys_tcp_recv handle cookie a n = usys_put (\<lambda>d. d\<lparr>bd_sysnr := 4, bd_arga := handle, bd_argb := cookie, bd_argc := a, bd_argd := n\<rparr>)"
definition usys_tcp_sent :: "u64 \<Rightarrow> u64 \<Rightarrow> u64 \<Rightarrow> bsys_arr \<Rightarrow> bsys_arr res" where
  "usys_tcp_sent handle cookie n = usys_put (\<lambda>d. d\<lparr>bd_sysnr := 5, bd_arga := handle, bd_argb := cookie, bd_argc := n\<rparr>)"
definition usys_tcp_dead :: "u64 \<Rightarrow> u64 \<Rightarrow> bsys_arr \<Rightarrow> bsys_arr res" where
  "usys_tcp_dead handle cookie = usys_put (\<lambda>d. d\<lparr>bd_sysnr := 6, bd_arga := handle, bd_argb := cookie\<rparr>)"
definition usys_timer :: "u64 \<Rightarrow> bsys_arr \<Rightarrow> bsys_arr res" where
  "usys_timer cookie = usys_put (\<lambda>d. d\<lparr>bd_sysnr := 7, bd_arga := cookie\<rparr>)"

section \<open>Mappings\<close>

definition MEM_USER_IOMAPM_BASE_ADDR :: addr where "MEM_USER_IOMAPM_BASE_ADDR = 0x8000000000"
definition MEM_USER_IOMAPM_END_ADDR :: addr where "MEM_USER_IOMAPM_END_ADDR = 0x100000000000"

text \<open>
  \<open>walk\<close> is \<open>__dune_vm_page_walk\<close> with a callback that returns 1 at once: positive if it is called for an address of the range.  The lock \<open>vm_lock\<close>
  is free between the calls.
\<close>

type_synonym probe_walk = "addr \<Rightarrow> addr \<Rightarrow> (addr \<Rightarrow> u64) \<Rightarrow> int"

definition vm_is_mapped :: "probe_walk \<Rightarrow> addr \<Rightarrow> u64 \<Rightarrow> mm \<Rightarrow> bool" where
  "vm_is_mapped walk a n s \<longleftrightarrow> walk a (a + n - 1) (pgroot s) > 0"

definition sys_mmap :: "os \<Rightarrow> probe_walk \<Rightarrow> nat \<Rightarrow> addr \<Rightarrow> int \<Rightarrow> int \<Rightarrow> u32 \<Rightarrow> mm \<Rightarrow> (int \<times> mm) res" where
  "sys_mmap os walk node a nr sz perm s =
     (if sz \<noteq> PGSIZE_2MB then Inr (- ENOTSUP, s)
      else if a < MEM_USER_IOMAPM_BASE_ADDR \<or> a + of_int (s32 (nr * sz)) \<ge> MEM_USER_IOMAPM_END_ADDR then Inr (- EINVAL, s)
      else bindE (page_alloc_contig os node (of_int nr) s) (\<lambda>(pages, s1).
           if pages = NULL then Inr (- ENOMEM, s1)
           else if vm_is_mapped walk a (of_int (s32 (nr * sz))) s1
           then bindE (page_free_contig a [0..<unat (of_int nr :: u32)] s1) (\<lambda>s2. Inr (- EBUSY, s2))
           else let (ret, s2) = vm_map_phys os pages a nr sz (perm OR VM_PERM_U) s1
                in if ret \<noteq> 0 then bindE (page_free_contig a [0..<unat (of_int nr :: u32)] s2) (\<lambda>s3. Inr (ret, s3)) else Inr (0, s2)))"

definition sys_unmap :: "os \<Rightarrow> addr \<Rightarrow> int \<Rightarrow> int \<Rightarrow> mm \<Rightarrow> int \<times> mm" where
  "sys_unmap os a nr sz s =
     (if sz \<noteq> PGSIZE_2MB then (- ENOTSUP, s)
      else if a < MEM_USER_IOMAPM_BASE_ADDR \<or> a + of_int (s32 (nr * sz)) \<ge> MEM_USER_IOMAPM_END_ADDR then (- EINVAL, s)
      else (0, vm_unmap os a nr sz s))"

text \<open>The page of a core for its events: \<open>usys_nr\<close> is 1, the space for 8192 entries of 40 bytes in pages of 2 MB.\<close>

definition usys_nr :: int where
  "usys_nr = (16 + 8192 * 40 + PGSIZE_2MB - 1) div PGSIZE_2MB"

record usys_page =
  up_arr :: addr
  up_iomap :: addr

definition syscall_init_cpu :: "os \<Rightarrow> nat \<Rightarrow> usys_page \<times> mm \<Rightarrow> (int \<times> usys_page \<times> mm) res" where
  "syscall_init_cpu os node us =
     bindE (page_alloc_contig os node (of_int usys_nr) (snd us)) (\<lambda>(arr, s1).
     if arr = NULL then Inr (- ENOMEM, fst us, s1)
     else let (iomap, s2) = vm_map_to_user os arr usys_nr PGSIZE_2MB VM_PERM_R s1
          in if iomap = NULL then bindE (page_free_contig arr [0..<nat usys_nr] s2) (\<lambda>s3. Inr (- ENOMEM, fst us, s3))
          else Inr (0, \<lparr>up_arr = arr, up_iomap = iomap\<rparr>, s2))"

definition syscall_exit_cpu :: "os \<Rightarrow> usys_page \<times> mm \<Rightarrow> (usys_page \<times> mm) res" where
  "syscall_exit_cpu os us =
     bindE (page_free_contig (up_arr (fst us)) [0..<nat usys_nr] (vm_unmap os (up_iomap (fst us)) usys_nr PGSIZE_2MB (snd us))) (\<lambda>s.
     Inr (\<lparr>up_arr = NULL, up_iomap = NULL\<rparr>, s))"

definition sys_baddr :: "usys_page \<Rightarrow> addr" where
  "sys_baddr u = up_iomap u"

section \<open>The other calls\<close>

definition sys_spawnmode :: "bool \<Rightarrow> bool \<Rightarrow> int \<times> bool" where
  "sys_spawnmode spawn_cores sys_spawn_cores = (0, spawn_cores)"

text \<open>\<open>cpus_active\<close> is not written by any code.\<close>

definition sys_nrcpus :: "int \<Rightarrow> int" where
  "sys_nrcpus cpus_active = cpus_active"

definition sys_timer_init :: "addr \<Rightarrow> u64 \<Rightarrow> u64 \<Rightarrow> int \<times> timerwheel \<Rightarrow> int \<times> int \<times> timerwheel" where
  "sys_timer_init utimers generic_handler a st = utimer_init utimers a generic_handler st"

definition sys_timer_ctl :: "u64 \<Rightarrow> u32 \<Rightarrow> addr \<Rightarrow> int \<Rightarrow> u64 \<Rightarrow> timerwheel \<Rightarrow> timerwheel res" where
  "sys_timer_ctl tsc cyc utimers timer_id delay s = utimer_arm tsc cyc utimers timer_id delay s"

definition SYS_NR :: u64 where "SYS_NR = 9"

text \<open>The registers that hold the arguments and the result.\<close>

record dune_tf =
  tf_rax :: u64
  tf_rdi :: u64
  tf_rsi :: u64
  tf_rdx :: u64
  tf_rcx :: u64
  tf_r8 :: u64
  tf_r9 :: u64

definition do_syscall :: "(u64 \<Rightarrow> u64 \<Rightarrow> u64 \<Rightarrow> u64 \<Rightarrow> u64 \<Rightarrow> u64 \<Rightarrow> 's \<Rightarrow> (u64 \<times> 's) res option) list \<Rightarrow> dune_tf \<Rightarrow> u64 \<Rightarrow> 's \<Rightarrow> (dune_tf \<times> 's) res option" where
  "do_syscall sys_tbl tf sysnr s =
     (if sysnr \<ge> SYS_NR then Some (Inr (tf\<lparr>tf_rax := of_int (- ENOSYS)\<rparr>, s))
      else if unat sysnr \<ge> length sys_tbl then Some (Inl Out_of_bounds)
      else bindR ((sys_tbl ! unat sysnr) (tf_rdi tf) (tf_rsi tf) (tf_rdx tf) (tf_rcx tf) (tf_r8 tf) (tf_r9 tf) s) (\<lambda>(ret, s1).
           Some (Inr (tf\<lparr>tf_rax := ret\<rparr>, s1))))"

end
