(* ===== verification/Syscall_Properties.thy ===== *)
theory Syscall_Properties
  imports Syscall Net_Sample
begin

text \<open>
  Batches run their calls in order and answer each in its descriptor; mappings of user processes show the pages that were allocated for them.
\<close>

section \<open>Descriptors in memory\<close>

type_synonym desc = "u64 \<times> u64 \<times> u64 \<times> u64 \<times> u64"

definition word_at :: "addr \<Rightarrow> nat \<Rightarrow> addr" where
  "word_at d k = d + of_nat (8 * k)"

definition desc_at :: "(addr \<Rightarrow> u64 option) \<Rightarrow> addr \<Rightarrow> nat \<Rightarrow> desc \<Rightarrow> bool" where
  "desc_at m d i e \<longleftrightarrow> (case e of (n, a, b, c, x) \<Rightarrow>
     m (word_at d (5 * i)) = Some n \<and> m (word_at d (5 * i + 1)) = Some a \<and> m (word_at d (5 * i + 2)) = Some b \<and>
     m (word_at d (5 * i + 3)) = Some c \<and> m (word_at d (5 * i + 4)) = Some x)"

lemma word_at_inj:
  assumes "unat d + 8 * n \<le> 2 ^ 64" "j < n" "k < n"
  shows "word_at d j = word_at d k \<longleftrightarrow> j = k"
proof
  assume "word_at d j = word_at d k"
  then have "(of_nat (8 * j) :: u64) = of_nat (8 * k)" by (simp only: word_at_def add_left_cancel)
  moreover have "8 * j < 2 ^ 64" "8 * k < 2 ^ 64" using assms by linarith+
  ultimately have "8 * j = 8 * k" by (metis unat_of_nat64)
  then show "j = k" by simp
qed simp

lemma desc_words:
  "d + of_nat (BSYS_DESC_LEN * i) = word_at d (5 * i)" "word_at d k + 8 = word_at d (k + 1)" "word_at d k + 16 = word_at d (k + 2)"
  "word_at d k + 24 = word_at d (k + 3)" "word_at d k + 32 = word_at d (k + 4)"
  by (simp_all add: word_at_def BSYS_DESC_LEN_def algebra_simps)

section \<open>Batches\<close>

lemma bindR_cong: "(\<And>x. r = Some (Inr x) \<Longrightarrow> f x = g x) \<Longrightarrow> bindR r f = bindR r g"
  by (cases r) (auto simp: bindR_def split: sum.splits)

lemma bindR_assoc: "bindR (bindR r f) g = bindR r (\<lambda>x. bindR (f x) g)"
  by (cases r) (auto simp: bindR_def split: sum.splits)

text \<open>What a call does to the user: it may read the memory and change the kernel and the cookie, and it may not return.\<close>

definition calls_ok :: "'k bsysfn list \<Rightarrow> bool" where
  "calls_ok tbl \<longleftrightarrow> (\<forall>f\<in>set tbl. \<forall>a b c x s r s'. f a b c x s = Some (Inr (r, s')) \<longrightarrow>
     uaccess_fault s' = uaccess_fault s \<and> um_mem s' = um_mem s \<and> um_writable s' = um_writable s)"

lemma call_kernel_user:
  "call_kernel f s = Some (Inr (r, s')) \<Longrightarrow> uaccess_fault s' = uaccess_fault s \<and> um_mem s' = um_mem s \<and> um_writable s' = um_writable s"
  by (auto simp: call_kernel_def bindR_eq_Inr)

lemma bsys_tbl_ok:
  assumes "calls_ok tcp" "length tcp = 7"
  shows "calls_ok (bsys_tbl env tsc cyc dir pgdir tcp)" "length (bsys_tbl env tsc cyc dir pgdir tcp) = unat KSYS_NR"
proof -
  show "length (bsys_tbl env tsc cyc dir pgdir tcp) = unat KSYS_NR" using assms(2) by (simp add: bsys_tbl_def KSYS_NR_def)
  show "calls_ok (bsys_tbl env tsc cyc dir pgdir tcp)"
    using assms(1) unfolding calls_ok_def bsys_tbl_def set_append list.set ball_Un Set.ball_simps
    by (intro conjI) (auto dest: call_kernel_user)
qed

definition run_call :: "'k bsysfn list \<Rightarrow> desc \<Rightarrow> 'k user \<Rightarrow> (u64 \<times> 'k user) res option" where
  "run_call tbl e s = (case e of (n, a, b, c, x) \<Rightarrow> if n \<ge> KSYS_NR then Some (Inr (of_int (- ENOSYS), s)) else (tbl ! unat n) a b c x s)"

definition put_answer :: "addr \<Rightarrow> nat \<Rightarrow> u64 \<times> u64 \<Rightarrow> 'k user \<Rightarrow> 'k user" where
  "put_answer d i r s = s\<lparr>um_mem := (um_mem s)(word_at d (5 * i + 1) \<mapsto> fst r, word_at d (5 * i + 2) \<mapsto> snd r)\<rparr>"

lemma put_answer_cookie [simp]: "syscall_cookie (put_answer d i r s) = syscall_cookie s"
  by (simp add: put_answer_def)

text \<open>What a batch means: the calls in order, each in the memory with the answers to those before it; the cookie and the result after each.\<close>

primrec run_batch :: "'k bsysfn list \<Rightarrow> addr \<Rightarrow> nat \<Rightarrow> desc list \<Rightarrow> 'k user \<Rightarrow> ((u64 \<times> u64) list \<times> 'k user) res option" where
  "run_batch tbl d i [] s = Some (Inr ([], s))"
| "run_batch tbl d i (e # es) s = bindR (run_call tbl e s) (\<lambda>(r, s1).
     bindR (run_batch tbl d (Suc i) es (put_answer d i (syscall_cookie s1, r) s1)) (\<lambda>(out, s2). Some (Inr ((syscall_cookie s1, r) # out, s2))))"

definition answered :: "desc \<Rightarrow> u64 \<times> u64 \<Rightarrow> desc" where
  "answered e r = (case e of (n, a, b, c, x) \<Rightarrow> (n, fst r, snd r, c, x))"

text \<open>The descriptors from \<open>i\<close> on are \<open>es\<close>, and all of the \<open>n\<close> can be written.\<close>

definition batch_at :: "addr \<Rightarrow> nat \<Rightarrow> nat \<Rightarrow> desc list \<Rightarrow> 'k user \<Rightarrow> bool" where
  "batch_at d n i es s \<longleftrightarrow> i + length es = n \<and> \<not> uaccess_fault s \<and> (\<forall>j<length es. desc_at (um_mem s) d (i + j) (es ! j)) \<and>
     (\<forall>k<5 * n. um_writable s (word_at d k))"

lemma run_call_user:
  assumes "calls_ok tbl" "length tbl = unat KSYS_NR" "run_call tbl e s = Some (Inr (r, s1))"
  shows "uaccess_fault s1 = uaccess_fault s" "um_mem s1 = um_mem s" "um_writable s1 = um_writable s"
proof -
  obtain n a b c x where e: "e = (n, a, b, c, x)" by (cases e)
  have "uaccess_fault s1 = uaccess_fault s \<and> um_mem s1 = um_mem s \<and> um_writable s1 = um_writable s"
  proof (cases "n \<ge> KSYS_NR")
    case True
    then show ?thesis using assms(3) by (simp add: run_call_def e)
  next
    case False
    then have "tbl ! unat n \<in> set tbl" using assms(2) by (simp add: word_le_nat_alt)
    moreover have "(tbl ! unat n) a b c x s = Some (Inr (r, s1))" using assms(3) False by (simp add: run_call_def e)
    ultimately show ?thesis using assms(1) unfolding calls_ok_def by blast
  qed
  then show "uaccess_fault s1 = uaccess_fault s" "um_mem s1 = um_mem s" "um_writable s1 = um_writable s" by simp_all
qed

lemma dispatch_one_runs:
  assumes ok: "calls_ok tbl" and len: "length tbl = unat KSYS_NR" and f: "\<not> uaccess_fault s" and e: "desc_at (um_mem s) d i e"
    and w: "um_writable s (word_at d (5 * i + 1))" "um_writable s (word_at d (5 * i + 2))" and ne: "word_at d (5 * i + 1) \<noteq> word_at d (5 * i + 2)"
  shows "bsys_dispatch_one tbl (d + of_nat (BSYS_DESC_LEN * i)) s =
    bindR (run_call tbl e s) (\<lambda>(r, s1). Some (Inr (0, put_answer d i (syscall_cookie s1, r) s1)))"
proof -
  obtain n a b c x where ex: "e = (n, a, b, c, x)" by (cases e)
  have m: "um_mem s (word_at d (5 * i)) = Some n" "um_mem s (word_at d (5 * i + 1)) = Some a" "um_mem s (word_at d (5 * i + 2)) = Some b"
    "um_mem s (word_at d (5 * i + 3)) = Some c" "um_mem s (word_at d (5 * i + 4)) = Some x" using e by (simp_all add: desc_at_def ex)
  have call: "(if n \<ge> KSYS_NR then Some (Inr (of_int (- ENOSYS), s)) else if unat n \<ge> length tbl then Some (Inl Out_of_bounds)
      else (tbl ! unat n) a b c x s) = run_call tbl e s"
    using len by (simp add: run_call_def ex word_le_nat_alt)
  let ?p = "d + of_nat (BSYS_DESC_LEN * i)"
  have pk: "uaccess_peekq ?p s = (n, s)" "uaccess_peekq (?p + 8) s = (a, s)" "uaccess_peekq (?p + 16) s = (b, s)"
    "uaccess_peekq (?p + 24) s = (c, s)" "uaccess_peekq (?p + 32) s = (x, s)"
    unfolding desc_words uaccess_peekq_def m by simp_all
  have cf: "uaccess_check_fault s = (False, s)" using f by (simp add: uaccess_check_fault_def)
  have poke: "uaccess_pokeq (?p + 16) r (uaccess_pokeq (?p + 8) (syscall_cookie s1) s1) = put_answer d i (syscall_cookie s1, r) s1"
    "uaccess_check_fault (put_answer d i (syscall_cookie s1, r) s1) = (False, put_answer d i (syscall_cookie s1, r) s1)"
    if "run_call tbl e s = Some (Inr (r, s1))" for r s1
    using run_call_user [OF ok len that] m w ne f unfolding desc_words uaccess_pokeq_def
    by (simp_all add: put_answer_def uaccess_check_fault_def)
  show ?thesis unfolding bsys_dispatch_one_def pk cf prod.case Let_def if_False call
    by (intro bindR_cong) (auto simp: poke simp del: of_nat_mult)
qed

lemma desc_at_cong:
  assumes "\<And>j. j < 5 \<Longrightarrow> m' (word_at d (5 * i + j)) = m (word_at d (5 * i + j))"
  shows "desc_at m' d i e = desc_at m d i e"
  using assms [of 0] assms [of 1] assms [of 2] assms [of 3] assms [of 4] by (simp add: desc_at_def)

lemma desc_at_answered:
  assumes "desc_at m d i e" and ne: "\<And>j k. j < 5 \<Longrightarrow> k < 5 \<Longrightarrow> word_at d (5 * i + j) = word_at d (5 * i + k) \<longleftrightarrow> j = k"
  shows "desc_at (m(word_at d (5 * i + 1) \<mapsto> ck, word_at d (5 * i + 2) \<mapsto> r)) d i (answered e (ck, r))"
  using assms(1) ne [of 0 1] ne [of 0 2] ne [of 1 2] ne [of 3 1] ne [of 3 2] ne [of 4 1] ne [of 4 2]
  by (cases e) (simp add: desc_at_def answered_def)

lemma batch_step:
  assumes fit: "unat d + 8 * (5 * n) \<le> 2 ^ 64" and tbl: "calls_ok tbl" "length tbl = unat KSYS_NR" and b: "batch_at d n i (e # es) s"
    and r: "run_call tbl e s = Some (Inr (r, s1))"
  shows "batch_at d n (Suc i) es (put_answer d i p s1)"
proof -
  note u = run_call_user [OF tbl r]
  have i: "i + length (e # es) = n" using b by (simp add: batch_at_def)
  have "um_mem (put_answer d i p s1) (word_at d (5 * (Suc i + j) + k)) = um_mem s (word_at d (5 * (Suc i + j) + k))" if "k < 5" "j < length es" for j k
    using word_at_inj [OF fit, of "5 * (Suc i + j) + k" "5 * i + 1"] word_at_inj [OF fit, of "5 * (Suc i + j) + k" "5 * i + 2"] that i u
    by (simp add: put_answer_def)
  then have "desc_at (um_mem (put_answer d i p s1)) d (Suc i + j) (es ! j)" if "j < length es" for j
    using b that unfolding batch_at_def by (subst desc_at_cong [of _ _ _ "um_mem s"]) (auto dest!: spec [of _ "Suc j"])
  then show ?thesis using b i u by (simp add: batch_at_def put_answer_def)
qed

text \<open>The loop, when the entries before \<open>i\<close> are done.\<close>

lemma dispatch_loop_runs:
  assumes fit: "unat d + 8 * (5 * n) \<le> 2 ^ 64" and tbl: "calls_ok tbl" "length tbl = unat KSYS_NR" and "batch_at d n i es s"
  shows "dispatch_loop tbl d [i..<n] s = bindR (run_batch tbl d i es s) (\<lambda>(_, s'). Some (Inr (0, s')))"
  using assms(4)
proof (induction es arbitrary: i s)
  case Nil
  then show ?case by (simp add: batch_at_def)
next
  case (Cons e es)
  have i: "i < n" using Cons.prems by (simp add: batch_at_def)
  have e: "desc_at (um_mem s) d i e" using Cons.prems unfolding batch_at_def by (auto dest!: spec [of _ 0])
  have w: "\<not> uaccess_fault s" "um_writable s (word_at d (5 * i + 1))" "um_writable s (word_at d (5 * i + 2))"
    using Cons.prems i by (simp_all add: batch_at_def)
  have ne: "word_at d (5 * i + 1) \<noteq> word_at d (5 * i + 2)" using word_at_inj [OF fit, of "5 * i + 1" "5 * i + 2"] i by simp
  note one = dispatch_one_runs [OF tbl w(1) e w(2,3) ne]
  have "bindR (run_call tbl e s) (\<lambda>(r, s1). dispatch_loop tbl d [Suc i..<n] (put_answer d i (syscall_cookie s1, r) s1)) =
      bindR (run_call tbl e s) (\<lambda>(r, s1). bindR (run_batch tbl d (Suc i) es (put_answer d i (syscall_cookie s1, r) s1)) (\<lambda>(_, s'). Some (Inr (0, s'))))"
    by (intro bindR_cong) (auto intro: Cons.IH batch_step [OF fit tbl Cons.prems])
  then show ?case using i by (simp add: one upt_conv_Cons bindR_assoc case_prod_unfold del: of_nat_mult)
qed

text \<open>What a batch that returns leaves in memory.\<close>

lemma run_batch_answers:
  assumes fit: "unat d + 8 * (5 * n) \<le> 2 ^ 64" and tbl: "calls_ok tbl" "length tbl = unat KSYS_NR" and "batch_at d n i es s"
    and "run_batch tbl d i es s = Some (Inr (out, s'))"
  shows "length out = length es \<and> (\<forall>j<length es. desc_at (um_mem s') d (i + j) (answered (es ! j) (out ! j))) \<and>
    (\<forall>a. (\<forall>k. 5 * i \<le> k \<longrightarrow> k < 5 * n \<longrightarrow> a \<noteq> word_at d k) \<longrightarrow> um_mem s' a = um_mem s a)"
  using assms(4,5)
proof (induction es arbitrary: i s out)
  case Nil
  then show ?case by simp
next
  case (Cons e es)
  have i: "i < n" using Cons.prems(1) by (simp add: batch_at_def)
  have inj: "word_at d j = word_at d k \<longleftrightarrow> j = k" if "j < 5 * n" "k < 5 * n" for j k using word_at_inj [OF fit that] .
  obtain r s1 out' where r: "run_call tbl e s = Some (Inr (r, s1))"
    and rest: "run_batch tbl d (Suc i) es (put_answer d i (syscall_cookie s1, r) s1) = Some (Inr (out', s'))" and out: "out = (syscall_cookie s1, r) # out'"
    using Cons.prems(2) by (auto simp: bindR_eq_Inr)
  let ?s = "put_answer d i (syscall_cookie s1, r) s1"
  note u = run_call_user [OF tbl r]
  note ih = Cons.IH [OF batch_step [OF fit tbl Cons.prems(1) r] rest]
  have e: "desc_at (um_mem s1) d i e" using Cons.prems(1) u unfolding batch_at_def by (auto dest!: spec [of _ 0])
  have "um_mem s' (word_at d (5 * i + j)) = um_mem ?s (word_at d (5 * i + j))" if j: "j < 5" for j
    using ih inj [of "5 * i + j"] i j by simp
  moreover have "desc_at (um_mem ?s) d i (answered e (syscall_cookie s1, r))"
    using desc_at_answered [OF e, of "syscall_cookie s1" r] inj i by (simp add: put_answer_def)
  ultimately have first: "desc_at (um_mem s') d i (answered e (syscall_cookie s1, r))" by (subst desc_at_cong [of _ _ _ "um_mem ?s"]) simp_all
  have "desc_at (um_mem s') d (i + j) (answered ((e # es) ! j) (out ! j))" if "j < length (e # es)" for j
    using first ih that unfolding out by (cases j) simp_all
  moreover have "um_mem s' a = um_mem s a" if a: "\<And>k. 5 * i \<le> k \<Longrightarrow> k < 5 * n \<Longrightarrow> a \<noteq> word_at d k" for a
    using ih a [of "5 * i + 1"] a [of "5 * i + 2"] a i u by (simp add: put_answer_def)
  ultimately show ?case using ih out by simp
qed

lemma uaccess_inside:
  assumes "MEM_USER_START \<le> d" "unat d + unat n \<le> unat MEM_USER_END"
  shows "uaccess_okay d n"
proof -
  have u: "unat MEM_USER_END = 0x100000000000" "unat MEM_USER_START = 0x7000000000" by (simp_all add: MEM_USER_END_def mem_map)
  have "0x7000000000 \<le> unat d" using assms(1) u by (simp add: word_le_nat_alt)
  then have "unat n \<le> unat (MEM_USER_END - MEM_USER_START)" using assms(2) u by (simp add: MEM_USER_END_def mem_map)
  moreover have "unat (d + n) = unat d + unat n" using assms(2) u by (intro unat_plus_if' [THEN trans, OF if_P]) simp
  ultimately show ?thesis using assms by (simp add: uaccess_okay_def word_less_nat_alt word_le_nat_alt not_less)
qed


text \<open>
  A batch of three: a datagram whose payload is not in the region for payloads, a call that answers with the word at the address it is given, here the
  answer to the first, and an unknown number.
\<close>

definition reading :: "'k bsysfn" where
  "reading a b c x s = Some (Inr (case um_mem s a of None \<Rightarrow> of_int (- EFAULT) | Some v \<Rightarrow> v, s\<lparr>syscall_cookie := b\<rparr>))"

definition sample_user :: "net_state user" where
  "sample_user = \<lparr>um_mem = map_of (zip (map (word_at 0x7000000000) [0..<17]) [0, 1, 64, 0x7000000078, 6, 5, 0x7000000010, 8, 0, 0, 77, 0, 0, 0, 0, 9, 9]),
     um_writable = (\<lambda>a. True), uaccess_fault = False, syscall_cookie = 9, um_kernel = sample_net\<rparr>"


section \<open>Mappings\<close>

text \<open>Addresses of pages.\<close>

lemma pgoff_take: "PGOFF_2MB v = take_bit 21 v"
  by (simp add: PGOFF_2MB_def page_sizes take_bit_eq_mask mask_eq_exp_minus_1)

lemma pgoff_unat: "PGOFF_2MB v = 0 \<longleftrightarrow> 2 ^ 21 dvd unat v"
proof -
  have "unat (take_bit 21 v) = unat v mod 2 ^ 21" by (metis take_bit_eq_mod unsigned_take_bit_eq)
  then show ?thesis unfolding pgoff_take by (metis dvd_eq_mod_eq_0 unsigned_eq_0_iff)
qed

lemma pgaddr_aligned: "PGOFF_2MB v = 0 \<Longrightarrow> PGADDR_2MB v = v"
proof -
  assume "PGOFF_2MB v = 0"
  then have "bit v k \<Longrightarrow> 21 \<le> k" for k unfolding pgoff_take by (metis bit_0_eq bit_take_bit_iff bot_apply bot_bool_def not_less)
  moreover have "(of_int (PGSIZE_2MB - 1) :: u64) = mask 21" by (simp add: page_sizes mask_eq_exp_minus_1)
  ultimately have "bit (v AND NOT (of_int (PGSIZE_2MB - 1))) k = bit v k" for k using bit_imp_le_length [of v k] by (auto simp: bit_simps dest: leD)
  then show ?thesis by (simp add: PGADDR_2MB_def bit_word_eqI)
qed

lemma pte_addr_page:
  assumes "PGOFF_2MB x = 0" "unat x < 2 ^ 52"
  shows "PTE_ADDR x = x"
proof -
  have low: "bit x k \<Longrightarrow> 21 \<le> k" for k using assms(1) unfolding pgoff_take by (metis bit_0_eq bit_take_bit_iff bot_apply bot_bool_def not_less)
  have "unat (take_bit 52 x) = unat x" using assms(2) by (simp add: unsigned_take_bit_eq take_bit_nat_eq_self)
  then have "take_bit 52 x = x" by (rule word_unat_eq_iff [THEN iffD2])
  then have high: "bit x k \<Longrightarrow> k < 52" for k by (metis bit_take_bit_iff)
  have c: "(0xffffffffff000 :: u64) = push_bit 12 (mask 40)" by (simp add: mask_eq_exp_minus_1 push_bit_eq_mult)
  have "bit (x AND 0xffffffffff000) k = bit x k" for k
    unfolding c using low [of k] high [of k] by (auto simp: bit_simps)
  then show ?thesis by (simp add: PTE_ADDR_def bit_word_eqI)
qed
lemma page_of:
  assumes "PGOFF_2MB a = 0" "unat a + n * 2 ^ 21 < 2 ^ 52" "i < n"
  shows "unat (a + of_nat (i * 2 ^ 21)) = unat a + i * 2 ^ 21" "PGOFF_2MB (a + of_nat (i * 2 ^ 21)) = 0"
    "PTE_ADDR (a + of_nat (i * 2 ^ 21)) = a + of_nat (i * 2 ^ 21)"
proof -
  have lt: "i * 2 ^ 21 < n * 2 ^ 21" using assms(3) by simp
  have "unat (of_nat (i * 2 ^ 21) :: u64) = i * 2 ^ 21" using assms(2) lt by (intro unat_of_nat64) simp
  then show u: "unat (a + of_nat (i * 2 ^ 21)) = unat a + i * 2 ^ 21" using assms(2) lt by (subst unat_plus_if') simp
  then show o: "PGOFF_2MB (a + of_nat (i * 2 ^ 21)) = 0" using assms(1) unfolding pgoff_unat by (metis dvd_add dvd_triv_right)
  show "PTE_ADDR (a + of_nat (i * 2 ^ 21)) = a + of_nat (i * 2 ^ 21)" by (rule pte_addr_page [OF o]) (use u assms(2) lt in linarith)
qed

lemma perm_user: "(perm OR VM_PERM_U) AND VM_PERM_U \<noteq> 0" "(perm OR VM_PERM_U) AND VM_PERM_W = perm AND VM_PERM_W"
  "(perm OR VM_PERM_U) AND VM_PERM_R = perm AND VM_PERM_R" "(perm OR VM_PERM_U) AND VM_PERM_X = perm AND VM_PERM_X"
  by (simp_all add: vm_defs bit.conj_disj_distrib2)

lemma mmap_len:
  assumes "n < 1024"
  shows "s32 (int n * PGSIZE_2MB) = int (n * 2 ^ 21)" "unat (of_nat (n * 2 ^ 21) :: u64) = n * 2 ^ 21" "unat (of_int (int n) :: u32) = n"
proof -
  show "unat (of_nat (n * 2 ^ 21) :: u64) = n * 2 ^ 21" using assms by (intro unat_of_nat64) simp
  show "s32 (int n * PGSIZE_2MB) = int (n * 2 ^ 21)" using assms by (simp add: page_sizes)
  show "unat (of_int (int n) :: u32) = n" using assms by (simp add: unsigned_of_nat take_bit_nat_eq_self)
qed

text \<open>The region of user mappings lies behind all pages that have an entry in the table of pages.\<close>

lemma iomapm_no_page:
  assumes "MEM_USER_IOMAPM_BASE_ADDR \<le> a" "a < MEM_USER_IOMAPM_END_ADDR" "length (page_tbl s) = NUM_PAGES"
  shows "page_free a s = Inl Out_of_bounds"
proof -
  have "0x8000000000 \<le> unat a" "unat a < 0x100000000000"
    using assms(1,2) by (simp_all add: word_le_nat_alt word_less_nat_alt MEM_USER_IOMAPM_BASE_ADDR_def MEM_USER_IOMAPM_END_ADDR_def)
  then have "unat (a - MEM_PHYS_BASE_ADDR) = unat a - 0x4000000000" by (subst unat_sub) (simp_all add: mem_map word_le_nat_alt)
  then have "unat (PAGE_NUM a) = (unat a - 0x4000000000) div 2 ^ 21" by (simp add: PAGE_NUM_def PGN_2MB_def unat_drop_bit_eq drop_bit_eq_div unat_div)
  moreover have "0x20000 * 2 ^ 21 \<le> unat a - 0x4000000000" using \<open>0x8000000000 \<le> unat a\<close> by simp
  then have "0x20000 \<le> (unat a - 0x4000000000) div 2 ^ 21" by (metis div_le_mono nonzero_mult_div_cancel_right power_not_zero zero_neq_numeral)
  moreover have "NUM_PAGES = 98304" by (simp add: NUM_PAGES_def PGN_2MB_def mem_map drop_bit_eq_div)
  ultimately show ?thesis using assms(3) by (simp add: page_free_def page_ent_of_def)
qed

text \<open>What both outcomes start from: the pages are allocated.\<close>

lemma mmap_allocates:
  assumes os: "os_grants os" and nr: "0 < n" "n < 1024"
    and reg: "MEM_PHYS_BASE_ADDR \<le> page_pos s" "unat (page_pos s) + n * 2 ^ 21 \<le> unat MEM_USER_START" "length (page_tbl s) = NUM_PAGES"
  shows "\<exists>s1. page_alloc_contig os node (of_int (int n)) s = Inr (page_pos s, s1) \<and> page_pos s1 = page_pos s + of_nat (n * 2 ^ 21) \<and>
    length (page_tbl s1) = NUM_PAGES \<and> page_pos s \<noteq> NULL \<and> pages_kept os (page_pos s) (of_nat (n * 2 ^ 21)) (pgroot s) (pgroot s1)"
proof -
  note l = mmap_len [OF nr(2)]
  have "page_pos s \<noteq> NULL" using reg(1) by (auto simp: mem_map)
  then show ?thesis using page_alloc_granted [OF os _ _ reg(1) _ reg(3), of "of_int (int n)" node, unfolded l(3), OF nr reg(2)] by auto
qed

text \<open>The last address of a block of pages.\<close>

lemma last_addr:
  fixes a :: u64
  assumes "unat a + n * 2 ^ 21 < 2 ^ 52" "0 < n"
  shows "v \<le> a + of_nat (n * 2 ^ 21) - 1 \<longleftrightarrow> unat v < unat a + n * 2 ^ 21"
proof -
  have "unat (of_nat (n * 2 ^ 21) :: u64) = n * 2 ^ 21" using assms(1) by (intro unat_of_nat64) simp
  then have al: "unat (a + of_nat (n * 2 ^ 21)) = unat a + n * 2 ^ 21" using assms(1) by (subst unat_plus_if') simp
  then have "1 \<le> a + of_nat (n * 2 ^ 21)" using assms(2) by (simp add: word_le_nat_alt)
  then have "unat (a + of_nat (n * 2 ^ 21) - 1) = unat a + n * 2 ^ 21 - 1" using al by (simp add: unat_sub)
  then show ?thesis using assms(2) by (simp only: word_le_nat_alt) (simp, linarith)
qed

text \<open>What the walk leaves when a block of pages is mapped at a page.\<close>

lemma walk_pages:
  fixes P :: u64 and pt :: "u64 \<Rightarrow> u64"
  assumes w: "os_walks os" and a: "PGOFF_2MB a = 0" "unat a + n * 2 ^ 21 < 2 ^ 52" and p: "PGOFF_2MB pa = 0" "unat pa + n * 2 ^ 21 < 2 ^ 52" and n: "0 < n"
  defines "pt' \<equiv> snd (dune_vm_page_walk os a (a + of_nat (n * 2 ^ 21) - 1) (vm_map_phys_helper pa a P) CREATE_BIG pt)"
  shows "i < n \<Longrightarrow> pt' (a + of_nat (i * 2 ^ 21)) = (pa + of_nat (i * 2 ^ 21)) OR P"
    "\<not> (unat a \<le> unat v \<and> unat v < unat a + n * 2 ^ 21) \<Longrightarrow> pt' v = pt v"
proof -
  have pt': "pt' v = (if PGOFF_2MB v = 0 \<and> a \<le> v \<and> unat v < unat a + n * 2 ^ 21 then PTE_ADDR (pa + (v - a)) OR P else pt v)" for v
    using w unfolding pt'_def os_walks_def vm_map_phys_helper_def last_addr [OF a(2) n, symmetric] by (simp add: pgaddr_aligned [OF a(1)])
  show "pt' (a + of_nat (i * 2 ^ 21)) = (pa + of_nat (i * 2 ^ 21)) OR P" if i: "i < n"
  proof -
    note q = page_of [OF a i]
    have "a \<le> a + of_nat (i * 2 ^ 21)" "unat (a + of_nat (i * 2 ^ 21)) < unat a + n * 2 ^ 21" using q(1) i by (simp_all add: word_le_nat_alt)
    then show ?thesis using pt' [of "a + of_nat (i * 2 ^ 21)"] q(2) page_of(3) [OF p i] by simp
  qed
  show "\<not> (unat a \<le> unat v \<and> unat v < unat a + n * 2 ^ 21) \<Longrightarrow> pt' v = pt v" using pt' [of v] by (auto simp: word_le_nat_alt)
qed



text \<open>The path for a part that is taken already releases the pages at the address of the user, which is not that of any page: it faults.\<close>

theorem mmap_busy_faults:
  assumes "os_grants os" "0 < n" "n < 1024" "MEM_USER_IOMAPM_BASE_ADDR \<le> a" "unat a + n * 2 ^ 21 < unat MEM_USER_IOMAPM_END_ADDR"
    and "MEM_PHYS_BASE_ADDR \<le> page_pos s" "unat (page_pos s) + n * 2 ^ 21 \<le> unat MEM_USER_START" "length (page_tbl s) = NUM_PAGES"
    and "\<And>pt. walk a (a + of_nat (n * 2 ^ 21) - 1) pt > 0"
  shows "sys_mmap os walk node a (int n) PGSIZE_2MB perm s = Inl Out_of_bounds"
proof -
  let ?len = "of_nat (n * 2 ^ 21) :: u64"
  note l = mmap_len [OF assms(3)]
  obtain s1 where s1: "page_alloc_contig os node (of_int (int n)) s = Inr (page_pos s, s1)" "length (page_tbl s1) = NUM_PAGES" "page_pos s \<noteq> NULL"
    using mmap_allocates [OF assms(1-3,6-8)] by blast
  have e: "unat MEM_USER_IOMAPM_END_ADDR = 0x100000000000" by (simp add: MEM_USER_IOMAPM_END_ADDR_def)
  have al: "unat (a + ?len) = unat a + n * 2 ^ 21" using assms(5) l(2) e by (subst unat_plus_if') simp
  then have guard: "\<not> (a < MEM_USER_IOMAPM_BASE_ADDR \<or> a + of_int (s32 (int n * PGSIZE_2MB)) \<ge> MEM_USER_IOMAPM_END_ADDR)"
    using assms(4,5) unfolding l(1) of_int_of_nat_eq by (simp only: word_le_nat_alt word_less_nat_alt) linarith
  have mapped: "vm_is_mapped walk a (of_int (s32 (int n * PGSIZE_2MB))) s1" using assms(9) [of "pgroot s1"] unfolding l(1) by (simp add: vm_is_mapped_def)
  have "a < MEM_USER_IOMAPM_END_ADDR" using assms(5) by (simp add: word_less_nat_alt)
  then have "page_free a s1 = Inl Out_of_bounds" using iomapm_no_page assms(4) s1(2) by blast
  then have "page_free_contig a [0..<n] s1 = Inl Out_of_bounds" using assms(2) by (simp add: upt_conv_Cons)
  then show ?thesis using guard mapped s1(1,3) l(3) by (simp add: sys_mmap_def)
qed

section \<open>Events\<close>

text \<open>Events are stored in order behind each other; the array is not tested for room, so one event too many is written behind its end.\<close>

theorem events_in_order:
  assumes "ba_len a + length fs \<le> length (ba_descs a)"
  shows "\<exists>a'. enq_all usys_put fs a = Inr a' \<and> ba_len a' = ba_len a + length fs \<and> take (ba_len a) (ba_descs a') = take (ba_len a) (ba_descs a) \<and>
    (\<forall>i<length fs. ba_descs a' ! (ba_len a + i) = (fs ! i) (ba_descs a ! (ba_len a + i)))"
  using assms
proof (induction fs arbitrary: a)
  case (Cons f fs)
  define b where "b = a\<lparr>ba_len := ba_len a + 1, ba_descs := (ba_descs a)[ba_len a := f (ba_descs a ! ba_len a)]\<rparr>"
  have b: "usys_put f a = Inr b" using Cons.prems by (simp add: usys_put_def bsys_arr_next_raw_def b_def)
  obtain a' where a': "enq_all usys_put fs b = Inr a'" "ba_len a' = ba_len b + length fs" "take (ba_len b) (ba_descs a') = take (ba_len b) (ba_descs b)"
    "\<forall>i<length fs. ba_descs a' ! (ba_len b + i) = (fs ! i) (ba_descs b ! (ba_len b + i))"
    using Cons.IH [of b] Cons.prems by (auto simp: b_def)
  have lb: "ba_len b = Suc (ba_len a)" "ba_descs b = (ba_descs a)[ba_len a := f (ba_descs a ! ba_len a)]" by (simp_all add: b_def)
  have "ba_descs a' ! ba_len a = take (ba_len b) (ba_descs a') ! ba_len a" by (simp add: lb(1))
  also have "\<dots> = f (ba_descs a ! ba_len a)" unfolding a'(3) using Cons.prems by (simp add: lb)
  finally have tk: "ba_descs a' ! ba_len a = f (ba_descs a ! ba_len a)" .
  have "take (ba_len a) (ba_descs a') = take (ba_len a) (take (ba_len b) (ba_descs a'))" by (simp add: lb(1) min_def)
  also have "\<dots> = take (ba_len a) (ba_descs a)" unfolding a'(3) by (simp add: lb min_def)
  finally have "take (ba_len a) (ba_descs a') = take (ba_len a) (ba_descs a)" .
  moreover have "ba_descs a' ! (ba_len a + i) = ((f # fs) ! i) (ba_descs a ! (ba_len a + i))" if "i < length (f # fs)" for i
    using that tk a'(4) by (cases i) (simp_all add: lb)
  ultimately show ?case using b a'(1,2) lb(1) by (intro exI [of _ a']) simp
qed simp

end
