(* ===== verification/Spec2Isabelle.thy ===== *)
theory Spec2Isabelle
  imports System_Run Sched_Properties Pool_Setup Timer Chksum Cfg_Properties Request_Answer Icmp Atomic Tailqueue Kstats
    Driver_Properties Startup_Devices Clock Syscall_Properties
begin

text \<open>
  Verification library for Shinjuku, the preemptive single-address-space dataplane operating system under \<open>src/\<close>.

  \<^bold>\<open>The program.\<close>  A networking core polls the device, checks packets and passes batches of request packets to the dispatcher.  The
  dispatcher queues one task per request and port, hands tasks to worker cores through one request and one response slot per worker,
  interrupts workers that run too long, and returns packet buffers to the networking core.  A worker parses the packet, runs the request
  in a context of its own, sends the answer and reports to the dispatcher.  Below these threads are memory pools, a page allocator, timers,
  device queues and the drivers of two network cards, address resolution and the UDP/IP output path.  At start-up the first core reads the
  configuration file, registers the devices and creates the other cores, which set up their queues before the devices are started.

  \<^bold>\<open>How the code is represented.\<close>  \<open>Prelude\<close>: machine integers are words of their width (\<open>int\<close> where the C type is \<open>int\<close>, with
  \<open>s32\<close> where it may wrap); memory is a function from the address of an object and an offset to a word; a fault (failed assertion,
  null pointer, access out of bounds, double free, undefined shift, \<open>panic\<close>, \<open>exit\<close>) is a value of the sum type \<open>res\<close>.  Operations take
  the state and return it updated; one that may not return (a lock that is held, a loop over a broken list) has an option result with
  \<open>None\<close> for not returning; no definition has a fuel argument.  Parameters stand for what is not
  under \<open>src/\<close>: the operating system and Dune (record \<open>os\<close> of \<open>Mem\<close>, with what is relied on as \<open>mmap_fixed\<close> and \<open>pagemap_present\<close>),
  the registers and descriptors of a device, DPDK (record \<open>dpdk\<close> of \<open>Ethdev\<close>), the files of \<open>sysfs\<close> (\<open>Pci\<close>), \<open>makecontext\<close>, libconfig
  (record \<open>config_api\<close> of \<open>Cfg\<close>), the handlers of timers.  The output path takes the functions \<open>poll\<close>, \<open>xmit\<close> and \<open>reclaim\<close> of a driver as
  arguments; the drivers that provide them are modelled too.
  The time stamp counter is an argument wherever the code reads it.

  \<^bold>\<open>Theories and sources.\<close>
  \<^item> \<open>Mempool\<close>, \<open>Mempool_Create\<close>, \<open>Pool_Setup\<close>: \<open>inc/ix/mempool.h\<close>, \<open>dp/core/mempool.c\<close> and the pools of \<open>taskqueue.c\<close>, \<open>context.c\<close>,
    \<open>mbuf.c\<close>, \<open>worker.c\<close>.  \<open>Pool_Interface\<close> is the contract (locale \<open>pool_provider\<close>) every client uses, interpreted on \<open>Mempool\<close> as \<open>mp\<close>.
  \<^item> \<open>Mem\<close>, \<open>Page\<close>: \<open>dp/core/mem.c\<close>, \<open>vm.c\<close>, \<open>page.c\<close> and their headers.
  \<^item> \<open>Linked_Lists\<close>: \<open>inc/ix/list.h\<close>.  \<open>Timer\<close>: \<open>dp/core/timer.c\<close>, \<open>utimer.c\<close>; \<open>Clock\<close>: the calibration and the busy waits.  \<open>Hash\<close>: \<open>inc/ix/hash.h\<close>.  \<open>Byteorder\<close>, \<open>Chksum\<close>:
    \<open>inc/ix/byteorder.h\<close>, \<open>inc/asm/chksum.h\<close>.  \<open>Ieee\<close>: the rounding of the floating point code.
  \<^item> \<open>Tskq\<close>, \<open>Smart_Tskq\<close>, \<open>Dispatcher\<close>: \<open>inc/ix/dispatch.h\<close>, \<open>dp/core/dispatcher.c\<close>.  \<open>Fifo_Interface\<close> is the contract of a queue
    (locale \<open>fifo\<close>), interpreted on the task queues, the receive queues and the linked lists.  \<open>Dispatch_Refine\<close> relates the memory to
    lists of tasks and buffers and a set of contexts.
  \<^item> \<open>Context\<close>, \<open>Context_Switch\<close>: \<open>inc/ix/context.h\<close>, \<open>dp/core/context_fast.S\<close>.
  \<^item> \<open>Net_Input\<close>, \<open>Ethqueue\<close>, \<open>Networker\<close>, \<open>Worker\<close>: \<open>dp/net/ip.c\<close>, \<open>udp.c\<close>, \<open>inc/ix/ethqueue.h\<close>, \<open>dp/core/networker.c\<close>, \<open>worker.c\<close>.
  \<^item> \<open>System\<close>, \<open>System_Inv\<close>, \<open>System_Worker\<close>, \<open>System_Net\<close>, \<open>System_Safe\<close>, \<open>System_Run\<close>: the three kinds of threads as a step relation,
    interleaved at the stores they synchronise with, its invariant, and an executable scheduler.
  \<^item> \<open>Net_State\<close>: the state of the network code, with \<open>inc/ix/lock.h\<close>, the run lists of \<open>dp/core/cpu.c\<close> and the buffer operations of
    \<open>inc/ix/mbuf.h\<close>.  \<open>Arp\<close>, \<open>Arp_Table\<close>, \<open>Arp_Properties\<close>: \<open>dp/net/arp.c\<close>; the configuration relies on the table through the locale
    \<open>addr_table\<close>, interpreted as \<open>arp\<close>.
  \<^item> \<open>Transmit\<close>, \<open>Transmit_Properties\<close>, \<open>Udp_Send\<close>, \<open>Work_Loop\<close>, \<open>Request_Answer\<close>: \<open>inc/ix/transmit.h\<close>, \<open>uaccess.h\<close>, \<open>vm_lookup_phys\<close> of
    \<open>vm.h\<close>, the output functions of \<open>dp/net/udp.c\<close> and \<open>ip.c\<close>, and \<open>generic_work\<close> of \<open>dp/core/worker.c\<close>.
  \<^item> \<open>Icmp\<close>: \<open>dp/net/icmp.c\<close>.  \<open>Atomic\<close>: \<open>inc/ix/atomic.h\<close> and \<open>bitmap.h\<close>.
  \<^item> \<open>Ring\<close>, \<open>Rx_Ring\<close>: the descriptor rings of the two drivers, with the contract of a transmit driver (locale \<open>tx_driver\<close>).  \<open>Ixgbe\<close>,
    \<open>Ixgbe_Dev\<close>: \<open>dp/drivers/ixgbe.c\<close>; \<open>I40e\<close>, \<open>I40e_Dev\<close>: \<open>dp/drivers/i40e.c\<close>; the locale is interpreted for both in \<open>Driver_Properties\<close>.
  \<^item> \<open>Pci\<close>: \<open>dp/core/pci.c\<close>.  \<open>Ethdev\<close>: \<open>dp/core/ethdev.c\<close> and \<open>dp/drivers/common.c\<close>, with the contract by which a device takes queues from a
    driver (locale \<open>queue_driver\<close>, interpreted for both drivers).
  \<^item> \<open>Startup\<close>, \<open>Startup_Inv\<close>, \<open>Startup_Properties\<close>, \<open>Startup_Devices\<close>: \<open>dp/core/init.c\<close> and the start of a core in \<open>dp/core/cpu.c\<close>: the registration of
    devices and, as a step relation of all cores, the protocol up to the barrier, with its invariant.
  \<^item> \<open>Syscall\<close>, \<open>Syscall_Properties\<close>: \<open>dp/core/syscall.c\<close>, \<open>inc/ix/syscall.h\<close>, \<open>inc/asm/uaccess.h\<close>.
  \<^item> \<open>Tailqueue\<close>: \<open>dp/core/tailqueue.c\<close>.  \<open>Kstats\<close>: \<open>dp/core/kstats.c\<close>.
  \<^item> \<open>Addr_Text\<close>, \<open>Cfg\<close>, \<open>Cfg_Properties\<close>: addresses as text and \<open>dp/core/cfg.c\<close>.
  \<^item> \<open>Sample\<close>, \<open>Net_Sample\<close>: concrete states that meet the hypotheses of the general results.

  \<^bold>\<open>What is shown.\<close>  Scheduling: no reachable state of the interleaved threads is a fault; workers never share a context or a buffer; a
  request does not change while it is served; no buffer is lost or duplicated; the dispatcher always has a next step; each handler does to
  the queues, buffers and contexts what it is for, the choice of a queue being the most urgent one in spite of floating point.  An accepted
  request is answered to its sender, and everything the answer took is given back.  The headers sent are headers the receive path
  accepts; the checksum routine is that of RFC 1071.  Start-up: in every interleaving each core has its own queues before a device is started, no
  core works before that, and the protocol comes to an end.  The drivers put packets on their rings, deliver and release them in order.  Batches of
  system calls do what their calls do one after the other.  Pools, pages, lists and timers meet their contracts, from creation on.  The parsers of
  the configuration stay within their arrays, and the static entries they read resolve.  Loops end: the busy loop of a request, the loops of
  \<open>timer_run\<close> and over lists.  Failures are stated as theorems too: exhausted pools, failed mappings, delays out of range, undefined shifts.

  \<^bold>\<open>Bounds.\<close>  Capacities, array sizes and timeouts are the constants of the source.  Hypotheses bound what the source does not: run times up to
  2^50 in the busy loop, where integers are exact in double precision; prefix lengths and counts that fit their C types.

  \<^bold>\<open>Not modelled.\<close>  Logging and the start of DPDK (\<open>log.c\<close>, \<open>dpdk.c\<close>), the page fault handler, migration of flow groups (\<open>ethfg.c\<close> beyond their
  initialisation), TCP and lwIP, which \<open>ip_input\<close> never reaches, \<open>sys_bpoll\<close> and the Dune sandbox, the control plane, the client and
  \<open>libix\<close>: they act on other processes or shared memory outside the program, or are not reached by the request path.  Signal
  handlers are left out of the parts that are modelled.  Threads are interleaved at single stores in program order; the reordering
  of stores that a weaker memory would allow is not modelled.  DPDK, Dune and pcidma under \<open>deps/\<close> are separate projects.
\<close>

end
